(* ===== verification/GT_Prelude.thy ===== *)
theory GT_Prelude
  imports Main "HOL-Library.Word" "HOL-Library.Char_ord" "HOL-Library.List_Lexorder" "HOL-Library.AList"
begin

text \<open>
  Prelude of the GameTrace development: the machine types the components share, the
  named collections their proofs draw on, and generic lemmas on lists, maps, decimal
  numerals and machine words.

  \<^item> Go's \<open>byte\<close>, \<open>uint16\<close>, \<open>uint32\<close> and \<open>uint64\<close> are words of that width, so
    addition wraps as it does in the program; \<open>int\<close> and \<open>int64\<close> values that the program
    only counts with are \<open>int\<close> or \<open>nat\<close>.
  \<^item> A Go \<open>string\<close> is a HOL \<open>string\<close> (a list of bytes); \<open><\<close> on it is the bytewise
    lexicographic order (\<open>Char_ord\<close>, \<open>List_Lexorder\<close>), as in Go.
  \<^item> A \<open>time.Time\<close> is an integer number of nanoseconds and a \<open>time.Duration\<close> a
    difference of two of them; the clock is always an argument.
\<close>

type_synonym byte = "8 word"
type_synonym u16 = "16 word"
type_synonym u32 = "32 word"
type_synonym u64 = "64 word"
type_synonym time = int

text \<open>The result of a Go call that may panic: the value it returns, or the panic.\<close>

datatype 'a go_ret = Ret 'a | Panic

named_theorems inv_defs \<open>definitions of the component invariants\<close>
named_theorems op_defs \<open>definitions of the component operations\<close>

section \<open>Slices of an unbounded byte stream\<close>

definition slice :: "(nat \<Rightarrow> 'a) \<Rightarrow> nat \<Rightarrow> nat \<Rightarrow> 'a list" where
  "slice S p n = map S [p..<p + n]"

lemma length_slice [simp]: "length (slice S p n) = n"
  by (simp add: slice_def)

lemma slice_0 [simp]: "slice S p 0 = []"
  by (simp add: slice_def)

lemma slice_append: "slice S p n @ slice S (p + n) m = slice S p (n + m)"
proof -
  have "[p..<p + (n + m)] = [p..<p + n] @ [p + n..<(p + n) + m]"
    using upt_add_eq_append [of p "p + n" m] by (simp add: add.assoc)
  then show ?thesis
    by (simp add: slice_def add.assoc)
qed

lemma drop_slice: "drop k (slice S p n) = slice S (p + k) (n - k)"
  by (cases "k \<le> n") (simp_all add: slice_def drop_map)

lemma take_slice: "take k (slice S p n) = slice S p (min k n)"
  by (simp add: slice_def take_map min_def)

lemma slice_nth [simp]: "i < n \<Longrightarrow> slice S p n ! i = S (p + i)"
  by (simp add: slice_def)

text \<open>The last separator of a string splits it in one way only.\<close>

lemma split_last:
  assumes "xs @ x # ys = xs' @ x # ys'" and "x \<notin> set ys" and "x \<notin> set ys'"
  shows "xs = xs' \<and> ys = ys'"
proof -
  have "rev ys @ x # rev xs = rev ys' @ x # rev xs'"
    using arg_cong [OF assms(1), of rev] by simp
  moreover have "takeWhile (\<lambda>z. z \<noteq> x) (rev zs @ x # ws) = rev zs" if "x \<notin> set zs" for zs ws
    using that by (subst takeWhile_append2) auto
  ultimately have "rev ys = rev ys'"
    using assms(2,3) by metis
  with assms(1) show ?thesis
    by simp
qed

section \<open>Machine words\<close>

text \<open>
  Positions in an unbounded stream, seen through a 32-bit window: the difference of two
  wrapped positions is their real distance as long as that distance fits the word.
\<close>

lemma unat_diff_positions:
  assumes "p \<le> q" and "q - p < 2 ^ 32"
  shows "unat ((isn + of_nat q) - (isn + of_nat p) :: u32) = q - p"
proof -
  have "(isn + of_nat q) - (isn + of_nat p) = (of_nat (q - p) :: u32)"
    using assms(1) by (simp add: of_nat_diff)
  then show ?thesis
    using assms(2) by (simp add: unat_of_nat)
qed

lemma sint_of_nat_small: "n < 2 ^ 31 \<Longrightarrow> sint (of_nat n :: u32) = int n"
  by (simp add: signed_of_nat signed_take_bit_int_eq_self)

lemma sint_minus_of_nat_small:
  "0 < n \<Longrightarrow> n \<le> 2 ^ 31 \<Longrightarrow> sint (- of_nat n :: u32) = - int n"
proof -
  assume n: "0 < n" "n \<le> 2 ^ 31"
  have "sint (word_of_int (- int n) :: u32) = - int n"
    using n by (simp add: signed_of_int signed_take_bit_int_eq_self del: word_of_int_minus of_int_minus)
  then show ?thesis
    by simp
qed

lemma unat_of_nat32: "n < 2 ^ 32 \<Longrightarrow> unat (of_nat n :: u32) = n"
  by (simp add: unat_of_nat)

lemma of_nat_le_iff32:
  "a < 2 ^ 32 \<Longrightarrow> b < 2 ^ 32 \<Longrightarrow> (of_nat a :: u32) \<le> of_nat b \<longleftrightarrow> a \<le> b"
  by (simp add: word_le_nat_alt unat_of_nat32)

section \<open>Decimal numerals\<close>

text \<open>The decimal text of a number, as \<open>strconv.FormatUint(n, 10)\<close> and \<open>%d\<close> print it.\<close>

definition digit_char :: "nat \<Rightarrow> char" where
  "digit_char d = char_of (48 + d)"

fun show_nat :: "nat \<Rightarrow> string" where
  "show_nat n =
     (if n < 10 then [digit_char n] else show_nat (n div 10) @ [digit_char (n mod 10)])"

declare show_nat.simps [simp del]

lemma digit_char_inj: "d < 10 \<Longrightarrow> e < 10 \<Longrightarrow> digit_char d = digit_char e \<Longrightarrow> d = e"
proof -
  assume b: "d < 10" "e < 10" and eq: "digit_char d = digit_char e"
  from eq have "of_char (char_of (48 + d) :: char) = (of_char (char_of (48 + e) :: char) :: nat)"
    by (simp add: digit_char_def)
  with b show "d = e"
    by (simp only: of_char_of) simp
qed

lemma show_nat_nonempty [simp]: "show_nat n \<noteq> []"
  by (subst show_nat.simps) simp

lemma show_nat_inj_aux: "show_nat m = show_nat n \<Longrightarrow> m = n"
proof (induction m arbitrary: n rule: show_nat.induct)
  case (1 m)
  show ?case
  proof (cases "m < 10 \<or> n < 10")
    case True
    with "1.prems" show ?thesis
      by (auto simp: show_nat.simps [of m] show_nat.simps [of n] append_eq_Cons_conv
            dest: digit_char_inj dest!: sym [of "[]"] split: if_splits)
  next
    case False
    with "1.prems" have "show_nat (m div 10) = show_nat (n div 10)"
      and "digit_char (m mod 10) = digit_char (n mod 10)"
      by (auto simp: show_nat.simps [of m] show_nat.simps [of n])
    moreover from this(2) have "m mod 10 = n mod 10"
      by (rule digit_char_inj [rotated 2]) simp_all
    ultimately have "m div 10 = n div 10" and "m mod 10 = n mod 10"
      using "1.IH" False by blast+
    then show ?thesis
      by (metis div_mult_mod_eq)
  qed
qed

lemma show_nat_inj [simp]: "show_nat m = show_nat n \<longleftrightarrow> m = n"
  using show_nat_inj_aux by blast

lemma show_nat_digit: "c \<in> set (show_nat n) \<Longrightarrow> \<exists>d < 10. c = digit_char d"
proof (induction n rule: show_nat.induct)
  case (1 n)
  then show ?case
    unfolding show_nat.simps [of n] by (auto split: if_splits intro: exI [of _ "n mod 10"])
qed

lemma show_nat_no_sep:
  assumes "of_char c < (48 :: nat)"
  shows "c \<notin> set (show_nat n)"
proof
  assume "c \<in> set (show_nat n)"
  then obtain d :: nat where "d < 10" "c = char_of (48 + d)"
    by (auto simp: digit_char_def dest: show_nat_digit)
  then have "of_char c = 48 + d"
    by (simp only: of_char_of) simp
  with assms show False
    by simp
qed

section \<open>Lists\<close>

lemma sum_list_map_drop_le:
  fixes f :: "'a \<Rightarrow> nat"
  shows "sum_list (map f (drop n xs)) \<le> sum_list (map f xs)"
  by (metis append_take_drop_id le_add2 map_append sum_list.append)

lemma drop_eq_suffix: "length xs - n = k \<Longrightarrow> k \<le> length xs \<Longrightarrow> length (drop n xs) = k"
  by simp

lemma distinct_map_filter_key: "distinct (map f xs) \<Longrightarrow> distinct (map f (filter P xs))"
  by (induction xs) auto

lemma field_of_update: "f v = f (xs ! r) \<Longrightarrow> i < length xs \<Longrightarrow> f (xs[r := v] ! i) = f (xs ! i)"
  by (cases "i = r") simp_all

section \<open>Association lists\<close>

lemma update_length: "length (AList.update k v xs) = (if k \<in> fst ` set xs then length xs else Suc (length xs))"
  by (induction xs) auto

lemma update_new: "k \<notin> fst ` set xs \<Longrightarrow> AList.update k v xs = xs @ [(k, v)]"
  by (induction xs) auto

lemma update_keys_same: "k \<in> fst ` set xs \<Longrightarrow> map fst (AList.update k v xs) = map fst xs"
  by (induction xs) auto

lemma list_all_update: "list_all P xs \<Longrightarrow> P (k, v) \<Longrightarrow> list_all P (AList.update k v xs)"
  by (induction xs) auto

lemma length_delete_le: "length (AList.delete k xs) \<le> length xs"
  by (simp add: AList.delete_eq)

lemma list_all_delete: "list_all P xs \<Longrightarrow> list_all P (AList.delete k xs)"
  by (auto simp: AList.delete_eq list_all_iff)

lemma list_all_map_of: "list_all P xs \<Longrightarrow> map_of xs k = Some v \<Longrightarrow> P (k, v)"
  by (auto simp: list_all_iff dest!: map_of_SomeD)

lemma map_of_filter_key: "map_of (filter (\<lambda>(k, _). P k) xs) k = (if P k then map_of xs k else None)"
  by (induction xs) auto

lemma map_of_filter_Some: "map_of xs k = Some v \<Longrightarrow> P (k, v) \<Longrightarrow> map_of (filter P xs) k = Some v"
  by (induction xs) (auto split: if_splits)

end
