(* ===== verification/Framing.thy ===== *)
theory Framing
  imports GT_Prelude
begin

text \<open>
  \<open>sdk/framing/framing.go\<close>, first half: what a captured frame is, how \<open>ExtractL7\<close> strips
  its encapsulation, and the per-direction TCP reassembly buffer \<open>flowState\<close> with its three
  operations \<open>place\<close>, \<open>drain\<close> and \<open>consume\<close>.

  The packet parser \<open>gopacket\<close> is a third-party package: \<open>ExtractL7\<close> takes it as the
  argument \<open>newPacket\<close>, which gives the layers it found. \<open>netip.Addr\<close> is the list of its
  address bytes (empty for the invalid zero address); the text form of an address is an
  argument of the operations that print it.

  The lemmas show the reassembly law: as long as every segment is a slice of one sent
  stream and lies in the half of the sequence space around the base, the buffer is at
  every moment a contiguous slice of that stream, and no byte that arrived is lost.
\<close>

section \<open>Addresses, flows, segments\<close>

record addr_port =
  ap_addr :: "byte list"
  ap_port :: u16

record tcp_flags =
  FIN :: bool
  SYN :: bool
  RST :: bool
  PSH :: bool
  ACK :: bool
  URG :: bool

record flow_key =
  fk_src :: addr_port
  fk_dst :: addr_port
  fk_protocol :: string

record segment =
  seg_payload :: "byte list"
  seg_flow :: flow_key
  seg_seq :: u32
  seg_flags :: tcp_flags
  seg_isTCP :: bool
  seg_linkType :: int

definition zero_addr_port :: addr_port where
  "zero_addr_port = \<lparr>ap_addr = [], ap_port = 0\<rparr>"

definition no_flow :: flow_key where
  "no_flow = \<lparr>fk_src = zero_addr_port, fk_dst = zero_addr_port, fk_protocol = []\<rparr>"

definition no_flags :: tcp_flags where
  "no_flags = \<lparr>FIN = False, SYN = False, RST = False, PSH = False, ACK = False, URG = False\<rparr>"

definition ap_isValid :: "addr_port \<Rightarrow> bool" where
  "ap_isValid a \<longleftrightarrow> ap_addr a \<noteq> []"

definition reverse_flow :: "flow_key \<Rightarrow> flow_key" where
  "reverse_flow f = \<lparr>fk_src = fk_dst f, fk_dst = fk_src f, fk_protocol = fk_protocol f\<rparr>"

definition flow_string :: "(addr_port \<Rightarrow> string) \<Rightarrow> flow_key \<Rightarrow> string" where
  "flow_string apStr f =
     (if fk_protocol f = [] \<and> \<not> ap_isValid (fk_src f) \<and> \<not> ap_isValid (fk_dst f) then ''-''
      else fk_protocol f @ '' '' @ apStr (fk_src f) @ ''>'' @ apStr (fk_dst f))"

definition canonical :: "(addr_port \<Rightarrow> string) \<Rightarrow> flow_key \<Rightarrow> string" where
  "canonical apStr f =
     (let a = fk_src f; b = fk_dst f;
          (a, b) = (if apStr b < apStr a then (b, a) else (a, b))
      in fk_protocol f @ '' '' @ apStr a @ ''='' @ apStr b)"

section \<open>Stripping the encapsulation\<close>

datatype layer_type =
  LayerTypeLoopback | LayerTypeEthernet | LayerTypeLinuxSLL | LayerTypeDot11
| LayerTypeIPv4 | LayerTypeIPv6

record ip_layer =
  ip_src :: "byte list"
  ip_dst :: "byte list"

record tcp_layer =
  tcp_srcPort :: u16
  tcp_dstPort :: u16
  tcp_seq :: u32
  tcp_flags_of :: tcp_flags
  tcp_payload :: "byte list"

record udp_layer =
  udp_srcPort :: u16
  udp_dstPort :: u16
  udp_payload :: "byte list"

text \<open>
  What \<open>pkt.Layer(t)\<close> gives: \<open>None\<close> for no such layer, \<open>Some None\<close> when the type
  assertion on the layer fails, \<open>Some (Some l)\<close> for the layer.
\<close>

record packet_view =
  pv_ipv4 :: "ip_layer option option"
  pv_ipv6 :: "ip_layer option option"
  pv_tcp :: "tcp_layer option option"
  pv_udp :: "udp_layer option option"

definition LinkTypeNull :: int where "LinkTypeNull = 0"
definition LinkTypeEthernet :: int where "LinkTypeEthernet = 1"
definition LinkTypeLoop :: int where "LinkTypeLoop = 108"
definition LinkTypeLinuxSLL :: int where "LinkTypeLinuxSLL = 113"
definition LinkTypeRaw :: int where "LinkTypeRaw = 101"
definition LinkTypeIPv4 :: int where "LinkTypeIPv4 = 228"
definition LinkTypeIPv6 :: int where "LinkTypeIPv6 = 229"
definition LinkTypeIEEE80211 :: int where "LinkTypeIEEE80211 = 105"
definition LinkTypeRawIP :: int where "LinkTypeRawIP = 1000"
definition LinkTypeProxyPayload :: int where "LinkTypeProxyPayload = 1001"
definition LinkTypeTLSPlaintext :: int where "LinkTypeTLSPlaintext = 1002"

lemmas link_type_defs =
  LinkTypeNull_def LinkTypeEthernet_def LinkTypeLoop_def LinkTypeLinuxSLL_def LinkTypeRaw_def
  LinkTypeIPv4_def LinkTypeIPv6_def LinkTypeIEEE80211_def LinkTypeRawIP_def
  LinkTypeProxyPayload_def LinkTypeTLSPlaintext_def

definition baseLayer :: "int \<Rightarrow> byte list \<Rightarrow> (layer_type option) go_ret" where
  "baseLayer linkType raw =
     (if linkType = LinkTypeNull \<or> linkType = LinkTypeLoop then Ret (Some LayerTypeLoopback)
      else if linkType = LinkTypeEthernet then Ret (Some LayerTypeEthernet)
      else if linkType = LinkTypeLinuxSLL then Ret (Some LayerTypeLinuxSLL)
      else if linkType = LinkTypeIEEE80211 then Ret (Some LayerTypeDot11)
      else if linkType = LinkTypeIPv4 then Ret (Some LayerTypeIPv4)
      else if linkType = LinkTypeIPv6 then Ret (Some LayerTypeIPv6)
      else if linkType = LinkTypeRaw \<or> linkType = LinkTypeRawIP then
        (case raw of
           [] \<Rightarrow> Panic
         | b # _ \<Rightarrow> Ret (Some (if drop_bit 4 b = 6 then LayerTypeIPv6 else LayerTypeIPv4)))
      else Ret None)"

text \<open>\<open>net.IP.To4\<close>, \<open>net.IP.To16\<close> and \<open>netip.AddrFromSlice\<close> of the standard library.\<close>

definition v4InV6Prefix :: "byte list" where
  "v4InV6Prefix = [0, 0, 0, 0, 0, 0, 0, 0, 0, 0, 255, 255]"

definition ip_To4 :: "byte list \<Rightarrow> byte list" where
  "ip_To4 ip =
     (if length ip = 4 then ip
      else if length ip = 16 \<and> take 12 ip = v4InV6Prefix then drop 12 ip
      else [])"

definition ip_To16 :: "byte list \<Rightarrow> byte list" where
  "ip_To16 ip =
     (if length ip = 4 then v4InV6Prefix @ ip else if length ip = 16 then ip else [])"

definition addrFromSlice :: "byte list \<Rightarrow> byte list \<times> bool" where
  "addrFromSlice b = (if length b = 4 \<or> length b = 16 then (b, True) else ([], False))"

definition networkAddrs :: "packet_view \<Rightarrow> byte list \<times> byte list \<times> bool" where
  "networkAddrs pkt =
     (case pv_ipv4 pkt of
        Some None \<Rightarrow> ([], [], False)
      | Some (Some ip) \<Rightarrow>
          (let (s, sok) = addrFromSlice (ip_To4 (ip_src ip));
               (d, dok) = addrFromSlice (ip_To4 (ip_dst ip))
           in (s, d, sok \<and> dok))
      | None \<Rightarrow>
          (case pv_ipv6 pkt of
             Some None \<Rightarrow> ([], [], False)
           | Some (Some ip) \<Rightarrow>
               (let (s, sok) = addrFromSlice (ip_To16 (ip_src ip));
                    (d, dok) = addrFromSlice (ip_To16 (ip_dst ip))
                in (s, d, sok \<and> dok))
           | None \<Rightarrow> ([], [], False)))"

definition empty_segment :: "int \<Rightarrow> segment" where
  "empty_segment linkType =
     \<lparr>seg_payload = [], seg_flow = no_flow, seg_seq = 0, seg_flags = no_flags,
      seg_isTCP = False, seg_linkType = linkType\<rparr>"

definition extractL7 ::
  "(layer_type \<Rightarrow> byte list \<Rightarrow> packet_view option) \<Rightarrow> byte list \<Rightarrow> int \<Rightarrow> (segment \<times> bool) go_ret"
where
  "extractL7 newPacket raw linkType =
     (let seg = empty_segment linkType in
      if raw = [] then Ret (seg, False)
      else if linkType = LinkTypeProxyPayload \<or> linkType = LinkTypeTLSPlaintext then
        Ret (seg\<lparr>seg_payload := raw\<rparr>, True)
      else
        (case baseLayer linkType raw of
           Panic \<Rightarrow> Panic
         | Ret None \<Rightarrow> Ret (seg, False)
         | Ret (Some base) \<Rightarrow>
             (case newPacket base raw of
                None \<Rightarrow> Ret (seg, False)
              | Some pkt \<Rightarrow>
                  (let (srcIP, dstIP, ok) = networkAddrs pkt in
                   if \<not> ok then Ret (seg, False)
                   else
                     (case pv_tcp pkt of
                        Some None \<Rightarrow> Ret (seg, False)
                      | Some (Some tcp) \<Rightarrow>
                          Ret (seg\<lparr>seg_payload := tcp_payload tcp,
                                   seg_seq := tcp_seq tcp,
                                   seg_isTCP := True,
                                   seg_flags := tcp_flags_of tcp,
                                   seg_flow := \<lparr>fk_src = \<lparr>ap_addr = srcIP, ap_port = tcp_srcPort tcp\<rparr>,
                                                fk_dst = \<lparr>ap_addr = dstIP, ap_port = tcp_dstPort tcp\<rparr>,
                                                fk_protocol = ''tcp''\<rparr>\<rparr>, True)
                      | None \<Rightarrow>
                          (case pv_udp pkt of
                             Some None \<Rightarrow> Ret (seg, False)
                           | Some (Some udp) \<Rightarrow>
                               Ret (seg\<lparr>seg_payload := udp_payload udp,
                                        seg_flow := \<lparr>fk_src = \<lparr>ap_addr = srcIP, ap_port = udp_srcPort udp\<rparr>,
                                                     fk_dst = \<lparr>ap_addr = dstIP, ap_port = udp_dstPort udp\<rparr>,
                                                     fk_protocol = ''udp''\<rparr>\<rparr>, True)
                           | None \<Rightarrow> Ret (seg, False)))))))"

section \<open>The reassembly buffer of one direction\<close>

definition maxOOB :: nat where
  "maxOOB = 4096"

definition seqLess :: "u32 \<Rightarrow> u32 \<Rightarrow> bool" where
  "seqLess a b \<longleftrightarrow> sint (a - b) < 0"

record pending_seg =
  ps_seq :: u32
  ps_data :: "byte list"

record flow_state =
  fs_base :: u32
  fs_buf :: "byte list"
  fs_baseSet :: bool
  fs_oob :: "pending_seg list"
  fs_finSeen :: bool
  fs_finSeq :: u32

definition empty_flow_state :: flow_state where
  "empty_flow_state =
     \<lparr>fs_base = 0, fs_buf = [], fs_baseSet = False, fs_oob = [], fs_finSeen = False, fs_finSeq = 0\<rparr>"

text \<open>The second half of \<open>place\<close>: \<open>seq\<close> is not before the base any more.\<close>

definition place_at :: "flow_state \<Rightarrow> u32 \<Rightarrow> byte list \<Rightarrow> flow_state" where
  "place_at fs seq data =
     (let off = seq - fs_base fs; len = of_nat (length (fs_buf fs)) in
      if len < off then
        (let q = fs_oob fs @ [\<lparr>ps_seq = seq, ps_data = data\<rparr>] in
         fs\<lparr>fs_oob := (if maxOOB < length q then tl q else q)\<rparr>)
      else if off = len then fs\<lparr>fs_buf := fs_buf fs @ data\<rparr>
      else
        (let beyond = len - off in
         if of_nat (length data) \<le> beyond then fs
         else fs\<lparr>fs_buf := fs_buf fs @ drop (unat beyond) data\<rparr>))"

definition place :: "flow_state \<Rightarrow> u32 \<Rightarrow> byte list \<Rightarrow> flow_state" where
  "place fs seq data =
     (if data = [] then fs
      else
        (let fs = (if fs_baseSet fs then fs else fs\<lparr>fs_base := seq, fs_baseSet := True\<rparr>) in
         if seqLess seq (fs_base fs) then
           (let behind = fs_base fs - seq in
            if of_nat (length data) \<le> behind then fs
            else place_at fs (fs_base fs) (drop (unat behind) data))
         else place_at fs seq data))"

text \<open>One pass of \<open>drain\<close> over the parked segments: new buffer, kept segments, progress.\<close>

primrec drain_pass ::
  "u32 \<Rightarrow> pending_seg list \<Rightarrow> byte list \<Rightarrow> pending_seg list \<Rightarrow> bool
     \<Rightarrow> byte list \<times> pending_seg list \<times> bool"
where
  "drain_pass base [] buf kept advanced = (buf, kept, advanced)"
| "drain_pass base (seg # segs) buf kept advanced =
     (if seqLess (ps_seq seg) base then drain_pass base segs buf kept advanced
      else
        (let off = ps_seq seg - base; len = of_nat (length buf) in
         if len < off then drain_pass base segs buf (kept @ [seg]) advanced
         else if off = len then drain_pass base segs (buf @ ps_data seg) kept True
         else
           (let beyond = len - off in
            if beyond < of_nat (length (ps_data seg))
            then drain_pass base segs (buf @ drop (unat beyond) (ps_data seg)) kept True
            else drain_pass base segs buf kept True)))"

lemma drain_pass_kept:
  "drain_pass base segs buf kept adv = (buf', kept', adv') \<Longrightarrow>
     length kept' \<le> length kept + length segs \<and>
     (adv' \<and> \<not> adv \<longrightarrow> length kept' < length kept + length segs)"
proof (induction segs arbitrary: buf kept adv)
  case (Cons seg segs)
  then show ?case
    by (fastforce simp: Let_def split: if_splits)
qed simp

function drain :: "flow_state \<Rightarrow> flow_state" where
  "drain fs =
     (case drain_pass (fs_base fs) (fs_oob fs) (fs_buf fs) [] False of
        (buf, kept, advanced) \<Rightarrow>
          (let fs = fs\<lparr>fs_buf := buf, fs_oob := kept\<rparr> in
           if advanced then drain fs else fs))"
  by pat_completeness auto
termination
  by (relation "measure (\<lambda>fs. length (fs_oob fs))")
    (auto dest!: sym [of "(_, _, _)"] drain_pass_kept)

declare drain.simps [simp del]

definition consume :: "flow_state \<Rightarrow> int \<Rightarrow> flow_state" where
  "consume fs n =
     (if n \<le> 0 then fs
      else if int (length (fs_buf fs)) \<le> n then
        fs\<lparr>fs_base := fs_base fs + of_nat (length (fs_buf fs)), fs_buf := []\<rparr>
      else
        fs\<lparr>fs_base := fs_base fs + of_int n, fs_buf := drop (nat n) (fs_buf fs)\<rparr>)"


section \<open>Positions: the buffer against the stream that was sent\<close>

text \<open>
  \<open>S\<close> is the byte stream the peer sends, \<open>isn\<close> the sequence number of its first byte,
  \<open>p\<close> the position of the base. \<open>seg_pos S isn q seg\<close> says that a segment carries the
  bytes of the stream from position \<open>q\<close>; \<open>flow_ok S isn p E fs\<close> that the buffer and every
  parked segment are slices of the stream between the base and position \<open>E\<close>, which is at
  most \<open>2 ^ 31\<close> beyond the base.
\<close>

definition seg_pos :: "(nat \<Rightarrow> byte) \<Rightarrow> u32 \<Rightarrow> nat \<Rightarrow> pending_seg \<Rightarrow> bool" where
  "seg_pos S isn q seg \<longleftrightarrow>
     ps_seq seg = isn + of_nat q \<and> slice S q (length (ps_data seg)) = ps_data seg \<and>
     ps_data seg \<noteq> []"

definition parked_ok :: "(nat \<Rightarrow> byte) \<Rightarrow> u32 \<Rightarrow> nat \<Rightarrow> nat \<Rightarrow> pending_seg \<Rightarrow> bool" where
  "parked_ok S isn p E seg \<longleftrightarrow>
     (\<exists>q. seg_pos S isn q seg \<and> p \<le> q \<and> q + length (ps_data seg) \<le> E)"

definition frontier :: "nat \<Rightarrow> flow_state \<Rightarrow> nat" where
  "frontier p fs = p + length (fs_buf fs)"

definition flow_ok :: "(nat \<Rightarrow> byte) \<Rightarrow> u32 \<Rightarrow> nat \<Rightarrow> nat \<Rightarrow> flow_state \<Rightarrow> bool" where
  "flow_ok S isn p E fs \<longleftrightarrow>
     fs_baseSet fs \<and> fs_base fs = isn + of_nat p \<and>
     slice S p (length (fs_buf fs)) = fs_buf fs \<and>
     frontier p fs \<le> E \<and> E \<le> p + 2 ^ 31 \<and>
     (\<forall>seg \<in> set (fs_oob fs). parked_ok S isn p E seg)"

text \<open>No parked segment is reached by the frontier: what \<open>drain\<close> establishes.\<close>

definition settled :: "u32 \<Rightarrow> nat \<Rightarrow> flow_state \<Rightarrow> bool" where
  "settled isn p fs \<longleftrightarrow>
     (\<forall>seg \<in> set (fs_oob fs). of_nat (length (fs_buf fs)) < ps_seq seg - fs_base fs)"

text \<open>The stream position \<open>i\<close> is in the buffer or in a parked segment.\<close>

definition holds_pos :: "(nat \<Rightarrow> byte) \<Rightarrow> u32 \<Rightarrow> nat \<Rightarrow> nat \<Rightarrow> flow_state \<Rightarrow> nat \<Rightarrow> bool" where
  "holds_pos S isn p E fs i \<longleftrightarrow>
     p \<le> i \<and> i < frontier p fs \<or>
     (\<exists>seg \<in> set (fs_oob fs). \<exists>q. seg_pos S isn q seg \<and> p \<le> q \<and> q + length (ps_data seg) \<le> E \<and>
        q \<le> i \<and> i < q + length (ps_data seg))"

lemma seqLess_pos:
  assumes "q < p + 2 ^ 31" and "p \<le> q + 2 ^ 31"
  shows "seqLess (isn + of_nat q) (isn + of_nat p) \<longleftrightarrow> q < p"
proof (cases "q < p")
  case True
  then have "(isn + of_nat q) - (isn + of_nat p) = (- of_nat (p - q) :: u32)"
    by (simp add: of_nat_diff)
  moreover have "sint (- of_nat (p - q) :: u32) = - int (p - q)"
    by (rule sint_minus_of_nat_small) (use True assms in auto)
  ultimately show ?thesis
    using True by (simp add: seqLess_def)
next
  case False
  then have "(isn + of_nat q) - (isn + of_nat p) = (of_nat (q - p) :: u32)"
    by (simp add: of_nat_diff)
  moreover have "sint (of_nat (q - p) :: u32) = int (q - p)"
    by (rule sint_of_nat_small) (use False assms in auto)
  ultimately show ?thesis
    using False by (simp add: seqLess_def)
qed

lemma off_pos:
  assumes "p \<le> q" and "q < p + 2 ^ 31"
  shows "(isn + of_nat q) - (isn + of_nat p) = (of_nat (q - p) :: u32)"
  using assms by (simp add: of_nat_diff)

lemma of_nat_less_iff32:
  "a < 2 ^ 32 \<Longrightarrow> b < 2 ^ 32 \<Longrightarrow> (of_nat a :: u32) < of_nat b \<longleftrightarrow> a < b"
  by (simp add: word_less_nat_alt unat_of_nat32)

lemma of_nat_eq_iff32:
  "a < 2 ^ 32 \<Longrightarrow> b < 2 ^ 32 \<Longrightarrow> (of_nat a :: u32) = of_nat b \<longleftrightarrow> a = b"
  by (metis unat_of_nat32)

text \<open>Both places that fit a segment to the buffer do the same thing, seen by positions.\<close>

lemma place_at_pos:
  assumes "fs_base fs = isn + of_nat p" and "p \<le> q" and "q < p + 2 ^ 31"
    and "length (fs_buf fs) < 2 ^ 32" and "length data < 2 ^ 32"
  shows "place_at fs (isn + of_nat q) data =
     (if frontier p fs < q then
        (let l = fs_oob fs @ [\<lparr>ps_seq = isn + of_nat q, ps_data = data\<rparr>] in
         fs\<lparr>fs_oob := (if maxOOB < length l then tl l else l)\<rparr>)
      else fs\<lparr>fs_buf := fs_buf fs @ drop (frontier p fs - q) data\<rparr>)"
proof -
  let ?n = "length (fs_buf fs)"
  have d: "q - p < 2 ^ 32"
    using assms(2,3) by simp
  have off: "(isn + of_nat q) - fs_base fs = (of_nat (q - p) :: u32)"
    using assms(1-3) off_pos by simp
  have lt: "(of_nat ?n :: u32) < of_nat (q - p) \<longleftrightarrow> frontier p fs < q"
    using assms(2) by (subst of_nat_less_iff32 [OF assms(4) d]) (auto simp: frontier_def)
  have eq: "(of_nat (q - p) :: u32) = of_nat ?n \<longleftrightarrow> q = frontier p fs"
    using assms(2) by (subst of_nat_eq_iff32 [OF d assms(4)]) (auto simp: frontier_def)
  define k where "k = frontier p fs - q"
  have beyond: "(of_nat ?n :: u32) - of_nat (q - p) = of_nat k" if "\<not> frontier p fs < q"
    using that assms(2) by (simp add: k_def frontier_def of_nat_diff)
  have k: "k < 2 ^ 32"
    using assms(2,4) by (simp add: k_def frontier_def)
  have k0: "q = frontier p fs \<Longrightarrow> k = 0"
    by (simp add: k_def)
  have le: "(of_nat (length data) :: u32) \<le> of_nat k \<longleftrightarrow> length data \<le> k"
    by (rule of_nat_le_iff32 [OF assms(5) k])
  show ?thesis
    unfolding place_at_def off Let_def lt eq k_def [symmetric]
    using beyond k0 by (auto simp: unat_of_nat32 [OF k] le)
qed

lemma drain_pass_pos:
  assumes "base = isn + of_nat p" and "ps_seq seg = isn + of_nat q" and "p \<le> q" and "q < p + 2 ^ 31"
    and "length buf < 2 ^ 32" and "length (ps_data seg) < 2 ^ 32"
  shows "drain_pass base (seg # segs) buf kept adv =
     (if p + length buf < q then drain_pass base segs buf (kept @ [seg]) adv
      else drain_pass base segs (buf @ drop (p + length buf - q) (ps_data seg)) kept True)"
proof -
  let ?n = "length buf"
  have d: "q - p < 2 ^ 32"
    using assms(3,4) by simp
  have nl: "\<not> seqLess (ps_seq seg) base"
    using assms(1-4) by (simp add: seqLess_pos)
  have off: "ps_seq seg - base = (of_nat (q - p) :: u32)"
    using assms(1-4) off_pos by simp
  have lt: "(of_nat ?n :: u32) < of_nat (q - p) \<longleftrightarrow> p + length buf < q"
    using assms(3) by (subst of_nat_less_iff32 [OF assms(5) d]) auto
  have eq: "(of_nat (q - p) :: u32) = of_nat ?n \<longleftrightarrow> q = p + length buf"
    using assms(3) by (subst of_nat_eq_iff32 [OF d assms(5)]) auto
  define k where "k = p + length buf - q"
  have beyond: "(of_nat ?n :: u32) - of_nat (q - p) = of_nat k" if "\<not> p + length buf < q"
    using that assms(3) by (simp add: k_def of_nat_diff)
  have k: "k < 2 ^ 32"
    using assms(3,5) by (simp add: k_def)
  have k0: "q = p + length buf \<Longrightarrow> k = 0"
    by (simp add: k_def)
  have less: "(of_nat k :: u32) < of_nat (length (ps_data seg)) \<longleftrightarrow> k < length (ps_data seg)"
    by (rule of_nat_less_iff32 [OF k assms(6)])
  show ?thesis
    unfolding drain_pass.simps off Let_def lt eq k_def [symmetric]
    using beyond nl k0 by (auto simp: unat_of_nat32 [OF k] less)
qed

lemma slice_merge:
  assumes "p \<le> q" and "q \<le> p + n"
  shows "slice S p n @ drop (p + n - q) (slice S q m) = slice S p (max n (q + m - p))"
proof -
  have "drop (p + n - q) (slice S q m) = slice S (p + n) (m - (p + n - q))"
    using assms by (simp add: drop_slice)
  then have "slice S p n @ drop (p + n - q) (slice S q m) = slice S p (n + (m - (p + n - q)))"
    by (simp add: slice_append)
  also have "n + (m - (p + n - q)) = max n (q + m - p)"
    using assms by auto
  finally show ?thesis .
qed

lemma seg_pos_unique:
  assumes "seg_pos S isn q seg" and "seg_pos S isn q' seg"
    and "p \<le> q" and "p \<le> q'" and "q < p + 2 ^ 31" and "q' < p + 2 ^ 31"
  shows "q = q'"
proof -
  have "ps_seq seg - (isn + of_nat p) = (of_nat (q - p) :: u32)"
    and "ps_seq seg - (isn + of_nat p) = (of_nat (q' - p) :: u32)"
    using assms off_pos by (auto simp: seg_pos_def)
  then have "(of_nat (q - p) :: u32) = of_nat (q' - p)"
    by (rule subst)
  then have "q - p = q' - p"
    using assms(3-6) by (subst (asm) of_nat_eq_iff32) auto
  with assms(3,4) show ?thesis
    by simp
qed

lemma parked_okE:
  assumes "parked_ok S isn p E seg" and "E \<le> p + 2 ^ 31"
  obtains q where "seg_pos S isn q seg" and "p \<le> q" and "q + length (ps_data seg) \<le> E"
    and "q < p + 2 ^ 31" and "length (ps_data seg) < 2 ^ 32"
proof -
  from assms(1) obtain q where q: "seg_pos S isn q seg" "p \<le> q" "q + length (ps_data seg) \<le> E"
    by (auto simp: parked_ok_def)
  have "0 < length (ps_data seg)"
    using q(1) by (simp add: seg_pos_def)
  with q assms(2) have "q < p + 2 ^ 31" and "length (ps_data seg) \<le> 2 ^ 31"
    by linarith+
  with q show thesis
    by (intro that) auto
qed

lemma drain_pass_ok:
  assumes "drain_pass base segs buf kept adv = (buf', kept', adv')"
    and "base = isn + of_nat p" and "slice S p (length buf) = buf" and "p + length buf \<le> E"
    and "E \<le> p + 2 ^ 31" and "\<forall>seg \<in> set segs. parked_ok S isn p E seg"
  shows "slice S p (length buf') = buf' \<and> p + length buf' \<le> E \<and> length buf \<le> length buf' \<and>
    set kept \<subseteq> set kept' \<and> set kept' \<subseteq> set kept \<union> set segs \<and>
    (\<forall>seg \<in> set segs. \<forall>q. seg_pos S isn q seg \<and> p \<le> q \<and> q < p + 2 ^ 31 \<longrightarrow>
       seg \<in> set kept' \<or> q + length (ps_data seg) \<le> p + length buf') \<and>
    (\<not> adv' \<longrightarrow> \<not> adv \<and> buf' = buf \<and> kept' = kept @ segs \<and>
       (\<forall>seg \<in> set segs. of_nat (length buf) < ps_seq seg - base))"
  using assms
proof (induction segs arbitrary: buf kept adv)
  case Nil
  then show ?case by simp
next
  case (Cons seg segs)
  from Cons.prems(5,6) obtain q where q: "seg_pos S isn q seg" "p \<le> q"
    "q + length (ps_data seg) \<le> E" "q < p + 2 ^ 31" "length (ps_data seg) < 2 ^ 32"
    by (auto elim: parked_okE)
  have uniq: "q' = q" if "seg_pos S isn q' seg" "p \<le> q'" "q' < p + 2 ^ 31" for q'
    using that q by (blast intro: seg_pos_unique)
  have nb: "length buf < 2 ^ 32"
    using Cons.prems(4,5) by simp
  have sq: "ps_seq seg = isn + of_nat q"
    using q(1) by (simp add: seg_pos_def)
  note step = drain_pass_pos [OF Cons.prems(2) sq q(2,4) nb q(5), of segs kept adv]
  show ?case
  proof (cases "p + length buf < q")
    case True
    with Cons.prems(1) step have run: "drain_pass base segs buf (kept @ [seg]) adv = (buf', kept', adv')"
      by simp
    have "ps_seq seg - base = of_nat (q - p)"
      unfolding Cons.prems(2) sq by (rule off_pos [OF q(2,4)])
    moreover have "length buf < q - p" and "q - p < 2 ^ 32"
      using True q(2,4) by auto
    ultimately have far: "of_nat (length buf) < ps_seq seg - base"
      using of_nat_less_iff32 [OF nb] by metis
    from Cons.IH [OF run Cons.prems(2-5)] Cons.prems(6) show ?thesis
      using far by auto
  next
    case False
    let ?buf = "buf @ drop (p + length buf - q) (ps_data seg)"
    from False Cons.prems(1) step have run: "drain_pass base segs ?buf kept True = (buf', kept', adv')"
      by simp
    have "slice S q (length (ps_data seg)) = ps_data seg"
      using q(1) by (simp add: seg_pos_def)
    then have eq: "?buf = slice S p (max (length buf) (q + length (ps_data seg) - p))"
      using slice_merge [of p q "length buf" S "length (ps_data seg)"] False q(2) Cons.prems(3)
      by (metis not_less)
    then have len: "length ?buf = max (length buf) (q + length (ps_data seg) - p)"
      by (metis length_slice)
    have b: "slice S p (length ?buf) = ?buf"
      by (subst len) (rule eq [symmetric])
    have e: "p + length ?buf \<le> E"
      using len q(2,3) Cons.prems(4) by simp
    have pk: "\<forall>seg \<in> set segs. parked_ok S isn p E seg"
      using Cons.prems(6) by simp
    note IH = Cons.IH [OF run Cons.prems(2) b e Cons.prems(5) pk]
    have "length buf \<le> length buf'" and cov: "q + length (ps_data seg) \<le> p + length buf'"
      using IH len q(2) by linarith+
    moreover have "seg \<in> set kept' \<or> q' + length (ps_data seg) \<le> p + length buf'"
      if "seg_pos S isn q' seg" "p \<le> q'" "q' < p + 2 ^ 31" for q'
      using uniq [OF that] cov by simp
    ultimately show ?thesis
      using IH by auto
  qed
qed

subsection \<open>Draining\<close>

lemma settled_frontier:
  assumes "flow_ok S isn p E fs" and "settled isn p fs" and "seg \<in> set (fs_oob fs)"
    and "seg_pos S isn q seg" and "p \<le> q" and "q < p + 2 ^ 31"
  shows "frontier p fs < q"
proof -
  have "ps_seq seg - fs_base fs = of_nat (q - p)"
    using assms(1,4) off_pos [OF assms(5,6)] by (simp add: seg_pos_def flow_ok_def)
  with assms(2,3) have "(of_nat (length (fs_buf fs)) :: u32) < of_nat (q - p)"
    by (auto simp: settled_def)
  moreover have "length (fs_buf fs) < 2 ^ 32" and "q - p < 2 ^ 32"
    using assms(1,5,6) by (auto simp: flow_ok_def frontier_def)
  ultimately have "length (fs_buf fs) < q - p"
    using of_nat_less_iff32 by blast
  then show ?thesis
    by (simp add: frontier_def)
qed

lemma drain_frame [simp]:
  "fs_base (drain fs) = fs_base fs" "fs_baseSet (drain fs) = fs_baseSet fs"
  "fs_finSeen (drain fs) = fs_finSeen fs" "fs_finSeq (drain fs) = fs_finSeq fs"
  by (induction fs rule: drain.induct; subst drain.simps; auto simp: Let_def split: prod.splits)+

lemma drain_oob_length: "length (fs_oob (drain fs)) \<le> length (fs_oob fs)"
proof (induction fs rule: drain.induct)
  case (1 fs)
  obtain buf kept adv where p: "drain_pass (fs_base fs) (fs_oob fs) (fs_buf fs) [] False = (buf, kept, adv)"
    by (metis prod_cases3)
  have "length kept \<le> length (fs_oob fs)"
    using drain_pass_kept [OF p] by simp
  moreover have "length (fs_oob (drain (fs\<lparr>fs_buf := buf, fs_oob := kept\<rparr>))) \<le> length kept" if adv
    using "1.IH" [OF p [symmetric] refl refl] that by simp
  ultimately show ?case
    by (subst drain.simps) (auto simp: p Let_def)
qed

lemma drain_ok:
  assumes "flow_ok S isn p E fs"
  shows "flow_ok S isn p E (drain fs) \<and> settled isn p (drain fs) \<and>
    frontier p fs \<le> frontier p (drain fs) \<and>
    (\<forall>i. holds_pos S isn p E fs i \<longrightarrow> holds_pos S isn p E (drain fs) i)"
  using assms
proof (induction fs rule: drain.induct)
  case (1 fs)
  obtain buf kept adv where p: "drain_pass (fs_base fs) (fs_oob fs) (fs_buf fs) [] False = (buf, kept, adv)"
    by (metis prod_cases3)
  let ?fs = "fs\<lparr>fs_buf := buf, fs_oob := kept\<rparr>"
  have E: "E \<le> p + 2 ^ 31"
    using "1.prems" by (simp add: flow_ok_def)
  from "1.prems" have pre: "fs_base fs = isn + of_nat p" "slice S p (length (fs_buf fs)) = fs_buf fs"
    "p + length (fs_buf fs) \<le> E" "\<forall>seg \<in> set (fs_oob fs). parked_ok S isn p E seg"
    by (auto simp: flow_ok_def frontier_def)
  note r = drain_pass_ok [OF p pre(1-3) E pre(4)]
  have ok: "flow_ok S isn p E ?fs"
    using "1.prems" r by (auto simp: flow_ok_def frontier_def)
  have hold: "holds_pos S isn p E ?fs i" if h: "holds_pos S isn p E fs i" for i
  proof (cases "p \<le> i \<and> i < p + length (fs_buf fs)")
    case True
    with r show ?thesis
      by (auto simp: holds_pos_def frontier_def)
  next
    case False
    with h obtain seg q where sq: "seg \<in> set (fs_oob fs)" "seg_pos S isn q seg" "p \<le> q"
      "q + length (ps_data seg) \<le> E" "q \<le> i" "i < q + length (ps_data seg)"
      by (auto simp: holds_pos_def frontier_def)
    with E have "q < p + 2 ^ 31"
      by linarith
    with r sq have "seg \<in> set kept \<or> q + length (ps_data seg) \<le> p + length buf"
      by blast
    with sq show ?thesis
      by (auto simp: holds_pos_def frontier_def)
  qed
  show ?case
  proof (cases adv)
    case True
    then have "drain fs = drain ?fs"
      by (subst drain.simps) (simp add: p Let_def)
    with "1.IH" [OF p [symmetric] refl refl _ ok] True hold r show ?thesis
      by (auto simp: frontier_def)
  next
    case False
    then have "drain fs = ?fs"
      by (subst drain.simps) (simp add: p Let_def)
    with False ok hold r show ?thesis
      by (auto simp: settled_def frontier_def)
  qed
qed

subsection \<open>Placing a segment\<close>

text \<open>What the environment promises of an arriving segment, seen from base position \<open>p\<close>.\<close>

definition arrives_ok :: "(nat \<Rightarrow> byte) \<Rightarrow> u32 \<Rightarrow> nat \<Rightarrow> nat \<Rightarrow> u32 \<Rightarrow> byte list \<Rightarrow> nat \<Rightarrow> bool" where
  "arrives_ok S isn p E seq data q \<longleftrightarrow>
     seq = isn + of_nat q \<and> slice S q (length data) = data \<and>
     q + length data \<le> E \<and> p < q + 2 ^ 31"

lemma place_at_ok:
  assumes ok: "flow_ok S isn p E fs" and "p \<le> q" and "slice S q (length data) = data"
    and "data \<noteq> []" and "q + length data \<le> E"
  shows "flow_ok S isn p E (place_at fs (isn + of_nat q) data) \<and>
    frontier p fs \<le> frontier p (place_at fs (isn + of_nat q) data) \<and>
    (length (fs_oob fs) < maxOOB \<longrightarrow>
       (\<forall>i. holds_pos S isn p E fs i \<or> q \<le> i \<and> i < q + length data \<longrightarrow>
          holds_pos S isn p E (place_at fs (isn + of_nat q) data) i))"
proof -
  let ?seg = "\<lparr>ps_seq = isn + of_nat q, ps_data = data\<rparr>"
  have E: "E \<le> p + 2 ^ 31"
    using ok by (simp add: flow_ok_def)
  have base: "fs_base fs = isn + of_nat p"
    using ok by (simp add: flow_ok_def)
  have sp: "seg_pos S isn q ?seg"
    using assms(3,4) by (simp add: seg_pos_def)
  have "0 < length data"
    using assms(4) by simp
  then have q31: "q < p + 2 ^ 31"
    using assms(5) E by linarith
  have n: "length (fs_buf fs) < 2 ^ 32" and m: "length data < 2 ^ 32"
    using ok assms(2,5) by (auto simp: flow_ok_def frontier_def)
  note pl = place_at_pos [OF base assms(2) q31 n m]
  show ?thesis
  proof (cases "frontier p fs < q")
    case True
    have pk: "parked_ok S isn p E ?seg"
      using sp assms(2,5) by (auto simp: parked_ok_def)
    with True ok pl show ?thesis
      using sp assms(2,5)
      by (cases "fs_oob fs") (auto simp: flow_ok_def frontier_def holds_pos_def Let_def)
  next
    case False
    let ?buf = "fs_buf fs @ drop (frontier p fs - q) data"
    have bf: "slice S p (length (fs_buf fs)) = fs_buf fs"
      using ok by (simp add: flow_ok_def)
    have "q \<le> p + length (fs_buf fs)"
      using False by (simp add: frontier_def)
    from slice_merge [OF assms(2) this, of S "length data"]
    have eq: "?buf = slice S p (max (length (fs_buf fs)) (q + length data - p))"
      by (simp add: frontier_def bf assms(3))
    then have len: "length ?buf = max (length (fs_buf fs)) (q + length data - p)"
      by (metis length_slice)
    have fr: "frontier p (fs\<lparr>fs_buf := ?buf\<rparr>) = max (frontier p fs) (q + length data)"
    proof -
      have "frontier p (fs\<lparr>fs_buf := ?buf\<rparr>) = p + length ?buf"
        by (simp add: frontier_def del: length_append)
      moreover have "frontier p fs = p + length (fs_buf fs)"
        by (simp add: frontier_def)
      ultimately show ?thesis
        using len assms(2) by linarith
    qed
    have "flow_ok S isn p E (fs\<lparr>fs_buf := ?buf\<rparr>)"
      using ok fr assms(5) eq len by (simp add: flow_ok_def del: length_append)
    moreover have "holds_pos S isn p E (fs\<lparr>fs_buf := ?buf\<rparr>) i"
      if "holds_pos S isn p E fs i \<or> q \<le> i \<and> i < q + length data" for i
      using that fr assms(2) unfolding holds_pos_def by fastforce
    ultimately show ?thesis
      using False pl fr by simp
  qed
qed

lemma place_ok:
  assumes ok: "flow_ok S isn p E fs" and arr: "arrives_ok S isn p E seq data q"
  shows "flow_ok S isn p E (place fs seq data) \<and> frontier p fs \<le> frontier p (place fs seq data) \<and>
    (length (fs_oob fs) < maxOOB \<longrightarrow>
       (\<forall>i. holds_pos S isn p E fs i \<or> p \<le> i \<and> q \<le> i \<and> i < q + length data \<longrightarrow>
          holds_pos S isn p E (place fs seq data) i))"
proof (cases "data = []")
  case True
  with ok show ?thesis
    by (auto simp: place_def)
next
  case False
  have seq: "seq = isn + of_nat q" and data: "slice S q (length data) = data"
    and e: "q + length data \<le> E" and w': "p < q + 2 ^ 31"
    using arr by (auto simp: arrives_ok_def)
  then have w: "p \<le> q + 2 ^ 31"
    by simp
  have base: "fs_base fs = isn + of_nat p" and bs: "fs_baseSet fs" and E: "E \<le> p + 2 ^ 31"
    using ok by (auto simp: flow_ok_def)
  have "0 < length data"
    using False by simp
  then have q31: "q < p + 2 ^ 31"
    using e E by linarith
  show ?thesis
  proof (cases "q < p")
    case False
    then have "p \<le> q"
      by simp
    moreover have "place fs seq data = place_at fs (isn + of_nat q) data"
      using \<open>data \<noteq> []\<close> bs base seq seqLess_pos [OF q31 w] False by (simp add: place_def)
    ultimately show ?thesis
      using place_at_ok [OF ok _ data \<open>data \<noteq> []\<close> e] by simp
  next
    case True
    have behind: "fs_base fs - seq = of_nat (p - q)"
      using True base seq by (simp add: of_nat_diff)
    have b32: "p - q < 2 ^ 32" and l32: "length data < 2 ^ 32"
      using w' e E by auto
    have le: "(of_nat (length data) :: u32) \<le> of_nat (p - q) \<longleftrightarrow> length data \<le> p - q"
      by (rule of_nat_le_iff32 [OF l32 b32])
    have pl: "place fs seq data =
        (if length data \<le> p - q then fs else place_at fs (isn + of_nat p) (drop (p - q) data))"
      unfolding place_def behind Let_def le unat_of_nat32 [OF b32] if_P [OF bs] base seq
      using \<open>data \<noteq> []\<close> True seqLess_pos [OF q31 w] behind le unat_of_nat32 [OF b32]
      by (simp add: base seq del: of_nat_diff)
    show ?thesis
    proof (cases "length data \<le> p - q")
      case True
      with pl ok show ?thesis
        by (auto simp: holds_pos_def)
    next
      case long: False
      let ?d = "drop (p - q) data"
      have len: "length ?d = length data - (p - q)"
        by simp
      have d: "slice S p (length ?d) = ?d"
        using data \<open>q < p\<close> by (metis drop_slice le_add_diff_inverse length_drop less_imp_le)
      have e': "p + length ?d \<le> E"
        using e \<open>q < p\<close> long by simp
      have "?d \<noteq> []"
        using long by simp
      from place_at_ok [OF ok order_refl d this e'] pl long \<open>q < p\<close> show ?thesis
        by auto
    qed
  qed
qed

subsection \<open>Consuming, and whole runs of one flow\<close>

definition taken :: "flow_state \<Rightarrow> int \<Rightarrow> byte list" where
  "taken fs n = take (nat n) (fs_buf fs)"

lemma consume_frame [simp]:
  "fs_baseSet (consume fs n) = fs_baseSet fs" "fs_oob (consume fs n) = fs_oob fs"
  "fs_finSeen (consume fs n) = fs_finSeen fs" "fs_finSeq (consume fs n) = fs_finSeq fs"
  by (simp_all add: consume_def)

lemma consume_buf: "fs_buf (consume fs n) = drop (nat n) (fs_buf fs)"
  by (simp add: consume_def)

lemma consume_base: "fs_base (consume fs n) = fs_base fs + of_nat (length (taken fs n))"
proof (cases "n \<le> 0")
  case True
  then show ?thesis
    by (simp add: consume_def taken_def)
next
  case False
  then have "of_int n = (of_nat (nat n) :: u32)"
    by simp
  with False show ?thesis
    by (auto simp: consume_def taken_def min_def)
qed

lemma consume_ok:
  assumes ok: "flow_ok S isn p E fs" and st: "settled isn p fs"
    and "p' = p + length (taken fs n)" and "E \<le> E'" and "E' \<le> p' + 2 ^ 31"
  shows "flow_ok S isn p' E' (consume fs n) \<and> settled isn p' (consume fs n) \<and>
    frontier p' (consume fs n) = frontier p fs \<and>
    (\<forall>i. holds_pos S isn p E fs i \<longrightarrow> i < p' \<or> holds_pos S isn p' E' (consume fs n) i)"
proof -
  let ?k = "length (taken fs n)"
  have k: "?k \<le> length (fs_buf fs)" and buf: "fs_buf (consume fs n) = drop ?k (fs_buf fs)"
    by (auto simp: taken_def consume_buf min_def)
  have base: "fs_base (consume fs n) = isn + of_nat p'"
    using ok assms(3) by (simp add: consume_base flow_ok_def)
  have fr: "frontier p' (consume fs n) = frontier p fs"
    using buf k assms(3) by (simp add: frontier_def)
  have sl: "slice S p' (length (fs_buf (consume fs n))) = fs_buf (consume fs n)"
    using ok buf assms(3) drop_slice [of ?k S p "length (fs_buf fs)"] by (simp add: flow_ok_def)
  have E: "E \<le> p + 2 ^ 31"
    using ok by (simp add: flow_ok_def)
  have pk: "parked_ok S isn p' E' seg \<and> of_nat (length (fs_buf (consume fs n))) < ps_seq seg - fs_base (consume fs n)"
    if seg: "seg \<in> set (fs_oob fs)" for seg
  proof -
    have "parked_ok S isn p E seg"
      using ok seg by (simp add: flow_ok_def)
    then obtain q where q: "seg_pos S isn q seg" "p \<le> q" "q + length (ps_data seg) \<le> E"
      "q < p + 2 ^ 31"
      by (rule parked_okE [OF _ E])
    have far: "frontier p fs < q"
      by (rule settled_frontier [OF ok st seg q(1,2,4)])
    then have p': "p' \<le> q" and lt: "length (fs_buf (consume fs n)) < q - p'"
      using fr by (auto simp: frontier_def)
    have "ps_seq seg - fs_base (consume fs n) = of_nat (q - p')"
      using q(1) base off_pos [OF p'] q(4) assms(3) by (simp add: seg_pos_def)
    moreover have "q - p' < 2 ^ 32" and "length (fs_buf (consume fs n)) < 2 ^ 32"
      using lt q(4) assms(3) by auto
    ultimately have "of_nat (length (fs_buf (consume fs n))) < ps_seq seg - fs_base (consume fs n)"
      using lt of_nat_less_iff32 by metis
    with q p' assms(4) show ?thesis
      by (auto simp: parked_ok_def)
  qed
  have "holds_pos S isn p' E' (consume fs n) i" if h: "holds_pos S isn p E fs i" "p' \<le> i" for i
  proof (cases "i < frontier p fs")
    case True
    with h fr show ?thesis by (simp add: holds_pos_def)
  next
    case False
    with h obtain seg q where sq: "seg \<in> set (fs_oob fs)" "seg_pos S isn q seg" "p \<le> q"
      "q + length (ps_data seg) \<le> E" "q \<le> i" "i < q + length (ps_data seg)"
      by (auto simp: holds_pos_def)
    with E have "q < p + 2 ^ 31"
      by linarith
    with ok st sq fr have "p' \<le> q"
      using settled_frontier [of S isn p E fs seg q] by (auto simp: frontier_def)
    with sq assms(4) show ?thesis
      by (fastforce simp: holds_pos_def)
  qed
  with ok base sl fr pk assms(4,5) show ?thesis
    by (auto simp: flow_ok_def settled_def) (meson leI)
qed

text \<open>
  One flow under any interleaving of arriving data segments and reads by the parser.
  \<open>Arrive q n\<close> is a segment that carries the \<open>n\<close> bytes of the stream from position \<open>q\<close>,
  \<open>Take n\<close> a \<open>Consume(n)\<close>. The run gives the state it reaches and all bytes the parser
  was given.
\<close>

datatype flow_op = Arrive nat nat | Take int

definition admit :: "flow_state \<Rightarrow> u32 \<Rightarrow> byte list \<Rightarrow> flow_state" where
  "admit fs seq data = (if data = [] then fs else drain (place fs seq data))"

fun flow_run :: "(nat \<Rightarrow> byte) \<Rightarrow> u32 \<Rightarrow> flow_state \<Rightarrow> flow_op list \<Rightarrow> flow_state \<times> byte list" where
  "flow_run S isn fs [] = (fs, [])"
| "flow_run S isn fs (Arrive q n # ops) = flow_run S isn (admit fs (isn + of_nat q) (slice S q n)) ops"
| "flow_run S isn fs (Take n # ops) =
     (case flow_run S isn (consume fs n) ops of (fs', out) \<Rightarrow> (fs', taken fs n @ out))"

text \<open>Every arriving segment lies within \<open>2 ^ 31\<close> of the base it meets.\<close>

fun in_window :: "(nat \<Rightarrow> byte) \<Rightarrow> u32 \<Rightarrow> nat \<Rightarrow> flow_state \<Rightarrow> flow_op list \<Rightarrow> bool" where
  "in_window S isn p fs [] = True"
| "in_window S isn p fs (Arrive q n # ops) =
     (q + n \<le> p + 2 ^ 31 \<and> p < q + 2 ^ 31 \<and>
      in_window S isn p (admit fs (isn + of_nat q) (slice S q n)) ops)"
| "in_window S isn p fs (Take n # ops) =
     in_window S isn (p + length (taken fs n)) (consume fs n) ops"

definition arrivals :: "flow_op list \<Rightarrow> (nat \<times> nat) list" where
  "arrivals ops = concat (map (\<lambda>x. case x of Arrive q n \<Rightarrow> [(q, n)] | Take _ \<Rightarrow> []) ops)"

lemma arrivals_simps [simp]:
  "arrivals [] = []" "arrivals (Arrive q n # ops) = (q, n) # arrivals ops"
  "arrivals (Take k # ops) = arrivals ops"
  by (simp_all add: arrivals_def)

definition syn_flow :: "u32 \<Rightarrow> flow_state" where
  "syn_flow isn = empty_flow_state\<lparr>fs_base := isn, fs_baseSet := True\<rparr>"

lemma syn_flow_ok: "flow_ok S isn 0 (2 ^ 31) (syn_flow isn)" "settled isn 0 (syn_flow isn)"
  by (auto simp: flow_ok_def settled_def syn_flow_def empty_flow_state_def frontier_def)

lemma place_oob_length: "length (fs_oob (place fs seq data)) \<le> Suc (length (fs_oob fs))"
  by (simp add: place_def place_at_def Let_def)

lemma admit_ok:
  assumes "flow_ok S isn p E fs" and "settled isn p fs" and "arrives_ok S isn p E seq data q"
  shows "flow_ok S isn p E (admit fs seq data) \<and> settled isn p (admit fs seq data) \<and>
    frontier p fs \<le> frontier p (admit fs seq data) \<and>
    (length (fs_oob fs) < maxOOB \<longrightarrow>
       (\<forall>i. holds_pos S isn p E fs i \<or> p \<le> i \<and> q \<le> i \<and> i < q + length data \<longrightarrow>
          holds_pos S isn p E (admit fs seq data) i)) \<and>
    length (fs_oob (admit fs seq data)) \<le> Suc (length (fs_oob fs))"
proof (cases "data = []")
  case True
  with assms show ?thesis
    by (auto simp: admit_def)
next
  case False
  have pl: "flow_ok S isn p E (place fs seq data)"
    using place_ok [OF assms(1,3)] by simp
  from False place_ok [OF assms(1,3)] drain_ok [OF pl] show ?thesis
    using drain_oob_length [of "place fs seq data"] place_oob_length [of fs seq data]
    by (auto simp: admit_def)
qed

lemma flow_run_ok:
  assumes "flow_ok S isn p (p + 2 ^ 31) fs" and "settled isn p fs" and "in_window S isn p fs ops"
    and "flow_run S isn fs ops = (fs', out)"
  shows "flow_ok S isn (p + length out) (p + length out + 2 ^ 31) fs' \<and>
    settled isn (p + length out) fs' \<and> slice S p (length out) = out \<and>
    (length (fs_oob fs) + length (arrivals ops) \<le> maxOOB \<longrightarrow>
       (\<forall>i. p \<le> i \<longrightarrow> holds_pos S isn p (p + 2 ^ 31) fs i \<or>
            (\<exists>(q, n) \<in> set (arrivals ops). q \<le> i \<and> i < q + n) \<longrightarrow>
          i < p + length out \<or> holds_pos S isn (p + length out) (p + length out + 2 ^ 31) fs' i))"
  using assms
proof (induction S isn fs ops arbitrary: p fs' out rule: flow_run.induct)
  case (1 S isn fs)
  then show ?case by auto
next
  case (2 S isn fs q n ops)
  let ?fs = "admit fs (isn + of_nat q) (slice S q n)"
  have arr: "arrives_ok S isn p (p + 2 ^ 31) (isn + of_nat q) (slice S q n) q"
    using "2.prems"(3) by (simp add: arrives_ok_def)
  note a = admit_ok [OF "2.prems"(1,2) arr]
  have run: "flow_run S isn ?fs ops = (fs', out)" and win: "in_window S isn p ?fs ops"
    using "2.prems"(3,4) by simp_all
  have ok: "flow_ok S isn p (p + 2 ^ 31) ?fs" and st: "settled isn p ?fs"
    using a by blast+
  note IH = "2.IH" [OF ok st win run]
  have "i < p + length out \<or> holds_pos S isn (p + length out) (p + length out + 2 ^ 31) fs' i"
    if cap: "length (fs_oob fs) + length (arrivals (Arrive q n # ops)) \<le> maxOOB" and "p \<le> i"
      and h: "holds_pos S isn p (p + 2 ^ 31) fs i \<or>
        (\<exists>(q, n) \<in> set (arrivals (Arrive q n # ops)). q \<le> i \<and> i < q + n)" for i
  proof -
    have c: "length (fs_oob ?fs) + length (arrivals ops) \<le> maxOOB" "length (fs_oob fs) < maxOOB"
      using cap a by auto
    have "holds_pos S isn p (p + 2 ^ 31) ?fs i \<or> (\<exists>(q, n) \<in> set (arrivals ops). q \<le> i \<and> i < q + n)"
      using h a c(2) \<open>p \<le> i\<close> by auto
    with IH c(1) \<open>p \<le> i\<close> show ?thesis
      by blast
  qed
  with IH show ?case
    by blast
next
  case (3 S isn fs n ops)
  let ?k = "length (taken fs n)"
  let ?p = "p + ?k"
  obtain fs1 out1 where run: "flow_run S isn (consume fs n) ops = (fs1, out1)"
    by fastforce
  with "3.prems"(4) have res: "fs' = fs1" "out = taken fs n @ out1"
    by auto
  note c = consume_ok [OF "3.prems"(1,2) refl, where n = n and E' = "?p + 2 ^ 31"]
  have ok: "flow_ok S isn ?p (?p + 2 ^ 31) (consume fs n)" and st: "settled isn ?p (consume fs n)"
    using c by auto
  have win: "in_window S isn ?p (consume fs n) ops"
    using "3.prems"(3) by simp
  note IH = "3.IH" [OF ok st win run]
  have "slice S p ?k = taken fs n"
    using "3.prems"(1) take_slice [of "nat n" S p "length (fs_buf fs)"]
    by (simp add: taken_def flow_ok_def min.commute)
  with IH have sl: "slice S p (length out) = out"
    using slice_append [of S p ?k "length out1"] by (simp add: res)
  have "i < p + length out \<or> holds_pos S isn (p + length out) (p + length out + 2 ^ 31) fs' i"
    if cap: "length (fs_oob fs) + length (arrivals (Take n # ops)) \<le> maxOOB" and "p \<le> i"
      and h: "holds_pos S isn p (p + 2 ^ 31) fs i \<or>
        (\<exists>(q, n) \<in> set (arrivals (Take n # ops)). q \<le> i \<and> i < q + n)" for i
  proof (cases "i < ?p")
    case True
    then show ?thesis by (simp add: res)
  next
    case False
    with h c have "holds_pos S isn ?p (?p + 2 ^ 31) (consume fs n) i \<or>
        (\<exists>(q, n) \<in> set (arrivals ops). q \<le> i \<and> i < q + n)"
      by auto
    moreover have "length (fs_oob (consume fs n)) + length (arrivals ops) \<le> maxOOB"
      using cap by simp
    ultimately show ?thesis
      using IH False by (auto simp: res add.assoc not_less)
  qed
  with IH sl show ?case
    by (simp add: res add.assoc)
qed
end
