(* ===== verification/Reassembler.thy ===== *)
theory Reassembler
  imports Framing
begin

text \<open>
  \<open>sdk/framing/framing.go\<close>, second half: the \<open>Reassembler\<close> that keys one \<open>flowState\<close> per
  directional flow, and the \<open>Stream\<close> handle \<open>Push\<close> gives out. A \<open>Stream\<close> holds a pointer to
  a flow state that the reassembler may replace or delete from its map meanwhile, so the
  states live in an explicit store: \<open>ra_flows\<close> maps a flow to an address, \<open>ra_heap\<close> an
  address to a state, \<open>ra_next\<close> is the next fresh address. The mutex makes every operation
  one atomic step.
\<close>

record reassembler =
  ra_flows :: "flow_key \<rightharpoonup> nat"
  ra_heap :: "nat \<Rightarrow> flow_state"
  ra_next :: nat

record stream =
  st_key :: flow_key
  st_fs :: "nat option"

definition newReassembler :: reassembler where
  "newReassembler = \<lparr>ra_flows = Map.empty, ra_heap = (\<lambda>_. empty_flow_state), ra_next = 0\<rparr>"

definition alloc :: "flow_state \<Rightarrow> reassembler \<Rightarrow> reassembler \<times> nat" where
  "alloc fs ra =
     (ra\<lparr>ra_heap := (ra_heap ra)(ra_next ra := fs), ra_next := Suc (ra_next ra)\<rparr>, ra_next ra)"

definition set_flow :: "nat \<Rightarrow> flow_state \<Rightarrow> reassembler \<Rightarrow> reassembler" where
  "set_flow a fs ra = ra\<lparr>ra_heap := (ra_heap ra)(a := fs)\<rparr>"

definition del_flow :: "flow_key \<Rightarrow> reassembler \<Rightarrow> reassembler" where
  "del_flow k ra = ra\<lparr>ra_flows := (ra_flows ra)(k := None)\<rparr>"

text \<open>The lookup at the head of \<open>Push\<close>: a new state for a new or a finished flow.\<close>

definition flow_for :: "flow_key \<Rightarrow> reassembler \<Rightarrow> reassembler \<times> nat" where
  "flow_for k ra =
     (case ra_flows ra k of
        Some a \<Rightarrow>
          if fs_finSeen (ra_heap ra a)
          then (case alloc empty_flow_state ra of
                  (ra', a') \<Rightarrow> (ra'\<lparr>ra_flows := (ra_flows ra')(k \<mapsto> a')\<rparr>, a'))
          else (ra, a)
      | None \<Rightarrow>
          (case alloc empty_flow_state ra of
             (ra', a') \<Rightarrow> (ra'\<lparr>ra_flows := (ra_flows ra')(k \<mapsto> a')\<rparr>, a')))"

text \<open>The flow state after a SYN, and after a segment without SYN and RST.\<close>

definition syn_state :: "flow_state \<Rightarrow> segment \<Rightarrow> flow_state" where
  "syn_state fs seg =
     (let fs = fs\<lparr>fs_base := seg_seq seg + 1, fs_baseSet := True\<rparr> in
      if seg_payload seg \<noteq> [] then drain (place fs (seg_seq seg + 1) (seg_payload seg)) else fs)"

definition data_state :: "flow_state \<Rightarrow> segment \<Rightarrow> flow_state" where
  "data_state fs seg =
     (let fs = (if seg_payload seg \<noteq> [] then drain (place fs (seg_seq seg) (seg_payload seg)) else fs) in
      if FIN (seg_flags seg)
      then fs\<lparr>fs_finSeen := True,
              fs_finSeq := (if seg_payload seg \<noteq> []
                            then seg_seq seg + of_nat (length (seg_payload seg))
                            else seg_seq seg)\<rparr>
      else fs)"

definition push :: "reassembler \<Rightarrow> segment \<Rightarrow> reassembler \<times> stream" where
  "push ra seg =
     (if \<not> seg_isTCP seg then
        (case alloc (empty_flow_state\<lparr>fs_base := 0, fs_buf := seg_payload seg, fs_baseSet := True\<rparr>) ra of
           (ra', a) \<Rightarrow> (ra', \<lparr>st_key = no_flow, st_fs = Some a\<rparr>))
      else
        (case flow_for (seg_flow seg) ra of
           (ra, a) \<Rightarrow>
             if RST (seg_flags seg) then
               (case alloc (empty_flow_state\<lparr>fs_baseSet := True\<rparr>) (del_flow (seg_flow seg) ra) of
                  (ra', a') \<Rightarrow> (ra', \<lparr>st_key = seg_flow seg, st_fs = Some a'\<rparr>))
             else if SYN (seg_flags seg) then
               (set_flow a (syn_state (ra_heap ra a) seg) ra, \<lparr>st_key = seg_flow seg, st_fs = Some a\<rparr>)
             else
               (let fs = data_state (ra_heap ra a) seg;
                    ra = set_flow a fs ra;
                    ra = (if fs_finSeen fs \<and> fs_buf fs = [] then del_flow (seg_flow seg) ra else ra)
                in (ra, \<lparr>st_key = seg_flow seg, st_fs = Some a\<rparr>))))"

definition stream_bytes :: "reassembler \<Rightarrow> stream \<Rightarrow> byte list" where
  "stream_bytes ra s = (case st_fs s of None \<Rightarrow> [] | Some a \<Rightarrow> fs_buf (ra_heap ra a))"

definition stream_consume :: "reassembler \<Rightarrow> stream \<Rightarrow> int \<Rightarrow> reassembler" where
  "stream_consume ra s n =
     (case st_fs s of
        None \<Rightarrow> ra
      | Some a \<Rightarrow>
          (let fs = consume (ra_heap ra a) n; ra = set_flow a fs ra in
           if st_key s \<noteq> no_flow \<and> fs_finSeen fs \<and> fs_buf fs = [] then del_flow (st_key s) ra else ra))"

definition forget :: "reassembler \<Rightarrow> flow_key \<Rightarrow> reassembler" where
  "forget ra k = del_flow k ra"

definition reset :: "reassembler \<Rightarrow> reassembler" where
  "reset ra = ra\<lparr>ra_flows := Map.empty\<rparr>"

lemmas ra_op_defs = push_def flow_for_def alloc_def set_flow_def del_flow_def stream_consume_def
  forget_def reset_def

section \<open>Reachable reassemblers\<close>

inductive ra_reach :: "reassembler \<Rightarrow> stream set \<Rightarrow> bool" where
  new: "ra_reach newReassembler {}"
| push: "ra_reach ra ss \<Longrightarrow> push ra seg = (ra', s) \<Longrightarrow> ra_reach ra' (insert s ss)"
| consume: "ra_reach ra ss \<Longrightarrow> s \<in> ss \<Longrightarrow> ra_reach (stream_consume ra s n) ss"
| forget: "ra_reach ra ss \<Longrightarrow> ra_reach (forget ra k) ss"
| reset: "ra_reach ra ss \<Longrightarrow> ra_reach (reset ra) ss"

text \<open>
  The store is well formed: every address in use is allocated, no two flows share a state,
  a stream's state belongs to the flow of its key or to none, and a stream without a flow
  key never aliases a flow.
\<close>

definition ra_wf :: "reassembler \<Rightarrow> stream set \<Rightarrow> bool" where
  "ra_wf ra ss \<longleftrightarrow>
     (\<forall>k a. ra_flows ra k = Some a \<longrightarrow> a < ra_next ra) \<and>
     (\<forall>k k' a. ra_flows ra k = Some a \<and> ra_flows ra k' = Some a \<longrightarrow> k = k') \<and>
     (\<forall>s \<in> ss. \<forall>a. st_fs s = Some a \<longrightarrow>
        a < ra_next ra \<and> (\<forall>k. ra_flows ra k = Some a \<longrightarrow> k = st_key s))"

definition flow_at :: "reassembler \<Rightarrow> flow_key \<Rightarrow> flow_state option" where
  "flow_at ra k = map_option (ra_heap ra) (ra_flows ra k)"

lemma ra_wf_new [simp]: "ra_wf newReassembler {}"
  by (simp add: ra_wf_def newReassembler_def)

lemma ra_wf_del: "ra_wf ra ss \<Longrightarrow> ra_wf (del_flow k ra) ss"
  by (auto simp: ra_wf_def del_flow_def)

lemma ra_wf_set: "ra_wf ra ss \<Longrightarrow> ra_wf (set_flow a fs ra) ss"
  by (auto simp: ra_wf_def set_flow_def)

lemma ra_wf_fresh: "ra_wf ra ss \<Longrightarrow> ra_flows ra k \<noteq> Some (ra_next ra)"
  by (auto simp: ra_wf_def)

lemma ra_wf_alloc:
  assumes "ra_wf ra ss" and "alloc fs ra = (ra', a)"
  shows "ra_wf ra' ss" and "a < ra_next ra'" and "a = ra_next ra" and "ra_flows ra' = ra_flows ra"
    and "ra_heap ra' = (ra_heap ra)(a := fs)"
proof -
  have eqs: "ra' = ra\<lparr>ra_heap := (ra_heap ra)(ra_next ra := fs), ra_next := Suc (ra_next ra)\<rparr>"
    "a = ra_next ra"
    using assms(2) by (auto simp: alloc_def)
  show "ra_wf ra' ss"
    using assms(1) unfolding ra_wf_def eqs by (simp add: less_SucI)
  show "a < ra_next ra'" "a = ra_next ra" "ra_flows ra' = ra_flows ra"
    "ra_heap ra' = (ra_heap ra)(a := fs)"
    by (simp_all add: eqs)
qed

lemma ra_wf_bind:
  assumes "ra_wf ra ss" and "alloc fs ra = (ra', a)"
  shows "ra_wf (ra'\<lparr>ra_flows := (ra_flows ra')(k \<mapsto> a)\<rparr>) ss"
proof -
  note al = ra_wf_alloc [OF assms]
  have "ra_flows ra' k' \<noteq> Some a" for k'
    using ra_wf_fresh [OF assms(1)] al(3,4) by simp
  moreover have "st_fs s \<noteq> Some a" if "s \<in> ss" for s
    using assms(1) that al(3) by (auto simp: ra_wf_def)
  ultimately show ?thesis
    using al(1,2) by (simp add: ra_wf_def)
qed

lemma ra_wf_flow_for:
  assumes "ra_wf ra ss" and "flow_for k ra = (ra', a)"
  shows "ra_wf ra' ss" and "ra_flows ra' k = Some a" and "a < ra_next ra'"
proof -
  show wf: "ra_wf ra' ss"
    using assms by (auto simp: flow_for_def split: option.splits if_splits prod.splits intro: ra_wf_bind)
  show fl: "ra_flows ra' k = Some a"
    using assms(2) by (auto simp: flow_for_def split: option.splits if_splits prod.splits)
  show "a < ra_next ra'"
    using wf fl by (simp add: ra_wf_def)
qed

lemma ra_wf_insert:
  "ra_wf ra (insert s ss) \<longleftrightarrow>
     ra_wf ra ss \<and> (\<forall>a. st_fs s = Some a \<longrightarrow> a < ra_next ra \<and> (\<forall>k. ra_flows ra k = Some a \<longrightarrow> k = st_key s))"
  by (auto simp: ra_wf_def)

lemma ra_wf_push:
  assumes wf: "ra_wf ra ss" and p: "push ra seg = (ra', s)"
  shows "ra_wf ra' (insert s ss)"
proof (cases "seg_isTCP seg")
  case False
  obtain ra1 a where al: "alloc (empty_flow_state\<lparr>fs_base := 0, fs_buf := seg_payload seg,
      fs_baseSet := True\<rparr>) ra = (ra1, a)"
    by fastforce
  with False p have "ra' = ra1" "s = \<lparr>st_key = no_flow, st_fs = Some a\<rparr>"
    by (simp_all add: push_def)
  with ra_wf_alloc [OF wf al] ra_wf_fresh [OF wf] show ?thesis
    by (simp add: ra_wf_insert)
next
  case True
  obtain ra1 a where f: "flow_for (seg_flow seg) ra = (ra1, a)"
    by fastforce
  note f1 = ra_wf_flow_for [OF wf f]
  show ?thesis
  proof (cases "RST (seg_flags seg)")
    case rst: True
    obtain ra2 a2 where al: "alloc (empty_flow_state\<lparr>fs_baseSet := True\<rparr>) (del_flow (seg_flow seg) ra1) = (ra2, a2)"
      by fastforce
    have r: "ra' = ra2" "s = \<lparr>st_key = seg_flow seg, st_fs = Some a2\<rparr>"
      using p True rst f al by (simp_all add: push_def)
    have "ra_wf (del_flow (seg_flow seg) ra1) ss"
      using f1 ra_wf_del by blast
    note al1 = ra_wf_alloc [OF this al] and fresh = ra_wf_fresh [OF this]
    show ?thesis
      using al1 fresh by (simp add: r ra_wf_insert)
  next
    case False
    have own: "a < ra_next ra1 \<and> (\<forall>k. ra_flows ra1 k = Some a \<longrightarrow> k = seg_flow seg)"
      using f1 by (auto simp: ra_wf_def)
    then have "ra_wf ra1 (insert \<lparr>st_key = seg_flow seg, st_fs = Some a\<rparr> ss)"
      using f1(1) by (subst ra_wf_insert) auto
    then have set: "ra_wf (set_flow a fs ra1) (insert \<lparr>st_key = seg_flow seg, st_fs = Some a\<rparr> ss)" for fs
      by (rule ra_wf_set)
    have "s = \<lparr>st_key = seg_flow seg, st_fs = Some a\<rparr> \<and>
        (\<exists>fs. ra' = set_flow a fs ra1 \<or> ra' = del_flow (seg_flow seg) (set_flow a fs ra1))"
      using p True False f by (auto simp: push_def Let_def split: if_splits)
    then show ?thesis
      using set ra_wf_del [OF set] by blast
  qed
qed

lemma ra_wf_consume: "ra_wf ra ss \<Longrightarrow> ra_wf (stream_consume ra s n) ss"
  by (auto simp: stream_consume_def Let_def intro: ra_wf_set ra_wf_del split: option.split)

lemma ra_reach_wf: "ra_reach ra ss \<Longrightarrow> ra_wf ra ss"
proof (induction rule: ra_reach.induct)
  case (reset ra ss)
  then show ?case by (auto simp: ra_wf_def reset_def)
qed (auto intro: ra_wf_push ra_wf_consume ra_wf_del simp: forget_def)


section \<open>What one call does to the flows\<close>

lemma map_option_fresh [simp]: "m \<noteq> Some a \<Longrightarrow> map_option (h(a := x)) m = map_option h m"
  by (cases m) auto

lemma flow_for_other:
  assumes "ra_wf ra ss" and "flow_for k ra = (ra', a)" and "k' \<noteq> k"
  shows "flow_at ra' k' = flow_at ra k'"
proof -
  have "ra_flows ra k' \<noteq> Some (ra_next ra)"
    by (rule ra_wf_fresh [OF assms(1)])
  with assms(2,3) show ?thesis
    by (auto simp: flow_for_def alloc_def flow_at_def split: option.splits if_splits)
qed

lemma flow_at_set_other:
  "ra_wf ra ss \<Longrightarrow> ra_flows ra k = Some a \<Longrightarrow> k' \<noteq> k \<Longrightarrow> flow_at (set_flow a fs ra) k' = flow_at ra k'"
  by (auto simp: flow_at_def set_flow_def ra_wf_def split: option.splits intro!: option.map_cong0)

lemma flow_at_del: "flow_at (del_flow k ra) k' = (if k' = k then None else flow_at ra k')"
  by (simp add: flow_at_def del_flow_def)

lemma flow_at_alloc:
  "ra_wf ra ss \<Longrightarrow> alloc fs ra = (ra', a) \<Longrightarrow> flow_at ra' k = flow_at ra k"
  using ra_wf_fresh [of ra ss k] by (auto simp: flow_at_def alloc_def)

lemma push_other_flow:
  assumes wf: "ra_wf ra ss" and p: "push ra seg = (ra', s)" and k: "k \<noteq> seg_flow seg \<or> \<not> seg_isTCP seg"
  shows "flow_at ra' k = flow_at ra k"
proof (cases "seg_isTCP seg")
  case False
  with p flow_at_alloc [OF wf] show ?thesis
    by (auto simp: push_def split: prod.splits)
next
  case True
  with k have k: "k \<noteq> seg_flow seg"
    by simp
  obtain ra1 a where f: "flow_for (seg_flow seg) ra = (ra1, a)"
    by fastforce
  note f1 = ra_wf_flow_for [OF wf f]
  have o1: "flow_at ra1 k = flow_at ra k"
    by (rule flow_for_other [OF wf f k])
  have set: "flow_at (set_flow a fs ra1) k = flow_at ra k" for fs
    using flow_at_set_other [OF f1(1,2) k] o1 by simp
  show ?thesis
  proof (cases "RST (seg_flags seg)")
    case rst: True
    with p True f flow_at_alloc [OF ra_wf_del [OF f1(1)], of _ "seg_flow seg"] o1 k show ?thesis
      by (auto simp: push_def flow_at_del split: prod.splits)
  next
    case False
    with p True f set k show ?thesis
      by (auto simp: push_def Let_def flow_at_del split: if_splits)
  qed
qed

text \<open>A data segment without control bits on a flow that is open: admitted to its buffer.\<close>

definition data_segment :: "flow_key \<Rightarrow> u32 \<Rightarrow> byte list \<Rightarrow> segment" where
  "data_segment k seq d =
     \<lparr>seg_payload = d, seg_flow = k, seg_seq = seq, seg_flags = no_flags\<lparr>ACK := True\<rparr>,
      seg_isTCP = True, seg_linkType = LinkTypeEthernet\<rparr>"

definition syn_segment :: "flow_key \<Rightarrow> u32 \<Rightarrow> segment" where
  "syn_segment k seq =
     (data_segment k seq [])\<lparr>seg_flags := no_flags\<lparr>SYN := True\<rparr>\<rparr>"

definition fin_segment :: "flow_key \<Rightarrow> u32 \<Rightarrow> segment" where
  "fin_segment k seq =
     (data_segment k seq [])\<lparr>seg_flags := no_flags\<lparr>FIN := True, ACK := True\<rparr>\<rparr>"

lemmas segment_defs = data_segment_def syn_segment_def fin_segment_def no_flags_def

lemma push_data_open:
  assumes "ra_flows ra k = Some a" and "\<not> fs_finSeen (ra_heap ra a)"
  shows "push ra (data_segment k seq d) =
    (set_flow a (admit (ra_heap ra a) seq d) ra, \<lparr>st_key = k, st_fs = Some a\<rparr>)"
proof -
  have "fs_finSeen (place fs seq d) = fs_finSeen fs" for fs
    by (simp add: place_def place_at_def Let_def)
  with assms show ?thesis
    by (simp add: push_def data_segment_def no_flags_def flow_for_def admit_def data_state_def Let_def)
qed

lemma push_syn_new:
  "ra_flows ra k = None \<Longrightarrow>
   push ra (syn_segment k seq) =
     (ra\<lparr>ra_flows := (ra_flows ra)(k \<mapsto> ra_next ra), ra_next := Suc (ra_next ra),
         ra_heap := (ra_heap ra)(ra_next ra := syn_flow (seq + 1))\<rparr>,
      \<lparr>st_key = k, st_fs = Some (ra_next ra)\<rparr>)"
  by (simp add: push_def segment_defs flow_for_def alloc_def set_flow_def syn_flow_def
        syn_state_def Let_def)

section \<open>A whole connection through the interface\<close>

text \<open>
  The plugin's loop on one flow: every arriving segment is pushed, and the bytes the parser
  takes are consumed from the stream the last \<open>Push\<close> returned.
\<close>

fun ra_run ::
  "(nat \<Rightarrow> byte) \<Rightarrow> u32 \<Rightarrow> flow_key \<Rightarrow> reassembler \<Rightarrow> stream \<Rightarrow> flow_op list
     \<Rightarrow> reassembler \<times> stream \<times> byte list"
where
  "ra_run S isn k ra s [] = (ra, s, [])"
| "ra_run S isn k ra s (Arrive q n # ops) =
     (case push ra (data_segment k (isn + of_nat q) (slice S q n)) of
        (ra', s') \<Rightarrow> ra_run S isn k ra' s' ops)"
| "ra_run S isn k ra s (Take n # ops) =
     (let got = take (nat n) (stream_bytes ra s) in
      case ra_run S isn k (stream_consume ra s n) s ops of
        (ra', s', out) \<Rightarrow> (ra', s', got @ out))"

lemma admit_finSeen: "fs_finSeen (admit fs seq d) = fs_finSeen fs"
  by (simp add: admit_def place_def place_at_def Let_def)

lemma ra_run_flow_run:
  assumes "ra_flows ra k = Some a" and "\<not> fs_finSeen (ra_heap ra a)"
    and "s = \<lparr>st_key = k, st_fs = Some a\<rparr>"
    and "flow_run S isn (ra_heap ra a) ops = (fs', out)"
  shows "\<exists>ra'. ra_run S isn k ra s ops = (ra', s, out) \<and> ra_heap ra' a = fs' \<and> ra_flows ra' = ra_flows ra"
  using assms
proof (induction ops arbitrary: ra out)
  case Nil
  then show ?case by simp
next
  case (Cons x ops)
  show ?case
  proof (cases x)
    case (Arrive q n)
    let ?ra = "set_flow a (admit (ra_heap ra a) (isn + of_nat q) (slice S q n)) ra"
    have "\<exists>ra'. ra_run S isn k ?ra s ops = (ra', s, out) \<and> ra_heap ra' a = fs' \<and> ra_flows ra' = ra_flows ?ra"
      by (rule Cons.IH) (use Cons.prems Arrive in \<open>auto simp: set_flow_def admit_finSeen\<close>)
    with Cons.prems Arrive show ?thesis
      by (simp add: push_data_open set_flow_def)
  next
    case (Take n)
    let ?ra = "set_flow a (consume (ra_heap ra a) n) ra"
    obtain out1 where o: "flow_run S isn (consume (ra_heap ra a) n) ops = (fs', out1)"
      "out = taken (ra_heap ra a) n @ out1"
      using Cons.prems(4) Take by (auto split: prod.splits)
    have "\<exists>ra'. ra_run S isn k ?ra s ops = (ra', s, out1) \<and> ra_heap ra' a = fs' \<and> ra_flows ra' = ra_flows ?ra"
      by (rule Cons.IH) (use Cons.prems o in \<open>auto simp: set_flow_def\<close>)
    with Cons.prems Take o show ?thesis
      by (auto simp: stream_consume_def stream_bytes_def set_flow_def taken_def Let_def)
  qed
qed

lemma connection_run:
  assumes "ra_flows ra k = None" and "push ra (syn_segment k (isn - 1)) = (ra0, s0)"
    and "in_window S isn 0 (syn_flow isn) ops" and "ra_run S isn k ra0 s0 ops = (ra', s', out)"
  obtains fs where "stream_bytes ra' s' = fs_buf fs"
    and "flow_ok S isn (length out) (length out + 2 ^ 31) fs" and "settled isn (length out) fs"
    and "slice S 0 (length out) = out"
    and "length (arrivals ops) \<le> maxOOB \<Longrightarrow>
      \<forall>i. (\<exists>(q, n) \<in> set (arrivals ops). q \<le> i \<and> i < q + n) \<longrightarrow>
        i < length out \<or> holds_pos S isn (length out) (length out + 2 ^ 31) fs i"
proof -
  have p: "push ra (syn_segment k (isn - 1)) =
     (ra\<lparr>ra_flows := (ra_flows ra)(k \<mapsto> ra_next ra), ra_next := Suc (ra_next ra),
         ra_heap := (ra_heap ra)(ra_next ra := syn_flow isn)\<rparr>,
      \<lparr>st_key = k, st_fs = Some (ra_next ra)\<rparr>)"
    using push_syn_new [OF assms(1), of "isn - 1"] by simp
  obtain fs out' where r: "flow_run S isn (syn_flow isn) ops = (fs, out')"
    by fastforce
  have "\<exists>ra2. ra_run S isn k ra0 s0 ops = (ra2, s0, out') \<and> ra_heap ra2 (ra_next ra) = fs \<and>
      ra_flows ra2 = ra_flows ra0"
    by (rule ra_run_flow_run)
      (use assms(2) p r in \<open>auto simp: syn_flow_def empty_flow_state_def\<close>)
  with assms(2,4) p have res: "out' = out" "stream_bytes ra' s' = fs_buf fs"
    by (auto simp: stream_bytes_def)
  have "flow_ok S isn 0 (0 + 2 ^ 31) (syn_flow isn)"
    using syn_flow_ok(1) by simp
  note run = flow_run_ok [OF this syn_flow_ok(2) assms(3) r, unfolded res add_0]
  have "length (fs_oob (syn_flow isn)) = 0"
    by (simp add: syn_flow_def empty_flow_state_def)
  with run res(2) show thesis
    by (intro that) auto
qed

section \<open>Example streams for the witnesses\<close>

text \<open>A stream of letters whose sequence numbers wrap after the first byte.\<close>

definition demo_stream :: "nat \<Rightarrow> byte" where
  "demo_stream i = of_nat (i + 65)"

definition demo_isn :: u32 where
  "demo_isn = 4294967295"

definition demo_ops :: "flow_op list" where
  "demo_ops = [Arrive 2 2, Arrive 0 3, Take 2, Arrive 4 1]"

definition demo_flow :: flow_key where
  "demo_flow =
     \<lparr>fk_src = \<lparr>ap_addr = [10, 0, 0, 1], ap_port = 40000\<rparr>,
      fk_dst = \<lparr>ap_addr = [10, 0, 0, 2], ap_port = 9250\<rparr>, fk_protocol = ''tcp''\<rparr>"

text \<open>Bytes 2 and 3 are parked, the FIN overtakes bytes 0 and 1.\<close>

definition demo_gap :: reassembler where
  "demo_gap =
     \<lparr>ra_flows = [demo_flow \<mapsto> 0],
      ra_heap = (\<lambda>_. (syn_flow 100)\<lparr>fs_oob := [\<lparr>ps_seq = 102, ps_data = [67, 68]\<rparr>]\<rparr>),
      ra_next = 1\<rparr>"

section \<open>Properties\<close>

text \<open>
  (C1) Reassembly is faithful. After the SYN of a new flow, whatever data segments of the
  peer's stream \<open>S\<close> arrive (in any order, overlapping, duplicated, retransmitted, across the
  wrap of the sequence numbers) and however the parser's reads are interleaved with them,
  the bytes handed to the parser so far followed by the bytes \<open>Stream.Bytes\<close> now shows are
  exactly a prefix of \<open>S\<close>: nothing is reordered, duplicated, skipped or corrupted. The
  segments lie within half the sequence space of the base, as TCP guarantees.
\<close>

theorem reassembly_faithful:
  assumes "ra_flows ra k = None" and "push ra (syn_segment k (isn - 1)) = (ra0, s0)"
    and "in_window S isn 0 (syn_flow isn) ops"
    and "ra_run S isn k ra0 s0 ops = (ra', s', out)"
  shows "out @ stream_bytes ra' s' = slice S 0 (length out + length (stream_bytes ra' s'))"
proof -
  from assms obtain fs where "stream_bytes ra' s' = fs_buf fs"
    and "flow_ok S isn (length out) (length out + 2 ^ 31) fs" and "slice S 0 (length out) = out"
    by (rule connection_run)
  then show ?thesis
    using slice_append [of S 0 "length out" "length (fs_buf fs)"] by (simp add: flow_ok_def)
qed


text \<open>
  Flows are isolated. In every state the reassembler can reach, \<open>Push\<close> of a segment
  leaves the reassembly state of every other flow as it was, and a segment that is not TCP
  leaves all of them as they were; in particular the two directions of a connection never
  share a buffer.
\<close>

theorem push_isolates_flows:
  assumes "ra_reach ra ss" and "push ra seg = (ra', s)" and "seg_isTCP seg \<longrightarrow> k \<noteq> seg_flow seg"
  shows "flow_at ra' k = flow_at ra k"
  by (rule push_other_flow [OF ra_reach_wf [OF assms(1)] assms(2)]) (use assms(3) in blast)

text \<open>
  A FIN that overtakes data loses it. When a FIN without data reaches a flow whose
  buffer is empty, the flow is deleted although segments are parked behind a gap, and the
  late segment that would close the gap starts an empty flow: the parked bytes never reach
  the parser. The FIN's sequence number is recorded but never compared with the frontier.
\<close>

theorem fin_discards_parked:
  assumes "ra_flows ra k = Some a" and "\<not> fs_finSeen (ra_heap ra a)" and "fs_buf (ra_heap ra a) = []"
    and "push ra (fin_segment k finseq) = (ra1, s1)" and "d \<noteq> []"
    and "push ra1 (data_segment k seq d) = (ra2, s2)"
  shows "flow_at ra1 k = None \<and> stream_bytes ra2 s2 = fs_buf (admit empty_flow_state seq d)"
proof -
  have r1: "ra1 = del_flow k (set_flow a ((ra_heap ra a)\<lparr>fs_finSeen := True, fs_finSeq := finseq\<rparr>) ra)"
    using assms(1-4)
    by (auto simp: push_def segment_defs flow_for_def data_state_def Let_def)
  then have "ra_flows ra1 k = None"
    by (simp add: del_flow_def)
  moreover from this assms(5,6) have "stream_bytes ra2 s2 = fs_buf (admit empty_flow_state seq d)"
    by (auto simp: push_def segment_defs flow_for_def alloc_def data_state_def Let_def admit_def
        stream_bytes_def set_flow_def del_flow_def split: if_splits)
  ultimately show ?thesis
    by (simp add: flow_at_def)
qed

section \<open>Witnesses\<close>

lemma demo_in_window: "in_window demo_stream demo_isn 0 (syn_flow demo_isn) demo_ops"
  by (simp add: demo_ops_def taken_def)

lemma demo_flow_run:
  "map_prod fs_buf id (flow_run demo_stream demo_isn (syn_flow demo_isn) demo_ops) =
     ([67, 68, 69], [65, 66])"
  by code_simp

theorem reassembly_faithful_witness:
  "\<exists>ra0 s0 ra' s' out. push newReassembler (syn_segment demo_flow (demo_isn - 1)) = (ra0, s0) \<and>
     ra_run demo_stream demo_isn demo_flow ra0 s0 demo_ops = (ra', s', out) \<and>
     out @ stream_bytes ra' s' = slice demo_stream 0 (length out + length (stream_bytes ra' s'))"
proof -
  obtain ra0 s0 where p: "push newReassembler (syn_segment demo_flow (demo_isn - 1)) = (ra0, s0)"
    by fastforce
  obtain ra' s' out where r: "ra_run demo_stream demo_isn demo_flow ra0 s0 demo_ops = (ra', s', out)"
    by (metis prod_cases3)
  have "ra_flows newReassembler demo_flow = None"
    by (simp add: newReassembler_def)
  from reassembly_faithful [OF this p demo_in_window r] p r show ?thesis
    by blast
qed


theorem push_isolates_flows_witness:
  "\<exists>ra' s. push newReassembler (data_segment demo_flow 7 [1, 2]) = (ra', s) \<and>
     demo_flow \<noteq> reverse_flow demo_flow \<and>
     flow_at ra' (reverse_flow demo_flow) = flow_at newReassembler (reverse_flow demo_flow)"
proof -
  obtain ra' s where p: "push newReassembler (data_segment demo_flow 7 [1, 2]) = (ra', s)"
    by fastforce
  have ne: "demo_flow \<noteq> reverse_flow demo_flow"
    by (simp add: demo_flow_def reverse_flow_def)
  then have "seg_isTCP (data_segment demo_flow 7 [1, 2]) \<longrightarrow>
      reverse_flow demo_flow \<noteq> seg_flow (data_segment demo_flow 7 [1, 2])"
    by (simp add: data_segment_def eq_commute)
  from push_isolates_flows [OF ra_reach.new p this] p ne show ?thesis
    by blast
qed

theorem fin_discards_parked_witness:
  "\<exists>ra1 s1 ra2 s2. push demo_gap (fin_segment demo_flow 104) = (ra1, s1) \<and>
     push ra1 (data_segment demo_flow 100 [65, 66]) = (ra2, s2) \<and>
     stream_bytes ra2 s2 = [65, 66]"
proof -
  obtain ra1 s1 where p1: "push demo_gap (fin_segment demo_flow 104) = (ra1, s1)"
    by fastforce
  obtain ra2 s2 where p2: "push ra1 (data_segment demo_flow 100 [65, 66]) = (ra2, s2)"
    by fastforce
  have h: "ra_flows demo_gap demo_flow = Some 0" "\<not> fs_finSeen (ra_heap demo_gap 0)"
    "fs_buf (ra_heap demo_gap 0) = []"
    by (simp_all add: demo_gap_def syn_flow_def empty_flow_state_def)
  have "fs_buf (admit empty_flow_state 100 [65, 66]) = [65, 66]"
    by code_simp
  with fin_discards_parked [OF h p1 _ p2] p1 p2 show ?thesis
    by auto
qed

end
