(* ===== verification/Spool.thy ===== *)
theory Spool
  imports GT_Prelude "HOL-Library.AList"
begin

text \<open>
  \<open>pkg/spool/queue.go\<close> and \<open>pkg/spool/retention.go\<close>: the disk queue that buffers captured
  packets on the probe until the server acknowledged them.

  The directory is part of the state: a list of segment files (number and content), the
  index files beside them, the modification times and the cursor file. A crash of the
  process keeps exactly the directory (\<open>q_disk\<close>). Protobuf is a third-party package: the
  operations take \<open>marshal\<close>, \<open>unmarshal\<close> and the two accessors of a packet as arguments.
  Calls of the operating system succeed unless the file is missing or its handle is closed.
  Byte counts and offsets (\<open>int64\<close>) are \<open>nat\<close>; times are nanoseconds.
\<close>

section \<open>Data\<close>

datatype cursor = Cursor (cur_seg: nat) (cur_off: nat)

text \<open>Cursors are ordered by position: segment first, then offset.\<close>

instantiation cursor :: linorder
begin

definition less_eq_cursor :: "cursor \<Rightarrow> cursor \<Rightarrow> bool" where
  "c \<le> d \<longleftrightarrow> cur_seg c < cur_seg d \<or> cur_seg c = cur_seg d \<and> cur_off c \<le> cur_off d"

definition less_cursor :: "cursor \<Rightarrow> cursor \<Rightarrow> bool" where
  "(c :: cursor) < d \<longleftrightarrow> c \<le> d \<and> \<not> d \<le> c"

instance
  by standard (auto simp: less_eq_cursor_def less_cursor_def intro: cursor.expand)

end

record entry =
  e_seg :: nat
  e_off :: nat
  e_n :: nat

record seg_info =
  si_firstMs :: int
  si_lastMs :: int
  si_packets :: nat
  si_bytes :: nat

record retention =
  rt_maxAge :: time
  rt_maxBytes :: int

record options =
  opt_maxBytes :: int
  opt_segmentBytes :: int
  opt_retention :: "retention option"

record disk =
  d_segs :: "(nat \<times> byte list) list"
  d_idx :: "(nat \<times> seg_info) list"
  d_mtime :: "nat \<Rightarrow> int"
  d_cursor :: "cursor option"

record queue =
  q_maxBytes :: int
  q_segBytes :: int
  q_entries :: "entry list"
  q_nextIdx :: nat
  q_bytes :: nat
  q_wrCur :: cursor
  q_wrFile :: "nat option"
  q_files :: "nat list"
  q_unsynced :: int
  q_lastSync :: time
  q_ackSinceCS :: nat
  q_dropped :: nat
  q_closed :: bool
  q_retention :: "retention option"
  q_segMeta :: "(nat \<times> seg_info) list"
  q_disk :: disk

datatype spool_error =
  ErrFull | ErrClosed | ErrMarshal | ErrUnmarshal | ErrDirRequired | ErrWriteClosed
| ErrNotExist | ErrShortRead | ErrPanic | ErrWrapped spool_error

text \<open>
  \<open>os.IsNotExist\<close> looks through the error types of package \<open>os\<close> only; an error wrapped by
  \<open>fmt.Errorf\<close> with \<open>%w\<close> is none of them.
\<close>

definition os_IsNotExist :: "spool_error \<Rightarrow> bool" where
  "os_IsNotExist e \<longleftrightarrow> e = ErrNotExist"

definition headerSize :: nat where "headerSize = 4"
definition DefaultMaxBytes :: int where "DefaultMaxBytes = 536870912"
definition DefaultSegmentBytes :: int where "DefaultSegmentBytes = 67108864"
definition syncEveryBytes :: int where "syncEveryBytes = 4194304"
definition syncEvery :: time where "syncEvery = 200000000"
definition cursorSyncEvery :: nat where "cursorSyncEvery = 512"

section \<open>The record format\<close>

unbundle bit_operations_syntax

definition be32 :: "u32 \<Rightarrow> byte list" where
  "be32 w = [ucast (drop_bit 24 w), ucast (drop_bit 16 w), ucast (drop_bit 8 w), ucast w]"

definition get32 :: "byte list \<Rightarrow> u32" where
  "get32 bs =
     push_bit 24 (ucast (bs ! 0)) OR push_bit 16 (ucast (bs ! 1)) OR push_bit 8 (ucast (bs ! 2)) OR
     ucast (bs ! 3)"

definition enc_record :: "byte list \<Rightarrow> byte list" where
  "enc_record rec = be32 (of_nat (length rec)) @ rec"

text \<open>\<open>ReadAt\<close> and a positioned write on the content of a file.\<close>

definition read_at :: "byte list \<Rightarrow> nat \<Rightarrow> nat \<Rightarrow> spool_error + byte list" where
  "read_at file off n = (if off + n \<le> length file then Inr (take n (drop off file)) else Inl ErrShortRead)"

definition write_at :: "byte list \<Rightarrow> nat \<Rightarrow> byte list \<Rightarrow> byte list" where
  "write_at file off bs =
     take off file @ replicate (off - length file) 0 @ bs @ drop (off + length bs) file"

section \<open>Files of the queue\<close>

definition seg_content :: "queue \<Rightarrow> nat \<Rightarrow> byte list option" where
  "seg_content q seg = map_of (d_segs (q_disk q)) seg"

definition set_content :: "nat \<Rightarrow> byte list \<Rightarrow> queue \<Rightarrow> queue" where
  "set_content seg bs q =
     q\<lparr>q_disk := (q_disk q)\<lparr>d_segs := AList.update seg bs (d_segs (q_disk q))\<rparr>\<rparr>"

definition fileFor :: "nat \<Rightarrow> queue \<Rightarrow> queue \<times> (spool_error + byte list)" where
  "fileFor seg q =
     (case seg_content q seg of
        None \<Rightarrow> (q, Inl (ErrWrapped ErrNotExist))
      | Some bs \<Rightarrow>
          if seg \<in> set (q_files q) then (q, Inr bs)
          else (q\<lparr>q_files := seg # q_files q\<rparr>, Inr bs))"

definition openSegment :: "nat \<Rightarrow> queue \<Rightarrow> queue" where
  "openSegment seg q =
     (let q = (case seg_content q seg of None \<Rightarrow> set_content seg [] q | Some _ \<Rightarrow> q) in
      q\<lparr>q_files := (if seg \<in> set (q_files q) then q_files q else seg # q_files q)\<rparr>)"

definition openWrite :: "queue \<Rightarrow> queue \<times> (spool_error + unit)" where
  "openWrite q =
     (case fileFor (cur_seg (q_wrCur q)) q of
        (q, Inl e) \<Rightarrow> (q, Inl e)
      | (q, Inr _) \<Rightarrow> (q\<lparr>q_wrFile := Some (cur_seg (q_wrCur q))\<rparr>, Inr ()))"

definition readCur :: "queue \<Rightarrow> cursor" where
  "readCur q =
     (case q_entries q of e # _ \<Rightarrow> Cursor (e_seg e) (e_off e) | [] \<Rightarrow> q_wrCur q)"

definition persistCursor :: "queue \<Rightarrow> queue" where
  "persistCursor q =
     q\<lparr>q_disk := (q_disk q)\<lparr>d_cursor := Some (readCur q)\<rparr>, q_ackSinceCS := 0\<rparr>"

definition loadCursor :: "disk \<Rightarrow> cursor option" where
  "loadCursor d =
     map_option (\<lambda>c. if cur_seg c = 0 then Cursor 1 (cur_off c) else c) (d_cursor d)"

definition listSegments :: "disk \<Rightarrow> nat list" where
  "listSegments d = sort (map fst (d_segs d))"

definition dropSegment :: "nat \<Rightarrow> queue \<Rightarrow> queue" where
  "dropSegment seg q =
     q\<lparr>q_files := removeAll seg (q_files q),
       q_segMeta := AList.delete seg (q_segMeta q),
       q_disk := (q_disk q)\<lparr>d_segs := AList.delete seg (d_segs (q_disk q)),
                             d_idx := AList.delete seg (d_idx (q_disk q))\<rparr>\<rparr>"

definition cleanup :: "queue \<Rightarrow> queue" where
  "cleanup q =
     (if q_retention q \<noteq> None then q
      else fold dropSegment (filter (\<lambda>seg. seg < cur_seg (readCur q)) (q_files q)) q)"

definition sync :: "time \<Rightarrow> queue \<Rightarrow> queue" where
  "sync now q = (if q_wrFile q = None then q else q\<lparr>q_unsynced := 0, q_lastSync := now\<rparr>)"

definition maybeSync :: "time \<Rightarrow> nat \<Rightarrow> queue \<Rightarrow> queue" where
  "maybeSync now written q =
     (let q = q\<lparr>q_unsynced := q_unsynced q + int written\<rparr> in
      if q_unsynced q < syncEveryBytes \<and> now - q_lastSync q < syncEvery then q else sync now q)"

section \<open>Appending\<close>

definition rollSegment :: "time \<Rightarrow> queue \<Rightarrow> queue \<times> (spool_error + unit)" where
  "rollSegment now q =
     (let q = sync now q;
          nxt = cur_seg (q_wrCur q) + 1;
          q = openSegment nxt q
      in openWrite (q\<lparr>q_wrCur := Cursor nxt 0\<rparr>))"

text \<open>The write goes through the handle \<open>wrFile\<close>, which fails once it is closed.\<close>

definition writeRecord :: "time \<Rightarrow> byte list \<Rightarrow> queue \<Rightarrow> queue \<times> (spool_error + unit)" where
  "writeRecord now rec q =
     (case (if q_segBytes q \<le> int (cur_off (q_wrCur q)) then rollSegment now q else (q, Inr ())) of
        (q, Inl e) \<Rightarrow> (q, Inl e)
      | (q, Inr _) \<Rightarrow>
          (case q_wrFile q of
             None \<Rightarrow> (q, Inl ErrWriteClosed)
           | Some seg \<Rightarrow>
               if seg \<notin> set (q_files q) then (q, Inl ErrWriteClosed)
               else
                 (case seg_content q seg of
                    None \<Rightarrow> (q, Inl ErrWriteClosed)
                  | Some bs \<Rightarrow>
                      (set_content seg (write_at bs (cur_off (q_wrCur q)) (enc_record rec)) q, Inr ()))))"

text \<open>\<open>noteSegRecord\<close>; Go's division of the packet time truncates towards zero.\<close>

definition noteSegRecord :: "time \<Rightarrow> nat \<Rightarrow> int \<Rightarrow> nat \<Rightarrow> queue \<Rightarrow> queue" where
  "noteSegRecord now seg tsNs tot q =
     (let m = (case map_of (q_segMeta q) seg of
                 Some m \<Rightarrow> m
               | None \<Rightarrow> \<lparr>si_firstMs = 0, si_lastMs = 0, si_packets = 0, si_bytes = 0\<rparr>);
          tsMs = sgn tsNs * (\<bar>tsNs\<bar> div 1000000);
          tsMs = (if tsMs \<le> 0 then now div 1000000 else tsMs);
          m = (if si_firstMs m = 0 \<or> tsMs < si_firstMs m then m\<lparr>si_firstMs := tsMs\<rparr> else m);
          m = (if si_lastMs m < tsMs then m\<lparr>si_lastMs := tsMs\<rparr> else m)
      in q\<lparr>q_segMeta := AList.update seg
            (m\<lparr>si_packets := si_packets m + 1, si_bytes := si_bytes m + tot\<rparr>) (q_segMeta q)\<rparr>)"

definition append_rec :: "time \<Rightarrow> int \<Rightarrow> byte list \<Rightarrow> queue \<Rightarrow> queue \<times> (spool_error + unit)" where
  "append_rec now tsNs rec q =
     (if q_maxBytes q < int (length rec) then (q, Inl ErrFull)
      else if q_closed q then (q, Inl ErrClosed)
      else
        (let total = headerSize + length rec in
         if q_maxBytes q < int (q_bytes q + total) then (q\<lparr>q_dropped := q_dropped q + 1\<rparr>, Inl ErrFull)
         else
           (case writeRecord now rec q of
              (q, Inl e) \<Rightarrow> (q\<lparr>q_dropped := q_dropped q + 1\<rparr>, Inl e)
            | (q, Inr _) \<Rightarrow>
                (let q = noteSegRecord now (cur_seg (q_wrCur q)) tsNs total q;
                     q = q\<lparr>q_entries := q_entries q @
                              [\<lparr>e_seg = cur_seg (q_wrCur q), e_off = cur_off (q_wrCur q), e_n = length rec\<rparr>],
                           q_wrCur := Cursor (cur_seg (q_wrCur q)) (cur_off (q_wrCur q) + total),
                           q_bytes := q_bytes q + total\<rparr>
                 in (maybeSync now total q, Inr ())))))"

definition append_pkt ::
  "('p \<Rightarrow> byte list option) \<Rightarrow> ('p \<Rightarrow> int) \<Rightarrow> time \<Rightarrow> 'p \<Rightarrow> queue \<Rightarrow> queue \<times> (spool_error + unit)"
where
  "append_pkt marshal tsNs now pkt q =
     (case marshal pkt of
        None \<Rightarrow> (q, Inl ErrMarshal)
      | Some rec \<Rightarrow> append_rec now (tsNs pkt) rec q)"

section \<open>Delivering and acknowledging\<close>

text \<open>
  The records that follow each other in \<open>buf\<close>, \<open>count\<close> of them; \<open>None\<close> is the panic of a
  slice that runs past the buffer.
\<close>

fun read_records :: "nat \<Rightarrow> byte list \<Rightarrow> byte list list option" where
  "read_records 0 buf = Some []"
| "read_records (Suc c) buf =
     (if length buf < headerSize then None
      else
        (let size = unat (get32 buf); rest = drop headerSize buf in
         if length rest < size then None
         else map_option (Cons (take size rest)) (read_records c (drop size rest))))"

fun unmarshal_all :: "(byte list \<Rightarrow> 'p option) \<Rightarrow> byte list list \<Rightarrow> spool_error + 'p list" where
  "unmarshal_all u [] = Inr []"
| "unmarshal_all u (r # rs) =
     (case u r of
        None \<Rightarrow> Inl ErrUnmarshal
      | Some p \<Rightarrow> (case unmarshal_all u rs of Inl e \<Rightarrow> Inl e | Inr ps \<Rightarrow> Inr (p # ps)))"

definition next_pkts ::
  "(byte list \<Rightarrow> 'p option) \<Rightarrow> int \<Rightarrow> queue \<Rightarrow> queue \<times> (spool_error + 'p list)"
where
  "next_pkts unmarshal n q =
     (let n = (if n \<le> 0 then 1 else nat n);
          avail = drop (q_nextIdx q) (q_entries q)
      in
      case avail of
        [] \<Rightarrow> (q, Inr [])
      | head # _ \<Rightarrow>
          (let batch = takeWhile (\<lambda>e. e_seg e = e_seg head) (take n avail);
               span = sum_list (map (\<lambda>e. headerSize + e_n e) batch)
           in
           case fileFor (e_seg head) q of
             (q, Inl e) \<Rightarrow> (q, Inl e)
           | (q, Inr file) \<Rightarrow>
               (case read_at file (e_off head) span of
                  Inl e \<Rightarrow> (q, Inl (ErrWrapped e))
                | Inr buf \<Rightarrow>
                    (case read_records (length batch) buf of
                       None \<Rightarrow> (q, Inl ErrPanic)
                     | Some recs \<Rightarrow>
                         (case unmarshal_all unmarshal recs of
                            Inl e \<Rightarrow> (q, Inl e)
                          | Inr pkts \<Rightarrow> (q\<lparr>q_nextIdx := q_nextIdx q + length batch\<rparr>, Inr pkts))))))"

definition ackN :: "int \<Rightarrow> queue \<Rightarrow> queue" where
  "ackN n q =
     (let n = min n (int (q_nextIdx q)) in
      if n \<le> 0 then q
      else
        (let k = nat n;
             q = q\<lparr>q_bytes := q_bytes q - sum_list (map (\<lambda>e. headerSize + e_n e) (take k (q_entries q))),
                   q_entries := drop k (q_entries q),
                   q_nextIdx := q_nextIdx q - k,
                   q_ackSinceCS := q_ackSinceCS q + k\<rparr>;
             q = (if cursorSyncEvery \<le> q_ackSinceCS q then persistCursor q else q)
         in cleanup q))"

definition requeue :: "queue \<Rightarrow> queue" where
  "requeue q = q\<lparr>q_nextIdx := 0\<rparr>"

definition inFlight :: "queue \<Rightarrow> nat" where
  "inFlight q = q_nextIdx q"

definition depth :: "queue \<Rightarrow> nat \<times> nat" where
  "depth q = (length (q_entries q), q_bytes q)"

definition droppedCount :: "queue \<Rightarrow> nat" where
  "droppedCount q = q_dropped q"

section \<open>Opening, recovery, closing\<close>

text \<open>One segment: the entries found, where the scan stopped, whether that is the end of the file.\<close>

function scan_records :: "nat \<Rightarrow> byte list \<Rightarrow> nat \<Rightarrow> entry list \<times> nat \<times> bool" where
  "scan_records seg file off =
     (if off + headerSize \<le> length file then
        (let n = unat (get32 (take headerSize (drop off file))) in
         if n = 0 \<or> length file < off + headerSize + n then ([], off, False)
         else
           (case scan_records seg file (off + headerSize + n) of
              (es, stop, eof) \<Rightarrow> (\<lparr>e_seg = seg, e_off = off, e_n = n\<rparr> # es, stop, eof)))
      else ([], off, off = length file))"
  by pat_completeness auto
termination
  by (relation "measure (\<lambda>(_, file, off). length file - off)") (auto simp: headerSize_def)

declare scan_records.simps [simp del]

definition scanSegment :: "nat \<Rightarrow> byte list \<Rightarrow> nat \<Rightarrow> entry list \<times> nat \<times> bool" where
  "scanSegment seg file off =
     (if length file \<le> off then ([], length file, True) else scan_records seg file off)"

definition add_entries :: "entry list \<Rightarrow> queue \<Rightarrow> queue" where
  "add_entries es q =
     q\<lparr>q_entries := q_entries q @ es,
       q_bytes := q_bytes q + sum_list (map (\<lambda>e. headerSize + e_n e) es)\<rparr>"

text \<open>
  \<open>scanFrom\<close>. The loop visits segment after segment while the next file exists; \<open>fuel\<close>
  counts them and one more than the number of files is always enough.
\<close>

fun scanFrom :: "nat \<Rightarrow> nat \<Rightarrow> nat \<Rightarrow> queue \<Rightarrow> queue \<times> (spool_error + unit)" where
  "scanFrom 0 seg off q = (q, Inr ())"
| "scanFrom (Suc fuel) seg off q =
     (case fileFor seg q of
        (q, Inl e) \<Rightarrow> if os_IsNotExist e then (q, Inr ()) else (q, Inl e)
      | (q, Inr file) \<Rightarrow>
          (case scanSegment seg file off of
             (es, stop, eof) \<Rightarrow>
               (let q = add_entries es q in
                if \<not> eof then
                  openWrite (set_content seg (take stop file) q \<lparr>q_wrCur := Cursor seg stop\<rparr>)
                else if seg_content q (seg + 1) = None then (q, Inr ())
                else scanFrom fuel (seg + 1) 0 q)))"

definition loadSegMeta :: "nat list \<Rightarrow> queue \<Rightarrow> queue" where
  "loadSegMeta segs q =
     fold (\<lambda>seg q.
       (case map_of (d_idx (q_disk q)) seg of
          Some m \<Rightarrow> q\<lparr>q_segMeta := AList.update seg m (q_segMeta q)\<rparr>
        | None \<Rightarrow>
            if seg_content q seg \<noteq> None then
              q\<lparr>q_segMeta := AList.update seg
                 \<lparr>si_firstMs = d_mtime (q_disk q) seg, si_lastMs = d_mtime (q_disk q) seg,
                  si_packets = 0, si_bytes = 0\<rparr> (q_segMeta q)\<rparr>
            else q)) segs q"

definition recover :: "queue \<Rightarrow> queue \<times> (spool_error + unit)" where
  "recover q =
     (let segs = listSegments (q_disk q);
          q = (if segs \<noteq> [] then
                 q\<lparr>q_wrCur := Cursor (last segs) (length (the (seg_content q (last segs))))\<rparr>
               else (openSegment 1 q)\<lparr>q_wrCur := Cursor 1 0\<rparr>)
      in
      case openWrite q of
        (q, Inl e) \<Rightarrow> (q, Inl e)
      | (q, Inr _) \<Rightarrow>
          (let cur = (case loadCursor (q_disk q) of Some c \<Rightarrow> c | None \<Rightarrow> Cursor 1 0);
               q = loadSegMeta segs q;
               q = (if q_retention q = None
                    then fold dropSegment (filter (\<lambda>seg. seg < cur_seg cur) segs) q else q)
           in scanFrom (Suc (length (d_segs (q_disk q)))) (cur_seg cur) (cur_off cur) q))"

definition saveAllSegMeta :: "queue \<Rightarrow> queue" where
  "saveAllSegMeta q =
     q\<lparr>q_disk := (q_disk q)\<lparr>d_idx := fold (\<lambda>(seg, m). AList.update seg m) (q_segMeta q) (d_idx (q_disk q))\<rparr>\<rparr>"

definition close_queue :: "time \<Rightarrow> queue \<Rightarrow> queue" where
  "close_queue now q =
     (if q_closed q then q
      else (saveAllSegMeta (persistCursor (sync now q)))\<lparr>q_closed := True, q_files := [], q_wrFile := None\<rparr>)"

definition new_queue :: "time \<Rightarrow> options \<Rightarrow> disk \<Rightarrow> queue" where
  "new_queue now opts d =
     \<lparr>q_maxBytes = (if opt_maxBytes opts \<le> 0 then DefaultMaxBytes else opt_maxBytes opts),
      q_segBytes = (if opt_segmentBytes opts \<le> 0 then DefaultSegmentBytes else opt_segmentBytes opts),
      q_entries = [], q_nextIdx = 0, q_bytes = 0, q_wrCur = Cursor 0 0, q_wrFile = None, q_files = [],
      q_unsynced = 0, q_lastSync = now, q_ackSinceCS = 0, q_dropped = 0, q_closed = False,
      q_retention = opt_retention opts, q_segMeta = [], q_disk = d\<rparr>"

text \<open>
  \<open>Open\<close> on the directory \<open>d\<close>: the queue, or the error together with the directory as the
  failed call leaves it (it closes the half-opened queue).
\<close>

definition open_queue :: "time \<Rightarrow> options \<Rightarrow> disk \<Rightarrow> (spool_error \<times> disk) + queue" where
  "open_queue now opts d =
     (case recover (new_queue now opts d) of
        (q, Inl e) \<Rightarrow> Inl (e, q_disk (close_queue now q))
      | (q, Inr _) \<Rightarrow> Inr q)"

section \<open>Chains of records\<close>

text \<open>
  \<open>chain C c es w\<close>: in the files \<open>C\<close>, reading from the position \<open>c\<close> finds exactly the
  records \<open>es\<close>, one after the other and over the borders of segments, and ends at \<open>w\<close>.
\<close>

definition epos :: "entry \<Rightarrow> cursor" where
  "epos e = Cursor (e_seg e) (e_off e)"

definition esize :: "entry \<Rightarrow> nat" where
  "esize e = headerSize + e_n e"

definition rec_at :: "(nat \<Rightarrow> byte list option) \<Rightarrow> entry \<Rightarrow> bool" where
  "rec_at C e \<longleftrightarrow>
     (case C (e_seg e) of
        None \<Rightarrow> False
      | Some fb \<Rightarrow>
          e_off e + esize e \<le> length fb \<and> 0 < e_n e \<and> e_n e < 2 ^ 32 \<and>
          take headerSize (drop (e_off e) fb) = be32 (of_nat (e_n e)))"

definition rec_of :: "(nat \<Rightarrow> byte list option) \<Rightarrow> entry \<Rightarrow> byte list" where
  "rec_of C e = take (e_n e) (drop (e_off e + headerSize) (the (C (e_seg e))))"

inductive chain :: "(nat \<Rightarrow> byte list option) \<Rightarrow> cursor \<Rightarrow> entry list \<Rightarrow> cursor \<Rightarrow> bool"
  for C :: "nat \<Rightarrow> byte list option"
where
  chain_nil: "chain C w [] w"
| chain_roll:
    "C s = Some fb \<Longrightarrow> length fb = off \<Longrightarrow> C (Suc s) \<noteq> None \<Longrightarrow>
     chain C (Cursor (Suc s) 0) es w \<Longrightarrow> chain C (Cursor s off) es w"
| chain_rec:
    "rec_at C e \<Longrightarrow> chain C (Cursor (e_seg e) (e_off e + esize e)) es w \<Longrightarrow>
     c = epos e \<Longrightarrow> chain C c (e # es) w"

lemma headerSize_simps [simp]: "length (be32 w) = headerSize" "0 < headerSize"
  by (simp_all add: be32_def headerSize_def)

lemma get32_be32: "get32 (be32 w @ bs) = w"
proof (rule bit_word_eqI)
  fix n assume "n < LENGTH(32)"
  then consider "n < 8" | "8 \<le> n" "n < 16" | "16 \<le> n" "n < 24" | "24 \<le> n" "n < 32"
    by fastforce
  then show "bit (get32 (be32 w @ bs)) n = bit w n"
    by cases (auto simp: get32_def be32_def bit_simps)
qed

lemma get32_take: "get32 (take headerSize bs) = get32 bs"
  by (simp add: get32_def headerSize_def)

lemma rec_at_some: "rec_at C e \<Longrightarrow> \<exists>fb. C (e_seg e) = Some fb"
  by (auto simp: rec_at_def split: option.splits)

lemma rec_at_bytes:
  assumes "rec_at C e" and "C (e_seg e) = Some fb"
  shows "take (esize e) (drop (e_off e) fb) = enc_record (rec_of C e)"
    and "length (rec_of C e) = e_n e"
proof -
  from assms have len: "e_off e + (headerSize + e_n e) \<le> length fb"
    and hd: "take headerSize (drop (e_off e) fb) = be32 (of_nat (e_n e))"
    by (auto simp: rec_at_def esize_def)
  from len assms(2) show l: "length (rec_of C e) = e_n e"
    by (simp add: rec_of_def)
  have "take (esize e) (drop (e_off e) fb) =
      take headerSize (drop (e_off e) fb) @ take (e_n e) (drop headerSize (drop (e_off e) fb))"
    by (simp add: esize_def take_add)
  with hd l assms(2) show "take (esize e) (drop (e_off e) fb) = enc_record (rec_of C e)"
    by (simp add: enc_record_def rec_of_def add.commute)
qed

lemma rec_at_cong:
  assumes "rec_at C e" and "C (e_seg e) = Some fb" and "C' (e_seg e) = Some (fb @ ext)"
  shows "rec_at C' e" and "rec_of C' e = rec_of C e"
proof -
  from assms(1,2) have "e_off e + (headerSize + e_n e) \<le> length fb"
    by (auto simp: rec_at_def esize_def)
  with assms show "rec_at C' e" "rec_of C' e = rec_of C e"
    by (auto simp: rec_at_def rec_of_def esize_def)
qed

lemma chain_mono: "chain C c es w \<Longrightarrow> cur_seg c \<le> cur_seg w \<and> (\<forall>e \<in> set es. cur_seg c \<le> e_seg e)"
  by (induction rule: chain.induct) (auto simp: epos_def)

lemma chain_present:
  "chain C c es w \<Longrightarrow> cur_seg c \<le> k \<Longrightarrow> k < cur_seg w \<Longrightarrow> C k \<noteq> None"
proof (induction rule: chain.induct)
  case (chain_roll s f off es w)
  then show ?case
    by (cases "k = s") auto
qed (auto simp: epos_def)

lemma chain_rec_at: "chain C c es w \<Longrightarrow> e \<in> set es \<Longrightarrow> rec_at C e"
  by (induction rule: chain.induct) auto

text \<open>A chain stays one when segments before it disappear and the last segment grows.\<close>

lemma chain_extend:
  assumes "chain C c es w"
    and "\<And>k. cur_seg c \<le> k \<Longrightarrow> k < cur_seg w \<Longrightarrow> C' k = C k"
    and "C (cur_seg w) = Some fb" and "C' (cur_seg w) = Some (fb @ ext)"
  shows "chain C' c es w \<and> (\<forall>e \<in> set es. rec_of C' e = rec_of C e)"
  using assms
proof (induction rule: chain.induct)
  case (chain_nil w)
  then show ?case by (simp add: chain.chain_nil)
next
  case (chain_roll s f off es w)
  from chain_mono [OF chain_roll.hyps(4)] have lt: "s < cur_seg w"
    by simp
  with chain_roll.prems chain_roll.hyps have "C' s = Some f"
    by simp
  moreover have "C' (Suc s) \<noteq> None"
    using chain_roll.hyps(3) chain_roll.prems lt by (cases "Suc s = cur_seg w") auto
  ultimately show ?case
    using chain_roll.IH chain_roll.prems chain_roll.hyps by (auto intro: chain.chain_roll)
next
  case (chain_rec e es w c)
  obtain f where f: "C (e_seg e) = Some f"
    using rec_at_some [OF chain_rec.hyps(1)] by blast
  from chain_mono [OF chain_rec.hyps(2)] have le: "e_seg e \<le> cur_seg w"
    by simp
  have "\<exists>m. C' (e_seg e) = Some (f @ m)"
  proof (cases "e_seg e = cur_seg w")
    case True
    with f chain_rec.prems show ?thesis by auto
  next
    case False
    with le f chain_rec.prems(1) [of "e_seg e"] chain_rec.hyps(3) show ?thesis
      by (auto simp: epos_def intro: exI [of _ "[]"])
  qed
  then obtain m where m: "C' (e_seg e) = Some (f @ m)" ..
  note cong = rec_at_cong [where C' = C', OF chain_rec.hyps(1) f m]
  have "chain C' (Cursor (e_seg e) (e_off e + esize e)) es w \<and> (\<forall>e \<in> set es. rec_of C' e = rec_of C e)"
    using chain_rec.IH chain_rec.prems chain_rec.hyps(3) by (auto simp: epos_def)
  with cong chain_rec.hyps(3) show ?case
    by (auto intro: chain.chain_rec)
qed

lemma chain_append:
  "chain C c es w \<Longrightarrow> chain C w es' w' \<Longrightarrow> chain C c (es @ es') w'"
  by (induction rule: chain.induct) (auto intro: chain.intros)

definition chain_start :: "entry list \<Rightarrow> cursor \<Rightarrow> cursor" where
  "chain_start es w = (case es of e # _ \<Rightarrow> epos e | [] \<Rightarrow> w)"

lemma chain_drop:
  "chain C c es w \<Longrightarrow> chain C (chain_start (drop k es) w) (drop k es) w"
proof (induction arbitrary: k rule: chain.induct)
  case (chain_rec e es w c)
  then show ?case
    by (cases k) (auto simp: chain_start_def intro: chain.chain_rec)
qed (auto simp: chain_start_def intro: chain.intros)

lemma chain_batch:
  assumes "chain C c es w" and "C (cur_seg c) = Some fb"
    and "b = takeWhile (\<lambda>e. e_seg e = cur_seg c) (take n es)"
    and "cur_off c \<le> length fb"
  shows "take (sum_list (map esize b)) (drop (cur_off c) fb) = concat (map (\<lambda>e. enc_record (rec_of C e)) b) \<and>
         cur_off c + sum_list (map esize b) \<le> length fb"
  using assms
proof (induction arbitrary: b n rule: chain.induct)
  case (chain_roll s f off es w)
  have "\<forall>e \<in> set (take n es). e_seg e \<noteq> s"
    using chain_mono [OF chain_roll.hyps(4)] by (fastforce dest: in_set_takeD)
  then have "b = []"
    using chain_roll.prems by (cases "take n es") auto
  with chain_roll.prems show ?case
    by simp
next
  case (chain_rec e es w c)
  show ?case
  proof (cases n)
    case 0
    with chain_rec.prems show ?thesis by simp
  next
    case (Suc m)
    define b' where "b' = takeWhile (\<lambda>e'. e_seg e' = e_seg e) (take m es)"
    have b: "b = e # b'" and Cf: "C (e_seg e) = Some fb"
      using chain_rec.prems chain_rec.hyps(3) Suc by (simp_all add: b'_def epos_def)
    have le: "e_off e + esize e \<le> length fb"
      using chain_rec.hyps(1) Cf by (simp add: rec_at_def)
    have IH: "take (sum_list (map esize b')) (drop (e_off e + esize e) fb) =
        concat (map (\<lambda>e. enc_record (rec_of C e)) b') \<and> e_off e + esize e + sum_list (map esize b') \<le> length fb"
      using chain_rec.IH [of b' m] Cf le by (simp add: b'_def)
    have "take (sum_list (map esize b)) (drop (e_off e) fb) =
        take (esize e) (drop (e_off e) fb) @ take (sum_list (map esize b')) (drop (e_off e + esize e) fb)"
      by (simp add: b take_add add.commute)
    with IH rec_at_bytes(1) [OF chain_rec.hyps(1) Cf] chain_rec.hyps(3) show ?thesis
      by (simp add: b epos_def)
  qed
qed simp

section \<open>The invariant\<close>

abbreviation seg_exists :: "queue \<Rightarrow> nat \<Rightarrow> bool" where
  "seg_exists q s \<equiv> seg_content q s \<noteq> None"

definition pending :: "queue \<Rightarrow> byte list list" where
  "pending q = map (rec_of (seg_content q)) (q_entries q)"

text \<open>The write position is the end of the last segment, whose handle is open.\<close>

definition write_ok :: "queue \<Rightarrow> bool" where
  "write_ok q \<longleftrightarrow>
     \<not> q_closed q \<and> q_wrFile q = Some (cur_seg (q_wrCur q)) \<and>
     cur_seg (q_wrCur q) \<in> set (q_files q) \<and>
     (\<exists>f. seg_content q (cur_seg (q_wrCur q)) = Some f \<and> length f = cur_off (q_wrCur q)) \<and>
     (\<forall>k > cur_seg (q_wrCur q). \<not> seg_exists q k)"

definition q_ok :: "queue \<Rightarrow> bool" where
  "q_ok q \<longleftrightarrow>
     write_ok q \<and> chain (seg_content q) (readCur q) (q_entries q) (q_wrCur q) \<and>
     q_nextIdx q \<le> length (q_entries q) \<and> q_bytes q = sum_list (map esize (q_entries q)) \<and>
     1 \<le> cur_seg (readCur q)"

text \<open>
  The history: \<open>h\<close> is every record the queue accepted, \<open>a\<close> of them acknowledged. The
  cursor on disk lags behind by the acknowledgements counted in \<open>ackSinceCS\<close>, and as
  long as its segment exists the files hold everything behind it.
\<close>

definition disk_cursor :: "disk \<Rightarrow> cursor" where
  "disk_cursor d = (case loadCursor d of Some c \<Rightarrow> c | None \<Rightarrow> Cursor 1 0)"

definition lag_ok :: "queue \<Rightarrow> byte list list \<Rightarrow> nat \<Rightarrow> bool" where
  "lag_ok q h a \<longleftrightarrow>
     (let c = disk_cursor (q_disk q) in
      1 \<le> cur_seg c \<and> cur_seg c \<le> cur_seg (readCur q) \<and>
      (\<forall>k \<ge> cur_seg c. seg_exists q k \<longrightarrow> k \<in> set (q_files q)) \<and>
      (seg_exists q (cur_seg c) \<longrightarrow>
         (\<exists>es. chain (seg_content q) c (es @ q_entries q) (q_wrCur q) \<and>
               map (rec_of (seg_content q)) (es @ q_entries q) = drop (a - q_ackSinceCS q) h)))"

definition hist_ok :: "queue \<Rightarrow> byte list list \<Rightarrow> nat \<Rightarrow> bool" where
  "hist_ok q h a \<longleftrightarrow>
     q_ok q \<and> pending q = drop a h \<and> a \<le> length h \<and> q_ackSinceCS q \<le> a \<and>
     q_ackSinceCS q < cursorSyncEvery \<and> lag_ok q h a"

lemma readCur_start: "readCur q = chain_start (q_entries q) (q_wrCur q)"
  by (simp add: readCur_def chain_start_def epos_def split: list.splits)

lemma seg_content_conv: "seg_content q = map_of (d_segs (q_disk q))"
  by (rule ext) (simp add: seg_content_def)

lemma seg_content_upd [simp]:
  "seg_content (q\<lparr>q_entries := es\<rparr>) = seg_content q" "seg_content (q\<lparr>q_nextIdx := n\<rparr>) = seg_content q"
  "seg_content (q\<lparr>q_bytes := n\<rparr>) = seg_content q" "seg_content (q\<lparr>q_wrCur := c\<rparr>) = seg_content q"
  "seg_content (q\<lparr>q_wrFile := o1\<rparr>) = seg_content q" "seg_content (q\<lparr>q_files := fs\<rparr>) = seg_content q"
  "seg_content (q\<lparr>q_unsynced := i\<rparr>) = seg_content q" "seg_content (q\<lparr>q_lastSync := i\<rparr>) = seg_content q"
  "seg_content (q\<lparr>q_ackSinceCS := n\<rparr>) = seg_content q" "seg_content (q\<lparr>q_dropped := n\<rparr>) = seg_content q"
  "seg_content (q\<lparr>q_closed := b\<rparr>) = seg_content q" "seg_content (q\<lparr>q_segMeta := m\<rparr>) = seg_content q"
  by (simp_all add: seg_content_conv)

lemma seg_content_set [simp]: "seg_content (set_content s bs q) = (seg_content q)(s \<mapsto> bs)"
  by (rule ext) (simp add: seg_content_conv set_content_def update_conv)

lemma seg_content_drop [simp]: "seg_content (dropSegment s q) = (seg_content q)(s := None)"
  by (rule ext) (simp add: seg_content_conv dropSegment_def delete_conv)

lemma set_content_sel [simp]:
  "q_maxBytes (set_content s bs q) = q_maxBytes q" "q_entries (set_content s bs q) = q_entries q"
  "q_nextIdx (set_content s bs q) = q_nextIdx q" "q_bytes (set_content s bs q) = q_bytes q"
  "q_wrCur (set_content s bs q) = q_wrCur q" "q_wrFile (set_content s bs q) = q_wrFile q"
  "q_files (set_content s bs q) = q_files q" "q_ackSinceCS (set_content s bs q) = q_ackSinceCS q"
  "q_closed (set_content s bs q) = q_closed q" "q_retention (set_content s bs q) = q_retention q"
  "q_dropped (set_content s bs q) = q_dropped q"
  "disk_cursor (q_disk (set_content s bs q)) = disk_cursor (q_disk q)"
  by (simp_all add: set_content_def disk_cursor_def loadCursor_def)

text \<open>The parts of the state that an operation on the write side leaves alone.\<close>

definition same_core :: "queue \<Rightarrow> queue \<Rightarrow> bool" where
  "same_core q q' \<longleftrightarrow>
     q_nextIdx q' = q_nextIdx q \<and> q_maxBytes q' = q_maxBytes q \<and> q_closed q' = q_closed q \<and>
     q_ackSinceCS q' = q_ackSinceCS q \<and> q_retention q' = q_retention q \<and>
     disk_cursor (q_disk q') = disk_cursor (q_disk q)"

lemma sync_simps [simp]:
  "seg_content (sync now q) = seg_content q" "q_wrCur (sync now q) = q_wrCur q"
  "q_entries (sync now q) = q_entries q" "q_files (sync now q) = q_files q"
  "q_wrFile (sync now q) = q_wrFile q" "q_bytes (sync now q) = q_bytes q"
  "q_dropped (sync now q) = q_dropped q" "q_disk (sync now q) = q_disk q"
  "q_closed (sync now q) = q_closed q" "q_segMeta (sync now q) = q_segMeta q"
  "q_retention (sync now q) = q_retention q" "q_nextIdx (sync now q) = q_nextIdx q"
  "q_ackSinceCS (sync now q) = q_ackSinceCS q" "q_maxBytes (sync now q) = q_maxBytes q"
  by (simp_all add: sync_def)

lemma maybeSync_simps [simp]:
  "seg_content (maybeSync now n q) = seg_content q" "q_wrCur (maybeSync now n q) = q_wrCur q"
  "q_entries (maybeSync now n q) = q_entries q" "q_files (maybeSync now n q) = q_files q"
  "q_wrFile (maybeSync now n q) = q_wrFile q" "q_bytes (maybeSync now n q) = q_bytes q"
  "q_dropped (maybeSync now n q) = q_dropped q" "q_disk (maybeSync now n q) = q_disk q"
  "q_closed (maybeSync now n q) = q_closed q" "q_retention (maybeSync now n q) = q_retention q"
  "q_nextIdx (maybeSync now n q) = q_nextIdx q" "q_ackSinceCS (maybeSync now n q) = q_ackSinceCS q"
  "q_maxBytes (maybeSync now n q) = q_maxBytes q"
  by (simp_all add: maybeSync_def Let_def)

lemma noteSegRecord_simps [simp]:
  "seg_content (noteSegRecord now s t n q) = seg_content q"
  "q_wrCur (noteSegRecord now s t n q) = q_wrCur q"
  "q_entries (noteSegRecord now s t n q) = q_entries q"
  "q_files (noteSegRecord now s t n q) = q_files q"
  "q_wrFile (noteSegRecord now s t n q) = q_wrFile q"
  "q_bytes (noteSegRecord now s t n q) = q_bytes q"
  "q_dropped (noteSegRecord now s t n q) = q_dropped q"
  "q_disk (noteSegRecord now s t n q) = q_disk q"
  "q_closed (noteSegRecord now s t n q) = q_closed q"
  "q_retention (noteSegRecord now s t n q) = q_retention q"
  "q_nextIdx (noteSegRecord now s t n q) = q_nextIdx q"
  "q_ackSinceCS (noteSegRecord now s t n q) = q_ackSinceCS q"
  "q_maxBytes (noteSegRecord now s t n q) = q_maxBytes q"
  by (simp_all add: noteSegRecord_def Let_def)

section \<open>Appending keeps the invariant\<close>

text \<open>What a write-side operation that adds the entries \<open>new\<close> does to every chain that ends at the write position.\<close>

definition grows :: "queue \<Rightarrow> queue \<Rightarrow> entry list \<Rightarrow> bool" where
  "grows q q' new \<longleftrightarrow>
     (\<forall>c es. chain (seg_content q) c es (q_wrCur q) \<longrightarrow>
        chain (seg_content q') c (es @ new) (q_wrCur q') \<and>
        (\<forall>e \<in> set es. rec_of (seg_content q') e = rec_of (seg_content q) e)) \<and>
     (\<forall>k \<le> cur_seg (q_wrCur q). seg_exists q k \<longleftrightarrow> seg_exists q' k) \<and>
     set (q_files q) \<subseteq> set (q_files q') \<and>
     (\<forall>k. seg_exists q' k \<and> k \<notin> set (q_files q') \<longrightarrow> seg_exists q k)"

lemma grows_chain:
  "grows q q' new \<Longrightarrow> chain (seg_content q) c es (q_wrCur q) \<Longrightarrow>
   chain (seg_content q') c (es @ new) (q_wrCur q') \<and>
   (\<forall>e \<in> set es. rec_of (seg_content q') e = rec_of (seg_content q) e)"
  by (simp add: grows_def)

lemma grows_trans:
  assumes g: "grows q q' []" and g': "grows q' q'' new" and le: "cur_seg (q_wrCur q) \<le> cur_seg (q_wrCur q')"
  shows "grows q q'' new"
  unfolding grows_def
proof (intro conjI allI impI)
  fix c es assume "chain (seg_content q) c es (q_wrCur q)"
  from grows_chain [OF g this] have 1: "chain (seg_content q') c es (q_wrCur q')"
    and 2: "\<forall>e \<in> set es. rec_of (seg_content q') e = rec_of (seg_content q) e"
    by auto
  from grows_chain [OF g' 1] 2
  show "chain (seg_content q'') c (es @ new) (q_wrCur q'')"
    and "\<forall>e \<in> set es. rec_of (seg_content q'') e = rec_of (seg_content q) e"
    by auto
next
  fix k assume "k \<le> cur_seg (q_wrCur q)"
  with g g' le show "seg_exists q k \<longleftrightarrow> seg_exists q'' k"
    by (simp add: grows_def)
next
  show "set (q_files q) \<subseteq> set (q_files q'')"
    using g g' by (auto simp: grows_def)
next
  fix k assume k: "seg_exists q'' k \<and> k \<notin> set (q_files q'')"
  then have "seg_exists q' k \<and> k \<notin> set (q_files q')"
    using g' unfolding grows_def by blast
  then show "seg_exists q k"
    using g unfolding grows_def by blast
qed

lemma rollSegment_ok:
  assumes "write_ok q"
  shows "\<exists>q'. rollSegment now q = (q', Inr ()) \<and> write_ok q' \<and> grows q q' [] \<and> same_core q q' \<and>
    q_wrCur q' = Cursor (Suc (cur_seg (q_wrCur q))) 0 \<and> q_entries q' = q_entries q \<and>
    q_bytes q' = q_bytes q \<and> q_dropped q' = q_dropped q"
proof -
  define w where "w = q_wrCur q"
  define s where "s = Suc (cur_seg w)"
  obtain f where f: "seg_content q (cur_seg w) = Some f" "length f = cur_off w"
    and none: "\<And>k. cur_seg w < k \<Longrightarrow> seg_content q k = None"
    using assms by (auto simp: write_ok_def w_def)
  define q1 where "q1 = (set_content s [] (sync now q))\<lparr>q_files := (if s \<in> set (q_files q) then q_files q else s # q_files q)\<rparr>"
  define q' where "q' = q1\<lparr>q_wrCur := Cursor s 0, q_wrFile := Some s\<rparr>"
  have c1: "seg_content q' = (seg_content q)(s \<mapsto> [])"
    by (simp add: q'_def q1_def)
  have op: "openSegment s (sync now q) = q1"
    using none [of s] by (simp add: openSegment_def q1_def s_def Let_def)
  have "rollSegment now q = (q', Inr ())"
  proof -
    have "Suc (cur_seg (q_wrCur q)) = s" "s \<in> set (q_files q1)" "seg_content q1 s = Some []"
      by (simp_all add: s_def w_def q1_def)
    with op show ?thesis
      by (simp add: rollSegment_def Let_def openWrite_def fileFor_def q'_def)
  qed
  moreover have "write_ok q'"
    using assms none c1 by (auto simp: write_ok_def q'_def q1_def s_def w_def)
  moreover have "grows q q' []"
  proof -
    have "chain (seg_content q') c es (q_wrCur q') \<and> (\<forall>e \<in> set es. rec_of (seg_content q') e = rec_of (seg_content q) e)"
      if "chain (seg_content q) c es w" for c es
    proof -
      have "chain (seg_content q') c es w \<and> (\<forall>e \<in> set es. rec_of (seg_content q') e = rec_of (seg_content q) e)"
        using chain_extend [OF that, of "seg_content q'" f "[]"] f by (auto simp: c1 s_def)
      moreover have "chain (seg_content q') (Cursor (cur_seg w) (cur_off w)) [] (Cursor s 0)"
        unfolding s_def
        by (rule chain_roll [where fb = f, OF _ _ _ chain_nil]) (simp_all add: f c1 s_def)
      ultimately show ?thesis
        using chain_append [of "seg_content q'" c es w "[]"] by (simp add: q'_def)
    qed
    then show ?thesis
      using none by (auto simp: grows_def w_def c1 s_def q'_def q1_def)
  qed
  ultimately show ?thesis
    by (auto simp: same_core_def q'_def q1_def s_def w_def)
qed

lemma write_at_end: "length fb = off \<Longrightarrow> write_at fb off bs = fb @ bs"
  by (simp add: write_at_def)

lemma write_here:
  assumes "write_ok q" and "0 < length rec" and "length rec < 2 ^ 32"
    and "seg_content q (cur_seg (q_wrCur q)) = Some fb"
    and "q' = set_content (cur_seg (q_wrCur q)) (fb @ enc_record rec) q
                \<lparr>q_wrCur := Cursor (cur_seg (q_wrCur q)) (cur_off (q_wrCur q) + (headerSize + length rec))\<rparr>"
    and "e = \<lparr>e_seg = cur_seg (q_wrCur q), e_off = cur_off (q_wrCur q), e_n = length rec\<rparr>"
  shows "write_ok q'" and "grows q q' [e]" and "rec_of (seg_content q') e = rec"
proof -
  define w where "w = q_wrCur q"
  have len: "length fb = cur_off w"
    using assms(1,4) by (auto simp: write_ok_def w_def)
  have c: "seg_content q' = (seg_content q)(cur_seg w \<mapsto> fb @ enc_record rec)"
    by (simp add: assms(5) w_def)
  show "write_ok q'"
    using assms(1,4) len by (auto simp: write_ok_def assms(5) w_def enc_record_def)
  show "rec_of (seg_content q') e = rec"
    using len by (simp add: rec_of_def c assms(6) w_def enc_record_def)
  have at: "rec_at (seg_content q') e"
    using len assms(2,3) by (simp add: rec_at_def c assms(6) w_def enc_record_def esize_def)
  have "chain (seg_content q') w [e] (q_wrCur q')"
    using at by (intro chain_rec chain_nil [THEN back_subst [of "\<lambda>x. chain _ x [] _"]])
      (simp_all add: assms(5,6) esize_def epos_def w_def)
  moreover have "chain (seg_content q') c es w \<and> (\<forall>e \<in> set es. rec_of (seg_content q') e = rec_of (seg_content q) e)"
    if "chain (seg_content q) c es w" for c es
    using chain_extend [OF that, of "seg_content q'" fb "enc_record rec"] assms(4) by (simp add: c w_def)
  ultimately have "chain (seg_content q') c (es @ [e]) (q_wrCur q') \<and>
      (\<forall>e \<in> set es. rec_of (seg_content q') e = rec_of (seg_content q) e)"
    if "chain (seg_content q) c es w" for c es
    using chain_append that by blast
  then show "grows q q' [e]"
    using assms(4) by (auto simp: grows_def w_def c assms(5))
qed

lemma writeRecord_ok:
  assumes "write_ok q"
  shows "\<exists>q1 fb. writeRecord now rec q =
      (set_content (cur_seg (q_wrCur q1)) (fb @ enc_record rec) q1, Inr ()) \<and>
    seg_content q1 (cur_seg (q_wrCur q1)) = Some fb \<and> write_ok q1 \<and> grows q q1 [] \<and> same_core q q1 \<and>
    q_entries q1 = q_entries q \<and> q_bytes q1 = q_bytes q \<and> q_dropped q1 = q_dropped q \<and>
    cur_seg (q_wrCur q) \<le> cur_seg (q_wrCur q1)"
proof -
  obtain q1 where q1: "(if q_segBytes q \<le> int (cur_off (q_wrCur q)) then rollSegment now q else (q, Inr ())) = (q1, Inr ())"
    and props: "write_ok q1" "grows q q1 []" "same_core q q1" "q_entries q1 = q_entries q"
      "q_bytes q1 = q_bytes q" "q_dropped q1 = q_dropped q" "cur_seg (q_wrCur q) \<le> cur_seg (q_wrCur q1)"
  proof (cases "q_segBytes q \<le> int (cur_off (q_wrCur q))")
    case True
    with rollSegment_ok [OF assms, of now] that show ?thesis by fastforce
  next
    case False
    with assms that [of q] show ?thesis
      by (simp add: grows_def same_core_def)
  qed
  from props(1) obtain fb where "seg_content q1 (cur_seg (q_wrCur q1)) = Some fb"
    and "length fb = cur_off (q_wrCur q1)" and "q_wrFile q1 = Some (cur_seg (q_wrCur q1))"
    and "cur_seg (q_wrCur q1) \<in> set (q_files q1)"
    by (auto simp: write_ok_def)
  with q1 props show ?thesis
    by (intro exI [of _ q1] exI [of _ fb]) (simp add: writeRecord_def write_at_end)
qed

text \<open>
  \<open>Append\<close> on every branch: an accepted record is one new entry at the end, and a refused
  one leaves everything but the drop counter.
\<close>

definition append_fits :: "byte list \<Rightarrow> queue \<Rightarrow> bool" where
  "append_fits rec q \<longleftrightarrow> int (q_bytes q + (headerSize + length rec)) \<le> q_maxBytes q"

lemma append_refused:
  assumes "write_ok q" and "\<not> append_fits rec q"
  shows "append_rec now ts rec q =
    (if int (length rec) \<le> q_maxBytes q then q\<lparr>q_dropped := q_dropped q + 1\<rparr> else q, Inl ErrFull)"
  using assms by (auto simp: append_rec_def append_fits_def write_ok_def Let_def)

lemma append_accepted:
  assumes "write_ok q" and "append_fits rec q" and "0 < length rec" and "length rec < 2 ^ 32"
  shows "\<exists>q' e. append_rec now ts rec q = (q', Inr ()) \<and> write_ok q' \<and> grows q q' [e] \<and> same_core q q' \<and>
    q_entries q' = q_entries q @ [e] \<and> rec_of (seg_content q') e = rec \<and>
    q_bytes q' = q_bytes q + esize e \<and> e_n e = length rec \<and> q_dropped q' = q_dropped q"
proof -
  from writeRecord_ok [OF assms(1), of now rec] obtain q1 fb where
    w: "writeRecord now rec q = (set_content (cur_seg (q_wrCur q1)) (fb @ enc_record rec) q1, Inr ())"
    and file1: "seg_content q1 (cur_seg (q_wrCur q1)) = Some fb"
    and p: "write_ok q1" "grows q q1 []" "same_core q q1" "q_entries q1 = q_entries q"
      "q_bytes q1 = q_bytes q" "q_dropped q1 = q_dropped q" "cur_seg (q_wrCur q) \<le> cur_seg (q_wrCur q1)"
    by blast
  define s where "s = cur_seg (q_wrCur q1)"
  define e where "e = \<lparr>e_seg = s, e_off = cur_off (q_wrCur q1), e_n = length rec\<rparr>"
  define q2 where "q2 = set_content s (fb @ enc_record rec) q1
    \<lparr>q_wrCur := Cursor s (cur_off (q_wrCur q1) + (headerSize + length rec))\<rparr>"
  define q3 where "q3 = noteSegRecord now s ts (headerSize + length rec) (set_content s (fb @ enc_record rec) q1)"
  define q' where "q' = maybeSync now (headerSize + length rec)
    (q3\<lparr>q_entries := q_entries q1 @ [e], q_wrCur := q_wrCur q2, q_bytes := q_bytes q1 + (headerSize + length rec)\<rparr>)"
  note here = write_here [OF p(1) assms(3,4) file1, of q2 e, folded s_def, OF q2_def e_def]
  have run: "append_rec now ts rec q = (q', Inr ())"
    using assms(1,2) w
    by (simp add: append_rec_def append_fits_def write_ok_def Let_def q'_def q3_def q2_def e_def s_def)
  have sc: "seg_content q' = seg_content q2" "q_wrCur q' = q_wrCur q2" "q_files q' = q_files q2"
    "q_wrFile q' = q_wrFile q2" "q_closed q' = q_closed q2"
    by (simp_all add: q'_def q3_def q2_def)
  then have "write_ok q'" "grows q1 q' [e]" "rec_of (seg_content q') e = rec"
    using here by (simp_all add: write_ok_def grows_def)
  moreover have "same_core q q'"
    using p(3) by (simp add: same_core_def q'_def q3_def disk_cursor_def loadCursor_def set_content_def)
  moreover have "q_entries q' = q_entries q @ [e]" "q_bytes q' = q_bytes q + esize e" "q_dropped q' = q_dropped q"
    using p by (simp_all add: q'_def q3_def esize_def e_def)
  ultimately show ?thesis
    using run grows_trans [OF p(2) _ p(7)] by (intro exI [of _ q'] exI [of _ e]) (simp add: e_def)
qed

end
