(* ===== verification/Spool_Recovery.thy ===== *)
theory Spool_Recovery
  imports Spool
begin

text \<open>
  The disk queue against its contract. The first part shows that every operation keeps the
  history invariant of \<open>Spool\<close>: appending, delivering, acknowledging and requeueing act on
  the list of pending records as on a queue. The second part is recovery: what \<open>Open\<close> finds
  in the directory that a crash or a \<open>Close\<close> left behind. The contract of an at-least-once
  queue is a locale; its client is the sender loop of the probe, and the disk queue is the
  interpretation.
\<close>

section \<open>Operations on the history\<close>

definition record_ok :: "byte list \<Rightarrow> bool" where
  "record_ok rec \<longleftrightarrow> 0 < length rec \<and> int (length rec) < 4294967296"

lemma record_ok_bounds: "record_ok rec \<Longrightarrow> 0 < length rec \<and> length rec < 2 ^ 32"
  by (simp add: record_ok_def)

lemma q_ok_readCur_le: "q_ok q \<Longrightarrow> cur_seg (readCur q) \<le> cur_seg (q_wrCur q)"
  using chain_mono by (auto simp: q_ok_def)

lemma readCur_upd [simp]:
  "readCur (q\<lparr>q_dropped := n\<rparr>) = readCur q" "readCur (q\<lparr>q_files := fs\<rparr>) = readCur q"
  "readCur (q\<lparr>q_nextIdx := n\<rparr>) = readCur q" "readCur (q\<lparr>q_bytes := n\<rparr>) = readCur q"
  "readCur (q\<lparr>q_ackSinceCS := n\<rparr>) = readCur q" "readCur (q\<lparr>q_disk := d\<rparr>) = readCur q"
  "readCur (q\<lparr>q_wrFile := w\<rparr>) = readCur q" "readCur (q\<lparr>q_closed := b\<rparr>) = readCur q"
  by (simp_all add: readCur_def cong: list.case_cong)

lemma length_pending [simp]: "length (pending q) = length (q_entries q)"
  by (simp add: pending_def)

lemma map_rec_of_cong: "\<forall>e \<in> set es. rec_of C' e = rec_of C e \<Longrightarrow> map (rec_of C') es = map (rec_of C) es"
  by simp

lemma append_q_ok:
  assumes "q_ok q" and "write_ok q'" and "grows q q' [e]" and "same_core q q'"
    and "q_entries q' = q_entries q @ [e]" and "q_bytes q' = q_bytes q + esize e"
  shows "q_ok q'" and "cur_seg (readCur q) \<le> cur_seg (readCur q')"
    and "pending q' = pending q @ [rec_of (seg_content q') e]"
proof -
  have ch: "chain (seg_content q') (readCur q) (q_entries q') (q_wrCur q')"
    and eq: "\<forall>e \<in> set (q_entries q). rec_of (seg_content q') e = rec_of (seg_content q) e"
    using grows_chain [OF assms(3), of "readCur q" "q_entries q"] assms(1,5) by (auto simp: q_ok_def)
  have ch': "chain (seg_content q') (readCur q') (q_entries q') (q_wrCur q')"
    using chain_drop [OF ch, of 0] by (simp add: readCur_start)
  obtain x xs where "q_entries q' = x # xs"
    using assms(5) by (cases "q_entries q") auto
  then have "readCur q' = epos x" "x \<in> set (q_entries q')"
    by (simp_all add: readCur_start chain_start_def)
  then show le: "cur_seg (readCur q) \<le> cur_seg (readCur q')"
    using chain_mono [OF ch] by (auto simp: epos_def)
  show "pending q' = pending q @ [rec_of (seg_content q') e]"
    using eq assms(5) by (simp add: pending_def)
  show "q_ok q'"
    using assms ch' le by (auto simp: q_ok_def same_core_def)
qed

lemma append_lag_ok:
  assumes "q_ok q" and "lag_ok q h a" and "grows q q' [e]" and "same_core q q'"
    and "q_entries q' = q_entries q @ [e]" and "cur_seg (readCur q) \<le> cur_seg (readCur q')"
    and "a \<le> length h" and "rec_of (seg_content q') e = rec"
  shows "lag_ok q' (h @ [rec]) a"
proof -
  define c where "c = disk_cursor (q_disk q)"
  have c': "disk_cursor (q_disk q') = c" and n: "q_ackSinceCS q' = q_ackSinceCS q"
    using assms(4) by (simp_all add: same_core_def c_def)
  have lag: "1 \<le> cur_seg c" "cur_seg c \<le> cur_seg (readCur q)"
    "\<And>k. cur_seg c \<le> k \<Longrightarrow> seg_exists q k \<Longrightarrow> k \<in> set (q_files q)"
    using assms(2) by (auto simp: lag_ok_def Let_def c_def)
  have "k \<in> set (q_files q')" if "cur_seg c \<le> k" "seg_exists q' k" for k
  proof (rule ccontr)
    assume "k \<notin> set (q_files q')"
    with that(2) assms(3) have "seg_exists q k" "set (q_files q) \<subseteq> set (q_files q')"
      unfolding grows_def by blast+
    with lag(3) that(1) \<open>k \<notin> set (q_files q')\<close> show False
      by blast
  qed
  moreover have "\<exists>es. chain (seg_content q') c (es @ q_entries q') (q_wrCur q') \<and>
      map (rec_of (seg_content q')) (es @ q_entries q') = drop (a - q_ackSinceCS q) (h @ [rec])"
    if "seg_exists q' (cur_seg c)"
  proof -
    have "cur_seg c \<le> cur_seg (q_wrCur q)"
      using lag(2) q_ok_readCur_le [OF assms(1)] by linarith
    with that assms(3) have "seg_exists q (cur_seg c)"
      unfolding grows_def by blast
    with assms(2) obtain es where es: "chain (seg_content q) c (es @ q_entries q) (q_wrCur q)"
      "map (rec_of (seg_content q)) (es @ q_entries q) = drop (a - q_ackSinceCS q) h"
      by (auto simp: lag_ok_def Let_def c_def)
    note g = grows_chain [OF assms(3) es(1)]
    have "map (rec_of (seg_content q')) (es @ q_entries q) = drop (a - q_ackSinceCS q) h"
      using map_rec_of_cong [OF g [THEN conjunct2]] es(2) by (rule trans)
    with g assms(5,7,8) show ?thesis
      by (intro exI [of _ es]) simp
  qed
  ultimately show ?thesis
    using lag assms(6) by (auto simp: lag_ok_def Let_def c' n)
qed

lemma hist_append:
  assumes "hist_ok q h a" and "append_fits rec q" and "record_ok rec"
  shows "\<exists>q'. append_rec now ts rec q = (q', Inr ()) \<and> hist_ok q' (h @ [rec]) a \<and>
    q_nextIdx q' = q_nextIdx q \<and> q_bytes q' = q_bytes q + (headerSize + length rec) \<and>
    q_maxBytes q' = q_maxBytes q"
proof -
  have ok: "q_ok q" "write_ok q"
    using assms(1) by (simp_all add: hist_ok_def q_ok_def)
  obtain q' e where run: "append_rec now ts rec q = (q', Inr ())"
    and q': "write_ok q'" "grows q q' [e]" "same_core q q'" "q_entries q' = q_entries q @ [e]"
      "rec_of (seg_content q') e = rec" "q_bytes q' = q_bytes q + esize e" "e_n e = length rec"
    using append_accepted [OF ok(2) assms(2), of now ts] record_ok_bounds [OF assms(3)] by blast
  note q_ok = append_q_ok [OF ok(1) q'(1-4,6)]
  have "lag_ok q' (h @ [rec]) a"
    using append_lag_ok [OF ok(1) _ q'(2-4) q_ok(2) _ q'(5)] assms(1) by (simp add: hist_ok_def)
  with q_ok q' assms(1) run show ?thesis
    by (auto simp: hist_ok_def same_core_def esize_def)
qed

lemma hist_refused:
  assumes "hist_ok q h a" and "\<not> append_fits rec q"
  shows "\<exists>q'. append_rec now ts rec q = (q', Inl ErrFull) \<and> hist_ok q' h a \<and>
    q_nextIdx q' = q_nextIdx q \<and> q_bytes q' = q_bytes q \<and> q_maxBytes q' = q_maxBytes q"
proof -
  have "write_ok q"
    using assms(1) by (simp add: hist_ok_def q_ok_def)
  from append_refused [OF this assms(2), of now ts] assms(1) show ?thesis
    by (auto simp: hist_ok_def q_ok_def write_ok_def pending_def lag_ok_def Let_def)
qed

text \<open>Delivery reads the records of one segment back.\<close>

lemma read_records_enc:
  "\<forall>r \<in> set rs. length r < 2 ^ 32 \<Longrightarrow>
   read_records (length rs) (concat (map enc_record rs) @ rest) = Some rs"
proof (induction rs)
  case (Cons r rs)
  then have "unat (get32 (enc_record r @ concat (map enc_record rs) @ rest)) = length r"
    by (simp add: enc_record_def get32_be32 unat_of_nat32)
  with Cons show ?case
    by (simp add: Let_def) (simp add: enc_record_def)
qed simp

lemma takeWhile_take_prefix: "takeWhile P (take m l) = take (length (takeWhile P (take m l))) l"
proof (induction l arbitrary: m)
  case (Cons x l)
  then show ?case by (cases m) simp_all
qed simp

definition next_batch :: "int \<Rightarrow> queue \<Rightarrow> entry list" where
  "next_batch n q =
     (let avail = drop (q_nextIdx q) (q_entries q) in
      takeWhile (\<lambda>e. e_seg e = e_seg (hd avail)) (take (if n \<le> 0 then 1 else nat n) avail))"

lemma next_batch_prefix: "next_batch n q = take (length (next_batch n q)) (drop (q_nextIdx q) (q_entries q))"
  unfolding next_batch_def Let_def by (rule takeWhile_take_prefix)

lemma next_ok:
  assumes "q_ok q" and "q_nextIdx q < length (q_entries q)"
  shows "\<exists>q1. next_pkts u n q =
      (case unmarshal_all u (map (rec_of (seg_content q)) (next_batch n q)) of
         Inl e \<Rightarrow> (q1, Inl e)
       | Inr ps \<Rightarrow> (q1\<lparr>q_nextIdx := q_nextIdx q + length (next_batch n q)\<rparr>, Inr ps)) \<and>
     (\<exists>fs. q1 = q\<lparr>q_files := fs\<rparr> \<and> set (q_files q) \<subseteq> set fs \<and> (\<forall>s \<in> set fs. s \<in> set (q_files q) \<or> seg_exists q s))"
proof -
  define avail where "avail = drop (q_nextIdx q) (q_entries q)"
  obtain e es where av: "avail = e # es"
    using assms(2) by (cases avail) (auto simp: avail_def)
  define b where "b = next_batch n q"
  define m where "m = (if n \<le> 0 then 1 else nat n)"
  define C where "C = seg_content q"
  have ch: "chain C (epos e) avail (q_wrCur q)"
    using chain_drop [of C "readCur q" "q_entries q" "q_wrCur q" "q_nextIdx q"] assms(1) av
    by (simp add: q_ok_def C_def avail_def chain_start_def)
  have recs: "\<forall>e' \<in> set avail. rec_at C e'"
    using chain_rec_at [OF ch] by blast
  then obtain f where f: "C (e_seg e) = Some f"
    using rec_at_some av by fastforce
  have bdef: "b = takeWhile (\<lambda>e'. e_seg e' = e_seg e) (take m avail)"
    using av by (simp add: m_def b_def next_batch_def avail_def Let_def)
  have off: "e_off e \<le> length f"
    using recs av f by (auto simp: rec_at_def)
  have batch: "take (sum_list (map esize b)) (drop (e_off e) f) = concat (map (\<lambda>e. enc_record (rec_of C e)) b)"
    "e_off e + sum_list (map esize b) \<le> length f"
    using chain_batch [OF ch, of f b m] f off bdef by (auto simp: epos_def)
  have "\<forall>r \<in> set (map (rec_of C) b). length r < 2 ^ 32"
  proof
    fix r assume "r \<in> set (map (rec_of C) b)"
    then obtain e' where "e' \<in> set avail" "r = rec_of C e'"
      by (auto simp: bdef dest!: set_takeWhileD in_set_takeD)
    with recs rec_at_bytes(2) rec_at_some show "length r < 2 ^ 32"
      by (fastforce simp: rec_at_def split: option.splits)
  qed
  from read_records_enc [OF this, of "[]"]
  have rd: "read_records (length b) (concat (map (\<lambda>e. enc_record (rec_of C e)) b)) = Some (map (rec_of C) b)"
    by (simp add: comp_def)
  define q1 where "q1 = fst (fileFor (e_seg e) q)"
  have ff: "fileFor (e_seg e) q = (q1, Inr f)"
    using f by (auto simp: fileFor_def q1_def C_def)
  have nxt: "q_nextIdx q1 = q_nextIdx q"
    using f by (auto simp: fileFor_def q1_def C_def)
  have "next_pkts u n q =
      (case unmarshal_all u (map (rec_of C) b) of
         Inl e \<Rightarrow> (q1, Inl e) | Inr ps \<Rightarrow> (q1\<lparr>q_nextIdx := q_nextIdx q + length b\<rparr>, Inr ps))"
    using ff batch rd av unfolding next_pkts_def Let_def avail_def [symmetric] m_def [symmetric]
    by (simp add: bdef [symmetric, unfolded av] read_at_def esize_def [symmetric] nxt
        split: sum.splits)
  moreover have "\<exists>fs. q1 = q\<lparr>q_files := fs\<rparr> \<and> set (q_files q) \<subseteq> set fs \<and>
      (\<forall>s \<in> set fs. s \<in> set (q_files q) \<or> seg_exists q s)"
    using f
    by (intro exI [of _ "if e_seg e \<in> set (q_files q) then q_files q else e_seg e # q_files q"])
      (auto simp: fileFor_def q1_def C_def)
  ultimately show ?thesis
    unfolding C_def b_def by blast
qed

lemma hist_files:
  "hist_ok q h a \<Longrightarrow> set (q_files q) \<subseteq> set fs \<Longrightarrow> hist_ok (q\<lparr>q_files := fs\<rparr>) h a"
  by (auto simp: hist_ok_def q_ok_def write_ok_def pending_def lag_ok_def Let_def)

lemma hist_nextIdx:
  "hist_ok q h a \<Longrightarrow> n \<le> length (q_entries q) \<Longrightarrow> hist_ok (q\<lparr>q_nextIdx := n\<rparr>) h a"
  by (auto simp: hist_ok_def q_ok_def write_ok_def pending_def lag_ok_def Let_def)

lemma hist_requeue: "hist_ok q h a \<Longrightarrow> hist_ok (requeue q) h a"
  by (simp add: requeue_def hist_nextIdx)

lemma unmarshal_all_Some [simp]: "unmarshal_all Some rs = Inr rs"
  by (induction rs) simp_all

lemma next_empty: "length (q_entries q) \<le> q_nextIdx q \<Longrightarrow> next_pkts u n q = (q, Inr [])"
  by (simp add: next_pkts_def)

lemma next_batch_length:
  assumes "q_nextIdx q < length (q_entries q)"
  shows "0 < length (next_batch n q)" and "length (next_batch n q) \<le> nat (max 1 n)"
    and "q_nextIdx q + length (next_batch n q) \<le> length (q_entries q)"
proof -
  define avail where "avail = drop (q_nextIdx q) (q_entries q)"
  obtain e es where av: "avail = e # es"
    using assms by (cases avail) (auto simp: avail_def)
  define m where "m = (if n \<le> 0 then 1 else nat n)"
  have b: "next_batch n q = takeWhile (\<lambda>e'. e_seg e' = e_seg e) (take m avail)"
    using av by (simp add: next_batch_def avail_def m_def Let_def)
  show "0 < length (next_batch n q)"
    using av by (cases m) (auto simp: b m_def split: if_splits)
  have "length (next_batch n q) \<le> length (take m avail)"
    unfolding b by (rule length_takeWhile_le)
  then show "length (next_batch n q) \<le> nat (max 1 n)"
    "q_nextIdx q + length (next_batch n q) \<le> length (q_entries q)"
    using assms by (auto simp: m_def avail_def max_def split: if_splits)
qed

lemma hist_next:
  assumes "hist_ok q h a"
  shows "\<exists>q' k. next_pkts Some n q = (q', Inr (take k (drop (q_nextIdx q) (pending q)))) \<and>
    hist_ok q' h a \<and> pending q' = pending q \<and> q_nextIdx q' = q_nextIdx q + k \<and> k \<le> nat (max 1 n) \<and>
    q_nextIdx q + k \<le> length (pending q) \<and> (k = 0 \<longrightarrow> q_nextIdx q = length (pending q)) \<and>
    q_bytes q' = q_bytes q \<and> q_maxBytes q' = q_maxBytes q"
proof (cases "q_nextIdx q < length (q_entries q)")
  case False
  have "q_nextIdx q \<le> length (q_entries q)"
    using assms by (simp add: hist_ok_def q_ok_def)
  with False assms show ?thesis
    by (intro exI [of _ q] exI [of _ 0]) (simp add: next_empty)
next
  case True
  define k where "k = length (next_batch n q)"
  have qok: "q_ok q"
    using assms by (simp add: hist_ok_def)
  obtain fs where run: "next_pkts Some n q =
      (q\<lparr>q_files := fs, q_nextIdx := q_nextIdx q + k\<rparr>, Inr (map (rec_of (seg_content q)) (next_batch n q)))"
    and fs: "set (q_files q) \<subseteq> set fs"
    using next_ok [OF qok True, of Some n] by (auto simp: k_def)
  have "map (rec_of (seg_content q)) (next_batch n q) = take k (drop (q_nextIdx q) (pending q))"
    unfolding pending_def k_def by (metis next_batch_prefix take_map drop_map)
  moreover have "hist_ok (q\<lparr>q_files := fs, q_nextIdx := q_nextIdx q + k\<rparr>) h a"
    using hist_nextIdx [OF hist_files [OF assms fs], of "q_nextIdx q + k"] next_batch_length(3) [OF True]
    by (simp add: k_def)
  ultimately show ?thesis
    using run next_batch_length [OF True, of n] True
    by (intro exI [of _ "q\<lparr>q_files := fs, q_nextIdx := q_nextIdx q + k\<rparr>"] exI [of _ k])
      (auto simp: pending_def k_def)
qed

text \<open>Acknowledging: advance, then perhaps write the cursor, then delete what lies before the head.\<close>

definition ack_advance :: "nat \<Rightarrow> queue \<Rightarrow> queue" where
  "ack_advance k q =
     q\<lparr>q_bytes := q_bytes q - sum_list (map esize (take k (q_entries q))),
       q_entries := drop k (q_entries q),
       q_nextIdx := q_nextIdx q - k,
       q_ackSinceCS := q_ackSinceCS q + k\<rparr>"

lemma ackN_unfold:
  "ackN n q =
     (let k = nat (min n (int (q_nextIdx q))); q1 = ack_advance k q in
      if k = 0 then q
      else cleanup (if cursorSyncEvery \<le> q_ackSinceCS q1 then persistCursor q1 else q1))"
  by (auto simp: ackN_def ack_advance_def Let_def esize_def [abs_def] min_def)

definition pre_ok :: "queue \<Rightarrow> byte list list \<Rightarrow> nat \<Rightarrow> bool" where
  "pre_ok q h a \<longleftrightarrow> q_ok q \<and> pending q = drop a h \<and> a \<le> length h \<and> q_ackSinceCS q \<le> a \<and> lag_ok q h a"

lemma hist_pre: "hist_ok q h a \<longleftrightarrow> pre_ok q h a \<and> q_ackSinceCS q < cursorSyncEvery"
  by (auto simp: hist_ok_def pre_ok_def)

lemma pre_advance:
  assumes "pre_ok q h a" and k: "k \<le> q_nextIdx q"
  shows "pre_ok (ack_advance k q) h (a + k)"
proof -
  define q1 where "q1 = ack_advance k q"
  define C where "C = seg_content q"
  have sel: "seg_content q1 = C" "q_entries q1 = drop k (q_entries q)" "q_wrCur q1 = q_wrCur q"
    "q_files q1 = q_files q" "q_disk q1 = q_disk q" "q_ackSinceCS q1 = q_ackSinceCS q + k"
    "q_nextIdx q1 = q_nextIdx q - k"
    by (simp_all add: q1_def ack_advance_def C_def)
  have qok: "q_ok q" and pend: "pending q = drop a h" and lag: "lag_ok q h a" and le: "a \<le> length h"
    using assms(1) by (simp_all add: pre_ok_def)
  have ch: "chain C (readCur q) (q_entries q) (q_wrCur q)"
    using qok by (simp add: q_ok_def C_def)
  have ch1: "chain C (readCur q1) (q_entries q1) (q_wrCur q1)"
    using chain_drop [OF ch, of k] by (simp add: readCur_start sel)
  have mono: "cur_seg (readCur q) \<le> cur_seg (readCur q1)"
  proof (cases "drop k (q_entries q)")
    case Nil
    with q_ok_readCur_le [OF qok] show ?thesis
      by (simp add: readCur_start [of q1] chain_start_def sel)
  next
    case (Cons x xs)
    then have "x \<in> set (q_entries q)"
      by (metis in_set_dropD list.set_intros(1))
    with chain_mono [OF ch] Cons show ?thesis
      by (simp add: readCur_start [of q1] chain_start_def sel epos_def)
  qed
  have bytes: "q_bytes q1 = sum_list (map esize (q_entries q1))"
  proof -
    have "sum_list (map esize (q_entries q)) =
        sum_list (map esize (take k (q_entries q))) + sum_list (map esize (drop k (q_entries q)))"
      by (metis append_take_drop_id map_append sum_list.append)
    with qok show ?thesis
      by (simp add: q1_def ack_advance_def q_ok_def)
  qed
  have "q_ok q1"
    using qok k ch1 mono bytes sel
    by (auto simp: q_ok_def write_ok_def C_def q1_def ack_advance_def)
  moreover have "pending q1 = drop (a + k) h"
  proof -
    have "pending q1 = drop k (pending q)"
      by (simp add: pending_def sel C_def drop_map)
    with pend show ?thesis
      by (simp add: add.commute)
  qed
  moreover have "a + k \<le> length h"
  proof -
    have "length (q_entries q) = length h - a"
      using arg_cong [OF pend, of length] by simp
    moreover have "q_nextIdx q \<le> length (q_entries q)"
      using qok by (simp add: q_ok_def)
    ultimately show ?thesis
      using k le by linarith
  qed
  moreover have "lag_ok q1 h (a + k)"
  proof -
    have "\<exists>es'. chain C c (es' @ drop k (q_entries q)) (q_wrCur q) \<and>
        map (rec_of C) (es' @ drop k (q_entries q)) = d"
      if "chain C c (es @ q_entries q) (q_wrCur q)" "map (rec_of C) (es @ q_entries q) = d" for c d es
      using that by (intro exI [of _ "es @ take k (q_entries q)"]) simp
    with lag mono sel show ?thesis
      unfolding lag_ok_def Let_def C_def by (auto simp del: map_append)
  qed
  ultimately show ?thesis
    using assms(1) by (simp add: pre_ok_def sel flip: q1_def)
qed

lemma pre_persist:
  assumes "pre_ok q h a" and "\<And>k. seg_exists q k \<Longrightarrow> cur_seg (readCur q) \<le> k \<Longrightarrow> k \<in> set (q_files q)"
  shows "pre_ok (persistCursor q) h a"
proof -
  define q1 where "q1 = persistCursor q"
  have sel: "seg_content q1 = seg_content q" "q_entries q1 = q_entries q" "q_wrCur q1 = q_wrCur q"
    "q_files q1 = q_files q" "q_ackSinceCS q1 = 0" "readCur q1 = readCur q" "q_nextIdx q1 = q_nextIdx q"
    "q_wrFile q1 = q_wrFile q" "q_closed q1 = q_closed q" "q_bytes q1 = q_bytes q"
    by (simp_all add: q1_def persistCursor_def seg_content_conv)
  have one: "1 \<le> cur_seg (readCur q)"
    using assms(1) by (simp add: pre_ok_def q_ok_def)
  then have c: "disk_cursor (q_disk q1) = readCur q"
    by (simp add: q1_def persistCursor_def disk_cursor_def loadCursor_def)
  have "lag_ok q1 h a"
    using assms one by (auto simp: lag_ok_def c sel pre_ok_def q_ok_def pending_def intro!: exI [of _ "[]"])
  with assms(1) sel show ?thesis
    unfolding q1_def [symmetric] by (simp add: pre_ok_def q_ok_def write_ok_def pending_def)
qed

lemma fold_drop:
  "seg_content (fold dropSegment ss q) = (\<lambda>k. if k \<in> set ss then None else seg_content q k) \<and>
   set (q_files (fold dropSegment ss q)) = set (q_files q) - set ss \<and>
   q_entries (fold dropSegment ss q) = q_entries q \<and> q_nextIdx (fold dropSegment ss q) = q_nextIdx q \<and>
   q_bytes (fold dropSegment ss q) = q_bytes q \<and> q_wrCur (fold dropSegment ss q) = q_wrCur q \<and>
   q_wrFile (fold dropSegment ss q) = q_wrFile q \<and> q_closed (fold dropSegment ss q) = q_closed q \<and>
   q_ackSinceCS (fold dropSegment ss q) = q_ackSinceCS q \<and> q_maxBytes (fold dropSegment ss q) = q_maxBytes q \<and>
   q_retention (fold dropSegment ss q) = q_retention q \<and> readCur (fold dropSegment ss q) = readCur q \<and>
   disk_cursor (q_disk (fold dropSegment ss q)) = disk_cursor (q_disk q)"
proof (induction ss arbitrary: q)
  case (Cons s ss)
  have sel: "readCur (dropSegment s q) = readCur q" "disk_cursor (q_disk (dropSegment s q)) = disk_cursor (q_disk q)"
    "set (q_files (dropSegment s q)) = set (q_files q) - {s}" "q_entries (dropSegment s q) = q_entries q"
    "q_nextIdx (dropSegment s q) = q_nextIdx q" "q_bytes (dropSegment s q) = q_bytes q"
    "q_wrCur (dropSegment s q) = q_wrCur q" "q_wrFile (dropSegment s q) = q_wrFile q"
    "q_closed (dropSegment s q) = q_closed q" "q_ackSinceCS (dropSegment s q) = q_ackSinceCS q"
    "q_maxBytes (dropSegment s q) = q_maxBytes q" "q_retention (dropSegment s q) = q_retention q"
    by (simp_all add: dropSegment_def readCur_def disk_cursor_def loadCursor_def cong: list.case_cong)
  show ?case
    unfolding fold_simps comp_def using Cons.IH [of "dropSegment s q"]
    by (simp add: sel fun_eq_iff set_diff_eq)
qed simp

lemma pre_drop:
  assumes "pre_ok q h a" and ss: "\<forall>s \<in> set ss. s < cur_seg (readCur q)"
    and all: "\<And>s. s \<in> set (q_files q) \<Longrightarrow> s < cur_seg (readCur q) \<Longrightarrow> s \<in> set ss"
  shows "pre_ok (fold dropSegment ss q) h a"
proof -
  define q1 where "q1 = fold dropSegment ss q"
  note fd = fold_drop [of ss q, folded q1_def]
  have qok: "q_ok q" and lag: "lag_ok q h a"
    using assms(1) by (simp_all add: pre_ok_def)
  have w: "cur_seg (readCur q) \<le> cur_seg (q_wrCur q)"
    using q_ok_readCur_le [OF qok] .
  obtain f where f: "seg_content q (cur_seg (q_wrCur q)) = Some f"
    using qok by (auto simp: q_ok_def write_ok_def)
  have ext: "chain (seg_content q1) c es (q_wrCur q) \<and> (\<forall>e \<in> set es. rec_of (seg_content q1) e = rec_of (seg_content q) e)"
    if "chain (seg_content q) c es (q_wrCur q)" "cur_seg (readCur q) \<le> cur_seg c" for c es
  proof (rule chain_extend [OF that(1) _ f])
    show "seg_content q1 k = seg_content q k" if "cur_seg c \<le> k" for k
      using that \<open>cur_seg (readCur q) \<le> cur_seg c\<close> fd ss by fastforce
    show "seg_content q1 (cur_seg (q_wrCur q)) = Some (f @ [])"
      using f fd ss w by fastforce
  qed
  have main: "chain (seg_content q1) (readCur q) (q_entries q) (q_wrCur q)"
    "\<forall>e \<in> set (q_entries q). rec_of (seg_content q1) e = rec_of (seg_content q) e"
    using ext [of "readCur q" "q_entries q"] qok by (auto simp: q_ok_def)
  have "write_ok q1"
    using qok ss w fd by (fastforce simp: q_ok_def write_ok_def)
  then have "q_ok q1" and "pending q1 = pending q"
    using qok main fd by (simp_all add: q_ok_def pending_def)
  moreover have "lag_ok q1 h a"
  proof -
    define c where "c = disk_cursor (q_disk q)"
    have c: "cur_seg c \<le> cur_seg (readCur q)" "1 \<le> cur_seg c"
      "\<And>k. cur_seg c \<le> k \<Longrightarrow> seg_exists q k \<Longrightarrow> k \<in> set (q_files q)"
      using lag by (auto simp: lag_ok_def Let_def c_def)
    have "\<exists>es. chain (seg_content q1) c (es @ q_entries q) (q_wrCur q) \<and>
        map (rec_of (seg_content q1)) (es @ q_entries q) = drop (a - q_ackSinceCS q) h"
      if ex: "seg_exists q1 (cur_seg c)"
    proof -
      have "cur_seg c \<notin> set ss" "seg_exists q (cur_seg c)"
        using ex fd by (auto split: if_splits)
      with all c have "cur_seg (readCur q) \<le> cur_seg c"
        by (meson leI le_refl)
      moreover from lag \<open>seg_exists q (cur_seg c)\<close> obtain es where
        es: "chain (seg_content q) c (es @ q_entries q) (q_wrCur q)"
        "map (rec_of (seg_content q)) (es @ q_entries q) = drop (a - q_ackSinceCS q) h"
        by (auto simp: lag_ok_def Let_def c_def)
      ultimately have "chain (seg_content q1) c (es @ q_entries q) (q_wrCur q)"
        and "map (rec_of (seg_content q1)) (es @ q_entries q) = map (rec_of (seg_content q)) (es @ q_entries q)"
        using ext [OF es(1)] map_rec_of_cong by blast+
      with es(2) show ?thesis
        by metis
    qed
    with c fd show ?thesis
      by (auto simp: lag_ok_def Let_def c_def split: if_splits)
  qed
  ultimately show ?thesis
    using assms(1) fd by (simp add: pre_ok_def flip: q1_def)
qed

lemma pre_cleanup: "pre_ok q h a \<Longrightarrow> pre_ok (cleanup q) h a"
  by (simp add: cleanup_def pre_drop)

lemma cleanup_sel:
  "q_ackSinceCS (cleanup q) = q_ackSinceCS q" "q_nextIdx (cleanup q) = q_nextIdx q"
  "q_bytes (cleanup q) = q_bytes q" "q_maxBytes (cleanup q) = q_maxBytes q"
  by (simp_all add: cleanup_def fold_drop)

lemma hist_ack:
  assumes "hist_ok q h a" and "k = nat (min n (int (q_nextIdx q)))"
  shows "hist_ok (ackN n q) h (a + k)" and "q_nextIdx (ackN n q) = q_nextIdx q - k"
    and "q_bytes (ackN n q) \<le> q_bytes q" and "q_maxBytes (ackN n q) = q_maxBytes q"
proof -
  define q1 where "q1 = ack_advance k q"
  define q2 where "q2 = (if cursorSyncEvery \<le> q_ackSinceCS q1 then persistCursor q1 else q1)"
  have run: "ackN n q = (if k = 0 then q else cleanup q2)"
    by (simp add: ackN_unfold assms(2) q1_def q2_def Let_def)
  have "pre_ok q1 h (a + k)"
    unfolding q1_def using assms by (intro pre_advance) (auto simp: hist_pre)
  moreover from this have "seg_exists q1 k \<Longrightarrow> cur_seg (readCur q1) \<le> k \<Longrightarrow> k \<in> set (q_files q1)" for k
    by (auto simp: pre_ok_def lag_ok_def Let_def)
  ultimately have "pre_ok (persistCursor q1) h (a + k)" "pre_ok q1 h (a + k)"
    using pre_persist by blast+
  then have "pre_ok q2 h (a + k)"
    by (simp add: q2_def)
  then have "pre_ok (cleanup q2) h (a + k)"
    by (rule pre_cleanup)
  moreover have "q_ackSinceCS q2 < cursorSyncEvery"
    by (simp add: q2_def persistCursor_def cursorSyncEvery_def)
  ultimately have "hist_ok (cleanup q2) h (a + k)"
    by (simp add: hist_pre cleanup_sel)
  with assms(1) run show "hist_ok (ackN n q) h (a + k)"
    by simp
  show "q_nextIdx (ackN n q) = q_nextIdx q - k" "q_bytes (ackN n q) \<le> q_bytes q" "q_maxBytes (ackN n q) = q_maxBytes q"
    by (simp_all add: run cleanup_sel q2_def q1_def persistCursor_def ack_advance_def)
qed

section \<open>Recovery\<close>

text \<open>The scan of \<open>Open\<close> follows a chain: record by record, then over the border of a segment.\<close>

lemma scanSegment_eq: "off \<le> length fb \<Longrightarrow> scanSegment s fb off = scan_records s fb off"
  by (auto simp: scanSegment_def scan_records.simps [of s fb off] headerSize_def)

lemma scan_records_rec:
  assumes "rec_at C e" and "C (e_seg e) = Some fb"
  shows "scan_records (e_seg e) fb (e_off e) =
    (case scan_records (e_seg e) fb (e_off e + esize e) of (es, st, eof) \<Rightarrow> (e # es, st, eof))"
proof -
  have "get32 (take headerSize (drop (e_off e) fb)) = of_nat (e_n e)" and "e_n e < 2 ^ 32" "0 < e_n e"
    "e_off e + esize e \<le> length fb"
    using assms get32_be32 [of "of_nat (e_n e)" "[]"] by (auto simp: rec_at_def)
  then show ?thesis
    by (subst scan_records.simps) (simp add: unat_of_nat32 esize_def Let_def add.assoc split: prod.splits)
qed

lemma add_entries_sel [simp]:
  "seg_content (add_entries es q) = seg_content q" "q_files (add_entries es q) = q_files q"
  "q_wrCur (add_entries es q) = q_wrCur q" "q_disk (add_entries es q) = q_disk q"
  by (simp_all add: add_entries_def)

lemma add_entries_add: "add_entries es' (add_entries es q) = add_entries (es @ es') q"
  by (simp add: add_entries_def)

lemma add_entries_Nil [simp]: "add_entries [] q = q"
  by (simp add: add_entries_def)

lemma add_entries_files: "add_entries es (q\<lparr>q_files := fs\<rparr>) = add_entries es q\<lparr>q_files := fs\<rparr>"
  by (simp add: add_entries_def)

lemma fileFor_ex:
  "seg_content q s = Some fb \<Longrightarrow>
   fileFor s q = (q\<lparr>q_files := (if s \<in> set (q_files q) then q_files q else s # q_files q)\<rparr>, Inr fb)"
  by (simp add: fileFor_def)

lemma scan_step_rec:
  assumes "rec_at (seg_content q) e"
  shows "scanFrom (Suc fuel) (e_seg e) (e_off e) q =
    scanFrom (Suc fuel) (e_seg e) (e_off e + esize e) (add_entries [e] q)"
proof -
  obtain fb where fb: "seg_content q (e_seg e) = Some fb"
    using rec_at_some [OF assms] by blast
  have le: "e_off e + esize e \<le> length fb"
    using assms fb by (simp add: rec_at_def)
  note seg = scan_records_rec [OF assms fb]
  show ?thesis
    using le seg
    by (simp add: fileFor_ex fb scanSegment_eq add_entries_files add_entries_add split: prod.splits)
qed

lemma scan_step_roll:
  assumes "seg_content q s = Some fb" and "seg_content q (Suc s) \<noteq> None"
  shows "scanFrom (Suc fuel) s (length fb) q =
    scanFrom fuel (Suc s) 0 (q\<lparr>q_files := (if s \<in> set (q_files q) then q_files q else s # q_files q)\<rparr>)"
  using assms by (auto simp: fileFor_ex scanSegment_def)

lemma scan_to:
  assumes "chain C c es w" and "seg_content q = C" and "cur_seg w - cur_seg c \<le> fuel"
  shows "\<exists>fs k. scanFrom (Suc fuel) (cur_seg c) (cur_off c) q =
      scanFrom (Suc k) (cur_seg w) (cur_off w) (add_entries es q\<lparr>q_files := fs\<rparr>) \<and>
    set (q_files q) \<subseteq> set fs \<and> {cur_seg c..<cur_seg w} \<subseteq> set fs \<and>
    set fs \<subseteq> set (q_files q) \<union> {cur_seg c..<cur_seg w}"
  using assms
proof (induction arbitrary: q fuel rule: chain.induct)
  case (chain_nil w)
  show ?case
    by (intro exI [of _ "q_files q"] exI [of _ fuel]) simp
next
  case (chain_roll s f off es w)
  have lt: "s < cur_seg w"
    using chain_mono [OF chain_roll.hyps(4)] by simp
  then obtain fuel' where fuel: "fuel = Suc fuel'" "cur_seg w - Suc s \<le> fuel'"
    using chain_roll.prems by (cases fuel) auto
  define q1 where "q1 = q\<lparr>q_files := (if s \<in> set (q_files q) then q_files q else s # q_files q)\<rparr>"
  have step: "scanFrom (Suc fuel) s off q = scanFrom (Suc fuel') (Suc s) 0 q1"
    using scan_step_roll [of q s f fuel] chain_roll.hyps chain_roll.prems fuel by (simp add: q1_def)
  obtain fs k where IH: "scanFrom (Suc fuel') (Suc s) 0 q1 =
      scanFrom (Suc k) (cur_seg w) (cur_off w) (add_entries es q1\<lparr>q_files := fs\<rparr>)"
    "set (q_files q1) \<subseteq> set fs" "{Suc s..<cur_seg w} \<subseteq> set fs"
    "set fs \<subseteq> set (q_files q1) \<union> {Suc s..<cur_seg w}"
    using chain_roll.IH [of q1 fuel'] chain_roll.prems fuel by (auto simp: q1_def)
  have "set (q_files q1) = insert s (set (q_files q))"
    by (auto simp: q1_def)
  moreover have "{s..<cur_seg w} = insert s {Suc s..<cur_seg w}"
    using lt by auto
  moreover have "add_entries es q1\<lparr>q_files := fs\<rparr> = add_entries es q\<lparr>q_files := fs\<rparr>"
    by (simp add: q1_def add_entries_def)
  ultimately show ?case
    using step IH by (intro exI [of _ fs] exI [of _ k]) (auto simp del: scanFrom.simps)
next
  case (chain_rec e es w c)
  define q1 where "q1 = add_entries [e] q"
  obtain fs k where IH: "scanFrom (Suc fuel) (e_seg e) (e_off e + esize e) q1 =
      scanFrom (Suc k) (cur_seg w) (cur_off w) (add_entries es q1\<lparr>q_files := fs\<rparr>)"
    "set (q_files q1) \<subseteq> set fs" "{e_seg e..<cur_seg w} \<subseteq> set fs"
    "set fs \<subseteq> set (q_files q1) \<union> {e_seg e..<cur_seg w}"
    using chain_rec.IH [of q1 fuel] chain_rec.prems chain_rec.hyps(3)
    by (auto simp: q1_def epos_def simp del: scanFrom.simps)
  moreover have "scanFrom (Suc fuel) (e_seg e) (e_off e) q = scanFrom (Suc fuel) (e_seg e) (e_off e + esize e) q1"
    using scan_step_rec [of q e fuel] chain_rec by (simp add: q1_def del: scanFrom.simps)
  ultimately show ?case
    using chain_rec.hyps(3)
    by (intro exI [of _ fs] exI [of _ k]) (simp add: epos_def q1_def add_entries_add del: scanFrom.simps)
qed

text \<open>The end of the scan: a clean end of the last file, or a torn record, which is cut off.\<close>

definition torn_at :: "byte list \<Rightarrow> nat \<Rightarrow> bool" where
  "torn_at fb off \<longleftrightarrow>
     off < length fb \<and>
     (length fb < off + headerSize \<or>
      length fb < off + headerSize + unat (get32 (take headerSize (drop off fb))))"

lemma scan_clean_end:
  assumes "seg_content q s = Some fb" and "seg_content q (Suc s) = None"
  shows "scanFrom (Suc k) s (length fb) q =
    (q\<lparr>q_files := (if s \<in> set (q_files q) then q_files q else s # q_files q)\<rparr>, Inr ())"
  using assms by (simp add: fileFor_ex scanSegment_def)

lemma scan_torn_end:
  assumes "seg_content q s = Some fb" and "torn_at fb off"
  shows "scanFrom (Suc k) s off q =
    (set_content s (take off fb) (q\<lparr>q_files := (if s \<in> set (q_files q) then q_files q else s # q_files q)\<rparr>)
       \<lparr>q_wrCur := Cursor s off, q_wrFile := Some s\<rparr>, Inr ())"
proof -
  have "scanSegment s fb off = ([], off, False)"
    using assms(2) by (auto simp: torn_at_def scanSegment_def scan_records.simps [of s fb off] Let_def)
  with assms(1) show ?thesis
    by (simp add: fileFor_ex openWrite_def)
qed

lemma last_listSegments:
  assumes "map_of (d_segs d) s = Some fb" and "\<And>k. s < k \<Longrightarrow> map_of (d_segs d) k = None"
  shows "listSegments d \<noteq> []" and "last (listSegments d) = s"
proof -
  define l where "l = listSegments d"
  have set_l: "set l = fst ` set (d_segs d)"
    by (simp add: l_def listSegments_def)
  have s: "s \<in> set l"
    using assms(1) by (force simp: set_l dest: map_of_SomeD)
  show "listSegments d \<noteq> []"
    using s by (auto simp: l_def)
  then obtain xs x where l: "l = xs @ [x]"
    by (metis l_def rev_exhaust)
  have "sorted l"
    by (simp add: l_def listSegments_def)
  with s have "s \<le> x"
    by (auto simp: l sorted_append)
  moreover have "x \<le> s"
  proof (rule ccontr)
    assume "\<not> x \<le> s"
    then have "map_of (d_segs d) x = None"
      using assms(2) by simp
    moreover have "x \<in> fst ` set (d_segs d)"
      using l by (simp flip: set_l)
    ultimately show False
      by (simp add: map_of_eq_None_iff)
  qed
  ultimately show "last (listSegments d) = s"
    using l by (simp add: l_def)
qed

lemma loadSegMeta_frame: "\<exists>m. loadSegMeta segs q = q\<lparr>q_segMeta := m\<rparr>"
proof (induction segs arbitrary: q)
  case Nil
  show ?case by (intro exI [of _ "q_segMeta q"]) (simp add: loadSegMeta_def)
next
  case (Cons s segs)
  obtain m1 where "loadSegMeta [s] q = q\<lparr>q_segMeta := m1\<rparr>"
    by (cases "map_of (d_idx (q_disk q)) s"; cases "seg_content q s")
      (fastforce simp: loadSegMeta_def intro: exI [of _ "q_segMeta q"])+
  moreover have "loadSegMeta (s # segs) q = loadSegMeta segs (loadSegMeta [s] q)"
    by (simp add: loadSegMeta_def)
  ultimately show ?case
    using Cons.IH [of "q\<lparr>q_segMeta := m1\<rparr>"] by fastforce
qed

lemma fold_drop_length: "length (d_segs (q_disk (fold dropSegment ss q))) \<le> length (d_segs (q_disk q))"
proof (induction ss arbitrary: q)
  case (Cons s ss)
  have "length (d_segs (q_disk (dropSegment s q))) \<le> length (d_segs (q_disk q))"
    by (simp add: dropSegment_def length_delete_le)
  with Cons.IH [of "dropSegment s q"] show ?case
    by simp
qed simp

lemma segs_fuel:
  assumes "\<And>k. a \<le> k \<Longrightarrow> k \<le> b \<Longrightarrow> map_of l k \<noteq> None" and "a \<le> b"
  shows "b - a \<le> length l"
proof -
  have "{a..b} \<subseteq> fst ` set l"
    using assms(1) by (force simp: map_of_eq_None_iff)
  then have "card {a..b} \<le> card (fst ` set l)"
    by (intro card_mono) simp_all
  also have "\<dots> \<le> length l"
    by (metis card_image_le card_length finite_set le_trans)
  finally show ?thesis
    by simp
qed

text \<open>
  Everything \<open>recover\<close> does before the scan, on a directory whose last segment is \<open>s\<close>:
  the write side is set up at the end of \<open>s\<close>, and only segments before the cursor are gone.
\<close>

definition scan_ready :: "queue \<Rightarrow> disk \<Rightarrow> nat \<Rightarrow> byte list \<Rightarrow> bool" where
  "scan_ready q d s fb \<longleftrightarrow>
     q_entries q = [] \<and> q_nextIdx q = 0 \<and> q_bytes q = 0 \<and> q_ackSinceCS q = 0 \<and> \<not> q_closed q \<and>
     q_wrCur q = Cursor s (length fb) \<and> q_wrFile q = Some s \<and> s \<in> set (q_files q) \<and>
     (\<forall>k \<ge> cur_seg (disk_cursor d). seg_content q k = map_of (d_segs d) k) \<and>
     (\<forall>k. seg_exists q k \<longrightarrow> map_of (d_segs d) k \<noteq> None) \<and>
     disk_cursor (q_disk q) = disk_cursor d"

lemma recover_prefix:
  assumes s: "map_of (d_segs d) s = Some fb" and none: "\<And>k. s < k \<Longrightarrow> map_of (d_segs d) k = None"
    and cs: "cur_seg (disk_cursor d) \<le> s"
  shows "\<exists>q. recover (new_queue now opts d) =
      scanFrom (Suc (length (d_segs (q_disk q)))) (cur_seg (disk_cursor d)) (cur_off (disk_cursor d)) q \<and>
    scan_ready q d s fb"
proof -
  define q0 where "q0 = new_queue now opts d"
  define segs where "segs = listSegments d"
  note last = last_listSegments [OF s none, folded segs_def]
  have d0: "q_disk q0 = d" "seg_content q0 = map_of (d_segs d)" "q_files q0 = []" "q_entries q0 = []"
    "q_nextIdx q0 = 0" "q_bytes q0 = 0" "q_ackSinceCS q0 = 0" "\<not> q_closed q0" "q_retention q0 = opt_retention opts"
    by (simp_all add: q0_def new_queue_def seg_content_conv)
  define q1 where "q1 = q0\<lparr>q_wrCur := Cursor s (length fb), q_files := [s], q_wrFile := Some s\<rparr>"
  obtain m where m: "loadSegMeta segs q1 = q1\<lparr>q_segMeta := m\<rparr>"
    using loadSegMeta_frame by blast
  define q2 where "q2 = q1\<lparr>q_segMeta := m\<rparr>"
  define ss where "ss = filter (\<lambda>seg. seg < cur_seg (disk_cursor d)) segs"
  define q3 where "q3 = (if q_retention q2 = None then fold dropSegment ss q2 else q2)"
  have op: "openWrite (q0\<lparr>q_wrCur := Cursor s (length fb)\<rparr>) = (q1, Inr ())"
    using s d0 by (simp add: openWrite_def fileFor_def q1_def)
  have "recover q0 =
      scanFrom (Suc (length (d_segs (q_disk q3)))) (cur_seg (disk_cursor d)) (cur_off (disk_cursor d)) q3"
    using last s op m
    by (simp add: recover_def Let_def d0 segs_def [symmetric] q2_def q3_def ss_def disk_cursor_def [symmetric] q1_def del: scanFrom.simps)
  moreover have "scan_ready q3 d s fb"
  proof -
    have "scan_ready q2 d s fb"
      using d0 by (simp add: scan_ready_def q2_def q1_def)
    moreover have "scan_ready (fold dropSegment ss q2) d s fb"
      using \<open>scan_ready q2 d s fb\<close> cs fold_drop [of ss q2] by (auto simp: scan_ready_def ss_def)
    ultimately show ?thesis
      by (simp add: q3_def)
  qed
  ultimately show ?thesis
    by (auto simp: q0_def)
qed

lemma fresh_ok:
  assumes ch: "chain C0 c es w" and c1: "1 \<le> cur_seg c" and good: "C0 (cur_seg w) = Some good"
    and len: "length good = cur_off w" and none: "\<And>k. cur_seg w < k \<Longrightarrow> C0 k = None"
    and sel: "q_entries q = es" "q_nextIdx q = 0" "q_bytes q = sum_list (map esize es)" "q_ackSinceCS q = 0"
      "\<not> q_closed q" "q_wrCur q = w" "q_wrFile q = Some (cur_seg w)" "disk_cursor (q_disk q) = c"
    and files: "cur_seg w \<in> set (q_files q)" "{cur_seg c..<cur_seg w} \<subseteq> set (q_files q)"
    and cont: "\<And>k. cur_seg c \<le> k \<Longrightarrow> seg_content q k = C0 k" "\<And>k. seg_exists q k \<Longrightarrow> C0 k \<noteq> None"
  shows "hist_ok q (map (rec_of C0) es) 0"
proof -
  have cw: "cur_seg c \<le> cur_seg w"
    using chain_mono [OF ch] by simp
  have "chain (seg_content q) c es w \<and> (\<forall>e \<in> set es. rec_of (seg_content q) e = rec_of C0 e)"
    using cont(1) good cw by (intro chain_extend [OF ch _ good, where ext = "[]"]) simp_all
  then have chq: "chain (seg_content q) c es w"
    and recs: "map (rec_of (seg_content q)) es = map (rec_of C0) es"
    using map_rec_of_cong by blast+
  have start: "readCur q = chain_start es w"
    by (simp add: readCur_start sel)
  have cr: "cur_seg c \<le> cur_seg (readCur q)"
    using chain_mono [OF ch] by (cases es) (auto simp: start chain_start_def epos_def)
  have "chain (seg_content q) (readCur q) es w"
    using chain_drop [OF chq, of 0] by (simp add: start)
  moreover have "write_ok q"
  proof -
    have "\<not> seg_exists q k" if "cur_seg w < k" for k
      using cont(2) [of k] none [OF that] by (cases "seg_content q k") auto
    with sel files cont(1) [OF cw] good len show ?thesis
      by (simp add: write_ok_def)
  qed
  ultimately have "q_ok q"
    using c1 cr sel by (simp add: q_ok_def)
  moreover have "lag_ok q (map (rec_of C0) es) 0"
  proof -
    have "k \<in> set (q_files q)" if "seg_exists q k" "cur_seg c \<le> k" for k
    proof -
      have "\<not> cur_seg w < k"
        using cont(2) [OF that(1)] none [of k] by auto
      with that(2) files show ?thesis
        by (cases "k = cur_seg w") auto
    qed
    with chq recs c1 cr sel show ?thesis
      by (auto simp: lag_ok_def Let_def intro!: exI [of _ "[]"])
  qed
  ultimately show ?thesis
    using recs sel by (simp add: hist_ok_def pending_def cursorSyncEvery_def)
qed

text \<open>\<open>Open\<close> on a directory whose records end cleanly, and on one that ends in a torn record.\<close>

lemma open_scan:
  assumes ch: "chain (map_of (d_segs d)) (disk_cursor d) es (Cursor s off)"
    and s: "map_of (d_segs d) s = Some fb" and none: "\<And>k. s < k \<Longrightarrow> map_of (d_segs d) k = None"
  shows "\<exists>q fs k. recover (new_queue now opts d) =
      scanFrom (Suc k) s off (add_entries es q\<lparr>q_files := fs\<rparr>) \<and>
    scan_ready q d s fb \<and> s \<in> set fs \<and> {cur_seg (disk_cursor d)..<s} \<subseteq> set fs"
proof -
  define c where "c = disk_cursor d"
  have cs: "cur_seg c \<le> s"
    using chain_mono [OF ch] by (simp add: c_def)
  obtain q where run: "recover (new_queue now opts d) =
      scanFrom (Suc (length (d_segs (q_disk q)))) (cur_seg c) (cur_off c) q"
    and rdy: "scan_ready q d s fb"
    using recover_prefix [OF s none] cs unfolding c_def by blast
  have same: "seg_content q k = map_of (d_segs d) k" if "cur_seg c \<le> k" for k
    using rdy that by (simp add: scan_ready_def c_def)
  have chq: "chain (seg_content q) c es (Cursor s off)"
    using chain_extend [OF ch, of "seg_content q" fb "[]"] same s cs by (auto simp: c_def)
  have "s - cur_seg c \<le> length (d_segs (q_disk q))"
  proof (rule segs_fuel [OF _ cs])
    fix k assume "cur_seg c \<le> k" "k \<le> s"
    with chain_present [OF chq, of k] same s show "map_of (d_segs (q_disk q)) k \<noteq> None"
      by (cases "k = s") (auto simp: seg_content_conv)
  qed
  with scan_to [OF chq refl, of "length (d_segs (q_disk q))"] obtain fs k where
    "scanFrom (Suc (length (d_segs (q_disk q)))) (cur_seg c) (cur_off c) q =
       scanFrom (Suc k) s off (add_entries es q\<lparr>q_files := fs\<rparr>)"
    "set (q_files q) \<subseteq> set fs" "{cur_seg c..<s} \<subseteq> set fs"
    by (auto simp del: scanFrom.simps)
  moreover have "s \<in> set (q_files q)"
    using rdy by (simp add: scan_ready_def)
  ultimately show ?thesis
    using run rdy unfolding c_def by (metis subsetD)
qed

lemma open_clean:
  assumes ch: "chain (map_of (d_segs d)) (disk_cursor d) es (Cursor s (length fb))"
    and s: "map_of (d_segs d) s = Some fb" and none: "\<And>k. s < k \<Longrightarrow> map_of (d_segs d) k = None"
    and c1: "1 \<le> cur_seg (disk_cursor d)"
  shows "\<exists>q. open_queue now opts d = Inr q \<and> hist_ok q (map (rec_of (map_of (d_segs d))) es) 0 \<and>
    q_nextIdx q = 0"
proof -
  obtain q fs k where run: "recover (new_queue now opts d) =
      scanFrom (Suc k) s (length fb) (add_entries es q\<lparr>q_files := fs\<rparr>)"
    and rdy: "scan_ready q d s fb" and fs: "s \<in> set fs" "{cur_seg (disk_cursor d)..<s} \<subseteq> set fs"
    using open_scan [OF ch s none] by blast
  define q' where "q' = add_entries es q\<lparr>q_files := fs\<rparr>"
  have cs: "cur_seg (disk_cursor d) \<le> s"
    using chain_mono [OF ch] by simp
  have c: "seg_content q' = seg_content q"
    by (simp add: q'_def)
  have "seg_content q' s = Some fb" "seg_content q' (Suc s) = None"
    using rdy s none cs by (simp_all add: c scan_ready_def)
  then have "recover (new_queue now opts d) = (q', Inr ())"
    unfolding run q'_def [symmetric] using fs by (subst scan_clean_end) (simp_all add: q'_def)
  moreover have "hist_ok q' (map (rec_of (map_of (d_segs d))) es) 0"
    using rdy fs c s none by (intro fresh_ok [OF ch c1, of fb])
      (simp_all add: scan_ready_def q'_def add_entries_def esize_def [abs_def])
  moreover have "q_nextIdx q' = 0"
    using rdy by (simp add: scan_ready_def q'_def add_entries_def)
  ultimately show ?thesis
    by (simp add: open_queue_def)
qed

lemma open_torn:
  assumes ch: "chain ((map_of (d_segs d))(s \<mapsto> good)) (disk_cursor d) es (Cursor s (length good))"
    and s: "map_of (d_segs d) s = Some (good @ tail)" and none: "\<And>k. s < k \<Longrightarrow> map_of (d_segs d) k = None"
    and c1: "1 \<le> cur_seg (disk_cursor d)" and torn: "torn_at (good @ tail) (length good)"
  shows "\<exists>q. open_queue now opts d = Inr q \<and>
    hist_ok q (map (rec_of ((map_of (d_segs d))(s \<mapsto> good))) es) 0 \<and> q_nextIdx q = 0"
proof -
  define C0 where "C0 = (map_of (d_segs d))(s \<mapsto> good)"
  have "chain (map_of (d_segs d)) (disk_cursor d) es (Cursor s (length good))"
    using chain_extend [OF ch, of "map_of (d_segs d)" good tail] s by simp
  from open_scan [OF this s none] obtain q fs k where run: "recover (new_queue now opts d) =
      scanFrom (Suc k) s (length good) (add_entries es q\<lparr>q_files := fs\<rparr>)"
    and rdy: "scan_ready q d s (good @ tail)" and fs: "s \<in> set fs" "{cur_seg (disk_cursor d)..<s} \<subseteq> set fs"
    by blast
  have cs: "cur_seg (disk_cursor d) \<le> s"
    using chain_mono [OF ch] by simp
  define q1 where "q1 = add_entries es q\<lparr>q_files := fs\<rparr>"
  define q' where "q' = set_content s good q1\<lparr>q_wrCur := Cursor s (length good), q_wrFile := Some s\<rparr>"
  have "seg_content q1 s = Some (good @ tail)"
    using rdy s cs by (simp add: q1_def scan_ready_def)
  from scan_torn_end [OF this torn] have "recover (new_queue now opts d) = (q', Inr ())"
    unfolding run q1_def [symmetric] using fs by (simp add: q'_def q1_def)
  moreover have "hist_ok q' (map (rec_of C0) es) 0"
    using rdy fs none unfolding C0_def
    by (intro fresh_ok [OF ch c1, of good])
      (auto simp: scan_ready_def q'_def q1_def add_entries_def esize_def [abs_def] set_content_def
        seg_content_conv update_conv disk_cursor_def loadCursor_def split: if_splits)
  moreover have "q_nextIdx q' = 0"
    using rdy by (simp add: scan_ready_def q'_def q1_def add_entries_def)
  ultimately show ?thesis
    by (simp add: open_queue_def C0_def)
qed

text \<open>A new directory: \<open>Open\<close> creates the first segment and finds nothing.\<close>

definition empty_disk :: disk where
  "empty_disk = \<lparr>d_segs = [], d_idx = [], d_mtime = (\<lambda>_. 0), d_cursor = None\<rparr>"

lemma open_empty: "\<exists>q. open_queue now opts empty_disk = Inr q \<and> hist_ok q [] 0 \<and> q_nextIdx q = 0"
proof -
  define q where "q = (new_queue now opts empty_disk)
    \<lparr>q_wrCur := Cursor 1 0, q_wrFile := Some 1, q_files := [1],
     q_disk := empty_disk\<lparr>d_segs := [(1, [])]\<rparr>\<rparr>"
  have "recover (new_queue now opts empty_disk) = (q, Inr ())"
    by (simp add: recover_def listSegments_def empty_disk_def new_queue_def openSegment_def seg_content_def
        set_content_def openWrite_def fileFor_def loadCursor_def loadSegMeta_def scanSegment_def q_def Let_def
        fold_drop)
  moreover have "hist_ok q (map (rec_of (map_of [(1, [])])) []) 0"
    by (rule fresh_ok [OF chain_nil, of "Cursor 1 0" _ "[]"])
      (simp_all add: q_def new_queue_def disk_cursor_def loadCursor_def empty_disk_def seg_content_def)
  moreover have "q_nextIdx q = 0"
    by (simp add: q_def new_queue_def)
  ultimately show ?thesis
    by (simp add: open_queue_def)
qed

section \<open>The contract of an at-least-once queue\<close>

text \<open>
  The client is the sender of the probe: it enqueues what it captures, asks for a batch,
  acknowledges what the server took and redelivers after a failure. It keeps the list of
  accepted items, how many of them it acknowledged, and a log of everything delivered.
\<close>

datatype 'a client_op = Enqueue 'a | Deliver int | Acknowledge int | Redeliver

record ('q, 'r) client =
  cl_queue :: 'q
  cl_accepted :: "'r list"
  cl_acked :: nat
  cl_sent :: "'r list"

fun client_step ::
  "('a \<Rightarrow> 'q \<Rightarrow> 'q \<times> ('e + unit)) \<Rightarrow> (int \<Rightarrow> 'q \<Rightarrow> 'q \<times> ('e + 'r list)) \<Rightarrow> (int \<Rightarrow> 'q \<Rightarrow> 'q) \<Rightarrow>
   ('q \<Rightarrow> 'q) \<Rightarrow> ('q \<Rightarrow> nat) \<Rightarrow> ('a \<Rightarrow> 'r) \<Rightarrow> 'a client_op \<Rightarrow> ('q, 'r) client \<Rightarrow> ('q, 'r) client"
where
  "client_step enq deq ack req infl payload (Enqueue x) s =
     (case enq x (cl_queue s) of
        (q, Inr _) \<Rightarrow> s\<lparr>cl_queue := q, cl_accepted := cl_accepted s @ [payload x]\<rparr>
      | (q, Inl _) \<Rightarrow> s\<lparr>cl_queue := q\<rparr>)"
| "client_step enq deq ack req infl payload (Deliver n) s =
     (case deq n (cl_queue s) of
        (q, Inr rs) \<Rightarrow> s\<lparr>cl_queue := q, cl_sent := cl_sent s @ rs\<rparr>
      | (q, Inl _) \<Rightarrow> s\<lparr>cl_queue := q\<rparr>)"
| "client_step enq deq ack req infl payload (Acknowledge n) s =
     (let q = ack n (cl_queue s) in
      s\<lparr>cl_queue := q, cl_acked := cl_acked s + (infl (cl_queue s) - infl q)\<rparr>)"
| "client_step enq deq ack req infl payload Redeliver s = s\<lparr>cl_queue := req (cl_queue s)\<rparr>"

definition client_run where
  "client_run enq deq ack req infl payload ops s =
     fold (client_step enq deq ack req infl payload) ops s"

definition client_start :: "'q \<Rightarrow> 'r list \<Rightarrow> nat \<Rightarrow> ('q, 'r) client" where
  "client_start q h a = \<lparr>cl_queue = q, cl_accepted = h, cl_acked = a, cl_sent = take a h\<rparr>"

locale at_least_once =
  fixes inv :: "'q \<Rightarrow> 'r list \<Rightarrow> nat \<Rightarrow> bool"
    and pend :: "'q \<Rightarrow> 'r list"
    and infl :: "'q \<Rightarrow> nat"
    and enq :: "'a \<Rightarrow> 'q \<Rightarrow> 'q \<times> ('e + unit)"
    and deq :: "int \<Rightarrow> 'q \<Rightarrow> 'q \<times> ('e + 'r list)"
    and ack :: "int \<Rightarrow> 'q \<Rightarrow> 'q"
    and req :: "'q \<Rightarrow> 'q"
    and valid :: "'a \<Rightarrow> bool"
    and payload :: "'a \<Rightarrow> 'r"
  assumes inv_pend: "inv q h a \<Longrightarrow> pend q = drop a h \<and> a \<le> length h \<and> infl q \<le> length (pend q)"
    and enq_law: "inv q h a \<Longrightarrow> valid x \<Longrightarrow>
      infl (fst (enq x q)) = infl q \<and>
      (case snd (enq x q) of Inr _ \<Rightarrow> inv (fst (enq x q)) (h @ [payload x]) a | Inl _ \<Rightarrow> inv (fst (enq x q)) h a)"
    and deq_law: "inv q h a \<Longrightarrow>
      \<exists>q' k. deq n q = (q', Inr (take k (drop (infl q) (pend q)))) \<and> inv q' h a \<and> infl q' = infl q + k \<and>
        infl q + k \<le> length (pend q) \<and> (k = 0 \<longrightarrow> infl q = length (pend q))"
    and ack_law: "inv q h a \<Longrightarrow>
      inv (ack n q) h (a + nat (min n (int (infl q)))) \<and> infl (ack n q) = infl q - nat (min n (int (infl q)))"
    and req_law: "inv q h a \<Longrightarrow> inv (req q) h a \<and> infl (req q) = 0"
begin

definition sound :: "('q, 'r) client \<Rightarrow> bool" where
  "sound s \<longleftrightarrow>
     inv (cl_queue s) (cl_accepted s) (cl_acked s) \<and>
     set (take (cl_acked s + infl (cl_queue s)) (cl_accepted s)) \<subseteq> set (cl_sent s)"

lemma sound_start:
  "inv q h a \<Longrightarrow> infl q = 0 \<Longrightarrow> sound (client_start q h a)"
  by (simp add: sound_def client_start_def)

lemma sound_step:
  assumes "sound s" and "\<And>x. op = Enqueue x \<Longrightarrow> valid x"
  shows "sound (client_step enq deq ack req infl payload op s)"
proof -
  define q h a where "q = cl_queue s" and "h = cl_accepted s" and "a = cl_acked s"
  have inv: "inv q h a" and sent: "set (take (a + infl q) h) \<subseteq> set (cl_sent s)"
    using assms(1) by (simp_all add: sound_def q_def h_def a_def)
  note pend = inv_pend [OF inv]
  show ?thesis
  proof (cases op)
    case (Enqueue x)
    have le: "a + infl q \<le> length h"
      using pend by auto
    with enq_law [OF inv, of x] assms(2) [OF Enqueue] sent show ?thesis
      by (auto simp: Enqueue sound_def q_def h_def a_def split: sum.splits prod.splits)
  next
    case (Deliver n)
    from deq_law [OF inv, of n] obtain q' k where
      d: "deq n q = (q', Inr (take k (drop (infl q) (pend q))))" "inv q' h a" "infl q' = infl q + k"
      by blast
    have "take (a + (infl q + k)) h = take (a + infl q) h @ take k (drop (infl q) (pend q))"
      using pend take_add [of "a + infl q" k h] by (simp add: add.assoc add.commute [of "infl q" a])
    with d sent show ?thesis
      by (auto simp: Deliver sound_def q_def h_def a_def)
  next
    case (Acknowledge n)
    define k where "k = nat (min n (int (infl q)))"
    have "k \<le> infl q"
      by (simp add: k_def)
    with ack_law [OF inv, of n] sent show ?thesis
      by (simp add: Acknowledge sound_def q_def h_def a_def k_def Let_def)
  next
    case Redeliver
    have "set (take a h) \<subseteq> set (take (a + infl q) h)"
      by (rule set_take_subset_set_take) simp
    with req_law [OF inv] sent show ?thesis
      by (auto simp: Redeliver sound_def q_def h_def a_def)
  qed
qed

lemma sound_run:
  assumes "sound s" and "\<And>x. Enqueue x \<in> set ops \<Longrightarrow> valid x"
  shows "sound (client_run enq deq ack req infl payload ops s)"
  using assms
proof (induction ops arbitrary: s)
  case (Cons op ops)
  have "sound (client_step enq deq ack req infl payload op s)"
    using Cons.prems by (intro sound_step) auto
  with Cons.IH Cons.prems(2) show ?case
    by (simp add: client_run_def)
qed (simp add: client_run_def)

lemma run_no_loss:
  assumes "inv q h a" and "infl q = 0" and "\<And>x. Enqueue x \<in> set ops \<Longrightarrow> valid x"
    and "s = client_run enq deq ack req infl payload ops (client_start q h a)"
  shows "inv (cl_queue s) (cl_accepted s) (cl_acked s)"
    and "pend (cl_queue s) = drop (cl_acked s) (cl_accepted s)" and "cl_acked s \<le> length (cl_accepted s)"
    and "set (take (cl_acked s) (cl_accepted s)) \<subseteq> set (cl_sent s)"
proof -
  have "sound s"
    unfolding assms(4) by (intro sound_run sound_start assms(1-3))
  then show inv: "inv (cl_queue s) (cl_accepted s) (cl_acked s)"
    and "set (take (cl_acked s) (cl_accepted s)) \<subseteq> set (cl_sent s)"
    using set_take_subset_set_take [of "cl_acked s" "cl_acked s + infl (cl_queue s)" "cl_accepted s"]
    by (auto simp: sound_def)
  from inv_pend [OF inv] show "pend (cl_queue s) = drop (cl_acked s) (cl_accepted s)"
    "cl_acked s \<le> length (cl_accepted s)"
    by simp_all
qed

end

text \<open>The disk queue keeps the contract; an item is a record with the clock and the packet time.\<close>

definition append_item :: "time \<times> int \<times> byte list \<Rightarrow> queue \<Rightarrow> queue \<times> (spool_error + unit)" where
  "append_item = (\<lambda>(now, ts, rec). append_rec now ts rec)"

definition item_ok :: "time \<times> int \<times> byte list \<Rightarrow> bool" where
  "item_ok = (\<lambda>(now, ts, rec). record_ok rec)"

definition item_record :: "time \<times> int \<times> byte list \<Rightarrow> byte list" where
  "item_record = (\<lambda>(now, ts, rec). rec)"

lemma append_item_law:
  assumes "hist_ok q h a" and "item_ok x"
  shows "inFlight (fst (append_item x q)) = inFlight q \<and>
    (case snd (append_item x q) of
       Inr _ \<Rightarrow> hist_ok (fst (append_item x q)) (h @ [item_record x]) a
     | Inl _ \<Rightarrow> hist_ok (fst (append_item x q)) h a)"
proof -
  obtain now ts rec where x: "x = (now, ts, rec)"
    by (cases x)
  show ?thesis
    using hist_append [OF assms(1), of rec now ts] hist_refused [OF assms(1), of rec now ts] assms(2)
    by (cases "append_fits rec q") (auto simp: x append_item_def item_ok_def item_record_def inFlight_def)
qed

interpretation spool: at_least_once hist_ok pending inFlight append_item "next_pkts Some" ackN requeue item_ok item_record
proof unfold_locales
  show "pending q = drop a h \<and> a \<le> length h \<and> inFlight q \<le> length (pending q)" if "hist_ok q h a" for q h a
    using that unfolding inFlight_def length_pending by (simp add: hist_ok_def q_ok_def)
  show "\<exists>q' k. next_pkts Some n q = (q', Inr (take k (drop (inFlight q) (pending q)))) \<and> hist_ok q' h a \<and>
      inFlight q' = inFlight q + k \<and> inFlight q + k \<le> length (pending q) \<and> (k = 0 \<longrightarrow> inFlight q = length (pending q))"
    if "hist_ok q h a" for q h a n
    using hist_next [OF that, of n] unfolding inFlight_def by blast
  show "hist_ok (ackN n q) h (a + nat (min n (int (inFlight q)))) \<and>
      inFlight (ackN n q) = inFlight q - nat (min n (int (inFlight q)))"
    if "hist_ok q h a" for q h a n
    using hist_ack(1,2) [OF that refl] by (simp add: inFlight_def)
qed (use append_item_law hist_requeue in \<open>auto simp: requeue_def inFlight_def\<close>)

section \<open>Crash and restart\<close>

text \<open>
  A crash during an append leaves the directory with the first \<open>j\<close> bytes of the record that
  was being written; \<open>j = 0\<close> is a crash between two operations.
\<close>

definition crash_disk :: "queue \<Rightarrow> nat \<Rightarrow> byte list \<Rightarrow> disk" where
  "crash_disk q j rec =
     (let s = cur_seg (q_wrCur q) in
      q_disk (set_content s (the (seg_content q s) @ take j (enc_record rec)) q))"

abbreviation spool_run ::
  "(time \<times> int \<times> byte list) client_op list \<Rightarrow> (queue, byte list) client \<Rightarrow> (queue, byte list) client"
where
  "spool_run \<equiv> client_run append_item (next_pkts Some) ackN requeue inFlight item_record"

lemma torn_prefix:
  assumes "0 < j" and "j < length (enc_record rec)" and "record_ok rec"
  shows "torn_at (good @ take j (enc_record rec)) (length good)"
proof (cases "j < headerSize")
  case True
  with assms show ?thesis
    by (simp add: torn_at_def)
next
  case False
  then have "take headerSize (take j (enc_record rec)) = be32 (of_nat (length rec))"
    by (simp add: enc_record_def)
  moreover have "unat (get32 (be32 (of_nat (length rec)))) = length rec"
    using record_ok_bounds [OF assms(3)] get32_be32 [of "of_nat (length rec)" "[]"] by (simp add: unat_of_nat32)
  ultimately show ?thesis
    using assms(1,2) False by (auto simp: torn_at_def enc_record_def min_def)
qed

lemma crash_recovers:
  assumes "hist_ok q h a" and "seg_exists q (cur_seg (disk_cursor (q_disk q)))"
    and "j < length (enc_record rec)" and "record_ok rec"
  shows "\<exists>q'. open_queue now opts (crash_disk q j rec) = Inr q' \<and>
    hist_ok q' (drop (a - q_ackSinceCS q) h) 0 \<and> q_nextIdx q' = 0"
proof -
  define s where "s = cur_seg (q_wrCur q)"
  define d where "d = crash_disk q j rec"
  obtain good where good: "seg_content q s = Some good" "length good = cur_off (q_wrCur q)"
    and none: "\<And>k. s < k \<Longrightarrow> seg_content q k = None"
    using assms(1) by (auto simp: hist_ok_def q_ok_def write_ok_def s_def)
  obtain es where ch: "chain (seg_content q) (disk_cursor (q_disk q)) (es @ q_entries q) (q_wrCur q)"
    and h: "map (rec_of (seg_content q)) (es @ q_entries q) = drop (a - q_ackSinceCS q) h"
    using assms(1,2) by (auto simp: hist_ok_def lag_ok_def Let_def)
  have c: "map_of (d_segs d) = (seg_content q)(s \<mapsto> good @ take j (enc_record rec))"
    using good unfolding seg_content_set [symmetric] seg_content_conv [of "set_content _ _ _"]
    by (simp add: d_def crash_disk_def s_def Let_def)
  have cur: "disk_cursor d = disk_cursor (q_disk q)"
    by (simp add: d_def crash_disk_def Let_def)
  have one: "1 \<le> cur_seg (disk_cursor d)"
    using assms(1) by (simp add: cur hist_ok_def lag_ok_def Let_def)
  have w: "q_wrCur q = Cursor s (length good)"
    using good by (simp add: s_def)
  have C0: "(map_of (d_segs d))(s \<mapsto> good) = seg_content q"
    using good by (auto simp: c)
  show ?thesis
  proof (cases "j = 0")
    case True
    with good have cc: "map_of (d_segs d) = seg_content q"
      by (auto simp: c)
    show ?thesis
      unfolding d_def [symmetric] h [symmetric] cc [symmetric]
      by (rule open_clean [where s = s and fb = good]) (use ch cur good(1) none one w in \<open>simp_all add: cc\<close>)
  next
    case False
    then have "torn_at (good @ take j (enc_record rec)) (length good)"
      using torn_prefix [OF _ assms(3,4)] by simp
    then show ?thesis
      unfolding d_def [symmetric] h [symmetric] C0 [symmetric]
      by (intro open_torn [where tail = "take j (enc_record rec)"])
        (use ch cur none one w good(1) in \<open>simp_all add: C0 c fun_upd_idem\<close>)
  qed
qed

lemma close_pre:
  assumes "hist_ok q h a"
  shows "hist_ok (persistCursor (sync now q)) h a"
proof -
  have "pre_ok (sync now q) h a"
  proof -
    have rc: "readCur (sync now q) = readCur q"
      by (simp add: readCur_start)
    have "q_ok (sync now q) = q_ok q" "lag_ok (sync now q) h a = lag_ok q h a" "pending (sync now q) = pending q"
      by (simp_all add: rc q_ok_def write_ok_def lag_ok_def pending_def)
    with assms show ?thesis
      by (simp add: hist_pre pre_ok_def)
  qed
  moreover from this have "k \<in> set (q_files (sync now q))" if "seg_exists (sync now q) k" "cur_seg (readCur (sync now q)) \<le> k" for k
    using that by (auto simp: pre_ok_def lag_ok_def Let_def)
  ultimately have "pre_ok (persistCursor (sync now q)) h a"
    by (rule pre_persist)
  then show ?thesis
    by (simp add: hist_pre persistCursor_def cursorSyncEvery_def)
qed

lemma readCur_seg_exists: "q_ok q \<Longrightarrow> seg_exists q (cur_seg (readCur q))"
proof (cases "q_entries q")
  case (Cons e es)
  assume "q_ok q"
  then have "rec_at (seg_content q) e"
    using Cons chain_rec_at [of "seg_content q" "readCur q" "q_entries q" "q_wrCur q" e] by (simp add: q_ok_def)
  from rec_at_some [OF this] Cons show ?thesis
    by (simp add: readCur_def)
qed (auto simp: q_ok_def write_ok_def readCur_def)

lemma reopen_after_close:
  assumes "hist_ok q h a"
  shows "\<exists>q'. open_queue now opts (q_disk (close_queue t q)) = Inr q' \<and> hist_ok q' (pending q) 0 \<and> q_nextIdx q' = 0"
proof -
  define q1 where "q1 = persistCursor (sync t q)"
  define d where "d = q_disk (close_queue t q)"
  have h1: "hist_ok q1 h a"
    unfolding q1_def by (rule close_pre [OF assms])
  then have ok: "q_ok q1"
    by (simp add: hist_ok_def)
  have "\<not> q_closed q"
    using assms by (simp add: hist_ok_def q_ok_def write_ok_def)
  then have segs: "map_of (d_segs d) = seg_content q1" and cur: "disk_cursor d = disk_cursor (q_disk q1)"
    by (simp_all add: d_def close_queue_def q1_def saveAllSegMeta_def seg_content_conv disk_cursor_def loadCursor_def)
  have "disk_cursor (q_disk q1) = readCur q1"
    using ok by (simp add: q1_def persistCursor_def disk_cursor_def loadCursor_def q_ok_def)
  moreover obtain f where "seg_content q1 (cur_seg (q_wrCur q1)) = Some f" "length f = cur_off (q_wrCur q1)"
    and "\<And>k. cur_seg (q_wrCur q1) < k \<Longrightarrow> seg_content q1 k = None"
    using ok by (auto simp: q_ok_def write_ok_def)
  moreover have "map (rec_of (seg_content q1)) (q_entries q1) = pending q"
    by (simp add: pending_def q1_def persistCursor_def seg_content_conv)
  ultimately show ?thesis
    using open_clean [of d "q_entries q1" "cur_seg (q_wrCur q1)" f now opts] ok
    unfolding d_def [symmetric] by (simp add: segs cur q_ok_def)
qed

lemma open_without_cursor_segment:
  assumes s: "map_of (d_segs d) s = Some fb" and none: "\<And>k. s < k \<Longrightarrow> map_of (d_segs d) k = None"
    and gone: "map_of (d_segs d) (cur_seg (disk_cursor d)) = None" and cs: "cur_seg (disk_cursor d) \<le> s"
    and c1: "1 \<le> cur_seg (disk_cursor d)"
  shows "\<exists>d' q. open_queue now opts d = Inl (ErrWrapped ErrNotExist, d') \<and>
    open_queue now' opts' d' = Inr q \<and> pending q = []"
proof -
  define c where "c = disk_cursor d"
  obtain q where run: "recover (new_queue now opts d) =
      scanFrom (Suc (length (d_segs (q_disk q)))) (cur_seg c) (cur_off c) q" and rdy: "scan_ready q d s fb"
    using recover_prefix [OF s none cs] unfolding c_def by blast
  have "seg_content q (cur_seg c) = None"
    using rdy gone by (simp add: scan_ready_def c_def)
  then have rec: "recover (new_queue now opts d) = (q, Inl (ErrWrapped ErrNotExist))"
    by (simp add: run fileFor_def os_IsNotExist_def)
  define d' where "d' = q_disk (close_queue now q)"
  have "readCur q = Cursor s (length fb)" "\<not> q_closed q"
    using rdy by (simp_all add: scan_ready_def readCur_def)
  then have cur: "disk_cursor d' = Cursor s (length fb)" and segs: "map_of (d_segs d') = seg_content q"
    using cs c1 by (simp_all add: d'_def close_queue_def saveAllSegMeta_def persistCursor_def
        disk_cursor_def loadCursor_def readCur_def seg_content_conv cong: list.case_cong)
  have "\<exists>q'. open_queue now' opts' d' = Inr q' \<and> hist_ok q' (map (rec_of (map_of (d_segs d'))) []) 0 \<and> q_nextIdx q' = 0"
  proof (rule open_clean)
    show "chain (map_of (d_segs d')) (disk_cursor d') [] (Cursor s (length fb))"
      by (simp add: cur chain_nil)
    show "map_of (d_segs d') s = Some fb" "\<And>k. s < k \<Longrightarrow> map_of (d_segs d') k = None"
      "1 \<le> cur_seg (disk_cursor d')"
      using rdy s none cs c1 by (simp_all add: segs scan_ready_def cur)
  qed
  then show ?thesis
    using rec by (auto simp: open_queue_def d'_def hist_ok_def)
qed

lemma hist_bytes:
  assumes "hist_ok q h a" and "int (q_bytes q) \<le> q_maxBytes q"
  shows "item_ok x \<Longrightarrow> int (q_bytes (fst (append_item x q))) \<le> q_maxBytes (fst (append_item x q))"
    and "int (q_bytes (fst (next_pkts Some n q))) \<le> q_maxBytes (fst (next_pkts Some n q))"
    and "int (q_bytes (ackN n q)) \<le> q_maxBytes (ackN n q)"
proof -
  show "int (q_bytes (fst (append_item x q))) \<le> q_maxBytes (fst (append_item x q))" if "item_ok x"
  proof -
    obtain now ts rec where x: "x = (now, ts, rec)"
      by (cases x)
    with hist_append [OF assms(1), of rec now ts] hist_refused [OF assms(1), of rec now ts] assms(2) that
    show ?thesis
      by (cases "append_fits rec q") (auto simp: append_item_def item_ok_def append_fits_def)
  qed
  show "int (q_bytes (fst (next_pkts Some n q))) \<le> q_maxBytes (fst (next_pkts Some n q))"
    using hist_next [OF assms(1), of n] assms(2) by fastforce
  show "int (q_bytes (ackN n q)) \<le> q_maxBytes (ackN n q)"
    using hist_ack(3,4) [OF assms(1) refl, of n] assms(2) by linarith
qed

lemma run_bytes:
  assumes "spool.sound s" and "int (q_bytes (cl_queue s)) \<le> q_maxBytes (cl_queue s)"
    and "\<And>x. Enqueue x \<in> set ops \<Longrightarrow> item_ok x"
  shows "int (q_bytes (cl_queue (spool_run ops s))) \<le> q_maxBytes (cl_queue (spool_run ops s))"
  using assms
proof (induction ops arbitrary: s)
  case (Cons op ops)
  define s' where "s' = client_step append_item (next_pkts Some) ackN requeue inFlight item_record op s"
  have hist: "hist_ok (cl_queue s) (cl_accepted s) (cl_acked s)"
    using Cons.prems(1) by (simp add: spool.sound_def)
  have "spool.sound s'"
    unfolding s'_def using Cons.prems by (intro spool.sound_step) auto
  moreover have "int (q_bytes (cl_queue s')) \<le> q_maxBytes (cl_queue s')"
  proof (cases op)
    case (Enqueue x)
    with hist_bytes(1) [OF hist Cons.prems(2), of x] Cons.prems(3) [of x] show ?thesis
      by (auto simp: s'_def split: prod.splits sum.splits)
  next
    case (Deliver n)
    with hist_bytes(2) [OF hist Cons.prems(2), of n] show ?thesis
      by (auto simp: s'_def split: prod.splits sum.splits)
  next
    case (Acknowledge n)
    with hist_bytes(3) [OF hist Cons.prems(2), of n] show ?thesis
      by (simp add: s'_def Let_def)
  next
    case Redeliver
    with Cons.prems(2) show ?thesis
      by (simp add: s'_def requeue_def)
  qed
  ultimately show ?case
    using Cons.IH [of s'] Cons.prems(3) by (simp add: client_run_def s'_def)
qed (simp add: client_run_def)

section \<open>Properties\<close>

text \<open>A run for the witnesses: six-byte segments, so that every record starts a new one.\<close>

definition demo_opts :: options where
  "demo_opts = \<lparr>opt_maxBytes = 100, opt_segmentBytes = 6, opt_retention = None\<rparr>"

definition demo_queue :: queue where
  "demo_queue = (case open_queue 0 demo_opts empty_disk of Inr q \<Rightarrow> q | Inl (_, d) \<Rightarrow> new_queue 0 demo_opts d)"

definition demo_ops :: "(time \<times> int \<times> byte list) client_op list" where
  "demo_ops = [Enqueue (1, 5, [1, 2, 3]), Enqueue (2, 6, [4]), Enqueue (3, 7, [5, 6]), Deliver 1]"

definition demo_client :: "(queue, byte list) client" where
  "demo_client = client_start demo_queue [] 0"

lemma demo_hist: "hist_ok demo_queue [] 0" "inFlight demo_queue = 0"
  using open_empty [of 0 demo_opts] by (auto simp: demo_queue_def inFlight_def)

lemma demo_items: "\<forall>x. Enqueue x \<in> set demo_ops \<longrightarrow> item_ok x"
  by (auto simp: demo_ops_def item_ok_def record_ok_def)

text \<open>
  (C3) No record is lost or reordered while the queue runs: after any sequence of appends,
  deliveries, acknowledgements and requeues, the pending records are exactly the accepted
  ones that were not acknowledged, in order, and whatever was acknowledged had been
  delivered to the sender before.
\<close>

theorem spool_no_loss:
  assumes "hist_ok q h a" and "inFlight q = 0"
    and "\<forall>x. Enqueue x \<in> set ops \<longrightarrow> item_ok x"
    and "s = spool_run ops (client_start q h a)"
  shows "pending (cl_queue s) = drop (cl_acked s) (cl_accepted s) \<and>
    cl_acked s \<le> length (cl_accepted s) \<and>
    set (take (cl_acked s) (cl_accepted s)) \<subseteq> set (cl_sent s)"
  using spool.run_no_loss(2-4) [OF assms(1,2) _ assms(4)] assms(3) by blast

theorem spool_no_loss_witness:
  "let s = spool_run (demo_ops @ [Acknowledge 1]) demo_client in
   pending (cl_queue s) = [[4], [5, 6]] \<and> cl_sent s = [[1, 2, 3]]"
proof -
  define s where "s = spool_run (demo_ops @ [Acknowledge 1]) demo_client"
  have v: "cl_acked s = 1 \<and> cl_accepted s = [[1, 2, 3], [4], [5, 6]] \<and> cl_sent s = [[1, 2, 3]]"
    unfolding s_def by code_simp
  have "pending (cl_queue s) = drop (cl_acked s) (cl_accepted s)"
    using spool_no_loss [OF demo_hist, of "demo_ops @ [Acknowledge 1]" s] demo_items
    by (auto simp: s_def demo_client_def)
  with v show ?thesis
    by (simp add: s_def [symmetric] Let_def)
qed



text \<open>
  Closing and opening again is lossless: the pending records of the reopened queue are
  those of the closed one, whatever options it is opened with.
\<close>

theorem spool_close_open:
  assumes "hist_ok q h a"
  shows "\<exists>q'. open_queue now opts (q_disk (close_queue t q)) = Inr q' \<and> pending q' = pending q \<and>
    inFlight q' = 0"
  using reopen_after_close [OF assms, of now opts t] by (auto simp: hist_ok_def inFlight_def)

theorem spool_close_open_witness:
  "let s = spool_run (demo_ops @ [Acknowledge 1]) demo_client in
   \<exists>q'. open_queue 9 demo_opts (q_disk (close_queue 8 (cl_queue s))) = Inr q' \<and>
     pending q' = [[4], [5, 6]]"
proof -
  define s where "s = spool_run (demo_ops @ [Acknowledge 1]) demo_client"
  have "pending (cl_queue s) = [[4], [5, 6]]"
    unfolding s_def by code_simp
  moreover have "hist_ok (cl_queue s) (cl_accepted s) (cl_acked s)"
    using spool.run_no_loss(1) [OF demo_hist _ refl, of "demo_ops @ [Acknowledge 1]"] demo_items
    by (auto simp: s_def demo_client_def)
  ultimately show ?thesis
    using spool_close_open [of "cl_queue s" "cl_accepted s" "cl_acked s" 9 demo_opts 8]
    by (auto simp: s_def [symmetric] Let_def)
qed

text \<open>
  The backlog never exceeds the quota: the byte counter stays within \<open>maxBytes\<close> over
  every run that starts within it.
\<close>

theorem spool_quota:
  assumes "hist_ok q h a" and "inFlight q = 0" and "int (q_bytes q) \<le> q_maxBytes q"
    and "\<forall>x. Enqueue x \<in> set ops \<longrightarrow> item_ok x"
    and "s = spool_run ops (client_start q h a)"
  shows "int (sum_list (map (\<lambda>r. headerSize + length r) (pending (cl_queue s)))) \<le> q_maxBytes (cl_queue s)"
proof -
  have start: "spool.sound (client_start q h a)"
    by (rule spool.sound_start [OF assms(1,2)])
  then have "spool.sound s"
    unfolding assms(5) using assms(4) by (intro spool.sound_run) auto
  then have ok: "q_ok (cl_queue s)"
    by (simp add: spool.sound_def hist_ok_def)
  have "length (rec_of (seg_content (cl_queue s)) e) = e_n e" if "e \<in> set (q_entries (cl_queue s))" for e
  proof -
    have "rec_at (seg_content (cl_queue s)) e"
      using ok that chain_rec_at unfolding q_ok_def by blast
    with rec_at_some rec_at_bytes(2) show ?thesis
      by blast
  qed
  then have "map (\<lambda>r. headerSize + length r) (pending (cl_queue s)) = map esize (q_entries (cl_queue s))"
    by (simp add: pending_def esize_def)
  moreover have "q_bytes (cl_queue s) = sum_list (map esize (q_entries (cl_queue s)))"
    using ok by (simp add: q_ok_def)
  moreover have "int (q_bytes (cl_queue s)) \<le> q_maxBytes (cl_queue s)"
    unfolding assms(5) using assms(3,4) by (intro run_bytes [OF start]) (auto simp: client_start_def)
  ultimately show ?thesis
    by simp
qed

theorem spool_quota_witness:
  "int (sum_list (map (\<lambda>r. headerSize + length r) (pending (cl_queue (spool_run demo_ops demo_client))))) \<le> 100"
proof -
  have "q_maxBytes (cl_queue (spool_run demo_ops demo_client)) = 100"
    by code_simp
  moreover have "int (q_bytes demo_queue) \<le> q_maxBytes demo_queue"
    by code_simp
  ultimately show ?thesis
    using spool_quota [OF demo_hist _ demo_items refl] by (simp add: demo_client_def)
qed

text \<open>
  When the segment of the stored cursor is gone, \<open>Open\<close> fails: the check for a missing
  file does not see through the wrapped error. The failed call stores the write position as
  the new cursor, so the next \<open>Open\<close> succeeds with an empty queue although unacknowledged
  records are on disk. The witness reaches this state with two appends, one delivery, one
  acknowledgement and a crash.
\<close>

theorem spool_crash_loses_backlog:
  assumes "map_of (d_segs d) s = Some fb" and "\<And>k. s < k \<Longrightarrow> map_of (d_segs d) k = None"
    and "map_of (d_segs d) (cur_seg (disk_cursor d)) = None" and "cur_seg (disk_cursor d) \<le> s"
    and "1 \<le> cur_seg (disk_cursor d)"
  shows "\<exists>d' q. open_queue now opts d = Inl (ErrWrapped ErrNotExist, d') \<and>
    open_queue now' opts' d' = Inr q \<and> pending q = []"
  by (rule open_without_cursor_segment [OF assms])

theorem spool_crash_loses_backlog_witness:
  "let s = spool_run (demo_ops @ [Acknowledge 1]) demo_client in
   pending (cl_queue s) = [[4], [5, 6]] \<and>
   (\<exists>d' q. open_queue 9 demo_opts (q_disk (cl_queue s)) = Inl (ErrWrapped ErrNotExist, d') \<and>
      open_queue 10 demo_opts d' = Inr q \<and> pending q = [])"
proof -
  define d where "d = q_disk (cl_queue (spool_run (demo_ops @ [Acknowledge 1]) demo_client))"
  have v: "d_segs d = [(2, [0, 0, 0, 1, 4, 0, 0, 0, 2, 5, 6])] \<and> disk_cursor d = Cursor 1 0 \<and>
      pending (cl_queue (spool_run (demo_ops @ [Acknowledge 1]) demo_client)) = [[4], [5, 6]]"
    unfolding d_def by code_simp
  with spool_crash_loses_backlog [of d 2 "[0, 0, 0, 1, 4, 0, 0, 0, 2, 5, 6]" 9 demo_opts 10 demo_opts]
  show ?thesis
    unfolding Let_def d_def [symmetric] by auto
qed

end
