(* ===== verification/Retention.thy ===== *)
theory Retention
  imports Spool_Recovery "HOL-Library.Multiset"
begin

text \<open>
  \<open>pkg/spool/retention.go\<close>: the archive mode of the disk queue, in which acknowledged
  segments stay on disk until the retention window has passed, and the replay of archived
  segments. A Go map is iterated in an unspecified order: the operations that loop over
  \<open>segMeta\<close> take the order as an argument.
\<close>

section \<open>The retention window\<close>

definition enableRetention :: "retention option \<Rightarrow> queue \<Rightarrow> queue" where
  "enableRetention r q = q\<lparr>q_retention := r\<rparr>"

definition segFullyConfirmed :: "nat \<Rightarrow> queue \<Rightarrow> queue \<times> bool" where
  "segFullyConfirmed seg q =
     (let head = readCur q in
      if seg < cur_seg head then (q, True)
      else if cur_seg head < seg then (q, False)
      else
        (case map_of (q_segMeta q) seg of
           Some m \<Rightarrow> (q, si_bytes m \<le> cur_off head)
         | None \<Rightarrow>
             (case fileFor seg q of
                (q, Inr bs) \<Rightarrow> (q, length bs \<le> cur_off head)
              | (q, Inl _) \<Rightarrow> (q, True))))"

definition confirmedBytes :: "queue \<Rightarrow> int" where
  "confirmedBytes q =
     sum_list (map (\<lambda>(seg, m). if snd (segFullyConfirmed seg q) then int (si_bytes m) else 0) (q_segMeta q))"

text \<open>One segment of the clean-up loop: queue, confirmed bytes left, segments removed.\<close>

definition enforceSeg :: "int \<Rightarrow> int \<Rightarrow> nat \<Rightarrow> queue \<times> int \<times> nat \<Rightarrow> queue \<times> int \<times> nat" where
  "enforceSeg cutoffMs maxBytes seg st =
     (case st of (q, tot, removed) \<Rightarrow>
        (case map_of (q_segMeta q) seg of
           None \<Rightarrow> st
         | Some m \<Rightarrow>
             (case segFullyConfirmed seg q of
                (q, confirmed) \<Rightarrow>
                  if \<not> confirmed then (q, tot, removed)
                  else
                    (let expired = 0 < cutoffMs \<and> 0 < si_lastMs m \<and> si_lastMs m < cutoffMs;
                         overBudget = 0 < maxBytes \<and> maxBytes < tot
                     in
                     if \<not> expired \<and> \<not> overBudget then (q, tot, removed)
                     else (dropSegment seg q, tot - int (si_bytes m), removed + 1)))))"

definition enforceRetention :: "nat list \<Rightarrow> time \<Rightarrow> queue \<Rightarrow> queue \<times> nat" where
  "enforceRetention order now q =
     (case q_retention q of
        None \<Rightarrow> (q, 0)
      | Some rt \<Rightarrow>
          if q_closed q then (q, 0)
          else
            (let cutoffMs = (if 0 < rt_maxAge rt then (now - rt_maxAge rt) div 1000000 else 0)
             in
             case fold (enforceSeg cutoffMs (rt_maxBytes rt)) order (q, confirmedBytes q, 0) of
               (q, _, removed) \<Rightarrow> (if 0 < removed then saveAllSegMeta q else q, removed)))"

record retention_stats =
  rs_segments :: nat
  rs_totalBytes :: int
  rs_confirmed :: int
  rs_pending :: int

definition retentionStats :: "queue \<Rightarrow> retention_stats" where
  "retentionStats q =
     (let tot = sum_list (map (\<lambda>(seg, m). int (si_bytes m)) (q_segMeta q)); conf = confirmedBytes q in
      \<lparr>rs_segments = length (q_segMeta q), rs_totalBytes = tot, rs_confirmed = conf, rs_pending = tot - conf\<rparr>)"

section \<open>Segment names\<close>

text \<open>\<open>fmt.Sprintf("seg-%09d", n)\<close>, and \<open>Sscanf\<close> with \<open>%d\<close>: blanks, then the leading digits.\<close>

definition segIDString :: "nat \<Rightarrow> string" where
  "segIDString seg = ''seg-'' @ replicate (9 - length (show_nat seg)) (CHR ''0'') @ show_nat seg"

definition trimPrefix :: "string \<Rightarrow> string \<Rightarrow> string" where
  "trimPrefix p s = (if take (length p) s = p then drop (length p) s else s)"

definition trimSuffix :: "string \<Rightarrow> string \<Rightarrow> string" where
  "trimSuffix p s =
     (if length p \<le> length s \<and> drop (length s - length p) s = p then take (length s - length p) s else s)"

definition is_digit :: "char \<Rightarrow> bool" where
  "is_digit c \<longleftrightarrow> 48 \<le> (of_char c :: nat) \<and> (of_char c :: nat) \<le> 57"

definition digits_value :: "string \<Rightarrow> nat" where
  "digits_value ds = foldl (\<lambda>n c. n * 10 + (of_char c - 48)) 0 ds"

definition blanks :: string where
  "blanks = [CHR '' '', CHR 0x09, CHR 0x0B, CHR 0x0C, CHR 0x0D]"

definition parseSegID :: "string \<Rightarrow> nat option" where
  "parseSegID segid =
     (let segid = trimSuffix ''.bin'' (trimPrefix ''seg-'' segid);
          ds = takeWhile is_digit (dropWhile (\<lambda>c. c \<in> set blanks) segid)
      in if ds = [] \<or> 18446744073709551615 < int (digits_value ds) then None else Some (digits_value ds))"

section \<open>Listing and replaying segments\<close>

record segment_info =
  sg_id :: string
  sg_firstMs :: int
  sg_lastMs :: int
  sg_packets :: nat
  sg_bytes :: nat
  sg_linkType :: u32

definition firstLinkType ::
  "(byte list \<Rightarrow> 'p option) \<Rightarrow> ('p \<Rightarrow> u32) \<Rightarrow> nat \<Rightarrow> queue \<Rightarrow> queue \<times> (spool_error + u32)"
where
  "firstLinkType unmarshal linkType seg q =
     (case fileFor seg q of
        (q, Inl e) \<Rightarrow> (q, Inl e)
      | (q, Inr bs) \<Rightarrow>
          (case read_at bs 0 headerSize of
             Inl e \<Rightarrow> (q, Inl e)
           | Inr hdr \<Rightarrow>
               (case read_at bs headerSize (unat (get32 hdr)) of
                  Inl e \<Rightarrow> (q, Inl e)
                | Inr body \<Rightarrow>
                    (case unmarshal body of None \<Rightarrow> (q, Inl ErrUnmarshal) | Some pkt \<Rightarrow> (q, Inr (linkType pkt))))))"

text \<open>The insertion of the last element: it moves left past the elements that start later.\<close>

fun insertLeft :: "segment_info \<Rightarrow> segment_info list \<Rightarrow> segment_info list" where
  "insertLeft x [] = [x]"
| "insertLeft x (y # rev_rest) =
     (if sg_firstMs x < sg_firstMs y then y # insertLeft x rev_rest else x # y # rev_rest)"

definition sortInfos :: "segment_info list \<Rightarrow> segment_info list" where
  "sortInfos infos = rev (foldl (\<lambda>acc x. insertLeft x acc) [] infos)"

definition segmentStep ::
  "(byte list \<Rightarrow> 'p option) \<Rightarrow> ('p \<Rightarrow> u32) \<Rightarrow> nat \<Rightarrow> queue \<times> segment_info list \<Rightarrow> queue \<times> segment_info list"
where
  "segmentStep unmarshal linkType seg st =
     (case st of (q, out) \<Rightarrow>
        (case map_of (q_segMeta q) seg of
           None \<Rightarrow> st
         | Some m \<Rightarrow>
             if si_packets m = 0 then st
             else
               (case firstLinkType unmarshal linkType seg q of
                  (q, r) \<Rightarrow>
                    (q, out @ [\<lparr>sg_id = segIDString seg, sg_firstMs = si_firstMs m, sg_lastMs = si_lastMs m,
                                sg_packets = si_packets m, sg_bytes = si_bytes m,
                                sg_linkType = (case r of Inr lt \<Rightarrow> lt | Inl _ \<Rightarrow> 0)\<rparr>]))))"

definition segments ::
  "(byte list \<Rightarrow> 'p option) \<Rightarrow> ('p \<Rightarrow> u32) \<Rightarrow> nat list \<Rightarrow> queue \<Rightarrow> queue \<times> segment_info list"
where
  "segments unmarshal linkType order q =
     (case fold (segmentStep unmarshal linkType) order (q, []) of (q, out) \<Rightarrow> (q, sortInfos out))"

text \<open>
  \<open>ReadSegment\<close>: the callback \<open>fn\<close> threads its own state and may stop the replay with an
  error. The file is read from the start while \<open>total < size\<close>; here the unread rest is kept.
\<close>

function readLoop ::
  "(byte list \<Rightarrow> 'p option) \<Rightarrow> ('p \<Rightarrow> 's \<Rightarrow> 's \<times> spool_error option) \<Rightarrow> byte list \<Rightarrow> 's \<Rightarrow> 's \<times> spool_error option"
where
  "readLoop unmarshal fn rest st =
     (if rest = [] \<or> length rest < headerSize then (st, None)
      else
        (let n = unat (get32 rest) in
         if n = 0 \<or> length rest < headerSize + n then (st, None)
         else
           (case unmarshal (take n (drop headerSize rest)) of
              None \<Rightarrow> (st, Some (ErrWrapped ErrUnmarshal))
            | Some pkt \<Rightarrow>
                (case fn pkt st of
                   (st, Some e) \<Rightarrow> (st, Some e)
                 | (st, None) \<Rightarrow> readLoop unmarshal fn (drop (headerSize + n) rest) st))))"
  by pat_completeness auto
termination
  by (relation "measure (\<lambda>(_, _, rest, _). length rest)") (auto simp: headerSize_def)

declare readLoop.simps [simp del]

datatype read_error = BadSegID | ReadErr spool_error

definition readSegment ::
  "(byte list \<Rightarrow> 'p option) \<Rightarrow> string \<Rightarrow> ('p \<Rightarrow> 's \<Rightarrow> 's \<times> spool_error option) \<Rightarrow> queue \<Rightarrow> 's \<Rightarrow>
   queue \<times> 's \<times> read_error option"
where
  "readSegment unmarshal segid fn q st =
     (case parseSegID segid of
        None \<Rightarrow> (q, st, Some BadSegID)
      | Some seg \<Rightarrow>
          (case fileFor seg q of
             (q, Inl e) \<Rightarrow> (q, st, Some (ReadErr (ErrWrapped e)))
           | (q, Inr bs) \<Rightarrow>
               (case readLoop unmarshal fn bs st of
                  (st, None) \<Rightarrow> (q, st, None)
                | (st, Some e) \<Rightarrow> (q, st, Some (ReadErr e)))))"

section \<open>Clean-up and the pending records\<close>

text \<open>
  The index entries are accurate when none of them says that a segment is shorter than it is.
\<close>

definition meta_ok :: "queue \<Rightarrow> bool" where
  "meta_ok q \<longleftrightarrow>
     (\<forall>seg m f. map_of (q_segMeta q) seg = Some m \<longrightarrow> seg_content q seg = Some f \<longrightarrow> length f \<le> si_bytes m)"

lemma segFullyConfirmed_meta:
  "map_of (q_segMeta q) seg = Some m \<Longrightarrow> fst (segFullyConfirmed seg q) = q"
  by (simp add: segFullyConfirmed_def Let_def)

lemma confirmed_before_head:
  assumes "q_ok q" and "q_entries q \<noteq> []" and "meta_ok q" and "map_of (q_segMeta q) seg = Some m"
    and "snd (segFullyConfirmed seg q)"
  shows "seg < cur_seg (readCur q)"
proof (rule ccontr)
  assume not: "\<not> seg < cur_seg (readCur q)"
  obtain e es where e: "q_entries q = e # es"
    using assms(2) by (cases "q_entries q") auto
  have head: "readCur q = Cursor (e_seg e) (e_off e)"
    by (simp add: readCur_def e)
  have conf: "seg = e_seg e" "si_bytes m \<le> e_off e"
    using assms(4,5) not by (auto simp: segFullyConfirmed_def Let_def head split: if_splits)
  have "rec_at (seg_content q) e"
    using assms(1) chain_rec_at e unfolding q_ok_def by fastforce
  then obtain f where f: "seg_content q (e_seg e) = Some f" "e_off e + esize e \<le> length f"
    by (auto simp: rec_at_def split: option.splits)
  with assms(3,4) conf have "length f \<le> e_off e"
    unfolding meta_ok_def by (metis le_trans)
  with f(2) show False
    by (simp add: esize_def headerSize_def)
qed

lemma dropSegment_keeps:
  assumes "q_ok q" and "seg < cur_seg (readCur q)"
  shows "q_ok (dropSegment seg q)" and "pending (dropSegment seg q) = pending q"
proof -
  define q1 where "q1 = dropSegment seg q"
  note fd = fold_drop [of "[seg]" q, simplified, folded q1_def]
  have sc: "seg_content q1 = (\<lambda>k. if k = seg then None else seg_content q k)"
    by (auto simp: q1_def)
  have w: "seg < cur_seg (q_wrCur q)"
    using assms q_ok_readCur_le [OF assms(1)] by linarith
  obtain f where f: "seg_content q (cur_seg (q_wrCur q)) = Some f"
    using assms(1) by (auto simp: q_ok_def write_ok_def)
  have ch0: "chain (seg_content q) (readCur q) (q_entries q) (q_wrCur q)"
    using assms(1) by (simp add: q_ok_def)
  have "chain (seg_content q1) (readCur q) (q_entries q) (q_wrCur q) \<and>
      (\<forall>e \<in> set (q_entries q). rec_of (seg_content q1) e = rec_of (seg_content q) e)"
    by (rule chain_extend [OF ch0 _ f, where ext = "[]"]) (use assms(2) w f in \<open>auto simp: sc\<close>)
  then have ch: "chain (seg_content q1) (readCur q) (q_entries q) (q_wrCur q)"
    and rc: "map (rec_of (seg_content q1)) (q_entries q) = map (rec_of (seg_content q)) (q_entries q)"
    using map_rec_of_cong by blast+
  have "write_ok q1"
    using assms(1) w fd by (auto simp: q_ok_def write_ok_def sc)
  with ch fd assms(1) show "q_ok (dropSegment seg q)"
    unfolding q1_def [symmetric] by (simp add: q_ok_def)
  from rc fd show "pending (dropSegment seg q) = pending q"
    unfolding q1_def [symmetric] by (simp add: pending_def)
qed

definition kept :: "queue \<Rightarrow> queue \<Rightarrow> bool" where
  "kept q0 q \<longleftrightarrow>
     q_ok q \<and> meta_ok q \<and> pending q = pending q0 \<and> q_entries q = q_entries q0 \<and> q_closed q = q_closed q0"

lemma enforceSeg_kept:
  assumes "kept q0 (fst st)" and "q_entries q0 \<noteq> []"
  shows "kept q0 (fst (enforceSeg cutoff mb seg st))"
proof -
  obtain q tot removed where st: "st = (q, tot, removed)"
    by (cases st)
  have k: "q_ok q" "meta_ok q" "q_entries q \<noteq> []"
    using assms by (simp_all add: st kept_def)
  show ?thesis
  proof (cases "map_of (q_segMeta q) seg")
    case None
    with assms show ?thesis
      by (simp add: enforceSeg_def st)
  next
    case (Some m)
    obtain b where b: "segFullyConfirmed seg q = (q, b)"
      using segFullyConfirmed_meta [OF Some] by (metis prod.collapse)
    show ?thesis
    proof (cases b)
      case False
      with assms Some b show ?thesis
        by (simp add: enforceSeg_def st)
    next
      case True
      with confirmed_before_head [OF k(1,3,2) Some] b have "seg < cur_seg (readCur q)"
        by simp
      note keep = dropSegment_keeps [OF k(1) this]
      have "meta_ok (dropSegment seg q)"
        using k(2) by (auto simp: meta_ok_def dropSegment_def seg_content_conv delete_conv split: if_splits)
      with keep assms Some b show ?thesis
        by (simp add: enforceSeg_def st kept_def Let_def) (simp add: dropSegment_def)
    qed
  qed
qed

lemma enforce_fold_kept:
  "kept q0 (fst st) \<Longrightarrow> q_entries q0 \<noteq> [] \<Longrightarrow> kept q0 (fst (fold (enforceSeg cutoff mb) order st))"
  by (induction order arbitrary: st) (simp_all add: enforceSeg_kept)

lemma saveAllSegMeta_sel [simp]:
  "seg_content (saveAllSegMeta q) = seg_content q" "q_entries (saveAllSegMeta q) = q_entries q"
  "q_wrCur (saveAllSegMeta q) = q_wrCur q" "q_files (saveAllSegMeta q) = q_files q"
  "q_wrFile (saveAllSegMeta q) = q_wrFile q" "q_closed (saveAllSegMeta q) = q_closed q"
  "q_nextIdx (saveAllSegMeta q) = q_nextIdx q" "q_bytes (saveAllSegMeta q) = q_bytes q"
  "q_segMeta (saveAllSegMeta q) = q_segMeta q" "readCur (saveAllSegMeta q) = readCur q"
  "pending (saveAllSegMeta q) = pending q" "q_maxBytes (saveAllSegMeta q) = q_maxBytes q"
  "q_segBytes (saveAllSegMeta q) = q_segBytes q"
  by (simp_all add: saveAllSegMeta_def seg_content_conv pending_def)

lemma enforce_keeps:
  assumes "q_ok q" and "meta_ok q" and "q_entries q \<noteq> []"
  shows "q_ok (fst (enforceRetention order now q)) \<and> pending (fst (enforceRetention order now q)) = pending q"
proof (cases "q_retention q")
  case (Some rt)
  define c where "c = (if 0 < rt_maxAge rt then (now - rt_maxAge rt) div 1000000 else 0)"
  define r where "r = fold (enforceSeg c (rt_maxBytes rt)) order (q, confirmedBytes q, 0)"
  have "kept q (fst r)"
    unfolding r_def using assms by (intro enforce_fold_kept) (simp_all add: kept_def)
  then have "q_ok (fst r)" "pending (fst r) = pending q"
    by (simp_all add: kept_def)
  moreover have "q_ok (saveAllSegMeta q') = q_ok q'" for q'
    by (simp add: q_ok_def write_ok_def)
  moreover have "\<not> q_closed q"
    using assms(1) by (simp add: q_ok_def write_ok_def)
  ultimately show ?thesis
    using Some by (simp add: enforceRetention_def Let_def c_def [symmetric] r_def [symmetric] split: prod.splits) force
qed (use assms in \<open>simp add: enforceRetention_def\<close>)

text \<open>
  The segment the read cursor is in is removed as soon as its index entry does not reach
  beyond the cursor and its packets have expired.
\<close>

definition seg_gone :: "nat \<Rightarrow> queue \<Rightarrow> bool" where
  "seg_gone seg q \<longleftrightarrow> seg \<notin> set (q_files q) \<and> seg_content q seg = None"

definition head_state :: "queue \<Rightarrow> seg_info \<Rightarrow> queue \<Rightarrow> bool" where
  "head_state q0 m q \<longleftrightarrow>
     readCur q = readCur q0 \<and> q_entries q = q_entries q0 \<and> q_wrCur q = q_wrCur q0 \<and>
     q_wrFile q = q_wrFile q0 \<and> q_closed q = q_closed q0 \<and> q_maxBytes q = q_maxBytes q0 \<and>
     q_segBytes q = q_segBytes q0 \<and> q_bytes q = q_bytes q0 \<and> q_nextIdx q = q_nextIdx q0 \<and>
     (map_of (q_segMeta q) (cur_seg (readCur q0)) = Some m \<or> seg_gone (cur_seg (readCur q0)) q)"

lemma head_state_drop:
  assumes "head_state q0 m q"
  shows "seg \<noteq> cur_seg (readCur q0) \<Longrightarrow> head_state q0 m (dropSegment seg q)"
    and "seg = cur_seg (readCur q0) \<Longrightarrow> head_state q0 m (dropSegment seg q) \<and> seg_gone seg (dropSegment seg q)"
proof -
  have "readCur (dropSegment seg q) = readCur q"
    using fold_drop [of "[seg]" q] by simp
  moreover have "q_segBytes (dropSegment seg q) = q_segBytes q" "q_entries (dropSegment seg q) = q_entries q"
    "q_wrCur (dropSegment seg q) = q_wrCur q" "q_wrFile (dropSegment seg q) = q_wrFile q"
    "q_closed (dropSegment seg q) = q_closed q" "q_maxBytes (dropSegment seg q) = q_maxBytes q"
    "q_bytes (dropSegment seg q) = q_bytes q" "q_nextIdx (dropSegment seg q) = q_nextIdx q"
    "set (q_files (dropSegment seg q)) = set (q_files q) - {seg}"
    "map_of (q_segMeta (dropSegment seg q)) k = (if k = seg then None else map_of (q_segMeta q) k)" for k
    by (auto simp: dropSegment_def delete_conv)
  ultimately show "seg \<noteq> cur_seg (readCur q0) \<Longrightarrow> head_state q0 m (dropSegment seg q)"
    "seg = cur_seg (readCur q0) \<Longrightarrow> head_state q0 m (dropSegment seg q) \<and> seg_gone seg (dropSegment seg q)"
    using assms(1) by (auto simp: head_state_def seg_gone_def)
qed

lemma enforceSeg_head:
  assumes "head_state q0 m (fst st)" and "si_bytes m \<le> cur_off (readCur q0)"
    and "0 < si_lastMs m" and "si_lastMs m < cutoff"
  shows "head_state q0 m (fst (enforceSeg cutoff mb seg st)) \<and>
    (seg = cur_seg (readCur q0) \<or> seg_gone (cur_seg (readCur q0)) (fst st) \<longrightarrow>
       seg_gone (cur_seg (readCur q0)) (fst (enforceSeg cutoff mb seg st)))"
proof -
  define h where "h = cur_seg (readCur q0)"
  obtain q tot removed where st: "st = (q, tot, removed)"
    by (cases st)
  have hs: "head_state q0 m q"
    using assms(1) by (simp add: st)
  note dr = head_state_drop [OF hs, of seg, folded h_def]
  have keep: "seg_gone h (dropSegment seg q)" if "seg_gone h q"
    using that by (auto simp: seg_gone_def dropSegment_def seg_content_conv delete_conv)
  show ?thesis
  proof (cases "map_of (q_segMeta q) seg")
    case None
    with hs show ?thesis
      by (auto simp: enforceSeg_def st head_state_def h_def)
  next
    case (Some m')
    obtain b where b: "segFullyConfirmed seg q = (q, b)"
      using segFullyConfirmed_meta [OF Some] by (metis prod.collapse)
    show ?thesis
    proof (cases "seg = h \<and> m' = m")
      case True
      then have b
        using b Some assms(2) hs by (auto simp: segFullyConfirmed_def Let_def h_def head_state_def)
      with True Some b assms(3,4) dr show ?thesis
        by (auto simp: enforceSeg_def st Let_def h_def)
    next
      case False
      with Some hs have "seg_gone h q \<or> seg \<noteq> h"
        by (auto simp: head_state_def h_def)
      with Some b dr keep hs show ?thesis
        by (cases "seg = h") (auto simp: enforceSeg_def st Let_def h_def split: prod.splits)
    qed
  qed
qed

lemma enforce_fold_head:
  assumes "head_state q0 m (fst st)" and "si_bytes m \<le> cur_off (readCur q0)"
    and "0 < si_lastMs m" and "si_lastMs m < cutoff"
  shows "head_state q0 m (fst (fold (enforceSeg cutoff mb) order st)) \<and>
    (cur_seg (readCur q0) \<in> set order \<or> seg_gone (cur_seg (readCur q0)) (fst st) \<longrightarrow>
       seg_gone (cur_seg (readCur q0)) (fst (fold (enforceSeg cutoff mb) order st)))"
  using assms(1)
proof (induction order arbitrary: st)
  case (Cons seg order)
  from enforceSeg_head [OF Cons.prems assms(2-4), of mb seg] Cons.IH [of "enforceSeg cutoff mb seg st"]
  show ?case
    by auto
qed simp

lemma enforce_head:
  assumes "\<not> q_closed q" and "q_retention q = Some rt" and "0 < rt_maxAge rt"
    and "map_of (q_segMeta q) (cur_seg (readCur q)) = Some m" and "si_bytes m \<le> cur_off (readCur q)"
    and "0 < si_lastMs m" and "si_lastMs m < (now - rt_maxAge rt) div 1000000"
    and "cur_seg (readCur q) \<in> set order"
  shows "head_state q m (fst (enforceRetention order now q))"
    and "seg_gone (cur_seg (readCur q)) (fst (enforceRetention order now q))"
proof -
  define c where "c = (now - rt_maxAge rt) div 1000000"
  define r where "r = fold (enforceSeg c (rt_maxBytes rt)) order (q, confirmedBytes q, 0)"
  have "head_state q m (fst r)" "seg_gone (cur_seg (readCur q)) (fst r)"
    using enforce_fold_head [of q m "(q, confirmedBytes q, 0)" c "rt_maxBytes rt" order] assms
    by (auto simp: r_def c_def head_state_def)
  moreover have "fst (enforceRetention order now q) = fst r \<or> fst (enforceRetention order now q) = saveAllSegMeta (fst r)"
    using assms(1-3) by (simp add: enforceRetention_def Let_def c_def [symmetric] r_def [symmetric] split: prod.splits)
  ultimately show "head_state q m (fst (enforceRetention order now q))"
    "seg_gone (cur_seg (readCur q)) (fst (enforceRetention order now q))"
    by (auto simp: head_state_def seg_gone_def)
qed

section \<open>Replay\<close>

text \<open>What the replay of a list of packets does: the callback in order, until it refuses.\<close>

fun replay :: "('p \<Rightarrow> 's \<Rightarrow> 's \<times> spool_error option) \<Rightarrow> 'p list \<Rightarrow> 's \<Rightarrow> 's \<times> spool_error option" where
  "replay fn [] st = (st, None)"
| "replay fn (p # ps) st = (case fn p st of (st, Some e) \<Rightarrow> (st, Some e) | (st, None) \<Rightarrow> replay fn ps st)"

lemma get32_enc: "record_ok r \<Longrightarrow> unat (get32 (enc_record r @ bs)) = length r"
  using record_ok_bounds [of r] by (simp add: enc_record_def get32_be32 unat_of_nat32)

lemma readLoop_torn:
  assumes "j < length (enc_record r)" and "record_ok r"
  shows "readLoop u fn (take j (enc_record r)) st = (st, None)"
proof (cases "j < headerSize")
  case True
  then show ?thesis
    by (subst readLoop.simps) auto
next
  case False
  then have t: "take j (enc_record r) = be32 (of_nat (length r)) @ take (j - headerSize) r"
    by (simp add: enc_record_def)
  then have "unat (get32 (take j (enc_record r))) = length r"
    using record_ok_bounds [OF assms(2)] by (simp add: get32_be32 unat_of_nat32)
  with assms False show ?thesis
    by (subst readLoop.simps) (auto simp: Let_def enc_record_def)
qed

lemma readLoop_records:
  assumes "\<forall>r \<in> set rs. record_ok r" and "map u rs = map Some ps"
    and "readLoop u fn rest = (\<lambda>st. (st, None))"
  shows "readLoop u fn (concat (map enc_record rs) @ rest) st = replay fn ps st"
  using assms
proof (induction rs arbitrary: ps st)
  case (Cons r rs)
  then obtain p ps' where ps: "ps = p # ps'" "u r = Some p" "map u rs = map Some ps'"
    by (cases ps) auto
  define more where "more = concat (map enc_record rs) @ rest"
  have n: "unat (get32 (enc_record r @ more)) = length r" "0 < length r"
    using get32_enc record_ok_bounds Cons.prems(1) by auto
  have "readLoop u fn (enc_record r @ more) st =
      (case fn p st of (st, Some e) \<Rightarrow> (st, Some e) | (st, None) \<Rightarrow> readLoop u fn more st)"
  proof -
    have "enc_record r @ more \<noteq> []" "\<not> length (enc_record r @ more) < headerSize + length r"
      "take (length r) (drop headerSize (enc_record r @ more)) = r"
      "drop (headerSize + length r) (enc_record r @ more) = more"
      using n(2) by (simp_all add: enc_record_def)
    with n ps(2) show ?thesis
      by (subst readLoop.simps) (simp only: Let_def, simp)
  qed
  with Cons.IH [OF _ ps(3) Cons.prems(3)] Cons.prems(1) ps(1) show ?case
    by (simp add: more_def split: prod.splits option.splits)
qed simp

text \<open>Segment names parse back.\<close>

lemma is_digit_digit_char: "d < 10 \<Longrightarrow> is_digit (digit_char d)"
  by (simp add: is_digit_def digit_char_def)

lemma show_nat_digits: "\<forall>c \<in> set (show_nat n). is_digit c"
proof (induction n rule: show_nat.induct)
  case (1 n)
  then show ?case
    by (subst show_nat.simps) (auto simp: is_digit_digit_char)
qed

lemma digits_value_snoc: "digits_value (ds @ [c]) = digits_value ds * 10 + (of_char c - 48)"
  by (simp add: digits_value_def)

lemma digits_value_show: "digits_value (show_nat n) = n"
proof (induction n rule: show_nat.induct)
  case (1 n)
  show ?case
  proof (cases "n < 10")
    case True
    then show ?thesis
      by (subst show_nat.simps) (simp add: digits_value_def digit_char_def)
  next
    case False
    have "n mod 10 < 10"
      by simp
    with False 1 show ?thesis
      by (subst show_nat.simps) (simp add: digits_value_snoc, simp add: digit_char_def)
  qed
qed

lemma digits_value_zeros: "digits_value (replicate k (CHR ''0'') @ ds) = digits_value ds"
  by (induction k) (simp_all add: digits_value_def)

lemma parseSegID_segIDString:
  assumes "int n \<le> 18446744073709551615"
  shows "parseSegID (segIDString n) = Some n"
proof -
  define ds where "ds = replicate (9 - length (show_nat n)) (CHR ''0'') @ show_nat n"
  have dig: "\<forall>c \<in> set ds. is_digit c"
    using show_nat_digits by (auto simp: ds_def is_digit_def)
  have ne: "ds \<noteq> []"
    by (simp add: ds_def)
  have val: "digits_value ds = n"
    by (simp add: ds_def digits_value_zeros digits_value_show)
  have "\<not> is_digit (CHR ''n'')"
    by (simp add: is_digit_def)
  then have nd: "drop k ds \<noteq> ''.bin''" for k
    using dig by (metis in_set_dropD list.set_intros)
  have suf: "trimSuffix ''.bin'' ds = ds"
    unfolding trimSuffix_def by (simp only: nd simp_thms if_False)
  have bl: "dropWhile (\<lambda>c. c \<in> set blanks) ds = ds"
  proof -
    have "\<forall>c \<in> set ds. c \<notin> set blanks"
      using dig by (auto simp: blanks_def is_digit_def)
    then show ?thesis
      using ne by (cases ds) auto
  qed
  have tw: "takeWhile is_digit ds = ds"
    using dig by (simp add: takeWhile_eq_all_conv)
  have "segIDString n = ''seg-'' @ ds"
    by (simp add: segIDString_def ds_def)
  then show ?thesis
    using assms ne val by (simp add: parseSegID_def Let_def trimPrefix_def suf bl tw)
qed

lemma insertLeft_sorted:
  "sorted_wrt (\<lambda>x y. sg_firstMs y \<le> sg_firstMs x) acc \<Longrightarrow>
   sorted_wrt (\<lambda>x y. sg_firstMs y \<le> sg_firstMs x) (insertLeft x acc) \<and> mset (insertLeft x acc) = add_mset x (mset acc)"
proof (induction acc)
  case (Cons y acc)
  have "set (insertLeft x acc) = insert x (set acc)"
    by (induction acc) auto
  with Cons show ?case
    by (auto intro: order.trans)
qed simp

lemma sortInfos_fold:
  "sorted_wrt (\<lambda>x y. sg_firstMs y \<le> sg_firstMs x) acc \<Longrightarrow>
   sorted_wrt (\<lambda>x y. sg_firstMs y \<le> sg_firstMs x) (foldl (\<lambda>acc x. insertLeft x acc) acc infos) \<and>
   mset (foldl (\<lambda>acc x. insertLeft x acc) acc infos) = mset acc + mset infos"
  using insertLeft_sorted by (induction infos arbitrary: acc) auto

lemma sortInfos_ok:
  "sorted (map sg_firstMs (sortInfos infos)) \<and> mset (sortInfos infos) = mset infos"
  using sortInfos_fold [of "[]" infos] by (simp add: sortInfos_def sorted_map sorted_wrt_rev)

section \<open>Properties\<close>

text \<open>
  Three runs for the witnesses. The first leaves an acknowledged segment behind one that
  still has pending records, the second drains the queue, the third loses the index files in
  a crash.
\<close>

definition arch_opts :: options where
  "arch_opts = demo_opts\<lparr>opt_retention := Some \<lparr>rt_maxAge = 1000000, rt_maxBytes = 0\<rparr>\<rparr>"

definition arch_queue :: queue where
  "arch_queue = (case open_queue 0 arch_opts empty_disk of Inr q \<Rightarrow> q | Inl (_, d) \<Rightarrow> new_queue 0 arch_opts d)"

definition arch_ops :: "(time \<times> int \<times> byte list) client_op list" where
  "arch_ops = [Enqueue (1, 5000000, [1, 2, 3]), Enqueue (2, 6000000, [4]), Deliver 1, Acknowledge 1]"

definition arch_kept :: queue where
  "arch_kept = cl_queue (spool_run arch_ops (client_start arch_queue [] 0))"

definition arch_drained :: queue where
  "arch_drained = ackN 1 (fst (next_pkts Some 1 (fst (append_rec 1 5000000 [7] arch_queue))))"

definition arch_crashed :: queue where
  "arch_crashed =
     (case open_queue 3 arch_opts
             ((q_disk (fst (append_rec 1 5000000 [7] arch_queue)))\<lparr>d_mtime := (\<lambda>_. 5)\<rparr>) of
        Inr q \<Rightarrow> q | Inl (_, d) \<Rightarrow> new_queue 0 arch_opts d)"

text \<open>
  (C5) The clean-up keeps every unconfirmed record: while records are pending and the index
  of each segment covers its file, \<open>EnforceRetention\<close> leaves the pending records and the
  invariant of the queue as they are, for every iteration order of the segment map.
\<close>

theorem retention_keeps_pending:
  assumes "q_ok q" and "meta_ok q" and "q_entries q \<noteq> []"
  shows "q_ok (fst (enforceRetention order now q)) \<and> pending (fst (enforceRetention order now q)) = pending q"
  by (rule enforce_keeps [OF assms])

theorem retention_keeps_pending_witness:
  "snd (enforceRetention [2, 1] 10000000000 arch_kept) = 1 \<and>
   pending (fst (enforceRetention [2, 1] 10000000000 arch_kept)) = [[4]]"
proof -
  have "hist_ok arch_queue [] 0" "inFlight arch_queue = 0"
    using open_empty [of 0 arch_opts] by (auto simp: arch_queue_def inFlight_def)
  then have "hist_ok arch_kept (cl_accepted (spool_run arch_ops (client_start arch_queue [] 0)))
      (cl_acked (spool_run arch_ops (client_start arch_queue [] 0)))"
    unfolding arch_kept_def
    by (intro spool.run_no_loss(1) [OF _ _ _ refl]) (auto simp: arch_ops_def item_ok_def record_ok_def)
  then have ok: "q_ok arch_kept"
    by (simp add: hist_ok_def)
  have "q_segMeta arch_kept =
      [(1, \<lparr>si_firstMs = 5, si_lastMs = 5, si_packets = 1, si_bytes = 7\<rparr>),
       (2, \<lparr>si_firstMs = 6, si_lastMs = 6, si_packets = 1, si_bytes = 5\<rparr>)] \<and>
     d_segs (q_disk arch_kept) = [(1, [0, 0, 0, 3, 1, 2, 3]), (2, [0, 0, 0, 1, 4])] \<and>
     q_entries arch_kept \<noteq> [] \<and> pending arch_kept = [[4]] \<and>
     snd (enforceRetention [2, 1] 10000000000 arch_kept) = 1"
    by code_simp
  then have m: "meta_ok arch_kept" and ne: "q_entries arch_kept \<noteq> []" and p: "pending arch_kept = [[4]]"
    and n: "snd (enforceRetention [2, 1] 10000000000 arch_kept) = 1"
    by (auto simp: meta_ok_def seg_content_def split: if_splits)
  from retention_keeps_pending [OF ok m ne, of "[2, 1]" 10000000000] p n show ?thesis
    by simp
qed

text \<open>
  The clean-up removes the segment that is being written once the queue is drained and
  its packets have expired; the write handle is closed with it, and every later append that
  would go to this segment fails.
\<close>

theorem retention_closes_writer:
  assumes "q_entries q = []" and "\<not> q_closed q" and "q_wrFile q = Some (cur_seg (q_wrCur q))"
    and "q_retention q = Some rt" and "0 < rt_maxAge rt"
    and "map_of (q_segMeta q) (cur_seg (q_wrCur q)) = Some m" and "si_bytes m \<le> cur_off (q_wrCur q)"
    and "0 < si_lastMs m" and "si_lastMs m < (now - rt_maxAge rt) div 1000000"
    and "cur_seg (q_wrCur q) \<in> set order"
    and "int (cur_off (q_wrCur q)) < q_segBytes q" and "append_fits rec q"
  shows "snd (append_rec now' ts rec (fst (enforceRetention order now q))) = Inl ErrWriteClosed"
proof -
  have head: "readCur q = q_wrCur q"
    using assms(1) by (simp add: readCur_def)
  define q1 where "q1 = fst (enforceRetention order now q)"
  have "head_state q m q1" "seg_gone (cur_seg (q_wrCur q)) q1"
    using enforce_head [of q rt m now order] assms(2,4-10) by (simp_all add: head q1_def)
  then have "writeRecord now' rec q1 = (q1, Inl ErrWriteClosed)" "\<not> q_closed q1"
    "append_fits rec q1"
    using assms by (simp_all add: writeRecord_def head_state_def seg_gone_def append_fits_def)
  then show ?thesis
    by (auto simp: append_rec_def append_fits_def Let_def q1_def [symmetric])
qed

theorem retention_closes_writer_witness:
  "snd (append_rec 20 8000000 [9] (fst (enforceRetention [1] 10000000000 arch_drained))) = Inl ErrWriteClosed"
proof -
  have "q_entries arch_drained = [] \<and> \<not> q_closed arch_drained \<and> q_wrFile arch_drained = Some 1 \<and>
      q_wrCur arch_drained = Cursor 1 5 \<and>
      q_retention arch_drained = Some \<lparr>rt_maxAge = 1000000, rt_maxBytes = 0\<rparr> \<and>
      q_segMeta arch_drained = [(1, \<lparr>si_firstMs = 5, si_lastMs = 5, si_packets = 1, si_bytes = 5\<rparr>)] \<and>
      q_segBytes arch_drained = 6 \<and> append_fits [9] arch_drained"
    by code_simp
  then show ?thesis
    using retention_closes_writer [of arch_drained "\<lparr>rt_maxAge = 1000000, rt_maxBytes = 0\<rparr>"
        "\<lparr>si_firstMs = 5, si_lastMs = 5, si_packets = 1, si_bytes = 5\<rparr>" 10000000000 "[1]" "[9]" 20 8000000]
    by simp
qed

text \<open>
  An index that is missing after a crash makes the clean-up delete unconfirmed data: a
  segment without index file counts as empty, so it is taken for confirmed although the
  first pending record lies in it, and delivering that record fails from then on.
\<close>

theorem retention_drops_unconfirmed:
  assumes "q_entries q = e # es" and "q_nextIdx q = 0" and "\<not> q_closed q"
    and "q_retention q = Some rt" and "0 < rt_maxAge rt"
    and "map_of (q_segMeta q) (e_seg e) = Some m" and "si_bytes m = 0"
    and "0 < si_lastMs m" and "si_lastMs m < (now - rt_maxAge rt) div 1000000" and "e_seg e \<in> set order"
  shows "snd (next_pkts u n (fst (enforceRetention order now q))) = Inl (ErrWrapped ErrNotExist)"
proof -
  have head: "readCur q = Cursor (e_seg e) (e_off e)"
    using assms(1) by (simp add: readCur_def)
  define q1 where "q1 = fst (enforceRetention order now q)"
  have "head_state q m q1" "seg_gone (e_seg e) q1"
    using enforce_head [of q rt m now order] assms by (simp_all add: head q1_def)
  then show ?thesis
    using assms(1,2)
    by (simp add: next_pkts_def Let_def head_state_def seg_gone_def fileFor_def flip: q1_def)
qed

theorem retention_drops_unconfirmed_witness:
  "pending arch_crashed = [[7]] \<and>
   snd (next_pkts Some 1 (fst (enforceRetention [1] 10000000000 arch_crashed))) = Inl (ErrWrapped ErrNotExist)"
proof -
  have "q_entries arch_crashed = [\<lparr>e_seg = 1, e_off = 0, e_n = 1\<rparr>] \<and> q_nextIdx arch_crashed = 0 \<and>
      \<not> q_closed arch_crashed \<and> pending arch_crashed = [[7]] \<and>
      q_retention arch_crashed = Some \<lparr>rt_maxAge = 1000000, rt_maxBytes = 0\<rparr> \<and>
      q_segMeta arch_crashed = [(1, \<lparr>si_firstMs = 5, si_lastMs = 5, si_packets = 0, si_bytes = 0\<rparr>)]"
    by code_simp
  then show ?thesis
    using retention_drops_unconfirmed [of arch_crashed "\<lparr>e_seg = 1, e_off = 0, e_n = 1\<rparr>" "[]"
        "\<lparr>rt_maxAge = 1000000, rt_maxBytes = 0\<rparr>"
        "\<lparr>si_firstMs = 5, si_lastMs = 5, si_packets = 0, si_bytes = 0\<rparr>" 10000000000 "[1]" Some 1]
    by simp
qed

text \<open>
  Replay is faithful: for a segment whose file holds the records \<open>rs\<close>, possibly
  followed by a torn one, \<open>ReadSegment\<close> under the printed name of the segment calls back with
  exactly the packets of \<open>rs\<close>, in the order they were written, until the callback refuses.
\<close>

theorem replay_faithful:
  assumes "seg_content q seg = Some (concat (map enc_record rs) @ take j (enc_record r))"
    and "j < length (enc_record r)" and "record_ok r" and "\<forall>r \<in> set rs. record_ok r"
    and "map unmarshal rs = map Some ps" and "int seg \<le> 18446744073709551615"
  shows "snd (readSegment unmarshal (segIDString seg) fn q st) =
    (case replay fn ps st of (st, e) \<Rightarrow> (st, map_option ReadErr e))"
proof -
  have "readLoop unmarshal fn (take j (enc_record r)) = (\<lambda>st. (st, None))"
    using readLoop_torn [OF assms(2,3)] by (intro ext)
  from readLoop_records [OF assms(4,5) this] show ?thesis
    using assms(1)
    by (simp add: readSegment_def parseSegID_segIDString [OF assms(6)] fileFor_def split: prod.splits option.splits)
qed

theorem replay_faithful_witness:
  "snd (readSegment Some (segIDString 1) (\<lambda>p st. (st @ [p], None)) arch_kept []) = ([[1, 2, 3]], None)"
proof -
  have "seg_content arch_kept 1 = Some (concat (map enc_record [[1, 2, 3]]) @ take 0 (enc_record [1]))"
    by code_simp
  from replay_faithful [OF this, of Some "[[1, 2, 3]]" "\<lambda>p st. (st @ [p], None)" "[]"] show ?thesis
    by (simp add: record_ok_def enc_record_def headerSize_def)
qed

text \<open>
  \<open>Segments\<close> lists the archive in order of time: the list is sorted by the first
  packet, and the sorting neither loses nor invents an entry.
\<close>

theorem segments_sorted:
  "sorted (map sg_firstMs (snd (segments unmarshal linkType order q))) \<and>
   mset (snd (segments unmarshal linkType order q)) =
     mset (snd (fold (segmentStep unmarshal linkType) order (q, [])))"
  by (simp add: segments_def sortInfos_ok split: prod.splits)

end
