(* ===== verification/Event_Value.thy ===== *)
theory Event_Value
  imports GT_Prelude "HOL-Library.AList"
begin

text \<open>
  \<open>pkg/event/value.go\<close>, \<open>value_conv.go\<close> and \<open>value_msgpack.go\<close>: the tagged union that carries
  the payload of every event, its accessors, its updates and its MsgPack form.

  A Go map is an association list with distinct keys (\<open>wf_value\<close>); the order of the list is
  the iteration order of one run, so a result that does not depend on it is stated with
  \<open>map_of\<close>. Floats are their 64-bit patterns, and \<open>==\<close> on them is the comparison of IEEE 754.
\<close>

section \<open>Values\<close>

datatype valueKind = KNull | KBool | KInt | KUint | KFloat | KString | KBytes | KArray | KObject

datatype vval =
  VNull
| VBool bool
| VInt u64
| VUint u64
| VFloat u64
| VString string
| VBytes "byte list"
| VArray "vval list"
| VObject "(string \<times> vval) list"

definition kindString :: "valueKind \<Rightarrow> string" where
  "kindString k =
     (case k of KNull \<Rightarrow> ''null'' | KBool \<Rightarrow> ''bool'' | KInt \<Rightarrow> ''int'' | KUint \<Rightarrow> ''uint'' | KFloat \<Rightarrow> ''float''
      | KString \<Rightarrow> ''string'' | KBytes \<Rightarrow> ''bytes'' | KArray \<Rightarrow> ''array'' | KObject \<Rightarrow> ''object'')"

definition kind :: "vval \<Rightarrow> valueKind" where
  "kind v =
     (case v of VNull \<Rightarrow> KNull | VBool _ \<Rightarrow> KBool | VInt _ \<Rightarrow> KInt | VUint _ \<Rightarrow> KUint | VFloat _ \<Rightarrow> KFloat
      | VString _ \<Rightarrow> KString | VBytes _ \<Rightarrow> KBytes | VArray _ \<Rightarrow> KArray | VObject _ \<Rightarrow> KObject)"

definition isNull :: "vval \<Rightarrow> bool" where
  "isNull v \<longleftrightarrow> kind v = KNull"

definition asBool :: "vval \<Rightarrow> bool option" where
  "asBool v = (case v of VBool b \<Rightarrow> Some b | _ \<Rightarrow> None)"

definition asInt :: "vval \<Rightarrow> u64 option" where
  "asInt v =
     (case v of
        VInt i \<Rightarrow> Some i
      | VUint u \<Rightarrow> if u \<le> drop_bit 1 (- 1) then Some u else None
      | _ \<Rightarrow> None)"

definition asUint :: "vval \<Rightarrow> u64 option" where
  "asUint v =
     (case v of
        VUint u \<Rightarrow> Some u
      | VInt i \<Rightarrow> if 0 \<le> sint i then Some i else None
      | _ \<Rightarrow> None)"

definition asString :: "vval \<Rightarrow> string option" where
  "asString v = (case v of VString s \<Rightarrow> Some s | _ \<Rightarrow> None)"

definition asBytes :: "vval \<Rightarrow> byte list option" where
  "asBytes v = (case v of VBytes b \<Rightarrow> Some b | _ \<Rightarrow> None)"

definition asArray :: "vval \<Rightarrow> vval list option" where
  "asArray v = (case v of VArray a \<Rightarrow> Some a | _ \<Rightarrow> None)"

definition asObject :: "vval \<Rightarrow> (string \<times> vval) list option" where
  "asObject v = (case v of VObject m \<Rightarrow> Some m | _ \<Rightarrow> None)"

definition get_key :: "string \<Rightarrow> vval \<Rightarrow> vval option" where
  "get_key key v = (case v of VObject m \<Rightarrow> map_of m key | _ \<Rightarrow> None)"

text \<open>\<open>strings.Split(path, ".")\<close>: never empty.\<close>

fun splitDot :: "string \<Rightarrow> string list" where
  "splitDot [] = [[]]"
| "splitDot (c # cs) =
     (if c = CHR ''.'' then [] # splitDot cs
      else (case splitDot cs of p # ps \<Rightarrow> (c # p) # ps | [] \<Rightarrow> [[c]]))"

fun getParts :: "string list \<Rightarrow> vval \<Rightarrow> vval option" where
  "getParts [] cur = Some cur"
| "getParts (p # ps) cur =
     (case asObject cur of
        None \<Rightarrow> None
      | Some obj \<Rightarrow> (case map_of obj p of None \<Rightarrow> None | Some nxt \<Rightarrow> getParts ps nxt))"

definition getByPath :: "string \<Rightarrow> vval \<Rightarrow> vval option" where
  "getByPath path v = getParts (splitDot path) v"

definition index_val :: "int \<Rightarrow> vval \<Rightarrow> vval option" where
  "index_val i v =
     (case v of VArray a \<Rightarrow> if i < 0 \<or> int (length a) \<le> i then None else Some (a ! nat i) | _ \<Rightarrow> None)"

definition len_val :: "vval \<Rightarrow> nat" where
  "len_val v =
     (case v of VArray a \<Rightarrow> length a | VObject m \<Rightarrow> length m | VString s \<Rightarrow> length s | VBytes b \<Rightarrow> length b | _ \<Rightarrow> 0)"

text \<open>IEEE 754 comparison on bit patterns: a NaN equals nothing, the two zeros are equal.\<close>

definition is_nan :: "u64 \<Rightarrow> bool" where
  "is_nan w \<longleftrightarrow> 0x7FF0000000000000 < (take_bit 63 w :: u64)"

definition float_eq :: "u64 \<Rightarrow> u64 \<Rightarrow> bool" where
  "float_eq a b \<longleftrightarrow> \<not> is_nan a \<and> \<not> is_nan b \<and> (a = b \<or> (take_bit 63 a = 0 \<and> take_bit 63 b = 0))"

lemma size_lookup: "(k, v) \<in> set m \<Longrightarrow> size v < size (VObject m)"
  by (induction m) auto

lemma size_elem: "v \<in> set a \<Longrightarrow> size v < size (VArray a)"
  by (induction a) auto

function equal_val :: "vval \<Rightarrow> vval \<Rightarrow> bool" where
  "equal_val v other =
     (case v of
        VNull \<Rightarrow> other = VNull
      | VBool b \<Rightarrow> other = VBool b
      | VInt i \<Rightarrow> other = VInt i
      | VUint u \<Rightarrow> other = VUint u
      | VFloat f \<Rightarrow> (case other of VFloat g \<Rightarrow> float_eq f g | _ \<Rightarrow> False)
      | VString s \<Rightarrow> other = VString s
      | VBytes b \<Rightarrow> other = VBytes b
      | VArray a \<Rightarrow>
          (case other of
             VArray a' \<Rightarrow> length a = length a' \<and> list_all (\<lambda>(x, y). equal_val x y) (zip a a')
           | _ \<Rightarrow> False)
      | VObject m \<Rightarrow>
          (case other of
             VObject m' \<Rightarrow>
               length m = length m' \<and>
               list_all (\<lambda>(k, x). (case map_of m' k of None \<Rightarrow> False | Some y \<Rightarrow> equal_val x y)) m
           | _ \<Rightarrow> False))"
  by pat_completeness auto
termination
  by (relation "measure (\<lambda>(v, _). size v)") (auto dest!: set_zip_leftD size_elem size_lookup)

declare equal_val.simps [simp del]

section \<open>Updates\<close>

datatype conv_error =
  NotObject string | NotArray | NilField string | UnknownType string
| AtIndex nat conv_error | AtKey string conv_error | DecodeError

definition merge_val :: "vval \<Rightarrow> vval \<Rightarrow> conv_error + vval" where
  "merge_val v other =
     (case v of
        VObject m \<Rightarrow>
          (case other of
             VObject m' \<Rightarrow> Inr (VObject (AList.updates (map fst m') (map snd m') (AList.updates (map fst m) (map snd m) [])))
           | _ \<Rightarrow> Inl (NotObject ''right''))
      | _ \<Rightarrow> Inl (NotObject ''left''))"

definition set_val :: "string \<Rightarrow> vval \<Rightarrow> vval \<Rightarrow> conv_error + vval" where
  "set_val key val v =
     (case v of VObject m \<Rightarrow> Inr (VObject (AList.update key val m)) | _ \<Rightarrow> Inl (NotObject ''set''))"

definition delete_val :: "string \<Rightarrow> vval \<Rightarrow> conv_error + vval" where
  "delete_val key v =
     (case v of VObject m \<Rightarrow> Inr (VObject (filter (\<lambda>(k, _). k \<noteq> key) m)) | _ \<Rightarrow> Inl (NotObject ''delete''))"

definition append_val :: "vval \<Rightarrow> vval \<Rightarrow> conv_error + vval" where
  "append_val item v = (case v of VArray a \<Rightarrow> Inr (VArray (a @ [item])) | _ \<Rightarrow> Inl NotArray)"

section \<open>MsgPack\<close>

text \<open>
  The intermediate struct: one field per kind, absent fields are \<open>None\<close>. A missing
  \<open>bytes\<close> or \<open>array\<close> field decodes to the empty slice.
\<close>

datatype msgpackValue =
  MV (mv_type: string) (mv_bool: "bool option") (mv_int: "u64 option") (mv_uint: "u64 option")
     (mv_float: "u64 option") (mv_string: "string option") (mv_bytes: "byte list")
     (mv_array: "msgpackValue list") (mv_object: "(string \<times> msgpackValue) list option")

definition mv_null :: msgpackValue where
  "mv_null = MV ''null'' None None None None None [] [] None"

primrec valueToMsgpack :: "vval \<Rightarrow> msgpackValue" where
  "valueToMsgpack VNull = mv_null"
| "valueToMsgpack (VBool b) = MV ''bool'' (Some b) None None None None [] [] None"
| "valueToMsgpack (VInt i) = MV ''int'' None (Some i) None None None [] [] None"
| "valueToMsgpack (VUint u) = MV ''uint'' None None (Some u) None None [] [] None"
| "valueToMsgpack (VFloat f) = MV ''float'' None None None (Some f) None [] [] None"
| "valueToMsgpack (VString s) = MV ''string'' None None None None (Some s) [] [] None"
| "valueToMsgpack (VBytes b) = MV ''bytes'' None None None None None b [] None"
| "valueToMsgpack (VArray a) = MV ''array'' None None None None None [] (map valueToMsgpack a) None"
| "valueToMsgpack (VObject m) =
     MV ''object'' None None None None None [] [] (Some (map (map_prod id valueToMsgpack) m))"

definition need :: "string \<Rightarrow> 'a option \<Rightarrow> ('a \<Rightarrow> vval) \<Rightarrow> conv_error + vval" where
  "need name fld mk = (case fld of None \<Rightarrow> Inl (NilField name) | Some x \<Rightarrow> Inr (mk x))"

fun msgpackToValue :: "msgpackValue \<Rightarrow> conv_error + vval"
  and arrayToValues :: "nat \<Rightarrow> msgpackValue list \<Rightarrow> conv_error + vval list"
  and objectToValues :: "(string \<times> msgpackValue) list \<Rightarrow> conv_error + (string \<times> vval) list"
where
  "msgpackToValue (MV t b i u f s bs arr obj) =
     (if t = ''null'' then Inr VNull
      else if t = ''bool'' then need t b VBool
      else if t = ''int'' then need t i VInt
      else if t = ''uint'' then need t u VUint
      else if t = ''float'' then need t f VFloat
      else if t = ''string'' then need t s VString
      else if t = ''bytes'' then Inr (VBytes bs)
      else if t = ''array'' then (case arrayToValues 0 arr of Inl e \<Rightarrow> Inl e | Inr a \<Rightarrow> Inr (VArray a))
      else if t = ''object'' then
        (case obj of
           None \<Rightarrow> Inl (NilField t)
         | Some m \<Rightarrow> (case objectToValues m of Inl e \<Rightarrow> Inl e | Inr o' \<Rightarrow> Inr (VObject o')))
      else Inl (UnknownType t))"
| "arrayToValues n [] = Inr []"
| "arrayToValues n (mv # mvs) =
     (case msgpackToValue mv of
        Inl e \<Rightarrow> Inl (AtIndex n e)
      | Inr v \<Rightarrow> (case arrayToValues (Suc n) mvs of Inl e \<Rightarrow> Inl e | Inr vs \<Rightarrow> Inr (v # vs)))"
| "objectToValues [] = Inr []"
| "objectToValues ((k, mv) # mvs) =
     (case msgpackToValue mv of
        Inl e \<Rightarrow> Inl (AtKey k e)
      | Inr v \<Rightarrow> (case objectToValues mvs of Inl e \<Rightarrow> Inl e | Inr vs \<Rightarrow> Inr ((k, v) # vs)))"

text \<open>The MsgPack library is a parameter: \<open>enc\<close> and \<open>dec\<close>.\<close>

definition marshalMsgpack :: "(msgpackValue \<Rightarrow> byte list) \<Rightarrow> vval \<Rightarrow> byte list" where
  "marshalMsgpack enc v = enc (valueToMsgpack v)"

definition unmarshalValueMsgpack :: "(byte list \<Rightarrow> msgpackValue option) \<Rightarrow> byte list \<Rightarrow> conv_error + vval" where
  "unmarshalValueMsgpack dec bytes =
     (case dec bytes of None \<Rightarrow> Inl DecodeError | Some mv \<Rightarrow> msgpackToValue mv)"

section \<open>Well-formed values\<close>

fun wf_value :: "vval \<Rightarrow> bool" where
  "wf_value (VArray a) = list_all wf_value a"
| "wf_value (VObject m) = (distinct (map fst m) \<and> list_all (\<lambda>p. wf_value (snd p)) m)"
| "wf_value _ = True"

fun no_nan :: "vval \<Rightarrow> bool" where
  "no_nan (VFloat f) = (\<not> is_nan f)"
| "no_nan (VArray a) = list_all no_nan a"
| "no_nan (VObject m) = list_all (\<lambda>p. no_nan (snd p)) m"
| "no_nan _ = True"

section \<open>Equality\<close>

lemma vval_induct [case_names Null Bool Int Uint Float String Bytes Array Object]:
  assumes "P VNull" and "\<And>b. P (VBool b)" and "\<And>i. P (VInt i)" and "\<And>u. P (VUint u)" and "\<And>f. P (VFloat f)"
    and "\<And>s. P (VString s)" and "\<And>b. P (VBytes b)"
    and "\<And>a. (\<And>x. x \<in> set a \<Longrightarrow> P x) \<Longrightarrow> P (VArray a)"
    and "\<And>m. (\<And>k x. (k, x) \<in> set m \<Longrightarrow> P x) \<Longrightarrow> P (VObject m)"
  shows "P v"
proof (induction v)
  case (VObject m)
  have "P x" if "(k, x) \<in> set m" for k x
    using VObject.IH [OF that, of x] by simp
  then show ?case
    by (rule assms(9))
qed (use assms in auto)

lemma equal_array: "equal_val (VArray a) (VArray b) \<longleftrightarrow> list_all2 equal_val a b"
  by (subst equal_val.simps) (auto simp: list_all2_iff list_all_iff)

text \<open>On well-formed objects the comparison is that of finite maps.\<close>

lemma equal_object:
  assumes "distinct (map fst m)" and "distinct (map fst m')"
  shows "equal_val (VObject m) (VObject m') \<longleftrightarrow> rel_fun (=) (rel_option equal_val) (map_of m) (map_of m')"
proof -
  have len: "length m = length m' \<longleftrightarrow> card (dom (map_of m)) = card (dom (map_of m'))"
    using assms by (simp add: dom_map_of_conv_image_fst distinct_card flip: set_map)
  have sub: "list_all (\<lambda>(k, x). (case map_of m' k of None \<Rightarrow> False | Some y \<Rightarrow> equal_val x y)) m \<longleftrightarrow>
      (\<forall>k x. map_of m k = Some x \<longrightarrow> (\<exists>y. map_of m' k = Some y \<and> equal_val x y))"
    using assms(1) by (fastforce simp: list_all_iff split: option.splits)
  show ?thesis
  proof
    assume "equal_val (VObject m) (VObject m')"
    then have l: "length m = length m'"
      and a: "\<forall>k x. map_of m k = Some x \<longrightarrow> (\<exists>y. map_of m' k = Some y \<and> equal_val x y)"
      using sub by (simp_all add: equal_val.simps [of "VObject m"])
    have "dom (map_of m) \<subseteq> dom (map_of m')"
      using a by (auto simp: dom_def)
    with l have "dom (map_of m) = dom (map_of m')"
      unfolding len by (intro card_subset_eq) (simp_all add: finite_dom_map_of)
    then have "map_of m k = None \<longleftrightarrow> map_of m' k = None" for k
      by (metis domIff)
    then have "rel_option equal_val (map_of m k) (map_of m' k)" for k
      using a by (cases "map_of m k") (auto simp: option_rel_Some1)
    then show "rel_fun (=) (rel_option equal_val) (map_of m) (map_of m')"
      by (simp add: rel_fun_def)
  next
    assume r: "rel_fun (=) (rel_option equal_val) (map_of m) (map_of m')"
    then have rk: "rel_option equal_val (map_of m k) (map_of m' k)" for k
      by (simp add: rel_fun_def)
    have "map_of m k = None \<longleftrightarrow> map_of m' k = None" for k
      using rk [of k] by (auto simp: option.rel_sel)
    then have "dom (map_of m) = dom (map_of m')"
      by (auto simp: dom_def)
    moreover have "\<forall>k x. map_of m k = Some x \<longrightarrow> (\<exists>y. map_of m' k = Some y \<and> equal_val x y)"
    proof (intro allI impI)
      fix k x assume "map_of m k = Some x"
      with rk [of k] show "\<exists>y. map_of m' k = Some y \<and> equal_val x y"
        by (auto simp: option_rel_Some1)
    qed
    ultimately show "equal_val (VObject m) (VObject m')"
      using sub by (simp add: equal_val.simps [of "VObject m"] len)
  qed
qed

lemma wf_object: "wf_value (VObject m) \<Longrightarrow> map_of m k = Some x \<Longrightarrow> wf_value x \<and> (k, x) \<in> set m"
  by (auto simp: list_all_iff dest: map_of_SomeD)

lemma equal_refl: "wf_value v \<Longrightarrow> no_nan v \<Longrightarrow> equal_val v v"
proof (induction v rule: vval_induct)
  case (Array a)
  then show ?case
    by (auto simp: equal_array list_all_iff intro: list.rel_refl_strong)
next
  case (Object m)
  have "rel_option equal_val (map_of m k) (map_of m k)" for k
  proof (cases "map_of m k")
    case (Some x)
    then have "(k, x) \<in> set m"
      by (rule map_of_SomeD)
    with Object have "equal_val x x"
      by (fastforce simp: list_all_iff)
    with Some show ?thesis
      by simp
  qed simp
  with Object.prems show ?case
    by (simp add: equal_object rel_fun_def)
qed (simp_all add: equal_val.simps float_eq_def)

lemma equal_cases:
  "equal_val (VArray a) w \<Longrightarrow> \<exists>b. w = VArray b" "equal_val (VObject m) w \<Longrightarrow> \<exists>m'. w = VObject m'"
  by (auto simp: equal_val.simps [of "VArray a"] equal_val.simps [of "VObject m"] split: vval.splits)

lemma equal_sym: "wf_value v \<Longrightarrow> wf_value w \<Longrightarrow> equal_val v w \<Longrightarrow> equal_val w v"
proof (induction v arbitrary: w rule: vval_induct)
  case (Array a)
  obtain b where w: "w = VArray b"
    using equal_cases(1) [OF Array.prems(3)] ..
  with Array show ?case
    by (fastforce simp: equal_array list_all2_conv_all_nth list_all_length)
next
  case (Object m)
  obtain m' where w: "w = VObject m'"
    using equal_cases(2) [OF Object.prems(3)] ..
  have d: "distinct (map fst m)" "distinct (map fst m')"
    using Object.prems by (simp_all add: w)
  have r: "rel_option equal_val (map_of m k) (map_of m' k)" for k
    using Object.prems(3) d by (simp add: w equal_object rel_fun_def)
  have "rel_option equal_val (map_of m' k) (map_of m k)" for k
  proof (cases "map_of m k")
    case None
    with r [of k] show ?thesis
      by simp
  next
    case (Some x)
    with r [of k] obtain y where y: "map_of m' k = Some y" "equal_val x y"
      by (auto simp: option_rel_Some1)
    with Some Object wf_object have "equal_val y x"
      unfolding w by blast
    with Some y show ?thesis
      by simp
  qed
  with d show ?case
    by (simp add: w equal_object rel_fun_def)
qed (auto simp: equal_val.simps float_eq_def split: vval.splits)

lemma equal_trans:
  "wf_value v \<Longrightarrow> wf_value w \<Longrightarrow> wf_value u \<Longrightarrow> equal_val v w \<Longrightarrow> equal_val w u \<Longrightarrow> equal_val v u"
proof (induction v arbitrary: w u rule: vval_induct)
  case (Array a)
  obtain b where w: "w = VArray b"
    using equal_cases(1) [OF Array.prems(4)] ..
  obtain c where u: "u = VArray c"
    using equal_cases(1) Array.prems(5) unfolding w by blast
  from Array.prems have "list_all wf_value a" "list_all wf_value b" "list_all wf_value c"
    "list_all2 equal_val a b" "list_all2 equal_val b c"
    by (simp_all add: w u equal_array)
  with Array.IH have "list_all2 equal_val a c"
    unfolding list_all2_conv_all_nth list_all_length by (metis nth_mem)
  then show ?case
    by (simp add: u equal_array)
next
  case (Object m)
  obtain m' where w: "w = VObject m'"
    using equal_cases(2) [OF Object.prems(4)] ..
  obtain m'' where u: "u = VObject m''"
    using equal_cases(2) Object.prems(5) unfolding w by blast
  have d: "distinct (map fst m)" "distinct (map fst m')" "distinct (map fst m'')"
    using Object.prems by (simp_all add: w u)
  have r1: "rel_option equal_val (map_of m k) (map_of m' k)" for k
    using Object.prems(4) d by (simp add: w equal_object rel_fun_def)
  have r2: "rel_option equal_val (map_of m' k) (map_of m'' k)" for k
    using Object.prems(5) d by (simp add: w u equal_object rel_fun_def)
  have "rel_option equal_val (map_of m k) (map_of m'' k)" for k
  proof (cases "map_of m k")
    case None
    with r1 [of k] r2 [of k] show ?thesis
      by simp
  next
    case (Some x)
    with r1 [of k] obtain y where y: "map_of m' k = Some y" "equal_val x y"
      by (auto simp: option_rel_Some1)
    with r2 [of k] obtain z where z: "map_of m'' k = Some z" "equal_val y z"
      by (auto simp: option_rel_Some1)
    have "equal_val x z"
      using Object.IH [of k x y z] Object.prems(1-3) Some y z wf_object unfolding w u by blast
    with Some z show ?thesis
      by simp
  qed
  with d show ?case
    by (simp add: u equal_object rel_fun_def)
qed (auto simp: equal_val.simps float_eq_def split: vval.splits)

section \<open>MsgPack round trip\<close>

lemma arrayToValues_map:
  "(\<And>x. x \<in> set a \<Longrightarrow> msgpackToValue (valueToMsgpack x) = Inr x) \<Longrightarrow>
   arrayToValues n (map valueToMsgpack a) = Inr a"
  by (induction a arbitrary: n) simp_all

lemma objectToValues_map:
  "(\<And>k x. (k, x) \<in> set m \<Longrightarrow> msgpackToValue (valueToMsgpack x) = Inr x) \<Longrightarrow>
   objectToValues (map (map_prod id valueToMsgpack) m) = Inr m"
proof (induction m)
  case (Cons p m)
  obtain k x where p: "p = (k, x)"
    by (cases p)
  have "msgpackToValue (valueToMsgpack x) = Inr x"
    using Cons.prems [of k x] by (simp add: p)
  moreover have "objectToValues (map (map_prod id valueToMsgpack) m) = Inr m"
    using Cons.prems by (intro Cons.IH) (meson list.set_intros(2))
  ultimately show ?case
    unfolding id_def by (simp add: p)
qed simp

lemma msgpackToValue_inverse: "msgpackToValue (valueToMsgpack v) = Inr v"
  by (induction v rule: vval_induct)
    (simp_all add: mv_null_def need_def arrayToValues_map objectToValues_map)

section \<open>Properties\<close>

text \<open>
  (C6) MsgPack round trip: decoding the encoding of a value gives back that value, whatever
  its nesting, as long as the MsgPack library decodes what it encoded.
\<close>

theorem msgpack_roundtrip:
  assumes "dec (enc (valueToMsgpack v)) = Some (valueToMsgpack v)"
  shows "unmarshalValueMsgpack dec (marshalMsgpack enc v) = Inr v"
  by (simp add: unmarshalValueMsgpack_def marshalMsgpack_def assms msgpackToValue_inverse)

theorem msgpack_roundtrip_witness:
  "unmarshalValueMsgpack
     (\<lambda>bs. if bs = [1] then Some (valueToMsgpack (VArray [VObject [(''a'', VInt 5)], VBytes [], VNull])) else None)
     (marshalMsgpack (\<lambda>_. [1]) (VArray [VObject [(''a'', VInt 5)], VBytes [], VNull])) =
   Inr (VArray [VObject [(''a'', VInt 5)], VBytes [], VNull])"
  by (rule msgpack_roundtrip) simp

text \<open>
  \<open>Equal\<close> is an equivalence: on well-formed values it is symmetric and transitive, and
  reflexive on those without a NaN, in particular independent of the order in which the maps
  are visited.
\<close>

theorem equal_equivalence:
  assumes "wf_value v" and "wf_value w" and "wf_value u"
  shows "(no_nan v \<longrightarrow> equal_val v v) \<and> (equal_val v w \<longleftrightarrow> equal_val w v) \<and>
    (equal_val v w \<and> equal_val w u \<longrightarrow> equal_val v u)"
  using equal_refl [OF assms(1)] equal_sym [OF assms(1,2)] equal_sym [OF assms(2,1)] equal_trans [OF assms]
  by blast

theorem equal_equivalence_witness:
  "let v = VObject [(''a'', VInt 1), (''b'', VFloat 0)]; w = VObject [(''b'', VFloat 0x8000000000000000), (''a'', VInt 1)]
   in equal_val v w \<and> equal_val w v"
proof -
  have "equal_val (VObject [(''a'', VInt 1), (''b'', VFloat 0)])
      (VObject [(''b'', VFloat 0x8000000000000000), (''a'', VInt 1)])"
    by code_simp
  moreover from this equal_equivalence [of "VObject [(''a'', VInt 1), (''b'', VFloat 0)]"
      "VObject [(''b'', VFloat 0x8000000000000000), (''a'', VInt 1)]" VNull]
  have "equal_val (VObject [(''b'', VFloat 0x8000000000000000), (''a'', VInt 1)])
      (VObject [(''a'', VInt 1), (''b'', VFloat 0)])"
    by simp
  ultimately show ?thesis
    by (simp add: Let_def)
qed

text \<open>
  The updates are those of a finite map: after \<open>Set\<close>, \<open>Delete\<close> and \<open>Merge\<close> a lookup
  finds the new value under the key, nothing under a deleted key, and the right operand
  before the left one; on anything but objects they report an error.
\<close>

theorem object_updates:
  "(case set_val k x v of Inr v' \<Rightarrow> get_key j v' = (if j = k then Some x else get_key j v)
    | Inl _ \<Rightarrow> asObject v = None) \<and>
   (case delete_val k v of Inr v' \<Rightarrow> get_key j v' = (if j = k then None else get_key j v)
    | Inl _ \<Rightarrow> asObject v = None) \<and>
   (case merge_val v w of
      Inr v' \<Rightarrow> wf_value v \<and> wf_value w \<longrightarrow> get_key j v' = (case get_key j w of Some y \<Rightarrow> Some y | None \<Rightarrow> get_key j v)
    | Inl _ \<Rightarrow> asObject v = None \<or> asObject w = None)"
proof -
  have up: "map_of (AList.updates (map fst m) (map snd m) m0) j = (case map_of m j of Some y \<Rightarrow> Some y | None \<Rightarrow> map_of m0 j)"
    if "distinct (map fst m)" for j and m m0 :: "(string \<times> vval) list"
    using that by (induction m arbitrary: m0)
      (auto simp: update_conv' split: option.splits dest!: map_of_SomeD intro: rev_image_eqI)
  have del: "map_of (filter (\<lambda>(k', _). k' \<noteq> k) m) j = (if j = k then None else map_of m j)" for j k and m :: "(string \<times> vval) list"
    by (induction m) auto
  show ?thesis
    by (cases v; cases w)
      (simp_all add: set_val_def delete_val_def merge_val_def get_key_def asObject_def update_conv' up del split: option.splits)
qed

theorem object_updates_witness:
  "\<exists>v'. merge_val (VObject [(''a'', VNull)]) (VObject [(''a'', VInt 1)]) = Inr v' \<and> get_key ''a'' v' = Some (VInt 1)"
proof -
  have "merge_val (VObject [(''a'', VNull)]) (VObject [(''a'', VInt 1)]) = Inr (VObject [(''a'', VInt 1)])"
    by (simp add: merge_val_def)
  with object_updates [where j = "''a''" and v = "VObject [(''a'', VNull)]" and w = "VObject [(''a'', VInt 1)]"] show ?thesis
    by (simp add: get_key_def)
qed

end
