(* ===== verification/Rule.thy ===== *)
theory Rule
  imports Event_Value
begin

text \<open>
  \<open>sdk/rule\<close>: the semantic rules a plugin declares (\<open>rule.go\<close>, \<open>predicate.go\<close>, \<open>issue.go\<close>)
  and their evaluation on one event (\<open>evaluate.go\<close>).

  The JSON query library gjson is a third-party package: a document and the results of
  queries are an abstract type \<open>'d\<close>, and the calls the code makes are the fields of
  \<open>gjson_api\<close>; \<open>gj_Value\<close> is the tree of Go values of a document and \<open>gj_reparse\<close> the JSON text
  of such a tree parsed again. Numbers are compared only, so they are any linear order. Issues keep their
  rule identifier and location; the message texts are left out.
\<close>

section \<open>Queries\<close>

datatype gtype = GNull | GFalse | GNumber | GString | GTrue | GJSON

record ('d, 'n, 'v) gjson_api =
  gj_Get :: "'d \<Rightarrow> string \<Rightarrow> 'd"
  gj_Exists :: "'d \<Rightarrow> bool"
  gj_Type :: "'d \<Rightarrow> gtype"
  gj_Num :: "'d \<Rightarrow> 'n"
  gj_Str :: "'d \<Rightarrow> string"
  gj_Bool :: "'d \<Rightarrow> bool"
  gj_IsArray :: "'d \<Rightarrow> bool"
  gj_Array :: "'d \<Rightarrow> 'd list"
  gj_String :: "'d \<Rightarrow> string"
  gj_literal :: "'v option \<Rightarrow> 'd"
  gj_Value :: "'d \<Rightarrow> vval"
  gj_reparse :: "vval \<Rightarrow> 'd option"

section \<open>Predicates\<close>

datatype 'v predicate =
  Pred (p_All: "'v predicate list") (p_Any: "'v predicate list") (p_Path: string) (p_Op: string)
    (p_Value: "'v option")

definition opClosed :: "string list" where
  "opClosed = [''eq'', ''neq'', ''exists'', ''not_exists'', ''gt'', ''gte'', ''lt'', ''lte'', ''in'', ''not_in'',
    ''contains'', ''prefix'', ''suffix'']"

definition needsValue :: "string list" where
  "needsValue = [''eq'', ''neq'', ''gt'', ''gte'', ''lt'', ''lte'', ''in'', ''not_in'', ''contains'', ''prefix'', ''suffix'']"

definition needsArrayValue :: "string list" where
  "needsArrayValue = [''in'', ''not_in'']"

record issue =
  is_RuleID :: string
  is_Path :: string

definition mkIssue :: "string \<Rightarrow> string \<Rightarrow> issue" where
  "mkIssue rid path = \<lparr>is_RuleID = rid, is_Path = path\<rparr>"

definition atPath :: "string \<Rightarrow> issue \<Rightarrow> issue" where
  "atPath prefix iss = iss\<lparr>is_Path := prefix @ is_Path iss\<rparr>"

definition validateLeaf :: "('d, 'n, 'v) gjson_api \<Rightarrow> string \<Rightarrow> string \<Rightarrow> 'v option \<Rightarrow> issue list" where
  "validateLeaf api path opr val =
     (if opr = '''' then [mkIssue ''gt.semantic.op-required'' ''op'']
      else if opr \<notin> set opClosed then [mkIssue ''gt.semantic.op-unknown'' ''op'']
      else
        (if path = '''' then [mkIssue ''gt.semantic.path-required'' ''path''] else []) @
        (if opr \<in> set needsValue \<and> val = None then [mkIssue ''gt.semantic.value-required'' ''value''] else []) @
        (if val \<noteq> None \<and> opr \<in> set needsArrayValue \<and> \<not> gj_IsArray api (gj_literal api val)
         then [mkIssue ''gt.semantic.value-array-required'' ''value''] else []))"

fun validatePred :: "('d, 'n, 'v) gjson_api \<Rightarrow> 'v predicate \<Rightarrow> issue list"
  and validateList :: "('d, 'n, 'v) gjson_api \<Rightarrow> string \<Rightarrow> nat \<Rightarrow> 'v predicate list \<Rightarrow> issue list"
where
  "validatePred api (Pred alls anys path opr val) =
     (if alls \<noteq> [] \<and> anys \<noteq> [] then [mkIssue ''gt.semantic.combinator-mixed'' '''']
      else if (alls \<noteq> [] \<or> anys \<noteq> []) \<and> (path \<noteq> '''' \<or> opr \<noteq> '''' \<or> val \<noteq> None)
      then [mkIssue ''gt.semantic.combinator-mixed'' '''']
      else if anys \<noteq> [] then validateList api ''any'' 0 anys
      else if alls \<noteq> [] then validateList api ''all'' 0 alls
      else validateLeaf api path opr val)"
| "validateList api knd i [] = []"
| "validateList api knd i (p # ps) =
     map (atPath (knd @ ''['' @ show_nat i @ ''].'')) (validatePred api p) @ validateList api knd (Suc i) ps"

definition hasPrefix :: "string \<Rightarrow> string \<Rightarrow> bool" where
  "hasPrefix s p \<longleftrightarrow> take (length p) s = p"

definition hasSuffix :: "string \<Rightarrow> string \<Rightarrow> bool" where
  "hasSuffix s p \<longleftrightarrow> length p \<le> length s \<and> drop (length s - length p) s = p"

fun containsStr :: "string \<Rightarrow> string \<Rightarrow> bool" where
  "containsStr [] p \<longleftrightarrow> p = []"
| "containsStr (c # s) p \<longleftrightarrow> hasPrefix (c # s) p \<or> containsStr s p"

definition isBoolType :: "gtype \<Rightarrow> bool" where
  "isBoolType t \<longleftrightarrow> t = GTrue \<or> t = GFalse"

definition eqMatch :: "('d, 'n, 'v) gjson_api \<Rightarrow> 'd \<Rightarrow> 'd \<Rightarrow> bool" where
  "eqMatch api res lit =
     (if gj_Type api lit = GNull then gj_Type api res = GNull \<and> gj_Exists api res
      else if gj_Type api res = GNumber \<and> gj_Type api lit = GNumber then gj_Num api res = gj_Num api lit
      else if gj_Type api res = GString \<and> gj_Type api lit = GString then gj_Str api res = gj_Str api lit
      else if isBoolType (gj_Type api res) \<and> isBoolType (gj_Type api lit) then gj_Bool api res = gj_Bool api lit
      else False)"

definition arrayContains :: "('d, 'n, 'v) gjson_api \<Rightarrow> 'd \<Rightarrow> 'd \<Rightarrow> bool" where
  "arrayContains api arr item \<longleftrightarrow> gj_IsArray api arr \<and> list_ex (\<lambda>e. eqMatch api e item) (gj_Array api arr)"

definition cmp3 :: "'a :: linorder \<Rightarrow> 'a \<Rightarrow> int" where
  "cmp3 a b = (if a < b then - 1 else if b < a then 1 else 0)"

definition orderMatch :: "('d, 'n :: linorder, 'v) gjson_api \<Rightarrow> string \<Rightarrow> 'd \<Rightarrow> 'd \<Rightarrow> bool" where
  "orderMatch api opr res lit =
     (case (if gj_Type api res = GNumber \<and> gj_Type api lit = GNumber then Some (cmp3 (gj_Num api res) (gj_Num api lit))
            else if gj_Type api res = GString \<and> gj_Type api lit = GString then Some (cmp3 (gj_Str api res) (gj_Str api lit))
            else None) of
        None \<Rightarrow> False
      | Some c \<Rightarrow>
          if opr = ''gt'' then 0 < c else if opr = ''gte'' then 0 \<le> c
          else if opr = ''lt'' then c < 0 else if opr = ''lte'' then c \<le> 0 else False)"

definition evalLeaf ::
  "('d, 'n :: linorder, 'v) gjson_api \<Rightarrow> string \<Rightarrow> string \<Rightarrow> 'v option \<Rightarrow> 'd \<Rightarrow> bool"
where
  "evalLeaf api path opr val doc =
     (let res = gj_Get api doc path; lit = gj_literal api val in
      if opr = ''exists'' then gj_Exists api res
      else if opr = ''not_exists'' then \<not> gj_Exists api res
      else if \<not> gj_Exists api res then False
      else if opr = ''eq'' then eqMatch api res lit
      else if opr = ''neq'' then \<not> eqMatch api res lit
      else if opr \<in> {''gt'', ''gte'', ''lt'', ''lte''} then orderMatch api opr res lit
      else if opr = ''in'' then arrayContains api lit res
      else if opr = ''not_in'' then \<not> arrayContains api lit res
      else if opr = ''contains'' then
        (if gj_Type api res = GString \<and> gj_Type api lit = GString then containsStr (gj_Str api res) (gj_Str api lit)
         else if gj_IsArray api res then arrayContains api res lit else False)
      else if opr = ''prefix'' then
        gj_Type api res = GString \<and> gj_Type api lit = GString \<and> hasPrefix (gj_Str api res) (gj_Str api lit)
      else if opr = ''suffix'' then
        gj_Type api res = GString \<and> gj_Type api lit = GString \<and> hasSuffix (gj_Str api res) (gj_Str api lit)
      else False)"

fun evalPred :: "('d, 'n :: linorder, 'v) gjson_api \<Rightarrow> 'v predicate \<Rightarrow> 'd \<Rightarrow> bool" where
  "evalPred api (Pred alls anys path opr val) doc =
     (if alls \<noteq> [] \<and> anys = [] then list_all (\<lambda>p. evalPred api p doc) alls
      else if anys \<noteq> [] then list_ex (\<lambda>p. evalPred api p doc) anys
      else evalLeaf api path opr val doc)"

section \<open>Rules\<close>

record 'v pairSide =
  ps_Predicate :: "'v predicate"
  ps_Key :: string

record 'v effect =
  ef_Type :: string
  ef_Key :: string
  ef_Sides :: "'v pairSide list"
  ef_Semantic :: string

record 'v srule =
  ru_ID :: string
  ru_When :: "'v predicate option"
  ru_Effect :: "'v effect"

definition semClosed :: "string list" where
  "semClosed = [''request'', ''response'', ''notification'', ''error'']"

text \<open>\<open>ruleIDPattern\<close>: dot-separated segments of the form \<open>[a-z][a-z0-9_]*\<close>.\<close>

definition lower :: "char \<Rightarrow> bool" where
  "lower c \<longleftrightarrow> CHR ''a'' \<le> c \<and> c \<le> CHR ''z''"

definition segChar :: "char \<Rightarrow> bool" where
  "segChar c \<longleftrightarrow> lower c \<or> (CHR ''0'' \<le> c \<and> c \<le> CHR ''9'') \<or> c = CHR ''_''"

definition idSegment :: "string \<Rightarrow> bool" where
  "idSegment s = (case s of [] \<Rightarrow> False | c # cs \<Rightarrow> lower c \<and> list_all segChar cs)"

definition matchRuleID :: "string \<Rightarrow> bool" where
  "matchRuleID s \<longleftrightarrow> list_all idSegment (splitDot s)"

fun validateSides :: "('d, 'n, 'v) gjson_api \<Rightarrow> nat \<Rightarrow> 'v pairSide list \<Rightarrow> issue list" where
  "validateSides api i [] = []"
| "validateSides api i (s # ss) =
     (let loc = ''effect.sides['' @ show_nat i @ '']'' in
      (if ps_Key s = '''' then [mkIssue ''gt.semantic.pair-key-required'' loc] else []) @
      map (atPath (loc @ ''.'')) (validatePred api (ps_Predicate s)) @ validateSides api (Suc i) ss)"

definition validatePair :: "('d, 'n, 'v) gjson_api \<Rightarrow> 'v effect \<Rightarrow> issue list" where
  "validatePair api ef =
     (if length (ef_Sides ef) \<noteq> 2 then [mkIssue ''gt.semantic.pair-sides-limit'' ''effect.sides''] else []) @
     validateSides api 0 (ef_Sides ef)"

definition validateAnnotate :: "'v effect \<Rightarrow> issue list" where
  "validateAnnotate ef =
     (if ef_Semantic ef = '''' then [mkIssue ''gt.semantic.annotate-semantic-required'' ''effect'']
      else if ef_Semantic ef \<notin> set semClosed then [mkIssue ''gt.semantic.annotate-semantic-unknown'' ''effect.semantic'']
      else [])"

definition validateName :: "'v effect \<Rightarrow> issue list" where
  "validateName ef = (if ef_Key ef = '''' then [mkIssue ''gt.semantic.name-key-required'' ''effect''] else [])"

definition validateRule :: "('d, 'n, 'v) gjson_api \<Rightarrow> 'v srule \<Rightarrow> issue list" where
  "validateRule api r =
     (if ru_ID r = '''' then [mkIssue ''gt.semantic.rule-id-required'' '''']
      else if \<not> matchRuleID (ru_ID r) then [mkIssue ''gt.semantic.rule-id-format'' ''''] else []) @
     (case ru_When r of
        None \<Rightarrow> [mkIssue ''gt.semantic.when-required'' '''']
      | Some p \<Rightarrow> map (atPath ''when.'') (validatePred api p)) @
     (let ef = ru_Effect r in
      if ef_Type ef = ''pair'' then validatePair api ef
      else if ef_Type ef = ''annotate'' then validateAnnotate ef
      else if ef_Type ef = ''name'' then validateName ef
      else if ef_Type ef = '''' then [mkIssue ''gt.semantic.effect-required'' '''']
      else [mkIssue ''gt.semantic.effect-unknown'' ''''])"

definition joinPath :: "string \<Rightarrow> string \<Rightarrow> string" where
  "joinPath a b = (if a = '''' then b else if b = '''' then a else a @ ''.'' @ b)"

fun reportFrom :: "('d, 'n, 'v) gjson_api \<Rightarrow> nat \<Rightarrow> string list \<Rightarrow> 'v srule list \<Rightarrow> issue list" where
  "reportFrom api i seen [] = []"
| "reportFrom api i seen (r # rs) =
     (let prefix = ''semantic_rules['' @ show_nat i @ '']'' in
      (if ru_ID r \<noteq> '''' \<and> ru_ID r \<in> set seen then [mkIssue ''gt.semantic.rule-id-duplicate'' prefix] else []) @
      map (\<lambda>iss. iss\<lparr>is_Path := joinPath prefix (is_Path iss)\<rparr>) (validateRule api r) @
      reportFrom api (Suc i) (if ru_ID r \<noteq> '''' then ru_ID r # seen else seen) rs)"

definition rulesReport :: "('d, 'n, 'v) gjson_api \<Rightarrow> 'v srule list \<Rightarrow> issue list" where
  "rulesReport api rules = reportFrom api 0 [] rules"

section \<open>Evaluation\<close>

record pairHit =
  ph_RuleID :: string
  ph_Key :: string
  ph_Side :: int

record nameHit =
  nh_RuleID :: string
  nh_Value :: string

record ruleResult =
  rr_Semantics :: "string list"
  rr_Pairs :: "pairHit list"
  rr_Names :: "nameHit list"

definition matchPair :: "pairHit \<Rightarrow> pairHit \<Rightarrow> bool" where
  "matchPair a b =
     (if ph_RuleID a = '''' \<or> ph_RuleID a \<noteq> ph_RuleID b then False
      else if ph_Key a \<noteq> ph_Key b then False
      else if 0 \<le> ph_Side a \<or> 0 \<le> ph_Side b then ph_Side a \<noteq> ph_Side b
      else True)"

fun evalSides ::
  "('d, 'n :: linorder, 'v) gjson_api \<Rightarrow> string \<Rightarrow> nat \<Rightarrow> 'v pairSide list \<Rightarrow> 'd \<Rightarrow> pairHit option"
where
  "evalSides api rid i [] doc = None"
| "evalSides api rid i (s # ss) doc =
     (if \<not> evalPred api (ps_Predicate s) doc then evalSides api rid (Suc i) ss doc
      else
        (let keyRes = gj_Get api doc (ps_Key s) in
         if \<not> gj_Exists api keyRes then None
         else Some \<lparr>ph_RuleID = rid, ph_Key = gj_String api keyRes, ph_Side = int i\<rparr>))"

definition evalPair :: "('d, 'n :: linorder, 'v) gjson_api \<Rightarrow> 'v srule \<Rightarrow> 'd \<Rightarrow> pairHit option" where
  "evalPair api r doc = evalSides api (ru_ID r) 0 (ef_Sides (ru_Effect r)) doc"

definition evalName :: "('d, 'n, 'v) gjson_api \<Rightarrow> 'v srule \<Rightarrow> 'd \<Rightarrow> string option" where
  "evalName api r doc =
     (let keyRes = gj_Get api doc (ef_Key (ru_Effect r)) in
      if \<not> gj_Exists api keyRes then None
      else if gj_String api keyRes = '''' then None
      else Some (gj_String api keyRes))"

definition whenHolds :: "('d, 'n :: linorder, 'v) gjson_api \<Rightarrow> 'v srule \<Rightarrow> 'd \<Rightarrow> bool" where
  "whenHolds api r doc = (case ru_When r of None \<Rightarrow> False | Some p \<Rightarrow> evalPred api p doc)"

definition patchMsgName :: "('d, 'n, 'v) gjson_api \<Rightarrow> 'd \<Rightarrow> string \<Rightarrow> 'd option" where
  "patchMsgName api doc name =
     (case gj_Value api doc of
        VObject root \<Rightarrow>
          (case map_of root ''_meta'' of
             Some (VObject meta) \<Rightarrow>
               gj_reparse api (VObject (AList.update ''_meta'' (VObject (AList.update ''msg_name'' (VString name) meta)) root))
           | Some VNull \<Rightarrow>
               gj_reparse api (VObject (AList.update ''_meta'' (VObject [(''msg_name'', VString name)]) root))
           | None \<Rightarrow>
               gj_reparse api (VObject (AList.update ''_meta'' (VObject [(''msg_name'', VString name)]) root))
           | Some _ \<Rightarrow> None)
      | _ \<Rightarrow> None)"

text \<open>The first pass: the names found and the document with the first of them written into it.\<close>

fun namePass ::
  "('d, 'n :: linorder, 'v) gjson_api \<Rightarrow> 'v srule list \<Rightarrow> nameHit list \<Rightarrow> 'd \<Rightarrow> nameHit list \<times> 'd"
where
  "namePass api [] names doc = (names, doc)"
| "namePass api (r # rs) names doc =
     (if ef_Type (ru_Effect r) \<noteq> ''name'' \<or> \<not> whenHolds api r doc then namePass api rs names doc
      else
        (case evalName api r doc of
           None \<Rightarrow> namePass api rs names doc
         | Some val \<Rightarrow>
             namePass api rs (names @ [\<lparr>nh_RuleID = ru_ID r, nh_Value = val\<rparr>])
               (if names = [] then (case patchMsgName api doc val of Some d \<Rightarrow> d | None \<Rightarrow> doc) else doc)))"

definition effectStep ::
  "('d, 'n :: linorder, 'v) gjson_api \<Rightarrow> 'd \<Rightarrow> 'v srule \<Rightarrow> ruleResult \<Rightarrow> ruleResult"
where
  "effectStep api doc r res =
     (let t = ef_Type (ru_Effect r) in
      if t = ''name'' \<or> \<not> whenHolds api r doc then res
      else if t = ''pair'' then
        (case evalPair api r doc of None \<Rightarrow> res | Some hit \<Rightarrow> res\<lparr>rr_Pairs := rr_Pairs res @ [hit]\<rparr>)
      else if t = ''annotate'' then
        (if ef_Semantic (ru_Effect r) \<in> set (rr_Semantics res) then res
         else res\<lparr>rr_Semantics := rr_Semantics res @ [ef_Semantic (ru_Effect r)]\<rparr>)
      else res)"

definition evaluate :: "('d, 'n :: linorder, 'v) gjson_api \<Rightarrow> 'v srule list \<Rightarrow> 'd \<Rightarrow> ruleResult" where
  "evaluate api rules doc =
     (case namePass api rules [] doc of
        (names, doc') \<Rightarrow>
          fold (effectStep api doc') rules \<lparr>rr_Semantics = [], rr_Pairs = [], rr_Names = names\<rparr>)"

section \<open>What a valid declaration is\<close>

definition leaf_ok :: "('d, 'n, 'v) gjson_api \<Rightarrow> string \<Rightarrow> string \<Rightarrow> 'v option \<Rightarrow> bool" where
  "leaf_ok api path opr val \<longleftrightarrow>
     opr \<in> set opClosed \<and> path \<noteq> '''' \<and> (opr \<in> set needsValue \<longrightarrow> val \<noteq> None) \<and>
     (opr \<in> set needsArrayValue \<longrightarrow> gj_IsArray api (gj_literal api val))"

text \<open>A predicate is a leaf, a conjunction or a disjunction, and nothing of two kinds at once.\<close>

inductive wf_pred :: "('d, 'n, 'v) gjson_api \<Rightarrow> 'v predicate \<Rightarrow> bool" for api where
  wf_leaf: "leaf_ok api path opr val \<Longrightarrow> wf_pred api (Pred [] [] path opr val)"
| wf_all: "ps \<noteq> [] \<Longrightarrow> (\<And>p. p \<in> set ps \<Longrightarrow> wf_pred api p) \<Longrightarrow> wf_pred api (Pred ps [] '''' '''' None)"
| wf_any: "ps \<noteq> [] \<Longrightarrow> (\<And>p. p \<in> set ps \<Longrightarrow> wf_pred api p) \<Longrightarrow> wf_pred api (Pred [] ps '''' '''' None)"

inductive_cases wf_predE: "wf_pred api (Pred alls anys path opr val)"

definition side_ok :: "('d, 'n, 'v) gjson_api \<Rightarrow> 'v pairSide \<Rightarrow> bool" where
  "side_ok api s \<longleftrightarrow> ps_Key s \<noteq> '''' \<and> wf_pred api (ps_Predicate s)"

definition effect_ok :: "('d, 'n, 'v) gjson_api \<Rightarrow> 'v effect \<Rightarrow> bool" where
  "effect_ok api ef \<longleftrightarrow>
     (ef_Type ef = ''pair'' \<and> length (ef_Sides ef) = 2 \<and> (\<forall>s \<in> set (ef_Sides ef). side_ok api s)) \<or>
     (ef_Type ef = ''annotate'' \<and> ef_Semantic ef \<in> set semClosed) \<or>
     (ef_Type ef = ''name'' \<and> ef_Key ef \<noteq> '''')"

definition rule_ok :: "('d, 'n, 'v) gjson_api \<Rightarrow> 'v srule \<Rightarrow> bool" where
  "rule_ok api r \<longleftrightarrow>
     matchRuleID (ru_ID r) \<and> (\<exists>p. ru_When r = Some p \<and> wf_pred api p) \<and> effect_ok api (ru_Effect r)"

lemma validateLeaf_ok: "validateLeaf api path opr val = [] \<longleftrightarrow> leaf_ok api path opr val"
proof -
  have "'''' \<notin> set opClosed" "opr \<in> set needsArrayValue \<longrightarrow> opr \<in> set needsValue"
    by (auto simp: opClosed_def needsArrayValue_def needsValue_def)
  then show ?thesis
    by (auto simp: validateLeaf_def leaf_ok_def)
qed

lemma validateList_Nil: "validateList api knd i ps = [] \<longleftrightarrow> (\<forall>p \<in> set ps. validatePred api p = [])"
  by (induction ps arbitrary: i) auto

lemma validatePred_ok: "validatePred api p = [] \<longleftrightarrow> wf_pred api p"
proof (induction p)
  case (Pred alls anys path opr val)
  show ?case
  proof
    assume "validatePred api (Pred alls anys path opr val) = []"
    then show "wf_pred api (Pred alls anys path opr val)"
      using Pred.IH by (auto simp: validateList_Nil validateLeaf_ok intro!: wf_pred.intros split: if_splits)
  next
    assume "wf_pred api (Pred alls anys path opr val)"
    then show "validatePred api (Pred alls anys path opr val) = []"
      using Pred.IH by (auto elim!: wf_predE simp: validateList_Nil validateLeaf_ok)
  qed
qed

lemma validateSides_Nil: "validateSides api i ss = [] \<longleftrightarrow> (\<forall>s \<in> set ss. side_ok api s)"
  by (induction ss arbitrary: i) (auto simp: side_ok_def validatePred_ok Let_def)

lemma matchRuleID_nonempty: "matchRuleID s \<Longrightarrow> s \<noteq> ''''"
  by (auto simp: matchRuleID_def idSegment_def)

lemma validateRule_ok: "validateRule api r = [] \<longleftrightarrow> rule_ok api r"
proof -
  have id: "(if ru_ID r = '''' then [mkIssue ''gt.semantic.rule-id-required'' '''']
      else if \<not> matchRuleID (ru_ID r) then [mkIssue ''gt.semantic.rule-id-format'' ''''] else []) = [] \<longleftrightarrow>
      matchRuleID (ru_ID r)"
    using matchRuleID_nonempty by auto
  have wh: "(case ru_When r of None \<Rightarrow> [mkIssue ''gt.semantic.when-required'' '''']
      | Some p \<Rightarrow> map (atPath ''when.'') (validatePred api p)) = [] \<longleftrightarrow>
      (\<exists>p. ru_When r = Some p \<and> wf_pred api p)"
    by (cases "ru_When r") (simp_all add: validatePred_ok)
  have "'''' \<notin> set semClosed"
    by (simp add: semClosed_def)
  then have ef: "(let ef = ru_Effect r in
      if ef_Type ef = ''pair'' then validatePair api ef
      else if ef_Type ef = ''annotate'' then validateAnnotate ef
      else if ef_Type ef = ''name'' then validateName ef
      else if ef_Type ef = '''' then [mkIssue ''gt.semantic.effect-required'' '''']
      else [mkIssue ''gt.semantic.effect-unknown'' '''']) = [] \<longleftrightarrow> effect_ok api (ru_Effect r)"
    by (auto simp: Let_def effect_ok_def validatePair_def validateAnnotate_def validateName_def validateSides_Nil)
  show ?thesis
    unfolding validateRule_def append_is_Nil_conv id wh ef rule_ok_def by simp
qed

lemma reportFrom_Nil:
  "reportFrom api i seen rs = [] \<longleftrightarrow>
     (\<forall>r \<in> set rs. rule_ok api r) \<and> distinct (map ru_ID rs) \<and> set (map ru_ID rs) \<inter> set seen = {}"
proof (induction rs arbitrary: i seen)
  case (Cons r rs)
  have "rule_ok api r \<Longrightarrow> ru_ID r \<noteq> ''''"
    by (simp add: rule_ok_def matchRuleID_nonempty)
  then show ?case
    by (auto simp: Let_def Cons.IH validateRule_ok split: if_splits)
qed simp

section \<open>What evaluation yields\<close>

definition annotates :: "('d, 'n :: linorder, 'v) gjson_api \<Rightarrow> 'd \<Rightarrow> 'v srule \<Rightarrow> bool" where
  "annotates api doc r \<longleftrightarrow> ef_Type (ru_Effect r) = ''annotate'' \<and> whenHolds api r doc"

definition pairHitOf :: "('d, 'n :: linorder, 'v) gjson_api \<Rightarrow> 'd \<Rightarrow> 'v srule \<Rightarrow> pairHit option" where
  "pairHitOf api doc r =
     (if ef_Type (ru_Effect r) = ''pair'' \<and> whenHolds api r doc then evalPair api r doc else None)"

lemma effectStep_eq:
  "effectStep api doc r res =
     res\<lparr>rr_Pairs := rr_Pairs res @ (case pairHitOf api doc r of None \<Rightarrow> [] | Some h \<Rightarrow> [h]),
         rr_Semantics :=
           (if annotates api doc r \<and> ef_Semantic (ru_Effect r) \<notin> set (rr_Semantics res)
            then rr_Semantics res @ [ef_Semantic (ru_Effect r)] else rr_Semantics res)\<rparr>"
  by (auto simp: effectStep_def pairHitOf_def annotates_def Let_def split: option.splits)

lemma effect_fold:
  "distinct (rr_Semantics res) \<Longrightarrow>
   (let out = fold (effectStep api doc) rules res in
    distinct (rr_Semantics out) \<and>
    set (rr_Semantics out) = set (rr_Semantics res) \<union> {ef_Semantic (ru_Effect r) | r. r \<in> set rules \<and> annotates api doc r} \<and>
    rr_Pairs out = rr_Pairs res @ List.map_filter (pairHitOf api doc) rules \<and>
    rr_Names out = rr_Names res)"
proof (induction rules arbitrary: res)
  case (Cons r rules)
  define res' where "res' = effectStep api doc r res"
  have "distinct (rr_Semantics res')"
    using Cons.prems by (simp add: res'_def effectStep_eq)
  from Cons.IH [OF this] show ?case
    by (auto simp: res'_def [symmetric] Let_def) (auto simp: res'_def effectStep_eq map_filter_simps split: if_splits option.splits)
qed (simp add: Let_def map_filter_simps)

lemma evalSides_side:
  "evalSides api rid i ss doc = Some h \<Longrightarrow>
   ph_RuleID h = rid \<and> (\<exists>j < length ss. ph_Side h = int (i + j) \<and> evalPred api (ps_Predicate (ss ! j)) doc \<and>
     ph_Key h = gj_String api (gj_Get api doc (ps_Key (ss ! j))))"
proof (induction ss arbitrary: i)
  case (Cons s ss)
  show ?case
  proof (cases "evalPred api (ps_Predicate s) doc")
    case True
    with Cons.prems show ?thesis
      by (auto simp: Let_def split: if_splits intro!: exI [of _ 0])
  next
    case False
    with Cons.prems Cons.IH [of "Suc i"] obtain j where "j < length ss" "ph_RuleID h = rid" "ph_Side h = int (Suc i + j)"
      "evalPred api (ps_Predicate (ss ! j)) doc" "ph_Key h = gj_String api (gj_Get api doc (ps_Key (ss ! j)))"
      by auto
    then show ?thesis
      by (intro conjI exI [of _ "Suc j"]) simp_all
  qed
qed simp

section \<open>Properties\<close>

text \<open>
  A query library for the witnesses: a document is a value or missing, a path is looked up
  by its dot-separated parts, numbers are the signed integers.
\<close>

definition demo_type :: "vval option \<Rightarrow> gtype" where
  "demo_type d =
     (case d of Some (VBool True) \<Rightarrow> GTrue | Some (VBool False) \<Rightarrow> GFalse | Some (VInt _) \<Rightarrow> GNumber
      | Some (VString _) \<Rightarrow> GString | Some (VArray _) \<Rightarrow> GJSON | Some (VObject _) \<Rightarrow> GJSON | _ \<Rightarrow> GNull)"

definition demo_api :: "(vval option, int, vval) gjson_api" where
  "demo_api =
     \<lparr>gj_Get = (\<lambda>d path. (case d of None \<Rightarrow> None | Some v \<Rightarrow> getByPath path v)),
      gj_Exists = (\<lambda>d. d \<noteq> None),
      gj_Type = demo_type,
      gj_Num = (\<lambda>d. case d of Some (VInt i) \<Rightarrow> sint i | _ \<Rightarrow> 0),
      gj_Str = (\<lambda>d. case d of Some (VString s) \<Rightarrow> s | _ \<Rightarrow> ''''),
      gj_Bool = (\<lambda>d. d = Some (VBool True)),
      gj_IsArray = (\<lambda>d. case d of Some (VArray _) \<Rightarrow> True | _ \<Rightarrow> False),
      gj_Array = (\<lambda>d. case d of Some (VArray a) \<Rightarrow> map Some a | _ \<Rightarrow> []),
      gj_String = (\<lambda>d. case d of Some (VString s) \<Rightarrow> s | Some (VInt i) \<Rightarrow> show_nat (nat (sint i)) | _ \<Rightarrow> ''''),
      gj_literal = (\<lambda>v. v),
      gj_Value = (\<lambda>d. case d of Some v \<Rightarrow> v | None \<Rightarrow> VNull),
      gj_reparse = (\<lambda>v. Some (Some v))\<rparr>"

definition demo_rules :: "vval srule list" where
  "demo_rules =
     [\<lparr>ru_ID = ''game.name'', ru_When = Some (Pred [] [] ''cmd'' ''exists'' None),
       ru_Effect = \<lparr>ef_Type = ''name'', ef_Key = ''cmd'', ef_Sides = [], ef_Semantic = ''''\<rparr>\<rparr>,
      \<lparr>ru_ID = ''game.pair'', ru_When = Some (Pred [] [] ''seq'' ''neq'' (Some (VInt 0))),
       ru_Effect = \<lparr>ef_Type = ''pair'', ef_Key = '''',
         ef_Sides = [\<lparr>ps_Predicate = Pred [] [] ''dir'' ''eq'' (Some (VString ''up'')), ps_Key = ''seq''\<rparr>,
                     \<lparr>ps_Predicate = Pred [] [] ''dir'' ''eq'' (Some (VString ''down'')), ps_Key = ''ack''\<rparr>],
         ef_Semantic = ''''\<rparr>\<rparr>,
      \<lparr>ru_ID = ''game.err'', ru_When = Some (Pred [Pred [] [] ''_meta.msg_name'' ''prefix'' (Some (VString ''Lo''))] [] '''' '''' None),
       ru_Effect = \<lparr>ef_Type = ''annotate'', ef_Key = '''', ef_Sides = [], ef_Semantic = ''request''\<rparr>\<rparr>]"

definition demo_up :: "vval option" where
  "demo_up = Some (VObject [(''cmd'', VString ''Login''), (''seq'', VInt 7), (''dir'', VString ''up'')])"

definition demo_down :: "vval option" where
  "demo_down = Some (VObject [(''seq'', VInt 9), (''ack'', VInt 7), (''dir'', VString ''down'')])"

lemma demo_report: "rulesReport demo_api demo_rules = []"
  by code_simp

text \<open>
  Validation is exact: \<open>RulesReport\<close> finds no issue if and only if every rule has a
  well-formed identifier, predicate and effect, and no two rules share an identifier.
\<close>

theorem rules_report_exact:
  "rulesReport api rules = [] \<longleftrightarrow> (\<forall>r \<in> set rules. rule_ok api r) \<and> distinct (map ru_ID rules)"
  by (simp add: rulesReport_def reportFrom_Nil)

theorem rules_report_exact_witness: "list_all (rule_ok demo_api) demo_rules"
  using rules_report_exact [of demo_api demo_rules] demo_report by (simp add: list_all_iff)

text \<open>
  Evaluation does what the rules declare: on the document with the first extracted
  message name written into it, the semantic labels are those of exactly the annotate rules
  whose predicate holds, each once, and the pair hits are those of the pair rules, in the
  order of declaration.
\<close>

theorem evaluate_meets_rules:
  assumes "namePass api rules [] doc = (names, doc')" and "res = evaluate api rules doc"
  shows "distinct (rr_Semantics res) \<and>
    set (rr_Semantics res) =
      {ef_Semantic (ru_Effect r) | r. r \<in> set rules \<and> ef_Type (ru_Effect r) = ''annotate'' \<and> whenHolds api r doc'} \<and>
    rr_Pairs res = List.map_filter (pairHitOf api doc') rules \<and> rr_Names res = names"
  using effect_fold [of "\<lparr>rr_Semantics = [], rr_Pairs = [], rr_Names = names\<rparr>" api doc' rules] assms
  by (simp add: evaluate_def Let_def annotates_def)

theorem evaluate_meets_rules_witness:
  "let res = evaluate demo_api demo_rules demo_up in
   distinct (rr_Semantics res) \<and> rr_Semantics res = [''request''] \<and>
   rr_Pairs res = [\<lparr>ph_RuleID = ''game.pair'', ph_Key = ''7'', ph_Side = 0\<rparr>]"
proof -
  have v: "rr_Semantics (evaluate demo_api demo_rules demo_up) = [''request''] \<and>
      rr_Pairs (evaluate demo_api demo_rules demo_up) = [\<lparr>ph_RuleID = ''game.pair'', ph_Key = ''7'', ph_Side = 0\<rparr>]"
    by code_simp
  obtain names doc' where "namePass demo_api demo_rules [] demo_up = (names, doc')"
    by (metis prod.exhaust)
  from evaluate_meets_rules [OF this refl] v show ?thesis
    by (simp add: Let_def)
qed

text \<open>
  Pairing joins a request with a response: for hits of validated rules on two events,
  \<open>MatchPair\<close> holds exactly when they come from the same rule, carry the same key and play
  the two different roles of that rule; it is symmetric.
\<close>

theorem match_pair_roles:
  assumes "rulesReport api rules = []"
    and "a \<in> set (rr_Pairs (evaluate api rules doc1))" and "b \<in> set (rr_Pairs (evaluate api rules doc2))"
  shows "(matchPair a b \<longleftrightarrow> ph_RuleID a = ph_RuleID b \<and> ph_Key a = ph_Key b \<and> {ph_Side a, ph_Side b} = {0, 1}) \<and>
    (matchPair a b \<longleftrightarrow> matchPair b a)"
proof -
  have side: "ph_RuleID h \<noteq> '''' \<and> (ph_Side h = 0 \<or> ph_Side h = 1)"
    if "h \<in> set (rr_Pairs (evaluate api rules doc))" for h doc
  proof -
    obtain names doc' where np: "namePass api rules [] doc = (names, doc')"
      by (metis prod.exhaust)
    have "rr_Pairs (evaluate api rules doc) = List.map_filter (pairHitOf api doc') rules"
      using effect_fold [of "\<lparr>rr_Semantics = [], rr_Pairs = [], rr_Names = names\<rparr>" api doc' rules] np
      by (simp add: evaluate_def Let_def)
    with that obtain r where r: "r \<in> set rules" "pairHitOf api doc' r = Some h"
      by (auto simp: List.map_filter_def)
    have "rule_ok api r"
      using assms(1) r(1) by (simp add: rulesReport_def reportFrom_Nil)
    then have ok: "matchRuleID (ru_ID r)" "ef_Type (ru_Effect r) = ''pair'' \<longrightarrow> length (ef_Sides (ru_Effect r)) = 2"
      by (auto simp: rule_ok_def effect_ok_def)
    have ty: "ef_Type (ru_Effect r) = ''pair''" and ev: "evalPair api r doc' = Some h"
      using r(2) by (auto simp: pairHitOf_def split: if_splits)
    with evalSides_side [of api "ru_ID r" 0 "ef_Sides (ru_Effect r)" doc' h] ok matchRuleID_nonempty show ?thesis
      by (auto simp: evalPair_def)
  qed
  show ?thesis
    using side [OF assms(2)] side [OF assms(3)] by (auto simp: matchPair_def)
qed

theorem match_pair_roles_witness:
  "\<exists>a b. a \<in> set (rr_Pairs (evaluate demo_api demo_rules demo_up)) \<and>
     b \<in> set (rr_Pairs (evaluate demo_api demo_rules demo_down)) \<and> matchPair a b \<and> matchPair b a"
proof -
  define a b where "a = \<lparr>ph_RuleID = ''game.pair'', ph_Key = ''7'', ph_Side = 0\<rparr>"
    and "b = \<lparr>ph_RuleID = ''game.pair'', ph_Key = ''7'', ph_Side = 1\<rparr>"
  have "rr_Pairs (evaluate demo_api demo_rules demo_up) = [a] \<and> rr_Pairs (evaluate demo_api demo_rules demo_down) = [b]"
    unfolding a_def b_def by code_simp
  then have in': "a \<in> set (rr_Pairs (evaluate demo_api demo_rules demo_up))"
      "b \<in> set (rr_Pairs (evaluate demo_api demo_rules demo_down))"
    by simp_all
  from match_pair_roles [OF demo_report this] have "matchPair a b \<and> matchPair b a"
    by (auto simp: a_def b_def)
  with in' show ?thesis
    by blast
qed

end
