(* ===== verification/Authz.thy ===== *)
theory Authz
  imports GT_Prelude
begin

text \<open>
  \<open>pkg/authz/authz.go\<close>: the policy that decides every controlled action. An action or kind
  outside the constants of the package is \<open>OtherAction\<close> or \<open>OtherKind\<close>. An allowed decision
  is \<open>None\<close>, a refusal is the reason that wraps \<open>ErrForbidden\<close>.
\<close>

section \<open>Data\<close>

datatype action =
  ProjectRead | ProjectUpdate | ProjectDelete | ProjectManageMembers | ProjectManagePlugins
| ProjectManageRules | ProjectTransferOwner | SessionRead | SessionUse | SessionDelete
| SessionMoveProject | PluginRead | PluginUse | PluginManage | LeaseUse | LeaseRelease
| ProbeRead | ProbeUse | ProbeControl | ProbeManage | UserManage | OtherAction string

datatype reskind = KindProject | KindSession | KindPlugin | KindLease | KindProbe | KindUser | OtherKind string

definition DefaultTenant :: string where
  "DefaultTenant = ''default''"

record resource =
  rs_Kind :: reskind
  rs_ID :: string
  rs_TenantID :: string
  rs_ProjectID :: string
  rs_CreatorID :: string

record principal =
  pr_User :: string
  pr_Tenant :: string
  pr_IsAdmin :: bool

datatype role = RoleNone | RoleMember | RoleAdmin | RoleOwner

definition roleLevel :: "role \<Rightarrow> int" where
  "roleLevel r = (case r of RoleOwner \<Rightarrow> 3 | RoleAdmin \<Rightarrow> 2 | RoleMember \<Rightarrow> 1 | RoleNone \<Rightarrow> 0)"

text \<open>Roles are ordered by their level.\<close>

instantiation role :: linorder
begin

definition less_eq_role :: "role \<Rightarrow> role \<Rightarrow> bool" where
  "r \<le> s \<longleftrightarrow> roleLevel r \<le> roleLevel s"

definition less_role :: "role \<Rightarrow> role \<Rightarrow> bool" where
  "r < s \<longleftrightarrow> roleLevel r < roleLevel s"

instance
  by standard (auto simp: less_eq_role_def less_role_def roleLevel_def split: role.splits)

end

definition roleAtLeast :: "role \<Rightarrow> role \<Rightarrow> bool" where
  "roleAtLeast got want \<longleftrightarrow> roleLevel want \<le> roleLevel got"

definition resTenant :: "resource \<Rightarrow> string" where
  "resTenant r = (if rs_TenantID r = '''' then DefaultTenant else rs_TenantID r)"

definition inProject :: "resource \<Rightarrow> bool" where
  "inProject r \<longleftrightarrow> rs_ProjectID r \<noteq> ''''"

definition principalTenant :: "principal \<Rightarrow> string" where
  "principalTenant p = (if pr_Tenant p = '''' then DefaultTenant else pr_Tenant p)"

text \<open>The identity in a request context: absent means anonymous.\<close>

definition principalFrom :: "principal option \<Rightarrow> principal" where
  "principalFrom ctx = (case ctx of Some p \<Rightarrow> p | None \<Rightarrow> \<lparr>pr_User = '''', pr_Tenant = '''', pr_IsAdmin = False\<rparr>)"

section \<open>The decision\<close>

datatype forbidden =
  TenantMismatch | RoleTooLow role | UnsupportedAction | NotCreator | NeedsAdmin | UnsupportedKind

definition projectActionRole :: "action \<Rightarrow> role option" where
  "projectActionRole a =
     (case a of ProjectRead \<Rightarrow> Some RoleMember | ProjectUpdate \<Rightarrow> Some RoleOwner | ProjectDelete \<Rightarrow> Some RoleOwner
      | ProjectManageMembers \<Rightarrow> Some RoleAdmin | ProjectManagePlugins \<Rightarrow> Some RoleAdmin
      | ProjectManageRules \<Rightarrow> Some RoleAdmin | ProjectTransferOwner \<Rightarrow> Some RoleOwner | _ \<Rightarrow> None)"

definition sessionProjectActionRole :: "action \<Rightarrow> role option" where
  "sessionProjectActionRole a =
     (case a of SessionRead \<Rightarrow> Some RoleMember | SessionUse \<Rightarrow> Some RoleMember | SessionDelete \<Rightarrow> Some RoleAdmin
      | SessionMoveProject \<Rightarrow> Some RoleAdmin | _ \<Rightarrow> None)"

definition memberCreatorAllowed :: "action \<Rightarrow> bool" where
  "memberCreatorAllowed a \<longleftrightarrow> a = SessionDelete \<or> a = SessionMoveProject"

definition decideSession :: "principal \<Rightarrow> action \<Rightarrow> resource \<Rightarrow> role \<Rightarrow> forbidden option" where
  "decideSession p a r rl =
     (if inProject r then
        (case sessionProjectActionRole a of
           None \<Rightarrow> Some UnsupportedAction
         | Some minRole \<Rightarrow>
             if roleAtLeast rl minRole then None
             else if memberCreatorAllowed a \<and> rs_CreatorID r = pr_User p \<and> pr_User p \<noteq> '''' then None
             else Some (RoleTooLow minRole))
      else if (a = SessionRead \<or> a = SessionUse \<or> a = SessionDelete \<or> a = SessionMoveProject) \<and>
              rs_CreatorID r = pr_User p
      then None
      else Some NotCreator)"

definition decideProbe :: "principal \<Rightarrow> action \<Rightarrow> resource \<Rightarrow> forbidden option" where
  "decideProbe p a r =
     (if a \<notin> {ProbeRead, ProbeUse, ProbeControl, ProbeManage} then Some UnsupportedAction
      else if rs_CreatorID r \<noteq> '''' \<and> rs_CreatorID r = pr_User p then None
      else Some NotCreator)"

definition decideProjectScoped :: "principal \<Rightarrow> action \<Rightarrow> resource \<Rightarrow> role \<Rightarrow> forbidden option" where
  "decideProjectScoped p a r rl =
     (case a of
        PluginRead \<Rightarrow> None
      | PluginManage \<Rightarrow>
          if inProject r then (if roleAtLeast rl RoleAdmin then None else Some (RoleTooLow RoleAdmin))
          else if rs_CreatorID r = pr_User p then None
          else Some NotCreator
      | _ \<Rightarrow>
          if a \<in> {PluginUse, LeaseUse, LeaseRelease} then
            (if inProject r then (if roleAtLeast rl RoleMember then None else Some (RoleTooLow RoleMember))
             else if rs_CreatorID r = pr_User p then None
             else Some NotCreator)
          else Some UnsupportedAction)"

definition decide :: "principal \<Rightarrow> action \<Rightarrow> resource \<Rightarrow> role \<Rightarrow> forbidden option" where
  "decide p a r rl =
     (if principalTenant p \<noteq> resTenant r then Some TenantMismatch
      else if pr_IsAdmin p then None
      else
        (case projectActionRole a of
           Some minRole \<Rightarrow> if roleAtLeast rl minRole then None else Some (RoleTooLow minRole)
         | None \<Rightarrow>
             (case rs_Kind r of
                KindSession \<Rightarrow> decideSession p a r rl
              | KindPlugin \<Rightarrow> decideProjectScoped p a r rl
              | KindLease \<Rightarrow> decideProjectScoped p a r rl
              | KindProbe \<Rightarrow> decideProbe p a r
              | KindUser \<Rightarrow> Some NeedsAdmin
              | KindProject \<Rightarrow> Some UnsupportedAction
              | OtherKind _ \<Rightarrow> Some UnsupportedKind)))"

section \<open>The permission matrix\<close>

text \<open>
  The matrix as rules: who is granted what. Project actions go by role; sessions, plugins and
  leases of a project go by role, personal ones by creator; probes by creator only; users by
  administrators only.
\<close>

inductive granted :: "principal \<Rightarrow> action \<Rightarrow> resource \<Rightarrow> role \<Rightarrow> bool" where
  admin: "pr_IsAdmin p \<Longrightarrow> granted p a r rl"
| project: "projectActionRole a = Some m \<Longrightarrow> m \<le> rl \<Longrightarrow> granted p a r rl"
| session_role: "rs_Kind r = KindSession \<Longrightarrow> inProject r \<Longrightarrow> sessionProjectActionRole a = Some m \<Longrightarrow> m \<le> rl \<Longrightarrow>
    granted p a r rl"
| session_creator: "rs_Kind r = KindSession \<Longrightarrow> inProject r \<Longrightarrow> a \<in> {SessionDelete, SessionMoveProject} \<Longrightarrow>
    rs_CreatorID r = pr_User p \<Longrightarrow> pr_User p \<noteq> '''' \<Longrightarrow> granted p a r rl"
| session_own: "rs_Kind r = KindSession \<Longrightarrow> \<not> inProject r \<Longrightarrow> sessionProjectActionRole a = Some m \<Longrightarrow>
    rs_CreatorID r = pr_User p \<Longrightarrow> granted p a r rl"
| plugin_read: "rs_Kind r \<in> {KindPlugin, KindLease} \<Longrightarrow> granted p PluginRead r rl"
| scoped_use: "rs_Kind r \<in> {KindPlugin, KindLease} \<Longrightarrow> inProject r \<Longrightarrow> a \<in> {PluginUse, LeaseUse, LeaseRelease} \<Longrightarrow>
    RoleMember \<le> rl \<Longrightarrow> granted p a r rl"
| scoped_manage: "rs_Kind r \<in> {KindPlugin, KindLease} \<Longrightarrow> inProject r \<Longrightarrow> RoleAdmin \<le> rl \<Longrightarrow>
    granted p PluginManage r rl"
| scoped_own: "rs_Kind r \<in> {KindPlugin, KindLease} \<Longrightarrow> \<not> inProject r \<Longrightarrow>
    a \<in> {PluginUse, LeaseUse, LeaseRelease, PluginManage} \<Longrightarrow> rs_CreatorID r = pr_User p \<Longrightarrow> granted p a r rl"
| probe: "rs_Kind r = KindProbe \<Longrightarrow> a \<in> {ProbeRead, ProbeUse, ProbeControl, ProbeManage} \<Longrightarrow>
    rs_CreatorID r = pr_User p \<Longrightarrow> rs_CreatorID r \<noteq> '''' \<Longrightarrow> granted p a r rl"

lemma roleAtLeast_le: "roleAtLeast got want \<longleftrightarrow> want \<le> got"
  by (simp add: roleAtLeast_def less_eq_role_def)

lemmas decide_defs = decide_def decideSession_def decideProjectScoped_def decideProbe_def roleAtLeast_le
  memberCreatorAllowed_def

lemma granted_decide:
  assumes "granted p a r rl" and "principalTenant p = resTenant r"
  shows "decide p a r rl = None"
  using assms
  by cases (auto simp: decide_defs projectActionRole_def sessionProjectActionRole_def split: action.splits)

lemma decide_granted:
  assumes "decide p a r rl = None"
  shows "granted p a r rl"
proof (cases "pr_IsAdmin p")
  case True
  then show ?thesis
    by (rule granted.admin)
next
  case notadmin: False
  have ten: "principalTenant p = resTenant r"
    using assms by (auto simp: decide_def split: if_splits)
  show ?thesis
  proof (cases "projectActionRole a")
    case (Some m)
    with assms notadmin ten show ?thesis
      by (auto simp: decide_def roleAtLeast_le intro: granted.project split: if_splits)
  next
    case None
    note rest = assms [unfolded decide_def] notadmin ten None
    show ?thesis
    proof (cases "rs_Kind r")
      case KindSession
      with rest have d: "decideSession p a r rl = None"
        by simp
      show ?thesis
      proof (cases "inProject r")
        case True
        with d obtain m where "sessionProjectActionRole a = Some m"
          by (auto simp: decideSession_def split: option.splits)
        with d True KindSession show ?thesis
          by (auto simp: decideSession_def roleAtLeast_le memberCreatorAllowed_def
              intro: granted.session_role granted.session_creator split: if_splits)
      next
        case False
        with d have c: "rs_CreatorID r = pr_User p" "a \<in> {SessionRead, SessionUse, SessionDelete, SessionMoveProject}"
          by (auto simp: decideSession_def split: if_splits)
        then obtain m where "sessionProjectActionRole a = Some m"
          by (auto simp: sessionProjectActionRole_def)
        with c False KindSession show ?thesis
          by (auto intro: granted.session_own)
      qed
    next
      case KindPlugin
      with rest have "decideProjectScoped p a r rl = None"
        by simp
      with KindPlugin show ?thesis
        by (auto simp: decideProjectScoped_def roleAtLeast_le
            intro: granted.plugin_read granted.scoped_use granted.scoped_manage granted.scoped_own
            split: action.splits if_splits)
    next
      case KindLease
      with rest have "decideProjectScoped p a r rl = None"
        by simp
      with KindLease show ?thesis
        by (auto simp: decideProjectScoped_def roleAtLeast_le
            intro: granted.plugin_read granted.scoped_use granted.scoped_manage granted.scoped_own
            split: action.splits if_splits)
    next
      case KindProbe
      with rest have "decideProbe p a r = None"
        by simp
      with KindProbe show ?thesis
        by (auto simp: decideProbe_def intro: granted.probe split: if_splits)
    qed (use rest in simp_all)
  qed
qed

section \<open>Properties\<close>


text \<open>
  (C8) Tenants are isolated: no action crosses a tenant border, not even for a global
  administrator or an owner; an empty tenant is the default one.
\<close>

theorem tenant_isolation:
  assumes "principalTenant p \<noteq> resTenant r"
  shows "decide p a r rl = Some TenantMismatch"
  using assms by (simp add: decide_def)

theorem tenant_isolation_witness:
  "decide \<lparr>pr_User = ''root'', pr_Tenant = '''', pr_IsAdmin = True\<rparr> ProjectRead
     \<lparr>rs_Kind = KindProject, rs_ID = ''p'', rs_TenantID = ''acme'', rs_ProjectID = '''', rs_CreatorID = ''root''\<rparr> RoleOwner =
   Some TenantMismatch"
  by (rule tenant_isolation) (simp add: principalTenant_def resTenant_def DefaultTenant_def)

text \<open>
  A higher role never loses a permission: whatever a role allows, every higher role
  allows too.
\<close>

theorem role_monotone:
  assumes "rl \<le> rl'" and "decide p a r rl = None"
  shows "decide p a r rl' = None"
proof -
  have ten: "principalTenant p = resTenant r"
    using assms(2) by (auto simp: decide_def split: if_splits)
  have "granted p a r rl"
    by (rule decide_granted [OF assms(2)])
  then have "granted p a r rl'"
    using assms(1) by cases (auto intro: granted.intros order.trans)
  with ten show ?thesis
    by (intro granted_decide)
qed

theorem role_monotone_witness:
  "decide \<lparr>pr_User = ''bob'', pr_Tenant = '''', pr_IsAdmin = False\<rparr> SessionDelete
     \<lparr>rs_Kind = KindSession, rs_ID = ''s'', rs_TenantID = '''', rs_ProjectID = ''p'', rs_CreatorID = ''al''\<rparr> RoleOwner = None"
proof -
  have "RoleAdmin \<le> RoleOwner"
    by (simp add: less_eq_role_def roleLevel_def)
  then show ?thesis
    by (rule role_monotone) (simp add: decide_defs projectActionRole_def sessionProjectActionRole_def
        principalTenant_def resTenant_def inProject_def)
qed

text \<open>
  The creator exception does not ask for membership: somebody who has no role in a
  project any more may still delete a session of the project, or move it out, if he created it.
\<close>

theorem creator_without_membership:
  assumes "principalTenant p = resTenant r" and "rs_Kind r = KindSession" and "inProject r"
    and "rs_CreatorID r = pr_User p" and "pr_User p \<noteq> ''''" and "a = SessionDelete \<or> a = SessionMoveProject"
  shows "decide p a r RoleNone = None"
  using assms by (intro granted_decide granted.session_creator) auto

theorem creator_without_membership_witness:
  "decide \<lparr>pr_User = ''bob'', pr_Tenant = '''', pr_IsAdmin = False\<rparr> SessionDelete
     \<lparr>rs_Kind = KindSession, rs_ID = ''s'', rs_TenantID = '''', rs_ProjectID = ''p'', rs_CreatorID = ''bob''\<rparr> RoleNone = None"
  by (rule creator_without_membership) (simp_all add: principalTenant_def resTenant_def inProject_def)

end
