(* ===== verification/Event_Model.thy ===== *)
theory Event_Model
  imports Event_Value Framing
begin

text \<open>
  \<open>pkg/event/identity.go\<close>, \<open>event.go\<close>, \<open>trace.go\<close>, \<open>payload.go\<close> and \<open>adapter.go\<close>: event
  identifiers, the event record with its immutable updates, state changes and the split of a
  flat payload into business data, meta information and analysis. The clock and the random
  bytes are arguments.
\<close>

unbundle bit_operations_syntax

section \<open>Event identifiers\<close>

record uuid_state =
  uuidv7LastMs :: int
  uuidv7Sequence :: u16

definition hex_digit :: "nat \<Rightarrow> char" where
  "hex_digit n = ''0123456789abcdef'' ! n"

fun formatFrom :: "nat \<Rightarrow> byte list \<Rightarrow> string" where
  "formatFrom i [] = []"
| "formatFrom i (b # bs) =
     (if i = 4 \<or> i = 6 \<or> i = 8 \<or> i = 10 then ''-'' else []) @
     [hex_digit (unat b div 16), hex_digit (unat b mod 16)] @ formatFrom (Suc i) bs"

definition formatUUID :: "byte list \<Rightarrow> string" where
  "formatUUID uuid = formatFrom 0 uuid"

definition id_prefix :: "int \<Rightarrow> u16 \<Rightarrow> byte list" where
  "id_prefix nowMs s =
     (let t = (word_of_int nowMs :: u64) in
      [ucast (drop_bit 40 t), ucast (drop_bit 32 t), ucast (drop_bit 24 t), ucast (drop_bit 16 t),
       ucast (drop_bit 8 t), ucast t, 0x70 OR (ucast (drop_bit 8 s) AND 0x0F), ucast s])"

definition nextSequence :: "int \<Rightarrow> byte \<times> byte \<Rightarrow> uuid_state \<Rightarrow> uuid_state \<times> int" where
  "nextSequence nowMs r st =
     (if nowMs \<le> uuidv7LastMs st then
        (let s = uuidv7Sequence st + 1 in
         if 0xFFF < s then
           (st\<lparr>uuidv7LastMs := uuidv7LastMs st + 1, uuidv7Sequence := 0\<rparr>, uuidv7LastMs st + 1)
         else (st\<lparr>uuidv7Sequence := s\<rparr>, nowMs))
      else
        (st\<lparr>uuidv7LastMs := nowMs,
            uuidv7Sequence := (push_bit 4 (ucast (fst r)) OR drop_bit 4 (ucast (snd r))) AND 0x0FFF\<rparr>, nowMs))"

definition newEventID :: "int \<Rightarrow> byte \<times> byte \<Rightarrow> byte list \<Rightarrow> uuid_state \<Rightarrow> uuid_state \<times> string" where
  "newEventID nowMs r rnd st =
     (case nextSequence nowMs r st of
        (st', ms) \<Rightarrow>
          (st', formatUUID (id_prefix ms (uuidv7Sequence st') @
                  ((hd rnd AND 0x3F) OR 0x80) # tl rnd)))"

section \<open>The event record\<close>

type_synonym eventID = string

record identity =
  id_ID :: eventID
  id_SessionID :: string
  id_Type :: string
  id_Source :: string
  id_Timestamp :: time
  id_ScenarioID :: string
  id_ReplayID :: string

datatype event_error = ErrMissingEventID | ErrMissingEventType | ErrMissingTimestamp

text \<open>The zero \<open>time.Time\<close> is a fixed instant; \<open>zero\<close> stands for its nanoseconds.\<close>

definition validateIdentity :: "time \<Rightarrow> identity \<Rightarrow> event_error option" where
  "validateIdentity zero i =
     (if id_ID i = '''' then Some ErrMissingEventID
      else if id_Type i = '''' then Some ErrMissingEventType
      else if id_Timestamp i = zero then Some ErrMissingTimestamp
      else None)"

definition identityIsZero :: "identity \<Rightarrow> bool" where
  "identityIsZero i \<longleftrightarrow> id_ID i = '''' \<and> id_SessionID i = '''' \<and> id_Type i = ''''"

definition newIdentityWithTime ::
  "int \<Rightarrow> byte \<times> byte \<Rightarrow> byte list \<Rightarrow> string \<Rightarrow> string \<Rightarrow> string \<Rightarrow> time \<Rightarrow> uuid_state \<Rightarrow> uuid_state \<times> identity"
where
  "newIdentityWithTime nowMs r rnd sessionID eventType source ts st =
     (case newEventID nowMs r rnd st of
        (st, i) \<Rightarrow> (st, \<lparr>id_ID = i, id_SessionID = sessionID, id_Type = eventType, id_Source = source,
                          id_Timestamp = ts, id_ScenarioID = '''', id_ReplayID = ''''\<rparr>))"

record traceContext =
  tc_CausationID :: eventID
  tc_CorrelationID :: string
  tc_OriginID :: eventID

definition emptyTrace :: traceContext where
  "emptyTrace = \<lparr>tc_CausationID = '''', tc_CorrelationID = '''', tc_OriginID = ''''\<rparr>"

definition traceIsZero :: "traceContext \<Rightarrow> bool" where
  "traceIsZero t \<longleftrightarrow> tc_CausationID t = '''' \<and> tc_CorrelationID t = '''' \<and> tc_OriginID t = ''''"

definition traceWithCausation :: "eventID \<Rightarrow> traceContext \<Rightarrow> traceContext" where
  "traceWithCausation c t = t\<lparr>tc_CausationID := c\<rparr>"

definition traceWithCorrelation :: "string \<Rightarrow> traceContext \<Rightarrow> traceContext" where
  "traceWithCorrelation c t = t\<lparr>tc_CorrelationID := c\<rparr>"

definition traceWithOrigin :: "eventID \<Rightarrow> traceContext \<Rightarrow> traceContext" where
  "traceWithOrigin o' t = t\<lparr>tc_OriginID := o'\<rparr>"

record eventContext =
  ec_FlowID :: string
  ec_RawPacketID :: string
  ec_MessageOrdinal :: u64
  ec_Direction :: string
  ec_ConnID :: string
  ec_Source :: string
  ec_PeerKey :: string

definition emptyContext :: eventContext where
  "emptyContext =
     \<lparr>ec_FlowID = '''', ec_RawPacketID = '''', ec_MessageOrdinal = 0, ec_Direction = '''', ec_ConnID = '''',
      ec_Source = '''', ec_PeerKey = ''''\<rparr>"

definition contextValue :: "eventContext \<Rightarrow> vval" where
  "contextValue c = VObject
     [(''flow_id'', VString (ec_FlowID c)), (''raw_packet_id'', VString (ec_RawPacketID c)),
      (''message_ordinal'', VInt (ec_MessageOrdinal c)), (''direction'', VString (ec_Direction c)),
      (''conn_id'', VString (ec_ConnID c)), (''source'', VString (ec_Source c)),
      (''peer_key'', VString (ec_PeerKey c))]"

definition marshalContext :: "(msgpackValue \<Rightarrow> byte list) \<Rightarrow> eventContext \<Rightarrow> byte list" where
  "marshalContext enc c = marshalMsgpack enc (contextValue c)"

text \<open>A field of an object: its string or integer when it is there and has that kind.\<close>

definition strField :: "(string \<times> vval) list \<Rightarrow> string \<Rightarrow> string" where
  "strField obj k = (case map_of obj k of None \<Rightarrow> '''' | Some f \<Rightarrow> (case asString f of None \<Rightarrow> '''' | Some s \<Rightarrow> s))"

definition intField :: "(string \<times> vval) list \<Rightarrow> string \<Rightarrow> u64" where
  "intField obj k = (case map_of obj k of None \<Rightarrow> 0 | Some f \<Rightarrow> (case asInt f of None \<Rightarrow> 0 | Some n \<Rightarrow> n))"

definition valField :: "(string \<times> vval) list \<Rightarrow> string \<Rightarrow> vval" where
  "valField obj k = (case map_of obj k of None \<Rightarrow> VNull | Some v \<Rightarrow> v)"

definition unmarshalContext :: "(byte list \<Rightarrow> msgpackValue option) \<Rightarrow> byte list \<Rightarrow> conv_error + eventContext" where
  "unmarshalContext dec bytes =
     (case unmarshalValueMsgpack dec bytes of
        Inl e \<Rightarrow> Inl e
      | Inr v \<Rightarrow>
          Inr (case asObject v of
                 None \<Rightarrow> emptyContext
               | Some obj \<Rightarrow>
                   \<lparr>ec_FlowID = strField obj ''flow_id'', ec_RawPacketID = strField obj ''raw_packet_id'',
                    ec_MessageOrdinal = intField obj ''message_ordinal'', ec_Direction = strField obj ''direction'',
                    ec_ConnID = strField obj ''conn_id'', ec_Source = strField obj ''source'',
                    ec_PeerKey = strField obj ''peer_key''\<rparr>))"

record event =
  ev_Identity :: identity
  ev_Trace :: traceContext
  ev_Context :: eventContext
  ev_Payload :: vval
  ev_Meta :: vval
  ev_Analysis :: vval

definition newEventWithTime ::
  "int \<Rightarrow> byte \<times> byte \<Rightarrow> byte list \<Rightarrow> string \<Rightarrow> string \<Rightarrow> string \<Rightarrow> vval \<Rightarrow> time \<Rightarrow> eventContext \<Rightarrow> uuid_state \<Rightarrow>
   uuid_state \<times> event"
where
  "newEventWithTime nowMs r rnd sessionID eventType source payload ts ctx st =
     (case newIdentityWithTime nowMs r rnd sessionID eventType source ts st of
        (st, i) \<Rightarrow> (st, \<lparr>ev_Identity = i, ev_Trace = emptyTrace, ev_Context = ctx, ev_Payload = payload,
                          ev_Meta = VNull, ev_Analysis = VNull\<rparr>))"

definition validateEvent :: "time \<Rightarrow> event \<Rightarrow> event_error option" where
  "validateEvent zero e = validateIdentity zero (ev_Identity e)"

definition withTrace :: "traceContext \<Rightarrow> event \<Rightarrow> event" where
  "withTrace t e = e\<lparr>ev_Trace := t\<rparr>"

definition withCausation :: "eventID \<Rightarrow> event \<Rightarrow> event" where
  "withCausation c e = withTrace (traceWithCausation c (ev_Trace e)) e"

definition withCorrelation :: "string \<Rightarrow> event \<Rightarrow> event" where
  "withCorrelation c e = withTrace (traceWithCorrelation c (ev_Trace e)) e"

definition withOrigin :: "eventID \<Rightarrow> event \<Rightarrow> event" where
  "withOrigin o' e = withTrace (traceWithOrigin o' (ev_Trace e)) e"

definition withMeta :: "vval \<Rightarrow> event \<Rightarrow> event" where
  "withMeta m e = e\<lparr>ev_Meta := m\<rparr>"

definition withAnalysis :: "vval \<Rightarrow> event \<Rightarrow> event" where
  "withAnalysis a e = e\<lparr>ev_Analysis := a\<rparr>"

definition metaValue :: "string \<Rightarrow> event \<Rightarrow> vval option" where
  "metaValue key e =
     (case (case asObject (ev_Meta e) of None \<Rightarrow> None | Some m \<Rightarrow> map_of m key) of
        Some v \<Rightarrow> Some v
      | None \<Rightarrow>
          (case asObject (ev_Payload e) of
             None \<Rightarrow> None
           | Some obj \<Rightarrow>
               (case map_of obj ''_meta'' of
                  None \<Rightarrow> None
                | Some meta \<Rightarrow> (case asObject meta of None \<Rightarrow> None | Some m \<Rightarrow> map_of m key))))"

definition tcpFlagsString :: "tcp_flags \<Rightarrow> string" where
  "tcpFlagsString f =
     (let parts = (if FIN f then [''FIN''] else []) @ (if SYN f then [''SYN''] else []) @
                  (if RST f then [''RST''] else []) @ (if ACK f then [''ACK''] else []) @
                  (if PSH f then [''PSH''] else []) @ (if URG f then [''URG''] else [])
      in case parts of [] \<Rightarrow> [] | p # ps \<Rightarrow> p @ concat (map (\<lambda>q. CHR ''|'' # q) ps))"

definition hasCloseFlags :: "tcp_flags \<Rightarrow> bool" where
  "hasCloseFlags f \<longleftrightarrow> FIN f \<or> RST f"

section \<open>State changes\<close>

record stateChange =
  sc_SubjectType :: string
  sc_SubjectID :: string
  sc_Op :: string
  sc_Path :: string
  sc_Before :: vval
  sc_After :: vval
  sc_Version :: u64
  sc_Metadata :: vval

datatype change_error =
  SubjectTypeRequired | SubjectIDRequired | OpRequired | PathRequired | SetNeedsAfter | MergeNeedsObject | OpUnsupported

text \<open>\<open>strings.TrimSpace(s) == ""\<close>: only white space (ASCII).\<close>

definition is_space :: "char \<Rightarrow> bool" where
  "is_space c \<longleftrightarrow> c \<in> {CHR '' '', CHR 0x09, CHR 0x0A, CHR 0x0B, CHR 0x0C, CHR 0x0D}"

definition blank :: "string \<Rightarrow> bool" where
  "blank s \<longleftrightarrow> list_all is_space s"

definition validateChange :: "stateChange \<Rightarrow> change_error option" where
  "validateChange sc =
     (if blank (sc_SubjectType sc) then Some SubjectTypeRequired
      else if blank (sc_SubjectID sc) then Some SubjectIDRequired
      else if blank (sc_Op sc) then Some OpRequired
      else if blank (sc_Path sc) then Some PathRequired
      else if sc_Op sc = ''set'' then (if kind (sc_After sc) = KNull then Some SetNeedsAfter else None)
      else if sc_Op sc = ''merge'' then (if kind (sc_After sc) \<noteq> KObject then Some MergeNeedsObject else None)
      else if sc_Op sc = ''delete'' then None
      else Some OpUnsupported)"

definition changeOf :: "(string \<times> vval) list \<Rightarrow> stateChange" where
  "changeOf io =
     \<lparr>sc_SubjectType = strField io ''subject_type'', sc_SubjectID = strField io ''subject_id'',
      sc_Op = strField io ''op'', sc_Path = strField io ''path'', sc_Before = valField io ''before'',
      sc_After = valField io ''after'', sc_Version = intField io ''version'', sc_Metadata = valField io ''metadata''\<rparr>"

text \<open>A nil slice is the empty list: the caller only tests for \<open>nil\<close>.\<close>

definition extractStateChanges :: "vval \<Rightarrow> stateChange list" where
  "extractStateChanges v =
     (case asObject v of
        None \<Rightarrow> []
      | Some obj \<Rightarrow>
          (case map_of obj ''_state_changes'' of
             None \<Rightarrow> []
           | Some raw \<Rightarrow>
               (case asArray raw of
                  None \<Rightarrow> []
                | Some arr \<Rightarrow> map changeOf (List.map_filter asObject arr))))"

definition eventStateChanges :: "event \<Rightarrow> stateChange list" where
  "eventStateChanges e =
     (case extractStateChanges (ev_Analysis e) of
        [] \<Rightarrow> extractStateChanges (ev_Payload e)
      | scs \<Rightarrow> scs)"

section \<open>Reserved keys\<close>

definition analysisKeys :: "string list" where
  "analysisKeys = [''_state_changes'', ''entity'', ''entity_type'', ''entity_id'', ''change_count'']"

definition metaTopKeys :: "string list" where
  "metaTopKeys = [''direction'', ''msg_name'', ''role'', ''is_push'']"

text \<open>One key of the loop of \<open>SplitReservedKeys\<close>: business, meta and analysis maps.\<close>

definition splitKey ::
  "string \<times> vval \<Rightarrow> (string \<times> vval) list \<times> (string \<times> vval) list \<times> (string \<times> vval) list \<Rightarrow>
   (string \<times> vval) list \<times> (string \<times> vval) list \<times> (string \<times> vval) list"
where
  "splitKey = (\<lambda>(k, val) (biz, meta, analysis).
     if k = ''_meta'' then
       (case asObject val of
          Some mo \<Rightarrow> (biz, fold (\<lambda>(mk, mv). AList.update mk mv) mo meta, analysis)
        | None \<Rightarrow> (biz, AList.update ''_meta'' val meta, analysis))
     else if k \<in> set analysisKeys then (biz, meta, AList.update k val analysis)
     else if k \<in> set metaTopKeys then (biz, AList.update k val meta, analysis)
     else (AList.update k val biz, meta, analysis))"

definition splitReservedKeys :: "vval \<Rightarrow> vval \<times> vval \<times> vval" where
  "splitReservedKeys v =
     (case asObject v of
        None \<Rightarrow> (v, VNull, VNull)
      | Some obj \<Rightarrow>
          (case fold splitKey obj ([], [], []) of
             (biz, meta, analysis) \<Rightarrow> (VObject biz, VObject meta, VObject analysis)))"

definition putAll :: "(string \<times> vval) list \<Rightarrow> (string \<times> vval) list \<Rightarrow> (string \<times> vval) list" where
  "putAll src dst = fold (\<lambda>(k, v). AList.update k v) src dst"

definition objectOr :: "vval \<Rightarrow> (string \<times> vval) list" where
  "objectOr v = (case asObject v of None \<Rightarrow> [] | Some m \<Rightarrow> m)"

definition mergeReservedKeys :: "vval \<Rightarrow> vval \<Rightarrow> vval \<Rightarrow> vval" where
  "mergeReservedKeys business meta analysis =
     (let obj = putAll (objectOr analysis) (putAll (objectOr business) []);
          mo = objectOr meta;
          obj = (if mo = [] then obj
                 else putAll (filter (\<lambda>(k, _). k \<in> set metaTopKeys) mo)
                        (AList.update ''_meta'' (VObject mo) obj))
      in VObject obj)"

section \<open>Order of identifiers\<close>

lemma lex_append:
  fixes a b :: "'a :: linorder list"
  shows "length a = length b \<Longrightarrow> a < b \<Longrightarrow> a @ r < b @ s"
  by (induction a b rule: list_induct2) auto

lemma hex_digit_mono: "i < j \<Longrightarrow> j < 16 \<Longrightarrow> hex_digit i < hex_digit j"
proof -
  have "list_all (\<lambda>j. list_all (\<lambda>i. hex_digit i < hex_digit j) [0..<j]) [0..<16]"
    by code_simp
  then show "i < j \<Longrightarrow> j < 16 \<Longrightarrow> hex_digit i < hex_digit j"
    by (simp add: list_all_iff)
qed

lemma unat_byte_bound: "unat (b :: byte) < 256"
  using unsigned_less [of b, where 'a = nat] by simp

lemma hex_byte_mono:
  fixes x y :: byte
  assumes "x < y"
  shows "[hex_digit (unat x div 16), hex_digit (unat x mod 16)] < [hex_digit (unat y div 16), hex_digit (unat y mod 16)]"
proof -
  have lt: "unat x < unat y"
    using assms by (simp add: word_less_nat_alt)
  have "unat y < 256"
    by (rule unat_byte_bound)
  then have y: "unat y div 16 < 16"
    by linarith
  have "unat x div 16 < unat y div 16 \<or> unat x div 16 = unat y div 16 \<and> unat x mod 16 < unat y mod 16"
    using lt by (metis div_le_mono div_mult_mod_eq le_eq_less_or_eq less_imp_le_nat nat_add_left_cancel_less)
  then show ?thesis
    using hex_digit_mono y by auto
qed

lemma formatFrom_mono:
  "length xs = length ys \<Longrightarrow> xs < ys \<Longrightarrow> formatFrom i xs < formatFrom i ys"
proof (induction xs ys arbitrary: i rule: list_induct2)
  case (Cons x xs y ys)
  define sep where "sep = (if i = 4 \<or> i = 6 \<or> i = 8 \<or> i = 10 then ''-'' else [])"
  have pre: "sep @ a < sep @ b" if "a < b" for a b :: string
    using that by (simp add: sep_def)
  show ?case
  proof (cases "x = y")
    case True
    with Cons have "formatFrom (Suc i) xs < formatFrom (Suc i) ys"
      by simp
    with True pre show ?thesis
      by (simp flip: sep_def)
  next
    case False
    with Cons.prems have "x < y"
      by simp
    from lex_append [OF _ hex_byte_mono [OF this], of "formatFrom (Suc i) xs" "formatFrom (Suc i) ys"] pre
    show ?thesis
      by (simp flip: sep_def)
  qed
qed simp

definition be_value :: "byte list \<Rightarrow> nat" where
  "be_value bs = foldl (\<lambda>n b. n * 256 + unat b) 0 bs"

lemma foldl_be: "foldl (\<lambda>n b. n * 256 + unat b) n bs = n * 256 ^ length bs + be_value bs"
proof (induction bs arbitrary: n)
  case (Cons b bs)
  from Cons.IH [of "n * 256 + unat b"] Cons.IH [of "unat b"] show ?case
    by (simp add: be_value_def algebra_simps)
qed (simp add: be_value_def)

lemma be_value_Cons: "be_value (b # bs) = unat b * 256 ^ length bs + be_value bs"
  using foldl_be [of "unat b" bs] by (simp add: be_value_def)

lemma be_value_bound: "be_value bs < 256 ^ length bs"
proof (induction bs)
  case (Cons b bs)
  have "unat b < 256"
    by (rule unat_byte_bound)
  then have "unat b * 256 ^ length bs + 256 ^ length bs \<le> 256 * 256 ^ length bs"
    by (metis Suc_leI add.commute mult_Suc mult_le_mono1)
  with Cons show ?case
    unfolding be_value_Cons length_Cons power_Suc by linarith
qed (simp add: be_value_def)

lemma be_value_less: "length xs = length ys \<Longrightarrow> be_value xs < be_value ys \<Longrightarrow> xs < ys"
proof (induction xs ys rule: list_induct2)
  case (Cons x xs y ys)
  show ?case
  proof (cases "x = y")
    case True
    with Cons show ?thesis
      by (simp add: be_value_Cons)
  next
    case False
    have "\<not> y < x"
    proof
      assume "y < x"
      then have "unat y + 1 \<le> unat x"
        by (simp add: word_less_nat_alt)
      then have "unat y * 256 ^ length ys + 256 ^ length ys \<le> unat x * 256 ^ length ys"
        by (metis add.commute mult_Suc mult_le_mono1 plus_1_eq_Suc)
      with Cons be_value_bound [of ys] show False
        by (simp add: be_value_Cons)
    qed
    with False show ?thesis
      by auto
  qed
qed simp

lemma unat_byte: "unat (ucast (drop_bit n (w :: 'a :: len word)) :: byte) = unat w div 2 ^ n mod 256"
  by (simp only: unsigned_ucast_eq unat_drop_bit_eq) (simp add: drop_bit_eq_div take_bit_eq_mod)

lemma horner_byte: "(x :: nat) div 2 ^ (n + 8) * 256 + x div 2 ^ n mod 256 = x div 2 ^ n"
proof -
  have "x div 2 ^ (n + 8) = x div 2 ^ n div 256"
    by (simp add: power_add div_mult2_eq)
  then show ?thesis
    by (simp add: div_mult_mod_eq)
qed

lemma version_byte:
  assumes "s \<le> (0xFFF :: u16)"
  shows "unat (0x70 OR (ucast (drop_bit 8 s) AND 0x0F) :: byte) = 0x70 + unat s div 256"
proof -
  have "unat s \<le> 4095"
    using assms by (simp add: word_le_nat_alt)
  then have lt: "unat s div 256 < 16"
    by linarith
  have "(ucast (drop_bit 8 s) :: byte) = of_nat (unat s div 256)"
    using lt by (simp add: unat_byte unat_of_nat word_unat_eq_iff)
  moreover have "list_all (\<lambda>n. unat (0x70 OR (of_nat n AND 0x0F) :: byte) = 0x70 + n) [0..<16]"
    by code_simp
  ultimately show ?thesis
    using lt by (simp add: list_all_iff)
qed

lemma id_prefix_value:
  assumes "0 \<le> ms" and "ms < 2 ^ 48" and "s \<le> 0xFFF"
  shows "be_value (id_prefix ms s) = nat ms * 65536 + 0x7000 + unat s"
proof -
  define t where "t = (word_of_int ms :: u64)"
  define m where "m = nat ms"
  have m: "unat t = m" "m div 2 ^ 40 < 256"
    using assms(1,2) by (simp_all add: m_def t_def unat_eq_nat_uint uint_word_of_int_eq take_bit_int_eq_self)
  have b7: "unat (ucast s :: byte) = unat s mod 256" and b5: "unat (ucast t :: byte) = m mod 256"
    using unat_byte [of 0 s] unat_byte [of 0 t] m(1) by simp_all
  have "foldl (\<lambda>n b. n * 256 + unat b) 0
      [ucast (drop_bit 40 t), ucast (drop_bit 32 t), ucast (drop_bit 24 t), ucast (drop_bit 16 t),
       ucast (drop_bit 8 t), ucast t :: byte] = m"
    using horner_byte [of m 32] horner_byte [of m 24] horner_byte [of m 16] horner_byte [of m 8] horner_byte [of m 0] m(2)
    by (simp add: unat_byte m(1) b5)
  then have "be_value (id_prefix ms s) = (m * 256 + (0x70 + unat s div 256)) * 256 + unat s mod 256"
    by (simp add: be_value_def id_prefix_def Let_def b7 version_byte [OF assms(3)] flip: t_def)
  also have "\<dots> = m * 65536 + 0x7000 + (unat s div 256 * 256 + unat s mod 256)"
    by simp
  finally show ?thesis
    by (simp add: m_def)
qed

lemma length_id_prefix [simp]: "length (id_prefix ms s) = 8"
  by (simp add: id_prefix_def Let_def)

lemma event_id_less:
  assumes "0 \<le> ms" and "ms < 2 ^ 48" and "s \<le> 0xFFF" and "0 \<le> ms'" and "ms' < 2 ^ 48" and "s' \<le> 0xFFF"
    and "ms < ms' \<or> ms = ms' \<and> s < s'" and "length r = length r'"
  shows "formatUUID (id_prefix ms s @ r) < formatUUID (id_prefix ms' s' @ r')"
proof -
  have s: "unat s \<le> 4095" "unat s' \<le> 4095"
    using assms(3,6) by (simp_all add: word_le_nat_alt)
  have "nat ms * 65536 + unat s < nat ms' * 65536 + unat s'"
  proof (cases "ms < ms'")
    case True
    then have "nat ms + 1 \<le> nat ms'"
      using assms(1) by linarith
    with s show ?thesis
      by linarith
  next
    case False
    with assms(7) show ?thesis
      by (simp add: word_less_nat_alt)
  qed
  then have "be_value (id_prefix ms s) < be_value (id_prefix ms' s')"
    using assms(1-6) by (simp add: id_prefix_value)
  then have "id_prefix ms s < id_prefix ms' s'"
    by (rule be_value_less [rotated]) simp
  then have "id_prefix ms s @ r < id_prefix ms' s' @ r'"
    by (rule lex_append [rotated]) simp
  with assms(8) show ?thesis
    unfolding formatUUID_def by (intro formatFrom_mono) simp_all
qed

lemma masked_le: "(x :: u16) AND 0x0FFF \<le> 0xFFF"
  by (rule word_and_le1)

section \<open>Reserved keys as maps\<close>

lemma map_of_putAll:
  "distinct (map fst src) \<Longrightarrow> map_of (putAll src dst) = map_of dst ++ map_of src"
proof (induction src arbitrary: dst)
  case (Cons p src)
  obtain k v where p: "p = (k, v)"
    by (cases p)
  have "putAll (p # src) dst = putAll src (AList.update k v dst)"
    by (simp add: putAll_def p)
  moreover have "map_of src k = None"
    using Cons.prems by (simp add: p map_of_eq_None_iff)
  ultimately show ?case
    using Cons by (auto simp: p update_conv' map_add_def fun_eq_iff split: option.splits)
qed (simp add: putAll_def)

lemma distinct_putAll: "distinct (map fst dst) \<Longrightarrow> distinct (map fst (putAll src dst))"
  by (induction src arbitrary: dst) (auto simp: putAll_def distinct_update)

text \<open>The three parts of a split, as maps: which keys of the object go where.\<close>

definition plain_key :: "string \<Rightarrow> bool" where
  "plain_key k \<longleftrightarrow> k \<noteq> ''_meta'' \<and> k \<notin> set analysisKeys \<and> k \<notin> set metaTopKeys"

lemma split_others:
  assumes "distinct (map fst obj)"
  shows "map_of (fst (fold splitKey obj (biz, meta, an))) k =
      (if plain_key k then (map_of biz ++ map_of obj) k else map_of biz k) \<and>
    map_of (snd (snd (fold splitKey obj (biz, meta, an)))) k =
      (if k \<in> set analysisKeys then (map_of an ++ map_of obj) k else map_of an k)"
  using assms
proof (induction obj arbitrary: biz meta an)
  case (Cons p obj)
  obtain j v where p: "p = (j, v)"
    by (cases p)
  have none: "map_of obj j = None" and d: "distinct (map fst obj)"
    using Cons.prems by (simp_all add: p map_of_eq_None_iff)
  have disj: "''_meta'' \<notin> set analysisKeys"
    by (simp add: analysisKeys_def)
  obtain biz' meta' an' where st: "splitKey p (biz, meta, an) = (biz', meta', an')"
    by (metis prod_cases3)
  have b: "map_of biz' = (if plain_key j then (map_of biz)(j \<mapsto> v) else map_of biz)"
    and a: "map_of an' = (if j \<in> set analysisKeys then (map_of an)(j \<mapsto> v) else map_of an)"
    using st disj by (auto simp: p splitKey_def plain_key_def update_conv' split: if_splits option.splits)
  show ?case
    using Cons.IH [OF d, of biz' meta' an'] none
    by (cases "k = j"; cases "map_of obj k") (simp_all add: st [unfolded p] a b p map_add_def)
qed simp

lemma split_meta_step:
  assumes "splitKey p (biz, meta, an) = (biz', meta', an')" and "p = (j, v)"
    and "j = ''_meta'' \<Longrightarrow> v = VObject mo \<and> distinct (map fst mo)"
  shows "map_of meta' = (if j = ''_meta'' then map_of meta ++ map_of mo
    else if j \<in> set metaTopKeys \<and> j \<notin> set analysisKeys then (map_of meta)(j \<mapsto> v) else map_of meta)"
  using assms map_of_putAll [of mo meta]
  by (auto simp: splitKey_def asObject_def update_conv' putAll_def split: if_splits)

lemma split_meta:
  assumes "distinct (map fst obj)" and "\<And>v. map_of obj ''_meta'' = Some v \<Longrightarrow> v = VObject mo"
    and "distinct (map fst mo)"
    and "\<And>k v. k \<in> set metaTopKeys \<Longrightarrow> map_of obj k = Some v \<Longrightarrow> map_of mo k = Some v"
    and "\<forall>k. map_of meta k = None \<or> map_of meta k = map_of mo k"
  shows "map_of (fst (snd (fold splitKey obj (biz, meta, an)))) k =
    (if map_of obj ''_meta'' \<noteq> None then map_of mo k
     else if k \<in> set metaTopKeys then (map_of meta ++ map_of obj) k else map_of meta k)"
  using assms
proof (induction obj arbitrary: biz meta an)
  case Nil
  show ?case by simp
next
  case (Cons p obj)
  obtain j v where p: "p = (j, v)"
    by (cases p)
  have none: "map_of obj j = None" and d: "distinct (map fst obj)"
    using Cons.prems(1) by (simp_all add: p map_of_eq_None_iff)
  have disj: "''_meta'' \<notin> set metaTopKeys" "set metaTopKeys \<inter> set analysisKeys = {}"
    by (simp_all add: analysisKeys_def metaTopKeys_def)
  obtain biz' meta' an' where st: "splitKey p (biz, meta, an) = (biz', meta', an')"
    by (metis prod_cases3)
  have v: "v = VObject mo" if "j = ''_meta''"
    using Cons.prems(2) [of v] that by (simp add: p)
  have m: "map_of meta' = (if j = ''_meta'' then map_of meta ++ map_of mo
      else if j \<in> set metaTopKeys then (map_of meta)(j \<mapsto> v) else map_of meta)"
    using split_meta_step [OF st p, of mo] v Cons.prems(3) disj(2) by auto
  have top: "map_of mo j = Some v" if "j \<in> set metaTopKeys"
    using Cons.prems(4) [of j v] that by (simp add: p)
  have sub: "\<forall>k. map_of meta' k = None \<or> map_of meta' k = map_of mo k"
    using Cons.prems(5) top by (auto simp: m map_add_def split: option.splits)
  have 2: "v' = VObject mo" if "map_of obj ''_meta'' = Some v'" for v'
    using Cons.prems(2) [of v'] that none by (cases "j = ''_meta''") (auto simp: p)
  have 4: "map_of mo k = Some v'" if "k \<in> set metaTopKeys" "map_of obj k = Some v'" for k v'
    using Cons.prems(4) [of k v'] that none by (cases "k = j") (auto simp: p)
  have IH: "map_of (fst (snd (fold splitKey obj (biz', meta', an')))) k =
      (if map_of obj ''_meta'' \<noteq> None then map_of mo k
       else if k \<in> set metaTopKeys then (map_of meta' ++ map_of obj) k else map_of meta' k)"
    by (rule Cons.IH [OF d _ Cons.prems(3) _ sub]) (erule 2, erule (1) 4)
  show ?case
  proof (cases "j = ''_meta''")
    case True
    have mk: "map_of meta' k = map_of mo k"
      using Cons.prems(5) True by (auto simp: m map_add_def split: option.splits)
    have top': "(map_of meta' ++ map_of obj) k = map_of mo k" if "k \<in> set metaTopKeys"
    proof (cases "map_of obj k")
      case None
      with mk show ?thesis by (simp add: map_add_def)
    next
      case (Some x)
      with 4 [OF that Some] show ?thesis by simp
    qed
    have sm: "map_of (p # obj) ''_meta'' \<noteq> None"
      by (simp add: p True)
    have eq: "fold splitKey (p # obj) (biz, meta, an) = fold splitKey obj (biz', meta', an')"
      by (simp add: st)
    show ?thesis
      unfolding eq IH if_P [OF sm] using mk top' by presburger
  next
    case False
    then show ?thesis
      using IH none by (cases "k = j"; cases "map_of obj k") (simp_all add: st [unfolded p] p m map_add_def)
  qed
qed

lemma merged_map:
  assumes "distinct (map fst b)" and "distinct (map fst m)" and "distinct (map fst a)"
  shows "map_of (objectOr (mergeReservedKeys (VObject b) (VObject m) (VObject a))) =
      (if m = [] then map_of b ++ map_of a
       else (map_of b ++ map_of a)(''_meta'' \<mapsto> VObject m) ++ (\<lambda>k. if k \<in> set metaTopKeys then map_of m k else None))"
    and "distinct (map fst (objectOr (mergeReservedKeys (VObject b) (VObject m) (VObject a))))"
proof -
  define o1 where "o1 = putAll a (putAll b [])"
  have o1: "map_of o1 = map_of b ++ map_of a" "distinct (map fst o1)"
    using assms by (simp_all add: o1_def map_of_putAll distinct_putAll)
  define tops where "tops = filter (\<lambda>(k, _). k \<in> set metaTopKeys) m"
  have tops: "map_of tops = (\<lambda>k. if k \<in> set metaTopKeys then map_of m k else None)" "distinct (map fst tops)"
    using assms(2) map_of_filter_key [of "\<lambda>k. k \<in> set metaTopKeys" m]
    by (auto simp: tops_def fun_eq_iff intro: distinct_map_filter_key)
  have e: "objectOr (mergeReservedKeys (VObject b) (VObject m) (VObject a)) =
      (if m = [] then o1 else putAll tops (AList.update ''_meta'' (VObject m) o1))"
    by (simp add: mergeReservedKeys_def objectOr_def asObject_def Let_def o1_def tops_def)
  show "map_of (objectOr (mergeReservedKeys (VObject b) (VObject m) (VObject a))) =
      (if m = [] then map_of b ++ map_of a
       else (map_of b ++ map_of a)(''_meta'' \<mapsto> VObject m) ++ (\<lambda>k. if k \<in> set metaTopKeys then map_of m k else None))"
    unfolding e using o1 tops by (simp add: map_of_putAll update_conv')
  show "distinct (map fst (objectOr (mergeReservedKeys (VObject b) (VObject m) (VObject a))))"
    unfolding e using o1 by (simp add: distinct_putAll distinct_update)
qed

section \<open>Properties\<close>

text \<open>
  Identifiers sort by creation: as long as the clock does not run backwards and the
  counter of a millisecond does not overflow, an identifier is lexicographically smaller than
  the one created after it, whatever the random parts are.
\<close>

theorem event_ids_increase:
  assumes "newEventID now1 r1 rnd1 st = (st1, id1)" and "newEventID now2 r2 rnd2 st1 = (st2, id2)"
    and "0 \<le> now1" and "uuidv7LastMs st \<le> now1" and "now1 \<le> now2" and "now2 < 2 ^ 48"
    and "uuidv7Sequence st \<le> 0xFFF"
    and "now1 = uuidv7LastMs st \<longrightarrow> uuidv7Sequence st < 0xFFF" and "now2 = now1 \<longrightarrow> uuidv7Sequence st1 < 0xFFF"
    and "length rnd1 = length rnd2"
  shows "id1 < id2"
proof -
  have inc: "\<not> 0xFFF < x + 1 \<and> x + 1 \<le> 0xFFF \<and> x < x + 1" if "x < 0xFFF" for x :: u16
  proof -
    have "unat x < 4095"
      using that by (simp add: word_less_nat_alt)
    then have "unat (x + 1) = unat x + 1"
      by (simp add: unat_word_ariths(1))
    with \<open>unat x < 4095\<close> show ?thesis
      by (simp add: word_less_nat_alt word_le_nat_alt)
  qed
  have step: "newEventID now r rnd s = (s', i) \<Longrightarrow> uuidv7LastMs s \<le> now \<Longrightarrow>
      (now = uuidv7LastMs s \<longrightarrow> uuidv7Sequence s < 0xFFF) \<Longrightarrow>
      i = formatUUID (id_prefix now (uuidv7Sequence s') @ ((hd rnd AND 0x3F) OR 0x80) # tl rnd) \<and>
      uuidv7LastMs s' = now \<and> uuidv7Sequence s' \<le> 0xFFF \<and>
      (now = uuidv7LastMs s \<longrightarrow> uuidv7Sequence s < uuidv7Sequence s')" for now r rnd s s' i
    using inc [of "uuidv7Sequence s"] masked_le
    by (cases "now = uuidv7LastMs s") (auto simp: newEventID_def nextSequence_def Let_def)
  note s1 = step [OF assms(1,4,8)]
  have s2: "id2 = formatUUID (id_prefix now2 (uuidv7Sequence st2) @ ((hd rnd2 AND 0x3F) OR 0x80) # tl rnd2)"
    "uuidv7Sequence st2 \<le> 0xFFF" "now2 = now1 \<longrightarrow> uuidv7Sequence st1 < uuidv7Sequence st2"
    using step [OF assms(2)] s1 assms(5,9) by auto
  have "now1 < now2 \<or> now1 = now2 \<and> uuidv7Sequence st1 < uuidv7Sequence st2"
    using assms(5) s2(3) by force
  with s1 s2(1,2) assms(3,5,6,10) show ?thesis
    by (auto intro!: event_id_less)
qed

theorem event_ids_increase_witness:
  "let (st1, id1) = newEventID 1700000000000 (0xFF, 0) [1, 2, 3, 4, 5, 6, 7, 8] \<lparr>uuidv7LastMs = 0, uuidv7Sequence = 0\<rparr>;
       (st2, id2) = newEventID 1700000000000 (0, 0) [0, 0, 0, 0, 0, 0, 0, 0] st1
   in id1 = ''018bcfe5-6800-7ff0-8102-030405060708'' \<and> id1 < id2"
proof -
  define st0 where "st0 = \<lparr>uuidv7LastMs = 0, uuidv7Sequence = 0\<rparr>"
  define n1 where "n1 = newEventID 1700000000000 (0xFF, 0) [1, 2, 3, 4, 5, 6, 7, 8] st0"
  define n2 where "n2 = newEventID 1700000000000 (0, 0) [0, 0, 0, 0, 0, 0, 0, 0] (fst n1)"
  have v: "snd n1 = ''018bcfe5-6800-7ff0-8102-030405060708'' \<and> uuidv7Sequence (fst n1) = 0xFF0"
    unfolding n1_def st0_def by code_simp
  have e1: "newEventID 1700000000000 (0xFF, 0) [1, 2, 3, 4, 5, 6, 7, 8] st0 = (fst n1, snd n1)"
    and e2: "newEventID 1700000000000 (0, 0) [0, 0, 0, 0, 0, 0, 0, 0] (fst n1) = (fst n2, snd n2)"
    by (simp_all add: n1_def n2_def)
  have "snd n1 < snd n2"
    by (rule event_ids_increase [OF e1 e2]) (simp_all add: v, simp_all add: st0_def)
  with v show ?thesis
    unfolding Let_def st0_def [symmetric] e1 prod.case e2 by simp
qed

text \<open>
  When the counter of a millisecond overflows, the order breaks: the overflowing call
  takes the next millisecond, but the following call in the same millisecond goes back to the
  clock, so its identifier is smaller than the one before it.
\<close>

theorem event_id_order_breaks:
  assumes "newEventID now r1 rnd1 \<lparr>uuidv7LastMs = now, uuidv7Sequence = 0xFFF\<rparr> = (st1, id1)"
    and "newEventID now r2 rnd2 st1 = (st2, id2)"
    and "0 \<le> now" and "now + 1 < 2 ^ 48" and "length rnd1 = length rnd2"
  shows "id2 < id1"
proof -
  have 1: "st1 = \<lparr>uuidv7LastMs = now + 1, uuidv7Sequence = 0\<rparr>"
    "id1 = formatUUID (id_prefix (now + 1) 0 @ ((hd rnd1 AND 0x3F) OR 0x80) # tl rnd1)"
    using assms(1) by (auto simp: newEventID_def nextSequence_def)
  have 2: "id2 = formatUUID (id_prefix now 1 @ ((hd rnd2 AND 0x3F) OR 0x80) # tl rnd2)"
    using assms(2) by (auto simp: 1 newEventID_def nextSequence_def)
  show ?thesis
    unfolding 1 2 using assms(3-5) by (intro event_id_less) simp_all
qed

theorem event_id_order_breaks_witness:
  "let (st1, id1) = newEventID 5 (0, 0) [1] \<lparr>uuidv7LastMs = 5, uuidv7Sequence = 0xFFF\<rparr>;
       (st2, id2) = newEventID 5 (0, 0) [2] st1
   in id2 < id1"
  using event_id_order_breaks [of 5 "(0, 0)" "[1]" _ _ "(0, 0)" "[2]"] by (simp split: prod.splits)

text \<open>
  Splitting inverts merging: when the business part has no reserved key, the analysis
  part only analysis keys and the meta part is any object, splitting the merged payload gives
  back three objects that agree with the parts on every key.
\<close>

theorem split_after_merge:
  assumes "distinct (map fst b)" and "distinct (map fst m)" and "distinct (map fst a)"
    and "\<forall>k \<in> fst ` set b. plain_key k" and "\<forall>k \<in> fst ` set a. k \<in> set analysisKeys"
    and "splitReservedKeys (mergeReservedKeys (VObject b) (VObject m) (VObject a)) = (b', m', a')"
  shows "get_key k b' = map_of b k \<and> get_key k m' = map_of m k \<and> get_key k a' = map_of a k"
proof -
  define obj where "obj = objectOr (mergeReservedKeys (VObject b) (VObject m) (VObject a))"
  have obj: "mergeReservedKeys (VObject b) (VObject m) (VObject a) = VObject obj"
    by (simp add: obj_def mergeReservedKeys_def objectOr_def asObject_def Let_def)
  note mm = merged_map [OF assms(1-3), folded obj_def]
  have disj: "''_meta'' \<notin> set metaTopKeys" "''_meta'' \<notin> set analysisKeys" "set metaTopKeys \<inter> set analysisKeys = {}"
    by (simp_all add: analysisKeys_def metaTopKeys_def)
  have bk: "map_of b k = None" if "\<not> plain_key k" for k
    using assms(4) that by (metis map_of_eq_None_iff)
  have ak: "map_of a k = None" if "k \<notin> set analysisKeys" for k
    using assms(5) that by (metis map_of_eq_None_iff)
  define f where "f = fold splitKey obj ([], [], [])"
  have parts: "b' = VObject (fst f)" "m' = VObject (fst (snd f))" "a' = VObject (snd (snd f))"
    using assms(6) unfolding obj by (auto simp: splitReservedKeys_def asObject_def f_def split: prod.splits)
  have "map_of (fst f) k = map_of b k \<and> map_of (snd (snd f)) k = map_of a k"
  proof -
    have "map_of obj k = map_of b k" if "plain_key k"
      using that ak [of k] by (simp add: mm(1) plain_key_def map_add_def)
    moreover have "map_of obj k = map_of a k" if "k \<in> set analysisKeys"
      using that bk [of k] disj by (auto simp: mm(1) plain_key_def map_add_def split: option.splits)
    ultimately show ?thesis
      using split_others [OF mm(2), of "[]" "[]" "[]" k] bk [of k] ak [of k] by (auto simp: f_def)
  qed
  moreover have "map_of (fst (snd f)) k = map_of m k"
  proof -
    have meta: "map_of obj ''_meta'' = (if m = [] then None else Some (VObject m))"
      using disj bk [of "''_meta''"] ak [of "''_meta''"] by (simp add: mm(1) plain_key_def map_add_def)
    have top: "map_of obj j = map_of m j" if "j \<in> set metaTopKeys" for j
    proof -
      have "j \<notin> set analysisKeys" "j \<noteq> ''_meta''"
        using that disj by auto
      with that bk [of j] ak [of j] show ?thesis
        by (simp add: mm(1) plain_key_def map_add_def split: option.splits)
    qed
    have "map_of (fst (snd (fold splitKey obj ([], [], [])))) k =
        (if map_of obj ''_meta'' \<noteq> None then map_of m k
         else if k \<in> set metaTopKeys then (map_of [] ++ map_of obj) k else map_of [] k)"
      by (rule split_meta [OF mm(2) _ assms(2)]) (simp_all add: meta top split: if_splits)
    then show ?thesis
      using top by (auto simp: f_def meta)
  qed
  ultimately show ?thesis
    by (simp add: parts get_key_def)
qed

theorem split_after_merge_witness:
  "\<exists>b' m' a'. splitReservedKeys (mergeReservedKeys (VObject [(''hp'', VInt 1)]) (VObject [(''role'', VNull)])
      (VObject [(''entity'', VNull)])) = (b', m', a') \<and>
    get_key ''role'' m' = Some VNull \<and> get_key ''role'' b' = None"
proof -
  obtain b' m' a' where s: "splitReservedKeys (mergeReservedKeys (VObject [(''hp'', VInt 1)]) (VObject [(''role'', VNull)])
      (VObject [(''entity'', VNull)])) = (b', m', a')"
    by (metis prod_cases3)
  have "get_key ''role'' b' = map_of [(''hp'', VInt 1)] ''role'' \<and> get_key ''role'' m' = map_of [(''role'', VNull)] ''role'' \<and>
      get_key ''role'' a' = map_of [(''entity'', VNull)] ''role''"
    by (rule split_after_merge [OF _ _ _ _ _ s]) (simp_all add: plain_key_def analysisKeys_def metaTopKeys_def)
  with s show ?thesis
    by auto
qed

text \<open>
  The network context survives its MsgPack form field by field.
\<close>

theorem context_roundtrip:
  assumes "dec (enc (valueToMsgpack (contextValue c))) = Some (valueToMsgpack (contextValue c))"
  shows "unmarshalContext dec (marshalContext enc c) = Inr c"
proof -
  have "unmarshalValueMsgpack dec (marshalMsgpack enc (contextValue c)) = Inr (contextValue c)"
    by (simp add: unmarshalValueMsgpack_def marshalMsgpack_def assms msgpackToValue_inverse)
  then show ?thesis
    by (simp add: unmarshalContext_def marshalContext_def contextValue_def asObject_def strField_def intField_def
        asString_def asInt_def)
qed

theorem context_roundtrip_witness:
  "unmarshalContext (\<lambda>_. Some (valueToMsgpack (contextValue (emptyContext\<lparr>ec_FlowID := ''f''\<rparr>))))
     (marshalContext (\<lambda>_. []) (emptyContext\<lparr>ec_FlowID := ''f''\<rparr>)) = Inr (emptyContext\<lparr>ec_FlowID := ''f''\<rparr>)"
  by (rule context_roundtrip) simp

end
