(* ===== verification/Baseline.thy ===== *)
theory Baseline
  imports Event_Model
begin

text \<open>
  \<open>pkg/state/baseline.go\<close>: the entity baselines that turn the state changes a plugin reports
  into changes with a resolved value before and after. The manager works on the in-memory
  store. Baselines are shared by pointer: a change is visible in the store as soon as the
  loop of \<open>Apply\<close> makes it, before the final \<open>Put\<close>; the flag beside a touched baseline says
  whether it is the stored object. The store orders equally old entities arbitrarily.
\<close>

section \<open>Keys, baselines, store\<close>

datatype scope = ScopeSession | ScopePeer

definition scopeString :: "scope \<Rightarrow> string" where
  "scopeString s = (if s = ScopePeer then ''peer'' else ''session'')"

definition parseScope :: "string \<Rightarrow> scope" where
  "parseScope v = (if v = ''peer'' then ScopePeer else ScopeSession)"

record entityKey =
  ek_Scope :: string
  ek_FlowID :: string
  ek_SubjectType :: string
  ek_SubjectID :: string

record entityBaseline =
  bl_Key :: entityKey
  bl_Version :: u64
  bl_State :: "(string \<times> vval) list"
  bl_FirstSeen :: time
  bl_LastSeen :: time

record memoryStore =
  ms_items :: "(entityKey \<times> entityBaseline) list"
  ms_maxEntries :: int
  ms_sweepAt :: int
  ms_evicted :: int

definition maxBaselineEntries :: int where "maxBaselineEntries = 100000"
definition maxStateChangesPerEvent :: int where "maxStateChangesPerEvent = 4096"
definition baselineTTL :: time where "baselineTTL = 21600000000000"

definition newMemoryStore :: memoryStore where
  "newMemoryStore =
     \<lparr>ms_items = [], ms_maxEntries = maxBaselineEntries, ms_sweepAt = maxBaselineEntries, ms_evicted = 0\<rparr>"

definition storeGet :: "entityKey \<Rightarrow> memoryStore \<Rightarrow> entityBaseline option" where
  "storeGet key m = map_of (ms_items m) key"

definition evictOldest :: "memoryStore \<Rightarrow> memoryStore" where
  "evictOldest m =
     (let over = int (length (ms_items m)) - ms_maxEntries m in
      if over \<le> 0 then m\<lparr>ms_sweepAt := ms_maxEntries m + ms_maxEntries m div 8\<rparr>
      else
        (let keys = map fst (sort_key (\<lambda>(_, b). bl_LastSeen b) (ms_items m)) in
         m\<lparr>ms_items := filter (\<lambda>(k, _). k \<notin> set (take (nat over) keys)) (ms_items m),
           ms_evicted := ms_evicted m + over,
           ms_sweepAt := ms_maxEntries m + ms_maxEntries m div 8\<rparr>))"

definition storePut :: "entityBaseline \<Rightarrow> memoryStore \<Rightarrow> memoryStore" where
  "storePut base m =
     (let m = m\<lparr>ms_items := AList.update (bl_Key base) base (ms_items m)\<rparr> in
      if 0 < ms_maxEntries m \<and> ms_sweepAt m < int (length (ms_items m)) then evictOldest m else m)"

definition forgetScope :: "string \<Rightarrow> memoryStore \<Rightarrow> memoryStore \<times> nat" where
  "forgetScope sc m =
     (if sc = '''' then (m, 0)
      else
        (m\<lparr>ms_items := filter (\<lambda>(k, _). ek_Scope k \<noteq> sc) (ms_items m)\<rparr>,
         length (filter (\<lambda>(k, _). ek_Scope k = sc) (ms_items m))))"

definition storeLen :: "memoryStore \<Rightarrow> nat" where
  "storeLen m = length (ms_items m)"

section \<open>The manager\<close>

record baselineManager =
  bm_store :: memoryStore
  bm_scope :: scope
  bm_ttl :: time
  bm_noopSuppressed :: int
  bm_invalidSkipped :: int
  bm_truncated :: int

definition newBaselineManager :: "scope \<Rightarrow> baselineManager" where
  "newBaselineManager sc =
     \<lparr>bm_store = newMemoryStore, bm_scope = sc, bm_ttl = baselineTTL, bm_noopSuppressed = 0,
      bm_invalidSkipped = 0, bm_truncated = 0\<rparr>"

definition managerForgetScope :: "string \<Rightarrow> baselineManager \<Rightarrow> baselineManager \<times> nat" where
  "managerForgetScope sc bm =
     (case forgetScope sc (bm_store bm) of (m, n) \<Rightarrow> (bm\<lparr>bm_store := m\<rparr>, n))"

definition extractFlowIDFromEvent :: "event \<Rightarrow> string" where
  "extractFlowIDFromEvent ev =
     (if ec_FlowID (ev_Context ev) \<noteq> '''' then ec_FlowID (ev_Context ev)
      else
        (case asObject (ev_Payload ev) of
           None \<Rightarrow> ''''
         | Some obj \<Rightarrow>
             (case (case map_of obj ''_meta'' of
                      None \<Rightarrow> None
                    | Some meta \<Rightarrow>
                        (case asObject meta of
                           None \<Rightarrow> None
                         | Some mo \<Rightarrow> (case map_of mo ''flow_id'' of None \<Rightarrow> None | Some v \<Rightarrow> asString v))) of
                Some s \<Rightarrow> s
              | None \<Rightarrow>
                  (case map_of obj ''flow_id'' of
                     None \<Rightarrow> ''''
                   | Some v \<Rightarrow> (case asString v of None \<Rightarrow> '''' | Some s \<Rightarrow> s)))))"

definition entityScope :: "scope \<Rightarrow> event \<Rightarrow> string \<Rightarrow> string \<Rightarrow> string \<times> string" where
  "entityScope sc ev sessionID flowID =
     (if sc = ScopePeer \<and> ec_PeerKey (ev_Context ev) \<noteq> '''' then (ec_PeerKey (ev_Context ev), '''')
      else (sessionID, flowID))"

record enriched =
  en_Change :: stateChange
  en_EventID :: string
  en_FlowID :: string
  en_Timestamp :: time
  en_EntityVersion :: u64
  en_BeforeResolved :: bool
  en_AfterResolved :: bool
  en_Seq :: nat

type_synonym touched_map = "(entityKey \<times> entityBaseline \<times> bool) list"

text \<open>The baseline a change starts from, whether it is the stored object, and whether it has a past.\<close>

definition baseFor ::
  "time \<Rightarrow> time \<Rightarrow> entityKey \<Rightarrow> memoryStore \<Rightarrow> touched_map \<Rightarrow> entityBaseline \<times> bool \<times> bool"
where
  "baseFor ttl now key m touched =
     (case map_of touched key of
        Some (b, al) \<Rightarrow> (b, al, True)
      | None \<Rightarrow>
          (case storeGet key m of
             Some b \<Rightarrow>
               if 0 < ttl \<and> ttl < now - bl_LastSeen b then
                 (\<lparr>bl_Key = key, bl_Version = 0, bl_State = [], bl_FirstSeen = now, bl_LastSeen = now\<rparr>, False, False)
               else (b, True, True)
           | None \<Rightarrow>
               (\<lparr>bl_Key = key, bl_Version = 0, bl_State = [], bl_FirstSeen = now, bl_LastSeen = now\<rparr>, False, False)))"

definition effectiveValue :: "stateChange \<Rightarrow> entityBaseline \<Rightarrow> vval" where
  "effectiveValue sc base =
     (if sc_Op sc = ''merge'' then
        (case map_of (bl_State base) (sc_Path sc) of
           Some old \<Rightarrow>
             if kind old = KObject then
               (case merge_val old (sc_After sc) of Inr merged \<Rightarrow> merged | Inl _ \<Rightarrow> sc_After sc)
             else sc_After sc
         | None \<Rightarrow> sc_After sc)
      else if sc_Op sc = ''delete'' then VNull
      else sc_After sc)"

definition writeBase :: "time \<Rightarrow> stateChange \<Rightarrow> vval \<Rightarrow> entityBaseline \<Rightarrow> entityBaseline" where
  "writeBase now sc eff base =
     base\<lparr>bl_State :=
            (if sc_Op sc = ''delete'' then AList.delete (sc_Path sc) (bl_State base)
             else AList.update (sc_Path sc) eff (bl_State base)),
          bl_LastSeen := now,
          bl_Version := (if sint (bl_Version base) < sint (sc_Version sc) then sc_Version sc else bl_Version base)\<rparr>"

record applyState =
  ap_store :: memoryStore
  ap_touched :: touched_map
  ap_noop :: int
  ap_result :: "enriched list"

definition applyChange ::
  "time \<Rightarrow> time \<Rightarrow> string \<Rightarrow> string \<Rightarrow> string \<Rightarrow> nat \<times> stateChange \<Rightarrow> applyState \<Rightarrow> applyState"
where
  "applyChange ttl now eventID scp flowID = (\<lambda>(sq, sc) st.
     (let key = \<lparr>ek_Scope = scp, ek_FlowID = flowID, ek_SubjectType = sc_SubjectType sc, ek_SubjectID = sc_SubjectID sc\<rparr>
      in
      case baseFor ttl now key (ap_store st) (ap_touched st) of
        (base, aliased, exists) \<Rightarrow>
          (let before = (if exists then map_of (bl_State base) (sc_Path sc) else None);
               eff = effectiveValue sc base;
               en = \<lparr>en_Change = sc\<lparr>sc_Before := (case before of Some v \<Rightarrow> v | None \<Rightarrow> sc_Before sc), sc_After := eff\<rparr>,
                     en_EventID = eventID, en_FlowID = flowID, en_Timestamp = now, en_EntityVersion = sc_Version sc,
                     en_BeforeResolved = (before \<noteq> None), en_AfterResolved = (sc_Op sc \<noteq> ''delete''), en_Seq = sq\<rparr>
           in
           if (case before of Some v \<Rightarrow> equal_val v eff | None \<Rightarrow> False) then st\<lparr>ap_noop := ap_noop st + 1\<rparr>
           else
             (let base' = writeBase now sc eff base in
              st\<lparr>ap_store :=
                   (if aliased then (ap_store st)\<lparr>ms_items := AList.update key base' (ms_items (ap_store st))\<rparr>
                    else ap_store st),
                 ap_touched := AList.update key (base', aliased) (ap_touched st),
                 ap_result := ap_result st @ [en]\<rparr>))))"

definition applyEvent :: "event \<Rightarrow> string \<Rightarrow> baselineManager \<Rightarrow> baselineManager \<times> enriched list" where
  "applyEvent ev sessionID bm =
     (let changes = eventStateChanges ev in
      if changes = [] then (bm, [])
      else
        (let over = int (length changes) - maxStateChangesPerEvent;
             changes = (if 0 < over then take (nat maxStateChangesPerEvent) changes else changes);
             bm = (if 0 < over then bm\<lparr>bm_truncated := bm_truncated bm + over\<rparr> else bm);
             numbered = zip [1..<length changes + 1] changes;
             valid = filter (\<lambda>(_, sc). validateChange sc = None) numbered;
             bm = bm\<lparr>bm_invalidSkipped := bm_invalidSkipped bm + int (length numbered) - int (length valid)\<rparr>
         in
         if valid = [] then (bm, [])
         else
           (let flowID = extractFlowIDFromEvent ev in
            case entityScope (bm_scope bm) ev sessionID flowID of
              (scp, flow) \<Rightarrow>
                (let st = fold (applyChange (bm_ttl bm) (id_Timestamp (ev_Identity ev)) (id_ID (ev_Identity ev)) scp flow)
                            valid \<lparr>ap_store = bm_store bm, ap_touched = [], ap_noop = bm_noopSuppressed bm, ap_result = []\<rparr>
                 in
                 (bm\<lparr>bm_store := fold storePut (map (\<lambda>(_, b, _). b) (ap_touched st)) (ap_store st),
                     bm_noopSuppressed := ap_noop st\<rparr>,
                  ap_result st)))))"

section \<open>Capacity\<close>

text \<open>The store never grows beyond its water mark, which is an eighth above the limit at most.\<close>

definition store_ok :: "memoryStore \<Rightarrow> bool" where
  "store_ok m \<longleftrightarrow>
     0 < ms_maxEntries m \<and> distinct (map fst (ms_items m)) \<and>
     list_all (\<lambda>(k, b). bl_Key b = k) (ms_items m) \<and> int (length (ms_items m)) \<le> ms_sweepAt m \<and>
     ms_maxEntries m \<le> ms_sweepAt m \<and> ms_sweepAt m \<le> ms_maxEntries m + ms_maxEntries m div 8"

lemma filter_keys_length:
  assumes "distinct (map fst xs)" and "distinct ks" and "set ks \<subseteq> fst ` set xs"
  shows "length (filter (\<lambda>(k, _). k \<notin> set ks) xs) = length xs - length ks"
proof -
  have "length (filter (\<lambda>(k, _). k \<in> set ks) xs) = length ks"
  proof -
    have "distinct (map fst (filter (\<lambda>(k, _). k \<in> set ks) xs))"
      using assms(1) by (rule distinct_map_filter_key)
    moreover have "set (map fst (filter (\<lambda>(k, _). k \<in> set ks) xs)) = set ks"
    proof -
      have "fst ` {x \<in> set xs. fst x \<in> set ks} = fst ` set xs \<inter> set ks"
        by blast
      then show ?thesis
        using assms(3) by (simp add: case_prod_unfold Int_absorb1)
    qed
    ultimately show ?thesis
      using assms(2) by (metis distinct_card length_map)
  qed
  moreover have "length (filter (\<lambda>(k, _). k \<in> set ks) xs) + length (filter (\<lambda>(k, _). k \<notin> set ks) xs) = length xs"
    using sum_length_filter_compl [of "\<lambda>(k, _). k \<in> set ks" xs] by (simp add: case_prod_unfold)
  ultimately show ?thesis
    by linarith
qed

definition eviction_order :: "memoryStore \<Rightarrow> (entityKey \<times> entityBaseline) list" where
  "eviction_order m = sort_key (\<lambda>(_, b). bl_LastSeen b) (ms_items m)"

definition overflow :: "memoryStore \<Rightarrow> int" where
  "overflow m = int (length (ms_items m)) - ms_maxEntries m"

lemma evictOldest_items:
  "ms_items (evictOldest m) =
     filter (\<lambda>(k, _). k \<notin> set (map fst (take (nat (overflow m)) (eviction_order m)))) (ms_items m)"
  by (auto simp: evictOldest_def overflow_def eviction_order_def Let_def take_map intro: filter_True [symmetric])

lemma evictOldest_fields [simp]:
  "ms_maxEntries (evictOldest m) = ms_maxEntries m"
  "ms_sweepAt (evictOldest m) = ms_maxEntries m + ms_maxEntries m div 8"
  "ms_evicted (evictOldest m) = ms_evicted m + max 0 (overflow m)"
  by (auto simp: evictOldest_def overflow_def Let_def)

lemma distinct_eviction_order: "distinct (map fst (ms_items m)) \<Longrightarrow> distinct (map fst (eviction_order m))"
  unfolding eviction_order_def by (simp add: distinct_map inj_on_def)

lemma evictOldest_length:
  assumes "distinct (map fst (ms_items m))" and "0 \<le> ms_maxEntries m"
  shows "int (length (ms_items (evictOldest m))) = min (int (length (ms_items m))) (ms_maxEntries m)"
proof -
  let ?ks = "map fst (take (nat (overflow m)) (eviction_order m))"
  have "distinct ?ks"
    using distinct_eviction_order [OF assms(1)] by (simp add: take_map [symmetric])
  moreover have "set ?ks \<subseteq> fst ` set (ms_items m)"
    by (auto simp: eviction_order_def dest!: in_set_takeD)
  ultimately have "length (ms_items (evictOldest m)) = length (ms_items m) - length ?ks"
    unfolding evictOldest_items using filter_keys_length [OF assms(1)] by blast
  moreover have "length ?ks = nat (overflow m)"
    using assms(2) by (simp add: overflow_def eviction_order_def)
  ultimately show ?thesis
    using assms(2) by (simp add: overflow_def)
qed

lemma sorted_take_drop:
  assumes "sorted (map f xs)" and "x \<in> set (take n xs)" and "y \<in> set (drop n xs)"
  shows "f x \<le> f y"
proof -
  have "sorted (map f (take n xs) @ map f (drop n xs))"
    using assms(1) by (simp flip: map_append)
  then show ?thesis
    using assms(2,3) by (auto simp: sorted_append)
qed

lemma evicted_are_oldest:
  assumes "distinct (map fst (ms_items m))"
    and "(k, b) \<in> set (ms_items m) - set (ms_items (evictOldest m))" and "(k', b') \<in> set (ms_items (evictOldest m))"
  shows "bl_LastSeen b \<le> bl_LastSeen b'"
proof -
  let ?ord = "eviction_order m" and ?n = "nat (overflow m)"
  have set_ord: "set ?ord = set (ms_items m)"
    by (simp add: eviction_order_def)
  have k: "k \<in> fst ` set (take ?n ?ord)" and kb: "(k, b) \<in> set ?ord"
    using assms(2) unfolding evictOldest_items set_ord by auto
  then have "(k, b) \<in> set (take ?n ?ord)"
    using distinct_eviction_order [OF assms(1)]
    by (metis (no_types, lifting) eq_key_imp_eq_value imageE in_set_takeD prod.collapse)
  moreover have "(k', b') \<in> set (drop ?n ?ord)"
  proof -
    have "(k', b') \<in> set (take ?n ?ord @ drop ?n ?ord)"
      using assms(3) unfolding append_take_drop_id set_ord evictOldest_items by auto
    moreover have "k' \<notin> fst ` set (take ?n ?ord)"
      using assms(3) unfolding evictOldest_items by simp
    ultimately show ?thesis
      by (auto simp del: append_take_drop_id intro: rev_image_eqI)
  qed
  moreover have "sorted (map (\<lambda>(_, b). bl_LastSeen b) ?ord)"
    by (simp add: eviction_order_def)
  ultimately show ?thesis
    using sorted_take_drop by fastforce
qed

lemma update_all: "list_all (\<lambda>(k, b). f b = k) xs \<Longrightarrow> list_all (\<lambda>(k, b). f b = k) (AList.update (f v) v xs)"
  by (induction xs) auto

lemma evictOldest_ok:
  assumes "0 < ms_maxEntries m" and "distinct (map fst (ms_items m))" and "list_all (\<lambda>(k, b). bl_Key b = k) (ms_items m)"
  shows "store_ok (evictOldest m)"
proof -
  have "distinct (map fst (ms_items (evictOldest m)))"
    unfolding evictOldest_items by (rule distinct_map_filter_key [OF assms(2)])
  moreover have "list_all (\<lambda>(k, b). bl_Key b = k) (ms_items (evictOldest m))"
    using assms(3) unfolding evictOldest_items by (auto simp: list_all_iff)
  moreover have "0 \<le> ms_maxEntries m div 8"
    using assms(1) by (simp add: pos_imp_zdiv_nonneg_iff)
  ultimately show ?thesis
    using evictOldest_length [OF assms(2)] assms(1) unfolding store_ok_def by simp
qed

lemma storePut_ok: "store_ok m \<Longrightarrow> store_ok (storePut b m)"
  using evictOldest_ok [of "m\<lparr>ms_items := AList.update (bl_Key b) b (ms_items m)\<rparr>"] update_all [of bl_Key "ms_items m" b]
  by (auto simp: storePut_def Let_def store_ok_def distinct_update)

lemma fold_storePut_ok: "store_ok m \<Longrightarrow> store_ok (fold storePut bs m)"
  by (induction bs arbitrary: m) (simp_all add: storePut_ok)

lemma storePut_maxEntries [simp]: "ms_maxEntries (storePut b m) = ms_maxEntries m"
  by (simp add: storePut_def Let_def)

lemma fold_storePut_maxEntries [simp]: "ms_maxEntries (fold storePut bs m) = ms_maxEntries m"
  by (induction bs arbitrary: m) simp_all

section \<open>The store as the manager uses it\<close>

text \<open>
  The Go interface \<open>BaselineStore\<close> promises \<open>Get\<close> after \<open>Put\<close>; the in-memory store keeps the
  promise as long as it has room, that is up to its water mark.
\<close>

locale baseline_store =
  fixes get :: "'k \<Rightarrow> 's \<Rightarrow> 'b option" and put :: "'b \<Rightarrow> 's \<Rightarrow> 's" and keyof :: "'b \<Rightarrow> 'k" and room :: "'s \<Rightarrow> nat \<Rightarrow> bool"
  assumes get_put: "room s (Suc n) \<Longrightarrow> get k (put b s) = (if k = keyof b then Some b else get k s)"
    and room_put: "room s (Suc n) \<Longrightarrow> room (put b s) n"
    and put_other: "k \<noteq> keyof b \<Longrightarrow> get k (put b s) \<in> {get k s, None}"
begin

lemma get_put_all:
  assumes "room s (length bs)" and "distinct (map keyof bs)"
  shows "get k (fold put bs s) = (case map_of (map (\<lambda>b. (keyof b, b)) bs) k of Some b \<Rightarrow> Some b | None \<Rightarrow> get k s)"
  using assms
proof (induction bs arbitrary: s)
  case Nil
  then show ?case by simp
next
  case (Cons b bs)
  then have "get k (fold put bs (put b s)) =
      (case map_of (map (\<lambda>b. (keyof b, b)) bs) k of Some b \<Rightarrow> Some b | None \<Rightarrow> get k (put b s))"
    using room_put by simp
  moreover have "map_of (map (\<lambda>b. (keyof b, b)) bs) (keyof b) = None"
    using Cons.prems(2) by (auto simp: map_of_eq_None_iff)
  ultimately show ?case
    using get_put [of s "length bs"] Cons.prems(1) by (auto split: option.splits)
qed

lemma put_all_other: "k \<notin> keyof ` set bs \<Longrightarrow> get k (fold put bs s) \<in> {get k s, None}"
proof (induction bs arbitrary: s)
  case Nil
  then show ?case by simp
next
  case (Cons b bs)
  then have "get k (fold put bs (put b s)) \<in> {get k (put b s), None}" and "get k (put b s) \<in> {get k s, None}"
    using put_other [of k b s] by auto
  then show ?case
    by auto
qed

end

definition hasRoom :: "memoryStore \<Rightarrow> nat \<Rightarrow> bool" where
  "hasRoom m n \<longleftrightarrow> int (length (ms_items m)) + int n \<le> ms_sweepAt m"

lemma storeGet_evict: "storeGet k (evictOldest m) \<in> {storeGet k m, None}"
  unfolding storeGet_def evictOldest_items by (simp add: map_of_filter_key)

interpretation ms: baseline_store storeGet storePut bl_Key hasRoom
proof
  show "storeGet k (storePut b s) = (if k = bl_Key b then Some b else storeGet k s)" if "hasRoom s (Suc n)" for s n k b
    using that by (simp add: hasRoom_def storePut_def storeGet_def Let_def update_length update_conv')
  show "hasRoom (storePut b s) n" if "hasRoom s (Suc n)" for s n b
    using that by (simp add: hasRoom_def storePut_def Let_def update_length)
  show "storeGet k (storePut b s) \<in> {storeGet k s, None}" if "k \<noteq> bl_Key b" for k b s
    using storeGet_evict [of k "s\<lparr>ms_items := AList.update (bl_Key b) b (ms_items s)\<rparr>"] that
    by (simp add: storePut_def Let_def storeGet_def update_conv')
qed

section \<open>What a baseline means\<close>

text \<open>
  The specification forgets versions, times, the touched set and the sharing of pointers: it
  maps an entity and a path to the last value reported. A change that resolves to the value
  already known is dropped; every other change is reported with the value before and after.
\<close>

type_synonym known = "entityKey \<Rightarrow> string \<Rightarrow> vval option"

definition changeKey :: "string \<Rightarrow> string \<Rightarrow> stateChange \<Rightarrow> entityKey" where
  "changeKey scp flow sc =
     \<lparr>ek_Scope = scp, ek_FlowID = flow, ek_SubjectType = sc_SubjectType sc, ek_SubjectID = sc_SubjectID sc\<rparr>"

definition specEffective :: "stateChange \<Rightarrow> vval option \<Rightarrow> vval" where
  "specEffective sc before =
     (if sc_Op sc = ''delete'' then VNull
      else if sc_Op sc = ''merge'' then
        (case before of
           None \<Rightarrow> sc_After sc
         | Some old \<Rightarrow> (case merge_val old (sc_After sc) of Inr merged \<Rightarrow> merged | Inl _ \<Rightarrow> sc_After sc))
      else sc_After sc)"

definition unchanged :: "vval option \<Rightarrow> vval \<Rightarrow> bool" where
  "unchanged before eff \<longleftrightarrow> (case before of Some v \<Rightarrow> equal_val v eff | None \<Rightarrow> False)"

definition specChange ::
  "string \<Rightarrow> string \<Rightarrow> nat \<times> stateChange \<Rightarrow> known \<times> (nat \<times> vval option \<times> vval) list \<Rightarrow>
   known \<times> (nat \<times> vval option \<times> vval) list"
where
  "specChange scp flow = (\<lambda>(sq, sc) (\<sigma>, out).
     (let k = changeKey scp flow sc; before = \<sigma> k (sc_Path sc); eff = specEffective sc before in
      if unchanged before eff then (\<sigma>, out)
      else
        (\<sigma>(k := (\<sigma> k)(sc_Path sc := (if sc_Op sc = ''delete'' then None else Some eff))),
         out @ [(sq, before, eff)])))"

definition fresh_state :: "time \<Rightarrow> time \<Rightarrow> entityBaseline option \<Rightarrow> string \<Rightarrow> vval option" where
  "fresh_state ttl now bo =
     (case bo of
        None \<Rightarrow> Map.empty
      | Some b \<Rightarrow> if 0 < ttl \<and> ttl < now - bl_LastSeen b then Map.empty else map_of (bl_State b))"

definition store_view :: "time \<Rightarrow> time \<Rightarrow> memoryStore \<Rightarrow> known" where
  "store_view ttl now m k = fresh_state ttl now (storeGet k m)"

definition ap_view :: "time \<Rightarrow> time \<Rightarrow> applyState \<Rightarrow> known" where
  "ap_view ttl now st k =
     (case map_of (ap_touched st) k of
        Some (b, _) \<Rightarrow> map_of (bl_State b)
      | None \<Rightarrow> store_view ttl now (ap_store st) k)"

definition enrichedView :: "enriched \<Rightarrow> nat \<times> vval option \<times> vval" where
  "enrichedView e =
     (en_Seq e, if en_BeforeResolved e then Some (sc_Before (en_Change e)) else None, sc_After (en_Change e))"

definition acceptedChanges :: "event \<Rightarrow> (nat \<times> stateChange) list" where
  "acceptedChanges ev =
     (let changes = take (nat maxStateChangesPerEvent) (eventStateChanges ev) in
      filter (\<lambda>(_, sc). validateChange sc = None) (zip [1..<length changes + 1] changes))"

definition scopeOf :: "baselineManager \<Rightarrow> event \<Rightarrow> string \<Rightarrow> string \<times> string" where
  "scopeOf bm ev sessionID = entityScope (bm_scope bm) ev sessionID (extractFlowIDFromEvent ev)"

section \<open>The loop\<close>

lemma merge_not_object: "kind v \<noteq> KObject \<Longrightarrow> \<exists>e. merge_val v w = Inl e"
  by (cases v) (auto simp: kind_def merge_val_def)

lemma effectiveValue_spec: "effectiveValue sc b = specEffective sc (map_of (bl_State b) (sc_Path sc))"
proof (cases "map_of (bl_State b) (sc_Path sc)")
  case None
  then show ?thesis
    by (simp add: effectiveValue_def specEffective_def)
next
  case (Some old)
  then show ?thesis
    using merge_not_object [of old "sc_After sc"] by (auto simp: effectiveValue_def specEffective_def)
qed

lemma baseFor_cases:
  assumes "baseFor ttl now key (ap_store st) (ap_touched st) = (b, al, ex)"
  obtains (touched) "map_of (ap_touched st) key = Some (b, al)" and "ex"
  | (stored) "map_of (ap_touched st) key = None" and "storeGet key (ap_store st) = Some b" and "al" and "ex"
      and "\<not> (0 < ttl \<and> ttl < now - bl_LastSeen b)"
  | (new) "map_of (ap_touched st) key = None" and "bl_State b = []" and "bl_Key b = key" and "\<not> al" and "\<not> ex"
      and "store_view ttl now (ap_store st) key = Map.empty"
  using assms
  by (auto simp: baseFor_def store_view_def fresh_state_def split: option.splits if_splits)

lemma baseFor_view:
  assumes "baseFor ttl now key (ap_store st) (ap_touched st) = (b, al, ex)"
  shows "map_of (bl_State b) = ap_view ttl now st key" and "\<not> ex \<Longrightarrow> bl_State b = []"
  using assms by (auto elim!: baseFor_cases simp: ap_view_def store_view_def fresh_state_def)

text \<open>One round of the loop either drops the change or writes the new value and reports it.\<close>

lemma applyChange_cases:
  fixes st scp flow sc ttl now
  defines "k \<equiv> changeKey scp flow sc"
  defines "before \<equiv> ap_view ttl now st k (sc_Path sc)"
  defines "eff \<equiv> specEffective sc before"
  obtains (noop) "unchanged before eff" and "applyChange ttl now eid scp flow (sq, sc) st = st\<lparr>ap_noop := ap_noop st + 1\<rparr>"
  | (change) b al ex en where "\<not> unchanged before eff"
      and "baseFor ttl now k (ap_store st) (ap_touched st) = (b, al, ex)"
      and "enrichedView en = (sq, before, eff)"
      and "applyChange ttl now eid scp flow (sq, sc) st =
        st\<lparr>ap_store :=
             (if al then (ap_store st)\<lparr>ms_items := AList.update k (writeBase now sc eff b) (ms_items (ap_store st))\<rparr>
              else ap_store st),
           ap_touched := AList.update k (writeBase now sc eff b, al) (ap_touched st),
           ap_result := ap_result st @ [en]\<rparr>"
proof (cases "baseFor ttl now k (ap_store st) (ap_touched st)")
  case (fields b al ex)
  have view: "map_of (bl_State b) (sc_Path sc) = before"
    using baseFor_view(1) [OF fields] by (simp add: before_def)
  have known: "(if ex then map_of (bl_State b) (sc_Path sc) else None) = before"
    using view baseFor_view(2) [OF fields] by auto
  have eff: "effectiveValue sc b = eff"
    by (simp add: effectiveValue_spec view eff_def)
  define en where "en =
    \<lparr>en_Change = sc\<lparr>sc_Before := (case before of Some v \<Rightarrow> v | None \<Rightarrow> sc_Before sc), sc_After := eff\<rparr>,
     en_EventID = eid, en_FlowID = flow, en_Timestamp = now, en_EntityVersion = sc_Version sc,
     en_BeforeResolved = (before \<noteq> None), en_AfterResolved = (sc_Op sc \<noteq> ''delete''), en_Seq = sq\<rparr>"
  have step: "applyChange ttl now eid scp flow (sq, sc) st =
      (if unchanged before eff then st\<lparr>ap_noop := ap_noop st + 1\<rparr>
       else
         st\<lparr>ap_store :=
             (if al then (ap_store st)\<lparr>ms_items := AList.update k (writeBase now sc eff b) (ms_items (ap_store st))\<rparr>
              else ap_store st),
           ap_touched := AList.update k (writeBase now sc eff b, al) (ap_touched st),
           ap_result := ap_result st @ [en]\<rparr>)"
    using fields unfolding applyChange_def Let_def k_def changeKey_def unchanged_def en_def
    by (simp add: known [unfolded k_def changeKey_def] eff cong: option.case_cong)
  have "enrichedView en = (sq, before, eff)"
    by (cases before) (simp_all add: en_def enrichedView_def)
  then show ?thesis
    using that fields step by auto
qed

definition loop_ok :: "time \<Rightarrow> memoryStore \<Rightarrow> nat \<Rightarrow> applyState \<Rightarrow> bool" where
  "loop_ok now m0 n st \<longleftrightarrow>
     map fst (ms_items (ap_store st)) = map fst (ms_items m0) \<and> ms_sweepAt (ap_store st) = ms_sweepAt m0 \<and>
     ms_maxEntries (ap_store st) = ms_maxEntries m0 \<and>
     list_all (\<lambda>(k, b). bl_Key b = k) (ms_items (ap_store st)) \<and>
     distinct (map fst (ap_touched st)) \<and> length (ap_touched st) \<le> n \<and>
     list_all (\<lambda>(k, b, al). bl_Key b = k \<and> bl_LastSeen b = now \<and> (al \<longrightarrow> k \<in> fst ` set (ms_items m0))) (ap_touched st) \<and>
     (\<forall>k. map_of (ap_touched st) k = None \<longrightarrow> storeGet k (ap_store st) = storeGet k m0)"

lemma writeBase_fields [simp]:
  "bl_Key (writeBase now sc eff b) = bl_Key b" "bl_LastSeen (writeBase now sc eff b) = now"
  by (simp_all add: writeBase_def)

lemma map_of_writeBase:
  "map_of (bl_State (writeBase now sc eff b)) =
     (map_of (bl_State b))(sc_Path sc := (if sc_Op sc = ''delete'' then None else Some eff))"
  by (simp add: writeBase_def update_conv' delete_conv')

lemma storeGet_in: "storeGet k m = Some b \<Longrightarrow> k \<in> fst ` set (ms_items m)"
  unfolding storeGet_def by (force dest: map_of_SomeD)

lemma baseFor_key:
  assumes "loop_ok now m0 n st" and "baseFor ttl now k (ap_store st) (ap_touched st) = (b, al, ex)"
  shows "bl_Key b = k" and "al \<Longrightarrow> k \<in> fst ` set (ms_items m0)"
proof -
  have T: "list_all (\<lambda>(k, b, al). bl_Key b = k \<and> bl_LastSeen b = now \<and> (al \<longrightarrow> k \<in> fst ` set (ms_items m0))) (ap_touched st)"
    and S: "list_all (\<lambda>(k, b). bl_Key b = k) (ms_items (ap_store st))"
    and "map fst (ms_items (ap_store st)) = map fst (ms_items m0)"
    using assms(1) unfolding loop_ok_def by blast+
  then have K: "fst ` set (ms_items (ap_store st)) = fst ` set (ms_items m0)"
    by (metis list.set_map)
  from assms(2) have "bl_Key b = k \<and> (al \<longrightarrow> k \<in> fst ` set (ms_items m0))"
  proof (cases rule: baseFor_cases)
    case touched
    with list_all_map_of [OF T] show ?thesis by fastforce
  next
    case stored
    with list_all_map_of [OF S] storeGet_in [OF stored(2)] K show ?thesis
      by (auto simp: storeGet_def)
  next
    case new
    then show ?thesis by simp
  qed
  then show "bl_Key b = k" and "al \<Longrightarrow> k \<in> fst ` set (ms_items m0)"
    by simp_all
qed

lemma applyChange_loop_ok:
  assumes "loop_ok now m0 n st"
  shows "loop_ok now m0 (Suc n) (applyChange ttl now eid scp flow (sq, sc) st)"
proof (rule applyChange_cases [of ttl now st scp flow sc eid sq])
  assume "applyChange ttl now eid scp flow (sq, sc) st = st\<lparr>ap_noop := ap_noop st + 1\<rparr>"
  then show ?thesis
    using assms by (simp add: loop_ok_def)
next
  let ?k = "changeKey scp flow sc"
  fix b al ex en
  assume base: "baseFor ttl now ?k (ap_store st) (ap_touched st) = (b, al, ex)"
    and step: "applyChange ttl now eid scp flow (sq, sc) st =
        st\<lparr>ap_store :=
             (if al then (ap_store st)\<lparr>ms_items := AList.update ?k (writeBase now sc (specEffective sc
                   (ap_view ttl now st ?k (sc_Path sc))) b) (ms_items (ap_store st))\<rparr>
              else ap_store st),
           ap_touched := AList.update ?k (writeBase now sc (specEffective sc
                   (ap_view ttl now st ?k (sc_Path sc))) b, al) (ap_touched st),
           ap_result := ap_result st @ [en]\<rparr>"
  note key = baseFor_key [OF assms base]
  have keys: "map fst (ms_items (ap_store st)) = map fst (ms_items m0)"
    using assms by (simp add: loop_ok_def)
  then have mem: "al \<Longrightarrow> ?k \<in> fst ` set (ms_items (ap_store st))"
    using key(2) by (metis list.set_map)
  show ?thesis
    using assms key mem unfolding loop_ok_def step
    by (auto simp: update_keys_same list_all_update distinct_update update_length storeGet_def update_conv'
        simp del: update.simps split: if_splits)
qed

lemma applyChange_refines:
  "(ap_view ttl now (applyChange ttl now eid scp flow c st), map enrichedView (ap_result (applyChange ttl now eid scp flow c st))) =
   specChange scp flow c (ap_view ttl now st, map enrichedView (ap_result st))"
proof (cases c)
  case (Pair sq sc)
  let ?k = "changeKey scp flow sc"
  show ?thesis
  proof (rule applyChange_cases [of ttl now st scp flow sc eid sq])
    assume "unchanged (ap_view ttl now st ?k (sc_Path sc)) (specEffective sc (ap_view ttl now st ?k (sc_Path sc)))"
      and "applyChange ttl now eid scp flow (sq, sc) st = st\<lparr>ap_noop := ap_noop st + 1\<rparr>"
    then show ?thesis
      by (simp add: Pair specChange_def Let_def ap_view_def fun_eq_iff cong: option.case_cong)
  next
    fix b al ex en
    assume "\<not> unchanged (ap_view ttl now st ?k (sc_Path sc)) (specEffective sc (ap_view ttl now st ?k (sc_Path sc)))"
      and "enrichedView en = (sq, ap_view ttl now st ?k (sc_Path sc), specEffective sc (ap_view ttl now st ?k (sc_Path sc)))"
      and base: "baseFor ttl now ?k (ap_store st) (ap_touched st) = (b, al, ex)"
      and step: "applyChange ttl now eid scp flow (sq, sc) st =
        st\<lparr>ap_store :=
             (if al then (ap_store st)\<lparr>ms_items := AList.update ?k (writeBase now sc (specEffective sc
                   (ap_view ttl now st ?k (sc_Path sc))) b) (ms_items (ap_store st))\<rparr>
              else ap_store st),
           ap_touched := AList.update ?k (writeBase now sc (specEffective sc
                   (ap_view ttl now st ?k (sc_Path sc))) b, al) (ap_touched st),
           ap_result := ap_result st @ [en]\<rparr>"
    moreover have "ap_view ttl now (applyChange ttl now eid scp flow (sq, sc) st) =
        (ap_view ttl now st)(?k := (ap_view ttl now st ?k)
          (sc_Path sc := (if sc_Op sc = ''delete'' then None
             else Some (specEffective sc (ap_view ttl now st ?k (sc_Path sc))))))"
      unfolding step
      by (rule ext) (simp add: ap_view_def update_conv' map_of_writeBase store_view_def storeGet_def
          baseFor_view(1) [OF base, unfolded ap_view_def store_view_def storeGet_def] cong: option.case_cong)
    ultimately show ?thesis
      by (simp add: Pair specChange_def Let_def)
  qed
qed

lemma loop_refines:
  fixes ttl now eid scp flow cs st
  defines "st' \<equiv> fold (applyChange ttl now eid scp flow) cs st"
  shows "(ap_view ttl now st', map enrichedView (ap_result st')) =
    fold (specChange scp flow) cs (ap_view ttl now st, map enrichedView (ap_result st))"
  unfolding st'_def
  by (induction cs arbitrary: st) (simp_all add: applyChange_refines)

lemma loop_keeps_ok:
  "loop_ok now m0 n st \<Longrightarrow> loop_ok now m0 (n + length cs) (fold (applyChange ttl now eid scp flow) cs st)"
proof (induction cs arbitrary: st n)
  case (Cons c cs)
  then show ?case
    using applyChange_loop_ok by (cases c) fastforce
qed simp

section \<open>A whole event\<close>

definition loopStart :: "baselineManager \<Rightarrow> applyState" where
  "loopStart bm = \<lparr>ap_store = bm_store bm, ap_touched = [], ap_noop = bm_noopSuppressed bm, ap_result = []\<rparr>"

definition loopEnd :: "event \<Rightarrow> string \<Rightarrow> baselineManager \<Rightarrow> applyState" where
  "loopEnd ev sessionID bm =
     (case scopeOf bm ev sessionID of
        (scp, flow) \<Rightarrow>
          fold (applyChange (bm_ttl bm) (id_Timestamp (ev_Identity ev)) (id_ID (ev_Identity ev)) scp flow)
            (acceptedChanges ev) (loopStart bm))"

lemma loopStart_simps [simp]:
  "ap_store (loopStart bm) = bm_store bm" "ap_touched (loopStart bm) = []" "ap_result (loopStart bm) = []"
  "ap_noop (loopStart bm) = bm_noopSuppressed bm"
  by (simp_all add: loopStart_def)

lemma take_over: "(if 0 < int (length xs) - N then take (nat N) xs else xs) = take (nat N) xs"
  by simp

lemma loopEnd_empty: "acceptedChanges ev = [] \<Longrightarrow> loopEnd ev sid bm = loopStart bm"
  by (simp add: loopEnd_def split: prod.splits)

lemma applyEvent_loop:
  "snd (applyEvent ev sid bm) = ap_result (loopEnd ev sid bm)"
  "bm_store (fst (applyEvent ev sid bm)) =
     fold storePut (map (\<lambda>(_, b, _). b) (ap_touched (loopEnd ev sid bm))) (ap_store (loopEnd ev sid bm))"
  "bm_ttl (fst (applyEvent ev sid bm)) = bm_ttl bm" "bm_scope (fst (applyEvent ev sid bm)) = bm_scope bm"
  "bm_noopSuppressed (fst (applyEvent ev sid bm)) = ap_noop (loopEnd ev sid bm)"
proof -
  let ?ch = "take (nat maxStateChangesPerEvent) (eventStateChanges ev)"
  have acc: "filter (\<lambda>(_, sc). validateChange sc = None) (zip [1..<length ?ch + 1] ?ch) = acceptedChanges ev"
    by (simp add: acceptedChanges_def Let_def)
  have "snd (applyEvent ev sid bm) = ap_result (loopEnd ev sid bm) \<and>
    bm_store (fst (applyEvent ev sid bm)) =
      fold storePut (map (\<lambda>(_, b, _). b) (ap_touched (loopEnd ev sid bm))) (ap_store (loopEnd ev sid bm)) \<and>
    bm_ttl (fst (applyEvent ev sid bm)) = bm_ttl bm \<and> bm_scope (fst (applyEvent ev sid bm)) = bm_scope bm \<and>
    bm_noopSuppressed (fst (applyEvent ev sid bm)) = ap_noop (loopEnd ev sid bm)"
  proof (cases "acceptedChanges ev = []")
    case True
    then show ?thesis
      unfolding applyEvent_def Let_def take_over acc by (simp add: loopEnd_empty)
  next
    case False
    then have "eventStateChanges ev \<noteq> []"
      by (auto simp: acceptedChanges_def)
    with False show ?thesis
      unfolding applyEvent_def Let_def take_over acc
      by (simp add: loopEnd_def loopStart_def scopeOf_def split: prod.splits)
  qed
  then show "snd (applyEvent ev sid bm) = ap_result (loopEnd ev sid bm)"
    "bm_store (fst (applyEvent ev sid bm)) =
     fold storePut (map (\<lambda>(_, b, _). b) (ap_touched (loopEnd ev sid bm))) (ap_store (loopEnd ev sid bm))"
    "bm_ttl (fst (applyEvent ev sid bm)) = bm_ttl bm" "bm_scope (fst (applyEvent ev sid bm)) = bm_scope bm"
    "bm_noopSuppressed (fst (applyEvent ev sid bm)) = ap_noop (loopEnd ev sid bm)"
    by simp_all
qed

lemma loopEnd_ok:
  assumes "store_ok (bm_store bm)"
  shows "loop_ok (id_Timestamp (ev_Identity ev)) (bm_store bm) (length (acceptedChanges ev)) (loopEnd ev sid bm)"
proof -
  have "loop_ok (id_Timestamp (ev_Identity ev)) (bm_store bm) 0 (loopStart bm)"
    using assms by (simp add: loop_ok_def store_ok_def)
  from loop_keeps_ok [OF this] show ?thesis
    by (simp add: loopEnd_def split: prod.splits)
qed

lemma loop_ok_store_ok: "store_ok m \<Longrightarrow> loop_ok now m n st \<Longrightarrow> store_ok (ap_store st)"
  unfolding store_ok_def loop_ok_def by (metis length_map)

lemma touched_keys:
  assumes "loop_ok now m n st"
  shows "map bl_Key (map (\<lambda>(_, b, _). b) (ap_touched st)) = map fst (ap_touched st)"
  using assms by (auto simp: loop_ok_def list_all_iff)

lemma length_accepted: "length (acceptedChanges ev) \<le> length (eventStateChanges ev)"
proof -
  have "length (acceptedChanges ev) \<le> length (take (nat maxStateChangesPerEvent) (eventStateChanges ev))"
    unfolding acceptedChanges_def Let_def by (rule order_trans [OF length_filter_le]) simp
  then show ?thesis
    by simp
qed

text \<open>With room for the entities of the event, the store holds what the loop has seen.\<close>

lemma applyEvent_get:
  assumes "store_ok (bm_store bm)" and "hasRoom (bm_store bm) (length (eventStateChanges ev))"
  shows "storeGet k (bm_store (fst (applyEvent ev sid bm))) =
    (case map_of (ap_touched (loopEnd ev sid bm)) k of
       Some (b, _) \<Rightarrow> Some b
     | None \<Rightarrow> storeGet k (ap_store (loopEnd ev sid bm)))"
proof -
  let ?st = "loopEnd ev sid bm"
  let ?bs = "map (\<lambda>(_, b, _). b) (ap_touched ?st)"
  note ok = loopEnd_ok [OF assms(1), of ev sid]
  have "hasRoom (ap_store ?st) (length ?bs)"
  proof -
    have "length (ms_items (ap_store ?st)) = length (ms_items (bm_store bm))"
      using ok unfolding loop_ok_def by (metis length_map)
    moreover have "length ?bs \<le> length (eventStateChanges ev)" and "ms_sweepAt (ap_store ?st) = ms_sweepAt (bm_store bm)"
      using ok length_accepted [of ev] by (simp_all add: loop_ok_def)
    ultimately show ?thesis
      using assms(2) by (simp add: hasRoom_def)
  qed
  moreover have "distinct (map bl_Key ?bs)"
    using ok unfolding touched_keys [OF ok] by (simp add: loop_ok_def)
  ultimately have get: "storeGet k (bm_store (fst (applyEvent ev sid bm))) =
      (case map_of (map (\<lambda>b. (bl_Key b, b)) ?bs) k of Some b \<Rightarrow> Some b | None \<Rightarrow> storeGet k (ap_store ?st))"
    unfolding applyEvent_loop by (rule ms.get_put_all)
  have eq: "map (\<lambda>b. (bl_Key b, b)) ?bs = map (\<lambda>(k, v). (k, fst v)) (ap_touched ?st)"
    using ok by (auto simp: loop_ok_def list_all_iff)
  have "map_of (map (\<lambda>b. (bl_Key b, b)) ?bs) k = map_option fst (map_of (ap_touched ?st) k)"
    unfolding eq by (simp add: map_of_map)
  then show ?thesis
    unfolding get by (cases "map_of (ap_touched ?st) k") auto
qed

lemma applyEvent_view:
  assumes "store_ok (bm_store bm)" and "hasRoom (bm_store bm) (length (eventStateChanges ev))"
  shows "store_view (bm_ttl bm) (id_Timestamp (ev_Identity ev)) (bm_store (fst (applyEvent ev sid bm))) =
    ap_view (bm_ttl bm) (id_Timestamp (ev_Identity ev)) (loopEnd ev sid bm)" (is "store_view ?ttl ?now _ = _")
proof (rule ext)
  fix k
  let ?st = "loopEnd ev sid bm"
  have "bl_LastSeen b = ?now" if "map_of (ap_touched ?st) k = Some (b, al)" for b al
    using list_all_map_of [OF _ that] loopEnd_ok [OF assms(1), of ev sid] unfolding loop_ok_def by fastforce
  then show "store_view ?ttl ?now (bm_store (fst (applyEvent ev sid bm))) k = ap_view ?ttl ?now ?st k"
    unfolding store_view_def ap_view_def applyEvent_get [OF assms]
    by (cases "map_of (ap_touched ?st) k") (auto simp: fresh_state_def split: prod.splits)
qed

lemma applyChange_scope:
  "fst ` set (ap_touched (applyChange ttl now eid scp flow c st)) \<subseteq> fst ` set (ap_touched st) \<union> {k. ek_Scope k = scp}"
proof (cases c)
  case (Pair sq sc)
  show ?thesis
    by (rule applyChange_cases [of ttl now st scp flow sc eid sq])
      (simp_all add: Pair changeKey_def dom_update subset_iff del: update.simps)
qed

lemma loopEnd_scope: "fst ` set (ap_touched (loopEnd ev sid bm)) \<subseteq> {k. ek_Scope k = fst (scopeOf bm ev sid)}"
proof -
  have "fst ` set (ap_touched (fold (applyChange ttl now eid scp flow) cs st)) \<subseteq>
      fst ` set (ap_touched st) \<union> {k. ek_Scope k = scp}" for ttl now eid scp flow cs st
  proof (induction cs arbitrary: st)
    case (Cons c cs)
    show ?case
      using Cons [of "applyChange ttl now eid scp flow c st"] applyChange_scope [of ttl now eid scp flow c st]
      unfolding fold.simps comp_apply by blast
  qed simp
  from this [where st = "loopStart bm"] show ?thesis
    by (auto simp: loopEnd_def split: prod.splits)
qed

section \<open>Repeated reports\<close>

definition is_set :: "nat \<times> stateChange \<Rightarrow> bool" where
  "is_set c \<longleftrightarrow> sc_Op (snd c) = ''set'' \<and> wf_value (sc_After (snd c)) \<and> no_nan (sc_After (snd c))"

definition target :: "nat \<times> stateChange \<Rightarrow> string \<times> string \<times> string" where
  "target c = (sc_SubjectType (snd c), sc_SubjectID (snd c), sc_Path (snd c))"

definition settled :: "string \<Rightarrow> string \<Rightarrow> known \<Rightarrow> nat \<times> stateChange \<Rightarrow> bool" where
  "settled scp flow \<sigma> c \<longleftrightarrow> unchanged (\<sigma> (changeKey scp flow (snd c)) (sc_Path (snd c))) (sc_After (snd c))"

lemma specEffective_set [simp]: "sc_Op sc = ''set'' \<Longrightarrow> specEffective sc before = sc_After sc"
  by (simp add: specEffective_def)

lemma specChange_settled: "is_set c \<Longrightarrow> settled scp flow \<sigma> c \<Longrightarrow> specChange scp flow c (\<sigma>, out) = (\<sigma>, out)"
  by (cases c) (simp add: specChange_def settled_def is_set_def Let_def)

lemma specChange_settles: "is_set c \<Longrightarrow> settled scp flow (fst (specChange scp flow c (\<sigma>, out))) c"
  by (cases c) (simp add: specChange_def settled_def is_set_def Let_def unchanged_def equal_refl cong: option.case_cong)

lemma specChange_other:
  assumes "target c \<noteq> target d"
  shows "settled scp flow (fst (specChange scp flow c so)) d \<longleftrightarrow> settled scp flow (fst so) d"
  using assms by (cases c; cases d; cases so) (auto simp: specChange_def settled_def target_def changeKey_def Let_def)

lemma fold_specChange_other:
  "target d \<notin> target ` set cs \<Longrightarrow>
     settled scp flow (fst (fold (specChange scp flow) cs so)) d \<longleftrightarrow> settled scp flow (fst so) d"
  by (induction cs arbitrary: so) (auto simp: specChange_other)

lemma fold_specChange_settles:
  "list_all is_set cs \<Longrightarrow> distinct (map target cs) \<Longrightarrow>
     list_all (settled scp flow (fst (fold (specChange scp flow) cs so))) cs"
proof (induction cs arbitrary: so)
  case (Cons c cs)
  then have "settled scp flow (fst (fold (specChange scp flow) cs (specChange scp flow c so))) c"
    by (cases so) (simp add: fold_specChange_other specChange_settles)
  with Cons show ?case
    by simp
qed simp

lemma fold_specChange_settled:
  "list_all is_set cs \<Longrightarrow> list_all (settled scp flow \<sigma>) cs \<Longrightarrow> fold (specChange scp flow) cs (\<sigma>, out) = (\<sigma>, out)"
  by (induction cs) (simp_all add: specChange_settled)

lemma ap_view_start: "ap_view ttl now (loopStart bm) = store_view ttl now (bm_store bm)"
  by (rule ext) (simp add: ap_view_def)

lemma loopEnd_spec:
  "(ap_view (bm_ttl bm) (id_Timestamp (ev_Identity ev)) (loopEnd ev sid bm), map enrichedView (ap_result (loopEnd ev sid bm))) =
   fold (specChange (fst (scopeOf bm ev sid)) (snd (scopeOf bm ev sid))) (acceptedChanges ev)
     (store_view (bm_ttl bm) (id_Timestamp (ev_Identity ev)) (bm_store bm), [])"
  using loop_refines [where cs = "acceptedChanges ev" and st = "loopStart bm"]
  by (simp add: loopEnd_def ap_view_start split: prod.splits)

section \<open>An example\<close>

definition demoChange :: "string \<Rightarrow> vval \<Rightarrow> vval" where
  "demoChange path after =
     VObject [(''subject_type'', VString ''player''), (''subject_id'', VString ''7''), (''op'', VString ''set''),
       (''path'', VString path), (''after'', after)]"

definition demoEvent :: event where
  "demoEvent =
     \<lparr>ev_Identity = \<lparr>id_ID = ''e1'', id_SessionID = ''s1'', id_Type = ''t'', id_Source = ''d'', id_Timestamp = 100,
        id_ScenarioID = [], id_ReplayID = []\<rparr>,
      ev_Trace = emptyTrace, ev_Context = emptyContext,
      ev_Payload = VObject [(''_state_changes'', VArray [demoChange ''hp'' (VInt 5), demoChange ''mp'' (VInt 9)])],
      ev_Meta = VNull, ev_Analysis = VNull\<rparr>"

definition demoManager :: baselineManager where
  "demoManager =
     (newBaselineManager ScopeSession)\<lparr>bm_store := newMemoryStore\<lparr>ms_items :=
        [(\<lparr>ek_Scope = ''s0'', ek_FlowID = [], ek_SubjectType = ''player'', ek_SubjectID = ''7''\<rparr>,
          \<lparr>bl_Key = \<lparr>ek_Scope = ''s0'', ek_FlowID = [], ek_SubjectType = ''player'', ek_SubjectID = ''7''\<rparr>,
           bl_Version = 1, bl_State = [(''hp'', VInt 1)], bl_FirstSeen = 0, bl_LastSeen = 50\<rparr>)]\<rparr>\<rparr>"

lemma demo_ok:
  "store_ok (bm_store demoManager)" "hasRoom (bm_store demoManager) (length (eventStateChanges demoEvent))"
  "list_all is_set (acceptedChanges demoEvent)" "distinct (map target (acceptedChanges demoEvent))"
  "scopeOf demoManager demoEvent ''s1'' = (''s1'', [])"
  by code_simp+

section \<open>Properties\<close>

text \<open>
  (C9) \<open>Apply\<close> implements the specification of a change log: with room in the store, the view
  of the store at the time of the event and the reported values before and after are those of
  folding the accepted changes over the view before, whatever mix of set, merge and delete,
  of repeated entities and of expired baselines the event holds.
\<close>

theorem baseline_refines:
  assumes "store_ok (bm_store bm)" and "hasRoom (bm_store bm) (length (eventStateChanges ev))"
  shows "(store_view (bm_ttl bm) (id_Timestamp (ev_Identity ev)) (bm_store (fst (applyEvent ev sid bm))),
      map enrichedView (snd (applyEvent ev sid bm))) =
    fold (specChange (fst (scopeOf bm ev sid)) (snd (scopeOf bm ev sid))) (acceptedChanges ev)
      (store_view (bm_ttl bm) (id_Timestamp (ev_Identity ev)) (bm_store bm), [])"
  unfolding applyEvent_view [OF assms] applyEvent_loop(1) by (rule loopEnd_spec)

theorem baseline_refines_witness:
  "map enrichedView (snd (applyEvent demoEvent ''s1'' demoManager)) = [(1, None, VInt 5), (2, None, VInt 9)]"
proof -
  have "map enrichedView (snd (applyEvent demoEvent ''s1'' demoManager)) =
      snd (fold (specChange ''s1'' []) (acceptedChanges demoEvent)
        (store_view (bm_ttl demoManager) (id_Timestamp (ev_Identity demoEvent)) (bm_store demoManager), []))"
    using arg_cong [OF baseline_refines [OF demo_ok(1,2), of "''s1''"], of snd] by (simp add: demo_ok(5))
  also have "\<dots> = [(1, None, VInt 5), (2, None, VInt 9)]"
    by code_simp
  finally show ?thesis .
qed

text \<open>
  Reporting the same event again produces nothing: when its changes are sets of distinct
  fields without NaN, the second \<open>Apply\<close> returns no change.
\<close>

theorem baseline_repeat_suppressed:
  assumes "store_ok (bm_store bm)" and "hasRoom (bm_store bm) (length (eventStateChanges ev))"
    and "list_all is_set (acceptedChanges ev)" and "distinct (map target (acceptedChanges ev))"
  shows "snd (applyEvent ev sid (fst (applyEvent ev sid bm))) = []"
proof -
  let ?bm = "fst (applyEvent ev sid bm)"
  have scope: "scopeOf ?bm ev sid = scopeOf bm ev sid"
    by (simp add: scopeOf_def applyEvent_loop)
  let ?spec = "specChange (fst (scopeOf bm ev sid)) (snd (scopeOf bm ev sid))"
  let ?view = "store_view (bm_ttl bm) (id_Timestamp (ev_Identity ev)) (bm_store ?bm)"
  have "?view = fst (fold ?spec (acceptedChanges ev) (store_view (bm_ttl bm) (id_Timestamp (ev_Identity ev)) (bm_store bm), []))"
    unfolding applyEvent_view [OF assms(1,2)] loopEnd_spec [symmetric] by simp
  then have "fold ?spec (acceptedChanges ev) (?view, []) = (?view, [])"
    using fold_specChange_settles [OF assms(3,4)] by (simp add: fold_specChange_settled assms(3))
  then have "map enrichedView (ap_result (loopEnd ev sid ?bm)) = []"
    using loopEnd_spec [of ?bm ev sid] scope by (simp add: applyEvent_loop)
  then show ?thesis
    by (simp add: applyEvent_loop)
qed

theorem baseline_repeat_suppressed_witness:
  "length (snd (applyEvent demoEvent ''s1'' demoManager)) = 2 \<and>
   snd (applyEvent demoEvent ''s1'' (fst (applyEvent demoEvent ''s1'' demoManager))) = []"
  by (rule conjI [OF _ baseline_repeat_suppressed [OF demo_ok(1-4)]]) code_simp



text \<open>
  Scopes are isolated: an event changes no baseline of another scope (an eviction may
  drop one), and forgetting a scope removes its baselines and no others.
\<close>

theorem baseline_scope_isolated:
  assumes "store_ok (bm_store bm)" and "ek_Scope k \<noteq> fst (scopeOf bm ev sid)"
  shows "storeGet k (bm_store (fst (applyEvent ev sid bm))) \<in> {storeGet k (bm_store bm), None} \<and>
    (hasRoom (bm_store bm) (length (eventStateChanges ev)) \<longrightarrow>
      storeGet k (bm_store (fst (applyEvent ev sid bm))) = storeGet k (bm_store bm)) \<and>
    (sc \<noteq> '''' \<longrightarrow> storeGet k (bm_store (fst (managerForgetScope sc bm))) =
      (if ek_Scope k = sc then None else storeGet k (bm_store bm)))"
proof -
  let ?st = "loopEnd ev sid bm"
  have k: "k \<notin> fst ` set (ap_touched ?st)"
    using loopEnd_scope [of ev sid bm] assms(2) by auto
  then have none: "map_of (ap_touched ?st) k = None"
    by (simp add: map_of_eq_None_iff)
  note ok = loopEnd_ok [OF assms(1), of ev sid]
  have same: "storeGet k (ap_store ?st) = storeGet k (bm_store bm)"
    using ok none by (simp add: loop_ok_def)
  let ?bs = "map (\<lambda>(_, b, _). b) (ap_touched ?st)"
  have "bl_Key ` set ?bs = fst ` set (ap_touched ?st)"
    using touched_keys [OF ok] by (metis list.set_map)
  then have "storeGet k (fold storePut ?bs (ap_store ?st)) \<in> {storeGet k (ap_store ?st), None}"
    using k by (intro ms.put_all_other) blast
  moreover have "storeGet k (bm_store (fst (applyEvent ev sid bm))) = storeGet k (bm_store bm)"
    if "hasRoom (bm_store bm) (length (eventStateChanges ev))"
    using applyEvent_get [OF assms(1) that, of k sid] none same by simp
  moreover have "sc \<noteq> '''' \<longrightarrow> storeGet k (bm_store (fst (managerForgetScope sc bm))) =
      (if ek_Scope k = sc then None else storeGet k (bm_store bm))"
    by (simp add: managerForgetScope_def forgetScope_def storeGet_def map_of_filter_key)
  ultimately show ?thesis
    unfolding applyEvent_loop(2) same by blast
qed

theorem baseline_scope_isolated_witness:
  "let k = \<lparr>ek_Scope = ''s0'', ek_FlowID = [], ek_SubjectType = ''player'', ek_SubjectID = ''7''\<rparr>
   in storeGet k (bm_store (fst (applyEvent demoEvent ''s1'' demoManager))) = storeGet k (bm_store demoManager) \<and>
      storeGet k (bm_store demoManager) \<noteq> None \<and>
      storeGet k (bm_store (fst (managerForgetScope ''s0'' demoManager))) = None"
proof -
  let ?k = "\<lparr>ek_Scope = ''s0'', ek_FlowID = [], ek_SubjectType = ''player'', ek_SubjectID = ''7''\<rparr>"
  have "storeGet ?k (bm_store demoManager) \<noteq> None"
    by code_simp
  then show ?thesis
    using baseline_scope_isolated [OF demo_ok(1), of ?k demoEvent "''s1''" "''s0''"] demo_ok(2,5)
    by (simp add: Let_def)
qed

end
