(* ===== verification/Conn_Tracker.thy ===== *)
theory Conn_Tracker
  imports Event_Model
begin

text \<open>
  Packets and connection instances: \<open>Packet\<close> of \<open>pkg/event/event.go\<close>, the connection tracker of
  \<open>cmd/gt-pipeline/conn_tracker.go\<close>, and the derivations of \<open>capture_task.go\<close> that complete a
  packet before it is stored and decoded.

  The text of an address (\<open>netip.AddrPort.String\<close>) is a parameter \<open>apStr\<close>, the clock an argument.
  The frame parser \<open>ParsePacketLayers\<close> runs gopacket and is a parameter too.
\<close>

section \<open>Packets\<close>

datatype anyval = AnyString string | AnyInt int | AnyBool bool

record packet =
  pk_ID :: string
  pk_Timestamp :: time
  pk_Raw :: "byte list"
  pk_LinkType :: int
  pk_Src :: addr_port
  pk_Dst :: addr_port
  pk_Protocol :: string
  pk_Metadata :: "(string \<times> anyval) list"
  pk_TCPFlags :: tcp_flags

definition metaString :: "string \<Rightarrow> packet \<Rightarrow> string" where
  "metaString key pkt = (case map_of (pk_Metadata pkt) key of Some (AnyString s) \<Rightarrow> s | _ \<Rightarrow> '''')"

definition setMeta :: "string \<Rightarrow> string \<Rightarrow> packet \<Rightarrow> packet" where
  "setMeta key v pkt = pkt\<lparr>pk_Metadata := AList.update key (AnyString v) (pk_Metadata pkt)\<rparr>"

definition canonicalTuple :: "(addr_port \<Rightarrow> string) \<Rightarrow> packet \<Rightarrow> string" where
  "canonicalTuple apStr pkt =
     (let a = apStr (pk_Src pkt); b = apStr (pk_Dst pkt);
          (a, b) = (if b < a then (b, a) else (a, b))
      in pk_Protocol pkt @ '':'' @ a @ ''<->'' @ b)"

section \<open>The tracker\<close>

definition tcpIdleTTL :: time where "tcpIdleTTL = 600000000000"
definition udpIdleTTL :: time where "udpIdleTTL = 120000000000"
definition maxTrackedConns :: nat where "maxTrackedConns = 8192"

record connInst =
  ci_id :: string
  ci_lastSeen :: time
  ci_finFrom :: "string list"

record connTracker =
  ct_seq :: u64
  ct_active :: "(string \<times> connInst) list"
  ct_assigns :: nat

definition newConnTracker :: connTracker where
  "newConnTracker = \<lparr>ct_seq = 0, ct_active = [], ct_assigns = 0\<rparr>"

definition connName :: "string \<Rightarrow> u64 \<Rightarrow> string" where
  "connName key n = key @ ''#'' @ show_nat (unat n)"

text \<open>The zero time of a new instance is overwritten before anyone reads it.\<close>

definition newInstance :: "string \<Rightarrow> connTracker \<Rightarrow> connTracker \<times> connInst" where
  "newInstance key c =
     (let sq = ct_seq c + 1; inst = \<lparr>ci_id = connName key sq, ci_lastSeen = 0, ci_finFrom = []\<rparr>
      in (c\<lparr>ct_seq := sq, ct_active := AList.update key inst (ct_active c)\<rparr>, inst))"

definition idleTTL :: "string \<Rightarrow> time" where
  "idleTTL key = (if take 4 key = ''udp:'' then udpIdleTTL else tcpIdleTTL)"

definition sweep :: "time \<Rightarrow> connTracker \<Rightarrow> connTracker" where
  "sweep now c =
     (let kept = filter (\<lambda>(key, inst). \<not> idleTTL key < now - ci_lastSeen inst) (ct_active c)
      in c\<lparr>ct_active := (if maxTrackedConns < length kept then [] else kept)\<rparr>)"

definition isOpen :: "packet \<Rightarrow> bool" where
  "isOpen pkt \<longleftrightarrow> pk_Protocol pkt = ''tcp'' \<and> SYN (pk_TCPFlags pkt) \<and> \<not> ACK (pk_TCPFlags pkt)"

definition retire :: "string \<Rightarrow> string \<Rightarrow> packet \<Rightarrow> connInst \<Rightarrow> connTracker \<Rightarrow> connTracker" where
  "retire key src pkt inst c =
     (if pk_Protocol pkt \<noteq> ''tcp'' then c
      else if RST (pk_TCPFlags pkt) then c\<lparr>ct_active := AList.delete key (ct_active c)\<rparr>
      else if FIN (pk_TCPFlags pkt) then
        (let fins = List.insert src (ci_finFrom inst) in
         if 2 \<le> length fins then c\<lparr>ct_active := AList.delete key (ct_active c)\<rparr>
         else c\<lparr>ct_active := AList.update key (inst\<lparr>ci_finFrom := fins\<rparr>) (ct_active c)\<rparr>)
      else c)"

definition tracked :: "packet \<Rightarrow> bool" where
  "tracked pkt \<longleftrightarrow>
     (pk_Protocol pkt = ''tcp'' \<or> pk_Protocol pkt = ''udp'') \<and> metaString ''conn_id'' pkt = '''' \<and>
     ap_isValid (pk_Src pkt) \<and> ap_isValid (pk_Dst pkt)"

definition assign ::
  "(addr_port \<Rightarrow> string) \<Rightarrow> time \<Rightarrow> packet \<Rightarrow> connTracker \<Rightarrow> connTracker \<times> packet"
where
  "assign apStr now pkt c =
     (if \<not> tracked pkt then (c, pkt)
      else
        (let key = canonicalTuple apStr pkt;
             (c, inst) =
               (case map_of (ct_active c) key of
                  Some inst \<Rightarrow> if isOpen pkt then newInstance key c else (c, inst)
                | None \<Rightarrow> newInstance key c);
             inst = inst\<lparr>ci_lastSeen := now\<rparr>;
             c = c\<lparr>ct_active := AList.update key inst (ct_active c)\<rparr>;
             pkt = setMeta ''conn_id'' (ci_id inst) pkt;
             c = retire key (apStr (pk_Src pkt)) pkt inst c;
             c = c\<lparr>ct_assigns := ct_assigns c + 1\<rparr>;
             c = (if ct_assigns c mod 256 = 0 then sweep now c else c)
         in (c, pkt)))"

section \<open>Completing a packet\<close>

definition deriveConnID :: "(addr_port \<Rightarrow> string) \<Rightarrow> packet \<Rightarrow> packet" where
  "deriveConnID apStr pkt = (if tracked pkt then setMeta ''conn_id'' (canonicalTuple apStr pkt) pkt else pkt)"

definition ensureTCPCloseMarker ::
  "(byte list \<Rightarrow> int \<Rightarrow> tcp_flags) \<Rightarrow> (addr_port \<Rightarrow> string) \<Rightarrow> packet \<Rightarrow> packet"
where
  "ensureTCPCloseMarker parseFlags apStr pkt =
     (if pk_Protocol pkt \<noteq> ''tcp'' then pkt
      else if pk_LinkType pkt = LinkTypeProxyPayload \<or> pk_LinkType pkt = LinkTypeTLSPlaintext then pkt
      else if hasCloseFlags (pk_TCPFlags pkt) then setMeta ''tcp_close'' (apStr (pk_Src pkt)) pkt
      else if tcpFlagsString (pk_TCPFlags pkt) \<noteq> '''' then pkt
      else
        (let pkt = pkt\<lparr>pk_TCPFlags := parseFlags (pk_Raw pkt) (pk_LinkType pkt)\<rparr> in
         if hasCloseFlags (pk_TCPFlags pkt) then setMeta ''tcp_close'' (apStr (pk_Src pkt)) pkt else pkt))"

text \<open>What the main loop does with a packet before it is buffered: identifier, connection, marker.\<close>

definition completePacket ::
  "(byte list \<Rightarrow> int \<Rightarrow> tcp_flags) \<Rightarrow> (addr_port \<Rightarrow> string) \<Rightarrow> string \<Rightarrow> time \<Rightarrow> packet \<Rightarrow> connTracker \<Rightarrow>
   connTracker \<times> packet"
where
  "completePacket parseFlags apStr freshID now pkt c =
     (let pkt = (if pk_ID pkt = '''' then pkt\<lparr>pk_ID := freshID\<rparr> else pkt);
          (c, pkt) = assign apStr now pkt c
      in (c, ensureTCPCloseMarker parseFlags apStr pkt))"

section \<open>Names of connections\<close>

lemma show_nat_no_hash: "CHR ''#'' \<notin> set (show_nat n)"
  by (rule show_nat_no_sep) simp

lemma connName_inj [simp]: "connName k n = connName k' n' \<longleftrightarrow> k = k' \<and> n = n'"
  using split_last [of k "CHR ''#''" "show_nat (unat n)" k' "show_nat (unat n')"] show_nat_no_hash
  by (auto simp: connName_def word_unat_eq_iff)

section \<open>What the tracker keeps\<close>

text \<open>A run of the tracker with the log of tuples and the identifiers handed out for them.\<close>

inductive tracks :: "(addr_port \<Rightarrow> string) \<Rightarrow> connTracker \<Rightarrow> (string \<times> string) list \<Rightarrow> bool" for apStr where
  start: "tracks apStr newConnTracker []"
| step: "tracks apStr c log \<Longrightarrow> unat (ct_seq c) < 2 ^ 64 - 1 \<Longrightarrow> assign apStr now pkt c = (c', pkt') \<Longrightarrow>
    tracks apStr c' (if tracked pkt then (canonicalTuple apStr pkt, metaString ''conn_id'' pkt') # log else log)"

definition named :: "u64 \<Rightarrow> string \<times> string \<Rightarrow> bool" where
  "named sq = (\<lambda>(k, i). \<exists>n. i = connName k n \<and> n \<le> sq)"

definition tracker_ok :: "connTracker \<Rightarrow> bool" where
  "tracker_ok c \<longleftrightarrow>
     list_all (\<lambda>(k, inst). named (ct_seq c) (k, ci_id inst)) (ct_active c) \<and>
     length (ct_active c) \<le> maxTrackedConns + ct_assigns c mod 256"

lemma named_mono: "named m ki \<Longrightarrow> m \<le> n \<Longrightarrow> named n ki"
  by (cases ki) (auto simp: named_def intro: order_trans)

lemma seq_next: "unat (s :: u64) < 2 ^ 64 - 1 \<Longrightarrow> s \<le> s + 1 \<and> s + 1 \<noteq> 0 \<and> \<not> s + 1 \<le> s"
  by (simp add: word_le_nat_alt unat_word_ariths(1) unat_eq_0 flip: unat_eq_0)

lemma metaString_setMeta [simp]: "metaString k (setMeta k v pkt) = v"
  by (simp add: metaString_def setMeta_def update_conv')

lemma setMeta_fields [simp]:
  "pk_TCPFlags (setMeta k v pkt) = pk_TCPFlags pkt" "pk_Protocol (setMeta k v pkt) = pk_Protocol pkt"
  "pk_Src (setMeta k v pkt) = pk_Src pkt" "pk_Dst (setMeta k v pkt) = pk_Dst pkt"
  by (simp_all add: setMeta_def)

text \<open>The instance a packet belongs to, and the tracker once the packet has been counted.\<close>

definition instanceOf :: "string \<Rightarrow> packet \<Rightarrow> connTracker \<Rightarrow> connTracker \<times> connInst" where
  "instanceOf key pkt c =
     (case map_of (ct_active c) key of
        Some inst \<Rightarrow> if isOpen pkt then newInstance key c else (c, inst)
      | None \<Rightarrow> newInstance key c)"

definition touch :: "string \<Rightarrow> time \<Rightarrow> connInst \<Rightarrow> connTracker \<Rightarrow> connTracker" where
  "touch key now inst c = c\<lparr>ct_active := AList.update key (inst\<lparr>ci_lastSeen := now\<rparr>) (ct_active c)\<rparr>"

definition counted :: "time \<Rightarrow> connTracker \<Rightarrow> connTracker" where
  "counted now c =
     (let c = c\<lparr>ct_assigns := ct_assigns c + 1\<rparr> in if ct_assigns c mod 256 = 0 then sweep now c else c)"

lemma assign_tracked:
  assumes "tracked pkt" and "instanceOf (canonicalTuple apStr pkt) pkt c = (c1, inst)"
  shows "assign apStr now pkt c =
    (counted now (retire (canonicalTuple apStr pkt) (apStr (pk_Src pkt)) pkt (inst\<lparr>ci_lastSeen := now\<rparr>)
        (touch (canonicalTuple apStr pkt) now inst c1)),
     setMeta ''conn_id'' (ci_id inst) pkt)"
  using assms
  by (simp add: assign_def instanceOf_def touch_def counted_def Let_def retire_def split: option.splits if_splits)

lemma instanceOf_ok:
  assumes "tracker_ok c" and "unat (ct_seq c) < 2 ^ 64 - 1" and "instanceOf key pkt c = (c1, inst)"
  shows "named (ct_seq c1) (key, ci_id inst)" and "ct_seq c \<le> ct_seq c1"
    and "list_all (\<lambda>(k, inst). named (ct_seq c1) (k, ci_id inst)) (ct_active c1)"
    and "length (AList.update key x (ct_active c1)) \<le> Suc (length (ct_active c))"
    and "ct_assigns c1 = ct_assigns c"
proof -
  note next_seq = seq_next [OF assms(2)]
  have old: "list_all (\<lambda>(k, inst). named (ct_seq c) (k, ci_id inst)) (ct_active c)"
    using assms(1) by (simp add: tracker_ok_def)
  have mono: "list_all (\<lambda>(k, inst). named (ct_seq c + 1) (k, ci_id inst)) (ct_active c)"
    by (rule list.pred_mono_strong [OF old]) (use next_seq named_mono in blast)
  have "named (ct_seq c + 1) (key, connName key (ct_seq c + 1))"
    by (auto simp: named_def)
  moreover have "named (ct_seq c) (key, ci_id i)" if "map_of (ct_active c) key = Some i" for i
    using list_all_map_of [OF old that] by simp
  ultimately have "named (ct_seq c1) (key, ci_id inst) \<and> ct_seq c \<le> ct_seq c1 \<and>
    list_all (\<lambda>(k, inst). named (ct_seq c1) (k, ci_id inst)) (ct_active c1) \<and>
    length (AList.update key x (ct_active c1)) \<le> Suc (length (ct_active c)) \<and> ct_assigns c1 = ct_assigns c"
    using assms(3) old next_seq
    by (auto simp: instanceOf_def newInstance_def Let_def update_length dom_update list_all_update mono
        simp del: update.simps split: option.splits if_splits)
  then show "named (ct_seq c1) (key, ci_id inst)" and "ct_seq c \<le> ct_seq c1"
    and "list_all (\<lambda>(k, inst). named (ct_seq c1) (k, ci_id inst)) (ct_active c1)"
    and "length (AList.update key x (ct_active c1)) \<le> Suc (length (ct_active c))"
    and "ct_assigns c1 = ct_assigns c"
    by blast+
qed

lemma retire_length: "key \<in> fst ` set (ct_active c) \<Longrightarrow> length (ct_active (retire key src pkt inst c)) \<le> length (ct_active c)"
  by (simp add: retire_def Let_def update_length length_delete_le)

lemma retire_touch_ok:
  assumes "list_all (\<lambda>(k, inst). named sq (k, ci_id inst)) (ct_active c)" and "named sq (key, ci_id inst)"
  shows "list_all (\<lambda>(k, inst). named sq (k, ci_id inst))
      (ct_active (retire key src pkt (inst\<lparr>ci_lastSeen := now\<rparr>) (touch key now inst c)))"
    and "length (ct_active (retire key src pkt (inst\<lparr>ci_lastSeen := now\<rparr>) (touch key now inst c))) \<le>
      length (AList.update key (inst\<lparr>ci_lastSeen := now\<rparr>) (ct_active c))"
proof -
  show "list_all (\<lambda>(k, inst). named sq (k, ci_id inst))
      (ct_active (retire key src pkt (inst\<lparr>ci_lastSeen := now\<rparr>) (touch key now inst c)))"
    using assms by (simp add: retire_def touch_def Let_def list_all_update list_all_delete)
  have "key \<in> fst ` set (ct_active (touch key now inst c))"
    by (simp add: touch_def dom_update)
  from retire_length [OF this]
  show "length (ct_active (retire key src pkt (inst\<lparr>ci_lastSeen := now\<rparr>) (touch key now inst c))) \<le>
      length (AList.update key (inst\<lparr>ci_lastSeen := now\<rparr>) (ct_active c))"
    by (simp add: touch_def)
qed

lemma retire_fields [simp]:
  "ct_seq (retire key src pkt inst c) = ct_seq c" "ct_assigns (retire key src pkt inst c) = ct_assigns c"
  by (simp_all add: retire_def Let_def)

lemma touch_fields [simp]: "ct_seq (touch key now inst c) = ct_seq c" "ct_assigns (touch key now inst c) = ct_assigns c"
  by (simp_all add: touch_def)

lemma counted_ok:
  assumes "list_all (\<lambda>(k, inst). named (ct_seq c) (k, ci_id inst)) (ct_active c)"
    and "length (ct_active c) \<le> Suc (maxTrackedConns + ct_assigns c mod 256)"
  shows "tracker_ok (counted now c)"
proof (cases "Suc (ct_assigns c) mod 256 = 0")
  case True
  then show ?thesis
    using assms(1) by (auto simp: counted_def sweep_def tracker_ok_def Let_def list_all_iff)
next
  case False
  then have "Suc (ct_assigns c) mod 256 = Suc (ct_assigns c mod 256)"
    by (simp add: mod_Suc split: if_splits)
  with False assms show ?thesis
    by (simp add: counted_def tracker_ok_def Let_def)
qed

lemma counted_seq [simp]: "ct_seq (counted now c) = ct_seq c"
  by (simp add: counted_def sweep_def Let_def)

lemma assign_ok:
  assumes "tracker_ok c" and "unat (ct_seq c) < 2 ^ 64 - 1" and "assign apStr now pkt c = (c', pkt')"
  shows "tracker_ok c'" and "ct_seq c \<le> ct_seq c'"
    and "tracked pkt \<Longrightarrow> named (ct_seq c') (canonicalTuple apStr pkt, metaString ''conn_id'' pkt')"
proof -
  let ?key = "canonicalTuple apStr pkt"
  have "tracker_ok c' \<and> ct_seq c \<le> ct_seq c' \<and>
    (tracked pkt \<longrightarrow> named (ct_seq c') (?key, metaString ''conn_id'' pkt'))"
  proof (cases "tracked pkt")
    case False
    then show ?thesis
      using assms by (simp add: assign_def)
  next
    case True
    obtain c1 inst where io: "instanceOf ?key pkt c = (c1, inst)"
      by (cases "instanceOf ?key pkt c")
    note ok = instanceOf_ok [OF assms(1,2) io]
    note rt = retire_touch_ok [OF ok(3,1), where src = "apStr (pk_Src pkt)" and pkt = pkt and now = now]
    have len: "length (ct_active c) \<le> maxTrackedConns + ct_assigns c mod 256"
      using assms(1) by (simp add: tracker_ok_def)
    have "length (ct_active (retire ?key (apStr (pk_Src pkt)) pkt (inst\<lparr>ci_lastSeen := now\<rparr>) (touch ?key now inst c1))) \<le>
        Suc (maxTrackedConns + ct_assigns c1 mod 256)"
      using order_trans [OF rt(2) ok(4)] len ok(5) by simp
    then have "tracker_ok c'"
      using assms(3) rt(1) unfolding assign_tracked [OF True io] by (auto intro!: counted_ok)
    moreover have "ct_seq c' = ct_seq c1" and "metaString ''conn_id'' pkt' = ci_id inst"
      using assms(3) unfolding assign_tracked [OF True io] by auto
    ultimately show ?thesis
      using ok by simp
  qed
  then show "tracker_ok c'" and "ct_seq c \<le> ct_seq c'"
    and "tracked pkt \<Longrightarrow> named (ct_seq c') (canonicalTuple apStr pkt, metaString ''conn_id'' pkt')"
    by blast+
qed

lemma tracks_ok: "tracks apStr c log \<Longrightarrow> tracker_ok c \<and> list_all (named (ct_seq c)) log"
proof (induction rule: tracks.induct)
  case start
  then show ?case
    by (simp add: newConnTracker_def tracker_ok_def)
next
  case (step c log now pkt c' pkt')
  note ok = assign_ok [OF conjunct1 [OF step.IH] step.hyps(2,3)]
  have "list_all (named (ct_seq c')) log"
    by (rule list.pred_mono_strong [OF conjunct2 [OF step.IH]]) (rule named_mono [OF _ ok(2)])
  with ok show ?case
    by simp
qed


lemma retire_quiet: "\<not> hasCloseFlags (pk_TCPFlags pkt) \<Longrightarrow> retire key src pkt inst c = c"
  by (simp add: retire_def hasCloseFlags_def)

lemma counted_keeps:
  assumes "map_of (ct_active c) key = Some inst" and "ci_lastSeen inst = now" and "length (ct_active c) \<le> maxTrackedConns"
  shows "map_of (ct_active (counted now c)) key = Some inst"
proof -
  have "map_of (filter (\<lambda>(key, inst). \<not> idleTTL key < now - ci_lastSeen inst) (ct_active c)) key = Some inst"
    by (rule map_of_filter_Some [OF assms(1)]) (simp add: assms(2) idleTTL_def tcpIdleTTL_def udpIdleTTL_def)
  then show ?thesis
    using assms(1,3) order_trans [OF length_filter_le assms(3)]
    by (simp add: counted_def sweep_def Let_def leD)
qed

section \<open>An example\<close>

definition portStr :: "addr_port \<Rightarrow> string" where
  "portStr a = show_nat (unat (ap_port a))"

definition demoPacket :: "u16 \<Rightarrow> u16 \<Rightarrow> tcp_flags \<Rightarrow> packet" where
  "demoPacket sp dp flags =
     \<lparr>pk_ID = ''p'', pk_Timestamp = 0, pk_Raw = [], pk_LinkType = 1, pk_Src = \<lparr>ap_addr = [1], ap_port = sp\<rparr>,
      pk_Dst = \<lparr>ap_addr = [2], ap_port = dp\<rparr>, pk_Protocol = ''tcp'', pk_Metadata = [], pk_TCPFlags = flags\<rparr>"

definition demoTracker :: connTracker where
  "demoTracker = fst (assign portStr 5 (demoPacket 7 80 (no_flags\<lparr>SYN := True\<rparr>)) newConnTracker)"

lemma demo_tracks: "tracks portStr demoTracker [(''tcp:7<->80'', ''tcp:7<->80#1'')]"
proof -
  let ?p = "demoPacket 7 80 (no_flags\<lparr>SYN := True\<rparr>)"
  have "tracks portStr demoTracker (if tracked ?p then (canonicalTuple portStr ?p,
      metaString ''conn_id'' (snd (assign portStr 5 ?p newConnTracker))) # [] else [])"
    by (rule tracks.step [OF tracks.start]) (simp_all add: newConnTracker_def demoTracker_def)
  moreover have "tracked ?p" and "canonicalTuple portStr ?p = ''tcp:7<->80''"
    and "metaString ''conn_id'' (snd (assign portStr 5 ?p newConnTracker)) = ''tcp:7<->80#1''"
    by code_simp+
  ultimately show ?thesis
    by simp
qed

section \<open>Properties\<close>



text \<open>
  The tracker is bounded: however many packets and connections it sees, it holds at most
  8192 connections plus the packets since the last sweep.
\<close>

theorem conn_tracker_bounded:
  assumes "tracks apStr c log"
  shows "length (ct_active c) < maxTrackedConns + 256"
  using tracks_ok [OF assms] mod_less_divisor [of 256 "ct_assigns c"] unfolding tracker_ok_def by linarith

theorem conn_tracker_bounded_witness: "length (ct_active demoTracker) < maxTrackedConns + 256"
  by (rule conn_tracker_bounded [OF demo_tracks])

text \<open>
  Frames whose TCP header the source has not parsed, as a remote probe sends them, keep
  their connection whatever the header says: the flags are recovered only after the tracker
  has seen the packet, so a SYN on a known tuple does not start a new connection and a RST
  does not end one.
\<close>

theorem unparsed_frame_keeps_connection:
  assumes "tracks apStr c log" and "unat (ct_seq c) < 2 ^ 64 - 1" and "tracked pkt" and "pk_TCPFlags pkt = no_flags"
    and "map_of (ct_active c) (canonicalTuple apStr pkt) = Some inst" and "length (ct_active c) < maxTrackedConns"
    and "completePacket parseFlags apStr freshID now pkt c = (c', pkt')"
  shows "metaString ''conn_id'' pkt' = ci_id inst \<and>
    map_of (ct_active c') (canonicalTuple apStr pkt) = Some (inst\<lparr>ci_lastSeen := now\<rparr>)"
proof -
  define p where "p = (if pk_ID pkt = '''' then pkt\<lparr>pk_ID := freshID\<rparr> else pkt)"
  let ?key = "canonicalTuple apStr pkt"
  have p: "tracked p" "canonicalTuple apStr p = ?key" "\<not> isOpen p" "\<not> hasCloseFlags (pk_TCPFlags p)"
    using assms(3,4)
    by (simp_all add: p_def tracked_def canonicalTuple_def metaString_def isOpen_def hasCloseFlags_def no_flags_def)
  have "instanceOf (canonicalTuple apStr p) p c = (c, inst)"
    using assms(5) p by (simp add: instanceOf_def)
  from assign_tracked [OF p(1) this, of now]
  have a: "assign apStr now p c = (counted now (touch ?key now inst c), setMeta ''conn_id'' (ci_id inst) p)"
    using p by (simp add: retire_quiet)
  have marker: "metaString ''conn_id'' (ensureTCPCloseMarker parseFlags apStr (setMeta ''conn_id'' i p)) = i" for i
    by (simp add: ensureTCPCloseMarker_def Let_def metaString_def setMeta_def update_conv')
  note ok = tracks_ok [OF assms(1)]
  have key: "?key \<in> fst ` set (ct_active c)"
    using map_of_SomeD [OF assms(5)] by force
  have "map_of (ct_active (counted now (touch ?key now inst c))) ?key = Some (inst\<lparr>ci_lastSeen := now\<rparr>)"
    using ok assms(6) key
    by (intro counted_keeps) (simp_all add: touch_def update_conv' update_length)
  with assms(7) a marker show ?thesis
    by (auto simp: completePacket_def Let_def simp flip: p_def)
qed

theorem unparsed_frame_keeps_connection_witness:
  "metaString ''conn_id''
     (snd (completePacket (\<lambda>_ _. no_flags\<lparr>SYN := True\<rparr>) portStr ''id'' 9 (demoPacket 7 80 no_flags) demoTracker)) =
   ''tcp:7<->80#1''"
proof -
  let ?p = "demoPacket 7 80 no_flags"
  let ?r = "completePacket (\<lambda>_ _. no_flags\<lparr>SYN := True\<rparr>) portStr ''id'' 9 ?p demoTracker"
  have "tracked ?p" "pk_TCPFlags ?p = no_flags" "length (ct_active demoTracker) < maxTrackedConns" "ct_seq demoTracker = 1"
    "map_of (ct_active demoTracker) (canonicalTuple portStr ?p) =
       Some \<lparr>ci_id = ''tcp:7<->80#1'', ci_lastSeen = 5, ci_finFrom = []\<rparr>"
    by code_simp+
  then show ?thesis
    using unparsed_frame_keeps_connection [OF demo_tracks, of ?p "\<lparr>ci_id = ''tcp:7<->80#1'', ci_lastSeen = 5, ci_finFrom = []\<rparr>"
        "\<lambda>_ _. no_flags\<lparr>SYN := True\<rparr>" "''id''" 9 "fst ?r" "snd ?r"]
    by simp
qed

end
