(* ===== verification/Decode_Queue.thy ===== *)
theory Decode_Queue
  imports Conn_Tracker "HOL-Library.Sublist"
begin

text \<open>
  The decode pipeline of a capture session: the overflow queue of
  \<open>cmd/gt-pipeline/pending_decode.go\<close> and, from \<open>run\<close> of \<open>capture_task.go\<close>, the channels between the
  main loop and the decode worker with the closures that move packets
  (\<open>drainPending\<close>, \<open>feedDecode\<close>, the send loop of a replay, \<open>shutdownDecode\<close>) and the worker itself.

  Main loop and worker run concurrently: each of their actions is a partial function on the
  state, \<open>None\<close> when it would block, and a run interleaves them. The decoder may be attached or
  detached at any time. What the plugin answers is the argument \<open>outcome\<close> of an action.
\<close>

section \<open>The overflow queue\<close>

definition pendingQueueMaxBytes :: int where "pendingQueueMaxBytes = 67108864"

record pendingQueue =
  pq_items :: "packet list"
  pq_bytes :: int
  pq_maxBytes :: int
  pq_dropped :: nat

definition newPendingQueue :: "int \<Rightarrow> pendingQueue" where
  "newPendingQueue maxBytes =
     \<lparr>pq_items = [], pq_bytes = 0, pq_maxBytes = (if maxBytes \<le> 0 then pendingQueueMaxBytes else maxBytes), pq_dropped = 0\<rparr>"

definition rawLen :: "packet \<Rightarrow> int" where
  "rawLen p = int (length (pk_Raw p))"

definition headOr :: "packet \<Rightarrow> pendingQueue \<Rightarrow> packet" where
  "headOr fallback q = (case pq_items q of [] \<Rightarrow> fallback | p # _ \<Rightarrow> p)"

text \<open>The callers of \<open>popHead\<close> make sure that the queue is not empty.\<close>

definition popHead :: "pendingQueue \<Rightarrow> pendingQueue" where
  "popHead q =
     (case pq_items q of
        [] \<Rightarrow> q
      | p # ps \<Rightarrow> q\<lparr>pq_items := ps, pq_bytes := pq_bytes q - rawLen p\<rparr>)"

function dropOldest :: "pendingQueue \<Rightarrow> pendingQueue" where
  "dropOldest q =
     (if pq_maxBytes q < pq_bytes q \<and> 1 < length (pq_items q)
      then dropOldest ((popHead q)\<lparr>pq_dropped := pq_dropped q + 1\<rparr>)
      else q)"
  by auto
termination
  by (relation "measure (\<lambda>q. length (pq_items q))") (auto simp: popHead_def split: list.split)

declare dropOldest.simps [simp del]

definition pushPending :: "packet \<Rightarrow> pendingQueue \<Rightarrow> pendingQueue" where
  "pushPending p q = dropOldest (q\<lparr>pq_items := pq_items q @ [p], pq_bytes := pq_bytes q + rawLen p\<rparr>)"

section \<open>The pipeline\<close>

definition decodeQueueSize :: nat where "decodeQueueSize = 1024"
definition decodedQueueSize :: nat where "decodedQueueSize = 64"
definition decodeWindow :: nat where "decodeWindow = 16"

record pipeline =
  pl_pq :: pendingQueue
  pl_decodeCh :: "packet list"
  pl_closed :: bool
  pl_sending :: "packet option"
  pl_disp :: bool
  pl_window :: "packet list"
  pl_decodedCh :: "event list list"

definition newPipeline :: pipeline where
  "newPipeline =
     \<lparr>pl_pq = newPendingQueue pendingQueueMaxBytes, pl_decodeCh = [], pl_closed = False, pl_sending = None, pl_disp = False,
      pl_window = [], pl_decodedCh = []\<rparr>"

definition chanRoom :: "pipeline \<Rightarrow> bool" where
  "chanRoom s \<longleftrightarrow> length (pl_decodeCh s) < decodeQueueSize"

definition sendDecode :: "packet \<Rightarrow> pipeline \<Rightarrow> pipeline" where
  "sendDecode p s = s\<lparr>pl_decodeCh := pl_decodeCh s @ [p]\<rparr>"

text \<open>One round of \<open>drainPending\<close>, and the whole loop.\<close>

definition drainOne :: "pipeline \<Rightarrow> pipeline option" where
  "drainOne s =
     (case pq_items (pl_pq s) of
        [] \<Rightarrow> None
      | p # _ \<Rightarrow>
          if pl_disp s \<and> \<not> pl_closed s \<and> chanRoom s then Some ((sendDecode p s)\<lparr>pl_pq := popHead (pl_pq s)\<rparr>)
          else None)"

function drainPending :: "pipeline \<Rightarrow> pipeline" where
  "drainPending s = (case drainOne s of None \<Rightarrow> s | Some s' \<Rightarrow> drainPending s')"
  by auto
termination
  by (relation "measure (\<lambda>s. length (pq_items (pl_pq s)))")
    (auto simp: drainOne_def popHead_def split: list.splits if_splits)

declare drainPending.simps [simp del]

definition feedDecode :: "packet \<Rightarrow> pipeline \<Rightarrow> pipeline" where
  "feedDecode p s =
     (let s = drainPending s in
      if \<not> pl_disp s \<or> pq_items (pl_pq s) \<noteq> [] then s\<lparr>pl_pq := pushPending p (pl_pq s)\<rparr>
      else if chanRoom s then sendDecode p s
      else s\<lparr>pl_pq := pushPending p (pl_pq s)\<rparr>)"

text \<open>Replay: the loop holds one packet and sends the queue first, then the packet.\<close>

definition sendReplay :: "pipeline \<Rightarrow> pipeline option" where
  "sendReplay s =
     (case pl_sending s of
        None \<Rightarrow> None
      | Some p \<Rightarrow>
          if \<not> chanRoom s \<or> pl_closed s then None
          else
            (let s' = sendDecode (headOr p (pl_pq s)) s in
             Some (if pq_items (pl_pq s) \<noteq> [] then s'\<lparr>pl_pq := popHead (pl_pq s)\<rparr> else s'\<lparr>pl_sending := None\<rparr>)))"

definition consume_batch :: "pipeline \<Rightarrow> (event list \<times> pipeline) option" where
  "consume_batch s =
     (case pl_decodedCh s of [] \<Rightarrow> None | evs # rest \<Rightarrow> Some (evs, s\<lparr>pl_decodedCh := rest\<rparr>))"

text \<open>The worker: take the next packet and submit it, or wait for the oldest one in flight.\<close>

datatype taken = Skipped | SubmitFailed | Submitted

definition takeNext :: "bool \<Rightarrow> pipeline \<Rightarrow> (packet \<times> taken \<times> pipeline) option" where
  "takeNext submitOk s =
     (if decodeWindow \<le> length (pl_window s) then None
      else
        (case pl_decodeCh s of
           [] \<Rightarrow> None
         | p # rest \<Rightarrow>
             (let s = s\<lparr>pl_decodeCh := rest\<rparr> in
              if \<not> pl_disp s then Some (p, Skipped, s)
              else if \<not> submitOk then Some (p, SubmitFailed, s)
              else Some (p, Submitted, s\<lparr>pl_window := pl_window s @ [p]\<rparr>))))"

definition drainHead :: "event list option \<Rightarrow> pipeline \<Rightarrow> (packet \<times> pipeline) option" where
  "drainHead outcome s =
     (if length (pl_window s) < decodeWindow \<and> \<not> (pl_closed s \<and> pl_decodeCh s = []) then None
      else
        (case pl_window s of
           [] \<Rightarrow> None
         | p # rest \<Rightarrow>
             (let s = s\<lparr>pl_window := rest\<rparr> in
              case outcome of
                None \<Rightarrow> Some (p, s)
              | Some evs \<Rightarrow>
                  if evs = [] then Some (p, s)
                  else if length (pl_decodedCh s) < decodedQueueSize then Some (p, s\<lparr>pl_decodedCh := pl_decodedCh s @ [evs]\<rparr>)
                  else None)))"

definition shutdownDecode :: "pipeline \<Rightarrow> pipeline" where
  "shutdownDecode s = s\<lparr>pl_closed := True\<rparr>"

section \<open>Runs\<close>

text \<open>
  What happened so far: packets given to the pipeline, packets the worker took with their
  fate, packets whose answer it has waited for, batches the main loop has processed, and
  replay packets given up at shutdown.
\<close>

record plog =
  lg_fed :: "packet list"
  lg_taken :: "(packet \<times> taken) list"
  lg_out :: "packet list"
  lg_batches :: "event list list"
  lg_abandoned :: nat

definition emptyLog :: plog where
  "emptyLog = \<lparr>lg_fed = [], lg_taken = [], lg_out = [], lg_batches = [], lg_abandoned = 0\<rparr>"

inductive pipe :: "pipeline \<Rightarrow> plog \<Rightarrow> bool" where
  start: "pipe newPipeline emptyLog"
| feed: "pipe s l \<Longrightarrow> \<not> pl_closed s \<Longrightarrow> pl_sending s = None \<Longrightarrow> pipe (feedDecode p s) (l\<lparr>lg_fed := lg_fed l @ [p]\<rparr>)"
| replay: "pipe s l \<Longrightarrow> \<not> pl_closed s \<Longrightarrow> pl_sending s = None \<Longrightarrow>
    pipe (s\<lparr>pl_sending := Some p\<rparr>) (l\<lparr>lg_fed := lg_fed l @ [p]\<rparr>)"
| send: "pipe s l \<Longrightarrow> sendReplay s = Some s' \<Longrightarrow> pipe s' l"
| abandon: "pipe s l \<Longrightarrow> pl_sending s = Some p \<Longrightarrow>
    pipe (s\<lparr>pl_sending := None\<rparr>) (l\<lparr>lg_abandoned := lg_abandoned l + 1\<rparr>)"
| drain: "pipe s l \<Longrightarrow> drainOne s = Some s' \<Longrightarrow> pipe s' l"
| resolve: "pipe s l \<Longrightarrow> pipe (s\<lparr>pl_disp := b\<rparr>) l"
| take_step: "pipe s l \<Longrightarrow> takeNext ok s = Some (p, t, s') \<Longrightarrow> pipe s' (l\<lparr>lg_taken := lg_taken l @ [(p, t)]\<rparr>)"
| finish: "pipe s l \<Longrightarrow> drainHead outcome s = Some (p, s') \<Longrightarrow> pipe s' (l\<lparr>lg_out := lg_out l @ [p]\<rparr>)"
| consume: "pipe s l \<Longrightarrow> consume_batch s = Some (evs, s') \<Longrightarrow> pipe s' (l\<lparr>lg_batches := lg_batches l @ [evs]\<rparr>)"
| close: "pipe s l \<Longrightarrow> pl_sending s = None \<Longrightarrow> pipe (shutdownDecode s) l"

section \<open>Invariants of the queue\<close>

definition pq_ok :: "pendingQueue \<Rightarrow> bool" where
  "pq_ok q \<longleftrightarrow>
     pq_bytes q = sum_list (map rawLen (pq_items q)) \<and> (pq_bytes q \<le> pq_maxBytes q \<or> length (pq_items q) \<le> 1)"

lemma rawLen_nonneg [simp]: "0 \<le> rawLen p"
  by (simp add: rawLen_def)

lemma dropOldest_effect:
  assumes "pq_bytes q = sum_list (map rawLen (pq_items q))"
  shows "\<exists>k. pq_items (dropOldest q) = drop k (pq_items q) \<and> pq_dropped (dropOldest q) = pq_dropped q + k \<and>
    k \<le> length (pq_items q) \<and> pq_ok (dropOldest q) \<and> pq_maxBytes (dropOldest q) = pq_maxBytes q"
  using assms
proof (induction q rule: dropOldest.induct)
  case (1 q)
  show ?case
  proof (cases "pq_maxBytes q < pq_bytes q \<and> 1 < length (pq_items q)")
    case False
    then have "dropOldest q = q"
      by (subst dropOldest.simps) (simp only: if_False)
    with False 1(2) show ?thesis
      by (intro exI [of _ 0]) (auto simp: pq_ok_def)
  next
    case True
    then obtain p ps where items: "pq_items q = p # ps"
      by (cases "pq_items q") auto
    let ?q = "(popHead q)\<lparr>pq_dropped := pq_dropped q + 1\<rparr>"
    have q: "pq_items ?q = ps" "pq_bytes ?q = sum_list (map rawLen ps)" "pq_maxBytes ?q = pq_maxBytes q"
      using items 1(2) by (simp_all add: popHead_def)
    with 1(1) [OF True] obtain k where k: "pq_items (dropOldest ?q) = drop k ps" "pq_dropped (dropOldest ?q) = pq_dropped q + 1 + k"
      "k \<le> length ps" "pq_ok (dropOldest ?q)" "pq_maxBytes (dropOldest ?q) = pq_maxBytes q"
      by auto
    have "dropOldest q = dropOldest ?q"
      using True by (subst dropOldest.simps) simp
    with k items show ?thesis
      by (intro exI [of _ "Suc k"]) simp
  qed
qed

lemma pushPending_effect:
  assumes "pq_ok q"
  shows "\<exists>k. pq_items (pushPending p q) = drop k (pq_items q @ [p]) \<and> pq_dropped (pushPending p q) = pq_dropped q + k \<and>
    k \<le> Suc (length (pq_items q)) \<and> pq_ok (pushPending p q) \<and> pq_maxBytes (pushPending p q) = pq_maxBytes q"
  using dropOldest_effect [of "q\<lparr>pq_items := pq_items q @ [p], pq_bytes := pq_bytes q + rawLen p\<rparr>"] assms
  by (simp add: pushPending_def pq_ok_def)

lemma popHead_ok: "pq_ok q \<Longrightarrow> pq_ok (popHead q)"
proof (cases "pq_items q")
  case (Cons p ps)
  have "sum_list (map rawLen ps) \<le> n" if "rawLen p + sum_list (map rawLen ps) \<le> n" for n
    using that rawLen_nonneg [of p] by linarith
  then show "pq_ok q \<Longrightarrow> pq_ok (popHead q)"
    using Cons by (auto simp: pq_ok_def popHead_def)
qed (simp add: popHead_def)

lemma popHead_fields [simp]: "pq_dropped (popHead q) = pq_dropped q" "pq_items (popHead q) = tl (pq_items q)"
  "pq_maxBytes (popHead q) = pq_maxBytes q"
  by (simp_all add: popHead_def split: list.split)

section \<open>Invariant of the pipeline\<close>

definition waiting :: "pipeline \<Rightarrow> packet list" where
  "waiting s = pl_decodeCh s @ pq_items (pl_pq s) @ (case pl_sending s of None \<Rightarrow> [] | Some p \<Rightarrow> [p])"

definition pipe_ok :: "pipeline \<Rightarrow> plog \<Rightarrow> bool" where
  "pipe_ok s l \<longleftrightarrow>
     subseq (map fst (lg_taken l) @ waiting s) (lg_fed l) \<and>
     length (lg_fed l) = length (lg_taken l) + length (waiting s) + pq_dropped (pl_pq s) + lg_abandoned l \<and>
     lg_out l @ pl_window s = map fst (filter (\<lambda>(_, t). t = Submitted) (lg_taken l)) \<and>
     pq_ok (pl_pq s) \<and> pq_maxBytes (pl_pq s) = pendingQueueMaxBytes \<and> length (pl_decodeCh s) \<le> decodeQueueSize \<and> length (pl_window s) \<le> decodeWindow \<and>
     length (pl_decodedCh s) \<le> decodedQueueSize"

text \<open>Moves between queue and channel leave the line of waiting packets as it is.\<close>

lemma drainOne_waiting:
  assumes "drainOne s = Some s'"
  shows "waiting s' = waiting s" and "pq_dropped (pl_pq s') = pq_dropped (pl_pq s)" and "pl_window s' = pl_window s"
    and "pl_decodedCh s' = pl_decodedCh s" and "pq_ok (pl_pq s) \<Longrightarrow> pq_ok (pl_pq s')"
    and "length (pl_decodeCh s') \<le> decodeQueueSize" and "pl_sending s' = pl_sending s" and "pl_closed s' = pl_closed s"
    and "pq_maxBytes (pl_pq s') = pq_maxBytes (pl_pq s)"
  using assms popHead_ok [of "pl_pq s"]
  by (auto simp: drainOne_def waiting_def sendDecode_def chanRoom_def split: list.splits if_splits)

lemma drainPending_waiting:
  assumes "pq_ok (pl_pq s)" and "length (pl_decodeCh s) \<le> decodeQueueSize"
  shows "waiting (drainPending s) = waiting s \<and> pq_dropped (pl_pq (drainPending s)) = pq_dropped (pl_pq s) \<and>
    pl_window (drainPending s) = pl_window s \<and> pl_decodedCh (drainPending s) = pl_decodedCh s \<and> pq_ok (pl_pq (drainPending s)) \<and>
    length (pl_decodeCh (drainPending s)) \<le> decodeQueueSize \<and> pl_sending (drainPending s) = pl_sending s \<and>
    pq_maxBytes (pl_pq (drainPending s)) = pq_maxBytes (pl_pq s)"
  using assms
proof (induction s rule: drainPending.induct)
  case (1 s)
  show ?case
  proof (cases "drainOne s")
    case None
    with 1 show ?thesis
      by (subst (1 2 3 4 5 6 7 8) drainPending.simps) simp
  next
    case (Some s')
    note w = drainOne_waiting [OF Some]
    have "drainPending s = drainPending s'"
      using Some by (subst drainPending.simps) simp
    with 1(1) [OF Some] w 1(2) show ?thesis
      by simp
  qed
qed

lemma feedDecode_ok:
  assumes "pipe_ok s l" and "pl_sending s = None"
  shows "pipe_ok (feedDecode p s) (l\<lparr>lg_fed := lg_fed l @ [p]\<rparr>)"
proof -
  let ?s = "drainPending s"
  have d: "waiting ?s = waiting s" "pq_dropped (pl_pq ?s) = pq_dropped (pl_pq s)" "pl_window ?s = pl_window s"
    "pl_decodedCh ?s = pl_decodedCh s" "pq_ok (pl_pq ?s)" "length (pl_decodeCh ?s) \<le> decodeQueueSize" "pl_sending ?s = None"
    "pq_maxBytes (pl_pq ?s) = pq_maxBytes (pl_pq s)"
    using drainPending_waiting [of s] assms by (simp_all add: pipe_ok_def)
  have sub: "subseq ((map fst (lg_taken l) @ waiting ?s) @ [p]) (lg_fed l @ [p])"
    using assms(1) d(1) by (simp only: pipe_ok_def subseq_append)
  have sent: "pipe_ok (sendDecode p ?s) (l\<lparr>lg_fed := lg_fed l @ [p]\<rparr>)" if "chanRoom ?s" "pq_items (pl_pq ?s) = []"
  proof -
    have "waiting (sendDecode p ?s) = waiting ?s @ [p]"
      using that d(7) by (simp add: waiting_def sendDecode_def)
    then show ?thesis
      using assms(1) d that(1) sub by (simp add: pipe_ok_def chanRoom_def) (simp add: sendDecode_def)
  qed
  have queued: "pipe_ok (?s\<lparr>pl_pq := pushPending p (pl_pq ?s)\<rparr>) (l\<lparr>lg_fed := lg_fed l @ [p]\<rparr>)"
  proof -
    from pushPending_effect [OF d(5), of p] obtain k where k: "pq_items (pushPending p (pl_pq ?s)) = drop k (pq_items (pl_pq ?s) @ [p])"
      "pq_dropped (pushPending p (pl_pq ?s)) = pq_dropped (pl_pq ?s) + k" "k \<le> Suc (length (pq_items (pl_pq ?s)))"
      "pq_ok (pushPending p (pl_pq ?s))" "pq_maxBytes (pushPending p (pl_pq ?s)) = pq_maxBytes (pl_pq ?s)"
      by blast
    have w: "waiting ?s = pl_decodeCh ?s @ pq_items (pl_pq ?s)"
      "waiting (?s\<lparr>pl_pq := pushPending p (pl_pq ?s)\<rparr>) = pl_decodeCh ?s @ drop k (pq_items (pl_pq ?s) @ [p])"
      using d(7) k(1) by (simp_all add: waiting_def)
    have "subseq (drop k (pq_items (pl_pq ?s) @ [p])) (pq_items (pl_pq ?s) @ [p])"
      by (rule suffix_imp_subseq [OF suffix_drop])
    then have "subseq (map fst (lg_taken l) @ pl_decodeCh ?s @ drop k (pq_items (pl_pq ?s) @ [p]))
        (map fst (lg_taken l) @ pl_decodeCh ?s @ pq_items (pl_pq ?s) @ [p])"
      by (intro list_emb_append_mono subseq_order.refl)
    with sub have "subseq (map fst (lg_taken l) @ pl_decodeCh ?s @ drop k (pq_items (pl_pq ?s) @ [p])) (lg_fed l @ [p])"
      unfolding w(1) by (simp add: subseq_order.trans)
    then show ?thesis
      using assms(1) d k w unfolding pipe_ok_def d(1) [symmetric] by simp
  qed
  show ?thesis
    unfolding feedDecode_def Let_def using sent queued by simp
qed

lemma sendReplay_ok:
  assumes "pipe_ok s l" and "sendReplay s = Some s'"
  shows "pipe_ok s' l"
proof -
  obtain p where p: "pl_sending s = Some p" "chanRoom s"
    and s': "s' = (if pq_items (pl_pq s) \<noteq> [] then (sendDecode (headOr p (pl_pq s)) s)\<lparr>pl_pq := popHead (pl_pq s)\<rparr>
      else (sendDecode (headOr p (pl_pq s)) s)\<lparr>pl_sending := None\<rparr>)"
    using assms(2) by (auto simp: sendReplay_def Let_def split: option.splits if_splits)
  then have "waiting s' = waiting s \<and> pq_dropped (pl_pq s') = pq_dropped (pl_pq s) \<and> pl_window s' = pl_window s \<and>
      pl_decodedCh s' = pl_decodedCh s \<and> pq_ok (pl_pq s') \<and> pq_maxBytes (pl_pq s') = pq_maxBytes (pl_pq s) \<and>
      length (pl_decodeCh s') \<le> decodeQueueSize"
    using assms(1) popHead_ok [of "pl_pq s"]
    by (cases "pq_items (pl_pq s)") (simp_all add: waiting_def sendDecode_def headOr_def chanRoom_def pipe_ok_def)
  then show ?thesis
    using assms(1) by (simp add: pipe_ok_def)
qed

lemma takeNext_ok:
  assumes "pipe_ok s l" and "takeNext ok s = Some (p, t, s')"
  shows "pipe_ok s' (l\<lparr>lg_taken := lg_taken l @ [(p, t)]\<rparr>)"
proof -
  obtain rest where r: "pl_decodeCh s = p # rest" "length (pl_window s) < decodeWindow"
    "s' = (if t = Submitted then s\<lparr>pl_decodeCh := rest, pl_window := pl_window s @ [p]\<rparr> else s\<lparr>pl_decodeCh := rest\<rparr>)"
    using assms(2) by (auto simp: takeNext_def Let_def split: list.splits if_splits)
  then have "waiting s = p # waiting s'"
    by (simp add: waiting_def)
  moreover have "lg_out l @ pl_window s @ [p] = map fst (filter (\<lambda>(_, t). t = Submitted) (lg_taken l)) @ [p]"
    using assms(1) by (simp only: pipe_ok_def append_assoc [symmetric])
  ultimately show ?thesis
    using r assms(1) by (auto simp: pipe_ok_def)
qed

lemma drainHead_ok:
  assumes "pipe_ok s l" and "drainHead outcome s = Some (p, s')"
  shows "pipe_ok s' (l\<lparr>lg_out := lg_out l @ [p]\<rparr>)"
proof -
  have "pl_window s = p # pl_window s' \<and> pl_pq s' = pl_pq s \<and> pl_decodeCh s' = pl_decodeCh s \<and> pl_sending s' = pl_sending s \<and>
      length (pl_decodedCh s') \<le> decodedQueueSize"
    using assms by (auto simp: drainHead_def pipe_ok_def Let_def split: list.splits if_splits option.splits)
  with assms(1) show ?thesis
    by (simp add: pipe_ok_def waiting_def)
qed

lemma pipe_invariant: "pipe s l \<Longrightarrow> pipe_ok s l"
proof (induction rule: pipe.induct)
  case start
  then show ?case
    by (simp add: pipe_ok_def newPipeline_def emptyLog_def waiting_def newPendingQueue_def pq_ok_def pendingQueueMaxBytes_def)
next
  case (feed s l p)
  then show ?case
    by (simp add: feedDecode_ok)
next
  case (replay s l p)
  then have "subseq ((map fst (lg_taken l) @ waiting s) @ [p]) (lg_fed l @ [p])"
    by (simp only: pipe_ok_def subseq_append)
  with replay show ?case
    by (simp add: pipe_ok_def waiting_def)
next
  case (send s l s')
  then show ?case
    by (simp add: sendReplay_ok)
next
  case (abandon s l p)
  have "subseq (map fst (lg_taken l) @ pl_decodeCh s @ pq_items (pl_pq s)) (map fst (lg_taken l) @ pl_decodeCh s @ pq_items (pl_pq s) @ [p])"
    by (rule prefix_imp_subseq) simp
  with abandon show ?case
    by (auto simp: pipe_ok_def waiting_def intro: subseq_order.trans)
next
  case (drain s l s')
  then show ?case
    using drainOne_waiting [OF drain.hyps(2)] by (simp add: pipe_ok_def)
next
  case (resolve s l b)
  then show ?case
    by (simp add: pipe_ok_def waiting_def)
next
  case (take_step s l ok p t s')
  then show ?case
    by (simp add: takeNext_ok)
next
  case (finish s l outcome p s')
  then show ?case
    by (simp add: drainHead_ok)
next
  case (consume s l evs s')
  then show ?case
    by (auto simp: pipe_ok_def waiting_def consume_batch_def split: list.splits)
next
  case (close s l)
  then show ?case
    by (simp add: pipe_ok_def waiting_def shutdownDecode_def)
qed

section \<open>Shutdown\<close>

inductive drain_step :: "pipeline \<Rightarrow> pipeline \<Rightarrow> bool" where
  d_take: "takeNext ok s = Some (p, t, s') \<Longrightarrow> drain_step s s'"
| d_finish: "drainHead outcome s = Some (p, s') \<Longrightarrow> drain_step s s'"
| d_consume: "consume_batch s = Some (evs, s') \<Longrightarrow> drain_step s s'"

definition work :: "pipeline \<Rightarrow> nat" where
  "work s = 3 * length (pl_decodeCh s) + 2 * length (pl_window s) + length (pl_decodedCh s)"

lemma drain_step_work: "drain_step s s' \<Longrightarrow> work s' < work s \<and> pl_closed s' = pl_closed s"
proof (induction rule: drain_step.induct)
  case (d_take ok s p t s')
  then show ?case
    by (auto simp: takeNext_def work_def Let_def split: list.splits if_splits)
next
  case (d_finish outcome s p s')
  then show ?case
    by (auto simp: drainHead_def work_def Let_def split: list.splits if_splits option.splits)
next
  case (d_consume s evs s')
  then show ?case
    by (auto simp: consume_batch_def work_def split: list.splits)
qed

lemma drain_progress:
  assumes "pl_closed s" and "0 < work s"
  shows "\<exists>s'. drain_step s s'"
proof (cases "pl_decodedCh s")
  case (Cons evs rest)
  then have "consume_batch s = Some (evs, s\<lparr>pl_decodedCh := rest\<rparr>)"
    by (simp add: consume_batch_def)
  then show ?thesis
    by (blast intro: d_consume)
next
  case Nil
  show ?thesis
  proof (cases "decodeWindow \<le> length (pl_window s) \<or> pl_decodeCh s = []")
    case True
    with assms Nil obtain p rest where w: "pl_window s = p # rest"
      by (cases "pl_window s") (auto simp: work_def decodeWindow_def)
    with True assms have "drainHead None s = Some (p, s\<lparr>pl_window := rest\<rparr>)"
      by (auto simp: drainHead_def)
    then show ?thesis
      by (blast intro: d_finish)
  next
    case False
    then obtain p rest where "pl_decodeCh s = p # rest"
      by (cases "pl_decodeCh s") auto
    with False have "takeNext True s \<noteq> None"
      by (auto simp: takeNext_def Let_def)
    then show ?thesis
      by (auto intro: d_take)
  qed
qed

lemma drain_finishes: "pl_closed s \<Longrightarrow> \<exists>s'. drain_step\<^sup>*\<^sup>* s s' \<and> work s' = 0"
proof (induction "work s" arbitrary: s rule: less_induct)
  case less
  show ?case
  proof (cases "work s = 0")
    case False
    with drain_progress [OF less.prems] obtain s1 where s1: "drain_step s s1"
      by auto
    with drain_step_work less obtain s' where "drain_step\<^sup>*\<^sup>* s1 s'" "work s' = 0"
      by metis
    with s1 show ?thesis
      by (meson converse_rtranclp_into_rtranclp)
  qed auto
qed

section \<open>An example\<close>

definition demoRun :: "pipeline \<times> plog" where
  "demoRun =
     (let p = demoPacket 1 80 no_flags; q = demoPacket 2 80 no_flags; s = (feedDecode q (feedDecode p newPipeline))\<lparr>pl_disp := True\<rparr>
      in (drainPending s, emptyLog\<lparr>lg_fed := [p, q]\<rparr>))"

lemma drainPending_pipe: "pipe s l \<Longrightarrow> pipe (drainPending s) l"
proof (induction s rule: drainPending.induct)
  case (1 s)
  then show ?case
    by (subst drainPending.simps) (auto split: option.split intro: pipe.drain)
qed

lemma demo_run: "pipe (fst demoRun) (snd demoRun)"
proof -
  let ?p = "demoPacket 1 80 no_flags" and ?q = "demoPacket 2 80 no_flags"
  have no: "\<not> pl_closed newPipeline" "pl_sending newPipeline = None"
    "\<not> pl_closed (feedDecode ?p newPipeline)" "pl_sending (feedDecode ?p newPipeline) = None"
    by code_simp+
  from pipe.drain pipe.feed [OF pipe.feed [OF pipe.start no(1,2), of ?p] no(3,4), of ?q] show ?thesis
    unfolding demoRun_def Let_def fst_conv snd_conv
    by (intro drainPending_pipe pipe.resolve) (simp add: emptyLog_def)
qed

section \<open>Properties\<close>

text \<open>
  (C14) Packets are decoded in the order of capture: in every interleaving of the main loop with
  the worker, whatever overflows, hot reloads and replays there were, the packets already
  answered, in flight, in the channel and in the overflow queue form a subsequence of the
  captured ones in this order, and a packet is missing from the line only when it was counted
  as dropped, given up at shutdown, or taken by the worker without a decoder.
\<close>

theorem decode_order_is_capture_order:
  assumes "pipe s l"
  shows "subseq (lg_out l @ pl_window s @ pl_decodeCh s @ pq_items (pl_pq s)) (lg_fed l) \<and>
    lg_out l @ pl_window s = map fst (filter (\<lambda>(_, t). t = Submitted) (lg_taken l)) \<and>
    length (lg_fed l) = length (lg_taken l) + length (waiting s) + pq_dropped (pl_pq s) + lg_abandoned l"
proof -
  note ok = pipe_invariant [OF assms]
  have "subseq (map fst (filter (\<lambda>(_, t). t = Submitted) (lg_taken l))) (map fst (lg_taken l))"
    by (rule subseq_map [OF subseq_filter_left])
  moreover have "subseq (pl_decodeCh s @ pq_items (pl_pq s)) (waiting s)"
    unfolding waiting_def by (rule prefix_imp_subseq) simp
  ultimately have "subseq ((lg_out l @ pl_window s) @ pl_decodeCh s @ pq_items (pl_pq s)) (map fst (lg_taken l) @ waiting s)"
    using ok unfolding pipe_ok_def by (simp only: list_emb_append_mono)
  moreover have "subseq (map fst (lg_taken l) @ waiting s) (lg_fed l)"
    using ok by (simp add: pipe_ok_def)
  ultimately have "subseq (lg_out l @ pl_window s @ pl_decodeCh s @ pq_items (pl_pq s)) (lg_fed l)"
    unfolding append_assoc by (rule subseq_order.trans)
  with ok show ?thesis
    by (simp add: pipe_ok_def)
qed

theorem decode_order_is_capture_order_witness:
  "subseq (pl_decodeCh (fst demoRun)) (lg_fed (snd demoRun)) \<and> length (pl_decodeCh (fst demoRun)) = 2"
proof -
  have "lg_out (snd demoRun) = []" "pl_window (fst demoRun) = []" "pq_items (pl_pq (fst demoRun)) = []"
    "length (pl_decodeCh (fst demoRun)) = 2"
    by code_simp+
  with decode_order_is_capture_order [OF demo_run] show ?thesis
    by simp
qed

text \<open>
  The pipeline is bounded in every run: channel, window and result channel stay within
  their sizes, and the overflow queue holds at most 64 MB, or a single larger packet.
\<close>

theorem pipeline_bounded:
  assumes "pipe s l"
  shows "length (pl_decodeCh s) \<le> decodeQueueSize \<and> length (pl_window s) \<le> decodeWindow \<and>
    length (pl_decodedCh s) \<le> decodedQueueSize \<and>
    (sum_list (map rawLen (pq_items (pl_pq s))) \<le> pendingQueueMaxBytes \<or> length (pq_items (pl_pq s)) \<le> 1)"
  using pipe_invariant [OF assms] by (auto simp: pipe_ok_def pq_ok_def)

theorem pipeline_bounded_witness: "length (pl_decodeCh (fst demoRun)) \<le> decodeQueueSize"
  using pipeline_bounded [OF demo_run] by blast

text \<open>
  (C15) Shutdown ends: once the channel is closed every step of the worker and of the main loop
  brings the end nearer, some step is possible as long as anything is left, and so everything
  captured and queued for decoding is worked off.
\<close>

theorem shutdown_drains:
  assumes "pl_closed s"
  shows "(drain_step s s' \<longrightarrow> work s' < work s) \<and> (0 < work s \<longrightarrow> (\<exists>s1. drain_step s s1)) \<and>
    (\<exists>s2. drain_step\<^sup>*\<^sup>* s s2 \<and> pl_decodeCh s2 = [] \<and> pl_window s2 = [] \<and> pl_decodedCh s2 = [])"
  using drain_step_work [of s s'] drain_progress [OF assms] drain_finishes [OF assms] by (auto simp: work_def)

theorem shutdown_drains_witness:
  "\<exists>s2. drain_step\<^sup>*\<^sup>* (shutdownDecode (fst demoRun)) s2 \<and> pl_decodeCh s2 = [] \<and> pl_window s2 = [] \<and> pl_decodedCh s2 = []"
  using shutdown_drains [of "shutdownDecode (fst demoRun)"] by (simp add: shutdownDecode_def)

text \<open>
  A quiet session withholds results: while no new packet arrives, the worker does not wait
  for the up to fifteen packets in flight, answered or not; neither of its actions is enabled.
\<close>

theorem quiet_window_stalls:
  assumes "\<not> pl_closed s" and "pl_decodeCh s = []" and "length (pl_window s) < decodeWindow"
  shows "takeNext ok s = None \<and> drainHead outcome s = None"
  using assms by (simp add: takeNext_def drainHead_def)

theorem quiet_window_stalls_witness:
  "let s = newPipeline\<lparr>pl_disp := True, pl_window := [demoPacket 1 80 no_flags]\<rparr>
   in drainHead (Some []) s = None \<and> pl_window s \<noteq> []"
  using quiet_window_stalls [of "newPipeline\<lparr>pl_disp := True, pl_window := [demoPacket 1 80 no_flags]\<rparr>" True "Some []"]
  by (simp add: newPipeline_def decodeWindow_def)

text \<open>
  A replay without a decoder is not kept for later: its packets go to the worker, which passes
  over them, and nothing is left waiting when the decoder comes.
\<close>

lemma replay_without_decoder_skips:
  "let p = demoPacket 1 80 no_flags; s1 = newPipeline\<lparr>pl_sending := Some p\<rparr>;
       s2 = the (sendReplay s1); (q, fate, s3) = the (takeNext True s2)
   in q = p \<and> fate = Skipped \<and> waiting s3 = [] \<and> pl_window s3 = []"
  by code_simp

end
