(* ===== verification/Go_Strings.thy ===== *)
theory Go_Strings
  imports GT_Prelude
begin

text \<open>
  What the components use of Go's strings: the runes of a byte string (\<open>[]rune(s)\<close>, with one
  replacement character for every byte that starts no valid UTF-8 sequence), cutting a string
  after a number of runes, \<open>strings.ToLower\<close> and \<open>strings.TrimSpace\<close> on ASCII.
\<close>

section \<open>Runes\<close>

definition byteOf :: "char \<Rightarrow> int" where
  "byteOf c = of_char c"

definition inRange :: "int \<Rightarrow> int \<Rightarrow> char \<Rightarrow> bool" where
  "inRange lo hi c \<longleftrightarrow> lo \<le> byteOf c \<and> byteOf c \<le> hi"

abbreviation isCont :: "char \<Rightarrow> bool" where
  "isCont \<equiv> inRange 0x80 0xBF"

text \<open>The number of bytes of the rune at the front; 0 when there is no valid one.\<close>

fun runeWidth :: "string \<Rightarrow> nat" where
  "runeWidth [] = 0"
| "runeWidth (c # cs) =
     (let b = byteOf c in
      if b < 0x80 then 1
      else if 0xC2 \<le> b \<and> b \<le> 0xDF then (case cs of d # _ \<Rightarrow> if isCont d then 2 else 0 | _ \<Rightarrow> 0)
      else if 0xE0 \<le> b \<and> b \<le> 0xEF then
        (case cs of
           d # e # _ \<Rightarrow>
             if inRange (if b = 0xE0 then 0xA0 else 0x80) (if b = 0xED then 0x9F else 0xBF) d \<and> isCont e then 3 else 0
         | _ \<Rightarrow> 0)
      else if 0xF0 \<le> b \<and> b \<le> 0xF4 then
        (case cs of
           d # e # f # _ \<Rightarrow>
             if inRange (if b = 0xF0 then 0x90 else 0x80) (if b = 0xF4 then 0x8F else 0xBF) d \<and> isCont e \<and> isCont f
             then 4 else 0
         | _ \<Rightarrow> 0)
      else 0)"

definition replacementChar :: string where
  "replacementChar = [CHR 0xEF, CHR 0xBF, CHR 0xBD]"

function runes :: "string \<Rightarrow> string list" where
  "runes s =
     (if s = [] then []
      else if runeWidth s = 0 then replacementChar # runes (tl s)
      else take (runeWidth s) s # runes (drop (runeWidth s) s))"
  by auto
termination by (relation "measure length") auto

declare runes.simps [simp del]

text \<open>\<open>truncateRunes\<close>: as it is when short enough, otherwise the first runes, printed again.\<close>

definition truncateRunes :: "string \<Rightarrow> nat \<Rightarrow> string" where
  "truncateRunes s n =
     (if length s \<le> n then s
      else if length (runes s) \<le> n then s
      else concat (take n (runes s)))"

lemma runeWidth_le: "runeWidth s \<le> length s"
  by (cases s) (auto simp: Let_def split: list.split)

lemma runes_Nil [simp]: "runes [] = []"
  by (simp add: runes.simps)

lemma length_runes: "length (runes s) \<le> length s"
proof (induction s rule: runes.induct)
  case (1 s)
  then show ?case
    by (subst runes.simps) (cases s; auto intro: le_SucI)
qed

lemma runeWidth_le4: "runeWidth s \<le> 4"
  by (cases s) (auto simp: Let_def split: list.split)

lemma length_le_runes: "length s \<le> 4 * length (runes s)"
proof (induction s rule: runes.induct)
  case (1 s)
  show ?case
  proof (cases "s = []")
    case False
    show ?thesis
    proof (cases "runeWidth s = 0")
      case True
      with False 1(1) show ?thesis
        by (subst runes.simps) (cases s; simp)
    next
      case w: False
      then have "length (drop (runeWidth s) s) \<le> 4 * length (runes (drop (runeWidth s) s))"
        using False 1(2) by blast
      then show ?thesis
        using False w runeWidth_le4 [of s] by (subst runes.simps) simp
    qed
  qed simp
qed

lemma rune_le4: "r \<in> set (runes s) \<Longrightarrow> length r \<le> 4"
proof (induction s rule: runes.induct)
  case (1 s)
  then show ?case
    using runeWidth_le4 [of s] by (subst (asm) (3) runes.simps) (auto simp: replacementChar_def split: if_splits)
qed

text \<open>A truncated string has at most the given number of runes, so at most four times as many bytes.\<close>

lemma length_truncateRunes: "length (truncateRunes s n) \<le> 4 * n"
proof -
  have "length (concat rs) \<le> 4 * length rs" if "\<forall>r \<in> set rs. length r \<le> 4" for rs :: "string list"
    using that by (induction rs) auto
  moreover have "\<forall>r \<in> set (take n (runes s)). length r \<le> 4"
    by (blast dest: in_set_takeD rune_le4)
  ultimately have "length (concat (take n (runes s))) \<le> 4 * length (take n (runes s))"
    by blast
  also have "\<dots> \<le> 4 * n"
    by simp
  finally have "length (concat (take n (runes s))) \<le> 4 * n" .
  then show ?thesis
    using length_le_runes [of s] unfolding truncateRunes_def by presburger
qed

section \<open>ASCII helpers\<close>

definition toLowerChar :: "char \<Rightarrow> char" where
  "toLowerChar c = (if inRange 65 90 c then char_of (byteOf c + 32) else c)"

definition toLower :: "string \<Rightarrow> string" where
  "toLower = map toLowerChar"

definition isSpaceChar :: "char \<Rightarrow> bool" where
  "isSpaceChar c \<longleftrightarrow> byteOf c = 32 \<or> inRange 9 13 c"

definition trimSpace :: "string \<Rightarrow> string" where
  "trimSpace s = rev (dropWhile isSpaceChar (rev (dropWhile isSpaceChar s)))"

end
