(* ===== verification/Check_Rule.thy ===== *)
theory Check_Rule
  imports Rule Go_Strings
begin

text \<open>
  \<open>pkg/checkrule/checkrule.go\<close>: the check rules of a project, their validation, the filter of
  active rules and the truncation of alert data. Durations are 64-bit nanosecond counts, so
  the product of seconds with \<open>time.Second\<close> wraps. Issues carry their identifier and location,
  not the message text; the text \<open>%q\<close> prints is a parameter.
\<close>

section \<open>Rules\<close>

definition second :: u64 where "second = 1000000000"
definition DefaultCooldown :: int where "DefaultCooldown = 30000000000"
definition MaxCooldown :: int where "MaxCooldown = 86400000000000"
definition DefaultContext :: int where "DefaultContext = 3"
definition MaxContext :: int where "MaxContext = 50"
definition MaxRulesPerProject :: nat where "MaxRulesPerProject = 50"
definition MaxTitleLen :: nat where "MaxTitleLen = 200"
definition MaxMessageLen :: nat where "MaxMessageLen = 500"
definition MaxRecordDataBytes :: int where "MaxRecordDataBytes = 2048"
definition MaxBundleBytes :: int where "MaxBundleBytes = 262144"

record 'v checkRule =
  cr_ID :: string
  cr_Name :: string
  cr_Enabled :: bool
  cr_When :: "'v predicate"
  cr_Title :: string
  cr_Message :: string
  cr_CooldownSec :: u64
  cr_ContextPerDirection :: int

definition cooldown :: "'v checkRule \<Rightarrow> int" where
  "cooldown r = (if 0 < sint (cr_CooldownSec r) then sint (cr_CooldownSec r * second) else DefaultCooldown)"

definition ruleContext :: "'v checkRule \<Rightarrow> int" where
  "ruleContext r = (if 0 < cr_ContextPerDirection r then cr_ContextPerDirection r else DefaultContext)"

definition defaultTitle :: string where
  "defaultTitle =
     [CHR 0xE6, CHR 0xA3, CHR 0x80, CHR 0xE6, CHR 0x9F, CHR 0xA5, CHR 0xE8, CHR 0xA7, CHR 0x84, CHR 0xE5, CHR 0x88,
      CHR 0x99, CHR 0xE5, CHR 0x91, CHR 0xBD, CHR 0xE4, CHR 0xB8, CHR 0xAD]"

definition notifyTitle :: "'v checkRule \<Rightarrow> string" where
  "notifyTitle r = (if cr_Title r \<noteq> '''' then cr_Title r else if cr_Name r \<noteq> '''' then cr_Name r else defaultTitle)"

definition notifyMessage :: "(string \<Rightarrow> string) \<Rightarrow> 'v checkRule \<Rightarrow> string" where
  "notifyMessage quote r =
     (if cr_Message r \<noteq> '''' then cr_Message r
      else take 12 defaultTitle @ '' '' @ quote (cr_Name r) @ '' '' @ drop 12 defaultTitle)"

definition whenEmpty :: "'v checkRule \<Rightarrow> bool" where
  "whenEmpty r \<longleftrightarrow>
     p_All (cr_When r) = [] \<and> p_Any (cr_When r) = [] \<and> p_Path (cr_When r) = '''' \<and> p_Op (cr_When r) = '''' \<and>
     p_Value (cr_When r) = None"

definition validateCheck :: "('d, 'n, 'v) gjson_api \<Rightarrow> 'v checkRule \<Rightarrow> issue list" where
  "validateCheck api r =
     (if cr_ID r = '''' then [mkIssue ''gt.check.id-required'' ''id''] else []) @
     (if cr_Name r = '''' then [mkIssue ''gt.check.name-required'' ''name''] else []) @
     (if whenEmpty r then (if cr_Enabled r then [mkIssue ''gt.check.when-required'' ''when''] else [])
      else map (\<lambda>iss. mkIssue ''gt.check.when-invalid'' (''when.'' @ is_Path iss)) (validatePred api (cr_When r))) @
     (if sint (cr_CooldownSec r) < 0 \<or> MaxCooldown < sint (cr_CooldownSec r * second)
      then [mkIssue ''gt.check.cooldown-range'' ''cooldown_sec''] else []) @
     (if cr_ContextPerDirection r < 0 \<or> MaxContext < cr_ContextPerDirection r
      then [mkIssue ''gt.check.context-range'' ''context_per_direction''] else []) @
     (if MaxTitleLen < length (runes (cr_Title r)) then [mkIssue ''gt.check.title-too-long'' ''title''] else []) @
     (if MaxMessageLen < length (runes (cr_Message r)) then [mkIssue ''gt.check.message-too-long'' ''message''] else [])"

fun checkReportFrom :: "('d, 'n, 'v) gjson_api \<Rightarrow> nat \<Rightarrow> string list \<Rightarrow> 'v checkRule list \<Rightarrow> issue list" where
  "checkReportFrom api i seen [] = []"
| "checkReportFrom api i seen (r # rs) =
     (let prefix = ''rules['' @ show_nat i @ '']'' in
      (if cr_ID r \<noteq> '''' \<and> cr_ID r \<in> set seen then [mkIssue ''gt.check.id-duplicate'' prefix] else []) @
      map (\<lambda>iss. iss\<lparr>is_Path := joinPath prefix (is_Path iss)\<rparr>) (validateCheck api r) @
      checkReportFrom api (Suc i) (if cr_ID r \<noteq> '''' then cr_ID r # seen else seen) rs)"

definition checkRulesReport :: "('d, 'n, 'v) gjson_api \<Rightarrow> 'v checkRule list \<Rightarrow> issue list" where
  "checkRulesReport api rules =
     (if MaxRulesPerProject < length rules then [mkIssue ''gt.check.too-many-rules'' ''rules''] else []) @
     checkReportFrom api 0 [] rules"

definition activeRules :: "'v checkRule list \<Rightarrow> 'v checkRule list" where
  "activeRules rules = filter (\<lambda>r. cr_Enabled r \<and> \<not> whenEmpty r) rules"

definition matchCheck :: "('d, 'n :: linorder, 'v) gjson_api \<Rightarrow> (string \<Rightarrow> 'd) \<Rightarrow> 'v predicate \<Rightarrow> string \<Rightarrow> bool" where
  "matchCheck api parse pred eventJSON = (if eventJSON = '''' then False else evalPred api pred (parse eventJSON))"

section \<open>Transport and alert data\<close>

text \<open>\<open>EncodeList\<close> and \<open>DecodeList\<close> over the JSON form of one rule: entries without one are skipped.\<close>

definition encodeList :: "('v checkRule \<Rightarrow> string option) \<Rightarrow> 'v checkRule list \<Rightarrow> string list" where
  "encodeList marshal rules = List.map_filter marshal rules"

definition decodeList :: "(string \<Rightarrow> 'v checkRule option) \<Rightarrow> string list \<Rightarrow> 'v checkRule list \<times> nat" where
  "decodeList unmarshal encoded =
     (List.map_filter unmarshal encoded, length (filter (\<lambda>s. unmarshal s = None) encoded))"

datatype alertData = NoData | RawJSON string | TruncatedText string

definition truncateData :: "string \<Rightarrow> int \<Rightarrow> alertData" where
  "truncateData raw limit =
     (let limit = (if limit \<le> 0 then MaxRecordDataBytes else limit) in
      if int (length raw) \<le> limit then (if raw = '''' then NoData else RawJSON raw)
      else
        TruncatedText (take (nat limit) raw @ [CHR 0xE2, CHR 0x80, CHR 0xA6] @ ''(truncated, '' @
          show_nat (length raw) @ '' bytes total)''))"

section \<open>What a valid rule is\<close>

definition check_ok :: "('d, 'n, 'v) gjson_api \<Rightarrow> 'v checkRule \<Rightarrow> bool" where
  "check_ok api r \<longleftrightarrow>
     cr_ID r \<noteq> '''' \<and> cr_Name r \<noteq> '''' \<and> (if whenEmpty r then \<not> cr_Enabled r else wf_pred api (cr_When r)) \<and>
     0 \<le> sint (cr_CooldownSec r) \<and> sint (cr_CooldownSec r * second) \<le> MaxCooldown \<and>
     0 \<le> cr_ContextPerDirection r \<and> cr_ContextPerDirection r \<le> MaxContext \<and>
     length (runes (cr_Title r)) \<le> MaxTitleLen \<and> length (runes (cr_Message r)) \<le> MaxMessageLen"

lemma validateCheck_ok: "validateCheck api r = [] \<longleftrightarrow> check_ok api r"
  by (auto simp: validateCheck_def check_ok_def validatePred_ok)

lemma checkReportFrom_Nil:
  "checkReportFrom api i seen rs = [] \<longleftrightarrow>
     list_all (check_ok api) rs \<and> distinct (map cr_ID rs) \<and> set (map cr_ID rs) \<inter> set seen = {}"
proof (induction rs arbitrary: i seen)
  case (Cons r rs)
  have "check_ok api r \<Longrightarrow> cr_ID r \<noteq> ''''"
    by (simp add: check_ok_def)
  then show ?case
    by (auto simp: Let_def Cons.IH validateCheck_ok split: if_splits)
qed simp

lemma active_nonempty: "check_ok api r \<Longrightarrow> r \<in> set (activeRules rs) \<Longrightarrow> wf_pred api (cr_When r)"
  by (auto simp: check_ok_def activeRules_def split: if_splits)

section \<open>Properties\<close>

text \<open>
  \<open>RulesReport\<close> is exact: it is empty exactly when there are at most fifty rules with
  distinct identifiers, every rule is well formed, and then every active rule has a well
  formed condition.
\<close>

theorem check_report_exact:
  "(checkRulesReport api rules = [] \<longleftrightarrow>
      length rules \<le> MaxRulesPerProject \<and> list_all (check_ok api) rules \<and> distinct (map cr_ID rules)) \<and>
   (checkRulesReport api rules = [] \<longrightarrow> list_all (\<lambda>r. wf_pred api (cr_When r)) (activeRules rules))"
proof -
  have "checkRulesReport api rules = [] \<longleftrightarrow>
      length rules \<le> MaxRulesPerProject \<and> list_all (check_ok api) rules \<and> distinct (map cr_ID rules)"
    by (auto simp: checkRulesReport_def checkReportFrom_Nil)
  moreover have "list_all (\<lambda>r. wf_pred api (cr_When r)) (activeRules rules)" if "list_all (check_ok api) rules"
    using that active_nonempty by (fastforce simp: list_all_iff activeRules_def)
  ultimately show ?thesis
    by blast
qed

theorem check_report_exact_witness:
  "list_all (\<lambda>r. wf_pred demo_api (cr_When r))
     (activeRules [\<lparr>cr_ID = ''r1'', cr_Name = ''n'', cr_Enabled = True, cr_When = Pred [] [] ''a'' ''exists'' None, cr_Title = '''',
        cr_Message = '''', cr_CooldownSec = 2, cr_ContextPerDirection = 1\<rparr>])"
proof -
  let ?r = "\<lparr>cr_ID = ''r1'', cr_Name = ''n'', cr_Enabled = True, cr_When = Pred [] [] ''a'' ''exists'' None, cr_Title = '''',
    cr_Message = '''', cr_CooldownSec = 2, cr_ContextPerDirection = 1\<rparr>"
  have "checkRulesReport demo_api [?r] = []"
    by code_simp
  then show ?thesis
    using check_report_exact [of demo_api "[?r]"] by blast
qed

text \<open>
  The range check of the cooldown can be passed by wrap-around: a rule with a cooldown of
  18446744074 seconds, over five hundred years, is accepted, and fires again after less than
  a third of a second.
\<close>

theorem cooldown_overflow_accepted:
  "let r = \<lparr>cr_ID = ''a'', cr_Name = ''n'', cr_Enabled = False, cr_When = Pred [] [] '''' '''' None, cr_Title = '''',
        cr_Message = '''', cr_CooldownSec = 18446744074, cr_ContextPerDirection = 0\<rparr>
   in checkRulesReport api [r] = [] \<and> cooldown r = 290448384"
proof -
  have "sint (18446744074 * second) = 290448384" "sint (18446744074 :: u64) = 18446744074"
    by (code_simp, code_simp)
  then show ?thesis
    by (simp add: Let_def checkRulesReport_def validateCheck_ok check_ok_def whenEmpty_def cooldown_def MaxCooldown_def
        MaxRulesPerProject_def MaxContext_def)
qed

end
