(* ===== verification/Semantic.thy ===== *)
theory Semantic
  imports Event_Model Rule
begin

text \<open>
  \<open>cmd/gt-pipeline/semantic_hook.go\<close>: the engine that runs the semantic rules of a plugin on
  decoded events, labels them, names them and joins requests with responses.

  Events are shared by pointer: the pool of open pairs keeps events whose trace is written
  when the other side arrives. A heap, a list of events addressed by position, stands for the
  events of a session. The conversion of a value to the document the rules query (JSON text
  and gjson) is a parameter \<open>toDoc\<close>; \<open>None\<close> is a value that has no JSON form. One reading of the
  clock serves a whole call.
\<close>

section \<open>Engine\<close>

type_synonym evref = nat
type_synonym heap = "event list"

definition maxPendingPairs :: nat where "maxPendingPairs = 4096"
definition pendingTTL :: time where "pendingTTL = 30000000000"

record pendingPair =
  pp_hit :: pairHit
  pp_evt :: evref
  pp_conn :: string
  pp_at :: time

record 'v semanticEngine =
  se_rules :: "'v srule list"
  se_pending :: "(string \<times> pendingPair) list"
  se_inserts :: nat

definition newSemanticEngine :: "'v semanticEngine" where
  "newSemanticEngine = \<lparr>se_rules = [], se_pending = [], se_inserts = 0\<rparr>"

text \<open>
  \<open>None\<close>: no registry; \<open>Some None\<close>: no manifest, or one that does not parse. Rules with
  declaration issues are loaded all the same.
\<close>

definition refreshRules :: "'v srule list option option \<Rightarrow> 'v semanticEngine \<Rightarrow> 'v semanticEngine" where
  "refreshRules manifest e =
     (case manifest of
        None \<Rightarrow> e
      | Some None \<Rightarrow> e\<lparr>se_rules := []\<rparr>
      | Some (Some rules) \<Rightarrow> e\<lparr>se_rules := rules\<rparr>)"

section \<open>Labels and names\<close>

definition withMetaObject :: "vval \<Rightarrow> vval \<Rightarrow> vval" where
  "withMetaObject payload meta =
     (case payload of
        VObject m \<Rightarrow>
          if map_of m ''_meta'' \<noteq> None then payload
          else
            (case meta of
               VObject mm \<Rightarrow> if mm = [] then payload else VObject (AList.update ''_meta'' meta m)
             | _ \<Rightarrow> payload)
      | _ \<Rightarrow> payload)"

text \<open>A key of the meta object, and of \<open>_meta\<close> in the payload when an old plugin put one there.\<close>

definition writeMeta :: "string \<Rightarrow> vval \<Rightarrow> event \<Rightarrow> event" where
  "writeMeta key v ev =
     (let meta = (case asObject (ev_Meta ev) of Some cur \<Rightarrow> cur | None \<Rightarrow> []);
          ev = ev\<lparr>ev_Meta := VObject (AList.update key v meta)\<rparr>
      in
      case ev_Payload ev of
        VObject root \<Rightarrow>
          (case map_of root ''_meta'' of
             Some (VObject cur) \<Rightarrow>
               ev\<lparr>ev_Payload := VObject (AList.update ''_meta'' (VObject (AList.update key v cur)) root)\<rparr>
           | _ \<Rightarrow> ev)
      | _ \<Rightarrow> ev)"

definition applyMsgNames :: "nameHit list \<Rightarrow> event \<Rightarrow> event" where
  "applyMsgNames names ev =
     (case names of
        [] \<Rightarrow> ev
      | n # _ \<Rightarrow> if nh_Value n = '''' then ev else writeMeta ''msg_name'' (VString (nh_Value n)) ev)"

definition applySemantics :: "string list \<Rightarrow> event \<Rightarrow> event" where
  "applySemantics sems ev =
     (if sems = [] then ev else writeMeta ''semantic'' (VArray (map VString sems)) ev)"

definition semanticLabels :: "event \<Rightarrow> string list" where
  "semanticLabels ev =
     (case get_key ''semantic'' (ev_Meta ev) of
        Some (VArray items) \<Rightarrow> filter (\<lambda>s. s \<noteq> '''') (List.map_filter asString items)
      | Some (VString s) \<Rightarrow> if s \<noteq> '''' then [s] else []
      | _ \<Rightarrow> [])"

definition roleLabels :: "string list" where
  "roleLabels = [''request'', ''response'', ''notification'']"

definition applyDefaultSemantics :: "event \<Rightarrow> event" where
  "applyDefaultSemantics ev =
     (let dir = ec_Direction (ev_Context ev) in
      if dir \<noteq> ''client_to_server'' \<and> dir \<noteq> ''server_to_client'' then ev
      else
        (let label = (if dir = ''client_to_server'' then ''request'' else ''response'');
             labels = semanticLabels ev
         in
         if list_ex (\<lambda>l. l \<in> set roleLabels) labels then ev
         else applySemantics (labels @ [label]) ev))"

section \<open>Pairs\<close>

definition mapKey :: "string \<Rightarrow> pairHit \<Rightarrow> string" where
  "mapKey conn h = conn @ [CHR 0x00] @ ph_RuleID h @ [CHR 0x00] @ ph_Key h"

definition evictExpired :: "time \<Rightarrow> 'v semanticEngine \<Rightarrow> 'v semanticEngine" where
  "evictExpired now e =
     (let kept = filter (\<lambda>(_, p). \<not> pendingTTL < now - pp_at p) (se_pending e)
      in e\<lparr>se_pending := (if maxPendingPairs \<le> length kept then [] else kept)\<rparr>)"

definition preserveCorrelationKey :: "string \<Rightarrow> event \<Rightarrow> event" where
  "preserveCorrelationKey pairKey ev =
     (let old = tc_CorrelationID (ev_Trace ev) in
      if old = '''' \<or> old = pairKey then ev
      else
        (let meta = (case asObject (ev_Meta ev) of Some cur \<Rightarrow> cur | None \<Rightarrow> [])
         in ev\<lparr>ev_Meta := VObject (AList.update ''corr_key'' (VString old) meta)\<rparr>))"

definition link :: "evref \<Rightarrow> evref \<Rightarrow> heap \<Rightarrow> heap" where
  "link req resp heap =
     (let corr = id_ID (ev_Identity (heap ! req));
          setCorr = (\<lambda>ev. ev\<lparr>ev_Trace := (ev_Trace ev)\<lparr>tc_CorrelationID := corr\<rparr>\<rparr>);
          heap = heap[req := preserveCorrelationKey corr (heap ! req)];
          heap = heap[resp := preserveCorrelationKey corr (heap ! resp)];
          heap = heap[req := setCorr (heap ! req)];
          heap = heap[resp := setCorr (heap ! resp)];
          cause = id_ID (ev_Identity (heap ! req))
      in heap[resp := (heap ! resp)\<lparr>ev_Trace := (ev_Trace (heap ! resp))\<lparr>tc_CausationID := cause\<rparr>\<rparr>])"

definition insertPending :: "time \<Rightarrow> string \<Rightarrow> pendingPair \<Rightarrow> 'v semanticEngine \<Rightarrow> 'v semanticEngine" where
  "insertPending now key p e =
     (let e = (if maxPendingPairs \<le> length (se_pending e) then evictExpired now e else e);
          e = e\<lparr>se_pending := AList.update key p (se_pending e), se_inserts := se_inserts e + 1\<rparr>
      in if se_inserts e mod 512 = 0 then evictExpired now e else e)"

definition pairStep ::
  "time \<Rightarrow> evref \<Rightarrow> pairHit \<Rightarrow> heap \<times> 'v semanticEngine \<Rightarrow> heap \<times> 'v semanticEngine"
where
  "pairStep now ev h = (\<lambda>(heap, e).
     (let conn = ec_ConnID (ev_Context (heap ! ev)); key = mapKey conn h in
      case map_of (se_pending e) key of
        Some prev \<Rightarrow>
          if pp_conn prev = conn \<and> matchPair (pp_hit prev) h then
            ((if ph_Side h = 0 then link ev (pp_evt prev) heap else link (pp_evt prev) ev heap),
             e\<lparr>se_pending := AList.delete key (se_pending e)\<rparr>)
          else (heap, insertPending now key \<lparr>pp_hit = h, pp_evt = ev, pp_conn = conn, pp_at = now\<rparr> e)
      | None \<Rightarrow> (heap, insertPending now key \<lparr>pp_hit = h, pp_evt = ev, pp_conn = conn, pp_at = now\<rparr> e)))"

definition applyPairs ::
  "time \<Rightarrow> evref \<Rightarrow> pairHit list \<Rightarrow> heap \<times> 'v semanticEngine \<Rightarrow> heap \<times> 'v semanticEngine"
where
  "applyPairs now ev hits = fold (pairStep now ev) hits"

definition onEvent :: "evref \<Rightarrow> (event \<Rightarrow> event) \<Rightarrow> heap \<Rightarrow> heap" where
  "onEvent r f heap = heap[r := f (heap ! r)]"

definition enrichSemantics ::
  "('d, 'n :: linorder, 'v) gjson_api \<Rightarrow> (vval \<Rightarrow> 'd option) \<Rightarrow> time \<Rightarrow> evref \<Rightarrow>
   heap \<times> 'v semanticEngine \<Rightarrow> heap \<times> 'v semanticEngine"
where
  "enrichSemantics api toDoc now r = (\<lambda>(heap, e).
     (if se_rules e = [] then (onEvent r applyDefaultSemantics heap, e)
      else
        (let ev = heap ! r in
         case toDoc (withMetaObject (ev_Payload ev) (ev_Meta ev)) of
           None \<Rightarrow> (heap, e)
         | Some doc \<Rightarrow>
             (let res = evaluate api (se_rules e) doc;
                  heap = onEvent r (\<lambda>ev. applySemantics (rr_Semantics res) (applyMsgNames (rr_Names res) ev)) heap;
                  (heap, e) = applyPairs now r (rr_Pairs res) (heap, e)
              in (onEvent r applyDefaultSemantics heap, e)))))"

section \<open>What the engine leaves alone\<close>

abbreviation conn_of :: "event \<Rightarrow> string" where "conn_of ev \<equiv> ec_ConnID (ev_Context ev)"
abbreviation eid_of :: "event \<Rightarrow> string" where "eid_of ev \<equiv> id_ID (ev_Identity ev)"
abbreviation cause_of :: "event \<Rightarrow> string" where "cause_of ev \<equiv> tc_CausationID (ev_Trace ev)"
abbreviation corr_of :: "event \<Rightarrow> string" where "corr_of ev \<equiv> tc_CorrelationID (ev_Trace ev)"

definition frame :: "heap \<Rightarrow> heap \<Rightarrow> bool" where
  "frame = list_all2 (\<lambda>ev ev'. ev_Identity ev' = ev_Identity ev \<and> ev_Context ev' = ev_Context ev)"

lemma frame_refl [simp]: "frame heap heap"
  unfolding frame_def by (rule list.rel_refl) simp

lemma frame_trans: "frame a b \<Longrightarrow> frame b c \<Longrightarrow> frame a c"
  unfolding frame_def by (rule list_all2_trans) auto

lemma frame_length: "frame heap heap' \<Longrightarrow> length heap' = length heap"
  unfolding frame_def by (simp add: list_all2_lengthD)

lemma frame_nth:
  "frame heap heap' \<Longrightarrow> i < length heap \<Longrightarrow> ev_Identity (heap' ! i) = ev_Identity (heap ! i) \<and> ev_Context (heap' ! i) = ev_Context (heap ! i)"
  unfolding frame_def by (rule list_all2_nthD)

lemma nth_update_at: "n < length xs \<Longrightarrow> xs[r := v] ! n = (if n = r then v else xs ! n)"
  by (cases "n = r") simp_all

lemma preserve_fields [simp]:
  "ev_Identity (preserveCorrelationKey k ev) = ev_Identity ev" "ev_Context (preserveCorrelationKey k ev) = ev_Context ev"
  "ev_Trace (preserveCorrelationKey k ev) = ev_Trace ev"
  by (simp_all add: preserveCorrelationKey_def Let_def)

lemma writeMeta_fields [simp]:
  "ev_Identity (writeMeta k v ev) = ev_Identity ev" "ev_Context (writeMeta k v ev) = ev_Context ev"
  "ev_Trace (writeMeta k v ev) = ev_Trace ev"
  by (auto simp: writeMeta_def Let_def split: vval.splits option.splits)

lemma label_fields [simp]:
  "ev_Identity (applySemantics s ev) = ev_Identity ev" "ev_Context (applySemantics s ev) = ev_Context ev"
  "ev_Trace (applySemantics s ev) = ev_Trace ev"
  "ev_Identity (applyMsgNames ns ev) = ev_Identity ev" "ev_Context (applyMsgNames ns ev) = ev_Context ev"
  "ev_Trace (applyMsgNames ns ev) = ev_Trace ev"
  "ev_Identity (applyDefaultSemantics ev) = ev_Identity ev" "ev_Context (applyDefaultSemantics ev) = ev_Context ev"
  "ev_Trace (applyDefaultSemantics ev) = ev_Trace ev"
  by (simp_all add: applySemantics_def applyMsgNames_def applyDefaultSemantics_def Let_def split: list.splits)

lemma onEvent_frame:
  assumes "\<And>ev. ev_Identity (f ev) = ev_Identity ev \<and> ev_Context (f ev) = ev_Context ev"
  shows "frame heap (onEvent r f heap)"
  unfolding frame_def onEvent_def
  by (rule list_all2_all_nthI) (use assms in \<open>auto simp: nth_update_at\<close>)

lemma onEvent_trace:
  assumes "\<And>ev. ev_Trace (f ev) = ev_Trace ev" and "j < length heap"
  shows "ev_Trace (onEvent r f heap ! j) = ev_Trace (heap ! j)"
  using assms by (cases "r = j") (simp_all add: onEvent_def)

lemma link_nth:
  assumes "req < length heap" and "resp < length heap" and "j < length heap"
  shows "ev_Identity (link req resp heap ! j) = ev_Identity (heap ! j)"
    and "ev_Context (link req resp heap ! j) = ev_Context (heap ! j)"
    and "cause_of (link req resp heap ! j) = (if j = resp then eid_of (heap ! req) else cause_of (heap ! j))"
    and "corr_of (link req resp heap ! j) = (if j = req \<or> j = resp then eid_of (heap ! req) else corr_of (heap ! j))"
  using assms by (simp_all add: link_def Let_def nth_list_update)

lemma length_link [simp]: "length (link req resp heap) = length heap"
  by (simp add: link_def Let_def)

lemma link_frame: "req < length heap \<Longrightarrow> resp < length heap \<Longrightarrow> frame heap (link req resp heap)"
  unfolding frame_def by (rule list_all2_all_nthI) (simp_all add: link_nth)

section \<open>The pool of open pairs\<close>

definition pool_ok :: "heap \<Rightarrow> 'v semanticEngine \<Rightarrow> bool" where
  "pool_ok heap e \<longleftrightarrow>
     list_all (\<lambda>(k, p). pp_evt p < length heap \<and> k = mapKey (pp_conn p) (pp_hit p) \<and>
       pp_conn p = conn_of (heap ! pp_evt p)) (se_pending e) \<and>
     length (se_pending e) \<le> maxPendingPairs"

lemma pool_frame: "frame heap heap' \<Longrightarrow> pool_ok heap e \<Longrightarrow> pool_ok heap' e"
  unfolding pool_ok_def using frame_nth [of heap heap']
  by (auto simp: list_all_iff frame_length)

lemma evict_ok: "list_all P (se_pending e) \<Longrightarrow> list_all P (se_pending (evictExpired now e))"
  by (auto simp: evictExpired_def Let_def list_all_iff)

lemma evict_length: "length (se_pending (evictExpired now e)) < maxPendingPairs"
  by (simp add: evictExpired_def Let_def maxPendingPairs_def)

lemma insertPending_ok:
  assumes "pool_ok heap e" and "pp_evt p < length heap" and "pp_conn p = conn_of (heap ! pp_evt p)"
  shows "pool_ok heap (insertPending now (mapKey (pp_conn p) (pp_hit p)) p e)"
proof -
  let ?P = "\<lambda>(k, p). pp_evt p < length heap \<and> k = mapKey (pp_conn p) (pp_hit p) \<and> pp_conn p = conn_of (heap ! pp_evt p)"
  let ?k = "mapKey (pp_conn p) (pp_hit p)"
  let ?e1 = "if maxPendingPairs \<le> length (se_pending e) then evictExpired now e else e"
  let ?e2 = "?e1\<lparr>se_pending := AList.update ?k p (se_pending ?e1), se_inserts := se_inserts ?e1 + 1\<rparr>"
  have "list_all ?P (se_pending e)" and "?P (?k, p)"
    using assms by (simp_all add: pool_ok_def)
  then have P: "list_all ?P (se_pending ?e2)"
    by (simp add: list_all_update evict_ok)
  have "length (se_pending ?e1) < maxPendingPairs"
    using evict_length [of now e] by simp
  then have "length (se_pending ?e2) \<le> maxPendingPairs"
    by (simp add: update_length)
  with P have "pool_ok heap ?e2"
    unfolding pool_ok_def by blast
  moreover have "pool_ok heap (evictExpired now ?e2)"
    unfolding pool_ok_def using evict_ok [OF P] evict_length less_imp_le by blast
  ultimately show ?thesis
    unfolding insertPending_def Let_def by (simp split: if_splits)
qed

text \<open>What may happen to the trace of an event: a cause, or a conversation, on its own connection.\<close>

definition linked :: "heap \<Rightarrow> evref \<Rightarrow> heap \<Rightarrow> bool" where
  "linked heap r heap' \<longleftrightarrow>
     (\<forall>j < length heap.
        (cause_of (heap' ! j) \<noteq> cause_of (heap ! j) \<longrightarrow>
           (\<exists>i < length heap. cause_of (heap' ! j) = eid_of (heap ! i) \<and> conn_of (heap ! i) = conn_of (heap ! j) \<and>
              (i = r \<or> j = r))) \<and>
        (corr_of (heap' ! j) \<noteq> corr_of (heap ! j) \<longrightarrow>
           (\<exists>i < length heap. corr_of (heap' ! j) = eid_of (heap ! i) \<and> conn_of (heap ! i) = conn_of (heap ! j))))"

lemma linked_refl [simp]: "linked heap r heap"
  by (simp add: linked_def)

lemma linked_link:
  assumes "linked heap r heap1" and "frame heap heap1" and "req < length heap" and "resp < length heap"
    and "r \<in> {req, resp}" and "conn_of (heap ! req) = conn_of (heap ! resp)"
  shows "linked heap r (link req resp heap1)"
  using assms frame_nth [OF assms(2)] unfolding linked_def
  by (simp add: link_nth frame_length) metis

lemma pairStep_ok:
  assumes "pool_ok heap1 e" and "frame heap heap1" and "linked heap r heap1" and "r < length heap"
  shows "case pairStep now r h (heap1, e) of (heap2, e2) \<Rightarrow> pool_ok heap2 e2 \<and> frame heap heap2 \<and> linked heap r heap2"
proof -
  let ?conn = "conn_of (heap1 ! r)"
  let ?key = "mapKey ?conn h"
  let ?p = "\<lparr>pp_hit = h, pp_evt = r, pp_conn = ?conn, pp_at = now\<rparr>"
  have r: "r < length heap1"
    using assms(2,4) by (simp add: frame_length)
  have ins: "pool_ok heap1 (insertPending now ?key ?p e)"
    using insertPending_ok [OF assms(1), of ?p now] r by simp
  show ?thesis
  proof (cases "map_of (se_pending e) ?key")
    case None
    with ins assms show ?thesis
      by (simp add: pairStep_def Let_def)
  next
    case (Some prev)
    have prev: "pp_evt prev < length heap1" "pp_conn prev = conn_of (heap1 ! pp_evt prev)"
      using list_all_map_of [OF _ Some] assms(1) unfolding pool_ok_def by auto
    show ?thesis
    proof (cases "pp_conn prev = ?conn \<and> matchPair (pp_hit prev) h")
      case False
      with Some ins assms show ?thesis
        by (auto simp: pairStep_def Let_def)
    next
      case True
      define req resp where "req = (if ph_Side h = 0 then r else pp_evt prev)" and "resp = (if ph_Side h = 0 then pp_evt prev else r)"
      have step: "pairStep now r h (heap1, e) = (link req resp heap1, e\<lparr>se_pending := AList.delete ?key (se_pending e)\<rparr>)"
        using Some True by (simp add: pairStep_def Let_def req_def resp_def)
      have b: "req < length heap1" "resp < length heap1" "r \<in> {req, resp}"
        using prev r by (auto simp: req_def resp_def)
      have "conn_of (heap ! req) = conn_of (heap ! resp)"
        using True prev frame_nth [OF assms(2)] r frame_length [OF assms(2)] by (auto simp: req_def resp_def)
      then have "linked heap r (link req resp heap1)"
        using linked_link [OF assms(3,2)] b frame_length [OF assms(2)] by simp
      moreover have "frame heap (link req resp heap1)"
        using frame_trans [OF assms(2) link_frame] b by blast
      moreover have "pool_ok heap1 (e\<lparr>se_pending := AList.delete ?key (se_pending e)\<rparr>)"
        using assms(1) length_delete_le [of ?key "se_pending e"] by (simp add: pool_ok_def list_all_delete)
      then have "pool_ok (link req resp heap1) (e\<lparr>se_pending := AList.delete ?key (se_pending e)\<rparr>)"
        using pool_frame link_frame b by blast
      ultimately show ?thesis
        by (simp add: step)
    qed
  qed
qed

lemma applyPairs_ok:
  assumes "pool_ok heap1 e" and "frame heap heap1" and "linked heap r heap1" and "r < length heap"
  shows "case applyPairs now r hits (heap1, e) of (heap2, e2) \<Rightarrow> pool_ok heap2 e2 \<and> frame heap heap2 \<and> linked heap r heap2"
  using assms unfolding applyPairs_def
proof (induction hits arbitrary: heap1 e)
  case (Cons h hits)
  obtain heap2 e2 where s: "pairStep now r h (heap1, e) = (heap2, e2)"
    by (cases "pairStep now r h (heap1, e)")
  with pairStep_ok [OF Cons.prems, of now h] Cons.IH [of heap2 e2] Cons.prems(4) show ?case
    by simp
qed simp

lemma linked_onEvent:
  assumes "linked heap r heap1" and "frame heap heap1" and "\<And>ev. ev_Trace (f ev) = ev_Trace ev"
  shows "linked heap r (onEvent r f heap1)"
  using assms(1) unfolding linked_def by (simp add: onEvent_trace [OF assms(3)] frame_length [OF assms(2)])

lemma enrich_ok:
  fixes e :: "'v semanticEngine"
  assumes "pool_ok heap e" and "r < length heap"
  shows "case enrichSemantics api toDoc now r (heap, e) of (heap', e') \<Rightarrow> pool_ok heap' e' \<and> frame heap heap' \<and> linked heap r heap'"
proof -
  have quiet: "pool_ok (onEvent r f heap1) e1 \<and> frame heap (onEvent r f heap1) \<and> linked heap r (onEvent r f heap1)"
    if "pool_ok heap1 e1" "frame heap heap1" "linked heap r heap1"
      and "\<And>ev. ev_Identity (f ev) = ev_Identity ev \<and> ev_Context (f ev) = ev_Context ev" "\<And>ev. ev_Trace (f ev) = ev_Trace ev"
    for f heap1 and e1 :: "'v semanticEngine"
    using that onEvent_frame [OF that(4)] pool_frame frame_trans linked_onEvent by blast
  note start = quiet [OF assms(1) frame_refl linked_refl]
  have def: "pool_ok (onEvent r applyDefaultSemantics heap1) e1 \<and> frame heap (onEvent r applyDefaultSemantics heap1) \<and>
      linked heap r (onEvent r applyDefaultSemantics heap1)"
    if "pool_ok heap1 e1" "frame heap heap1" "linked heap r heap1" for heap1 and e1 :: "'v semanticEngine"
    by (rule quiet [OF that]) simp_all
  show ?thesis
  proof (cases "se_rules e = []")
    case True
    with def [OF assms(1) frame_refl linked_refl] show ?thesis
      by (simp add: enrichSemantics_def)
  next
    case False
    show ?thesis
    proof (cases "toDoc (withMetaObject (ev_Payload (heap ! r)) (ev_Meta (heap ! r)))")
      case None
      with False assms show ?thesis
        by (simp add: enrichSemantics_def Let_def)
    next
      case (Some doc)
      let ?res = "evaluate api (se_rules e) doc"
      let ?h = "onEvent r (\<lambda>ev. applySemantics (rr_Semantics ?res) (applyMsgNames (rr_Names ?res) ev)) heap"
      have "pool_ok ?h e \<and> frame heap ?h \<and> linked heap r ?h"
        by (rule start) simp_all
      moreover obtain heap2 e2 where "applyPairs now r (rr_Pairs ?res) (?h, e) = (heap2, e2)"
        by (cases "applyPairs now r (rr_Pairs ?res) (?h, e)")
      ultimately show ?thesis
        using applyPairs_ok [of ?h e heap r now "rr_Pairs ?res"] assms(2) def [of heap2 e2] False Some
        by (simp add: enrichSemantics_def Let_def)
    qed
  qed
qed

section \<open>Finding the other side\<close>

lemma insertPending_get:
  assumes "Suc (length (se_pending e)) < maxPendingPairs" and "pp_at p = now"
  shows "map_of (se_pending (insertPending now key p e)) key = Some p"
proof -
  let ?xs = "AList.update key p (se_pending e)"
  have "map_of (filter (\<lambda>(_, p). \<not> pendingTTL < now - pp_at p) ?xs) key = Some p"
    by (rule map_of_filter_Some) (simp_all add: assms(2) pendingTTL_def update_conv')
  moreover have "length (filter (\<lambda>(_, p). \<not> pendingTTL < now - pp_at p) ?xs) < maxPendingPairs"
    using le_less_trans [OF length_filter_le, of ?xs maxPendingPairs] assms(1) by (simp add: update_length)
  ultimately show ?thesis
    using assms(1) by (simp add: insertPending_def evictExpired_def Let_def update_conv')
qed

section \<open>Roles\<close>

lemma get_key_update: "get_key k (VObject (AList.update j v m)) = (if k = j then Some v else get_key k (VObject m))"
  by (simp add: get_key_def asObject_def update_conv')

lemma meta_writeMeta:
  "ev_Meta (writeMeta k v ev) = VObject (AList.update k v (case asObject (ev_Meta ev) of Some cur \<Rightarrow> cur | None \<Rightarrow> []))"
  by (simp add: writeMeta_def Let_def split: vval.split option.split)

lemma labels_applySemantics: "sems \<noteq> [] \<Longrightarrow> semanticLabels (applySemantics sems ev) = filter (\<lambda>s. s \<noteq> '''') sems"
proof -
  assume "sems \<noteq> []"
  moreover have "get_key ''semantic'' (ev_Meta (writeMeta ''semantic'' v ev)) = Some v" for v
    by (simp only: meta_writeMeta get_key_update simp_thms if_True)
  moreover have "List.map_filter asString (map VString sems) = sems"
    by (induction sems) (simp_all add: List.map_filter_simps asString_def)
  ultimately show ?thesis
    by (simp add: applySemantics_def semanticLabels_def)
qed

lemma labels_preserve [simp]: "semanticLabels (preserveCorrelationKey k ev) = semanticLabels ev"
proof -
  have "get_key ''semantic'' (VObject (AList.update ''corr_key'' v (case asObject m of Some cur \<Rightarrow> cur | None \<Rightarrow> []))) =
      get_key ''semantic'' m" for v m
    unfolding get_key_update by (cases m) (simp_all add: get_key_def asObject_def)
  then show ?thesis
    by (simp add: preserveCorrelationKey_def semanticLabels_def Let_def)
qed

lemma labels_trace [simp]: "semanticLabels (ev\<lparr>ev_Trace := t\<rparr>) = semanticLabels ev"
  by (simp add: semanticLabels_def)

lemma labels_link:
  "req < length heap \<Longrightarrow> resp < length heap \<Longrightarrow> j < length heap \<Longrightarrow> semanticLabels (link req resp heap ! j) = semanticLabels (heap ! j)"
  by (simp add: link_def Let_def nth_list_update)

lemma default_has_role:
  assumes "ec_Direction (ev_Context ev) \<in> {''client_to_server'', ''server_to_client''}"
  shows "list_ex (\<lambda>l. l \<in> set roleLabels) (semanticLabels (applyDefaultSemantics ev))"
  using assms by (auto simp: applyDefaultSemantics_def Let_def labels_applySemantics roleLabels_def list_ex_iff)

lemma default_keeps_role:
  "list_ex (\<lambda>l. l \<in> set roleLabels) (semanticLabels ev) \<Longrightarrow> applyDefaultSemantics ev = ev"
  by (simp add: applyDefaultSemantics_def Let_def)

lemma pairStep_labels:
  assumes "pool_ok heap e" and "r < length heap" and "j < length heap"
  shows "semanticLabels (fst (pairStep now r h (heap, e)) ! j) = semanticLabels (heap ! j)"
proof (cases "map_of (se_pending e) (mapKey (conn_of (heap ! r)) h)")
  case None
  then show ?thesis
    by (simp add: pairStep_def Let_def)
next
  case (Some prev)
  then have "pp_evt prev < length heap"
    using list_all_map_of [OF _ Some] assms(1) unfolding pool_ok_def by auto
  with Some assms show ?thesis
    by (simp add: pairStep_def Let_def labels_link)
qed

lemma applyPairs_labels:
  assumes "pool_ok heap e" and "r < length heap" and "j < length heap"
  shows "semanticLabels (fst (applyPairs now r hits (heap, e)) ! j) = semanticLabels (heap ! j)"
  using assms unfolding applyPairs_def
proof (induction hits arbitrary: heap e)
  case (Cons h hits)
  obtain heap1 e1 where s: "pairStep now r h (heap, e) = (heap1, e1)"
    by (cases "pairStep now r h (heap, e)")
  have "pool_ok heap1 e1" "frame heap heap1"
    using pairStep_ok [OF Cons.prems(1) frame_refl linked_refl Cons.prems(2), of now h] s by simp_all
  then show ?case
    using Cons.IH [of heap1 e1] pairStep_labels [OF Cons.prems, of now h] Cons.prems(2,3) s
    by (simp add: frame_length)
qed simp

lemma enrich_evaluated:
  assumes "se_rules e \<noteq> []" and "toDoc (withMetaObject (ev_Payload (heap ! r)) (ev_Meta (heap ! r))) = Some doc"
    and "pool_ok heap e" and "r < length heap"
  shows "\<exists>ev. fst (enrichSemantics api toDoc now r (heap, e)) ! r = applyDefaultSemantics ev \<and>
    ec_Direction (ev_Context ev) = ec_Direction (ev_Context (heap ! r)) \<and>
    (rr_Semantics (evaluate api (se_rules e) doc) \<noteq> [] \<longrightarrow>
       semanticLabels ev = filter (\<lambda>s. s \<noteq> '''') (rr_Semantics (evaluate api (se_rules e) doc)))"
proof -
  let ?res = "evaluate api (se_rules e) doc"
  let ?f = "\<lambda>ev. applySemantics (rr_Semantics ?res) (applyMsgNames (rr_Names ?res) ev)"
  let ?h = "onEvent r ?f heap"
  obtain heap2 e2 where ap: "applyPairs now r (rr_Pairs ?res) (?h, e) = (heap2, e2)"
    by (cases "applyPairs now r (rr_Pairs ?res) (?h, e)")
  have fr: "frame heap ?h"
    by (rule onEvent_frame) simp
  then have ok: "pool_ok ?h e" and len: "r < length ?h"
    using pool_frame assms(3,4) by (auto simp: frame_length)
  have fr2: "frame ?h heap2"
    using applyPairs_ok [OF ok frame_refl linked_refl len, of now "rr_Pairs ?res"] ap by simp
  have "fst (enrichSemantics api toDoc now r (heap, e)) = onEvent r applyDefaultSemantics heap2"
    using assms(1,2) ap by (simp add: enrichSemantics_def Let_def)
  then have "fst (enrichSemantics api toDoc now r (heap, e)) ! r = applyDefaultSemantics (heap2 ! r)"
    using frame_length [OF fr] frame_length [OF fr2] assms(4) by (simp add: onEvent_def)
  moreover have "ev_Context (heap2 ! r) = ev_Context (heap ! r)"
    using frame_nth [OF fr2 len] frame_nth [OF fr assms(4)] by simp
  moreover have "semanticLabels (heap2 ! r) = semanticLabels (?h ! r)"
    using applyPairs_labels [OF ok len len, of now "rr_Pairs ?res"] ap by simp
  then have "rr_Semantics ?res \<noteq> [] \<longrightarrow> semanticLabels (heap2 ! r) = filter (\<lambda>s. s \<noteq> '''') (rr_Semantics ?res)"
    using assms(4) by (simp add: onEvent_def labels_applySemantics)
  ultimately show ?thesis
    by auto
qed

section \<open>An example\<close>

definition demoMessage :: "string \<Rightarrow> string \<Rightarrow> vval \<Rightarrow> event" where
  "demoMessage eid dir payload =
     \<lparr>ev_Identity = \<lparr>id_ID = eid, id_SessionID = ''s'', id_Type = ''t'', id_Source = ''tcp'', id_Timestamp = 1,
        id_ScenarioID = [], id_ReplayID = []\<rparr>,
      ev_Trace = emptyTrace, ev_Context = emptyContext\<lparr>ec_ConnID := ''c1'', ec_Direction := dir\<rparr>,
      ev_Payload = payload, ev_Meta = VNull, ev_Analysis = VNull\<rparr>"

definition demoHeap :: heap where
  "demoHeap =
     [demoMessage ''e1'' ''client_to_server'' (VObject [(''cmd'', VString ''Login''), (''seq'', VInt 7), (''dir'', VString ''up'')]),
      demoMessage ''e2'' ''server_to_client'' (VObject [(''seq'', VInt 9), (''ack'', VInt 7), (''dir'', VString ''down'')])]"

definition demoEngine :: "vval semanticEngine" where
  "demoEngine = refreshRules (Some (Some demo_rules)) newSemanticEngine"

definition demoDoc :: "vval \<Rightarrow> vval option option" where
  "demoDoc v = Some (Some v)"

lemma demo_pool: "pool_ok demoHeap demoEngine"
  by (simp add: pool_ok_def demoEngine_def refreshRules_def newSemanticEngine_def)

section \<open>Properties\<close>



text \<open>
  A request and its response on one connection are joined in either order of arrival:
  the response names the request as its cause, both carry the identifier of the request as
  conversation, and the pair leaves the pool. The time between the two does not matter: the
  expiry of open pairs is applied by the sweeps only.
\<close>

theorem request_response_joined:
  assumes "a < length heap" and "b < length heap" and "a \<noteq> b" and "conn_of (heap ! a) = conn_of (heap ! b)"
    and "ph_RuleID ha \<noteq> ''''" and "ph_RuleID hb = ph_RuleID ha" and "ph_Key hb = ph_Key ha"
    and "{ph_Side ha, ph_Side hb} = {0, 1}" and "map_of (se_pending e) (mapKey (conn_of (heap ! a)) ha) = None"
    and "Suc (length (se_pending e)) < maxPendingPairs"
    and "applyPairs tb b [hb] (applyPairs ta a [ha] (heap, e)) = (heap', e')"
    and "req = (if ph_Side ha = 0 then a else b)" and "resp = (if ph_Side ha = 0 then b else a)"
  shows "cause_of (heap' ! resp) = eid_of (heap ! req) \<and> corr_of (heap' ! resp) = eid_of (heap ! req) \<and>
    corr_of (heap' ! req) = eid_of (heap ! req) \<and> map_of (se_pending e') (mapKey (conn_of (heap ! a)) ha) = None"
proof -
  let ?conn = "conn_of (heap ! a)"
  let ?key = "mapKey ?conn ha"
  let ?p = "\<lparr>pp_hit = ha, pp_evt = a, pp_conn = ?conn, pp_at = ta\<rparr>"
  let ?e1 = "insertPending ta ?key ?p e"
  have first: "applyPairs ta a [ha] (heap, e) = (heap, ?e1)"
    using assms(9) by (simp add: applyPairs_def pairStep_def Let_def)
  have pend: "map_of (se_pending ?e1) ?key = Some ?p"
    by (rule insertPending_get [OF assms(10)]) simp
  have key: "mapKey (conn_of (heap ! b)) hb = ?key"
    using assms(4,6,7) by (simp add: mapKey_def)
  have sides: "ph_Side ha = 0 \<and> ph_Side hb = 1 \<or> ph_Side ha = 1 \<and> ph_Side hb = 0"
    using assms(8) by (auto simp: doubleton_eq_iff)
  then have "matchPair ha hb"
    using assms(5-7) by (auto simp: matchPair_def)
  then have "heap' = link req resp heap" and "e' = ?e1\<lparr>se_pending := AList.delete ?key (se_pending ?e1)\<rparr>"
    using assms(4,11-13) sides pend unfolding first
    by (auto simp: applyPairs_def pairStep_def Let_def key)
  then show ?thesis
    using assms(1-3,12,13) by (simp add: link_nth delete_conv')
qed

theorem request_response_joined_witness:
  "let ha = \<lparr>ph_RuleID = ''game.pair'', ph_Key = ''7'', ph_Side = 1\<rparr>; hb = ha\<lparr>ph_Side := 0\<rparr>;
       heap' = fst (applyPairs 900000000000 0 [hb] (applyPairs 5 1 [ha] (demoHeap, demoEngine)))
   in cause_of (heap' ! 1) = ''e1'' \<and> corr_of (heap' ! 0) = ''e1''"
proof -
  let ?ha = "\<lparr>ph_RuleID = ''game.pair'', ph_Key = ''7'', ph_Side = 1\<rparr>"
  let ?hb = "?ha\<lparr>ph_Side := 0\<rparr>"
  let ?r = "applyPairs 900000000000 0 [?hb] (applyPairs 5 1 [?ha] (demoHeap, demoEngine))"
  have "map_of (se_pending demoEngine) (mapKey (conn_of (demoHeap ! 1)) ?ha) = None"
    and "Suc (length (se_pending demoEngine)) < maxPendingPairs"
    and "conn_of (demoHeap ! 1) = conn_of (demoHeap ! 0)" and "eid_of (demoHeap ! 0) = ''e1''" and "length demoHeap = 2"
    by code_simp+
  then show ?thesis
    using request_response_joined [of 1 demoHeap 0 ?ha ?hb demoEngine 900000000000 5 "fst ?r" "snd ?r" 0 1]
    by (simp add: Let_def insert_commute)
qed

text \<open>
  Every event of known direction ends up with a role: after \<open>enrichSemantics\<close> it is labelled
  request, response or notification, and labels that a rule assigned with a role are kept as
  they are; only when the event has no JSON form are the rules and the default role skipped.
\<close>

theorem enrich_gives_role:
  assumes "pool_ok heap e" and "r < length heap"
    and "ec_Direction (ev_Context (heap ! r)) \<in> {''client_to_server'', ''server_to_client''}"
  shows "case toDoc (withMetaObject (ev_Payload (heap ! r)) (ev_Meta (heap ! r))) of
      None \<Rightarrow> se_rules e \<noteq> [] \<longrightarrow> enrichSemantics api toDoc now r (heap, e) = (heap, e)
    | Some doc \<Rightarrow>
        list_ex (\<lambda>l. l \<in> set roleLabels) (semanticLabels (fst (enrichSemantics api toDoc now r (heap, e)) ! r)) \<and>
        (let sems = rr_Semantics (evaluate api (se_rules e) doc) in
         se_rules e \<noteq> [] \<and> list_ex (\<lambda>l. l \<in> set roleLabels) sems \<longrightarrow>
           semanticLabels (fst (enrichSemantics api toDoc now r (heap, e)) ! r) = filter (\<lambda>s. s \<noteq> '''') sems)"
proof (cases "toDoc (withMetaObject (ev_Payload (heap ! r)) (ev_Meta (heap ! r)))")
  case None
  then show ?thesis
    by (simp add: enrichSemantics_def Let_def)
next
  case (Some doc)
  show ?thesis
  proof (cases "se_rules e = []")
    case True
    with Some assms default_has_role [OF assms(3)] show ?thesis
      by (simp add: enrichSemantics_def onEvent_def)
  next
    case False
    let ?sems = "rr_Semantics (evaluate api (se_rules e) doc)"
    obtain ev where ev: "fst (enrichSemantics api toDoc now r (heap, e)) ! r = applyDefaultSemantics ev"
      "ec_Direction (ev_Context ev) = ec_Direction (ev_Context (heap ! r))"
      "?sems \<noteq> [] \<longrightarrow> semanticLabels ev = filter (\<lambda>s. s \<noteq> '''') ?sems"
      using enrich_evaluated [where api = api and now = now and toDoc = toDoc and heap = heap and r = r, OF False Some assms(1,2)] by blast
    have "applyDefaultSemantics ev = ev \<and> ?sems \<noteq> []" if "list_ex (\<lambda>l. l \<in> set roleLabels) ?sems"
    proof -
      have "?sems \<noteq> []"
        using that by auto
      moreover have "list_ex (\<lambda>l. l \<in> set roleLabels) (filter (\<lambda>s. s \<noteq> '''') ?sems)"
        using that by (auto simp: list_ex_iff roleLabels_def)
      ultimately show ?thesis
        using ev(3) default_keeps_role [of ev] by simp
    qed
    with Some ev default_has_role [of ev] assms(3) show ?thesis
      by (auto simp: Let_def)
  qed
qed

theorem enrich_gives_role_witness:
  "semanticLabels (fst (enrichSemantics demo_api demoDoc 5 0 (demoHeap, demoEngine)) ! 0) = [''request'']"
proof -
  have "rr_Semantics (evaluate demo_api (se_rules demoEngine)
      (Some (withMetaObject (ev_Payload (demoHeap ! 0)) (ev_Meta (demoHeap ! 0))))) = [''request'']"
    and "se_rules demoEngine \<noteq> []" and "ec_Direction (ev_Context (demoHeap ! 0)) = ''client_to_server''" and "0 < length demoHeap"
    by code_simp+
  then show ?thesis
    using enrich_gives_role [where r = 0 and toDoc = demoDoc and api = demo_api and now = 5, OF demo_pool]
    by (simp add: demoDoc_def Let_def roleLabels_def)
qed

end
