(* ===== verification/Check_Engine.thy ===== *)
theory Check_Engine
  imports Check_Rule Semantic
begin

text \<open>
  \<open>cmd/gt-pipeline/check_hook.go\<close>: the engine that evaluates the check rules of a project on
  every decoded event, keeps a window of recent events per direction and queues alerts.

  Jobs hold references into the heap of events and are rendered when the worker takes them.
  The JSON text of a value (\<open>toJSON\<close>, \<open>None\<close> when there is none), the query on it (\<open>hits\<close>), the time
  format, the size of a bundle and the fresh alert identifiers are parameters.
\<close>

section \<open>Engine\<close>

definition notifyQueueSize :: nat where "notifyQueueSize = 64"

record 'v notifyJob =
  nj_alertID :: string
  nj_rule :: "'v checkRule"
  nj_trigger :: evref
  nj_ctx :: "(string \<times> evref list) list"

record 'v checkEngine =
  ce_sessionID :: string
  ce_rules :: "'v checkRule list"
  ce_maxContext :: int
  ce_window :: "(string \<times> evref list) list"
  ce_ch :: "'v notifyJob list"
  ce_stopped :: bool
  ce_lastFired :: "(string \<times> time) list"
  ce_dropped :: nat

definition newCheckEngine :: "string \<Rightarrow> 'v checkRule list \<Rightarrow> 'v checkEngine" where
  "newCheckEngine sessionID rules =
     \<lparr>ce_sessionID = sessionID, ce_rules = rules, ce_maxContext = fold (\<lambda>r m. max (ruleContext r) m) rules 0,
      ce_window = [], ce_ch = [], ce_stopped = False, ce_lastFired = [], ce_dropped = 0\<rparr>"

definition eventDirection :: "event \<Rightarrow> string" where
  "eventDirection ev =
     (case metaValue ''direction'' ev of
        Some v \<Rightarrow> (case asString v of Some s \<Rightarrow> if s \<noteq> '''' then s else ec_Direction (ev_Context ev) | None \<Rightarrow> ec_Direction (ev_Context ev))
      | None \<Rightarrow> ec_Direction (ev_Context ev))"

definition normalizeDir :: "string \<Rightarrow> string" where
  "normalizeDir direction =
     (let d = toLower (trimSpace direction) in
      if d \<in> {''client_to_server'', ''c2s'', ''request'', ''outgoing'', ''up''} then ''request''
      else if d \<in> {''server_to_client'', ''s2c'', ''response'', ''incoming'', ''down''} then ''response''
      else ''unknown'')"

definition lastN :: "nat \<Rightarrow> 'a list \<Rightarrow> 'a list" where
  "lastN n xs = drop (length xs - n) xs"

definition snapshotContext :: "int \<Rightarrow> 'v checkEngine \<Rightarrow> (string \<times> evref list) list" where
  "snapshotContext n e =
     (if n \<le> 0 then []
      else map (\<lambda>(dir, evs). (dir, lastN (nat n) evs)) (filter (\<lambda>(_, evs). evs \<noteq> []) (ce_window e)))"

definition pushWindow :: "string \<Rightarrow> evref \<Rightarrow> 'v checkEngine \<Rightarrow> 'v checkEngine" where
  "pushWindow dir ev e =
     (if ce_maxContext e \<le> 0 then e
      else
        (let w = (case map_of (ce_window e) dir of Some w \<Rightarrow> w | None \<Rightarrow> []) @ [ev]
         in e\<lparr>ce_window := AList.update dir (lastN (nat (ce_maxContext e)) w) (ce_window e)\<rparr>))"

definition onCooldown :: "time \<Rightarrow> 'v checkRule \<Rightarrow> 'v checkEngine \<Rightarrow> bool" where
  "onCooldown now r e \<longleftrightarrow>
     (case map_of (ce_lastFired e) (cr_ID r) of Some t0 \<Rightarrow> now - t0 < cooldown r | None \<Rightarrow> False)"

definition enqueue :: "'v notifyJob \<Rightarrow> 'v checkEngine \<Rightarrow> 'v checkEngine" where
  "enqueue job e =
     (if length (ce_ch e) < notifyQueueSize then e\<lparr>ce_ch := ce_ch e @ [job]\<rparr>
      else e\<lparr>ce_dropped := ce_dropped e + 1\<rparr>)"

text \<open>One rule on one event; the second result collects the jobs made, queued or dropped.\<close>

definition ruleStep ::
  "('v checkRule \<Rightarrow> bool) \<Rightarrow> ('v checkRule \<Rightarrow> string) \<Rightarrow> time \<Rightarrow> evref \<Rightarrow> 'v checkRule \<Rightarrow>
   'v checkEngine \<times> 'v notifyJob list \<Rightarrow> 'v checkEngine \<times> 'v notifyJob list"
where
  "ruleStep hit freshID now ev r = (\<lambda>(e, jobs).
     (if \<not> hit r then (e, jobs)
      else if onCooldown now r e then (e, jobs)
      else
        (let e = e\<lparr>ce_lastFired := AList.update (cr_ID r) now (ce_lastFired e)\<rparr>;
             job = \<lparr>nj_alertID = freshID r, nj_rule = r, nj_trigger = ev, nj_ctx = snapshotContext (ruleContext r) e\<rparr>
         in (enqueue job e, jobs @ [job]))))"

definition inspect ::
  "(vval \<Rightarrow> string option) \<Rightarrow> ('v checkRule \<Rightarrow> string \<Rightarrow> bool) \<Rightarrow> ('v checkRule \<Rightarrow> string) \<Rightarrow> time \<Rightarrow> heap \<Rightarrow> evref \<Rightarrow>
   'v checkEngine \<Rightarrow> 'v checkEngine \<times> 'v notifyJob list"
where
  "inspect toJSON hits freshID now heap ev e =
     (if ce_rules e = [] \<or> ce_stopped e then (e, [])
      else
        (case toJSON (withMetaObject (ev_Payload (heap ! ev)) (ev_Meta (heap ! ev))) of
           None \<Rightarrow> (e, [])
         | Some raw \<Rightarrow>
             (let dir = normalizeDir (eventDirection (heap ! ev));
                  (e, jobs) = fold (ruleStep (\<lambda>r. hits r raw) freshID now ev) (ce_rules e) (e, [])
              in (pushWindow dir ev e, jobs))))"

definition stopEngine :: "'v checkEngine \<Rightarrow> 'v checkEngine" where
  "stopEngine e = e\<lparr>ce_stopped := True\<rparr>"

section \<open>Rendering\<close>

record alertRecord =
  ar_ID :: string
  ar_Timestamp :: string
  ar_Type :: string
  ar_Direction :: string
  ar_Data :: alertData
  ar_Meta :: vval

record alertBundle =
  ab_AlertID :: string
  ab_RuleID :: string
  ab_RuleName :: string
  ab_SessionID :: string
  ab_Title :: string
  ab_Message :: string
  ab_GeneratedAt :: string
  ab_Trigger :: alertRecord
  ab_Context :: "(string \<times> alertRecord list) list"

definition toAlertRecord :: "(vval \<Rightarrow> string option) \<Rightarrow> (time \<Rightarrow> string) \<Rightarrow> event \<Rightarrow> alertRecord" where
  "toAlertRecord toJSON fmtTime ev =
     (case splitReservedKeys (ev_Payload ev) of
        (biz, flatMeta, _) \<Rightarrow>
          \<lparr>ar_ID = id_ID (ev_Identity ev), ar_Timestamp = fmtTime (id_Timestamp (ev_Identity ev)),
           ar_Type = id_Type (ev_Identity ev), ar_Direction = eventDirection ev,
           ar_Data = (case toJSON biz of Some raw \<Rightarrow> truncateData raw MaxRecordDataBytes | None \<Rightarrow> NoData),
           ar_Meta = (if isNull (ev_Meta ev) then flatMeta else ev_Meta ev)\<rparr>)"

definition buildBundle ::
  "(vval \<Rightarrow> string option) \<Rightarrow> (time \<Rightarrow> string) \<Rightarrow> (string \<Rightarrow> string) \<Rightarrow> time \<Rightarrow> heap \<Rightarrow> 'v checkEngine \<Rightarrow> 'v notifyJob \<Rightarrow>
   alertBundle"
where
  "buildBundle toJSON fmtTime quote now heap e job =
     \<lparr>ab_AlertID = nj_alertID job, ab_RuleID = cr_ID (nj_rule job), ab_RuleName = cr_Name (nj_rule job),
      ab_SessionID = ce_sessionID e, ab_Title = notifyTitle (nj_rule job), ab_Message = notifyMessage quote (nj_rule job),
      ab_GeneratedAt = fmtTime now, ab_Trigger = toAlertRecord toJSON fmtTime (heap ! nj_trigger job),
      ab_Context = map (\<lambda>(dir, evs). (dir, map (\<lambda>r. toAlertRecord toJSON fmtTime (heap ! r)) evs)) (nj_ctx job)\<rparr>"

text \<open>The worker takes the oldest job; \<open>None\<close> as size is a bundle that cannot be serialised.\<close>

definition deliver ::
  "(vval \<Rightarrow> string option) \<Rightarrow> (time \<Rightarrow> string) \<Rightarrow> (string \<Rightarrow> string) \<Rightarrow> (alertBundle \<Rightarrow> int option) \<Rightarrow> time \<Rightarrow> heap \<Rightarrow>
   'v checkEngine \<Rightarrow> 'v checkEngine \<times> (string \<times> alertBundle) option"
where
  "deliver toJSON fmtTime quote bundleSize now heap e =
     (case ce_ch e of
        [] \<Rightarrow> (e, None)
      | job # rest \<Rightarrow>
          (e\<lparr>ce_ch := rest\<rparr>,
           (let bundle = buildBundle toJSON fmtTime quote now heap e job in
            case bundleSize bundle of
              None \<Rightarrow> None
            | Some n \<Rightarrow>
                Some (nj_alertID job, if MaxBundleBytes < n then bundle\<lparr>ab_Context := []\<rparr> else bundle))))"

fun parseAlertTime :: "(string \<Rightarrow> time option) \<Rightarrow> (string \<Rightarrow> time option) \<Rightarrow> time \<Rightarrow> string list \<Rightarrow> time" where
  "parseAlertTime parseMicro parseRFC now [] = now"
| "parseAlertTime parseMicro parseRFC now (v # vs) =
     (if v = '''' then parseAlertTime parseMicro parseRFC now vs
      else
        (case parseMicro v of
           Some t \<Rightarrow> t
         | None \<Rightarrow>
             (case parseRFC v of Some t \<Rightarrow> t | None \<Rightarrow> parseAlertTime parseMicro parseRFC now vs)))"

section \<open>Watching a session\<close>

text \<open>
  A session is a sequence of events with the time and the heap at which each is inspected.
  The log keeps, for every job made, the time, the events inspected before with their
  direction, and the job.
\<close>

type_synonym history = "(string \<times> evref) list"
type_synonym 'v alertlog = "(time \<times> history \<times> 'v notifyJob) list"

definition watchStep ::
  "(vval \<Rightarrow> string option) \<Rightarrow> ('v checkRule \<Rightarrow> string \<Rightarrow> bool) \<Rightarrow> ('v checkRule \<Rightarrow> string) \<Rightarrow>
   time \<times> heap \<times> evref \<Rightarrow> 'v checkEngine \<times> history \<times> 'v alertlog \<Rightarrow> 'v checkEngine \<times> history \<times> 'v alertlog"
where
  "watchStep toJSON hits freshID = (\<lambda>(now, heap, ev) (e, hist, log).
     (case inspect toJSON hits freshID now heap ev e of
        (e', jobs) \<Rightarrow>
          (e',
           (if ce_rules e \<noteq> [] \<and> \<not> ce_stopped e \<and> toJSON (withMetaObject (ev_Payload (heap ! ev)) (ev_Meta (heap ! ev))) \<noteq> None
            then hist @ [(normalizeDir (eventDirection (heap ! ev)), ev)] else hist),
           log @ map (\<lambda>j. (now, hist, j)) jobs)))"

definition dirEvents :: "string \<Rightarrow> history \<Rightarrow> evref list" where
  "dirEvents dir hist = map snd (filter (\<lambda>(d, _). d = dir) hist)"

text \<open>Every job comes at least one cooldown of its rule after the previous job of the same rule.\<close>

fun spaced :: "(string \<times> time \<times> int) list \<Rightarrow> bool" where
  "spaced [] \<longleftrightarrow> True"
| "spaced ((i, t, cd) # older) \<longleftrightarrow>
     (case map_of older i of Some (t', _) \<Rightarrow> cd \<le> t - t' | None \<Rightarrow> True) \<and> spaced older"

definition firings :: "'v alertlog \<Rightarrow> (string \<times> time \<times> int) list" where
  "firings log = rev (map (\<lambda>(t, _, j). (cr_ID (nj_rule j), t, cooldown (nj_rule j))) log)"

definition ctx_ok :: "time \<times> history \<times> 'v notifyJob \<Rightarrow> bool" where
  "ctx_ok = (\<lambda>(t, hist, j). \<forall>dir.
     map_of (nj_ctx j) dir =
       (let w = lastN (nat (ruleContext (nj_rule j))) (dirEvents dir hist) in if w = [] then None else Some w))"

definition window_ok :: "'v checkEngine \<Rightarrow> history \<Rightarrow> bool" where
  "window_ok e hist \<longleftrightarrow>
     list_all (\<lambda>(_, w). w \<noteq> []) (ce_window e) \<and>
     (\<forall>dir. (case map_of (ce_window e) dir of Some w \<Rightarrow> w | None \<Rightarrow> []) = lastN (nat (ce_maxContext e)) (dirEvents dir hist)) \<and>
     list_all (\<lambda>r. ruleContext r \<le> ce_maxContext e) (ce_rules e)"

definition watch_ok :: "'v checkEngine \<Rightarrow> history \<Rightarrow> 'v alertlog \<Rightarrow> bool" where
  "watch_ok e hist log \<longleftrightarrow>
     window_ok e hist \<and> length (ce_ch e) \<le> notifyQueueSize \<and> length (ce_ch e) + ce_dropped e = length log \<and>
     spaced (firings log) \<and> (\<forall>i. map_of (ce_lastFired e) i = map_option fst (map_of (firings log) i)) \<and>
     list_all ctx_ok log"

lemma ruleContext_pos: "0 < ruleContext r"
  by (simp add: ruleContext_def DefaultContext_def)

lemma lastN_rev: "lastN n xs = rev (take n (rev xs))"
  by (simp add: lastN_def take_rev)

lemma lastN_lastN: "n \<le> m \<Longrightarrow> lastN n (lastN m xs) = lastN n xs"
  by (simp add: lastN_rev min_def)

lemma lastN_snoc: "lastN m (lastN m xs @ [x]) = lastN m (xs @ [x])"
  by (cases m) (simp_all add: lastN_rev)

lemma lastN_Nil [simp]: "lastN n [] = []"
  by (simp add: lastN_def)

lemma lastN_eq_Nil: "0 < n \<Longrightarrow> lastN n xs = [] \<longleftrightarrow> xs = []"
  by (simp add: lastN_rev)

lemma dirEvents_snoc: "dirEvents dir (hist @ [(d, ev)]) = dirEvents dir hist @ (if d = dir then [ev] else [])"
  by (simp add: dirEvents_def)

lemma map_of_snapshot:
  assumes "list_all (\<lambda>(_, w). w \<noteq> []) (ce_window e)" and "0 < n"
  shows "map_of (snapshotContext n e) dir = map_option (lastN (nat n)) (map_of (ce_window e) dir)"
proof -
  have "filter (\<lambda>(_, evs). evs \<noteq> []) (ce_window e) = ce_window e"
    using assms(1) by (simp add: list_all_iff filter_id_conv)
  then show ?thesis
    using assms(2) by (simp add: snapshotContext_def map_of_map)
qed

lemma snapshot_ok:
  assumes "window_ok e hist" and "r \<in> set (ce_rules e)"
  shows "ctx_ok (now, hist, \<lparr>nj_alertID = a, nj_rule = r, nj_trigger = ev, nj_ctx = snapshotContext (ruleContext r) e\<rparr>)"
proof -
  let ?n = "nat (ruleContext r)"
  have w: "list_all (\<lambda>(_, w). w \<noteq> []) (ce_window e)" and le: "ruleContext r \<le> ce_maxContext e"
    using assms by (auto simp: window_ok_def list_all_iff)
  have "map_of (snapshotContext (ruleContext r) e) dir =
      (let w = lastN ?n (dirEvents dir hist) in if w = [] then None else Some w)" for dir
  proof -
    have eq: "(case map_of (ce_window e) dir of Some w \<Rightarrow> w | None \<Rightarrow> []) = lastN (nat (ce_maxContext e)) (dirEvents dir hist)"
      using assms(1) by (simp add: window_ok_def)
    have sub: "lastN ?n (dirEvents dir hist) = lastN ?n (lastN (nat (ce_maxContext e)) (dirEvents dir hist))"
      using le by (simp add: lastN_lastN nat_mono)
    show ?thesis
      unfolding map_of_snapshot [OF w ruleContext_pos] sub eq [symmetric]
      using list_all_map_of [OF w, of dir] ruleContext_pos [of r]
      by (cases "map_of (ce_window e) dir") (auto simp: Let_def lastN_eq_Nil)
  qed
  then show ?thesis
    by (simp add: ctx_ok_def)
qed

lemma pushWindow_ok:
  assumes "window_ok e hist" and "0 < ce_maxContext e"
  shows "window_ok (pushWindow d ev e) (hist @ [(d, ev)])"
proof -
  let ?w = "(case map_of (ce_window e) d of Some w \<Rightarrow> w | None \<Rightarrow> [])"
  have eq: "(case map_of (ce_window e) dir of Some w \<Rightarrow> w | None \<Rightarrow> []) = lastN (nat (ce_maxContext e)) (dirEvents dir hist)" for dir
    using assms(1) by (simp add: window_ok_def)
  have "lastN (nat (ce_maxContext e)) (?w @ [ev]) \<noteq> []"
    using assms(2) by (simp add: lastN_eq_Nil)
  then show ?thesis
    using assms eq unfolding window_ok_def pushWindow_def
    by (auto simp: Let_def list_all_update update_conv' dirEvents_snoc lastN_snoc)
qed

lemma firings_snoc: "firings (log @ [(t, h, j)]) = (cr_ID (nj_rule j), t, cooldown (nj_rule j)) # firings log"
  by (simp add: firings_def)

lemma enqueue_fields [simp]:
  "ce_window (enqueue job e) = ce_window e" "ce_rules (enqueue job e) = ce_rules e"
  "ce_maxContext (enqueue job e) = ce_maxContext e" "ce_lastFired (enqueue job e) = ce_lastFired e"
  by (simp_all add: enqueue_def)


lemma fire_ok:
  fixes a ev
  assumes "watch_ok e hist log" and "r \<in> set (ce_rules e)" and "\<not> onCooldown now r e"
  defines "e1 \<equiv> e\<lparr>ce_lastFired := AList.update (cr_ID r) now (ce_lastFired e)\<rparr>"
  defines "job \<equiv> \<lparr>nj_alertID = a, nj_rule = r, nj_trigger = ev, nj_ctx = snapshotContext (ruleContext r) e1\<rparr>"
  shows "watch_ok (enqueue job e1) hist (log @ [(now, hist, job)])"
proof -
  have snap: "snapshotContext n e1 = snapshotContext n e" for n
    by (simp add: snapshotContext_def e1_def)
  have "window_ok (enqueue job e1) hist"
    using assms(1) by (simp add: watch_ok_def e1_def window_ok_def)
  moreover have "ctx_ok (now, hist, job)"
    using snapshot_ok [OF _ assms(2)] assms(1) by (simp add: watch_ok_def job_def snap)
  moreover have "spaced (firings (log @ [(now, hist, job)]))"
    using assms(1,3) by (auto simp: firings_snoc watch_ok_def job_def onCooldown_def split: option.splits)
  moreover have "map_of (ce_lastFired (enqueue job e1)) i = map_option fst (map_of (firings (log @ [(now, hist, job)])) i)" for i
    using assms(1) by (simp add: firings_snoc watch_ok_def job_def e1_def update_conv')
  moreover have "length (ce_ch (enqueue job e1)) \<le> notifyQueueSize \<and>
      length (ce_ch (enqueue job e1)) + ce_dropped (enqueue job e1) = Suc (length log)"
    using assms(1) by (simp add: watch_ok_def enqueue_def e1_def)
  ultimately show ?thesis
    using assms(1) by (simp add: watch_ok_def)
qed

lemma rules_loop_ok:
  assumes "watch_ok e hist (log @ map (\<lambda>j. (now, hist, j)) jobs)" and "set rs \<subseteq> set (ce_rules e)"
    and "fold (ruleStep hit freshID now ev) rs (e, jobs) = (e', jobs')"
  shows "watch_ok e' hist (log @ map (\<lambda>j. (now, hist, j)) jobs') \<and> ce_maxContext e' = ce_maxContext e \<and>
    ce_rules e' = ce_rules e \<and> ce_stopped e' = ce_stopped e"
  using assms
proof (induction rs arbitrary: e jobs)
  case (Cons r rs)
  show ?case
  proof (cases "hit r \<and> \<not> onCooldown now r e")
    case False
    then have "ruleStep hit freshID now ev r (e, jobs) = (e, jobs)"
      by (auto simp: ruleStep_def)
    with Cons show ?thesis
      by simp
  next
    case True
    let ?e1 = "e\<lparr>ce_lastFired := AList.update (cr_ID r) now (ce_lastFired e)\<rparr>"
    let ?job = "\<lparr>nj_alertID = freshID r, nj_rule = r, nj_trigger = ev, nj_ctx = snapshotContext (ruleContext r) ?e1\<rparr>"
    have "ruleStep hit freshID now ev r (e, jobs) = (enqueue ?job ?e1, jobs @ [?job])"
      using True by (simp add: ruleStep_def Let_def)
    moreover have "watch_ok (enqueue ?job ?e1) hist (log @ map (\<lambda>j. (now, hist, j)) (jobs @ [?job]))"
      using fire_ok [OF Cons.prems(1), of r now "freshID r" ev] Cons.prems(2) True by simp
    ultimately show ?thesis
      using Cons.IH [of "enqueue ?job ?e1" "jobs @ [?job]"] Cons.prems(2,3) by (auto simp: enqueue_def)
  qed
qed simp

lemma watchStep_ok:
  assumes "watch_ok e hist log" and "watchStep toJSON hits freshID x (e, hist, log) = (e', hist', log')"
  shows "watch_ok e' hist' log'"
proof -
  obtain now heap ev where x: "x = (now, heap, ev)"
    by (cases x)
  let ?raw = "toJSON (withMetaObject (ev_Payload (heap ! ev)) (ev_Meta (heap ! ev)))"
  show ?thesis
  proof (cases "ce_rules e = [] \<or> ce_stopped e \<or> ?raw = None")
    case True
    then have "inspect toJSON hits freshID now heap ev e = (e, [])"
      by (auto simp: inspect_def)
    with True assms show ?thesis
      by (auto simp: watchStep_def x)
  next
    case False
    then obtain raw where raw: "?raw = Some raw"
      by auto
    obtain e1 jobs where loop: "fold (ruleStep (\<lambda>r. hits r raw) freshID now ev) (ce_rules e) (e, []) = (e1, jobs)"
      by (cases "fold (ruleStep (\<lambda>r. hits r raw) freshID now ev) (ce_rules e) (e, [])")
    let ?d = "normalizeDir (eventDirection (heap ! ev))"
    have e': "e' = pushWindow ?d ev e1" "hist' = hist @ [(?d, ev)]" "log' = log @ map (\<lambda>j. (now, hist, j)) jobs"
      using assms(2) False raw loop by (auto simp: watchStep_def x inspect_def)
    have ok: "watch_ok e1 hist log'" "ce_maxContext e1 = ce_maxContext e" "ce_rules e1 = ce_rules e"
      using rules_loop_ok [OF _ subset_refl loop, of hist log] assms(1) e'(3) by simp_all
    obtain r where "r \<in> set (ce_rules e)"
      using False by (cases "ce_rules e") auto
    then have "0 < ce_maxContext e1"
      using assms(1) ruleContext_pos [of r] ok(2) by (fastforce simp: watch_ok_def window_ok_def list_all_iff)
    from pushWindow_ok [OF _ this, of hist ?d ev] ok(1) show ?thesis
      by (simp add: e' watch_ok_def) (simp add: pushWindow_def Let_def)
  qed
qed

lemma maxContext_bound: "list_all (\<lambda>r. ruleContext r \<le> fold (\<lambda>r m. max (ruleContext r) m) rs m0) rs \<and> m0 \<le> fold (\<lambda>r m. max (ruleContext r) m) rs m0"
proof (induction rs arbitrary: m0)
  case (Cons r rs)
  from Cons [of "max (ruleContext r) m0"] show ?case
    by auto
qed simp

lemma watch_start: "watch_ok (newCheckEngine s rules) [] []"
  using maxContext_bound [of rules 0]
  by (simp add: watch_ok_def window_ok_def newCheckEngine_def firings_def dirEvents_def)

lemma watch_runs:
  assumes "watch_ok e hist log" and "fold (watchStep toJSON hits freshID) xs (e, hist, log) = (e', hist', log')"
  shows "watch_ok e' hist' log'"
  using assms
proof (induction xs arbitrary: e hist log)
  case (Cons x xs)
  obtain e1 h1 l1 where "watchStep toJSON hits freshID x (e, hist, log) = (e1, h1, l1)"
    by (cases "watchStep toJSON hits freshID x (e, hist, log)") auto
  with Cons watchStep_ok show ?case
    by fastforce
qed simp

section \<open>Properties\<close>

text \<open>
  (C13) Over every session the alerts of a rule keep its cooldown: each job of a rule comes at
  least one cooldown after the previous one of the same identifier; the queue stays within
  its limit and every job is either queued or counted as dropped.
\<close>

theorem alerts_keep_cooldown:
  assumes "fold (watchStep toJSON hits freshID) xs (newCheckEngine s rules, [], []) = (e, hist, log)"
  shows "spaced (firings log) \<and> length (ce_ch e) \<le> notifyQueueSize \<and> length (ce_ch e) + ce_dropped e = length log"
  using watch_runs [OF watch_start assms] by (simp add: watch_ok_def)

text \<open>
  The context of an alert is exact: for every direction it holds the most recent events
  inspected before the trigger, as many as the rule asks for, oldest first.
\<close>

theorem alert_context_exact:
  assumes "fold (watchStep toJSON hits freshID) xs (newCheckEngine s rules, [], []) = (e, hist, log)"
    and "(now, before, job) \<in> set log"
  shows "map_of (nj_ctx job) dir =
    (let w = lastN (nat (ruleContext (nj_rule job))) (dirEvents dir before) in if w = [] then None else Some w)"
proof -
  have "ctx_ok (now, before, job)"
    using watch_runs [OF watch_start assms(1)] assms(2) by (auto simp: watch_ok_def list_all_iff)
  then show ?thesis
    by (simp add: ctx_ok_def)
qed

text \<open>
  An event that a job refers to can still be rewritten: when the response to it arrives, the
  engine stores the correlation key of the request in its meta object.
\<close>

lemma inspected_event_rewritten:
  "let ha = \<lparr>ph_RuleID = ''p'', ph_Key = ''7'', ph_Side = 0\<rparr>; hb = ha\<lparr>ph_Side := 1\<rparr>;
       req = (demoMessage ''e1'' ''client_to_server'' VNull)\<lparr>ev_Trace := emptyTrace\<lparr>tc_CorrelationID := ''match-9''\<rparr>\<rparr>;
       resp = demoMessage ''e2'' ''server_to_client'' VNull;
       (heap1, e1) = applyPairs 1 0 [ha] ([req, resp], newSemanticEngine);
       (heap2, e2) = applyPairs 2 1 [hb] (heap1, e1)
   in ev_Meta (heap1 ! 0) = VNull \<and> ev_Meta (heap2 ! 0) = VObject [(''corr_key'', VString ''match-9'')]"
  by code_simp

section \<open>An example\<close>

definition demoCheck :: "vval checkRule" where
  "demoCheck =
     \<lparr>cr_ID = ''r1'', cr_Name = ''n'', cr_Enabled = True, cr_When = Pred [] [] ''a'' ''exists'' None, cr_Title = '''',
      cr_Message = '''', cr_CooldownSec = 2, cr_ContextPerDirection = 1\<rparr>"

definition demoSession :: "(time \<times> heap \<times> evref) list" where
  "demoSession = [(0, demoHeap, 0), (1000000000, demoHeap, 1), (3000000000, demoHeap, 0)]"

definition demoWatch :: "vval checkEngine \<times> history \<times> vval alertlog" where
  "demoWatch = fold (watchStep (\<lambda>_. Some ''{}'') (\<lambda>_ _. True) (\<lambda>_. ''alert'')) demoSession (newCheckEngine ''s'' [demoCheck], [], [])"

lemma demo_watch:
  "fold (watchStep (\<lambda>_. Some ''{}'') (\<lambda>_ _. True) (\<lambda>_. ''alert'')) demoSession (newCheckEngine ''s'' [demoCheck], [], []) =
    (fst demoWatch, fst (snd demoWatch), snd (snd demoWatch))"
  by (simp add: demoWatch_def)

theorem alerts_keep_cooldown_witness:
  "spaced (firings (snd (snd demoWatch))) \<and> firings (snd (snd demoWatch)) = [(''r1'', 3000000000, 2000000000), (''r1'', 0, 2000000000)]"
proof -
  have "firings (snd (snd demoWatch)) = [(''r1'', 3000000000, 2000000000), (''r1'', 0, 2000000000)]"
    by code_simp
  with alerts_keep_cooldown [OF demo_watch] show ?thesis
    by simp
qed

theorem alert_context_exact_witness:
  "map_of (nj_ctx (snd (snd (snd (snd demoWatch) ! 1)))) ''response'' = Some [1]"
proof -
  let ?x = "snd (snd demoWatch) ! 1"
  have "length (snd (snd demoWatch)) = 2" "fst (snd ?x) = [(''request'', 0), (''response'', 1)]" "ruleContext (nj_rule (snd (snd ?x))) = 1"
    by code_simp+
  moreover from this(1) have "(fst ?x, fst (snd ?x), snd (snd ?x)) \<in> set (snd (snd demoWatch))"
    by simp
  ultimately show ?thesis
    using alert_context_exact [OF demo_watch, of "fst ?x" "fst (snd ?x)" "snd (snd ?x)" "''response''"]
    by (simp add: lastN_def dirEvents_def)
qed

end
