(* ===== verification/Capture_Task.thy ===== *)
theory Capture_Task
  imports Decode_Queue Check_Engine Baseline
begin

text \<open>
  The rest of the main loop of a capture session, \<open>run\<close> of \<open>cmd/gt-pipeline/capture_task.go\<close>: the
  choice of the decoder and the report of a missing one, the processing of decoded events
  (semantics, check rules, baselines) and the write buffers with their retry on failure.

  Events are references into a heap, as in \<open>Semantic\<close>. Whether a write succeeds is an argument
  of \<open>flush\<close>; what has been written is a record of its own. The metric buffer is left out: nothing
  in the loop fills it.
\<close>

section \<open>The decoder of a session\<close>

text \<open>The registry lookups are parameters: by name among owners, and by protocol hint.\<close>

definition pluginOwnerCandidates :: "string \<Rightarrow> string list \<Rightarrow> string list" where
  "pluginOwnerCandidates owner extra =
     fold (\<lambda>o' owners. if o' \<in> set owners then owners else owners @ [o']) extra [owner]"

definition resolveDecoderClient ::
  "(string list \<Rightarrow> string \<Rightarrow> 'c option) \<Rightarrow> (string \<Rightarrow> string \<Rightarrow> 'c option) \<Rightarrow> string \<Rightarrow> string \<Rightarrow> string list \<Rightarrow> 'c option"
where
  "resolveDecoderClient findByNameAmong findFor owner plugin pluginOwners =
     (if plugin \<noteq> '''' then
        (case findByNameAmong (pluginOwnerCandidates owner pluginOwners) plugin of
           Some c \<Rightarrow> Some c
         | None \<Rightarrow> findFor owner plugin)
      else
        (case findFor owner ''tcp'' of Some c \<Rightarrow> Some c | None \<Rightarrow> findFor owner ''udp''))"

datatype decoder_action = Drop | Idle | Keep | Build

definition decoderAction :: "'c option \<Rightarrow> 'c option \<Rightarrow> bool \<Rightarrow> decoder_action" where
  "decoderAction client current haveDispatcher =
     (case client of
        None \<Rightarrow> if haveDispatcher then Drop else Idle
      | Some _ \<Rightarrow> if client = current then Keep else Build)"

record 'c resolver =
  rv_client :: "'c option"
  rv_disp :: "'c option"
  rv_lastResolve :: time
  rv_lastReconnect :: time
  rv_bindingIssue :: string
  rv_bindingState :: string
  rv_bindingSince :: time
  rv_reported :: "string list"

definition newResolver :: "'c resolver" where
  "newResolver =
     \<lparr>rv_client = None, rv_disp = None, rv_lastResolve = 0, rv_lastReconnect = 0, rv_bindingIssue = '''',
      rv_bindingState = '''', rv_bindingSince = 0, rv_reported = []\<rparr>"

definition reconnectBackoff :: time where "reconnectBackoff = 5000000000"
definition bindingReportGrace :: time where "bindingReportGrace = 5000000000"
definition resolveInterval :: time where "resolveInterval = 3000000000"

definition reportBinding :: "time \<Rightarrow> string \<Rightarrow> 'c resolver \<Rightarrow> 'c resolver" where
  "reportBinding now state rv =
     (let rv = (if rv_bindingState rv \<noteq> state then rv\<lparr>rv_bindingState := state, rv_bindingSince := now\<rparr> else rv) in
      if rv_bindingIssue rv = state \<or> now - rv_bindingSince rv < bindingReportGrace then rv
      else rv\<lparr>rv_bindingIssue := state, rv_reported := rv_reported rv @ [state]\<rparr>)"

definition clearBinding :: "'c resolver \<Rightarrow> 'c resolver" where
  "clearBinding rv = rv\<lparr>rv_bindingIssue := '''', rv_bindingState := ''''\<rparr>"

definition applyAction :: "time \<Rightarrow> string \<Rightarrow> 'c option \<Rightarrow> bool \<Rightarrow> 'c resolver \<Rightarrow> 'c resolver" where
  "applyAction now plugin found buildOk rv =
     (case decoderAction found (rv_client rv) (rv_disp rv \<noteq> None) of
        Idle \<Rightarrow> if plugin \<noteq> '''' then reportBinding now ''idle'' rv else rv
      | Drop \<Rightarrow> (reportBinding now ''drop'' rv)\<lparr>rv_disp := None, rv_client := None\<rparr>
      | Keep \<Rightarrow> clearBinding rv
      | Build \<Rightarrow>
          (let rv = (clearBinding rv)\<lparr>rv_disp := None\<rparr> in
           if buildOk then rv\<lparr>rv_disp := found, rv_client := found\<rparr>
           else (reportBinding now ''stream'' rv)\<lparr>rv_client := None\<rparr>))"

definition resolveDecoder ::
  "bool \<Rightarrow> time \<Rightarrow> string \<Rightarrow> 'c option \<Rightarrow> bool \<Rightarrow> bool \<Rightarrow> 'c resolver \<Rightarrow> 'c resolver"
where
  "resolveDecoder force now plugin found healthy buildOk rv =
     (if \<not> force \<and> rv_disp rv \<noteq> None \<and> now - rv_lastResolve rv < resolveInterval then rv
      else
        (let rv = rv\<lparr>rv_lastResolve := now\<rparr>; broken = (rv_disp rv \<noteq> None \<and> \<not> healthy) in
         if broken \<and> now - rv_lastReconnect rv < reconnectBackoff then rv
         else
           applyAction now plugin found buildOk
             (if broken then rv\<lparr>rv_lastReconnect := now, rv_disp := None, rv_client := None\<rparr> else rv)))"

section \<open>Processing and buffers\<close>

definition rawBufMax :: int where "rawBufMax = 32768"
definition eventBufMax :: int where "eventBufMax = 65536"
definition stateChangeMax :: int where "stateChangeMax = 131072"

definition retainOnFailure :: "int \<Rightarrow> 'a list \<Rightarrow> nat \<Rightarrow> 'a list \<times> nat" where
  "retainOnFailure limit buf dropped =
     (if int (length buf) \<le> limit then (buf, dropped)
      else (let n = length buf - nat limit in (drop n buf, dropped + n)))"

definition dropUnbacked :: "enriched list \<Rightarrow> eventID list \<Rightarrow> enriched list" where
  "dropUnbacked changes eids = filter (\<lambda>c. en_EventID c \<in> set eids) changes"

record 'v taskState =
  ts_heap :: heap
  ts_sem :: "'v semanticEngine"
  ts_check :: "'v checkEngine option"
  ts_baseline :: baselineManager
  ts_raws :: "packet list"
  ts_events :: "evref list"
  ts_changes :: "enriched list"
  ts_rawCount :: nat
  ts_eventCount :: nat
  ts_rawOverflow :: nat
  ts_eventOverflow :: nat
  ts_changeOverflow :: nat

record stored =
  st_raws :: "packet list"
  st_events :: "event list"
  st_changes :: "enriched list"

record ('d, 'n, 'v) hooks =
  hk_api :: "('d, 'n, 'v) gjson_api"
  hk_toDoc :: "vval \<Rightarrow> 'd option"
  hk_toJSON :: "vval \<Rightarrow> string option"
  hk_hits :: "'v checkRule \<Rightarrow> string \<Rightarrow> bool"
  hk_freshID :: "'v checkRule \<Rightarrow> string"

definition processOne ::
  "('d, 'n :: linorder, 'v) hooks \<Rightarrow> string \<Rightarrow> time \<Rightarrow> evref \<Rightarrow> 'v taskState \<Rightarrow> 'v taskState"
where
  "processOne hk sessionID now r ts =
     (case enrichSemantics (hk_api hk) (hk_toDoc hk) now r (ts_heap ts, ts_sem ts) of
        (heap, sem) \<Rightarrow>
          (let check = (case ts_check ts of
                          None \<Rightarrow> None
                        | Some e \<Rightarrow> Some (fst (inspect (hk_toJSON hk) (hk_hits hk) (hk_freshID hk) now heap r e)))
           in
           case applyEvent (heap ! r) sessionID (ts_baseline ts) of
             (bm, changes) \<Rightarrow>
               ts\<lparr>ts_heap := heap, ts_sem := sem, ts_check := check, ts_events := ts_events ts @ [r],
                  ts_baseline := bm, ts_changes := ts_changes ts @ changes\<rparr>))"

definition processDecoded ::
  "('d, 'n :: linorder, 'v) hooks \<Rightarrow> string \<Rightarrow> time \<Rightarrow> event list \<Rightarrow> 'v taskState \<Rightarrow> 'v taskState"
where
  "processDecoded hk sessionID now evs ts =
     (let base = length (ts_heap ts); ts = ts\<lparr>ts_heap := ts_heap ts @ evs\<rparr>
      in fold (processOne hk sessionID now) [base..<base + length evs] ts)"

definition eventIDs :: "'v taskState \<Rightarrow> eventID list" where
  "eventIDs ts = map (\<lambda>r. id_ID (ev_Identity (ts_heap ts ! r))) (ts_events ts)"

definition flushRaws :: "bool \<Rightarrow> 'v taskState \<times> stored \<Rightarrow> 'v taskState \<times> stored" where
  "flushRaws writeOk = (\<lambda>(ts, db).
     (if ts_raws ts = [] then (ts, db)
      else if writeOk then
        (ts\<lparr>ts_rawCount := ts_rawCount ts + length (ts_raws ts), ts_raws := []\<rparr>, db\<lparr>st_raws := st_raws db @ ts_raws ts\<rparr>)
      else
        (case retainOnFailure rawBufMax (ts_raws ts) (ts_rawOverflow ts) of
           (buf, n) \<Rightarrow> (ts\<lparr>ts_raws := buf, ts_rawOverflow := n\<rparr>, db))))"

definition flushEvents :: "bool \<Rightarrow> 'v taskState \<times> stored \<Rightarrow> 'v taskState \<times> stored" where
  "flushEvents writeOk = (\<lambda>(ts, db).
     (if ts_events ts = [] then (ts, db)
      else if writeOk then
        (ts\<lparr>ts_eventCount := ts_eventCount ts + length (ts_events ts), ts_events := []\<rparr>,
         db\<lparr>st_events := st_events db @ map (\<lambda>r. ts_heap ts ! r) (ts_events ts)\<rparr>)
      else
        (case retainOnFailure eventBufMax (ts_events ts) (ts_eventOverflow ts) of
           (buf, n) \<Rightarrow>
             (let ts' = ts\<lparr>ts_events := buf, ts_eventOverflow := n\<rparr> in
              (if length buf \<noteq> length (ts_events ts)
               then ts'\<lparr>ts_changes := dropUnbacked (ts_changes ts) (eventIDs ts')\<rparr> else ts', db)))))"

definition flushChanges :: "bool \<Rightarrow> 'v taskState \<times> stored \<Rightarrow> 'v taskState \<times> stored" where
  "flushChanges writeOk = (\<lambda>(ts, db).
     (if ts_changes ts = [] \<or> ts_events ts \<noteq> [] then (ts, db)
      else if writeOk then (ts\<lparr>ts_changes := []\<rparr>, db\<lparr>st_changes := st_changes db @ ts_changes ts\<rparr>)
      else
        (case retainOnFailure stateChangeMax (ts_changes ts) (ts_changeOverflow ts) of
           (buf, n) \<Rightarrow> (ts\<lparr>ts_changes := buf, ts_changeOverflow := n\<rparr>, db))))"

definition flush :: "bool \<times> bool \<times> bool \<Rightarrow> 'v taskState \<times> stored \<Rightarrow> 'v taskState \<times> stored" where
  "flush oks s = (case oks of (rawOk, eventOk, changeOk) \<Rightarrow> flushChanges changeOk (flushEvents eventOk (flushRaws rawOk s)))"

section \<open>Sessions\<close>

definition newTask :: "'v semanticEngine \<Rightarrow> 'v checkEngine option \<Rightarrow> baselineManager \<Rightarrow> 'v taskState" where
  "newTask sem check bm =
     \<lparr>ts_heap = [], ts_sem = sem, ts_check = check, ts_baseline = bm, ts_raws = [], ts_events = [], ts_changes = [],
      ts_rawCount = 0, ts_eventCount = 0, ts_rawOverflow = 0, ts_eventOverflow = 0, ts_changeOverflow = 0\<rparr>"

definition emptyStore :: stored where
  "emptyStore = \<lparr>st_raws = [], st_events = [], st_changes = []\<rparr>"

definition bufferRaw :: "packet \<Rightarrow> 'v taskState \<Rightarrow> 'v taskState" where
  "bufferRaw pkt ts = ts\<lparr>ts_raws := ts_raws ts @ [pkt]\<rparr>"

text \<open>
  The executions of a session, with the packets captured so far: packets, batches of decoded
  events, reloaded rules and flushes in any order and with any outcome of the three writes. The
  baselines are shared with other sessions, which may change them at any time.
\<close>

inductive session ::
  "('d, 'n :: linorder, 'v) hooks \<Rightarrow> string \<Rightarrow> 'v taskState \<times> stored \<Rightarrow> packet list \<Rightarrow> bool"
for hk sessionID where
  start: "session hk sessionID (newTask (refreshRules m newSemanticEngine) check bm, emptyStore) []"
| captured: "session hk sessionID (ts, db) pkts \<Longrightarrow> session hk sessionID (bufferRaw p ts, db) (pkts @ [p])"
| decoded: "session hk sessionID (ts, db) pkts \<Longrightarrow> session hk sessionID (processDecoded hk sessionID now evs ts, db) pkts"
| reloaded: "session hk sessionID (ts, db) pkts \<Longrightarrow> session hk sessionID (ts\<lparr>ts_sem := refreshRules m (ts_sem ts)\<rparr>, db) pkts"
| shared: "session hk sessionID (ts, db) pkts \<Longrightarrow> session hk sessionID (ts\<lparr>ts_baseline := bm\<rparr>, db) pkts"
| flushed: "session hk sessionID s pkts \<Longrightarrow> session hk sessionID (flush oks s) pkts"

section \<open>The decoder follows the registry\<close>

text \<open>
  A call of \<open>resolveDecoder\<close> with everything the code reads from outside: whether it is forced,
  the time, the bound plugin, the client found, whether the stream in use is healthy and whether
  a new one can be opened.
\<close>

type_synonym 'c resolve_call = "bool \<times> time \<times> string \<times> 'c option \<times> bool \<times> bool"

definition resolveCall :: "'c resolve_call \<Rightarrow> 'c resolver \<Rightarrow> 'c resolver" where
  "resolveCall = (\<lambda>(force, now, plugin, found, healthy, buildOk). resolveDecoder force now plugin found healthy buildOk)"

definition resolver_ok :: "'c resolver \<Rightarrow> bool" where
  "resolver_ok rv \<longleftrightarrow>
     rv_client rv = rv_disp rv \<and> (rv_disp rv \<noteq> None \<longrightarrow> rv_bindingState rv = '''') \<and> set (rv_reported rv) \<subseteq> {''idle''}"

lemma bindingReportGrace_pos [simp]: "0 < bindingReportGrace"
  by (simp add: bindingReportGrace_def)

lemma reportBinding_fields [simp]:
  "rv_client (reportBinding now s rv) = rv_client rv" "rv_disp (reportBinding now s rv) = rv_disp rv"
  "rv_bindingState (reportBinding now s rv) = s"
  by (auto simp: reportBinding_def Let_def)

lemma reportBinding_reported:
  "set (rv_reported (reportBinding now s rv)) \<subseteq> insert s (set (rv_reported rv))"
  by (auto simp: reportBinding_def Let_def)

lemma reportBinding_fresh:
  assumes "rv_bindingState rv \<noteq> s"
  shows "rv_reported (reportBinding now s rv) = rv_reported rv"
  using assms by (simp add: reportBinding_def Let_def bindingReportGrace_def)

lemma clearBinding_fields [simp]:
  "rv_client (clearBinding rv) = rv_client rv" "rv_disp (clearBinding rv) = rv_disp rv"
  "rv_bindingState (clearBinding rv) = ''''" "rv_reported (clearBinding rv) = rv_reported rv"
  by (simp_all add: clearBinding_def)

lemma resolver_ok_new: "resolver_ok newResolver"
  by (simp add: resolver_ok_def newResolver_def)

lemma resolver_ok_report:
  assumes "resolver_ok rv" "rv_disp rv = None" "s = ''idle'' \<or> rv_bindingState rv \<noteq> s"
  shows "resolver_ok (reportBinding now s rv)"
  using assms reportBinding_reported [of now "''idle''" rv] by (auto simp: resolver_ok_def reportBinding_fresh)

lemma resolver_ok_action:
  assumes "resolver_ok rv"
  shows "resolver_ok (applyAction now plugin found buildOk rv)"
proof (cases "decoderAction found (rv_client rv) (rv_disp rv \<noteq> None)")
  case Idle
  then have "rv_disp rv = None"
    by (auto simp: decoderAction_def split: option.splits if_splits)
  then show ?thesis
    using assms resolver_ok_report [OF assms] Idle by (simp add: applyAction_def)
next
  case Drop
  then have "rv_disp rv \<noteq> None"
    by (auto simp: decoderAction_def split: option.splits if_splits)
  then show ?thesis
    using assms Drop by (simp add: applyAction_def resolver_ok_def reportBinding_fresh)
qed (use assms in \<open>simp_all add: applyAction_def resolver_ok_def reportBinding_fresh Let_def\<close>)

lemma resolver_ok_step:
  assumes "resolver_ok rv"
  shows "resolver_ok (resolveDecoder force now plugin found healthy buildOk rv)"
proof -
  have "resolver_ok (rv\<lparr>rv_lastResolve := now\<rparr>)" "resolver_ok (rv\<lparr>rv_lastResolve := now, rv_lastReconnect := now, rv_disp := None, rv_client := None\<rparr>)"
    using assms by (simp_all add: resolver_ok_def)
  with assms show ?thesis
    by (simp add: resolveDecoder_def Let_def resolver_ok_action)
qed

lemma disp_applyAction:
  "rv_client rv = rv_disp rv \<Longrightarrow>
   rv_disp (applyAction now plugin found buildOk rv) = (if found = None \<or> found = rv_disp rv \<or> buildOk then found else None)"
  by (auto simp: applyAction_def decoderAction_def Let_def split: option.splits)

lemma resolver_ok_calls:
  assumes "resolver_ok rv"
  shows "resolver_ok (fold resolveCall calls rv)"
  using assms by (induction calls arbitrary: rv) (auto simp: resolveCall_def resolver_ok_step split: prod.split)

text \<open>
  The decoder in use follows the registry. After any history of calls, a forced
  resolution leaves a broken stream alone only within the back-off; otherwise it detaches the
  decoder when the registry has none, keeps a healthy stream to the client found, and else opens
  a new stream to that client, ending without a decoder when that fails.
\<close>

theorem resolver_follows_registry:
  defines "rv calls \<equiv> fold resolveCall calls newResolver"
  shows "rv_disp (resolveDecoder True now plugin found healthy buildOk (rv calls)) =
     (if rv_disp (rv calls) \<noteq> None \<and> \<not> healthy \<and> now - rv_lastReconnect (rv calls) < reconnectBackoff then rv_disp (rv calls)
      else if found = None \<or> (healthy \<and> found = rv_disp (rv calls)) \<or> buildOk then found else None)"
  using resolver_ok_calls [OF resolver_ok_new, of calls]
  by (auto simp: rv_def resolver_ok_def resolveDecoder_def Let_def disp_applyAction)

text \<open>
  A decoder that goes offline or whose stream cannot be opened is never reported under that
  cause: whatever happens, the only binding error ever recorded is the one of a plugin without
  instance. \<open>drop\<close> and \<open>stream\<close> are always the first observation of their episode, and the first
  observation is within the grace period.
\<close>

theorem stream_failure_never_reported:
  "set (rv_reported (fold resolveCall calls newResolver)) \<subseteq> {''idle''}"
  using resolver_ok_calls [OF resolver_ok_new, of calls] by (simp add: resolver_ok_def)

section \<open>Nothing is stored without its cause\<close>

lemma applyChange_ids:
  assumes "list_all (\<lambda>c. en_EventID c = eid) (ap_result st)"
  shows "list_all (\<lambda>c. en_EventID c = eid) (ap_result (applyChange ttl now eid scp flow nsc st))"
  using assms by (auto simp: applyChange_def Let_def split: prod.split)

lemma applyChanges_ids:
  assumes "list_all (\<lambda>c. en_EventID c = eid) (ap_result st)"
  shows "list_all (\<lambda>c. en_EventID c = eid) (ap_result (fold (applyChange ttl now eid scp flow) xs st))"
  using assms by (induction xs arbitrary: st) (simp_all add: applyChange_ids)

lemma applyEvent_ids: "applyEvent ev sid bm = (bm', changes) \<Longrightarrow> c \<in> set changes \<Longrightarrow> en_EventID c = eid_of ev"
  using applyEvent_loop(1) [of ev sid bm] applyChanges_ids [of "eid_of ev" "loopStart bm"]
  by (simp add: loopEnd_def list_all_iff split: prod.splits)

definition storedIDs :: "stored \<Rightarrow> eventID set" where
  "storedIDs db = eid_of ` set (st_events db)"

definition task_ok :: "'v taskState \<Rightarrow> stored \<Rightarrow> bool" where
  "task_ok ts db \<longleftrightarrow>
     pool_ok (ts_heap ts) (ts_sem ts) \<and> list_all (\<lambda>r. r < length (ts_heap ts)) (ts_events ts) \<and>
     en_EventID ` set (ts_changes ts) \<subseteq> set (eventIDs ts) \<union> storedIDs db \<and>
     en_EventID ` set (st_changes db) \<subseteq> storedIDs db"

lemma pool_append: "pool_ok heap e \<Longrightarrow> pool_ok (heap @ evs) e"
  by (auto simp: pool_ok_def list_all_iff nth_append)

lemma pool_refresh: "pool_ok heap (refreshRules m e) \<longleftrightarrow> pool_ok heap e"
  by (simp add: pool_ok_def refreshRules_def split: option.split)

lemma eventIDs_frame:
  assumes "frame heap heap'" "list_all (\<lambda>r. r < length heap) rs"
  shows "map (\<lambda>r. id_ID (ev_Identity (heap' ! r))) rs = map (\<lambda>r. id_ID (ev_Identity (heap ! r))) rs"
  using assms by (auto simp: list_all_iff frame_nth)

lemma task_ok_processOne:
  assumes ok: "task_ok ts db" and r: "r < length (ts_heap ts)"
  shows "task_ok (processOne hk sid now r ts) db \<and> length (ts_heap (processOne hk sid now r ts)) = length (ts_heap ts)"
proof -
  obtain heap sem where e: "enrichSemantics (hk_api hk) (hk_toDoc hk) now r (ts_heap ts, ts_sem ts) = (heap, sem)"
    by fastforce
  with enrich_ok [of "ts_heap ts" "ts_sem ts" r "hk_api hk" "hk_toDoc hk" now] ok r
  have f: "pool_ok heap sem" "frame (ts_heap ts) heap"
    by (simp_all add: task_ok_def)
  obtain bm changes where a: "applyEvent (heap ! r) sid (ts_baseline ts) = (bm, changes)"
    by fastforce
  have new: "en_EventID ` set changes \<subseteq> {eid_of (heap ! r)}"
    using applyEvent_ids [OF a] by auto
  have old: "map (\<lambda>r. eid_of (heap ! r)) (ts_events ts) = eventIDs ts"
    using eventIDs_frame [OF f(2), of "ts_events ts"] ok by (simp add: task_ok_def eventIDs_def)
  show ?thesis
    using ok r f frame_length [OF f(2)] new old
    by (auto simp: task_ok_def processOne_def e a eventIDs_def Let_def)
qed

lemma task_ok_processAll:
  assumes "task_ok ts db" and "\<forall>r \<in> set rs. r < length (ts_heap ts)"
  shows "task_ok (fold (processOne hk sid now) rs ts) db"
  using assms
proof (induction rs arbitrary: ts)
  case (Cons r rs)
  then show ?case
    using task_ok_processOne [of ts db r hk sid now] by simp
qed simp

lemma task_ok_decoded:
  assumes "task_ok ts db"
  shows "task_ok (processDecoded hk sid now evs ts) db"
proof -
  have "eventIDs (ts\<lparr>ts_heap := ts_heap ts @ evs\<rparr>) = eventIDs ts"
    using assms by (auto simp: task_ok_def eventIDs_def list_all_iff nth_append)
  with assms have "task_ok (ts\<lparr>ts_heap := ts_heap ts @ evs\<rparr>) db"
    by (auto simp: task_ok_def pool_append list_all_iff)
  then show ?thesis
    unfolding processDecoded_def Let_def by (rule task_ok_processAll) simp
qed

lemma retain_suffix: "retainOnFailure limit buf n = (buf', n') \<Longrightarrow> suffix buf' buf \<and> length buf' + n' = length buf + n"
  by (auto simp: retainOnFailure_def suffix_drop Let_def split: if_splits)

lemma flushRaws_frame:
  assumes "flushRaws ok (ts, db) = (ts', db')"
  shows "ts_heap ts' = ts_heap ts" "ts_sem ts' = ts_sem ts" "ts_events ts' = ts_events ts" "ts_changes ts' = ts_changes ts"
    "st_events db' = st_events db" "st_changes db' = st_changes db" "ts_eventOverflow ts' = ts_eventOverflow ts"
  using assms by (auto simp: flushRaws_def split: if_splits prod.splits)

lemma task_ok_flushRaws:
  assumes "task_ok ts db" "flushRaws ok (ts, db) = (ts', db')"
  shows "task_ok ts' db'"
  using assms(1) flushRaws_frame [OF assms(2)] by (simp add: task_ok_def eventIDs_def storedIDs_def)

lemma eventIDs_changes [simp]: "eventIDs (ts\<lparr>ts_changes := cs\<rparr>) = eventIDs ts"
  by (simp add: eventIDs_def)

lemma task_ok_flushEvents:
  assumes ok: "task_ok ts db" and f: "flushEvents w (ts, db) = (ts', db')"
  shows "task_ok ts' db'"
proof -
  obtain buf n where r: "retainOnFailure eventBufMax (ts_events ts) (ts_eventOverflow ts) = (buf, n)"
    by fastforce
  have s: "set buf \<subseteq> set (ts_events ts)" "suffix buf (ts_events ts)"
    using retain_suffix [OF r] set_mono_suffix by auto
  consider (none) "ts_events ts = []" | (stored) "ts_events ts \<noteq> []" "w" | (retained) "ts_events ts \<noteq> []" "\<not> w" "length buf = length (ts_events ts)"
    | (cut) "ts_events ts \<noteq> []" "\<not> w" "length buf \<noteq> length (ts_events ts)"
    by blast
  then show ?thesis
  proof cases
    case stored
    with f have t: "ts' = ts\<lparr>ts_eventCount := ts_eventCount ts + length (ts_events ts), ts_events := []\<rparr>"
      and d: "db' = db\<lparr>st_events := st_events db @ map (\<lambda>r. ts_heap ts ! r) (ts_events ts)\<rparr>"
      by (simp_all add: flushEvents_def)
    have "storedIDs db' = storedIDs db \<union> set (eventIDs ts)"
      by (simp add: d storedIDs_def eventIDs_def image_Un image_image)
    with ok show ?thesis
      by (auto simp: task_ok_def t d eventIDs_def)
  next
    case retained
    then have "buf = ts_events ts"
      using s(2) by (auto simp: suffix_def)
    with retained f r have "ts' = ts\<lparr>ts_events := ts_events ts, ts_eventOverflow := n\<rparr>" "db' = db"
      by (simp_all add: flushEvents_def Let_def)
    with ok show ?thesis
      by (simp add: task_ok_def eventIDs_def)
  next
    case cut
    with ok f r s(1) show ?thesis
      by (auto simp: flushEvents_def task_ok_def dropUnbacked_def list_all_iff Let_def)
  qed (use ok f in \<open>simp add: flushEvents_def\<close>)
qed

lemma task_ok_flushChanges:
  assumes ok: "task_ok ts db" and f: "flushChanges w (ts, db) = (ts', db')"
  shows "task_ok ts' db'"
proof (cases "ts_changes ts = [] \<or> ts_events ts \<noteq> []")
  case True
  with ok f show ?thesis
    by (auto simp: flushChanges_def)
next
  case False
  then have ids: "eventIDs ts = []"
    by (simp add: eventIDs_def)
  obtain buf n where r: "retainOnFailure stateChangeMax (ts_changes ts) (ts_changeOverflow ts) = (buf, n)"
    by fastforce
  then have "set buf \<subseteq> set (ts_changes ts)"
    using retain_suffix set_mono_suffix by blast
  with ok f r ids False show ?thesis
    by (cases w) (force simp: flushChanges_def task_ok_def eventIDs_def storedIDs_def)+
qed

lemma task_ok_flush:
  assumes "task_ok ts db" and "flush oks (ts, db) = (ts', db')"
  shows "task_ok ts' db'"
proof -
  obtain a b c where oks: "oks = (a, b, c)"
    by (cases oks) auto
  obtain ts1 db1 where 1: "flushRaws a (ts, db) = (ts1, db1)"
    by fastforce
  obtain ts2 db2 where 2: "flushEvents b (ts1, db1) = (ts2, db2)"
    by fastforce
  from assms(2) have "flushChanges c (ts2, db2) = (ts', db')"
    by (simp add: flush_def oks 1 2)
  with task_ok_flushChanges task_ok_flushEvents [OF _ 2] task_ok_flushRaws [OF assms(1) 1] show ?thesis
    by blast
qed

lemma session_ok: "session hk sid s pkts \<Longrightarrow> task_ok (fst s) (snd s)"
proof (induction rule: session.induct)
  case (start m check bm)
  show ?case
    by (simp add: task_ok_def newTask_def emptyStore_def newSemanticEngine_def pool_refresh eventIDs_def)
      (simp add: pool_ok_def)
next
  case (captured ts db pkts p)
  then show ?case
    by (simp add: task_ok_def bufferRaw_def eventIDs_def)
next
  case (flushed s pkts oks)
  then show ?case
    using task_ok_flush [of "fst s" "snd s" oks] by (cases "flush oks s") simp
qed (simp_all add: task_ok_decoded, simp_all add: task_ok_def pool_refresh eventIDs_def)

text \<open>
  (C16) No projection without its event. In every execution of a session, whatever writes fail
  and however often, each state change in the database refers to an event that is in the
  database too.
\<close>

theorem no_orphan_changes:
  assumes "session hk sessionID (ts, db) pkts"
  shows "en_EventID ` set (st_changes db) \<subseteq> (\<lambda>ev. id_ID (ev_Identity ev)) ` set (st_events db)"
  using session_ok [OF assms] by (simp add: task_ok_def storedIDs_def)

section \<open>Every packet and event is accounted for\<close>

lemma processOne_log:
  "ts_raws (processOne hk sid now r ts) = ts_raws ts" "ts_rawCount (processOne hk sid now r ts) = ts_rawCount ts"
  "ts_rawOverflow (processOne hk sid now r ts) = ts_rawOverflow ts" "ts_events (processOne hk sid now r ts) = ts_events ts @ [r]"
  "ts_eventCount (processOne hk sid now r ts) = ts_eventCount ts" "ts_eventOverflow (processOne hk sid now r ts) = ts_eventOverflow ts"
  by (simp_all add: processOne_def Let_def split: prod.splits)

lemma processAll_log:
  "ts_raws (fold (processOne hk sid now) rs ts) = ts_raws ts" "ts_rawCount (fold (processOne hk sid now) rs ts) = ts_rawCount ts"
  "ts_rawOverflow (fold (processOne hk sid now) rs ts) = ts_rawOverflow ts"
  "ts_events (fold (processOne hk sid now) rs ts) = ts_events ts @ rs"
  "ts_eventCount (fold (processOne hk sid now) rs ts) = ts_eventCount ts"
  "ts_eventOverflow (fold (processOne hk sid now) rs ts) = ts_eventOverflow ts"
  by (induction rs arbitrary: ts) (simp_all add: processOne_log)

definition raws_ok :: "'v taskState \<Rightarrow> stored \<Rightarrow> packet list \<Rightarrow> bool" where
  "raws_ok ts db pkts \<longleftrightarrow>
     subseq (st_raws db @ ts_raws ts) pkts \<and> length (st_raws db) + length (ts_raws ts) + ts_rawOverflow ts = length pkts \<and>
     ts_rawCount ts = length (st_raws db)"

lemma raws_ok_flushRaws:
  assumes ok: "raws_ok ts db pkts" and f: "flushRaws w (ts, db) = (ts', db')"
  shows "raws_ok ts' db' pkts"
proof -
  obtain buf n where r: "retainOnFailure rawBufMax (ts_raws ts) (ts_rawOverflow ts) = (buf, n)"
    by fastforce
  have s: "subseq (st_raws db @ buf) (st_raws db @ ts_raws ts)" "length buf + n = length (ts_raws ts) + ts_rawOverflow ts"
    using retain_suffix [OF r] list_emb_append_mono [OF subseq_order.order_refl suffix_imp_subseq] by blast+
  consider "ts_raws ts = []" | "ts_raws ts \<noteq> []" "w" | "ts_raws ts \<noteq> []" "\<not> w"
    by blast
  then show ?thesis
  proof cases
    case 3
    with f r have "ts' = ts\<lparr>ts_raws := buf, ts_rawOverflow := n\<rparr>" "db' = db"
      by (simp_all add: flushRaws_def)
    with ok s show ?thesis
      by (auto simp: raws_ok_def intro: subseq_order.trans)
  qed (use ok f in \<open>auto simp: flushRaws_def raws_ok_def\<close>)
qed

lemma flushRest_raws:
  assumes "flushChanges c (flushEvents b (ts, db)) = (ts', db')"
  shows "ts_raws ts' = ts_raws ts" "ts_rawCount ts' = ts_rawCount ts" "ts_rawOverflow ts' = ts_rawOverflow ts" "st_raws db' = st_raws db"
  using assms by (auto simp: flushChanges_def flushEvents_def Let_def split: if_splits prod.splits)

lemma session_raws: "session hk sid s pkts \<Longrightarrow> raws_ok (fst s) (snd s) pkts"
proof (induction rule: session.induct)
  case (captured ts db pkts p)
  then show ?case
    by (simp add: raws_ok_def bufferRaw_def list_emb_append_mono flip: append_assoc)
next
  case (flushed s pkts oks)
  obtain a b c ts db where s: "oks = (a, b, c)" "s = (ts, db)"
    by (cases oks, cases s) auto
  obtain ts1 db1 where 1: "flushRaws a (ts, db) = (ts1, db1)"
    by fastforce
  have "raws_ok ts1 db1 pkts"
    by (rule raws_ok_flushRaws [OF _ 1]) (use flushed.IH s in simp)
  moreover obtain ts2 db2 where 2: "flushChanges c (flushEvents b (ts1, db1)) = (ts2, db2)"
    by fastforce
  ultimately show ?case
    by (simp add: raws_ok_def flush_def s 1 2 flushRest_raws [OF 2])
qed (simp_all add: raws_ok_def newTask_def emptyStore_def processDecoded_def Let_def processAll_log)

text \<open>
  (C17) Raw packets are stored in capture order, each at most once, and none is lost unseen: the
  packets written and those buffered are a subsequence of the packets captured, and the missing
  ones are exactly counted as overflow, however the writes fail.
\<close>

theorem raw_packets_accounted:
  assumes "session hk sessionID (ts, db) pkts"
  shows "subseq (st_raws db @ ts_raws ts) pkts \<and>
     length (st_raws db) + length (ts_raws ts) + ts_rawOverflow ts = length pkts \<and> ts_rawCount ts = length (st_raws db)"
  using session_raws [OF assms] by (simp add: raws_ok_def)

text \<open>
  A retained projection of a stored event is lost uncounted: when its own write had failed and
  later the event buffer overflows, \<open>dropUnbacked\<close> looks only at the buffered events.
\<close>

lemma projection_of_stored_event_lost:
  assumes "eventBufMax < int (length (ts_events ts))" and "en_EventID c \<notin> set (eventIDs ts)" and "c \<notin> set (st_changes db)"
    and "flush (rawOk, False, changeOk) (ts, db) = (ts', db')"
  shows "c \<notin> set (ts_changes ts') \<and> c \<notin> set (st_changes db') \<and> ts_changeOverflow ts' = ts_changeOverflow ts"
proof -
  obtain ts1 db1 where 1: "flushRaws rawOk (ts, db) = (ts1, db1)"
    by fastforce
  have f: "ts_events ts1 = ts_events ts" "eventIDs ts1 = eventIDs ts" "st_changes db1 = st_changes db" "ts_changeOverflow ts1 = ts_changeOverflow ts"
    using 1 by (auto simp: flushRaws_def eventIDs_def split: if_splits prod.splits)
  let ?n = "length (ts_events ts) - nat eventBufMax"
  let ?ts = "ts1\<lparr>ts_events := drop ?n (ts_events ts), ts_eventOverflow := ts_eventOverflow ts1 + ?n\<rparr>"
  have ids: "set (eventIDs ?ts) \<subseteq> set (eventIDs ts1)"
    by (auto simp: eventIDs_def f dest: in_set_dropD)
  have nz: "\<not> length (ts_events ts) \<le> ?n" and "ts_events ts \<noteq> []"
    using assms(1) by (auto simp: eventBufMax_def)
  then have 2: "flushEvents False (ts1, db1) = (?ts\<lparr>ts_changes := dropUnbacked (ts_changes ts1) (eventIDs ?ts)\<rparr>, db1)"
    using assms(1) f(1) by (simp add: flushEvents_def retainOnFailure_def Let_def)
  have "ts' = ?ts\<lparr>ts_changes := dropUnbacked (ts_changes ts1) (eventIDs ?ts)\<rparr>" "db' = db1"
    using assms(4) nz by (simp_all add: flush_def 1 2 flushChanges_def)
  with ids assms(2,3) f show ?thesis
    by (auto simp: dropUnbacked_def)
qed

section \<open>A session on concrete data\<close>

definition demoHooks :: "(vval option, int, vval) hooks" where
  "demoHooks =
     \<lparr>hk_api = demo_api, hk_toDoc = demoDoc, hk_toJSON = (\<lambda>_. None), hk_hits = (\<lambda>_ _. False), hk_freshID = (\<lambda>_. ''alert'')\<rparr>"

text \<open>A packet, an event with two changes, and writes of which the event's and then the changes' first fail.\<close>

definition demoTask :: "vval taskState" where
  "demoTask = processDecoded demoHooks ''s1'' 100 [demoEvent]
     (bufferRaw (demoPacket 7 80 no_flags) (newTask (refreshRules (Some (Some demo_rules)) newSemanticEngine) None demoManager))"

definition demoFlushed :: "vval taskState \<times> stored" where
  "demoFlushed = flush (True, True, True) (flush (True, True, False) (flush (False, False, True) (demoTask, emptyStore)))"

lemma demo_session: "session demoHooks ''s1'' (fst demoFlushed, snd demoFlushed) [demoPacket 7 80 no_flags]"
proof -
  have "session demoHooks ''s1'' (demoTask, emptyStore) ([] @ [demoPacket 7 80 no_flags])"
    unfolding demoTask_def by (intro session.decoded session.captured session.start)
  then have "session demoHooks ''s1'' (demoTask, emptyStore) [demoPacket 7 80 no_flags]"
    by simp
  then show ?thesis
    unfolding demoFlushed_def prod.collapse by (intro session.flushed)
qed

theorem no_orphan_changes_witness:
  "map en_EventID (st_changes (snd demoFlushed)) = [''e1'', ''e1''] \<and> ''e1'' \<in> (\<lambda>ev. id_ID (ev_Identity ev)) ` set (st_events (snd demoFlushed))"
proof -
  have c: "map en_EventID (st_changes (snd demoFlushed)) = [''e1'', ''e1'']"
    by code_simp
  then have "''e1'' \<in> en_EventID ` set (st_changes (snd demoFlushed))"
    using image_set [of en_EventID "st_changes (snd demoFlushed)"] by simp
  with no_orphan_changes [OF demo_session] c show ?thesis
    by blast
qed

theorem raw_packets_accounted_witness:
  "length (st_raws (snd demoFlushed)) = 1 \<and> ts_rawCount (fst demoFlushed) = 1"
proof -
  have "ts_raws (fst demoFlushed) = []" "ts_rawOverflow (fst demoFlushed) = 0"
    by code_simp+
  with raw_packets_accounted [OF demo_session] show ?thesis
    by simp
qed

end
