(* ===== verification/Error_Collector.thy ===== *)
theory Error_Collector
  imports Event_Model Go_Strings "HOL-Library.Multiset"
begin

text \<open>
  The collector of decode failures, \<open>pkg/decode/errorcol.go\<close>: failures are grouped by a
  fingerprint of their normalised text, in a bounded number of groups, with one bucket for the
  kinds beyond the limit. The regular expressions of the normalisation and SHA-256 are
  parameters.
\<close>

section \<open>Templates and fingerprints\<close>

definition defaultMaxErrorGroups :: int where "defaultMaxErrorGroups = 32"
definition errSampleMaxLen :: nat where "errSampleMaxLen = 512"
definition errTemplateMaxLen :: nat where "errTemplateMaxLen = 240"
definition overflowFingerprint :: string where "overflowFingerprint = ''overflow''"

text \<open>The text of the bucket, in UTF-8.\<close>

definition overflowTemplate :: string where
  "overflowTemplate =
     [CHR 0xE5, CHR 0x85, CHR 0xB6, CHR 0xE4, CHR 0xBB, CHR 0x96, CHR 0xE8, CHR 0xA7, CHR 0xA3, CHR 0xE7, CHR 0xA0, CHR 0x81,
      CHR 0xE9, CHR 0x94, CHR 0x99, CHR 0xE8, CHR 0xAF, CHR 0xAF, CHR 0xEF, CHR 0xBC, CHR 0x88, CHR 0xE7, CHR 0xA7, CHR 0x8D,
      CHR 0xE7, CHR 0xB1, CHR 0xBB, CHR 0xE5, CHR 0xB7, CHR 0xB2, CHR 0xE8, CHR 0xB6, CHR 0x85, CHR 0xE4, CHR 0xB8, CHR 0x8A,
      CHR 0xE9, CHR 0x99, CHR 0x90, CHR 0xEF, CHR 0xBC, CHR 0x8C, CHR 0xE4, CHR 0xBB, CHR 0x85, CHR 0xE8, CHR 0xAE, CHR 0xA1,
      CHR 0xE6, CHR 0x95, CHR 0xB0, CHR 0xEF, CHR 0xBC, CHR 0x89]"

text \<open>\<open>ReplaceAllString\<close> of the five expressions: the text and the replacement.\<close>

record regexps =
  reUUID :: "string \<Rightarrow> string \<Rightarrow> string"
  reAddr :: "string \<Rightarrow> string \<Rightarrow> string"
  reHex :: "string \<Rightarrow> string \<Rightarrow> string"
  reNum :: "string \<Rightarrow> string \<Rightarrow> string"
  reWS :: "string \<Rightarrow> string \<Rightarrow> string"
  sha256 :: "string \<Rightarrow> byte list"

definition errorTemplate :: "regexps \<Rightarrow> string \<Rightarrow> string" where
  "errorTemplate rx msg =
     (let s = truncateRunes msg errSampleMaxLen;
          s = reUUID rx s ''<id>'';
          s = reAddr rx s ''<addr>'';
          s = reHex rx s ''<hex>'';
          s = reNum rx s ''<n>'';
          s = trimSpace (reWS rx s '' '')
      in if s = '''' then ''(empty error)'' else truncateRunes s errTemplateMaxLen)"

definition hexString :: "byte list \<Rightarrow> string" where
  "hexString bs = concat (map (\<lambda>b. [hex_digit (unat b div 16), hex_digit (unat b mod 16)]) bs)"

definition errorFingerprint :: "regexps \<Rightarrow> string \<Rightarrow> string \<Rightarrow> string" where
  "errorFingerprint rx knd template = hexString (take 8 (sha256 rx (knd @ [CHR 0x00] @ template)))"

section \<open>The collector\<close>

record errorGroup =
  eg_Fingerprint :: string
  eg_Kind :: string
  eg_Template :: string
  eg_Sample :: string
  eg_SampleRawID :: string
  eg_SampleSrc :: string
  eg_SampleDst :: string
  eg_Count :: int
  eg_FirstSeen :: time
  eg_LastSeen :: time

record errorCollector =
  col_groups :: "(string \<times> errorGroup) list"
  col_order :: "string list"
  col_total :: int
  col_maxSize :: int

text \<open>\<open>NewErrorCollector\<close> with the option \<open>WithMaxErrorGroups n\<close>; 0 stands for no option.\<close>

definition newErrorCollector :: "int \<Rightarrow> errorCollector" where
  "newErrorCollector n =
     \<lparr>col_groups = [], col_order = [], col_total = 0, col_maxSize = (if 0 < n then n else defaultMaxErrorGroups)\<rparr>"

definition newGroup :: "string \<Rightarrow> string \<Rightarrow> string \<Rightarrow> time \<Rightarrow> errorGroup" where
  "newGroup fp knd tpl now =
     \<lparr>eg_Fingerprint = fp, eg_Kind = knd, eg_Template = tpl, eg_Sample = '''', eg_SampleRawID = '''', eg_SampleSrc = '''',
      eg_SampleDst = '''', eg_Count = 0, eg_FirstSeen = now, eg_LastSeen = now\<rparr>"

text \<open>The failure lands in the group of its fingerprint, or in the bucket when there is no room.\<close>

definition bucketFor :: "errorCollector \<Rightarrow> string \<Rightarrow> string \<Rightarrow> string \<times> string" where
  "bucketFor c fp tpl =
     (if map_of (col_groups c) fp = None \<and> fp \<noteq> overflowFingerprint \<and> col_maxSize c \<le> int (length (col_groups c))
      then (overflowFingerprint, overflowTemplate) else (fp, tpl))"

definition hit :: "time \<Rightarrow> string \<Rightarrow> string \<Rightarrow> string \<Rightarrow> string \<Rightarrow> errorGroup \<Rightarrow> errorGroup" where
  "hit now rawID src dst msg g =
     (let g = g\<lparr>eg_Count := eg_Count g + 1, eg_LastSeen := now\<rparr> in
      if eg_Sample g = '''' then
        g\<lparr>eg_Sample := truncateRunes msg errSampleMaxLen, eg_SampleRawID := rawID, eg_SampleSrc := src, eg_SampleDst := dst\<rparr>
      else g)"

definition addError ::
  "regexps \<Rightarrow> time \<Rightarrow> string \<Rightarrow> string \<Rightarrow> string \<Rightarrow> string \<Rightarrow> string \<Rightarrow> errorCollector \<Rightarrow> errorCollector"
where
  "addError rx now knd rawID src dst msg c =
     (let tpl = errorTemplate rx msg;
          c = c\<lparr>col_total := col_total c + 1\<rparr>
      in
      case bucketFor c (errorFingerprint rx knd tpl) tpl of
        (fp, tpl) \<Rightarrow>
          (case map_of (col_groups c) fp of
             Some g \<Rightarrow> c\<lparr>col_groups := AList.update fp (hit now rawID src dst msg g) (col_groups c)\<rparr>
           | None \<Rightarrow>
               c\<lparr>col_groups := AList.update fp (hit now rawID src dst msg (newGroup fp knd tpl now)) (col_groups c),
                 col_order := col_order c @ [fp]\<rparr>))"

definition errorGroups :: "errorCollector \<Rightarrow> errorGroup list" where
  "errorGroups c = sort_key (\<lambda>g. - eg_Count g) (List.map_filter (map_of (col_groups c)) (col_order c))"

definition errorKinds :: "errorCollector \<Rightarrow> nat" where
  "errorKinds c = length (col_groups c)"

section \<open>Accounting\<close>

text \<open>The groups after a sequence of failures, given by their fingerprints.\<close>

definition total_count :: "(string \<times> errorGroup) list \<Rightarrow> int" where
  "total_count gs = (\<Sum>(_, g) \<leftarrow> gs. eg_Count g)"

definition col_ok :: "errorCollector \<Rightarrow> string list \<Rightarrow> bool" where
  "col_ok c fps \<longleftrightarrow>
     distinct (map fst (col_groups c)) \<and> distinct (col_order c) \<and> set (col_order c) = fst ` set (col_groups c) \<and>
     col_total c = int (length fps) \<and> total_count (col_groups c) = int (length fps) \<and>
     int (length (filter (\<lambda>(fp, _). fp \<noteq> overflowFingerprint) (col_groups c))) \<le> col_maxSize c \<and>
     (\<forall>fp. fp \<noteq> overflowFingerprint \<longrightarrow>
        (case map_of (col_groups c) fp of
           Some g \<Rightarrow> eg_Count g = int (count_list fps fp)
         | None \<Rightarrow> fp \<in> set fps \<longrightarrow> col_maxSize c \<le> int (length (col_groups c))))"

lemma hit_count [simp]: "eg_Count (hit now r s d m g) = eg_Count g + 1"
  by (simp add: hit_def Let_def)

lemma newGroup_count [simp]: "eg_Count (newGroup fp k t now) = 0"
  by (simp add: newGroup_def)

lemma total_update:
  "distinct (map fst gs) \<Longrightarrow>
   total_count (AList.update k g gs) = total_count gs + eg_Count g - (case map_of gs k of Some g' \<Rightarrow> eg_Count g' | None \<Rightarrow> 0)"
  by (induction gs) (auto simp: total_count_def map_of_eq_None_iff split: option.split)

lemma filter_update_length:
  assumes "distinct (map fst gs)"
  shows "length (filter (\<lambda>(k, _). P k) (AList.update k g gs)) =
    length (filter (\<lambda>(k, _). P k) gs) + (if P k \<and> map_of gs k = None then 1 else 0)"
  using assms by (induction gs) auto

definition addFP :: "regexps \<Rightarrow> string \<times> string \<Rightarrow> string" where
  "addFP rx = (\<lambda>(knd, msg). errorFingerprint rx knd (errorTemplate rx msg))"

text \<open>One failure, seen from the groups: the bucket it lands in gains one.\<close>

lemma addError_groups:
  assumes "bucketFor c (addFP rx (knd, msg)) (errorTemplate rx msg) = (fp, tpl)"
  obtains g where "addError rx now knd raw src dst msg c =
      c\<lparr>col_total := col_total c + 1, col_groups := AList.update fp g (col_groups c),
        col_order := (if map_of (col_groups c) fp = None then col_order c @ [fp] else col_order c)\<rparr>"
    and "eg_Count g = 1 + (case map_of (col_groups c) fp of Some g' \<Rightarrow> eg_Count g' | None \<Rightarrow> 0)"
proof (cases "map_of (col_groups c) fp")
  case None
  with assms show ?thesis
    by (intro that [of "hit now raw src dst msg (newGroup fp knd tpl now)"]) (simp_all add: addError_def addFP_def bucketFor_def Let_def)
next
  case (Some g)
  with assms show ?thesis
    by (intro that [of "hit now raw src dst msg g"]) (simp_all add: addError_def addFP_def bucketFor_def Let_def)
qed

lemma addError_ok:
  assumes ok: "col_ok c fps"
  shows "col_ok (addError rx now knd raw src dst msg c) (fps @ [addFP rx (knd, msg)])"
proof -
  let ?f = "addFP rx (knd, msg)" and ?gs = "col_groups c"
  obtain fp tpl where b: "bucketFor c ?f (errorTemplate rx msg) = (fp, tpl)"
    by fastforce
  obtain g where add: "addError rx now knd raw src dst msg c =
      c\<lparr>col_total := col_total c + 1, col_groups := AList.update fp g ?gs,
        col_order := (if map_of ?gs fp = None then col_order c @ [fp] else col_order c)\<rparr>"
    and g: "eg_Count g = 1 + (case map_of ?gs fp of Some g' \<Rightarrow> eg_Count g' | None \<Rightarrow> 0)"
    using addError_groups [OF b] by blast
  have d: "distinct (map fst ?gs)"
    using ok by (simp add: col_ok_def)
  have fp: "fp = (if map_of ?gs ?f = None \<and> ?f \<noteq> overflowFingerprint \<and> col_maxSize c \<le> int (length ?gs) then overflowFingerprint else ?f)"
    using b by (simp add: bucketFor_def split: if_splits)
  have order: "distinct (if map_of ?gs fp = None then col_order c @ [fp] else col_order c) \<and>
      set (if map_of ?gs fp = None then col_order c @ [fp] else col_order c) = fst ` set (AList.update fp g ?gs)"
    using ok by (auto simp: col_ok_def dom_update map_of_eq_None_iff)
  have size: "int (length (filter (\<lambda>(k, _). k \<noteq> overflowFingerprint) (AList.update fp g ?gs))) \<le> col_maxSize c"
  proof (cases "fp \<noteq> overflowFingerprint \<and> map_of ?gs fp = None")
    case True
    with fp have "int (length ?gs) < col_maxSize c"
      by (auto split: if_splits)
    moreover have "length (filter (\<lambda>(k, _). k \<noteq> overflowFingerprint) ?gs) \<le> length ?gs"
      by (rule length_filter_le)
    ultimately have "1 + int (length (filter (\<lambda>(k, _). k \<noteq> overflowFingerprint) ?gs)) \<le> col_maxSize c"
      by linarith
    with True d show ?thesis
      by (simp add: filter_update_length)
  next
    case False
    then have "length (filter (\<lambda>(k, _). k \<noteq> overflowFingerprint) (AList.update fp g ?gs)) = length (filter (\<lambda>(k, _). k \<noteq> overflowFingerprint) ?gs)"
      by (subst filter_update_length [OF d]) simp
    with ok show ?thesis
      by (simp add: col_ok_def)
  qed
  have exact: "case map_of (AList.update fp g ?gs) k of
       Some g' \<Rightarrow> eg_Count g' = int (count_list (fps @ [?f]) k)
     | None \<Rightarrow> k \<in> set (fps @ [?f]) \<longrightarrow> col_maxSize c \<le> int (length (AList.update fp g ?gs))"
    if k: "k \<noteq> overflowFingerprint" for k
  proof -
    have old: "case map_of ?gs k of Some g \<Rightarrow> eg_Count g = int (count_list fps k)
         | None \<Rightarrow> k \<in> set fps \<longrightarrow> col_maxSize c \<le> int (length ?gs)"
      using ok k by (simp add: col_ok_def)
    have len: "int (length ?gs) \<le> int (length (AList.update fp g ?gs))"
      by (simp add: update_length)
    consider "k = fp" | "k \<noteq> fp" "k \<noteq> ?f" | "k \<noteq> fp" "k = ?f"
      by blast
    then show ?thesis
    proof cases
      case 1
      then have "k = ?f" "map_of ?gs ?f = None \<Longrightarrow> \<not> col_maxSize c \<le> int (length ?gs)"
        using fp k by (auto split: if_splits)
      with 1 old g show ?thesis
        by (auto simp: update_conv' split: option.splits)
    next
      case 2
      with old len show ?thesis
        by (auto simp: update_conv' split: option.splits)
    next
      case 3
      with fp have "map_of ?gs k = None" "col_maxSize c \<le> int (length ?gs)"
        by (auto split: if_splits)
      with 3 len show ?thesis
        by (simp add: update_conv')
    qed
  qed
  have total: "total_count (AList.update fp g ?gs) = int (length (fps @ [?f]))"
    using ok g total_update [OF d, of fp g] by (simp add: col_ok_def)
  have upd: "distinct (map fst (AList.update fp g ?gs))" and tot: "col_total c + 1 = int (length (fps @ [?f]))"
    using d ok by (simp_all add: distinct_update col_ok_def)
  let ?c = "addError rx now knd raw src dst msg c"
  have sel: "col_groups ?c = AList.update fp g ?gs" "col_total ?c = col_total c + 1" "col_maxSize ?c = col_maxSize c"
    "col_order ?c = (if map_of ?gs fp = None then col_order c @ [fp] else col_order c)"
    by (simp_all add: add)
  show ?thesis
    unfolding col_ok_def sel
    by (intro conjI allI impI)
      (rule upd order [THEN conjunct1] order [THEN conjunct2] tot total size | erule exact)+
qed

section \<open>Properties\<close>

type_synonym failure = "time \<times> string \<times> string \<times> string \<times> string \<times> string"

definition addFailure :: "regexps \<Rightarrow> failure \<Rightarrow> errorCollector \<Rightarrow> errorCollector" where
  "addFailure rx = (\<lambda>(now, knd, raw, src, dst, msg). addError rx now knd raw src dst msg)"

definition failureFP :: "regexps \<Rightarrow> failure \<Rightarrow> string" where
  "failureFP rx = (\<lambda>(now, knd, raw, src, dst, msg). addFP rx (knd, msg))"

lemma failures_ok:
  "col_ok c fps \<Longrightarrow> col_ok (fold (addFailure rx) fs c) (fps @ map (failureFP rx) fs)"
proof (induction fs arbitrary: c fps)
  case (Cons f fs)
  have "col_ok (addFailure rx f c) (fps @ [failureFP rx f])"
    using addError_ok [OF Cons.prems] by (simp add: addFailure_def failureFP_def split: prod.split)
  from Cons.IH [OF this] show ?case
    by simp
qed simp

lemma new_collector_ok: "col_ok (newErrorCollector n) []"
  by (simp add: col_ok_def newErrorCollector_def total_count_def defaultMaxErrorGroups_def)

lemma addFailure_maxSize: "col_maxSize (fold (addFailure rx) fs c) = col_maxSize c"
proof (induction fs arbitrary: c)
  case (Cons f fs)
  have "col_maxSize (addFailure rx f c) = col_maxSize c"
    by (cases f) (simp add: addFailure_def addError_def Let_def split: prod.split option.split)
  with Cons show ?case
    by simp
qed simp

lemma map_filter_keys:
  "distinct ks \<Longrightarrow> set ks \<subseteq> dom m \<Longrightarrow> List.map_filter m ks = map (\<lambda>k. the (m k)) ks"
  by (induction ks) (auto simp: List.map_filter_simps)

lemma sum_over_order:
  assumes "distinct (map fst gs)" "distinct ks" "set ks = fst ` set gs"
  shows "(\<Sum>k \<leftarrow> ks. eg_Count (the (map_of gs k))) = total_count gs"
proof -
  have "(\<Sum>k \<leftarrow> ks. eg_Count (the (map_of gs k))) = (\<Sum>k \<leftarrow> map fst gs. eg_Count (the (map_of gs k)))"
    using assms by (simp add: sum.distinct_set_conv_list [symmetric] del: map_map)
  also have "\<dots> = (\<Sum>p \<leftarrow> gs. eg_Count (snd p))"
    using assms(1) by (auto simp: comp_def intro!: arg_cong [where f = sum_list] map_cong)
  finally show ?thesis
    by (simp add: total_count_def case_prod_unfold)
qed

lemma errorGroups_sum: "col_ok c fps \<Longrightarrow> (\<Sum>g \<leftarrow> errorGroups c. eg_Count g) = int (length fps)"
proof -
  assume ok: "col_ok c fps"
  let ?m = "map_of (col_groups c)"
  have dom: "set (col_order c) \<subseteq> dom ?m"
    using ok by (simp add: col_ok_def dom_map_of_conv_image_fst)
  have "(\<Sum>g \<leftarrow> errorGroups c. eg_Count g) = (\<Sum>g \<leftarrow> List.map_filter ?m (col_order c). eg_Count g)"
    unfolding errorGroups_def sum_mset_sum_list [symmetric] mset_map mset_sort ..
  also have "\<dots> = (\<Sum>k \<leftarrow> col_order c. eg_Count (the (?m k)))"
    using ok dom by (simp add: map_filter_keys col_ok_def comp_def)
  finally show ?thesis
    using ok sum_over_order [of "col_groups c" "col_order c"] by (simp add: col_ok_def)
qed

lemma errorGroups_length: "col_ok c fps \<Longrightarrow> length (errorGroups c) = length (col_groups c)"
proof -
  assume ok: "col_ok c fps"
  then have "length (List.map_filter (map_of (col_groups c)) (col_order c)) = length (col_order c)"
    by (simp add: map_filter_keys col_ok_def dom_map_of_conv_image_fst)
  moreover have "length (col_order c) = card (set (map fst (col_groups c)))"
    using ok by (simp add: col_ok_def distinct_card [symmetric])
  moreover have "card (set (map fst (col_groups c))) = length (map fst (col_groups c))"
    using ok by (intro distinct_card) (simp add: col_ok_def)
  ultimately show ?thesis
    by (simp add: errorGroups_def)
qed

lemma groups_bounded:
  assumes "distinct (map fst gs)" "int (length (filter (\<lambda>(fp, _). fp \<noteq> overflowFingerprint) gs)) \<le> m"
  shows "int (length gs) \<le> m + 1"
proof -
  have "length (filter (\<lambda>(fp, _). fp = overflowFingerprint) gs) \<le> 1"
    using assms(1) by (induction gs) (force simp: filter_empty_conv)+
  moreover have "length gs = length (filter (\<lambda>(fp, _). fp \<noteq> overflowFingerprint) gs) + length (filter (\<lambda>(fp, _). fp = overflowFingerprint) gs)"
    by (induction gs) auto
  ultimately show ?thesis
    using assms(2) by linarith
qed

text \<open>
  The report of decode failures is bounded and complete: after any sequence of failures
  the groups are at most one more than the limit, listed by falling count, their counts add up
  to the number of failures, and the group of a fingerprint counts exactly the failures with
  that fingerprint.
\<close>

theorem error_report_exact:
  defines "col rx n fs \<equiv> fold (addFailure rx) fs (newErrorCollector n)"
  shows "int (length (errorGroups (col rx n fs))) \<le> (if 0 < n then n else 32) + 1 \<and>
     sorted (map (\<lambda>g. - eg_Count g) (errorGroups (col rx n fs))) \<and>
     (\<Sum>g \<leftarrow> errorGroups (col rx n fs). eg_Count g) = int (length fs) \<and> col_total (col rx n fs) = int (length fs) \<and>
     (map_of (col_groups (col rx n fs)) fp = Some g \<longrightarrow> fp = overflowFingerprint \<or>
        eg_Count g = int (count_list (map (failureFP rx) fs) fp))"
proof -
  have ok: "col_ok (col rx n fs) (map (failureFP rx) fs)"
    using failures_ok [OF new_collector_ok, of rx fs n] by (simp add: col_def)
  have "col_maxSize (col rx n fs) = (if 0 < n then n else 32)"
    by (simp add: col_def addFailure_maxSize newErrorCollector_def defaultMaxErrorGroups_def)
  with groups_bounded [of "col_groups (col rx n fs)" "col_maxSize (col rx n fs)"] ok
  have bound: "int (length (errorGroups (col rx n fs))) \<le> (if 0 < n then n else 32) + 1"
    unfolding errorGroups_length [OF ok] col_ok_def by simp
  have sorted: "sorted (map (\<lambda>g. - eg_Count g) (errorGroups (col rx n fs)))"
    unfolding errorGroups_def by (rule sorted_sort_key)
  have sum: "(\<Sum>g \<leftarrow> errorGroups (col rx n fs). eg_Count g) = int (length fs)"
    using errorGroups_sum [OF ok] by simp
  have total: "col_total (col rx n fs) = int (length fs)"
    using ok by (simp add: col_ok_def)
  have each: "\<forall>fp. fp \<noteq> overflowFingerprint \<longrightarrow> (case map_of (col_groups (col rx n fs)) fp of
      Some g \<Rightarrow> eg_Count g = int (count_list (map (failureFP rx) fs) fp)
    | None \<Rightarrow> fp \<in> set (map (failureFP rx) fs) \<longrightarrow> col_maxSize (col rx n fs) \<le> int (length (col_groups (col rx n fs))))"
    using ok unfolding col_ok_def by (elim conjE)
  have "eg_Count g = int (count_list (map (failureFP rx) fs) fp)"
    if "fp \<noteq> overflowFingerprint" "map_of (col_groups (col rx n fs)) fp = Some g"
    using each [THEN spec, THEN mp, OF that(1)] unfolding that(2) option.case .
  then have "map_of (col_groups (col rx n fs)) fp = Some g \<longrightarrow> fp = overflowFingerprint \<or>
      eg_Count g = int (count_list (map (failureFP rx) fs) fp)"
    by satx
  with bound sorted sum total show ?thesis
    by (intro conjI)
qed

text \<open>A concrete run: three failures of two kinds and room for one group.\<close>

definition demoRegexps :: regexps where
  "demoRegexps =
     \<lparr>reUUID = (\<lambda>s _. s), reAddr = (\<lambda>s _. s), reHex = (\<lambda>s _. s), reNum = (\<lambda>s r. concat (map (\<lambda>c. if c \<in> set ''0123456789'' then r else [c]) s)),
      reWS = (\<lambda>s _. s), sha256 = (\<lambda>s. map (\<lambda>c. of_char c) s)\<rparr>"

definition demoFailures :: "failure list" where
  "demoFailures = [(1, ''plugin'', ''p1'', ''a'', ''b'', ''bad 1''), (2, ''plugin'', ''p2'', ''a'', ''b'', ''bad 2''),
     (3, ''transport'', ''p3'', ''a'', ''b'', ''closed'')]"

theorem error_report_exact_witness:
  "\<exists>g. map_of (col_groups (fold (addFailure demoRegexps) demoFailures (newErrorCollector 1))) (failureFP demoRegexps (demoFailures ! 0)) = Some g \<and>
     eg_Count g = 2"
proof -
  let ?fp = "failureFP demoRegexps (demoFailures ! 0)"
  have "\<not> Option.is_none (map_of (col_groups (fold (addFailure demoRegexps) demoFailures (newErrorCollector 1))) ?fp)"
    "?fp \<noteq> overflowFingerprint" "count_list (map (failureFP demoRegexps) demoFailures) ?fp = 2"
    by code_simp+
  moreover from this(1) obtain g where "map_of (col_groups (fold (addFailure demoRegexps) demoFailures (newErrorCollector 1))) ?fp = Some g"
    by (auto simp: Option.is_none_def)
  ultimately show ?thesis
    using error_report_exact [where rx = demoRegexps and n = 1 and fs = demoFailures and fp = ?fp and g = g] by auto
qed

end
