(* ===== verification/Dispatcher.thy ===== *)
theory Dispatcher
  imports Error_Collector Conn_Tracker
begin

text \<open>
  The decode dispatcher, \<open>pkg/decode/dispatcher.go\<close> and \<open>fields.go\<close>: requests to a decoder
  plugin over one stream, many in flight, with a future for each, and the conversion of the
  results into events.

  The identifiers \<open>NewEventID\<close> returns, the outcome of \<open>Send\<close> and what \<open>Recv\<close> delivers are
  arguments; the MsgPack decoder is a parameter, as in \<open>Event_Value\<close>. Futures are references
  into a list. Closing a closed channel panics in Go, and so does resolving a future twice here.
\<close>

section \<open>Flows and directions\<close>

definition fnvOffset :: u64 where "fnvOffset = 14695981039346656037"
definition fnvPrime :: u64 where "fnvPrime = 1099511628211"

text \<open>\<open>hash/fnv\<close>, FNV-1a of 64 bits.\<close>

definition fnv64a :: "string \<Rightarrow> u64" where
  "fnv64a s = fold (\<lambda>c h. xor h (of_char c) * fnvPrime) s fnvOffset"

definition flowIDFromEndpoints :: "string \<Rightarrow> string \<Rightarrow> string \<Rightarrow> u64" where
  "flowIDFromEndpoints src dst protocol =
     (let (a, b) = (if dst < src then (dst, src) else (src, dst))
      in fnv64a (a @ [CHR 0x00] @ b @ [CHR 0x00] @ protocol))"

definition inferDirection :: "u16 \<Rightarrow> u16 \<Rightarrow> int \<Rightarrow> string" where
  "inferDirection srcPort dstPort serverPort =
     (let sp = (word_of_int serverPort :: u16) in
      if 0 < serverPort \<and> dstPort = sp \<and> srcPort \<noteq> sp then ''client_to_server''
      else if 0 < serverPort \<and> srcPort = sp \<and> dstPort \<noteq> sp then ''server_to_client''
      else if dstPort < 1024 \<and> 1024 \<le> srcPort then ''client_to_server''
      else if srcPort < 1024 \<and> 1024 \<le> dstPort then ''server_to_client''
      else ''unknown'')"

definition peerKeyFromPacket :: "(byte list \<Rightarrow> string) \<Rightarrow> (addr_port \<Rightarrow> string) \<Rightarrow> packet \<Rightarrow> int \<Rightarrow> string" where
  "peerKeyFromPacket addrStr apStr pkt serverPort =
     (let dir = inferDirection (ap_port (pk_Src pkt)) (ap_port (pk_Dst pkt)) serverPort in
      if dir = ''client_to_server'' then addrStr (ap_addr (pk_Src pkt)) @ ''|'' @ apStr (pk_Dst pkt)
      else if dir = ''server_to_client'' then addrStr (ap_addr (pk_Dst pkt)) @ ''|'' @ apStr (pk_Src pkt)
      else '''')"

definition directionIn :: "vval \<Rightarrow> string option" where
  "directionIn v =
     (case asObject v of
        None \<Rightarrow> None
      | Some obj \<Rightarrow> (case map_of obj ''direction'' of None \<Rightarrow> None | Some d \<Rightarrow> asString d))"

definition extractDirectionOverride :: "vval \<Rightarrow> vval \<Rightarrow> string option" where
  "extractDirectionOverride meta payload =
     (case directionIn meta of
        Some s \<Rightarrow> Some s
      | None \<Rightarrow>
          (case asObject payload of
             None \<Rightarrow> None
           | Some obj \<Rightarrow> (case map_of obj ''_meta'' of None \<Rightarrow> None | Some m \<Rightarrow> directionIn m)))"

section \<open>The index of main events\<close>

record causationIndex =
  cx_entries :: "(string \<times> eventID) list"
  cx_order :: "string list"
  cx_limit :: int

definition newCausationIndex :: "int \<Rightarrow> causationIndex" where
  "newCausationIndex limit = \<lparr>cx_entries = [], cx_order = [], cx_limit = limit\<rparr>"

definition causationGet :: "string \<Rightarrow> causationIndex \<Rightarrow> eventID option" where
  "causationGet inputID c = map_of (cx_entries c) inputID"

function trimIndex :: "causationIndex \<Rightarrow> causationIndex" where
  "trimIndex c =
     (if cx_order c \<noteq> [] \<and> cx_limit c < int (length (cx_order c)) then
        trimIndex (c\<lparr>cx_order := tl (cx_order c), cx_entries := AList.delete (hd (cx_order c)) (cx_entries c)\<rparr>)
      else c)"
  by auto
termination by (relation "measure (length \<circ> cx_order)") auto

declare trimIndex.simps [simp del]

definition causationPut :: "string \<Rightarrow> eventID \<Rightarrow> causationIndex \<Rightarrow> causationIndex" where
  "causationPut inputID eid c =
     (if map_of (cx_entries c) inputID \<noteq> None then c
      else trimIndex (c\<lparr>cx_entries := AList.update inputID eid (cx_entries c), cx_order := cx_order c @ [inputID]\<rparr>))"

section \<open>Requests, results and events\<close>

record decodeRequest =
  dr_SessionId :: string
  dr_ProtocolHint :: string
  dr_Payload :: "byte list"
  dr_LinkType :: int
  dr_InputId :: string
  dr_PacketId :: string
  dr_FlowId :: string
  dr_Src :: string
  dr_Dst :: string
  dr_Direction :: string
  dr_TimestampNs :: time

record decodeResponse =
  rs_InputId :: string
  rs_Done :: bool
  rs_EventType :: string
  rs_PayloadMsgpack :: "byte list"
  rs_Error :: string
  rs_CorrelationKey :: string
  rs_CausationInputId :: string
  rs_MetaMsgpack :: "byte list"
  rs_AnalysisMsgpack :: "byte list"

text \<open>What the code calls from outside: regular expressions, MsgPack, the text of addresses and errors.\<close>

record decode_env =
  de_rx :: regexps
  de_dec :: "byte list \<Rightarrow> msgpackValue option"
  de_errText :: "conv_error \<Rightarrow> string"
  de_addrStr :: "byte list \<Rightarrow> string"
  de_apStr :: "addr_port \<Rightarrow> string"

record convState =
  cv_causation :: causationIndex
  cv_errs :: errorCollector
  cv_events :: "event list"

text \<open>The optional parts of a result: absent or undecodable ones are null.\<close>

definition optionalValue :: "decode_env \<Rightarrow> byte list \<Rightarrow> conv_error option \<times> vval" where
  "optionalValue env bytes =
     (if bytes = [] then (None, VNull)
      else (case unmarshalValueMsgpack (de_dec env) bytes of Inr v \<Rightarrow> (None, v) | Inl e \<Rightarrow> (Some e, VNull)))"

definition pluginError :: "decode_env \<Rightarrow> time \<Rightarrow> decodeRequest \<Rightarrow> string \<Rightarrow> convState \<Rightarrow> convState" where
  "pluginError env now req msg st =
     st\<lparr>cv_errs := addError (de_rx env) now ''plugin'' (dr_PacketId req) (dr_Src req) (dr_Dst req) msg (cv_errs st)\<rparr>"

text \<open>The event of a result whose payload is decoded; \<open>i\<close> is the position of the result, \<open>eid\<close> its new identifier.\<close>

definition resultEvent ::
  "string \<Rightarrow> decodeRequest \<Rightarrow> string \<Rightarrow> string \<Rightarrow> string \<Rightarrow> causationIndex \<Rightarrow> nat \<Rightarrow> eventID \<Rightarrow> decodeResponse \<Rightarrow>
   vval \<Rightarrow> vval \<Rightarrow> vval \<Rightarrow> event"
where
  "resultEvent sessionID req connID source peerKey idx i eid r payload meta analysis =
     (let ctx = \<lparr>ec_FlowID = dr_FlowId req, ec_RawPacketID = dr_PacketId req, ec_MessageOrdinal = of_nat i,
                 ec_Direction = (case extractDirectionOverride meta payload of Some d \<Rightarrow> d | None \<Rightarrow> dr_Direction req),
                 ec_ConnID = connID, ec_Source = source, ec_PeerKey = peerKey\<rparr>;
          ev = \<lparr>ev_Identity = \<lparr>id_ID = eid, id_SessionID = sessionID, id_Type = rs_EventType r,
                   id_Source = dr_ProtocolHint req, id_Timestamp = dr_TimestampNs req, id_ScenarioID = '''', id_ReplayID = ''''\<rparr>,
                ev_Trace = emptyTrace, ev_Context = ctx, ev_Payload = payload, ev_Meta = VNull, ev_Analysis = VNull\<rparr>;
          ev = withAnalysis analysis (withMeta meta ev);
          ev = (if rs_CorrelationKey r \<noteq> '''' then withCorrelation (rs_CorrelationKey r) ev else ev)
      in
      if rs_CausationInputId r \<noteq> '''' then
        (case causationGet (rs_CausationInputId r) idx of Some c \<Rightarrow> withCausation c ev | None \<Rightarrow> ev)
      else ev)"

definition convertOne ::
  "decode_env \<Rightarrow> (nat \<Rightarrow> eventID) \<Rightarrow> time \<Rightarrow> string \<Rightarrow> decodeRequest \<Rightarrow> string \<Rightarrow> string \<Rightarrow> string \<Rightarrow>
   nat \<times> decodeResponse \<Rightarrow> convState \<Rightarrow> convState"
where
  "convertOne env newID now sessionID req connID source peerKey = (\<lambda>(i, r) st.
     (if rs_Error r \<noteq> '''' then pluginError env now req (rs_Error r) st
      else
        (case unmarshalValueMsgpack (de_dec env) (rs_PayloadMsgpack r) of
           Inl e \<Rightarrow> pluginError env now req (''unmarshal msgpack payload: '' @ de_errText env e) st
         | Inr payload \<Rightarrow>
             (case (optionalValue env (rs_MetaMsgpack r), optionalValue env (rs_AnalysisMsgpack r)) of
                ((_, meta), (aerr, analysis)) \<Rightarrow>
                  (let st = (case aerr of
                               None \<Rightarrow> st
                             | Some e \<Rightarrow> pluginError env now req (''unmarshal msgpack analysis: '' @ de_errText env e) st);
                       (payload, meta, analysis) =
                         (if isNull meta \<and> isNull analysis then splitReservedKeys payload else (payload, meta, analysis));
                       ev = resultEvent sessionID req connID source peerKey (cv_causation st) i (newID i) r payload meta analysis;
                       st = (if i = 0 then st\<lparr>cv_causation := causationPut (dr_InputId req) (newID i) (cv_causation st)\<rparr> else st)
                   in st\<lparr>cv_events := cv_events st @ [ev]\<rparr>)))))"

definition convertResultsToEvents ::
  "decode_env \<Rightarrow> (nat \<Rightarrow> eventID) \<Rightarrow> time \<Rightarrow> string \<Rightarrow> decodeRequest \<Rightarrow> decodeResponse list \<Rightarrow> string \<Rightarrow> string \<Rightarrow> string \<Rightarrow>
   causationIndex \<times> errorCollector \<Rightarrow> convState"
where
  "convertResultsToEvents env newID now sessionID req results connID source peerKey = (\<lambda>(idx, errs).
     fold (convertOne env newID now sessionID req connID source peerKey) (List.enumerate 0 results)
       \<lparr>cv_causation = idx, cv_errs = errs, cv_events = []\<rparr>)"

section \<open>The dispatcher\<close>

datatype decode_error = ErrDispatcherClosed | ErrSend | ErrReceive

type_synonym futref = nat
type_synonym decode_result = "decode_error + event list"

record future =
  fu_packetID :: string
  fu_src :: string
  fu_dst :: string
  fu_result :: "decode_result option"

record pendingInput =
  pi_req :: decodeRequest
  pi_connID :: string
  pi_source :: string
  pi_peerKey :: string
  pi_results :: "decodeResponse list"
  pi_future :: futref

record dispatcher =
  dp_sessionID :: string
  dp_closed :: bool
  dp_streamDone :: bool
  dp_pending :: "(string \<times> pendingInput) list"
  dp_causation :: causationIndex
  dp_serverPort :: int
  dp_errs :: errorCollector
  dp_futures :: "future list"

definition newDispatcher :: "string \<Rightarrow> int \<Rightarrow> errorCollector \<Rightarrow> dispatcher" where
  "newDispatcher sessionID serverPort errs =
     \<lparr>dp_sessionID = sessionID, dp_closed = False, dp_streamDone = False, dp_pending = [],
      dp_causation = newCausationIndex 1024, dp_serverPort = serverPort, dp_errs = errs, dp_futures = []\<rparr>"

definition isHealthy :: "dispatcher \<Rightarrow> bool" where
  "isHealthy d \<longleftrightarrow> \<not> dp_streamDone d"

definition decodeRequestFor :: "decode_env \<Rightarrow> dispatcher \<Rightarrow> string \<Rightarrow> packet \<Rightarrow> decodeRequest" where
  "decodeRequestFor env d inputID pkt =
     \<lparr>dr_SessionId = dp_sessionID d, dr_ProtocolHint = pk_Protocol pkt, dr_Payload = pk_Raw pkt, dr_LinkType = pk_LinkType pkt,
      dr_InputId = inputID, dr_PacketId = (if pk_ID pkt = '''' then inputID else pk_ID pkt),
      dr_FlowId = show_nat (unat (flowIDFromEndpoints (de_apStr env (pk_Src pkt)) (de_apStr env (pk_Dst pkt)) (pk_Protocol pkt))),
      dr_Src = de_apStr env (pk_Src pkt), dr_Dst = de_apStr env (pk_Dst pkt),
      dr_Direction = inferDirection (ap_port (pk_Src pkt)) (ap_port (pk_Dst pkt)) (dp_serverPort d),
      dr_TimestampNs = pk_Timestamp pkt\<rparr>"

definition submit ::
  "decode_env \<Rightarrow> string \<Rightarrow> bool \<Rightarrow> packet \<Rightarrow> dispatcher \<Rightarrow> dispatcher \<times> (decode_error + futref)"
where
  "submit env inputID sendOk pkt d =
     (let req = decodeRequestFor env d inputID pkt;
          f = \<lparr>fu_packetID = dr_PacketId req, fu_src = dr_Src req, fu_dst = dr_Dst req, fu_result = None\<rparr>;
          p = \<lparr>pi_req = req, pi_connID = metaString ''conn_id'' pkt, pi_source = metaString ''source'' pkt,
               pi_peerKey = peerKeyFromPacket (de_addrStr env) (de_apStr env) pkt (dp_serverPort d), pi_results = [],
               pi_future = length (dp_futures d)\<rparr>
      in
      if dp_closed d then (d, Inl ErrDispatcherClosed)
      else if \<not> sendOk then (d, Inl ErrSend)
      else (d\<lparr>dp_futures := dp_futures d @ [f], dp_pending := AList.update inputID p (dp_pending d)\<rparr>,
            Inr (length (dp_futures d))))"

text \<open>The critical section of \<open>recvLoop\<close>: the input that is complete with this response leaves the table.\<close>

definition receive :: "decodeResponse \<Rightarrow> dispatcher \<Rightarrow> dispatcher \<times> pendingInput option" where
  "receive resp d =
     (if rs_InputId resp = '''' then (d, None)
      else
        (case map_of (dp_pending d) (rs_InputId resp) of
           None \<Rightarrow> (d, None)
         | Some p \<Rightarrow>
             if rs_Done resp then (d\<lparr>dp_pending := AList.delete (rs_InputId resp) (dp_pending d)\<rparr>, Some p)
             else (d\<lparr>dp_pending := AList.update (rs_InputId resp) (p\<lparr>pi_results := pi_results p @ [resp]\<rparr>) (dp_pending d)\<rparr>, None)))"

text \<open>The conversion that follows for a complete input, with its effect on index and collector.\<close>

definition finish :: "decode_env \<Rightarrow> (nat \<Rightarrow> eventID) \<Rightarrow> time \<Rightarrow> pendingInput \<Rightarrow> dispatcher \<Rightarrow> dispatcher \<times> event list" where
  "finish env newID now p d =
     (let cv = convertResultsToEvents env newID now (dp_sessionID d) (pi_req p) (pi_results p) (pi_connID p) (pi_source p)
                 (pi_peerKey p) (dp_causation d, dp_errs d)
      in (d\<lparr>dp_causation := cv_causation cv, dp_errs := cv_errs cv\<rparr>, cv_events cv))"

definition resolve :: "futref \<Rightarrow> decode_result \<Rightarrow> dispatcher \<Rightarrow> dispatcher go_ret" where
  "resolve f res d =
     (if fu_result (dp_futures d ! f) \<noteq> None then Panic
      else Ret (d\<lparr>dp_futures := (dp_futures d)[f := (dp_futures d ! f)\<lparr>fu_result := Some res\<rparr>]\<rparr>))"

definition failAllPending :: "dispatcher \<Rightarrow> dispatcher \<times> (futref \<times> decode_result) list" where
  "failAllPending d = (d\<lparr>dp_pending := []\<rparr>, map (\<lambda>(_, p). (pi_future p, Inl ErrReceive)) (dp_pending d))"

definition closeDispatcher :: "dispatcher \<Rightarrow> dispatcher \<times> (futref \<times> decode_result) list" where
  "closeDispatcher d =
     (if dp_closed d then (d, [])
      else (d\<lparr>dp_closed := True, dp_pending := []\<rparr>, map (\<lambda>(_, p). (pi_future p, Inl ErrDispatcherClosed)) (dp_pending d)))"

section \<open>Executions\<close>

text \<open>
  The goroutines of a dispatcher, interleaved at their critical sections: a state and the calls
  of \<open>resolve\<close> that some goroutine still has to make. Identifiers of inputs are fresh.
\<close>

inductive dispatch :: "decode_env \<Rightarrow> dispatcher \<Rightarrow> (futref \<times> decode_result) list \<Rightarrow> bool" for env where
  start: "dispatch env (newDispatcher s port errs) []"
| submitted: "dispatch env d due \<Longrightarrow> inputID \<notin> fst ` set (dp_pending d) \<Longrightarrow>
    dispatch env (fst (submit env inputID sendOk pkt d)) due"
| collected: "dispatch env d due \<Longrightarrow> \<not> dp_streamDone d \<Longrightarrow> receive resp d = (d', None) \<Longrightarrow> dispatch env d' due"
| completed: "dispatch env d due \<Longrightarrow> \<not> dp_streamDone d \<Longrightarrow> receive resp d = (d', Some p) \<Longrightarrow>
    finish env newID now p d' = (d'', evs) \<Longrightarrow> dispatch env d'' ((pi_future p, Inr evs) # due)"
| failed: "dispatch env d due \<Longrightarrow> failAllPending d = (d', res) \<Longrightarrow> dispatch env (d'\<lparr>dp_streamDone := True\<rparr>) (res @ due)"
| closed: "dispatch env d due \<Longrightarrow> closeDispatcher d = (d', res) \<Longrightarrow> dispatch env d' (res @ due)"
| resolved: "dispatch env d (xs @ (f, res) # ys) \<Longrightarrow> resolve f res d = Ret d' \<Longrightarrow> dispatch env d' (xs @ ys)"

section \<open>Every future is resolved once\<close>

definition awaited :: "dispatcher \<Rightarrow> (futref \<times> decode_result) list \<Rightarrow> futref list" where
  "awaited d due = map (\<lambda>(_, p). pi_future p) (dp_pending d) @ map fst due"

definition unresolved :: "dispatcher \<Rightarrow> futref set" where
  "unresolved d = {f. f < length (dp_futures d) \<and> fu_result (dp_futures d ! f) = None}"

definition disp_ok :: "dispatcher \<Rightarrow> (futref \<times> decode_result) list \<Rightarrow> bool" where
  "disp_ok d due \<longleftrightarrow>
     distinct (map fst (dp_pending d)) \<and> distinct (awaited d due) \<and> set (awaited d due) = unresolved d \<and>
     (dp_closed d \<longrightarrow> dp_pending d = [])"


lemma update_same_image:
  assumes "map_of xs k = Some v" "f v' = f v" "distinct (map fst xs)"
  shows "map (\<lambda>(_, x). f x) (AList.update k v' xs) = map (\<lambda>(_, x). f x) xs"
  using assms by (induction xs) (auto split: if_splits)

lemma delete_image:
  assumes "map_of xs k = Some v" "distinct (map fst xs)" "distinct (map (\<lambda>(_, x). f x) xs @ ys)"
  shows "distinct (map (\<lambda>(_, x). f x) (AList.delete k xs) @ f v # ys) \<and>
     set (map (\<lambda>(_, x). f x) (AList.delete k xs) @ f v # ys) = set (map (\<lambda>(_, x). f x) xs @ ys)"
  using assms
proof (induction xs)
  case (Cons x xs)
  show ?case
  proof (cases "fst x = k")
    case True
    with Cons.prems have "AList.delete k (x # xs) = xs" "snd x = v"
      by (cases x; force simp: AList.delete_eq filter_id_conv)+
    with Cons.prems(3) show ?thesis
      by (auto simp: case_prod_unfold)
  next
    case False
    with Cons.prems have "map_of xs k = Some v" "distinct (map fst xs)" "distinct (map (\<lambda>(_, x). f x) xs @ ys)"
      by (auto simp: case_prod_unfold)
    with Cons.IH Cons.prems(3) False show ?thesis
      by (auto simp: case_prod_unfold dest: map_of_SomeD)
  qed
qed simp

lemma disp_ok_start: "disp_ok (newDispatcher s port errs) []"
  by (simp add: disp_ok_def newDispatcher_def awaited_def unresolved_def)

lemma disp_ok_submit:
  assumes ok: "disp_ok d due" and new: "inputID \<notin> fst ` set (dp_pending d)"
  shows "disp_ok (fst (submit env inputID sendOk pkt d)) due"
proof (cases "dp_closed d \<or> \<not> sendOk")
  case True
  with ok show ?thesis
    by (auto simp: submit_def Let_def)
next
  case False
  let ?d = "fst (submit env inputID sendOk pkt d)" and ?n = "length (dp_futures d)"
  let ?req = "decodeRequestFor env d inputID pkt"
  define f where "f = \<lparr>fu_packetID = dr_PacketId ?req, fu_src = dr_Src ?req, fu_dst = dr_Dst ?req, fu_result = None\<rparr>"
  define p where "p = \<lparr>pi_req = ?req, pi_connID = metaString ''conn_id'' pkt, pi_source = metaString ''source'' pkt,
    pi_peerKey = peerKeyFromPacket (de_addrStr env) (de_apStr env) pkt (dp_serverPort d), pi_results = [], pi_future = ?n\<rparr>"
  have d: "?d = d\<lparr>dp_futures := dp_futures d @ [f], dp_pending := dp_pending d @ [(inputID, p)]\<rparr>"
    and f: "fu_result f = None" "pi_future p = ?n"
    using False new by (simp_all add: submit_def Let_def update_new f_def p_def)
  have u: "unresolved ?d = insert ?n (unresolved d)"
    using f(1) by (auto simp: unresolved_def d nth_append less_Suc_eq)
  have n: "?n \<notin> set (awaited d due)"
    using ok by (simp add: disp_ok_def) (simp add: unresolved_def)
  have "distinct (awaited ?d due)" "set (awaited ?d due) = insert ?n (set (awaited d due))"
    using ok n f(2) by (auto simp: disp_ok_def awaited_def d)
  moreover have "distinct (map fst (dp_pending ?d))" "\<not> dp_closed ?d"
    unfolding d using ok new False by (simp_all add: disp_ok_def)
  ultimately show ?thesis
    using ok u by (simp add: disp_ok_def)
qed

lemma disp_ok_collected:
  assumes ok: "disp_ok d due" and "receive resp d = (d', None)"
  shows "disp_ok d' due"
proof (cases "d' = d")
  case False
  with assms(2) obtain p where p: "map_of (dp_pending d) (rs_InputId resp) = Some p"
    and d': "d' = d\<lparr>dp_pending := AList.update (rs_InputId resp) (p\<lparr>pi_results := pi_results p @ [resp]\<rparr>) (dp_pending d)\<rparr>"
    by (auto simp: receive_def split: if_splits option.splits)
  have "awaited d' due = awaited d due"
    using ok update_same_image [OF p, of pi_future "p\<lparr>pi_results := pi_results p @ [resp]\<rparr>"]
    by (simp add: awaited_def d' disp_ok_def)
  moreover have "unresolved d' = unresolved d"
    by (simp add: unresolved_def d')
  moreover have "dp_pending d \<noteq> []"
    using p by auto
  ultimately show ?thesis
    using ok by (auto simp: disp_ok_def d' distinct_update)
qed (use ok in simp)

lemma disp_ok_completed:
  assumes ok: "disp_ok d due" and r: "receive resp d = (d', Some p)" and f: "finish env newID now p d' = (d'', evs)"
  shows "disp_ok d'' ((pi_future p, Inr evs) # due)"
proof -
  from r have p: "map_of (dp_pending d) (rs_InputId resp) = Some p"
    and d': "d' = d\<lparr>dp_pending := AList.delete (rs_InputId resp) (dp_pending d)\<rparr>"
    by (auto simp: receive_def split: if_splits option.splits)
  have d'': "dp_pending d'' = AList.delete (rs_InputId resp) (dp_pending d)" "dp_closed d'' = dp_closed d" "dp_futures d'' = dp_futures d"
    using f d' by (auto simp: finish_def Let_def)
  have "distinct (awaited d'' ((pi_future p, Inr evs) # due)) \<and>
      set (awaited d'' ((pi_future p, Inr evs) # due)) = set (awaited d due)"
    using delete_image [OF p, of pi_future "map fst due"] ok by (simp add: awaited_def d'' disp_ok_def)
  moreover have "unresolved d'' = unresolved d"
    by (simp add: unresolved_def d'')
  ultimately show ?thesis
    using ok by (simp add: disp_ok_def d'' distinct_delete)
qed

lemma disp_ok_drained:
  assumes "disp_ok d due" "dp_pending d' = []" "dp_futures d' = dp_futures d"
  shows "disp_ok d' (map (\<lambda>(_, p). (pi_future p, res)) (dp_pending d) @ due)"
  using assms by (simp add: disp_ok_def awaited_def unresolved_def case_prod_unfold comp_def)

lemma disp_ok_resolved:
  assumes ok: "disp_ok d (xs @ (f, res) # ys)"
  shows "\<exists>d'. resolve f res d = Ret d' \<and> disp_ok d' (xs @ ys)"
proof -
  let ?d = "d\<lparr>dp_futures := (dp_futures d)[f := (dp_futures d ! f)\<lparr>fu_result := Some res\<rparr>]\<rparr>"
  have f: "f < length (dp_futures d)" "fu_result (dp_futures d ! f) = None"
    using ok by (auto simp: disp_ok_def awaited_def unresolved_def)
  then have "resolve f res d = Ret ?d"
    by (simp add: resolve_def)
  moreover have "unresolved ?d = unresolved d - {f}"
    using f by (auto simp: unresolved_def nth_list_update)
  moreover have "set (awaited ?d (xs @ ys)) = set (awaited d (xs @ (f, res) # ys)) - {f}" "distinct (awaited ?d (xs @ ys))"
    using ok by (auto simp: disp_ok_def awaited_def)
  ultimately show ?thesis
    using ok by (auto simp: disp_ok_def)
qed

lemma dispatch_ok: "dispatch env d due \<Longrightarrow> disp_ok d due"
proof (induction rule: dispatch.induct)
  case (failed d due d' res)
  then show ?case
    using disp_ok_drained [of d due "d'\<lparr>dp_streamDone := True\<rparr>" "Inl ErrReceive"] by (auto simp: failAllPending_def)
next
  case (closed d due d' res)
  then show ?case
    using disp_ok_drained [of d due d' "Inl ErrDispatcherClosed"] by (auto simp: closeDispatcher_def split: if_splits)
next
  case (resolved d xs f res ys d')
  then show ?case
    using disp_ok_resolved by fastforce
qed (simp_all add: disp_ok_start disp_ok_submit disp_ok_collected disp_ok_completed)

text \<open>
  (C18) Every future is resolved exactly once. Under every interleaving of submissions,
  responses, a failing stream and \<open>Close\<close>, no goroutine closes the channel of a future a second
  time, which would panic; an unresolved future is always in the table or about to be resolved,
  and after \<open>Close\<close> none is left waiting.
\<close>

theorem future_resolved_once:
  assumes "dispatch env d due"
  shows "list_all (\<lambda>(f, res). resolve f res d \<noteq> Panic) due \<and> unresolved d = set (awaited d due) \<and>
     (dp_closed d \<and> due = [] \<longrightarrow> list_all (\<lambda>f. fu_result f \<noteq> None) (dp_futures d))"
proof -
  note ok = dispatch_ok [OF assms]
  have "resolve f res d \<noteq> Panic" if "(f, res) \<in> set due" for f res
  proof -
    from split_list [OF that] obtain xs ys where "due = xs @ (f, res) # ys"
      by blast
    with disp_ok_resolved [of d xs f res ys] ok show ?thesis
      by auto
  qed
  moreover have "list_all (\<lambda>f. fu_result f \<noteq> None) (dp_futures d)" if "dp_closed d" "due = []"
  proof -
    have "unresolved d = {}"
      using ok that by (auto simp: disp_ok_def awaited_def)
    then show ?thesis
      by (auto simp: unresolved_def list_all_length)
  qed
  ultimately show ?thesis
    using ok by (auto simp: disp_ok_def list_all_iff)
qed

section \<open>The events of an input\<close>

definition decodable :: "decode_env \<Rightarrow> decodeResponse \<Rightarrow> bool" where
  "decodable env r \<longleftrightarrow> rs_Error r = '''' \<and> (\<exists>v. unmarshalValueMsgpack (de_dec env) (rs_PayloadMsgpack r) = Inr v)"

text \<open>What the event made from result \<open>i\<close> has to say.\<close>

definition eventMatches :: "(nat \<Rightarrow> eventID) \<Rightarrow> string \<Rightarrow> decodeRequest \<Rightarrow> string \<Rightarrow> nat \<times> decodeResponse \<Rightarrow> event \<Rightarrow> bool" where
  "eventMatches newID sessionID req connID = (\<lambda>(i, r) ev.
     id_ID (ev_Identity ev) = newID i \<and> id_SessionID (ev_Identity ev) = sessionID \<and> id_Type (ev_Identity ev) = rs_EventType r \<and>
     id_Timestamp (ev_Identity ev) = dr_TimestampNs req \<and> ec_RawPacketID (ev_Context ev) = dr_PacketId req \<and>
     ec_FlowID (ev_Context ev) = dr_FlowId req \<and> ec_MessageOrdinal (ev_Context ev) = of_nat i \<and>
     ec_ConnID (ev_Context ev) = connID \<and> tc_CorrelationID (ev_Trace ev) = rs_CorrelationKey r)"

lemma resultEvent_matches:
  "eventMatches newID sessionID req connID (i, r) (resultEvent sessionID req connID source peerKey idx i (newID i) r payload meta analysis)"
  by (auto simp: eventMatches_def resultEvent_def Let_def withAnalysis_def withMeta_def withCorrelation_def withCausation_def
      withTrace_def traceWithCorrelation_def traceWithCausation_def emptyTrace_def split: option.split)

lemma pluginError_frame [simp]:
  "cv_events (pluginError env now req m st) = cv_events st" "cv_causation (pluginError env now req m st) = cv_causation st"
  by (simp_all add: pluginError_def)

lemma convertOne_event:
  "\<exists>ev. cv_events (convertOne env newID now sessionID req connID source peerKey (i, r) st) =
      (if decodable env r then cv_events st @ [ev] else cv_events st) \<and>
    eventMatches newID sessionID req connID (i, r) ev"
proof (cases "unmarshalValueMsgpack (de_dec env) (rs_PayloadMsgpack r)")
  case (Inl e)
  then have "\<not> decodable env r" "cv_events (convertOne env newID now sessionID req connID source peerKey (i, r) st) = cv_events st"
    by (simp_all add: decodable_def convertOne_def)
  then show ?thesis
    using resultEvent_matches by fastforce
next
  case (Inr payload)
  obtain merr meta where m: "optionalValue env (rs_MetaMsgpack r) = (merr, meta)"
    by fastforce
  obtain aerr analysis where a: "optionalValue env (rs_AnalysisMsgpack r) = (aerr, analysis)"
    by fastforce
  obtain p' m' a' where s: "(if isNull meta \<and> isNull analysis then splitReservedKeys payload else (payload, meta, analysis)) = (p', m', a')"
    by (metis prod_cases3)
  show ?thesis
  proof (cases "rs_Error r = ''''")
    case True
    define idx where "idx = (case aerr of None \<Rightarrow> cv_causation st | Some e \<Rightarrow> cv_causation st)"
    let ?ev = "resultEvent sessionID req connID source peerKey (cv_causation st) i (newID i) r p' m' a'"
    have "cv_events (convertOne env newID now sessionID req connID source peerKey (i, r) st) = cv_events st @ [?ev]"
      using True Inr s by (cases aerr) (simp_all add: convertOne_def m a Let_def)
    with True Inr show ?thesis
      using resultEvent_matches by (intro exI [of _ ?ev]) (simp add: decodable_def)
  next
    case False
    then have "\<not> decodable env r" "cv_events (convertOne env newID now sessionID req connID source peerKey (i, r) st) = cv_events st"
      by (simp_all add: decodable_def convertOne_def)
    then show ?thesis
      using resultEvent_matches by fastforce
  qed
qed

lemma convert_events:
  "\<exists>evs. cv_events (fold (convertOne env newID now sessionID req connID source peerKey) irs st) = cv_events st @ evs \<and>
    list_all2 (eventMatches newID sessionID req connID) (filter (\<lambda>(_, r). decodable env r) irs) evs"
proof (induction irs arbitrary: st)
  case (Cons ir irs)
  obtain i r where ir: "ir = (i, r)"
    by fastforce
  let ?st = "convertOne env newID now sessionID req connID source peerKey (i, r) st"
  obtain ev where ev: "cv_events ?st = (if decodable env r then cv_events st @ [ev] else cv_events st)"
    "eventMatches newID sessionID req connID (i, r) ev"
    using convertOne_event by blast
  obtain evs where "cv_events (fold (convertOne env newID now sessionID req connID source peerKey) irs ?st) = cv_events ?st @ evs"
    "list_all2 (eventMatches newID sessionID req connID) (filter (\<lambda>(_, r). decodable env r) irs) evs"
    using Cons.IH by blast
  with ev show ?case
    by (cases "decodable env r") (auto simp: ir)
qed simp


lemma convertOne_causation:
  "0 < i \<Longrightarrow> cv_causation (convertOne env newID now sessionID req connID source peerKey (i, r) st) = cv_causation st"
  by (auto simp: convertOne_def Let_def split: sum.split prod.split option.split)

lemma convert_causation:
  "\<forall>(i, r) \<in> set irs. 0 < i \<Longrightarrow>
   cv_causation (fold (convertOne env newID now sessionID req connID source peerKey) irs st) = cv_causation st"
  by (induction irs arbitrary: st) (auto simp: convertOne_causation)

text \<open>
  An input whose first result is an error has no main event: nothing is registered for it
  although later results give events, so that a result that names this input as its cause stays
  without a cause.
\<close>

theorem first_error_hides_main_event:
  assumes "rs_Error r0 \<noteq> ''''"
  shows "cv_causation (convertResultsToEvents env newID now sessionID req (r0 # rs) connID source peerKey (idx, errs)) = idx"
proof -
  let ?st = "\<lparr>cv_causation = idx, cv_errs = errs, cv_events = []\<rparr>"
  have "cv_causation (convertOne env newID now sessionID req connID source peerKey (0, r0) ?st) = idx"
    using assms by (simp add: convertOne_def)
  moreover have "\<forall>(i, r) \<in> set (List.enumerate (Suc 0) rs). 0 < i"
    by (auto simp: in_set_enumerate_eq)
  ultimately show ?thesis
    by (simp add: convertResultsToEvents_def convert_causation)
qed

definition reversed :: "packet \<Rightarrow> packet" where
  "reversed pkt = pkt\<lparr>pk_Src := pk_Dst pkt, pk_Dst := pk_Src pkt\<rparr>"

definition oppositeDir :: "string \<Rightarrow> string" where
  "oppositeDir d = (if d = ''client_to_server'' then ''server_to_client'' else if d = ''server_to_client'' then ''client_to_server'' else d)"

lemma inferDirection_opposite: "inferDirection d s port = oppositeDir (inferDirection s d port)"
  by (auto simp: inferDirection_def oppositeDir_def Let_def)

text \<open>
  Both directions of a connection agree: the flow identifier and the peer key are those of
  the reversed packet, and the inferred directions are opposite or both unknown.
\<close>

theorem directions_agree:
  "flowIDFromEndpoints b a p = flowIDFromEndpoints a b p \<and> inferDirection dp sp port = oppositeDir (inferDirection sp dp port) \<and>
   peerKeyFromPacket addrStr apStr (reversed pkt) port = peerKeyFromPacket addrStr apStr pkt port"
proof -
  have "flowIDFromEndpoints b a p = flowIDFromEndpoints a b p"
    by (auto simp: flowIDFromEndpoints_def Let_def)
  moreover have "peerKeyFromPacket addrStr apStr (reversed pkt) port = peerKeyFromPacket addrStr apStr pkt port"
    using inferDirection_opposite [of "ap_port (pk_Dst pkt)" "ap_port (pk_Src pkt)" port]
    by (simp add: peerKeyFromPacket_def reversed_def oppositeDir_def Let_def)
  ultimately show ?thesis
    using inferDirection_opposite by blast
qed

section \<open>The index of main events is bounded\<close>

definition index_ok :: "causationIndex \<Rightarrow> bool" where
  "index_ok c \<longleftrightarrow> distinct (cx_order c) \<and> set (cx_order c) = dom (map_of (cx_entries c)) \<and> int (length (cx_order c)) \<le> cx_limit c"

lemma trimIndex_step:
  assumes "distinct (cx_order c)" "set (cx_order c) = dom (map_of (cx_entries c))" "0 < cx_limit c"
    "int (length (cx_order c)) \<le> cx_limit c + 1" "cx_order c \<noteq> []"
  shows "index_ok (trimIndex c) \<and> cx_limit (trimIndex c) = cx_limit c \<and>
    map_of (cx_entries (trimIndex c)) (last (cx_order c)) = map_of (cx_entries c) (last (cx_order c))"
proof (cases "cx_limit c < int (length (cx_order c))")
  case True
  let ?c = "c\<lparr>cx_order := tl (cx_order c), cx_entries := AList.delete (hd (cx_order c)) (cx_entries c)\<rparr>"
  obtain k ks where o: "cx_order c = k # ks"
    using assms(5) by (cases "cx_order c") auto
  with assms(3) True have ks: "ks \<noteq> []"
    by auto
  have "trimIndex c = trimIndex ?c"
    using True assms(5) by (subst trimIndex.simps) simp
  also have "\<dots> = ?c"
    using assms(4) o by (subst trimIndex.simps) simp
  finally have t: "trimIndex c = ?c" .
  have "set ks = dom (map_of (AList.delete k (cx_entries c)))"
    using assms(1,2) o by (auto simp: delete_conv')
  moreover have "last ks \<noteq> k"
    using assms(1) o ks by auto
  ultimately show ?thesis
    using assms(1,4) o ks by (simp add: t index_ok_def delete_conv')
next
  case False
  then have "trimIndex c = c"
    by (subst trimIndex.simps) simp
  with assms False show ?thesis
    by (simp add: index_ok_def)
qed

lemma causationPut_ok:
  assumes "index_ok c" "0 < cx_limit c"
  shows "index_ok (causationPut k e c) \<and> cx_limit (causationPut k e c) = cx_limit c \<and>
    causationGet k (causationPut k e c) = Some (case causationGet k c of Some e' \<Rightarrow> e' | None \<Rightarrow> e)"
proof (cases "map_of (cx_entries c) k")
  case None
  let ?c = "c\<lparr>cx_entries := AList.update k e (cx_entries c), cx_order := cx_order c @ [k]\<rparr>"
  have "k \<notin> set (cx_order c)"
    using assms(1) None by (auto simp: index_ok_def)
  then have "distinct (cx_order ?c)" "set (cx_order ?c) = dom (map_of (cx_entries ?c))" "int (length (cx_order ?c)) \<le> cx_limit ?c + 1"
    using assms(1) by (auto simp: index_ok_def update_conv')
  with trimIndex_step [of ?c] assms(2) None show ?thesis
    by (simp add: causationPut_def causationGet_def update_conv')
next
  case (Some e')
  with assms show ?thesis
    by (simp add: causationPut_def causationGet_def)
qed

section \<open>A dispatcher at work\<close>

definition demoEnv :: decode_env where
  "demoEnv =
     \<lparr>de_rx = demoRegexps, de_dec = (\<lambda>bs. Some (valueToMsgpack (VObject [(''n'', VInt (of_nat (length bs)))]))),
      de_errText = (\<lambda>_. ''bad''), de_addrStr = (\<lambda>_. ''ip''), de_apStr = portStr\<rparr>"

definition demoResponse :: "string \<Rightarrow> bool \<Rightarrow> string \<Rightarrow> decodeResponse" where
  "demoResponse inputID fin err =
     \<lparr>rs_InputId = inputID, rs_Done = fin, rs_EventType = ''msg'', rs_PayloadMsgpack = [1, 2], rs_Error = err,
      rs_CorrelationKey = '''', rs_CausationInputId = '''', rs_MetaMsgpack = [], rs_AnalysisMsgpack = []\<rparr>"

definition demoSubmitted :: dispatcher where
  "demoSubmitted =
     fst (submit demoEnv ''i2'' True (demoPacket 7 80 no_flags)
       (fst (submit demoEnv ''i1'' True (demoPacket 7 80 no_flags) (newDispatcher ''s'' 80 (newErrorCollector 0)))))"

definition demoClosed :: dispatcher where
  "demoClosed = fst (closeDispatcher (fst (receive (demoResponse ''i1'' False '''') demoSubmitted)))"

lemma demo_dispatch: "dispatch demoEnv demoClosed [(0, Inl ErrDispatcherClosed), (1, Inl ErrDispatcherClosed)]"
proof -
  have s: "dispatch demoEnv demoSubmitted []"
    unfolding demoSubmitted_def by (intro dispatch.submitted dispatch.start) (simp_all add: newDispatcher_def submit_def Let_def)
  have r: "receive (demoResponse ''i1'' False '''') demoSubmitted = (fst (receive (demoResponse ''i1'' False '''') demoSubmitted), None)"
    "\<not> dp_streamDone demoSubmitted"
    by (simp_all add: demoSubmitted_def submit_def newDispatcher_def receive_def demoResponse_def Let_def)
  have c: "closeDispatcher (fst (receive (demoResponse ''i1'' False '''') demoSubmitted)) =
      (demoClosed, [(0, Inl ErrDispatcherClosed), (1, Inl ErrDispatcherClosed)])"
    by (simp add: demoClosed_def) (simp add: demoSubmitted_def submit_def newDispatcher_def receive_def demoResponse_def Let_def closeDispatcher_def)
  from dispatch.closed [OF dispatch.collected [OF s r(2,1)] c] show ?thesis
    by simp
qed

theorem future_resolved_once_witness:
  "resolve 0 (Inl ErrDispatcherClosed) demoClosed \<noteq> Panic \<and> unresolved demoClosed = {0, 1}"
  using future_resolved_once [OF demo_dispatch] by (simp add: awaited_def demoClosed_def closeDispatcher_def)
    (auto simp: demoSubmitted_def submit_def newDispatcher_def receive_def demoResponse_def Let_def)

definition demoRequest :: decodeRequest where
  "demoRequest =
     \<lparr>dr_SessionId = ''s'', dr_ProtocolHint = ''tcp'', dr_Payload = [1], dr_LinkType = 1, dr_InputId = ''i1'', dr_PacketId = ''p'',
      dr_FlowId = ''7'', dr_Src = ''a'', dr_Dst = ''b'', dr_Direction = ''unknown'', dr_TimestampNs = 5\<rparr>"

definition demoConverted :: convState where
  "demoConverted = convertResultsToEvents demoEnv (\<lambda>_. ''e'') 0 ''s'' demoRequest
     [demoResponse ''i1'' False ''bad frame'', demoResponse ''i1'' False ''''] ''c'' ''src'' ''peer''
     (newCausationIndex 1024, newErrorCollector 0)"

theorem first_error_hides_main_event_witness:
  "causationGet ''i1'' (cv_causation demoConverted) = None \<and> map (\<lambda>ev. id_ID (ev_Identity ev)) (cv_events demoConverted) = [''e'']"
proof -
  have "cv_causation demoConverted = newCausationIndex 1024"
    unfolding demoConverted_def by (rule first_error_hides_main_event) (simp add: demoResponse_def)
  moreover have "map (\<lambda>ev. id_ID (ev_Identity ev)) (cv_events demoConverted) = [''e'']"
    by code_simp
  ultimately show ?thesis
    by (simp add: causationGet_def newCausationIndex_def)
qed

end
