(* ===== verification/Proxy_Lease.thy ===== *)
theory Proxy_Lease
  imports GT_Prelude "HOL-Library.Multiset"
begin

text \<open>
  Proxy leases, \<open>cmd/gt-pipeline/proxy_lease.go\<close>: a lease is a resident proxy with a fixed agent
  port and control port, on which capture sessions are started and stopped one after the other.

  Leases are Go pointers, so a lease is a reference into a heap and the table maps identifiers to
  references; an operation that holds a pointer may write to a lease that has left the table. Every
  critical section under \<open>leaseMu\<close> is one definition, and a handler is their composition, with the
  outcomes of what happens in between (probing a port, spawning the agent, starting the session) as
  arguments. Reading \<open>grpcPort\<close> in \<open>reclaimLease\<close> belongs to the section before it.
\<close>

section \<open>Port ranges\<close>

record portRange =
  pr_base :: int
  pr_max :: int
  pr_used :: "int list"
  pr_cursor :: int

definition newPortRange :: "int \<Rightarrow> int \<Rightarrow> portRange" where
  "newPortRange base mx = \<lparr>pr_base = base, pr_max = mx, pr_used = [], pr_cursor = 0\<rparr>"

definition allocatePort :: "portRange \<Rightarrow> (portRange \<times> int) option" where
  "allocatePort pr =
     (let n = pr_max pr - pr_base pr + 1 in
      case find (\<lambda>i. pr_base pr + (pr_cursor pr + i) mod n \<notin> set (pr_used pr)) [0..n - 1] of
        None \<Rightarrow> None
      | Some i \<Rightarrow>
          (let port = pr_base pr + (pr_cursor pr + i) mod n
           in Some (pr\<lparr>pr_used := port # pr_used pr, pr_cursor := (pr_cursor pr + i + 1) mod n\<rparr>, port)))"

definition reservePort :: "int \<Rightarrow> portRange \<Rightarrow> portRange option" where
  "reservePort port pr =
     (if port < pr_base pr \<or> pr_max pr < port then None
      else if port \<in> set (pr_used pr) then None
      else Some (pr\<lparr>pr_used := port # pr_used pr\<rparr>))"

definition releasePort :: "int \<Rightarrow> portRange \<Rightarrow> portRange" where
  "releasePort port pr = pr\<lparr>pr_used := filter (\<lambda>p. p \<noteq> port) (pr_used pr)\<rparr>"

section \<open>The lease table\<close>

type_synonym leaseRef = nat

record proxyLease =
  pl_leaseID :: string
  pl_owner :: string
  pl_projectID :: string
  pl_plugin :: string
  pl_pluginOwners :: "string list"
  pl_includeHosts :: "string list"
  pl_includePorts :: "int list"
  pl_device :: string
  pl_agentPort :: int
  pl_ctrlPort :: int
  pl_grpcPort :: int
  pl_sticky :: bool
  pl_sessionID :: string
  pl_lastCaptureAt :: time
  pl_captureCount :: int
  pl_agentStopped :: bool
  pl_createdAt :: time

record leaseTable =
  lt_heap :: "proxyLease list"
  lt_leases :: "(string \<times> leaseRef) list"
  lt_agentPorts :: portRange
  lt_grpcPorts :: portRange
  lt_ctrlPorts :: portRange
  lt_stickyPorts :: "(string \<times> int) list"

definition maxLeasesPerOwner :: nat where "maxLeasesPerOwner = 5"

definition newLeaseTable :: leaseTable where
  "newLeaseTable =
     \<lparr>lt_heap = [], lt_leases = [], lt_agentPorts = newPortRange 12100 12199, lt_grpcPorts = newPortRange 19100 19199,
      lt_ctrlPorts = newPortRange 19500 19599, lt_stickyPorts = []\<rparr>"

definition stickyKey :: "string \<Rightarrow> string \<Rightarrow> string" where
  "stickyKey owner device = owner @ ''|'' @ device"

definition leaseList :: "leaseTable \<Rightarrow> proxyLease list" where
  "leaseList t = map (\<lambda>(_, r). lt_heap t ! r) (lt_leases t)"

definition countLeases :: "string \<Rightarrow> leaseTable \<Rightarrow> nat" where
  "countLeases owner t = length (filter (\<lambda>l. pl_owner l = owner) (leaseList t))"

section \<open>Creating a lease\<close>

datatype lease_error =
  LeaseLimit | CtrlPortsExhausted | AgentPortBusy | CtrlPortBusy | SpawnFailed | AgentExited | ControlNotReady
| LeaseNotFound | AlreadyCapturing | AgentNotRunning | GrpcPortsExhausted | GrpcPortBusy | SessionFailed | SourceNotReady
| AgentRefused | NotCapturing | StopFailed

definition allocateAgentPort :: "string \<Rightarrow> string \<Rightarrow> bool \<Rightarrow> leaseTable \<Rightarrow> leaseTable \<times> int \<times> bool" where
  "allocateAgentPort owner device noSticky t =
     (let rotate = (case allocatePort (lt_agentPorts t) of
                      Some (pr, p) \<Rightarrow> (t\<lparr>lt_agentPorts := pr\<rparr>, p, False)
                    | None \<Rightarrow> (t, 0, False))
      in
      if noSticky then rotate
      else
        (case map_of (lt_stickyPorts t) (stickyKey owner device) of
           None \<Rightarrow> rotate
         | Some p \<Rightarrow>
             (case reservePort p (lt_agentPorts t) of
                Some pr \<Rightarrow> (t\<lparr>lt_agentPorts := pr\<rparr>, p, True)
              | None \<Rightarrow> rotate)))"

definition releaseAgentCtrl :: "int \<Rightarrow> int \<Rightarrow> leaseTable \<Rightarrow> leaseTable" where
  "releaseAgentCtrl agentPort ctrlPort t =
     t\<lparr>lt_agentPorts := releasePort agentPort (lt_agentPorts t), lt_ctrlPorts := releasePort ctrlPort (lt_ctrlPorts t)\<rparr>"

text \<open>First section: both ports, or an error with the agent port given back.\<close>

definition createAllocate ::
  "string \<Rightarrow> string \<Rightarrow> bool \<Rightarrow> leaseTable \<Rightarrow> leaseTable \<times> (lease_error + int \<times> int \<times> bool)"
where
  "createAllocate owner device noSticky t =
     (case allocateAgentPort owner device noSticky t of
        (t, agentPort, sticky) \<Rightarrow>
          (case allocatePort (lt_ctrlPorts t) of
             None \<Rightarrow> (t\<lparr>lt_agentPorts := releasePort agentPort (lt_agentPorts t)\<rparr>, Inl CtrlPortsExhausted)
           | Some (pr, ctrlPort) \<Rightarrow> (t\<lparr>lt_ctrlPorts := pr\<rparr>, Inr (agentPort, ctrlPort, sticky))))"

record createRequest =
  cq_owner :: string
  cq_projectID :: string
  cq_plugin :: string
  cq_pluginOwners :: "string list"
  cq_includeHosts :: "string list"
  cq_includePorts :: "int list"
  cq_device :: string
  cq_noSticky :: bool

definition newLease :: "createRequest \<Rightarrow> string \<Rightarrow> time \<Rightarrow> int \<Rightarrow> int \<Rightarrow> bool \<Rightarrow> proxyLease" where
  "newLease req leaseID now agentPort ctrlPort sticky =
     \<lparr>pl_leaseID = leaseID, pl_owner = cq_owner req, pl_projectID = cq_projectID req, pl_plugin = cq_plugin req,
      pl_pluginOwners = cq_pluginOwners req, pl_includeHosts = cq_includeHosts req, pl_includePorts = cq_includePorts req,
      pl_device = cq_device req, pl_agentPort = agentPort, pl_ctrlPort = ctrlPort, pl_grpcPort = 0, pl_sticky = sticky,
      pl_sessionID = '''', pl_lastCaptureAt = 0, pl_captureCount = 0, pl_agentStopped = False, pl_createdAt = now\<rparr>"

text \<open>Second section: the limit again, then the table and the memory of the port.\<close>

definition createInsert :: "proxyLease \<Rightarrow> leaseTable \<Rightarrow> leaseTable option" where
  "createInsert lease t =
     (if maxLeasesPerOwner \<le> countLeases (pl_owner lease) t then None
      else
        Some (t\<lparr>lt_heap := lt_heap t @ [lease],
                lt_leases := AList.update (pl_leaseID lease) (length (lt_heap t)) (lt_leases t),
                lt_stickyPorts :=
                  (if pl_device lease \<noteq> ''''
                   then AList.update (stickyKey (pl_owner lease) (pl_device lease)) (pl_agentPort lease) (lt_stickyPorts t)
                   else lt_stickyPorts t)\<rparr>))"

text \<open>What happens between the sections, in the order of the code.\<close>

record createOutcome =
  co_agentBindable :: "int \<Rightarrow> bool"
  co_ctrlBindable :: "int \<Rightarrow> bool"
  co_spawned :: bool
  co_running :: bool
  co_controlReady :: bool
  co_leaseID :: string
  co_now :: time

definition createProxyLease ::
  "createRequest \<Rightarrow> createOutcome \<Rightarrow> leaseTable \<Rightarrow> leaseTable \<times> (lease_error + leaseRef)"
where
  "createProxyLease req out t =
     (if maxLeasesPerOwner \<le> countLeases (cq_owner req) t then (t, Inl LeaseLimit)
      else
        (case createAllocate (cq_owner req) (cq_device req) (cq_noSticky req) t of
           (t, Inl e) \<Rightarrow> (t, Inl e)
         | (t, Inr (agentPort, ctrlPort, sticky)) \<Rightarrow>
             (let undo = releaseAgentCtrl agentPort ctrlPort t in
              if \<not> co_agentBindable out agentPort then (undo, Inl AgentPortBusy)
              else if \<not> co_ctrlBindable out ctrlPort then (undo, Inl CtrlPortBusy)
              else if \<not> co_spawned out then (undo, Inl SpawnFailed)
              else if \<not> co_running out then (undo, Inl AgentExited)
              else if \<not> co_controlReady out then (undo, Inl ControlNotReady)
              else
                (case createInsert (newLease req (co_leaseID out) (co_now out) agentPort ctrlPort sticky) t of
                   None \<Rightarrow> (undo, Inl LeaseLimit)
                 | Some t' \<Rightarrow> (t', Inr (length (lt_heap t)))))))"

section \<open>Captures on a lease\<close>

definition getLeaseForOwner :: "string \<Rightarrow> bool \<Rightarrow> string \<Rightarrow> leaseTable \<Rightarrow> leaseRef option" where
  "getLeaseForOwner owner isAdmin leaseID t =
     (case map_of (lt_leases t) leaseID of
        None \<Rightarrow> None
      | Some r \<Rightarrow> if isAdmin then Some r else if pl_owner (lt_heap t ! r) \<noteq> owner then None else Some r)"

definition startBegin :: "leaseRef \<Rightarrow> bool \<Rightarrow> leaseTable \<Rightarrow> lease_error + leaseTable \<times> int" where
  "startBegin r agentRunning t =
     (if pl_sessionID (lt_heap t ! r) \<noteq> '''' then Inl AlreadyCapturing
      else if \<not> agentRunning then Inl AgentNotRunning
      else
        (case allocatePort (lt_grpcPorts t) of
           None \<Rightarrow> Inl GrpcPortsExhausted
         | Some (pr, p) \<Rightarrow> Inr (t\<lparr>lt_grpcPorts := pr\<rparr>, p)))"

definition releaseGrpc :: "int \<Rightarrow> leaseTable \<Rightarrow> leaseTable" where
  "releaseGrpc p t = t\<lparr>lt_grpcPorts := releasePort p (lt_grpcPorts t)\<rparr>"

definition startCommit :: "leaseRef \<Rightarrow> string \<Rightarrow> int \<Rightarrow> time \<Rightarrow> leaseTable \<Rightarrow> leaseTable" where
  "startCommit r sessionID grpcPort now t =
     t\<lparr>lt_heap := (lt_heap t)[r := (lt_heap t ! r)\<lparr>pl_sessionID := sessionID, pl_grpcPort := grpcPort,
          pl_captureCount := pl_captureCount (lt_heap t ! r) + 1, pl_lastCaptureAt := now\<rparr>]\<rparr>"

record startOutcome =
  so_agentRunning :: bool
  so_grpcBindable :: "int \<Rightarrow> bool"
  so_session :: "string option"
  so_sourceReady :: bool
  so_agentAccepts :: bool
  so_now :: time

definition startLeaseCapture ::
  "string \<Rightarrow> bool \<Rightarrow> string \<Rightarrow> startOutcome \<Rightarrow> leaseTable \<Rightarrow> leaseTable \<times> (lease_error + string)"
where
  "startLeaseCapture owner isAdmin leaseID out t =
     (case getLeaseForOwner owner isAdmin leaseID t of
        None \<Rightarrow> (t, Inl LeaseNotFound)
      | Some r \<Rightarrow>
          (case startBegin r (so_agentRunning out) t of
             Inl e \<Rightarrow> (t, Inl e)
           | Inr (t, grpcPort) \<Rightarrow>
               (let undo = releaseGrpc grpcPort t in
                if \<not> so_grpcBindable out grpcPort then (undo, Inl GrpcPortBusy)
                else
                  (case so_session out of
                     None \<Rightarrow> (undo, Inl SessionFailed)
                   | Some sessionID \<Rightarrow>
                       if \<not> so_sourceReady out then (undo, Inl SourceNotReady)
                       else if \<not> so_agentAccepts out then (undo, Inl AgentRefused)
                       else (startCommit r sessionID grpcPort (so_now out) t, Inr sessionID)))))"

text \<open>\<open>clearLeaseCapture\<close>, called when a session ends for whatever reason.\<close>

definition clearLeaseCapture :: "string \<Rightarrow> time \<Rightarrow> leaseTable \<Rightarrow> leaseTable" where
  "clearLeaseCapture sessionID now t =
     (case find (\<lambda>(_, r). pl_sessionID (lt_heap t ! r) = sessionID) (lt_leases t) of
        None \<Rightarrow> t
      | Some (_, r) \<Rightarrow>
          releaseGrpc (pl_grpcPort (lt_heap t ! r))
            (t\<lparr>lt_heap := (lt_heap t)[r := (lt_heap t ! r)\<lparr>pl_sessionID := '''', pl_grpcPort := 0, pl_lastCaptureAt := now\<rparr>]\<rparr>))"

text \<open>\<open>StopSession\<close>: the session ended and was finalized, was gone already, or could not be stopped in time.\<close>

datatype stop_outcome = Stopped | NoActiveCapture | StopTimedOut

definition afterStop :: "stop_outcome \<Rightarrow> string \<Rightarrow> time \<Rightarrow> leaseTable \<Rightarrow> leaseTable" where
  "afterStop out sessionID now t = (if out = Stopped then clearLeaseCapture sessionID now t else t)"

definition stopLeaseCapture ::
  "string \<Rightarrow> bool \<Rightarrow> string \<Rightarrow> stop_outcome \<Rightarrow> time \<Rightarrow> leaseTable \<Rightarrow> leaseTable \<times> (lease_error + string)"
where
  "stopLeaseCapture owner isAdmin leaseID out now t =
     (case getLeaseForOwner owner isAdmin leaseID t of
        None \<Rightarrow> (t, Inl LeaseNotFound)
      | Some r \<Rightarrow>
          (let sessionID = pl_sessionID (lt_heap t ! r) in
           if sessionID = '''' then (t, Inl NotCapturing)
           else if out = StopTimedOut then (t, Inl StopFailed)
           else (clearLeaseCapture sessionID now (afterStop out sessionID now t), Inr sessionID)))"

definition reclaimLease :: "string \<Rightarrow> leaseTable \<Rightarrow> leaseTable" where
  "reclaimLease leaseID t =
     (case map_of (lt_leases t) leaseID of
        None \<Rightarrow> t
      | Some r \<Rightarrow>
          (let lease = lt_heap t ! r;
               t = t\<lparr>lt_leases := AList.delete leaseID (lt_leases t), lt_heap := (lt_heap t)[r := lease\<lparr>pl_agentStopped := True\<rparr>]\<rparr>;
               t = releaseAgentCtrl (pl_agentPort lease) (pl_ctrlPort lease) t
           in if 0 < pl_grpcPort lease then releaseGrpc (pl_grpcPort lease) t else t))"

definition releaseProxyLease ::
  "string \<Rightarrow> bool \<Rightarrow> string \<Rightarrow> stop_outcome \<Rightarrow> time \<Rightarrow> leaseTable \<Rightarrow> leaseTable \<times> (lease_error + string)"
where
  "releaseProxyLease owner isAdmin leaseID out now t =
     (case getLeaseForOwner owner isAdmin leaseID t of
        None \<Rightarrow> (t, Inl LeaseNotFound)
      | Some r \<Rightarrow>
          (let sessionID = pl_sessionID (lt_heap t ! r) in
           if sessionID = '''' then (reclaimLease leaseID t, Inr sessionID)
           else if out = StopTimedOut then (t, Inl StopFailed)
           else (reclaimLease leaseID (afterStop out sessionID now t), Inr sessionID)))"

definition cleanupProxyLeases :: "leaseTable \<Rightarrow> leaseTable" where
  "cleanupProxyLeases t = fold (\<lambda>(k, _). reclaimLease k) (lt_leases t) t"

definition visibleLease :: "string \<Rightarrow> bool \<Rightarrow> proxyLease \<Rightarrow> bool" where
  "visibleLease owner isAdmin l \<longleftrightarrow>
     isAdmin \<or> (if owner = '''' then pl_owner l = '''' else pl_owner l = '''' \<or> pl_owner l = owner)"

definition listProxyLeases :: "string \<Rightarrow> bool \<Rightarrow> leaseTable \<Rightarrow> proxyLease list" where
  "listProxyLeases owner isAdmin t = filter (visibleLease owner isAdmin) (leaseList t)"

section \<open>Interleaved operations\<close>

text \<open>
  Operations between two of their critical sections: a creation that holds its ports, a start that
  holds its gRPC port and a pointer to the lease.
\<close>

datatype inflight = Creating createRequest int int bool | Starting leaseRef int

inductive lease_run :: "leaseTable \<Rightarrow> inflight list \<Rightarrow> bool" where
  start: "lease_run newLeaseTable []"
| allocated: "lease_run t fl \<Longrightarrow>
    createAllocate (cq_owner req) (cq_device req) (cq_noSticky req) t = (t', Inr (a, c, s)) \<Longrightarrow>
    lease_run t' (Creating req a c s # fl)"
| unallocated: "lease_run t fl \<Longrightarrow> createAllocate owner device noSticky t = (t', Inl e) \<Longrightarrow> lease_run t' fl"
| abandoned: "lease_run t (xs @ Creating req a c s # ys) \<Longrightarrow> lease_run (releaseAgentCtrl a c t) (xs @ ys)"
| inserted: "lease_run t (xs @ Creating req a c s # ys) \<Longrightarrow> leaseID \<notin> fst ` set (lt_leases t) \<Longrightarrow>
    createInsert (newLease req leaseID now a c s) t = Some t' \<Longrightarrow> lease_run t' (xs @ ys)"
| begun: "lease_run t fl \<Longrightarrow> r < length (lt_heap t) \<Longrightarrow> startBegin r running t = Inr (t', p) \<Longrightarrow> lease_run t' (Starting r p # fl)"
| aborted: "lease_run t (xs @ Starting r p # ys) \<Longrightarrow> lease_run (releaseGrpc p t) (xs @ ys)"
| committed: "lease_run t (xs @ Starting r p # ys) \<Longrightarrow> sessionID \<notin> pl_sessionID ` set (lt_heap t) \<Longrightarrow>
    lease_run (startCommit r sessionID p now t) (xs @ ys)"
| ended: "lease_run t fl \<Longrightarrow> sessionID \<noteq> '''' \<Longrightarrow> lease_run (clearLeaseCapture sessionID now t) fl"
| reclaimed: "lease_run t fl \<Longrightarrow> lease_run (reclaimLease leaseID t) fl"

section \<open>Who holds a port\<close>

definition range_ok :: "portRange \<Rightarrow> bool" where
  "range_ok pr \<longleftrightarrow> 0 < pr_base pr \<and> pr_base pr \<le> pr_max pr \<and> distinct (pr_used pr) \<and> set (pr_used pr) \<subseteq> {pr_base pr..pr_max pr}"

lemma allocatePort_ok:
  assumes "range_ok pr" and "allocatePort pr = Some (pr', p)"
  shows "range_ok pr'" "mset (pr_used pr') = add_mset p (mset (pr_used pr))" "p \<notin> set (pr_used pr)" "p \<noteq> 0"
proof -
  let ?n = "pr_max pr - pr_base pr + 1"
  from assms(2) obtain i where i: "find (\<lambda>i. pr_base pr + (pr_cursor pr + i) mod ?n \<notin> set (pr_used pr)) [0..?n - 1] = Some i"
    and p: "p = pr_base pr + (pr_cursor pr + i) mod ?n" and pr': "pr' = pr\<lparr>pr_used := p # pr_used pr, pr_cursor := (pr_cursor pr + i + 1) mod ?n\<rparr>"
    by (auto simp: allocatePort_def Let_def split: option.splits)
  have free: "p \<notin> set (pr_used pr)"
    using i by (auto simp: find_Some_iff p)
  moreover have "0 < ?n"
    using assms(1) by (simp add: range_ok_def)
  then have "0 \<le> (pr_cursor pr + i) mod ?n" "(pr_cursor pr + i) mod ?n < ?n"
    by (rule pos_mod_sign, rule pos_mod_bound)
  then have "pr_base pr \<le> p \<and> p \<le> pr_max pr"
    by (simp add: p)
  ultimately show "range_ok pr'" "mset (pr_used pr') = add_mset p (mset (pr_used pr))" "p \<notin> set (pr_used pr)" "p \<noteq> 0"
    using assms(1) by (auto simp: range_ok_def pr')
qed

text \<open>A range without a free port is full: the search visits every port.\<close>

lemma allocatePort_None:
  assumes "range_ok pr" and "0 \<le> pr_cursor pr"
  shows "allocatePort pr = None \<longleftrightarrow> set (pr_used pr) = {pr_base pr..pr_max pr}"
proof -
  let ?n = "pr_max pr - pr_base pr + 1"
  let ?port = "\<lambda>i. pr_base pr + (pr_cursor pr + i) mod ?n"
  have n: "0 < ?n"
    using assms(1) by (simp add: range_ok_def)
  have "?port ` {0..?n - 1} = {pr_base pr..pr_max pr}"
  proof (intro equalityI subsetI)
    fix p assume p: "p \<in> {pr_base pr..pr_max pr}"
    let ?i = "(p - pr_base pr - pr_cursor pr) mod ?n"
    have "(pr_cursor pr + ?i) mod ?n = (p - pr_base pr) mod ?n"
      by (metis add.commute diff_add_cancel mod_add_right_eq)
    with p have a: "?port ?i = p"
      by simp
    have b: "?i \<in> {0..?n - 1}"
      using pos_mod_sign [OF n, of "p - pr_base pr - pr_cursor pr"] pos_mod_bound [OF n, of "p - pr_base pr - pr_cursor pr"]
      by simp
    show "p \<in> ?port ` {0..?n - 1}"
      using a [symmetric] b by (rule image_eqI [where f = ?port and x = ?i])
  next
    fix p assume "p \<in> ?port ` {0..?n - 1}"
    then obtain i where "p = ?port i"
      by blast
    then show "p \<in> {pr_base pr..pr_max pr}"
      using n pos_mod_sign [OF n, of "pr_cursor pr + i"] pos_mod_bound [OF n, of "pr_cursor pr + i"] by simp
  qed
  moreover have "allocatePort pr = None \<longleftrightarrow> find (\<lambda>i. ?port i \<notin> set (pr_used pr)) [0..?n - 1] = None"
    by (simp add: allocatePort_def Let_def split: option.split)
  then have "allocatePort pr = None \<longleftrightarrow> ?port ` {0..?n - 1} \<subseteq> set (pr_used pr)"
    unfolding find_None_iff by auto
  ultimately show ?thesis
    using assms(1) by (auto simp: range_ok_def)
qed

lemma reservePort_ok:
  assumes "range_ok pr" and "reservePort p pr = Some pr'"
  shows "range_ok pr'" "mset (pr_used pr') = add_mset p (mset (pr_used pr))" "p \<notin> set (pr_used pr)" "p \<noteq> 0"
proof -
  from assms(2) have p: "pr_base pr \<le> p" "p \<le> pr_max pr" "p \<notin> set (pr_used pr)" and pr': "pr' = pr\<lparr>pr_used := p # pr_used pr\<rparr>"
    by (auto simp: reservePort_def split: if_splits)
  then show "range_ok pr'" "mset (pr_used pr') = add_mset p (mset (pr_used pr))" "p \<notin> set (pr_used pr)" "p \<noteq> 0"
    using assms(1) by (simp_all add: range_ok_def)
qed

lemma releasePort_ok:
  assumes "range_ok pr"
  shows "range_ok (releasePort p pr)" "mset (pr_used (releasePort p pr)) = mset (pr_used pr) - {#p#}"
proof -
  have "mset (filter (\<lambda>q. q \<noteq> p) xs) = mset xs - {#p#}" if "distinct xs" for xs :: "int list"
    using that by (induction xs) (auto simp: filter_id_conv [THEN iffD2])
  then show "mset (pr_used (releasePort p pr)) = mset (pr_used pr) - {#p#}" "range_ok (releasePort p pr)"
    using assms by (auto simp: releasePort_def range_ok_def)
qed

text \<open>The ports leases and operations in flight hold; 0 is no port.\<close>

fun agentIn :: "inflight \<Rightarrow> int list" where
  "agentIn (Creating _ a _ _) = [a]"
| "agentIn (Starting _ _) = []"

fun ctrlIn :: "inflight \<Rightarrow> int list" where
  "ctrlIn (Creating _ _ c _) = [c]"
| "ctrlIn (Starting _ _) = []"

fun grpcIn :: "inflight \<Rightarrow> int list" where
  "grpcIn (Creating _ _ _ _) = []"
| "grpcIn (Starting _ p) = [p]"

definition held :: "(proxyLease \<Rightarrow> int) \<Rightarrow> (inflight \<Rightarrow> int list) \<Rightarrow> leaseTable \<Rightarrow> inflight list \<Rightarrow> int multiset" where
  "held f g t fl = filter_mset (\<lambda>p. p \<noteq> 0) (mset (map f (leaseList t)) + mset (concat (map g fl)))"

definition table_ok :: "leaseTable \<Rightarrow> bool" where
  "table_ok t \<longleftrightarrow>
     distinct (map fst (lt_leases t)) \<and> distinct (map snd (lt_leases t)) \<and> list_all (\<lambda>(_, r). r < length (lt_heap t)) (lt_leases t) \<and>
     (\<forall>owner. countLeases owner t \<le> maxLeasesPerOwner) \<and>
     range_ok (lt_agentPorts t) \<and> range_ok (lt_ctrlPorts t) \<and> range_ok (lt_grpcPorts t)"

definition lease_ok :: "leaseTable \<Rightarrow> inflight list \<Rightarrow> bool" where
  "lease_ok t fl \<longleftrightarrow> table_ok t \<and>
     mset (pr_used (lt_agentPorts t)) = held pl_agentPort agentIn t fl \<and>
     mset (pr_used (lt_ctrlPorts t)) = held pl_ctrlPort ctrlIn t fl \<and>
     held pl_grpcPort grpcIn t fl \<subseteq># mset (pr_used (lt_grpcPorts t))"

lemma held_flight: "held f g t (xs @ x # ys) = filter_mset (\<lambda>p. p \<noteq> 0) (mset (g x)) + held f g t (xs @ ys)"
  by (simp add: held_def union_ac)

lemma held_Cons: "held f g t (x # ys) = filter_mset (\<lambda>p. p \<noteq> 0) (mset (g x)) + held f g t ys"
  using held_flight [of f g t "[]" x ys] by simp

lemma held_zero: "0 \<notin># held f g t fl"
  by (simp add: held_def)

lemma subset_release: "M \<subseteq># U \<Longrightarrow> p \<notin># M \<Longrightarrow> M \<subseteq># U - {#p#}"
  by (auto simp: subseteq_mset_def not_in_iff)

lemma leaseList_ports [simp]:
  "leaseList (t\<lparr>lt_agentPorts := pr\<rparr>) = leaseList t" "leaseList (t\<lparr>lt_ctrlPorts := pr\<rparr>) = leaseList t"
  "leaseList (t\<lparr>lt_grpcPorts := pr\<rparr>) = leaseList t" "leaseList (t\<lparr>lt_stickyPorts := sp\<rparr>) = leaseList t"
  by (simp_all add: leaseList_def)

lemma held_ports [simp]:
  "held f g (t\<lparr>lt_agentPorts := pr\<rparr>) fl = held f g t fl" "held f g (t\<lparr>lt_ctrlPorts := pr\<rparr>) fl = held f g t fl"
  "held f g (t\<lparr>lt_grpcPorts := pr\<rparr>) fl = held f g t fl" "held f g (t\<lparr>lt_stickyPorts := sp\<rparr>) fl = held f g t fl"
  by (simp_all add: held_def)

lemma countLeases_ports [simp]:
  "countLeases o' (t\<lparr>lt_agentPorts := pr\<rparr>) = countLeases o' t" "countLeases o' (t\<lparr>lt_ctrlPorts := pr\<rparr>) = countLeases o' t"
  "countLeases o' (t\<lparr>lt_grpcPorts := pr\<rparr>) = countLeases o' t" "countLeases o' (t\<lparr>lt_stickyPorts := sp\<rparr>) = countLeases o' t"
  by (simp_all add: countLeases_def)

text \<open>Writing to a lease: one entry of the list changes when it is in the table, none otherwise.\<close>

lemma leaseList_write:
  assumes "table_ok t" "(k, r) \<in> set (lt_leases t)"
  shows "\<exists>i < length (leaseList t). leaseList (t\<lparr>lt_heap := (lt_heap t)[r := l]\<rparr>) = (leaseList t)[i := l] \<and> leaseList t ! i = lt_heap t ! r"
proof -
  from assms(2) obtain i where i: "i < length (lt_leases t)" "lt_leases t ! i = (k, r)"
    by (meson in_set_conv_nth)
  have d: "snd (lt_leases t ! j) = r \<longleftrightarrow> j = i" if "j < length (lt_leases t)" for j
    using assms(1) i that nth_eq_iff_index_eq [of "map snd (lt_leases t)" i j] by (auto simp: table_ok_def)
  have "r < length (lt_heap t)"
    using assms by (auto simp: table_ok_def list_all_iff)
  with i d have "leaseList (t\<lparr>lt_heap := (lt_heap t)[r := l]\<rparr>) = (leaseList t)[i := l]"
    by (intro nth_equalityI) (auto simp: leaseList_def nth_list_update case_prod_unfold)
  with i show ?thesis
    by (intro exI [of _ i]) (simp add: leaseList_def)
qed

lemma leaseList_write_other:
  "r \<notin> snd ` set (lt_leases t) \<Longrightarrow> leaseList (t\<lparr>lt_heap := (lt_heap t)[r := l]\<rparr>) = leaseList t"
  by (auto simp: leaseList_def intro!: map_cong) (metis imageI nth_list_update_neq snd_conv)

lemma table_ok_ports:
  assumes "table_ok t" "leaseList t' = leaseList t" "lt_leases t' = lt_leases t" "lt_heap t' = lt_heap t"
    "range_ok (lt_agentPorts t')" "range_ok (lt_ctrlPorts t')" "range_ok (lt_grpcPorts t')"
  shows "table_ok t'"
  using assms by (simp add: table_ok_def countLeases_def)

lemma allocateAgentPort_ok:
  assumes "range_ok (lt_agentPorts t)" "allocateAgentPort owner device noSticky t = (t', a, s)"
  shows "\<exists>pr. t' = t\<lparr>lt_agentPorts := pr\<rparr> \<and> range_ok pr \<and>
    mset (pr_used pr) = filter_mset (\<lambda>p. p \<noteq> 0) {#a#} + mset (pr_used (lt_agentPorts t))"
proof -
  have rotate: ?thesis if "(case allocatePort (lt_agentPorts t) of Some (pr, p) \<Rightarrow> (t\<lparr>lt_agentPorts := pr\<rparr>, p, False) | None \<Rightarrow> (t, 0, False)) = (t', a, s)"
  proof (cases "allocatePort (lt_agentPorts t)")
    case None
    with that assms(1) show ?thesis
      by (auto intro!: exI [of _ "lt_agentPorts t"])
  next
    case (Some x)
    with that allocatePort_ok [OF assms(1)] show ?thesis
      by (cases x) auto
  qed
  show ?thesis
  proof (cases "\<exists>p pr. \<not> noSticky \<and> map_of (lt_stickyPorts t) (stickyKey owner device) = Some p \<and> reservePort p (lt_agentPorts t) = Some pr")
    case True
    with assms reservePort_ok [OF assms(1)] show ?thesis
      by (auto simp: allocateAgentPort_def Let_def)
  next
    case False
    with assms(2) rotate show ?thesis
      by (auto simp: allocateAgentPort_def Let_def split: if_splits option.splits)
  qed
qed

lemma lease_ok_allocate:
  assumes ok: "lease_ok t fl" and c: "createAllocate owner device noSticky t = (t', res)"
  shows "case res of Inr (a, c, s) \<Rightarrow> lease_ok t' (Creating req a c s # fl) | Inl _ \<Rightarrow> lease_ok t' fl"
proof -
  obtain t1 a s where t1: "allocateAgentPort owner device noSticky t = (t1, a, s)"
    by (metis prod_cases3)
  have r: "range_ok (lt_agentPorts t)" "range_ok (lt_ctrlPorts t)" "range_ok (lt_grpcPorts t)"
    using ok by (simp_all add: lease_ok_def table_ok_def)
  from allocateAgentPort_ok [OF r(1) t1] obtain pr where pr: "t1 = t\<lparr>lt_agentPorts := pr\<rparr>" "range_ok pr"
    "mset (pr_used pr) = filter_mset (\<lambda>p. p \<noteq> 0) {#a#} + mset (pr_used (lt_agentPorts t))"
    by blast
  show ?thesis
  proof (cases "allocatePort (lt_ctrlPorts t)")
    case None
    with c pr have "res = Inl CtrlPortsExhausted" and t': "t' = t\<lparr>lt_agentPorts := releasePort a pr\<rparr>"
      by (auto simp: createAllocate_def t1)
    moreover have "range_ok (releasePort a pr)" "mset (pr_used (releasePort a pr)) = mset (pr_used (lt_agentPorts t))"
    proof -
      have "0 \<notin># mset (pr_used (lt_agentPorts t))"
        using ok by (simp add: lease_ok_def held_def)
      then show "mset (pr_used (releasePort a pr)) = mset (pr_used (lt_agentPorts t))"
        using releasePort_ok(2) [OF pr(2), of a] pr(3) by (cases "a = 0") simp_all
    qed (rule releasePort_ok(1) [OF pr(2)])
    ultimately show ?thesis
      using ok by (simp add: lease_ok_def table_ok_def)
  next
    case (Some x)
    obtain pc c' where x: "x = (pc, c')"
      by fastforce
    with Some have alloc: "allocatePort (lt_ctrlPorts t) = Some (pc, c')"
      by simp
    note cp = allocatePort_ok [OF r(2) alloc]
    have res: "res = Inr (a, c', s)" and t': "t' = t\<lparr>lt_agentPorts := pr, lt_ctrlPorts := pc\<rparr>"
      using c by (auto simp: createAllocate_def t1 pr(1) alloc)
    have "table_ok t'"
      using ok r pr(2) cp(1) by (simp add: t' lease_ok_def table_ok_def)
    with ok cp pr(3) show ?thesis
      by (simp add: res lease_ok_def held_Cons t')
  qed
qed

lemma lease_ok_abandon:
  assumes ok: "lease_ok t (xs @ Creating req a c s # ys)"
  shows "lease_ok (releaseAgentCtrl a c t) (xs @ ys)"
proof -
  have r: "range_ok (lt_agentPorts t)" "range_ok (lt_ctrlPorts t)"
    using ok by (simp_all add: lease_ok_def table_ok_def)
  have z: "0 \<notin># mset (pr_used (lt_agentPorts t))" "0 \<notin># mset (pr_used (lt_ctrlPorts t))"
    using ok by (simp_all add: lease_ok_def held_def)
  have "table_ok (releaseAgentCtrl a c t)"
    using ok r by (simp add: releaseAgentCtrl_def lease_ok_def table_ok_def releasePort_ok)
  moreover have "mset (pr_used (releasePort a (lt_agentPorts t))) = held pl_agentPort agentIn t (xs @ ys)"
    using ok z by (cases "a = 0") (simp_all add: lease_ok_def releasePort_ok(2) [OF r(1)] held_flight)
  moreover have "mset (pr_used (releasePort c (lt_ctrlPorts t))) = held pl_ctrlPort ctrlIn t (xs @ ys)"
    using ok z by (cases "c = 0") (simp_all add: lease_ok_def releasePort_ok(2) [OF r(2)] held_flight)
  ultimately show ?thesis
    using ok by (simp add: lease_ok_def releaseAgentCtrl_def held_flight)
qed

lemma lease_ok_abort:
  assumes ok: "lease_ok t (xs @ Starting r p # ys)"
  shows "lease_ok (releaseGrpc p t) (xs @ ys)"
proof -
  have r: "range_ok (lt_grpcPorts t)"
    using ok by (simp add: lease_ok_def table_ok_def)
  have "table_ok (releaseGrpc p t)"
    using ok r by (simp add: releaseGrpc_def lease_ok_def table_ok_def releasePort_ok)
  moreover have "held pl_grpcPort grpcIn t (xs @ ys) \<subseteq># mset (pr_used (releasePort p (lt_grpcPorts t)))"
  proof (cases "p = 0")
    case True
    with ok have "held pl_grpcPort grpcIn t (xs @ ys) \<subseteq># mset (pr_used (lt_grpcPorts t))"
      by (simp add: lease_ok_def held_flight)
    with True held_zero show ?thesis
      by (simp add: releasePort_ok(2) [OF r] subset_release)
  next
    case False
    with ok show ?thesis
      by (simp add: lease_ok_def releasePort_ok(2) [OF r] held_flight insert_subset_eq_iff)
  qed
  ultimately show ?thesis
    using ok by (simp add: lease_ok_def releaseGrpc_def held_flight)
qed

lemma lease_ok_insert:
  assumes ok: "lease_ok t (xs @ Creating req a c s # ys)" and new: "leaseID \<notin> fst ` set (lt_leases t)"
    and ins: "createInsert (newLease req leaseID now a c s) t = Some t'"
  shows "lease_ok t' (xs @ ys)"
proof -
  let ?l = "newLease req leaseID now a c s"
  have l [simp]: "pl_owner ?l = cq_owner req" "pl_leaseID ?l = leaseID" "pl_agentPort ?l = a" "pl_ctrlPort ?l = c" "pl_grpcPort ?l = 0"
    by (simp_all add: newLease_def)
  have upd: "AList.update leaseID (length (lt_heap t)) (lt_leases t) = lt_leases t @ [(leaseID, length (lt_heap t))]"
    using new by (rule update_new)
  define sp where "sp = (if pl_device ?l \<noteq> '''' then AList.update (stickyKey (cq_owner req) (pl_device ?l)) a (lt_stickyPorts t)
    else lt_stickyPorts t)"
  from ins have room: "countLeases (cq_owner req) t < maxLeasesPerOwner"
    and t': "t' = t\<lparr>lt_heap := lt_heap t @ [?l], lt_leases := lt_leases t @ [(leaseID, length (lt_heap t))], lt_stickyPorts := sp\<rparr>"
    by (simp_all add: createInsert_def upd sp_def split: if_splits)
  have tok: "table_ok t"
    using ok by (simp add: lease_ok_def)
  then have list: "leaseList t' = leaseList t @ [?l]"
    by (auto simp: t' leaseList_def table_ok_def list_all_iff nth_append intro!: map_cong)
  have "table_ok t'"
  proof -
    have "countLeases owner t' \<le> maxLeasesPerOwner" for owner
      using tok room by (auto simp: countLeases_def list table_ok_def)
    moreover have "distinct (map snd (lt_leases t'))" "list_all (\<lambda>(_, r). r < length (lt_heap t')) (lt_leases t')"
      using tok by (auto simp: t' table_ok_def list_all_iff)
    ultimately show ?thesis
      using tok new by (simp add: table_ok_def t')
  qed
  moreover have "lt_agentPorts t' = lt_agentPorts t" "lt_ctrlPorts t' = lt_ctrlPorts t" "lt_grpcPorts t' = lt_grpcPorts t"
    by (simp_all add: t')
  moreover have "held f g t' fl = filter_mset (\<lambda>p. p \<noteq> 0) {#f ?l#} + held f g t fl" for f g fl
    by (simp add: held_def list)
  ultimately show ?thesis
    using ok by (simp add: lease_ok_def held_flight newLease_def)
qed

lemma lease_ok_begin:
  assumes ok: "lease_ok t fl" and b: "startBegin r running t = Inr (t', p)"
  shows "lease_ok t' (Starting r p # fl)"
proof -
  from b obtain pr where pr: "allocatePort (lt_grpcPorts t) = Some (pr, p)" and t': "t' = t\<lparr>lt_grpcPorts := pr\<rparr>"
    by (auto simp: startBegin_def split: if_splits option.splits)
  have r: "range_ok (lt_grpcPorts t)"
    using ok by (simp add: lease_ok_def table_ok_def)
  note p = allocatePort_ok [OF r pr]
  have "table_ok t'"
    using ok p(1) by (simp add: lease_ok_def table_ok_def t')
  with ok p show ?thesis
    by (simp add: lease_ok_def t' held_Cons)
qed

text \<open>Only the gRPC port of a lease ever changes; the other two are written once.\<close>

lemma countLeases_map: "countLeases owner t = length (filter (\<lambda>o'. o' = owner) (map pl_owner (leaseList t)))"
  by (simp add: countLeases_def filter_map comp_def)

lemma table_ok_write:
  assumes "table_ok t" "pl_owner l = pl_owner (lt_heap t ! r)"
  shows "table_ok (t\<lparr>lt_heap := (lt_heap t)[r := l]\<rparr>)"
proof -
  let ?t = "t\<lparr>lt_heap := (lt_heap t)[r := l]\<rparr>"
  have "map pl_owner (leaseList ?t) = map pl_owner (leaseList t)"
    using assms by (auto simp: leaseList_def table_ok_def list_all_iff field_of_update)
  then have "countLeases owner ?t = countLeases owner t" for owner
    by (simp add: countLeases_map)
  with assms(1) show ?thesis
    by (auto simp: table_ok_def)
qed

lemma held_write:
  assumes "table_ok t" "f l = f (lt_heap t ! r)"
  shows "held f g (t\<lparr>lt_heap := (lt_heap t)[r := l]\<rparr>) fl = held f g t fl"
proof -
  have "map f (leaseList (t\<lparr>lt_heap := (lt_heap t)[r := l]\<rparr>)) = map f (leaseList t)"
    using assms by (auto simp: leaseList_def table_ok_def list_all_iff field_of_update)
  then show ?thesis
    by (simp add: held_def)
qed

lemma held_grpc_write:
  assumes "table_ok t"
  shows "held pl_grpcPort g (t\<lparr>lt_heap := (lt_heap t)[r := l]\<rparr>) fl \<subseteq># filter_mset (\<lambda>p. p \<noteq> 0) {#pl_grpcPort l#} + held pl_grpcPort g t fl"
proof (cases "r \<in> snd ` set (lt_leases t)")
  case True
  then obtain k where "(k, r) \<in> set (lt_leases t)"
    by auto
  from leaseList_write [OF assms this, of l] obtain i where i: "i < length (leaseList t)"
    "leaseList (t\<lparr>lt_heap := (lt_heap t)[r := l]\<rparr>) = (leaseList t)[i := l]"
    by blast
  have "mset (map pl_grpcPort ((leaseList t)[i := l])) = add_mset (pl_grpcPort l) (mset (map pl_grpcPort (leaseList t)) - {#map pl_grpcPort (leaseList t) ! i#})"
    unfolding map_update by (rule mset_update) (use i(1) in simp)
  then have "mset (map pl_grpcPort ((leaseList t)[i := l])) \<subseteq># add_mset (pl_grpcPort l) (mset (map pl_grpcPort (leaseList t)))"
    by (metis diff_subset_eq_self mset_subset_eq_add_mset_cancel)
  then have "filter_mset (\<lambda>p. p \<noteq> 0) (mset (map pl_grpcPort ((leaseList t)[i := l]))) \<subseteq>#
      filter_mset (\<lambda>p. p \<noteq> 0) {#pl_grpcPort l#} + filter_mset (\<lambda>p. p \<noteq> 0) (mset (map pl_grpcPort (leaseList t)))"
    using multiset_filter_mono [of _ "add_mset (pl_grpcPort l) (mset (map pl_grpcPort (leaseList t)))" "\<lambda>p. p \<noteq> 0"] by fastforce
  then show ?thesis
    by (simp add: held_def i(2) flip: add.assoc)
next
  case False
  then show ?thesis
    by (simp add: held_def leaseList_write_other)
qed

lemma lease_ok_commit:
  assumes ok: "lease_ok t (xs @ Starting r p # ys)"
  shows "lease_ok (startCommit r sessionID p now t) (xs @ ys)"
proof -
  define l where "l = (lt_heap t ! r)\<lparr>pl_sessionID := sessionID, pl_grpcPort := p,
    pl_captureCount := pl_captureCount (lt_heap t ! r) + 1, pl_lastCaptureAt := now\<rparr>"
  have c: "startCommit r sessionID p now t = t\<lparr>lt_heap := (lt_heap t)[r := l]\<rparr>"
    by (simp add: startCommit_def l_def)
  have tok: "table_ok t"
    using ok by (simp add: lease_ok_def)
  have l: "pl_owner l = pl_owner (lt_heap t ! r)" "pl_agentPort l = pl_agentPort (lt_heap t ! r)"
    "pl_ctrlPort l = pl_ctrlPort (lt_heap t ! r)" "pl_grpcPort l = p"
    by (simp_all add: l_def)
  have "held pl_grpcPort grpcIn (t\<lparr>lt_heap := (lt_heap t)[r := l]\<rparr>) (xs @ ys) \<subseteq># mset (pr_used (lt_grpcPorts t))"
    using held_grpc_write [OF tok, of grpcIn r l "xs @ ys"] ok l(4)
    by (simp add: lease_ok_def held_flight) (meson subset_mset.order_trans)
  moreover have "held pl_agentPort agentIn t (xs @ Starting r p # ys) = held pl_agentPort agentIn t (xs @ ys)"
    "held pl_ctrlPort ctrlIn t (xs @ Starting r p # ys) = held pl_ctrlPort ctrlIn t (xs @ ys)"
    by (simp_all add: held_flight)
  ultimately show ?thesis
    using ok table_ok_write [OF tok l(1)] held_write [OF tok l(2)] held_write [OF tok l(3)]
    by (simp add: lease_ok_def c)
qed

lemma lease_ok_clear:
  assumes ok: "lease_ok t fl"
  shows "lease_ok (clearLeaseCapture sessionID now t) fl"
proof (cases "find (\<lambda>(_, r). pl_sessionID (lt_heap t ! r) = sessionID) (lt_leases t)")
  case None
  with ok show ?thesis
    by (simp add: clearLeaseCapture_def)
next
  case (Some kr)
  obtain k r where kr: "kr = (k, r)"
    by fastforce
  with Some have mem: "(k, r) \<in> set (lt_leases t)"
    by (force simp: find_Some_iff in_set_conv_nth)
  let ?old = "lt_heap t ! r"
  define l where "l = ?old\<lparr>pl_sessionID := '''', pl_grpcPort := 0, pl_lastCaptureAt := now\<rparr>"
  let ?t = "t\<lparr>lt_heap := (lt_heap t)[r := l]\<rparr>" and ?p = "pl_grpcPort ?old"
  have c: "clearLeaseCapture sessionID now t = releaseGrpc ?p ?t"
    using Some kr by (simp add: clearLeaseCapture_def l_def)
  have tok: "table_ok t"
    using ok by (simp add: lease_ok_def)
  have l: "pl_owner l = pl_owner ?old" "pl_agentPort l = pl_agentPort ?old" "pl_ctrlPort l = pl_ctrlPort ?old" "pl_grpcPort l = 0"
    by (simp_all add: l_def)
  have r: "range_ok (lt_grpcPorts t)"
    using tok by (simp add: table_ok_def)
  from leaseList_write [OF tok mem, of l] obtain i where i: "i < length (leaseList t)" "leaseList ?t = (leaseList t)[i := l]" "leaseList t ! i = ?old"
    by blast
  have "mset (map pl_grpcPort (leaseList ?t)) = add_mset 0 (mset (map pl_grpcPort (leaseList t)) - {#?p#})"
    unfolding i(2) map_update l(4) using mset_update [of i "map pl_grpcPort (leaseList t)" 0] i(1,3) by simp
  moreover have "?p \<in># mset (map pl_grpcPort (leaseList t))"
    using i(1,3) by (metis length_map nth_map nth_mem set_mset_mset)
  ultimately have h: "held pl_grpcPort grpcIn t fl = filter_mset (\<lambda>p. p \<noteq> 0) {#?p#} + held pl_grpcPort grpcIn ?t fl"
    by (auto simp: held_def dest!: multi_member_split)
  have "held pl_grpcPort grpcIn ?t fl \<subseteq># mset (pr_used (lt_grpcPorts t)) - {#?p#}"
  proof (cases "?p = 0")
    case True
    with ok h held_zero [of pl_grpcPort grpcIn ?t fl] show ?thesis
      by (simp add: lease_ok_def subset_release)
  next
    case False
    with ok h show ?thesis
      by (simp add: lease_ok_def insert_subset_eq_iff)
  qed
  moreover have "table_ok (releaseGrpc ?p ?t)"
    using table_ok_write [OF tok l(1)] r by (simp add: releaseGrpc_def table_ok_def releasePort_ok)
  ultimately show ?thesis
    using ok held_write [OF tok l(2)] held_write [OF tok l(3)]
    by (simp add: lease_ok_def c releaseGrpc_def releasePort_ok(2) [OF r])
qed

lemma mset_delete: "distinct (map fst xs) \<Longrightarrow> map_of xs k = Some v \<Longrightarrow> mset xs = add_mset (k, v) (mset (AList.delete k xs))"
proof (induction xs)
  case (Cons x xs)
  show ?case
  proof (cases "fst x = k")
    case True
    with Cons.prems have "k \<notin> fst ` set xs" "x = (k, v)"
      by (cases x; simp)+
    moreover from this(1) have "AList.delete k xs = xs"
      by (force simp: AList.delete_eq filter_id_conv)
    ultimately show ?thesis
      by simp
  next
    case False
    with Cons show ?thesis
      by (cases x) simp
  qed
qed simp

definition dropLease :: "string \<Rightarrow> leaseRef \<Rightarrow> leaseTable \<Rightarrow> leaseTable" where
  "dropLease leaseID r t =
     t\<lparr>lt_leases := AList.delete leaseID (lt_leases t), lt_heap := (lt_heap t)[r := (lt_heap t ! r)\<lparr>pl_agentStopped := True\<rparr>]\<rparr>"

lemma dropLease_sel [simp]:
  "lt_agentPorts (dropLease k r t) = lt_agentPorts t" "lt_ctrlPorts (dropLease k r t) = lt_ctrlPorts t"
  "lt_grpcPorts (dropLease k r t) = lt_grpcPorts t"
  by (simp_all add: dropLease_def)

lemma leaseList_drop:
  assumes "table_ok t" "map_of (lt_leases t) leaseID = Some r"
  shows "mset (leaseList t) = add_mset (lt_heap t ! r) (mset (leaseList (dropLease leaseID r t)))"
proof -
  have m: "mset (lt_leases t) = add_mset (leaseID, r) (mset (AList.delete leaseID (lt_leases t)))"
    using assms by (intro mset_delete) (simp_all add: table_ok_def)
  then have "mset (map snd (lt_leases t)) = add_mset r (mset (map snd (AList.delete leaseID (lt_leases t))))"
    by (metis image_mset_add_mset mset_map snd_conv)
  then have "r \<notin> set (map snd (AList.delete leaseID (lt_leases t)))"
    using assms(1) unfolding table_ok_def by (metis distinct.simps(2) mset.simps(2) mset_eq_imp_distinct_iff)
  then have "leaseList (dropLease leaseID r t) = map (\<lambda>(_, q). lt_heap t ! q) (AList.delete leaseID (lt_leases t))"
    by (auto simp: leaseList_def dropLease_def intro!: map_cong) (metis image_eqI nth_list_update_neq snd_conv)
  with m show ?thesis
    by (simp add: leaseList_def)
qed

lemma table_ok_drop:
  assumes "table_ok t" "map_of (lt_leases t) leaseID = Some r"
  shows "table_ok (dropLease leaseID r t)"
proof -
  have "countLeases owner (dropLease leaseID r t) \<le> countLeases owner t" for owner
  proof -
    have "size (filter_mset (\<lambda>l. pl_owner l = owner) (mset (leaseList (dropLease leaseID r t)))) \<le>
        size (filter_mset (\<lambda>l. pl_owner l = owner) (mset (leaseList t)))"
      unfolding leaseList_drop [OF assms] by simp
    then show ?thesis
      by (simp add: countLeases_def flip: mset_filter)
  qed
  then have "countLeases owner (dropLease leaseID r t) \<le> maxLeasesPerOwner" for owner
    using assms(1) order_trans unfolding table_ok_def by blast
  moreover have "distinct (map snd (AList.delete leaseID (lt_leases t)))"
    using assms(1) by (simp add: table_ok_def AList.delete_eq distinct_map_filter_key)
  moreover have "list_all (\<lambda>(_, q). q < length (lt_heap t)) (AList.delete leaseID (lt_leases t))"
    using assms(1) by (intro list_all_delete) (simp add: table_ok_def)
  ultimately show ?thesis
    using assms(1) by (simp add: table_ok_def distinct_delete) (simp add: dropLease_def distinct_delete)
qed

lemma held_drop:
  assumes "table_ok t" "map_of (lt_leases t) leaseID = Some r"
  shows "held f g t fl = filter_mset (\<lambda>p. p \<noteq> 0) {#f (lt_heap t ! r)#} + held f g (dropLease leaseID r t) fl"
proof -
  have "mset (map f (leaseList t)) = add_mset (f (lt_heap t ! r)) (mset (map f (leaseList (dropLease leaseID r t))))"
    unfolding mset_map leaseList_drop [OF assms] by simp
  then show ?thesis
    unfolding held_def by (auto simp del: mset_map)
qed

lemma lease_ok_forget: "lease_ok t (Starting r p # fl) \<Longrightarrow> lease_ok t fl"
  by (auto simp: lease_ok_def held_Cons split: if_splits dest: mset_subset_eq_insertD intro: subset_mset.less_imp_le)

lemma lease_ok_reclaim:
  assumes ok: "lease_ok t fl"
  shows "lease_ok (reclaimLease leaseID t) fl"
proof (cases "map_of (lt_leases t) leaseID")
  case None
  with ok show ?thesis
    by (simp add: reclaimLease_def)
next
  case (Some r)
  let ?l = "lt_heap t ! r" and ?t = "dropLease leaseID r t"
  let ?p = "pl_grpcPort ?l"
  have tok: "table_ok t"
    using ok by (simp add: lease_ok_def)
  note drop = table_ok_drop [OF tok Some] held_drop [OF tok Some]
  let ?u = "releaseAgentCtrl (pl_agentPort ?l) (pl_ctrlPort ?l) ?t"
  have "lease_ok ?t ([] @ Creating undefined (pl_agentPort ?l) (pl_ctrlPort ?l) False # Starting r ?p # fl)"
    using ok drop(1) by (simp add: lease_ok_def held_Cons drop(2))
  then have u: "lease_ok ?u ([] @ Starting r ?p # fl)"
    using lease_ok_abandon by fastforce
  then have "lease_ok (releaseGrpc ?p ?u) fl" "lease_ok ?u fl"
    using lease_ok_abort [OF u] lease_ok_forget [of ?u r ?p fl] by simp_all
  moreover have "reclaimLease leaseID t = (if 0 < ?p then releaseGrpc ?p ?u else ?u)"
    using Some by (simp add: reclaimLease_def dropLease_def Let_def)
  ultimately show ?thesis
    by simp
qed

lemma lease_run_ok: "lease_run t fl \<Longrightarrow> lease_ok t fl"
proof (induction rule: lease_run.induct)
  case start
  show ?case
    by (simp add: lease_ok_def table_ok_def newLeaseTable_def newPortRange_def range_ok_def countLeases_def leaseList_def held_def)
next
  case (allocated t fl req t' a c s)
  then show ?case
    using lease_ok_allocate [of t fl _ _ _ t' "Inr (a, c, s)" req] by simp
next
  case (unallocated t fl owner device noSticky t' e)
  then show ?case
    using lease_ok_allocate [of t fl owner device noSticky t' "Inl e"] by simp
qed (auto intro: lease_ok_abandon lease_ok_insert lease_ok_begin lease_ok_abort lease_ok_commit lease_ok_clear lease_ok_reclaim)

section \<open>Properties\<close>

lemma distinct_submset:
  assumes "mset xs \<subseteq># mset ys" "distinct ys"
  shows "distinct xs"
  unfolding distinct_count_atmost_1
proof
  fix a
  have "count (mset xs) a \<le> count (mset ys) a"
    using assms(1) by (simp add: subseteq_mset_def)
  also have "\<dots> \<le> 1"
    using assms(2) by (simp add: distinct_count_atmost_1)
  finally show "count (mset xs) a = (if a \<in> set xs then 1 else 0)"
    by (cases "a \<in> set xs") (simp_all add: count_mset_0_iff le_Suc_eq not_in_iff)
qed

lemma held_distinct:
  assumes "held f g t fl \<subseteq># mset used" "distinct used"
  shows "distinct (filter (\<lambda>p. p \<noteq> 0) (map f (leaseList t)))"
proof (rule distinct_submset [OF _ assms(2)])
  have "mset (filter (\<lambda>p. p \<noteq> 0) (map f (leaseList t))) \<subseteq># held f g t fl"
    by (simp add: held_def)
  with assms(1) show "mset (filter (\<lambda>p. p \<noteq> 0) (map f (leaseList t))) \<subseteq># mset used"
    by (rule subset_mset.order_trans [rotated])
qed


lemma create_success:
  assumes "createProxyLease req out t = (t', Inr r)"
  obtains a c s t1 where "createAllocate (cq_owner req) (cq_device req) (cq_noSticky req) t = (t1, Inr (a, c, s))"
    "createInsert (newLease req (co_leaseID out) (co_now out) a c s) t1 = Some t'" "r = length (lt_heap t1)"
  using assms that
  by (auto simp: createProxyLease_def Let_def split: if_splits prod.splits sum.splits option.splits)

lemma createAllocate_keeps:
  assumes "createAllocate owner device noSticky t = (t', res)"
  shows "lt_leases t' = lt_leases t" "lt_heap t' = lt_heap t" "lt_stickyPorts t' = lt_stickyPorts t"
proof -
  have "lt_leases t1 = lt_leases t \<and> lt_heap t1 = lt_heap t \<and> lt_stickyPorts t1 = lt_stickyPorts t"
    if "allocateAgentPort owner device noSticky t = (t1, x)" for t1 x
    using that by (auto simp: allocateAgentPort_def Let_def split: if_splits option.splits prod.splits)
  then show "lt_leases t' = lt_leases t" "lt_heap t' = lt_heap t" "lt_stickyPorts t' = lt_stickyPorts t"
    using assms by (auto simp: createAllocate_def split: prod.splits option.splits)
qed

text \<open>
  A phone keeps its address: when a lease created for a device is released, the next lease
  of the same owner and device is given the same agent port, so that the code it scanned stays
  valid.
\<close>

theorem sticky_port_kept:
  assumes run: "lease_run t fl" and create: "createProxyLease req out t = (t', Inr r)" and new: "co_leaseID out \<notin> fst ` set (lt_leases t)"
    and device: "cq_device req \<noteq> ''''" and port: "pl_agentPort (lt_heap t' ! r) = p" "p \<noteq> 0"
  shows "snd (allocateAgentPort (cq_owner req) (cq_device req) False (reclaimLease (co_leaseID out) t')) = (p, True)"
proof -
  obtain a c s t1 where alloc: "createAllocate (cq_owner req) (cq_device req) (cq_noSticky req) t = (t1, Inr (a, c, s))"
    and ins: "createInsert (newLease req (co_leaseID out) (co_now out) a c s) t1 = Some t'" and r: "r = length (lt_heap t1)"
    using create_success [OF create] by metis
  let ?l = "newLease req (co_leaseID out) (co_now out) a c s" and ?k = "stickyKey (cq_owner req) (cq_device req)"
  have keys: "co_leaseID out \<notin> fst ` set (lt_leases t1)"
    using new createAllocate_keeps(1) [OF alloc] by simp
  have t': "lt_heap t' = lt_heap t1 @ [?l]" "lt_leases t' = lt_leases t1 @ [(co_leaseID out, r)]"
    "map_of (lt_stickyPorts t') ?k = Some a" "lt_agentPorts t' = lt_agentPorts t1"
    using ins keys device by (auto simp: createInsert_def newLease_def update_new r update_conv' split: if_splits)
  have p: "p = a"
    using port(1) by (simp add: t'(1) r newLease_def)
  have "lease_run t1 ([] @ Creating req a c s # fl)"
    using lease_run.allocated [OF run alloc] by simp
  from lease_run.inserted [OF this keys ins] have ok: "lease_ok t' fl"
    by (simp add: lease_run_ok)
  then have rng: "range_ok (lt_agentPorts t')"
    by (simp add: lease_ok_def table_ok_def)
  have lookup: "map_of (lt_leases t') (co_leaseID out) = Some r"
    using keys by (simp add: t'(2) map_of_eq_None_iff [symmetric] map_add_def)
  have "?l \<in> set (leaseList t')"
    by (simp add: leaseList_def t'(1,2) r)
  then have "pl_agentPort ?l \<in> pl_agentPort ` set (leaseList t')"
    by (rule imageI)
  then have "a \<in># held pl_agentPort agentIn t' fl"
    using port(2) p by (simp add: held_def) (simp add: newLease_def)
  then have used: "a \<in> set (pr_used (lt_agentPorts t'))"
    using ok by (metis lease_ok_def set_mset_mset)
  let ?u = "reclaimLease (co_leaseID out) t'"
  have u: "lt_agentPorts ?u = releasePort a (lt_agentPorts t')" "lt_stickyPorts ?u = lt_stickyPorts t'"
    using lookup by (simp_all add: reclaimLease_def Let_def releaseAgentCtrl_def releaseGrpc_def t'(1) r newLease_def)
  have "reservePort a (releasePort a (lt_agentPorts t')) \<noteq> None"
    using used rng by (auto simp: reservePort_def releasePort_def range_ok_def)
  then show ?thesis
    by (auto simp: allocateAgentPort_def Let_def u t'(3) p)
qed

text \<open>
  Exhausting the agent ports goes unnoticed: with all hundred ports taken, creating a lease
  does not fail but yields a lease with agent port 0, although the control ports report
  exhaustion as an error.
\<close>

theorem agent_port_exhaustion_unnoticed:
  assumes "countLeases (cq_owner req) t < maxLeasesPerOwner" and "allocatePort (lt_agentPorts t) = None" and "cq_noSticky req"
    and "allocatePort (lt_ctrlPorts t) = Some (pr, c)"
    and "co_agentBindable out 0" "co_ctrlBindable out c" "co_spawned out" "co_running out" "co_controlReady out"
  shows "\<exists>t' r. createProxyLease req out t = (t', Inr r) \<and> pl_agentPort (lt_heap t' ! r) = 0 \<and>
     map_of (lt_leases t') (co_leaseID out) = Some r"
proof -
  let ?t = "t\<lparr>lt_ctrlPorts := pr\<rparr>" and ?l = "newLease req (co_leaseID out) (co_now out) 0 c False"
  have "createAllocate (cq_owner req) (cq_device req) (cq_noSticky req) t = (?t, Inr (0, c, False))"
    using assms(2-4) by (simp add: createAllocate_def allocateAgentPort_def)
  moreover have "\<not> maxLeasesPerOwner \<le> countLeases (pl_owner ?l) ?t"
    using assms(1) by (simp add: newLease_def)
  then obtain t' where "createInsert ?l ?t = Some t'" "lt_heap t' = lt_heap t @ [?l]" "map_of (lt_leases t') (co_leaseID out) = Some (length (lt_heap t))"
    by (auto simp: createInsert_def) (simp add: newLease_def update_conv')
  ultimately show ?thesis
    using assms(1,5-9) by (auto simp: createProxyLease_def Let_def) (simp add: newLease_def)
qed

lemma clear_absent:
  assumes "\<And>j q. (j, q) \<in> set (lt_leases t) \<Longrightarrow> pl_sessionID (lt_heap t ! q) \<noteq> s"
  shows "clearLeaseCapture s now t = t"
proof -
  have "find (\<lambda>(_, q). pl_sessionID (lt_heap t ! q) = s) (lt_leases t) = None"
    using assms unfolding find_None_iff by auto
  then show ?thesis
    by (simp add: clearLeaseCapture_def)
qed

lemma clear_of_lease:
  assumes "(k, r) \<in> set (lt_leases t)" "pl_sessionID (lt_heap t ! r) = s"
    and "\<And>j q. (j, q) \<in> set (lt_leases t) \<Longrightarrow> pl_sessionID (lt_heap t ! q) = s \<Longrightarrow> q = r"
  shows "clearLeaseCapture s now t = releaseGrpc (pl_grpcPort (lt_heap t ! r))
    (t\<lparr>lt_heap := (lt_heap t)[r := (lt_heap t ! r)\<lparr>pl_sessionID := [], pl_grpcPort := 0, pl_lastCaptureAt := now\<rparr>]\<rparr>)"
proof -
  have "find (\<lambda>(_, q). pl_sessionID (lt_heap t ! q) = s) (lt_leases t) \<noteq> None"
    using assms(1,2) unfolding find_None_iff by auto
  then obtain j q where f: "find (\<lambda>(_, q). pl_sessionID (lt_heap t ! q) = s) (lt_leases t) = Some (j, q)"
    by auto
  then have "(j, q) \<in> set (lt_leases t)" "pl_sessionID (lt_heap t ! q) = s"
    by (auto simp: find_Some_iff in_set_conv_nth)
  then have "q = r"
    by (rule assms(3))
  with f show ?thesis
    by (simp add: clearLeaseCapture_def)
qed

lemma lease_grpc_used:
  assumes "lease_ok t fl" "(i, m) \<in> set (lt_leases t)" "pl_grpcPort (lt_heap t ! m) \<noteq> 0"
  shows "pl_grpcPort (lt_heap t ! m) \<in> set (pr_used (lt_grpcPorts t))"
proof -
  have "lt_heap t ! m \<in> set (leaseList t)"
    using assms(2) by (force simp: leaseList_def)
  with assms(3) have "pl_grpcPort (lt_heap t ! m) \<in># held pl_grpcPort grpcIn t fl"
    by (simp add: held_def)
  with assms(1) show ?thesis
    unfolding lease_ok_def by (metis mset_subset_eqD set_mset_mset)
qed

text \<open>
  Starting a capture twice at the same time orphans a session: the guard against a second
  capture is checked before the session is started and the lease is marked only afterwards. When
  two starts overlap, the second overwrites the first; the first session belongs to no lease any
  more, and after both sessions have ended its gRPC port is still taken, held by nobody.
\<close>

theorem concurrent_start_orphans:
  assumes run: "lease_run t fl" and lease: "(k, r) \<in> set (lt_leases t)"
    and first: "startBegin r True t = Inr (t1, p1)" and second: "startBegin r True t1 = Inr (t2, p2)"
    and fresh: "s1 \<notin> pl_sessionID ` set (lt_heap t)" "s2 \<notin> pl_sessionID ` set (lt_heap t)" "s1 \<noteq> s2"
    and both: "t' = startCommit r s2 p2 now (startCommit r s1 p1 now t2)"
    and ends: "t'' = clearLeaseCapture s2 now (clearLeaseCapture s1 now t')"
  shows "s1 \<notin> pl_sessionID ` set (leaseList t') \<and> p1 \<in> set (pr_used (lt_grpcPorts t'')) \<and> p1 \<notin> pl_grpcPort ` set (leaseList t'')"
proof -
  obtain pr1 where pr1: "allocatePort (lt_grpcPorts t) = Some (pr1, p1)" and t1: "t1 = t\<lparr>lt_grpcPorts := pr1\<rparr>"
    using first by (auto simp: startBegin_def split: if_splits option.splits)
  obtain pr2 where pr2: "allocatePort pr1 = Some (pr2, p2)" and t2: "t2 = t\<lparr>lt_grpcPorts := pr2\<rparr>"
    using second by (auto simp: startBegin_def t1 split: if_splits option.splits)
  have ok: "lease_ok t fl" "table_ok t" "range_ok (lt_grpcPorts t)"
    using lease_run_ok [OF run] by (simp_all add: lease_ok_def table_ok_def)
  note a1 = allocatePort_ok [OF ok(3) pr1] and a2 = allocatePort_ok [OF allocatePort_ok(1) [OF ok(3) pr1] pr2]
  have used: "p1 \<noteq> p2" "p1 \<in> set (pr_used pr2)"
    using a1(2) a2(2,3) by (metis set_mset_mset union_single_eq_member, metis insert_iff set_mset_add_mset_insert set_mset_mset)
  have refs: "q < length (lt_heap t)" if "(j, q) \<in> set (lt_leases t)" for j q
    using ok(2) that by (auto simp: table_ok_def list_all_iff)
  define l where "l = lt_heap t' ! r"
  have t': "t' = t\<lparr>lt_grpcPorts := pr2, lt_heap := (lt_heap t)[r := l]\<rparr>" and l: "pl_sessionID l = s2" "pl_grpcPort l = p2"
    using refs [OF lease] by (simp_all add: both t2 startCommit_def l_def)
  have at: "lt_heap t' ! q = (if q = r then l else lt_heap t ! q)" if "(j, q) \<in> set (lt_leases t)" for j q
    using refs [OF that] by (simp add: t' nth_list_update)
  have none: "pl_sessionID (lt_heap t' ! q) \<noteq> s1" if "(j, q) \<in> set (lt_leases t)" for j q
    using at [OF that] refs [OF that] fresh(1,3) l(1) by auto
  have "clearLeaseCapture s1 now t' = t'"
    by (rule clear_absent) (use none in \<open>simp add: t'\<close>)
  moreover have only: "q = r" if "(j, q) \<in> set (lt_leases t)" "pl_sessionID (lt_heap t' ! q) = s2" for j q
    using at [OF that(1)] that(2) refs [OF that(1)] fresh(2) by (auto split: if_splits)
  have leases: "lt_leases t' = lt_leases t"
    by (simp add: t')
  have "clearLeaseCapture s2 now t' = releaseGrpc (pl_grpcPort (lt_heap t' ! r))
      (t'\<lparr>lt_heap := (lt_heap t')[r := (lt_heap t' ! r)\<lparr>pl_sessionID := [], pl_grpcPort := 0, pl_lastCaptureAt := now\<rparr>]\<rparr>)"
    using lease l(1) only unfolding leases [symmetric] l_def by (rule clear_of_lease)
  ultimately have t'': "t'' = releaseGrpc p2
      (t'\<lparr>lt_heap := (lt_heap t')[r := (lt_heap t' ! r)\<lparr>pl_sessionID := [], pl_grpcPort := 0, pl_lastCaptureAt := now\<rparr>]\<rparr>)"
    using l(2) by (simp add: ends l_def)
  have "pl_grpcPort (lt_heap t'' ! m) \<noteq> p1" if "(i, m) \<in> set (lt_leases t)" for i m
    using lease_grpc_used [OF ok(1) that] refs [OF that] a1(3,4) by (cases "m = r") (auto simp: t'' t' releaseGrpc_def)
  then have "p1 \<notin> pl_grpcPort ` set (leaseList t'')"
    by (auto simp: leaseList_def t'' t' releaseGrpc_def)
  moreover have "p1 \<in> set (pr_used (lt_grpcPorts t''))" "s1 \<notin> pl_sessionID ` set (leaseList t')"
    using used none by (auto simp: t'' t' releaseGrpc_def releasePort_def leaseList_def)
  ultimately show ?thesis
    by blast
qed

section \<open>Leases on concrete data\<close>

definition demoRequest :: createRequest where
  "demoRequest =
     \<lparr>cq_owner = ''alice'', cq_projectID = '''', cq_plugin = ''p'', cq_pluginOwners = [], cq_includeHosts = [], cq_includePorts = [],
      cq_device = ''phone'', cq_noSticky = True\<rparr>"

definition demoOutcome :: createOutcome where
  "demoOutcome = \<lparr>co_agentBindable = (\<lambda>_. True), co_ctrlBindable = (\<lambda>_. True), co_spawned = True, co_running = True,
     co_controlReady = True, co_leaseID = ''lease_1'', co_now = 7\<rparr>"

definition demoLeased :: leaseTable where
  "demoLeased = fst (createProxyLease demoRequest demoOutcome newLeaseTable)"

lemma demo_created: "createProxyLease demoRequest demoOutcome newLeaseTable = (demoLeased, Inr 0)"
proof -
  have "snd (createProxyLease demoRequest demoOutcome newLeaseTable) = Inr 0"
    by code_simp
  then show ?thesis
    by (simp add: demoLeased_def prod_eq_iff)
qed

lemma demo_lease_run: "lease_run demoLeased []"
proof -
  obtain a c s t1 where a: "createAllocate (cq_owner demoRequest) (cq_device demoRequest) (cq_noSticky demoRequest) newLeaseTable = (t1, Inr (a, c, s))"
    and i: "createInsert (newLease demoRequest (co_leaseID demoOutcome) (co_now demoOutcome) a c s) t1 = Some demoLeased"
    using create_success [OF demo_created] by metis
  have "lease_run t1 ([] @ Creating demoRequest a c s # [])"
    using lease_run.allocated [OF lease_run.start a] by simp
  moreover have "co_leaseID demoOutcome \<notin> fst ` set (lt_leases t1)"
    using createAllocate_keeps(1) [OF a] by (simp add: newLeaseTable_def)
  ultimately show ?thesis
    using lease_run.inserted [OF _ _ i] by fastforce
qed


theorem sticky_port_kept_witness:
  "snd (allocateAgentPort ''alice'' ''phone'' False (reclaimLease ''lease_1'' demoLeased)) = (12100, True)"
proof -
  have "pl_agentPort (lt_heap demoLeased ! 0) = 12100"
    by code_simp
  from sticky_port_kept [OF lease_run.start demo_created _ _ this] show ?thesis
    by (simp add: newLeaseTable_def demoOutcome_def demoRequest_def)
qed

definition fullTable :: leaseTable where
  "fullTable = newLeaseTable\<lparr>lt_agentPorts := (newPortRange 12100 12199)\<lparr>pr_used := [12100..12199]\<rparr>\<rparr>"

lemma full_range_None:
  "0 < a \<Longrightarrow> a \<le> b \<Longrightarrow> allocatePort ((newPortRange a b)\<lparr>pr_used := [a..b]\<rparr>) = None"
  by (subst allocatePort_None) (auto simp: newPortRange_def range_ok_def)

theorem agent_port_exhaustion_unnoticed_witness:
  "\<exists>t' r. createProxyLease demoRequest demoOutcome fullTable = (t', Inr r) \<and> pl_agentPort (lt_heap t' ! r) = 0 \<and>
     map_of (lt_leases t') ''lease_1'' = Some r"
proof -
  have full: "allocatePort (lt_agentPorts fullTable) = None"
    using full_range_None [of 12100 12199] by (simp add: fullTable_def del: upto_rec_numeral)
  have "\<not> Option.is_none (allocatePort (lt_ctrlPorts newLeaseTable))"
    by code_simp
  then obtain pr c where "allocatePort (lt_ctrlPorts fullTable) = Some (pr, c)"
    by (auto simp: fullTable_def Option.is_none_def)
  from agent_port_exhaustion_unnoticed [OF _ full _ this, of demoRequest demoOutcome] show ?thesis
    by (simp add: demoOutcome_def demoRequest_def countLeases_def leaseList_def fullTable_def newLeaseTable_def maxLeasesPerOwner_def)
qed

definition demoStarts :: "leaseTable \<times> leaseTable \<times> int \<times> int" where
  "demoStarts = (case startBegin 0 True demoLeased of
     Inr (t1, p1) \<Rightarrow> (case startBegin 0 True t1 of Inr (t2, p2) \<Rightarrow> (t1, t2, p1, p2) | Inl _ \<Rightarrow> (t1, t1, p1, 0))
   | Inl _ \<Rightarrow> (demoLeased, demoLeased, 0, 0))"

theorem concurrent_start_orphans_witness:
  "19100 \<in> set (pr_used (lt_grpcPorts (clearLeaseCapture ''s2'' 9 (clearLeaseCapture ''s1'' 9
      (startCommit 0 ''s2'' 19101 9 (startCommit 0 ''s1'' 19100 9 (fst (snd demoStarts))))))))"
proof -
  have lookup: "map_of (lt_leases demoLeased) ''lease_1'' = Some 0" "map pl_sessionID (lt_heap demoLeased) = [[]]"
    by code_simp+
  have "\<not> Option.is_none (allocatePort (lt_grpcPorts demoLeased))" "snd (snd demoStarts) = (19100, 19101)"
    by code_simp+
  moreover have "pl_sessionID (lt_heap demoLeased ! 0) = []"
    using lookup(2) by (metis length_map list.size(3) list.size(4) nth_Cons_0 nth_map zero_less_Suc One_nat_def add.commute plus_1_eq_Suc)
  ultimately have s: "startBegin 0 True demoLeased = Inr (fst demoStarts, 19100)" "startBegin 0 True (fst demoStarts) = Inr (fst (snd demoStarts), 19101)"
    by (auto simp: demoStarts_def startBegin_def Option.is_none_def split: option.splits prod.splits sum.splits if_splits)
  have "pl_sessionID ` set (lt_heap demoLeased) = {[]}"
    using lookup(2) by (metis image_set list.set(1) list.set(2))
  with concurrent_start_orphans [OF demo_lease_run map_of_SomeD [OF lookup(1)] s, of "''s1''" "''s2''"] show ?thesis
    by simp
qed

end
