(* ===== verification/Go_Collections.thy ===== *)
theory Go_Collections
  imports GT_Prelude "HOL-Library.Multiset" "HOL-Library.Product_Lexorder" "HOL-Library.Signed_Division"
begin

text \<open>
  Idioms of the Go sources that several components share: 64-bit arithmetic on times and
  durations, lists without duplicates (\<open>appendUnique\<close>), the loop that looks an element up by
  its key and appends a new one when it is missing (\<open>upsert\<close>), and sorting by a key. The main
  fact, \<open>upsert_groups\<close>, gives the closed form of every grouping loop: one element for each
  key, in the order in which the keys first occur, folded over the items with that key.
\<close>

section \<open>Times and durations\<close>

text \<open>
  Signed 64-bit wrap-around; the zero \<open>time.Time\<close> (1 January of year 1) in nanoseconds of the
  Unix clock, which is outside the range of \<open>int64\<close>; \<open>UnixNano\<close>, which wraps; \<open>Time.Sub\<close>,
  which saturates; \<open>Duration.Milliseconds\<close>, which truncates towards zero.
\<close>

definition wrap64 :: "int \<Rightarrow> int" where
  "wrap64 n = (n + 2 ^ 63) mod 2 ^ 64 - 2 ^ 63"

definition zeroTime :: time where
  "zeroTime = - 62135596800000000000"

definition unixNano :: "time \<Rightarrow> int" where
  "unixNano t = wrap64 t"

definition timeSub :: "time \<Rightarrow> time \<Rightarrow> int" where
  "timeSub t u = max (- (2 ^ 63)) (min (2 ^ 63 - 1) (t - u))"

definition milliseconds :: "int \<Rightarrow> int" where
  "milliseconds d = d sdiv 1000000"

text \<open>\<open>time.Duration(ms) * time.Millisecond\<close>.\<close>

definition durationMS :: "int \<Rightarrow> int" where
  "durationMS ms = wrap64 (ms * 1000000)"

lemma wrap64_id: "- (2 ^ 63) \<le> n \<Longrightarrow> n < 2 ^ 63 \<Longrightarrow> wrap64 n = n"
  by (simp add: wrap64_def)

lemma wrap64_bounds: "- (2 ^ 63) \<le> wrap64 n" "wrap64 n < 2 ^ 63"
  by (simp_all add: wrap64_def)

lemma sdiv_mono: "0 < (b::int) \<Longrightarrow> x \<le> y \<Longrightarrow> x sdiv b \<le> y sdiv b"
proof -
  assume b: "0 < b" and le: "x \<le> y"
  have sdiv: "z sdiv b = (if 0 \<le> z then z div b else - ((- z) div b))" for z
    using b by (simp add: signed_divide_int_def sgn_if)
  show ?thesis
    using b le by (auto simp: sdiv zdiv_mono1 pos_imp_zdiv_nonneg_iff intro: order_trans [of _ 0])
qed

lemma milliseconds_mono: "x \<le> y \<Longrightarrow> milliseconds x \<le> milliseconds y"
  by (simp add: milliseconds_def sdiv_mono)

lemma timeSub_mono: "t \<le> u \<Longrightarrow> timeSub t z \<le> timeSub u z"
  by (auto simp: timeSub_def)

section \<open>Lists without duplicates\<close>

definition appendUnique :: "'a list \<Rightarrow> 'a \<Rightarrow> 'a list" where
  "appendUnique list v = (if v \<in> set list then list else list @ [v])"

definition uniq :: "'a list \<Rightarrow> 'a list" where
  "uniq xs = fold (\<lambda>v l. appendUnique l v) xs []"

lemma uniq_Nil [simp]: "uniq [] = []"
  by (simp add: uniq_def)

lemma uniq_snoc: "uniq (xs @ [x]) = appendUnique (uniq xs) x"
  by (simp add: uniq_def)

lemma set_uniq [simp]: "set (uniq xs) = set xs"
  by (induction xs rule: rev_induct) (auto simp: uniq_snoc appendUnique_def)

lemma distinct_uniq [simp]: "distinct (uniq xs)"
  by (induction xs rule: rev_induct) (auto simp: uniq_snoc appendUnique_def)

lemma length_uniq: "length (uniq xs) = card (set xs)"
  by (metis distinct_card distinct_uniq set_uniq)

lemma uniq_id: "distinct xs \<Longrightarrow> uniq xs = xs"
  by (induction xs rule: rev_induct) (auto simp: uniq_snoc appendUnique_def)

lemma uniq_empty_iff [simp]: "uniq xs = [] \<longleftrightarrow> xs = []"
  by (metis set_empty set_uniq)

section \<open>Look up or append\<close>

fun updFirst :: "('b \<Rightarrow> bool) \<Rightarrow> ('b \<Rightarrow> 'b) \<Rightarrow> 'b list \<Rightarrow> 'b list" where
  "updFirst p f [] = []"
| "updFirst p f (b # bs) = (if p b then f b # bs else b # updFirst p f bs)"

text \<open>A new element may depend on its position, the length of the list before it.\<close>

definition upsert :: "('b \<Rightarrow> bool) \<Rightarrow> (nat \<Rightarrow> 'b) \<Rightarrow> ('b \<Rightarrow> 'b) \<Rightarrow> 'b list \<Rightarrow> 'b list" where
  "upsert p new f bs = (if list_ex p bs then updFirst p f bs else bs @ [f (new (length bs))])"

lemma updFirst_map:
  "distinct (map kb bs) \<Longrightarrow> updFirst (\<lambda>b. kb b = k) f bs = map (\<lambda>b. if kb b = k then f b else b) bs"
proof (induction bs)
  case (Cons b bs)
  then show ?case
    by (auto simp: image_iff intro!: map_idI [symmetric])
qed simp

lemma list_ex_key: "list_ex (\<lambda>b. kb b = k) bs \<longleftrightarrow> k \<in> set (map kb bs)"
  by (auto simp: list_ex_iff)

text \<open>The closed form of a grouping loop.\<close>

definition members :: "('a \<Rightarrow> 'k) \<Rightarrow> 'a list \<Rightarrow> 'k \<Rightarrow> 'a list" where
  "members key xs k = filter (\<lambda>x. key x = k) xs"

definition groupOf :: "('a \<Rightarrow> 'k) \<Rightarrow> ('a \<Rightarrow> nat \<Rightarrow> 'b) \<Rightarrow> ('a \<Rightarrow> 'b \<Rightarrow> 'b) \<Rightarrow> 'a list \<Rightarrow> nat \<times> 'k \<Rightarrow> 'b" where
  "groupOf key new upd xs ik =
     (let ys = members key xs (snd ik) in fold upd ys (new (hd ys) (fst ik)))"

definition groupLoop :: "('a \<Rightarrow> 'k) \<Rightarrow> ('b \<Rightarrow> 'k) \<Rightarrow> ('a \<Rightarrow> nat \<Rightarrow> 'b) \<Rightarrow> ('a \<Rightarrow> 'b \<Rightarrow> 'b) \<Rightarrow> 'a list \<Rightarrow> 'b list" where
  "groupLoop key kb new upd xs = fold (\<lambda>x. upsert (\<lambda>b. kb b = key x) (new x) (upd x)) xs []"

lemma members_snoc: "members key (xs @ [x]) k = members key xs k @ (if key x = k then [x] else [])"
  by (simp add: members_def)

lemma members_empty_iff: "members key xs k = [] \<longleftrightarrow> k \<notin> key ` set xs"
  by (auto simp: members_def filter_empty_conv)

lemma set_members: "set (members key xs k) = {x \<in> set xs. key x = k}"
  by (auto simp: members_def)

lemma upsert_groups:
  assumes new: "\<And>x i. kb (new x i) = key x" and upd: "\<And>x b. kb (upd x b) = kb b"
  shows "groupLoop key kb new upd xs = map (groupOf key new upd xs) (enumerate 0 (uniq (map key xs)))"
proof (induction xs rule: rev_induct)
  case Nil
  then show ?case by (simp add: groupLoop_def)
next
  case (snoc x xs)
  let ?ks = "uniq (map key xs)" and ?g = "groupOf key new upd xs" and ?g' = "groupOf key new upd (xs @ [x])"
  have kfold: "kb (fold upd ys b) = kb b" for ys b
    by (induction ys arbitrary: b) (simp_all add: upd)
  have kb: "kb (?g (i, k)) = k" if "k \<in> set ?ks" for i k
  proof -
    have "members key xs k \<noteq> []"
      using that by (auto simp: members_empty_iff)
    then have "hd (members key xs k) \<in> set (members key xs k)"
      by simp
    then show ?thesis
      by (simp add: groupOf_def Let_def kfold new set_members)
  qed
  have kb_nth: "kb (?g (i, ?ks ! i)) = ?ks ! i" if "i < length ?ks" for i
    using kb [OF nth_mem [OF that]] .
  have keys: "map kb (map ?g (enumerate 0 ?ks)) = ?ks"
    by (rule nth_equalityI) (simp_all add: nth_enumerate_eq kb_nth)
  have step: "groupLoop key kb new upd (xs @ [x]) =
      upsert (\<lambda>b. kb b = key x) (new x) (upd x) (map ?g (enumerate 0 ?ks))"
    using snoc.IH by (simp add: groupLoop_def)
  have old: "?g' (i, k) = (if k = key x then upd x (?g (i, k)) else ?g (i, k))" if "k \<in> set ?ks" for i k
  proof -
    have "members key xs k \<noteq> []"
      using that by (auto simp: members_empty_iff)
    then show ?thesis
      by (simp add: groupOf_def Let_def members_snoc)
  qed
  have old_nth: "?g' (i, ?ks ! i) = (if ?ks ! i = key x then upd x (?g (i, ?ks ! i)) else ?g (i, ?ks ! i))"
    if "i < length ?ks" for i
    using old [OF nth_mem [OF that]] .
  have ex: "list_ex (\<lambda>b. kb b = key x) (map ?g (enumerate 0 ?ks)) \<longleftrightarrow> key x \<in> set ?ks"
    using list_ex_key [of kb "key x" "map ?g (enumerate 0 ?ks)"] unfolding keys .
  show ?case
  proof (cases "key x \<in> set ?ks")
    case True
    have "upsert (\<lambda>b. kb b = key x) (new x) (upd x) (map ?g (enumerate 0 ?ks)) =
        map (\<lambda>b. if kb b = key x then upd x b else b) (map ?g (enumerate 0 ?ks))"
      unfolding upsert_def using True ex keys by (simp add: updFirst_map del: map_map)
    also have "\<dots> = map ?g' (enumerate 0 ?ks)"
      by (rule nth_equalityI) (simp_all add: nth_enumerate_eq kb_nth old_nth)
    finally show ?thesis
      using True by (simp add: step uniq_snoc appendUnique_def)
  next
    case False
    then have none: "members key xs (key x) = []"
      by (simp add: members_empty_iff)
    have "map ?g (enumerate 0 ?ks) = map ?g' (enumerate 0 ?ks)"
    proof (rule nth_equalityI)
      fix i assume "i < length (map ?g (enumerate 0 ?ks))"
      then have i: "i < length ?ks"
        by simp
      with False have "?ks ! i \<noteq> key x"
        using nth_mem [OF i] by metis
      with i show "map ?g (enumerate 0 ?ks) ! i = map ?g' (enumerate 0 ?ks) ! i"
        by (simp add: nth_enumerate_eq old_nth)
    qed simp
    moreover have "upd x (new x (length ?ks)) = ?g' (length ?ks, key x)"
      by (simp add: groupOf_def members_snoc none)
    ultimately show ?thesis
      using False ex by (simp add: step upsert_def uniq_snoc appendUnique_def enumerate_append_eq)
  qed
qed


section \<open>Groups partition their items\<close>

lemma mset_members_split:
  assumes "distinct ks" and "key ` set xs \<subseteq> set ks"
  shows "mset (concat (map (members key xs) ks)) = mset xs"
  using assms
proof (induction ks arbitrary: xs)
  case (Cons k ks)
  let ?rest = "filter (\<lambda>x. key x \<noteq> k) xs"
  have same: "members key xs k' = members key ?rest k'" if "k' \<in> set ks" for k'
    using Cons.prems(1) that by (auto simp: members_def intro!: filter_cong)
  have IH: "mset (concat (map (members key ?rest) ks)) = mset ?rest"
    using Cons.prems by (intro Cons.IH) auto
  have rest: "map (members key xs) ks = map (members key ?rest) ks"
    by (rule map_cong) (simp_all add: same)
  have split: "mset (members key xs k) + mset ?rest = mset xs"
    by (simp add: members_def multiset_partition [symmetric])
  have "mset (concat (map (members key xs) (k # ks))) = mset (members key xs k) + mset (concat (map (members key xs) ks))"
    by simp
  also have "\<dots> = mset xs"
    unfolding rest IH by (rule split)
  finally show ?case .
qed simp

lemma mset_members: "mset (concat (map (members key xs) (uniq (map key xs)))) = mset xs"
  by (rule mset_members_split) auto

lemma sum_members: "sum_list (map (\<lambda>k. length (members key xs k)) (uniq (map key xs))) = length xs"
  using arg_cong [OF mset_members [of key xs], of size] by (simp add: length_concat o_def)

text \<open>Groups with distinct keys, one for each key that occurs, each holding the items of its key.\<close>

definition partitions :: "('a \<Rightarrow> 'k) \<Rightarrow> ('b \<Rightarrow> 'k) \<Rightarrow> ('b \<Rightarrow> 'a list) \<Rightarrow> 'b list \<Rightarrow> 'a list \<Rightarrow> bool" where
  "partitions key kb items gs xs \<longleftrightarrow>
     distinct (map kb gs) \<and> set (map kb gs) = set (map key xs) \<and> (\<forall>g \<in> set gs. items g = filter (\<lambda>x. key x = kb g) xs)"

lemma partitions_concat:
  assumes "partitions key kb items gs xs"
  shows "mset (concat (map items gs)) = mset xs"
proof -
  have "map items gs = map (members key xs) (map kb gs)"
    using assms by (auto simp: partitions_def members_def)
  then show ?thesis
    using assms by (simp only:) (rule mset_members_split, auto simp: partitions_def)
qed

lemma partitions_length: "partitions key kb items gs xs \<Longrightarrow> length gs = card (key ` set xs)"
  unfolding partitions_def by (metis distinct_card length_map list.set_map)

lemma partitions_nonempty: "partitions key kb items gs xs \<Longrightarrow> g \<in> set gs \<Longrightarrow> items g \<noteq> []"
  unfolding partitions_def by (force simp: filter_empty_conv)

lemma partitions_mset: "partitions key kb items gs xs \<Longrightarrow> mset hs = mset gs \<Longrightarrow> partitions key kb items hs xs"
  unfolding partitions_def by (metis mset_map mset_eq_imp_distinct_iff mset_eq_setD)

lemma partitions_map:
  assumes "partitions key kb items gs xs" and "\<And>g. kb' (f g) = kb g" and "\<And>g. items' (f g) = items g"
  shows "partitions key kb' items' (map f gs) xs"
  using assms by (simp add: partitions_def o_def)

lemma kb_groupLoop:
  assumes new: "\<And>x i. kb (new x i) = key x" and upd: "\<And>x b. kb (upd x b) = kb b"
  shows "map kb (groupLoop key kb new upd xs) = uniq (map key xs)"
proof (rule nth_equalityI)
  fix i assume "i < length (map kb (groupLoop key kb new upd xs))"
  then have i: "i < length (uniq (map key xs))"
    by (simp add: upsert_groups [of kb new key upd xs, OF assms])
  let ?k = "uniq (map key xs) ! i"
  have "?k \<in> key ` set xs"
    using nth_mem [OF i] by simp
  then have "members key xs ?k \<noteq> []"
    by (simp add: members_empty_iff)
  then have "key (hd (members key xs ?k)) = ?k"
    using hd_in_set [of "members key xs ?k"] by (auto simp: set_members)
  moreover have "kb (fold upd ys b) = kb b" for ys b
    by (induction ys arbitrary: b) (simp_all add: upd)
  ultimately show "map kb (groupLoop key kb new upd xs) ! i = ?k"
    using i by (simp add: upsert_groups [of kb new key upd xs, OF assms] nth_enumerate_eq groupOf_def Let_def new)
qed (simp add: upsert_groups [of kb new key upd xs, OF assms])

lemma groupLoop_elem:
  assumes new: "\<And>x i. kb (new x i) = key x" and upd: "\<And>x b. kb (upd x b) = kb b"
    and g: "g \<in> set (groupLoop key kb new upd xs)"
  shows "\<exists>i < length (uniq (map key xs)). groupLoop key kb new upd xs ! i = g \<and> g = groupOf key new upd xs (i, kb g)"
proof -
  obtain i where i: "i < length (groupLoop key kb new upd xs)" "g = groupLoop key kb new upd xs ! i"
    using g by (metis in_set_conv_nth)
  have len: "length (groupLoop key kb new upd xs) = length (uniq (map key xs))"
    by (simp add: upsert_groups [of kb new key upd xs, OF new upd])
  have "g = groupOf key new upd xs (i, uniq (map key xs) ! i)"
    using i unfolding upsert_groups [of kb new key upd xs, OF new upd] by (simp add: nth_enumerate_eq)
  moreover have "kb g = uniq (map key xs) ! i"
    using arg_cong [OF kb_groupLoop [of kb new key upd xs, OF new upd], of "\<lambda>l. l ! i"] i by simp
  ultimately show ?thesis
    using i len by auto
qed

text \<open>A counter of a group counts its items.\<close>

lemma groupLoop_count:
  assumes new: "\<And>x i. kb (new x i) = key x" and upd: "\<And>x b. kb (upd x b) = kb b"
    and cnt: "\<And>x i. cnt (new x i) = (0::nat)" "\<And>x b. cnt (upd x b) = cnt b + 1"
    and g: "g \<in> set (groupLoop key kb new upd xs)"
  shows "cnt g = length (filter (\<lambda>x. key x = kb g) xs)"
proof -
  have "cnt (fold upd ys b) = cnt b + length ys" for ys b
    by (induction ys arbitrary: b) (simp_all add: cnt)
  note grow = this
  obtain i where eq: "g = groupOf key new upd xs (i, kb g)"
    using groupLoop_elem [of kb new key upd g xs, OF new upd g] by blast
  show ?thesis
    using arg_cong [OF eq, of cnt] by (simp add: groupOf_def Let_def cnt members_def grow)
qed

lemma partitions_groupLoop:
  assumes new: "\<And>x i. kb (new x i) = key x" and upd: "\<And>x b. kb (upd x b) = kb b"
    and items: "\<And>x i. items (new x i) = []" "\<And>x b. items (upd x b) = items b @ [x]"
  shows "partitions key kb items (groupLoop key kb new upd xs) xs"
proof -
  have grow: "items (fold upd ys b) = items b @ ys" for ys b
    by (induction ys arbitrary: b) (simp_all add: items)
  have "items g = filter (\<lambda>x. key x = kb g) xs" if g: "g \<in> set (groupLoop key kb new upd xs)" for g
  proof -
    obtain i where eq: "g = groupOf key new upd xs (i, kb g)"
      using groupLoop_elem [of kb new key upd g xs, OF new upd g] by blast
    show ?thesis
      using arg_cong [OF eq, of items] by (simp add: groupOf_def Let_def grow items members_def)
  qed
  then show ?thesis
    using kb_groupLoop [of kb new key upd xs, OF new upd] by (simp add: partitions_def)
qed

text \<open>A list grows by folding appends: the fields of a group that collect items.\<close>

lemma fold_append_map: "(\<And>x b. sel (upd x b) = sel b @ [f x]) \<Longrightarrow> sel (fold upd ys b) = sel b @ map f ys"
  by (induction ys arbitrary: b) simp_all

lemma fold_count: "(\<And>x b. sel (upd x b) = sel b + (1::nat)) \<Longrightarrow> sel (fold upd ys b) = sel b + length ys"
  by (induction ys arbitrary: b) simp_all

lemma fold_keep: "(\<And>x b. sel (upd x b) = sel b) \<Longrightarrow> sel (fold upd ys b) = sel b"
  by (induction ys arbitrary: b) simp_all

section \<open>Sorting\<close>

text \<open>Keys that differ leave one sorted order, whatever order a Go map was walked in.\<close>

lemma sort_key_unique:
  assumes "mset xs = mset ys" and "inj_on f (set xs)"
  shows "sort_key f xs = sort_key f ys"
proof -
  have "map f (sort_key f xs) = map f (sort_key f ys)"
  proof -
    have "mset (map f xs) = mset (map f ys)"
      using assms(1) by simp
    then have "sort (map f ys) = map f (sort_key f xs)" "sort (map f ys) = map f (sort_key f ys)"
      by (intro properties_for_sort; simp)+
    then show ?thesis
      by simp
  qed
  moreover have "inj_on f (set (sort_key f xs) \<union> set (sort_key f ys))"
    using assms by simp (metis set_mset_mset Un_absorb)
  ultimately show ?thesis
    by (rule map_inj_on)
qed

lemma hd_sort_key_le: "x \<in> set xs \<Longrightarrow> f (hd (sort_key f xs)) \<le> f x"
proof -
  assume "x \<in> set xs"
  then have "x \<in> set (sort_key f xs)" "sort_key f xs \<noteq> []"
    by (auto simp flip: set_empty)
  moreover have "sorted (map f (sort_key f xs))"
    by simp
  ultimately show ?thesis
    by (cases "sort_key f xs") auto
qed

end
