(* ===== verification/State_Store.thy ===== *)
theory State_Store
  imports Go_Collections Event_Model
begin

text \<open>
  The queries of \<open>pkg/store\<close> that the analysis of state changes reads through
  (\<open>projection_reader.go\<close>, \<open>event_reader.go\<close>, \<open>event_range.go\<close>, \<open>event_page.go\<close>,
  \<open>pg_store.go\<close>). A database is the list of the rows of its tables in the order of insertion;
  a query is the selection its SQL text makes: \<open>WHERE\<close> filters, \<open>ORDER BY\<close> sorts, \<open>LIMIT\<close> and
  \<open>OFFSET\<close> cut. Where \<open>ORDER BY\<close> leaves ties open the model takes the order of insertion. The
  SQLite store has one database for each session; the PostgreSQL store keeps all sessions in
  one, and a store value only remembers its session.

  The locale \<open>change_source\<close> states what the analysis relies on, and both stores are instances.
\<close>

section \<open>Rows and queries\<close>

record stateChangeRow =
  row_ID :: string
  row_EventID :: string
  row_SessionID :: string
  row_FlowID :: string
  row_Timestamp :: time
  row_SubjectType :: string
  row_SubjectID :: string
  row_Op :: string
  row_Path :: string
  row_Before :: string
  row_After :: string
  row_Version :: int
  row_BeforeResolved :: bool
  row_AfterResolved :: bool
  row_Seq :: int
  row_Metadata :: string

record stateChangeQuery =
  scq_SessionID :: string
  scq_FlowID :: string
  scq_SubjectType :: string
  scq_SubjectID :: string
  scq_Op :: string
  scq_Path :: string
  scq_EventID :: string
  scq_ID :: string
  scq_From :: time
  scq_To :: time
  scq_Limit :: int
  scq_Offset :: int

definition emptyQuery :: stateChangeQuery where
  "emptyQuery =
     \<lparr>scq_SessionID = '''', scq_FlowID = '''', scq_SubjectType = '''', scq_SubjectID = '''', scq_Op = '''',
      scq_Path = '''', scq_EventID = '''', scq_ID = '''', scq_From = zeroTime, scq_To = zeroTime, scq_Limit = 0,
      scq_Offset = 0\<rparr>"

record indexRow =
  ix_EventID :: string
  ix_SessionID :: string
  ix_ConnID :: string

record database =
  db_events :: "event list"
  db_changes :: "stateChangeRow list"
  db_index :: "indexRow list"

section \<open>SQL clauses\<close>

text \<open>A column is compared only when the query gives a value for it.\<close>

definition sqlEq :: "string \<Rightarrow> string \<Rightarrow> bool" where
  "sqlEq want have \<longleftrightarrow> want = '''' \<or> have = want"

definition sqlRange :: "time \<Rightarrow> time \<Rightarrow> time \<Rightarrow> bool" where
  "sqlRange from to t \<longleftrightarrow> (from = zeroTime \<or> unixNano from \<le> t) \<and> (to = zeroTime \<or> t \<le> unixNano to)"

definition limitOffset :: "int \<Rightarrow> int \<Rightarrow> 'a list \<Rightarrow> 'a list" where
  "limitOffset limit offset rows =
     (if limit \<le> 0 then rows else take (nat limit) (if 0 < offset then drop (nat offset) rows else rows))"

definition changeWhere :: "stateChangeQuery \<Rightarrow> stateChangeRow \<Rightarrow> bool" where
  "changeWhere q r \<longleftrightarrow>
     sqlEq (scq_FlowID q) (row_FlowID r) \<and> sqlEq (scq_SubjectType q) (row_SubjectType r) \<and>
     sqlEq (scq_SubjectID q) (row_SubjectID r) \<and> sqlEq (scq_Op q) (row_Op r) \<and> sqlEq (scq_Path q) (row_Path r) \<and>
     sqlEq (scq_EventID q) (row_EventID r) \<and> sqlEq (scq_ID q) (row_ID r) \<and>
     sqlRange (scq_From q) (scq_To q) (row_Timestamp r)"

definition changeOrder :: "stateChangeRow \<Rightarrow> time \<times> int \<times> string" where
  "changeOrder r = (row_Timestamp r, row_Seq r, row_ID r)"

section \<open>State changes\<close>

definition sqliteQueryStateChanges :: "database \<Rightarrow> stateChangeQuery \<Rightarrow> stateChangeRow list" where
  "sqliteQueryStateChanges db q =
     limitOffset (scq_Limit q) (scq_Offset q)
       (sort_key changeOrder (filter (\<lambda>r. sqlEq (scq_SessionID q) (row_SessionID r) \<and> changeWhere q r) (db_changes db)))"

text \<open>The PostgreSQL store always compares the session: that of the query or its own.\<close>

definition pgQueryStateChanges :: "string \<Rightarrow> database \<Rightarrow> stateChangeQuery \<Rightarrow> stateChangeRow list" where
  "pgQueryStateChanges storeSession db q =
     (let sid = (if scq_SessionID q = '''' then storeSession else scq_SessionID q) in
      limitOffset (scq_Limit q) (scq_Offset q)
        (sort_key changeOrder (filter (\<lambda>r. row_SessionID r = sid \<and> changeWhere q r) (db_changes db))))"

section \<open>Events\<close>

abbreviation ev_ID :: "event \<Rightarrow> string" where
  "ev_ID e \<equiv> id_ID (ev_Identity e)"

abbreviation ev_Time :: "event \<Rightarrow> time" where
  "ev_Time e \<equiv> id_Timestamp (ev_Identity e)"

abbreviation ev_Session :: "event \<Rightarrow> string" where
  "ev_Session e \<equiv> id_SessionID (ev_Identity e)"

definition queryEventsOrdered :: "database \<Rightarrow> string \<Rightarrow> int \<Rightarrow> int \<Rightarrow> bool \<Rightarrow> event list" where
  "queryEventsOrdered db sessionID limit offset desc =
     limitOffset limit offset
       (sort_key (\<lambda>e. if desc then - ev_Time e else ev_Time e) (filter (\<lambda>e. ev_Session e = sessionID) (db_events db)))"

definition queryEvents :: "database \<Rightarrow> string \<Rightarrow> int \<Rightarrow> int \<Rightarrow> event list" where
  "queryEvents db sessionID limit offset = queryEventsOrdered db sessionID limit offset False"

definition queryEventsDesc :: "database \<Rightarrow> string \<Rightarrow> int \<Rightarrow> int \<Rightarrow> event list" where
  "queryEventsDesc db sessionID limit offset = queryEventsOrdered db sessionID limit offset True"

definition queryEventsByType :: "database \<Rightarrow> string \<Rightarrow> string \<Rightarrow> int \<Rightarrow> int \<Rightarrow> event list" where
  "queryEventsByType db sessionID eventType limit offset =
     limitOffset limit offset
       (sort_key (\<lambda>e. - ev_Time e)
          (filter (\<lambda>e. ev_Session e = sessionID \<and> id_Type (ev_Identity e) = eventType) (db_events db)))"

text \<open>Neither query by identifier nor query by correlation compares the session, in both stores.\<close>

definition getEventByID :: "database \<Rightarrow> string \<Rightarrow> event option" where
  "getEventByID db i = find (\<lambda>e. ev_ID e = i) (db_events db)"

definition queryEventsByCorrelation :: "database \<Rightarrow> string \<Rightarrow> int \<Rightarrow> int \<Rightarrow> event list" where
  "queryEventsByCorrelation db correlationID limit offset =
     limitOffset limit offset
       (sort_key (\<lambda>e. - ev_Time e) (filter (\<lambda>e. tc_CorrelationID (ev_Trace e) = correlationID) (db_events db)))"

definition queryEventsInRange :: "database \<Rightarrow> string \<Rightarrow> time \<Rightarrow> time \<Rightarrow> int \<Rightarrow> event list" where
  "queryEventsInRange db sessionID from to limit =
     limitOffset limit 0
       (sort_key ev_Time (filter (\<lambda>e. ev_Session e = sessionID \<and> sqlRange from to (ev_Time e)) (db_events db)))"

section \<open>Pages and streams\<close>

record eventPageQuery =
  epq_SessionID :: string
  epq_TypeEq :: string
  epq_TypeNot :: string
  epq_ConnEq :: string
  epq_From :: time
  epq_To :: time

definition eventPageWhere :: "database \<Rightarrow> eventPageQuery \<Rightarrow> event \<Rightarrow> bool" where
  "eventPageWhere db q e \<longleftrightarrow>
     ev_Session e = epq_SessionID q \<and>
     (if epq_TypeEq q \<noteq> '''' then id_Type (ev_Identity e) = epq_TypeEq q
      else epq_TypeNot q = '''' \<or> id_Type (ev_Identity e) \<noteq> epq_TypeNot q) \<and>
     (epq_ConnEq q = '''' \<or> (\<exists>ix \<in> set (db_index db). ix_EventID ix = ev_ID e \<and> ix_ConnID ix = epq_ConnEq q)) \<and>
     sqlRange (epq_From q) (epq_To q) (ev_Time e)"

datatype store_error = LimitNotPositive

definition queryEventPage :: "database \<Rightarrow> eventPageQuery \<Rightarrow> int \<Rightarrow> int \<Rightarrow> store_error + event list \<times> nat" where
  "queryEventPage db q limit offset =
     (if limit \<le> 0 then Inl LimitNotPositive
      else
        (let hits = filter (eventPageWhere db q) (db_events db) in
         Inr (take (nat limit) (drop (nat offset) (sort_key (\<lambda>e. - ev_Time e) hits)), length hits)))"

text \<open>
  The loop of the streams: rows are collected up to the size of a batch and handed to the
  consumer, which may stop the stream or fail. The consumer is a function on a state of its own
  that tells whether to go on and which error it had.
\<close>

type_synonym ('s, 'e) consumer = "event list \<Rightarrow> 's \<Rightarrow> 's \<times> bool \<times> 'e option"

fun streamLoop :: "nat \<Rightarrow> ('s, 'e) consumer \<Rightarrow> event list \<Rightarrow> event list \<Rightarrow> 's \<Rightarrow> 's \<times> 'e option" where
  "streamLoop batch yield [] buf s =
     (if buf = [] then (s, None) else (case yield buf s of (s', _, err) \<Rightarrow> (s', err)))"
| "streamLoop batch yield (e # rows) buf s =
     (if batch \<le> length (buf @ [e]) then
        (case yield (buf @ [e]) s of
           (s', cont, err) \<Rightarrow> if \<not> cont \<or> err \<noteq> None then (s', err) else streamLoop batch yield rows [] s')
      else streamLoop batch yield rows (buf @ [e]) s)"

definition batchSize :: "int \<Rightarrow> nat" where
  "batchSize batch = (if batch \<le> 0 then 500 else nat batch)"

definition streamEventsDesc :: "database \<Rightarrow> eventPageQuery \<Rightarrow> int \<Rightarrow> ('s, 'e) consumer \<Rightarrow> 's \<Rightarrow> 's \<times> 'e option" where
  "streamEventsDesc db q batch yield s =
     streamLoop (batchSize batch) yield (sort_key (\<lambda>e. - ev_Time e) (filter (eventPageWhere db q) (db_events db))) [] s"

definition streamEvents :: "database \<Rightarrow> eventPageQuery \<Rightarrow> int \<Rightarrow> ('s, 'e) consumer \<Rightarrow> 's \<Rightarrow> 's \<times> 'e option" where
  "streamEvents db q batch yield s =
     streamLoop (batchSize batch) yield
       (sort_key (\<lambda>e. (ev_Time e, ev_ID e)) (filter (eventPageWhere db q) (db_events db))) [] s"

section \<open>Clearing decoded data\<close>

definition pgClearDecodedData :: "string \<Rightarrow> database \<Rightarrow> database" where
  "pgClearDecodedData sessionID db =
     db\<lparr>db_index := filter (\<lambda>ix. ix_SessionID ix \<noteq> sessionID) (db_index db),
        db_events := filter (\<lambda>e. ev_Session e \<noteq> sessionID) (db_events db),
        db_changes := filter (\<lambda>r. row_SessionID r \<noteq> sessionID) (db_changes db)\<rparr>"


section \<open>The stores as data sources\<close>

text \<open>
  The interface \<open>DataSource\<close> of \<open>pkg/state/query.go\<close>: four queries that may fail with an error
  text. A database that answers gives the selections above.
\<close>

record dataSource =
  ds_changes :: "stateChangeQuery \<Rightarrow> string + stateChangeRow list"
  ds_inRange :: "string \<Rightarrow> time \<Rightarrow> time \<Rightarrow> int \<Rightarrow> string + event list"
  ds_byCorrelation :: "string \<Rightarrow> int \<Rightarrow> int \<Rightarrow> string + event list"
  ds_byID :: "string \<Rightarrow> string + event option"

definition sqliteSource :: "database \<Rightarrow> dataSource" where
  "sqliteSource db =
     \<lparr>ds_changes = (\<lambda>q. Inr (sqliteQueryStateChanges db q)),
      ds_inRange = (\<lambda>sid from to limit. Inr (queryEventsInRange db sid from to limit)),
      ds_byCorrelation = (\<lambda>c limit offset. Inr (queryEventsByCorrelation db c limit offset)),
      ds_byID = (\<lambda>i. Inr (getEventByID db i))\<rparr>"

definition pgSource :: "string \<Rightarrow> database \<Rightarrow> dataSource" where
  "pgSource storeSession db =
     \<lparr>ds_changes = (\<lambda>q. Inr (pgQueryStateChanges storeSession db q)),
      ds_inRange = (\<lambda>sid from to limit. Inr (queryEventsInRange db sid from to limit)),
      ds_byCorrelation = (\<lambda>c limit offset. Inr (queryEventsByCorrelation db c limit offset)),
      ds_byID = (\<lambda>i. Inr (getEventByID db i))\<rparr>"

lemma set_limitOffset: "set (limitOffset limit offset xs) \<subseteq> set xs"
  by (auto simp: limitOffset_def dest!: in_set_takeD dest: in_set_dropD)

lemma sorted_limitOffset: "sorted (map f xs) \<Longrightarrow> sorted (map f (limitOffset limit offset xs))"
  by (auto simp: limitOffset_def sorted_wrt_take sorted_wrt_drop simp flip: take_map drop_map)

text \<open>
  What the analysis relies on: a query of a session's changes gives a prefix, as long as its
  limit, of the matching rows in the order of time, sequence and identifier; events come back
  with the identifier, correlation or session they were asked for. A failing query gives no
  rows at all, so the laws speak of answers only.
\<close>

locale change_source =
  fixes src :: dataSource and rows :: "stateChangeRow list" and events :: "event list"
  assumes selects: "ds_changes src q = Inr rs \<Longrightarrow> scq_SessionID q \<noteq> '''' \<Longrightarrow>
      rs = limitOffset (scq_Limit q) (scq_Offset q)
             (sort_key changeOrder (filter (\<lambda>r. row_SessionID r = scq_SessionID q \<and> changeWhere q r) rows))"
    and byID: "ds_byID src i = Inr (Some e) \<Longrightarrow> e \<in> set events \<and> ev_ID e = i"
    and byCorrelation: "ds_byCorrelation src c limit offset = Inr es \<Longrightarrow>
      set es \<subseteq> {e \<in> set events. tc_CorrelationID (ev_Trace e) = c}"
    and inRange: "ds_inRange src sid from to limit = Inr es \<Longrightarrow> set es \<subseteq> {e \<in> set events. ev_Session e = sid}"
begin

lemma rows_of_session:
  assumes "ds_changes src q = Inr rs" and "scq_SessionID q \<noteq> ''''" and "r \<in> set rs"
  shows "r \<in> set rows \<and> row_SessionID r = scq_SessionID q \<and> changeWhere q r"
proof -
  have "set rs \<subseteq> set (filter (\<lambda>r. row_SessionID r = scq_SessionID q \<and> changeWhere q r) rows)"
    using selects [OF assms(1,2)] set_limitOffset by (metis set_sort)
  with assms(3) show ?thesis
    by auto
qed

text \<open>An answer shorter than its limit is complete.\<close>

lemma short_answer_complete:
  assumes "ds_changes src q = Inr rs" and "scq_SessionID q \<noteq> ''''" and "scq_Offset q \<le> 0"
    and "scq_Limit q \<le> 0 \<or> int (length rs) < scq_Limit q"
  shows "mset rs = mset (filter (\<lambda>r. row_SessionID r = scq_SessionID q \<and> changeWhere q r) rows)"
proof -
  let ?hits = "sort_key changeOrder (filter (\<lambda>r. row_SessionID r = scq_SessionID q \<and> changeWhere q r) rows)"
  have "rs = ?hits"
    using selects [OF assms(1,2)] assms(3,4) by (auto simp: limitOffset_def split: if_splits)
  then show ?thesis
    by simp
qed

lemma answer_limited:
  assumes "ds_changes src q = Inr rs" and "scq_SessionID q \<noteq> ''''" and "0 < scq_Limit q"
  shows "int (length rs) \<le> scq_Limit q"
  using selects [OF assms(1,2)] assms(3) by (auto simp: limitOffset_def)

lemma answer_sorted:
  assumes "ds_changes src q = Inr rs" and "scq_SessionID q \<noteq> ''''"
  shows "sorted (map changeOrder rs)"
  using selects [OF assms] by (simp add: sorted_limitOffset)

end

lemma source_events:
  "e \<in> set (queryEventsInRange db sid from to limit) \<Longrightarrow> e \<in> set (db_events db) \<and> ev_Session e = sid"
  "e \<in> set (queryEventsByCorrelation db c limit offset) \<Longrightarrow> e \<in> set (db_events db) \<and> tc_CorrelationID (ev_Trace e) = c"
  "getEventByID db i = Some e \<Longrightarrow> e \<in> set (db_events db) \<and> ev_ID e = i"
  by (auto simp: queryEventsInRange_def queryEventsByCorrelation_def getEventByID_def find_Some_iff
      dest!: subsetD [OF set_limitOffset])

interpretation sqlite: change_source "sqliteSource db" "db_changes db" "db_events db" for db
proof
  show "rs = limitOffset (scq_Limit q) (scq_Offset q)
      (sort_key changeOrder (filter (\<lambda>r. row_SessionID r = scq_SessionID q \<and> changeWhere q r) (db_changes db)))"
    if "ds_changes (sqliteSource db) q = Inr rs" and "scq_SessionID q \<noteq> ''''" for q rs
    using that by (simp add: sqliteSource_def sqliteQueryStateChanges_def sqlEq_def)
qed (auto simp: sqliteSource_def dest: source_events)

interpretation pg: change_source "pgSource storeSession db" "db_changes db" "db_events db" for storeSession db
proof
  show "rs = limitOffset (scq_Limit q) (scq_Offset q)
      (sort_key changeOrder (filter (\<lambda>r. row_SessionID r = scq_SessionID q \<and> changeWhere q r) (db_changes db)))"
    if "ds_changes (pgSource storeSession db) q = Inr rs" and "scq_SessionID q \<noteq> ''''" for q rs
    using that by (simp add: pgSource_def pgQueryStateChanges_def)
qed (auto simp: pgSource_def dest: source_events)


section \<open>Streams deliver everything in batches\<close>

text \<open>A list cut into pieces of a given size, the last one possibly shorter.\<close>

function chunks :: "nat \<Rightarrow> 'a list \<Rightarrow> 'a list list" where
  "chunks n xs = (if xs = [] \<or> n = 0 then [] else take n xs # chunks n (drop n xs))"
  by pat_completeness auto
termination
  by (relation "measure (\<lambda>(n, xs). length xs)") auto

declare chunks.simps [simp del]

lemma concat_chunks: "0 < n \<Longrightarrow> concat (chunks n xs) = xs"
proof (induction n xs rule: chunks.induct)
  case (1 n xs)
  then show ?case
    by (cases "xs = []") (simp_all add: chunks.simps [of n xs] chunks.simps [of n "[]"])
qed

lemma chunks_short: "xs \<noteq> [] \<Longrightarrow> length xs \<le> n \<Longrightarrow> chunks n xs = [xs]"
  by (cases n) (simp_all add: chunks.simps [of n xs] chunks.simps [of n "[]"] chunks.simps [of _ xs] chunks.simps [of _ "[]"])

lemma chunks_full: "0 < length xs \<Longrightarrow> chunks (length xs) (xs @ ys) = xs # chunks (length xs) ys"
  by (subst chunks.simps) auto

lemma chunks_size: "c \<in> set (chunks n xs) \<Longrightarrow> c \<noteq> [] \<and> length c \<le> n"
  by (induction n xs rule: chunks.induct) (subst (asm) chunks.simps, auto split: if_splits)

lemma streamLoop_chunks:
  assumes "\<And>b s. yield b s = (f b s, True, None)" and "length buf < n"
  shows "streamLoop n yield rows buf s = (fold f (chunks n (buf @ rows)) s, None)"
  using assms(2)
proof (induction rows arbitrary: buf s)
  case Nil
  then show ?case
    by (auto simp: assms(1) chunks_short chunks.simps [of n "[]"])
next
  case (Cons e rows)
  show ?case
  proof (cases "n \<le> length (buf @ [e])")
    case True
    then have n: "n = length (buf @ [e])"
      using Cons.prems by simp
    have "chunks n ((buf @ [e]) @ rows) = (buf @ [e]) # chunks n rows"
      unfolding n by (rule chunks_full) simp
    then show ?thesis
      using True Cons.IH [of "[]"] Cons.prems by (auto simp: assms(1))
  next
    case False
    then show ?thesis
      using Cons.IH [of "buf @ [e]"] by simp
  qed
qed

text \<open>
  A consumer that never stops sees the matching events of a stream exactly once, in order of
  time and identifier, in batches of the requested size (500 when it is not positive), only the
  last of which may be shorter; none is empty.
\<close>

theorem stream_in_batches:
  assumes "\<And>b s. yield b s = (f b s, True, None)"
  shows "streamEvents db q batch yield s =
      (fold f (chunks (batchSize batch) (sort_key (\<lambda>e. (ev_Time e, ev_ID e)) (filter (eventPageWhere db q) (db_events db)))) s, None) \<and>
    concat (chunks (batchSize batch) (sort_key (\<lambda>e. (ev_Time e, ev_ID e)) (filter (eventPageWhere db q) (db_events db)))) =
      sort_key (\<lambda>e. (ev_Time e, ev_ID e)) (filter (eventPageWhere db q) (db_events db)) \<and>
    list_all (\<lambda>b. b \<noteq> [] \<and> length b \<le> batchSize batch)
      (chunks (batchSize batch) (sort_key (\<lambda>e. (ev_Time e, ev_ID e)) (filter (eventPageWhere db q) (db_events db))))"
proof -
  have "0 < batchSize batch"
    by (simp add: batchSize_def)
  then show ?thesis
    using streamLoop_chunks [OF assms, of "[]"] by (auto simp: streamEvents_def concat_chunks list_all_iff dest: chunks_size)
qed

definition storedEvent :: "string \<Rightarrow> time \<Rightarrow> event" where
  "storedEvent i ts =
     \<lparr>ev_Identity = \<lparr>id_ID = i, id_SessionID = ''s1'', id_Type = ''login'', id_Source = '''', id_Timestamp = ts, id_ScenarioID = '''',
                     id_ReplayID = ''''\<rparr>,
      ev_Trace = emptyTrace, ev_Context = emptyContext, ev_Payload = VNull, ev_Meta = VNull, ev_Analysis = VNull\<rparr>"

definition storedBase :: database where
  "storedBase = \<lparr>db_events = [storedEvent ''b'' 2, storedEvent ''a'' 1, storedEvent ''c'' 3], db_changes = [], db_index = []\<rparr>"

definition allEvents :: eventPageQuery where
  "allEvents = \<lparr>epq_SessionID = ''s1'', epq_TypeEq = '''', epq_TypeNot = '''', epq_ConnEq = '''', epq_From = zeroTime, epq_To = zeroTime\<rparr>"

theorem stream_in_batches_witness:
  "map (map ev_ID) (fst (streamEvents storedBase allEvents 2 (\<lambda>b s. (s @ [b], True, None :: unit option)) [])) = [[''a'', ''b''], [''c'']]"
proof -
  have "map (map ev_ID) (chunks 2 (sort_key (\<lambda>e. (ev_Time e, ev_ID e)) (filter (eventPageWhere storedBase allEvents) (db_events storedBase)))) =
      [[''a'', ''b''], [''c'']]"
    by code_simp
  moreover have "fold (\<lambda>b s. s @ [b]) xs ys = ys @ xs" for xs ys :: "event list list"
    by (induction xs arbitrary: ys) simp_all
  ultimately show ?thesis
    using stream_in_batches [of "\<lambda>b s. (s @ [b], True, None :: unit option)" "\<lambda>b s. s @ [b]" storedBase allEvents 2 "[]"]
    by (simp add: batchSize_def)
qed

end
