(* ===== verification/State_Query.thy ===== *)
theory State_Query
  imports State_Store Go_Strings Rule
begin

text \<open>
  The query engine for state changes, \<open>pkg/state/query.go\<close>: the anchor and the time window of a
  query, the index of messages, the enriched changes, and their groupings by operation, entity,
  event and time. \<open>sort.SliceStable\<close> is sorting by a key; \<open>sort.Slice\<close>, which promises no order of
  equal elements, is an argument \<open>srt\<close> of the definitions that use it on messages, where equal
  timestamps do occur.
\<close>

section \<open>Queries and results\<close>

datatype anchorKind = AnchorNone | AnchorOperation | AnchorEntity | AnchorEvent | AnchorUnknown string

datatype sortBy = SortByTime | SortByFirstChange | SortByChangeCount

record changeFilter =
  cf_SubjectTypes :: "string list"
  cf_SubjectIDs :: "string list"
  cf_Paths :: "string list"
  cf_Ops :: "string list"

record anchor =
  an_Kind :: anchorKind
  an_ID :: string

record stateQuery =
  sq_SessionID :: string
  sq_Anchor :: anchor
  sq_BeforeMS :: int
  sq_AfterMS :: int
  sq_From :: time
  sq_To :: time
  sq_SortBy :: sortBy
  sq_Desc :: bool
  sq_BucketMS :: int
  sq_Limit :: int
  sq_Filter :: changeFilter

record messageRef =
  mr_EventID :: string
  mr_Timestamp :: time
  mr_OffsetMS :: int
  mr_MsgName :: string
  mr_Kind :: string
  mr_Direction :: string
  mr_FlowID :: string
  mr_ConnID :: string
  mr_CorrelationID :: string
  mr_CausationID :: string
  mr_OperationKey :: string

definition zeroRef :: messageRef where
  "zeroRef =
     \<lparr>mr_EventID = '''', mr_Timestamp = zeroTime, mr_OffsetMS = 0, mr_MsgName = '''', mr_Kind = '''', mr_Direction = '''',
      mr_FlowID = '''', mr_ConnID = '''', mr_CorrelationID = '''', mr_CausationID = '''', mr_OperationKey = ''''\<rparr>"

type_synonym rawMessage = "string option"

record change =
  ch_ID :: string
  ch_Seq :: nat
  ch_SrcSeq :: int
  ch_EventID :: string
  ch_SessionID :: string
  ch_FlowID :: string
  ch_Timestamp :: time
  ch_OffsetMS :: int
  ch_SubjectType :: string
  ch_SubjectID :: string
  ch_EntityKey :: string
  ch_Op :: string
  ch_Path :: string
  ch_Before :: rawMessage
  ch_After :: rawMessage
  ch_Version :: int
  ch_Metadata :: rawMessage
  ch_Source :: messageRef
  ch_BeforeResolved :: bool

record operationHit =
  oh_Key :: string
  oh_Label :: string
  oh_Kind :: string
  oh_EventID :: string
  oh_Timestamp :: time
  oh_OffsetMS :: int
  oh_ChangeCount :: nat
  oh_FieldPaths :: "string list"
  oh_Events :: "messageRef list"

record entityGroup =
  eg_SubjectType :: string
  eg_SubjectID :: string
  eg_Key :: string
  eg_ChangeCount :: nat
  eg_FieldCount :: nat
  eg_FieldPaths :: "string list"
  eg_FirstChange :: time
  eg_LastChange :: time
  eg_FirstOffsetMS :: int
  eg_LastOffsetMS :: int
  eg_Operations :: "operationHit list"
  eg_Changes :: "change list"

record operationGroup =
  og_Key :: string
  og_Label :: string
  og_Kind :: string
  og_Anchor :: messageRef
  og_Chain :: "messageRef list"
  og_ChangeCount :: nat
  og_EntityCount :: nat
  og_FieldCount :: nat
  og_StartOffsetMS :: int
  og_EndOffsetMS :: int
  og_Entities :: "entityGroup list"
  og_Changes :: "change list"

record eventGroup =
  vg_EventID :: string
  vg_Source :: messageRef
  vg_ChangeCount :: nat
  vg_EntityCount :: nat
  vg_Changes :: "change list"

record bucketEntity =
  be_Key :: string
  be_SubjectType :: string
  be_SubjectID :: string
  be_ChangeCount :: nat
  be_FieldPaths :: "string list"

record bucketOperation =
  bo_Key :: string
  bo_Label :: string
  bo_Kind :: string
  bo_OffsetMS :: int
  bo_ChangeCount :: nat
  bo_Entities :: "bucketEntity list"

record timeBucket =
  tb_Index :: nat
  tb_StartOffsetMS :: int
  tb_EndOffsetMS :: int
  tb_Start :: time
  tb_ChangeCount :: nat
  tb_EntityCount :: nat
  tb_Operations :: "bucketOperation list"

record changeSummary =
  su_ChangeCount :: nat
  su_EntityCount :: nat
  su_FieldCount :: nat
  su_OperationCount :: nat
  su_EventCount :: nat
  su_FirstChange :: time
  su_LastChange :: time
  su_EntityChanges :: "entityGroup list"

record anchorRef =
  ar_Kind :: anchorKind
  ar_ID :: string
  ar_T0 :: time
  ar_Resolved :: bool
  ar_Source :: "messageRef option"

record resolvedAnchor =
  ra_Ref :: anchorRef
  ra_subjectType :: string
  ra_subjectID :: string

record resultSet =
  rs_SessionID :: string
  rs_Anchor :: anchorRef
  rs_From :: time
  rs_To :: time
  rs_Truncated :: bool
  rs_Summary :: changeSummary
  rs_Changes :: "change list"
  rs_Operations :: "operationGroup list"
  rs_Entities :: "entityGroup list"
  rs_Events :: "eventGroup list"
  rs_Buckets :: "timeBucket list"

datatype query_error =
  SessionRequired | EntityAnchorInvalid | UnknownAnchorKind | SourceFailed string

section \<open>Keys\<close>

definition entityKeyOf :: "string \<Rightarrow> string \<Rightarrow> string" where
  "entityKeyOf subjectType subjectID = subjectType @ '':'' @ subjectID"

text \<open>\<open>strings.Index\<close> of a byte.\<close>

fun indexChar :: "char \<Rightarrow> string \<Rightarrow> nat option" where
  "indexChar c [] = None"
| "indexChar c (d # s) = (if c = d then Some 0 else map_option Suc (indexChar c s))"

definition splitEntityID :: "string \<Rightarrow> (string \<times> string) option" where
  "splitEntityID s =
     (case indexChar (CHR '':'') s of
        None \<Rightarrow> None
      | Some i \<Rightarrow> if i = 0 \<or> i = length s - 1 then None else Some (take i s, drop (Suc i) s))"

definition trimPrefix :: "string \<Rightarrow> string \<Rightarrow> string" where
  "trimPrefix s p = (if hasPrefix s p then drop (length p) s else s)"

definition splitOperationKey :: "string \<Rightarrow> string \<times> string" where
  "splitOperationKey s =
     (if hasPrefix s ''corr:'' then ('''', trimPrefix s ''corr:'')
      else if hasPrefix s ''evt:'' then (trimPrefix s ''evt:'', '''')
      else (s, s))"

definition rawJSON :: "string \<Rightarrow> rawMessage" where
  "rawJSON s = (if s = '''' then None else Some s)"

section \<open>Filters\<close>

definition equalFold :: "string \<Rightarrow> string \<Rightarrow> bool" where
  "equalFold s t \<longleftrightarrow> toLower s = toLower t"

definition containsFold :: "string list \<Rightarrow> string \<Rightarrow> bool" where
  "containsFold list v \<longleftrightarrow> list_ex (\<lambda>item. equalFold item v) list"

definition filterEmpty :: "changeFilter \<Rightarrow> bool" where
  "filterEmpty f \<longleftrightarrow> cf_SubjectTypes f = [] \<and> cf_SubjectIDs f = [] \<and> cf_Paths f = [] \<and> cf_Ops f = []"

definition filterMatches :: "changeFilter \<Rightarrow> string \<Rightarrow> string \<Rightarrow> string \<Rightarrow> string \<Rightarrow> bool" where
  "filterMatches f subjectType subjectID path op \<longleftrightarrow>
     filterEmpty f \<or>
     (\<not> (cf_SubjectTypes f \<noteq> [] \<and> \<not> containsFold (cf_SubjectTypes f) subjectType) \<and>
      \<not> (cf_SubjectIDs f \<noteq> [] \<and> \<not> containsFold (cf_SubjectIDs f) subjectID) \<and>
      \<not> (cf_Ops f \<noteq> [] \<and> \<not> containsFold (cf_Ops f) op) \<and>
      (cf_Paths f \<noteq> [] \<longrightarrow>
        list_ex (\<lambda>p. path = p \<or> hasPrefix path (p @ ''.'') \<or> hasPrefix path p) (cf_Paths f)))"

section \<open>Messages\<close>

text \<open>A string of the metadata, or of the payload.\<close>

definition metaString :: "event \<Rightarrow> string \<Rightarrow> string option" where
  "metaString ev key = (case metaValue key ev of None \<Rightarrow> None | Some v \<Rightarrow> asString v)"

definition payloadString :: "event \<Rightarrow> string \<Rightarrow> string option" where
  "payloadString ev key =
     (case asObject (ev_Payload ev) of
        None \<Rightarrow> None
      | Some obj \<Rightarrow> (case map_of obj key of None \<Rightarrow> None | Some v \<Rightarrow> asString v))"

definition messageName :: "event \<Rightarrow> string" where
  "messageName ev =
     (case metaString ev ''msg_name'' of
        Some (c # s) \<Rightarrow> c # s
      | _ \<Rightarrow> (case payloadString ev ''msg_name'' of Some (c # s) \<Rightarrow> c # s | _ \<Rightarrow> id_Type (ev_Identity ev)))"

definition messageDirection :: "event \<Rightarrow> string" where
  "messageDirection ev =
     (if ec_Direction (ev_Context ev) \<noteq> '''' then ec_Direction (ev_Context ev)
      else
        (case metaString ev ''direction'' of
           Some s \<Rightarrow> s
         | None \<Rightarrow> (case payloadString ev ''direction'' of Some s \<Rightarrow> s | None \<Rightarrow> '''')))"

definition isPush :: "event \<Rightarrow> bool" where
  "isPush ev \<longleftrightarrow>
     (case metaValue ''is_push'' ev of None \<Rightarrow> False | Some v \<Rightarrow> asBool v = Some True) \<or>
     (case metaString ev ''type'' of None \<Rightarrow> False | Some s \<Rightarrow> equalFold s ''push'')"

definition messageKind :: "event \<Rightarrow> string \<Rightarrow> string \<Rightarrow> string" where
  "messageKind ev direction msgName =
     (let d = toLower direction; name = toLower msgName in
      if isPush ev then ''push''
      else if d \<in> {''client_to_server'', ''c2s'', ''request'', ''outgoing'', ''up''} then ''request''
      else if d \<in> {''server_to_client'', ''s2c'', ''response'', ''incoming'', ''down''} then ''response''
      else if hasSuffix name ''req'' \<or> hasSuffix name ''request'' \<or> hasSuffix name ''_c'' \<or> hasSuffix name ''.c'' then ''request''
      else if hasSuffix name ''resp'' \<or> hasSuffix name ''response'' \<or> hasSuffix name ''ack'' \<or> hasSuffix name ''_s'' \<or>
              hasSuffix name ''.s'' then ''response''
      else if containsStr name ''push'' \<or> containsStr name ''notify'' \<or> containsStr name ''update'' then ''push''
      else ''unknown'')"

definition operationKey :: "messageRef \<Rightarrow> string" where
  "operationKey ref =
     (if mr_CorrelationID ref \<noteq> '''' then ''corr:'' @ mr_CorrelationID ref else ''evt:'' @ mr_EventID ref)"

definition newMessageRef :: "event \<Rightarrow> int \<Rightarrow> messageRef" where
  "newMessageRef ev offsetMS =
     (let ref =
        \<lparr>mr_EventID = ev_ID ev, mr_Timestamp = ev_Time ev, mr_OffsetMS = offsetMS, mr_MsgName = messageName ev,
         mr_Kind = messageKind ev (messageDirection ev) (messageName ev), mr_Direction = messageDirection ev,
         mr_FlowID = ec_FlowID (ev_Context ev), mr_ConnID = ec_ConnID (ev_Context ev),
         mr_CorrelationID = tc_CorrelationID (ev_Trace ev), mr_CausationID = tc_CausationID (ev_Trace ev),
         mr_OperationKey = ''''\<rparr>
      in ref\<lparr>mr_OperationKey := operationKey ref\<rparr>)"

section \<open>Anchor and window\<close>

definition defaultChangeLimit :: int where "defaultChangeLimit = 1000"

definition maxChangeLimit :: int where "maxChangeLimit = 5000"

definition defaultEventScan :: int where "defaultEventScan = 5000"

text \<open>The earliest event of a list, the first of several.\<close>

definition earliestEvent :: "event list \<Rightarrow> event option" where
  "earliestEvent evs =
     (case evs of
        [] \<Rightarrow> None
      | ev # _ \<Rightarrow> Some (fold (\<lambda>e earliest. if ev_Time e < ev_Time earliest then e else earliest) evs ev))"

definition newAnchor :: "stateQuery \<Rightarrow> resolvedAnchor" where
  "newAnchor q =
     \<lparr>ra_Ref = \<lparr>ar_Kind = an_Kind (sq_Anchor q), ar_ID = an_ID (sq_Anchor q), ar_T0 = zeroTime, ar_Resolved = False,
                 ar_Source = None\<rparr>,
      ra_subjectType = '''', ra_subjectID = ''''\<rparr>"

definition resolveEntity :: "dataSource \<Rightarrow> stateQuery \<Rightarrow> query_error + resolvedAnchor" where
  "resolveEntity src q =
     (case splitEntityID (an_ID (sq_Anchor q)) of
        None \<Rightarrow> Inl EntityAnchorInvalid
      | Some (st, sid) \<Rightarrow>
          (let out = (newAnchor q)\<lparr>ra_subjectType := st, ra_subjectID := sid\<rparr> in
           case ds_changes src (emptyQuery\<lparr>scq_SessionID := sq_SessionID q, scq_SubjectType := st, scq_SubjectID := sid,
                                            scq_Limit := 1\<rparr>) of
             Inl e \<Rightarrow> Inl (SourceFailed e)
           | Inr [] \<Rightarrow> Inr out
           | Inr (r # _) \<Rightarrow> Inr (out\<lparr>ra_Ref := (ra_Ref out)\<lparr>ar_T0 := row_Timestamp r, ar_Resolved := True\<rparr>\<rparr>)))"

text \<open>The event of an anchor: by identifier, else the earliest event of the correlation.\<close>

definition anchorEvent :: "dataSource \<Rightarrow> string \<Rightarrow> query_error + event option" where
  "anchorEvent src anchorID =
     (case splitOperationKey anchorID of
        (eventID, corrID) \<Rightarrow>
          (case ds_byID src eventID of
             Inl e \<Rightarrow> Inl (SourceFailed e)
           | Inr (Some ev) \<Rightarrow> Inr (Some ev)
           | Inr None \<Rightarrow>
               if corrID = '''' then Inr None
               else (case ds_byCorrelation src corrID defaultEventScan 0 of
                       Inl _ \<Rightarrow> Inr None
                     | Inr evs \<Rightarrow> Inr (earliestEvent evs))))"

definition resolveEvent :: "dataSource \<Rightarrow> stateQuery \<Rightarrow> query_error + resolvedAnchor" where
  "resolveEvent src q =
     (case anchorEvent src (an_ID (sq_Anchor q)) of
        Inl e \<Rightarrow> Inl e
      | Inr None \<Rightarrow> Inr (newAnchor q)
      | Inr (Some ev) \<Rightarrow>
          Inr ((newAnchor q)\<lparr>ra_Ref := (ra_Ref (newAnchor q))\<lparr>ar_T0 := ev_Time ev, ar_Resolved := True,
                              ar_Source := Some (newMessageRef ev 0)\<rparr>\<rparr>))"

definition resolveAnchor :: "dataSource \<Rightarrow> stateQuery \<Rightarrow> query_error + resolvedAnchor" where
  "resolveAnchor src q =
     (case an_Kind (sq_Anchor q) of
        AnchorNone \<Rightarrow> Inr (newAnchor q)
      | AnchorEntity \<Rightarrow> resolveEntity src q
      | AnchorEvent \<Rightarrow> resolveEvent src q
      | AnchorOperation \<Rightarrow> resolveEvent src q
      | AnchorUnknown _ \<Rightarrow> Inl UnknownAnchorKind)"

definition resolveWindow :: "stateQuery \<Rightarrow> resolvedAnchor \<Rightarrow> time \<times> time" where
  "resolveWindow q a =
     (let t0 = ar_T0 (ra_Ref a) in
      if sq_From q \<noteq> zeroTime \<or> sq_To q \<noteq> zeroTime then (sq_From q, sq_To q)
      else if t0 = zeroTime \<or> (sq_BeforeMS q = 0 \<and> sq_AfterMS q = 0) then (zeroTime, zeroTime)
      else (t0 + durationMS (wrap64 (- sq_BeforeMS q)), t0 + durationMS (sq_AfterMS q)))"


section \<open>Index of messages\<close>

record messageIndex =
  mi_byID :: "(string \<times> messageRef) list"
  mi_byCorr :: "(string \<times> messageRef list) list"

definition corrRefs :: "messageIndex \<Rightarrow> string \<Rightarrow> messageRef list" where
  "corrRefs idx corr = (case map_of (mi_byCorr idx) corr of None \<Rightarrow> [] | Some refs \<Rightarrow> refs)"

definition indexRef :: "messageRef \<Rightarrow> messageIndex \<Rightarrow> messageIndex" where
  "indexRef ref idx =
     idx\<lparr>mi_byID := AList.update (mr_EventID ref) ref (mi_byID idx),
         mi_byCorr := (if mr_CorrelationID ref = '''' then mi_byCorr idx
                       else AList.update (mr_CorrelationID ref) (corrRefs idx (mr_CorrelationID ref) @ [ref]) (mi_byCorr idx))\<rparr>"

text \<open>A row whose event is not indexed yet fetches it; a failure is skipped.\<close>

definition indexMissing :: "dataSource \<Rightarrow> stateChangeRow \<Rightarrow> messageIndex \<Rightarrow> messageIndex" where
  "indexMissing src r idx =
     (if map_of (mi_byID idx) (row_EventID r) \<noteq> None then idx
      else (case ds_byID src (row_EventID r) of
              Inr (Some ev) \<Rightarrow> indexRef (newMessageRef ev 0) idx
            | _ \<Rightarrow> idx))"

definition scanBound :: "time \<Rightarrow> stateChangeRow list \<Rightarrow> (stateChangeRow list \<Rightarrow> stateChangeRow) \<Rightarrow> int \<Rightarrow> time" where
  "scanBound bound rows pick widen =
     (let b = (if bound = zeroTime \<and> rows \<noteq> [] then row_Timestamp (pick rows) else bound) in
      if b = zeroTime then b else b + widen)"

definition buildMessageIndex ::
  "dataSource \<Rightarrow> stateQuery \<Rightarrow> stateChangeRow list \<Rightarrow> time \<Rightarrow> time \<Rightarrow> resolvedAnchor \<Rightarrow> query_error + messageIndex"
where
  "buildMessageIndex src q rows from to a =
     (case ds_inRange src (sq_SessionID q) (scanBound from rows hd (- 1000000000)) (scanBound to rows last 1000000000)
             defaultEventScan of
        Inl e \<Rightarrow> Inl (SourceFailed e)
      | Inr events \<Rightarrow>
          (let idx = fold (\<lambda>ev. indexRef (newMessageRef ev 0)) events \<lparr>mi_byID = [], mi_byCorr = []\<rparr>;
               idx = (case ar_Source (ra_Ref a) of None \<Rightarrow> idx | Some ref \<Rightarrow> indexRef ref idx)
           in Inr (fold (indexMissing src) rows idx)))"

section \<open>Enriched changes\<close>

definition sourceOf :: "messageIndex \<Rightarrow> stateChangeRow \<Rightarrow> messageRef" where
  "sourceOf idx r =
     (let ref = (case map_of (mi_byID idx) (row_EventID r) of None \<Rightarrow> zeroRef | Some ref \<Rightarrow> ref);
          ref = (if mr_EventID ref = '''' then
                   zeroRef\<lparr>mr_EventID := row_EventID r, mr_Timestamp := row_Timestamp r, mr_Kind := ''unknown'',
                           mr_OperationKey := row_EventID r\<rparr>
                 else ref)
      in if mr_FlowID ref = '''' then ref\<lparr>mr_FlowID := row_FlowID r\<rparr> else ref)"

definition changeOfRow :: "messageRef \<Rightarrow> stateChangeRow \<Rightarrow> change" where
  "changeOfRow ref r =
     \<lparr>ch_ID = row_ID r, ch_Seq = 0, ch_SrcSeq = row_Seq r, ch_EventID = row_EventID r, ch_SessionID = row_SessionID r,
      ch_FlowID = row_FlowID r, ch_Timestamp = row_Timestamp r, ch_OffsetMS = 0, ch_SubjectType = row_SubjectType r,
      ch_SubjectID = row_SubjectID r, ch_EntityKey = entityKeyOf (row_SubjectType r) (row_SubjectID r), ch_Op = row_Op r,
      ch_Path = row_Path r, ch_Before = rawJSON (row_Before r), ch_After = rawJSON (row_After r), ch_Version = row_Version r,
      ch_Metadata = rawJSON (row_Metadata r), ch_Source = ref, ch_BeforeResolved = row_BeforeResolved r\<rparr>"

definition rowMatches :: "changeFilter \<Rightarrow> stateChangeRow \<Rightarrow> bool" where
  "rowMatches f r \<longleftrightarrow> filterMatches f (row_SubjectType r) (row_SubjectID r) (row_Path r) (row_Op r)"

definition enrichRows :: "messageIndex \<Rightarrow> changeFilter \<Rightarrow> stateChangeRow list \<Rightarrow> change list" where
  "enrichRows idx f rows = map (\<lambda>r. changeOfRow (sourceOf idx r) r) (filter (rowMatches f) rows)"

definition streamOrder :: "change \<Rightarrow> time \<times> string \<times> int \<times> string" where
  "streamOrder c = (ch_Timestamp c, ch_EventID c, ch_SrcSeq c, ch_ID c)"

text \<open>
  Sequence numbers and offsets: first those of the changes, then those of the source messages,
  where the first change of a message decides for the others.
\<close>

definition offsetFrom :: "time \<Rightarrow> time \<Rightarrow> int" where
  "offsetFrom t0 t = milliseconds (timeSub t t0)"

fun numberChanges :: "time \<Rightarrow> nat \<Rightarrow> change list \<Rightarrow> change list" where
  "numberChanges t0 i [] = []"
| "numberChanges t0 i (c # cs) =
     c\<lparr>ch_Seq := Suc i, ch_OffsetMS := offsetFrom t0 (ch_Timestamp c)\<rparr> # numberChanges t0 (Suc i) cs"

fun offsetSources :: "time \<Rightarrow> (string \<times> int) list \<Rightarrow> change list \<Rightarrow> change list" where
  "offsetSources t0 srcOffset [] = []"
| "offsetSources t0 srcOffset (c # cs) =
     (let ref = ch_Source c in
      case map_of srcOffset (mr_EventID ref) of
        Some off \<Rightarrow> c\<lparr>ch_Source := ref\<lparr>mr_OffsetMS := off\<rparr>\<rparr> # offsetSources t0 srcOffset cs
      | None \<Rightarrow>
          (let off = offsetFrom t0 (mr_Timestamp ref) in
           c\<lparr>ch_Source := ref\<lparr>mr_OffsetMS := off\<rparr>\<rparr> # offsetSources t0 ((mr_EventID ref, off) # srcOffset) cs))"

definition applyOffsets :: "time \<Rightarrow> change list \<Rightarrow> change list" where
  "applyOffsets t0 changes = offsetSources t0 [] (numberChanges t0 0 changes)"

section \<open>Grouping by entity\<close>

definition newHit :: "change \<Rightarrow> nat \<Rightarrow> operationHit" where
  "newHit c i =
     (let ref = ch_Source c in
      \<lparr>oh_Key = mr_OperationKey ref, oh_Label = mr_MsgName ref, oh_Kind = mr_Kind ref, oh_EventID = mr_EventID ref,
       oh_Timestamp = mr_Timestamp ref, oh_OffsetMS = mr_OffsetMS ref, oh_ChangeCount = 0, oh_FieldPaths = [],
       oh_Events = []\<rparr>)"

definition hitHasEvent :: "operationHit \<Rightarrow> string \<Rightarrow> bool" where
  "hitHasEvent h eventID \<longleftrightarrow> list_ex (\<lambda>e. mr_EventID e = eventID) (oh_Events h)"

definition bumpHit :: "change \<Rightarrow> operationHit \<Rightarrow> operationHit" where
  "bumpHit c h =
     h\<lparr>oh_ChangeCount := oh_ChangeCount h + 1, oh_FieldPaths := appendUnique (oh_FieldPaths h) (ch_Path c),
       oh_Events := (if hitHasEvent h (mr_EventID (ch_Source c)) then oh_Events h else oh_Events h @ [ch_Source c])\<rparr>"

definition newEntity :: "change \<Rightarrow> nat \<Rightarrow> entityGroup" where
  "newEntity c i =
     \<lparr>eg_SubjectType = ch_SubjectType c, eg_SubjectID = ch_SubjectID c, eg_Key = ch_EntityKey c, eg_ChangeCount = 0,
      eg_FieldCount = 0, eg_FieldPaths = [], eg_FirstChange = zeroTime, eg_LastChange = zeroTime, eg_FirstOffsetMS = 0,
      eg_LastOffsetMS = 0, eg_Operations = [], eg_Changes = []\<rparr>"

definition addToEntity :: "change \<Rightarrow> entityGroup \<Rightarrow> entityGroup" where
  "addToEntity c g = g\<lparr>eg_Changes := eg_Changes g @ [c]\<rparr>"

definition sortHits :: "(messageRef list \<Rightarrow> messageRef list) \<Rightarrow> operationHit list \<Rightarrow> operationHit list" where
  "sortHits srt hits =
     sort_key (\<lambda>h. (oh_Timestamp h, oh_Key h)) (map (\<lambda>h. h\<lparr>oh_Events := srt (oh_Events h)\<rparr>) hits)"

definition finalizeEntity :: "(messageRef list \<Rightarrow> messageRef list) \<Rightarrow> entityGroup \<Rightarrow> entityGroup" where
  "finalizeEntity srt g =
     (case eg_Changes g of
        [] \<Rightarrow> g
      | first # _ \<Rightarrow>
          (let end = last (eg_Changes g); paths = sort (uniq (map ch_Path (eg_Changes g))) in
           g\<lparr>eg_FirstChange := ch_Timestamp first, eg_LastChange := ch_Timestamp end,
             eg_FirstOffsetMS := ch_OffsetMS first, eg_LastOffsetMS := ch_OffsetMS end,
             eg_ChangeCount := length (eg_Changes g), eg_FieldPaths := paths, eg_FieldCount := length paths,
             eg_Operations := sortHits srt
               (groupLoop (\<lambda>c. mr_OperationKey (ch_Source c)) oh_Key newHit bumpHit (eg_Changes g))\<rparr>))"

definition sortEntityGroups :: "stateQuery \<Rightarrow> entityGroup list \<Rightarrow> entityGroup list" where
  "sortEntityGroups q groups =
     (let sorted = (case sq_SortBy q of
          SortByChangeCount \<Rightarrow> sort_key (\<lambda>g. - int (eg_ChangeCount g)) groups
        | SortByTime \<Rightarrow> sort_key (\<lambda>g. - eg_LastOffsetMS g) groups
        | SortByFirstChange \<Rightarrow> sort_key eg_FirstOffsetMS groups)
      in if sq_Desc q then rev sorted else sorted)"

definition entityGroups :: "(messageRef list \<Rightarrow> messageRef list) \<Rightarrow> change list \<Rightarrow> entityGroup list" where
  "entityGroups srt changes = map (finalizeEntity srt) (groupLoop ch_EntityKey eg_Key newEntity addToEntity changes)"

definition groupByEntity :: "(messageRef list \<Rightarrow> messageRef list) \<Rightarrow> stateQuery \<Rightarrow> change list \<Rightarrow> entityGroup list" where
  "groupByEntity srt q changes = sortEntityGroups q (entityGroups srt changes)"

section \<open>Grouping by operation\<close>

definition newOperation :: "change \<Rightarrow> nat \<Rightarrow> operationGroup" where
  "newOperation c i =
     \<lparr>og_Key = mr_OperationKey (ch_Source c), og_Label = '''', og_Kind = '''', og_Anchor = ch_Source c, og_Chain = [],
      og_ChangeCount = 0, og_EntityCount = 0, og_FieldCount = 0, og_StartOffsetMS = 0, og_EndOffsetMS = 0,
      og_Entities = [], og_Changes = []\<rparr>"

definition addToOperation :: "change \<Rightarrow> operationGroup \<Rightarrow> operationGroup" where
  "addToOperation c g = g\<lparr>og_Changes := og_Changes g @ [c]\<rparr>"

text \<open>A message joins the chain unless one of its event is there.\<close>

definition joinChain :: "messageRef \<Rightarrow> messageRef list \<Rightarrow> messageRef list" where
  "joinChain m chain = (if list_ex (\<lambda>m'. mr_EventID m' = mr_EventID m) chain then chain else chain @ [m])"

definition operationChain :: "(messageRef list \<Rightarrow> messageRef list) \<Rightarrow> messageIndex \<Rightarrow> operationGroup \<Rightarrow> messageRef list" where
  "operationChain srt idx g =
     (let chain = fold (\<lambda>c. joinChain (ch_Source c)) (og_Changes g) [];
          corr = trimPrefix (og_Key g) ''corr:'';
          chain = (if corr \<noteq> '''' \<and> corr \<noteq> og_Key g then fold joinChain (corrRefs idx corr) chain else chain)
      in srt chain)"

definition chainAnchor :: "messageRef \<Rightarrow> messageRef list \<Rightarrow> messageRef" where
  "chainAnchor start chain =
     (let m = (case find (\<lambda>m. mr_Kind m = ''request'') chain of Some m \<Rightarrow> m | None \<Rightarrow> start) in
      if mr_Kind m \<noteq> ''request'' \<and> chain \<noteq> [] then hd chain else m)"

definition operationEntities :: "(messageRef list \<Rightarrow> messageRef list) \<Rightarrow> change list \<Rightarrow> entityGroup list" where
  "operationEntities srt changes =
     sort_key (\<lambda>e. (eg_FirstChange e, - int (eg_ChangeCount e), eg_Key e)) (entityGroups srt changes)"

definition finalizeOperation ::
  "(messageRef list \<Rightarrow> messageRef list) \<Rightarrow> messageIndex \<Rightarrow> operationGroup \<Rightarrow> operationGroup"
where
  "finalizeOperation srt idx g =
     (let chain = operationChain srt idx g; top = chainAnchor (og_Anchor g) chain; cs = og_Changes g in
      g\<lparr>og_Chain := chain, og_Anchor := top, og_Label := mr_MsgName top, og_Kind := mr_Kind top,
        og_ChangeCount := length cs, og_EntityCount := length (uniq (map ch_EntityKey cs)),
        og_FieldCount := length (uniq (map ch_Path cs)), og_Entities := operationEntities srt cs,
        og_StartOffsetMS := (if cs = [] then og_StartOffsetMS g else ch_OffsetMS (hd cs)),
        og_EndOffsetMS := (if cs = [] then og_EndOffsetMS g else ch_OffsetMS (last cs))\<rparr>)"

definition sortOperationGroups :: "stateQuery \<Rightarrow> operationGroup list \<Rightarrow> operationGroup list" where
  "sortOperationGroups q groups =
     (let sorted = (case sq_SortBy q of
          SortByChangeCount \<Rightarrow> sort_key (\<lambda>g. - int (og_ChangeCount g)) groups
        | SortByTime \<Rightarrow> sort_key (\<lambda>g. - og_EndOffsetMS g) groups
        | SortByFirstChange \<Rightarrow> sort_key og_StartOffsetMS groups)
      in if sq_Desc q then rev sorted else sorted)"

definition groupByOperation ::
  "(messageRef list \<Rightarrow> messageRef list) \<Rightarrow> stateQuery \<Rightarrow> messageIndex \<Rightarrow> change list \<Rightarrow> operationGroup list"
where
  "groupByOperation srt q idx changes =
     sortOperationGroups q (map (finalizeOperation srt idx)
       (groupLoop (\<lambda>c. mr_OperationKey (ch_Source c)) og_Key newOperation addToOperation changes))"

section \<open>Grouping by event\<close>

definition newEventGroup :: "change \<Rightarrow> nat \<Rightarrow> eventGroup" where
  "newEventGroup c i =
     \<lparr>vg_EventID = ch_EventID c, vg_Source = ch_Source c, vg_ChangeCount = 0, vg_EntityCount = 0, vg_Changes = []\<rparr>"

definition addToEvent :: "change \<Rightarrow> eventGroup \<Rightarrow> eventGroup" where
  "addToEvent c g = g\<lparr>vg_Changes := vg_Changes g @ [c]\<rparr>"

definition finalizeEvent :: "eventGroup \<Rightarrow> eventGroup" where
  "finalizeEvent g =
     g\<lparr>vg_ChangeCount := length (vg_Changes g), vg_EntityCount := length (uniq (map ch_EntityKey (vg_Changes g)))\<rparr>"

definition groupByEvent :: "stateQuery \<Rightarrow> change list \<Rightarrow> eventGroup list" where
  "groupByEvent q changes =
     (let groups = sort_key (\<lambda>g. (mr_Timestamp (vg_Source g), vg_EventID g))
            (map finalizeEvent (groupLoop ch_EventID vg_EventID newEventGroup addToEvent changes))
      in if sq_Desc q then rev groups else groups)"

section \<open>Grouping by time\<close>

definition bucketSteps :: "int list" where
  "bucketSteps = [1, 5, 10, 25, 50, 100, 250, 500, 1000, 2000, 5000, 10000, 30000, 60000, 300000]"

definition autoBucketMS :: "int \<Rightarrow> int \<Rightarrow> int" where
  "autoBucketMS firstMS lastMS =
     (let span = lastMS - firstMS; span = (if span < 0 then - span else span);
          target = span sdiv 20; target = (if target < 1 then 1 else target)
      in case find (\<lambda>s. target \<le> s) bucketSteps of Some s \<Rightarrow> s | None \<Rightarrow> 600000)"

definition floorTo :: "int \<Rightarrow> int \<Rightarrow> int" where
  "floorTo v unit =
     (if unit \<le> 0 then v
      else let q = v sdiv unit; q = (if v < 0 \<and> v smod unit \<noteq> 0 then q - 1 else q) in wrap64 (q * unit))"

definition newBucketEntity :: "change \<Rightarrow> nat \<Rightarrow> bucketEntity" where
  "newBucketEntity c i =
     \<lparr>be_Key = ch_EntityKey c, be_SubjectType = ch_SubjectType c, be_SubjectID = ch_SubjectID c, be_ChangeCount = 0,
      be_FieldPaths = []\<rparr>"

definition bumpBucketEntity :: "change \<Rightarrow> bucketEntity \<Rightarrow> bucketEntity" where
  "bumpBucketEntity c e =
     e\<lparr>be_ChangeCount := be_ChangeCount e + 1, be_FieldPaths := appendUnique (be_FieldPaths e) (ch_Path c)\<rparr>"

definition newBucketOperation :: "int \<Rightarrow> change \<Rightarrow> nat \<Rightarrow> bucketOperation" where
  "newBucketOperation bucketMS c i =
     (let ref = ch_Source c in
      \<lparr>bo_Key = mr_OperationKey ref, bo_Label = mr_MsgName ref, bo_Kind = mr_Kind ref,
       bo_OffsetMS = floorTo (mr_OffsetMS ref) bucketMS, bo_ChangeCount = 0, bo_Entities = []\<rparr>)"

definition bumpBucketOperation :: "change \<Rightarrow> bucketOperation \<Rightarrow> bucketOperation" where
  "bumpBucketOperation c b =
     b\<lparr>bo_ChangeCount := bo_ChangeCount b + 1,
       bo_Entities := upsert (\<lambda>e. be_Key e = ch_EntityKey c) (newBucketEntity c) (bumpBucketEntity c) (bo_Entities b)\<rparr>"

definition newBucket :: "int \<Rightarrow> time \<Rightarrow> change \<Rightarrow> nat \<Rightarrow> timeBucket" where
  "newBucket bucketMS t0 c i =
     (let startOff = floorTo (ch_OffsetMS c) bucketMS in
      \<lparr>tb_Index = i, tb_StartOffsetMS = startOff, tb_EndOffsetMS = wrap64 (startOff + bucketMS),
       tb_Start = t0 + durationMS startOff, tb_ChangeCount = 0, tb_EntityCount = 0, tb_Operations = []\<rparr>)"

definition bumpBucket :: "int \<Rightarrow> change \<Rightarrow> timeBucket \<Rightarrow> timeBucket" where
  "bumpBucket bucketMS c b =
     b\<lparr>tb_ChangeCount := tb_ChangeCount b + 1,
       tb_Operations := upsert (\<lambda>bo. bo_Key bo = mr_OperationKey (ch_Source c)) (newBucketOperation bucketMS c)
         (bumpBucketOperation c) (tb_Operations b)\<rparr>"

definition finalizeBucket :: "timeBucket \<Rightarrow> timeBucket" where
  "finalizeBucket b =
     (let ops = map (\<lambda>bo. bo\<lparr>bo_Entities := sort_key (\<lambda>e. (- int (be_ChangeCount e), be_Key e)) (bo_Entities bo)\<rparr>)
            (tb_Operations b)
      in b\<lparr>tb_Operations := ops, tb_EntityCount := length (uniq (map be_Key (concat (map bo_Entities ops))))\<rparr>)"

definition bucketWidth :: "stateQuery \<Rightarrow> change list \<Rightarrow> int" where
  "bucketWidth q changes =
     (if sq_BucketMS q \<le> 0 then autoBucketMS (ch_OffsetMS (hd changes)) (ch_OffsetMS (last changes)) else sq_BucketMS q)"

definition groupByTime :: "stateQuery \<Rightarrow> time \<Rightarrow> change list \<Rightarrow> timeBucket list" where
  "groupByTime q t0 changes =
     (if changes = [] then []
      else
        (let w = bucketWidth q changes;
             buckets = map finalizeBucket
               (groupLoop (\<lambda>c. floorTo (ch_OffsetMS c) w) tb_StartOffsetMS (newBucket w t0) (bumpBucket w) changes)
         in if sq_Desc q then rev buckets else buckets))"

section \<open>The query\<close>

definition summarize :: "change list \<Rightarrow> operationGroup list \<Rightarrow> entityGroup list \<Rightarrow> eventGroup list \<Rightarrow> changeSummary" where
  "summarize changes operations entities events =
     \<lparr>su_ChangeCount = length changes, su_EntityCount = length entities,
      su_FieldCount = length (uniq (map (\<lambda>c. ch_SubjectType c @ ''.'' @ ch_Path c) changes)),
      su_OperationCount = length operations, su_EventCount = length events,
      su_FirstChange = (if changes = [] then zeroTime else ch_Timestamp (hd changes)),
      su_LastChange = (if changes = [] then zeroTime else ch_Timestamp (last changes)),
      su_EntityChanges = sort_key (\<lambda>g. (- int (eg_ChangeCount g), eg_Key g)) entities\<rparr>"

definition zeroSummary :: changeSummary where
  "zeroSummary =
     \<lparr>su_ChangeCount = 0, su_EntityCount = 0, su_FieldCount = 0, su_OperationCount = 0, su_EventCount = 0,
      su_FirstChange = zeroTime, su_LastChange = zeroTime, su_EntityChanges = []\<rparr>"

definition emptyResult :: "stateQuery \<Rightarrow> resolvedAnchor \<Rightarrow> time \<Rightarrow> time \<Rightarrow> resultSet" where
  "emptyResult q a from to =
     \<lparr>rs_SessionID = sq_SessionID q, rs_Anchor = ra_Ref a, rs_From = from, rs_To = to, rs_Truncated = False,
      rs_Summary = zeroSummary, rs_Changes = [], rs_Operations = [], rs_Entities = [], rs_Events = [], rs_Buckets = []\<rparr>"

definition changeLimit :: "stateQuery \<Rightarrow> int" where
  "changeLimit q =
     (let limit = (if sq_Limit q \<le> 0 then defaultChangeLimit else sq_Limit q) in
      if maxChangeLimit < limit then maxChangeLimit else limit)"

definition rowsQuery :: "stateQuery \<Rightarrow> resolvedAnchor \<Rightarrow> time \<Rightarrow> time \<Rightarrow> stateChangeQuery" where
  "rowsQuery q a from to =
     emptyQuery\<lparr>scq_SessionID := sq_SessionID q, scq_SubjectType := ra_subjectType a, scq_SubjectID := ra_subjectID a,
                scq_From := from, scq_To := to, scq_Limit := changeLimit q\<rparr>"

definition resultOf ::
  "(messageRef list \<Rightarrow> messageRef list) \<Rightarrow> stateQuery \<Rightarrow> resolvedAnchor \<Rightarrow> time \<Rightarrow> time \<Rightarrow> nat \<Rightarrow> messageIndex \<Rightarrow>
   change list \<Rightarrow> resultSet"
where
  "resultOf srt q a from to loaded idx enriched =
     (let changes = sort_key streamOrder enriched;
          t0 = (if ar_T0 (ra_Ref a) = zeroTime then ch_Timestamp (hd changes) else ar_T0 (ra_Ref a));
          changes = applyOffsets t0 changes;
          operations = groupByOperation srt q idx changes;
          entities = groupByEntity srt q changes;
          events = groupByEvent q changes
      in \<lparr>rs_SessionID = sq_SessionID q, rs_Anchor = (ra_Ref a)\<lparr>ar_T0 := t0\<rparr>, rs_From = from, rs_To = to,
          rs_Truncated = (changeLimit q \<le> int loaded), rs_Summary = summarize changes operations entities events,
          rs_Changes = changes, rs_Operations = operations, rs_Entities = entities, rs_Events = events,
          rs_Buckets = groupByTime q t0 changes\<rparr>)"

definition run :: "(messageRef list \<Rightarrow> messageRef list) \<Rightarrow> dataSource \<Rightarrow> stateQuery \<Rightarrow> query_error + resultSet" where
  "run srt src q =
     (if sq_SessionID q = '''' then Inl SessionRequired
      else
        (case resolveAnchor src q of
           Inl e \<Rightarrow> Inl e
         | Inr a \<Rightarrow>
             (case resolveWindow q a of
                (from, to) \<Rightarrow>
                  (case ds_changes src (rowsQuery q a from to) of
                     Inl e \<Rightarrow> Inl (SourceFailed e)
                   | Inr rows \<Rightarrow>
                       (case buildMessageIndex src q rows from to a of
                          Inl e \<Rightarrow> Inl e
                        | Inr idx \<Rightarrow>
                            (let enriched = enrichRows idx (sq_Filter q) rows in
                             if enriched = [] then Inr (emptyResult q a from to)
                             else Inr (resultOf srt q a from to (length rows) idx enriched)))))))"


section \<open>The four views hold the same changes\<close>

lemma entity_loop_partition:
  "partitions ch_EntityKey eg_Key eg_Changes (groupLoop ch_EntityKey eg_Key newEntity addToEntity cs) cs"
  by (rule partitions_groupLoop) (simp_all add: newEntity_def addToEntity_def)

lemma entity_partition: "partitions ch_EntityKey eg_Key eg_Changes (entityGroups srt cs) cs"
  unfolding entityGroups_def
  by (rule partitions_map [OF entity_loop_partition]) (simp_all add: finalizeEntity_def Let_def split: list.split)

lemma mset_sortEntityGroups: "mset (sortEntityGroups q gs) = mset gs"
  by (simp add: sortEntityGroups_def Let_def split: sortBy.split)

lemma mset_sortOperationGroups: "mset (sortOperationGroups q gs) = mset gs"
  by (simp add: sortOperationGroups_def Let_def split: sortBy.split)

lemma groupByEntity_partition: "partitions ch_EntityKey eg_Key eg_Changes (groupByEntity srt q cs) cs"
  unfolding groupByEntity_def by (rule partitions_mset [OF entity_partition mset_sortEntityGroups])

lemma operation_partition:
  "partitions (\<lambda>c. mr_OperationKey (ch_Source c)) og_Key og_Changes (groupByOperation srt q idx cs) cs"
  unfolding groupByOperation_def
proof (rule partitions_mset [OF partitions_map mset_sortOperationGroups])
  show "partitions (\<lambda>c. mr_OperationKey (ch_Source c)) og_Key og_Changes
      (groupLoop (\<lambda>c. mr_OperationKey (ch_Source c)) og_Key newOperation addToOperation cs) cs"
    by (rule partitions_groupLoop) (simp_all add: newOperation_def addToOperation_def)
qed (simp_all add: finalizeOperation_def Let_def)

lemma event_partition: "partitions ch_EventID vg_EventID vg_Changes (groupByEvent q cs) cs"
proof -
  have "partitions ch_EventID vg_EventID vg_Changes
      (map finalizeEvent (groupLoop ch_EventID vg_EventID newEventGroup addToEvent cs)) cs"
  proof (rule partitions_map)
    show "partitions ch_EventID vg_EventID vg_Changes (groupLoop ch_EventID vg_EventID newEventGroup addToEvent cs) cs"
      by (rule partitions_groupLoop) (simp_all add: newEventGroup_def addToEvent_def)
  qed (simp_all add: finalizeEvent_def)
  then show ?thesis
    by (rule partitions_mset) (simp add: groupByEvent_def Let_def)
qed

text \<open>Counts that the groups report.\<close>

lemma entity_counts: "g \<in> set (entityGroups srt cs) \<Longrightarrow> eg_ChangeCount g = length (eg_Changes g)"
  by (auto simp: entityGroups_def finalizeEntity_def Let_def split: list.split
      dest: partitions_nonempty [OF entity_loop_partition])

lemma operation_counts:
  assumes "g \<in> set (groupByOperation srt q idx cs)"
  shows "og_ChangeCount g = length (og_Changes g)" "og_Entities g = operationEntities srt (og_Changes g)"
    "og_EntityCount g = length (og_Entities g)"
proof -
  have "g \<in> set (map (finalizeOperation srt idx)
      (groupLoop (\<lambda>c. mr_OperationKey (ch_Source c)) og_Key newOperation addToOperation cs))"
    using assms mset_eq_setD [OF mset_sortOperationGroups] by (simp add: groupByOperation_def)
  then obtain g' where g: "g = finalizeOperation srt idx g'"
    by auto
  then show "og_ChangeCount g = length (og_Changes g)" "og_Entities g = operationEntities srt (og_Changes g)"
    by (simp_all add: finalizeOperation_def Let_def)
  have "length (entityGroups srt (og_Changes g')) = card (ch_EntityKey ` set (og_Changes g'))"
    by (rule partitions_length [OF entity_partition])
  then show "og_EntityCount g = length (og_Entities g)"
    using g by (simp add: finalizeOperation_def Let_def operationEntities_def length_uniq)
qed

lemma event_counts: "g \<in> set (groupByEvent q cs) \<Longrightarrow> vg_ChangeCount g = length (vg_Changes g)"
  by (auto simp: groupByEvent_def Let_def finalizeEvent_def split: if_splits)

end
