(* ===== verification/State_Views.thy ===== *)
theory State_Views
  imports State_Query
begin

text \<open>
  What the query engine for state changes promises: the changes are those of the database, in
  order and numbered; the views by operation, entity, event and time hold the same changes; the
  buckets of the time view tile the axis. The laws of the store come from \<open>change_source\<close>, so the
  results hold for both databases.
\<close>

section \<open>Numbering and offsets\<close>

text \<open>What a change takes over from its row.\<close>

definition changeCore :: "change \<Rightarrow> change" where
  "changeCore c = c\<lparr>ch_Seq := 0, ch_OffsetMS := 0, ch_Source := zeroRef\<rparr>"

lemma numberChanges_map:
  "map ch_Seq (numberChanges t0 i cs) = map Suc [i..<i + length cs]"
  "map ch_Timestamp (numberChanges t0 i cs) = map ch_Timestamp cs"
  "map ch_OffsetMS (numberChanges t0 i cs) = map (\<lambda>c. offsetFrom t0 (ch_Timestamp c)) cs"
  "map changeCore (numberChanges t0 i cs) = map changeCore cs"
  "map (\<lambda>c. h (ch_Source c)) (numberChanges t0 i cs) = map (\<lambda>c. h (ch_Source c)) cs"
  by (induction cs arbitrary: i) (simp_all add: upt_rec changeCore_def del: upt_Suc)

lemma offsetSources_map:
  "map ch_Seq (offsetSources t0 m cs) = map ch_Seq cs"
  "map ch_Timestamp (offsetSources t0 m cs) = map ch_Timestamp cs"
  "map ch_OffsetMS (offsetSources t0 m cs) = map ch_OffsetMS cs"
  "map changeCore (offsetSources t0 m cs) = map changeCore cs"
  "map (\<lambda>c. (ch_Source c)\<lparr>mr_OffsetMS := 0\<rparr>) (offsetSources t0 m cs) = map (\<lambda>c. (ch_Source c)\<lparr>mr_OffsetMS := 0\<rparr>) cs"
  by (induction cs arbitrary: m) (simp_all add: Let_def changeCore_def split: option.split)

lemma applyOffsets_map:
  "map ch_Seq (applyOffsets t0 cs) = map Suc [0..<length cs]"
  "map ch_Timestamp (applyOffsets t0 cs) = map ch_Timestamp cs"
  "map ch_OffsetMS (applyOffsets t0 cs) = map (\<lambda>c. offsetFrom t0 (ch_Timestamp c)) cs"
  "map changeCore (applyOffsets t0 cs) = map changeCore cs"
  "map (\<lambda>c. (ch_Source c)\<lparr>mr_OffsetMS := 0\<rparr>) (applyOffsets t0 cs) = map (\<lambda>c. (ch_Source c)\<lparr>mr_OffsetMS := 0\<rparr>) cs"
  by (simp_all add: applyOffsets_def offsetSources_map numberChanges_map)

lemma streamOrder_core: "streamOrder (changeCore c) = streamOrder c"
  by (simp add: streamOrder_def changeCore_def)

lemma applyOffsets_order: "map streamOrder (applyOffsets t0 cs) = map streamOrder cs"
  using arg_cong [OF applyOffsets_map(4) [of t0 cs], of "map streamOrder"] by (simp add: streamOrder_core o_def)

lemma length_applyOffsets [simp]: "length (applyOffsets t0 cs) = length cs"
  using arg_cong [OF applyOffsets_map(2), of length] by simp

lemma applyOffsets_offset:
  "c \<in> set (applyOffsets t0 cs) \<Longrightarrow> ch_OffsetMS c = offsetFrom t0 (ch_Timestamp c)"
proof -
  assume "c \<in> set (applyOffsets t0 cs)"
  then obtain i where i: "i < length cs" "c = applyOffsets t0 cs ! i"
    by (metis in_set_conv_nth length_applyOffsets)
  then show ?thesis
    using arg_cong [OF applyOffsets_map(3) [of t0 cs], of "\<lambda>l. l ! i"]
      arg_cong [OF applyOffsets_map(2) [of t0 cs], of "\<lambda>l. l ! i"] by simp
qed

lemma offsetFrom_mono: "t \<le> u \<Longrightarrow> offsetFrom t0 t \<le> offsetFrom t0 u"
  by (simp add: offsetFrom_def milliseconds_mono timeSub_mono)

lemma offsetFrom_bounds: "\<bar>offsetFrom t0 t\<bar> < 2 ^ 62"
proof -
  have "milliseconds (- (2 ^ 63)) \<le> offsetFrom t0 t" "offsetFrom t0 t \<le> milliseconds (2 ^ 63 - 1)"
    by (auto simp: offsetFrom_def timeSub_def intro!: milliseconds_mono)
  moreover have "milliseconds (- (2 ^ 63)) = - 9223372036854" "milliseconds (2 ^ 63 - 1) = 9223372036854"
    by (simp_all add: milliseconds_def signed_divide_int_def)
  ultimately show ?thesis
    by (simp add: abs_if)
qed

section \<open>The result of a query\<close>

text \<open>A successful query, taken apart.\<close>

lemma run_cases:
  assumes "run srt src q = Inr rs"
  obtains (empty) a lo hi rows idx where
      "sq_SessionID q \<noteq> ''''" "resolveAnchor src q = Inr a" "resolveWindow q a = (lo, hi)"
      "ds_changes src (rowsQuery q a lo hi) = Inr rows" "buildMessageIndex src q rows lo hi a = Inr idx"
      "enrichRows idx (sq_Filter q) rows = []" "rs = emptyResult q a lo hi"
  | (found) a lo hi rows idx where
      "sq_SessionID q \<noteq> ''''" "resolveAnchor src q = Inr a" "resolveWindow q a = (lo, hi)"
      "ds_changes src (rowsQuery q a lo hi) = Inr rows" "buildMessageIndex src q rows lo hi a = Inr idx"
      "enrichRows idx (sq_Filter q) rows \<noteq> []"
      "rs = resultOf srt q a lo hi (length rows) idx (enrichRows idx (sq_Filter q) rows)"
  using assms by (auto simp: run_def Let_def split: if_splits sum.splits prod.splits)

text \<open>Every view is built from the one list of changes.\<close>

lemma run_views:
  assumes "run srt src q = Inr rs"
  shows "\<exists>idx. rs_Operations rs = groupByOperation srt q idx (rs_Changes rs)"
    and "rs_Entities rs = groupByEntity srt q (rs_Changes rs)" and "rs_Events rs = groupByEvent q (rs_Changes rs)"
    and "rs_Buckets rs = groupByTime q (ar_T0 (rs_Anchor rs)) (rs_Changes rs)"
    and "su_ChangeCount (rs_Summary rs) = length (rs_Changes rs)"
    and "su_OperationCount (rs_Summary rs) = length (rs_Operations rs)"
    and "su_EntityCount (rs_Summary rs) = length (rs_Entities rs)" and "su_EventCount (rs_Summary rs) = length (rs_Events rs)"
proof -
  have nil: "groupByOperation srt q idx [] = []" "groupByEntity srt q [] = []" "groupByEvent q [] = []" "groupByTime q t0 [] = []" for idx t0
    by (simp_all add: groupByOperation_def sortOperationGroups_def groupByEntity_def entityGroups_def sortEntityGroups_def
        groupByEvent_def groupByTime_def groupLoop_def Let_def split: sortBy.split)
  from assms show "\<exists>idx. rs_Operations rs = groupByOperation srt q idx (rs_Changes rs)"
    "rs_Entities rs = groupByEntity srt q (rs_Changes rs)" "rs_Events rs = groupByEvent q (rs_Changes rs)"
    "rs_Buckets rs = groupByTime q (ar_T0 (rs_Anchor rs)) (rs_Changes rs)"
    "su_ChangeCount (rs_Summary rs) = length (rs_Changes rs)" "su_OperationCount (rs_Summary rs) = length (rs_Operations rs)"
    "su_EntityCount (rs_Summary rs) = length (rs_Entities rs)" "su_EventCount (rs_Summary rs) = length (rs_Events rs)"
    by (auto elim!: run_cases simp: emptyResult_def zeroSummary_def nil resultOf_def Let_def summarize_def)
qed

text \<open>
  (C21) Whatever the query, the three grouped views of its result partition the same changes:
  groups have distinct keys, one for each operation, entity or event that occurs, each group
  holds exactly the changes of its key in the order of the stream and reports their number, and
  the summary counts the groups. Inside an operation the entity groups partition its changes.
\<close>

theorem views_partition:
  assumes "run srt src q = Inr rs"
  shows "partitions (\<lambda>c. mr_OperationKey (ch_Source c)) og_Key og_Changes (rs_Operations rs) (rs_Changes rs) \<and>
    partitions ch_EntityKey eg_Key eg_Changes (rs_Entities rs) (rs_Changes rs) \<and>
    partitions ch_EventID vg_EventID vg_Changes (rs_Events rs) (rs_Changes rs) \<and>
    sum_list (map og_ChangeCount (rs_Operations rs)) = su_ChangeCount (rs_Summary rs) \<and>
    sum_list (map eg_ChangeCount (rs_Entities rs)) = su_ChangeCount (rs_Summary rs) \<and>
    sum_list (map vg_ChangeCount (rs_Events rs)) = su_ChangeCount (rs_Summary rs) \<and>
    su_OperationCount (rs_Summary rs) = card ((\<lambda>c. mr_OperationKey (ch_Source c)) ` set (rs_Changes rs)) \<and>
    su_EntityCount (rs_Summary rs) = card (ch_EntityKey ` set (rs_Changes rs)) \<and>
    su_EventCount (rs_Summary rs) = card (ch_EventID ` set (rs_Changes rs)) \<and>
    (\<forall>g \<in> set (rs_Operations rs).
       partitions ch_EntityKey eg_Key eg_Changes (og_Entities g) (og_Changes g) \<and> og_EntityCount g = length (og_Entities g))"
proof -
  let ?cs = "rs_Changes rs"
  obtain idx where ops: "rs_Operations rs = groupByOperation srt q idx ?cs"
    using run_views(1) [OF assms] by blast
  note views = run_views(2-8) [OF assms]
  have po: "partitions (\<lambda>c. mr_OperationKey (ch_Source c)) og_Key og_Changes (rs_Operations rs) ?cs"
    unfolding ops by (rule operation_partition)
  have pe: "partitions ch_EntityKey eg_Key eg_Changes (rs_Entities rs) ?cs"
    unfolding views(1) by (rule groupByEntity_partition)
  have pv: "partitions ch_EventID vg_EventID vg_Changes (rs_Events rs) ?cs"
    unfolding views(2) by (rule event_partition)
  have sums: "sum_list (map cnt gs) = length ?cs"
    if "partitions key kb items gs ?cs" and "\<And>g. g \<in> set gs \<Longrightarrow> cnt g = length (items g)" for key kb items gs and cnt :: "'z \<Rightarrow> nat"
    using arg_cong [OF partitions_concat [OF that(1)], of size] that(2)
    by (simp add: length_concat o_def cong: map_cong)
  have "set (rs_Entities rs) = set (entityGroups srt ?cs)"
    unfolding views(1) groupByEntity_def by (rule mset_eq_setD [OF mset_sortEntityGroups])
  then have "sum_list (map eg_ChangeCount (rs_Entities rs)) = length ?cs"
    by (intro sums [OF pe] entity_counts) simp
  moreover have "sum_list (map og_ChangeCount (rs_Operations rs)) = length ?cs"
    using operation_counts(1) by (intro sums [OF po]) (simp add: ops)
  moreover have "sum_list (map vg_ChangeCount (rs_Events rs)) = length ?cs"
    using event_counts by (intro sums [OF pv]) (simp add: views(2))
  moreover have "\<forall>g \<in> set (rs_Operations rs).
      partitions ch_EntityKey eg_Key eg_Changes (og_Entities g) (og_Changes g) \<and> og_EntityCount g = length (og_Entities g)"
    using operation_counts(2,3) partitions_mset [OF entity_partition] by (simp add: ops operationEntities_def)
  ultimately show ?thesis
    using po pe pv views(4-7) by (simp add: partitions_length [OF po] partitions_length [OF pe] partitions_length [OF pv])
qed


section \<open>The changes are those of the database\<close>

lemma enrich_core: "map changeCore (enrichRows idx f rows) = map (changeOfRow zeroRef) (filter (rowMatches f) rows)"
  by (simp add: enrichRows_def changeCore_def changeOfRow_def)

lemma result_changes:
  assumes "rs = resultOf srt q a lo hi n idx cs"
  shows "mset (map changeCore (rs_Changes rs)) = mset (map changeCore cs)"
    and "sorted (map streamOrder (rs_Changes rs))"
    and "map ch_Seq (rs_Changes rs) = map Suc [0..<length (rs_Changes rs)]"
proof -
  define t0 where "t0 = ar_T0 (rs_Anchor rs)"
  have rs: "rs_Changes rs = applyOffsets t0 (sort_key streamOrder cs)"
    unfolding assms t0_def by (simp add: resultOf_def Let_def)
  show "mset (map changeCore (rs_Changes rs)) = mset (map changeCore cs)"
    unfolding rs applyOffsets_map(4) by simp
  show "sorted (map streamOrder (rs_Changes rs))" "map ch_Seq (rs_Changes rs) = map Suc [0..<length (rs_Changes rs)]"
    unfolding rs applyOffsets_order by (simp_all add: applyOffsets_map(1))
qed

text \<open>The rows a query asks for: of its session, its anchor entity and its window, and passing its filter.\<close>

definition wantedRow :: "stateQuery \<Rightarrow> resolvedAnchor \<Rightarrow> stateChangeRow \<Rightarrow> bool" where
  "wantedRow q a r \<longleftrightarrow>
     row_SessionID r = sq_SessionID q \<and> sqlEq (ra_subjectType a) (row_SubjectType r) \<and>
     sqlEq (ra_subjectID a) (row_SubjectID r) \<and>
     sqlRange (fst (resolveWindow q a)) (snd (resolveWindow q a)) (row_Timestamp r) \<and> rowMatches (sq_Filter q) r"

lemma wantedRow_query:
  "resolveWindow q a = (lo, hi) \<Longrightarrow>
   wantedRow q a r \<longleftrightarrow> row_SessionID r = sq_SessionID q \<and> changeWhere (rowsQuery q a lo hi) r \<and> rowMatches (sq_Filter q) r"
  by (auto simp: wantedRow_def changeWhere_def rowsQuery_def emptyQuery_def sqlEq_def)

lemma changeLimit_bounds: "0 < changeLimit q" "changeLimit q \<le> 5000"
  by (simp_all add: changeLimit_def Let_def defaultChangeLimit_def maxChangeLimit_def)

lemma rowsQuery_select [simp]:
  "scq_SessionID (rowsQuery q a lo hi) = sq_SessionID q" "scq_Limit (rowsQuery q a lo hi) = changeLimit q"
  "scq_Offset (rowsQuery q a lo hi) = 0"
  by (simp_all add: rowsQuery_def emptyQuery_def)

context change_source
begin

lemma run_complete:
  assumes "run srt src q = Inr rs" and "rs_Changes rs \<noteq> []" and "\<not> rs_Truncated rs"
  shows "\<exists>a. resolveAnchor src q = Inr a \<and>
    mset (map changeCore (rs_Changes rs)) = mset (map (changeOfRow zeroRef) (filter (wantedRow q a) rows))"
  using assms(1)
proof (cases rule: run_cases)
  case (empty a lo hi rs' idx)
  with assms(2) show ?thesis
    by (simp add: emptyResult_def)
next
  case (found a lo hi rs' idx)
  have "int (length rs') < changeLimit q"
    using assms(3) found(7) by (simp add: resultOf_def Let_def)
  then have "mset rs' = mset (filter (\<lambda>r. row_SessionID r = sq_SessionID q \<and> changeWhere (rowsQuery q a lo hi) r) rows)"
    using short_answer_complete [OF found(4)] found(1) by simp
  then have "mset (filter (rowMatches (sq_Filter q)) rs') = mset (filter (wantedRow q a) rows)"
    by (simp add: wantedRow_query [OF found(3)] filter_filter_mset conj_commute conj_left_commute)
  then have "mset (map changeCore (rs_Changes rs)) = mset (map (changeOfRow zeroRef) (filter (wantedRow q a) rows))"
    unfolding result_changes(1) [OF found(7)] enrich_core by (simp only: mset_map)
  with found(2) show ?thesis
    by blast
qed

lemma run_sound:
  assumes "run srt src q = Inr rs"
  shows "\<exists>a. resolveAnchor src q = Inr a \<and> length (rs_Changes rs) \<le> 5000 \<and> sorted (map streamOrder (rs_Changes rs)) \<and>
    map ch_Seq (rs_Changes rs) = map Suc [0..<length (rs_Changes rs)] \<and>
    changeCore ` set (rs_Changes rs) \<subseteq> changeOfRow zeroRef ` {r \<in> set rows. wantedRow q a r}"
  using assms
proof (cases rule: run_cases)
  case (empty a lo hi rs' idx)
  then show ?thesis
    by (simp add: emptyResult_def)
next
  case (found a lo hi rs' idx)
  have set: "changeCore ` set (rs_Changes rs) = changeOfRow zeroRef ` set (filter (rowMatches (sq_Filter q)) rs')"
    using mset_eq_setD [OF result_changes(1) [OF found(7)]] unfolding enrich_core by simp
  have "set rs' \<subseteq> {r \<in> set rows. row_SessionID r = sq_SessionID q \<and> changeWhere (rowsQuery q a lo hi) r}"
    using rows_of_session [OF found(4)] found(1) by auto
  then have "set (filter (rowMatches (sq_Filter q)) rs') \<subseteq> {r \<in> set rows. wantedRow q a r}"
    using wantedRow_query [OF found(3)] by auto
  then have "changeCore ` set (rs_Changes rs) \<subseteq> changeOfRow zeroRef ` {r \<in> set rows. wantedRow q a r}"
    unfolding set by (rule image_mono)
  moreover have "length (rs_Changes rs) = length (filter (rowMatches (sq_Filter q)) rs')"
    using arg_cong [OF result_changes(1) [OF found(7)], of size] by (simp add: enrichRows_def flip: size_mset)
  moreover have "int (length rs') \<le> 5000"
    using answer_limited [OF found(4)] found(1) changeLimit_bounds [of q] by simp
  ultimately show ?thesis
    using found(2) result_changes(2,3) [OF found(7)] le_trans [OF length_filter_le [of "rowMatches (sq_Filter q)" rs'], of 5000]
    by auto
qed

end



section \<open>The time view\<close>

text \<open>\<open>floorTo\<close> corrects Go's truncating division to the floor.\<close>

lemma sdiv_floor: "0 < (b::int) \<Longrightarrow> (if v < 0 \<and> v smod b \<noteq> 0 then v sdiv b - 1 else v sdiv b) = v div b"
proof -
  assume b: "0 < b"
  show ?thesis
  proof (cases "0 \<le> v")
    case True
    then show ?thesis
      using b by (cases "v = 0") (simp_all add: signed_divide_int_def)
  next
    case False
    have q: "v sdiv b = - ((- v) div b)"
      using b False by (simp add: signed_divide_int_def)
    have r: "v smod b = - ((- v) mod b)"
      using b False by (simp add: signed_modulo_int_def)
    show ?thesis
      using b False unfolding q r by (auto simp: zdiv_zminus1_eq_if)
  qed
qed

lemma floorTo_div:
  assumes "0 < w" and "w \<le> 2 ^ 62" and "\<bar>v\<bar> < 2 ^ 62"
  shows "floorTo v w = v div w * w"
proof -
  define m where "m = v mod w"
  have "v div w * w = v - m"
    by (simp add: m_def minus_mod_eq_div_mult)
  moreover have "0 \<le> m" "m < w"
    using assms(1) by (simp_all add: m_def)
  ultimately have "- (2 ^ 63) \<le> v div w * w" "v div w * w < 2 ^ 63"
    using assms(2,3) by (auto simp: abs_if split: if_splits)
  then show ?thesis
    using assms(1) by (simp add: floorTo_def Let_def sdiv_floor wrap64_id)
qed

lemma autoBucketMS_range: "0 < autoBucketMS x y" "autoBucketMS x y \<le> 600000"
proof -
  have "autoBucketMS x y \<in> set (600000 # bucketSteps)"
    by (auto simp: autoBucketMS_def Let_def find_Some_iff split: option.split)
  then show "0 < autoBucketMS x y" "autoBucketMS x y \<le> 600000"
    by (auto simp: bucketSteps_def)
qed

lemma bucketWidth_range: "sq_BucketMS q \<le> 2 ^ 62 \<Longrightarrow> 0 < bucketWidth q cs \<and> bucketWidth q cs \<le> 2 ^ 62"
  using autoBucketMS_range [of "ch_OffsetMS (hd cs)" "ch_OffsetMS (last cs)"] by (simp add: bucketWidth_def)

abbreviation bucketLoop :: "int \<Rightarrow> time \<Rightarrow> change list \<Rightarrow> timeBucket list" where
  "bucketLoop w t0 \<equiv> groupLoop (\<lambda>c. floorTo (ch_OffsetMS c) w) tb_StartOffsetMS (newBucket w t0) (bumpBucket w)"

lemma bucket_fields:
  "tb_StartOffsetMS (newBucket w t0 c i) = floorTo (ch_OffsetMS c) w" "tb_StartOffsetMS (bumpBucket w c b) = tb_StartOffsetMS b"
  "tb_ChangeCount (newBucket w t0 c i) = 0" "tb_ChangeCount (bumpBucket w c b) = tb_ChangeCount b + 1"
  "tb_Index (newBucket w t0 c i) = i" "tb_Index (bumpBucket w c b) = tb_Index b"
  "tb_EndOffsetMS (newBucket w t0 c i) = wrap64 (tb_StartOffsetMS (newBucket w t0 c i) + w)"
  "tb_EndOffsetMS (bumpBucket w c b) = tb_EndOffsetMS b"
  by (simp_all add: newBucket_def bumpBucket_def Let_def)

lemma bucket_fold_keep:
  "tb_StartOffsetMS (fold (bumpBucket w) ys b) = tb_StartOffsetMS b"
  "tb_EndOffsetMS (fold (bumpBucket w) ys b) = tb_EndOffsetMS b" "tb_Index (fold (bumpBucket w) ys b) = tb_Index b"
  by (rule fold_keep, simp add: bucket_fields)+

lemma bucket_index: "i < length (bucketLoop w t0 cs) \<Longrightarrow> tb_Index (bucketLoop w t0 cs ! i) = i"
  unfolding upsert_groups [of tb_StartOffsetMS "newBucket w t0" "\<lambda>c. floorTo (ch_OffsetMS c) w" "bumpBucket w" cs, OF bucket_fields(1,2)]
  by (simp add: nth_enumerate_eq groupOf_def Let_def bucket_fold_keep bucket_fields)

lemma bucket_elem:
  assumes "g \<in> set (bucketLoop w t0 cs)"
  shows "tb_EndOffsetMS g = wrap64 (tb_StartOffsetMS g + w)"
    "tb_ChangeCount g = length (filter (\<lambda>c. floorTo (ch_OffsetMS c) w = tb_StartOffsetMS g) cs)"
proof -
  obtain i where g: "g = groupOf (\<lambda>c. floorTo (ch_OffsetMS c) w) (newBucket w t0) (bumpBucket w) cs (i, tb_StartOffsetMS g)"
    using groupLoop_elem [of tb_StartOffsetMS "newBucket w t0" "\<lambda>c. floorTo (ch_OffsetMS c) w" "bumpBucket w" g cs,
        OF bucket_fields(1,2) assms] by blast
  define h where "h = hd (members (\<lambda>c. floorTo (ch_OffsetMS c) w) cs (tb_StartOffsetMS g))"
  define ys where "ys = members (\<lambda>c. floorTo (ch_OffsetMS c) w) cs (tb_StartOffsetMS g)"
  have g': "g = fold (bumpBucket w) ys (newBucket w t0 h i)"
    using g by (simp add: groupOf_def Let_def h_def ys_def)
  have start: "tb_StartOffsetMS g = tb_StartOffsetMS (newBucket w t0 h i)"
    and fin: "tb_EndOffsetMS g = tb_EndOffsetMS (newBucket w t0 h i)"
    using bucket_fold_keep [of w ys "newBucket w t0 h i"] unfolding g' [symmetric] by (simp_all add: bucket_fields)
  show "tb_EndOffsetMS g = wrap64 (tb_StartOffsetMS g + w)"
    unfolding fin start by (rule bucket_fields)
  show "tb_ChangeCount g = length (filter (\<lambda>c. floorTo (ch_OffsetMS c) w = tb_StartOffsetMS g) cs)"
    by (rule groupLoop_count [OF bucket_fields(1-4) assms])
qed


lemma sorted_uniq: "sorted xs \<Longrightarrow> sorted_wrt (<) (uniq xs)"
proof (induction xs rule: rev_induct)
  case (snoc x xs)
  then have "sorted_wrt (<) (uniq xs)" "\<forall>y \<in> set xs. y \<le> x"
    by (simp_all add: sorted_append)
  then show ?case
    by (auto simp: uniq_snoc appendUnique_def sorted_wrt_append le_less)
qed simp

lemma run_offsets:
  assumes "run srt src q = Inr rs"
  shows "sorted (map ch_OffsetMS (rs_Changes rs))" "c \<in> set (rs_Changes rs) \<Longrightarrow> \<bar>ch_OffsetMS c\<bar> < 2 ^ 62"
proof -
  have "sorted (map ch_OffsetMS (rs_Changes rs)) \<and> (\<forall>c \<in> set (rs_Changes rs). \<bar>ch_OffsetMS c\<bar> < 2 ^ 62)"
    using assms
  proof (cases rule: run_cases)
    case (found a lo hi rs' idx)
    let ?cs = "sort_key streamOrder (enrichRows idx (sq_Filter q) rs')"
    obtain t0 where cs: "rs_Changes rs = applyOffsets t0 ?cs"
      using found(7) by (simp add: resultOf_def Let_def)
    have "sorted (map streamOrder ?cs)"
      by simp
    then have "sorted (map fst (map streamOrder ?cs))"
      by (intro sorted_map_mono) (auto simp: mono_on_def less_eq_prod_def)
    then have "sorted (map ch_Timestamp ?cs)"
      by (simp add: streamOrder_def o_def)
    then have "sorted (map (offsetFrom t0) (map ch_Timestamp ?cs))"
      by (rule sorted_map_mono) (simp add: mono_on_def offsetFrom_mono)
    then show ?thesis
      using applyOffsets_offset offsetFrom_bounds unfolding cs applyOffsets_map(3) by (auto simp: o_def)
  qed (simp add: emptyResult_def)
  then show "sorted (map ch_OffsetMS (rs_Changes rs))" "c \<in> set (rs_Changes rs) \<Longrightarrow> \<bar>ch_OffsetMS c\<bar> < 2 ^ 62"
    by simp_all
qed

lemma div_window:
  assumes "0 < (w::int)" and "w dvd s"
  shows "v div w * w = s \<longleftrightarrow> s \<le> v \<and> v < s + w"
proof -
  obtain k where s: "s = k * w"
    using assms(2) by (metis dvd_def mult.commute)
  have "v div w * w \<le> v" "v < v div w * w + w"
    using assms(1) pos_mod_bound [of w v] pos_mod_sign [of w v] div_mult_mod_eq [of v w] by linarith+
  moreover have "v div w = k" if "k * w \<le> v" "v < k * w + w"
    using int_div_pos_eq [of v w k "v - k * w"] that by (simp add: mult.commute)
  ultimately show ?thesis
    using assms(1) by (auto simp: s)
qed

lemma bucket_tiling:
  assumes "run srt src q = Inr rs" and "sq_BucketMS q \<le> 2 ^ 62"
  defines "w \<equiv> bucketWidth q (rs_Changes rs)"
    and "ordered \<equiv> (if sq_Desc q then rev (rs_Buckets rs) else rs_Buckets rs)"
  shows "(\<forall>b \<in> set (rs_Buckets rs). w dvd tb_StartOffsetMS b \<and> 0 < tb_ChangeCount b \<and>
      tb_ChangeCount b = length (filter (\<lambda>c. tb_StartOffsetMS b \<le> ch_OffsetMS c \<and> ch_OffsetMS c < tb_StartOffsetMS b + w) (rs_Changes rs))) \<and>
    sorted_wrt (<) (map tb_StartOffsetMS ordered) \<and> map tb_Index ordered = [0..<length ordered] \<and>
    sum_list (map tb_ChangeCount ordered) = length (rs_Changes rs)"
proof (cases "rs_Changes rs = []")
  case True
  then show ?thesis
    using run_views(4) [OF assms(1)] by (simp add: ordered_def groupByTime_def)
next
  case False
  let ?cs = "rs_Changes rs" and ?key = "\<lambda>c. floorTo (ch_OffsetMS c) w"
  let ?loop = "bucketLoop w (ar_T0 (rs_Anchor rs)) ?cs"
  have w: "0 < w" "w \<le> 2 ^ 62"
    using bucketWidth_range [OF assms(2)] by (simp_all add: w_def)
  have key: "?key c = ch_OffsetMS c div w * w" if "c \<in> set ?cs" for c
    using floorTo_div [OF w run_offsets(2) [OF assms(1) that]] .
  have ordered: "ordered = map finalizeBucket ?loop"
    using False run_views(4) [OF assms(1)] by (simp add: ordered_def groupByTime_def Let_def w_def)
  have keep: "tb_StartOffsetMS (finalizeBucket b) = tb_StartOffsetMS b" "tb_ChangeCount (finalizeBucket b) = tb_ChangeCount b"
    "tb_Index (finalizeBucket b) = tb_Index b" for b
    by (simp_all add: finalizeBucket_def Let_def)
  have starts: "map tb_StartOffsetMS ordered = uniq (map ?key ?cs)"
    using kb_groupLoop [of tb_StartOffsetMS "newBucket w (ar_T0 (rs_Anchor rs))" ?key "bumpBucket w" ?cs, OF bucket_fields(1,2)]
    by (simp add: ordered keep o_def)
  have "sorted (map (\<lambda>v. v div w * w) (map ch_OffsetMS ?cs))"
    using w(1) by (intro sorted_map_mono [OF run_offsets(1) [OF assms(1)]]) (auto simp: mono_on_def zdiv_mono1)
  then have asc: "sorted_wrt (<) (map tb_StartOffsetMS ordered)"
    unfolding starts by (intro sorted_uniq) (simp add: key o_def cong: map_cong)
  have count: "tb_ChangeCount b = length (filter (\<lambda>c. ?key c = tb_StartOffsetMS b) ?cs)" if "b \<in> set ordered" for b
    using that bucket_elem(2) unfolding ordered by (auto simp: keep)
  have window: "?key c = s \<longleftrightarrow> s \<le> ch_OffsetMS c \<and> ch_OffsetMS c < s + w" if "c \<in> set ?cs" and "w dvd s" for c s
    unfolding key [OF that(1)] by (rule div_window [OF w(1) that(2)])
  have start: "tb_StartOffsetMS b \<in> ?key ` set ?cs" if "b \<in> set ordered" for b
    using arg_cong [OF starts, of set] that by auto
  have dvd: "w dvd tb_StartOffsetMS b" if "b \<in> set ordered" for b
    using start [OF that] key by auto
  have pos: "0 < tb_ChangeCount b" if "b \<in> set ordered" for b
    using start [OF that] count [OF that] by (force simp: filter_empty_conv)
  have exact: "tb_ChangeCount b = length (filter (\<lambda>c. tb_StartOffsetMS b \<le> ch_OffsetMS c \<and> ch_OffsetMS c < tb_StartOffsetMS b + w) ?cs)"
    if "b \<in> set ordered" for b
    unfolding count [OF that] by (rule arg_cong [of _ _ length], rule filter_cong) (simp_all add: window dvd [OF that])
  have index: "map tb_Index ordered = [0..<length ordered]"
    by (rule nth_equalityI) (simp_all add: ordered keep bucket_index)
  have "sum_list (map tb_ChangeCount ordered) = sum_list (map (\<lambda>k. length (members ?key ?cs k)) (map tb_StartOffsetMS ordered))"
    using count by (simp add: members_def o_def cong: map_cong)
  then have sum: "sum_list (map tb_ChangeCount ordered) = length ?cs"
    unfolding starts by (simp add: sum_members)
  have "set (rs_Buckets rs) = set ordered"
    by (simp add: ordered_def)
  with dvd pos exact asc index sum show ?thesis
    by auto
qed

text \<open>
  The buckets of the time view tile the axis: with a bucket size of at most \<open>2\<^sup>6\<^sup>2\<close> ms each
  bucket starts at a multiple of the width, its count is the positive number of changes with an
  offset from its start up to but not including its end, the starts ascend strictly (descend with
  \<open>Desc\<close>), the indices number the buckets in time order, and the counts add up to all changes.
\<close>

theorem time_buckets_tile:
  assumes "run srt src q = Inr rs" and "sq_BucketMS q \<le> 2 ^ 62"
  shows "let w = bucketWidth q (rs_Changes rs); ordered = (if sq_Desc q then rev (rs_Buckets rs) else rs_Buckets rs) in
    (\<forall>b \<in> set (rs_Buckets rs). w dvd tb_StartOffsetMS b \<and> 0 < tb_ChangeCount b \<and>
      tb_ChangeCount b = length (filter (\<lambda>c. tb_StartOffsetMS b \<le> ch_OffsetMS c \<and> ch_OffsetMS c < tb_StartOffsetMS b + w) (rs_Changes rs))) \<and>
    sorted_wrt (<) (map tb_StartOffsetMS ordered) \<and> map tb_Index ordered = [0..<length ordered] \<and>
    sum_list (map tb_ChangeCount ordered) = length (rs_Changes rs)"
  unfolding Let_def by (rule bucket_tiling [OF assms])

text \<open>The automatic width gives few buckets, for a span of up to twenty buckets of the largest width.\<close>

lemma auto_width_span:
  assumes "x \<le> y" and "y - x \<le> 12000000"
  shows "y - x < 20 * autoBucketMS x y + 20"
proof -
  define target where "target = (if (y - x) sdiv 20 < 1 then 1 else (y - x) sdiv 20)"
  have q: "(y - x) sdiv 20 = (y - x) div 20"
    using assms(1) by (simp add: signed_divide_int_def sgn_if)
  have "y - x < 20 * target + 20" "target \<le> 600000"
    using assms by (auto simp: target_def q)
  moreover have "autoBucketMS x y = (case find (\<lambda>s. target \<le> s) bucketSteps of Some s \<Rightarrow> s | None \<Rightarrow> 600000)"
    unfolding autoBucketMS_def Let_def target_def using assms(1) by simp
  then have "target \<le> autoBucketMS x y"
    using \<open>target \<le> 600000\<close> by (auto simp: find_Some_iff split: option.split)
  ultimately show ?thesis
    by linarith
qed

lemma span_buckets:
  assumes "0 < (w::int)" and "x \<le> y" and "y - x < 20 * w + 20"
  shows "y div w - x div w \<le> 40"
proof (cases "w = 1")
  case False
  have "y div w \<le> (x + (20 * w + 19)) div w"
    using assms by (intro zdiv_mono1) auto
  also have "\<dots> = (x + 19) div w + 20"
    using assms(1) div_mult_self1 [of w "x + 19" 20] by (simp add: ac_simps)
  also have "(x + 19) div w \<le> (x + 20 * w) div w"
    using False assms(1) by (intro zdiv_mono1) auto
  also have "(x + 20 * w) div w = x div w + 20"
    using assms(1) by simp
  finally show ?thesis
    by simp
qed (use assms in simp)

lemma sorted_first_last: "sorted xs \<Longrightarrow> v \<in> set xs \<Longrightarrow> hd xs \<le> v \<and> v \<le> last xs"
proof (intro conjI)
  assume s: "sorted xs" "v \<in> set xs"
  show "hd xs \<le> v"
    using s by (cases xs) auto
  show "v \<le> last xs"
    using s by (cases xs rule: rev_cases) (auto simp: sorted_append)
qed

lemma card_multiples:
  assumes "0 < (w::int)" and "x \<le> y"
  shows "card ((\<lambda>v. v div w * w) ` {x..y}) \<le> nat (y div w - x div w + 1)"
proof -
  have "(\<lambda>v. v div w * w) ` {x..y} \<subseteq> (\<lambda>k. k * w) ` {x div w..y div w}"
    using assms(1) by (auto intro!: image_eqI zdiv_mono1)
  then have "card ((\<lambda>v. v div w * w) ` {x..y}) \<le> card ((\<lambda>k. k * w) ` {x div w..y div w})"
    by (intro card_mono) simp_all
  also have "\<dots> \<le> card {x div w..y div w}"
    by (rule card_image_le) simp
  finally show ?thesis
    by simp
qed


text \<open>
  With the automatic bucket width the time view of a result that spans up to twelve million
  milliseconds (twenty buckets of the largest width) has at most 41 buckets.
\<close>

theorem auto_buckets_bounded:
  assumes "run srt src q = Inr rs" and "sq_BucketMS q \<le> 0" and "rs_Changes rs \<noteq> []"
    and "ch_OffsetMS (last (rs_Changes rs)) - ch_OffsetMS (hd (rs_Changes rs)) \<le> 12000000"
  shows "length (rs_Buckets rs) \<le> 41"
proof -
  let ?cs = "rs_Changes rs"
  define x where "x = ch_OffsetMS (hd ?cs)"
  define y where "y = ch_OffsetMS (last ?cs)"
  define w where "w = bucketWidth q ?cs"
  have w: "w = autoBucketMS x y"
    using assms(2) by (simp add: w_def bucketWidth_def x_def y_def)
  have small: "sq_BucketMS q \<le> 2 ^ 62"
    using assms(2) by simp
  have wpos: "0 < w" "w \<le> 2 ^ 62"
    using bucketWidth_range [OF small, of ?cs] by (simp_all add: w_def)
  have range: "ch_OffsetMS ` set ?cs \<subseteq> {x..y}"
    using run_offsets(1) [OF assms(1)] assms(3) sorted_first_last [of "map ch_OffsetMS ?cs"]
    by (auto simp: x_def y_def hd_map last_map)
  then have xy: "x \<le> y"
    using assms(3) by (cases ?cs) auto
  have "length (rs_Buckets rs) = length (uniq (map (\<lambda>c. floorTo (ch_OffsetMS c) w) ?cs))"
    using assms(3) run_views(4) [OF assms(1)]
      arg_cong [OF kb_groupLoop [of tb_StartOffsetMS "newBucket w (ar_T0 (rs_Anchor rs))" "\<lambda>c. floorTo (ch_OffsetMS c) w" "bumpBucket w" ?cs,
          OF bucket_fields(1,2)], of length]
    by (simp add: groupByTime_def Let_def w_def)
  also have "\<dots> = card ((\<lambda>v. v div w * w) ` ch_OffsetMS ` set ?cs)"
    using floorTo_div [OF wpos run_offsets(2) [OF assms(1)]] by (simp add: length_uniq image_image)
  also have "\<dots> \<le> card ((\<lambda>v. v div w * w) ` {x..y})"
    using range by (intro card_mono) auto
  also have "\<dots> \<le> nat (y div w - x div w + 1)"
    by (rule card_multiples [OF wpos(1) xy])
  also have "\<dots> \<le> 41"
    using span_buckets [OF wpos(1) xy] auto_width_span [OF xy] assms(4) by (simp add: w x_def y_def)
  finally show ?thesis .
qed


section \<open>Where the result misleads\<close>

lemma pg_answers:
  "ds_changes (pgSource s db) q = Inr (pgQueryStateChanges s db q)"
  "ds_inRange (pgSource s db) sid lo hi n = Inr (queryEventsInRange db sid lo hi n)"
  "ds_byID (pgSource s db) i = Inr (getEventByID db i)"
  "ds_byCorrelation (pgSource s db) c n m = Inr (queryEventsByCorrelation db c n m)"
  by (simp_all add: pgSource_def)

lemma pg_index: "\<exists>idx. buildMessageIndex (pgSource s db) q rows lo hi a = Inr idx"
  by (simp add: buildMessageIndex_def pg_answers Let_def)

text \<open>A query of the PostgreSQL store with a resolved anchor always answers, and keeps the anchor's message.\<close>

lemma pg_run_total:
  assumes "sq_SessionID q \<noteq> ''''" and "resolveAnchor (pgSource s db) q = Inr a"
  shows "\<exists>rs. run srt (pgSource s db) q = Inr rs \<and> ar_Source (rs_Anchor rs) = ar_Source (ra_Ref a)"
proof -
  obtain lo hi where w: "resolveWindow q a = (lo, hi)"
    by (cases "resolveWindow q a") simp
  obtain idx where "buildMessageIndex (pgSource s db) q (pgQueryStateChanges s db (rowsQuery q a lo hi)) lo hi a = Inr idx"
    using pg_index by blast
  then show ?thesis
    using assms w by (simp add: run_def pg_answers Let_def emptyResult_def resultOf_def)
qed

text \<open>
  The filter is applied after the limit, and an empty result is never marked as truncated:
  when none of the first rows of a session, as many as the limit allows, passes the filter, the
  query reports no changes and no truncation, whatever rows follow.
\<close>

theorem empty_hides_truncation:
  assumes "sq_SessionID q \<noteq> ''''" and "an_Kind (sq_Anchor q) = AnchorNone" and "sq_From q = zeroTime" and "sq_To q = zeroTime"
    and "filter (rowMatches (sq_Filter q)) (take (nat (changeLimit q))
           (sort_key changeOrder (filter (\<lambda>r. row_SessionID r = sq_SessionID q) (db_changes db)))) = []"
  shows "\<exists>rs. run srt (pgSource s db) q = Inr rs \<and> rs_Changes rs = [] \<and> su_ChangeCount (rs_Summary rs) = 0 \<and> \<not> rs_Truncated rs"
proof -
  have a: "resolveAnchor (pgSource s db) q = Inr (newAnchor q)"
    using assms(2) by (simp add: resolveAnchor_def)
  have w: "resolveWindow q (newAnchor q) = (zeroTime, zeroTime)"
    using assms(3,4) by (simp add: resolveWindow_def Let_def newAnchor_def)
  have rows: "pgQueryStateChanges s db (rowsQuery q (newAnchor q) zeroTime zeroTime) =
      take (nat (changeLimit q)) (sort_key changeOrder (filter (\<lambda>r. row_SessionID r = sq_SessionID q) (db_changes db)))"
    using assms(1) changeLimit_bounds(1) [of q]
    by (simp add: pgQueryStateChanges_def Let_def limitOffset_def changeWhere_def sqlEq_def sqlRange_def rowsQuery_def
        emptyQuery_def newAnchor_def)
  obtain idx where "buildMessageIndex (pgSource s db) q (pgQueryStateChanges s db (rowsQuery q (newAnchor q) zeroTime zeroTime))
      zeroTime zeroTime (newAnchor q) = Inr idx"
    using pg_index by blast
  then show ?thesis
    using assms(1,5) a w by (simp add: run_def pg_answers rows enrichRows_def emptyResult_def zeroSummary_def)
qed

text \<open>The earlier of two events, the first when they are equal.\<close>

definition earlier :: "event \<Rightarrow> event \<Rightarrow> event" where
  "earlier e best = (if ev_Time e < ev_Time best then e else best)"

lemma earlier_le: "ev_Time (earlier e best) \<le> ev_Time e" "ev_Time (earlier e best) \<le> ev_Time best" "earlier e best \<in> {e, best}"
  by (simp_all add: earlier_def)

lemma fold_earlier:
  "fold earlier es x \<in> insert x (set es)" "ev_Time (fold earlier es x) \<le> ev_Time x"
  "e \<in> set es \<Longrightarrow> ev_Time (fold earlier es x) \<le> ev_Time e"
proof (induction es arbitrary: x)
  case (Cons d es)
  { case 1 show ?case using Cons(1) [of "earlier d x"] earlier_le(3) [of d x] by auto }
  { case 2 show ?case using Cons(2) [of "earlier d x"] earlier_le(2) [of d x] by simp }
  { case 3 then show ?case using Cons(2,3) [of "earlier d x"] earlier_le(1) [of d x] by auto }
qed simp_all

lemma earliest_least:
  assumes "earliestEvent evs = Some ev"
  shows "ev \<in> set evs" "e \<in> set evs \<Longrightarrow> ev_Time ev \<le> ev_Time e"
proof -
  have "earliestEvent evs = (case evs of [] \<Rightarrow> None | x # _ \<Rightarrow> Some (fold earlier evs x))"
    by (simp add: earliestEvent_def earlier_def [abs_def] split: list.split)
  then obtain x where "ev = fold earlier evs x" "x \<in> set evs"
    using assms by (cases evs) auto
  then show "ev \<in> set evs" "e \<in> set evs \<Longrightarrow> ev_Time ev \<le> ev_Time e"
    using fold_earlier(1) [of evs x] fold_earlier(3) [of e evs x] by auto
qed

text \<open>
  The PostgreSQL store keeps all sessions in one table and looks correlations up without the
  session: an operation anchor of one session is resolved to the earliest event of the correlation
  in any session, its message is handed out as the anchor and its time is the origin of the window.
\<close>

theorem anchor_crosses_sessions:
  assumes "sq_SessionID q \<noteq> ''''" and "an_Kind (sq_Anchor q) = AnchorOperation" and "an_ID (sq_Anchor q) = ''corr:'' @ c" and "c \<noteq> ''''"
    and "getEventByID db '''' = None" and "length (filter (\<lambda>e. tc_CorrelationID (ev_Trace e) = c) (db_events db)) \<le> 5000"
    and "foreign \<in> set (db_events db)" and "tc_CorrelationID (ev_Trace foreign) = c"
    and "\<And>e. e \<in> set (db_events db) \<Longrightarrow> tc_CorrelationID (ev_Trace e) = c \<Longrightarrow> ev_Session e = sq_SessionID q \<Longrightarrow> ev_Time foreign < ev_Time e"
  shows "\<exists>rs ev. run srt (pgSource (sq_SessionID q) db) q = Inr rs \<and> ar_Source (rs_Anchor rs) = Some (newMessageRef ev 0) \<and>
    ev \<in> set (db_events db) \<and> ev_Session ev \<noteq> sq_SessionID q"
proof -
  let ?src = "pgSource (sq_SessionID q) db" and ?hits = "filter (\<lambda>e. tc_CorrelationID (ev_Trace e) = c) (db_events db)"
  have evs: "queryEventsByCorrelation db c defaultEventScan 0 = sort_key (\<lambda>e. - ev_Time e) ?hits"
    using assms(6) by (simp add: queryEventsByCorrelation_def limitOffset_def defaultEventScan_def)
  have "sort_key (\<lambda>e. - ev_Time e) ?hits \<noteq> []"
    using assms(7,8) by (simp flip: set_empty) (auto simp: filter_empty_conv)
  then obtain ev where ev: "earliestEvent (queryEventsByCorrelation db c defaultEventScan 0) = Some ev"
    by (cases "sort_key (\<lambda>e. - ev_Time e) ?hits") (simp_all add: evs earliestEvent_def)
  have split: "splitOperationKey (an_ID (sq_Anchor q)) = ('''', c)"
    using assms(3) by (simp add: splitOperationKey_def hasPrefix_def trimPrefix_def)
  have "anchorEvent ?src (an_ID (sq_Anchor q)) = Inr (Some ev)"
    using assms(4,5) ev by (simp add: anchorEvent_def split pg_answers)
  then obtain a where a: "resolveAnchor ?src q = Inr a" "ar_Source (ra_Ref a) = Some (newMessageRef ev 0)"
    using assms(2) by (simp add: resolveAnchor_def resolveEvent_def)
  have mem: "ev \<in> set (db_events db)" "tc_CorrelationID (ev_Trace ev) = c" and least: "ev_Time ev \<le> ev_Time foreign"
    using earliest_least(1) [OF ev] earliest_least(2) [OF ev, of foreign] assms(7,8) by (auto simp: evs)
  have "ev_Session ev \<noteq> sq_SessionID q"
    using assms(9) [OF mem] least by auto
  with pg_run_total [OF assms(1) a(1), of srt] a(2) mem(1) show ?thesis
    by auto
qed


section \<open>Examples\<close>

definition demoEvent :: "string \<Rightarrow> string \<Rightarrow> time \<Rightarrow> string \<Rightarrow> event" where
  "demoEvent i sid ts corr =
     \<lparr>ev_Identity = \<lparr>id_ID = i, id_SessionID = sid, id_Type = ''login'', id_Source = ''plugin'', id_Timestamp = ts,
                     id_ScenarioID = '''', id_ReplayID = ''''\<rparr>,
      ev_Trace = \<lparr>tc_CausationID = '''', tc_CorrelationID = corr, tc_OriginID = ''''\<rparr>, ev_Context = emptyContext,
      ev_Payload = VNull, ev_Meta = VNull, ev_Analysis = VNull\<rparr>"

definition demoRow :: "string \<Rightarrow> string \<Rightarrow> string \<Rightarrow> time \<Rightarrow> string \<Rightarrow> stateChangeRow" where
  "demoRow i ev sid ts path =
     \<lparr>row_ID = i, row_EventID = ev, row_SessionID = sid, row_FlowID = '''', row_Timestamp = ts, row_SubjectType = ''hero'',
      row_SubjectID = ''7'', row_Op = ''set'', row_Path = path, row_Before = '''', row_After = ''1'', row_Version = 1,
      row_BeforeResolved = False, row_AfterResolved = True, row_Seq = 1, row_Metadata = ''''\<rparr>"

definition demoBase :: database where
  "demoBase =
     \<lparr>db_events = [demoEvent ''e1'' ''s1'' 5000000 ''c'', demoEvent ''e2'' ''s1'' 9000000 ''c'', demoEvent ''x'' ''s2'' 1000000 ''c''],
      db_changes = [demoRow ''r2'' ''e2'' ''s1'' 9000000 ''level'', demoRow ''r1'' ''e1'' ''s1'' 5000000 ''hp'',
                    demoRow ''r3'' ''x'' ''s2'' 1000000 ''hp''],
      db_index = []\<rparr>"

definition demoQuery :: "anchor \<Rightarrow> int \<Rightarrow> string list \<Rightarrow> stateQuery" where
  "demoQuery an limit paths =
     \<lparr>sq_SessionID = ''s1'', sq_Anchor = an, sq_BeforeMS = 0, sq_AfterMS = 0, sq_From = zeroTime, sq_To = zeroTime,
      sq_SortBy = SortByFirstChange, sq_Desc = False, sq_BucketMS = 0, sq_Limit = limit,
      sq_Filter = \<lparr>cf_SubjectTypes = [], cf_SubjectIDs = [], cf_Paths = paths, cf_Ops = []\<rparr>\<rparr>"

abbreviation noAnchor :: anchor where
  "noAnchor \<equiv> \<lparr>an_Kind = AnchorNone, an_ID = ''''\<rparr>"

definition demoRows :: "stateChangeRow list" where
  "demoRows = pgQueryStateChanges ''s1'' demoBase
     (rowsQuery (demoQuery noAnchor 0 []) (newAnchor (demoQuery noAnchor 0 [])) zeroTime zeroTime)"

definition demoIndex :: messageIndex where
  "demoIndex = (case buildMessageIndex (pgSource ''s1'' demoBase) (demoQuery noAnchor 0 []) demoRows zeroTime zeroTime
       (newAnchor (demoQuery noAnchor 0 [])) of
     Inr idx \<Rightarrow> idx | Inl _ \<Rightarrow> \<lparr>mi_byID = [], mi_byCorr = []\<rparr>)"

definition demoStream :: "change list" where
  "demoStream = enrichRows demoIndex (sq_Filter (demoQuery noAnchor 0 [])) demoRows"

definition demoResult :: resultSet where
  "demoResult = resultOf (sort_key mr_Timestamp) (demoQuery noAnchor 0 []) (newAnchor (demoQuery noAnchor 0 [])) zeroTime zeroTime
     (length demoRows) demoIndex demoStream"

lemma demo_stream: "map ch_Timestamp (sort_key streamOrder demoStream) = [5000000, 9000000]" "length demoRows = 2"
  by code_simp+

lemma demo_state_run: "run (sort_key mr_Timestamp) (pgSource ''s1'' demoBase) (demoQuery noAnchor 0 []) = Inr demoResult"
proof -
  let ?q = "demoQuery noAnchor 0 []"
  obtain idx where idx: "buildMessageIndex (pgSource ''s1'' demoBase) ?q demoRows zeroTime zeroTime (newAnchor ?q) = Inr idx"
    using pg_index by blast
  then have "demoIndex = idx"
    by (simp add: demoIndex_def)
  moreover have "demoStream \<noteq> []"
    using demo_stream(1) by auto
  moreover have "resolveAnchor (pgSource ''s1'' demoBase) ?q = Inr (newAnchor ?q)" "resolveWindow ?q (newAnchor ?q) = (zeroTime, zeroTime)"
    "sq_SessionID ?q \<noteq> ''''"
    by (simp_all add: resolveAnchor_def resolveWindow_def newAnchor_def demoQuery_def Let_def)
  ultimately show ?thesis
    using idx by (simp add: run_def pg_answers demoRows_def [symmetric] demoStream_def [symmetric] demoResult_def Let_def)
qed

lemma demo_changes: "rs_Changes demoResult = applyOffsets 5000000 (sort_key streamOrder demoStream)"
proof -
  obtain c d where "sort_key streamOrder demoStream = [c, d]" "ch_Timestamp c = 5000000"
    using demo_stream(1) by (auto simp: map_eq_Cons_conv)
  then show ?thesis
    by (simp add: demoResult_def resultOf_def Let_def newAnchor_def)
qed

lemma demo_origin: "ar_T0 (rs_Anchor demoResult) = 5000000"
proof -
  obtain c d where "sort_key streamOrder demoStream = [c, d]" "ch_Timestamp c = 5000000"
    using demo_stream(1) by (auto simp: map_eq_Cons_conv)
  then show ?thesis
    by (simp add: demoResult_def resultOf_def Let_def newAnchor_def)
qed

lemma demo_length: "length (rs_Changes demoResult) = 2"
  using arg_cong [OF demo_stream(1), of length] by (simp add: demo_changes)

theorem views_partition_witness:
  "sum_list (map og_ChangeCount (rs_Operations demoResult)) = 2 \<and> sum_list (map eg_ChangeCount (rs_Entities demoResult)) = 2 \<and>
   su_EntityCount (rs_Summary demoResult) = card {''hero:7''}"
proof -
  have "map ch_EntityKey (rs_Changes demoResult) = [''hero:7'', ''hero:7'']"
    unfolding demo_changes by code_simp
  then have "set (map ch_EntityKey (rs_Changes demoResult)) = {''hero:7''}"
    by simp
  then show ?thesis
    using views_partition [OF demo_state_run] run_views(5) [OF demo_state_run] demo_length by simp
qed


theorem time_buckets_tile_witness:
  "map tb_StartOffsetMS (rs_Buckets demoResult) = [0, 4] \<and> sum_list (map tb_ChangeCount (rs_Buckets demoResult)) = 2"
proof -
  have "map tb_StartOffsetMS (groupByTime (demoQuery noAnchor 0 []) 5000000 (applyOffsets 5000000 (sort_key streamOrder demoStream))) = [0, 4]"
    by code_simp
  moreover have "rs_Buckets demoResult = groupByTime (demoQuery noAnchor 0 []) 5000000 (applyOffsets 5000000 (sort_key streamOrder demoStream))"
    using run_views(4) [OF demo_state_run] demo_origin by (simp add: demo_changes)
  ultimately show ?thesis
    using time_buckets_tile [OF demo_state_run] demo_length by (simp add: demoQuery_def Let_def)
qed

theorem auto_buckets_bounded_witness: "length (rs_Buckets demoResult) \<le> 41"
proof -
  have "map ch_OffsetMS (rs_Changes demoResult) = [0, 4]"
    unfolding demo_changes by code_simp
  then obtain c d where "rs_Changes demoResult = [c, d]" "ch_OffsetMS c = 0" "ch_OffsetMS d = 4"
    by (auto simp: map_eq_Cons_conv)
  then show ?thesis
    using auto_buckets_bounded [OF demo_state_run] by (simp add: demoQuery_def)
qed

theorem empty_hides_truncation_witness:
  "(\<exists>rs. run (sort_key mr_Timestamp) (pgSource ''s1'' demoBase) (demoQuery noAnchor 1 [''level'']) = Inr rs \<and>
     rs_Changes rs = [] \<and> \<not> rs_Truncated rs) \<and>
   list_ex (wantedRow (demoQuery noAnchor 1 [''level'']) (newAnchor (demoQuery noAnchor 1 [''level'']))) (db_changes demoBase)"
proof
  have first: "filter (rowMatches (sq_Filter (demoQuery noAnchor 1 [''level'']))) (take (nat (changeLimit (demoQuery noAnchor 1 [''level''])))
      (sort_key changeOrder (filter (\<lambda>r. row_SessionID r = sq_SessionID (demoQuery noAnchor 1 [''level''])) (db_changes demoBase)))) = []"
    by code_simp
  show "\<exists>rs. run (sort_key mr_Timestamp) (pgSource ''s1'' demoBase) (demoQuery noAnchor 1 [''level'']) = Inr rs \<and>
     rs_Changes rs = [] \<and> \<not> rs_Truncated rs"
    using empty_hides_truncation [OF _ _ _ _ first, of "sort_key mr_Timestamp" "''s1''"] by (auto simp: demoQuery_def)
  show "list_ex (wantedRow (demoQuery noAnchor 1 [''level'']) (newAnchor (demoQuery noAnchor 1 [''level'']))) (db_changes demoBase)"
    by code_simp
qed

abbreviation corrAnchor :: anchor where
  "corrAnchor \<equiv> \<lparr>an_Kind = AnchorOperation, an_ID = ''corr:c''\<rparr>"

theorem anchor_crosses_sessions_witness:
  "\<exists>rs ev. run (sort_key mr_Timestamp) (pgSource ''s1'' demoBase) (demoQuery corrAnchor 0 []) = Inr rs \<and>
     ar_Source (rs_Anchor rs) = Some (newMessageRef ev 0) \<and> ev \<in> set (db_events demoBase) \<and> ev_Session ev \<noteq> ''s1''"
proof -
  let ?x = "demoEvent ''x'' ''s2'' 1000000 ''c''" and ?q = "demoQuery corrAnchor 0 []"
  have q: "sq_SessionID ?q = ''s1''" "an_Kind (sq_Anchor ?q) = AnchorOperation" "an_ID (sq_Anchor ?q) = ''corr:'' @ ''c''"
    by (simp_all add: demoQuery_def)
  have db: "?x \<in> set (db_events demoBase)" "tc_CorrelationID (ev_Trace ?x) = ''c''"
    "length (filter (\<lambda>e. tc_CorrelationID (ev_Trace e) = ''c'') (db_events demoBase)) \<le> 5000"
    "getEventByID demoBase '''' = None"
    by (simp_all add: demoBase_def demoEvent_def getEventByID_def)
  have "ev_Time ?x < ev_Time e" if "e \<in> set (db_events demoBase)" "ev_Session e = sq_SessionID ?q" for e
    using that by (auto simp: q demoBase_def demoEvent_def)
  with anchor_crosses_sessions [OF _ q(2,3) _ db(4,3,1,2)] show ?thesis
    by (simp add: q(1))
qed

end
