(* ===== verification/State_Detail.thy ===== *)
theory State_Detail
  imports State_Views
begin

text \<open>
  The detail of one state change, message or entity, \<open>pkg/state/detail.go\<close>: locating the change,
  the origin of time, the chain of protocol messages around it and the history of the entity by
  field. The results say what the chain and the history hold, in which order, and where the chain
  goes wrong: it is cut from its front, and it follows correlations into other sessions.
\<close>

section \<open>Queries and results\<close>

record detailQuery =
  dq_SessionID :: string
  dq_ChangeID :: string
  dq_EventID :: string
  dq_Entity :: string
  dq_Path :: string
  dq_BeforeMS :: int
  dq_AfterMS :: int
  dq_Limit :: int

record chainEntity =
  ce_Key :: string
  ce_SubjectType :: string
  ce_SubjectID :: string
  ce_ChangeCount :: nat
  ce_FieldPaths :: "string list"
  ce_Changes :: "change list"

record chainStep =
  cs_Message :: messageRef
  cs_OffsetMS :: int
  cs_ChangeCount :: nat
  cs_Entities :: "chainEntity list"

record chain =
  cn_Operation :: messageRef
  cn_EventCount :: nat
  cn_Steps :: "chainStep list"

record fieldHistory =
  fh_Path :: string
  fh_ChangeCount :: nat
  fh_Ops :: "string list"
  fh_FirstValue :: rawMessage
  fh_LastValue :: rawMessage
  fh_FirstChange :: time
  fh_LastChange :: time
  fh_Changes :: "change list"

record entityHistory =
  eh_SubjectType :: string
  eh_SubjectID :: string
  eh_Key :: string
  eh_ChangeCount :: nat
  eh_FirstChange :: time
  eh_LastChange :: time
  eh_Fields :: "fieldHistory list"
  eh_Timeline :: "change list"

record detail =
  dt_SessionID :: string
  dt_T0 :: time
  dt_Change :: "change option"
  dt_Chain :: "chain option"
  dt_History :: "entityHistory option"
  dt_FieldHistory :: "fieldHistory option"

datatype detail_error = DetailSessionRequired | LocatorRequired | ChangeNotFound | EntityInvalid | DetailSourceFailed string

definition defaultChainBeforeMS :: int where "defaultChainBeforeMS = 1000"

definition defaultChainAfterMS :: int where "defaultChainAfterMS = 2000"

definition maxChainSteps :: nat where "maxChainSteps = 50"

definition maxHistory :: int where "maxHistory = 5000"

section \<open>Enriched changes\<close>

definition buildChangeFromEvent :: "(string \<times> event) list \<Rightarrow> stateChangeRow \<Rightarrow> change" where
  "buildChangeFromEvent events row =
     (let ref = (case map_of events (row_EventID row) of
              Some ev \<Rightarrow> newMessageRef ev 0
            | None \<Rightarrow> zeroRef\<lparr>mr_EventID := row_EventID row, mr_Timestamp := row_Timestamp row, mr_Kind := ''unknown'',
                             mr_OperationKey := ''evt:'' @ row_EventID row\<rparr>);
          ref = (if mr_FlowID ref = '''' then ref\<lparr>mr_FlowID := row_FlowID row\<rparr> else ref);
          ref = (if mr_Timestamp ref = zeroTime then ref\<lparr>mr_Timestamp := row_Timestamp row\<rparr> else ref)
      in changeOfRow ref row)"

definition buildChange :: "dataSource \<Rightarrow> stateChangeRow \<Rightarrow> change" where
  "buildChange src row =
     buildChangeFromEvent
       (case ds_byID src (row_EventID row) of Inr (Some ev) \<Rightarrow> [(row_EventID row, ev)] | _ \<Rightarrow> []) row"

section \<open>The chain of messages\<close>

definition newChainEntity :: "change \<Rightarrow> nat \<Rightarrow> chainEntity" where
  "newChainEntity c i =
     \<lparr>ce_Key = ch_EntityKey c, ce_SubjectType = ch_SubjectType c, ce_SubjectID = ch_SubjectID c, ce_ChangeCount = 0,
      ce_FieldPaths = [], ce_Changes = []\<rparr>"

definition bumpChainEntity :: "change \<Rightarrow> chainEntity \<Rightarrow> chainEntity" where
  "bumpChainEntity c e =
     e\<lparr>ce_ChangeCount := ce_ChangeCount e + 1, ce_FieldPaths := appendUnique (ce_FieldPaths e) (ch_Path c),
       ce_Changes := ce_Changes e @ [c]\<rparr>"

definition groupChainEntities :: "change list \<Rightarrow> chainEntity list" where
  "groupChainEntities changes = groupLoop ch_EntityKey ce_Key newChainEntity bumpChainEntity changes"

text \<open>The events of a chain by identifier: those of the window, the anchor, its correlation and its cause.\<close>

definition putEvent :: "event \<Rightarrow> (string \<times> event) list \<Rightarrow> (string \<times> event) list" where
  "putEvent e byID = AList.update (ev_ID e) e byID"

definition chainWindow :: "detailQuery \<Rightarrow> time \<Rightarrow> time \<times> time" where
  "chainWindow q t0 =
     (let (beforeMS, afterMS) =
        (if dq_BeforeMS q = 0 \<and> dq_AfterMS q = 0 then (defaultChainBeforeMS, defaultChainAfterMS)
         else (dq_BeforeMS q, dq_AfterMS q))
      in (t0 + durationMS (wrap64 (- beforeMS)), t0 + durationMS afterMS))"

definition chainEvents :: "dataSource \<Rightarrow> detailQuery \<Rightarrow> event \<Rightarrow> time \<Rightarrow> detail_error + (string \<times> event) list" where
  "chainEvents src q anch t0 =
     (case ds_inRange src (dq_SessionID q) (fst (chainWindow q t0)) (snd (chainWindow q t0)) defaultEventScan of
        Inl e \<Rightarrow> Inl (DetailSourceFailed e)
      | Inr events \<Rightarrow>
          (let byID = putEvent anch (fold putEvent events []);
               corrID = tc_CorrelationID (ev_Trace anch);
               byID = (if corrID = '''' then byID
                       else (case ds_byCorrelation src corrID defaultEventScan 0 of
                               Inl _ \<Rightarrow> byID
                             | Inr correlated \<Rightarrow> fold putEvent correlated byID));
               cause = tc_CausationID (ev_Trace anch);
               byID = (if cause = '''' then byID
                       else (case ds_byID src cause of Inr (Some ev) \<Rightarrow> putEvent ev byID | _ \<Rightarrow> byID))
           in Inr byID))"

definition chainOrder :: "(string \<times> event) list \<Rightarrow> event list" where
  "chainOrder byID = take maxChainSteps (sort_key (\<lambda>e. (ev_Time e, ev_ID e)) (map snd byID))"

definition chainStepOf :: "time \<Rightarrow> change list \<Rightarrow> event \<Rightarrow> chainStep" where
  "chainStepOf t0 changes ev =
     (let ref = newMessageRef ev (offsetFrom t0 (ev_Time ev));
          mine = filter (\<lambda>c. ch_EventID c = mr_EventID ref) changes
      in \<lparr>cs_Message = ref, cs_OffsetMS = mr_OffsetMS ref, cs_ChangeCount = length mine,
          cs_Entities = groupChainEntities mine\<rparr>)"

definition chainOperation :: "chainStep list \<Rightarrow> messageRef" where
  "chainOperation steps =
     (case find (\<lambda>s. mr_Kind (cs_Message s) = ''request'') steps of
        Some s \<Rightarrow> cs_Message s
      | None \<Rightarrow> cs_Message (hd steps))"

definition buildChain :: "dataSource \<Rightarrow> detailQuery \<Rightarrow> event \<Rightarrow> time \<Rightarrow> int \<Rightarrow> detail_error + chain option" where
  "buildChain src q anch t0 limit =
     (case chainEvents src q anch t0 of
        Inl e \<Rightarrow> Inl e
      | Inr byID \<Rightarrow>
          (let ordered = chainOrder byID in
           if ordered = [] then Inr None
           else
             (case ds_changes src (emptyQuery\<lparr>scq_SessionID := dq_SessionID q, scq_From := ev_Time (hd ordered),
                                              scq_To := ev_Time (last ordered), scq_Limit := limit\<rparr>) of
                Inl e \<Rightarrow> Inl (DetailSourceFailed e)
              | Inr rows \<Rightarrow>
                  (let changes = map (\<lambda>r. (buildChangeFromEvent byID r)\<lparr>ch_OffsetMS := offsetFrom t0 (row_Timestamp r)\<rparr>) rows;
                       steps = map (chainStepOf t0 changes) ordered
                   in Inr (Some \<lparr>cn_Operation = chainOperation steps, cn_EventCount = length ordered, cn_Steps = steps\<rparr>)))))"

section \<open>The history of an entity\<close>

definition newField :: "change \<Rightarrow> nat \<Rightarrow> fieldHistory" where
  "newField c i =
     \<lparr>fh_Path = ch_Path c, fh_ChangeCount = 0, fh_Ops = [], fh_FirstValue = None, fh_LastValue = None,
      fh_FirstChange = zeroTime, fh_LastChange = zeroTime, fh_Changes = []\<rparr>"

definition bumpField :: "change \<Rightarrow> fieldHistory \<Rightarrow> fieldHistory" where
  "bumpField c f =
     f\<lparr>fh_ChangeCount := fh_ChangeCount f + 1, fh_Ops := appendUnique (fh_Ops f) (ch_Op c), fh_Changes := fh_Changes f @ [c],
       fh_FirstChange := (if fh_FirstChange f = zeroTime then ch_Timestamp c else fh_FirstChange f),
       fh_FirstValue := (if fh_FirstChange f = zeroTime then ch_Before c else fh_FirstValue f),
       fh_LastChange := ch_Timestamp c, fh_LastValue := ch_After c\<rparr>"

fun renumber :: "nat \<Rightarrow> change list \<Rightarrow> change list" where
  "renumber i [] = []"
| "renumber i (c # cs) = c\<lparr>ch_Seq := Suc i\<rparr> # renumber (Suc i) cs"

definition historyChanges :: "detailQuery \<Rightarrow> time \<Rightarrow> stateChangeRow list \<Rightarrow> change list" where
  "historyChanges q t0 rows =
     map (\<lambda>r. let c = buildChangeFromEvent [] r in
            if t0 = zeroTime then c else c\<lparr>ch_OffsetMS := offsetFrom t0 (ch_Timestamp c)\<rparr>)
       (filter (\<lambda>r. dq_Path q = '''' \<or> row_Path r = dq_Path q) rows)"

definition historyOf :: "string \<Rightarrow> string \<Rightarrow> change list \<Rightarrow> entityHistory option" where
  "historyOf subjectType subjectID changes =
     (if changes = [] then None
      else
        (let timeline = renumber 0 (sort_key (\<lambda>c. (ch_Timestamp c, ch_ID c)) changes) in
         Some \<lparr>eh_SubjectType = subjectType, eh_SubjectID = subjectID, eh_Key = entityKeyOf subjectType subjectID,
               eh_ChangeCount = length timeline, eh_FirstChange = ch_Timestamp (hd timeline),
               eh_LastChange = ch_Timestamp (last timeline),
               eh_Fields = sort_key fh_Path (groupLoop ch_Path fh_Path newField bumpField changes),
               eh_Timeline = timeline\<rparr>))"

definition loadEntityHistory ::
  "dataSource \<Rightarrow> detailQuery \<Rightarrow> string \<Rightarrow> string \<Rightarrow> time \<Rightarrow> int \<Rightarrow> detail_error + entityHistory option"
where
  "loadEntityHistory src q subjectType subjectID t0 limit =
     (case ds_changes src (emptyQuery\<lparr>scq_SessionID := dq_SessionID q, scq_SubjectType := subjectType,
                                      scq_SubjectID := subjectID, scq_Limit := limit\<rparr>) of
        Inl e \<Rightarrow> Inl (DetailSourceFailed e)
      | Inr rows \<Rightarrow> Inr (historyOf subjectType subjectID (historyChanges q t0 rows)))"

section \<open>Loading a detail\<close>

text \<open>Locating the change, which also fills in the entity and the field that the query left open.\<close>

definition locate :: "dataSource \<Rightarrow> detailQuery \<Rightarrow> int \<Rightarrow> detail_error + change option \<times> detailQuery" where
  "locate src q limit =
     (if dq_ChangeID q \<noteq> '''' then
        (case ds_changes src (emptyQuery\<lparr>scq_ID := dq_ChangeID q, scq_Limit := 1\<rparr>) of
           Inl e \<Rightarrow> Inl (DetailSourceFailed e)
         | Inr [] \<Rightarrow> Inl ChangeNotFound
         | Inr (r # _) \<Rightarrow>
             (let c = buildChange src r;
                  q = (if dq_Entity q = '''' then q\<lparr>dq_Entity := ch_EntityKey c\<rparr> else q);
                  q = (if dq_Path q = '''' then q\<lparr>dq_Path := ch_Path c\<rparr> else q)
              in Inr (Some c, q)))
      else if dq_EventID q \<noteq> '''' then
        (case ds_changes src (emptyQuery\<lparr>scq_SessionID := dq_SessionID q, scq_EventID := dq_EventID q, scq_Limit := limit\<rparr>) of
           Inl e \<Rightarrow> Inl (DetailSourceFailed e)
         | Inr [] \<Rightarrow> Inr (None, q)
         | Inr (r # _) \<Rightarrow>
             (let c = buildChange src r
              in Inr (Some c, if dq_Entity q = '''' then q\<lparr>dq_Entity := ch_EntityKey c\<rparr> else q)))
      else Inr (None, q))"

definition lookupEvent :: "dataSource \<Rightarrow> string \<Rightarrow> event option" where
  "lookupEvent src i = (case ds_byID src i of Inr (Some ev) \<Rightarrow> Some ev | _ \<Rightarrow> None)"

text \<open>The origin of time and the message of the chain; each step runs only while no origin is known.\<close>

definition originOf :: "dataSource \<Rightarrow> detailQuery \<Rightarrow> change option \<Rightarrow> time \<times> event option" where
  "originOf src q focus =
     (let at = (\<lambda>i (t0, anch). if t0 = zeroTime \<and> i \<noteq> '''' then
                  (case lookupEvent src i of Some ev \<Rightarrow> (ev_Time ev, Some ev) | None \<Rightarrow> (t0, anch)) else (t0, anch));
          focusID = (case focus of Some c \<Rightarrow> ch_EventID c | None \<Rightarrow> '''');
          (t0, anch) = at (dq_EventID q) (at focusID (zeroTime, None))
      in if t0 \<noteq> zeroTime \<or> dq_Entity q = '''' then (t0, anch)
         else
           (case splitEntityID (dq_Entity q) of
              None \<Rightarrow> (t0, anch)
            | Some (st, sid) \<Rightarrow>
                (case ds_changes src (emptyQuery\<lparr>scq_SessionID := dq_SessionID q, scq_SubjectType := st, scq_SubjectID := sid,
                                                 scq_Limit := 1\<rparr>) of
                   Inr (r # _) \<Rightarrow>
                     (row_Timestamp r, case lookupEvent src (row_EventID r) of Some ev \<Rightarrow> Some ev | None \<Rightarrow> anch)
                 | _ \<Rightarrow> (t0, anch))))"

definition detailHistory ::
  "dataSource \<Rightarrow> detailQuery \<Rightarrow> time \<Rightarrow> int \<Rightarrow> detail_error + entityHistory option"
where
  "detailHistory src q t0 limit =
     (if dq_Entity q = '''' then Inr None
      else
        (case splitEntityID (dq_Entity q) of
           None \<Rightarrow> Inl EntityInvalid
         | Some (st, sid) \<Rightarrow> loadEntityHistory src q st sid t0 limit))"

definition loadDetail :: "dataSource \<Rightarrow> detailQuery \<Rightarrow> detail_error + detail" where
  "loadDetail src q0 =
     (if dq_SessionID q0 = '''' then Inl DetailSessionRequired
      else if dq_ChangeID q0 = '''' \<and> dq_EventID q0 = '''' \<and> dq_Entity q0 = '''' then Inl LocatorRequired
      else
        (let limit = (if dq_Limit q0 \<le> 0 then maxHistory else dq_Limit q0) in
         case locate src q0 limit of
           Inl e \<Rightarrow> Inl e
         | Inr (focus, q) \<Rightarrow>
             (case originOf src q focus of
                (t0, anch) \<Rightarrow>
                  (case (case anch of None \<Rightarrow> Inr None | Some ev \<Rightarrow> buildChain src q ev t0 limit) of
                     Inl e \<Rightarrow> Inl e
                   | Inr ch \<Rightarrow>
                       (case detailHistory src q t0 limit of
                          Inl e \<Rightarrow> Inl e
                        | Inr hist \<Rightarrow>
                            Inr \<lparr>dt_SessionID = dq_SessionID q, dt_T0 = t0, dt_Change = focus, dt_Chain = ch, dt_History = hist,
                                 dt_FieldHistory = (if dq_Path q = '''' then None
                                   else (case hist of None \<Rightarrow> None
                                         | Some h \<Rightarrow> find (\<lambda>f. fh_Path f = dq_Path q) (eh_Fields h)))\<rparr>)))))"



section \<open>What the chain holds\<close>

text \<open>The table of events has one entry for each identifier.\<close>

definition keyed :: "(string \<times> event) list \<Rightarrow> bool" where
  "keyed byID \<longleftrightarrow> distinct (map fst byID) \<and> (\<forall>p \<in> set byID. fst p = ev_ID (snd p))"

lemma set_update_subset: "set (AList.update k v xs) \<subseteq> insert (k, v) (set xs)"
  by (induction xs) auto

lemma keyed_putEvent: "keyed byID \<Longrightarrow> keyed (putEvent e byID)"
  using set_update_subset [of "ev_ID e" e byID] by (auto simp: keyed_def putEvent_def distinct_update)

lemma keyed_fold: "keyed byID \<Longrightarrow> keyed (fold putEvent es byID)"
  by (induction es arbitrary: byID) (simp_all add: keyed_putEvent)

lemma chainEvents_keyed:
  assumes "chainEvents src q anch t0 = Inr byID"
  shows "keyed byID"
proof -
  have nil: "keyed []"
    by (simp add: keyed_def)
  show ?thesis
    using assms by (auto simp: chainEvents_def Let_def nil keyed_putEvent keyed_fold split: sum.splits if_splits option.splits)
qed

lemma keyed_ids: "keyed byID \<Longrightarrow> map (ev_ID \<circ> snd) byID = map fst byID"
  by (auto simp: keyed_def)

lemma chainOrder_props:
  assumes "keyed byID"
  shows "set (chainOrder byID) \<subseteq> snd ` set byID" "distinct (map ev_ID (chainOrder byID))"
    "sorted (map (\<lambda>e. (ev_Time e, ev_ID e)) (chainOrder byID))" "length (chainOrder byID) \<le> 50"
proof -
  let ?all = "sort_key (\<lambda>e. (ev_Time e, ev_ID e)) (map snd byID)"
  show "set (chainOrder byID) \<subseteq> snd ` set byID"
    using set_take_subset [of maxChainSteps ?all] by (simp add: chainOrder_def)
  have "distinct (map ev_ID (map snd byID))"
    using keyed_ids [OF assms] assms by (simp only: map_map keyed_def)
  then have "distinct (map ev_ID ?all)"
    by (rule mset_eq_imp_distinct_iff [THEN iffD2, rotated]) (simp add: multiset.map_comp)
  then show "distinct (map ev_ID (chainOrder byID))"
    by (simp add: chainOrder_def distinct_take flip: take_map)
  have "sorted (take maxChainSteps (map (\<lambda>e. (ev_Time e, ev_ID e)) ?all))"
    by (intro sorted_wrt_take) simp
  then show "sorted (map (\<lambda>e. (ev_Time e, ev_ID e)) (chainOrder byID))"
    by (simp add: chainOrder_def take_map)
  show "length (chainOrder byID) \<le> 50"
    by (simp add: chainOrder_def maxChainSteps_def)
qed

lemma groupChain_partition: "partitions ch_EntityKey ce_Key ce_Changes (groupChainEntities cs) cs"
  unfolding groupChainEntities_def by (rule partitions_groupLoop) (simp_all add: newChainEntity_def bumpChainEntity_def)

lemma buildChain_cases:
  assumes "buildChain src q anch t0 limit = Inr (Some ch)"
  obtains byID changes where "chainEvents src q anch t0 = Inr byID" "chainOrder byID \<noteq> []"
    "cn_Steps ch = map (chainStepOf t0 changes) (chainOrder byID)" "cn_EventCount ch = length (cn_Steps ch)"
proof -
  obtain byID where byID: "chainEvents src q anch t0 = Inr byID" "chainOrder byID \<noteq> []"
    using assms by (auto simp: buildChain_def Let_def split: sum.splits if_splits)
  with assms obtain rows where "ch = (let changes = map (\<lambda>r. (buildChangeFromEvent byID r)\<lparr>ch_OffsetMS := offsetFrom t0 (row_Timestamp r)\<rparr>) rows;
        steps = map (chainStepOf t0 changes) (chainOrder byID)
      in \<lparr>cn_Operation = chainOperation steps, cn_EventCount = length (chainOrder byID), cn_Steps = steps\<rparr>)"
    by (auto simp: buildChain_def Let_def split: sum.splits)
  then show thesis
    by (intro that [OF byID, of "map (\<lambda>r. (buildChangeFromEvent byID r)\<lparr>ch_OffsetMS := offsetFrom t0 (row_Timestamp r)\<rparr>) rows"])
      (simp_all add: Let_def)
qed

lemma step_message: "mr_EventID (cs_Message (chainStepOf t0 cs e)) = ev_ID e" "mr_Timestamp (cs_Message (chainStepOf t0 cs e)) = ev_Time e"
  by (simp_all add: chainStepOf_def newMessageRef_def Let_def)

text \<open>
  A protocol chain has at most fifty steps, one for each event, in the order of time and
  identifier and no event twice; the offset of a step is its distance from the origin, and the
  entities of a step partition its changes, whose number the step reports.
\<close>

theorem chain_ordered:
  assumes "buildChain src q anch t0 limit = Inr (Some ch)"
  shows "length (cn_Steps ch) \<le> 50 \<and> cn_EventCount ch = length (cn_Steps ch) \<and>
    sorted (map (\<lambda>s. (mr_Timestamp (cs_Message s), mr_EventID (cs_Message s))) (cn_Steps ch)) \<and>
    distinct (map (\<lambda>s. mr_EventID (cs_Message s)) (cn_Steps ch)) \<and>
    (\<forall>s \<in> set (cn_Steps ch). cs_OffsetMS s = offsetFrom t0 (mr_Timestamp (cs_Message s)) \<and>
       cs_ChangeCount s = sum_list (map (\<lambda>e. length (ce_Changes e)) (cs_Entities s)))"
  using assms
proof (cases rule: buildChain_cases)
  case (1 byID changes)
  note props = chainOrder_props [OF chainEvents_keyed [OF 1(1)]]
  have "cs_OffsetMS s = offsetFrom t0 (mr_Timestamp (cs_Message s)) \<and>
      cs_ChangeCount s = sum_list (map (\<lambda>e. length (ce_Changes e)) (cs_Entities s))" if mem: "s \<in> set (cn_Steps ch)" for s
  proof -
    obtain e where s: "s = chainStepOf t0 changes e"
      using mem 1(3) by auto
    show ?thesis
      unfolding s using mset_eq_length [OF partitions_concat [OF groupChain_partition [of "filter (\<lambda>c. ch_EventID c = ev_ID e) changes"]]]
      by (simp add: chainStepOf_def newMessageRef_def Let_def length_concat o_def)
  qed
  then show ?thesis
    using 1(3,4) props by (simp add: step_message o_def)
qed

text \<open>In a sorted list no element has more smaller elements than predecessors.\<close>

lemma length_filter_mono: "(\<And>x. P x \<Longrightarrow> Q x) \<Longrightarrow> length (filter P xs) \<le> length (filter Q xs)"
  by (induction xs) (auto intro: le_SucI)

lemma sorted_rank:
  assumes "sorted (map f xs)" and "i < length xs"
  shows "length (filter (\<lambda>y. f y < f (xs ! i)) xs) \<le> i"
proof -
  have "filter (\<lambda>y. f y < f (xs ! i)) xs = filter (\<lambda>y. f y < f (xs ! i)) (take i xs @ drop i xs)"
    by simp
  also have "\<dots> = filter (\<lambda>y. f y < f (xs ! i)) (take i xs) @ filter (\<lambda>y. f y < f (xs ! i)) (drop i xs)"
    by (simp only: filter_append)
  also have "filter (\<lambda>y. f y < f (xs ! i)) (drop i xs) = []"
    using assms by (auto simp: filter_empty_conv in_set_conv_nth not_less sorted_iff_nth_mono)
  finally show ?thesis
    using length_filter_le [of "\<lambda>y. f y < f (xs ! i)" "take i xs"] by simp
qed

text \<open>
  The chain keeps the fifty earliest events: when fifty events of its window come before the
  message the chain was asked for, that message is not part of its own chain.
\<close>

theorem chain_loses_anchor:
  assumes "chainEvents src q anch t0 = Inr byID" and "map_of byID (ev_ID anch) = Some anch" and "50 \<le> length (filter (\<lambda>e. ev_Time e < ev_Time anch) (map snd byID))"
    and "buildChain src q anch t0 limit = Inr (Some ch)"
  shows "ev_ID anch \<notin> (\<lambda>s. mr_EventID (cs_Message s)) ` set (cn_Steps ch)"
proof
  let ?f = "\<lambda>e. (ev_Time e, ev_ID e)" and ?all = "map snd byID"
  assume "ev_ID anch \<in> (\<lambda>s. mr_EventID (cs_Message s)) ` set (cn_Steps ch)"
  then obtain x where x: "x \<in> set (chainOrder byID)" "ev_ID x = ev_ID anch"
    using assms(1,4) by (auto elim!: buildChain_cases simp: step_message)
  have keyed: "keyed byID"
    by (rule chainEvents_keyed [OF assms(1)])
  have same: "ev_Time x = ev_Time anch"
  proof -
    have "(ev_ID x, x) \<in> set byID"
    proof -
      obtain p where p: "p \<in> set byID" "x = snd p"
        using subsetD [OF chainOrder_props(1) [OF keyed] x(1)] by (rule imageE)
      with keyed have "fst p = ev_ID x"
        by (simp add: keyed_def)
      with p show ?thesis
        by (metis prod.collapse)
    qed
    with keyed have "map_of byID (ev_ID x) = Some x"
      unfolding keyed_def by (blast intro: map_of_is_SomeI)
    with assms(2) have "x = anch"
      unfolding x(2) by simp
    then show ?thesis
      by (rule arg_cong)
  qed
  obtain i where i: "i < length (sort_key ?f ?all)" "i < 50" "sort_key ?f ?all ! i = x"
    using x(1) by (auto simp: chainOrder_def maxChainSteps_def in_set_conv_nth)
  have "mset (filter (\<lambda>e. ev_Time e < ev_Time anch) ?all) = mset (filter (\<lambda>e. ev_Time e < ev_Time anch) (sort_key ?f ?all))"
    by (simp only: mset_filter mset_sort)
  then have "length (filter (\<lambda>e. ev_Time e < ev_Time anch) ?all) = length (filter (\<lambda>e. ev_Time e < ev_Time anch) (sort_key ?f ?all))"
    by (rule mset_eq_length)
  also have "\<dots> \<le> length (filter (\<lambda>e. ?f e < ?f (sort_key ?f ?all ! i)) (sort_key ?f ?all))"
    unfolding i(3) by (rule length_filter_mono) (simp add: same less_prod_def)
  also have "\<dots> \<le> i"
    using i(1) by (intro sorted_rank) simp_all
  finally show False
    using assms(3) i(2) by simp
qed


section \<open>The chain leaves the session\<close>

lemma find_unique:
  assumes "x \<in> set xs" and "\<And>y. y \<in> set xs \<Longrightarrow> f y = f x \<Longrightarrow> y = x"
  shows "find (\<lambda>y. f y = f x) xs = Some x"
  using assms by (induction xs) auto

lemma map_of_putEvent: "map_of (putEvent e byID) i = (if i = ev_ID e then Some e else map_of byID i)"
  by (simp add: putEvent_def update_conv')

lemma map_of_fold_putEvent:
  "map_of (fold putEvent es byID) i =
     (case find (\<lambda>e. ev_ID e = i) (rev es) of Some e \<Rightarrow> Some e | None \<Rightarrow> map_of byID i)"
proof (induction es rule: rev_induct)
  case (snoc e es)
  then show ?case
    by (simp add: map_of_putEvent eq_commute)
qed simp

text \<open>
  In the PostgreSQL store the chain of a message with a correlation holds every event of that
  correlation, of whatever session: the message of another session's event becomes a step, as long
  as the chain is not longer than fifty steps.
\<close>

theorem chain_crosses_sessions:
  assumes "tc_CorrelationID (ev_Trace anch) \<noteq> ''''" and "tc_CausationID (ev_Trace anch) = ''''"
    and "foreign \<in> set (db_events db)" and "tc_CorrelationID (ev_Trace foreign) = tc_CorrelationID (ev_Trace anch)"
    and "distinct (map ev_ID (db_events db))"
    and "length (filter (\<lambda>e. tc_CorrelationID (ev_Trace e) = tc_CorrelationID (ev_Trace anch)) (db_events db)) \<le> 5000"
    and "chainEvents (pgSource s db) q anch t0 = Inr byID" and "length byID \<le> 50"
  shows "\<exists>ch. buildChain (pgSource s db) q anch t0 limit = Inr (Some ch) \<and>
    newMessageRef foreign (offsetFrom t0 (ev_Time foreign)) \<in> cs_Message ` set (cn_Steps ch)"
proof -
  let ?corr = "tc_CorrelationID (ev_Trace anch)"
  let ?hits = "filter (\<lambda>e. tc_CorrelationID (ev_Trace e) = ?corr) (db_events db)"
  have hits: "queryEventsByCorrelation db ?corr defaultEventScan 0 = sort_key (\<lambda>e. - ev_Time e) ?hits"
    using assms(6) by (simp add: queryEventsByCorrelation_def limitOffset_def defaultEventScan_def)
  obtain base where byID: "byID = fold putEvent (sort_key (\<lambda>e. - ev_Time e) ?hits) base"
    using assms(1,2,7) by (auto simp: chainEvents_def pg_answers Let_def hits)
  have ids: "inj_on ev_ID (set (db_events db))"
    using assms(5) by (simp add: distinct_map)
  have "find (\<lambda>e. ev_ID e = ev_ID foreign) (rev (sort_key (\<lambda>e. - ev_Time e) ?hits)) = Some foreign"
  proof -
    have "foreign \<in> set (rev (sort_key (\<lambda>e. - ev_Time e) ?hits))"
      using assms(3,4) by simp
    moreover have "e = foreign" if "e \<in> set (rev (sort_key (\<lambda>e. - ev_Time e) ?hits))" "ev_ID e = ev_ID foreign" for e
      using that assms(3) inj_onD [OF ids] by auto
    ultimately show ?thesis
      by (rule find_unique)
  qed
  then have "map_of byID (ev_ID foreign) = Some foreign"
    by (simp add: byID map_of_fold_putEvent)
  then have "foreign \<in> snd ` set byID"
    by (force dest: map_of_SomeD)
  then have mem: "foreign \<in> set (chainOrder byID)"
    using assms(8) by (simp add: chainOrder_def maxChainSteps_def)
  then have "chainOrder byID \<noteq> []"
    by auto
  then obtain ch where ch: "buildChain (pgSource s db) q anch t0 limit = Inr (Some ch)"
    using assms(7) by (simp add: buildChain_def pg_answers Let_def)
  then obtain changes where steps: "cn_Steps ch = map (chainStepOf t0 changes) (chainOrder byID)"
    using assms(7) by (cases rule: buildChain_cases) auto
  have "cs_Message (chainStepOf t0 changes foreign) = newMessageRef foreign (offsetFrom t0 (ev_Time foreign))"
    by (simp add: chainStepOf_def Let_def)
  then have "newMessageRef foreign (offsetFrom t0 (ev_Time foreign)) \<in> cs_Message ` set (cn_Steps ch)"
    unfolding steps set_map by (metis imageI mem)
  with ch show ?thesis
    by blast
qed


section \<open>The history of an entity\<close>

lemma renumber_map:
  "map ch_Seq (renumber i cs) = map Suc [i..<i + length cs]" "map (\<lambda>c. c\<lparr>ch_Seq := 0\<rparr>) (renumber i cs) = map (\<lambda>c. c\<lparr>ch_Seq := 0\<rparr>) cs"
  by (induction cs arbitrary: i) (simp_all add: upt_rec del: upt_Suc)

lemma length_renumber [simp]: "length (renumber i cs) = length cs"
  by (induction cs arbitrary: i) simp_all

lemma field_partition: "partitions ch_Path fh_Path fh_Changes (groupLoop ch_Path fh_Path newField bumpField cs) cs"
  by (rule partitions_groupLoop) (simp_all add: newField_def bumpField_def)

lemma fold_bumpField:
  assumes "ys \<noteq> []" and "\<And>c. c \<in> set ys \<Longrightarrow> ch_Timestamp c \<noteq> zeroTime"
  shows "fh_LastValue (fold bumpField ys b) = ch_After (last ys)" "fh_LastChange (fold bumpField ys b) = ch_Timestamp (last ys)"
    "fh_ChangeCount (fold bumpField ys b) = fh_ChangeCount b + length ys"
    "fh_FirstChange b = zeroTime \<Longrightarrow> fh_FirstValue (fold bumpField ys b) = ch_Before (hd ys)"
    "fh_FirstChange b = zeroTime \<Longrightarrow> fh_FirstChange (fold bumpField ys b) = ch_Timestamp (hd ys)"
proof -
  have keep: "fh_FirstChange b' \<noteq> zeroTime \<Longrightarrow> fh_FirstChange (fold bumpField zs b') = fh_FirstChange b' \<and>
      fh_FirstValue (fold bumpField zs b') = fh_FirstValue b'" for zs b'
    by (induction zs arbitrary: b') (simp_all add: bumpField_def)
  show "fh_LastValue (fold bumpField ys b) = ch_After (last ys)" "fh_LastChange (fold bumpField ys b) = ch_Timestamp (last ys)"
    using assms(1) by (induction ys arbitrary: b rule: rev_induct) (simp_all add: bumpField_def)
  show "fh_ChangeCount (fold bumpField ys b) = fh_ChangeCount b + length ys"
    by (rule fold_count) (simp add: bumpField_def)
  assume "fh_FirstChange b = zeroTime"
  then show "fh_FirstValue (fold bumpField ys b) = ch_Before (hd ys)" "fh_FirstChange (fold bumpField ys b) = ch_Timestamp (hd ys)"
    using assms by (cases ys; simp add: keep bumpField_def)+
qed

text \<open>
  The history of an entity: the timeline holds its changes in the order of time and
  identifier, numbered from one; the fields, sorted by path, partition the changes; a field
  reports the number of its changes, the value before the first and the value after the last.
\<close>

theorem history_exact:
  assumes "historyOf st sid cs = Some h" and "\<And>c. c \<in> set cs \<Longrightarrow> ch_Timestamp c \<noteq> zeroTime"
  shows "map (\<lambda>c. c\<lparr>ch_Seq := 0\<rparr>) (eh_Timeline h) = map (\<lambda>c. c\<lparr>ch_Seq := 0\<rparr>) (sort_key (\<lambda>c. (ch_Timestamp c, ch_ID c)) cs) \<and>
    map ch_Seq (eh_Timeline h) = map Suc [0..<length cs] \<and> eh_ChangeCount h = length cs \<and>
    partitions ch_Path fh_Path fh_Changes (eh_Fields h) cs \<and> sorted (map fh_Path (eh_Fields h)) \<and>
    (\<forall>f \<in> set (eh_Fields h). fh_ChangeCount f = length (fh_Changes f) \<and> fh_FirstValue f = ch_Before (hd (fh_Changes f)) \<and>
       fh_LastValue f = ch_After (last (fh_Changes f)))"
proof -
  let ?loop = "groupLoop ch_Path fh_Path newField bumpField cs"
  have h: "eh_Timeline h = renumber 0 (sort_key (\<lambda>c. (ch_Timestamp c, ch_ID c)) cs)" "eh_Fields h = sort_key fh_Path ?loop"
    "eh_ChangeCount h = length cs"
    using assms(1) by (auto simp: historyOf_def Let_def split: if_splits)
  have parts: "partitions ch_Path fh_Path fh_Changes (eh_Fields h) cs"
    by (rule partitions_mset [OF field_partition]) (simp add: h)
  have "fh_ChangeCount f = length (fh_Changes f) \<and> fh_FirstValue f = ch_Before (hd (fh_Changes f)) \<and>
      fh_LastValue f = ch_After (last (fh_Changes f))" if f: "f \<in> set (eh_Fields h)" for f
  proof -
    have mem: "f \<in> set ?loop"
      using f by (simp add: h)
    obtain i where i: "f = groupOf ch_Path newField bumpField cs (i, fh_Path f)"
      using groupLoop_elem [of fh_Path newField ch_Path bumpField f cs, OF _ _ mem] by (auto simp: newField_def bumpField_def)
    let ?ys = "members ch_Path cs (fh_Path f)"
    have ys: "fh_Changes f = ?ys" "?ys \<noteq> []"
      using parts partitions_nonempty [OF parts f] f by (auto simp: partitions_def members_def)
    have "ch_Timestamp c \<noteq> zeroTime" if "c \<in> set ?ys" for c
      using that assms(2) by (simp add: members_def)
    note vals = fold_bumpField [of ?ys "newField (hd ?ys) i", OF ys(2) this]
    have f': "f = fold bumpField ?ys (newField (hd ?ys) i)"
      using i by (simp add: groupOf_def Let_def)
    show ?thesis
      unfolding ys(1) using arg_cong [OF f', of fh_ChangeCount] arg_cong [OF f', of fh_FirstValue] arg_cong [OF f', of fh_LastValue] vals
      by (simp add: newField_def)
  qed
  with parts show ?thesis
    by (simp add: h renumber_map)
qed

text \<open>
  Changes of one instant are ordered by identifier in the timeline, by the position in their
  message everywhere else: when the identifiers of two changes of a field disagree with their
  order in the message, the timeline ends with the older change while the field reports the value
  of the newer one as its last.
\<close>

theorem timeline_disagrees:
  assumes "ch_Timestamp c = ch_Timestamp d" and "ch_ID d < ch_ID c" and "ch_Path c = ch_Path d" and "ch_Timestamp c \<noteq> zeroTime"
  shows "\<exists>h f. historyOf st sid [c, d] = Some h \<and> eh_Timeline h = [d\<lparr>ch_Seq := 1\<rparr>, c\<lparr>ch_Seq := 2\<rparr>] \<and>
    eh_Fields h = [f] \<and> fh_LastValue f = ch_After d"
  using assms
  by (simp add: historyOf_def Let_def less_eq_prod_def groupLoop_def upsert_def newField_def bumpField_def numeral_2_eq_2)


section \<open>Examples\<close>

definition demoDetail :: detailQuery where
  "demoDetail = \<lparr>dq_SessionID = ''s1'', dq_ChangeID = '''', dq_EventID = ''e1'', dq_Entity = '''', dq_Path = '''', dq_BeforeMS = 0,
     dq_AfterMS = 0, dq_Limit = 0\<rparr>"

definition demoChain :: chain where
  "demoChain = (case buildChain (pgSource ''s1'' demoBase) demoDetail (demoEvent ''e1'' ''s1'' 5000000 ''c'') 5000000 100 of
     Inr (Some ch) \<Rightarrow> ch | _ \<Rightarrow> \<lparr>cn_Operation = zeroRef, cn_EventCount = 0, cn_Steps = []\<rparr>)"

definition demoTable :: "(string \<times> event) list" where
  "demoTable = (case chainEvents (pgSource ''s1'' demoBase) demoDetail (demoEvent ''e1'' ''s1'' 5000000 ''c'') 5000000 of
     Inr byID \<Rightarrow> byID | Inl _ \<Rightarrow> [])"

lemma demo_table: "chainEvents (pgSource ''s1'' demoBase) demoDetail (demoEvent ''e1'' ''s1'' 5000000 ''c'') 5000000 = Inr demoTable"
  by (simp add: demoTable_def chainEvents_def pg_answers Let_def)

lemma demo_table_size: "length demoTable = 3" "map ev_ID (chainOrder demoTable) = [''x'', ''e1'', ''e2'']"
  by code_simp+

lemma demo_chain: "buildChain (pgSource ''s1'' demoBase) demoDetail (demoEvent ''e1'' ''s1'' 5000000 ''c'') 5000000 100 = Inr (Some demoChain)"
proof -
  have "chainOrder demoTable \<noteq> []"
    using demo_table_size(2) by auto
  then show ?thesis
    by (simp add: demoChain_def buildChain_def demo_table pg_answers Let_def)
qed

theorem chain_ordered_witness:
  "length (cn_Steps demoChain) \<le> 50 \<and> distinct (map (\<lambda>s. mr_EventID (cs_Message s)) (cn_Steps demoChain))"
  using chain_ordered [OF demo_chain] by blast

theorem chain_crosses_sessions_witness:
  "\<exists>ch. buildChain (pgSource ''s1'' demoBase) demoDetail (demoEvent ''e1'' ''s1'' 5000000 ''c'') 5000000 100 = Inr (Some ch) \<and>
     newMessageRef (demoEvent ''x'' ''s2'' 1000000 ''c'') (offsetFrom 5000000 1000000) \<in> cs_Message ` set (cn_Steps ch)"
proof -
  let ?a = "demoEvent ''e1'' ''s1'' 5000000 ''c''" and ?x = "demoEvent ''x'' ''s2'' 1000000 ''c''"
  have tr: "tc_CorrelationID (ev_Trace ?a) = ''c''" "tc_CausationID (ev_Trace ?a) = ''''" "ev_Time ?x = 1000000"
    "tc_CorrelationID (ev_Trace ?x) = ''c''"
    by (simp_all add: demoEvent_def)
  have db: "?x \<in> set (db_events demoBase)" "distinct (map ev_ID (db_events demoBase))" "length (db_events demoBase) = 3"
    by (simp_all add: demoBase_def demoEvent_def)
  have "length (filter (\<lambda>e. tc_CorrelationID (ev_Trace e) = tc_CorrelationID (ev_Trace ?a)) (db_events demoBase)) \<le> 5000"
    by (rule order_trans [OF length_filter_le]) (simp add: db(3))
  then show ?thesis
    using chain_crosses_sessions [OF _ tr(2) db(1) _ db(2) _ demo_table] by (simp add: tr demo_table_size)
qed

definition busyBase :: database where
  "busyBase = \<lparr>db_events = map (\<lambda>i. demoEvent (replicate i CHR ''a'') ''s1'' (int i) '''') [1..<52], db_changes = [], db_index = []\<rparr>"

definition busyEvent :: event where
  "busyEvent = demoEvent ''b'' ''s1'' 100 ''''"


lemma fold_putEvent_new:
  assumes "distinct (map ev_ID es)" and "set (map ev_ID es) \<inter> fst ` set byID = {}"
  shows "fold putEvent es byID = byID @ map (\<lambda>e. (ev_ID e, e)) es"
  using assms
proof (induction es arbitrary: byID)
  case (Cons e es)
  have "putEvent e byID = byID @ [(ev_ID e, e)]"
    using Cons.prems(2) by (simp add: putEvent_def update_new)
  then show ?case
    using Cons.prems by (auto simp: Cons.IH)
qed simp

definition busyTable :: "(string \<times> event) list" where
  "busyTable = map (\<lambda>e. (ev_ID e, e)) (db_events busyBase @ [busyEvent])"

lemma busy_table: "chainEvents (pgSource ''s1'' busyBase) demoDetail busyEvent 100 = Inr busyTable"
proof -
  let ?es = "db_events busyBase"
  have win: "chainWindow demoDetail 100 = (- 999999900, 2000000100)"
    by (simp add: chainWindow_def demoDetail_def defaultChainBeforeMS_def defaultChainAfterMS_def durationMS_def wrap64_def)
  have times: "map ev_Time ?es = map int [1..<52]" and ids: "map ev_ID ?es = map (\<lambda>i. replicate i CHR ''a'') [1..<52]"
    by (simp_all add: busyBase_def demoEvent_def o_def)
  have inWin: "ev_Session e = ''s1'' \<and> sqlRange (- 999999900) 2000000100 (ev_Time e)" if "e \<in> set ?es" for e
    using that by (auto simp: busyBase_def demoEvent_def sqlRange_def unixNano_def wrap64_def zeroTime_def)
  have "sorted (map ev_Time ?es)"
    unfolding times by (rule sorted_map_mono [OF sorted_upt]) (simp add: mono_on_def)
  then have "queryEventsInRange busyBase ''s1'' (- 999999900) 2000000100 defaultEventScan = ?es"
    using inWin by (simp add: queryEventsInRange_def limitOffset_def defaultEventScan_def sort_key_id_if_sorted busyBase_def)
  moreover have "distinct (map ev_ID ?es)"
    unfolding ids by (simp add: distinct_map inj_on_def)
  then have "fold putEvent ?es [] = map (\<lambda>e. (ev_ID e, e)) ?es"
    by (simp add: fold_putEvent_new)
  moreover have "ev_ID busyEvent \<notin> set (map ev_ID ?es)"
    unfolding ids by (auto simp: busyEvent_def demoEvent_def dest!: arg_cong [of _ _ set])
  moreover have "dq_SessionID demoDetail = ''s1''" "tc_CorrelationID (ev_Trace busyEvent) = []" "tc_CausationID (ev_Trace busyEvent) = []"
    by (simp_all add: demoDetail_def busyEvent_def demoEvent_def)
  ultimately show ?thesis
    by (simp add: chainEvents_def win pg_answers Let_def putEvent_def [of busyEvent] update_new busyTable_def image_image)
qed

theorem chain_loses_anchor_witness:
  "ev_ID busyEvent \<notin> (\<lambda>s. mr_EventID (cs_Message s)) ` set (cn_Steps (case buildChain (pgSource ''s1'' busyBase) demoDetail busyEvent 100 10 of
     Inr (Some ch) \<Rightarrow> ch | _ \<Rightarrow> demoChain))"
proof -
  have len: "length (filter (\<lambda>e. ev_Time e < ev_Time busyEvent) (map snd busyTable)) = 51"
    by (simp add: busyTable_def busyBase_def busyEvent_def demoEvent_def o_def del: upt_rec_numeral)
  have keyed: "keyed busyTable"
    by (rule chainEvents_keyed [OF busy_table])
  have "(ev_ID busyEvent, busyEvent) \<in> set busyTable"
    by (simp add: busyTable_def)
  then have anch: "map_of busyTable (ev_ID busyEvent) = Some busyEvent"
    using keyed unfolding keyed_def by (blast intro: map_of_is_SomeI)
  have "chainOrder busyTable \<noteq> []"
    by (simp add: chainOrder_def maxChainSteps_def busyTable_def flip: length_0_conv)
  then obtain ch where ch: "buildChain (pgSource ''s1'' busyBase) demoDetail busyEvent 100 10 = Inr (Some ch)"
    by (simp add: buildChain_def busy_table pg_answers Let_def)
  show ?thesis
    using chain_loses_anchor [OF busy_table anch _ ch] len by (simp add: ch)
qed


definition demoChanges :: "change list" where
  "demoChanges = map (buildChangeFromEvent []) [demoRow ''r9'' ''e1'' ''s1'' 5000000 ''hp'', demoRow ''r1'' ''e1'' ''s1'' 5000000 ''hp'']"

theorem history_exact_witness:
  "eh_ChangeCount (the (historyOf ''hero'' ''7'' demoChanges)) = 2 \<and>
   map fh_LastValue (eh_Fields (the (historyOf ''hero'' ''7'' demoChanges))) = [Some ''1'']"
proof -
  have ts: "c \<in> set demoChanges \<Longrightarrow> ch_Timestamp c \<noteq> zeroTime" for c
    by (auto simp: demoChanges_def buildChangeFromEvent_def changeOfRow_def demoRow_def Let_def zeroTime_def)
  have some: "historyOf ''hero'' ''7'' demoChanges = Some (the (historyOf ''hero'' ''7'' demoChanges))"
    by (simp add: historyOf_def demoChanges_def Let_def)
  have "eh_ChangeCount (the (historyOf ''hero'' ''7'' demoChanges)) = length demoChanges"
    using history_exact [OF some ts] by blast
  moreover have "map fh_LastValue (eh_Fields (the (historyOf ''hero'' ''7'' demoChanges))) = [Some ''1'']"
    by code_simp
  ultimately show ?thesis
    by (simp add: demoChanges_def)
qed

theorem timeline_disagrees_witness:
  "\<exists>h f. historyOf ''hero'' ''7'' demoChanges = Some h \<and> map ch_ID (eh_Timeline h) = [''r1'', ''r9''] \<and> eh_Fields h = [f]"
proof -
  obtain c d where cd: "demoChanges = [c, d]"
    by (simp add: demoChanges_def)
  have "map ch_ID demoChanges = [''r9'', ''r1'']" "map ch_Timestamp demoChanges = [5000000, 5000000]" "map ch_Path demoChanges = [''hp'', ''hp'']"
    by code_simp+
  then have "ch_ID c = ''r9''" "ch_ID d = ''r1''" "ch_Timestamp c = 5000000" "ch_Timestamp d = 5000000" "ch_Path c = ch_Path d"
    by (simp_all add: cd)
  moreover have "''r1'' < ''r9''"
    by code_simp
  ultimately show ?thesis
    using timeline_disagrees [of c d "''hero''" "''7''"] by (auto simp: cd zeroTime_def)
qed

end
