(* ===== verification/Auth_Token.thy ===== *)
theory Auth_Token
  imports Go_Strings Go_Collections Authz Event_Model
begin

text \<open>
  \<open>pkg/auth\<close> and the user table of \<open>cmd/gt-mcp\<close>: the identities of the system. The bootstrap
  identities come from one environment variable, \<open>owner=token,owner=token:admin\<close>, and are read
  twice, by \<open>ParseTokens\<close> (token to owner) and by \<open>loadTokensByOwner\<close> (owner to token); the
  registered ones are the rows of the table \<open>users\<close>. \<open>FirstResolver\<close> puts the two together.

  A map is an association list with distinct keys, a nil pointer is \<open>None\<close>, and every query of
  the database takes one more argument that says whether it fails. A row of \<open>users\<close> keeps the
  constraints of its schema: one row per owner, one row per token.
\<close>

section \<open>Principals and the static resolver (pkg/auth/token.go)\<close>

record authPrincipal =
  ap_Owner :: string
  ap_IsAdmin :: bool
  ap_Tenant :: string
  ap_ProbeID :: string

definition AnonymousOwner :: string where
  "AnonymousOwner = ''local''"

definition adminSuffix :: string where
  "adminSuffix = ''admin''"

definition userPrincipal :: "string \<Rightarrow> bool \<Rightarrow> authPrincipal" where
  "userPrincipal owner admin = \<lparr>ap_Owner = owner, ap_IsAdmin = admin, ap_Tenant = [], ap_ProbeID = []\<rparr>"

definition anonymousPrincipal :: authPrincipal where
  "anonymousPrincipal = userPrincipal AnonymousOwner False"

type_synonym byToken = "(string \<times> authPrincipal) list"

definition newStaticResolver :: "byToken \<Rightarrow> byToken" where
  "newStaticResolver pairs = filter (\<lambda>(tok, p). \<not> (tok = [] \<or> ap_Owner p = [])) pairs"

definition staticRequired :: "byToken option \<Rightarrow> bool" where
  "staticRequired r = (case r of None \<Rightarrow> False | Some m \<Rightarrow> m \<noteq> [])"

definition hasOwner :: "byToken option \<Rightarrow> string \<Rightarrow> bool" where
  "hasOwner r name = (case r of None \<Rightarrow> False | Some m \<Rightarrow> list_ex (\<lambda>(tok, p). ap_Owner p = name) m)"

definition owners :: "byToken option \<Rightarrow> string list" where
  "owners r = (case r of None \<Rightarrow> [] | Some m \<Rightarrow> sort (uniq (map (\<lambda>(tok, p). ap_Owner p) m)))"

definition staticResolve :: "byToken option \<Rightarrow> string \<Rightarrow> authPrincipal option" where
  "staticResolve r token =
     (if \<not> staticRequired r then Some anonymousPrincipal
      else case map_of (the r) token of
        None \<Rightarrow> None
      | Some p \<Rightarrow> Some (userPrincipal (ap_Owner p) (ap_IsAdmin p)))"

section \<open>Reading the token configuration\<close>

text \<open>\<open>strings.Split\<close> at one byte, and a string cut at the first or the last such byte.\<close>

fun splitAt :: "char \<Rightarrow> string \<Rightarrow> string list" where
  "splitAt c [] = [[]]"
| "splitAt c (x # xs) =
     (if x = c then [] # splitAt c xs
      else case splitAt c xs of p # ps \<Rightarrow> (x # p) # ps | [] \<Rightarrow> [[x]])"

definition cutAt :: "char \<Rightarrow> string \<Rightarrow> (string \<times> string) option" where
  "cutAt c s = (if c \<in> set s then Some (takeWhile (\<lambda>x. x \<noteq> c) s, tl (dropWhile (\<lambda>x. x \<noteq> c) s)) else None)"

definition cutAtLast :: "char \<Rightarrow> string \<Rightarrow> (string \<times> string) option" where
  "cutAtLast c s = map_option (\<lambda>(suffix, prefix). (rev prefix, rev suffix)) (cutAt c (rev s))"

definition equalFold :: "string \<Rightarrow> string \<Rightarrow> bool" where
  "equalFold s t \<longleftrightarrow> toLower s = toLower t"

datatype tokenError =
  MissingEquals string
| EmptyOwner string
| UnknownSuffix string string
| EmptyToken string
| DuplicateOwner string string string
| DuplicateToken string string string

text \<open>One segment: owner, token and the admin mark, or the first of the four errors.\<close>

definition parseSegment :: "string \<Rightarrow> tokenError + (string \<times> string \<times> bool)" where
  "parseSegment seg =
     (case cutAt (CHR ''='') seg of
        None \<Rightarrow> Inl (MissingEquals seg)
      | Some (l, r) \<Rightarrow>
          (let owner = trimSpace l; token = trimSpace r in
           if owner = [] then Inl (EmptyOwner seg)
           else case cutAtLast (CHR '':'') token of
             None \<Rightarrow> if token = [] then Inl (EmptyToken seg) else Inr (owner, token, False)
           | Some (pre, suffix) \<Rightarrow>
               if \<not> equalFold suffix adminSuffix then Inl (UnknownSuffix seg suffix)
               else if pre = [] then Inl (EmptyToken seg)
               else Inr (owner, pre, True)))"

fun parseLoop :: "string list \<Rightarrow> byToken \<Rightarrow> (string \<times> string) list \<Rightarrow> tokenError + byToken" where
  "parseLoop [] m os = Inr m"
| "parseLoop (s # segs) m os =
     (let seg = trimSpace s in
      if seg = [] then parseLoop segs m os
      else case parseSegment seg of
        Inl e \<Rightarrow> Inl e
      | Inr (owner, token, admin) \<Rightarrow>
          (case map_of os owner of
             Some prev \<Rightarrow> Inl (DuplicateOwner owner prev seg)
           | None \<Rightarrow>
               (case map_of m token of
                  Some other \<Rightarrow> Inl (DuplicateToken token (ap_Owner other) owner)
                | None \<Rightarrow> parseLoop segs (AList.update token (userPrincipal owner admin) m)
                            (AList.update owner seg os))))"

definition parseTokens :: "string \<Rightarrow> tokenError + byToken" where
  "parseTokens spec =
     (if trimSpace spec = [] then Inr []
      else parseLoop (splitAt (CHR '','') spec) [] [])"

text \<open>The value of an \<open>authorization\<close> header: \<open>Bearer <token>\<close>, or a bare token.\<close>

definition parseBearer :: "string \<Rightarrow> string option" where
  "parseBearer v =
     (let value = trimSpace v in
      if value = [] then None
      else case cutAt (CHR '' '') value of
        None \<Rightarrow> Some value
      | Some (scheme, r) \<Rightarrow>
          (let rest = trimSpace r in
           if \<not> equalFold scheme ''bearer'' \<or> rest = [] then None else Some rest))"

text \<open>
  The second reader of the variable (\<open>cmd/gt-mcp/user_mgmt.go\<close>): owner to token, where every
  segment it cannot read is passed over.
\<close>

definition loadStep :: "(string \<times> string) list \<Rightarrow> string \<Rightarrow> (string \<times> string) list" where
  "loadStep m s =
     (let seg = trimSpace s in
      if seg = [] then m
      else case cutAt (CHR ''='') seg of
        None \<Rightarrow> m
      | Some (l, r) \<Rightarrow>
          (let owner = trimSpace l;
               tok = trimSpace r;
               tok = (case cutAtLast (CHR '':'') tok of None \<Rightarrow> tok | Some (pre, _) \<Rightarrow> pre)
           in if owner \<noteq> [] \<and> tok \<noteq> [] then AList.update owner tok m else m))"

definition loadTokensByOwner :: "string \<Rightarrow> (string \<times> string) list" where
  "loadTokensByOwner spec = foldl loadStep [] (splitAt (CHR '','') spec)"

section \<open>The user table (cmd/gt-mcp/user_store.go)\<close>

record userRow =
  u_Owner :: string
  u_Token :: string
  u_Tenant :: string
  u_IsAdmin :: bool
  u_CreatedBy :: string
  u_CreatedAt :: time

text \<open>The rows as the program hands them out: never with the token.\<close>

record user =
  usr_Owner :: string
  usr_IsAdmin :: bool
  usr_TenantID :: string
  usr_CreatedBy :: string
  usr_CreatedAt :: time

definition userOf :: "userRow \<Rightarrow> user" where
  "userOf u = \<lparr>usr_Owner = u_Owner u, usr_IsAdmin = u_IsAdmin u, usr_TenantID = u_Tenant u,
     usr_CreatedBy = u_CreatedBy u, usr_CreatedAt = u_CreatedAt u\<rparr>"

definition ownerStart :: "char \<Rightarrow> bool" where
  "ownerStart c \<longleftrightarrow> inRange 97 122 c \<or> inRange 65 90 c \<or> inRange 48 57 c"

definition ownerChar :: "char \<Rightarrow> bool" where
  "ownerChar c \<longleftrightarrow> ownerStart c \<or> c \<in> {CHR ''.'', CHR ''_'', CHR ''-''}"

text \<open>\<open>^[a-zA-Z0-9][a-zA-Z0-9._-]{0,63}$\<close>\<close>

definition validOwnerName :: "string \<Rightarrow> bool" where
  "validOwnerName s =
     (case s of [] \<Rightarrow> False | c # cs \<Rightarrow> ownerStart c \<and> list_all ownerChar cs \<and> length cs \<le> 63)"

text \<open>A stored time has whole seconds (\<open>time.RFC3339\<close>).\<close>

definition rfc3339 :: "time \<Rightarrow> time" where
  "rfc3339 t = t div 1000000000 * 1000000000"

text \<open>\<open>INSERT\<close> under the constraints \<open>PRIMARY KEY (owner)\<close> and \<open>UNIQUE (token)\<close>.\<close>

definition insertUser :: "userRow \<Rightarrow> userRow list \<Rightarrow> userRow list option" where
  "insertUser row us =
     (if list_ex (\<lambda>u. u_Owner u = u_Owner row \<or> u_Token u = u_Token row) us then None
      else Some (us @ [row]))"

datatype userError = InvalidOwner | NoRandom | InsertFailed

text \<open>The random bytes of a new token are an argument, \<open>None\<close> when \<open>crypto/rand\<close> fails.\<close>

definition newUserToken :: "byte list option \<Rightarrow> string option" where
  "newUserToken rnd =
     map_option (\<lambda>bs. ''gt_'' @ concat (map (\<lambda>b. [hex_digit (unat b div 16), hex_digit (unat b mod 16)]) bs)) rnd"

definition createUser ::
  "bool \<Rightarrow> time \<Rightarrow> byte list option \<Rightarrow> string \<Rightarrow> string \<Rightarrow> userRow list \<Rightarrow>
   (userError + (user \<times> string)) \<times> userRow list" where
  "createUser failing now rnd owner createdBy us =
     (if \<not> validOwnerName owner then (Inl InvalidOwner, us)
      else case newUserToken rnd of
        None \<Rightarrow> (Inl NoRandom, us)
      | Some t \<Rightarrow>
          (let row = \<lparr>u_Owner = owner, u_Token = t, u_Tenant = DefaultTenant, u_IsAdmin = False,
                      u_CreatedBy = createdBy, u_CreatedAt = rfc3339 now\<rparr>
           in if failing then (Inl InsertFailed, us)
              else case insertUser row us of
                None \<Rightarrow> (Inl InsertFailed, us)
              | Some us' \<Rightarrow> (Inr (userOf row, t), us')))"

text \<open>A query answers \<open>None\<close> when the database fails.\<close>

definition ownerExists :: "bool \<Rightarrow> string \<Rightarrow> userRow list \<Rightarrow> bool option" where
  "ownerExists failing owner us = (if failing then None else Some (list_ex (\<lambda>u. u_Owner u = owner) us))"

definition tokenByOwner :: "bool \<Rightarrow> string \<Rightarrow> userRow list \<Rightarrow> string option" where
  "tokenByOwner failing owner us =
     (if failing then None
      else Some (case find (\<lambda>u. u_Owner u = owner) us of None \<Rightarrow> [] | Some u \<Rightarrow> u_Token u))"

definition anyToken :: "bool \<Rightarrow> userRow list \<Rightarrow> string option" where
  "anyToken failing us =
     (if failing then None
      else Some (case sort_key u_Owner us of [] \<Rightarrow> [] | u # _ \<Rightarrow> u_Token u))"

definition revoke :: "bool \<Rightarrow> string \<Rightarrow> userRow list \<Rightarrow> bool option \<times> userRow list" where
  "revoke failing owner us =
     (if failing then (None, us)
      else (Some (list_ex (\<lambda>u. u_Owner u = owner) us), filter (\<lambda>u. u_Owner u \<noteq> owner) us))"

definition listUsers :: "bool \<Rightarrow> userRow list \<Rightarrow> user list option" where
  "listUsers failing us = (if failing then None else Some (map userOf (sort_key u_CreatedAt us)))"

section \<open>Resolving a token (pkg/auth/dbresolver.go)\<close>

definition hasUsers :: "bool \<Rightarrow> userRow list \<Rightarrow> bool" where
  "hasUsers failing us \<longleftrightarrow> \<not> failing \<and> us \<noteq> []"

definition dbResolve :: "bool \<Rightarrow> userRow list \<Rightarrow> string \<Rightarrow> authPrincipal option" where
  "dbResolve failing us token =
     (if token = [] \<or> failing then None
      else case find (\<lambda>u. u_Token u = token) us of
        None \<Rightarrow> None
      | Some u \<Rightarrow> Some \<lparr>ap_Owner = u_Owner u, ap_IsAdmin = u_IsAdmin u, ap_Tenant = u_Tenant u, ap_ProbeID = []\<rparr>)"

text \<open>
  A further source is its \<open>Resolve\<close> and, when it has that method, its \<open>Required\<close>. Two flags say
  whether the query of the table and the count of its rows fail.
\<close>

record source =
  src_Resolve :: "string \<Rightarrow> authPrincipal option"
  src_Required :: "bool option"

record firstResolver =
  fr_primary :: "byToken option"
  fr_extra :: "source list"

definition firstRequired :: "bool \<Rightarrow> firstResolver \<Rightarrow> userRow list \<Rightarrow> bool" where
  "firstRequired cntFails r us \<longleftrightarrow>
     staticRequired (fr_primary r) \<or> hasUsers cntFails us \<or> list_ex (\<lambda>x. src_Required x = Some True) (fr_extra r)"

fun firstOf :: "source list \<Rightarrow> string \<Rightarrow> authPrincipal option" where
  "firstOf [] token = None"
| "firstOf (x # xs) token = (case src_Resolve x token of Some p \<Rightarrow> Some p | None \<Rightarrow> firstOf xs token)"

definition envResolve :: "byToken option \<Rightarrow> string \<Rightarrow> authPrincipal option" where
  "envResolve r token = (if staticRequired r then staticResolve r token else None)"

definition firstResolve :: "bool \<Rightarrow> bool \<Rightarrow> firstResolver \<Rightarrow> userRow list \<Rightarrow> string \<Rightarrow> authPrincipal option" where
  "firstResolve qFails cntFails r us token =
     (case envResolve (fr_primary r) token of
        Some p \<Rightarrow> Some p
      | None \<Rightarrow>
          (case dbResolve qFails us token of
             Some p \<Rightarrow> Some p
           | None \<Rightarrow>
               (case firstOf (fr_extra r) token of
                  Some p \<Rightarrow> Some p
                | None \<Rightarrow> if \<not> firstRequired cntFails r us then Some anonymousPrincipal else None)))"

section \<open>The HTTP and gRPC edges (pkg/auth/http.go, interceptor.go)\<close>

datatype admission =
  Unauthorized
| Admitted (adm_owner: string) (adm_admin: bool) (adm_token: string) (adm_principal: authPrincipal)

text \<open>The \<open>Authorization\<close> header is \<open>[]\<close> when absent, and so is the query parameter \<open>token\<close>.\<close>

definition requestToken :: "string \<Rightarrow> string \<Rightarrow> string" where
  "requestToken header query =
     (let token = (case parseBearer header of Some t \<Rightarrow> t | None \<Rightarrow> []) in
      if token = [] then query else token)"

definition middleware :: "(string \<Rightarrow> authPrincipal option) \<Rightarrow> string \<Rightarrow> string \<Rightarrow> admission" where
  "middleware resolve header query =
     (let token = requestToken header query in
      case resolve token of
        None \<Rightarrow> Unauthorized
      | Some p \<Rightarrow> Admitted (ap_Owner p) (ap_IsAdmin p) token p)"

fun firstBearer :: "string list \<Rightarrow> string" where
  "firstBearer [] = []"
| "firstBearer (v # vs) = (case parseBearer v of Some t \<Rightarrow> t | None \<Rightarrow> firstBearer vs)"

text \<open>Metadata is the list of the values of its keys; \<open>None\<close> is a context without any.\<close>

type_synonym metadata = "(string \<times> string list) list"

definition authorizationKey :: string where
  "authorizationKey = ''authorization''"

definition mdGet :: "metadata \<Rightarrow> string \<Rightarrow> string list" where
  "mdGet md k = (case map_of md k of Some vs \<Rightarrow> vs | None \<Rightarrow> [])"

definition principalFromIncoming ::
  "(string \<Rightarrow> authPrincipal option) \<Rightarrow> metadata option \<Rightarrow> authPrincipal option" where
  "principalFromIncoming resolve md =
     resolve (case md of None \<Rightarrow> [] | Some m \<Rightarrow> firstBearer (mdGet m authorizationKey))"

definition attachBearerToken :: "string \<Rightarrow> metadata option \<Rightarrow> metadata option" where
  "attachBearerToken token md =
     (if token = [] then md
      else Some (AList.update authorizationKey [''Bearer '' @ token] (case md of None \<Rightarrow> [] | Some m \<Rightarrow> m)))"

text \<open>
  The authorizer's view of a principal (\<open>cmd/gt-mcp/authz.go\<close>): the empty one when the request
  carries none.
\<close>

definition authzPrincipal :: "authPrincipal option \<Rightarrow> principal" where
  "authzPrincipal ctx =
     (case ctx of
        Some p \<Rightarrow> \<lparr>pr_User = ap_Owner p, pr_Tenant = ap_Tenant p, pr_IsAdmin = ap_IsAdmin p\<rparr>
      | None \<Rightarrow> \<lparr>pr_User = [], pr_Tenant = [], pr_IsAdmin = False\<rparr>)"

section \<open>Self registration and revocation (cmd/gt-mcp/register.go, user_mgmt.go)\<close>

datatype registerReply =
  MethodNotAllowed | Disabled | BadJSON | BadName | ReservedName | ReservedByEnv
| LookupFailed | AlreadyExists | RegisterConflict userError
| Created (cr_owner: string) (cr_token: string)

definition handleRegister ::
  "bool \<Rightarrow> bool \<Rightarrow> time \<Rightarrow> byte list option \<Rightarrow> bool \<Rightarrow> byToken option \<Rightarrow> bool \<Rightarrow> string option \<Rightarrow>
   userRow list \<Rightarrow> registerReply \<times> userRow list" where
  "handleRegister lookupFails insertFails now rnd openRegister env isPost body us =
     (if \<not> isPost then (MethodNotAllowed, us)
      else if \<not> openRegister then (Disabled, us)
      else case body of
        None \<Rightarrow> (BadJSON, us)
      | Some reqName \<Rightarrow>
          (let name = trimSpace reqName in
           if \<not> validOwnerName name then (BadName, us)
           else if name = AnonymousOwner then (ReservedName, us)
           else if hasOwner env name then (ReservedByEnv, us)
           else case ownerExists lookupFails name us of
             None \<Rightarrow> (LookupFailed, us)
           | Some True \<Rightarrow> (AlreadyExists, us)
           | Some False \<Rightarrow>
               (case createUser insertFails now rnd name [] us of
                  (Inl e, us') \<Rightarrow> (RegisterConflict e, us')
                | (Inr (u, t), us') \<Rightarrow> (Created (usr_Owner u) t, us'))))"

datatype revokeReply =
  Forbidden forbidden | OwnerRequired | CannotRevokeSelf | RevokeFailed | UserNotFound
| Revoked string

definition userResource :: resource where
  "userResource = \<lparr>rs_Kind = KindUser, rs_ID = [], rs_TenantID = [], rs_ProjectID = [], rs_CreatorID = []\<rparr>"

text \<open>A resource of the kind user belongs to no project, so the role is \<open>RoleNone\<close>.\<close>

definition canManageUsers :: "authPrincipal option \<Rightarrow> forbidden option" where
  "canManageUsers ctx = decide (authzPrincipal ctx) UserManage userResource RoleNone"

definition handleListUsers ::
  "bool \<Rightarrow> authPrincipal option \<Rightarrow> byToken option \<Rightarrow> userRow list \<Rightarrow>
   forbidden + (user list \<times> string list) option" where
  "handleListUsers failing ctx env us =
     (case canManageUsers ctx of
        Some e \<Rightarrow> Inl e
      | None \<Rightarrow> Inr (map_option (\<lambda>l. (l, owners env)) (listUsers failing us)))"

definition handleRevokeUser ::
  "bool \<Rightarrow> authPrincipal option \<Rightarrow> string \<Rightarrow> userRow list \<Rightarrow> revokeReply \<times> userRow list" where
  "handleRevokeUser failing ctx arg us =
     (case canManageUsers ctx of
        Some e \<Rightarrow> (Forbidden e, us)
      | None \<Rightarrow>
          (let owner = trimSpace arg in
           if owner = [] then (OwnerRequired, us)
           else if owner = pr_User (authzPrincipal ctx) then (CannotRevokeSelf, us)
           else case revoke failing owner us of
             (None, us') \<Rightarrow> (RevokeFailed, us')
           | (Some False, us') \<Rightarrow> (UserNotFound, us')
           | (Some True, us') \<Rightarrow> (Revoked owner, us')))"

definition isKnownUser :: "bool \<Rightarrow> byToken option \<Rightarrow> userRow list \<Rightarrow> string \<Rightarrow> bool" where
  "isKnownUser failing env us user \<longleftrightarrow>
     user \<noteq> [] \<and> (hasOwner env user \<or> ownerExists failing user us = Some True)"

text \<open>The token of an owner: the bootstrap one, else the one of the table (\<open>oauth.go\<close>, \<open>dev_tools.go\<close>).\<close>

definition ownerToken :: "bool \<Rightarrow> (string \<times> string) list \<Rightarrow> userRow list \<Rightarrow> string \<Rightarrow> string option" where
  "ownerToken failing byOwner us owner =
     (case map_of byOwner owner of
        Some (c # cs) \<Rightarrow> Some (c # cs)
      | _ \<Rightarrow>
          (case tokenByOwner failing owner us of
             None \<Rightarrow> None
           | Some t \<Rightarrow> if t \<noteq> [] then Some t else None))"

datatype tokenSource = FromAnonymous | FromEnv | FromUsers

definition callerToken ::
  "bool \<Rightarrow> (string \<times> string) list \<Rightarrow> userRow list \<Rightarrow> authPrincipal option \<Rightarrow> string \<times> tokenSource" where
  "callerToken failing byOwner us ctx =
     (case ctx of
        None \<Rightarrow> ([], FromAnonymous)
      | Some p \<Rightarrow>
          if ap_ProbeID p \<noteq> [] then ([], FromAnonymous)
          else case map_of byOwner (ap_Owner p) of
            Some (c # cs) \<Rightarrow> (c # cs, FromEnv)
          | _ \<Rightarrow>
              (case tokenByOwner failing (ap_Owner p) us of
                 Some (c # cs) \<Rightarrow> (c # cs, FromUsers)
               | _ \<Rightarrow> ([], FromAnonymous)))"

fun serviceLoop :: "byToken option \<Rightarrow> (string \<times> string) list \<Rightarrow> string list \<Rightarrow> string \<Rightarrow> string + string" where
  "serviceLoop env byOwner [] fallback = Inr fallback"
| "serviceLoop env byOwner (o' # os) fallback =
     (case map_of byOwner o' of
        Some (c # cs) \<Rightarrow>
          (let t = c # cs; fallback' = (if fallback = [] then t else fallback) in
           case staticResolve env t of
             Some p \<Rightarrow> if ap_IsAdmin p then Inl t else serviceLoop env byOwner os fallback'
           | None \<Rightarrow> serviceLoop env byOwner os fallback')
      | _ \<Rightarrow> serviceLoop env byOwner os fallback)"

definition serviceToken :: "bool \<Rightarrow> byToken option \<Rightarrow> (string \<times> string) list \<Rightarrow> userRow list \<Rightarrow> string" where
  "serviceToken failing env byOwner us =
     (case serviceLoop env byOwner (sort (map fst byOwner)) [] of
        Inl t \<Rightarrow> t
      | Inr fallback \<Rightarrow>
          if fallback \<noteq> [] then fallback
          else case anyToken failing us of Some t \<Rightarrow> t | None \<Rightarrow> [])"

section \<open>Trimming and cutting\<close>

lemma trimSpace_ends:
  assumes "trimSpace s \<noteq> []"
  shows "\<not> isSpaceChar (hd (trimSpace s))" and "\<not> isSpaceChar (last (trimSpace s))"
proof -
  define t where "t = dropWhile isSpaceChar s"
  have tr: "trimSpace s = rev (dropWhile isSpaceChar (rev t))"
    by (simp add: trimSpace_def t_def)
  have ne: "dropWhile isSpaceChar (rev t) \<noteq> []"
    using assms tr by simp
  then show "\<not> isSpaceChar (last (trimSpace s))"
    using hd_dropWhile [OF ne] by (simp add: tr last_rev)
  have "t \<noteq> []"
    using ne by auto
  then have h: "\<not> isSpaceChar (hd t)"
    unfolding t_def by (rule hd_dropWhile)
  have "t = trimSpace s @ rev (takeWhile isSpaceChar (rev t))"
    using takeWhile_dropWhile_id [of isSpaceChar "rev t"] unfolding tr
    by (metis rev_append rev_rev_ident)
  then have "hd t = hd (trimSpace s)"
    using assms by (metis hd_append2)
  then show "\<not> isSpaceChar (hd (trimSpace s))"
    using h by simp
qed

lemma trimSpace_id:
  assumes "s \<noteq> []" and "\<not> isSpaceChar (hd s)" and "\<not> isSpaceChar (last s)"
  shows "trimSpace s = s"
proof -
  have 1: "dropWhile isSpaceChar s = s"
    using assms(1,2) by (cases s) auto
  have 2: "dropWhile isSpaceChar (rev s) = rev s"
    using assms(1,3) by (cases "rev s") (auto simp: last_rev hd_rev dest: arg_cong [of _ _ rev])
  show ?thesis
    by (simp only: trimSpace_def 1 2 rev_rev_ident)
qed

lemma trimSpace_trim [simp]: "trimSpace (trimSpace s) = trimSpace s"
proof (cases "trimSpace s = []")
  case False
  then show ?thesis
    by (intro trimSpace_id trimSpace_ends)
next
  case True
  then show ?thesis
    by simp (simp add: trimSpace_def)
qed

lemma trimSpace_Nil: "trimSpace s = [] \<longleftrightarrow> list_all isSpaceChar s"
  by (auto simp: trimSpace_def list_all_iff dropWhile_eq_Nil_conv dest: set_dropWhileD)
     (metis UnE set_append takeWhile_dropWhile_id set_takeWhileD)

lemma splitAt_none: "c \<notin> set s \<Longrightarrow> splitAt c s = [s]"
  by (induction s) auto

lemma cutAt_Some: "cutAt c s = Some (l, r) \<longleftrightarrow> s = l @ c # r \<and> c \<notin> set l"
proof
  assume cut: "cutAt c s = Some (l, r)"
  then have c: "c \<in> set s" and l: "l = takeWhile (\<lambda>x. x \<noteq> c) s" and r: "r = tl (dropWhile (\<lambda>x. x \<noteq> c) s)"
    by (auto simp: cutAt_def split: if_splits)
  have ne: "dropWhile (\<lambda>x. x \<noteq> c) s \<noteq> []"
    using c by (auto simp: dropWhile_eq_Nil_conv)
  have "hd (dropWhile (\<lambda>x. x \<noteq> c) s) = c"
    using hd_dropWhile [OF ne] by simp
  then have "dropWhile (\<lambda>x. x \<noteq> c) s = c # r"
    using ne r by (cases "dropWhile (\<lambda>x. x \<noteq> c) s") auto
  then show "s = l @ c # r \<and> c \<notin> set l"
    using l takeWhile_dropWhile_id [of "\<lambda>x. x \<noteq> c" s] by (auto dest: set_takeWhileD)
next
  assume s: "s = l @ c # r \<and> c \<notin> set l"
  then have "\<And>x. x \<in> set l \<Longrightarrow> x \<noteq> c"
    by auto
  then have "takeWhile (\<lambda>x. x \<noteq> c) s = l" "dropWhile (\<lambda>x. x \<noteq> c) s = c # r"
    using s by (simp_all add: takeWhile_append2 dropWhile_append2)
  then show "cutAt c s = Some (l, r)"
    using s by (simp add: cutAt_def)
qed

section \<open>The two readers of the configuration\<close>

text \<open>A segment that the resolver accepts is read alike by both.\<close>

lemma parseSegment_load:
  assumes "parseSegment (trimSpace s) = Inr (owner, token, admin)" and "trimSpace s \<noteq> []"
  shows "loadStep m s = AList.update owner token m" and "owner \<noteq> []" and "token \<noteq> []"
  using assms by (auto simp: parseSegment_def loadStep_def Let_def split: option.splits if_splits prod.splits)

text \<open>The state of both loops after the same segments.\<close>

definition readers_agree :: "byToken \<Rightarrow> (string \<times> string) list \<Rightarrow> (string \<times> string) list \<Rightarrow> bool" where
  "readers_agree m os byOwner \<longleftrightarrow>
     (\<forall>ow t. map_of byOwner ow = Some t \<longleftrightarrow> (\<exists>admin. map_of m t = Some (userPrincipal ow admin))) \<and>
     (\<forall>t p. map_of m t = Some p \<longrightarrow> (\<exists>ow admin. p = userPrincipal ow admin \<and> ow \<noteq> [])) \<and>
     dom (map_of os) = dom (map_of byOwner) \<and> [] \<notin> dom (map_of m)"

lemma userPrincipal_inject [simp]:
  "userPrincipal a b = userPrincipal c d \<longleftrightarrow> a = c \<and> b = d" "ap_Owner (userPrincipal a b) = a"
  "ap_IsAdmin (userPrincipal a b) = b"
  by (simp_all add: userPrincipal_def)

lemma readers_agree_step:
  assumes "readers_agree m os byOwner" and "map_of os owner = None" and "map_of m token = None"
    and "owner \<noteq> []" and "token \<noteq> []"
  shows "readers_agree (AList.update token (userPrincipal owner admin) m) (AList.update owner seg os)
           (AList.update owner token byOwner)"
proof -
  have "map_of byOwner owner = None"
    using assms(1,2) unfolding readers_agree_def by (metis domIff)
  moreover from this have "map_of m t \<noteq> Some (userPrincipal owner a)" for t a
    using assms(1) unfolding readers_agree_def by (metis option.distinct(1))
  ultimately show ?thesis
    using assms unfolding readers_agree_def update_conv' by auto
qed

lemma readers_agree_loop:
  assumes "parseLoop segs m os = Inr m'" and "readers_agree m os byOwner"
  shows "\<exists>os'. readers_agree m' os' (foldl loadStep byOwner segs)"
  using assms
proof (induction segs arbitrary: m os byOwner)
  case (Cons s segs)
  show ?case
  proof (cases "trimSpace s = []")
    case True
    then show ?thesis
      using Cons by (auto simp: loadStep_def)
  next
    case False
    with Cons.prems(1) obtain owner token admin where
      seg: "parseSegment (trimSpace s) = Inr (owner, token, admin)"
      and new: "map_of os owner = None" "map_of m token = None"
      and loop: "parseLoop segs (AList.update token (userPrincipal owner admin) m)
                  (AList.update owner (trimSpace s) os) = Inr m'"
      by (auto simp: Let_def split: sum.splits option.splits)
    note one = parseSegment_load [OF seg False]
    from readers_agree_step [OF Cons.prems(2) new one(2,3)]
    show ?thesis
      using Cons.IH [OF loop] one(1) by simp
  qed
qed auto

lemma readers_agree_parse:
  assumes "parseTokens spec = Inr m"
  shows "\<exists>os. readers_agree m os (loadTokensByOwner spec)"
proof (cases "trimSpace spec = []")
  case True
  then have "CHR '','' \<notin> set spec"
    by (auto simp: trimSpace_Nil list_all_iff isSpaceChar_def inRange_def byteOf_def)
  then show ?thesis
    using assms True
    by (auto simp: parseTokens_def loadTokensByOwner_def splitAt_none loadStep_def readers_agree_def dom_def
        intro!: exI [of _ "[]"])
next
  case False
  then show ?thesis
    using assms readers_agree_loop [of _ "[]" "[]" m "[]"]
    by (simp add: parseTokens_def loadTokensByOwner_def readers_agree_def)
qed

section \<open>A source of identities\<close>

text \<open>
  What the rest of the program relies on: a source resolves tokens to principals and looks up
  the token of an owner, and the two directions are inverse to each other. The client is the
  composition of two sources, first one and then the other, as \<open>FirstResolver\<close> and
  \<open>ownerToken\<close> compose them.
\<close>

locale identity_source =
  fixes ok :: "'s \<Rightarrow> bool"
    and resolve :: "'s \<Rightarrow> string \<Rightarrow> authPrincipal option"
    and tokenOf :: "'s \<Rightarrow> string \<Rightarrow> string option"
  assumes inverse: "ok s \<Longrightarrow> tokenOf s ow = Some t \<longleftrightarrow> (\<exists>p. resolve s t = Some p \<and> ap_Owner p = ow)"
begin

lemma one_owner_per_token: "ok s \<Longrightarrow> tokenOf s a = Some t \<Longrightarrow> tokenOf s b = Some t \<Longrightarrow> a = b"
  using inverse by (metis option.inject)

lemma one_token_per_owner:
  "ok s \<Longrightarrow> resolve s t = Some p \<Longrightarrow> resolve s u = Some q \<Longrightarrow> ap_Owner p = ap_Owner q \<Longrightarrow> t = u"
  using inverse by (metis option.inject)

end

definition orElse :: "'a option \<Rightarrow> 'a option \<Rightarrow> 'a option" where
  "orElse a b = (case a of Some x \<Rightarrow> Some x | None \<Rightarrow> b)"

locale two_sources = fst: identity_source ok resolve tokenOf + snd: identity_source ok' resolve' tokenOf'
  for ok :: "'s \<Rightarrow> bool" and resolve tokenOf and ok' :: "'t \<Rightarrow> bool" and resolve' tokenOf'
begin

lemma composed_inverse:
  assumes "ok s" and "ok' u"
    and owners: "\<And>ow. tokenOf s ow = None \<or> tokenOf' u ow = None"
    and tokens: "\<And>t. resolve s t = None \<or> resolve' u t = None"
  shows "orElse (tokenOf s ow) (tokenOf' u ow) = Some t \<longleftrightarrow>
    (\<exists>p. orElse (resolve s t) (resolve' u t) = Some p \<and> ap_Owner p = ow)"
proof (cases "resolve s t")
  case None
  then have "tokenOf s ow \<noteq> Some t"
    using fst.inverse [OF assms(1)] by simp
  then have "orElse (tokenOf s ow) (tokenOf' u ow) = Some t \<longleftrightarrow> tokenOf' u ow = Some t"
    using owners [of ow] by (auto simp: orElse_def split: option.splits)
  then show ?thesis
    using None snd.inverse [OF assms(2)] by (simp add: orElse_def)
next
  case (Some p)
  then have "resolve' u t = None"
    using tokens [of t] by simp
  then have "tokenOf' u ow \<noteq> Some t"
    using snd.inverse [OF assms(2)] by simp
  then have "orElse (tokenOf s ow) (tokenOf' u ow) = Some t \<longleftrightarrow> tokenOf s ow = Some t"
    by (cases "tokenOf s ow") (auto simp: orElse_def)
  also have "\<dots> \<longleftrightarrow> ap_Owner p = ow"
    using Some fst.inverse [OF assms(1)] by simp
  finally show ?thesis
    using Some by (simp add: orElse_def)
qed

end

text \<open>The bootstrap variable, read both ways.\<close>

definition specOk :: "string \<Rightarrow> bool" where
  "specOk spec = (case parseTokens spec of Inl _ \<Rightarrow> False | Inr _ \<Rightarrow> True)"

definition specTable :: "string \<Rightarrow> byToken" where
  "specTable spec = (case parseTokens spec of Inl _ \<Rightarrow> [] | Inr m \<Rightarrow> m)"

lemma envResolve_map:
  "readers_agree m os byOwner \<Longrightarrow> envResolve (Some m) t = map_of m t"
proof -
  assume agree: "readers_agree m os byOwner"
  show ?thesis
  proof (cases "map_of m t")
    case None
    then show ?thesis
      by (simp add: envResolve_def staticResolve_def)
  next
    case (Some p)
    with agree obtain ow admin where "p = userPrincipal ow admin"
      unfolding readers_agree_def by blast
    moreover have "m \<noteq> []"
      using Some by auto
    ultimately show ?thesis
      using Some by (simp add: envResolve_def staticResolve_def staticRequired_def)
  qed
qed

lemma envResolve_owner:
  assumes "readers_agree m os byOwner"
  shows "map_of byOwner ow = Some t \<longleftrightarrow> (\<exists>p. envResolve (Some m) t = Some p \<and> ap_Owner p = ow)"
proof -
  have "(\<exists>p. map_of m t = Some p \<and> ap_Owner p = ow) \<longleftrightarrow> (\<exists>admin. map_of m t = Some (userPrincipal ow admin))"
    using assms unfolding readers_agree_def by (metis userPrincipal_inject(2))
  then show ?thesis
    using assms envResolve_map [OF assms] unfolding readers_agree_def by metis
qed

interpretation env: identity_source specOk "\<lambda>spec. envResolve (Some (specTable spec))" "\<lambda>spec. map_of (loadTokensByOwner spec)"
proof
  fix s ow t
  assume "specOk s"
  then have "parseTokens s = Inr (specTable s)"
    by (auto simp: specOk_def specTable_def split: sum.splits)
  from readers_agree_parse [OF this] obtain os where "readers_agree (specTable s) os (loadTokensByOwner s)" ..
  from envResolve_owner [OF this]
  show "map_of (loadTokensByOwner s) ow = Some t \<longleftrightarrow>
      (\<exists>p. envResolve (Some (specTable s)) t = Some p \<and> ap_Owner p = ow)" .
qed

text \<open>The table, under its constraints.\<close>

definition users_ok :: "userRow list \<Rightarrow> bool" where
  [inv_defs]: "users_ok us \<longleftrightarrow> distinct (map u_Owner us) \<and> distinct (map u_Token us) \<and> [] \<notin> u_Token ` set us"

definition tableToken :: "userRow list \<Rightarrow> string \<Rightarrow> string option" where
  "tableToken us ow = map_option u_Token (find (\<lambda>u. u_Owner u = ow) us)"

lemma find_key:
  assumes "distinct (map f xs)"
  shows "find (\<lambda>x. f x = k) xs = Some x \<longleftrightarrow> x \<in> set xs \<and> f x = k"
  using assms by (induction xs) (auto simp: image_iff)

interpretation users: identity_source users_ok "dbResolve False" tableToken
proof
  fix us ow t
  assume ok: "users_ok us"
  then have d: "distinct (map u_Owner us)" "distinct (map u_Token us)" "[] \<notin> u_Token ` set us"
    by (auto simp: users_ok_def)
  have "tableToken us ow = Some t \<longleftrightarrow> (\<exists>u \<in> set us. u_Owner u = ow \<and> u_Token u = t)"
    using find_key [OF d(1), of ow] by (auto simp: tableToken_def)
  moreover have "dbResolve False us t = Some p \<longleftrightarrow> (t \<noteq> [] \<and> (\<exists>u. find (\<lambda>u. u_Token u = t) us = Some u \<and>
      p = \<lparr>ap_Owner = u_Owner u, ap_IsAdmin = u_IsAdmin u, ap_Tenant = u_Tenant u, ap_ProbeID = []\<rparr>))" for p
    by (auto simp: dbResolve_def split: option.splits)
  moreover have "t \<noteq> []" if "u \<in> set us" "u_Token u = t" for u
    using d(3) that by (metis image_eqI)
  ultimately show "tableToken us ow = Some t \<longleftrightarrow> (\<exists>p. dbResolve False us t = Some p \<and> ap_Owner p = ow)"
    unfolding find_key [OF d(2), of t] by auto
qed

interpretation ids: two_sources specOk "\<lambda>spec. envResolve (Some (specTable spec))" "\<lambda>spec. map_of (loadTokensByOwner spec)"
  users_ok "dbResolve False" tableToken
  by unfold_locales

section \<open>Registered and bootstrap identities together\<close>

definition ids_ok :: "string \<Rightarrow> userRow list \<Rightarrow> bool" where
  [inv_defs]: "ids_ok spec us \<longleftrightarrow> specOk spec \<and> users_ok us \<and>
     (\<forall>u \<in> set us. u_Owner u \<noteq> AnonymousOwner \<and> map_of (loadTokensByOwner spec) (u_Owner u) = None \<and>
        envResolve (Some (specTable spec)) (u_Token u) = None)"

text \<open>The resolver that \<open>main\<close> builds: the bootstrap table, then the users, nothing more.\<close>

definition mainResolver :: "string \<Rightarrow> firstResolver" where
  "mainResolver spec = \<lparr>fr_primary = Some (specTable spec), fr_extra = []\<rparr>"

lemma parse_specTable: "specOk spec \<Longrightarrow> parseTokens spec = Inr (specTable spec)"
  by (auto simp: specOk_def specTable_def split: sum.splits)

lemma hasOwner_env:
  assumes "specOk spec"
  shows "hasOwner (Some (specTable spec)) ow \<longleftrightarrow> map_of (loadTokensByOwner spec) ow \<noteq> None"
proof -
  define m where "m = specTable spec"
  from readers_agree_parse [OF parse_specTable [OF assms]]
  obtain os where agree: "readers_agree m os (loadTokensByOwner spec)"
    unfolding m_def ..
  have distinct: "distinct (map fst m')"
    if "parseLoop segs m0 os0 = Inr m'" "distinct (map fst m0)" for segs m0 os0 m'
    using that by (induction segs m0 os0 rule: parseLoop.induct)
      (auto simp: Let_def distinct_update split: if_splits sum.splits option.splits)
  have "distinct (map fst m)"
    using parse_specTable [OF assms] distinct [of _ "[]"] unfolding m_def
    by (auto simp: parseTokens_def split: if_splits)
  then have "(t, p) \<in> set m \<longleftrightarrow> map_of m t = Some p" for t p
    by simp
  then have "hasOwner (Some m) ow \<longleftrightarrow> (\<exists>t p. map_of m t = Some p \<and> ap_Owner p = ow)"
    by (auto simp: hasOwner_def list_ex_iff)
  also have "\<dots> \<longleftrightarrow> (\<exists>t. map_of (loadTokensByOwner spec) ow = Some t)"
    using envResolve_owner [OF agree] envResolve_map [OF agree] by simp
  finally show ?thesis
    unfolding m_def by simp
qed

lemma loadTokens_nonempty: "specOk spec \<Longrightarrow> map_of (loadTokensByOwner spec) ow \<noteq> Some []"
  using readers_agree_parse [OF parse_specTable] unfolding readers_agree_def
  by (metis domIff option.distinct(1))

lemma ownerToken_orElse:
  assumes "specOk spec" and "users_ok us"
  shows "ownerToken False (loadTokensByOwner spec) us ow =
    orElse (map_of (loadTokensByOwner spec) ow) (tableToken us ow)"
proof (cases "map_of (loadTokensByOwner spec) ow")
  case None
  have "u_Token u \<noteq> []" if "find (\<lambda>u. u_Owner u = ow) us = Some u" for u
    using that assms(2) by (auto simp: users_ok_def find_Some_iff image_iff) (metis nth_mem)
  then show ?thesis
    using None by (auto simp: ownerToken_def orElse_def tableToken_def tokenByOwner_def split: option.splits)
next
  case (Some t)
  then obtain c cs where "t = c # cs"
    using loadTokens_nonempty [OF assms(1), of ow] by (cases t) auto
  then show ?thesis
    using Some by (simp add: ownerToken_def orElse_def)
qed

lemma mainResolver_orElse:
  assumes "firstRequired cntFails (mainResolver spec) us"
  shows "firstResolve qFails cntFails (mainResolver spec) us t =
    orElse (envResolve (Some (specTable spec)) t) (dbResolve qFails us t)"
  using assms by (auto simp: firstResolve_def mainResolver_def orElse_def split: option.splits)

lemma ids_inverse:
  assumes "ids_ok spec us"
  shows "ownerToken False (loadTokensByOwner spec) us ow = Some t \<longleftrightarrow>
    (\<exists>p. orElse (envResolve (Some (specTable spec)) t) (dbResolve False us t) = Some p \<and> ap_Owner p = ow)"
proof -
  have ok: "specOk spec" "users_ok us"
    and rows: "\<And>u. u \<in> set us \<Longrightarrow> map_of (loadTokensByOwner spec) (u_Owner u) = None \<and>
        envResolve (Some (specTable spec)) (u_Token u) = None"
    using assms by (auto simp: ids_ok_def)
  show ?thesis
    unfolding ownerToken_orElse [OF ok]
  proof (rule ids.composed_inverse [OF ok])
    show "map_of (loadTokensByOwner spec) ow = None \<or> tableToken us ow = None" for ow
      using rows by (auto simp: tableToken_def find_Some_iff)
    show "envResolve (Some (specTable spec)) t = None \<or> dbResolve False us t = None" for t
      using rows by (auto simp: dbResolve_def find_Some_iff split: option.splits)
  qed
qed

text \<open>Registration and revocation keep the two kinds of identity apart.\<close>

lemma insertUser_Some:
  "insertUser row us = Some us' \<longleftrightarrow> us' = us @ [row] \<and> u_Owner row \<notin> u_Owner ` set us \<and> u_Token row \<notin> u_Token ` set us"
  unfolding insertUser_def list_ex_iff image_iff by (auto 0 3 dest: sym)

lemma newUserToken_nonempty: "newUserToken rnd \<noteq> Some []"
  by (auto simp: newUserToken_def)

lemma createUser_cases:
  assumes "createUser failing now rnd owner createdBy us = (r, us')"
  obtains "us' = us" | t row where "newUserToken rnd = Some t" and "u_Owner row = owner" and "u_Token row = t"
    and "us' = us @ [row]" and "owner \<notin> u_Owner ` set us" and "t \<notin> u_Token ` set us" and "r = Inr (userOf row, t)"
proof (cases "us' = us")
  case False
  with assms obtain t where t: "newUserToken rnd = Some t"
    by (auto simp: createUser_def split: if_splits option.splits)
  define row where "row = \<lparr>u_Owner = owner, u_Token = t, u_Tenant = DefaultTenant, u_IsAdmin = False,
    u_CreatedBy = createdBy, u_CreatedAt = rfc3339 now\<rparr>"
  have "r = Inr (userOf row, t) \<and> insertUser row us = Some us'"
    using assms False t unfolding createUser_def Let_def
    by (auto simp flip: row_def split: if_splits option.splits)
  moreover have "u_Owner row = owner" "u_Token row = t"
    by (simp_all add: row_def)
  ultimately show ?thesis
    using that(2) [OF t] by (auto simp: insertUser_Some)
qed (rule that(1))

lemma ids_ok_register:
  assumes "ids_ok spec us"
    and fresh: "\<And>t. newUserToken rnd = Some t \<Longrightarrow> envResolve (Some (specTable spec)) t = None"
  shows "ids_ok spec (snd (handleRegister lf insf now rnd op (Some (specTable spec)) isPost body us))"
proof -
  obtain r us' where h: "handleRegister lf insf now rnd op (Some (specTable spec)) isPost body us = (r, us')"
    by (cases "handleRegister lf insf now rnd op (Some (specTable spec)) isPost body us")
  show ?thesis
  proof (cases "us' = us")
    case False
    with h obtain name r' where new: "name \<noteq> AnonymousOwner" "\<not> hasOwner (Some (specTable spec)) name"
      and c: "createUser insf now rnd name [] us = (r', us')"
      by (auto simp: handleRegister_def Let_def split: if_splits option.splits bool.splits prod.splits sum.splits)
    from c False obtain t row where t: "newUserToken rnd = Some t"
      and "u_Owner row = name" "u_Token row = t" "us' = us @ [row]" "name \<notin> u_Owner ` set us" "t \<notin> u_Token ` set us"
      by (elim createUser_cases) auto
    moreover have "map_of (loadTokensByOwner spec) name = None"
      using new(2) hasOwner_env [of spec name] assms(1) by (auto simp: ids_ok_def)
    ultimately show ?thesis
      using assms(1) fresh [OF t] new(1) newUserToken_nonempty [of rnd] t h
      by (auto simp: ids_ok_def users_ok_def)
  qed (use assms(1) h in simp)
qed

lemma ids_ok_revoke:
  assumes "ids_ok spec us"
  shows "ids_ok spec (snd (handleRevokeUser failing ctx arg us))"
proof -
  have "ids_ok spec (filter P us)" for P
    using assms by (auto simp: ids_ok_def users_ok_def distinct_map_filter)
  then show ?thesis
    using assms by (auto simp: handleRevokeUser_def revoke_def Let_def split: option.splits bool.splits prod.splits)
qed

text \<open>
  What happens to the table while the server runs: self registrations, whose random token is
  assumed not to be a bootstrap token, and revocations.
\<close>

inductive id_run :: "string \<Rightarrow> userRow list \<Rightarrow> userRow list \<Rightarrow> bool" for spec us where
  id_start: "id_run spec us us"
| id_register: "id_run spec us us1 \<Longrightarrow> (\<And>t. newUserToken rnd = Some t \<Longrightarrow> map_of (specTable spec) t = None) \<Longrightarrow>
    id_run spec us (snd (handleRegister lf insf now rnd op (Some (specTable spec)) isPost body us1))"
| id_revoke: "id_run spec us us1 \<Longrightarrow> id_run spec us (snd (handleRevokeUser failing ctx arg us1))"

lemma envResolve_None: "map_of m t = None \<Longrightarrow> envResolve (Some m) t = None"
  by (simp add: envResolve_def staticResolve_def)

lemma id_run_ok: "id_run spec us us' \<Longrightarrow> ids_ok spec us \<Longrightarrow> ids_ok spec us'"
  by (induction rule: id_run.induct) (auto intro!: ids_ok_register ids_ok_revoke envResolve_None)

section \<open>Properties\<close>

text \<open>
  The two readers of the bootstrap variable agree: when \<open>ParseTokens\<close> accepts it, the table
  of \<open>loadTokensByOwner\<close> is exactly the inverse of the resolver's, so no token has two owners, no
  owner two tokens, and the names that \<open>HasOwner\<close> reserves are the ones with a token.
\<close>

theorem env_tokens_inverse:
  assumes "parseTokens spec = Inr m"
  shows "(map_of (loadTokensByOwner spec) ow = Some t) = (\<exists>p. map_of m t = Some p \<and> ap_Owner p = ow) \<and>
    hasOwner (Some m) ow = (map_of (loadTokensByOwner spec) ow \<noteq> None)"
proof -
  have ok: "specOk spec" "specTable spec = m"
    using assms by (simp_all add: specOk_def specTable_def)
  from readers_agree_parse [OF assms] obtain os where agree: "readers_agree m os (loadTokensByOwner spec)" ..
  show ?thesis
    using envResolve_owner [OF agree] envResolve_map [OF agree] hasOwner_env [OF ok(1)] by (simp add: ok(2))
qed

theorem env_tokens_inverse_witness:
  "let spec = ''alice=gt_a:admin, bob = gt_b,'';
       m = [(''gt_a'', userPrincipal ''alice'' True), (''gt_b'', userPrincipal ''bob'' False)]
   in parseTokens spec = Inr m \<and> map_of (loadTokensByOwner spec) ''bob'' = Some ''gt_b'' \<and> hasOwner (Some m) ''bob''"
proof -
  let ?m = "[(''gt_a'', userPrincipal ''alice'' True), (''gt_b'', userPrincipal ''bob'' False)]"
  have p: "parseTokens ''alice=gt_a:admin, bob = gt_b,'' = Inr ?m"
    by code_simp
  from env_tokens_inverse [OF p, of "''bob''" "''gt_b''"] show ?thesis
    using p by (simp add: Let_def)
qed

text \<open>
  (C23) The identities stay consistent while users register and are revoked: names and tokens of
  the table stay disjoint from the bootstrap ones and nobody is registered as \<open>local\<close>; and as
  long as the server is in token mode, the token that \<open>ownerToken\<close> hands out for an owner is
  exactly the one that the resolver accepts as that owner.
\<close>

theorem identities_consistent:
  assumes "id_run spec us us'" and "ids_ok spec us" and "firstRequired False (mainResolver spec) us'"
  shows "ids_ok spec us' \<and>
    (ownerToken False (loadTokensByOwner spec) us' ow = Some t) =
    (\<exists>p. firstResolve False False (mainResolver spec) us' t = Some p \<and> ap_Owner p = ow)"
  using id_run_ok [OF assms(1,2)] ids_inverse [of spec us' ow t] mainResolver_orElse [OF assms(3)] by simp

definition demoSpec :: string where
  "demoSpec = ''alice=gt_a:admin''"

definition demoUsers :: "userRow list" where
  "demoUsers = snd (handleRegister False False 5000000000 (Some [1, 2]) True (Some (specTable demoSpec)) True (Some ''carol'') [])"

lemma demo_specTable: "specOk demoSpec" "specTable demoSpec = [(''gt_a'', userPrincipal ''alice'' True)]"
  by code_simp+

lemma demo_ids:
  "id_run demoSpec [] demoUsers"
  "ids_ok demoSpec []"
  "demoUsers = [\<lparr>u_Owner = ''carol'', u_Token = ''gt_0102'', u_Tenant = DefaultTenant, u_IsAdmin = False,
     u_CreatedBy = [], u_CreatedAt = 5000000000\<rparr>]"
proof -
  have "newUserToken (Some [1, 2]) = Some ''gt_0102''"
    by code_simp
  then show "id_run demoSpec [] demoUsers"
    unfolding demoUsers_def by (intro id_register id_start) (simp add: demo_specTable)
  show "ids_ok demoSpec []"
    by (simp add: ids_ok_def users_ok_def demo_specTable)
  show "demoUsers = [\<lparr>u_Owner = ''carol'', u_Token = ''gt_0102'', u_Tenant = DefaultTenant, u_IsAdmin = False,
     u_CreatedBy = [], u_CreatedAt = 5000000000\<rparr>]"
    by code_simp
qed

theorem identities_consistent_witness:
  "ids_ok demoSpec demoUsers \<and>
   (ownerToken False (loadTokensByOwner demoSpec) demoUsers ''carol'' = Some ''gt_0102'') =
   (\<exists>p. firstResolve False False (mainResolver demoSpec) demoUsers ''gt_0102'' = Some p \<and> ap_Owner p = ''carol'')"
  by (rule identities_consistent [OF demo_ids(1,2)])
    (simp add: firstRequired_def hasUsers_def demo_ids(3))

text \<open>
  (C24) A revocation takes effect at once: on a server with bootstrap tokens, the token of a
  revoked user is refused by the very next request, whatever the database does, and only an
  administrator other than that user revokes it.
\<close>

theorem revoked_token_refused:
  assumes "ids_ok spec us" and "specTable spec \<noteq> []" and "u \<in> set us"
    and "handleRevokeUser False ctx (u_Owner u) us = (Revoked (u_Owner u), us')"
  shows "firstResolve qFails cntFails (mainResolver spec) us' (u_Token u) = None \<and>
    (\<exists>p. ctx = Some p \<and> ap_IsAdmin p \<and> ap_Owner p \<noteq> u_Owner u)"
proof
  have us': "us' = filter (\<lambda>v. u_Owner v \<noteq> u_Owner u) us" and adm: "canManageUsers ctx = None"
    and other: "u_Owner u \<noteq> pr_User (authzPrincipal ctx)"
    using assms(4) by (auto simp: handleRevokeUser_def revoke_def Let_def split: option.splits if_splits bool.splits)
  have "distinct (map u_Token us)"
    using assms(1) by (simp add: ids_ok_def users_ok_def)
  then have "v = u" if "v \<in> set us" "u_Token v = u_Token u" for v
    using that assms(3) by (auto simp: distinct_map inj_on_def)
  then have "find (\<lambda>v. u_Token v = u_Token u) us' = None"
    by (auto simp: us' find_None_iff)
  then have "dbResolve qFails us' (u_Token u) = None"
    by (simp add: dbResolve_def)
  moreover have "envResolve (Some (specTable spec)) (u_Token u) = None"
    using assms(1,3) by (simp add: ids_ok_def)
  moreover have "firstRequired cntFails (mainResolver spec) us'"
    using assms(2) by (simp add: firstRequired_def mainResolver_def staticRequired_def)
  ultimately show "firstResolve qFails cntFails (mainResolver spec) us' (u_Token u) = None"
    by (simp add: mainResolver_orElse orElse_def)
  show "\<exists>p. ctx = Some p \<and> ap_IsAdmin p \<and> ap_Owner p \<noteq> u_Owner u"
    using adm other
    by (cases ctx) (auto simp: canManageUsers_def authzPrincipal_def decide_def userResource_def projectActionRole_def
        split: if_splits)
qed

theorem revoked_token_refused_witness:
  "let u = hd demoUsers in
   firstResolve True True (mainResolver demoSpec) [] (u_Token u) = None"
proof -
  have rev: "handleRevokeUser False (Some (userPrincipal ''alice'' True)) ''carol'' demoUsers = (Revoked ''carol'', [])"
    by code_simp
  have "ids_ok demoSpec demoUsers"
    by (rule id_run_ok [OF demo_ids(1,2)])
  from revoked_token_refused [OF this, of "hd demoUsers" "Some (userPrincipal ''alice'' True)" "[]" True True] rev
  show ?thesis
    by (simp add: demo_specTable demo_ids(3) Let_def)
qed

lemma parseBearer_trimmed:
  assumes "parseBearer v = Some t"
  shows "t \<noteq> []" and "trimSpace t = t"
  using assms by (auto simp: parseBearer_def Let_def split: if_splits option.splits prod.splits)

lemma parseBearer_attached:
  assumes "t \<noteq> []" and "trimSpace t = t"
  shows "parseBearer (''Bearer '' @ t) = Some t"
proof -
  have "\<not> isSpaceChar (last t)"
    using trimSpace_ends(2) [of t] assms by simp
  then have tr: "trimSpace (''Bearer '' @ t) = ''Bearer '' @ t"
    using assms(1) by (intro trimSpace_id) (auto simp: isSpaceChar_def inRange_def byteOf_def)
  have "cutAt (CHR '' '') (''Bearer '' @ t) = Some (''Bearer'', t)"
    by (auto simp: cutAt_Some)
  moreover have "equalFold ''Bearer'' ''bearer''"
    by code_simp
  ultimately show ?thesis
    using assms tr by (simp add: parseBearer_def Let_def)
qed

text \<open>
  An identity crosses the protocols: when a request carries its token in the
  \<open>Authorization\<close> header, the gRPC server that the request is passed on to, through the client
  interceptor, resolves the very token that the HTTP side resolved, whatever the query parameter
  and the metadata hold.
\<close>

theorem token_crosses_protocols:
  assumes "parseBearer header = Some t"
  shows "principalFromIncoming resolve (attachBearerToken (requestToken header query) md) = resolve t \<and>
    middleware resolve header query =
      (case resolve t of None \<Rightarrow> Unauthorized | Some p \<Rightarrow> Admitted (ap_Owner p) (ap_IsAdmin p) t p)"
  using parseBearer_attached [OF parseBearer_trimmed [OF assms]] parseBearer_trimmed [OF assms] assms
  by (simp add: principalFromIncoming_def attachBearerToken_def requestToken_def middleware_def mdGet_def
      update_conv' Let_def)

theorem token_crosses_protocols_witness:
  "principalFromIncoming (staticResolve (Some (specTable demoSpec)))
     (attachBearerToken (requestToken ''bearer  gt_a '' ''gt_x'') (Some [(authorizationKey, [''Bearer gt_y''])])) =
   staticResolve (Some (specTable demoSpec)) ''gt_a''"
proof -
  have "parseBearer ''bearer  gt_a '' = Some ''gt_a''"
    by code_simp
  from token_crosses_protocols [OF this] show ?thesis
    by simp
qed

text \<open>
  A variable that holds nothing but commas is not refused: the table is empty, and with an empty
  user table the server is in anonymous mode, where every token, also a wrong one, is the user
  \<open>local\<close>. The comment on \<open>ParseTokens\<close> promises that a mistake never ends like that.
\<close>

lemma splitAt_seps:
  "list_all (\<lambda>c. c = CHR '','' \<or> isSpaceChar c) s \<Longrightarrow> list_all (list_all isSpaceChar) (splitAt (CHR '','') s)"
  by (induction s) (auto split: list.splits)

theorem only_commas_open_the_server:
  assumes "list_all (\<lambda>c. c = CHR '','' \<or> isSpaceChar c) spec"
  shows "parseTokens spec = Inr [] \<and> firstResolve False False (mainResolver spec) [] t = Some anonymousPrincipal"
proof -
  have skip: "parseLoop segs m os = Inr m" if "list_all (list_all isSpaceChar) segs" for segs m os
    using that by (induction segs) (auto simp: trimSpace_Nil)
  have "parseTokens spec = Inr []"
    using skip [OF splitAt_seps [OF assms]] by (simp add: parseTokens_def)
  then show ?thesis
    by (simp add: firstResolve_def mainResolver_def specTable_def envResolve_def staticRequired_def dbResolve_def
        firstRequired_def hasUsers_def)
qed

theorem only_commas_open_the_server_witness:
  "parseTokens '' , ,'' = Inr [] \<and> firstResolve False False (mainResolver '' , ,'') [] ''x'' = Some anonymousPrincipal"
proof -
  have "list_all (\<lambda>c. c = CHR '','' \<or> isSpaceChar c) '' , ,''"
    by code_simp
  from only_commas_open_the_server [OF this] show ?thesis
    by simp
qed

end
