(* ===== verification/OAuth.thy ===== *)
theory OAuth
  imports Auth_Token
begin

text \<open>
  \<open>cmd/gt-mcp/oauth.go\<close> and \<open>oauth_store.go\<close>: the browser authorization that hands the token of a
  user to an agent. The two tables are lists of rows under their primary keys, an HTTP request is
  what the handlers read of it, a decoded JSON body is \<open>None\<close> when the decoder refuses it, and
  \<open>fault\<close> says which calls of the database fail. Times are stored with whole seconds, and the
  comparisons of the queries are those of the times that the stored texts denote.

  \<open>lib\<close> holds what the handlers use of \<open>net/url\<close> and of \<open>crypto\<close>: parsing a URL, adding query
  parameters to one, and \<open>base64url(sha256(v))\<close>. Nothing is assumed of these functions.
\<close>

section \<open>Requests, replies and tables\<close>

record url =
  url_Scheme :: string
  url_Host :: string
  url_Hostname :: string

record lib =
  lib_Parse :: "string \<Rightarrow> url option"
  lib_AddQuery :: "string \<Rightarrow> (string \<times> string) list \<Rightarrow> string option"
  lib_S256 :: "string \<Rightarrow> string"

record httpRequest =
  rq_Method :: string
  rq_Header :: "string \<Rightarrow> string"
  rq_TLS :: bool
  rq_Host :: string

datatype 'a reply =
  NotFound
| PlainError int string
| OAuthErr int string string
| Redirect string
| IndexPage
| Json int 'a

record oauthClient =
  oc_ClientID :: string
  oc_ClientName :: string
  oc_RedirectURIs :: "string list"
  oc_CreatedAt :: time
  oc_LastUsedAt :: "time option"

record oauthCode =
  cd_Code :: string
  cd_ClientID :: string
  cd_RedirectURI :: string
  cd_CodeChallenge :: string
  cd_Owner :: string
  cd_CreatedAt :: time
  cd_ExpiresAt :: time
  cd_Consumed :: bool

record oauthDB =
  db_users :: "userRow list"
  db_clients :: "oauthClient list"
  db_codes :: "oauthCode list"

record oauthService =
  sv_resolver :: firstResolver
  sv_tokensByOwner :: "(string \<times> string) list"

datatype dbCall =
  CountUsers | ResolveUser | CreateClient | PurgeClients | GetClient | GetClientAgain | TouchClient
| CreateCode | PurgeCodes | GetCode | ConsumeCode | LookupToken

type_synonym faults = "dbCall \<Rightarrow> bool"

definition oauthCodeTTL :: time where
  "oauthCodeTTL = 5 * 60 * 1000000000"

definition oauthClientStaleAfter :: time where
  "oauthClientStaleAfter = 30 * 24 * 3600 * 1000000000"

definition required :: "oauthService \<Rightarrow> faults \<Rightarrow> oauthDB \<Rightarrow> bool" where
  "required sv fault db \<longleftrightarrow> firstRequired (fault CountUsers) (sv_resolver sv) (db_users db)"

section \<open>The stores (oauth_store.go)\<close>

definition createClient :: "faults \<Rightarrow> oauthClient \<Rightarrow> oauthDB \<Rightarrow> oauthDB option" where
  "createClient fault c db =
     (if fault CreateClient \<or> list_ex (\<lambda>d. oc_ClientID d = oc_ClientID c) (db_clients db) then None
      else Some (db\<lparr>db_clients := db_clients db @ [c\<lparr>oc_CreatedAt := rfc3339 (oc_CreatedAt c), oc_LastUsedAt := None\<rparr>]\<rparr>))"

text \<open>\<open>None\<close> is an error, \<open>Some None\<close> no such row.\<close>

definition getClient :: "bool \<Rightarrow> string \<Rightarrow> oauthDB \<Rightarrow> oauthClient option option" where
  "getClient failing clientID db =
     (if failing then None else Some (find (\<lambda>c. oc_ClientID c = clientID) (db_clients db)))"

definition touchLastUsed :: "faults \<Rightarrow> time \<Rightarrow> string \<Rightarrow> oauthDB \<Rightarrow> oauthDB" where
  "touchLastUsed fault now clientID db =
     (if fault TouchClient then db
      else db\<lparr>db_clients := map (\<lambda>c. if oc_ClientID c = clientID then c\<lparr>oc_LastUsedAt := Some (rfc3339 now)\<rparr> else c) (db_clients db)\<rparr>)"

definition purgeStale :: "faults \<Rightarrow> time \<Rightarrow> oauthDB \<Rightarrow> oauthDB" where
  "purgeStale fault notUsedSince db =
     (if fault PurgeClients then db
      else db\<lparr>db_clients := filter (\<lambda>c. \<not> (oc_CreatedAt c < rfc3339 notUsedSince \<and> oc_LastUsedAt c = None)) (db_clients db)\<rparr>)"

text \<open>
  \<open>Create\<close> of a code: the insertion, and the removal of the codes that expired a day ago. The
  answer is false on an error; when only the removal fails the row is there all the same.
\<close>

definition insertCode :: "faults \<Rightarrow> oauthCode \<Rightarrow> oauthDB \<Rightarrow> oauthDB option" where
  "insertCode fault c db =
     (if fault CreateCode \<or> list_ex (\<lambda>d. cd_Code d = cd_Code c) (db_codes db) then None
      else Some (db\<lparr>db_codes := db_codes db @
        [c\<lparr>cd_CreatedAt := rfc3339 (cd_CreatedAt c), cd_ExpiresAt := rfc3339 (cd_ExpiresAt c), cd_Consumed := False\<rparr>]\<rparr>))"

definition createCode :: "faults \<Rightarrow> time \<Rightarrow> oauthCode \<Rightarrow> oauthDB \<Rightarrow> bool \<times> oauthDB" where
  "createCode fault now c db =
     (case insertCode fault c db of
        None \<Rightarrow> (False, db)
      | Some db1 \<Rightarrow>
          if fault PurgeCodes then (False, db1)
          else (True, db1\<lparr>db_codes :=
            filter (\<lambda>d. \<not> cd_ExpiresAt d < rfc3339 (now - 24 * 3600 * 1000000000)) (db_codes db1)\<rparr>))"

definition getCode :: "faults \<Rightarrow> string \<Rightarrow> oauthDB \<Rightarrow> oauthCode option option" where
  "getCode fault code db =
     (if fault GetCode then None else Some (find (\<lambda>c. cd_Code c = code) (db_codes db)))"

text \<open>\<open>UPDATE \<dots> SET consumed=1 WHERE code=? AND consumed=0\<close>, and the number of rows it met.\<close>

definition consumeCode :: "faults \<Rightarrow> string \<Rightarrow> oauthDB \<Rightarrow> bool option \<times> oauthDB" where
  "consumeCode fault code db =
     (if fault ConsumeCode then (None, db)
      else (Some (length (filter (\<lambda>c. cd_Code c = code \<and> \<not> cd_Consumed c) (db_codes db)) = 1),
            db\<lparr>db_codes := map (\<lambda>c. if cd_Code c = code \<and> \<not> cd_Consumed c then c\<lparr>cd_Consumed := True\<rparr> else c) (db_codes db)\<rparr>))"

section \<open>Checks (oauth.go)\<close>

text \<open>The first segment of a forwarding header; an absent or blank one changes nothing.\<close>

definition firstSegment :: "string \<Rightarrow> string" where
  "firstSegment h = trimSpace (case cutAt (CHR '','') h of Some (l, _) \<Rightarrow> l | None \<Rightarrow> h)"

definition externalBaseURL :: "httpRequest \<Rightarrow> string" where
  "externalBaseURL r =
     (let proto = rq_Header r ''X-Forwarded-Proto'';
          fh = rq_Header r ''X-Forwarded-Host'';
          scheme = (if proto \<noteq> [] then (if firstSegment proto \<noteq> [] then firstSegment proto else ''http'')
                    else if rq_TLS r then ''https'' else ''http'');
          host = (if fh \<noteq> [] \<and> firstSegment fh \<noteq> [] then firstSegment fh else rq_Host r)
      in scheme @ ''://'' @ host)"

definition validRedirectURI :: "lib \<Rightarrow> string \<Rightarrow> bool" where
  "validRedirectURI L raw =
     (case lib_Parse L raw of
        None \<Rightarrow> False
      | Some u \<Rightarrow>
          if url_Scheme u = ''https'' then url_Host u \<noteq> []
          else if url_Scheme u = ''http'' then url_Hostname u \<in> {''localhost'', ''127.0.0.1'', ''::1''}
          else False)"

definition alphanumeric :: "char \<Rightarrow> bool" where
  "alphanumeric c \<longleftrightarrow> inRange 65 90 c \<or> inRange 97 122 c \<or> inRange 48 57 c"

definition pkceS256Match :: "lib \<Rightarrow> string \<Rightarrow> string \<Rightarrow> bool" where
  "pkceS256Match L verifier challenge \<longleftrightarrow>
     \<not> (length verifier < 43 \<or> 128 < length verifier) \<and>
     list_all (\<lambda>c. alphanumeric c \<or> c \<in> {CHR ''-'', CHR ''.'', CHR ''_'', CHR ''~''}) verifier \<and>
     lib_S256 L verifier = challenge"

definition validCodeChallenge :: "string \<Rightarrow> bool" where
  "validCodeChallenge s \<longleftrightarrow>
     \<not> (length s < 43 \<or> 128 < length s) \<and> list_all (\<lambda>c. alphanumeric c \<or> c \<in> {CHR ''-'', CHR ''_''}) s"

definition controlRune :: "string \<Rightarrow> bool" where
  "controlRune r = (case r of [c] \<Rightarrow> byteOf c < 0x20 \<or> byteOf c = 0x7f | _ \<Rightarrow> False)"

definition sanitizeClientName :: "string \<Rightarrow> string" where
  "sanitizeClientName name =
     (let out = concat (filter (\<lambda>r. \<not> controlRune r) (runes (trimSpace name))) in
      if 128 < length out then take 128 out else out)"

definition bearerPrincipal :: "oauthService \<Rightarrow> faults \<Rightarrow> httpRequest \<Rightarrow> oauthDB \<Rightarrow> authPrincipal option" where
  "bearerPrincipal sv fault r db =
     (case cutAt (CHR '' '') (trimSpace (rq_Header r ''Authorization'')) of
        None \<Rightarrow> None
      | Some (scheme, rest) \<Rightarrow>
          if \<not> equalFold scheme ''bearer'' then None
          else
            (let token = trimSpace rest in
             if token = [] then None
             else case firstResolve (fault ResolveUser) (fault CountUsers) (sv_resolver sv) (db_users db) token of
               None \<Rightarrow> None
             | Some p \<Rightarrow> if ap_ProbeID p \<noteq> [] then None else Some p))"

record authorizeParams =
  az_ClientID :: string
  az_RedirectURI :: string
  az_CodeChallenge :: string
  az_Method :: string
  az_State :: string

record authorizeError =
  ae_fatal :: bool
  ae_code :: string
  ae_desc :: string

text \<open>The values of a query: \<open>[]\<close> for a missing key, as \<open>url.Values.Get\<close>.\<close>

definition validateAuthorizeRequest ::
  "faults \<Rightarrow> (string \<Rightarrow> string) \<Rightarrow> oauthDB \<Rightarrow> authorizeParams option \<times> authorizeError option" where
  "validateAuthorizeRequest fault q db =
     (let p = \<lparr>az_ClientID = q ''client_id'', az_RedirectURI = q ''redirect_uri'', az_CodeChallenge = q ''code_challenge'',
               az_Method = q ''code_challenge_method'', az_State = q ''state''\<rparr>;
          fatal = (\<lambda>code desc. (None, Some \<lparr>ae_fatal = True, ae_code = code, ae_desc = desc\<rparr>));
          soft = (\<lambda>code desc. (Some p, Some \<lparr>ae_fatal = False, ae_code = code, ae_desc = desc\<rparr>))
      in case getClient (fault GetClient) (az_ClientID p) db of
        None \<Rightarrow> fatal ''invalid_client'' ''client lookup failed''
      | Some None \<Rightarrow> fatal ''invalid_client'' ''unknown client_id''
      | Some (Some client) \<Rightarrow>
          if az_RedirectURI p \<notin> set (oc_RedirectURIs client) then
            fatal ''invalid_request'' ''redirect_uri not registered for this client''
          else if q ''response_type'' \<noteq> [] \<and> q ''response_type'' \<noteq> ''code'' then
            soft ''unsupported_response_type'' ''only response_type=code is supported''
          else if az_CodeChallenge p = [] then
            soft ''invalid_request'' ''code_challenge is required (PKCE mandatory)''
          else if az_Method p \<noteq> ''S256'' then
            soft ''invalid_request'' ''code_challenge_method must be S256''
          else if \<not> validCodeChallenge (az_CodeChallenge p) then
            soft ''invalid_request'' ''code_challenge must be 43-128 base64url characters''
          else (Some p, None))"

definition redirectWithError :: "lib \<Rightarrow> authorizeParams \<Rightarrow> string \<Rightarrow> string \<Rightarrow> 'a reply" where
  "redirectWithError L p code desc =
     (case lib_AddQuery L (az_RedirectURI p)
        ([(''error'', code), (''error_description'', desc)] @ (if az_State p \<noteq> [] then [(''state'', az_State p)] else [])) of
        None \<Rightarrow> PlainError 400 ''invalid redirect_uri''
      | Some location \<Rightarrow> Redirect location)"

section \<open>The endpoints\<close>

definition handleProtectedResource ::
  "oauthService \<Rightarrow> faults \<Rightarrow> httpRequest \<Rightarrow> oauthDB \<Rightarrow> (string \<times> string list) list reply" where
  "handleProtectedResource sv fault r db =
     (if \<not> required sv fault db then NotFound
      else Json 200 [(''resource'', [externalBaseURL r]), (''authorization_servers'', [externalBaseURL r])])"

definition handleAuthServerMetadata ::
  "oauthService \<Rightarrow> faults \<Rightarrow> httpRequest \<Rightarrow> oauthDB \<Rightarrow> (string \<times> string list) list reply" where
  "handleAuthServerMetadata sv fault r db =
     (if \<not> required sv fault db then NotFound
      else
        (let base = externalBaseURL r in
         Json 200
          [(''issuer'', [base]),
           (''authorization_endpoint'', [base @ ''/oauth/authorize'']),
           (''token_endpoint'', [base @ ''/oauth/token'']),
           (''registration_endpoint'', [base @ ''/oauth/register'']),
           (''response_types_supported'', [''code'']),
           (''grant_types_supported'', [''authorization_code'']),
           (''code_challenge_methods_supported'', [''S256'']),
           (''token_endpoint_auth_methods_supported'', [''none''])]))"

record clientRegisterRequest =
  cr_ClientName :: string
  cr_RedirectURIs :: "string list"
  cr_TokenEndpointAuthMethod :: string
  cr_GrantTypes :: "string list"
  cr_ResponseTypes :: "string list"

record clientRegisterResponse =
  cp_ClientID :: string
  cp_ClientIDIssuedAt :: int
  cp_ClientName :: string
  cp_RedirectURIs :: "string list"
  cp_TokenEndpointAuthMethod :: string
  cp_GrantTypes :: "string list"
  cp_ResponseTypes :: "string list"

text \<open>The checks on the decoded request, in the order of the handler.\<close>

definition registerProblem :: "lib \<Rightarrow> clientRegisterRequest \<Rightarrow> (string \<times> string) option" where
  "registerProblem L req =
     (if cr_RedirectURIs req = [] then Some (''invalid_redirect_uri'', ''redirect_uris is required'')
      else if list_ex (\<lambda>u. \<not> validRedirectURI L u) (cr_RedirectURIs req) then
        Some (''invalid_redirect_uri'', ''http redirect only on loopback (localhost/127.0.0.1/[::1]); https allowed anywhere'')
      else if cr_TokenEndpointAuthMethod req \<noteq> [] \<and> cr_TokenEndpointAuthMethod req \<noteq> ''none'' then
        Some (''invalid_client_metadata'', ''only token_endpoint_auth_method=none is supported'')
      else if 0 < length (cr_GrantTypes req) \<and>
              \<not> (length (cr_GrantTypes req) = 1 \<and> cr_GrantTypes req ! 0 = ''authorization_code'') then
        Some (''invalid_client_metadata'', ''only grant_types=[authorization_code] is supported'')
      else if 0 < length (cr_ResponseTypes req) \<and>
              \<not> (length (cr_ResponseTypes req) = 1 \<and> cr_ResponseTypes req ! 0 = ''code'') then
        Some (''invalid_client_metadata'', ''only response_types=[code] is supported'')
      else None)"

definition handleClientRegister ::
  "lib \<Rightarrow> oauthService \<Rightarrow> faults \<Rightarrow> time \<Rightarrow> string \<Rightarrow> httpRequest \<Rightarrow> clientRegisterRequest option \<Rightarrow> oauthDB \<Rightarrow>
   clientRegisterResponse reply \<times> oauthDB" where
  "handleClientRegister L sv fault now secret r body db =
     (if \<not> required sv fault db then (NotFound, db)
      else if rq_Method r \<noteq> ''POST'' then (PlainError 405 ''method not allowed'', db)
      else case body of
        None \<Rightarrow> (OAuthErr 400 ''invalid_client_metadata'' ''invalid JSON body'', db)
      | Some req \<Rightarrow>
          (case registerProblem L req of
             Some (code, desc) \<Rightarrow> (OAuthErr 400 code desc, db)
           | None \<Rightarrow>
               (let rec = \<lparr>oc_ClientID = secret, oc_ClientName = sanitizeClientName (cr_ClientName req),
                           oc_RedirectURIs = cr_RedirectURIs req, oc_CreatedAt = now, oc_LastUsedAt = None\<rparr>
                in case createClient fault rec db of
                  None \<Rightarrow> (OAuthErr 500 ''server_error'' ''persist client failed'', db)
                | Some db1 \<Rightarrow>
                    (Json 201 \<lparr>cp_ClientID = secret, cp_ClientIDIssuedAt = now div 1000000000,
                       cp_ClientName = oc_ClientName rec, cp_RedirectURIs = oc_RedirectURIs rec,
                       cp_TokenEndpointAuthMethod = ''none'', cp_GrantTypes = [''authorization_code''],
                       cp_ResponseTypes = [''code'']\<rparr>,
                     purgeStale fault (now - oauthClientStaleAfter) db1))))"

definition handleAuthorize ::
  "lib \<Rightarrow> oauthService \<Rightarrow> faults \<Rightarrow> httpRequest \<Rightarrow> (string \<Rightarrow> string) \<Rightarrow> oauthDB \<Rightarrow> unit reply" where
  "handleAuthorize L sv fault r q db =
     (if \<not> required sv fault db then NotFound
      else if rq_Method r \<noteq> ''GET'' then PlainError 405 ''method not allowed''
      else case validateAuthorizeRequest fault q db of
        (p, Some e) \<Rightarrow> if ae_fatal e then PlainError 400 (ae_desc e) else redirectWithError L (the p) (ae_code e) (ae_desc e)
      | (p, None) \<Rightarrow> IndexPage)"

record authorizeInfoResponse =
  ai_ClientID :: string
  ai_ClientName :: string
  ai_Owner :: string
  ai_IsAdmin :: bool

definition handleAuthorizeInfo ::
  "oauthService \<Rightarrow> faults \<Rightarrow> httpRequest \<Rightarrow> (string \<Rightarrow> string) \<Rightarrow> oauthDB \<Rightarrow> authorizeInfoResponse reply" where
  "handleAuthorizeInfo sv fault r q db =
     (if \<not> required sv fault db then NotFound
      else if rq_Method r \<noteq> ''GET'' then PlainError 405 ''method not allowed''
      else case validateAuthorizeRequest fault q db of
        (_, Some e) \<Rightarrow> OAuthErr 400 (ae_code e) (ae_desc e)
      | (None, None) \<Rightarrow> OAuthErr 400 ''invalid_request'' ''invalid authorize request''
      | (Some p, None) \<Rightarrow>
          (case getClient (fault GetClientAgain) (az_ClientID p) db of
             Some (Some client) \<Rightarrow>
               Json 200 (case bearerPrincipal sv fault r db of
                  None \<Rightarrow> \<lparr>ai_ClientID = oc_ClientID client, ai_ClientName = oc_ClientName client, ai_Owner = [], ai_IsAdmin = False\<rparr>
                | Some pr \<Rightarrow> \<lparr>ai_ClientID = oc_ClientID client, ai_ClientName = oc_ClientName client,
                     ai_Owner = ap_Owner pr, ai_IsAdmin = ap_IsAdmin pr\<rparr>)
           | _ \<Rightarrow> OAuthErr 400 ''invalid_client'' ''unknown client_id''))"

record approveRequest =
  aq_Action :: string
  aq_ClientID :: string
  aq_RedirectURI :: string
  aq_CodeChallenge :: string
  aq_CodeChallengeMethod :: string
  aq_State :: string

record approveResponse =
  ar_Code :: string
  ar_RedirectURI :: string
  ar_State :: string
  ar_Error :: string
  ar_ErrorDescription :: string

definition approveQuery :: "approveRequest \<Rightarrow> string \<Rightarrow> string" where
  "approveQuery req =
     (\<lambda>k. case map_of [(''client_id'', aq_ClientID req), (''redirect_uri'', aq_RedirectURI req),
                       (''code_challenge'', aq_CodeChallenge req), (''code_challenge_method'', aq_CodeChallengeMethod req),
                       (''state'', aq_State req)] k of Some v \<Rightarrow> v | None \<Rightarrow> [])"

text \<open>
  \<open>handleApprove\<close> in the two parts that other requests can come between: everything up to the
  decision, which only reads, and the storing of the code.
\<close>

definition approveCheck ::
  "oauthService \<Rightarrow> faults \<Rightarrow> httpRequest \<Rightarrow> approveRequest option \<Rightarrow> oauthDB \<Rightarrow>
   approveResponse reply + (authPrincipal \<times> authorizeParams)" where
  "approveCheck sv fault r body db =
     (if \<not> required sv fault db then Inl NotFound
      else if rq_Method r \<noteq> ''POST'' then Inl (PlainError 405 ''method not allowed'')
      else if take 16 (rq_Header r ''Content-Type'') \<noteq> ''application/json'' then
        Inl (OAuthErr 415 ''invalid_request'' ''Content-Type must be application/json'')
      else case bearerPrincipal sv fault r db of
        None \<Rightarrow> Inl (OAuthErr 401 ''invalid_token'' ''valid user Bearer token required'')
      | Some pr \<Rightarrow>
          (case body of
             None \<Rightarrow> Inl (OAuthErr 400 ''invalid_request'' ''invalid JSON body'')
           | Some req \<Rightarrow>
               if aq_Action req \<noteq> ''approve'' \<and> aq_Action req \<noteq> ''deny'' then
                 Inl (OAuthErr 400 ''invalid_request'' ''action must be approve or deny'')
               else case validateAuthorizeRequest fault (approveQuery req) db of
                 (_, Some e) \<Rightarrow> Inl (OAuthErr 400 (ae_code e) (ae_desc e))
               | (None, None) \<Rightarrow> Inl (OAuthErr 400 ''invalid_request'' ''invalid authorize request'')
               | (Some p, None) \<Rightarrow>
                   if aq_Action req = ''deny'' then
                     Inl (Json 200 \<lparr>ar_Code = [], ar_RedirectURI = az_RedirectURI p, ar_State = az_State p,
                       ar_Error = ''access_denied'', ar_ErrorDescription = ''denied by the user''\<rparr>)
                   else Inr (pr, p)))"

definition approvedCode :: "time \<Rightarrow> string \<Rightarrow> authPrincipal \<Rightarrow> authorizeParams \<Rightarrow> oauthCode" where
  "approvedCode now secret pr p =
     \<lparr>cd_Code = secret, cd_ClientID = az_ClientID p, cd_RedirectURI = az_RedirectURI p,
      cd_CodeChallenge = az_CodeChallenge p, cd_Owner = ap_Owner pr, cd_CreatedAt = now,
      cd_ExpiresAt = now + oauthCodeTTL, cd_Consumed = False\<rparr>"

definition approveCommit ::
  "faults \<Rightarrow> time \<Rightarrow> string \<Rightarrow> authPrincipal \<Rightarrow> authorizeParams \<Rightarrow> oauthDB \<Rightarrow> approveResponse reply \<times> oauthDB" where
  "approveCommit fault now secret pr p db =
     (case createCode fault now (approvedCode now secret pr p) db of
        (False, db1) \<Rightarrow> (OAuthErr 500 ''server_error'' ''persist code failed'', db1)
      | (True, db1) \<Rightarrow>
          (Json 200 \<lparr>ar_Code = secret, ar_RedirectURI = az_RedirectURI p, ar_State = az_State p, ar_Error = [], ar_ErrorDescription = []\<rparr>,
           touchLastUsed fault now (az_ClientID p) db1))"

definition handleApprove ::
  "oauthService \<Rightarrow> faults \<Rightarrow> time \<Rightarrow> string \<Rightarrow> httpRequest \<Rightarrow> approveRequest option \<Rightarrow> oauthDB \<Rightarrow>
   approveResponse reply \<times> oauthDB" where
  "handleApprove sv fault now secret r body db =
     (case approveCheck sv fault r body db of
        Inl reply \<Rightarrow> (reply, db)
      | Inr (pr, p) \<Rightarrow> approveCommit fault now secret pr p db)"

record tokenRequest =
  tq_GrantType :: string
  tq_Code :: string
  tq_CodeVerifier :: string
  tq_ClientID :: string
  tq_RedirectURI :: string
  tq_Resource :: string

text \<open>Both encodings: the decoded JSON body, or the parsed form.\<close>

definition parseTokenRequest ::
  "httpRequest \<Rightarrow> tokenRequest option \<Rightarrow> (string \<Rightarrow> string) option \<Rightarrow> tokenRequest option" where
  "parseTokenRequest r json form =
     (if take 16 (rq_Header r ''Content-Type'') = ''application/json'' then json
      else map_option (\<lambda>f. \<lparr>tq_GrantType = f ''grant_type'', tq_Code = f ''code'', tq_CodeVerifier = f ''code_verifier'',
             tq_ClientID = f ''client_id'', tq_RedirectURI = f ''redirect_uri'', tq_Resource = f ''resource''\<rparr>) form)"

text \<open>
  \<open>handleToken\<close> in its three parts: the checks, which end with the row that was read, the
  consumption of the code, and the look-up of the owner's token.
\<close>

definition tokenCheck ::
  "lib \<Rightarrow> oauthService \<Rightarrow> faults \<Rightarrow> time \<Rightarrow> httpRequest \<Rightarrow> tokenRequest option \<Rightarrow> (string \<Rightarrow> string) option \<Rightarrow> oauthDB \<Rightarrow>
   string reply + (tokenRequest \<times> oauthCode)" where
  "tokenCheck L sv fault now r json form db =
     (if \<not> required sv fault db then Inl NotFound
      else if rq_Method r \<noteq> ''POST'' then Inl (PlainError 405 ''method not allowed'')
      else case parseTokenRequest r json form of
        None \<Rightarrow> Inl (OAuthErr 400 ''invalid_request'' ''malformed request body'')
      | Some req \<Rightarrow>
          if tq_GrantType req \<noteq> ''authorization_code'' then
            Inl (OAuthErr 400 ''unsupported_grant_type'' ''only authorization_code is supported (tokens are long-lived, no refresh needed)'')
          else if tq_Code req = [] \<or> tq_ClientID req = [] then
            Inl (OAuthErr 400 ''invalid_request'' ''code and client_id are required'')
          else if tq_Resource req \<noteq> [] \<and> tq_Resource req \<noteq> externalBaseURL r then
            Inl (OAuthErr 400 ''invalid_target'' ''resource does not match this server'')
          else case getCode fault (tq_Code req) db of
            None \<Rightarrow> Inl (OAuthErr 400 ''invalid_grant'' ''invalid code'')
          | Some None \<Rightarrow> Inl (OAuthErr 400 ''invalid_grant'' ''invalid code'')
          | Some (Some rec) \<Rightarrow>
              if cd_ExpiresAt rec < now then Inl (OAuthErr 400 ''invalid_grant'' ''code expired'')
              else if cd_ClientID rec \<noteq> tq_ClientID req then Inl (OAuthErr 400 ''invalid_client'' ''client_id mismatch'')
              else if cd_RedirectURI rec \<noteq> tq_RedirectURI req then Inl (OAuthErr 400 ''invalid_grant'' ''redirect_uri mismatch'')
              else if \<not> pkceS256Match L (tq_CodeVerifier req) (cd_CodeChallenge rec) then
                Inl (OAuthErr 400 ''invalid_grant'' ''PKCE verification failed'')
              else Inr (req, rec))"

definition tokenFinish :: "oauthService \<Rightarrow> faults \<Rightarrow> oauthCode \<Rightarrow> oauthDB \<Rightarrow> string reply" where
  "tokenFinish sv fault rec db =
     (case ownerToken (fault LookupToken) (sv_tokensByOwner sv) (db_users db) (cd_Owner rec) of
        None \<Rightarrow> OAuthErr 400 ''invalid_grant'' ''user no longer exists''
      | Some token \<Rightarrow> Json 200 token)"

definition handleToken ::
  "lib \<Rightarrow> oauthService \<Rightarrow> faults \<Rightarrow> time \<Rightarrow> httpRequest \<Rightarrow> tokenRequest option \<Rightarrow> (string \<Rightarrow> string) option \<Rightarrow> oauthDB \<Rightarrow>
   string reply \<times> oauthDB" where
  "handleToken L sv fault now r json form db =
     (case tokenCheck L sv fault now r json form db of
        Inl reply \<Rightarrow> (reply, db)
      | Inr (req, rec) \<Rightarrow>
          (case consumeCode fault (tq_Code req) db of
             (Some True, db1) \<Rightarrow> (tokenFinish sv fault rec db1, db1)
           | (_, db1) \<Rightarrow> (OAuthErr 400 ''invalid_grant'' ''code already used'', db1)))"

section \<open>Interleaved requests\<close>

text \<open>
  Requests run side by side: \<open>fl_approving\<close> are the approvals that have passed their checks,
  \<open>fl_checked\<close> the exchanges that have, each with the time of the check, and \<open>fl_consumed\<close> the
  ones that consumed their code and have not looked up the token. \<open>fl_approved\<close> and \<open>fl_issued\<close>
  are the history: the codes stored, with the approving principal and the time, and the tokens
  handed out.
\<close>

record approval =
  av_code :: string
  av_principal :: authPrincipal
  av_params :: authorizeParams
  av_time :: time

record exchange =
  xc_time :: time
  xc_req :: tokenRequest
  xc_rec :: oauthCode

record flow =
  fl_db :: oauthDB
  fl_approving :: "(authPrincipal \<times> authorizeParams) list"
  fl_checked :: "exchange list"
  fl_consumed :: "exchange list"
  fl_approved :: "approval list"
  fl_issued :: "(exchange \<times> string) list"

definition flowStart :: "oauthDB \<Rightarrow> flow" where
  "flowStart db = \<lparr>fl_db = db, fl_approving = [], fl_checked = [], fl_consumed = [], fl_approved = [], fl_issued = []\<rparr>"

text \<open>A code counts as approved when its row was stored, also when the reply is an error.\<close>

definition commitApproval ::
  "faults \<Rightarrow> time \<Rightarrow> string \<Rightarrow> authPrincipal \<times> authorizeParams \<Rightarrow> flow \<Rightarrow> flow" where
  "commitApproval fault now secret a fl =
     fl\<lparr>fl_db := snd (approveCommit fault now secret (fst a) (snd a) (fl_db fl)),
        fl_approving := remove1 a (fl_approving fl),
        fl_approved := (if insertCode fault (approvedCode now secret (fst a) (snd a)) (fl_db fl) = None then fl_approved fl
                        else fl_approved fl @ [\<lparr>av_code = secret, av_principal = fst a, av_params = snd a, av_time = now\<rparr>])\<rparr>"

definition consumeStep :: "faults \<Rightarrow> exchange \<Rightarrow> flow \<Rightarrow> flow" where
  "consumeStep fault x fl =
     (case consumeCode fault (tq_Code (xc_req x)) (fl_db fl) of
        (ok, db1) \<Rightarrow>
          fl\<lparr>fl_db := db1, fl_checked := remove1 x (fl_checked fl),
             fl_consumed := (if ok = Some True then fl_consumed fl @ [x] else fl_consumed fl)\<rparr>)"

definition finishStep :: "oauthService \<Rightarrow> faults \<Rightarrow> exchange \<Rightarrow> flow \<Rightarrow> flow" where
  "finishStep sv fault x fl =
     fl\<lparr>fl_consumed := remove1 x (fl_consumed fl),
        fl_issued := (case tokenFinish sv fault (xc_rec x) (fl_db fl) of
                        Json _ token \<Rightarrow> fl_issued fl @ [(x, token)]
                      | _ \<Rightarrow> fl_issued fl)\<rparr>"

text \<open>
  One step of one request; whatever else is going on, users may come and go and clients may be
  registered. The secret of a new code is any string.
\<close>

inductive oauth_step :: "lib \<Rightarrow> oauthService \<Rightarrow> flow \<Rightarrow> flow \<Rightarrow> bool" for L sv where
  fs_users: "oauth_step L sv fl (fl\<lparr>fl_db := (fl_db fl)\<lparr>db_users := us\<rparr>\<rparr>)"
| fs_client: "oauth_step L sv fl (fl\<lparr>fl_db := snd (handleClientRegister L sv fault now secret r body (fl_db fl))\<rparr>)"
| fs_approve: "approveCheck sv fault r body (fl_db fl) = Inr a \<Longrightarrow>
    oauth_step L sv fl (fl\<lparr>fl_approving := a # fl_approving fl\<rparr>)"
| fs_commit: "a \<in> set (fl_approving fl) \<Longrightarrow> oauth_step L sv fl (commitApproval fault now secret a fl)"
| fs_check: "tokenCheck L sv fault now r json form (fl_db fl) = Inr (req, rec) \<Longrightarrow>
    oauth_step L sv fl (fl\<lparr>fl_checked := \<lparr>xc_time = now, xc_req = req, xc_rec = rec\<rparr> # fl_checked fl\<rparr>)"
| fs_consume: "x \<in> set (fl_checked fl) \<Longrightarrow> oauth_step L sv fl (consumeStep fault x fl)"
| fs_finish: "x \<in> set (fl_consumed fl) \<Longrightarrow> oauth_step L sv fl (finishStep sv fault x fl)"

inductive oauth_run :: "lib \<Rightarrow> oauthService \<Rightarrow> flow \<Rightarrow> flow \<Rightarrow> bool" for L sv fl where
  fr_start: "oauth_run L sv fl fl"
| fr_step: "oauth_run L sv fl fl1 \<Longrightarrow> oauth_step L sv fl1 fl2 \<Longrightarrow> oauth_run L sv fl fl2"

section \<open>The invariant\<close>

text \<open>A row of the code table, and what an exchange read of it, stems from an approval.\<close>

definition from_approval :: "oauthCode \<Rightarrow> approval \<Rightarrow> bool" where
  "from_approval c a \<longleftrightarrow>
     cd_Code c = av_code a \<and> cd_Owner c = ap_Owner (av_principal a) \<and>
     cd_ClientID c = az_ClientID (av_params a) \<and> cd_RedirectURI c = az_RedirectURI (av_params a) \<and>
     cd_CodeChallenge c = az_CodeChallenge (av_params a) \<and> cd_ExpiresAt c = rfc3339 (av_time a + oauthCodeTTL)"

definition decision_ok :: "lib \<Rightarrow> authPrincipal \<times> authorizeParams \<Rightarrow> bool" where
  "decision_ok L a \<longleftrightarrow> ap_ProbeID (fst a) = [] \<and> validRedirectURI L (az_RedirectURI (snd a)) \<and>
     validCodeChallenge (az_CodeChallenge (snd a))"

definition exchange_ok :: "lib \<Rightarrow> approval list \<Rightarrow> exchange \<Rightarrow> bool" where
  "exchange_ok L as x \<longleftrightarrow>
     (\<exists>a \<in> set as. from_approval (xc_rec x) a) \<and> cd_Code (xc_rec x) = tq_Code (xc_req x) \<and>
     cd_ClientID (xc_rec x) = tq_ClientID (xc_req x) \<and> cd_RedirectURI (xc_rec x) = tq_RedirectURI (xc_req x) \<and>
     pkceS256Match L (tq_CodeVerifier (xc_req x)) (cd_CodeChallenge (xc_rec x)) \<and> xc_time x \<le> cd_ExpiresAt (xc_rec x)"

text \<open>The tokens a code has led to or still can lead to, against the approvals of that code.\<close>

definition spent :: "string \<Rightarrow> flow \<Rightarrow> nat" where
  "spent code fl =
     length (filter (\<lambda>x. tq_Code (xc_req (fst x)) = code) (fl_issued fl)) +
     length (filter (\<lambda>x. tq_Code (xc_req x) = code) (fl_consumed fl)) +
     length (filter (\<lambda>c. cd_Code c = code \<and> \<not> cd_Consumed c) (db_codes (fl_db fl)))"

definition approvals :: "string \<Rightarrow> flow \<Rightarrow> nat" where
  "approvals code fl = length (filter (\<lambda>a. av_code a = code) (fl_approved fl))"

definition grants_ok :: "lib \<Rightarrow> flow \<Rightarrow> bool" where
  [inv_defs]: "grants_ok L fl \<longleftrightarrow>
     list_all (\<lambda>c. list_all (validRedirectURI L) (oc_RedirectURIs c)) (db_clients (fl_db fl)) \<and>
     list_all (decision_ok L) (fl_approving fl) \<and>
     list_all (\<lambda>a. decision_ok L (av_principal a, av_params a)) (fl_approved fl) \<and>
     list_all (\<lambda>c. list_ex (from_approval c) (fl_approved fl)) (db_codes (fl_db fl)) \<and>
     list_all (exchange_ok L (fl_approved fl)) (fl_checked fl) \<and>
     list_all (exchange_ok L (fl_approved fl)) (fl_consumed fl) \<and>
     list_all (\<lambda>x. exchange_ok L (fl_approved fl) (fst x)) (fl_issued fl) \<and>
     (\<forall>code. spent code fl \<le> approvals code fl)"

lemma length_filter_filter_le: "length (filter P (filter Q xs)) \<le> length (filter P xs)"
  by (induction xs) auto

lemma validate_ok:
  assumes "validateAuthorizeRequest fault q db = (Some p, None)"
  obtains client where "client \<in> set (db_clients db)" and "oc_ClientID client = az_ClientID p"
    and "az_RedirectURI p \<in> set (oc_RedirectURIs client)" and "validCodeChallenge (az_CodeChallenge p)"
proof -
  obtain client where c: "find (\<lambda>c. oc_ClientID c = az_ClientID p) (db_clients db) = Some client"
    and rest: "az_RedirectURI p \<in> set (oc_RedirectURIs client)" "validCodeChallenge (az_CodeChallenge p)"
    using assms by (auto simp: validateAuthorizeRequest_def getClient_def Let_def split: option.splits if_splits)
  from c have "client \<in> set (db_clients db)" "oc_ClientID client = az_ClientID p"
    by (auto simp: find_Some_iff)
  with rest show thesis
    by (intro that)
qed

lemma bearer_no_probe: "bearerPrincipal sv fault r db = Some p \<Longrightarrow> ap_ProbeID p = []"
  by (auto simp: bearerPrincipal_def Let_def split: option.splits if_splits)

lemma approveCheck_ok:
  assumes "approveCheck sv fault r body db = Inr (pr, p)"
  shows "bearerPrincipal sv fault r db = Some pr" and "\<exists>q. validateAuthorizeRequest fault q db = (Some p, None)"
  using assms by (auto simp: approveCheck_def split: if_splits option.splits prod.splits)

lemma tokenCheck_ok:
  assumes "tokenCheck L sv fault now r json form db = Inr (req, rec)"
  shows "find (\<lambda>c. cd_Code c = tq_Code req) (db_codes db) = Some rec" and "now \<le> cd_ExpiresAt rec"
    and "cd_ClientID rec = tq_ClientID req" and "cd_RedirectURI rec = tq_RedirectURI req"
    and "pkceS256Match L (tq_CodeVerifier req) (cd_CodeChallenge rec)"
  using assms by (auto simp: tokenCheck_def getCode_def split: if_splits option.splits)

lemma decision_ok_check:
  assumes "approveCheck sv fault r body db = Inr a"
    and "list_all (\<lambda>c. list_all (validRedirectURI L) (oc_RedirectURIs c)) (db_clients db)"
  shows "decision_ok L a"
proof -
  obtain pr p where a: "a = (pr, p)"
    by (cases a)
  note ok = approveCheck_ok [OF assms(1) [unfolded a]]
  from ok(2) obtain q where "validateAuthorizeRequest fault q db = (Some p, None)" ..
  then show ?thesis
    using bearer_no_probe [OF ok(1)] assms(2) by (elim validate_ok) (auto simp: decision_ok_def a list_all_iff)
qed

lemma clients_register:
  assumes "list_all (\<lambda>c. list_all (validRedirectURI L) (oc_RedirectURIs c)) (db_clients db)"
  shows "list_all (\<lambda>c. list_all (validRedirectURI L) (oc_RedirectURIs c))
           (db_clients (snd (handleClientRegister L sv fault now secret r body db)))"
    and "db_codes (snd (handleClientRegister L sv fault now secret r body db)) = db_codes db"
  using assms
  by (auto simp: handleClientRegister_def createClient_def purgeStale_def registerProblem_def list_all_iff list_ex_iff
      Let_def split: option.splits if_splits)

lemma approveCommit_None:
  "insertCode fault (approvedCode now secret pr p) db = None \<Longrightarrow> snd (approveCommit fault now secret pr p db) = db"
  by (simp add: approveCommit_def createCode_def)

lemma approveCommit_Some:
  assumes "insertCode fault (approvedCode now secret pr p) db = Some db1"
  shows "\<exists>P. db_codes (snd (approveCommit fault now secret pr p db)) = filter P (db_codes db1)"
    and "map oc_RedirectURIs (db_clients (snd (approveCommit fault now secret pr p db))) = map oc_RedirectURIs (db_clients db)"
proof -
  have "db_clients db1 = db_clients db"
    using assms by (auto simp: insertCode_def split: if_splits)
  then show "map oc_RedirectURIs (db_clients (snd (approveCommit fault now secret pr p db))) = map oc_RedirectURIs (db_clients db)"
    using assms by (auto simp: approveCommit_def createCode_def touchLastUsed_def)
  show "\<exists>P. db_codes (snd (approveCommit fault now secret pr p db)) = filter P (db_codes db1)"
    using assms by (auto simp: approveCommit_def createCode_def touchLastUsed_def intro: exI [of _ "\<lambda>_. True"])
qed

lemma exchange_ok_mono: "exchange_ok L as x \<Longrightarrow> exchange_ok L (as @ bs) x"
  by (auto simp: exchange_ok_def)

lemma list_all_remove1: "list_all P xs \<Longrightarrow> list_all P (remove1 x xs)"
  by (auto simp: list_all_iff dest: in_set_remove1 [THEN iffD1, rotated] notin_set_remove1)

lemma length_filter_remove1:
  "x \<in> set xs \<Longrightarrow> length (filter P (remove1 x xs)) + (if P x then 1 else 0) = length (filter P xs)"
  by (induction xs) auto

lemma grants_ok_commit:
  assumes "grants_ok L fl" and "a \<in> set (fl_approving fl)"
  shows "grants_ok L (commitApproval fault now secret a fl)"
proof (cases "insertCode fault (approvedCode now secret (fst a) (snd a)) (fl_db fl)")
  case None
  then show ?thesis
    using assms by (auto simp: grants_ok_def commitApproval_def approveCommit_None spent_def approvals_def intro: list_all_remove1)
next
  case (Some db1)
  define db2 where "db2 = snd (approveCommit fault now secret (fst a) (snd a) (fl_db fl))"
  define new where "new = \<lparr>av_code = secret, av_principal = fst a, av_params = snd a, av_time = now\<rparr>"
  define row where "row = (approvedCode now secret (fst a) (snd a))\<lparr>cd_CreatedAt := rfc3339 now, cd_ExpiresAt := rfc3339 (now + oauthCodeTTL)\<rparr>"
  have fl': "commitApproval fault now secret a fl =
      fl\<lparr>fl_db := db2, fl_approving := remove1 a (fl_approving fl), fl_approved := fl_approved fl @ [new]\<rparr>"
    using Some by (simp add: commitApproval_def db2_def new_def)
  have codes: "db_codes db1 = db_codes (fl_db fl) @ [row]"
    using Some by (auto simp: insertCode_def row_def approvedCode_def split: if_splits)
  obtain P where P: "db_codes db2 = filter P (db_codes db1)"
    using approveCommit_Some(1) [OF Some] db2_def by blast
  have "map oc_RedirectURIs (db_clients db2) = map oc_RedirectURIs (db_clients (fl_db fl))"
    using approveCommit_Some(2) [OF Some] db2_def by simp
  then have clients: "list_all (\<lambda>c. list_all (validRedirectURI L) (oc_RedirectURIs c)) (db_clients db2)"
    using assms(1) by (metis (mono_tags, lifting) grants_ok_def list.pred_map list.pred_cong comp_apply)
  have row: "from_approval row new" "cd_Code row = secret" "av_code new = secret"
    by (simp_all add: from_approval_def row_def new_def approvedCode_def)
  have grown: "spent code (fl\<lparr>fl_db := db2\<rparr>) \<le> spent code fl + (if code = secret then 1 else 0)" for code
    using length_filter_filter_le [of "\<lambda>c. cd_Code c = code \<and> \<not> cd_Consumed c" P "db_codes db1"] row(2)
    by (auto simp: spent_def P codes)
  have same: "spent code (commitApproval fault now secret a fl) = spent code (fl\<lparr>fl_db := db2\<rparr>)"
    "approvals code (commitApproval fault now secret a fl) = approvals code fl + (if code = secret then 1 else 0)" for code
    by (simp_all add: fl' spent_def approvals_def row(3))
  have "spent code fl \<le> approvals code fl" for code
    using assms(1) by (simp add: grants_ok_def)
  then have counts: "spent code (commitApproval fault now secret a fl) \<le> approvals code (commitApproval fault now secret a fl)" for code
    unfolding same using grown [of code] by (meson add_le_mono1 le_trans)
  have new: "decision_ok L (av_principal new, av_params new)"
    using assms by (auto simp: grants_ok_def new_def list_all_iff)
  have rows: "list_all (\<lambda>c. list_ex (from_approval c) (fl_approved fl @ [new])) (db_codes db2)"
    using assms(1) row(1) by (auto simp: grants_ok_def P codes list_all_iff)
  show ?thesis
    using assms(1) clients new rows counts unfolding grants_ok_def fl'
    by (auto simp: list_all_remove1 intro: list.pred_mono_strong exchange_ok_mono)
qed

lemma grants_ok_consume:
  assumes "grants_ok L fl" and "x \<in> set (fl_checked fl)"
  shows "grants_ok L (consumeStep fault x fl)"
proof (cases "fault ConsumeCode")
  case True
  then show ?thesis
    using assms by (auto simp: consumeStep_def consumeCode_def grants_ok_def spent_def approvals_def intro: list_all_remove1)
next
  case False
  define code where "code = tq_Code (xc_req x)"
  define mark :: "oauthCode \<Rightarrow> oauthCode" where "mark = (\<lambda>c. if cd_Code c = code \<and> \<not> cd_Consumed c then c\<lparr>cd_Consumed := True\<rparr> else c)"
  define open' where "open' = length (filter (\<lambda>c. cd_Code c = code \<and> \<not> cd_Consumed c) (db_codes (fl_db fl)))"
  define fl' where "fl' = consumeStep fault x fl"
  have fl': "fl' = fl\<lparr>fl_db := (fl_db fl)\<lparr>db_codes := map mark (db_codes (fl_db fl))\<rparr>, fl_checked := remove1 x (fl_checked fl),
      fl_consumed := (if open' = 1 then fl_consumed fl @ [x] else fl_consumed fl)\<rparr>"
    using False by (simp add: fl'_def consumeStep_def consumeCode_def mark_def code_def open'_def)
  have mark: "from_approval (mark c) = from_approval c" for c
    by (auto simp: mark_def from_approval_def)
  have "filter (\<lambda>c. cd_Code c = k \<and> \<not> cd_Consumed c) (map mark cs) =
      (if k = code then [] else filter (\<lambda>c. cd_Code c = k \<and> \<not> cd_Consumed c) cs)" for k cs
    by (induction cs) (auto simp: mark_def)
  then have "spent k fl' \<le> spent k fl" for k
    by (auto simp: fl' spent_def open'_def code_def)
  moreover have "approvals k fl' = approvals k fl" for k
    by (simp add: fl' approvals_def)
  ultimately have "spent k fl' \<le> approvals k fl'" for k
    using assms(1) by (metis grants_ok_def le_trans)
  moreover have "list_all (\<lambda>c. list_ex (from_approval c) (fl_approved fl)) (map mark (db_codes (fl_db fl)))"
    using assms(1) by (simp add: grants_ok_def list.pred_map comp_def mark)
  moreover have "exchange_ok L (fl_approved fl) x"
    using assms by (auto simp: grants_ok_def list_all_iff)
  ultimately show ?thesis
    using assms(1) unfolding fl'_def [symmetric] grants_ok_def
    by (simp add: fl' list_all_remove1)
qed

lemma grants_ok_finish:
  assumes "grants_ok L fl" and "x \<in> set (fl_consumed fl)"
  shows "grants_ok L (finishStep sv fault x fl)"
proof -
  have "exchange_ok L (fl_approved fl) x"
    using assms by (auto simp: grants_ok_def list_all_iff)
  moreover have "spent k (finishStep sv fault x fl) \<le> spent k fl" for k
    using length_filter_remove1 [OF assms(2), of "\<lambda>x. tq_Code (xc_req x) = k"]
    by (auto simp: spent_def finishStep_def split: reply.splits if_splits)
  then have "spent k (finishStep sv fault x fl) \<le> approvals k (finishStep sv fault x fl)" for k
    using assms(1) by (metis (no_types, lifting) approvals_def finishStep_def flow.select_convs(5) flow.surjective flow.update_convs(4,6) grants_ok_def le_trans)
  ultimately show ?thesis
    using assms(1) unfolding grants_ok_def
    by (auto simp: finishStep_def list_all_remove1 split: reply.splits)
qed

lemma grants_ok_check:
  assumes "grants_ok L fl" and "tokenCheck L sv fault now r json form (fl_db fl) = Inr (req, rec)"
  shows "exchange_ok L (fl_approved fl) \<lparr>xc_time = now, xc_req = req, xc_rec = rec\<rparr>"
proof -
  note c = tokenCheck_ok [OF assms(2)]
  from c(1) have "rec \<in> set (db_codes (fl_db fl))" "cd_Code rec = tq_Code req"
    by (auto simp: find_Some_iff)
  then show ?thesis
    using assms(1) c by (auto simp: exchange_ok_def grants_ok_def list_all_iff list_ex_iff)
qed

lemma grants_ok_step: "oauth_step L sv fl fl' \<Longrightarrow> grants_ok L fl \<Longrightarrow> grants_ok L fl'"
proof (induction rule: oauth_step.induct)
  case (fs_users fl us)
  then show ?case
    by (simp add: grants_ok_def spent_def approvals_def)
next
  case (fs_client fl fault now secret r body)
  then show ?case
    by (simp add: grants_ok_def spent_def approvals_def clients_register)
next
  case (fs_approve fault r body fl a)
  then show ?case
    using decision_ok_check [OF fs_approve(1)] by (simp add: grants_ok_def spent_def approvals_def)
next
  case (fs_check fault now r json form fl req rec)
  then show ?case
    using grants_ok_check by (simp add: grants_ok_def spent_def approvals_def)
qed (simp_all add: grants_ok_commit grants_ok_consume grants_ok_finish)

lemma oauth_run_ok: "oauth_run L sv fl fl' \<Longrightarrow> grants_ok L fl \<Longrightarrow> grants_ok L fl'"
  by (induction rule: oauth_run.induct) (auto intro: grants_ok_step)

lemma grants_ok_start:
  "list_all (\<lambda>c. list_all (validRedirectURI L) (oc_RedirectURIs c)) (db_clients db) \<Longrightarrow> db_codes db = [] \<Longrightarrow> grants_ok L (flowStart db)"
  by (simp add: grants_ok_def flowStart_def spent_def)

lemma rfc3339_bounds: "rfc3339 t \<le> t" "t < rfc3339 t + 1000000000"
proof -
  have "t = t div 1000000000 * 1000000000 + t mod 1000000000" "0 \<le> t mod 1000000000" "t mod 1000000000 < 1000000000"
    by simp_all
  then show "rfc3339 t \<le> t" "t < rfc3339 t + 1000000000"
    unfolding rfc3339_def by linarith+
qed

section \<open>Properties\<close>

text \<open>
  (C25) A token is handed out only for an approval, and once: however the requests of any number of
  browsers and agents interleave and whatever the database refuses, every token handed out goes
  back to a stored approval of the same code, whose redirect address and client are the ones the
  exchange names, whose address is on https or on the loopback, whose challenge the verifier of
  the exchange meets, that was given by a user and not by a probe, and that was at most five
  minutes old when the exchange was checked; the owner looked up is the approving one, and a code
  leads to at most as many tokens as it was approved.
\<close>

theorem oauth_tokens_sound:
  assumes "oauth_run L sv (flowStart db) fl"
    and "list_all (\<lambda>c. list_all (validRedirectURI L) (oc_RedirectURIs c)) (db_clients db)" and "db_codes db = []"
    and "(x, token) \<in> set (fl_issued fl)"
  shows "(\<exists>a \<in> set (fl_approved fl).
      av_code a = tq_Code (xc_req x) \<and> az_ClientID (av_params a) = tq_ClientID (xc_req x) \<and>
      az_RedirectURI (av_params a) = tq_RedirectURI (xc_req x) \<and> validRedirectURI L (tq_RedirectURI (xc_req x)) \<and>
      pkceS256Match L (tq_CodeVerifier (xc_req x)) (az_CodeChallenge (av_params a)) \<and>
      ap_ProbeID (av_principal a) = [] \<and> ap_Owner (av_principal a) = cd_Owner (xc_rec x) \<and>
      xc_time x \<le> av_time a + oauthCodeTTL) \<and>
    length (filter (\<lambda>y. tq_Code (xc_req (fst y)) = tq_Code (xc_req x)) (fl_issued fl)) \<le>
    length (filter (\<lambda>a. av_code a = tq_Code (xc_req x)) (fl_approved fl))"
proof
  have ok: "grants_ok L fl"
    using oauth_run_ok [OF assms(1)] grants_ok_start [OF assms(2,3)] by simp
  then have x: "exchange_ok L (fl_approved fl) x"
    using assms(4) by (auto simp: grants_ok_def list_all_iff)
  then obtain a where a: "a \<in> set (fl_approved fl)" "from_approval (xc_rec x) a"
    by (auto simp: exchange_ok_def)
  moreover from ok a(1) have "decision_ok L (av_principal a, av_params a)"
    by (auto simp: grants_ok_def list_all_iff)
  ultimately show "\<exists>a \<in> set (fl_approved fl).
      av_code a = tq_Code (xc_req x) \<and> az_ClientID (av_params a) = tq_ClientID (xc_req x) \<and>
      az_RedirectURI (av_params a) = tq_RedirectURI (xc_req x) \<and> validRedirectURI L (tq_RedirectURI (xc_req x)) \<and>
      pkceS256Match L (tq_CodeVerifier (xc_req x)) (az_CodeChallenge (av_params a)) \<and>
      ap_ProbeID (av_principal a) = [] \<and> ap_Owner (av_principal a) = cd_Owner (xc_rec x) \<and>
      xc_time x \<le> av_time a + oauthCodeTTL"
    using x by (intro bexI [of _ a]) (auto simp: exchange_ok_def from_approval_def decision_ok_def
      intro: order_trans rfc3339_bounds(1))
  have "spent (tq_Code (xc_req x)) fl \<le> approvals (tq_Code (xc_req x)) fl"
    using ok by (simp add: grants_ok_def)
  then show "length (filter (\<lambda>y. tq_Code (xc_req (fst y)) = tq_Code (xc_req x)) (fl_issued fl)) \<le>
    length (filter (\<lambda>a. av_code a = tq_Code (xc_req x)) (fl_approved fl))"
    by (simp add: spent_def approvals_def)
qed

lemma find_snoc_new: "\<forall>y \<in> set xs. \<not> P y \<Longrightarrow> P x \<Longrightarrow> find P (xs @ [x]) = Some x"
  by (induction xs) auto

text \<open>What a successful \<open>handleApprove\<close> leaves in the table.\<close>

lemma handleApprove_code:
  assumes "handleApprove sv fault now secret r body db = (Json st resp, db1)" and "ar_Code resp \<noteq> []"
  obtains pr p where "bearerPrincipal sv fault r db = Some pr" and "ar_Code resp = secret" and "db_users db1 = db_users db"
    and "\<exists>areq. body = Some areq \<and> aq_ClientID areq = az_ClientID p \<and> aq_RedirectURI areq = az_RedirectURI p \<and>
           aq_CodeChallenge areq = az_CodeChallenge p"
    and "find (\<lambda>c. cd_Code c = secret) (db_codes db1) = Some ((approvedCode now secret pr p)\<lparr>cd_CreatedAt := rfc3339 now,
           cd_ExpiresAt := rfc3339 (now + oauthCodeTTL)\<rparr>)"
    and "length (filter (\<lambda>c. cd_Code c = secret \<and> \<not> cd_Consumed c) (db_codes db1)) = 1"
proof -
  obtain pr p where chk: "approveCheck sv fault r body db = Inr (pr, p)"
    and cm: "approveCommit fault now secret pr p db = (Json st resp, db1)"
    using assms
    by (auto simp: handleApprove_def approveCheck_def split: sum.splits if_splits option.splits prod.splits)
  define row where "row = (approvedCode now secret pr p)\<lparr>cd_CreatedAt := rfc3339 now, cd_ExpiresAt := rfc3339 (now + oauthCodeTTL)\<rparr>"
  define keep :: "oauthCode \<Rightarrow> bool" where "keep = (\<lambda>d. \<not> cd_ExpiresAt d < rfc3339 (now - 24 * 3600 * 1000000000))"
  obtain db0 where ins: "insertCode fault (approvedCode now secret pr p) db = Some db0"
    and db1: "db1 = touchLastUsed fault now (az_ClientID p) (db0\<lparr>db_codes := filter keep (db_codes db0)\<rparr>)"
    and code: "ar_Code resp = secret"
    using cm by (auto simp: approveCommit_def createCode_def keep_def split: option.splits if_splits)
  have new: "\<forall>c \<in> set (db_codes db). cd_Code c \<noteq> secret" and codes0: "db_codes db0 = db_codes db @ [row]"
    and us0: "db_users db0 = db_users db"
    using ins by (auto simp: insertCode_def row_def approvedCode_def list_ex_iff split: if_splits)
  have "keep row"
    using rfc3339_bounds(1) [of "now - 24 * 3600 * 1000000000"] rfc3339_bounds(2) [of "now + oauthCodeTTL"]
    by (simp add: keep_def row_def oauthCodeTTL_def)
  then have codes1: "db_codes db1 = filter keep (db_codes db) @ [row]"
    by (simp add: db1 codes0 touchLastUsed_def)
  have r: "cd_Code row = secret" "\<not> cd_Consumed row"
    by (simp_all add: row_def approvedCode_def)
  show thesis
  proof (rule that [OF approveCheck_ok(1) [OF chk] code])
    show "db_users db1 = db_users db"
      by (simp add: db1 us0 touchLastUsed_def)
    show "\<exists>areq. body = Some areq \<and> aq_ClientID areq = az_ClientID p \<and> aq_RedirectURI areq = az_RedirectURI p \<and>
        aq_CodeChallenge areq = az_CodeChallenge p"
      using chk by (auto simp: approveCheck_def validateAuthorizeRequest_def approveQuery_def Let_def
          split: if_splits option.splits prod.splits)
    show "find (\<lambda>c. cd_Code c = secret) (db_codes db1) = Some ((approvedCode now secret pr p)\<lparr>cd_CreatedAt := rfc3339 now,
        cd_ExpiresAt := rfc3339 (now + oauthCodeTTL)\<rparr>)"
      unfolding codes1 row_def [symmetric] using new r(1) by (intro find_snoc_new) auto
    have "filter (\<lambda>c. cd_Code c = secret \<and> \<not> cd_Consumed c) (filter keep (db_codes db)) = []"
      using new by (auto simp: filter_empty_conv)
    then show "length (filter (\<lambda>c. cd_Code c = secret \<and> \<not> cd_Consumed c) (db_codes db1)) = 1"
      by (simp add: codes1 r)
  qed
qed

text \<open>
  The exchange hands out the token that the approving owner's \<^emph>\<open>name\<close> has at that moment:
  after an approval, an exchange with the same client, address and a matching verifier, less than
  five minutes minus a second later, gets the token of that name in whatever the user table is
  by then, and repeating the very same exchange is refused. In the witness the approving user is
  revoked and the name registered by somebody else in between; the agent receives the token of
  that other person, where the comments promise that the exchange fails.
\<close>

theorem exchange_follows_name:
  assumes "handleApprove sv fault now secret r (Some areq) db = (Json st resp, db1)" and "ar_Code resp \<noteq> []"
    and "bearerPrincipal sv fault r db = Some pr"
    and "db2 = db1\<lparr>db_users := us\<rparr>" and "ownerToken False (sv_tokensByOwner sv) us (ap_Owner pr) = Some token"
    and "required sv (\<lambda>_. False) db2" and "rq_Method r' = ''POST''" and "parseTokenRequest r' json form = Some req"
    and "tq_GrantType req = ''authorization_code''" and "tq_Code req = ar_Code resp" and "tq_Resource req = []"
    and "tq_ClientID req = aq_ClientID areq" and "aq_ClientID areq \<noteq> []" and "tq_RedirectURI req = aq_RedirectURI areq"
    and "pkceS256Match L (tq_CodeVerifier req) (aq_CodeChallenge areq)"
    and "now' \<le> now + oauthCodeTTL - 1000000000"
  shows "let (reply, db3) = handleToken L sv (\<lambda>_. False) now' r' json form db2
    in reply = Json 200 token \<and>
       fst (handleToken L sv (\<lambda>_. False) now' r' json form db3) = OAuthErr 400 ''invalid_grant'' ''code already used''"
proof -
  obtain p where code: "ar_Code resp = secret"
    and req: "aq_ClientID areq = az_ClientID p" "aq_RedirectURI areq = az_RedirectURI p" "aq_CodeChallenge areq = az_CodeChallenge p"
    and row: "find (\<lambda>c. cd_Code c = secret) (db_codes db1) =
        Some ((approvedCode now secret pr p)\<lparr>cd_CreatedAt := rfc3339 now, cd_ExpiresAt := rfc3339 (now + oauthCodeTTL)\<rparr>)"
    and one: "length (filter (\<lambda>c. cd_Code c = secret \<and> \<not> cd_Consumed c) (db_codes db1)) = 1"
    by (rule handleApprove_code [OF assms(1,2)]) (use assms(3) in auto)
  define rec where "rec = (approvedCode now secret pr p)\<lparr>cd_CreatedAt := rfc3339 now, cd_ExpiresAt := rfc3339 (now + oauthCodeTTL)\<rparr>"
  have rec: "cd_ClientID rec = tq_ClientID req" "cd_RedirectURI rec = tq_RedirectURI req" "cd_Owner rec = ap_Owner pr"
      "cd_CodeChallenge rec = aq_CodeChallenge areq" "\<not> cd_ExpiresAt rec < now'"
    using rfc3339_bounds(2) [of "now + oauthCodeTTL"] assms(16) by (simp_all add: rec_def approvedCode_def req assms(12,14))
  have check: "tokenCheck L sv (\<lambda>_. False) now' r' json form d = Inr (req, rec')"
    if "db_users d = us" "find (\<lambda>c. cd_Code c = secret) (db_codes d) = Some rec'"
      and "rec' = rec \<or> rec' = rec\<lparr>cd_Consumed := True\<rparr>" for d rec'
  proof -
    have "required sv (\<lambda>_. False) d"
      using assms(4,6) that(1) by (simp add: required_def)
    then show ?thesis
      using that(2,3) rec assms(2,7-13,15) by (auto simp: tokenCheck_def getCode_def code)
  qed
  define mark :: "oauthCode \<Rightarrow> oauthCode" where "mark = (\<lambda>c. if cd_Code c = secret \<and> \<not> cd_Consumed c then c\<lparr>cd_Consumed := True\<rparr> else c)"
  define db3 where "db3 = db2\<lparr>db_codes := map mark (db_codes db2)\<rparr>"
  have c2: "consumeCode (\<lambda>_. False) secret db2 = (Some True, db3)"
    using one by (simp add: consumeCode_def db3_def mark_def assms(4))
  have "find (\<lambda>c. cd_Code c = secret) (db_codes db2) = Some rec"
    using row assms(4) by (simp add: rec_def)
  then have first: "handleToken L sv (\<lambda>_. False) now' r' json form db2 = (Json 200 token, db3)"
    using check [of db2 rec] assms(4,5) c2 rec(3) by (simp add: handleToken_def tokenFinish_def assms(10) code db3_def)
  have "find (\<lambda>c. cd_Code c = secret) (map mark cs) = map_option mark (find (\<lambda>c. cd_Code c = secret) cs)" for cs
    by (induction cs) (auto simp: mark_def)
  then have "find (\<lambda>c. cd_Code c = secret) (db_codes db3) = Some (mark rec)"
    using row assms(4) by (simp add: db3_def rec_def)
  moreover have "mark rec = rec\<lparr>cd_Consumed := True\<rparr>"
    by (simp add: mark_def rec_def approvedCode_def)
  ultimately have "tokenCheck L sv (\<lambda>_. False) now' r' json form db3 = Inr (req, mark rec)"
    using assms(4) by (intro check) (auto simp: db3_def)
  moreover have "filter (\<lambda>c. cd_Code c = secret \<and> \<not> cd_Consumed c) (map mark cs) = []" for cs
    by (induction cs) (auto simp: mark_def)
  then have "fst (consumeCode (\<lambda>_. False) secret db3) = Some False"
    by (simp add: consumeCode_def db3_def)
  ultimately have "fst (handleToken L sv (\<lambda>_. False) now' r' json form db3) = OAuthErr 400 ''invalid_grant'' ''code already used''"
    by (cases "consumeCode (\<lambda>_. False) secret db3") (simp add: handleToken_def assms(10) code)
  then show ?thesis
    by (simp add: first)
qed

section \<open>A run for the witnesses\<close>

text \<open>
  The bootstrap administrator \<open>alice\<close> and the registered user \<open>carol\<close>; one agent, whose challenge
  is its verifier under a toy digest; \<open>carol\<close> approves, and the agent exchanges the code.
\<close>

definition demoLib :: lib where
  "demoLib = \<lparr>lib_Parse = (\<lambda>s. Some \<lparr>url_Scheme = ''https'', url_Host = s, url_Hostname = s\<rparr>),
     lib_AddQuery = (\<lambda>u q. Some u), lib_S256 = (\<lambda>v. v)\<rparr>"

definition demoService :: oauthService where
  "demoService = \<lparr>sv_resolver = mainResolver demoSpec, sv_tokensByOwner = loadTokensByOwner demoSpec\<rparr>"

definition demoDB :: oauthDB where
  "demoDB = \<lparr>db_users = demoUsers,
     db_clients = [\<lparr>oc_ClientID = ''agent'', oc_ClientName = [], oc_RedirectURIs = [''x''], oc_CreatedAt = 0, oc_LastUsedAt = None\<rparr>],
     db_codes = []\<rparr>"

definition demoPost :: "string \<Rightarrow> httpRequest" where
  "demoPost bearer = \<lparr>rq_Method = ''POST'',
     rq_Header = (\<lambda>h. if h = ''Authorization'' then ''Bearer '' @ bearer else if h = ''Content-Type'' then ''application/json'' else []),
     rq_TLS = False, rq_Host = ''h''\<rparr>"

definition demoVerifier :: string where
  "demoVerifier = replicate 43 (CHR ''a'')"

definition demoApprove :: approveRequest where
  "demoApprove = \<lparr>aq_Action = ''approve'', aq_ClientID = ''agent'', aq_RedirectURI = ''x'', aq_CodeChallenge = demoVerifier,
     aq_CodeChallengeMethod = ''S256'', aq_State = []\<rparr>"

definition demoExchange :: tokenRequest where
  "demoExchange = \<lparr>tq_GrantType = ''authorization_code'', tq_Code = ''c1'', tq_CodeVerifier = demoVerifier,
     tq_ClientID = ''agent'', tq_RedirectURI = ''x'', tq_Resource = []\<rparr>"

definition demoPrincipal :: authPrincipal where
  "demoPrincipal = \<lparr>ap_Owner = ''carol'', ap_IsAdmin = False, ap_Tenant = DefaultTenant, ap_ProbeID = []\<rparr>"

definition demoParams :: authorizeParams where
  "demoParams = \<lparr>az_ClientID = ''agent'', az_RedirectURI = ''x'', az_CodeChallenge = demoVerifier, az_Method = ''S256'', az_State = []\<rparr>"

definition demoFlow :: flow where
  "demoFlow = commitApproval (\<lambda>_. False) 7000000000 ''c1'' (demoPrincipal, demoParams)
     ((flowStart demoDB)\<lparr>fl_approving := [(demoPrincipal, demoParams)]\<rparr>)"

definition demoCode :: oauthCode where
  "demoCode = (approvedCode 7000000000 ''c1'' demoPrincipal demoParams)"

lemma demo_bearer: "bearerPrincipal demoService (\<lambda>_. False) (demoPost ''gt_0102'') demoDB = Some demoPrincipal"
  by code_simp

lemma demo_check: "approveCheck demoService (\<lambda>_. False) (demoPost ''gt_0102'') (Some demoApprove) demoDB = Inr (demoPrincipal, demoParams)"
  by code_simp

lemma demo_codes: "db_codes (fl_db demoFlow) = [demoCode]" "db_users (fl_db demoFlow) = demoUsers"
  by code_simp+

lemma demo_exchange:
  "tokenCheck demoLib demoService (\<lambda>_. False) 9000000000 (demoPost []) (Some demoExchange) None (fl_db demoFlow) = Inr (demoExchange, demoCode)"
  by code_simp

definition demoX :: exchange where
  "demoX = \<lparr>xc_time = 9000000000, xc_req = demoExchange, xc_rec = demoCode\<rparr>"

definition demoEnd :: flow where
  "demoEnd = finishStep demoService (\<lambda>_. False) demoX
     (consumeStep (\<lambda>_. False) demoX (demoFlow\<lparr>fl_checked := [demoX]\<rparr>))"

lemma demo_issued: "fl_issued demoEnd = [(demoX, ''gt_0102'')]"
  by code_simp

lemma demo_run_oauth: "oauth_run demoLib demoService (flowStart demoDB) demoEnd"
proof -
  let ?a = "(demoPrincipal, demoParams)"
  let ?s1 = "(flowStart demoDB)\<lparr>fl_approving := [?a]\<rparr>"
  let ?s3 = "demoFlow\<lparr>fl_checked := [demoX]\<rparr>"
  let ?s4 = "consumeStep (\<lambda>_. False) demoX ?s3"
  have 1: "oauth_step demoLib demoService (flowStart demoDB) ?s1"
    using fs_approve [of demoService "\<lambda>_. False" "demoPost ''gt_0102''" "Some demoApprove" "flowStart demoDB" ?a demoLib]
    by (simp add: flowStart_def demo_check)
  have 2: "oauth_step demoLib demoService ?s1 demoFlow"
    unfolding demoFlow_def by (rule fs_commit) simp
  have "fl_checked demoFlow = []"
    by (simp add: demoFlow_def commitApproval_def flowStart_def)
  then have 3: "oauth_step demoLib demoService demoFlow ?s3"
    using fs_check [OF demo_exchange] by (simp add: demoX_def)
  have 4: "oauth_step demoLib demoService ?s3 ?s4"
    by (rule fs_consume) simp
  have "fl_consumed ?s4 = [demoX]"
    by code_simp
  then have 5: "oauth_step demoLib demoService ?s4 demoEnd"
    unfolding demoEnd_def by (intro fs_finish) simp
  show ?thesis
    by (rule fr_step [OF fr_step [OF fr_step [OF fr_step [OF fr_step [OF fr_start 1] 2] 3] 4] 5])
qed

theorem oauth_tokens_sound_witness:
  "length (filter (\<lambda>y. tq_Code (xc_req (fst y)) = ''c1'') (fl_issued demoEnd)) \<le>
   length (filter (\<lambda>a. av_code a = ''c1'') (fl_approved demoEnd))"
proof -
  have "(demoX, ''gt_0102'') \<in> set (fl_issued demoEnd)"
    by (simp add: demo_issued)
  from oauth_tokens_sound [OF demo_run_oauth _ _ this] show ?thesis
    by (simp add: demoDB_def demoLib_def validRedirectURI_def demoX_def demoExchange_def)
qed

definition demoTakeover :: "userRow list" where
  "demoTakeover =
     snd (handleRegister False False 8000000000 (Some [9, 9]) True (Some (specTable demoSpec)) True (Some ''carol'')
       (snd (handleRevokeUser False (Some (userPrincipal ''alice'' True)) ''carol'' demoUsers)))"

lemma demo_takeover: "map (\<lambda>u. (u_Owner u, u_Token u)) demoTakeover = [(''carol'', ''gt_0909'')]"
  by code_simp

lemma demo_approved:
  "handleApprove demoService (\<lambda>_. False) 7000000000 ''c1'' (demoPost ''gt_0102'') (Some demoApprove) demoDB =
   (Json 200 \<lparr>ar_Code = ''c1'', ar_RedirectURI = ''x'', ar_State = [], ar_Error = [], ar_ErrorDescription = []\<rparr>, fl_db demoFlow)"
  by code_simp

theorem exchange_follows_name_witness:
  "fst (handleToken demoLib demoService (\<lambda>_. False) 9000000000 (demoPost []) (Some demoExchange) None
     ((fl_db demoFlow)\<lparr>db_users := demoTakeover\<rparr>)) = Json 200 ''gt_0909''"
proof -
  have t: "ownerToken False (sv_tokensByOwner demoService) demoTakeover (ap_Owner demoPrincipal) = Some ''gt_0909''"
    by code_simp
  have r: "required demoService (\<lambda>_. False) ((fl_db demoFlow)\<lparr>db_users := demoTakeover\<rparr>)"
    by code_simp
  have p: "parseTokenRequest (demoPost []) (Some demoExchange) None = Some demoExchange"
    by code_simp
  have k: "pkceS256Match demoLib (tq_CodeVerifier demoExchange) (aq_CodeChallenge demoApprove)"
    by code_simp
  have "rq_Method (demoPost []) = ''POST''"
    by (simp add: demoPost_def)
  from exchange_follows_name [OF demo_approved _ demo_bearer refl t r this p _ _ _ _ _ _ k, of 9000000000]
  show ?thesis
    by (simp add: demoExchange_def demoApprove_def oauthCodeTTL_def Let_def split: prod.splits)
qed

end
