(* ===== verification/Plugin_Registry.thy ===== *)
theory Plugin_Registry
  imports Rule Go_Collections
begin

text \<open>
  \<open>pkg/plugin/manager.go\<close> with the hooks of \<open>tunnel.go\<close>, and the manifest checks of
  \<open>pkg/plugin/version.go\<close>, \<open>sdk/plugin_manifest.go\<close> and \<open>sdk/contract\<close>: the registry of decoder
  plugins. A plugin registers a manifest and gets an instance identifier, opens a tunnel with it,
  and is found by name or by protocol within the scope of its owner.

  The maps of the registry are association lists with distinct keys; where the code walks over
  the map of plugins, the order of the list is the order of the walk, which Go leaves open. The
  client of a plugin is the number of its tunnel session, and \<open>dead\<close> says which sessions are
  closed. The channel of a subscriber is the list of the events in it. The YAML reader is a
  library: a manifest arrives parsed or as the text of the parser's error; \<open>errText\<close> is the text of
  an error. Fields of a manifest that the registry never reads are left out.
\<close>

section \<open>Manifests\<close>

record 'v manifest =
  mf_APIVersion :: string
  mf_Name :: string
  mf_Protocol :: string
  mf_Type :: string
  mf_Transports :: "string list"
  mf_Hints :: "string list"
  mf_SemanticRules :: "'v srule list"

definition digitChar :: "char \<Rightarrow> bool" where
  "digitChar c \<longleftrightarrow> CHR ''0'' \<le> c \<and> c \<le> CHR ''9''"

definition apiVersionPrefix :: string where
  "apiVersionPrefix = ''gt.decoder/''"

text \<open>\<open>^gt\.decoder/v\d+$\<close> and \<open>^[a-z][a-z0-9-]*$\<close>\<close>

definition apiVersionPattern :: "string \<Rightarrow> bool" where
  "apiVersionPattern s \<longleftrightarrow>
     take 12 s = ''gt.decoder/v'' \<and> drop 12 s \<noteq> [] \<and> list_all digitChar (drop 12 s)"

definition namePattern :: "string \<Rightarrow> bool" where
  "namePattern s = (case s of [] \<Rightarrow> False | c # cs \<Rightarrow> lower c \<and> list_all (\<lambda>d. lower d \<or> digitChar d \<or> d = CHR ''-'') cs)"

datatype manifestError =
  APIVersionRequired | APIVersionFormat string | NameRequired | NameFormat string | ProtocolRequired
| TypeRequired | TypeUnknown string | TransportUnknown string | TransportDuplicate string

fun validateTransports :: "string list \<Rightarrow> string list \<Rightarrow> manifestError option" where
  "validateTransports seen [] = None"
| "validateTransports seen (t # ts) =
     (if t \<notin> {''tcp'', ''udp''} then Some (TransportUnknown t)
      else if t \<in> set seen then Some (TransportDuplicate t)
      else validateTransports (t # seen) ts)"

definition validateManifest :: "'v manifest \<Rightarrow> manifestError option" where
  "validateManifest m =
     (if mf_APIVersion m = [] then Some APIVersionRequired
      else if \<not> apiVersionPattern (mf_APIVersion m) then Some (APIVersionFormat (mf_APIVersion m))
      else if mf_Name m = [] then Some NameRequired
      else if \<not> namePattern (mf_Name m) then Some (NameFormat (mf_Name m))
      else if mf_Protocol m = [] then Some ProtocolRequired
      else if mf_Type m = [] then Some TypeRequired
      else if mf_Type m \<noteq> ''decoder'' then Some (TypeUnknown (mf_Type m))
      else validateTransports [] (mf_Transports m))"

definition ProtocolVersion :: string where
  "ProtocolVersion = ''v2''"

definition majorVersion :: "string \<Rightarrow> string" where
  "majorVersion v = takeWhile (\<lambda>c. c \<noteq> CHR ''.'') v"

definition parseManifestAPIVersion :: "string \<Rightarrow> string" where
  "parseManifestAPIVersion s =
     (if take (length apiVersionPrefix) s \<noteq> apiVersionPrefix then [] else drop (length apiVersionPrefix) s)"

datatype versionError = VersionEmpty | VersionFormat string | VersionMismatch string

definition checkManifestVersion :: "'v manifest \<Rightarrow> versionError option" where
  "checkManifestVersion m =
     (if mf_APIVersion m = [] then Some VersionEmpty
      else
        (let declared = parseManifestAPIVersion (mf_APIVersion m) in
         if declared = [] then Some (VersionFormat (mf_APIVersion m))
         else if majorVersion declared \<noteq> majorVersion ProtocolVersion then Some (VersionMismatch declared)
         else None))"

text \<open>The contract check of a manifest: the issues of its rules, all of the severity error.\<close>

definition contractCheck :: "('d, 'n, 'v) gjson_api \<Rightarrow> 'v manifest \<Rightarrow> issue list" where
  "contractCheck api m = (if 0 < length (mf_SemanticRules m) then rulesReport api (mf_SemanticRules m) else [])"

section \<open>The registry\<close>

record 'v plugin =
  pl_InstanceID :: string
  pl_Manifest :: "'v manifest"
  pl_Client :: "nat option"
  pl_LastHeartbeat :: time
  pl_Online :: bool
  pl_Owner :: string

datatype eventType = EvRegister | EvDeregister | EvOnline | EvOffline | EvRegisterFailed

record pluginEvent =
  pe_Type :: eventType
  pe_InstanceID :: string
  pe_Name :: string
  pe_Online :: bool
  pe_Timestamp :: time
  pe_Error :: string
  pe_Owner :: string

record registerFailure =
  rf_Name :: string
  rf_Error :: string
  rf_Owner :: string
  rf_Timestamp :: time

definition maxRecentFailures :: nat where
  "maxRecentFailures = 20"

definition failureTTL :: time where
  "failureTTL = 15 * 60 * 1000000000"

definition failureDedupWindow :: time where
  "failureDedupWindow = 5 * 60 * 1000000000"

record 'v registry =
  rg_closed :: bool
  rg_plugins :: "(string \<times> 'v plugin) list"
  rg_byName :: "(string \<times> string) list"
  rg_nextID :: nat
  rg_heartbeatSec :: int
  rg_failures :: "registerFailure list"
  rg_failLastSeen :: "(string \<times> time) list"
  rg_listenerSeq :: nat
  rg_listeners :: "(nat \<times> pluginEvent list) list"

definition newRegistryServer :: "int \<Rightarrow> 'v registry" where
  "newRegistryServer heartbeatSec =
     \<lparr>rg_closed = False, rg_plugins = [], rg_byName = [], rg_nextID = 0,
      rg_heartbeatSec = (if heartbeatSec \<le> 0 then 10 else heartbeatSec),
      rg_failures = [], rg_failLastSeen = [], rg_listenerSeq = 0, rg_listeners = []\<rparr>"

definition pluginKey :: "string \<Rightarrow> string \<Rightarrow> string" where
  "pluginKey owner name = (if owner = [] then name else owner @ ''/'' @ name)"

definition pluginKeyCandidates :: "string \<Rightarrow> string \<Rightarrow> string list" where
  "pluginKeyCandidates owner name =
     (if CHR ''/'' \<in> set name \<or> owner = [] then [name] else [pluginKey owner name, name])"

definition subscribe :: "'v registry \<Rightarrow> nat \<times> 'v registry" where
  "subscribe s = (rg_listenerSeq s,
     s\<lparr>rg_listenerSeq := Suc (rg_listenerSeq s), rg_listeners := AList.update (rg_listenerSeq s) [] (rg_listeners s)\<rparr>)"

definition unsubscribe :: "nat \<Rightarrow> 'v registry \<Rightarrow> 'v registry" where
  "unsubscribe k s = s\<lparr>rg_listeners := AList.delete k (rg_listeners s)\<rparr>"

text \<open>A channel holds sixteen events; to a full one nothing is sent.\<close>

definition emit :: "pluginEvent \<Rightarrow> 'v registry \<Rightarrow> 'v registry" where
  "emit ev s = s\<lparr>rg_listeners := map (\<lambda>(k, ch). (k, if length ch < 16 then ch @ [ev] else ch)) (rg_listeners s)\<rparr>"

definition stateEvent :: "eventType \<Rightarrow> string \<Rightarrow> string \<Rightarrow> bool \<Rightarrow> time \<Rightarrow> pluginEvent" where
  "stateEvent ty inst name online now =
     \<lparr>pe_Type = ty, pe_InstanceID = inst, pe_Name = name, pe_Online = online, pe_Timestamp = now, pe_Error = [], pe_Owner = []\<rparr>"

section \<open>Failed registrations\<close>

definition failureKey :: "string \<Rightarrow> string \<Rightarrow> string" where
  "failureKey name err = name @ ''|'' @ err"

definition keyOf :: "registerFailure \<Rightarrow> string" where
  "keyOf f = failureKey (rf_Name f) (rf_Error f)"

text \<open>The walk over the stored failures: expired ones leave, and their key is forgotten.\<close>

fun expireFailures :: "time \<Rightarrow> registerFailure list \<Rightarrow> (string \<times> time) list \<Rightarrow> registerFailure list \<times> (string \<times> time) list" where
  "expireFailures now [] seen = ([], seen)"
| "expireFailures now (f # fs) seen =
     (if now - rf_Timestamp f < failureTTL then
        (case expireFailures now fs seen of (kept, seen') \<Rightarrow> (f # kept, seen'))
      else expireFailures now fs (AList.delete (keyOf f) seen))"

definition recordFailure :: "time \<Rightarrow> string \<Rightarrow> string \<Rightarrow> string \<Rightarrow> 'v registry \<Rightarrow> bool \<times> 'v registry" where
  "recordFailure now name errMsg owner s =
     (let key = failureKey name errMsg in
      if (case map_of (rg_failLastSeen s) key of Some t0 \<Rightarrow> now - t0 < failureDedupWindow | None \<Rightarrow> False) then (False, s)
      else
        (case expireFailures now (rg_failures s) (AList.update key now (rg_failLastSeen s)) of
           (kept0, seen) \<Rightarrow>
             (let kept = kept0 @ [\<lparr>rf_Name = name, rf_Error = errMsg, rf_Owner = owner, rf_Timestamp = now\<rparr>];
                  overflow = length kept - maxRecentFailures;
                  s1 = s\<lparr>rg_failures := drop overflow kept,
                         rg_failLastSeen := fold (\<lambda>f. AList.delete (keyOf f)) (take overflow kept) seen\<rparr>
              in (True, emit \<lparr>pe_Type = EvRegisterFailed, pe_InstanceID = [], pe_Name = name, pe_Online = False,
                              pe_Timestamp = now, pe_Error = errMsg, pe_Owner = owner\<rparr> s1))))"

definition listRegisterFailures :: "time \<Rightarrow> 'v registry \<Rightarrow> registerFailure list" where
  "listRegisterFailures now s = filter (\<lambda>f. now - rf_Timestamp f < failureTTL) (rev (rg_failures s))"

section \<open>Registration, heartbeat, removal\<close>

datatype registerError =
  ParseError string | ManifestInvalid manifestError | VersionInvalid versionError | ContractInvalid "issue list"
| RegistryClosed

definition instanceName :: "string \<Rightarrow> nat \<Rightarrow> string" where
  "instanceName name n = name @ ''-'' @ show_nat n"

definition rejectRegister ::
  "(registerError \<Rightarrow> string) \<Rightarrow> time \<Rightarrow> string \<Rightarrow> string \<Rightarrow> registerError \<Rightarrow> 'v registry \<Rightarrow> (registerError + string) \<times> 'v registry" where
  "rejectRegister errText now name owner e s = (Inl e, snd (recordFailure now name (errText e) owner s))"

definition addPlugin :: "time \<Rightarrow> string \<Rightarrow> 'v manifest \<Rightarrow> 'v registry \<Rightarrow> (registerError + string) \<times> 'v registry" where
  "addPlugin now owner m s =
     (let inst = instanceName (mf_Name m) (Suc (rg_nextID s));
          rp = \<lparr>pl_InstanceID = inst, pl_Manifest = m, pl_Client = None, pl_LastHeartbeat = now, pl_Online = False, pl_Owner = owner\<rparr>;
          nameKey = pluginKey owner (mf_Name m);
          s1 = s\<lparr>rg_nextID := Suc (rg_nextID s)\<rparr>
      in if rg_closed s then (Inl RegistryClosed, s1)
         else
           (let old = (case map_of (rg_byName s) nameKey of
                         Some oldID \<Rightarrow> AList.delete oldID (rg_plugins s) | None \<Rightarrow> rg_plugins s)
            in (Inr inst, emit (stateEvent EvRegister inst (mf_Name m) False now)
                 (s1\<lparr>rg_plugins := AList.update inst rp old, rg_byName := AList.update nameKey inst (rg_byName s)\<rparr>))))"

definition register ::
  "('d, 'n, 'v) gjson_api \<Rightarrow> (registerError \<Rightarrow> string) \<Rightarrow> time \<Rightarrow> string \<Rightarrow> string + 'v manifest \<Rightarrow> 'v registry \<Rightarrow>
   (registerError + string) \<times> 'v registry" where
  "register api errText now owner parsed s =
     (case parsed of
        Inl e \<Rightarrow> rejectRegister errText now [] owner (ParseError e) s
      | Inr m \<Rightarrow>
          (case validateManifest m of
             Some e \<Rightarrow> rejectRegister errText now (mf_Name m) owner (ManifestInvalid e) s
           | None \<Rightarrow>
               (case checkManifestVersion m of
                  Some e \<Rightarrow> rejectRegister errText now (mf_Name m) owner (VersionInvalid e) s
                | None \<Rightarrow>
                    if contractCheck api m \<noteq> [] then
                      rejectRegister errText now (mf_Name m) owner (ContractInvalid (contractCheck api m)) s
                    else addPlugin now owner m s)))"

datatype heartbeatReply = HbOK | HbUnknown | HbTunnelClosed

definition clientClosed :: "(nat \<Rightarrow> bool) \<Rightarrow> 'v plugin \<Rightarrow> bool" where
  "clientClosed dead rp = (case pl_Client rp of Some c \<Rightarrow> dead c | None \<Rightarrow> False)"

definition heartbeat :: "(nat \<Rightarrow> bool) \<Rightarrow> time \<Rightarrow> string \<Rightarrow> 'v registry \<Rightarrow> heartbeatReply \<times> 'v registry" where
  "heartbeat dead now inst s =
     (case map_of (rg_plugins s) inst of
        None \<Rightarrow> (HbUnknown, s)
      | Some rp \<Rightarrow>
          if clientClosed dead rp then (HbTunnelClosed, s)
          else
            (let s1 = s\<lparr>rg_plugins := AList.update inst (rp\<lparr>pl_LastHeartbeat := now, pl_Online := True\<rparr>) (rg_plugins s)\<rparr>
             in (HbOK, if \<not> pl_Online rp then emit (stateEvent EvOnline inst (mf_Name (pl_Manifest rp)) True now) s1 else s1)))"

definition dropPlugin :: "string \<Rightarrow> 'v plugin \<Rightarrow> 'v registry \<Rightarrow> 'v registry" where
  "dropPlugin inst rp s =
     s\<lparr>rg_plugins := AList.delete inst (rg_plugins s),
       rg_byName := AList.delete (pluginKey (pl_Owner rp) (mf_Name (pl_Manifest rp))) (rg_byName s)\<rparr>"

text \<open>The caller of \<open>Deregister\<close> is not looked at: it has no owner argument.\<close>

definition deregister :: "time \<Rightarrow> string \<Rightarrow> 'v registry \<Rightarrow> bool \<times> 'v registry" where
  "deregister now inst s =
     (case map_of (rg_plugins s) inst of
        None \<Rightarrow> (False, s)
      | Some rp \<Rightarrow> (True, emit (stateEvent EvDeregister inst (mf_Name (pl_Manifest rp)) False now) (dropPlugin inst rp s)))"

text \<open>One plugin in the scan for lost ones: the registry, the events of the two lists.\<close>

definition checkOne ::
  "(nat \<Rightarrow> bool) \<Rightarrow> time \<Rightarrow> time \<Rightarrow> string \<times> 'v plugin \<Rightarrow> 'v registry \<times> pluginEvent list \<times> pluginEvent list \<Rightarrow>
   'v registry \<times> pluginEvent list \<times> pluginEvent list" where
  "checkOne dead now timeout entry acc =
     (case (entry, acc) of ((inst, rp), (s, lost, reaped)) \<Rightarrow>
        if pl_Client rp \<noteq> None \<and> pl_Online rp \<and> clientClosed dead rp then
          (s\<lparr>rg_plugins := AList.update inst (rp\<lparr>pl_Online := False\<rparr>) (rg_plugins s)\<rparr>,
           lost @ [stateEvent EvOffline inst (mf_Name (pl_Manifest rp)) False now], reaped)
        else if pl_Client rp = None \<and> 2 * timeout < now - pl_LastHeartbeat rp then
          (dropPlugin inst rp s, lost, reaped @ [stateEvent EvDeregister inst (mf_Name (pl_Manifest rp)) False now])
        else if timeout < now - pl_LastHeartbeat rp \<and> pl_Online rp then
          (s\<lparr>rg_plugins := AList.update inst (rp\<lparr>pl_Online := False\<rparr>) (rg_plugins s)\<rparr>,
           lost @ [stateEvent EvOffline inst (mf_Name (pl_Manifest rp)) False now], reaped)
        else (s, lost, reaped))"

definition checkOffline :: "(nat \<Rightarrow> bool) \<Rightarrow> time \<Rightarrow> time \<Rightarrow> 'v registry \<Rightarrow> 'v registry" where
  "checkOffline dead now timeout s =
     (case fold (checkOne dead now timeout) (rg_plugins s) (s, [], []) of
        (s1, lost, reaped) \<Rightarrow> fold emit (lost @ reaped) s1)"

definition closeRegistry :: "'v registry \<Rightarrow> 'v registry" where
  "closeRegistry s = s\<lparr>rg_closed := True, rg_plugins := [], rg_byName := []\<rparr>"

section \<open>The hooks of the tunnel\<close>

datatype bindReply = BindOK | BindClosed | BindUnknown | BindForeign

definition bindTunnelClient :: "time \<Rightarrow> string \<Rightarrow> string \<Rightarrow> nat \<Rightarrow> 'v registry \<Rightarrow> bindReply \<times> 'v registry" where
  "bindTunnelClient now owner inst client s =
     (if rg_closed s then (BindClosed, s)
      else case map_of (rg_plugins s) inst of
        None \<Rightarrow> (BindUnknown, s)
      | Some rp \<Rightarrow>
          if pl_Owner rp \<noteq> owner then (BindForeign, s)
          else (BindOK, emit (stateEvent EvOnline inst (mf_Name (pl_Manifest rp)) True now)
            (s\<lparr>rg_plugins := AList.update inst (rp\<lparr>pl_Client := Some client, pl_LastHeartbeat := now, pl_Online := True\<rparr>) (rg_plugins s)\<rparr>)))"

definition tunnelDisconnected :: "time \<Rightarrow> string \<Rightarrow> string \<Rightarrow> 'v registry \<Rightarrow> 'v registry" where
  "tunnelDisconnected now owner inst s =
     (if rg_closed s then s
      else case map_of (rg_plugins s) inst of
        None \<Rightarrow> s
      | Some rp \<Rightarrow>
          if pl_Owner rp \<noteq> owner \<or> \<not> pl_Online rp then s
          else emit (stateEvent EvOffline inst (mf_Name (pl_Manifest rp)) False now)
            (s\<lparr>rg_plugins := AList.update inst (rp\<lparr>pl_Online := False\<rparr>) (rg_plugins s)\<rparr>))"

section \<open>Look-up\<close>

definition usable :: "'v plugin \<Rightarrow> bool" where
  "usable rp \<longleftrightarrow> pl_Online rp \<and> pl_Client rp \<noteq> None"

definition visibleTo :: "string \<Rightarrow> 'v plugin \<Rightarrow> bool" where
  "visibleTo owner rp \<longleftrightarrow> (if owner \<noteq> [] then pl_Owner rp = [] \<or> pl_Owner rp = owner else pl_Owner rp = [])"

definition speaks :: "string \<Rightarrow> 'v plugin \<Rightarrow> bool" where
  "speaks hint rp \<longleftrightarrow> mf_Protocol (pl_Manifest rp) = hint \<or> hint \<in> set (mf_Hints (pl_Manifest rp)) \<or>
     hint \<in> set (mf_Transports (pl_Manifest rp))"

definition findFor :: "string \<Rightarrow> string \<Rightarrow> 'v registry \<Rightarrow> nat option" where
  "findFor owner hint s =
     (case find (\<lambda>rp. usable rp \<and> visibleTo owner rp \<and> speaks hint rp) (map snd (rg_plugins s)) of
        Some rp \<Rightarrow> pl_Client rp | None \<Rightarrow> None)"

definition findPlugin :: "string \<Rightarrow> 'v registry \<Rightarrow> nat option" where
  "findPlugin hint s = findFor [] hint s"

fun findByKey :: "string \<Rightarrow> string list \<Rightarrow> 'v registry \<Rightarrow> nat option" where
  "findByKey caller [] s = None"
| "findByKey caller (key # keys) s =
     (case map_of (rg_byName s) key of
        None \<Rightarrow> findByKey caller keys s
      | Some inst \<Rightarrow>
          (case map_of (rg_plugins s) inst of
             None \<Rightarrow> None
           | Some rp \<Rightarrow>
               if \<not> usable rp then None
               else if pl_Owner rp \<noteq> [] \<and> pl_Owner rp \<noteq> caller then None
               else pl_Client rp))"

definition findByName :: "string \<Rightarrow> 'v registry \<Rightarrow> nat option" where
  "findByName name s = findByKey [] [name] s"

definition findByNameFor :: "string \<Rightarrow> string \<Rightarrow> 'v registry \<Rightarrow> nat option" where
  "findByNameFor owner name s = findByKey owner (pluginKeyCandidates owner name) s"

definition amongCandidates :: "string list \<Rightarrow> string \<Rightarrow> string list \<times> string list" where
  "amongCandidates os name = (uniq (concat (map (\<lambda>o'. pluginKeyCandidates o' name) os)), [] # os)"

fun findByKeyAllowed :: "string list \<Rightarrow> string list \<Rightarrow> 'v registry \<Rightarrow> nat option" where
  "findByKeyAllowed [] allowed s = None"
| "findByKeyAllowed (key # keys) allowed s =
     (case map_of (rg_byName s) key of
        None \<Rightarrow> findByKeyAllowed keys allowed s
      | Some inst \<Rightarrow>
          (case map_of (rg_plugins s) inst of
             None \<Rightarrow> findByKeyAllowed keys allowed s
           | Some rp \<Rightarrow>
               if \<not> usable rp then findByKeyAllowed keys allowed s
               else if pl_Owner rp \<notin> set allowed then None
               else pl_Client rp))"

definition findByNameAmong :: "string list \<Rightarrow> string \<Rightarrow> 'v registry \<Rightarrow> nat option" where
  "findByNameAmong os name s =
     (case amongCandidates os name of (keys, allowed) \<Rightarrow>
        if keys = [] then findByNameFor [] name s else findByKeyAllowed keys allowed s)"

datatype 'v manifestReply = Found "'v manifest" | InstanceMissing | NotAccessible | NotRegistered

fun manifestFor :: "string \<Rightarrow> string list \<Rightarrow> 'v registry \<Rightarrow> 'v manifestReply" where
  "manifestFor owner [] s = NotRegistered"
| "manifestFor owner (key # keys) s =
     (case map_of (rg_byName s) key of
        None \<Rightarrow> manifestFor owner keys s
      | Some inst \<Rightarrow>
          (case map_of (rg_plugins s) inst of
             None \<Rightarrow> InstanceMissing
           | Some rp \<Rightarrow> if pl_Owner rp \<noteq> [] \<and> pl_Owner rp \<noteq> owner then NotRegistered else Found (pl_Manifest rp)))"

definition getPluginManifestFor :: "string \<Rightarrow> string \<Rightarrow> 'v registry \<Rightarrow> 'v manifestReply" where
  "getPluginManifestFor owner name s = manifestFor owner (pluginKeyCandidates owner name) s"

fun manifestAmong :: "string list \<Rightarrow> string list \<Rightarrow> 'v registry \<Rightarrow> 'v manifestReply" where
  "manifestAmong [] allowed s = NotRegistered"
| "manifestAmong (key # keys) allowed s =
     (case map_of (rg_byName s) key of
        None \<Rightarrow> manifestAmong keys allowed s
      | Some inst \<Rightarrow>
          (case map_of (rg_plugins s) inst of
             None \<Rightarrow> manifestAmong keys allowed s
           | Some rp \<Rightarrow> if pl_Owner rp \<notin> set allowed then NotAccessible else Found (pl_Manifest rp)))"

definition getPluginManifestAmong :: "string list \<Rightarrow> string \<Rightarrow> 'v registry \<Rightarrow> 'v manifestReply" where
  "getPluginManifestAmong os name s =
     (case amongCandidates os name of (keys, allowed) \<Rightarrow>
        if keys = [] then getPluginManifestFor [] name s else manifestAmong keys allowed s)"

definition nameByClient :: "nat option \<Rightarrow> 'v registry \<Rightarrow> string option" where
  "nameByClient c s =
     (case c of
        None \<Rightarrow> None
      | Some _ \<Rightarrow> map_option (\<lambda>rp. mf_Name (pl_Manifest rp)) (find (\<lambda>rp. pl_Client rp = c) (map snd (rg_plugins s))))"

record pluginSummary =
  sm_InstanceID :: string
  sm_Name :: string
  sm_Protocol :: string
  sm_Type :: string
  sm_Transports :: "string list"
  sm_APIVersion :: string
  sm_Online :: bool
  sm_LastHeartbeat :: time
  sm_Owner :: string

definition summaryOf :: "'v plugin \<Rightarrow> pluginSummary" where
  "summaryOf rp =
     (let m = pl_Manifest rp in
      \<lparr>sm_InstanceID = pl_InstanceID rp, sm_Name = mf_Name m, sm_Protocol = mf_Protocol m, sm_Type = mf_Type m,
       sm_Transports = mf_Transports m, sm_APIVersion = mf_APIVersion m, sm_Online = pl_Online rp,
       sm_LastHeartbeat = pl_LastHeartbeat rp, sm_Owner = pl_Owner rp\<rparr>)"

definition listPlugins :: "'v registry \<Rightarrow> pluginSummary list" where
  "listPlugins s = map (\<lambda>(_, rp). summaryOf rp) (rg_plugins s)"

section \<open>Consistency\<close>

abbreviation keyFor :: "'v plugin \<Rightarrow> string" where
  "keyFor rp \<equiv> pluginKey (pl_Owner rp) (mf_Name (pl_Manifest rp))"

text \<open>
  The two maps describe each other: every plugin is the one its key leads to, every key leads to
  a plugin with that key. Identifiers carry a number that was handed out before.
\<close>

definition maps_ok :: "(string \<rightharpoonup> 'v plugin) \<Rightarrow> (string \<rightharpoonup> string) \<Rightarrow> nat \<Rightarrow> bool" where
  "maps_ok P N next \<longleftrightarrow>
     (\<forall>inst rp. P inst = Some rp \<longrightarrow>
        pl_InstanceID rp = inst \<and> namePattern (mf_Name (pl_Manifest rp)) \<and> N (keyFor rp) = Some inst \<and>
        (\<exists>n \<le> next. inst = instanceName (mf_Name (pl_Manifest rp)) n)) \<and>
     (\<forall>k inst. N k = Some inst \<longrightarrow> (\<exists>rp. P inst = Some rp \<and> keyFor rp = k))"

definition reg_ok :: "'v registry \<Rightarrow> bool" where
  [inv_defs]: "reg_ok s \<longleftrightarrow> distinct (map fst (rg_plugins s)) \<and> distinct (map fst (rg_byName s)) \<and>
     maps_ok (map_of (rg_plugins s)) (map_of (rg_byName s)) (rg_nextID s)"

lemma emit_sel [simp]:
  "rg_plugins (emit ev s) = rg_plugins s" "rg_byName (emit ev s) = rg_byName s" "rg_nextID (emit ev s) = rg_nextID s"
  "rg_closed (emit ev s) = rg_closed s" "rg_failures (emit ev s) = rg_failures s"
  "rg_failLastSeen (emit ev s) = rg_failLastSeen s"
  by (simp_all add: emit_def)

lemma recordFailure_sel [simp]:
  "rg_plugins (snd (recordFailure now name err owner s)) = rg_plugins s"
  "rg_byName (snd (recordFailure now name err owner s)) = rg_byName s"
  "rg_nextID (snd (recordFailure now name err owner s)) = rg_nextID s"
  "rg_closed (snd (recordFailure now name err owner s)) = rg_closed s"
  by (auto simp: recordFailure_def Let_def split: option.splits prod.splits)

lemma reg_ok_cong:
  "rg_plugins s' = rg_plugins s \<Longrightarrow> rg_byName s' = rg_byName s \<Longrightarrow> rg_nextID s' = rg_nextID s \<Longrightarrow> reg_ok s' = reg_ok s"
  by (simp add: reg_ok_def)

lemma reg_ok_emit [simp]: "reg_ok (emit ev s) = reg_ok s"
  by (rule reg_ok_cong) simp_all

lemma reg_ok_new: "reg_ok (newRegistryServer hb)"
  by (simp add: reg_ok_def maps_ok_def newRegistryServer_def)

lemma maps_okD:
  assumes "maps_ok P N next" and "P inst = Some rp"
  shows "pl_InstanceID rp = inst" and "namePattern (mf_Name (pl_Manifest rp))" and "N (keyFor rp) = Some inst"
    and "\<exists>n \<le> next. inst = instanceName (mf_Name (pl_Manifest rp)) n"
  using assms by (auto simp: maps_ok_def)

lemma maps_ok_key: "maps_ok P N next \<Longrightarrow> N k = Some inst \<Longrightarrow> \<exists>rp. P inst = Some rp \<and> keyFor rp = k"
  by (auto simp: maps_ok_def)

lemma maps_ok_uniq:
  "maps_ok P N next \<Longrightarrow> P i = Some p \<Longrightarrow> P j = Some q \<Longrightarrow> keyFor p = keyFor q \<Longrightarrow> i = j"
  using maps_okD(3) by (metis option.inject)

text \<open>A change of a plugin that leaves its identity alone, a removal, and a registration.\<close>

lemma maps_ok_touch:
  assumes "maps_ok P N next" and "P inst = Some rp"
    and "pl_InstanceID rp' = pl_InstanceID rp" and "pl_Manifest rp' = pl_Manifest rp" and "pl_Owner rp' = pl_Owner rp"
  shows "maps_ok (P(inst \<mapsto> rp')) N next"
proof -
  have key: "keyFor rp' = keyFor rp"
    by (simp add: assms(4,5))
  have "\<exists>p. (P(inst \<mapsto> rp')) i = Some p \<and> keyFor p = k" if "N k = Some i" for k i
    using maps_ok_key [OF assms(1) that] assms(2) key by (cases "i = inst") auto
  then show ?thesis
    using assms(1,3,4) maps_okD [OF assms(1,2)] key unfolding maps_ok_def by simp
qed

lemma maps_ok_Suc: "maps_ok P N next \<Longrightarrow> maps_ok P N (Suc next)"
  unfolding maps_ok_def by (meson le_SucI)

lemma maps_ok_drop:
  assumes "maps_ok P N next" and "P inst = Some rp"
  shows "maps_ok (P(inst := None)) (N(keyFor rp := None)) next"
  unfolding maps_ok_def
proof (intro conjI allI impI)
  fix i p
  assume "(P(inst := None)) i = Some p"
  then have p: "P i = Some p" "i \<noteq> inst"
    by (auto split: if_splits)
  then have "keyFor p \<noteq> keyFor rp"
    using maps_ok_uniq [OF assms(1) p(1) assms(2)] by blast
  then show "(N(keyFor rp := None)) (keyFor p) = Some i"
    using maps_okD(3) [OF assms(1) p(1)] by simp
  show "pl_InstanceID p = i" "namePattern (mf_Name (pl_Manifest p))"
      "\<exists>n \<le> next. i = instanceName (mf_Name (pl_Manifest p)) n"
    using maps_okD [OF assms(1) p(1)] by simp_all
next
  fix k i
  assume "(N(keyFor rp := None)) k = Some i"
  then have k: "k \<noteq> keyFor rp" "N k = Some i"
    by (auto split: if_splits)
  from maps_ok_key [OF assms(1) k(2)] obtain p where p: "P i = Some p" "keyFor p = k" by blast
  then have "i \<noteq> inst"
    using k(1) assms(2) by auto
  then show "\<exists>p. (P(inst := None)) i = Some p \<and> keyFor p = k"
    using p by simp
qed

lemma maps_ok_add:
  assumes "maps_ok P N next" and "P inst = None" and "inst = instanceName (mf_Name (pl_Manifest rp)) (Suc next)"
    and "pl_InstanceID rp = inst" and "namePattern (mf_Name (pl_Manifest rp))"
    and P': "\<And>i. P' i = (if N (keyFor rp) = Some i then None else P i)"
  shows "maps_ok (P'(inst \<mapsto> rp)) (N(keyFor rp \<mapsto> inst)) (Suc next)"
  unfolding maps_ok_def
proof (intro conjI allI impI)
  fix i p
  assume p: "(P'(inst \<mapsto> rp)) i = Some p"
  have old: "P i = Some p \<and> N (keyFor rp) \<noteq> Some i" if "i \<noteq> inst"
    using p that by (auto simp: P' split: if_splits)
  show "pl_InstanceID p = i" "namePattern (mf_Name (pl_Manifest p))"
    using old maps_okD(1,2) [OF assms(1)] p assms(4,5) by (cases "i = inst"; auto)+
  show "(N(keyFor rp \<mapsto> inst)) (keyFor p) = Some i"
  proof (cases "i = inst")
    case False
    then have "N (keyFor p) = Some i" "keyFor p \<noteq> keyFor rp"
      using old maps_okD(3) [OF assms(1), of i p] by auto
    then show ?thesis
      by simp
  qed (use p in simp)
  show "\<exists>n \<le> Suc next. i = instanceName (mf_Name (pl_Manifest p)) n"
  proof (cases "i = inst")
    case False
    then show ?thesis
      using old maps_okD(4) [OF assms(1), of i p] le_SucI by blast
  qed (use p assms(3) in auto)
next
  fix k i
  assume k: "(N(keyFor rp \<mapsto> inst)) k = Some i"
  show "\<exists>p. (P'(inst \<mapsto> rp)) i = Some p \<and> keyFor p = k"
  proof (cases "k = keyFor rp")
    case False
    with k maps_ok_key [OF assms(1)] obtain p where p: "P i = Some p" "keyFor p = k"
      by auto
    have "N (keyFor rp) \<noteq> Some i"
      using maps_ok_key [OF assms(1), of "keyFor rp" i] p False by auto
    then show ?thesis
      using p assms(2) by (auto simp: P')
  qed (use k in auto)
qed

lemma reg_ok_maps: "reg_ok s \<Longrightarrow> maps_ok (map_of (rg_plugins s)) (map_of (rg_byName s)) (rg_nextID s)"
  by (simp add: reg_ok_def)

lemma reg_ok_touch:
  assumes "reg_ok s" and "map_of (rg_plugins s) inst = Some rp"
    and "pl_InstanceID rp' = pl_InstanceID rp" and "pl_Manifest rp' = pl_Manifest rp" and "pl_Owner rp' = pl_Owner rp"
  shows "reg_ok (s\<lparr>rg_plugins := AList.update inst rp' (rg_plugins s)\<rparr>)"
  using maps_ok_touch [OF reg_ok_maps [OF assms(1)] assms(2-5)] assms(1)
  by (simp add: reg_ok_def update_conv' distinct_update)

lemma reg_ok_drop:
  assumes "reg_ok s" and "map_of (rg_plugins s) inst = Some rp"
  shows "reg_ok (dropPlugin inst rp s)"
  using maps_ok_drop [OF reg_ok_maps [OF assms(1)] assms(2)] assms(1)
  by (simp add: reg_ok_def dropPlugin_def delete_conv' distinct_delete)

lemma instanceName_inj: "instanceName a n = instanceName b m \<longleftrightarrow> a = b \<and> n = m"
proof -
  have "CHR ''-'' \<notin> set (show_nat k)" for k
    by (rule show_nat_no_sep) simp
  then show ?thesis
    unfolding instanceName_def using split_last [of a "CHR ''-''" "show_nat n" b "show_nat m"] show_nat_inj
    by auto
qed

lemma addPlugin_fresh:
  assumes "reg_ok s"
  shows "map_of (rg_plugins s) (instanceName name (Suc (rg_nextID s))) = None"
proof (rule ccontr)
  assume "map_of (rg_plugins s) (instanceName name (Suc (rg_nextID s))) \<noteq> None"
  then obtain rp where "map_of (rg_plugins s) (instanceName name (Suc (rg_nextID s))) = Some rp"
    by auto
  from maps_okD(4) [OF reg_ok_maps [OF assms] this] show False
    by (auto simp: instanceName_inj)
qed

lemma reg_ok_add:
  assumes "reg_ok s" and "namePattern (mf_Name m)"
  shows "reg_ok (snd (addPlugin now owner m s))"
proof (cases "rg_closed s")
  case True
  then show ?thesis
    using assms(1) by (simp add: reg_ok_def addPlugin_def Let_def maps_ok_Suc)
next
  case False
  define inst where "inst = instanceName (mf_Name m) (Suc (rg_nextID s))"
  define rp where "rp = \<lparr>pl_InstanceID = inst, pl_Manifest = m, pl_Client = None, pl_LastHeartbeat = now, pl_Online = False, pl_Owner = owner\<rparr>"
  define ps where "ps = (case map_of (rg_byName s) (keyFor rp) of Some oldID \<Rightarrow> AList.delete oldID (rg_plugins s) | None \<Rightarrow> rg_plugins s)"
  have rp: "keyFor rp = pluginKey owner (mf_Name m)" "pl_InstanceID rp = inst" "pl_Manifest rp = m"
    by (simp_all add: rp_def)
  have ps: "map_of ps i = (if map_of (rg_byName s) (keyFor rp) = Some i then None else map_of (rg_plugins s) i)" for i
    by (auto simp: ps_def delete_conv' split: option.splits)
  have "maps_ok ((map_of ps)(inst \<mapsto> rp)) ((map_of (rg_byName s))(keyFor rp \<mapsto> inst)) (Suc (rg_nextID s))"
    using addPlugin_fresh [OF assms(1)] assms(2)
    by (intro maps_ok_add [OF reg_ok_maps [OF assms(1)] _ _ _ _ ps]) (simp_all add: rp inst_def)
  moreover have "distinct (map fst ps)"
    using assms(1) by (auto simp: reg_ok_def ps_def distinct_delete split: option.splits)
  ultimately show ?thesis
    using assms(1) False
    by (simp add: reg_ok_def addPlugin_def Let_def update_conv' distinct_update
        flip: inst_def rp_def rp(1) ps_def)
qed

lemma validateManifest_name: "validateManifest m = None \<Longrightarrow> namePattern (mf_Name m)"
  by (auto simp: validateManifest_def split: if_splits)

lemma reg_ok_register:
  assumes "reg_ok s"
  shows "reg_ok (snd (register api errText now owner parsed s))"
proof -
  have "reg_ok (snd (rejectRegister errText now name owner e s))" for name e
    using assms by (simp add: rejectRegister_def cong: reg_ok_cong)
  then show ?thesis
    using reg_ok_add [OF assms validateManifest_name] by (auto simp: register_def split: sum.splits option.splits)
qed

lemma reg_ok_heartbeat: "reg_ok s \<Longrightarrow> reg_ok (snd (heartbeat dead now inst s))"
  by (auto simp: heartbeat_def Let_def split: option.splits intro!: reg_ok_touch)

lemma reg_ok_deregister: "reg_ok s \<Longrightarrow> reg_ok (snd (deregister now inst s))"
  by (auto simp: deregister_def split: option.splits intro!: reg_ok_drop)

lemma reg_ok_bind: "reg_ok s \<Longrightarrow> reg_ok (snd (bindTunnelClient now owner inst c s))"
  by (auto simp: bindTunnelClient_def split: option.splits intro!: reg_ok_touch)

lemma reg_ok_disconnected: "reg_ok s \<Longrightarrow> reg_ok (tunnelDisconnected now owner inst s)"
  by (auto simp: tunnelDisconnected_def split: option.splits intro!: reg_ok_touch)

lemma reg_ok_close: "reg_ok (closeRegistry s)"
  by (simp add: reg_ok_def maps_ok_def closeRegistry_def)

text \<open>The scan handles each entry as it found it: the entries still to come are untouched.\<close>

lemma checkOne_other: "j \<noteq> i \<Longrightarrow> map_of (rg_plugins (fst (checkOne dead now timeout (i, rp) (s, a, b)))) j = map_of (rg_plugins s) j"
  by (simp add: checkOne_def dropPlugin_def update_conv' delete_conv')

lemma reg_ok_checkOne:
  assumes "reg_ok s" and "map_of (rg_plugins s) i = Some rp"
  shows "reg_ok (fst (checkOne dead now timeout (i, rp) (s, a, b)))"
  using reg_ok_drop [OF assms] reg_ok_touch [OF assms, of "rp\<lparr>pl_Online := False\<rparr>"] assms(1)
  by (simp add: checkOne_def)

lemma reg_ok_check_fold:
  assumes "reg_ok s" and "distinct (map fst es)" and "\<And>i rp. (i, rp) \<in> set es \<Longrightarrow> map_of (rg_plugins s) i = Some rp"
  shows "reg_ok (fst (fold (checkOne dead now timeout) es (s, a, b)))"
  using assms
proof (induction es arbitrary: s a b)
  case (Cons e es)
  obtain i rp where e: "e = (i, rp)"
    by (cases e)
  obtain s1 a1 b1 where c: "checkOne dead now timeout e (s, a, b) = (s1, a1, b1)"
    using prod_cases3 by blast
  have rest: "map_of (rg_plugins s1) j = Some p" if "(j, p) \<in> set es" for j p
  proof -
    have "j \<noteq> i"
      using that Cons.prems(2) e by force
    then show ?thesis
      using checkOne_other [of j i dead now timeout rp s a b] c e Cons.prems(3) [of j p] that by simp
  qed
  have "reg_ok s1"
    using reg_ok_checkOne [of s i rp dead now timeout a b] Cons.prems(1,3) c e by simp
  then show ?case
    using Cons.IH [of s1 a1 b1] Cons.prems(2) rest c by simp
qed simp

lemma reg_ok_fold_emit: "reg_ok (fold emit evs s) = reg_ok s"
  by (induction evs arbitrary: s) simp_all

lemma reg_ok_checkOffline:
  assumes "reg_ok s"
  shows "reg_ok (checkOffline dead now timeout s)"
proof -
  have d: "distinct (map fst (rg_plugins s))"
    using assms by (simp add: reg_ok_def)
  have "reg_ok (fst (fold (checkOne dead now timeout) (rg_plugins s) (s, [], [])))"
    by (rule reg_ok_check_fold [OF assms d]) (simp add: d)
  then show ?thesis
    by (auto simp: checkOffline_def reg_ok_fold_emit split: prod.splits)
qed

text \<open>Any history of the registry, in the order in which the lock lets the calls through.\<close>

inductive registry_run :: "('d, 'n, 'v) gjson_api \<Rightarrow> (registerError \<Rightarrow> string) \<Rightarrow> 'v registry \<Rightarrow> bool"
  for api :: "('d, 'n, 'v) gjson_api" and errText where
  rr_new: "registry_run api errText (newRegistryServer hb)"
| rr_register: "registry_run api errText s \<Longrightarrow> registry_run api errText (snd (register api errText now owner parsed s))"
| rr_bind: "registry_run api errText s \<Longrightarrow> registry_run api errText (snd (bindTunnelClient now owner inst c s))"
| rr_disconnected: "registry_run api errText s \<Longrightarrow> registry_run api errText (tunnelDisconnected now owner inst s)"
| rr_heartbeat: "registry_run api errText s \<Longrightarrow> registry_run api errText (snd (heartbeat dead now inst s))"
| rr_deregister: "registry_run api errText s \<Longrightarrow> registry_run api errText (snd (deregister now inst s))"
| rr_check: "registry_run api errText s \<Longrightarrow> registry_run api errText (checkOffline dead now timeout s)"
| rr_subscribe: "registry_run api errText s \<Longrightarrow> registry_run api errText (snd (subscribe s))"
| rr_unsubscribe: "registry_run api errText s \<Longrightarrow> registry_run api errText (unsubscribe k s)"
| rr_close: "registry_run api errText s \<Longrightarrow> registry_run api errText (closeRegistry s)"

lemma registry_run_ok: "registry_run api errText s \<Longrightarrow> reg_ok s"
  by (induction rule: registry_run.induct)
    (simp_all add: reg_ok_new reg_ok_register reg_ok_bind reg_ok_disconnected reg_ok_heartbeat reg_ok_deregister
      reg_ok_checkOffline reg_ok_close subscribe_def unsubscribe_def cong: reg_ok_cong)

section \<open>Names and owners\<close>

lemma namePattern_no_slash: "namePattern n \<Longrightarrow> CHR ''/'' \<notin> set n"
  by (auto simp: namePattern_def lower_def digitChar_def list_all_iff less_eq_char_def split: list.splits)

lemma pluginKey_inj:
  assumes "CHR ''/'' \<notin> set n" and "CHR ''/'' \<notin> set m"
  shows "pluginKey a n = pluginKey b m \<longleftrightarrow> a = b \<and> n = m"
proof (cases "a = [] \<or> b = []")
  case True
  then show ?thesis
    using assms by (auto simp: pluginKey_def split: if_splits)
next
  case False
  then show ?thesis
    using split_last [of a "CHR ''/''" n b m] assms by (auto simp: pluginKey_def)
qed

text \<open>What a key leads to.\<close>

definition look :: "'v registry \<Rightarrow> string \<Rightarrow> 'v plugin option" where
  "look s k = (case map_of (rg_byName s) k of None \<Rightarrow> None | Some i \<Rightarrow> map_of (rg_plugins s) i)"

lemma look_Some:
  assumes "reg_ok s"
  shows "look s k = Some rp \<longleftrightarrow> (\<exists>i. map_of (rg_byName s) k = Some i \<and> map_of (rg_plugins s) i = Some rp \<and> keyFor rp = k)"
  using maps_ok_key [OF reg_ok_maps [OF assms], of k] by (auto simp: look_def split: option.splits)

lemma look_owner:
  assumes "reg_ok s" and "look s (pluginKey ow n) = Some rp" and "CHR ''/'' \<notin> set n"
  shows "pl_Owner rp = ow" and "mf_Name (pl_Manifest rp) = n"
proof -
  obtain i where i: "map_of (rg_plugins s) i = Some rp" "keyFor rp = pluginKey ow n"
    using assms(2) by (auto simp: look_Some [OF assms(1)])
  have "CHR ''/'' \<notin> set (mf_Name (pl_Manifest rp))"
    by (rule namePattern_no_slash) (rule maps_okD(2) [OF reg_ok_maps [OF assms(1)] i(1)])
  with i(2) assms(3) show "pl_Owner rp = ow" "mf_Name (pl_Manifest rp) = n"
    using pluginKey_inj by blast+
qed

lemma look_None:
  assumes "reg_ok s"
  shows "look s k = None \<longleftrightarrow> map_of (rg_byName s) k = None"
  using maps_ok_key [OF reg_ok_maps [OF assms], of k] by (auto simp: look_def split: option.splits)

lemma findByKey_look:
  assumes "reg_ok s"
  shows "findByKey caller (k # ks) s =
    (case look s k of
       None \<Rightarrow> findByKey caller ks s
     | Some rp \<Rightarrow> if \<not> usable rp \<or> pl_Owner rp \<noteq> [] \<and> pl_Owner rp \<noteq> caller then None else pl_Client rp)"
  using look_None [OF assms, of k] by (auto simp: look_def split: option.splits)

lemma addPlugin_open:
  assumes "reg_ok s" and "\<not> rg_closed s" and "namePattern (mf_Name m)"
  obtains rp s' where "snd (addPlugin now owner m s) = s'" and "fst (addPlugin now owner m s) = Inr (pl_InstanceID rp)"
    and "pl_Owner rp = owner" and "pl_Manifest rp = m" and "pl_Client rp = None" and "\<not> pl_Online rp"
    and "\<And>k. look s' k = (if k = pluginKey owner (mf_Name m) then Some rp else look s k)"
    and "map_of (rg_plugins s') (pl_InstanceID rp) = Some rp" and "rg_closed s' = rg_closed s"
    and "rg_plugins s' = (case map_of (rg_byName s) (pluginKey owner (mf_Name m)) of
           Some oldID \<Rightarrow> AList.delete oldID (rg_plugins s) | None \<Rightarrow> rg_plugins s) @ [(pl_InstanceID rp, rp)]"
proof -
  define inst where "inst = instanceName (mf_Name m) (Suc (rg_nextID s))"
  define rp where "rp = \<lparr>pl_InstanceID = inst, pl_Manifest = m, pl_Client = None, pl_LastHeartbeat = now, pl_Online = False, pl_Owner = owner\<rparr>"
  define ps where "ps = (case map_of (rg_byName s) (pluginKey owner (mf_Name m)) of Some oldID \<Rightarrow> AList.delete oldID (rg_plugins s) | None \<Rightarrow> rg_plugins s)"
  define s' where "s' = snd (addPlugin now owner m s)"
  have s': "rg_plugins s' = AList.update inst rp ps" "rg_byName s' = AList.update (pluginKey owner (mf_Name m)) inst (rg_byName s)"
      "rg_closed s' = rg_closed s" "fst (addPlugin now owner m s) = Inr inst"
    using assms(2) by (simp_all add: s'_def addPlugin_def Let_def inst_def rp_def ps_def)
  have fresh: "map_of (rg_plugins s) inst = None"
    using addPlugin_fresh [OF assms(1)] by (simp add: inst_def)
  have ps: "map_of ps i = (if map_of (rg_byName s) (pluginKey owner (mf_Name m)) = Some i then None else map_of (rg_plugins s) i)" for i
    by (auto simp: ps_def delete_conv' split: option.splits)
  have app: "AList.update inst rp ps = ps @ [(inst, rp)]"
  proof (rule update_new)
    have "map_of ps inst = None"
      using fresh by (simp add: ps)
    then show "inst \<notin> fst ` set ps"
      by (simp add: map_of_eq_None_iff)
  qed
  have look_s': "look s' k = (if k = pluginKey owner (mf_Name m) then Some rp else look s k)" for k
  proof (cases "k = pluginKey owner (mf_Name m)")
    case False
    show ?thesis
    proof (cases "map_of (rg_byName s) k")
      case (Some i)
      obtain p where p: "map_of (rg_plugins s) i = Some p" "keyFor p = k"
        using maps_ok_key [OF reg_ok_maps [OF assms(1)] Some] by blast
      then have "i \<noteq> inst" "map_of (rg_byName s) (pluginKey owner (mf_Name m)) \<noteq> Some i"
        using fresh False maps_ok_key [OF reg_ok_maps [OF assms(1)], of "pluginKey owner (mf_Name m)" i] by auto
      then show ?thesis
        using Some False p by (simp add: look_def s' update_conv' ps)
    qed (use False in \<open>simp add: look_def s' update_conv'\<close>)
  qed (simp add: look_def s' update_conv')
  have rp: "pl_InstanceID rp = inst" "pl_Owner rp = owner" "pl_Manifest rp = m" "pl_Client rp = None" "\<not> pl_Online rp"
    by (simp_all add: rp_def)
  have plugins: "rg_plugins s' = ps @ [(inst, rp)]"
    by (simp add: s'(1) app)
  have inst: "map_of (rg_plugins s') inst = Some rp"
    by (simp add: s'(1) update_conv')
  show thesis
    by (rule that [OF s'_def [symmetric], of rp])
      (simp_all add: s'(3,4) rp inst look_s', simp add: plugins ps_def)
qed

lemma find_delete_key:
  "distinct (map fst xs) \<Longrightarrow> (\<And>v. map_of xs k = Some v \<Longrightarrow> \<not> P v) \<Longrightarrow> find P (map snd (AList.delete k xs)) = find P (map snd xs)"
proof (induction xs)
  case (Cons x xs)
  obtain j v where x: "x = (j, v)" by (cases x)
  show ?case
  proof (cases "j = k")
    case True
    then have "AList.delete k xs = xs"
      using Cons.prems(1) x by (simp add: delete_id)
    then show ?thesis
      using Cons.prems(2) [of v] True x by simp
  qed (use Cons x in auto)
qed simp

lemma findFor_snoc: "\<not> P rp \<Longrightarrow> find P (map snd (xs @ [(i, rp)])) = find P (map snd xs)"
  by (induction xs) auto

section \<open>Properties\<close>

text \<open>
  (C26) The registry names its plugins exactly: whatever calls it has served, a name in the scope
  of an owner leads to an instance if and only if that instance is registered, with that owner
  and that name; so an owner has at most one live instance per name, and no name leads nowhere.
\<close>

theorem registry_names_exact:
  assumes "registry_run api errText s" and "namePattern n"
  shows "(map_of (rg_byName s) (pluginKey ow n) = Some inst) =
    (\<exists>rp. map_of (rg_plugins s) inst = Some rp \<and> pl_InstanceID rp = inst \<and> pl_Owner rp = ow \<and> mf_Name (pl_Manifest rp) = n)"
proof
  have ok: "reg_ok s"
    by (rule registry_run_ok [OF assms(1)])
  note maps = reg_ok_maps [OF ok]
  assume n: "map_of (rg_byName s) (pluginKey ow n) = Some inst"
  from maps_ok_key [OF maps n] obtain rp where rp: "map_of (rg_plugins s) inst = Some rp"
    by blast
  then have "look s (pluginKey ow n) = Some rp"
    using n by (simp add: look_def)
  with rp show "\<exists>rp. map_of (rg_plugins s) inst = Some rp \<and> pl_InstanceID rp = inst \<and> pl_Owner rp = ow \<and> mf_Name (pl_Manifest rp) = n"
    using look_owner [OF ok _ namePattern_no_slash [OF assms(2)]] maps_okD(1) [OF maps rp] by blast
next
  assume "\<exists>rp. map_of (rg_plugins s) inst = Some rp \<and> pl_InstanceID rp = inst \<and> pl_Owner rp = ow \<and> mf_Name (pl_Manifest rp) = n"
  then show "map_of (rg_byName s) (pluginKey ow n) = Some inst"
    using maps_okD(3) [OF reg_ok_maps [OF registry_run_ok [OF assms(1)]]] by blast
qed

lemma findByKey_sound:
  "findByKey caller keys s = Some c \<Longrightarrow>
   \<exists>inst rp. map_of (rg_plugins s) inst = Some rp \<and> usable rp \<and> pl_Client rp = Some c \<and> (pl_Owner rp = [] \<or> pl_Owner rp = caller)"
  by (induction caller keys s rule: findByKey.induct) (auto split: option.splits if_splits)

lemma findByKeyAllowed_sound:
  "findByKeyAllowed keys allowed s = Some c \<Longrightarrow>
   \<exists>inst rp. map_of (rg_plugins s) inst = Some rp \<and> usable rp \<and> pl_Client rp = Some c \<and> pl_Owner rp \<in> set allowed"
  by (induction keys allowed s rule: findByKeyAllowed.induct) (auto split: option.splits if_splits)

lemma amongCandidates_snd [simp]: "snd (amongCandidates os name) = [] # os"
  by (simp add: amongCandidates_def)

lemma findByNameAmong_sound:
  assumes "findByNameAmong os name s = Some c"
  shows "\<exists>inst rp. map_of (rg_plugins s) inst = Some rp \<and> usable rp \<and> pl_Client rp = Some c \<and> (pl_Owner rp = [] \<or> pl_Owner rp \<in> set os)"
proof (cases "fst (amongCandidates os name) = []")
  case True
  then have "findByNameFor [] name s = Some c"
    using assms by (auto simp: findByNameAmong_def split: prod.splits)
  then show ?thesis
    using findByKey_sound unfolding findByNameFor_def by blast
next
  case False
  then have "findByKeyAllowed (fst (amongCandidates os name)) ([] # os) s = Some c"
    using assms amongCandidates_snd [of os name]
    by (cases "amongCandidates os name") (simp add: findByNameAmong_def)
  from findByKeyAllowed_sound [OF this] show ?thesis
    by auto
qed

lemma findFor_sound:
  assumes "reg_ok s" and "findFor owner hint s = Some c"
  shows "\<exists>inst rp. map_of (rg_plugins s) inst = Some rp \<and> usable rp \<and> pl_Client rp = Some c \<and> (pl_Owner rp = [] \<or> pl_Owner rp = owner)"
proof -
  obtain rp where rp: "rp \<in> snd ` set (rg_plugins s)" "usable rp" "visibleTo owner rp" "pl_Client rp = Some c"
    using assms(2) by (auto simp: findFor_def find_Some_iff split: option.splits) (metis image_eqI length_map nth_map nth_mem)
  then obtain inst where "(inst, rp) \<in> set (rg_plugins s)"
    by auto
  then have "map_of (rg_plugins s) inst = Some rp"
    using assms(1) by (simp add: reg_ok_def)
  then show ?thesis
    using rp by (auto simp: visibleTo_def split: if_splits)
qed

lemma foreign_name:
  assumes "reg_ok s" and "reg_ok s'" and "CHR ''/'' \<notin> set n" and "ow' \<noteq> []" and "ow' \<noteq> ow"
    and s': "\<And>k. look s' k = (if k = pluginKey ow' n then Some rp else look s k)" and "\<not> usable rp"
  shows "findByNameFor ow name s' = findByNameFor ow name s"
proof (cases "pluginKey ow' n \<in> set (pluginKeyCandidates ow name)")
  case True
  have one: "pluginKeyCandidates ow name = [pluginKey ow' n]"
  proof (rule ccontr)
    assume no: "pluginKeyCandidates ow name \<noteq> [pluginKey ow' n]"
    then have "CHR ''/'' \<notin> set name" "ow \<noteq> []" "pluginKey ow' n = pluginKey ow name \<or> pluginKey ow' n = pluginKey [] name"
      using True by (auto simp: pluginKeyCandidates_def pluginKey_def split: if_splits)
    then show False
      using assms(3-5) pluginKey_inj by metis
  qed
  have "findByKey ow [pluginKey ow' n] s = None"
  proof (cases "look s (pluginKey ow' n)")
    case (Some rp)
    from look_owner(1) [OF assms(1) this assms(3)] show ?thesis
      using Some assms(4,5) by (simp only: findByKey_look [OF assms(1)]) simp
  qed (simp only: findByKey_look [OF assms(1)], simp)
  moreover have "findByKey ow [pluginKey ow' n] s' = None"
    using assms(7) by (simp only: findByKey_look [OF assms(2)] s') simp
  ultimately show ?thesis
    by (simp only: findByNameFor_def one)
next
  case False
  have "findByKey ow keys s' = findByKey ow keys s" if "pluginKey ow' n \<notin> set keys" for keys
    using that by (induction keys) (simp, simp only: findByKey_look [OF assms(1)] findByKey_look [OF assms(2)],
      auto simp: s' split: option.splits)
  then show ?thesis
    using False by (simp add: findByNameFor_def)
qed

lemma foreign_protocol:
  fixes s :: "'a registry"
  assumes "reg_ok s" and "CHR ''/'' \<notin> set n" and "ow' \<noteq> []" and "ow' \<noteq> ow" and "\<not> usable rp"
    and "rg_plugins s' = (case map_of (rg_byName s) (pluginKey ow' n) of
           Some oldID \<Rightarrow> AList.delete oldID (rg_plugins s) | None \<Rightarrow> rg_plugins s) @ [(i, rp)]"
  shows "findFor ow hint s' = findFor ow hint s"
proof -
  define P :: "'a plugin \<Rightarrow> bool" where "P = (\<lambda>rp. usable rp \<and> visibleTo ow rp \<and> speaks hint rp)"
  have "\<not> P v" if "map_of (rg_byName s) (pluginKey ow' n) = Some j" "map_of (rg_plugins s) j = Some v" for j v
  proof -
    have "look s (pluginKey ow' n) = Some v"
      using that by (simp add: look_def)
    from look_owner(1) [OF assms(1) this assms(2)] show ?thesis
      using assms(3,4) by (auto simp: P_def visibleTo_def)
  qed
  moreover have "distinct (map fst (rg_plugins s))" "\<not> P rp"
    using assms(1,5) by (simp_all add: reg_ok_def P_def)
  ultimately have "find P (map snd (rg_plugins s')) = find P (map snd (rg_plugins s))"
    unfolding assms(6) findFor_snoc [of P rp, OF \<open>\<not> P rp\<close>]
    using find_delete_key [of "rg_plugins s" _ P] by (cases "map_of (rg_byName s) (pluginKey ow' n)") simp_all
  then show ?thesis
    by (simp add: findFor_def P_def)
qed

text \<open>
  Owners do not reach each other's plugins: a client that any of the look-ups returns belongs
  to a plugin that is online with an open binding and that is the caller's own, or one of the
  owners the caller was given, or nobody's; and a registration by another owner, accepted or not,
  changes nothing of what a caller finds by name or by protocol.
\<close>

theorem plugins_stay_with_owner:
  assumes "registry_run api errText s" and "ow' \<noteq> []" and "ow' \<noteq> ow"
    and "s' = snd (register api errText now ow' parsed s)"
  shows "findByNameFor ow name s' = findByNameFor ow name s \<and> findFor ow hint s' = findFor ow hint s \<and>
    (\<forall>c. findByNameFor ow name s = Some c \<or> findFor ow hint s = Some c \<longrightarrow>
       (\<exists>inst rp. map_of (rg_plugins s) inst = Some rp \<and> usable rp \<and> pl_Client rp = Some c \<and> (pl_Owner rp = [] \<or> pl_Owner rp = ow))) \<and>
    (\<forall>c. findByNameAmong os name s = Some c \<longrightarrow>
       (\<exists>inst rp. map_of (rg_plugins s) inst = Some rp \<and> usable rp \<and> pl_Client rp = Some c \<and> (pl_Owner rp = [] \<or> pl_Owner rp \<in> set os)))"
proof -
  have ok: "reg_ok s"
    by (rule registry_run_ok [OF assms(1)])
  have ok': "reg_ok s'"
    unfolding assms(4) by (rule reg_ok_register [OF ok])
  have same: "findByKey ow keys s' = findByKey ow keys s" "findFor ow hint s' = findFor ow hint s"
    if "rg_plugins s' = rg_plugins s" "rg_byName s' = rg_byName s" for keys
    using that by (induction keys) (auto simp: findFor_def split: option.splits)
  have "findByNameFor ow name s' = findByNameFor ow name s \<and> findFor ow hint s' = findFor ow hint s"
  proof (cases "rg_plugins s' = rg_plugins s \<and> rg_byName s' = rg_byName s")
    case True
    then show ?thesis
      using same by (simp add: findByNameFor_def)
  next
    case False
    then obtain m where s': "s' = snd (addPlugin now ow' m s)" and m: "validateManifest m = None"
      unfolding assms(4) register_def rejectRegister_def
      by (auto split: sum.splits option.splits if_splits)
    then have opn: "\<not> rg_closed s"
      using False by (auto simp: addPlugin_def Let_def)
    note name = validateManifest_name [OF m]
    show ?thesis
    proof (rule addPlugin_open [OF ok opn name, of now ow'])
      fix rp s1
      assume s1: "snd (addPlugin now ow' m s) = s1" and rp: "\<not> pl_Online rp"
        and lk: "\<And>k. look s1 k = (if k = pluginKey ow' (mf_Name m) then Some rp else look s k)"
        and ps: "rg_plugins s1 = (case map_of (rg_byName s) (pluginKey ow' (mf_Name m)) of
          Some oldID \<Rightarrow> AList.delete oldID (rg_plugins s) | None \<Rightarrow> rg_plugins s) @ [(pl_InstanceID rp, rp)]"
      have u: "\<not> usable rp"
        using rp by (simp add: usable_def)
      have "s1 = s'"
        using s1 s' by simp
      then show ?thesis
        using foreign_name [OF ok ok' namePattern_no_slash [OF name] assms(2,3) _ u]
          foreign_protocol [OF ok namePattern_no_slash [OF name] assms(2,3) u] lk ps by blast
    qed
  qed
  then show ?thesis
    using findByKey_sound findFor_sound [OF ok] findByNameAmong_sound unfolding findByNameFor_def by blast
qed

text \<open>
  (C0) The newest registration wins: once a manifest is accepted and the plugin opens its tunnel
  with the identifier it was given, the owner's look-up of that name returns that very tunnel,
  whatever instance of the name was registered before.
\<close>

theorem newest_registration_found:
  assumes "registry_run api errText s" and "register api errText now ow (Inr m) s = (Inr inst, s1)"
  shows "fst (bindTunnelClient now' ow inst c s1) = BindOK \<and>
    findByNameFor ow (mf_Name m) (snd (bindTunnelClient now' ow inst c s1)) = Some c"
proof -
  have ok: "reg_ok s"
    by (rule registry_run_ok [OF assms(1)])
  have v: "validateManifest m = None" and add: "addPlugin now ow m s = (Inr inst, s1)"
    using assms(2) by (auto simp: register_def rejectRegister_def split: option.splits if_splits)
  then have opn: "\<not> rg_closed s"
    by (auto simp: addPlugin_def Let_def split: if_splits)
  obtain rp where inst: "inst = pl_InstanceID rp" and rp: "pl_Owner rp = ow" "pl_Manifest rp = m"
    and lk: "look s1 (pluginKey ow (mf_Name m)) = Some rp" and at: "map_of (rg_plugins s1) inst = Some rp"
    and opn1: "\<not> rg_closed s1"
    by (rule addPlugin_open [OF ok opn validateManifest_name [OF v], of now ow]) (use add opn in auto)
  define rp' where "rp' = rp\<lparr>pl_Client := Some c, pl_LastHeartbeat := now', pl_Online := True\<rparr>"
  define s2 where "s2 = snd (bindTunnelClient now' ow inst c s1)"
  have s2: "rg_plugins s2 = AList.update inst rp' (rg_plugins s1)" "rg_byName s2 = rg_byName s1"
    and b: "fst (bindTunnelClient now' ow inst c s1) = BindOK"
    using opn1 at rp(1) by (simp_all add: s2_def bindTunnelClient_def rp'_def)
  have ok1: "reg_ok s1"
    using reg_ok_add [OF ok validateManifest_name [OF v], of now ow] add by simp
  have ok2: "reg_ok s2"
    unfolding s2_def by (rule reg_ok_bind [OF ok1])
  have "map_of (rg_byName s1) (pluginKey ow (mf_Name m)) = Some inst"
    using maps_okD(3) [OF reg_ok_maps [OF ok1] at] rp by simp
  then have "look s2 (pluginKey ow (mf_Name m)) = Some rp'"
    by (simp add: look_def s2 update_conv')
  moreover have "\<exists>ks. pluginKeyCandidates ow (mf_Name m) = pluginKey ow (mf_Name m) # ks"
    using namePattern_no_slash [OF validateManifest_name [OF v]] by (auto simp: pluginKeyCandidates_def pluginKey_def)
  ultimately have "findByNameFor ow (mf_Name m) s2 = Some c"
    using rp by (auto simp: findByNameFor_def findByKey_look [OF ok2] rp'_def usable_def simp del: findByKey.simps)
  then show ?thesis
    using b by (simp add: s2_def)
qed

lemma expireFailures_forgets:
  "map_of (snd (expireFailures now fs seen)) k = None" if "map_of seen k = None" for seen :: "(string \<times> time) list"
  using that by (induction now fs seen rule: expireFailures.induct) (auto simp: delete_conv' split: prod.splits)

lemma expireFailures_expired:
  "f \<in> set fs \<Longrightarrow> failureTTL \<le> now - rf_Timestamp f \<Longrightarrow> map_of (snd (expireFailures now fs seen)) (keyOf f) = None"
proof (induction now fs seen rule: expireFailures.induct)
  case (2 now g gs seen)
  show ?case
  proof (cases "now - rf_Timestamp g < failureTTL")
    case True
    with 2 show ?thesis
      by (auto split: prod.splits)
  next
    case False
    show ?thesis
    proof (cases "f = g")
      case True
      then show ?thesis
        using False by (simp add: expireFailures_forgets delete_conv')
    next
      case f: False
      then show ?thesis
        using 2(2) [OF False] 2(3,4) False by simp
    qed
  qed
qed simp

lemma fold_delete_None:
  "map_of seen k = None \<Longrightarrow> map_of (fold (\<lambda>f. AList.delete (g f)) fs seen) k = None" for seen :: "('a \<times> 'b) list"
  by (induction fs arbitrary: seen) (simp_all add: delete_conv')

text \<open>
  The suppression of repeated failures fails after a while: when a failure is recorded again
  while an older, expired one with the same text is still stored, its key is forgotten in the
  same call, and the next repetition is recorded and announced once more, however soon it comes,
  where the comment promises at most one per five minutes.
\<close>

theorem failure_reported_twice:
  assumes "f \<in> set (rg_failures s)" and "failureTTL \<le> now - rf_Timestamp f"
    and "\<forall>t. map_of (rg_failLastSeen s) (keyOf f) = Some t \<longrightarrow> failureDedupWindow \<le> now - t"
  shows "let (first, s1) = recordFailure now (rf_Name f) (rf_Error f) owner s
    in first \<and> fst (recordFailure (now + d) (rf_Name f) (rf_Error f) owner' s1)"
proof -
  define key where "key = keyOf f"
  have k: "failureKey (rf_Name f) (rf_Error f) = key"
    by (simp add: key_def keyOf_def)
  obtain first s1 where r: "recordFailure now (rf_Name f) (rf_Error f) owner s = (first, s1)"
    by fastforce
  obtain kept seen where e: "expireFailures now (rg_failures s) (AList.update key now (rg_failLastSeen s)) = (kept, seen)"
    by fastforce
  have "map_of seen key = None"
    using expireFailures_expired [OF assms(1,2), of "AList.update key now (rg_failLastSeen s)"] e by (simp add: key_def)
  then have "map_of (rg_failLastSeen s1) key = None"
    and "first"
    using r assms(3)
    by (auto simp: recordFailure_def k e Let_def simp flip: key_def split: option.splits if_splits
        intro!: fold_delete_None)
  then have "fst (recordFailure (now + d) (rf_Name f) (rf_Error f) owner' s1)"
    by (simp add: recordFailure_def k Let_def split: prod.splits)
  then show ?thesis
    using r \<open>first\<close> by simp
qed

text \<open>
  The end of a replaced tunnel takes down its replacement: when a plugin opens a second
  tunnel for its instance and the first one ends afterwards, the instance is marked offline and
  no look-up finds it, although the tunnel it is bound to is open.
\<close>

theorem late_disconnect_hides_live_tunnel:
  assumes "\<not> rg_closed s" and "map_of (rg_plugins s) inst = Some rp"
    and "s1 = snd (bindTunnelClient t1 (pl_Owner rp) inst c1 s)"
    and "s2 = snd (bindTunnelClient t2 (pl_Owner rp) inst c2 s1)"
    and "s3 = tunnelDisconnected t3 (pl_Owner rp) inst s2"
  shows "\<exists>rp'. map_of (rg_plugins s3) inst = Some rp' \<and> pl_Client rp' = Some c2 \<and> \<not> usable rp' \<and>
    fst (bindTunnelClient t2 (pl_Owner rp) inst c2 s1) = BindOK"
  using assms by (simp add: bindTunnelClient_def tunnelDisconnected_def update_conv' usable_def)

text \<open>
  Every caller can remove every plugin: \<open>Deregister\<close> looks at the identifier only, and the
  identifiers are the public name with a small running number.
\<close>

theorem anyone_deregisters:
  assumes "registry_run api errText s" and "map_of (rg_plugins s) inst = Some rp"
  shows "(\<exists>n \<le> rg_nextID s. inst = instanceName (mf_Name (pl_Manifest rp)) n) \<and>
    (let (done, s') = deregister now inst s in done \<and> map_of (rg_plugins s') inst = None)"
  using maps_okD(4) [OF reg_ok_maps [OF registry_run_ok [OF assms(1)]] assms(2)] assms(2)
  by (simp add: deregister_def dropPlugin_def delete_conv')

section \<open>Witnesses\<close>

text \<open>Manifests enter the registry through \<open>register\<close> only, and stay as they are.\<close>

definition manifests_from :: "('v manifest \<Rightarrow> bool) \<Rightarrow> 'v registry \<Rightarrow> bool" where
  "manifests_from P s \<longleftrightarrow> (\<forall>inst rp. map_of (rg_plugins s) inst = Some rp \<longrightarrow> P (pl_Manifest rp))"

lemma manifests_from_check:
  assumes "\<And>x. x \<in> set es \<Longrightarrow> P (pl_Manifest (snd x))" and "manifests_from P (fst acc)"
  shows "manifests_from P (fst (fold (checkOne dead now timeout) es acc))"
  using assms
proof (induction es arbitrary: acc)
  case (Cons x es)
  obtain i rp s a b where x: "x = (i, rp)" "acc = (s, a, b)"
    by (metis prod.collapse)
  have "manifests_from P (fst (checkOne dead now timeout x acc))"
    using Cons.prems(1) [of x] Cons.prems(2)
    by (auto simp: x checkOne_def dropPlugin_def manifests_from_def update_conv' delete_conv')
  then show ?case
    using Cons.IH [of "checkOne dead now timeout x acc"] Cons.prems(1) by simp
qed simp

lemma manifests_from_run:
  assumes "registry_run api errText s"
    and P: "\<And>m. validateManifest m = None \<Longrightarrow> checkManifestVersion m = None \<Longrightarrow> contractCheck api m = [] \<Longrightarrow> P m"
  shows "manifests_from P s"
  using assms(1)
proof (induction rule: registry_run.induct)
  case (rr_register s now owner parsed)
  have rej: "manifests_from P (snd (rejectRegister errText now name owner e s))" for name e
    using rr_register by (simp add: rejectRegister_def manifests_from_def)
  have "manifests_from P (snd (addPlugin now owner m s))" if "P m" for m
    using rr_register that by (auto simp: addPlugin_def manifests_from_def Let_def update_conv' delete_conv' split: option.split if_splits)
  then show ?case
    using rej P by (simp add: register_def split: sum.split option.split)
next
  case (rr_check s dead now timeout)
  have d: "distinct (map fst (rg_plugins s))"
    using registry_run_ok [OF rr_check.hyps] by (simp add: reg_ok_def)
  have e: "rg_plugins (fold emit evs t) = rg_plugins t" for evs and t :: "'c registry"
    by (induction evs arbitrary: t) simp_all
  have "manifests_from P (fst (fold (checkOne dead now timeout) (rg_plugins s) (s, [], [])))"
    using rr_check.IH d by (intro manifests_from_check) (auto simp: manifests_from_def)
  then show ?case
    by (auto simp: checkOffline_def manifests_from_def e split: prod.splits)
qed (auto simp: manifests_from_def newRegistryServer_def bindTunnelClient_def tunnelDisconnected_def heartbeat_def deregister_def dropPlugin_def
    subscribe_def unsubscribe_def closeRegistry_def Let_def update_conv' delete_conv' split: option.split if_splits)

lemma accepted_version:
  assumes "validateManifest m = None" and "checkManifestVersion m = None"
  shows "mf_APIVersion m = ''gt.decoder/v2''"
proof -
  define v where "v = mf_APIVersion m"
  have v: "take 12 v = ''gt.decoder/v''" "list_all digitChar (drop 12 v)"
    using assms(1) by (auto simp: validateManifest_def apiVersionPattern_def v_def split: if_splits)
  have split: "v = ''gt.decoder/v'' @ drop 12 v"
    using v(1) append_take_drop_id [of 12 v] by metis
  have "takeWhile (\<lambda>c. c \<noteq> CHR ''.'') (drop 11 v) = ''v2''"
    using assms(2) by (auto simp: checkManifestVersion_def parseManifestAPIVersion_def majorVersion_def ProtocolVersion_def
        apiVersionPrefix_def v_def Let_def eval_nat_numeral split: if_splits)
  moreover have "drop 11 v = CHR ''v'' # drop 12 v"
    by (subst split) simp
  moreover have "takeWhile (\<lambda>c. c \<noteq> CHR ''.'') (drop 12 v) = drop 12 v"
    using v(2) by (auto simp: takeWhile_eq_all_conv list_all_iff digitChar_def less_eq_char_def)
  ultimately have "drop 12 v = ''2''"
    by simp
  then show ?thesis
    using split by (simp add: v_def)
qed

lemma accepted_transports: "validateTransports seen ts = None \<Longrightarrow> set ts \<subseteq> {''tcp'', ''udp''} \<and> distinct ts \<and> set ts \<inter> set seen = {}"
  by (induction seen ts rule: validateTransports.induct) (auto split: if_splits)


text \<open>Two owners register a plugin of the same name and bind it, one of them twice.\<close>

definition demoDecoder :: "vval manifest" where
  "demoDecoder = \<lparr>mf_APIVersion = ''gt.decoder/v2'', mf_Name = ''chess'', mf_Protocol = ''chess'', mf_Type = ''decoder'',
     mf_Transports = [''tcp''], mf_Hints = [], mf_SemanticRules = []\<rparr>"

definition demoReg1 :: "vval registry" where
  "demoReg1 = snd (register demo_api (\<lambda>_. []) 5 ''ann'' (Inr demoDecoder) (newRegistryServer 0))"

definition demoReg :: "vval registry" where
  "demoReg = snd (bindTunnelClient 6 ''ann'' ''chess-1'' 41 demoReg1)"

lemma demo_register: "register demo_api (\<lambda>_. []) 5 ''ann'' (Inr demoDecoder) (newRegistryServer 0) = (Inr ''chess-1'', demoReg1)"
  by code_simp

lemma demo_registry: "registry_run demo_api (\<lambda>_. []) demoReg1" "registry_run demo_api (\<lambda>_. []) demoReg"
  unfolding demoReg_def demoReg1_def by (intro rr_bind rr_register rr_new)+

lemma demo_plugin:
  "map_of (rg_byName demoReg) (pluginKey ''ann'' ''chess'') = Some ''chess-1''"
  "map_of (rg_plugins demoReg) ''chess-1'' = Some \<lparr>pl_InstanceID = ''chess-1'', pl_Manifest = demoDecoder, pl_Client = Some 41,
     pl_LastHeartbeat = 6, pl_Online = True, pl_Owner = ''ann''\<rparr>"
  "rg_closed demoReg = False" "rg_nextID demoReg = 1"
  by code_simp+

theorem registry_names_exact_witness:
  "\<exists>rp. map_of (rg_plugins demoReg) ''chess-1'' = Some rp \<and> pl_InstanceID rp = ''chess-1'' \<and> pl_Owner rp = ''ann'' \<and>
     mf_Name (pl_Manifest rp) = ''chess''"
proof -
  have "namePattern ''chess''"
    by code_simp
  from registry_names_exact [OF demo_registry(2) this, of "''ann''" "''chess-1''"] demo_plugin(1) show ?thesis
    by blast
qed

theorem plugins_stay_with_owner_witness:
  "let s' = snd (register demo_api (\<lambda>_. []) 7 ''bob'' (Inr demoDecoder) demoReg) in
   findByNameFor ''ann'' ''chess'' s' = Some 41 \<and> findFor ''ann'' ''tcp'' s' = Some 41"
proof -
  let ?s' = "snd (register demo_api (\<lambda>_. []) 7 ''bob'' (Inr demoDecoder) demoReg)"
  have "findByNameFor ''ann'' ''chess'' demoReg = Some 41" "findFor ''ann'' ''tcp'' demoReg = Some 41"
    by code_simp+
  then show ?thesis
    using plugins_stay_with_owner [OF demo_registry(2), of "''bob''" "''ann''" ?s' 7 "Inr demoDecoder" "''chess''" "''tcp''" "[]"]
    by (simp add: Let_def)
qed

theorem newest_registration_found_witness:
  "findByNameFor ''ann'' ''chess'' (snd (bindTunnelClient 9 ''ann'' ''chess-1'' 7 demoReg1)) = Some 7"
  using newest_registration_found [OF rr_new demo_register, of 9 7] by (simp add: demoDecoder_def)

definition demoFailed :: "vval registry" where
  "demoFailed = snd (recordFailure 0 ''chess'' ''bad'' ''ann'' (newRegistryServer 0))"

theorem failure_reported_twice_witness:
  "let (first, s1) = recordFailure (16 * 60 * 1000000000) ''chess'' ''bad'' ''ann'' demoFailed
   in first \<and> fst (recordFailure (16 * 60 * 1000000000 + 1000000000) ''chess'' ''bad'' ''ann'' s1)"
proof -
  let ?f = "\<lparr>rf_Name = ''chess'', rf_Error = ''bad'', rf_Owner = ''ann'', rf_Timestamp = 0\<rparr>"
  have f: "rg_failures demoFailed = [?f]" "map_of (rg_failLastSeen demoFailed) (keyOf ?f) = Some 0"
    by code_simp+
  show ?thesis
    using failure_reported_twice [of ?f demoFailed "16 * 60 * 1000000000" "''ann''" 1000000000 "''ann''"]
    by (simp add: f failureTTL_def failureDedupWindow_def)
qed

theorem late_disconnect_hides_live_tunnel_witness:
  "\<exists>rp'. map_of (rg_plugins (tunnelDisconnected 12 ''ann'' ''chess-1'' (snd (bindTunnelClient 11 ''ann'' ''chess-1'' 43
     (snd (bindTunnelClient 10 ''ann'' ''chess-1'' 42 demoReg)))))) ''chess-1'' = Some rp' \<and> pl_Client rp' = Some 43 \<and> \<not> usable rp'"
  using late_disconnect_hides_live_tunnel [OF _ demo_plugin(2) refl refl refl, of 12 11 43 10 42] demo_plugin(3)
  by simp blast

theorem anyone_deregisters_witness:
  "\<exists>n \<le> (1 :: nat). ''chess-1'' = instanceName ''chess'' n"
  using anyone_deregisters [OF demo_registry(2) demo_plugin(2), of 5] by (simp add: demo_plugin(4) demoDecoder_def)

text \<open>
  A look-up by protocol takes whichever plugin the walk meets first, also when the caller's own
  plugin matches: two walks over the same plugins give different tunnels.
\<close>

theorem own_plugin_not_preferred:
  "let own = \<lparr>pl_InstanceID = ''chess-1'', pl_Manifest = demoDecoder, pl_Client = Some 1, pl_LastHeartbeat = 0,
               pl_Online = True, pl_Owner = ''ann''\<rparr>;
       sys = own\<lparr>pl_InstanceID := ''chess-2'', pl_Client := Some 2, pl_Owner := []\<rparr>;
       s = (newRegistryServer 0)\<lparr>rg_plugins := [(''chess-1'', own), (''chess-2'', sys)]\<rparr>;
       s' = s\<lparr>rg_plugins := rev (rg_plugins s)\<rparr>
   in findFor ''ann'' ''tcp'' s = Some 1 \<and> findFor ''ann'' ''tcp'' s' = Some 2"
  by code_simp


end
