(* ===== verification/Plugin_Tunnel.thy ===== *)
theory Plugin_Tunnel
  imports Plugin_Registry
begin

text \<open>
  \<open>pkg/plugin/tunnel.go\<close>: one connection that a plugin opens carries many logical decode streams,
  told apart by a 32-bit stream number. A session keeps the table of its open streams; the state
  of a stream, \<open>pendingStream\<close>, is an object that its client still holds when the table has
  forgotten it, so objects live in a store of their own under the number of the call that made
  them. A channel is the list of what is in it; where a \<open>select\<close> has several ready cases the
  argument \<open>pick\<close> says which one Go takes. Responses arrive decoded, or as \<open>None\<close> when the
  decoder refuses the bytes. Frames to the plugin are kept in the order in which they are sent.
\<close>

section \<open>Sessions and streams\<close>

datatype streamError =
  PluginError string | BadFrame | QueueOverflow | SessionClosed | ContextError | SendAfterClose | EndOfStream

datatype 'q tunnelFrame = FRequest u32 'q | FHalfClose u32 | FReset u32 streamError

record 'r pendingStream =
  ps_respCh :: "'r list"
  ps_done :: bool
  ps_endErr :: "streamError option"
  ps_cancelled :: bool
  ps_streamID :: u32
  ps_halfClosed :: bool

record ('q, 'r) tunnelSession =
  ts_owner :: string
  ts_instanceID :: string
  ts_objs :: "(nat \<times> 'r pendingStream) list"
  ts_streams :: "(u32 \<times> nat) list"
  ts_nextStreamID :: nat
  ts_closed :: bool
  ts_broken :: bool
  ts_respQueueSize :: nat
  ts_sent :: "'q tunnelFrame list"

definition defaultTunnelRespQueueSize :: nat where
  "defaultTunnelRespQueueSize = 64"

definition newSession :: "string \<Rightarrow> string \<Rightarrow> nat \<Rightarrow> ('q, 'r) tunnelSession" where
  "newSession owner inst queueSize =
     \<lparr>ts_owner = owner, ts_instanceID = inst, ts_objs = [], ts_streams = [], ts_nextStreamID = 0, ts_closed = False,
      ts_broken = False, ts_respQueueSize = queueSize, ts_sent = []\<rparr>"

definition setObj :: "nat \<Rightarrow> 'r pendingStream \<Rightarrow> ('q, 'r) tunnelSession \<Rightarrow> ('q, 'r) tunnelSession" where
  "setObj h ps s = s\<lparr>ts_objs := AList.update h ps (ts_objs s)\<rparr>"

text \<open>\<open>finish\<close> runs once: the first end is the one that stays.\<close>

definition finishPending :: "streamError option \<Rightarrow> 'r pendingStream \<Rightarrow> 'r pendingStream" where
  "finishPending err ps =
     (if ps_done ps then ps
      else ps\<lparr>ps_endErr := (case err of Some e \<Rightarrow> Some e | None \<Rightarrow> ps_endErr ps), ps_done := True, ps_cancelled := True\<rparr>)"

definition finishObj :: "streamError option \<Rightarrow> nat \<Rightarrow> ('q, 'r) tunnelSession \<Rightarrow> ('q, 'r) tunnelSession" where
  "finishObj err h s = (case map_of (ts_objs s) h of None \<Rightarrow> s | Some ps \<Rightarrow> setObj h (finishPending err ps) s)"

text \<open>A frame is sent only while the context of the connection is alive.\<close>

definition sendFrame :: "'q tunnelFrame \<Rightarrow> ('q, 'r) tunnelSession \<Rightarrow> bool \<times> ('q, 'r) tunnelSession" where
  "sendFrame f s = (if ts_broken s then (False, s) else (True, s\<lparr>ts_sent := ts_sent s @ [f]\<rparr>))"

definition abortStream :: "u32 \<Rightarrow> streamError \<Rightarrow> ('q, 'r) tunnelSession \<Rightarrow> ('q, 'r) tunnelSession" where
  "abortStream sid cause s =
     (case map_of (ts_streams s) sid of
        None \<Rightarrow> s
      | Some h \<Rightarrow>
          snd (sendFrame (FReset sid cause)
            (finishObj (Some cause) h (s\<lparr>ts_streams := AList.delete sid (ts_streams s)\<rparr>))))"

definition deliverResponse :: "bool \<Rightarrow> u32 \<Rightarrow> 'r option \<Rightarrow> ('q, 'r) tunnelSession \<Rightarrow> ('q, 'r) tunnelSession" where
  "deliverResponse pick sid data s =
     (case data of
        None \<Rightarrow> abortStream sid BadFrame s
      | Some resp \<Rightarrow>
          (case map_of (ts_streams s) sid of
             None \<Rightarrow> s
           | Some h \<Rightarrow>
               (case map_of (ts_objs s) h of
                  None \<Rightarrow> s
                | Some ps \<Rightarrow>
                    (let room = length (ps_respCh ps) < ts_respQueueSize s in
                     if room \<and> (pick \<or> \<not> (ps_done ps \<or> ts_closed s)) then
                       setObj h (ps\<lparr>ps_respCh := ps_respCh ps @ [resp]\<rparr>) s
                     else if ps_done ps \<or> ts_closed s then s
                     else abortStream sid QueueOverflow s))))"

definition finishStream :: "u32 \<Rightarrow> string \<Rightarrow> ('q, 'r) tunnelSession \<Rightarrow> ('q, 'r) tunnelSession" where
  "finishStream sid err s =
     (case map_of (ts_streams s) sid of
        None \<Rightarrow> s
      | Some h \<Rightarrow>
          finishObj (if err = [] then None else Some (PluginError err)) h (s\<lparr>ts_streams := AList.delete sid (ts_streams s)\<rparr>))"

datatype 'r payload = Response "'r option" | StreamEnd string | OtherFrame

definition dispatch :: "bool \<Rightarrow> u32 \<Rightarrow> 'r payload \<Rightarrow> ('q, 'r) tunnelSession \<Rightarrow> ('q, 'r) tunnelSession" where
  "dispatch pick sid p s =
     (case p of
        Response r \<Rightarrow> deliverResponse pick sid r s
      | StreamEnd e \<Rightarrow> finishStream sid e s
      | OtherFrame \<Rightarrow> s)"

definition closeSession :: "('q, 'r) tunnelSession \<Rightarrow> ('q, 'r) tunnelSession" where
  "closeSession s =
     (if ts_closed s then s
      else fold (\<lambda>(_, h). finishObj (Some SessionClosed) h) (ts_streams s) (s\<lparr>ts_closed := True, ts_streams := []\<rparr>))"

section \<open>The client of a session\<close>

definition newStream :: "u32 \<Rightarrow> 'r pendingStream" where
  "newStream sid =
     \<lparr>ps_respCh = [], ps_done = False, ps_endErr = None, ps_cancelled = False, ps_streamID = sid, ps_halfClosed = False\<rparr>"

definition decodeV2 :: "('q, 'r) tunnelSession \<Rightarrow> (streamError + nat) \<times> ('q, 'r) tunnelSession" where
  "decodeV2 s =
     (if ts_broken s then (Inl ContextError, s)
      else
        (let h = Suc (ts_nextStreamID s);
             sid = of_nat h;
             s1 = s\<lparr>ts_nextStreamID := h\<rparr>
         in if ts_closed s then (Inl SessionClosed, s1)
            else (Inr h, (setObj h (newStream sid) s1)\<lparr>ts_streams := AList.update sid h (ts_streams s1)\<rparr>)))"

text \<open>
  The context of a call is cancelled, by its caller or by the end of the stream; the watcher then
  resets the stream, or goes away when it sees the end first.
\<close>

definition cancelCall :: "nat \<Rightarrow> ('q, 'r) tunnelSession \<Rightarrow> ('q, 'r) tunnelSession" where
  "cancelCall h s = (case map_of (ts_objs s) h of None \<Rightarrow> s | Some ps \<Rightarrow> setObj h (ps\<lparr>ps_cancelled := True\<rparr>) s)"

definition watchStream :: "bool \<Rightarrow> nat \<Rightarrow> ('q, 'r) tunnelSession \<Rightarrow> ('q, 'r) tunnelSession" where
  "watchStream pick h s =
     (case map_of (ts_objs s) h of
        None \<Rightarrow> s
      | Some ps \<Rightarrow>
          if \<not> ps_cancelled ps \<or> (ps_done ps \<and> \<not> pick) then s
          else
            (let s1 = finishObj (Some ContextError) h (snd (sendFrame (FReset (ps_streamID ps) ContextError) s))
             in if map_of (ts_streams s1) (ps_streamID ps) = Some h
                then s1\<lparr>ts_streams := AList.delete (ps_streamID ps) (ts_streams s1)\<rparr> else s1))"

definition sendRequest :: "nat \<Rightarrow> 'q \<Rightarrow> ('q, 'r) tunnelSession \<Rightarrow> streamError option \<times> ('q, 'r) tunnelSession" where
  "sendRequest h req s =
     (case map_of (ts_objs s) h of
        None \<Rightarrow> (None, s)
      | Some ps \<Rightarrow>
          if ps_halfClosed ps then (Some SendAfterClose, s)
          else if ps_done ps then (Some (case ps_endErr ps of Some e \<Rightarrow> e | None \<Rightarrow> EndOfStream), s)
          else
            (case sendFrame (FRequest (ps_streamID ps) req) s of
               (True, s1) \<Rightarrow> (None, s1)
             | (False, s1) \<Rightarrow> (Some ContextError, s1)))"

definition closeSend :: "nat \<Rightarrow> ('q, 'r) tunnelSession \<Rightarrow> ('q, 'r) tunnelSession" where
  "closeSend h s =
     (case map_of (ts_objs s) h of
        None \<Rightarrow> s
      | Some ps \<Rightarrow> snd (sendFrame (FHalfClose (ps_streamID ps)) (setObj h (ps\<lparr>ps_halfClosed := True\<rparr>) s)))"

text \<open>\<open>Recv\<close>: a queued response first, then the end; \<open>Blocked\<close> when there is neither.\<close>

datatype 'r received = Got 'r | Ended streamError | Blocked

definition recvAfterDone :: "'r pendingStream \<Rightarrow> 'r received" where
  "recvAfterDone ps = (case ps_endErr ps of Some e \<Rightarrow> Ended e | None \<Rightarrow> Ended EndOfStream)"

definition recv :: "nat \<Rightarrow> ('q, 'r) tunnelSession \<Rightarrow> 'r received \<times> ('q, 'r) tunnelSession" where
  "recv h s =
     (case map_of (ts_objs s) h of
        None \<Rightarrow> (Blocked, s)
      | Some ps \<Rightarrow>
          (case ps_respCh ps of
             r # rs \<Rightarrow> (Got r, setObj h (ps\<lparr>ps_respCh := rs\<rparr>) s)
           | [] \<Rightarrow>
               if ps_done ps then (recvAfterDone ps, s)
               else if ps_cancelled ps then (Ended ContextError, s)
               else (Blocked, s)))"

section \<open>What a session keeps\<close>

text \<open>
  A stream is in the table under its number exactly as long as it has not ended, so that an end
  frame, a reset or the end of the session will end it, and nothing else reaches it afterwards; a
  closed session has an empty table.
\<close>

definition session_ok :: "('q, 'r) tunnelSession \<Rightarrow> bool" where
  [inv_defs]: "session_ok s \<longleftrightarrow>
     (\<forall>h ps. map_of (ts_objs s) h = Some ps \<longrightarrow>
        1 \<le> h \<and> h \<le> ts_nextStreamID s \<and> ps_streamID ps = of_nat h \<and> (\<not> ps_done ps \<longrightarrow> map_of (ts_streams s) (of_nat h) = Some h)) \<and>
     (\<forall>sid h. map_of (ts_streams s) sid = Some h \<longrightarrow> sid = of_nat h \<and> (\<exists>ps. map_of (ts_objs s) h = Some ps \<and> \<not> ps_done ps)) \<and>
     (ts_closed s \<longrightarrow> ts_streams s = [])"

text \<open>One step of a session: a frame from the plugin, a call of a client, a watcher, or the end.\<close>

datatype ('q, 'r) sessionOp =
  OpFrame bool u32 "'r payload" | OpDecode | OpCancel nat | OpWatch bool nat | OpSend nat 'q | OpCloseSend nat | OpRecv nat
| OpBreak | OpClose

fun sessionStep :: "('q, 'r) sessionOp \<Rightarrow> ('q, 'r) tunnelSession \<Rightarrow> ('q, 'r) tunnelSession" where
  "sessionStep (OpFrame pick sid p) s = dispatch pick sid p s"
| "sessionStep OpDecode s = snd (decodeV2 s)"
| "sessionStep (OpCancel h) s = cancelCall h s"
| "sessionStep (OpWatch pick h) s = watchStream pick h s"
| "sessionStep (OpSend h q) s = snd (sendRequest h q s)"
| "sessionStep (OpCloseSend h) s = closeSend h s"
| "sessionStep (OpRecv h) s = snd (recv h s)"
| "sessionStep OpBreak s = s\<lparr>ts_broken := True\<rparr>"
| "sessionStep OpClose s = closeSession s"

text \<open>A run is a sequence of such steps; each is one critical section of the code.\<close>

definition runSession :: "('q, 'r) sessionOp list \<Rightarrow> ('q, 'r) tunnelSession \<Rightarrow> ('q, 'r) tunnelSession" where
  "runSession ops s = fold sessionStep ops s"

lemma runSession_simps [simp]:
  "runSession [] s = s" "runSession (op # ops) s = runSession ops (sessionStep op s)"
  by (simp_all add: runSession_def)

lemma session_okI:
  assumes "\<And>h ps. map_of (ts_objs s) h = Some ps \<Longrightarrow> 1 \<le> h \<and> h \<le> ts_nextStreamID s \<and> ps_streamID ps = of_nat h"
    and "\<And>h ps. map_of (ts_objs s) h = Some ps \<Longrightarrow> \<not> ps_done ps \<Longrightarrow> map_of (ts_streams s) (of_nat h) = Some h"
    and "\<And>sid h. map_of (ts_streams s) sid = Some h \<Longrightarrow> sid = of_nat h \<and> (\<exists>ps. map_of (ts_objs s) h = Some ps \<and> \<not> ps_done ps)"
    and "ts_closed s \<Longrightarrow> ts_streams s = []"
  shows "session_ok s"
  using assms unfolding session_ok_def by blast

lemma session_okD:
  assumes "session_ok s"
  shows "map_of (ts_objs s) h = Some ps \<Longrightarrow> 1 \<le> h \<and> h \<le> ts_nextStreamID s \<and> ps_streamID ps = of_nat h"
    and "map_of (ts_objs s) h = Some ps \<Longrightarrow> \<not> ps_done ps \<Longrightarrow> map_of (ts_streams s) (of_nat h) = Some h"
    and "map_of (ts_streams s) sid = Some h \<Longrightarrow> sid = of_nat h \<and> (\<exists>ps. map_of (ts_objs s) h = Some ps \<and> \<not> ps_done ps)"
    and "ts_closed s \<Longrightarrow> ts_streams s = []"
  using assms unfolding session_ok_def by blast+

lemma session_ok_table:
  assumes "session_ok s" and "map_of (ts_objs s) h = Some ps"
  shows "map_of (ts_streams s) sid = Some h \<longleftrightarrow> sid = of_nat h \<and> \<not> ps_done ps"
  using session_okD(2,3) [OF assms(1)] assms(2) by fastforce

lemma sendFrame_sel [simp]:
  "ts_objs (snd (sendFrame f s)) = ts_objs s" "ts_streams (snd (sendFrame f s)) = ts_streams s"
  "ts_nextStreamID (snd (sendFrame f s)) = ts_nextStreamID s" "ts_closed (snd (sendFrame f s)) = ts_closed s"
  "ts_respQueueSize (snd (sendFrame f s)) = ts_respQueueSize s"
  by (simp_all add: sendFrame_def)

lemma setObj_sel [simp]:
  "map_of (ts_objs (setObj h ps s)) = (map_of (ts_objs s))(h \<mapsto> ps)" "ts_streams (setObj h ps s) = ts_streams s"
  "ts_nextStreamID (setObj h ps s) = ts_nextStreamID s" "ts_closed (setObj h ps s) = ts_closed s"
  "ts_respQueueSize (setObj h ps s) = ts_respQueueSize s"
  by (simp_all add: setObj_def update_conv')

lemma finishPending_sel [simp]:
  "ps_done (finishPending e ps)" "ps_streamID (finishPending e ps) = ps_streamID ps" "ps_respCh (finishPending e ps) = ps_respCh ps"
  "finishPending e' (finishPending e ps) = finishPending e ps" "ps_done ps \<Longrightarrow> finishPending e ps = ps"
  by (simp_all add: finishPending_def)

lemma finishObj_sel [simp]:
  "map_of (ts_objs (finishObj e g s)) h = (if h = g then map_option (finishPending e) (map_of (ts_objs s) h) else map_of (ts_objs s) h)"
  "ts_streams (finishObj e g s) = ts_streams s" "ts_nextStreamID (finishObj e g s) = ts_nextStreamID s"
  "ts_closed (finishObj e g s) = ts_closed s" "ts_respQueueSize (finishObj e g s) = ts_respQueueSize s"
  by (simp_all add: finishObj_def split: option.split)

text \<open>Only the tables, the counter and the flag matter.\<close>

lemma session_ok_cong:
  "map_of (ts_objs s') = map_of (ts_objs s) \<Longrightarrow> map_of (ts_streams s') = map_of (ts_streams s) \<Longrightarrow> ts_nextStreamID s' = ts_nextStreamID s \<Longrightarrow>
   ts_closed s' = ts_closed s \<Longrightarrow> session_ok s \<Longrightarrow> session_ok s'"
  by (cases "ts_streams s'") (auto simp: session_ok_def)

text \<open>A change of an object that neither ends nor revives it.\<close>

lemma session_ok_setObj:
  assumes "session_ok s" and "map_of (ts_objs s) h = Some ps" and "ps_streamID ps' = ps_streamID ps" and "ps_done ps' = ps_done ps"
  shows "session_ok (setObj h ps' s)"
proof (rule session_okI)
  fix g p
  assume g: "map_of (ts_objs (setObj h ps' s)) g = Some p"
  then show "1 \<le> g \<and> g \<le> ts_nextStreamID (setObj h ps' s) \<and> ps_streamID p = of_nat g"
    using session_okD(1) [OF assms(1), of g] assms(2,3) by (auto split: if_splits)
  show "map_of (ts_streams (setObj h ps' s)) (of_nat g) = Some g" if "\<not> ps_done p"
    using g that session_okD(2) [OF assms(1), of g] assms(2-4) by (auto split: if_splits)
next
  fix sid g
  assume "map_of (ts_streams (setObj h ps' s)) sid = Some g"
  then show "sid = of_nat g \<and> (\<exists>ps. map_of (ts_objs (setObj h ps' s)) g = Some ps \<and> \<not> ps_done ps)"
    using session_okD(3) [OF assms(1), of sid g] assms(2,4) by auto
qed (use session_okD(4) [OF assms(1)] in auto)

text \<open>Taking a stream out of the table and ending it.\<close>

lemma session_ok_end:
  assumes "session_ok s" and "map_of (ts_streams s) sid = Some h"
    and s': "\<And>g. map_of (ts_objs s') g = (if g = h then map_option (finishPending err) (map_of (ts_objs s) g) else map_of (ts_objs s) g)"
      "map_of (ts_streams s') = (map_of (ts_streams s))(sid := None)" "ts_nextStreamID s' = ts_nextStreamID s" "ts_closed s' = ts_closed s"
  shows "session_ok s'"
proof (rule session_okI)
  have sid: "sid = of_nat h"
    using session_okD(3) [OF assms(1,2)] by blast
  fix g p
  assume g: "map_of (ts_objs s') g = Some p"
  then show "1 \<le> g \<and> g \<le> ts_nextStreamID s' \<and> ps_streamID p = of_nat g"
    using session_okD(1) [OF assms(1), of g] by (auto simp: s' split: if_splits)
  show "map_of (ts_streams s') (of_nat g) = Some g" if "\<not> ps_done p"
  proof -
    have gh: "g \<noteq> h" "map_of (ts_objs s) g = Some p"
      using g that by (auto simp: s' split: if_splits)
    then have "map_of (ts_streams s) (of_nat g) = Some g"
      using session_okD(2) [OF assms(1)] that by blast
    then show ?thesis
      using gh(1) assms(2) sid by (auto simp: s')
  qed
next
  fix k g
  assume k: "map_of (ts_streams s') k = Some g"
  have "g \<noteq> h"
    using k session_okD(3) [OF assms(1), of k g] session_okD(3) [OF assms(1,2)] by (auto simp: s' split: if_splits)
  then show "k = of_nat g \<and> (\<exists>ps. map_of (ts_objs s') g = Some ps \<and> \<not> ps_done ps)"
    using k session_okD(3) [OF assms(1), of k g] by (auto simp: s' split: if_splits)
next
  assume "ts_closed s'"
  then show "ts_streams s' = []"
    using session_okD(4) [OF assms(1)] assms(2) by (simp add: s')
qed

lemma session_ok_abort: "session_ok s \<Longrightarrow> session_ok (abortStream sid e s)"
  unfolding abortStream_def by (cases "map_of (ts_streams s) sid") (auto simp: delete_conv' elim!: session_ok_end)

lemma session_ok_finishStream: "session_ok s \<Longrightarrow> session_ok (finishStream sid e s)"
  unfolding finishStream_def by (cases "map_of (ts_streams s) sid") (auto simp: delete_conv' elim!: session_ok_end)

lemma session_ok_deliver: "session_ok s \<Longrightarrow> session_ok (deliverResponse pick sid r s)"
  by (auto simp: deliverResponse_def Let_def split: option.split intro: session_ok_abort session_ok_setObj)

lemma session_ok_dispatch: "session_ok s \<Longrightarrow> session_ok (dispatch pick sid p s)"
  by (simp add: dispatch_def session_ok_deliver session_ok_finishStream split: payload.split)

text \<open>The watcher ends a live stream and takes it out; of an ended one it only repeats the reset.\<close>

lemma session_ok_watch:
  assumes "session_ok s"
  shows "session_ok (watchStream pick h s)"
proof (cases "map_of (ts_objs s) h")
  case (Some ps)
  have sid: "ps_streamID ps = of_nat h"
    using session_okD(1) [OF assms Some] by blast
  show ?thesis
  proof (cases "ps_done ps")
    case True
    then have "map_of (ts_streams s) (of_nat h) \<noteq> Some h"
      using session_ok_table [OF assms Some] by blast
    then show ?thesis
      using assms Some True sid
      by (auto simp: watchStream_def Let_def intro!: session_ok_cong [of _ s])
  next
    case False
    then have "map_of (ts_streams s) (of_nat h) = Some h"
      using session_okD(2) [OF assms Some] by blast
    then show ?thesis
      using assms Some sid by (auto simp: watchStream_def Let_def delete_conv' elim!: session_ok_end)
  qed
qed (simp add: watchStream_def assms)

lemma fold_finishObj:
  "map_of (ts_objs (fold (\<lambda>(_, h). finishObj e h) xs s)) h =
     (if h \<in> snd ` set xs then map_option (finishPending e) (map_of (ts_objs s) h) else map_of (ts_objs s) h)"
  "ts_streams (fold (\<lambda>(_, h). finishObj e h) xs s) = ts_streams s"
  "ts_nextStreamID (fold (\<lambda>(_, h). finishObj e h) xs s) = ts_nextStreamID s"
  "ts_closed (fold (\<lambda>(_, h). finishObj e h) xs s) = ts_closed s"
  by (induction xs arbitrary: s) (auto simp: option.map_comp comp_def)

text \<open>The end of the session ends every live stream and no other.\<close>

lemma closeSession_obj:
  assumes "session_ok s" and "\<not> ts_closed s" and "map_of (ts_objs s) h = Some ps"
  shows "map_of (ts_objs (closeSession s)) h = Some (finishPending (Some SessionClosed) ps)"
proof (cases "ps_done ps")
  case False
  then have "(of_nat h, h) \<in> set (ts_streams s)"
    using session_okD(2) [OF assms(1,3)] map_of_SomeD by fastforce
  then have "h \<in> snd ` set (ts_streams s)"
    by force
  then show ?thesis
    using assms by (simp add: closeSession_def fold_finishObj)
qed (use assms in \<open>simp add: closeSession_def fold_finishObj\<close>)

lemma closeSession_sel [simp]:
  "ts_nextStreamID (closeSession s) = ts_nextStreamID s" "ts_closed (closeSession s)"
  by (simp_all add: closeSession_def fold_finishObj)

lemma closeSession_none: "map_of (ts_objs s) h = None \<Longrightarrow> map_of (ts_objs (closeSession s)) h = None"
  by (simp add: closeSession_def fold_finishObj)

lemma session_ok_close:
  assumes "session_ok s"
  shows "session_ok (closeSession s)"
proof (cases "ts_closed s")
  case False
  have st: "ts_streams (closeSession s) = []"
    using False by (simp add: closeSession_def fold_finishObj)
  show ?thesis
  proof (rule session_okI)
    fix h p
    assume "map_of (ts_objs (closeSession s)) h = Some p"
    then obtain ps where ps: "map_of (ts_objs s) h = Some ps" and p: "p = finishPending (Some SessionClosed) ps"
      using closeSession_none [of s h] closeSession_obj [OF assms False] by (cases "map_of (ts_objs s) h") auto
    show "1 \<le> h \<and> h \<le> ts_nextStreamID (closeSession s) \<and> ps_streamID p = of_nat h"
      using session_okD(1) [OF assms ps] p by simp
    show "map_of (ts_streams (closeSession s)) (of_nat h) = Some h" if "\<not> ps_done p"
      using that p by simp
  qed (simp_all add: st)
qed (simp add: closeSession_def assms)

text \<open>Stream numbers stay distinct while fewer than \<open>2^32\<close> calls were made.\<close>

lemma session_ok_decode:
  assumes "session_ok s" and "Suc (ts_nextStreamID s) < 2 ^ 32"
  shows "session_ok (snd (decodeV2 s))"
proof -
  define h where "h = Suc (ts_nextStreamID s)"
  have fresh: "map_of (ts_objs s) h = None"
    using session_okD(1) [OF assms(1), of h] by (cases "map_of (ts_objs s) h") (auto simp: h_def)
  have inj: "(of_nat g :: u32) \<noteq> of_nat h" if "map_of (ts_objs s) g = Some p" for g p
  proof -
    have "g < h" "h < 2 ^ 32"
      using session_okD(1) [OF assms(1) that] assms(2) by (auto simp: h_def)
    then have "unat (of_nat g :: u32) \<noteq> unat (of_nat h :: u32)"
      by (simp add: unat_of_nat)
    then show ?thesis
      by metis
  qed
  show ?thesis
  proof (cases "ts_broken s \<or> ts_closed s")
    case True
    have "session_ok (s\<lparr>ts_nextStreamID := Suc (ts_nextStreamID s)\<rparr>)" if "ts_closed s"
      using assms(1) unfolding session_ok_def by (simp add: le_SucI)
    then show ?thesis
      using True assms(1) by (auto simp: decodeV2_def Let_def)
  next
    case False
    define s' where "s' = snd (decodeV2 s)"
    obtain ps where s': "map_of (ts_objs s') = (map_of (ts_objs s))(h \<mapsto> ps)"
        "map_of (ts_streams s') = (map_of (ts_streams s))(of_nat h \<mapsto> h)" "ts_nextStreamID s' = h" "\<not> ts_closed s'"
        and ps: "\<not> ps_done ps" "ps_streamID ps = of_nat h"
      using False by (auto simp: s'_def decodeV2_def newStream_def Let_def h_def update_conv' simp del: of_nat_Suc)
    show ?thesis
      unfolding s'_def [symmetric]
    proof (rule session_okI)
      fix g p
      assume g: "map_of (ts_objs s') g = Some p"
      show "1 \<le> g \<and> g \<le> ts_nextStreamID s' \<and> ps_streamID p = of_nat g"
        using g session_okD(1) [OF assms(1), of g] ps by (auto simp: s' h_def split: if_splits)
      show "map_of (ts_streams s') (of_nat g) = Some g" if "\<not> ps_done p"
        using g that session_okD(2) [OF assms(1), of g] inj [of g] by (auto simp: s' split: if_splits)
    next
      fix sid g
      assume "map_of (ts_streams s') sid = Some g"
      then show "sid = of_nat g \<and> (\<exists>ps. map_of (ts_objs s') g = Some ps \<and> \<not> ps_done ps)"
        using session_okD(3) [OF assms(1), of sid g] ps fresh by (auto simp: s' split: if_splits)
    qed (simp add: s')
  qed
qed

lemma session_ok_step:
  assumes "session_ok s" and "Suc (ts_nextStreamID s) < 2 ^ 32"
  shows "session_ok (sessionStep op s)"
proof (cases op)
  case (OpSend h q)
  have "session_ok (snd (sendFrame f s))" for f
    using assms(1) by (rule session_ok_cong [rotated 4]) simp_all
  then show ?thesis
    using assms(1) OpSend by (auto simp: sendRequest_def split: option.split prod.split bool.split dest!: arg_cong [where f = snd])
next
  case (OpCloseSend h)
  then show ?thesis
    using assms(1) session_ok_setObj [OF assms(1), of h]
    by (auto simp: closeSend_def split: option.split intro!: session_ok_cong [of "snd (sendFrame _ s1)" s1 for s1])
next
  case (OpRecv h)
  then show ?thesis
    using assms(1) by (auto simp: recv_def split: option.split list.split intro: session_ok_setObj)
next
  case (OpCancel h)
  then show ?thesis
    using assms(1) by (auto simp: cancelCall_def split: option.split intro: session_ok_setObj)
next
  case OpBreak
  then show ?thesis
    using assms(1) by (auto intro: session_ok_cong [of _ s])
next
  case OpDecode
  then show ?thesis
    using session_ok_decode [OF assms] by simp
qed (simp_all add: assms(1) session_ok_dispatch session_ok_watch session_ok_close)

fun isDecode :: "('q, 'r) sessionOp \<Rightarrow> bool" where
  "isDecode OpDecode = True"
| "isDecode _ = False"

lemma step_next: "ts_nextStreamID (sessionStep op s) \<le> ts_nextStreamID s + (if isDecode op then 1 else 0)"
proof (cases op)
  case (OpFrame pick sid p)
  have abort: "ts_nextStreamID (abortStream sid e s) = ts_nextStreamID s" for e
    by (simp add: abortStream_def split: option.split)
  show ?thesis
    unfolding OpFrame
    by (simp add: dispatch_def finishStream_def deliverResponse_def abort Let_def split: payload.split option.split)
next
  case (OpSend h q)
  then show ?thesis
    by (auto simp: sendRequest_def sendFrame_def split: option.split)
qed (auto simp: decodeV2_def Let_def cancelCall_def watchStream_def closeSend_def recv_def split: option.split list.split)

lemma session_ok_run:
  assumes "session_ok s" and "ts_nextStreamID s + length (filter isDecode ops) < 2 ^ 32 - 1"
  shows "session_ok (runSession ops s)"
  using assms
proof (induction ops arbitrary: s)
  case (Cons op ops)
  have "session_ok (sessionStep op s)"
    using Cons.prems by (intro session_ok_step) auto
  moreover have "ts_nextStreamID (sessionStep op s) + length (filter isDecode ops) < 2 ^ 32 - 1"
    using Cons.prems(2) step_next [of op s] by (simp split: if_splits)
  ultimately show ?case
    using Cons.IH by simp
qed simp

lemma session_ok_new: "session_ok (newSession owner inst n)"
  by (simp add: session_ok_def newSession_def)

section \<open>One stream among others\<close>

text \<open>What the plugin sent on a stream, and what the reader of a call got.\<close>

fun sentOn :: "u32 \<Rightarrow> ('q, 'r) sessionOp \<Rightarrow> 'r list" where
  "sentOn sid (OpFrame _ k (Response (Some r))) = (if k = sid then [r] else [])"
| "sentOn _ _ = []"

fun gotBy :: "nat \<Rightarrow> ('q, 'r) sessionOp \<Rightarrow> ('q, 'r) tunnelSession \<Rightarrow> 'r list" where
  "gotBy h (OpRecv g) s = (if g = h then (case fst (recv g s) of Got r \<Rightarrow> [r] | _ \<Rightarrow> []) else [])"
| "gotBy _ _ _ = []"

fun sentOnAll :: "u32 \<Rightarrow> ('q, 'r) sessionOp list \<Rightarrow> 'r list" where
  "sentOnAll sid [] = []"
| "sentOnAll sid (op # ops) = sentOn sid op @ sentOnAll sid ops"

fun gotByAll :: "nat \<Rightarrow> ('q, 'r) sessionOp list \<Rightarrow> ('q, 'r) tunnelSession \<Rightarrow> 'r list" where
  "gotByAll h [] s = []"
| "gotByAll h (op # ops) s = gotBy h op s @ gotByAll h ops (sessionStep op s)"

text \<open>
  How one step changes the object of a stream: it goes on and nothing is lost; or it ends, with an
  error or by a clean end frame of the plugin, and what is queued stays; or it had ended before.
\<close>

definition goesOn :: "nat \<Rightarrow> ('q, 'r) sessionOp \<Rightarrow> 'r list \<Rightarrow> 'r pendingStream \<Rightarrow> 'r pendingStream \<Rightarrow> bool" where
  "goesOn h op got ps ps' \<longleftrightarrow>
     \<not> ps_done ps \<and> \<not> ps_done ps' \<and> ps_endErr ps' = ps_endErr ps \<and> got @ ps_respCh ps' = ps_respCh ps @ sentOn (of_nat h) op"

definition cleanEnd :: "nat \<Rightarrow> ('q, 'r) sessionOp \<Rightarrow> bool" where
  "cleanEnd h op \<longleftrightarrow> (\<exists>pick. op = OpFrame pick (of_nat h) (StreamEnd []))"

definition endsBy :: "nat \<Rightarrow> ('q, 'r) sessionOp \<Rightarrow> 'r list \<Rightarrow> 'r pendingStream \<Rightarrow> 'r pendingStream \<Rightarrow> bool" where
  "endsBy h op got ps ps' \<longleftrightarrow>
     \<not> ps_done ps \<and> ps_done ps' \<and> got = [] \<and> ps_respCh ps' = ps_respCh ps \<and>
     (if cleanEnd h op then ps_endErr ps' = ps_endErr ps else \<exists>e. e \<noteq> EndOfStream \<and> ps_endErr ps' = Some e)"

definition hasEnded :: "'r list \<Rightarrow> 'r pendingStream \<Rightarrow> 'r pendingStream \<Rightarrow> bool" where
  "hasEnded got ps ps' \<longleftrightarrow> ps_done ps \<and> ps_done ps' \<and> ps_endErr ps' = ps_endErr ps \<and> got @ ps_respCh ps' = ps_respCh ps"

definition streamMove :: "nat \<Rightarrow> ('q, 'r) sessionOp \<Rightarrow> 'r list \<Rightarrow> 'r pendingStream \<Rightarrow> 'r pendingStream \<Rightarrow> bool" where
  "streamMove h op got ps ps' \<longleftrightarrow> goesOn h op got ps ps' \<or> endsBy h op got ps ps' \<or> hasEnded got ps ps'"

lemma streamMove_same: "sentOn (of_nat h) op = [] \<or> ps_done ps \<Longrightarrow> streamMove h op [] ps ps"
  by (auto simp: streamMove_def goesOn_def hasEnded_def)

lemma streamMove_finish:
  "\<not> ps_done ps \<Longrightarrow> \<not> cleanEnd h op \<Longrightarrow> e \<noteq> EndOfStream \<Longrightarrow> streamMove h op [] ps (finishPending (Some e) ps)"
  by (simp add: streamMove_def endsBy_def finishPending_def)

lemma abort_obj:
  assumes "session_ok s" and "map_of (ts_objs s) h = Some ps"
  shows "map_of (ts_objs (abortStream sid e s)) h = Some (if sid = of_nat h then finishPending (Some e) ps else ps)"
  using session_ok_table [OF assms, of sid] assms(2) by (auto simp: abortStream_def split: option.split)

lemma finishStream_obj:
  assumes "session_ok s" and "map_of (ts_objs s) h = Some ps"
  shows "map_of (ts_objs (finishStream sid err s)) h =
     Some (if sid = of_nat h then finishPending (if err = [] then None else Some (PluginError err)) ps else ps)"
  using session_ok_table [OF assms, of sid] assms(2) by (auto simp: finishStream_def split: option.split)

lemma move_finishStream:
  assumes "session_ok s" and "map_of (ts_objs s) h = Some ps"
  shows "\<exists>ps'. map_of (ts_objs (finishStream sid err s)) h = Some ps' \<and> streamMove h (OpFrame pick sid (StreamEnd err)) [] ps ps'"
proof (cases "sid = of_nat h \<and> \<not> ps_done ps")
  case True
  then show ?thesis
    using finishStream_obj [OF assms, of sid err]
    by (auto simp: streamMove_def endsBy_def cleanEnd_def finishPending_def)
next
  case False
  then have "map_of (ts_objs (finishStream sid err s)) h = Some ps"
    using finishStream_obj [OF assms, of sid err] by auto
  then show ?thesis
    using streamMove_same [of h "OpFrame pick sid (StreamEnd err)" ps] by auto
qed

lemma move_deliver:
  assumes "session_ok s" and "map_of (ts_objs s) h = Some ps"
  shows "\<exists>ps'. map_of (ts_objs (deliverResponse pick sid r s)) h = Some ps' \<and> streamMove h (OpFrame pick sid (Response r)) [] ps ps'"
    (is "\<exists>ps'. ?obj = Some ps' \<and> streamMove h ?op [] ps ps'")
proof (cases "sid = of_nat h \<and> \<not> ps_done ps")
  case True
  have fin: "map_of (ts_objs (abortStream sid e s)) h = Some (finishPending (Some e) ps)" for e
    using abort_obj [OF assms, of sid e] True by simp
  have mv: "streamMove h ?op [] ps (finishPending (Some e) ps)" if "e \<noteq> EndOfStream" for e
    using streamMove_finish [of ps h ?op e] True that by (simp add: cleanEnd_def)
  have tab: "map_of (ts_streams s) sid = Some h" and opn: "\<not> ts_closed s"
    using session_okD(2) [OF assms] session_okD(4) [OF assms(1)] True by auto
  show ?thesis
  proof (cases r)
    case None
    then show ?thesis
      using fin mv by (simp add: deliverResponse_def)
  next
    case (Some v)
    show ?thesis
    proof (cases "length (ps_respCh ps) < ts_respQueueSize s")
      case True
      then show ?thesis
        using Some tab opn assms(2) \<open>sid = of_nat h \<and> \<not> ps_done ps\<close>
        by (simp add: deliverResponse_def streamMove_def goesOn_def)
    next
      case False
      then show ?thesis
        using Some tab opn assms(2) fin mv True by (simp add: deliverResponse_def)
    qed
  qed
next
  case False
  have keep: "map_of (ts_objs (abortStream sid e s)) h = Some ps" for e
    using abort_obj [OF assms, of sid e] False by auto
  have "map_of (ts_streams s) sid \<noteq> Some h"
    using session_ok_table [OF assms] False by blast
  then have "?obj = Some ps"
    using keep assms(2) by (auto simp: deliverResponse_def Let_def split: option.split)
  moreover have "streamMove h ?op [] ps ps"
    using False by (intro streamMove_same) (cases r; auto)
  ultimately show ?thesis
    by blast
qed

lemma move_recv:
  assumes "map_of (ts_objs s) h = Some ps"
  shows "\<exists>ps'. map_of (ts_objs (snd (recv g s))) h = Some ps' \<and> streamMove h (OpRecv g) (gotBy h (OpRecv g) s) ps ps'"
proof (cases "g = h")
  case True
  then show ?thesis
    using assms
    by (cases "ps_respCh ps") (auto simp: recv_def recvAfterDone_def streamMove_def goesOn_def hasEnded_def split: option.split)
next
  case False
  then have "map_of (ts_objs (snd (recv g s))) h = Some ps"
    using assms by (auto simp: recv_def split: option.split list.split)
  then show ?thesis
    using False by (auto intro: streamMove_same)
qed

lemma move_watch:
  assumes "session_ok s" and "map_of (ts_objs s) h = Some ps"
  shows "\<exists>ps'. map_of (ts_objs (watchStream pick g s)) h = Some ps' \<and> streamMove h (OpWatch pick g) [] ps ps'"
proof -
  have obj: "map_of (ts_objs (watchStream pick g s)) h = Some ps \<or>
      (\<not> ps_done ps \<and> map_of (ts_objs (watchStream pick g s)) h = Some (finishPending (Some ContextError) ps))"
    using assms(2) by (auto simp: watchStream_def Let_def split: option.split)
  show ?thesis
    using obj streamMove_same [of h "OpWatch pick g" ps] streamMove_finish [of ps h "OpWatch pick g" ContextError]
    by (auto simp: cleanEnd_def)
qed

lemma step_moves:
  assumes "session_ok s" and "map_of (ts_objs s) h = Some ps"
  shows "\<exists>ps'. map_of (ts_objs (sessionStep op s)) h = Some ps' \<and> streamMove h op (gotBy h op s) ps ps'"
proof (cases op)
  case (OpFrame pick sid p)
  then show ?thesis
    using move_deliver [OF assms] move_finishStream [OF assms] streamMove_same [of h op ps] assms(2)
    by (cases p) (auto simp: dispatch_def)
next
  case OpDecode
  have "h \<noteq> Suc (ts_nextStreamID s)"
    using session_okD(1) [OF assms] by auto
  then show ?thesis
    using OpDecode assms(2) by (auto simp: decodeV2_def Let_def intro: streamMove_same)
next
  case OpClose
  show ?thesis
  proof (cases "ts_closed s")
    case True
    then show ?thesis
      using OpClose assms(2) by (auto simp: closeSession_def intro: streamMove_same)
  next
    case False
    then show ?thesis
      using OpClose closeSession_obj [OF assms(1) False assms(2)] streamMove_finish [of ps h op SessionClosed] streamMove_same [of h op ps]
      by (cases "ps_done ps") (auto simp: cleanEnd_def)
  qed
next
  case (OpCancel g)
  then show ?thesis
    using assms(2) by (auto simp: cancelCall_def streamMove_def goesOn_def hasEnded_def split: option.split)
next
  case (OpSend g q)
  then have "map_of (ts_objs (sessionStep op s)) h = Some ps"
    using assms(2) by (auto simp: sendRequest_def sendFrame_def split: option.split)
  then show ?thesis
    using OpSend by (auto intro: streamMove_same)
next
  case (OpCloseSend g)
  then show ?thesis
    using assms(2) by (auto simp: closeSend_def streamMove_def goesOn_def hasEnded_def split: option.split)
next
  case (OpWatch pick g)
  then show ?thesis
    using move_watch [OF assms] by simp
next
  case (OpRecv g)
  then show ?thesis
    using move_recv [OF assms(2), of g] by (simp only: sessionStep.simps)
next
  case OpBreak
  then show ?thesis
    using assms(2) by (auto intro: streamMove_same)
qed

text \<open>An ended stream hands out what is queued, and nothing is added to it.\<close>

lemma ended_run:
  assumes "session_ok s" and "ts_nextStreamID s + length (filter isDecode ops) < 2 ^ 32 - 1"
    and "map_of (ts_objs s) h = Some ps" and "ps_done ps"
  shows "\<exists>ps'. map_of (ts_objs (runSession ops s)) h = Some ps' \<and> hasEnded (gotByAll h ops s) ps ps'"
  using assms
proof (induction ops arbitrary: s ps)
  case (Cons op ops)
  obtain p where p: "map_of (ts_objs (sessionStep op s)) h = Some p" "streamMove h op (gotBy h op s) ps p"
    using step_moves [OF Cons.prems(1,3)] by blast
  have e: "hasEnded (gotBy h op s) ps p"
    using p(2) Cons.prems(4) by (auto simp: streamMove_def goesOn_def endsBy_def)
  have ok: "session_ok (sessionStep op s)"
    using Cons.prems(1,2) by (intro session_ok_step) auto
  have "ts_nextStreamID (sessionStep op s) + length (filter isDecode ops) < 2 ^ 32 - 1"
    using Cons.prems(2) step_next [of op s] by (simp split: if_splits)
  from Cons.IH [OF ok this p(1)] e show ?case
    by (auto simp: hasEnded_def)
qed (simp add: hasEnded_def)

text \<open>
  A run of one stream: still open with everything the plugin sent either read or queued, or ended
  by a step before which all that was sent is read or queued.
\<close>

lemma stream_run:
  assumes "session_ok s" and "ts_nextStreamID s + length (filter isDecode ops) < 2 ^ 32 - 1"
    and "map_of (ts_objs s) h = Some ps" and "\<not> ps_done ps"
  obtains ps' where "map_of (ts_objs (runSession ops s)) h = Some ps'" and "\<not> ps_done ps'" and "ps_endErr ps' = ps_endErr ps"
      and "gotByAll h ops s @ ps_respCh ps' = ps_respCh ps @ sentOnAll (of_nat h) ops"
  | ps' pre op post where "map_of (ts_objs (runSession ops s)) h = Some ps'" and "ps_done ps'" and "ops = pre @ op # post"
      and "gotByAll h ops s @ ps_respCh ps' = ps_respCh ps @ sentOnAll (of_nat h) pre"
      and "if cleanEnd h op then ps_endErr ps' = ps_endErr ps else \<exists>e. e \<noteq> EndOfStream \<and> ps_endErr ps' = Some e"
  using assms
proof (induction ops arbitrary: s ps thesis)
  case Nil
  then show ?case
    by simp
next
  case (Cons op ops)
  obtain p where p: "map_of (ts_objs (sessionStep op s)) h = Some p" "streamMove h op (gotBy h op s) ps p"
    using step_moves [OF Cons.prems(3,5)] by blast
  have ok: "session_ok (sessionStep op s)"
    using Cons.prems(3,4) by (intro session_ok_step) auto
  have bound: "ts_nextStreamID (sessionStep op s) + length (filter isDecode ops) < 2 ^ 32 - 1"
    using Cons.prems(4) step_next [of op s] by (simp split: if_splits)
  consider (on) "goesOn h op (gotBy h op s) ps p" | (ends) "endsBy h op (gotBy h op s) ps p"
    using p(2) Cons.prems(6) by (auto simp: streamMove_def hasEnded_def)
  then show ?case
  proof cases
    case on
    then have nd: "\<not> ps_done p"
      by (simp add: goesOn_def)
    show ?thesis
    proof (rule Cons.IH [OF _ _ ok bound p(1) nd])
      fix ps'
      assume "map_of (ts_objs (runSession ops (sessionStep op s))) h = Some ps'" "\<not> ps_done ps'" "ps_endErr ps' = ps_endErr p"
        "gotByAll h ops (sessionStep op s) @ ps_respCh ps' = ps_respCh p @ sentOnAll (of_nat h) ops"
      then show thesis
        using on by (intro Cons.prems(1) [of ps']) (auto simp: goesOn_def)
    next
      fix ps' pre op' post
      assume a: "map_of (ts_objs (runSession ops (sessionStep op s))) h = Some ps'" "ps_done ps'" "ops = pre @ op' # post"
        "gotByAll h ops (sessionStep op s) @ ps_respCh ps' = ps_respCh p @ sentOnAll (of_nat h) pre"
        "if cleanEnd h op' then ps_endErr ps' = ps_endErr p else \<exists>e. e \<noteq> EndOfStream \<and> ps_endErr ps' = Some e"
      have g: "gotBy h op s @ ps_respCh p = ps_respCh ps @ sentOn (of_nat h) op" "ps_endErr p = ps_endErr ps"
        using on by (simp_all add: goesOn_def)
      have "gotByAll h (op # ops) s @ ps_respCh ps' = ps_respCh ps @ sentOnAll (of_nat h) (op # pre)"
        using a(4) g(1) by simp
      then show thesis
        using a(1-3,5) g(2) by (intro Cons.prems(2) [of ps' "op # pre" op' post]) simp_all
    qed
  next
    case ends
    then have d: "ps_done p" "gotBy h op s = []" "ps_respCh p = ps_respCh ps"
      by (simp_all add: endsBy_def)
    obtain ps' where ps': "map_of (ts_objs (runSession ops (sessionStep op s))) h = Some ps'" "hasEnded (gotByAll h ops (sessionStep op s)) p ps'"
      using ended_run [OF ok bound p(1) d(1)] by blast
    then show ?thesis
      using ends d by (intro Cons.prems(2) [of ps' "[]" op ops]) (auto simp: hasEnded_def endsBy_def)
  qed
qed

section \<open>What readers rely on\<close>

text \<open>
  (C28) No reader is left behind. Whatever frames, calls, cancellations and losses a session went
  through, once its \<open>Connect\<close> stream has ended, \<open>Recv\<close> of every call ever made on it
  returns; and while the session is open, a call whose \<open>Recv\<close> would wait is still in the table
  of streams, where an end frame, a reset or the end of the session finds it.
\<close>

theorem no_reader_left:
  assumes "length (filter isDecode ops) < 2 ^ 32 - 1" and "s = runSession ops (newSession owner inst n)"
    and "map_of (ts_objs s) h = Some ps" and "fst (recv h s) = Blocked"
  shows "\<not> ts_closed s \<and> map_of (ts_streams s) (of_nat h) = Some h \<and> fst (recv h (closeSession s)) \<noteq> Blocked"
proof (intro conjI)
  have ok: "session_ok s"
    unfolding assms(2) using assms(1) by (intro session_ok_run session_ok_new) (simp add: newSession_def)
  have nd: "\<not> ps_done ps"
    using assms(3,4) by (auto simp: recv_def recvAfterDone_def split: list.splits if_splits option.splits)
  show tab: "map_of (ts_streams s) (of_nat h) = Some h"
    using session_okD(2) [OF ok assms(3) nd] .
  show open_s: "\<not> ts_closed s"
    using session_okD(4) [OF ok] tab by auto
  show "fst (recv h (closeSession s)) \<noteq> Blocked"
    using closeSession_obj [OF ok open_s assms(3)]
    by (auto simp: recv_def recvAfterDone_def split: list.split option.split)
qed

text \<open>
  (C29) An end is the end of everything. When \<open>Recv\<close> reports the regular end of a stream, the
  plugin has sent a clean end frame for it, and the reader has got exactly the responses that the
  plugin sent on this stream before the frame, in order: none lost, none repeated, none of another
  stream, whatever happened on the tunnel in between.
\<close>

theorem end_of_stream_complete:
  assumes "length (filter isDecode before) + length (filter isDecode ops) < 2 ^ 32 - 2"
    and "s = sessionStep OpDecode (runSession before (newSession owner inst n))"
    and "map_of (ts_objs s) h = Some (newStream (of_nat h))"
    and "fst (recv h (runSession ops s)) = Ended EndOfStream"
  shows "\<exists>pre pick post. ops = pre @ OpFrame pick (of_nat h) (StreamEnd []) # post \<and>
     gotByAll h ops s = sentOnAll (of_nat h) pre"
proof -
  define s0 :: "('a, 'b) tunnelSession" where "s0 = runSession before (newSession owner inst n)"
  have n0: "ts_nextStreamID s0 \<le> length (filter isDecode before)"
  proof -
    have "ts_nextStreamID (runSession xs t) \<le> ts_nextStreamID t + length (filter isDecode xs)" for xs and t :: "('a, 'b) tunnelSession"
    proof (induction xs arbitrary: t)
      case (Cons x xs)
      show ?case
        using Cons.IH [of "sessionStep x t"] step_next [of x t] by (simp split: if_splits)
    qed simp
    from this [of before "newSession owner inst n"] show ?thesis
      by (simp add: s0_def newSession_def)
  qed
  have ok0: "session_ok s0"
    unfolding s0_def using assms(1) by (intro session_ok_run session_ok_new) (simp add: newSession_def)
  have ok: "session_ok s"
    unfolding assms(2) s0_def [symmetric] using ok0 n0 assms(1) by (intro session_ok_step) auto
  have bound: "ts_nextStreamID s + length (filter isDecode ops) < 2 ^ 32 - 1"
    using n0 step_next [of OpDecode s0] assms(1) by (simp add: assms(2) s0_def)
  show ?thesis
    using ok bound assms(3)
  proof (rule stream_run)
    fix ps'
    assume "map_of (ts_objs (runSession ops s)) h = Some ps'" "\<not> ps_done ps'"
    then show ?thesis
      using assms(4) by (auto simp: recv_def split: list.splits if_splits)
  next
    fix ps' pre op post
    assume a: "map_of (ts_objs (runSession ops s)) h = Some ps'" "ps_done ps'" "ops = pre @ op # post"
    assume b: "if cleanEnd h op then ps_endErr ps' = ps_endErr (newStream (of_nat h))
        else \<exists>e. e \<noteq> EndOfStream \<and> ps_endErr ps' = Some e"
    assume c: "gotByAll h ops s @ ps_respCh ps' = ps_respCh (newStream (of_nat h)) @ sentOnAll (of_nat h) pre"
    have "ps_respCh ps' = []" "ps_endErr ps' = None \<or> ps_endErr ps' = Some EndOfStream"
      using a(1,2) assms(4) by (auto simp: recv_def recvAfterDone_def split: list.splits option.splits)
    then have "cleanEnd h op" "gotByAll h ops s = sentOnAll (of_nat h) pre"
      using b c by (auto simp: newStream_def split: if_splits)
    then show ?thesis
      using a(3) by (auto simp: cleanEnd_def)
  qed (simp add: newStream_def)
qed

text \<open>
  (C30) One stream cannot hurt another. A frame of the plugin for one stream, be it a response, a
  malformed one, one that overflows the queue and so resets its stream, or an end, leaves the queue, the
  state and the place in the table of every other stream as they were; the call never waits.
\<close>

theorem streams_isolated:
  assumes "length (filter isDecode ops) < 2 ^ 32 - 1" and "s = runSession ops (newSession owner inst n)"
    and "map_of (ts_objs s) h = Some ps" and "ps_streamID ps \<noteq> sid"
  shows "map_of (ts_objs (dispatch pick sid p s)) h = Some ps \<and>
    map_of (ts_streams (dispatch pick sid p s)) (ps_streamID ps) = map_of (ts_streams s) (ps_streamID ps) \<and>
    fst (recv h (dispatch pick sid p s)) = fst (recv h s)"
proof (intro conjI)
  have ok: "session_ok s"
    unfolding assms(2) using assms(1) by (intro session_ok_run session_ok_new) (simp add: newSession_def)
  have ne: "sid \<noteq> of_nat h"
    using session_okD(1) [OF ok assms(3)] assms(4) by auto
  have ab: "map_of (ts_objs (abortStream sid e s)) h = Some ps" for e
    using abort_obj [OF ok assms(3), of sid e] ne by simp
  have fi: "map_of (ts_objs (finishStream sid e s)) h = Some ps" for e
    using finishStream_obj [OF ok assms(3), of sid e] ne by simp
  have nt: "map_of (ts_streams s) sid \<noteq> Some h"
    using session_ok_table [OF ok assms(3)] ne by blast
  show obj: "map_of (ts_objs (dispatch pick sid p s)) h = Some ps"
    using ab fi nt assms(3) by (auto simp: dispatch_def deliverResponse_def Let_def split: payload.split option.split)
  have tab: "map_of (ts_streams (abortStream sid e s)) (ps_streamID ps) = map_of (ts_streams s) (ps_streamID ps)" for e
    using assms(4) by (simp add: abortStream_def delete_conv' split: option.split)
  show "map_of (ts_streams (dispatch pick sid p s)) (ps_streamID ps) = map_of (ts_streams s) (ps_streamID ps)"
    using assms(4) by (auto simp: dispatch_def deliverResponse_def finishStream_def tab Let_def delete_conv' split: payload.split option.split)
  show "fst (recv h (dispatch pick sid p s)) = fst (recv h s)"
    using obj assms(3) by (auto simp: recv_def split: list.split)
qed

section \<open>Witnesses\<close>

text \<open>Two streams with a queue of two: the second overflows, the first is read to its end.\<close>

definition demoOps :: "(nat, nat) sessionOp list" where
  "demoOps = [OpFrame True 1 (Response (Some 7)), OpDecode, OpFrame True 2 (Response (Some 1)), OpFrame True 2 (Response (Some 2)),
     OpFrame True 2 (Response (Some 3)), OpRecv 1, OpFrame True 1 (Response (Some 8)), OpFrame False 1 (StreamEnd []), OpRecv 1]"

theorem no_reader_left_witness:
  "let s = runSession [OpDecode, OpDecode, OpFrame True 2 (Response (Some (5 :: nat)))] (newSession ''ann'' ''chess-1'' 2 :: (nat, nat) tunnelSession)
   in fst (recv 1 s) = Blocked \<and> fst (recv 1 (closeSession s)) \<noteq> Blocked"
proof -
  let ?s = "runSession [OpDecode, OpDecode, OpFrame True 2 (Response (Some (5 :: nat)))] (newSession ''ann'' ''chess-1'' 2 :: (nat, nat) tunnelSession)"
  have "map_of (ts_objs ?s) 1 = Some (newStream 1)" and b: "fst (recv 1 ?s) = Blocked"
    by code_simp+
  then show ?thesis
    using no_reader_left [OF _ refl, of "[OpDecode, OpDecode, OpFrame True 2 (Response (Some (5 :: nat)))] :: (nat, nat) sessionOp list"
        "''ann''" "''chess-1''" 2 1 "newStream 1"] by (simp add: Let_def)
qed

theorem end_of_stream_complete_witness:
  "let s = sessionStep OpDecode (runSession [] (newSession ''ann'' ''chess-1'' 2 :: (nat, nat) tunnelSession))
   in (\<exists>pre pick post. demoOps = pre @ OpFrame pick (of_nat 1) (StreamEnd []) # post \<and> gotByAll 1 demoOps s = sentOnAll (of_nat 1) pre) \<and>
     gotByAll 1 demoOps s = [7, 8]"
proof -
  let ?s = "sessionStep OpDecode (runSession [] (newSession ''ann'' ''chess-1'' 2 :: (nat, nat) tunnelSession))"
  have "map_of (ts_objs ?s) 1 = Some (newStream (of_nat 1))" "fst (recv 1 (runSession demoOps ?s)) = Ended EndOfStream"
    and g: "gotByAll 1 demoOps ?s = [7, 8]" "length (filter isDecode demoOps) = 1"
    by code_simp+
  then show ?thesis
    using end_of_stream_complete [OF _ refl, of "[]" demoOps "''ann''" "''chess-1''" 2 1] by (simp add: Let_def)
qed

theorem streams_isolated_witness:
  "let s = runSession (OpDecode # take 4 demoOps) (newSession ''ann'' ''chess-1'' 2 :: (nat, nat) tunnelSession)
   in fst (recv 2 s) = Got 1 \<and> fst (recv 1 (dispatch True 2 (Response (Some 3)) s)) = fst (recv 1 s) \<and> fst (recv 1 s) = Got 7"
proof -
  let ?s = "runSession (OpDecode # take 4 demoOps) (newSession ''ann'' ''chess-1'' 2 :: (nat, nat) tunnelSession)"
  have o: "map_of (ts_objs ?s) 1 = Some ((newStream 1)\<lparr>ps_respCh := [7]\<rparr>)" and r: "fst (recv 2 ?s) = Got 1" "fst (recv 1 ?s) = Got 7"
    and l: "length (filter isDecode (OpDecode # take 4 demoOps)) = 2"
    by code_simp+
  have "fst (recv 1 (dispatch True 2 (Response (Some 3)) ?s)) = fst (recv 1 ?s)"
    using streams_isolated [OF _ refl o, of 2 True "Response (Some 3)"] l by (simp add: newStream_def)
  then show ?thesis
    using r by (simp only: Let_def)
qed

end
