(* ===== verification/Tunnel_Hub.thy ===== *)
theory Tunnel_Hub
  imports Plugin_Tunnel
begin

text \<open>
  \<open>TunnelHub.Connect\<close> of \<open>pkg/plugin/tunnel.go\<close>: the registry of plugins and the tunnel sessions
  together. \<open>Connect\<close> binds a new session to the registered instance that the plugin names, and when
  its stream ends it closes the session and then calls the hook that takes the plugin off line; between
  the two other calls may come. Every session object ever made is kept under its number, which
  is also the client that the registry holds; \<open>hb_sessions\<close> of the code is \<open>hb_active\<close> here.
\<close>

record ('q, 'r, 'v) hub =
  hb_reg :: "'v registry"
  hb_objs :: "(nat \<times> ('q, 'r) tunnelSession) list"
  hb_active :: "nat list"
  hb_ending :: "nat list"
  hb_nextID :: nat
  hb_respQueueSize :: nat

definition newTunnelHub :: "int \<Rightarrow> int \<Rightarrow> ('q, 'r, 'v) hub" where
  "newTunnelHub heartbeatSec queueSize =
     \<lparr>hb_reg = newRegistryServer heartbeatSec, hb_objs = [], hb_active = [], hb_ending = [], hb_nextID = 0,
      hb_respQueueSize = (if 0 < queueSize then nat queueSize else defaultTunnelRespQueueSize)\<rparr>"

datatype connectReply = Connected nat | MissingInstance | Refused bindReply

definition connect :: "time \<Rightarrow> string \<Rightarrow> string \<Rightarrow> ('q, 'r, 'v) hub \<Rightarrow> connectReply \<times> ('q, 'r, 'v) hub" where
  "connect now owner inst h =
     (if inst = [] then (MissingInstance, h)
      else
        (let c = Suc (hb_nextID h) in
         case bindTunnelClient now owner inst c (hb_reg h) of
           (BindOK, reg) \<Rightarrow>
             (Connected c, h\<lparr>hb_reg := reg, hb_nextID := c, hb_active := hb_active h @ [c],
                hb_objs := AList.update c (newSession owner inst (hb_respQueueSize h)) (hb_objs h)\<rparr>)
         | (e, reg) \<Rightarrow> (Refused e, h\<lparr>hb_reg := reg\<rparr>)))"

text \<open>The stream of a tunnel ends: the first part of the deferred function, then the hook.\<close>

definition connectEnds :: "nat \<Rightarrow> ('q, 'r, 'v) hub \<Rightarrow> ('q, 'r, 'v) hub" where
  "connectEnds c h =
     (case map_of (hb_objs h) c of
        None \<Rightarrow> h
      | Some ss \<Rightarrow>
          if c \<in> set (hb_active h)
          then h\<lparr>hb_active := removeAll c (hb_active h), hb_objs := AList.update c (closeSession ss) (hb_objs h), hb_ending := c # hb_ending h\<rparr>
          else h)"

definition onDisconnect :: "time \<Rightarrow> nat \<Rightarrow> ('q, 'r, 'v) hub \<Rightarrow> ('q, 'r, 'v) hub" where
  "onDisconnect now c h =
     (case map_of (hb_objs h) c of
        None \<Rightarrow> h
      | Some ss \<Rightarrow>
          if c \<in> set (hb_ending h)
          then h\<lparr>hb_ending := removeAll c (hb_ending h), hb_reg := tunnelDisconnected now (ts_owner ss) (ts_instanceID ss) (hb_reg h)\<rparr>
          else h)"

definition tunnelClientClosed :: "('q, 'r, 'v) hub \<Rightarrow> nat \<Rightarrow> bool" where
  "tunnelClientClosed h c = (case map_of (hb_objs h) c of Some ss \<Rightarrow> ts_closed ss | None \<Rightarrow> False)"

text \<open>A step inside one session: frames and calls of clients; only the hub closes sessions.\<close>

definition sessionWork :: "nat \<Rightarrow> ('q, 'r) sessionOp \<Rightarrow> ('q, 'r, 'v) hub \<Rightarrow> ('q, 'r, 'v) hub" where
  "sessionWork c op h =
     (case map_of (hb_objs h) c of
        None \<Rightarrow> h
      | Some ss \<Rightarrow> if op = OpClose then h else h\<lparr>hb_objs := AList.update c (sessionStep op ss) (hb_objs h)\<rparr>)"

inductive hub_run :: "('d, 'n, 'v) gjson_api \<Rightarrow> (registerError \<Rightarrow> string) \<Rightarrow> ('q, 'r, 'v) hub \<Rightarrow> bool"
  for api :: "('d, 'n, 'v) gjson_api" and errText where
  hr_new: "hub_run api errText (newTunnelHub hb n)"
| hr_connect: "hub_run api errText h \<Longrightarrow> hub_run api errText (snd (connect now owner inst h))"
| hr_ends: "hub_run api errText h \<Longrightarrow> hub_run api errText (connectEnds c h)"
| hr_hook: "hub_run api errText h \<Longrightarrow> hub_run api errText (onDisconnect now c h)"
| hr_work: "hub_run api errText h \<Longrightarrow> hub_run api errText (sessionWork c op h)"
| hr_register: "hub_run api errText h \<Longrightarrow> hub_run api errText (h\<lparr>hb_reg := snd (register api errText now owner parsed (hb_reg h))\<rparr>)"
| hr_heartbeat: "hub_run api errText h \<Longrightarrow> hub_run api errText (h\<lparr>hb_reg := snd (heartbeat (tunnelClientClosed h) now inst (hb_reg h))\<rparr>)"
| hr_deregister: "hub_run api errText h \<Longrightarrow> hub_run api errText (h\<lparr>hb_reg := snd (deregister now inst (hb_reg h))\<rparr>)"
| hr_check: "hub_run api errText h \<Longrightarrow> hub_run api errText (h\<lparr>hb_reg := checkOffline (tunnelClientClosed h) now timeout (hb_reg h)\<rparr>)"
| hr_close: "hub_run api errText h \<Longrightarrow> hub_run api errText (h\<lparr>hb_reg := closeRegistry (hb_reg h)\<rparr>)"

section \<open>Bindings\<close>

text \<open>
  A registered plugin that has a client has the session that named this plugin and came from its
  owner; and if it is on line, the session is open or its hook is still to run.
\<close>

definition bound_ok :: "('q, 'r, 'v) hub \<Rightarrow> string \<Rightarrow> 'v plugin \<Rightarrow> bool" where
  "bound_ok h inst rp \<longleftrightarrow>
     (\<forall>c. pl_Client rp = Some c \<longrightarrow> (\<exists>ss. map_of (hb_objs h) c = Some ss \<and> ts_instanceID ss = inst \<and> ts_owner ss = pl_Owner rp \<and>
        (pl_Online rp \<longrightarrow> \<not> ts_closed ss \<or> c \<in> set (hb_ending h))))"

definition hub_ok :: "('q, 'r, 'v) hub \<Rightarrow> bool" where
  [inv_defs]: "hub_ok h \<longleftrightarrow>
     reg_ok (hb_reg h) \<and>
     (\<forall>c ss. map_of (hb_objs h) c = Some ss \<longrightarrow> c \<le> hb_nextID h) \<and>
     (rg_closed (hb_reg h) \<longrightarrow> (\<forall>inst rp. map_of (rg_plugins (hb_reg h)) inst = Some rp \<longrightarrow> pl_Client rp = None)) \<and>
     (\<forall>inst rp. map_of (rg_plugins (hb_reg h)) inst = Some rp \<longrightarrow> bound_ok h inst rp)"

text \<open>What the operations of the registry do to bindings.\<close>

definition keepsBinding :: "(nat \<Rightarrow> bool) \<Rightarrow> 'v registry \<Rightarrow> 'v registry \<Rightarrow> bool" where
  "keepsBinding dead s s' \<longleftrightarrow>
     (\<forall>inst rp'. map_of (rg_plugins s') inst = Some rp' \<longrightarrow> pl_Client rp' = None \<or>
        (\<exists>rp. map_of (rg_plugins s) inst = Some rp \<and> pl_Client rp' = pl_Client rp \<and> pl_Owner rp' = pl_Owner rp \<and>
           (pl_Online rp' \<longrightarrow> pl_Online rp \<or> \<not> clientClosed dead rp)))"

lemma hub_ok_registry:
  assumes "hub_ok h" and "keepsBinding (tunnelClientClosed h) (hb_reg h) reg" and "reg_ok reg"
    and "rg_closed reg \<Longrightarrow> rg_closed (hb_reg h) \<or> rg_plugins reg = []"
  shows "hub_ok (h\<lparr>hb_reg := reg\<rparr>)"
proof -
  have "bound_ok h inst rp'" if r: "map_of (rg_plugins reg) inst = Some rp'" for inst rp'
  proof (cases "pl_Client rp' = None")
    case False
    then obtain rp where rp: "map_of (rg_plugins (hb_reg h)) inst = Some rp" "pl_Client rp' = pl_Client rp" "pl_Owner rp' = pl_Owner rp"
        "pl_Online rp' \<longrightarrow> pl_Online rp \<or> \<not> clientClosed (tunnelClientClosed h) rp"
      using assms(2) r unfolding keepsBinding_def by (metis (no_types))
    have "bound_ok h inst rp"
      using assms(1) rp(1) by (simp add: hub_ok_def)
    then show ?thesis
      using rp(2-4) by (fastforce simp: bound_ok_def clientClosed_def tunnelClientClosed_def)
  qed (simp add: bound_ok_def)
  moreover have "pl_Client rp' = None" if closed: "rg_closed reg" "map_of (rg_plugins reg) inst = Some rp'" for inst rp'
  proof (rule ccontr)
    assume client: "pl_Client rp' \<noteq> None"
    then obtain rp where "map_of (rg_plugins (hb_reg h)) inst = Some rp" "pl_Client rp' = pl_Client rp"
      using assms(2) closed(2) unfolding keepsBinding_def by (metis (no_types))
    then show False
      using assms(1,4) closed client by (auto simp: hub_ok_def)
  qed
  ultimately show ?thesis
    using assms(1,3) by (simp add: hub_ok_def bound_ok_def)
qed

lemma keepsBinding_same: "rg_plugins s' = rg_plugins s \<Longrightarrow> keepsBinding dead s s'"
  by (auto simp: keepsBinding_def)

lemma keepsBinding_register: "keepsBinding dead s (snd (register api errText now owner parsed s))"
proof -
  have rej: "keepsBinding dead s (snd (rejectRegister errText now name owner e s))" for name e
    by (simp add: rejectRegister_def keepsBinding_same)
  have "keepsBinding dead s (snd (addPlugin now owner m s))" for m
    by (auto simp: addPlugin_def keepsBinding_def Let_def update_conv' delete_conv' split: option.split if_splits)
  then show ?thesis
    using rej by (simp add: register_def split: sum.split option.split)
qed

lemma keepsBinding_heartbeat: "keepsBinding dead s (snd (heartbeat dead now inst s))"
  by (auto simp: heartbeat_def keepsBinding_def Let_def update_conv' split: option.split if_splits)

lemma keepsBinding_deregister: "keepsBinding dead s (snd (deregister now inst s))"
  by (auto simp: deregister_def dropPlugin_def keepsBinding_def delete_conv' split: option.split if_splits)

lemma keepsBinding_check_fold:
  assumes "distinct (map fst es)" and "\<And>i rp. (i, rp) \<in> set es \<Longrightarrow> map_of (rg_plugins s) i = Some rp"
    and "keepsBinding dead s0 s" and "\<And>i rp. (i, rp) \<in> set es \<Longrightarrow> map_of (rg_plugins s0) i = Some rp"
  shows "keepsBinding dead s0 (fst (fold (checkOne dead now timeout) es (s, a, b)))"
  using assms
proof (induction es arbitrary: s a b)
  case (Cons e es)
  obtain i rp where e: "e = (i, rp)"
    by (cases e)
  obtain s1 a1 b1 where c: "checkOne dead now timeout e (s, a, b) = (s1, a1, b1)"
    using prod_cases3 by blast
  have s1: "s1 = fst (checkOne dead now timeout (i, rp) (s, a, b))"
    using c e by simp
  have rest: "map_of (rg_plugins s1) j = Some p" if "(j, p) \<in> set es" for j p
  proof -
    have "j \<noteq> i"
      using that Cons.prems(1) e by force
    then show ?thesis
      using checkOne_other [of j i dead now timeout rp s a b] s1 Cons.prems(2) [of j p] that by simp
  qed
  have "keepsBinding dead s0 s1"
    using Cons.prems(3) Cons.prems(4) [of i rp] e unfolding s1
    by (auto simp: checkOne_def keepsBinding_def dropPlugin_def update_conv' delete_conv')
  then show ?case
    using Cons.IH [of s1 a1 b1] Cons.prems(1,4) rest c by simp
qed simp

lemma keepsBinding_check:
  assumes "reg_ok s"
  shows "keepsBinding dead s (checkOffline dead now timeout s)"
proof -
  have d: "distinct (map fst (rg_plugins s))"
    using assms by (simp add: reg_ok_def)
  have "rg_plugins (fold emit evs t) = rg_plugins t" for evs and t :: "'a registry"
    by (induction evs arbitrary: t) simp_all
  moreover have "keepsBinding dead s (fst (fold (checkOne dead now timeout) (rg_plugins s) (s, [], [])))"
    by (rule keepsBinding_check_fold [OF d]) (simp_all add: d keepsBinding_same)
  ultimately show ?thesis
    by (auto simp: checkOffline_def keepsBinding_def split: prod.splits)
qed

lemma hub_ok_new: "hub_ok (newTunnelHub hb n)"
proof -
  have p: "rg_plugins (newRegistryServer hb) = []" for hb
    by (simp add: newRegistryServer_def)
  show ?thesis
    by (simp add: hub_ok_def newTunnelHub_def reg_ok_new p)
qed

lemma hub_ok_connect:
  assumes "hub_ok h"
  shows "hub_ok (snd (connect now owner inst h))"
proof -
  define c where "c = Suc (hb_nextID h)"
  have fresh: "map_of (hb_objs h) c = None"
  proof (rule ccontr)
    assume "map_of (hb_objs h) c \<noteq> None"
    then have "c \<le> hb_nextID h"
      using assms unfolding hub_ok_def by blast
    then show False
      by (simp add: c_def)
  qed
  obtain r reg where b: "bindTunnelClient now owner inst c (hb_reg h) = (r, reg)"
    by (cases "bindTunnelClient now owner inst c (hb_reg h)")
  have reg: "reg_ok reg"
    using reg_ok_bind [of "hb_reg h" now owner inst c] assms b by (simp add: hub_ok_def)
  show ?thesis
  proof (cases "inst = [] \<or> r \<noteq> BindOK")
    case True
    have "reg = hb_reg h" if "r \<noteq> BindOK"
      using b that by (auto simp: bindTunnelClient_def split: if_splits option.splits)
    then show ?thesis
      using True assms b by (cases r) (auto simp: connect_def Let_def c_def)
  next
    case False
    define h' where "h' = snd (connect now owner inst h)"
    have h': "hb_reg h' = reg" "hb_nextID h' = c" "hb_ending h' = hb_ending h"
        "map_of (hb_objs h') = (map_of (hb_objs h))(c \<mapsto> newSession owner inst (hb_respQueueSize h))"
      using False b by (simp_all add: h'_def connect_def c_def Let_def update_conv')
    obtain rp where rp: "map_of (rg_plugins (hb_reg h)) inst = Some rp" "pl_Owner rp = owner"
        "map_of (rg_plugins reg) = (map_of (rg_plugins (hb_reg h)))(inst \<mapsto> rp\<lparr>pl_Client := Some c, pl_LastHeartbeat := now, pl_Online := True\<rparr>)"
      using b False by (auto simp: bindTunnelClient_def update_conv' split: if_splits option.splits)
    have old: "bound_ok h' j p" if "map_of (rg_plugins (hb_reg h)) j = Some p" for j p
    proof -
      have "bound_ok h j p"
        using assms that by (simp add: hub_ok_def)
      then show ?thesis
        using fresh by (auto simp: bound_ok_def h')
    qed
    have "bound_ok h' j p" if "map_of (rg_plugins reg) j = Some p" for j p
      using that old rp(2) by (auto simp: rp(3) bound_ok_def [of h' inst] h' newSession_def split: if_splits)
    moreover have "\<And>k ss. map_of (hb_objs h') k = Some ss \<Longrightarrow> k \<le> hb_nextID h'"
      using assms by (auto simp: h' hub_ok_def c_def le_SucI split: if_splits)
    moreover have "\<not> rg_closed reg"
      using b False by (auto simp: bindTunnelClient_def split: if_splits option.splits)
    ultimately show ?thesis
      using reg unfolding h'_def [symmetric] by (simp add: hub_ok_def h')
  qed
qed

lemma closeSession_ids [simp]: "ts_owner (closeSession s) = ts_owner s" "ts_instanceID (closeSession s) = ts_instanceID s"
proof -
  have "ts_owner (fold (\<lambda>(_, h). finishObj e h) xs t) = ts_owner t" "ts_instanceID (fold (\<lambda>(_, h). finishObj e h) xs t) = ts_instanceID t"
    for e and xs :: "(u32 \<times> nat) list" and t :: "('a, 'b) tunnelSession"
    by (induction xs arbitrary: t) (auto simp: finishObj_def setObj_def split: option.split)
  then show "ts_owner (closeSession s) = ts_owner s" "ts_instanceID (closeSession s) = ts_instanceID s"
    by (simp_all add: closeSession_def)
qed

lemma sessionStep_ids:
  "op \<noteq> OpClose \<Longrightarrow> ts_owner (sessionStep op s) = ts_owner s \<and> ts_instanceID (sessionStep op s) = ts_instanceID s \<and> ts_closed (sessionStep op s) = ts_closed s"
  by (cases op)
    (auto simp: dispatch_def deliverResponse_def finishStream_def abortStream_def decodeV2_def cancelCall_def watchStream_def sendRequest_def
      closeSend_def recv_def finishObj_def setObj_def sendFrame_def Let_def split: payload.split option.split list.split)

text \<open>A session object is replaced by one with the same owner and instance.\<close>

lemma hub_ok_replace:
  assumes "hub_ok h" and "map_of (hb_objs h) c = Some ss" and "ts_owner ss' = ts_owner ss" and "ts_instanceID ss' = ts_instanceID ss"
    and h': "hb_reg h' = hb_reg h" "hb_nextID h' = hb_nextID h" "map_of (hb_objs h') = (map_of (hb_objs h))(c \<mapsto> ss')"
      "set (hb_ending h) \<subseteq> set (hb_ending h')" "ts_closed ss' = ts_closed ss \<or> c \<in> set (hb_ending h')"
  shows "hub_ok h'"
proof -
  have "bound_ok h' j p" if "map_of (rg_plugins (hb_reg h)) j = Some p" for j p
  proof -
    have "bound_ok h j p"
      using assms(1) that by (simp add: hub_ok_def)
    then show ?thesis
      using assms(2-4) subsetD [OF h'(4)] h'(5) by (auto simp: bound_ok_def h'(3) split: if_splits)
  qed
  moreover have "\<And>k t. map_of (hb_objs h') k = Some t \<Longrightarrow> k \<le> hb_nextID h'"
    using assms(1,2) by (auto simp: h' hub_ok_def split: if_splits)
  ultimately show ?thesis
    using assms(1) by (simp add: hub_ok_def h')
qed

lemma hub_ok_ends: "hub_ok h \<Longrightarrow> hub_ok (connectEnds c h)"
  by (auto simp: connectEnds_def update_conv' split: option.split intro: hub_ok_replace [where ss' = "closeSession ss" and ss = ss for ss])

lemma hub_ok_work: "hub_ok h \<Longrightarrow> hub_ok (sessionWork c op h)"
  using sessionStep_ids [of op]
  by (auto simp: sessionWork_def update_conv' split: option.split intro: hub_ok_replace [where ss' = "sessionStep op ss" and ss = ss for ss])

lemma hub_ok_hook:
  assumes "hub_ok h"
  shows "hub_ok (onDisconnect now c h)"
proof (cases "map_of (hb_objs h) c")
  case (Some ss)
  define reg where "reg = tunnelDisconnected now (ts_owner ss) (ts_instanceID ss) (hb_reg h)"
  have reg: "reg_ok reg"
    using assms by (simp add: reg_def hub_ok_def reg_ok_disconnected)
  have "bound_ok (h\<lparr>hb_ending := removeAll c (hb_ending h), hb_reg := reg\<rparr>) j p" if "map_of (rg_plugins reg) j = Some p" for j p
  proof -
    have "\<exists>p0. map_of (rg_plugins (hb_reg h)) j = Some p0 \<and> pl_Client p = pl_Client p0 \<and> pl_Owner p = pl_Owner p0 \<and>
        (pl_Online p \<longrightarrow> pl_Online p0 \<and> \<not> (j = ts_instanceID ss \<and> pl_Owner p0 = ts_owner ss \<and> \<not> rg_closed (hb_reg h)))"
      using that by (cases "j = ts_instanceID ss")
        (auto simp: reg_def tunnelDisconnected_def update_conv' split: if_splits option.splits)
    then obtain p0 where p0: "map_of (rg_plugins (hb_reg h)) j = Some p0" "pl_Client p = pl_Client p0" "pl_Owner p = pl_Owner p0"
        "pl_Online p \<longrightarrow> pl_Online p0 \<and> \<not> (j = ts_instanceID ss \<and> pl_Owner p0 = ts_owner ss \<and> \<not> rg_closed (hb_reg h))"
      by blast
    have "bound_ok h j p0" "rg_closed (hb_reg h) \<Longrightarrow> pl_Client p0 = None"
      using assms p0(1) by (auto simp: hub_ok_def)
    then show ?thesis
      using p0 Some by (auto simp: bound_ok_def)
  qed
  moreover have "rg_closed reg \<Longrightarrow> rg_closed (hb_reg h) \<and> reg = hb_reg h"
    by (auto simp: reg_def tunnelDisconnected_def split: option.splits if_splits)
  ultimately show ?thesis
    using assms reg Some by (auto simp: onDisconnect_def hub_ok_def reg_def)
qed (simp add: onDisconnect_def assms)

lemma hub_run_ok: "hub_run api errText h \<Longrightarrow> hub_ok h"
proof (induction rule: hub_run.induct)
  case (hr_register h now owner parsed)
  then have "reg_ok (hb_reg h)"
    by (simp add: hub_ok_def)
  moreover have "rg_closed (snd (register api errText now owner parsed (hb_reg h))) = rg_closed (hb_reg h)"
    by (simp add: register_def rejectRegister_def addPlugin_def Let_def split: sum.split option.split)
  ultimately show ?case
    using hr_register by (intro hub_ok_registry keepsBinding_register reg_ok_register) auto
next
  case (hr_heartbeat h now inst)
  have "rg_closed (snd (heartbeat (tunnelClientClosed h) now inst (hb_reg h))) = rg_closed (hb_reg h)"
    by (simp add: heartbeat_def Let_def split: option.split)
  then show ?case
    using hr_heartbeat by (intro hub_ok_registry keepsBinding_heartbeat reg_ok_heartbeat) (auto simp: hub_ok_def)
next
  case (hr_deregister h now inst)
  have "rg_closed (snd (deregister now inst (hb_reg h))) = rg_closed (hb_reg h)"
    by (simp add: deregister_def dropPlugin_def split: option.split)
  then show ?case
    using hr_deregister by (intro hub_ok_registry keepsBinding_deregister reg_ok_deregister) (auto simp: hub_ok_def)
next
  case (hr_check h now timeout)
  have e: "rg_closed (fold emit evs t) = rg_closed t" for evs and t :: "'c registry"
    by (induction evs arbitrary: t) simp_all
  have one: "rg_closed (fst (checkOne dead now timeout x (t, a, b))) = rg_closed t" for dead x a b and t :: "'c registry"
    by (cases x) (simp add: checkOne_def dropPlugin_def)
  have "rg_closed (fst (fold (checkOne dead now timeout) es acc)) = rg_closed (fst acc)" for dead es and acc :: "'c registry \<times> pluginEvent list \<times> pluginEvent list"
  proof (induction es arbitrary: acc)
    case (Cons x es)
    then show ?case
      using one [of dead x "fst acc" "fst (snd acc)" "snd (snd acc)"] by simp
  qed simp
  from this [of "tunnelClientClosed h" "rg_plugins (hb_reg h)" "(hb_reg h, [], [])"]
  have "rg_closed (checkOffline (tunnelClientClosed h) now timeout (hb_reg h)) = rg_closed (hb_reg h)"
    by (auto simp: checkOffline_def e split: prod.split)
  then show ?case
    using hr_check by (intro hub_ok_registry keepsBinding_check reg_ok_checkOffline) (auto simp: hub_ok_def)
next
  case (hr_close h)
  then show ?case
    by (intro hub_ok_registry reg_ok_close) (auto simp: closeRegistry_def keepsBinding_def)
qed (simp_all add: hub_ok_new hub_ok_connect hub_ok_ends hub_ok_hook hub_ok_work)

text \<open>
  (C31) The registry hands out live tunnels. In every history of registrations, heartbeats,
  scans, connections and losses, a client that a look-up by name or by protocol returns is the
  session which named that very plugin instance and which its owner opened; and the session is open, or
  it ended so recently that its disconnect hook has not run yet.
\<close>

theorem lookup_finds_own_live_tunnel:
  assumes "hub_run api errText h" and "findByNameFor ow name (hb_reg h) = Some c \<or> findFor ow hint (hb_reg h) = Some c"
  shows "\<exists>inst rp ss. map_of (rg_plugins (hb_reg h)) inst = Some rp \<and> (pl_Owner rp = [] \<or> pl_Owner rp = ow) \<and>
    map_of (hb_objs h) c = Some ss \<and> ts_instanceID ss = inst \<and> ts_owner ss = pl_Owner rp \<and>
    (\<not> ts_closed ss \<or> c \<in> set (hb_ending h))"
proof -
  have ok: "hub_ok h"
    by (rule hub_run_ok [OF assms(1)])
  obtain inst rp where rp: "map_of (rg_plugins (hb_reg h)) inst = Some rp" "usable rp" "pl_Client rp = Some c" "pl_Owner rp = [] \<or> pl_Owner rp = ow"
    using assms(2) findByKey_sound [of ow "pluginKeyCandidates ow name" "hb_reg h" c] findFor_sound [of "hb_reg h" ow hint c] ok
    unfolding findByNameFor_def hub_ok_def by blast
  have "bound_ok h inst rp"
    using ok rp(1) by (simp add: hub_ok_def)
  then show ?thesis
    using rp by (auto simp: bound_ok_def usable_def)
qed

definition demoHub :: "(nat, nat, vval) hub" where
  "demoHub = snd (connect 6 ''ann'' ''chess-1'' ((newTunnelHub 0 0)\<lparr>hb_reg := demoReg1\<rparr>))"

theorem lookup_finds_own_live_tunnel_witness:
  "\<exists>rp ss. map_of (rg_plugins (hb_reg demoHub)) ''chess-1'' = Some rp \<and> map_of (hb_objs demoHub) 1 = Some ss \<and>
    ts_instanceID ss = ''chess-1'' \<and> ts_owner ss = ''ann'' \<and> \<not> ts_closed ss"
proof -
  have "hub_run demo_api (\<lambda>_. []) demoHub"
    unfolding demoHub_def demoReg1_def using hr_connect [OF hr_register [OF hr_new [of demo_api "\<lambda>_. []" 0 0]]]
    by (simp add: newTunnelHub_def)
  moreover have f: "findByNameFor ''ann'' ''chess'' (hb_reg demoHub) = Some 1" and e: "hb_ending demoHub = []"
    by code_simp+
  ultimately obtain inst rp ss where r: "map_of (rg_plugins (hb_reg demoHub)) inst = Some rp" "pl_Owner rp = [] \<or> pl_Owner rp = ''ann''"
      "map_of (hb_objs demoHub) 1 = Some ss" "ts_instanceID ss = inst" "ts_owner ss = pl_Owner rp" "\<not> ts_closed ss \<or> 1 \<in> set (hb_ending demoHub)"
    using lookup_finds_own_live_tunnel [of demo_api "\<lambda>_. []" demoHub "''ann''" "''chess''" 1 "[]"] by blast
  have "map_of (hb_objs demoHub) 1 = Some (newSession ''ann'' ''chess-1'' 64)"
    by code_simp
  then show ?thesis
    using r e by (auto simp: newSession_def)
qed

end
