(* ===== verification/Probe_Store.thy ===== *)
theory Probe_Store
  imports Auth_Token Authz
begin

text \<open>
  \<open>pkg/store/probe_store.go\<close> and \<open>probe_store_pg.go\<close>: the table of probes and the cache of their
  archive segments; both back ends run the same statements. A table is the list of its rows in the
  order of insertion. The argument \<open>up\<close> says whether the database answers a call; a call that
  fails changes nothing. The snapshot that a heartbeat refreshes is one record, which
  \<open>ProbeMeta\<close> and \<open>ProbeRuntimeStatus\<close> share.
\<close>

record runtime =
  rt_CaptureState :: string
  rt_LastSessionID :: string
  rt_StatusError :: string
  rt_CaptureIface :: string
  rt_CapturePorts :: string
  rt_Interfaces :: string
  rt_LastPacketMs :: int
  rt_LastUploadMs :: int
  rt_PacketsCaptured :: u64
  rt_PacketsAcked :: u64
  rt_SpoolDepth :: u64
  rt_Dropped :: u64
  rt_ArchiveBytes :: u64
  rt_ArchiveSegments :: u32
  rt_ArchiveOldestMs :: int
  rt_ArchiveNewestMs :: int

definition zeroRuntime :: runtime where
  "zeroRuntime =
     \<lparr>rt_CaptureState = [], rt_LastSessionID = [], rt_StatusError = [], rt_CaptureIface = [], rt_CapturePorts = [], rt_Interfaces = [],
      rt_LastPacketMs = 0, rt_LastUploadMs = 0, rt_PacketsCaptured = 0, rt_PacketsAcked = 0, rt_SpoolDepth = 0, rt_Dropped = 0,
      rt_ArchiveBytes = 0, rt_ArchiveSegments = 0, rt_ArchiveOldestMs = 0, rt_ArchiveNewestMs = 0\<rparr>"

record probeMeta =
  pm_ProbeID :: string
  pm_Name :: string
  pm_Owner :: string
  pm_TenantID :: string
  pm_Capabilities :: string
  pm_TokenHash :: string
  pm_Version :: string
  pm_Hostname :: string
  pm_OS :: string
  pm_Arch :: string
  pm_ConnectionState :: string
  pm_LastSeenAt :: time
  pm_Runtime :: runtime
  pm_CreatedAt :: time

record probeRuntimeStatus =
  st_ConnectionState :: string
  st_Runtime :: runtime
  st_LastSeenAt :: time

record archiveSegment =
  sg_SegID :: string
  sg_FirstMs :: int
  sg_LastMs :: int
  sg_Packets :: u64
  sg_Bytes :: u64
  sg_LinkType :: u32

record probeDB =
  db_probes :: "probeMeta list"
  db_segments :: "(string \<times> archiveSegment) list"

definition normalizeTenant :: "string \<Rightarrow> string" where
  "normalizeTenant t = (if t = [] then DefaultTenant else t)"

definition scanProbe :: "probeMeta \<Rightarrow> probeMeta" where
  "scanProbe m = (if pm_LastSeenAt m = zeroTime then m\<lparr>pm_LastSeenAt := pm_CreatedAt m\<rparr> else m)"

text \<open>A row that exists keeps its owner, tenant, snapshot and time of creation.\<close>

definition conflictUpdate :: "probeMeta \<Rightarrow> probeMeta \<Rightarrow> probeMeta" where
  "conflictUpdate m row =
     row\<lparr>pm_Name := pm_Name m, pm_Capabilities := pm_Capabilities m, pm_TokenHash := pm_TokenHash m, pm_Version := pm_Version m,
         pm_Hostname := pm_Hostname m, pm_OS := pm_OS m, pm_Arch := pm_Arch m\<rparr>"

definition insertRow :: "time \<Rightarrow> probeMeta \<Rightarrow> probeMeta" where
  "insertRow now m =
     m\<lparr>pm_CreatedAt := (if pm_CreatedAt m = zeroTime then now else pm_CreatedAt m), pm_TenantID := normalizeTenant (pm_TenantID m),
       pm_Runtime := zeroRuntime\<lparr>rt_CaptureState := ''idle''\<rparr>\<rparr>"

definition updateProbe :: "string \<Rightarrow> (probeMeta \<Rightarrow> probeMeta) \<Rightarrow> probeDB \<Rightarrow> probeDB" where
  "updateProbe pid f db = db\<lparr>db_probes := map (\<lambda>m. if pm_ProbeID m = pid then f m else m) (db_probes db)\<rparr>"

definition upsertProbe :: "time \<Rightarrow> probeMeta \<Rightarrow> probeDB \<Rightarrow> probeDB" where
  "upsertProbe now m db =
     (if pm_ProbeID m \<in> pm_ProbeID ` set (db_probes db) then updateProbe (pm_ProbeID m) (conflictUpdate m) db
      else db\<lparr>db_probes := db_probes db @ [insertRow now m]\<rparr>)"

definition getProbe :: "bool \<Rightarrow> string \<Rightarrow> probeDB \<Rightarrow> probeMeta option" where
  "getProbe up pid db =
     (if up then map_option scanProbe (find (\<lambda>m. pm_ProbeID m = pid) (db_probes db)) else None)"

definition getProbeByTokenHash :: "bool \<Rightarrow> string \<Rightarrow> probeDB \<Rightarrow> probeMeta option" where
  "getProbeByTokenHash up h db =
     (if h = [] \<or> \<not> up then None else map_option scanProbe (find (\<lambda>m. pm_TokenHash m = h) (db_probes db)))"

definition listProbes :: "bool \<Rightarrow> probeDB \<Rightarrow> probeMeta list option" where
  "listProbes up db = (if up then Some (map scanProbe (sort_key (\<lambda>m. - pm_CreatedAt m) (db_probes db))) else None)"

text \<open>A heartbeat carries no list of interfaces: the column keeps what it has.\<close>

definition updateProbeStatus :: "bool \<Rightarrow> string \<Rightarrow> probeRuntimeStatus \<Rightarrow> probeDB \<Rightarrow> probeDB" where
  "updateProbeStatus up pid st db =
     (if up then updateProbe pid (\<lambda>m. m\<lparr>pm_ConnectionState := st_ConnectionState st, pm_LastSeenAt := st_LastSeenAt st,
        pm_Runtime := (st_Runtime st)\<lparr>rt_Interfaces := rt_Interfaces (pm_Runtime m)\<rparr>\<rparr>) db else db)"

definition updateProbeInterfaces :: "bool \<Rightarrow> string \<Rightarrow> string \<Rightarrow> probeDB \<Rightarrow> probeDB" where
  "updateProbeInterfaces up pid ifs db =
     (if up then updateProbe pid (\<lambda>m. m\<lparr>pm_Runtime := (pm_Runtime m)\<lparr>rt_Interfaces := ifs\<rparr>\<rparr>) db else db)"

definition setProbeConnection :: "bool \<Rightarrow> string \<Rightarrow> string \<Rightarrow> time \<Rightarrow> probeDB \<Rightarrow> probeDB" where
  "setProbeConnection up pid state seen db =
     (if up then updateProbe pid (\<lambda>m. m\<lparr>pm_ConnectionState := state, pm_LastSeenAt := seen\<rparr>) db else db)"

definition renameProbe :: "bool \<Rightarrow> string \<Rightarrow> string \<Rightarrow> probeDB \<Rightarrow> probeDB" where
  "renameProbe up pid name db = (if up then updateProbe pid (\<lambda>m. m\<lparr>pm_Name := name\<rparr>) db else db)"

definition revokeProbe :: "bool \<Rightarrow> string \<Rightarrow> probeDB \<Rightarrow> probeDB" where
  "revokeProbe up pid db =
     (if up then updateProbe pid (\<lambda>m. m\<lparr>pm_TokenHash := [], pm_ConnectionState := ''offline''\<rparr>) db else db)"

text \<open>Two statements: the second may fail when the first has succeeded.\<close>

definition deleteProbe :: "bool \<Rightarrow> bool \<Rightarrow> string \<Rightarrow> probeDB \<Rightarrow> bool \<times> probeDB" where
  "deleteProbe up1 up2 pid db =
     (if \<not> up1 then (False, db)
      else
        (let db1 = db\<lparr>db_segments := filter (\<lambda>(p, s). p \<noteq> pid) (db_segments db)\<rparr> in
         if \<not> up2 then (False, db1) else (True, db1\<lparr>db_probes := filter (\<lambda>m. pm_ProbeID m \<noteq> pid) (db_probes db1)\<rparr>)))"

text \<open>One transaction; two segments with the same identifier violate the primary key.\<close>

definition replaceProbeSegments :: "bool \<Rightarrow> string \<Rightarrow> archiveSegment list \<Rightarrow> probeDB \<Rightarrow> bool \<times> probeDB" where
  "replaceProbeSegments up pid segs db =
     (if up \<and> distinct (map sg_SegID segs)
      then (True, db\<lparr>db_segments := filter (\<lambda>(p, s). p \<noteq> pid) (db_segments db) @ map (Pair pid) segs\<rparr>)
      else (False, db))"

definition listProbeSegments :: "bool \<Rightarrow> string \<Rightarrow> int \<Rightarrow> int \<Rightarrow> probeDB \<Rightarrow> archiveSegment list option" where
  "listProbeSegments up pid fromMs toMs db =
     (if \<not> up then None
      else Some (sort_key sg_FirstMs
        (filter (\<lambda>s. (fromMs > 0 \<longrightarrow> fromMs \<le> sg_LastMs s) \<and> (toMs > 0 \<longrightarrow> sg_FirstMs s \<le> toMs))
          (map snd (filter (\<lambda>(p, s). p = pid) (db_segments db))))))"

section \<open>Rows and keys\<close>

definition db_ok :: "probeDB \<Rightarrow> bool" where
  [inv_defs]: "db_ok db \<longleftrightarrow> distinct (map pm_ProbeID (db_probes db)) \<and> distinct (map (\<lambda>(p, s). (p, sg_SegID s)) (db_segments db))"

lemma find_SomeD: "find P xs = Some x \<Longrightarrow> x \<in> set xs \<and> P x"
  by (induction xs) (auto split: if_splits)

lemma scanProbe_sel [simp]:
  "pm_ProbeID (scanProbe m) = pm_ProbeID m" "pm_Owner (scanProbe m) = pm_Owner m" "pm_TokenHash (scanProbe m) = pm_TokenHash m"
  "pm_TenantID (scanProbe m) = pm_TenantID m" "pm_Hostname (scanProbe m) = pm_Hostname m" "pm_Runtime (scanProbe m) = pm_Runtime m"
  by (simp_all add: scanProbe_def)

text \<open>The row of a probe, as the primary key determines it.\<close>

definition rowOf :: "probeDB \<Rightarrow> string \<Rightarrow> probeMeta option" where
  "rowOf db pid = find (\<lambda>m. pm_ProbeID m = pid) (db_probes db)"

lemma getProbe_row: "getProbe up pid db = (if up then map_option scanProbe (rowOf db pid) else None)"
  by (simp add: getProbe_def rowOf_def)

lemma rowOf_Some: "rowOf db pid = Some m \<Longrightarrow> m \<in> set (db_probes db) \<and> pm_ProbeID m = pid"
  by (auto simp: rowOf_def find_Some_iff)

lemma rowOf_unique:
  assumes "db_ok db" and "m \<in> set (db_probes db)"
  shows "rowOf db (pm_ProbeID m) = Some m"
proof -
  obtain m' where m': "rowOf db (pm_ProbeID m) = Some m'"
    using assms(2) by (cases "rowOf db (pm_ProbeID m)") (auto simp: rowOf_def find_None_iff)
  then have "m' = m"
    using assms rowOf_Some [OF m'] by (auto simp: db_ok_def distinct_map dest: inj_onD)
  then show ?thesis
    using m' by simp
qed

lemma rowOf_update:
  assumes "\<And>m. pm_ProbeID (f m) = pm_ProbeID m"
  shows "rowOf (updateProbe pid f db) q = (if q = pid then map_option f (rowOf db q) else rowOf db q)"
proof -
  have "find (\<lambda>m. pm_ProbeID m = q) (map (\<lambda>m. if pm_ProbeID m = pid then f m else m) xs) =
      (if q = pid then map_option f (find (\<lambda>m. pm_ProbeID m = q) xs) else find (\<lambda>m. pm_ProbeID m = q) xs)" for xs
    by (induction xs) (auto simp: assms)
  then show ?thesis
    by (simp add: rowOf_def updateProbe_def)
qed

lemma db_ok_update: "(\<And>m. pm_ProbeID (f m) = pm_ProbeID m) \<Longrightarrow> db_ok db \<Longrightarrow> db_ok (updateProbe pid f db)"
  by (simp add: db_ok_def updateProbe_def comp_def if_distrib cong: if_cong)

lemma insertRow_id [simp]: "pm_ProbeID (insertRow now m) = pm_ProbeID m" "pm_Owner (insertRow now m) = pm_Owner m"
  "pm_TokenHash (insertRow now m) = pm_TokenHash m"
  by (simp_all add: insertRow_def)

lemma conflictUpdate_id [simp]: "pm_ProbeID (conflictUpdate m row) = pm_ProbeID row" "pm_Owner (conflictUpdate m row) = pm_Owner row"
  "pm_TokenHash (conflictUpdate m row) = pm_TokenHash m" "pm_TenantID (conflictUpdate m row) = pm_TenantID row"
  by (simp_all add: conflictUpdate_def)

lemma db_ok_upsert: "db_ok db \<Longrightarrow> db_ok (upsertProbe now m db)"
  unfolding upsertProbe_def by (auto intro: db_ok_update) (auto simp: db_ok_def)

lemma rowOf_upsert:
  "rowOf (upsertProbe now m db) q =
     (if q = pm_ProbeID m then Some (case rowOf db q of Some row \<Rightarrow> conflictUpdate m row | None \<Rightarrow> insertRow now m) else rowOf db q)"
proof (cases "pm_ProbeID m \<in> pm_ProbeID ` set (db_probes db)")
  case True
  then have "rowOf db (pm_ProbeID m) \<noteq> None"
    by (auto simp: rowOf_def find_None_iff)
  then show ?thesis
    using True by (auto simp: upsertProbe_def rowOf_update split: option.split)
next
  case False
  then have "rowOf db (pm_ProbeID m) = None"
    unfolding rowOf_def find_None_iff by (metis image_eqI)
  moreover have "find P (xs @ [x]) = (case find P xs of Some y \<Rightarrow> Some y | None \<Rightarrow> if P x then Some x else None)" for P :: "probeMeta \<Rightarrow> bool" and xs x
    by (induction xs) simp_all
  ultimately show ?thesis
    using False by (auto simp: upsertProbe_def rowOf_def split: option.split)
qed

end
