(* ===== verification/Probe_Control.thy ===== *)
theory Probe_Control
  imports Probe_Store
begin

text \<open>
  \<open>pkg/probe/manager.go\<close> and \<open>server.go\<close>: the platform's side of the probes. What the platform wants of
  a probe is its desired state; commands go out on the control stream that the probe opened, and
  heartbeats report what the probe does. A control stream is a number; the context of its handler
  is cancelled by putting the number on a list. The channel of commands is the list of what is in
  it, at most sixteen. A call that waits for the answer of the probe is two steps, one that sends and one
  that collects the answer or gives up. JSON, random bytes and the digest are arguments.
\<close>

section \<open>Commands and state\<close>

record desired =
  ds_SessionID :: string
  ds_Iface :: string
  ds_Ifaces :: "string list"
  ds_Ports :: "int list"
  ds_Hosts :: "string list"
  ds_Protocol :: string
  ds_BPF :: string
  ds_SnapLen :: int
  ds_Promisc :: bool

datatype commandPayload =
  AssignCapture desired
| StopCaptureCmd
| UpdateFilterCmd "int list" "string list" string
| NotifyCmd string string string string
| ArchiveQueryCmd int int
| ArchiveUploadCmd string int int
| ConfigCmd "(string \<times> string) list"
| RetryCmd

record command =
  cm_Id :: string
  cm_Payload :: commandPayload

record commandResult =
  cr_Id :: string
  cr_Ok :: bool
  cr_Error :: string

record probeConn =
  pc_send :: "command list"
  pc_stream :: nat

record manager =
  mg_db :: probeDB
  mg_conns :: "(string \<times> probeConn) list"
  mg_cancelled :: "nat list"
  mg_latest :: "(string \<times> probeRuntimeStatus) list"
  mg_desired :: "(string \<times> desired) list"
  mg_queryWait :: "(string \<times> nat option) list"
  mg_replies :: "(nat \<times> archiveSegment list) list"
  mg_nextReply :: nat
  mg_pendingResults :: "(string \<times> commandResult option) list"
  mg_seq :: nat

definition newManager :: "probeDB \<Rightarrow> manager" where
  "newManager db =
     \<lparr>mg_db = db, mg_conns = [], mg_cancelled = [], mg_latest = [], mg_desired = [], mg_queryWait = [], mg_replies = [],
      mg_nextReply = 0, mg_pendingResults = [], mg_seq = 0\<rparr>"

definition sendBuffer :: nat where
  "sendBuffer = 16"

datatype probeError =
  ProbeUnknown | ProbeOffline | ProbeBusy | Rejected string | NoAnswer | NothingToRetry | DatabaseError | Cancelled

section \<open>Sending commands\<close>

definition cmdName :: "nat \<Rightarrow> string" where
  "cmdName n = ''cmd-'' @ show_nat n"

definition nextCmdIDLocked :: "manager \<Rightarrow> string \<times> manager" where
  "nextCmdIDLocked m = (cmdName (Suc (mg_seq m)), m\<lparr>mg_seq := Suc (mg_seq m)\<rparr>)"

definition pushCommand :: "string \<Rightarrow> probeConn \<Rightarrow> command \<Rightarrow> manager \<Rightarrow> manager" where
  "pushCommand pid c cmd m = m\<lparr>mg_conns := AList.update pid (c\<lparr>pc_send := pc_send c @ [cmd]\<rparr>) (mg_conns m)\<rparr>"

text \<open>
  Fire and forget: the entry for the result stays in the table when the command is sent; only the
  one of a command that found no room is taken out again.
\<close>

definition sendLockedNoWait :: "string \<Rightarrow> command \<Rightarrow> manager \<Rightarrow> manager" where
  "sendLockedNoWait pid cmd m =
     (case map_of (mg_conns m) pid of
        None \<Rightarrow> m
      | Some c \<Rightarrow>
          if length (pc_send c) < sendBuffer
          then pushCommand pid c cmd (m\<lparr>mg_pendingResults := AList.update (cm_Id cmd) None (mg_pendingResults m)\<rparr>)
          else m\<lparr>mg_pendingResults := AList.delete (cm_Id cmd) (mg_pendingResults m)\<rparr>)"

definition latestOf :: "string \<Rightarrow> manager \<Rightarrow> runtime" where
  "latestOf pid m = (case map_of (mg_latest m) pid of Some st \<Rightarrow> st_Runtime st | None \<Rightarrow> zeroRuntime)"

definition isCapturing :: "runtime \<Rightarrow> bool" where
  "isCapturing lt \<longleftrightarrow> rt_CaptureState lt = ''running'' \<or> rt_CaptureState lt = ''starting''"

definition dispatchCommand :: "string \<Rightarrow> commandPayload \<Rightarrow> manager \<Rightarrow> manager" where
  "dispatchCommand pid p m =
     (case nextCmdIDLocked m of (cid, m1) \<Rightarrow> sendLockedNoWait pid \<lparr>cm_Id = cid, cm_Payload = p\<rparr> m1)"

definition syncLocked :: "string \<Rightarrow> bool \<Rightarrow> manager \<Rightarrow> manager" where
  "syncLocked pid force m =
     (if map_of (mg_conns m) pid = None then m
      else
        (let lt = latestOf pid m; capturing = isCapturing lt in
         case map_of (mg_desired m) pid of
           Some d \<Rightarrow>
             if ds_SessionID d \<noteq> [] then
               if force \<or> \<not> capturing \<or> rt_LastSessionID lt \<noteq> ds_SessionID d then dispatchCommand pid (AssignCapture d) m else m
             else m
         | None \<Rightarrow> if capturing then dispatchCommand pid StopCaptureCmd m else m))"

text \<open>The two halves of \<open>sendAndWait\<close>.\<close>

definition submitCommand :: "string \<Rightarrow> commandPayload \<Rightarrow> manager \<Rightarrow> (probeError + string) \<times> manager" where
  "submitCommand pid p m =
     (case nextCmdIDLocked m of (cid, m1) \<Rightarrow>
        (case map_of (mg_conns m1) pid of
           None \<Rightarrow> (Inl ProbeOffline, m1)
         | Some c \<Rightarrow>
             if length (pc_send c) < sendBuffer
             then (Inr cid, pushCommand pid c \<lparr>cm_Id = cid, cm_Payload = p\<rparr>
                     (m1\<lparr>mg_pendingResults := AList.update cid None (mg_pendingResults m1)\<rparr>))
             else (Inl ProbeBusy, m1\<lparr>mg_pendingResults := AList.delete cid (mg_pendingResults m1)\<rparr>)))"

definition collectResult :: "string \<Rightarrow> manager \<Rightarrow> probeError option \<times> manager" where
  "collectResult cid m =
     ((case map_of (mg_pendingResults m) cid of
         Some (Some r) \<Rightarrow> if cr_Ok r then None else Some (Rejected (cr_Error r))
       | _ \<Rightarrow> Some NoAnswer),
      m\<lparr>mg_pendingResults := AList.delete cid (mg_pendingResults m)\<rparr>)"

section \<open>Control streams\<close>

definition cancelConn :: "string \<Rightarrow> manager \<Rightarrow> manager" where
  "cancelConn pid m =
     (case map_of (mg_conns m) pid of
        Some c \<Rightarrow> m\<lparr>mg_conns := AList.delete pid (mg_conns m), mg_cancelled := pc_stream c # mg_cancelled m\<rparr>
      | None \<Rightarrow> m)"

definition openConn :: "string \<Rightarrow> nat \<Rightarrow> manager \<Rightarrow> manager" where
  "openConn pid stream m =
     (let m1 = (case map_of (mg_conns m) pid of Some old \<Rightarrow> m\<lparr>mg_cancelled := pc_stream old # mg_cancelled m\<rparr> | None \<Rightarrow> m) in
      syncLocked pid False (m1\<lparr>mg_conns := AList.update pid \<lparr>pc_send = [], pc_stream = stream\<rparr> (mg_conns m1)\<rparr>))"

text \<open>The end of a stream closes whatever connection the probe has by then.\<close>

definition closeConn :: "bool \<Rightarrow> time \<Rightarrow> string \<Rightarrow> manager \<Rightarrow> manager" where
  "closeConn up now pid m =
     (let m1 = cancelConn pid m in m1\<lparr>mg_db := setProbeConnection up pid ''offline'' now (mg_db m1)\<rparr>)"

definition probeOnline :: "string \<Rightarrow> manager \<Rightarrow> bool" where
  "probeOnline pid m \<longleftrightarrow> map_of (mg_conns m) pid \<noteq> None"

text \<open>One turn of the sending loop of a stream: \<open>pick\<close> decides when both cases are ready.\<close>

datatype streamTurn = TurnExit | TurnWait | TurnSend command

definition sendTurn :: "bool \<Rightarrow> nat \<Rightarrow> string \<Rightarrow> manager \<Rightarrow> streamTurn \<times> manager" where
  "sendTurn pick stream pid m =
     (case map_of (mg_conns m) pid of
        None \<Rightarrow> (TurnExit, m)
      | Some c \<Rightarrow>
          if stream \<in> set (mg_cancelled m) \<and> (pick \<or> pc_send c = []) then (TurnExit, m)
          else case pc_send c of
            [] \<Rightarrow> (TurnWait, m)
          | cmd # rest \<Rightarrow> (TurnSend cmd, m\<lparr>mg_conns := AList.update pid (c\<lparr>pc_send := rest\<rparr>) (mg_conns m)\<rparr>))"

section \<open>Management\<close>

definition connState :: "string \<Rightarrow> manager \<Rightarrow> string" where
  "connState pid m = (if probeOnline pid m then ''online'' else ''offline'')"

definition mergeRuntime :: "probeRuntimeStatus \<Rightarrow> probeMeta \<Rightarrow> probeMeta" where
  "mergeRuntime lt p = p\<lparr>pm_Runtime := st_Runtime lt\<rparr>"

definition withStatus :: "manager \<Rightarrow> probeMeta \<Rightarrow> probeMeta" where
  "withStatus m p =
     (let p1 = p\<lparr>pm_ConnectionState := connState (pm_ProbeID p) m\<rparr> in
      case map_of (mg_latest m) (pm_ProbeID p) of Some lt \<Rightarrow> mergeRuntime lt p1 | None \<Rightarrow> p1)"

definition managerList :: "bool \<Rightarrow> manager \<Rightarrow> probeMeta list option" where
  "managerList up m = map_option (map (withStatus m)) (listProbes up (mg_db m))"

definition managerGet :: "bool \<Rightarrow> string \<Rightarrow> manager \<Rightarrow> probeMeta option" where
  "managerGet up pid m = map_option (withStatus m) (getProbe up pid (mg_db m))"

definition startCapture :: "bool \<Rightarrow> string \<Rightarrow> desired \<Rightarrow> manager \<Rightarrow> probeError option \<times> manager" where
  "startCapture up pid d m =
     (case getProbe up pid (mg_db m) of
        None \<Rightarrow> (Some ProbeUnknown, m)
      | Some _ \<Rightarrow> (None, syncLocked pid False (m\<lparr>mg_desired := AList.update pid d (mg_desired m)\<rparr>)))"

definition stopCapture :: "bool \<Rightarrow> string \<Rightarrow> manager \<Rightarrow> (probeError + string) \<times> manager" where
  "stopCapture up pid m =
     (case getProbe up pid (mg_db m) of
        None \<Rightarrow> (Inl ProbeUnknown, m)
      | Some p \<Rightarrow> (Inr (rt_LastSessionID (pm_Runtime p)), syncLocked pid False (m\<lparr>mg_desired := AList.delete pid (mg_desired m)\<rparr>)))"

definition updateFilterBegin ::
  "bool \<Rightarrow> string \<Rightarrow> int list \<Rightarrow> string list \<Rightarrow> string \<Rightarrow> manager \<Rightarrow> (probeError + string) \<times> manager" where
  "updateFilterBegin up pid ports hosts protocol m =
     (case getProbe up pid (mg_db m) of
        None \<Rightarrow> (Inl ProbeUnknown, m)
      | Some _ \<Rightarrow> submitCommand pid (UpdateFilterCmd ports hosts protocol) m)"

definition updateFilterEnd ::
  "string \<Rightarrow> string \<Rightarrow> int list \<Rightarrow> string list \<Rightarrow> string \<Rightarrow> manager \<Rightarrow> probeError option \<times> manager" where
  "updateFilterEnd cid pid ports hosts protocol m =
     (case collectResult cid m of
        (Some e, m1) \<Rightarrow> (Some e, m1)
      | (None, m1) \<Rightarrow>
          (case map_of (mg_desired m1) pid of
             None \<Rightarrow> (None, m1)
           | Some d \<Rightarrow> (None, m1\<lparr>mg_desired := AList.update pid
               (d\<lparr>ds_Ports := ports, ds_Hosts := hosts, ds_Protocol := protocol, ds_BPF := []\<rparr>) (mg_desired m1)\<rparr>)))"

definition retryCapture :: "bool \<Rightarrow> string \<Rightarrow> manager \<Rightarrow> probeError option \<times> manager" where
  "retryCapture up pid m =
     (case getProbe up pid (mg_db m) of
        None \<Rightarrow> (Some ProbeUnknown, m)
      | Some _ \<Rightarrow> if map_of (mg_desired m) pid = None then (Some NothingToRetry, m) else (None, syncLocked pid True m))"

definition renameManaged :: "bool \<Rightarrow> string \<Rightarrow> string \<Rightarrow> manager \<Rightarrow> manager" where
  "renameManaged up pid name m = m\<lparr>mg_db := renameProbe up pid name (mg_db m)\<rparr>"

text \<open>Notifications and alerts are commands without a desired state.\<close>

definition sendAlert ::
  "bool \<Rightarrow> string \<Rightarrow> string \<Rightarrow> string \<Rightarrow> string \<Rightarrow> string \<Rightarrow> manager \<Rightarrow> (probeError + string) \<times> manager" where
  "sendAlert up pid title message alertID detail m =
     (case getProbe up pid (mg_db m) of
        None \<Rightarrow> (Inl ProbeUnknown, m)
      | Some _ \<Rightarrow> submitCommand pid (NotifyCmd title message alertID detail) m)"

definition sendNotify :: "bool \<Rightarrow> string \<Rightarrow> string \<Rightarrow> string \<Rightarrow> manager \<Rightarrow> (probeError + string) \<times> manager" where
  "sendNotify up pid title message m =
     (case getProbe up pid (mg_db m) of
        None \<Rightarrow> (Inl ProbeUnknown, m)
      | Some _ \<Rightarrow> submitCommand pid (NotifyCmd title message [] []) m)"

definition revokeManaged :: "bool \<Rightarrow> string \<Rightarrow> manager \<Rightarrow> manager" where
  "revokeManaged up pid m =
     (let m1 = (cancelConn pid m)\<lparr>mg_desired := AList.delete pid (mg_desired m)\<rparr> in m1\<lparr>mg_db := revokeProbe up pid (mg_db m1)\<rparr>)"

definition deleteManaged :: "bool \<Rightarrow> bool \<Rightarrow> string \<Rightarrow> manager \<Rightarrow> bool \<times> manager" where
  "deleteManaged up1 up2 pid m =
     (let m1 = (cancelConn pid m)\<lparr>mg_desired := AList.delete pid (mg_desired m), mg_latest := AList.delete pid (mg_latest m)\<rparr>;
          (done, db) = deleteProbe up1 up2 pid (mg_db m1)
      in (done, m1\<lparr>mg_db := db\<rparr>))"

definition probeForSession :: "string \<Rightarrow> manager \<Rightarrow> string option" where
  "probeForSession sid m =
     (case find (\<lambda>(_, d). ds_SessionID d = sid) (mg_desired m) of
        Some (pid, _) \<Rightarrow> Some pid
      | None \<Rightarrow>
          map_option fst (find (\<lambda>(_, st). rt_LastSessionID (st_Runtime st) = sid \<and> isCapturing (st_Runtime st)) (mg_latest m)))"

text \<open>Go lets a loop over a map delete the entry it is at.\<close>

definition onSessionClosed :: "string \<Rightarrow> manager \<Rightarrow> manager" where
  "onSessionClosed sid m =
     fold (\<lambda>(pid, d) m. if ds_SessionID d \<noteq> sid then m else syncLocked pid False (m\<lparr>mg_desired := AList.delete pid (mg_desired m)\<rparr>))
       (mg_desired m) m"

section \<open>Heartbeats\<close>

record captureStatus =
  cs_State :: string
  cs_SessionId :: string
  cs_Iface :: string
  cs_Ports :: "int list"
  cs_Error :: string

record dataStatus =
  da_LastPacketUnixMs :: int
  da_LastUploadUnixMs :: int
  da_PacketsCaptured :: u64
  da_PacketsAcked :: u64
  da_SpoolDepth :: u64
  da_Dropped :: u64

record archiveStatus =
  as_Bytes :: u64
  as_Segments :: u32
  as_OldestUnix :: int
  as_NewestUnix :: int

record probeHeartbeat =
  hb_Capture :: "captureStatus option"
  hb_Data :: "dataStatus option"
  hb_Archive :: "archiveStatus option"

definition showInt :: "int \<Rightarrow> string" where
  "showInt n = (if n < 0 then CHR ''-'' # show_nat (nat (- n)) else show_nat (nat n))"

fun joinInt32 :: "int list \<Rightarrow> string" where
  "joinInt32 [] = []"
| "joinInt32 [x] = showInt x"
| "joinInt32 (x # y # xs) = showInt x @ '','' @ joinInt32 (y # xs)"

definition withCapture :: "captureStatus option \<Rightarrow> runtime \<Rightarrow> runtime" where
  "withCapture c rt = (case c of None \<Rightarrow> rt | Some c \<Rightarrow>
     rt\<lparr>rt_CaptureState := cs_State c, rt_LastSessionID := cs_SessionId c, rt_StatusError := cs_Error c, rt_CaptureIface := cs_Iface c,
        rt_CapturePorts := joinInt32 (cs_Ports c)\<rparr>)"

definition withData :: "dataStatus option \<Rightarrow> runtime \<Rightarrow> runtime" where
  "withData d rt = (case d of None \<Rightarrow> rt | Some d \<Rightarrow>
     rt\<lparr>rt_LastPacketMs := da_LastPacketUnixMs d, rt_LastUploadMs := da_LastUploadUnixMs d, rt_PacketsCaptured := da_PacketsCaptured d,
        rt_PacketsAcked := da_PacketsAcked d, rt_SpoolDepth := da_SpoolDepth d, rt_Dropped := da_Dropped d\<rparr>)"

definition withArchive :: "archiveStatus option \<Rightarrow> runtime \<Rightarrow> runtime" where
  "withArchive a rt = (case a of None \<Rightarrow> rt | Some a \<Rightarrow>
     rt\<lparr>rt_ArchiveBytes := as_Bytes a, rt_ArchiveSegments := as_Segments a, rt_ArchiveOldestMs := wrap64 (as_OldestUnix a * 1000),
        rt_ArchiveNewestMs := wrap64 (as_NewestUnix a * 1000)\<rparr>)"

definition heartbeatStatus :: "time \<Rightarrow> probeHeartbeat \<Rightarrow> probeRuntimeStatus" where
  "heartbeatStatus now hb =
     \<lparr>st_ConnectionState = ''online'',
      st_Runtime = withArchive (hb_Archive hb) (withData (hb_Data hb) (withCapture (hb_Capture hb) zeroRuntime)),
      st_LastSeenAt = now\<rparr>"

definition applyHeartbeat :: "bool \<Rightarrow> time \<Rightarrow> string \<Rightarrow> probeHeartbeat \<Rightarrow> manager \<Rightarrow> manager" where
  "applyHeartbeat up now pid hb m =
     (let st0 = heartbeatStatus now hb;
          st = (case map_of (mg_latest m) pid of
                  Some prev \<Rightarrow> st0\<lparr>st_Runtime := (st_Runtime st0)\<lparr>rt_Interfaces := rt_Interfaces (st_Runtime prev)\<rparr>\<rparr>
                | None \<Rightarrow> st0);
          m1 = m\<lparr>mg_latest := AList.update pid st (mg_latest m)\<rparr>;
          m2 = (if map_of (mg_desired m1) pid = None then syncLocked pid False m1 else m1)
      in m2\<lparr>mg_db := updateProbeStatus up pid st (mg_db m2)\<rparr>)"

record probeIface =
  pi_Name :: string
  pi_Friendly :: string
  pi_Description :: string
  pi_IPs :: "string list"

definition setInterfaces :: "(probeIface list \<Rightarrow> string) \<Rightarrow> bool \<Rightarrow> string \<Rightarrow> probeIface option list \<Rightarrow> manager \<Rightarrow> manager" where
  "setInterfaces marshal up pid ifaces m =
     (let b = marshal (List.map_filter id ifaces);
          lt = (case map_of (mg_latest m) pid of Some st \<Rightarrow> st
                | None \<Rightarrow> \<lparr>st_ConnectionState = [], st_Runtime = zeroRuntime, st_LastSeenAt = zeroTime\<rparr>);
          m1 = m\<lparr>mg_latest := AList.update pid (lt\<lparr>st_Runtime := (st_Runtime lt)\<lparr>rt_Interfaces := b\<rparr>\<rparr>) (mg_latest m)\<rparr>
      in m1\<lparr>mg_db := updateProbeInterfaces up pid b (mg_db m1)\<rparr>)"

section \<open>Archives\<close>

definition segmentOf :: "archiveSegment \<Rightarrow> archiveSegment" where
  "segmentOf s = s\<lparr>sg_FirstMs := wrap64 (sg_FirstMs s * 1000), sg_LastMs := wrap64 (sg_LastMs s * 1000)\<rparr>"

text \<open>The two halves of \<open>QueryArchive\<close>; the segments of a reply have their times in seconds.\<close>

definition queryArchiveBegin :: "string \<Rightarrow> int \<Rightarrow> int \<Rightarrow> manager \<Rightarrow> (probeError + nat) \<times> manager" where
  "queryArchiveBegin pid fromMs toMs m =
     (case map_of (mg_conns m) pid of
        None \<Rightarrow> (Inl ProbeOffline, m)
      | Some c \<Rightarrow>
          (let ch = mg_nextReply m;
               old = (case map_of (mg_queryWait m) pid of Some w \<Rightarrow> w | None \<Rightarrow> None);
               (cid, m1) = nextCmdIDLocked (m\<lparr>mg_nextReply := Suc ch, mg_queryWait := AList.update pid (Some ch) (mg_queryWait m)\<rparr>)
           in if length (pc_send c) < sendBuffer
              then (Inr ch, pushCommand pid c \<lparr>cm_Id = cid, cm_Payload = ArchiveQueryCmd (fromMs sdiv 1000) (toMs sdiv 1000)\<rparr> m1)
              else (Inl ProbeBusy, m1\<lparr>mg_queryWait := AList.update pid old (mg_queryWait m1)\<rparr>)))"

definition queryArchiveEnd :: "nat \<Rightarrow> string \<Rightarrow> manager \<Rightarrow> (probeError + archiveSegment list) \<times> manager" where
  "queryArchiveEnd ch pid m =
     ((case map_of (mg_replies m) ch of Some segs \<Rightarrow> Inr (map segmentOf segs) | None \<Rightarrow> Inl Cancelled),
      if map_of (mg_queryWait m) pid = Some (Some ch) then m\<lparr>mg_queryWait := AList.delete pid (mg_queryWait m)\<rparr> else m)"

definition startArchiveUpload :: "string \<Rightarrow> string \<Rightarrow> int \<Rightarrow> int \<Rightarrow> manager \<Rightarrow> (probeError + string) \<times> manager" where
  "startArchiveUpload pid target fromMs toMs m = submitCommand pid (ArchiveUploadCmd target (fromMs sdiv 1000) (toMs sdiv 1000)) m"

definition listArchiveCached :: "bool \<Rightarrow> string \<Rightarrow> int \<Rightarrow> int \<Rightarrow> manager \<Rightarrow> archiveSegment list option" where
  "listArchiveCached up pid fromMs toMs m = listProbeSegments up pid fromMs toMs (mg_db m)"

text \<open>The order of segments with the same start is that of a Go map; here, of first mention.\<close>

definition upsertArchiveSegments :: "bool \<Rightarrow> bool \<Rightarrow> string \<Rightarrow> archiveSegment list \<Rightarrow> manager \<Rightarrow> bool \<times> manager" where
  "upsertArchiveSegments up1 up2 pid segs m =
     (if segs = [] then (True, m)
      else case listProbeSegments up1 pid 0 0 (mg_db m) of
        None \<Rightarrow> (False, m)
      | Some existing \<Rightarrow>
          (let byID = fold (\<lambda>s. AList.update (sg_SegID s) s) (existing @ segs) [];
               (done, db) = replaceProbeSegments up2 pid (sort_key sg_FirstMs (map snd byID)) (mg_db m)
           in (done, m\<lparr>mg_db := db\<rparr>)))"

section \<open>The server\<close>

datatype controlEvent =
  EvHello string "probeIface option list" | EvHeartbeat probeHeartbeat | EvResult commandResult | EvArchiveSegments "archiveSegment list" | EvUnknown

definition handleEvent :: "bool \<Rightarrow> time \<Rightarrow> string \<Rightarrow> controlEvent \<Rightarrow> manager \<Rightarrow> manager" where
  "handleEvent up now pid ev m =
     (case ev of
        EvHeartbeat hb \<Rightarrow> applyHeartbeat up now pid hb m
      | EvResult r \<Rightarrow>
          (if map_of (mg_pendingResults m) (cr_Id r) = Some None
           then m\<lparr>mg_pendingResults := AList.update (cr_Id r) (Some r) (mg_pendingResults m)\<rparr> else m)
      | EvArchiveSegments segs \<Rightarrow>
          (case map_of (mg_queryWait m) pid of
             Some (Some ch) \<Rightarrow> if map_of (mg_replies m) ch = None then m\<lparr>mg_replies := AList.update ch segs (mg_replies m)\<rparr> else m
           | _ \<Rightarrow> m)
      | _ \<Rightarrow> m)"

datatype connectError = TokenRequired | UnknownProbe | RevokedProbe | HelloExpected | WrongProbe

definition connectCheck :: "bool \<Rightarrow> authPrincipal \<Rightarrow> controlEvent \<Rightarrow> manager \<Rightarrow> connectError option" where
  "connectCheck up p first m =
     (if ap_ProbeID p = [] then Some TokenRequired
      else case getProbe up (ap_ProbeID p) (mg_db m) of
        None \<Rightarrow> Some UnknownProbe
      | Some row \<Rightarrow>
          if pm_TokenHash row = [] then Some RevokedProbe
          else case first of
            EvHello pid _ \<Rightarrow> if pid \<noteq> ap_ProbeID p then Some WrongProbe else None
          | _ \<Rightarrow> Some HelloExpected)"

definition connectProbe ::
  "(probeIface list \<Rightarrow> string) \<Rightarrow> bool \<Rightarrow> time \<Rightarrow> nat \<Rightarrow> authPrincipal \<Rightarrow> controlEvent \<Rightarrow> manager \<Rightarrow> connectError option \<times> manager" where
  "connectProbe marshal up now stream p first m =
     (case connectCheck up p first m of
        Some e \<Rightarrow> (Some e, m)
      | None \<Rightarrow>
          (let pid = ap_ProbeID p;
               ifs = (case first of EvHello _ ifs \<Rightarrow> ifs | _ \<Rightarrow> []);
               m1 = (if ifs \<noteq> [] then setInterfaces marshal up pid ifs m else m);
               m2 = openConn pid stream m1
           in (None, m2\<lparr>mg_db := setProbeConnection up pid ''online'' now (mg_db m2)\<rparr>)))"

record registerRequest =
  rq_Name :: string
  rq_Hostname :: string
  rq_PrevProbeId :: string
  rq_Capabilities :: "string list"
  rq_Version :: string
  rq_Os :: string
  rq_Arch :: string

fun joinStrings :: "string list \<Rightarrow> string" where
  "joinStrings [] = []"
| "joinStrings [x] = x"
| "joinStrings (x # y # xs) = x @ '','' @ joinStrings (y # xs)"

datatype probeReply = RegOther | RegInternal | RegAck string string

definition probeIDFor :: "bool \<Rightarrow> string \<Rightarrow> registerRequest \<Rightarrow> string \<Rightarrow> string \<Rightarrow> probeDB \<Rightarrow> string" where
  "probeIDFor up owner rq prev fresh db =
     (if prev \<noteq> [] then prev
      else case listProbes up db of
        None \<Rightarrow> fresh
      | Some probes \<Rightarrow>
          (case find (\<lambda>p. pm_Owner p = owner \<and> pm_Hostname p = rq_Hostname rq \<and> rq_Hostname rq \<noteq> []) probes of
             Some p \<Rightarrow> if pm_ProbeID p = [] then fresh else pm_ProbeID p
           | None \<Rightarrow> fresh))"

definition newProbeToken :: "(string \<Rightarrow> string) \<Rightarrow> string \<Rightarrow> string \<times> string" where
  "newProbeToken sha hex = (''gt_prb_'' @ hex, sha (''gt_prb_'' @ hex))"

text \<open>
  \<open>fresh\<close> is the identifier that \<open>newProbeID\<close> would make, \<open>rand\<close> the random digits of the token or
  \<open>None\<close> when there are none, \<open>up\<close> says of the three calls of the database whether they succeed.
\<close>

definition registerProbe ::
  "(string \<Rightarrow> string) \<Rightarrow> bool \<times> bool \<times> bool \<Rightarrow> time \<Rightarrow> string \<Rightarrow> string option \<Rightarrow> authPrincipal \<Rightarrow> registerRequest \<Rightarrow> manager \<Rightarrow>
   probeReply \<times> manager" where
  "registerProbe sha up now fresh rand p rq m =
     (case up of (up1, up2, up3) \<Rightarrow>
        (let owner = ap_Owner p;
             name = (if rq_Name rq = [] then rq_Hostname rq else rq_Name rq);
             existing = getProbe up1 (rq_PrevProbeId rq) (mg_db m)
         in if (case existing of Some e \<Rightarrow> pm_Owner e \<noteq> owner | None \<Rightarrow> False) then (RegOther, m)
            else
              (let prev = (if existing = None then [] else rq_PrevProbeId rq);
                   pid = probeIDFor up2 owner rq prev fresh (mg_db m)
               in case rand of
                    None \<Rightarrow> (RegInternal, m)
                  | Some hex \<Rightarrow>
                      (let (token, h) = newProbeToken sha hex;
                           caps = (if rq_Capabilities rq = [] then [''pcap'', ''plugin_host''] else rq_Capabilities rq);
                           row = \<lparr>pm_ProbeID = pid, pm_Name = name, pm_Owner = owner, pm_TenantID = ap_Tenant p,
                                  pm_Capabilities = joinStrings caps, pm_TokenHash = h, pm_Version = rq_Version rq,
                                  pm_Hostname = rq_Hostname rq, pm_OS = rq_Os rq, pm_Arch = rq_Arch rq, pm_ConnectionState = [],
                                  pm_LastSeenAt = zeroTime, pm_Runtime = zeroRuntime, pm_CreatedAt = zeroTime\<rparr>
                       in if up3 then (RegAck pid token, m\<lparr>mg_db := upsertProbe now row (mg_db m)\<rparr>) else (RegInternal, m)))))"

definition probeResolve :: "(string \<Rightarrow> string) \<Rightarrow> bool \<Rightarrow> string \<Rightarrow> probeDB \<Rightarrow> authPrincipal option" where
  "probeResolve sha up token db =
     (if token = [] then None
      else map_option (\<lambda>p. \<lparr>ap_Owner = pm_Owner p, ap_IsAdmin = False, ap_Tenant = pm_TenantID p, ap_ProbeID = pm_ProbeID p\<rparr>)
        (getProbeByTokenHash up (sha token) db))"

definition probeRequired :: "bool \<Rightarrow> probeDB \<Rightarrow> bool" where
  "probeRequired up db = (case listProbes up db of Some ps \<Rightarrow> ps \<noteq> [] | None \<Rightarrow> False)"

text \<open>
  The upload of an archive: the owner of the target session is looked up once, on the first chunk that
  is not the final mark, and every packet goes to that target. \<open>sessions\<close> is \<open>None\<close> on a single machine; a chunk
  comes with the number of packets that the hub took.
\<close>

definition authorizeImport :: "(string \<Rightarrow> string option) option \<Rightarrow> bool \<Rightarrow> string \<Rightarrow> string \<Rightarrow> manager \<Rightarrow> bool" where
  "authorizeImport sessions up pid sid m =
     (if sid = [] then False
      else case sessions of
        None \<Rightarrow> True
      | Some ownerOf \<Rightarrow>
          (case ownerOf sid of
             None \<Rightarrow> False
           | Some o1 \<Rightarrow>
               (case getProbe up pid (mg_db m) of
                  None \<Rightarrow> False
                | Some p \<Rightarrow> pm_Owner p = (if o1 = [] then AnonymousOwner else o1))))"

record 'p uploadChunk =
  uc_Final :: bool
  uc_Target :: string
  uc_Packet :: "'p option"
  uc_Taken :: nat

fun uploadLoop ::
  "(string \<Rightarrow> bool) \<Rightarrow> bool \<Rightarrow> string option \<Rightarrow> nat \<Rightarrow> (string \<times> 'p) list \<Rightarrow> 'p uploadChunk list \<Rightarrow> nat option \<times> (string \<times> 'p) list" where
  "uploadLoop allowed eof target packets delivered [] = (if eof then Some packets else None, delivered)"
| "uploadLoop allowed eof target packets delivered (c # cs) =
     (if uc_Final c then uploadLoop allowed eof target packets delivered cs
      else case (case target of Some t \<Rightarrow> Some t | None \<Rightarrow> if allowed (uc_Target c) then Some (uc_Target c) else None) of
        None \<Rightarrow> (None, delivered)
      | Some t \<Rightarrow>
          (case uc_Packet c of
             None \<Rightarrow> uploadLoop allowed eof (Some t) packets delivered cs
           | Some p \<Rightarrow> uploadLoop allowed eof (Some t) (packets + uc_Taken c) (delivered @ [(t, p)]) cs))"

definition uploadArchive ::
  "bool \<Rightarrow> (string \<Rightarrow> string option) option \<Rightarrow> bool \<Rightarrow> authPrincipal \<Rightarrow> bool \<Rightarrow> 'p uploadChunk list \<Rightarrow> manager \<Rightarrow>
   nat option \<times> (string \<times> 'p) list" where
  "uploadArchive hub sessions up p eof chunks m =
     (if ap_ProbeID p = [] \<or> \<not> hub then (None, [])
      else uploadLoop (\<lambda>t. authorizeImport sessions up (ap_ProbeID p) t m) eof None 0 [] chunks)"

section \<open>Facts about commands and connections\<close>

lemma pushCommand_sel [simp]:
  "map_of (mg_conns (pushCommand pid c cmd m)) = (map_of (mg_conns m))(pid \<mapsto> c\<lparr>pc_send := pc_send c @ [cmd]\<rparr>)"
  "mg_desired (pushCommand pid c cmd m) = mg_desired m" "mg_latest (pushCommand pid c cmd m) = mg_latest m"
  "mg_db (pushCommand pid c cmd m) = mg_db m" "mg_cancelled (pushCommand pid c cmd m) = mg_cancelled m"
  "mg_pendingResults (pushCommand pid c cmd m) = mg_pendingResults m" "mg_seq (pushCommand pid c cmd m) = mg_seq m"
  by (simp_all add: pushCommand_def update_conv')

lemma dispatchCommand_sel [simp]:
  "mg_desired (dispatchCommand pid p m) = mg_desired m" "mg_latest (dispatchCommand pid p m) = mg_latest m"
  "mg_db (dispatchCommand pid p m) = mg_db m" "mg_cancelled (dispatchCommand pid p m) = mg_cancelled m"
  "mg_seq (dispatchCommand pid p m) = Suc (mg_seq m)"
  by (simp_all add: dispatchCommand_def nextCmdIDLocked_def sendLockedNoWait_def split: option.split)

lemma dispatchCommand_conns:
  "map_of (mg_conns (dispatchCommand pid p m)) q =
     (case map_of (mg_conns m) pid of
        Some c \<Rightarrow>
          if q = pid \<and> length (pc_send c) < sendBuffer
          then Some (c\<lparr>pc_send := pc_send c @ [\<lparr>cm_Id = cmdName (Suc (mg_seq m)), cm_Payload = p\<rparr>]\<rparr>) else map_of (mg_conns m) q
      | None \<Rightarrow> map_of (mg_conns m) q)"
  by (auto simp: dispatchCommand_def nextCmdIDLocked_def sendLockedNoWait_def split: option.split)

lemma syncLocked_sel [simp]:
  "mg_desired (syncLocked pid force m) = mg_desired m" "mg_latest (syncLocked pid force m) = mg_latest m"
  "mg_db (syncLocked pid force m) = mg_db m" "mg_cancelled (syncLocked pid force m) = mg_cancelled m"
  by (simp_all add: syncLocked_def Let_def split: option.split)

text \<open>What the platform sends a probe that has a connection, if anything.\<close>

definition wanted :: "string \<Rightarrow> bool \<Rightarrow> manager \<Rightarrow> commandPayload option" where
  "wanted pid force m =
     (case map_of (mg_desired m) pid of
        Some d \<Rightarrow>
          if ds_SessionID d \<noteq> [] \<and> (force \<or> \<not> isCapturing (latestOf pid m) \<or> rt_LastSessionID (latestOf pid m) \<noteq> ds_SessionID d)
          then Some (AssignCapture d) else None
      | None \<Rightarrow> if isCapturing (latestOf pid m) then Some StopCaptureCmd else None)"

lemma syncLocked_wanted:
  "syncLocked pid force m =
     (if map_of (mg_conns m) pid = None then m else case wanted pid force m of None \<Rightarrow> m | Some p \<Rightarrow> dispatchCommand pid p m)"
  by (simp add: syncLocked_def wanted_def Let_def split: option.split)

lemma syncLocked_conns:
  assumes "map_of (mg_conns m) pid = Some c"
  shows "map_of (mg_conns (syncLocked pid force m)) pid =
     Some (case wanted pid force m of
        Some p \<Rightarrow> if length (pc_send c) < sendBuffer
                  then c\<lparr>pc_send := pc_send c @ [\<lparr>cm_Id = cmdName (Suc (mg_seq m)), cm_Payload = p\<rparr>]\<rparr> else c
      | None \<Rightarrow> c)"
  using assms by (simp add: syncLocked_wanted dispatchCommand_conns split: option.split)

lemma syncLocked_offline: "map_of (mg_conns m) pid = None \<Longrightarrow> syncLocked pid force m = m"
  by (simp add: syncLocked_def)

section \<open>Credentials\<close>

text \<open>Distinct probes have distinct credentials; a revoked one has none.\<close>

definition tokens_ok :: "probeDB \<Rightarrow> bool" where
  "tokens_ok db \<longleftrightarrow> db_ok db \<and>
     (\<forall>q row q' row'. rowOf db q = Some row \<longrightarrow> rowOf db q' = Some row' \<longrightarrow> pm_TokenHash row \<noteq> [] \<longrightarrow>
        pm_TokenHash row = pm_TokenHash row' \<longrightarrow> q = q')"

lemma hash_row:
  assumes "tokens_ok db" and "h \<noteq> []"
  shows "getProbeByTokenHash True h db = Some p \<longleftrightarrow> (\<exists>q row. rowOf db q = Some row \<and> pm_TokenHash row = h \<and> p = scanProbe row)"
proof
  assume "getProbeByTokenHash True h db = Some p"
  then obtain row where "row \<in> set (db_probes db)" "pm_TokenHash row = h" "p = scanProbe row"
    using assms(2) find_SomeD [of "\<lambda>m. pm_TokenHash m = h" "db_probes db"] by (auto simp: getProbeByTokenHash_def)
  then show "\<exists>q row. rowOf db q = Some row \<and> pm_TokenHash row = h \<and> p = scanProbe row"
    using rowOf_unique assms(1) unfolding tokens_ok_def by blast
next
  assume "\<exists>q row. rowOf db q = Some row \<and> pm_TokenHash row = h \<and> p = scanProbe row"
  then obtain q row where row: "rowOf db q = Some row" "pm_TokenHash row = h" "p = scanProbe row"
    by blast
  then obtain row' where row': "find (\<lambda>m. pm_TokenHash m = h) (db_probes db) = Some row'"
    using rowOf_Some [OF row(1)] by (cases "find (\<lambda>m. pm_TokenHash m = h) (db_probes db)") (auto simp: find_None_iff)
  then have r: "row' \<in> set (db_probes db)" "pm_TokenHash row' = h"
    using find_SomeD [OF row'] by simp_all
  then have "rowOf db (pm_ProbeID row') = Some row'"
    using rowOf_unique assms(1) by (simp add: tokens_ok_def)
  then have "q = pm_ProbeID row'"
    using assms r(2) row(1,2) unfolding tokens_ok_def by metis
  then show "getProbeByTokenHash True h db = Some p"
    using row row' \<open>rowOf db (pm_ProbeID row') = Some row'\<close> assms(2) by (simp add: getProbeByTokenHash_def)
qed

lemma hash_none:
  assumes "tokens_ok db" and "h \<noteq> []"
  shows "getProbeByTokenHash True h db = None \<longleftrightarrow> (\<forall>q row. rowOf db q = Some row \<longrightarrow> pm_TokenHash row \<noteq> h)"
  using hash_row [OF assms] by (metis not_Some_eq)

lemma tokens_ok_upsert:
  assumes "tokens_ok db" and "\<And>q row. rowOf db q = Some row \<Longrightarrow> pm_TokenHash row \<noteq> pm_TokenHash m"
  shows "tokens_ok (upsertProbe now m db)"
  using assms unfolding tokens_ok_def
  by (auto simp: rowOf_upsert db_ok_upsert split: if_splits option.splits) metis+

text \<open>The row that an accepted registration writes, and that it belongs to the caller.\<close>

lemma registered_owner:
  assumes "registerProbe sha (True, True, True) now fresh rand p rq m = (RegAck pid token, m')"
    and "rowOf (mg_db m) fresh = None" and "db_ok (mg_db m)"
  obtains hex row where "rand = Some hex" and "token = ''gt_prb_'' @ hex" and "m' = m\<lparr>mg_db := upsertProbe now row (mg_db m)\<rparr>"
    and "pm_ProbeID row = pid" and "pm_Owner row = ap_Owner p" and "pm_TokenHash row = sha token" and "pm_TenantID row = ap_Tenant p"
    and "case rowOf (mg_db m) pid of Some r \<Rightarrow> pm_Owner r = ap_Owner p | None \<Rightarrow> True"
proof -
  define prev where "prev = (if getProbe True (rq_PrevProbeId rq) (mg_db m) = None then [] else rq_PrevProbeId rq)"
  have no: "case getProbe True (rq_PrevProbeId rq) (mg_db m) of Some e \<Rightarrow> pm_Owner e = ap_Owner p | None \<Rightarrow> True"
    using assms(1) by (auto simp: registerProbe_def Let_def split: option.splits if_splits)
  obtain hex where hex: "rand = Some hex"
    using assms(1) by (cases rand) (auto simp: registerProbe_def Let_def split: option.splits if_splits)
  have pid: "pid = probeIDFor True (ap_Owner p) rq prev fresh (mg_db m)" and token: "token = ''gt_prb_'' @ hex"
    and ex: "\<exists>row. m' = m\<lparr>mg_db := upsertProbe now row (mg_db m)\<rparr> \<and> pm_ProbeID row = pid \<and> pm_Owner row = ap_Owner p \<and>
      pm_TokenHash row = sha token \<and> pm_TenantID row = ap_Tenant p"
    using assms(1) hex by (auto simp: registerProbe_def prev_def newProbeToken_def Let_def split: option.splits if_splits)
  have own: "case rowOf (mg_db m) pid of Some r \<Rightarrow> pm_Owner r = ap_Owner p | None \<Rightarrow> True"
  proof (cases "prev = []")
    case False
    then have "pid = prev" "prev = rq_PrevProbeId rq"
      using pid by (auto simp: probeIDFor_def prev_def split: if_splits)
    then show ?thesis
      using no by (auto simp: getProbe_row split: option.splits)
  next
    case True
    define f where "f = find (\<lambda>q. pm_Owner q = ap_Owner p \<and> pm_Hostname q = rq_Hostname rq \<and> rq_Hostname rq \<noteq> [])
        (map scanProbe (sort_key (\<lambda>m. - pm_CreatedAt m) (db_probes (mg_db m))))"
    show ?thesis
    proof (cases "f = None \<or> pm_ProbeID (the f) = []")
      case True
      then have "pid = fresh"
        using pid \<open>prev = []\<close> by (auto simp: probeIDFor_def listProbes_def f_def split: option.splits)
      then show ?thesis
        using assms(2) by simp
    next
      case False
      then obtain q where q: "f = Some q"
        by (cases f) auto
      then have "pm_Owner q = ap_Owner p" "q \<in> scanProbe ` set (db_probes (mg_db m))"
        using find_SomeD [OF q [unfolded f_def]] by simp_all
      then obtain r where r: "r \<in> set (db_probes (mg_db m))" "q = scanProbe r" "pm_Owner r = ap_Owner p"
        by auto
      have "pid = pm_ProbeID q"
        using pid \<open>prev = []\<close> False q by (simp add: probeIDFor_def listProbes_def f_def)
      then show ?thesis
        using rowOf_unique [OF assms(3) r(1)] r by simp
    qed
  qed
  from ex obtain row where "m' = m\<lparr>mg_db := upsertProbe now row (mg_db m)\<rparr>" "pm_ProbeID row = pid" "pm_Owner row = ap_Owner p"
      "pm_TokenHash row = sha token" "pm_TenantID row = ap_Tenant p"
    by blast
  with that hex token own show thesis
    by blast
qed

lemma old_credentials:
  assumes "tokens_ok db" and "tokens_ok db'" and rows: "\<And>q. rowOf db' q = (if q = pid then Some new else rowOf db q)"
    and "pm_TokenHash new = h" and "sha old \<noteq> h"
  shows "probeResolve sha True old db' =
    (case probeResolve sha True old db of Some a \<Rightarrow> if ap_ProbeID a = pid then None else Some a | None \<Rightarrow> None)"
proof (cases "old = [] \<or> sha old = []")
  case True
  then show ?thesis
    by (auto simp: probeResolve_def getProbeByTokenHash_def)
next
  case False
  then have h: "sha old \<noteq> []"
    by simp
  show ?thesis
  proof (cases "getProbeByTokenHash True (sha old) db")
    case None
    then have "getProbeByTokenHash True (sha old) db' = None"
      using hash_none [OF assms(1) h] hash_none [OF assms(2) h] rows assms(4,5) by auto
    then show ?thesis
      using None by (simp add: probeResolve_def)
  next
    case (Some a)
    then obtain q r where r: "rowOf db q = Some r" "pm_TokenHash r = sha old" "a = scanProbe r"
      using hash_row [OF assms(1) h] by blast
    have q: "pm_ProbeID a = q"
      using rowOf_Some [OF r(1)] r(3) by simp
    show ?thesis
    proof (cases "q = pid")
      case True
      have "pm_TokenHash r' \<noteq> sha old" if "rowOf db' q' = Some r'" for q' r'
      proof (cases "q' = pid")
        case False
        then have "rowOf db q' = Some r'"
          using that rows by simp
        then show ?thesis
          using assms(1) r(1,2) h False True unfolding tokens_ok_def by metis
      qed (use that rows assms(4,5) in auto)
      then have "getProbeByTokenHash True (sha old) db' = None"
        using hash_none [OF assms(2) h] by blast
      then show ?thesis
        using Some q True by (simp add: probeResolve_def)
    next
      case False
      then have "rowOf db' q = Some r"
        using rows r(1) by simp
      then have "getProbeByTokenHash True (sha old) db' = Some a"
        using hash_row [OF assms(2) h] r(2,3) by blast
      then show ?thesis
        using Some q False \<open>\<not> (old = [] \<or> sha old = [])\<close> by (simp add: probeResolve_def)
    qed
  qed
qed

text \<open>
  (C35) A registration hands out the only credential of a probe. When the platform accepts a
  registration, the new token resolves to the caller and the probe; a token that resolved to this
  probe before no longer resolves to anything; what any other token resolves to is unchanged; and no
  probe changes its owner.
\<close>

theorem registration_rotates_token:
  assumes "tokens_ok (mg_db m)" and "registerProbe sha (True, True, True) now fresh rand p rq m = (RegAck pid token, m')"
    and "rowOf (mg_db m) fresh = None" and "sha token \<noteq> []" and "\<forall>q row. rowOf (mg_db m) q = Some row \<longrightarrow> pm_TokenHash row \<noteq> sha token"
  shows "tokens_ok (mg_db m') \<and>
    (\<exists>t. probeResolve sha True token (mg_db m') = Some \<lparr>ap_Owner = ap_Owner p, ap_IsAdmin = False, ap_Tenant = t, ap_ProbeID = pid\<rparr>) \<and>
    (\<forall>old. sha old \<noteq> sha token \<longrightarrow>
       probeResolve sha True old (mg_db m') =
         (case probeResolve sha True old (mg_db m) of Some a \<Rightarrow> if ap_ProbeID a = pid then None else Some a | None \<Rightarrow> None)) \<and>
    (\<forall>q row. rowOf (mg_db m) q = Some row \<longrightarrow> (\<exists>row'. rowOf (mg_db m') q = Some row' \<and> pm_Owner row' = pm_Owner row))"
proof -
  have ok: "db_ok (mg_db m)"
    using assms(1) by (simp add: tokens_ok_def)
  obtain hex row where row: "m' = m\<lparr>mg_db := upsertProbe now row (mg_db m)\<rparr>" "pm_ProbeID row = pid" "pm_Owner row = ap_Owner p"
      "pm_TokenHash row = sha token" "token = ''gt_prb_'' @ hex"
      and own: "case rowOf (mg_db m) pid of Some r \<Rightarrow> pm_Owner r = ap_Owner p | None \<Rightarrow> True"
    by (rule registered_owner [OF assms(2,3) ok]) blast
  define db' where "db' = upsertProbe now row (mg_db m)"
  define new where "new = (case rowOf (mg_db m) pid of Some r \<Rightarrow> conflictUpdate row r | None \<Rightarrow> insertRow now row)"
  have rows: "rowOf db' q = (if q = pid then Some new else rowOf (mg_db m) q)" for q
    by (simp add: db'_def rowOf_upsert row(2) new_def)
  have new: "pm_ProbeID new = pid" "pm_Owner new = ap_Owner p" "pm_TokenHash new = sha token"
    using own row(2-4) rowOf_Some [of "mg_db m" pid] by (auto simp: new_def split: option.splits)
  have tok: "tokens_ok db'"
    unfolding db'_def using assms(1,5) row(4) by (intro tokens_ok_upsert) auto
  have "getProbeByTokenHash True (sha token) db' = Some (scanProbe new)"
    using hash_row [OF tok assms(4)] rows new(3) by auto
  then have "\<exists>t. probeResolve sha True token db' = Some \<lparr>ap_Owner = ap_Owner p, ap_IsAdmin = False, ap_Tenant = t, ap_ProbeID = pid\<rparr>"
    using new row(5) by (simp add: probeResolve_def)
  moreover have "probeResolve sha True old db' =
      (case probeResolve sha True old (mg_db m) of Some a \<Rightarrow> if ap_ProbeID a = pid then None else Some a | None \<Rightarrow> None)"
    if other: "sha old \<noteq> sha token" for old
    using assms(1) tok rows new(3) other by (rule old_credentials)
  moreover have "\<exists>row'. rowOf db' q = Some row' \<and> pm_Owner row' = pm_Owner r" if "rowOf (mg_db m) q = Some r" for q r
    using rows new(2) own that by (cases "q = pid") auto
  ultimately show ?thesis
    using tok row(1) by (simp add: db'_def)
qed

section \<open>Streams and assignments that get lost\<close>

lemma openConn_stream: "\<exists>c. map_of (mg_conns (openConn pid k m)) pid = Some c \<and> pc_stream c = k"
proof -
  define m1 where "m1 = (case map_of (mg_conns m) pid of Some old \<Rightarrow> m\<lparr>mg_cancelled := pc_stream old # mg_cancelled m\<rparr> | None \<Rightarrow> m)"
  have "map_of (mg_conns (m1\<lparr>mg_conns := AList.update pid \<lparr>pc_send = [], pc_stream = k\<rparr> (mg_conns m1)\<rparr>)) pid = Some \<lparr>pc_send = [], pc_stream = k\<rparr>"
    by (simp add: update_conv')
  from syncLocked_conns [OF this, of False] show ?thesis
    by (simp add: openConn_def m1_def Let_def split: option.split)
qed

lemma applyHeartbeat_offline:
  "map_of (mg_conns m) pid = None \<Longrightarrow> mg_conns (applyHeartbeat up now pid hb m) = mg_conns m"
  by (simp add: applyHeartbeat_def Let_def syncLocked_offline split: option.split)

text \<open>
  The end of a replaced control stream cuts its replacement off. When a probe has opened a second
  stream and the handler of the first one ends afterwards, the platform cancels the second stream
  and counts the probe as offline; heartbeats that still arrive on the second stream do not bring it
  back, and every command is refused, until the probe connects again.
\<close>

theorem late_close_cuts_new_stream:
  assumes "m1 = openConn pid kNew (openConn pid kOld m)" and "m2 = closeConn up now pid m1"
    and "m3 = fold (\<lambda>(up, now, hb). applyHeartbeat up now pid hb) hbs m2"
  shows "kNew \<in> set (mg_cancelled m2) \<and> probeOnline pid m1 \<and> \<not> probeOnline pid m3 \<and> fst (submitCommand pid payload m3) = Inl ProbeOffline"
proof -
  obtain c where c: "map_of (mg_conns m1) pid = Some c" "pc_stream c = kNew"
    using openConn_stream assms(1) by blast
  have m2: "map_of (mg_conns m2) pid = None" "kNew \<in> set (mg_cancelled m2)"
    using c by (simp_all add: assms(2) closeConn_def cancelConn_def Let_def delete_conv')
  have "mg_conns (fold (\<lambda>(up, now, hb). applyHeartbeat up now pid hb) hbs x) = mg_conns x" if "map_of (mg_conns x) pid = None" for x
    using that by (induction hbs arbitrary: x) (auto simp: applyHeartbeat_offline)
  then have "map_of (mg_conns m3) pid = None"
    using m2(1) by (simp add: assms(3))
  then show ?thesis
    using c m2 by (simp add: probeOnline_def submitCommand_def nextCmdIDLocked_def)
qed

lemma applyHeartbeat_desired:
  assumes "map_of (mg_desired m) pid \<noteq> None"
  shows "mg_conns (applyHeartbeat up now pid hb m) = mg_conns m" and "mg_desired (applyHeartbeat up now pid hb m) = mg_desired m"
  using assms by (auto simp: applyHeartbeat_def Let_def split: option.split)

text \<open>
  An assignment that finds the channel full is lost. \<open>StartCapture\<close> reports success and keeps the
  assignment as the desired state, but sends nothing; and no heartbeat, whatever it reports, sends it
  later: as long as the stream lives, only another start or a retry does.
\<close>

theorem busy_assignment_lost:
  assumes "map_of (mg_conns m) pid = Some c" and "sendBuffer \<le> length (pc_send c)" and "rowOf (mg_db m) pid \<noteq> None"
    and "startCapture True pid d m = (r, m1)" and "m2 = fold (\<lambda>(up, now, hb). applyHeartbeat up now pid hb) hbs m1"
  shows "r = None \<and> map_of (mg_desired m2) pid = Some d \<and> map_of (mg_conns m2) pid = Some c"
proof -
  define m0 where "m0 = m\<lparr>mg_desired := AList.update pid d (mg_desired m)\<rparr>"
  have m1: "r = None" "m1 = syncLocked pid False m0"
    using assms(3,4) by (auto simp: startCapture_def getProbe_row m0_def split: option.splits)
  have "map_of (mg_conns m1) pid = Some c"
    using syncLocked_conns [of m0 pid c False] assms(1,2) m1(2) by (simp add: m0_def split: option.splits)
  moreover have "map_of (mg_desired m1) pid = Some d"
    by (simp add: m1(2) m0_def update_conv')
  moreover have "map_of (mg_conns (fold (\<lambda>(up, now, hb). applyHeartbeat up now pid hb) hbs x)) pid = map_of (mg_conns x) pid \<and>
      map_of (mg_desired (fold (\<lambda>(up, now, hb). applyHeartbeat up now pid hb) hbs x)) pid = map_of (mg_desired x) pid"
    if "map_of (mg_desired x) pid \<noteq> None" for x
    using that
  proof (induction hbs arbitrary: x)
    case (Cons h hbs)
    then show ?case
      by (cases h) (simp add: applyHeartbeat_desired)
  qed simp
  ultimately show ?thesis
    using m1(1) assms(5) by simp
qed

text \<open>
  The entry for the result of a command that nobody waits for stays in the table: neither the
  answer of the probe nor any other event takes it out.
\<close>

theorem result_entry_stays:
  assumes "map_of (mg_conns m) pid = Some c" and "length (pc_send c) < sendBuffer"
    and "m' = fold (\<lambda>(up, now, q, ev). handleEvent up now q ev) evs (dispatchCommand pid p m)"
  shows "map_of (mg_pendingResults m') (cmdName (Suc (mg_seq m))) \<noteq> None"
proof -
  have keep: "map_of (mg_pendingResults (dispatchCommand q p x)) cid \<noteq> None"
    if "map_of (mg_pendingResults x) cid \<noteq> None" "cid \<noteq> cmdName (Suc (mg_seq x))" for q p cid x
    using that by (auto simp: dispatchCommand_def nextCmdIDLocked_def sendLockedNoWait_def update_conv' delete_conv' split: option.split)
  have name: "cmdName a = cmdName b \<longleftrightarrow> a = b" for a b
    by (simp add: cmdName_def show_nat_inj)
  have hb: "map_of (mg_pendingResults (applyHeartbeat up now q h x)) (cmdName n) \<noteq> None \<and> n \<le> mg_seq (applyHeartbeat up now q h x)"
    if "map_of (mg_pendingResults x) (cmdName n) \<noteq> None" "n \<le> mg_seq x" for up now q h n x
    using that keep [of "x\<lparr>mg_latest := l\<rparr>" "cmdName n" q for l]
    by (auto simp: applyHeartbeat_def syncLocked_wanted Let_def name split: option.split)
  have ev: "map_of (mg_pendingResults (handleEvent up now q e x)) (cmdName n) \<noteq> None \<and> n \<le> mg_seq (handleEvent up now q e x)"
    if "map_of (mg_pendingResults x) (cmdName n) \<noteq> None" "n \<le> mg_seq x" for up now q e n x
    using that hb [OF that] by (cases e) (auto simp: handleEvent_def update_conv' split: option.split)
  have fold: "map_of (mg_pendingResults (fold (\<lambda>(up, now, q, ev). handleEvent up now q ev) evs x)) (cmdName n) \<noteq> None"
    if "map_of (mg_pendingResults x) (cmdName n) \<noteq> None" "n \<le> mg_seq x" for n x
    using that
  proof (induction evs arbitrary: x)
    case (Cons e evs)
    then show ?case
      using ev by (cases e) simp
  qed simp
  have "map_of (mg_pendingResults (dispatchCommand pid p m)) (cmdName (Suc (mg_seq m))) \<noteq> None"
    using assms(1,2) by (simp add: dispatchCommand_def nextCmdIDLocked_def sendLockedNoWait_def update_conv')
  then show ?thesis
    unfolding assms(3) by (rule fold) simp
qed

end
