(* ===== verification/Probe_Agent.thy ===== *)
theory Probe_Agent
  imports Probe_Control Retention
begin

text \<open>
  \<open>cmd/gt-agent/capture_runner.go\<close> and \<open>control_client.go\<close>: the probe's side. The runner is the
  state machine of the capture; the control client executes the commands of the platform on it and
  reports its state in heartbeats. The parameters of a capture are those of an assignment. What the
  machine does is an argument: which interface is the default, whether an interface, the spool or a filter
  can be opened. A run of the capture is a number; its context is cancelled by putting the number on a
  list.
\<close>

section \<open>Filters\<close>

type_synonym captureParams = desired

definition ifaceList :: "captureParams \<Rightarrow> string list" where
  "ifaceList p = (if ds_Ifaces p \<noteq> [] then ds_Ifaces p else if ds_Iface p \<noteq> [] then [ds_Iface p] else [])"

fun joinWith :: "string \<Rightarrow> string list \<Rightarrow> string" where
  "joinWith sep [] = []"
| "joinWith sep [x] = x"
| "joinWith sep (x # y # xs) = x @ sep @ joinWith sep (y # xs)"

definition filterProtocol :: "string \<Rightarrow> string" where
  "filterProtocol s = (let p = toLower (trimSpace s) in if p = ''udp'' \<or> p = ''both'' then p else ''tcp'')"

definition portPart :: "string \<Rightarrow> int \<Rightarrow> string" where
  "portPart protocol port =
     (if protocol = ''udp'' then ''udp port '' @ showInt port
      else if protocol = ''both'' then ''tcp port '' @ showInt port @ '' or udp port '' @ showInt port
      else ''tcp port '' @ showInt port)"

definition portParts :: "captureParams \<Rightarrow> string list" where
  "portParts p = map (portPart (filterProtocol (ds_Protocol p))) (filter (\<lambda>q. 0 < q \<and> q \<le> 65535) (ds_Ports p))"

definition hostParts :: "captureParams \<Rightarrow> string list" where
  "hostParts p = map (\<lambda>h. ''host '' @ h) (filter (\<lambda>h. h \<noteq> []) (map trimSpace (ds_Hosts p)))"

fun containsOr :: "string \<Rightarrow> bool" where
  "containsOr [] = False"
| "containsOr (c # cs) = (if c = CHR '' '' \<and> take 3 cs = ''or '' then True else containsOr cs)"

definition grouped :: "bool \<Rightarrow> string \<Rightarrow> string" where
  "grouped both e = (if both \<and> containsOr e then ''('' @ e @ '')'' else e)"

definition deriveBPF :: "captureParams \<Rightarrow> string" where
  "deriveBPF p =
     (if ds_BPF p \<noteq> [] then ds_BPF p
      else
        (let ports = portParts p; hosts = hostParts p; both = ports \<noteq> [] \<and> hosts \<noteq> [] in
         joinWith '' and ''
           ((if ports \<noteq> [] then [grouped both (joinWith '' or '' ports)] else []) @
            (if hosts \<noteq> [] then [grouped both (joinWith '' or '' hosts)] else []))))"

section \<open>The capture runner\<close>

record captureRunner =
  rn_state :: string
  rn_params :: captureParams
  rn_lastErr :: string
  rn_updatedMs :: int
  rn_lives :: "(string \<times> string) list"
  rn_cancelFn :: "nat option"
  rn_cancelled :: "nat list"
  rn_nextRun :: nat
  rn_spool :: "string option"
  rn_ingestAddr :: string
  rn_token :: string
  rn_data :: dataStatus

definition noParams :: captureParams where
  "noParams = \<lparr>ds_SessionID = [], ds_Iface = [], ds_Ifaces = [], ds_Ports = [], ds_Hosts = [], ds_Protocol = [], ds_BPF = [],
     ds_SnapLen = 0, ds_Promisc = False\<rparr>"

definition noData :: dataStatus where
  "noData = \<lparr>da_LastPacketUnixMs = 0, da_LastUploadUnixMs = 0, da_PacketsCaptured = 0, da_PacketsAcked = 0, da_SpoolDepth = 0, da_Dropped = 0\<rparr>"

definition newCaptureRunner :: captureRunner where
  "newCaptureRunner =
     \<lparr>rn_state = ''idle'', rn_params = noParams, rn_lastErr = [], rn_updatedMs = 0, rn_lives = [], rn_cancelFn = None, rn_cancelled = [],
      rn_nextRun = 0, rn_spool = None, rn_ingestAddr = [], rn_token = [], rn_data = noData\<rparr>"

record machine =
  mc_default :: "string + string"
  mc_open :: "string \<Rightarrow> string \<Rightarrow> string option"
  mc_spoolDir :: "string \<Rightarrow> string"
  mc_openSpool :: "string \<Rightarrow> string option"
  mc_setFilter :: "string \<Rightarrow> string \<Rightarrow> string option"
  mc_notify :: "string option"
  mc_quote :: "string \<Rightarrow> string"
  mc_saveConfig :: "string option"
  mc_now :: int

definition setState :: "machine \<Rightarrow> string \<Rightarrow> string \<Rightarrow> captureRunner \<Rightarrow> captureRunner" where
  "setState mc state err r = r\<lparr>rn_state := state, rn_lastErr := err, rn_updatedMs := mc_now mc\<rparr>"

definition stopLocked :: "captureRunner \<Rightarrow> captureRunner" where
  "stopLocked r =
     (case rn_cancelFn r of
        Some k \<Rightarrow> r\<lparr>rn_cancelled := k # rn_cancelled r, rn_cancelFn := None, rn_lives := []\<rparr>
      | None \<Rightarrow> r\<lparr>rn_lives := []\<rparr>)"

text \<open>Every card is opened in turn; the first that fails ends the loop.\<close>

fun openCards :: "machine \<Rightarrow> string \<Rightarrow> string list \<Rightarrow> (string \<times> string) list \<Rightarrow> string + (string \<times> string) list" where
  "openCards mc bpf [] lives = Inr lives"
| "openCards mc bpf (c # cs) lives =
     (case mc_open mc c bpf of Some e \<Rightarrow> Inl e | None \<Rightarrow> openCards mc bpf cs (lives @ [(c, bpf)]))"

definition failStart :: "machine \<Rightarrow> nat \<Rightarrow> string \<Rightarrow> captureRunner \<Rightarrow> captureRunner" where
  "failStart mc run err r = setState mc ''failed'' err (r\<lparr>rn_cancelled := run # rn_cancelled r, rn_lives := []\<rparr>)"

definition beginRun :: "machine \<Rightarrow> captureParams \<Rightarrow> string \<Rightarrow> string \<Rightarrow> captureRunner \<Rightarrow> captureRunner" where
  "beginRun mc p ingest token r =
     (let r1 = setState mc ''starting'' [] (stopLocked r) in
      r1\<lparr>rn_params := p, rn_ingestAddr := ingest, rn_token := token, rn_cancelFn := Some (rn_nextRun r1), rn_nextRun := Suc (rn_nextRun r1)\<rparr>)"

definition openRunSpool :: "machine \<Rightarrow> string \<Rightarrow> captureRunner \<Rightarrow> string option \<times> captureRunner" where
  "openRunSpool mc session r =
     (let dir = mc_spoolDir mc session in
      if rn_spool r = Some dir then (None, r)
      else case mc_openSpool mc dir of
        Some e \<Rightarrow> (Some e, r\<lparr>rn_spool := None\<rparr>)
      | None \<Rightarrow> (None, r\<lparr>rn_spool := Some dir\<rparr>))"

text \<open>The second half of \<open>Start\<close>: the old capture is stopped and the new one opened.\<close>

definition launch :: "machine \<Rightarrow> captureParams \<Rightarrow> string \<Rightarrow> string \<Rightarrow> captureRunner \<Rightarrow> string option \<times> captureRunner" where
  "launch mc p ingest token r =
     (let r1 = beginRun mc p ingest token r; run = rn_nextRun r in
      case openCards mc (ds_BPF p) (ds_Ifaces p) [] of
        Inl e \<Rightarrow> (Some e, failStart mc run e r1)
      | Inr lives \<Rightarrow>
          (case openRunSpool mc (ds_SessionID p) (r1\<lparr>rn_lives := lives\<rparr>) of
             (Some e, r2) \<Rightarrow> (Some (''open ingest spool: '' @ e), failStart mc run (''open spool: '' @ e) r2)
           | (None, r2) \<Rightarrow>
               (None, setState mc ''running'' [] (r2\<lparr>rn_data := (rn_data r2)\<lparr>da_PacketsCaptured := 0, da_PacketsAcked := 0\<rparr>\<rparr>))))"

definition sameCapture :: "captureParams \<Rightarrow> captureRunner \<Rightarrow> bool" where
  "sameCapture p r \<longleftrightarrow> rn_state r = ''running'' \<and> ds_SessionID (rn_params r) = ds_SessionID p \<and>
     joinWith '','' (ifaceList (rn_params r)) = joinWith '','' (ds_Ifaces p) \<and> ds_BPF (rn_params r) = ds_BPF p"

definition chooseCards :: "machine \<Rightarrow> captureParams \<Rightarrow> string + string list" where
  "chooseCards mc p = (if ifaceList p = [] then map_sum id (\<lambda>c. [c]) (mc_default mc) else Inr (ifaceList p))"

definition startRunner ::
  "machine \<Rightarrow> captureParams \<Rightarrow> string \<Rightarrow> string \<Rightarrow> captureRunner \<Rightarrow> string option \<times> captureRunner" where
  "startRunner mc p0 ingest token r =
     (if ds_SessionID p0 = [] then (Some ''capture start: session_id is required'', r)
      else
        (let p1 = p0\<lparr>ds_SnapLen := (if ds_SnapLen p0 \<le> 0 then 262144 else ds_SnapLen p0), ds_BPF := deriveBPF p0\<rparr> in
         case chooseCards mc p1 of
           Inl e \<Rightarrow> (Some e, setState mc ''failed'' e r)
         | Inr ifaces \<Rightarrow>
             (let p = p1\<lparr>ds_Ifaces := ifaces\<rparr> in
              if sameCapture p r then (None, r) else launch mc p ingest token r)))"

definition stopRunner :: "machine \<Rightarrow> captureRunner \<Rightarrow> captureRunner" where
  "stopRunner mc r =
     (if rn_state r = ''idle'' \<or> rn_state r = ''stopped'' then r else setState mc ''stopped'' [] (stopLocked r))"

text \<open>The watcher of a run: \<open>pick\<close> says that it sees the error although its context is cancelled.\<close>

definition watchCapEnded :: "machine \<Rightarrow> bool \<Rightarrow> nat \<Rightarrow> string option \<Rightarrow> captureRunner \<Rightarrow> captureRunner" where
  "watchCapEnded mc pick run err r =
     (if run \<in> set (rn_cancelled r) \<and> \<not> pick then r
      else case err of
        None \<Rightarrow> r
      | Some e \<Rightarrow>
          if rn_state r = ''running'' \<or> rn_state r = ''starting''
          then (let r1 = setState mc ''failed'' e r in
                case rn_cancelFn r1 of Some k \<Rightarrow> r1\<lparr>rn_cancelled := k # rn_cancelled r1\<rparr> | None \<Rightarrow> r1)
          else r)"

fun setFilters :: "machine \<Rightarrow> string \<Rightarrow> (string \<times> string) list \<Rightarrow> string option \<times> (string \<times> string) list" where
  "setFilters mc bpf [] = (None, [])"
| "setFilters mc bpf ((c, old) # lives) =
     (case mc_setFilter mc c bpf of
        Some e \<Rightarrow> (Some e, (c, old) # lives)
      | None \<Rightarrow> (case setFilters mc bpf lives of (e, rest) \<Rightarrow> (e, (c, bpf) # rest)))"

definition updateFilterRunner ::
  "machine \<Rightarrow> int list \<Rightarrow> string list \<Rightarrow> string \<Rightarrow> string \<Rightarrow> captureRunner \<Rightarrow> string option \<times> captureRunner" where
  "updateFilterRunner mc ports hosts protocol bpf r =
     (if rn_state r \<noteq> ''running'' \<or> rn_lives r = []
      then (Some ''capture is not running; filter update requires a running capture'', r)
      else
        (let derived = deriveBPF (noParams\<lparr>ds_Ports := ports, ds_Hosts := hosts, ds_Protocol := protocol, ds_BPF := bpf\<rparr>) in
         case setFilters mc derived (rn_lives r) of
           (Some e, lives) \<Rightarrow> (Some e, r\<lparr>rn_lives := lives\<rparr>)
         | (None, lives) \<Rightarrow>
             (None, r\<lparr>rn_lives := lives, rn_params := (rn_params r)\<lparr>ds_Ports := ports, ds_Hosts := hosts, ds_Protocol := protocol, ds_BPF := derived\<rparr>\<rparr>)))"

definition onPacket :: "machine \<Rightarrow> captureRunner \<Rightarrow> captureRunner" where
  "onPacket mc r = r\<lparr>rn_data := (rn_data r)\<lparr>da_LastPacketUnixMs := mc_now mc, da_PacketsCaptured := da_PacketsCaptured (rn_data r) + 1\<rparr>\<rparr>"

definition onAcked :: "machine \<Rightarrow> nat \<Rightarrow> captureRunner \<Rightarrow> captureRunner" where
  "onAcked mc n r = r\<lparr>rn_data := (rn_data r)\<lparr>da_LastUploadUnixMs := mc_now mc, da_PacketsAcked := da_PacketsAcked (rn_data r) + of_nat n\<rparr>\<rparr>"

section \<open>Heartbeats and commands\<close>

fun splitComma :: "string \<Rightarrow> string \<Rightarrow> string list" where
  "splitComma cur [] = (if cur \<noteq> [] then [cur] else [])"
| "splitComma cur (c # cs) =
     (if c = CHR '','' then (if cur \<noteq> [] then [cur] else []) @ splitComma [] cs else splitComma (cur @ [c]) cs)"

text \<open>\<open>Sscanf\<close> with \<open>%d\<close>: blanks, a sign, at least one digit; the rest is not looked at.\<close>

definition scanInt :: "string \<Rightarrow> int option" where
  "scanInt s =
     (let t = dropWhile (\<lambda>c. c \<in> set blanks) s;
          neg = (take 1 t = ''-''); u = (if take 1 t = ''-'' \<or> take 1 t = ''+'' then drop 1 t else t);
          ds = takeWhile is_digit u; v = (if neg then - int (digits_value ds) else int (digits_value ds))
      in if ds = [] \<or> v < - (2 ^ 63) \<or> 2 ^ 63 \<le> v then None else Some v)"

definition splitCSVInts :: "string \<Rightarrow> int list" where
  "splitCSVInts s = List.map_filter scanInt (splitComma [] s)"

definition joinInt32s :: "int list \<Rightarrow> string" where
  "joinInt32s xs = joinWith '','' (map showInt xs)"

definition runnerHeartbeat :: "archiveStatus option \<Rightarrow> captureRunner \<Rightarrow> probeHeartbeat" where
  "runnerHeartbeat archive r =
     \<lparr>hb_Capture = Some \<lparr>cs_State = rn_state r, cs_SessionId = ds_SessionID (rn_params r), cs_Iface = joinWith '','' (ifaceList (rn_params r)),
        cs_Ports = splitCSVInts (joinInt32s (ds_Ports (rn_params r))), cs_Error = rn_lastErr r\<rparr>,
      hb_Data = Some (rn_data r), hb_Archive = archive\<rparr>"

record agentConfig =
  ac_Name :: string
  ac_ArchiveEnabled :: bool
  ac_MaxAgeHrs :: int
  ac_MaxBytes :: int

record controlAgent =
  ag_runner :: captureRunner
  ag_lastAssign :: "captureParams option"
  ag_cfg :: agentConfig
  ag_ingestAddr :: string
  ag_probeToken :: string

text \<open>The keys are applied one by one; an error leaves those before it applied and unsaved.\<close>

fun applyConfigKeys :: "machine \<Rightarrow> (string \<times> string) list \<Rightarrow> agentConfig \<Rightarrow> string option \<times> agentConfig" where
  "applyConfigKeys mc [] c = (None, c)"
| "applyConfigKeys mc ((k, v) # kvs) c =
     (if k = ''name'' then applyConfigKeys mc kvs (c\<lparr>ac_Name := v\<rparr>)
      else if k = ''archive_enabled'' then
        if v \<in> {''true'', ''1'', ''on''} then applyConfigKeys mc kvs (c\<lparr>ac_ArchiveEnabled := True\<rparr>)
        else if v \<in> {''false'', ''0'', ''off''} then applyConfigKeys mc kvs (c\<lparr>ac_ArchiveEnabled := False\<rparr>)
        else (Some (''archive_enabled: invalid value '' @ mc_quote mc v), c)
      else if k = ''archive_max_age_hours'' then
        (case scanInt v of
           Some n \<Rightarrow> if n < 0 then (Some (''archive_max_age_hours: invalid value '' @ mc_quote mc v), c) else applyConfigKeys mc kvs (c\<lparr>ac_MaxAgeHrs := n\<rparr>)
         | None \<Rightarrow> (Some (''archive_max_age_hours: invalid value '' @ mc_quote mc v), c))
      else if k = ''archive_max_bytes'' then
        (case scanInt v of
           Some n \<Rightarrow> if n < 0 then (Some (''archive_max_bytes: invalid value '' @ mc_quote mc v), c) else applyConfigKeys mc kvs (c\<lparr>ac_MaxBytes := n\<rparr>)
         | None \<Rightarrow> (Some (''archive_max_bytes: invalid value '' @ mc_quote mc v), c))
      else (Some (''config key '' @ mc_quote mc k @ '' not allowed''), c))"

definition applyConfig :: "machine \<Rightarrow> (string \<times> string) list \<Rightarrow> agentConfig \<Rightarrow> string option \<times> agentConfig" where
  "applyConfig mc kvs c =
     (if kvs = [] then (None, c)
      else case applyConfigKeys mc kvs c of
        (Some e, c1) \<Rightarrow> (Some e, c1)
      | (None, c1) \<Rightarrow> (case mc_saveConfig mc of Some e \<Rightarrow> (Some (''save probe.json: '' @ e), c1) | None \<Rightarrow> (None, c1)))"

text \<open>The answer of a command and the events sent besides; \<open>archive\<close> is the local archive, if there is one.\<close>

definition commandAnswer :: "string \<Rightarrow> string option \<Rightarrow> commandResult" where
  "commandAnswer cid e = (case e of None \<Rightarrow> \<lparr>cr_Id = cid, cr_Ok = True, cr_Error = []\<rparr> | Some e \<Rightarrow> \<lparr>cr_Id = cid, cr_Ok = False, cr_Error = e\<rparr>)"

definition inSeconds :: "archiveSegment \<Rightarrow> archiveSegment" where
  "inSeconds s = s\<lparr>sg_FirstMs := sg_FirstMs s sdiv 1000, sg_LastMs := sg_LastMs s sdiv 1000\<rparr>"

definition rememberAssign :: "commandPayload \<Rightarrow> controlAgent \<Rightarrow> controlAgent" where
  "rememberAssign p a = (case p of AssignCapture d \<Rightarrow> a\<lparr>ag_lastAssign := Some d\<rparr> | _ \<Rightarrow> a)"

definition startAgent :: "machine \<Rightarrow> captureParams \<Rightarrow> controlAgent \<Rightarrow> string option \<times> controlAgent" where
  "startAgent mc p a =
     (case startRunner mc p (ag_ingestAddr a) (ag_probeToken a) (ag_runner a) of (e, r) \<Rightarrow> (e, a\<lparr>ag_runner := r\<rparr>))"

definition execute ::
  "machine \<Rightarrow> (int \<Rightarrow> int \<Rightarrow> string + archiveSegment list) option \<Rightarrow> command \<Rightarrow> controlAgent \<Rightarrow>
   commandResult \<times> controlEvent list \<times> controlAgent" where
  "execute mc archive cmd a0 =
     (let cid = cm_Id cmd; a = rememberAssign (cm_Payload cmd) a0; disabled = Some ''archive disabled on this probe'' in
      case cm_Payload cmd of
        AssignCapture d \<Rightarrow> (case startAgent mc d a of (e, a1) \<Rightarrow> (commandAnswer cid e, [], a1))
      | StopCaptureCmd \<Rightarrow> (commandAnswer cid None, [], a\<lparr>ag_runner := stopRunner mc (ag_runner a)\<rparr>)
      | UpdateFilterCmd ports hosts protocol \<Rightarrow>
          (case updateFilterRunner mc ports hosts protocol [] (ag_runner a) of (e, r) \<Rightarrow> (commandAnswer cid e, [], a\<lparr>ag_runner := r\<rparr>))
      | ConfigCmd kvs \<Rightarrow> (case applyConfig mc kvs (ag_cfg a) of (e, c) \<Rightarrow> (commandAnswer cid e, [], a\<lparr>ag_cfg := c\<rparr>))
      | RetryCmd \<Rightarrow>
          (case ag_lastAssign a of
             None \<Rightarrow> (commandAnswer cid (Some ''no previous assign to retry''), [], a)
           | Some d \<Rightarrow> (case startAgent mc d a of (e, a1) \<Rightarrow> (commandAnswer cid e, [], a1)))
      | ArchiveQueryCmd fromS toS \<Rightarrow>
          (case archive of
             None \<Rightarrow> (commandAnswer cid disabled, [], a)
           | Some listSegs \<Rightarrow>
               (case listSegs (wrap64 (fromS * 1000)) (wrap64 (toS * 1000)) of
                  Inl e \<Rightarrow> (commandAnswer cid (Some e), [], a)
                | Inr segs \<Rightarrow> (commandAnswer cid None, [EvArchiveSegments (map inSeconds segs)], a)))
      | ArchiveUploadCmd target fromS toS \<Rightarrow> (commandAnswer cid (if archive = None then disabled else None), [], a)
      | NotifyCmd title message alertID detail \<Rightarrow> (commandAnswer cid (mc_notify mc), [], a))"

section \<open>The runner as a state machine\<close>

text \<open>
  A running capture has all cards of its parameters open, in a run that is not cancelled, and a spool; an
  idle or stopped one has no card open. Of a failed one nothing is claimed: the cards of a source
  that ended close with its context.
\<close>

definition live :: "captureRunner \<Rightarrow> bool" where
  "live r \<longleftrightarrow> rn_lives r \<noteq> [] \<and> (\<exists>k. rn_cancelFn r = Some k \<and> k \<notin> set (rn_cancelled r))"

definition runner_ok :: "captureRunner \<Rightarrow> bool" where
  [inv_defs]: "runner_ok r \<longleftrightarrow>
     rn_state r \<in> {''idle'', ''running'', ''stopped'', ''failed''} \<and>
     (\<forall>k \<in> set (rn_cancelled r). k < rn_nextRun r) \<and>
     (case rn_cancelFn r of Some k \<Rightarrow> k < rn_nextRun r | None \<Rightarrow> rn_lives r = []) \<and>
     (rn_state r = ''running'' \<longrightarrow>
        live r \<and> ds_SessionID (rn_params r) \<noteq> [] \<and> map fst (rn_lives r) = ifaceList (rn_params r) \<and> rn_spool r \<noteq> None) \<and>
     (rn_state r = ''idle'' \<or> rn_state r = ''stopped'' \<longrightarrow> rn_lives r = [])"

lemma stopLocked_sel [simp]:
  "rn_lives (stopLocked r) = []" "rn_cancelFn (stopLocked r) = None" "rn_nextRun (stopLocked r) = rn_nextRun r"
  "rn_params (stopLocked r) = rn_params r" "rn_state (stopLocked r) = rn_state r" "rn_spool (stopLocked r) = rn_spool r"
  "rn_data (stopLocked r) = rn_data r"
  by (simp_all add: stopLocked_def split: option.split)

lemma setState_sel [simp]:
  "rn_lives (setState mc s e r) = rn_lives r" "rn_cancelFn (setState mc s e r) = rn_cancelFn r" "rn_nextRun (setState mc s e r) = rn_nextRun r"
  "rn_params (setState mc s e r) = rn_params r" "rn_state (setState mc s e r) = s" "rn_spool (setState mc s e r) = rn_spool r"
  "rn_cancelled (setState mc s e r) = rn_cancelled r" "rn_lastErr (setState mc s e r) = e" "rn_data (setState mc s e r) = rn_data r"
  by (simp_all add: setState_def)

lemma stopLocked_cancelled: "runner_ok r \<Longrightarrow> \<forall>k \<in> set (rn_cancelled (stopLocked r)). k < rn_nextRun r"
  by (auto simp: runner_ok_def stopLocked_def split: option.splits)

lemma openCards_cards: "openCards mc bpf cs lives = Inr lives' \<Longrightarrow> lives' = lives @ map (\<lambda>c. (c, bpf)) cs"
  by (induction mc bpf cs lives rule: openCards.induct) (auto split: option.splits)

lemma runner_ok_stop: "runner_ok r \<Longrightarrow> runner_ok (stopRunner mc r)"
  using stopLocked_cancelled [of r] by (auto simp: stopRunner_def runner_ok_def)

lemma beginRun_sel [simp]:
  "rn_lives (beginRun mc p i t r) = []" "rn_cancelFn (beginRun mc p i t r) = Some (rn_nextRun r)" "rn_nextRun (beginRun mc p i t r) = Suc (rn_nextRun r)"
  "rn_params (beginRun mc p i t r) = p" "rn_cancelled (beginRun mc p i t r) = rn_cancelled (stopLocked r)" "rn_spool (beginRun mc p i t r) = rn_spool r"
  "rn_data (beginRun mc p i t r) = rn_data r"
  by (simp_all add: beginRun_def Let_def)

lemma openRunSpool_sel:
  assumes "openRunSpool mc s r = (e, r')"
  shows "rn_lives r' = rn_lives r" and "rn_cancelFn r' = rn_cancelFn r" and "rn_nextRun r' = rn_nextRun r" and "rn_params r' = rn_params r"
    and "rn_cancelled r' = rn_cancelled r" and "e = None \<Longrightarrow> rn_spool r' = Some (mc_spoolDir mc s)" and "rn_data r' = rn_data r"
  using assms by (auto simp: openRunSpool_def Let_def split: if_splits option.splits)

lemma failStart_ok:
  assumes "\<forall>k \<in> set (rn_cancelled r). k < rn_nextRun r" and "rn_cancelFn r = Some run" and "run < rn_nextRun r"
  shows "runner_ok (failStart mc run e r)"
  using assms by (auto simp: failStart_def runner_ok_def)

text \<open>What an accepted start leaves: the capture of these parameters, running.\<close>

definition startedAs :: "captureParams \<Rightarrow> captureRunner \<Rightarrow> bool" where
  "startedAs p r \<longleftrightarrow> rn_state r = ''running'' \<and> ds_SessionID (rn_params r) = ds_SessionID p \<and> ds_BPF (rn_params r) = deriveBPF p"

lemma launch_ok:
  assumes "runner_ok r" and "launch mc p i t r = (e, r')" and "ds_Ifaces p \<noteq> []" and "ds_SessionID p \<noteq> []"
  shows "runner_ok r'" and "e = None \<Longrightarrow> rn_state r' = ''running'' \<and> rn_params r' = p" and "e \<noteq> None \<Longrightarrow> rn_state r' = ''failed''"
proof -
  define r1 where "r1 = beginRun mc p i t r"
  have canc: "\<forall>k \<in> set (rn_cancelled r1). k < rn_nextRun r1" "rn_nextRun r \<notin> set (rn_cancelled r1)"
      "rn_cancelFn r1 = Some (rn_nextRun r)" "rn_nextRun r1 = Suc (rn_nextRun r)" "rn_params r1 = p"
    using stopLocked_cancelled [OF assms(1)] by (auto simp: r1_def)
  have failed: "runner_ok (failStart mc (rn_nextRun r) x r2) \<and> rn_state (failStart mc (rn_nextRun r) x r2) = ''failed''"
    if "rn_cancelled r2 = rn_cancelled r1" "rn_cancelFn r2 = rn_cancelFn r1" "rn_nextRun r2 = rn_nextRun r1" for x r2
    using failStart_ok [of r2 "rn_nextRun r" mc x] canc that by (simp add: failStart_def)
  have ifs: "ifaceList p = ds_Ifaces p"
    using assms(3) by (simp add: ifaceList_def)
  have "runner_ok r' \<and> (e = None \<longrightarrow> rn_state r' = ''running'' \<and> rn_params r' = p) \<and> (e \<noteq> None \<longrightarrow> rn_state r' = ''failed'')"
  proof (cases "openCards mc (ds_BPF p) (ds_Ifaces p) []")
    case (Inl a)
    then have "e = Some a" "r' = failStart mc (rn_nextRun r) a r1"
      using assms(2) by (simp_all add: launch_def r1_def)
    then show ?thesis
      using failed [of r1] by simp
  next
    case (Inr lives)
    obtain e2 r2 where r2: "openRunSpool mc (ds_SessionID p) (r1\<lparr>rn_lives := lives\<rparr>) = (e2, r2)"
      by fastforce
    note s2 = openRunSpool_sel [OF r2]
    have lives: "lives = map (\<lambda>c. (c, ds_BPF p)) (ds_Ifaces p)"
      using openCards_cards [OF Inr] by simp
    show ?thesis
    proof (cases e2)
      case (Some a)
      then have "e = Some (''open ingest spool: '' @ a)" "r' = failStart mc (rn_nextRun r) (''open spool: '' @ a) r2"
        using assms(2) Inr r2 by (simp_all add: launch_def r1_def)
      then show ?thesis
        using failed [of r2] s2 by simp
    next
      case None
      then have "e = None" and r': "r' = setState mc ''running'' [] (r2\<lparr>rn_data := (rn_data r2)\<lparr>da_PacketsCaptured := 0, da_PacketsAcked := 0\<rparr>\<rparr>)"
        using assms(2) Inr r2 by (simp_all add: launch_def r1_def)
      moreover have "rn_params r' = p" "rn_lives r' = lives" "rn_cancelFn r' = Some (rn_nextRun r)" "rn_cancelled r' = rn_cancelled r1"
          "rn_nextRun r' = Suc (rn_nextRun r)" "rn_spool r' = Some (mc_spoolDir mc (ds_SessionID p))" "rn_state r' = ''running''"
        using s2 canc None by (simp_all add: r')
      ultimately show ?thesis
        using canc assms(3,4) ifs by (auto simp: runner_ok_def live_def lives comp_def)
    qed
  qed
  then show "runner_ok r'" "e = None \<Longrightarrow> rn_state r' = ''running'' \<and> rn_params r' = p" "e \<noteq> None \<Longrightarrow> rn_state r' = ''failed''"
    by blast+
qed

lemma chooseCards_some: "chooseCards mc p = Inr ifaces \<Longrightarrow> ifaces \<noteq> []"
  by (auto simp: chooseCards_def split: if_splits) (cases "mc_default mc"; auto)

lemma startRunner_ok:
  assumes "runner_ok r" and "startRunner mc p i t r = (e, r')"
  shows "runner_ok r'" and "e = None \<Longrightarrow> startedAs p r'" and "e \<noteq> None \<Longrightarrow> ds_SessionID p \<noteq> [] \<Longrightarrow> rn_state r' = ''failed''"
proof -
  define p1 where "p1 = p\<lparr>ds_SnapLen := (if ds_SnapLen p \<le> 0 then 262144 else ds_SnapLen p), ds_BPF := deriveBPF p\<rparr>"
  have p1: "ds_SessionID p1 = ds_SessionID p" "ds_BPF p1 = deriveBPF p"
    by (simp_all add: p1_def)
  have "runner_ok r' \<and> (e = None \<longrightarrow> startedAs p r') \<and> (e \<noteq> None \<longrightarrow> ds_SessionID p \<noteq> [] \<longrightarrow> rn_state r' = ''failed'')"
  proof (cases "ds_SessionID p = []")
    case True
    then show ?thesis
      using assms by (auto simp: startRunner_def)
  next
    case sess: False
    show ?thesis
    proof (cases "chooseCards mc p1")
      case (Inl a)
      then have "e = Some a" "r' = setState mc ''failed'' a r"
        using assms(2) sess by (simp_all add: startRunner_def p1_def [symmetric] Let_def)
      then show ?thesis
        using assms(1) by (auto simp: runner_ok_def split: option.splits)
    next
      case (Inr ifaces)
      define q where "q = p1\<lparr>ds_Ifaces := ifaces\<rparr>"
      have q: "ds_SessionID q = ds_SessionID p" "ds_BPF q = deriveBPF p" "ds_Ifaces q \<noteq> []"
        using chooseCards_some [OF Inr] by (simp_all add: q_def p1)
      have st: "startRunner mc p i t r = (if sameCapture q r then (None, r) else launch mc q i t r)"
        using sess Inr by (simp add: startRunner_def p1_def [symmetric] Let_def q_def)
      show ?thesis
      proof (cases "sameCapture q r")
        case True
        then have "e = None" "r' = r"
          using assms(2) st by simp_all
        then show ?thesis
          using assms(1) True q by (simp add: startedAs_def sameCapture_def)
      next
        case False
        then have "launch mc q i t r = (e, r')"
          using assms(2) st by simp
        from launch_ok [OF assms(1) this q(3)] q sess show ?thesis
          by (auto simp: startedAs_def)
      qed
    qed
  qed
  then show "runner_ok r'" "e = None \<Longrightarrow> startedAs p r'" "e \<noteq> None \<Longrightarrow> ds_SessionID p \<noteq> [] \<Longrightarrow> rn_state r' = ''failed''"
    by blast+
qed

lemma runner_ok_watch: "runner_ok r \<Longrightarrow> runner_ok (watchCapEnded mc pick run err r)"
  by (auto simp: watchCapEnded_def runner_ok_def Let_def split: option.splits)

lemma setFilters_cards: "map fst (snd (setFilters mc bpf lives)) = map fst lives"
  by (induction mc bpf lives rule: setFilters.induct) (auto split: option.splits prod.splits)

lemma runner_ok_filter:
  assumes "runner_ok r" and "updateFilterRunner mc ports hosts protocol bpf r = (e, r')"
  shows "runner_ok r'"
proof (cases "rn_state r \<noteq> ''running'' \<or> rn_lives r = []")
  case True
  then show ?thesis
    using assms by (auto simp: updateFilterRunner_def)
next
  case False
  define derived where "derived = deriveBPF (noParams\<lparr>ds_Ports := ports, ds_Hosts := hosts, ds_Protocol := protocol, ds_BPF := bpf\<rparr>)"
  obtain e1 lives where f: "setFilters mc derived (rn_lives r) = (e1, lives)"
    by fastforce
  have cards: "map fst lives = map fst (rn_lives r)"
    using setFilters_cards [of mc derived "rn_lives r"] f by simp
  then have ne: "lives \<noteq> []"
    using False by auto
  have r': "r' = r\<lparr>rn_lives := lives\<rparr> \<or> r' = r\<lparr>rn_lives := lives, rn_params := (rn_params r)\<lparr>ds_Ports := ports, ds_Hosts := hosts, ds_Protocol := protocol, ds_BPF := derived\<rparr>\<rparr>"
    using assms(2) False f by (auto simp: updateFilterRunner_def derived_def [symmetric] Let_def split: option.splits)
  have "ifaceList ((rn_params r)\<lparr>ds_Ports := ports, ds_Hosts := hosts, ds_Protocol := protocol, ds_BPF := derived\<rparr>) = ifaceList (rn_params r)"
    by (simp add: ifaceList_def)
  then show ?thesis
    using assms(1) r' cards ne False by (auto simp: runner_ok_def live_def split: option.splits)
qed

lemma runner_ok_counters: "runner_ok r \<Longrightarrow> runner_ok (onPacket mc r)" "runner_ok r \<Longrightarrow> runner_ok (onAcked mc n r)"
  by (auto simp: runner_ok_def onPacket_def onAcked_def live_def split: option.splits)

lemma runner_ok_new: "runner_ok newCaptureRunner"
  by (simp add: runner_ok_def newCaptureRunner_def)

lemma rememberAssign_runner [simp]: "ag_runner (rememberAssign p a) = ag_runner a"
  by (simp add: rememberAssign_def split: commandPayload.split)

lemma startAgent_runner:
  "startAgent mc d a = (e, a') \<Longrightarrow> startRunner mc d (ag_ingestAddr a) (ag_probeToken a) (ag_runner a) = (e, ag_runner a')"
  by (auto simp: startAgent_def split: prod.splits)

lemma execute_ok:
  assumes "runner_ok (ag_runner a)" and "execute mc archive cmd a = (res, evs, a')"
  shows "runner_ok (ag_runner a')"
proof (cases "cm_Payload cmd")
  case (AssignCapture d)
  then obtain e where "startAgent mc d (rememberAssign (cm_Payload cmd) a) = (e, a')"
    using assms(2) by (auto simp: execute_def Let_def split: prod.splits)
  from startRunner_ok(1) [OF _ startAgent_runner [OF this]] assms(1) show ?thesis
    by simp
next
  case RetryCmd
  show ?thesis
  proof (cases "ag_lastAssign (rememberAssign (cm_Payload cmd) a)")
    case None
    then show ?thesis
      using assms RetryCmd by (auto simp: execute_def Let_def rememberAssign_def)
  next
    case (Some d)
    then obtain e where "startAgent mc d (rememberAssign (cm_Payload cmd) a) = (e, a')"
      using assms(2) RetryCmd by (auto simp: execute_def Let_def split: prod.splits)
    from startRunner_ok(1) [OF _ startAgent_runner [OF this]] assms(1) show ?thesis
      by simp
  qed
next
  case (UpdateFilterCmd ports hosts protocol)
  then obtain e where "updateFilterRunner mc ports hosts protocol [] (ag_runner a) = (e, ag_runner a')"
    using assms(2) by (auto simp: execute_def Let_def split: prod.splits)
  then show ?thesis
    using runner_ok_filter assms(1) by blast
qed (use assms runner_ok_stop in \<open>auto simp: execute_def Let_def split: prod.splits option.splits sum.splits\<close>)

section \<open>Platform and probe together\<close>

text \<open>What the platform knows after a heartbeat.\<close>

lemma heartbeat_state:
  "latestOf pid (applyHeartbeat up now pid (runnerHeartbeat arch r) m) =
     (let rt = st_Runtime (heartbeatStatus now (runnerHeartbeat arch r)) in
      case map_of (mg_latest m) pid of Some prev \<Rightarrow> rt\<lparr>rt_Interfaces := rt_Interfaces (st_Runtime prev)\<rparr> | None \<Rightarrow> rt)"
  by (simp add: latestOf_def applyHeartbeat_def Let_def update_conv' split: option.split)

lemma heartbeat_capture:
  "rt_CaptureState (st_Runtime (heartbeatStatus now (runnerHeartbeat arch r))) = rn_state r"
  "rt_LastSessionID (st_Runtime (heartbeatStatus now (runnerHeartbeat arch r))) = ds_SessionID (rn_params r)"
  by (simp_all add: heartbeatStatus_def runnerHeartbeat_def withCapture_def withData_def withArchive_def split: option.split)

lemma heartbeat_known:
  "rt_CaptureState (latestOf pid (applyHeartbeat up now pid (runnerHeartbeat arch r) m)) = rn_state r"
  "rt_LastSessionID (latestOf pid (applyHeartbeat up now pid (runnerHeartbeat arch r) m)) = ds_SessionID (rn_params r)"
  by (simp_all add: heartbeat_state heartbeat_capture Let_def split: option.split)

lemma heartbeat_orphan:
  assumes "map_of (mg_conns m) pid = Some c" and "map_of (mg_desired m) pid = None" and "runner_ok r" and "length (pc_send c) < sendBuffer"
  shows "map_of (mg_conns (applyHeartbeat up now pid (runnerHeartbeat arch r) m)) pid =
     Some (if rn_state r = ''running'' then c\<lparr>pc_send := pc_send c @ [\<lparr>cm_Id = cmdName (Suc (mg_seq m)), cm_Payload = StopCaptureCmd\<rparr>]\<rparr> else c)"
proof -
  define st where "st = (case map_of (mg_latest m) pid of
      Some prev \<Rightarrow> (heartbeatStatus now (runnerHeartbeat arch r))\<lparr>st_Runtime :=
        (st_Runtime (heartbeatStatus now (runnerHeartbeat arch r)))\<lparr>rt_Interfaces := rt_Interfaces (st_Runtime prev)\<rparr>\<rparr>
    | None \<Rightarrow> heartbeatStatus now (runnerHeartbeat arch r))"
  define m1 where "m1 = m\<lparr>mg_latest := AList.update pid st (mg_latest m)\<rparr>"
  have "rt_CaptureState (latestOf pid m1) = rn_state r"
    by (simp add: latestOf_def m1_def update_conv' st_def heartbeat_capture split: option.split)
  then have "isCapturing (latestOf pid m1) \<longleftrightarrow> rn_state r = ''running''"
    using assms(3) by (auto simp: isCapturing_def runner_ok_def)
  then have w: "wanted pid False m1 = (if rn_state r = ''running'' then Some StopCaptureCmd else None)"
    using assms(2) by (simp add: wanted_def m1_def)
  have "mg_conns (applyHeartbeat up now pid (runnerHeartbeat arch r) m) = mg_conns (syncLocked pid False m1)"
    using assms(2) by (simp add: applyHeartbeat_def Let_def m1_def st_def)
  then show ?thesis
    using syncLocked_conns [of m1 pid c False] assms(1,4) w by (simp add: m1_def)
qed


lemma execute_assign:
  assumes "runner_ok (ag_runner a)" and "cm_Payload cmd = AssignCapture d" and "ds_SessionID d \<noteq> []" and "execute mc archive cmd a = (res, evs, a')"
  shows "runner_ok (ag_runner a')" and "if cr_Ok res then startedAs d (ag_runner a') else rn_state (ag_runner a') = ''failed''"
    and "cr_Id res = cm_Id cmd"
proof -
  obtain e where e: "startAgent mc d (rememberAssign (cm_Payload cmd) a) = (e, a')" "res = commandAnswer (cm_Id cmd) e"
    using assms(2,4) by (auto simp: execute_def Let_def split: prod.splits)
  note st = startRunner_ok [OF _ startAgent_runner [OF e(1)]]
  show "runner_ok (ag_runner a')"
    using st(1) assms(1) by simp
  show "if cr_Ok res then startedAs d (ag_runner a') else rn_state (ag_runner a') = ''failed''"
    using st(2,3) assms(1,3) e(2) by (cases e) (simp_all add: commandAnswer_def)
  show "cr_Id res = cm_Id cmd"
    using e(2) by (simp add: commandAnswer_def split: option.split)
qed


text \<open>
  A start that cannot choose an interface marks a running capture as failed and leaves it running.
\<close>

theorem failed_start_keeps_capturing:
  assumes "runner_ok r" and "rn_state r = ''running''" and "ds_SessionID p \<noteq> []" and "ifaceList p = []" and "mc_default mc = Inl e"
    and "startRunner mc p i t r = (err, r')"
  shows "err = Some e \<and> rn_state r' = ''failed'' \<and> live r' \<and> rn_params r' = rn_params r"
proof -
  have "ifaceList (p\<lparr>ds_SnapLen := x, ds_BPF := y\<rparr>) = ifaceList p" for x y
    by (simp add: ifaceList_def)
  then have "err = Some e" "r' = setState mc ''failed'' e r"
    using assms(3-6) by (auto simp: startRunner_def chooseCards_def Let_def)
  then show ?thesis
    using assms(1,2) by (auto simp: runner_ok_def live_def)
qed

text \<open>The late end of a replaced run takes down the capture that replaced it.\<close>

theorem stale_end_fails_new_capture:
  assumes "rn_state r = ''running''" and "rn_cancelFn r = Some k" and "run \<in> set (rn_cancelled r)" and "run \<noteq> k"
    and "r' = watchCapEnded mc True run (Some e) r"
  shows "rn_state r' = ''failed'' \<and> k \<in> set (rn_cancelled r')"
  using assms by (simp add: watchCapEnded_def Let_def)

section \<open>Witnesses\<close>

definition demoMachine :: machine where
  "demoMachine = \<lparr>mc_default = Inr ''eth0'', mc_open = (\<lambda>_ _. None), mc_spoolDir = (\<lambda>s. ''/spool/'' @ s), mc_openSpool = (\<lambda>_. None),
     mc_setFilter = (\<lambda>_ _. None), mc_notify = None, mc_quote = id, mc_saveConfig = None, mc_now = 7\<rparr>"

definition demoSha :: "string \<Rightarrow> string" where
  "demoSha t = ''#'' @ t"

definition demoPerson :: authPrincipal where
  "demoPerson = \<lparr>ap_Owner = ''ann'', ap_IsAdmin = False, ap_Tenant = [], ap_ProbeID = []\<rparr>"

definition demoRegister :: registerRequest where
  "demoRegister = \<lparr>rq_Name = [], rq_Hostname = ''box'', rq_PrevProbeId = [], rq_Capabilities = [], rq_Version = ''1'', rq_Os = ''linux'', rq_Arch = ''amd64''\<rparr>"

definition demoMgr0 :: manager where
  "demoMgr0 = snd (registerProbe demoSha (True, True, True) 5 ''prb_1'' (Some ''aa'') demoPerson demoRegister (newManager \<lparr>db_probes = [], db_segments = []\<rparr>))"

definition demoMgr :: manager where
  "demoMgr = openConn ''prb_1'' 1 demoMgr0"

definition demoAssign :: desired where
  "demoAssign = noParams\<lparr>ds_SessionID := ''s1'', ds_BPF := ''udp''\<rparr>"

definition demoAgent :: controlAgent where
  "demoAgent = \<lparr>ag_runner = newCaptureRunner, ag_lastAssign = None, ag_cfg = \<lparr>ac_Name = [], ac_ArchiveEnabled = False, ac_MaxAgeHrs = 0, ac_MaxBytes = 0\<rparr>,
     ag_ingestAddr = ''platform'', ag_probeToken = ''gt_prb_aa''\<rparr>"

definition demoRunning :: controlAgent where
  "demoRunning = snd (snd (execute demoMachine None \<lparr>cm_Id = ''cmd-9'', cm_Payload = AssignCapture demoAssign\<rparr> demoAgent))"

lemma demo_conn: "map_of (mg_conns demoMgr) ''prb_1'' = Some \<lparr>pc_send = [], pc_stream = 1\<rparr>" "mg_cancelled demoMgr = []"
  "map_of (mg_desired demoMgr) ''prb_1'' = None" "rowOf (mg_db demoMgr) ''prb_1'' \<noteq> None" "isCapturing (latestOf ''prb_1'' demoMgr) = False"
  by code_simp+

lemma demo_running: "runner_ok (ag_runner demoAgent)" "runner_ok (ag_runner demoRunning)" "rn_state (ag_runner demoRunning) = ''running''"
proof -
  show a: "runner_ok (ag_runner demoAgent)"
    by (simp add: demoAgent_def runner_ok_new)
  then show "runner_ok (ag_runner demoRunning)"
    unfolding demoRunning_def using execute_ok [OF a] by (metis prod.collapse)
  show "rn_state (ag_runner demoRunning) = ''running''"
    by code_simp
qed



theorem registration_rotates_token_witness:
  "\<exists>m' t. registerProbe demoSha (True, True, True) 6 ''prb_2'' (Some ''bb'') demoPerson demoRegister demoMgr0 = (RegAck ''prb_1'' ''gt_prb_bb'', m') \<and>
     probeResolve demoSha True ''gt_prb_bb'' (mg_db m') = Some \<lparr>ap_Owner = ''ann'', ap_IsAdmin = False, ap_Tenant = t, ap_ProbeID = ''prb_1''\<rparr> \<and>
     probeResolve demoSha True ''gt_prb_aa'' (mg_db demoMgr0) \<noteq> None \<and> probeResolve demoSha True ''gt_prb_aa'' (mg_db m') = None"
proof -
  define m' where "m' = snd (registerProbe demoSha (True, True, True) 6 ''prb_2'' (Some ''bb'') demoPerson demoRegister demoMgr0)"
  have reg: "registerProbe demoSha (True, True, True) 6 ''prb_2'' (Some ''bb'') demoPerson demoRegister demoMgr0 = (RegAck ''prb_1'' ''gt_prb_bb'', m')"
    unfolding m'_def by code_simp
  have row: "rowOf (mg_db demoMgr0) q = Some r \<Longrightarrow> q = ''prb_1'' \<and> pm_TokenHash r = demoSha ''gt_prb_aa''" for q r
  proof -
    have "map pm_ProbeID (db_probes (mg_db demoMgr0)) = [''prb_1'']" "map pm_TokenHash (db_probes (mg_db demoMgr0)) = [demoSha ''gt_prb_aa'']"
      by code_simp+
    then have "p \<in> set (db_probes (mg_db demoMgr0)) \<Longrightarrow> pm_ProbeID p = ''prb_1'' \<and> pm_TokenHash p = demoSha ''gt_prb_aa''" for p
      by auto
    then show "rowOf (mg_db demoMgr0) q = Some r \<Longrightarrow> q = ''prb_1'' \<and> pm_TokenHash r = demoSha ''gt_prb_aa''"
      using rowOf_Some [of "mg_db demoMgr0" q r] by auto
  qed
  have "db_ok (mg_db demoMgr0)"
    by code_simp
  then have tok: "tokens_ok (mg_db demoMgr0)"
    using row unfolding tokens_ok_def by metis
  have fresh: "rowOf (mg_db demoMgr0) ''prb_2'' = None"
    by code_simp
  have old: "probeResolve demoSha True ''gt_prb_aa'' (mg_db demoMgr0) = Some \<lparr>ap_Owner = ''ann'', ap_IsAdmin = False, ap_Tenant = ''default'', ap_ProbeID = ''prb_1''\<rparr>"
    by code_simp
  have "\<forall>q r. rowOf (mg_db demoMgr0) q = Some r \<longrightarrow> pm_TokenHash r \<noteq> demoSha ''gt_prb_bb''"
    using row by (auto simp: demoSha_def)
  note rot = registration_rotates_token [OF tok reg fresh _ this]
  have ne: "demoSha ''gt_prb_bb'' \<noteq> []" "demoSha ''gt_prb_aa'' \<noteq> demoSha ''gt_prb_bb''"
    by (simp_all add: demoSha_def)
  obtain t where t: "probeResolve demoSha True ''gt_prb_bb'' (mg_db m') = Some \<lparr>ap_Owner = ap_Owner demoPerson, ap_IsAdmin = False, ap_Tenant = t, ap_ProbeID = ''prb_1''\<rparr>"
    using rot ne(1) by blast
  have "probeResolve demoSha True ''gt_prb_aa'' (mg_db m') = (case probeResolve demoSha True ''gt_prb_aa'' (mg_db demoMgr0) of
         Some a \<Rightarrow> if ap_ProbeID a = ''prb_1'' then None else Some a | None \<Rightarrow> None)"
    using rot ne by blast
  then show ?thesis
    using reg old t by (simp add: demoPerson_def)
qed

theorem late_close_cuts_new_stream_witness:
  "fst (submitCommand ''prb_1'' StopCaptureCmd (closeConn True 9 ''prb_1'' (openConn ''prb_1'' 2 (openConn ''prb_1'' 1 demoMgr0)))) = Inl ProbeOffline"
  using late_close_cuts_new_stream [where pid = "''prb_1''" and hbs = "[]" and payload = StopCaptureCmd and kOld = 1 and kNew = 2 and m = demoMgr0 and up = True and now = 9,
      OF refl refl refl]
  by simp

definition demoFull :: manager where
  "demoFull = demoMgr\<lparr>mg_conns := [(''prb_1'', \<lparr>pc_send = replicate 16 \<lparr>cm_Id = ''cmd-1'', cm_Payload = StopCaptureCmd\<rparr>, pc_stream = 1\<rparr>)]\<rparr>"

theorem busy_assignment_lost_witness:
  "\<exists>m1. startCapture True ''prb_1'' demoAssign demoFull = (None, m1) \<and>
     map_of (mg_conns (applyHeartbeat True 9 ''prb_1'' (runnerHeartbeat None newCaptureRunner) m1)) ''prb_1'' = map_of (mg_conns demoFull) ''prb_1''"
proof -
  obtain r m1 where s: "startCapture True ''prb_1'' demoAssign demoFull = (r, m1)"
    by (metis prod.collapse)
  have c: "map_of (mg_conns demoFull) ''prb_1'' = Some \<lparr>pc_send = replicate 16 \<lparr>cm_Id = ''cmd-1'', cm_Payload = StopCaptureCmd\<rparr>, pc_stream = 1\<rparr>"
    by (simp add: demoFull_def)
  have "rowOf (mg_db demoFull) ''prb_1'' \<noteq> None"
    by (simp add: demoFull_def demo_conn(4))
  from busy_assignment_lost [OF c _ this s refl, of "[(True, 9, runnerHeartbeat None newCaptureRunner)]"] s c show ?thesis
    by (simp add: sendBuffer_def)
qed

end
