(* ===== verification/Capture_Filter.thy ===== *)
theory Capture_Filter
  imports Probe_Agent
begin

text \<open>
  What the filter means that \<open>deriveBPF\<close> of \<open>cmd/gt-agent/capture_runner.go\<close> prints. The reader below is the
  part of the documented \<open>pcap-filter\<close> language that the printed filters use: alternation and concatenation have
  equal precedence and associate to the left, parentheses group. A packet is seen as a predicate on the primitives.
\<close>

datatype fexpr = FPort string int | FHost string | FAnd fexpr fexpr | FOr fexpr fexpr

fun evalF :: "(string \<Rightarrow> int \<Rightarrow> bool) \<Rightarrow> (string \<Rightarrow> bool) \<Rightarrow> fexpr \<Rightarrow> bool" where
  "evalF port host (FPort t n) = port t n"
| "evalF port host (FHost h) = host h"
| "evalF port host (FAnd a b) \<longleftrightarrow> evalF port host a \<and> evalF port host b"
| "evalF port host (FOr a b) \<longleftrightarrow> evalF port host a \<or> evalF port host b"

fun lexF :: "string \<Rightarrow> string \<Rightarrow> string list" where
  "lexF cur [] = (if cur = [] then [] else [cur])"
| "lexF cur (c # cs) =
     (if c = CHR '' '' then (if cur = [] then [] else [cur]) @ lexF [] cs
      else if c = CHR ''('' \<or> c = CHR '')'' then (if cur = [] then [] else [cur]) @ [c] # lexF [] cs
      else lexF (cur @ [c]) cs)"

fun parseTerm :: "nat \<Rightarrow> string list \<Rightarrow> (fexpr \<times> string list) option"
  and parseRest :: "nat \<Rightarrow> fexpr \<Rightarrow> string list \<Rightarrow> (fexpr \<times> string list) option" where
  "parseTerm 0 ts = None"
| "parseTerm (Suc n) ts =
     (case ts of
        [] \<Rightarrow> None
      | t # ts \<Rightarrow>
          if t = ''('' then
            (case parseTerm n ts of
               Some (e, r) \<Rightarrow> (case parseRest n e r of Some (e', c # r') \<Rightarrow> if c = '')'' then Some (e', r') else None | _ \<Rightarrow> None)
             | None \<Rightarrow> None)
          else if t = ''host'' then (case ts of h # r \<Rightarrow> Some (FHost h, r) | [] \<Rightarrow> None)
          else if t = ''tcp'' \<or> t = ''udp'' then
            (case ts of w # v # r \<Rightarrow> if w = ''port'' then map_option (\<lambda>k. (FPort t k, r)) (scanInt v) else None | _ \<Rightarrow> None)
          else None)"
| "parseRest 0 e ts = None"
| "parseRest (Suc n) e ts =
     (case ts of
        [] \<Rightarrow> Some (e, [])
      | t # r \<Rightarrow>
          if t = ''or'' then (case parseTerm n r of Some (e2, r') \<Rightarrow> parseRest n (FOr e e2) r' | None \<Rightarrow> None)
          else if t = ''and'' then (case parseTerm n r of Some (e2, r') \<Rightarrow> parseRest n (FAnd e e2) r' | None \<Rightarrow> None)
          else Some (e, t # r))"

definition parseFilter :: "string \<Rightarrow> fexpr option" where
  "parseFilter s =
     (let ts = lexF [] s; n = Suc (length ts) in
      case parseTerm n ts of
        Some (e, r) \<Rightarrow> (case parseRest n e r of Some (e', []) \<Rightarrow> Some e' | _ \<Rightarrow> None)
      | None \<Rightarrow> None)"

section \<open>Words\<close>

definition plain :: "string \<Rightarrow> bool" where
  "plain w \<longleftrightarrow> CHR '' '' \<notin> set w \<and> CHR ''('' \<notin> set w \<and> CHR '')'' \<notin> set w"

lemma lexF_plain: "plain w \<Longrightarrow> lexF cur (w @ s) = lexF (cur @ w) s"
  by (induction w arbitrary: cur) (auto simp: plain_def)

lemma lexF_word: "plain w \<Longrightarrow> w \<noteq> [] \<Longrightarrow> lexF [] (w @ CHR '' '' # s) = w # lexF [] s"
  "plain w \<Longrightarrow> w \<noteq> [] \<Longrightarrow> lexF [] w = [w]" "plain w \<Longrightarrow> w \<noteq> [] \<Longrightarrow> lexF [] (w @ CHR '')'' # s) = w # '')'' # lexF [] s"
  using lexF_plain [of w "[]"] lexF_plain [of w "[]" "[]"] by simp_all

text \<open>A text is made of words when what follows it does not change its words.\<close>

definition wordy :: "string \<Rightarrow> bool" where
  "wordy s \<longleftrightarrow> s \<noteq> [] \<and> (\<forall>t. lexF [] (s @ CHR '' '' # t) = lexF [] s @ lexF [] t \<and> lexF [] (s @ CHR '')'' # t) = lexF [] s @ '')'' # lexF [] t)"

lemma wordy_word: "plain w \<Longrightarrow> w \<noteq> [] \<Longrightarrow> wordy w"
  by (simp add: wordy_def lexF_word)

lemma wordy_append:
  assumes "wordy a" and "wordy b"
  shows "wordy (a @ CHR '' '' # b)" and "lexF [] (a @ CHR '' '' # b) = lexF [] a @ lexF [] b"
  using assms by (simp_all add: wordy_def)

lemma wordy_paren:
  assumes "wordy a"
  shows "wordy (''('' @ a @ '')'')" and "lexF [] (''('' @ a @ '')'') = ''('' # lexF [] a @ ['')'']"
proof -
  have e: "lexF [] (''('' @ a @ '')'' @ t) = ''('' # lexF [] a @ '')'' # lexF [] t" for t
    using assms by (simp add: wordy_def)
  show "lexF [] (''('' @ a @ '')'') = ''('' # lexF [] a @ ['')'']"
    using e [of "[]"] by simp
  then show "wordy (''('' @ a @ '')'')"
    using e [of "CHR '' '' # t" for t] e [of "CHR '')'' # t" for t] by (simp add: wordy_def)
qed

lemma joinWith_Cons: "xs \<noteq> [] \<Longrightarrow> joinWith sep (x # xs) = x @ sep @ joinWith sep xs"
  by (cases xs) simp_all

section \<open>Terms and alternatives\<close>

definition isTerm :: "fexpr \<Rightarrow> string list \<Rightarrow> bool" where
  "isTerm e toks \<longleftrightarrow> (\<forall>n rest. length toks \<le> n \<longrightarrow> parseTerm n (toks @ rest) = Some (e, rest))"

text \<open>A printed term: its text, made of words, and the expression that is read from it.\<close>

definition prints :: "string \<times> fexpr \<Rightarrow> bool" where
  "prints x \<longleftrightarrow> wordy (fst x) \<and> isTerm (snd x) (lexF [] (fst x)) \<and> lexF [] (fst x) \<noteq> []"

definition orTokens :: "(string \<times> fexpr) list \<Rightarrow> string list" where
  "orTokens xs = concat (map (\<lambda>x. ''or'' # lexF [] (fst x)) xs)"

definition orExpr :: "fexpr \<Rightarrow> (string \<times> fexpr) list \<Rightarrow> fexpr" where
  "orExpr e xs = foldl (\<lambda>a x. FOr a (snd x)) e xs"

lemma evalF_orExpr: "evalF port host (orExpr e xs) \<longleftrightarrow> evalF port host e \<or> (\<exists>x \<in> set xs. evalF port host (snd x))"
  by (induction xs arbitrary: e) (auto simp: orExpr_def)

lemma joined_words:
  assumes "\<And>x. x \<in> set (y # ys) \<Longrightarrow> prints x"
  shows "wordy (joinWith '' or '' (map fst (y # ys))) \<and> lexF [] (joinWith '' or '' (map fst (y # ys))) = lexF [] (fst y) @ orTokens ys"
  using assms
proof (induction ys arbitrary: y)
  case Nil
  then show ?case
    by (simp add: prints_def orTokens_def)
next
  case (Cons z zs)
  define t where "t = joinWith '' or '' (map fst (z # zs))"
  have t: "wordy t" "lexF [] t = lexF [] (fst z) @ orTokens zs"
    using Cons.IH [of z] Cons.prems by (simp_all add: t_def)
  have y: "wordy (fst y)"
    using Cons.prems [of y] by (simp add: prints_def)
  have w: "wordy ''or''" "lexF [] ''or'' = [''or'']"
    by (auto intro: wordy_word simp: plain_def)
  have r: "wordy (''or'' @ CHR '' '' # t)" "lexF [] (''or'' @ CHR '' '' # t) = ''or'' # lexF [] t"
    using wordy_append [OF w(1) t(1)] w(2) by simp_all
  have "joinWith '' or '' (map fst (y # z # zs)) = fst y @ CHR '' '' # (''or'' @ CHR '' '' # t)"
    by (simp add: t_def)
  then show ?case
    using wordy_append [OF y r(1)] r(2) t(2) by (simp add: orTokens_def)
qed

lemma parse_alternatives:
  assumes "\<And>x. x \<in> set xs \<Longrightarrow> prints x" and "length (orTokens xs) < n" and "rest = [] \<or> hd rest = '')''"
  shows "parseRest n e (orTokens xs @ rest) = Some (orExpr e xs, rest)"
  using assms
proof (induction xs arbitrary: n e)
  case Nil
  then obtain k where "n = Suc k"
    by (cases n) auto
  then show ?case
    using Nil.prems(3) by (cases rest) (simp_all add: orTokens_def orExpr_def)
next
  case (Cons x xs)
  then obtain k where n: "n = Suc k"
    by (cases n) auto
  have len: "length (lexF [] (fst x)) \<le> k" "length (orTokens xs) < k"
    using Cons.prems(2) n by (simp_all add: orTokens_def)
  have "parseTerm k (lexF [] (fst x) @ orTokens xs @ rest) = Some (snd x, orTokens xs @ rest)"
    using Cons.prems(1) [of x] len(1) by (simp add: prints_def isTerm_def)
  then have "parseRest n e (orTokens (x # xs) @ rest) = parseRest k (FOr e (snd x)) (orTokens xs @ rest)"
    by (simp add: n orTokens_def)
  also have "\<dots> = Some (orExpr (FOr e (snd x)) xs, rest)"
    using Cons.IH [of k "FOr e (snd x)"] Cons.prems(1,3) len(2) by simp
  finally show ?case
    by (simp add: orExpr_def)
qed

lemma paren_term:
  assumes "\<And>x. x \<in> set (y # ys) \<Longrightarrow> prints x"
  shows "isTerm (orExpr (snd y) ys) (''('' # (lexF [] (fst y) @ orTokens ys) @ ['')''])"
  unfolding isTerm_def
proof (intro allI impI)
  fix n and rest :: "string list"
  assume len: "length (''('' # (lexF [] (fst y) @ orTokens ys) @ ['')'']) \<le> n"
  then obtain k where n: "n = Suc k" and k: "length (lexF [] (fst y)) \<le> k" "length (orTokens ys) < k"
    by (cases n) auto
  have "parseTerm k (lexF [] (fst y) @ orTokens ys @ '')'' # rest) = Some (snd y, orTokens ys @ '')'' # rest)"
    using assms [of y] k(1) by (simp add: prints_def isTerm_def)
  moreover have "parseRest k (snd y) (orTokens ys @ '')'' # rest) = Some (orExpr (snd y) ys, '')'' # rest)"
    using parse_alternatives [of ys k "'')'' # rest" "snd y"] assms k(2) by simp
  ultimately show "parseTerm n ((''('' # (lexF [] (fst y) @ orTokens ys) @ ['')'']) @ rest) = Some (orExpr (snd y) ys, rest)"
    by (simp add: n)
qed

lemma containsOr_append: "containsOr (a @ '' or '' @ b)"
  by (induction a) simp_all

text \<open>A group beside another one is a single term, with parentheses where it needs them.\<close>

lemma grouped_prints:
  assumes "\<And>x. x \<in> set (y # ys) \<Longrightarrow> prints x"
  shows "prints (grouped True (joinWith '' or '' (map fst (y # ys))), orExpr (snd y) ys)"
proof -
  define t where "t = joinWith '' or '' (map fst (y # ys))"
  have t: "wordy t" "lexF [] t = lexF [] (fst y) @ orTokens ys"
    using joined_words [OF assms] by (simp_all add: t_def)
  show ?thesis
  proof (cases "containsOr t")
    case True
    then have g: "grouped True t = ''('' @ t @ '')''"
      by (simp add: grouped_def)
    show ?thesis
      unfolding prints_def fst_conv snd_conv t_def [symmetric] g
      using wordy_paren [OF t(1)] paren_term [OF assms] t(2) by simp
  next
    case False
    have "ys = []"
    proof (rule ccontr)
      assume "ys \<noteq> []"
      then have "t = fst y @ '' or '' @ joinWith '' or '' (map fst ys)"
        by (simp add: t_def joinWith_Cons)
      then show False
        using containsOr_append False by simp
    qed
    then show ?thesis
      using False assms [of y] by (simp add: grouped_def t_def orExpr_def prints_def)
  qed
qed

section \<open>What the runner prints\<close>

definition portTerms :: "string \<Rightarrow> int \<Rightarrow> (string \<times> fexpr) list" where
  "portTerms protocol port =
     (if protocol = ''udp'' then [(''udp port '' @ showInt port, FPort ''udp'' port)]
      else if protocol = ''both'' then [(''tcp port '' @ showInt port, FPort ''tcp'' port), (''udp port '' @ showInt port, FPort ''udp'' port)]
      else [(''tcp port '' @ showInt port, FPort ''tcp'' port)])"

lemma portPart_terms: "portPart protocol port = joinWith '' or '' (map fst (portTerms protocol port))" "portTerms protocol port \<noteq> []"
  by (simp_all add: portPart_def portTerms_def)

lemma joinWith_append:
  assumes "ys \<noteq> []"
  shows "xs \<noteq> [] \<Longrightarrow> joinWith sep (xs @ ys) = joinWith sep xs @ sep @ joinWith sep ys"
proof (induction xs)
  case (Cons x xs)
  show ?case
  proof (cases "xs = []")
    case True
    then show ?thesis
      using assms by (simp add: joinWith_Cons)
  next
    case False
    then have "joinWith sep ((x # xs) @ ys) = x @ sep @ joinWith sep (xs @ ys)"
      using joinWith_Cons [of "xs @ ys" sep x] by simp
    then show ?thesis
      using Cons.IH False joinWith_Cons [of xs sep x] by simp
  qed
qed simp

lemma joinWith_concat: "(\<And>g. g \<in> set gs \<Longrightarrow> g \<noteq> []) \<Longrightarrow> joinWith sep (map (joinWith sep) gs) = joinWith sep (concat gs)"
proof (induction gs)
  case (Cons g gs)
  show ?case
  proof (cases "gs = []")
    case False
    then have "concat gs \<noteq> []"
      using Cons.prems by (cases gs) auto
    then show ?thesis
      using Cons False by (simp add: joinWith_Cons joinWith_append)
  qed simp
qed simp

lemma plain_showInt: "plain (showInt n)" "showInt n \<noteq> []"
proof -
  have "plain (show_nat k)" for k
    using show_nat_digits [of k] by (auto simp: plain_def is_digit_def)
  then show "plain (showInt n)"
    by (auto simp: showInt_def plain_def)
  show "showInt n \<noteq> []"
    by (simp add: showInt_def show_nat_nonempty)
qed

lemma scan_showInt:
  assumes "0 < n" and "n \<le> 65535"
  shows "scanInt (showInt n) = Some n"
proof -
  have s: "showInt n = show_nat (nat n)"
    using assms(1) by (simp add: showInt_def)
  obtain c cs where c: "show_nat (nat n) = c # cs"
    using show_nat_nonempty by (cases "show_nat (nat n)") auto
  have dig: "\<forall>d \<in> set (c # cs). is_digit d"
    using show_nat_digits [of "nat n"] c by simp
  then have "c \<notin> set blanks" "c \<noteq> CHR ''-''" "c \<noteq> CHR ''+''"
    by (auto simp: blanks_def is_digit_def)
  moreover have "takeWhile is_digit (c # cs) = c # cs"
    using dig by (simp add: takeWhile_eq_all_conv)
  moreover have "int (digits_value (c # cs)) = n"
    using digits_value_show [of "nat n"] assms(1) c by simp
  ultimately show ?thesis
    using assms by (simp add: scanInt_def s c Let_def)
qed

lemma prints_host: "plain h \<Longrightarrow> h \<noteq> [] \<Longrightarrow> prints (''host '' @ h, FHost h)"
proof -
  assume h: "plain h" "h \<noteq> []"
  have w: "wordy ''host''" "lexF [] ''host'' = [''host'']"
    by (auto intro: wordy_word simp: plain_def)
  have "wordy (''host '' @ h)" "lexF [] (''host '' @ h) = [''host'', h]"
    using wordy_append [OF w(1) wordy_word [OF h]] w(2) lexF_word(2) [OF h] by simp_all
  moreover have "isTerm (FHost h) [''host'', h]"
    unfolding isTerm_def
  proof (intro allI impI)
    fix n and rest :: "string list"
    assume "length [''host'', h] \<le> n"
    then show "parseTerm n ([''host'', h] @ rest) = Some (FHost h, rest)"
      by (cases n) simp_all
  qed
  ultimately show ?thesis
    by (simp add: prints_def)
qed

lemma prints_port:
  assumes "0 < q" and "q \<le> 65535" and "t = ''tcp'' \<or> t = ''udp''"
  shows "prints (t @ '' port '' @ showInt q, FPort t q)"
proof -
  have w: "wordy t" "lexF [] t = [t]" "wordy ''port''" "lexF [] ''port'' = [''port'']"
    using assms(3) by (auto intro!: wordy_word lexF_word(2) simp: plain_def)
  have n: "wordy (showInt q)" "lexF [] (showInt q) = [showInt q]"
    using wordy_word plain_showInt lexF_word(2) by blast+
  note p = wordy_append [OF w(3) n(1)]
  have "wordy (t @ '' port '' @ showInt q)" "lexF [] (t @ '' port '' @ showInt q) = [t, ''port'', showInt q]"
    using wordy_append [OF w(1) p(1)] p(2) w n by simp_all
  moreover have "isTerm (FPort t q) [t, ''port'', showInt q]"
    unfolding isTerm_def
  proof (intro allI impI)
    fix n and rest :: "string list"
    assume "length [t, ''port'', showInt q] \<le> n"
    then obtain k where "n = Suc k"
      by (cases n) simp_all
    then show "parseTerm n ([t, ''port'', showInt q] @ rest) = Some (FPort t q, rest)"
      using assms(3) scan_showInt [OF assms(1,2)] by auto
  qed
  ultimately show ?thesis
    by (simp add: prints_def)
qed

lemma prints_portTerms: "0 < q \<Longrightarrow> q \<le> 65535 \<Longrightarrow> x \<in> set (portTerms protocol q) \<Longrightarrow> prints x"
  using prints_port [of q "''tcp''"] prints_port [of q "''udp''"] by (auto simp: portTerms_def split: if_splits)

lemma parse_single:
  assumes "\<And>x. x \<in> set (y # ys) \<Longrightarrow> prints x"
  shows "parseFilter (joinWith '' or '' (map fst (y # ys))) = Some (orExpr (snd y) ys)"
proof -
  define ts where "ts = lexF [] (fst y) @ orTokens ys"
  have lex: "lexF [] (joinWith '' or '' (map fst (y # ys))) = ts"
    using joined_words [OF assms] by (simp add: ts_def)
  have a: "parseTerm (Suc (length ts)) ts = Some (snd y, orTokens ys)"
    using assms [of y] by (simp add: ts_def prints_def isTerm_def del: parseTerm.simps)
  have "parseRest (Suc (length ts)) (snd y) (orTokens ys @ []) = Some (orExpr (snd y) ys, [])"
    by (rule parse_alternatives) (use assms in \<open>auto simp: ts_def\<close>)
  then show ?thesis
    using a unfolding parseFilter_def lex Let_def by (simp del: parseTerm.simps parseRest.simps)
qed

lemma parse_pair:
  assumes "prints (s, a)" and "prints (t, b)"
  shows "parseFilter (s @ '' and '' @ t) = Some (FAnd a b)"
proof -
  define sa where "sa = lexF [] s"
  define tb where "tb = lexF [] t"
  have w: "wordy ''and''" "lexF [] ''and'' = [''and'']"
    by (auto intro: wordy_word simp: plain_def)
  have st: "wordy s" "wordy t" "isTerm a sa" "isTerm b tb"
    using assms by (simp_all add: prints_def sa_def tb_def)
  note r = wordy_append [OF w(1) st(2)]
  have lex: "lexF [] (s @ '' and '' @ t) = sa @ ''and'' # tb"
    using wordy_append [OF st(1) r(1)] r(2) w(2) by (simp add: sa_def tb_def)
  define n where "n = length (sa @ ''and'' # tb)"
  have 1: "parseTerm (Suc n) (sa @ ''and'' # tb) = Some (a, ''and'' # tb)"
    using st(3) by (simp add: isTerm_def n_def del: parseTerm.simps)
  have 2: "parseTerm n (tb @ []) = Some (b, [])"
    using st(4) unfolding isTerm_def n_def by (metis length_append length_Cons le_add2 le_SucI add_Suc_right)
  obtain k where "n = Suc k"
    by (simp add: n_def)
  then have "parseRest n (FAnd a b) [] = Some (FAnd a b, [])"
    by simp
  then have "parseRest (Suc n) a (''and'' # tb) = Some (FAnd a b, [])"
    using 2 by (simp del: parseTerm.simps)
  then show ?thesis
    using 1 unfolding parseFilter_def lex Let_def n_def [symmetric] by (simp del: parseTerm.simps parseRest.simps)
qed


definition demoFilter :: captureParams where
  "demoFilter = noParams\<lparr>ds_Ports := [80, 0], ds_Hosts := [''api.x'', '' b''], ds_Protocol := ''both''\<rparr>"


end
