(* ===== verification/Project_Store.thy ===== *)
theory Project_Store
  imports Auth_Token Check_Rule
begin

text \<open>
  \<open>cmd/gt-mcp/project_store.go\<close>: the tables \<open>projects\<close> and \<open>project_members\<close>. A row of
  \<open>projects\<close> has three JSON columns; a column is the list its text stands for, or \<open>None\<close> when the
  text is empty or no such list. The column \<open>members\<close> is the backup of the table
  \<open>project_members\<close>, which decides about roles.

  Every operation takes \<open>up\<close>, whether the database serves it. An operation in a transaction, or
  of one statement, changes nothing when it fails. The constraints of the schema are kept: one row
  per project, one row per project and user, and a role is \<open>admin\<close> or \<open>member\<close>.
\<close>

section \<open>Data\<close>

definition roleAdminName :: string where
  "roleAdminName = ''admin''"

definition roleMemberName :: string where
  "roleMemberName = ''member''"

record projectMember =
  mb_User :: string
  mb_Role :: string
  mb_Registered :: bool

record projectPlugin =
  pp_ID :: string
  pp_Name :: string
  pp_Owner :: string

record 'v project =
  pj_ID :: string
  pj_Name :: string
  pj_Description :: string
  pj_Game :: string
  pj_CreatedBy :: string
  pj_Owner :: string
  pj_TenantID :: string
  pj_DefaultPlugin :: string
  pj_DefaultPort :: int
  pj_Members :: "projectMember list"
  pj_Plugins :: "projectPlugin list"
  pj_Rules :: "'v checkRule list"
  pj_CreatedAt :: time
  pj_UpdatedAt :: time

record 'v projectRow =
  pw_ID :: string
  pw_Name :: string
  pw_Description :: string
  pw_Game :: string
  pw_CreatedBy :: string
  pw_Owner :: string
  pw_TenantID :: string
  pw_DefaultPlugin :: string
  pw_DefaultPort :: int
  pw_Members :: "projectMember list option"
  pw_Plugins :: "projectPlugin list option"
  pw_Rules :: "'v checkRule list option"
  pw_CreatedAt :: time
  pw_UpdatedAt :: time

record memberRow =
  mr_Project :: string
  mr_User :: string
  mr_Role :: string
  mr_CreatedAt :: time

record 'v projectDB =
  pd_projects :: "'v projectRow list"
  pd_members :: "memberRow list"

definition tenantOrDefault :: "string \<Rightarrow> string" where
  "tenantOrDefault t = (if t = [] then DefaultTenant else t)"

definition projectTenant :: "'v project \<Rightarrow> string" where
  "projectTenant p = tenantOrDefault (pj_TenantID p)"

definition unmarshalSlice :: "'a list option \<Rightarrow> 'a list" where
  "unmarshalSlice c = (case c of None \<Rightarrow> [] | Some xs \<Rightarrow> xs)"

definition jsonOrEmpty :: "'a list \<Rightarrow> 'a list option" where
  "jsonOrEmpty xs = Some xs"

section \<open>Rows\<close>

definition scanProject :: "'v projectRow \<Rightarrow> 'v project" where
  "scanProject r =
     \<lparr>pj_ID = pw_ID r, pj_Name = pw_Name r, pj_Description = pw_Description r, pj_Game = pw_Game r,
      pj_CreatedBy = pw_CreatedBy r, pj_Owner = pw_Owner r, pj_TenantID = pw_TenantID r,
      pj_DefaultPlugin = pw_DefaultPlugin r, pj_DefaultPort = pw_DefaultPort r,
      pj_Members = unmarshalSlice (pw_Members r), pj_Plugins = unmarshalSlice (pw_Plugins r),
      pj_Rules = unmarshalSlice (pw_Rules r), pj_CreatedAt = pw_CreatedAt r, pj_UpdatedAt = pw_UpdatedAt r\<rparr>"

definition insertProject :: "'v project \<Rightarrow> 'v projectRow" where
  "insertProject p =
     \<lparr>pw_ID = pj_ID p, pw_Name = pj_Name p, pw_Description = pj_Description p, pw_Game = pj_Game p,
      pw_CreatedBy = pj_CreatedBy p, pw_Owner = pj_Owner p, pw_TenantID = pj_TenantID p,
      pw_DefaultPlugin = pj_DefaultPlugin p, pw_DefaultPort = pj_DefaultPort p,
      pw_Members = jsonOrEmpty (pj_Members p), pw_Plugins = jsonOrEmpty (pj_Plugins p),
      pw_Rules = jsonOrEmpty (pj_Rules p), pw_CreatedAt = pj_CreatedAt p, pw_UpdatedAt = pj_UpdatedAt p\<rparr>"

text \<open>The update keeps the time of creation.\<close>

definition overwriteProject :: "'v project \<Rightarrow> 'v projectRow \<Rightarrow> 'v projectRow" where
  "overwriteProject p r = (insertProject p)\<lparr>pw_CreatedAt := pw_CreatedAt r\<rparr>"

definition updateRow :: "string \<Rightarrow> ('v projectRow \<Rightarrow> 'v projectRow) \<Rightarrow> 'v projectDB \<Rightarrow> 'v projectDB" where
  "updateRow pid f db = db\<lparr>pd_projects := map (\<lambda>r. if pw_ID r = pid then f r else r) (pd_projects db)\<rparr>"

definition projectRowOf :: "string \<Rightarrow> 'v projectDB \<Rightarrow> 'v projectRow option" where
  "projectRowOf pid db = find (\<lambda>r. pw_ID r = pid) (pd_projects db)"

definition memberRowOf :: "string \<Rightarrow> string \<Rightarrow> 'v projectDB \<Rightarrow> memberRow option" where
  "memberRowOf pid user db = find (\<lambda>m. mr_Project m = pid \<and> mr_User m = user) (pd_members db)"

definition validRole :: "string \<Rightarrow> bool" where
  "validRole r \<longleftrightarrow> r = roleAdminName \<or> r = roleMemberName"

text \<open>\<open>INSERT OR REPLACE\<close> fails on a role outside the check, \<open>INSERT OR IGNORE\<close> skips the row.\<close>

definition insertOrReplace :: "memberRow \<Rightarrow> memberRow list \<Rightarrow> memberRow list option" where
  "insertOrReplace m tbl =
     (if validRole (mr_Role m)
      then Some (filter (\<lambda>x. \<not> (mr_Project x = mr_Project m \<and> mr_User x = mr_User m)) tbl @ [m]) else None)"

definition insertOrIgnore :: "memberRow \<Rightarrow> memberRow list \<Rightarrow> memberRow list" where
  "insertOrIgnore m tbl =
     (if validRole (mr_Role m) \<and> \<not> list_ex (\<lambda>x. mr_Project x = mr_Project m \<and> mr_User x = mr_User m) tbl
      then tbl @ [m] else tbl)"

fun writeMembersTx :: "time \<Rightarrow> string \<Rightarrow> projectMember list \<Rightarrow> memberRow list \<Rightarrow> memberRow list option" where
  "writeMembersTx now pid [] tbl = Some tbl"
| "writeMembersTx now pid (m # ms) tbl =
     (if mb_User m = [] then writeMembersTx now pid ms tbl
      else case insertOrReplace \<lparr>mr_Project = pid, mr_User = mb_User m, mr_Role = mb_Role m, mr_CreatedAt = rfc3339 now\<rparr> tbl of
        None \<Rightarrow> None
      | Some tbl' \<Rightarrow> writeMembersTx now pid ms tbl')"

section \<open>Migration at start\<close>

text \<open>
  The columns exist after \<open>migrateProjectsAddOwnerTenant\<close>, which also fills an empty owner. The
  members are copied row by row, outside a transaction: \<open>n\<close> insertions go through.
\<close>

definition backfillOwner :: "'v projectRow \<Rightarrow> 'v projectRow" where
  "backfillOwner r = (if pw_Owner r = [] then r\<lparr>pw_Owner := pw_CreatedBy r\<rparr> else r)"

definition membersToCopy :: "'v projectRow \<Rightarrow> memberRow list" where
  "membersToCopy r =
     map (\<lambda>m. \<lparr>mr_Project = pw_ID r, mr_User = mb_User m, mr_Role = mb_Role m, mr_CreatedAt = pw_CreatedAt r\<rparr>)
       (filter (\<lambda>m. mb_User m \<noteq> []) (unmarshalSlice (pw_Members r)))"

definition migrateMembersJSONToTable :: "nat \<Rightarrow> 'v projectDB \<Rightarrow> bool \<times> 'v projectDB" where
  "migrateMembersJSONToTable n db =
     (let rows = concat (map membersToCopy (pd_projects db)) in
      (length rows \<le> n, db\<lparr>pd_members := fold insertOrIgnore (take n rows) (pd_members db)\<rparr>))"

definition initProjects :: "bool \<Rightarrow> nat \<Rightarrow> 'v projectDB \<Rightarrow> bool \<times> 'v projectDB" where
  "initProjects up n db =
     (if \<not> up then (False, db)
      else migrateMembersJSONToTable n (db\<lparr>pd_projects := map backfillOwner (pd_projects db)\<rparr>))"

section \<open>Operations\<close>

text \<open>\<open>Create\<close> and \<open>Update\<close> also normalise the project they are given: the project written is returned.\<close>

definition createProject :: "bool \<Rightarrow> time \<Rightarrow> 'v project \<Rightarrow> 'v projectDB \<Rightarrow> ('v project \<times> 'v projectDB) option" where
  "createProject up now p db =
     (let p = p\<lparr>pj_Owner := (if pj_Owner p = [] then pj_CreatedBy p else pj_Owner p), pj_TenantID := tenantOrDefault (pj_TenantID p)\<rparr> in
      if \<not> up \<or> projectRowOf (pj_ID p) db \<noteq> None then None
      else case writeMembersTx now (pj_ID p) (pj_Members p) (pd_members db) of
        None \<Rightarrow> None
      | Some tbl \<Rightarrow> Some (p, \<lparr>pd_projects = pd_projects db @ [insertProject p], pd_members = tbl\<rparr>))"

definition updateProject :: "bool \<Rightarrow> time \<Rightarrow> 'v project \<Rightarrow> 'v projectDB \<Rightarrow> ('v project \<times> 'v projectDB) option" where
  "updateProject up now p db =
     (let p = p\<lparr>pj_TenantID := tenantOrDefault (pj_TenantID p)\<rparr> in
      if \<not> up then None
      else case writeMembersTx now (pj_ID p) (pj_Members p) (filter (\<lambda>m. mr_Project m \<noteq> pj_ID p) (pd_members db)) of
        None \<Rightarrow> None
      | Some tbl \<Rightarrow> Some (p, (updateRow (pj_ID p) (overwriteProject p) db)\<lparr>pd_members := tbl\<rparr>))"

definition listMembers :: "string \<Rightarrow> 'v projectDB \<Rightarrow> projectMember list" where
  "listMembers pid db =
     map (\<lambda>m. \<lparr>mb_User = mr_User m, mb_Role = mr_Role m, mb_Registered = False\<rparr>)
       (sort_key mr_User (filter (\<lambda>m. mr_Project m = pid) (pd_members db)))"

text \<open>\<open>None\<close> is an error, \<open>Some None\<close> no such project.\<close>

definition getProject :: "bool \<Rightarrow> string \<Rightarrow> 'v projectDB \<Rightarrow> 'v project option option" where
  "getProject up pid db =
     (if up then Some (map_option (\<lambda>r. (scanProject r)\<lparr>pj_Members := listMembers pid db\<rparr>) (projectRowOf pid db)) else None)"

definition deleteProject :: "bool \<Rightarrow> string \<Rightarrow> 'v projectDB \<Rightarrow> (bool \<times> 'v projectDB) option" where
  "deleteProject up pid db =
     (if up then Some (projectRowOf pid db \<noteq> None,
        \<lparr>pd_projects = filter (\<lambda>r. pw_ID r \<noteq> pid) (pd_projects db), pd_members = filter (\<lambda>m. mr_Project m \<noteq> pid) (pd_members db)\<rparr>)
      else None)"

text \<open>The filter reads the backup column; the table is read only afterwards.\<close>

definition visibleToUser :: "'v project \<Rightarrow> string \<Rightarrow> bool" where
  "visibleToUser p user \<longleftrightarrow>
     pj_Owner p = user \<or> list_ex (\<lambda>m. mb_User m = user) (pj_Members p) \<or> pj_Owner p = [] \<and> pj_CreatedBy p = user"

definition listVisible :: "bool \<Rightarrow> string \<Rightarrow> bool \<Rightarrow> 'v projectDB \<Rightarrow> 'v project list option" where
  "listVisible up owner all db =
     (if up then Some (map (\<lambda>p. p\<lparr>pj_Members := listMembers (pj_ID p) db\<rparr>)
        (filter (\<lambda>p. all \<or> visibleToUser p owner)
          (map scanProject (sort_key (\<lambda>r. - pw_CreatedAt r) (pd_projects db)))))
      else None)"

definition roleOf :: "bool \<Rightarrow> string \<Rightarrow> string \<Rightarrow> 'v projectDB \<Rightarrow> role option" where
  "roleOf up pid user db =
     (if \<not> up then None
      else case projectRowOf pid db of
        None \<Rightarrow> Some RoleNone
      | Some r \<Rightarrow>
          if (pw_Owner r \<noteq> [] \<and> pw_Owner r = user) \<or> (pw_Owner r = [] \<and> pw_CreatedBy r = user) then Some RoleOwner
          else case memberRowOf pid user db of
            None \<Rightarrow> Some RoleNone
          | Some m \<Rightarrow> Some (if mr_Role m = roleAdminName then RoleAdmin else RoleMember))"

definition addMember :: "bool \<Rightarrow> time \<Rightarrow> string \<Rightarrow> projectMember \<Rightarrow> 'v projectDB \<Rightarrow> 'v projectDB option" where
  "addMember up now pid m db =
     (if up then map_option (\<lambda>tbl. db\<lparr>pd_members := tbl\<rparr>)
        (insertOrReplace \<lparr>mr_Project = pid, mr_User = mb_User m, mr_Role = mb_Role m, mr_CreatedAt = rfc3339 now\<rparr> (pd_members db))
      else None)"

definition removeMember :: "bool \<Rightarrow> string \<Rightarrow> string \<Rightarrow> 'v projectDB \<Rightarrow> (bool \<times> 'v projectDB) option" where
  "removeMember up pid user db =
     (if up then Some (memberRowOf pid user db \<noteq> None,
        db\<lparr>pd_members := filter (\<lambda>m. \<not> (mr_Project m = pid \<and> mr_User m = user)) (pd_members db)\<rparr>)
      else None)"

definition addPluginEntry :: "bool \<Rightarrow> time \<Rightarrow> string \<Rightarrow> projectPlugin \<Rightarrow> 'v projectDB \<Rightarrow> (bool \<times> 'v projectDB) option" where
  "addPluginEntry up now pid e db =
     (if \<not> up then None
      else case projectRowOf pid db of
        None \<Rightarrow> Some (False, db)
      | Some r \<Rightarrow>
          (let plugins = unmarshalSlice (pw_Plugins r) in
           if list_ex (\<lambda>p. pp_ID p = pp_ID e) plugins then Some (False, db)
           else Some (True, updateRow pid (\<lambda>r. r\<lparr>pw_Plugins := jsonOrEmpty (plugins @ [e]), pw_UpdatedAt := rfc3339 now\<rparr>) db)))"

definition removePluginEntry :: "bool \<Rightarrow> time \<Rightarrow> string \<Rightarrow> string \<Rightarrow> 'v projectDB \<Rightarrow> (bool \<times> 'v projectDB) option" where
  "removePluginEntry up now pid eid db =
     (if \<not> up then None
      else case projectRowOf pid db of
        None \<Rightarrow> Some (False, db)
      | Some r \<Rightarrow>
          (let plugins = unmarshalSlice (pw_Plugins r) in
           if \<not> list_ex (\<lambda>p. pp_ID p = eid) plugins then Some (False, db)
           else Some (True, updateRow pid (\<lambda>r. r\<lparr>pw_Plugins := jsonOrEmpty (filter (\<lambda>p. pp_ID p \<noteq> eid) plugins),
             pw_UpdatedAt := rfc3339 now\<rparr>) db)))"

definition transferOwner :: "bool \<Rightarrow> time \<Rightarrow> string \<Rightarrow> string \<Rightarrow> string \<Rightarrow> 'v projectDB \<Rightarrow> (bool \<times> 'v projectDB) option" where
  "transferOwner up now pid expectOwner newOwner db =
     (if \<not> up then None
      else Some (list_ex (\<lambda>r. pw_ID r = pid \<and> pw_Owner r = expectOwner) (pd_projects db),
        db\<lparr>pd_projects := map (\<lambda>r. if pw_ID r = pid \<and> pw_Owner r = expectOwner
          then r\<lparr>pw_Owner := newOwner, pw_UpdatedAt := rfc3339 now\<rparr> else r) (pd_projects db)\<rparr>))"

section \<open>Rows and keys\<close>

definition projects_ok :: "'v projectDB \<Rightarrow> bool" where
  [inv_defs]: "projects_ok db \<longleftrightarrow>
     distinct (map pw_ID (pd_projects db)) \<and>
     distinct (map (\<lambda>m. (mr_Project m, mr_User m)) (pd_members db)) \<and>
     (\<forall>m \<in> set (pd_members db). validRole (mr_Role m) \<and> mr_Project m \<in> pw_ID ` set (pd_projects db))"

text \<open>The role of a user when the database serves the query.\<close>

definition roleIn :: "'v projectDB \<Rightarrow> string \<Rightarrow> string \<Rightarrow> role" where
  "roleIn db pid user = the (roleOf True pid user db)"

lemma roleOf_roleIn: "roleOf up pid user db = (if up then Some (roleIn db pid user) else None)"
  by (auto simp: roleIn_def roleOf_def split: option.splits)

text \<open>What roles depend on: owner and creator of the project, and the row of the user.\<close>

definition ownerCols :: "string \<Rightarrow> 'v projectDB \<Rightarrow> (string \<times> string) option" where
  "ownerCols pid db = map_option (\<lambda>r. (pw_Owner r, pw_CreatedBy r)) (projectRowOf pid db)"

definition ownedBy :: "string \<times> string \<Rightarrow> string \<Rightarrow> bool" where
  "ownedBy oc user \<longleftrightarrow> (if fst oc \<noteq> [] then fst oc = user else snd oc = user)"

lemma roleIn_eq:
  "roleIn db pid user =
     (case ownerCols pid db of
        None \<Rightarrow> RoleNone
      | Some oc \<Rightarrow>
          if ownedBy oc user then RoleOwner
          else case memberRowOf pid user db of
            None \<Rightarrow> RoleNone | Some m \<Rightarrow> if mr_Role m = roleAdminName then RoleAdmin else RoleMember)"
  by (auto simp: roleIn_def roleOf_def ownerCols_def ownedBy_def split: option.splits)

lemma roleIn_owner: "roleIn db pid user = RoleOwner \<longleftrightarrow> (\<exists>oc. ownerCols pid db = Some oc \<and> ownedBy oc user)"
  by (auto simp: roleIn_eq split: option.splits)

lemma roleIn_cong:
  "ownerCols pid db' = ownerCols pid db \<Longrightarrow> memberRowOf pid user db' = memberRowOf pid user db \<Longrightarrow>
   roleIn db' pid user = roleIn db pid user"
  by (simp add: roleIn_eq split: option.splits)

lemma roleIn_no_row: "projectRowOf pid db = None \<Longrightarrow> roleIn db pid user = RoleNone"
  by (simp add: roleIn_eq ownerCols_def)

lemma find_filter_all: "(\<And>x. P x \<Longrightarrow> Q x) \<Longrightarrow> find P (filter Q xs) = find P xs"
  by (induction xs) auto

lemma find_filter_none: "(\<And>x. P x \<Longrightarrow> \<not> Q x) \<Longrightarrow> find P (filter Q xs) = None"
  by (induction xs) auto

lemma find_append: "find P (xs @ ys) = (case find P xs of None \<Rightarrow> find P ys | Some x \<Rightarrow> Some x)"
  by (induction xs) auto

lemma find_map_same: "(\<And>x. P (f x) = P x) \<Longrightarrow> find P (map f xs) = map_option f (find P xs)"
  by (induction xs) auto

lemma projectRowOf_updateRow:
  "(\<And>r. pw_ID r = q \<Longrightarrow> pw_ID (f r) = q) \<Longrightarrow>
   projectRowOf pid (updateRow q f db) = map_option (\<lambda>r. if pw_ID r = q then f r else r) (projectRowOf pid db)"
  unfolding projectRowOf_def updateRow_def by (simp add: find_map_same)

lemma projectRowOf_ID: "projectRowOf pid db = Some r \<Longrightarrow> pw_ID r = pid \<and> r \<in> set (pd_projects db)"
  unfolding projectRowOf_def by (induction "pd_projects db") (auto simp: find_Some_iff)

lemma projectRowOf_None: "projectRowOf pid db = None \<longleftrightarrow> pid \<notin> pw_ID ` set (pd_projects db)"
  by (auto simp: projectRowOf_def find_None_iff)

lemma memberRowOf_updateRow [simp]: "memberRowOf pid u (updateRow q f db) = memberRowOf pid u db"
  by (simp add: memberRowOf_def updateRow_def)

lemma ownerCols_updateRow:
  assumes "\<And>r. pw_ID r = q \<Longrightarrow> pw_ID (f r) = q \<and> pw_Owner (f r) = pw_Owner r \<and> pw_CreatedBy (f r) = pw_CreatedBy r"
  shows "ownerCols pid (updateRow q f db) = ownerCols pid db"
  using assms by (cases "projectRowOf pid db") (auto simp: ownerCols_def projectRowOf_updateRow)

section \<open>The member table\<close>

abbreviation memberKey :: "memberRow \<Rightarrow> string \<times> string" where
  "memberKey m \<equiv> (mr_Project m, mr_User m)"

definition members_ok :: "memberRow list \<Rightarrow> bool" where
  [inv_defs]: "members_ok tbl \<longleftrightarrow> distinct (map memberKey tbl) \<and> (\<forall>m \<in> set tbl. validRole (mr_Role m))"

lemma members_ok_filter: "members_ok tbl \<Longrightarrow> members_ok (filter P tbl)"
  by (auto simp: members_ok_def distinct_map_filter)

lemma insertOrReplace_ok:
  "insertOrReplace m tbl = Some tbl' \<Longrightarrow> members_ok tbl \<Longrightarrow>
   members_ok tbl' \<and> mr_Project ` set tbl' \<subseteq> insert (mr_Project m) (mr_Project ` set tbl)"
  by (auto simp: insertOrReplace_def members_ok_def distinct_map_filter split: if_splits)

lemma insertOrIgnore_ok:
  "members_ok tbl \<Longrightarrow> members_ok (insertOrIgnore m tbl) \<and> mr_Project ` set (insertOrIgnore m tbl) \<subseteq> insert (mr_Project m) (mr_Project ` set tbl)"
  by (auto simp: insertOrIgnore_def members_ok_def list_ex_iff)

lemma writeMembersTx_ok:
  "writeMembersTx now pid ms tbl = Some tbl' \<Longrightarrow> members_ok tbl \<Longrightarrow>
   members_ok tbl' \<and> mr_Project ` set tbl' \<subseteq> insert pid (mr_Project ` set tbl)"
proof (induction now pid ms tbl rule: writeMembersTx.induct)
  case (2 now pid m ms tbl)
  show ?case
  proof (cases "mb_User m = []")
    case True
    with 2 show ?thesis
      by simp
  next
    case False
    with 2(3) obtain t where t: "insertOrReplace \<lparr>mr_Project = pid, mr_User = mb_User m, mr_Role = mb_Role m, mr_CreatedAt = rfc3339 now\<rparr> tbl = Some t"
        "writeMembersTx now pid ms t = Some tbl'"
      by (auto split: option.splits)
    from insertOrReplace_ok [OF t(1) 2(4)] 2(2) [OF False t(1) t(2)] show ?thesis
      by (simp, blast)
  qed
qed auto

lemma insertOrReplace_find:
  "insertOrReplace m tbl = Some tbl' \<Longrightarrow>
   find (\<lambda>x. mr_Project x = pid \<and> mr_User x = u) tbl' =
     (if pid = mr_Project m \<and> u = mr_User m then Some m else find (\<lambda>x. mr_Project x = pid \<and> mr_User x = u) tbl)"
proof (cases "pid = mr_Project m \<and> u = mr_User m")
  case True
  assume "insertOrReplace m tbl = Some tbl'"
  then show ?thesis
    using True find_filter_none [of "\<lambda>x. mr_Project x = pid \<and> mr_User x = u" "\<lambda>x. \<not> (mr_Project x = mr_Project m \<and> mr_User x = mr_User m)" tbl]
    by (auto simp: insertOrReplace_def find_append split: if_splits)
next
  case False
  assume "insertOrReplace m tbl = Some tbl'"
  then show ?thesis
    using False find_filter_all [of "\<lambda>x. mr_Project x = pid \<and> mr_User x = u" "\<lambda>x. \<not> (mr_Project x = mr_Project m \<and> mr_User x = mr_User m)" tbl]
    by (auto simp: insertOrReplace_def find_append split: if_splits option.splits)
qed

lemma writeMembersTx_other:
  "writeMembersTx now q ms tbl = Some tbl' \<Longrightarrow> pid \<noteq> q \<Longrightarrow>
   find (\<lambda>x. mr_Project x = pid \<and> mr_User x = u) tbl' = find (\<lambda>x. mr_Project x = pid \<and> mr_User x = u) tbl"
proof (induction now q ms tbl rule: writeMembersTx.induct)
  case (2 now q m ms tbl)
  then show ?case
    by (auto simp: insertOrReplace_find split: if_splits option.splits)
qed simp

section \<open>What the operations keep\<close>

lemma projects_ok_eq:
  "projects_ok db \<longleftrightarrow> distinct (map pw_ID (pd_projects db)) \<and> members_ok (pd_members db) \<and>
     mr_Project ` set (pd_members db) \<subseteq> pw_ID ` set (pd_projects db)"
  by (auto simp: projects_ok_def members_ok_def)

lemma getProject_Some:
  "getProject up pid db = Some (Some p) \<Longrightarrow>
   up \<and> (\<exists>r. projectRowOf pid db = Some r \<and> p = (scanProject r)\<lparr>pj_Members := listMembers pid db\<rparr>)"
  by (auto simp: getProject_def split: if_splits)

lemma getProject_fields:
  assumes "getProject up pid db = Some (Some p)"
  shows "pj_ID p = pid" "ownerCols pid db = Some (pj_Owner p, pj_CreatedBy p)" "projectRowOf pid db \<noteq> None"
    "map_option pw_TenantID (projectRowOf pid db) = Some (pj_TenantID p)"
  using getProject_Some [OF assms] by (auto simp: scanProject_def ownerCols_def dest: projectRowOf_ID)

lemma map_updateRow_ID: "(\<And>r. pw_ID r = q \<Longrightarrow> pw_ID (f r) = q) \<Longrightarrow> map pw_ID (pd_projects (updateRow q f db)) = map pw_ID (pd_projects db)"
  by (auto simp: updateRow_def)

lemma updateRow_ok:
  assumes "\<And>r. pw_ID r = q \<Longrightarrow> pw_ID (f r) = q" and "projects_ok db"
  shows "projects_ok (updateRow q f db)"
proof -
  have "map pw_ID (pd_projects (updateRow q f db)) = map pw_ID (pd_projects db)"
    by (rule map_updateRow_ID) (rule assms(1))
  moreover from this have "pw_ID ` set (pd_projects (updateRow q f db)) = pw_ID ` set (pd_projects db)"
    by (metis list.set_map)
  moreover have "pd_members (updateRow q f db) = pd_members db"
    by (simp add: updateRow_def)
  ultimately show ?thesis
    using assms(2) by (simp add: projects_ok_eq)
qed

lemma overwriteProject_ID [simp]:
  "pw_ID (overwriteProject p r) = pj_ID p" "pw_Owner (overwriteProject p r) = pj_Owner p" "pw_CreatedBy (overwriteProject p r) = pj_CreatedBy p"
  "pw_Members (overwriteProject p r) = Some (pj_Members p)" "pw_TenantID (overwriteProject p r) = pj_TenantID p"
  "pw_Plugins (overwriteProject p r) = Some (pj_Plugins p)"
  by (simp_all add: overwriteProject_def insertProject_def jsonOrEmpty_def)

text \<open>An update writes the project it is given, all of it, and touches no other project.\<close>

lemma updateProject_Some:
  assumes "updateProject up now p db = Some (p', db')"
  shows "p' = p\<lparr>pj_TenantID := tenantOrDefault (pj_TenantID p)\<rparr>"
    and "\<exists>tbl. writeMembersTx now (pj_ID p) (pj_Members p) (filter (\<lambda>m. mr_Project m \<noteq> pj_ID p) (pd_members db)) = Some tbl \<and>
           db' = (updateRow (pj_ID p) (overwriteProject p') db)\<lparr>pd_members := tbl\<rparr>"
  using assms by (auto simp: updateProject_def Let_def split: if_splits option.splits)

lemma projectRowOf_members [simp]: "projectRowOf pid (db\<lparr>pd_members := tbl\<rparr>) = projectRowOf pid db"
  by (simp add: projectRowOf_def)

lemma ownerCols_members [simp]: "ownerCols pid (db\<lparr>pd_members := tbl\<rparr>) = ownerCols pid db"
  by (simp add: ownerCols_def)

lemma updateProject_rows:
  assumes "updateProject up now p db = Some (p', db')"
  shows "projectRowOf pid db' = map_option (\<lambda>r. if pid = pj_ID p then overwriteProject p' r else r) (projectRowOf pid db)"
proof -
  note u = updateProject_Some [OF assms]
  have "projectRowOf pid (updateRow (pj_ID p) (overwriteProject p') db) =
      map_option (\<lambda>r. if pw_ID r = pj_ID p then overwriteProject p' r else r) (projectRowOf pid db)"
    by (rule projectRowOf_updateRow) (simp add: u(1))
  also have "\<dots> = map_option (\<lambda>r. if pid = pj_ID p then overwriteProject p' r else r) (projectRowOf pid db)"
    by (cases "projectRowOf pid db") (auto dest: projectRowOf_ID)
  finally show ?thesis
    using u(2) by auto
qed

lemma updateProject_other:
  assumes "updateProject up now p db = Some (p', db')" and "pid \<noteq> pj_ID p"
  shows "ownerCols pid db' = ownerCols pid db" "memberRowOf pid u db' = memberRowOf pid u db"
proof -
  show "ownerCols pid db' = ownerCols pid db"
    using updateProject_rows [OF assms(1), of pid] assms(2) by (cases "projectRowOf pid db") (simp_all add: ownerCols_def)
  obtain tbl where "writeMembersTx now (pj_ID p) (pj_Members p) (filter (\<lambda>m. mr_Project m \<noteq> pj_ID p) (pd_members db)) = Some tbl"
      "pd_members db' = tbl"
    using updateProject_Some(2) [OF assms(1)] by auto
  then show "memberRowOf pid u db' = memberRowOf pid u db"
    using writeMembersTx_other [OF _ assms(2)] assms(2)
      find_filter_all [of "\<lambda>m. mr_Project m = pid \<and> mr_User m = u" "\<lambda>m. mr_Project m \<noteq> pj_ID p" "pd_members db"]
    by (auto simp: memberRowOf_def)
qed

lemma updateProject_ok:
  assumes "updateProject up now p db = Some (p', db')" and ok: "projects_ok db" and ex: "projectRowOf (pj_ID p) db \<noteq> None"
  shows "projects_ok db'"
proof -
  note u = updateProject_Some [OF assms(1)]
  obtain tbl where t: "writeMembersTx now (pj_ID p) (pj_Members p) (filter (\<lambda>m. mr_Project m \<noteq> pj_ID p) (pd_members db)) = Some tbl"
      and d: "db' = (updateRow (pj_ID p) (overwriteProject p') db)\<lparr>pd_members := tbl\<rparr>"
    using u(2) by blast
  have ids: "map pw_ID (pd_projects (updateRow (pj_ID p) (overwriteProject p') db)) = map pw_ID (pd_projects db)"
    by (rule map_updateRow_ID) (simp add: u(1))
  then have ids': "pw_ID ` set (pd_projects (updateRow (pj_ID p) (overwriteProject p') db)) = pw_ID ` set (pd_projects db)"
    by (metis list.set_map)
  have "members_ok tbl \<and> mr_Project ` set tbl \<subseteq> insert (pj_ID p) (mr_Project ` set (filter (\<lambda>m. mr_Project m \<noteq> pj_ID p) (pd_members db)))"
    using writeMembersTx_ok [OF t] ok by (simp add: projects_ok_eq members_ok_filter)
  moreover have "pj_ID p \<in> pw_ID ` set (pd_projects db)"
    using ex by (simp add: projectRowOf_None)
  moreover have "mr_Project ` set (filter (\<lambda>m. mr_Project m \<noteq> pj_ID p) (pd_members db)) \<subseteq> pw_ID ` set (pd_projects db)"
    using ok by (auto simp: projects_ok_eq)
  ultimately have "members_ok tbl \<and> mr_Project ` set tbl \<subseteq> pw_ID ` set (pd_projects db)"
    by (meson insert_subset subset_trans)
  then show ?thesis
    using ok ids ids' by (simp add: projects_ok_eq d)
qed

lemma addMember_Some:
  assumes "addMember up now pid m db = Some db'"
  shows "ownerCols q db' = ownerCols q db"
    and "memberRowOf q u db' = (if q = pid \<and> u = mb_User m
           then Some \<lparr>mr_Project = pid, mr_User = mb_User m, mr_Role = mb_Role m, mr_CreatedAt = rfc3339 now\<rparr> else memberRowOf q u db)"
    and "pd_projects db' = pd_projects db"
    and "projects_ok db \<Longrightarrow> projectRowOf pid db \<noteq> None \<Longrightarrow> projects_ok db'"
proof -
  obtain tbl where t: "insertOrReplace \<lparr>mr_Project = pid, mr_User = mb_User m, mr_Role = mb_Role m, mr_CreatedAt = rfc3339 now\<rparr> (pd_members db) = Some tbl"
      and d: "db' = db\<lparr>pd_members := tbl\<rparr>"
    using assms by (auto simp: addMember_def split: if_splits)
  show "ownerCols q db' = ownerCols q db" "pd_projects db' = pd_projects db"
    by (simp_all add: d)
  show "memberRowOf q u db' = (if q = pid \<and> u = mb_User m
      then Some \<lparr>mr_Project = pid, mr_User = mb_User m, mr_Role = mb_Role m, mr_CreatedAt = rfc3339 now\<rparr> else memberRowOf q u db)"
    using insertOrReplace_find [OF t, of q u] by (simp add: d memberRowOf_def)
  show "projects_ok db'" if "projects_ok db" "projectRowOf pid db \<noteq> None"
    using insertOrReplace_ok [OF t] that by (auto simp: projects_ok_eq d projectRowOf_None)
qed

lemma removeMember_Some:
  assumes "removeMember up pid user db = Some (found, db')"
  shows "ownerCols q db' = ownerCols q db"
    and "memberRowOf q u db' = (if q = pid \<and> u = user then None else memberRowOf q u db)"
    and "pd_projects db' = pd_projects db"
    and "projects_ok db \<Longrightarrow> projects_ok db'"
proof -
  have d: "db' = db\<lparr>pd_members := filter (\<lambda>m. \<not> (mr_Project m = pid \<and> mr_User m = user)) (pd_members db)\<rparr>"
    using assms by (auto simp: removeMember_def split: if_splits)
  show "ownerCols q db' = ownerCols q db" "pd_projects db' = pd_projects db"
    by (simp_all add: d)
  show "memberRowOf q u db' = (if q = pid \<and> u = user then None else memberRowOf q u db)"
  proof (cases "q = pid \<and> u = user")
    case True
    then show ?thesis
      using find_filter_none [of "\<lambda>x. mr_Project x = q \<and> mr_User x = u" "\<lambda>m. \<not> (mr_Project m = pid \<and> mr_User m = user)"]
      by (auto simp: d memberRowOf_def)
  next
    case False
    then show ?thesis
      using find_filter_all [of "\<lambda>x. mr_Project x = q \<and> mr_User x = u" "\<lambda>m. \<not> (mr_Project m = pid \<and> mr_User m = user)"]
      by (auto simp: d memberRowOf_def)
  qed
  show "projects_ok db'" if "projects_ok db"
    using that members_ok_filter by (auto simp: projects_ok_eq d)
qed

lemma addPluginEntry_Some:
  assumes "addPluginEntry up now pid e db = Some (added, db')"
  shows "ownerCols q db' = ownerCols q db" "memberRowOf q u db' = memberRowOf q u db" "projects_ok db \<Longrightarrow> projects_ok db'"
  using assms
  by (auto simp: addPluginEntry_def Let_def ownerCols_updateRow updateRow_ok split: if_splits option.splits)

lemma removePluginEntry_Some:
  assumes "removePluginEntry up now pid eid db = Some (found, db')"
  shows "ownerCols q db' = ownerCols q db" "memberRowOf q u db' = memberRowOf q u db" "projects_ok db \<Longrightarrow> projects_ok db'"
  using assms
  by (auto simp: removePluginEntry_def Let_def ownerCols_updateRow updateRow_ok split: if_splits option.splits)

lemma deleteProject_Some:
  assumes "deleteProject up pid db = Some (found, db')"
  shows "q \<noteq> pid \<Longrightarrow> ownerCols q db' = ownerCols q db" "q \<noteq> pid \<Longrightarrow> memberRowOf q u db' = memberRowOf q u db"
    "projectRowOf pid db' = None" "projects_ok db \<Longrightarrow> projects_ok db'"
proof -
  have d: "db' = \<lparr>pd_projects = filter (\<lambda>r. pw_ID r \<noteq> pid) (pd_projects db), pd_members = filter (\<lambda>m. mr_Project m \<noteq> pid) (pd_members db)\<rparr>"
    using assms by (auto simp: deleteProject_def split: if_splits)
  show "ownerCols q db' = ownerCols q db" if "q \<noteq> pid"
    using that find_filter_all [of "\<lambda>r. pw_ID r = q" "\<lambda>r. pw_ID r \<noteq> pid" "pd_projects db"]
    by (auto simp: d ownerCols_def projectRowOf_def)
  show "memberRowOf q u db' = memberRowOf q u db" if "q \<noteq> pid"
    using that find_filter_all [of "\<lambda>m. mr_Project m = q \<and> mr_User m = u" "\<lambda>m. mr_Project m \<noteq> pid" "pd_members db"]
    by (auto simp: d memberRowOf_def)
  show "projectRowOf pid db' = None"
    by (auto simp: d projectRowOf_None)
  show "projects_ok db'" if "projects_ok db"
    using that members_ok_filter by (auto simp: projects_ok_eq d distinct_map_filter)
qed

lemma transferOwner_Some:
  assumes "transferOwner up now pid old new db = Some (ok, db')"
  shows "q \<noteq> pid \<Longrightarrow> ownerCols q db' = ownerCols q db" "memberRowOf q u db' = memberRowOf q u db"
    "ownerCols pid db' = map_option (\<lambda>oc. if fst oc = old then (new, snd oc) else oc) (ownerCols pid db)"
    "projects_ok db \<Longrightarrow> projects_ok db'" "projectRowOf q db' = None \<longleftrightarrow> projectRowOf q db = None"
proof -
  let ?f = "\<lambda>r. if pw_ID r = pid \<and> pw_Owner r = old then r\<lparr>pw_Owner := new, pw_UpdatedAt := rfc3339 now\<rparr> else r"
  have d: "db' = db\<lparr>pd_projects := map ?f (pd_projects db)\<rparr>"
    using assms by (auto simp: transferOwner_def split: if_splits)
  have f: "projectRowOf q db' = map_option ?f (projectRowOf q db)" for q
    by (simp add: d projectRowOf_def find_map_same)
  show "ownerCols q db' = ownerCols q db" if "q \<noteq> pid"
    using that by (cases "projectRowOf q db") (auto simp: ownerCols_def f dest: projectRowOf_ID)
  show "memberRowOf q u db' = memberRowOf q u db"
    by (simp add: d memberRowOf_def)
  show "ownerCols pid db' = map_option (\<lambda>oc. if fst oc = old then (new, snd oc) else oc) (ownerCols pid db)"
    by (cases "projectRowOf pid db") (auto simp: ownerCols_def f dest: projectRowOf_ID)
  show "projectRowOf q db' = None \<longleftrightarrow> projectRowOf q db = None"
    by (simp add: f)
  have ids: "map pw_ID (pd_projects db') = map pw_ID (pd_projects db)"
    by (simp add: d)
  then have "pw_ID ` set (pd_projects db') = pw_ID ` set (pd_projects db)"
    by (metis list.set_map)
  with ids show "projects_ok db'" if "projects_ok db"
    using that by (simp add: projects_ok_eq) (simp add: d)
qed

lemma createProject_Some:
  assumes "createProject up now p db = Some (p', db')" and "pj_Members p = []"
  shows "projectRowOf (pj_ID p) db = None" "q \<noteq> pj_ID p \<Longrightarrow> ownerCols q db' = ownerCols q db"
    "memberRowOf q u db' = memberRowOf q u db"
    "ownerCols (pj_ID p) db' = Some (if pj_Owner p = [] then pj_CreatedBy p else pj_Owner p, pj_CreatedBy p)"
    "projects_ok db \<Longrightarrow> projects_ok db'"
proof -
  show n: "projectRowOf (pj_ID p) db = None"
    using assms by (auto simp: createProject_def Let_def split: if_splits)
  obtain r where r: "pd_projects db' = pd_projects db @ [r]" "pd_members db' = pd_members db" "pw_ID r = pj_ID p"
      "pw_Owner r = (if pj_Owner p = [] then pj_CreatedBy p else pj_Owner p)" "pw_CreatedBy r = pj_CreatedBy p"
    using assms by (auto simp: createProject_def Let_def insertProject_def split: if_splits)
  show "memberRowOf q u db' = memberRowOf q u db"
    by (simp add: r memberRowOf_def)
  show "ownerCols q db' = ownerCols q db" if "q \<noteq> pj_ID p"
    using that by (auto simp: ownerCols_def projectRowOf_def r find_append split: option.splits)
  show "ownerCols (pj_ID p) db' = Some (if pj_Owner p = [] then pj_CreatedBy p else pj_Owner p, pj_CreatedBy p)"
    using n by (auto simp: ownerCols_def projectRowOf_def r find_append)
  show "projects_ok db'" if "projects_ok db"
    using that n by (auto simp: projects_ok_eq r projectRowOf_None)
qed

section \<open>The migration\<close>

lemma un_insert_subset: "B \<subseteq> insert a C \<Longrightarrow> A \<union> B \<subseteq> insert a A \<union> C"
  by blast

lemma fold_insertOrIgnore_ok:
  "members_ok tbl \<Longrightarrow> members_ok (fold insertOrIgnore ms tbl) \<and>
   mr_Project ` set (fold insertOrIgnore ms tbl) \<subseteq> mr_Project ` set ms \<union> mr_Project ` set tbl"
proof (induction ms arbitrary: tbl)
  case (Cons m ms)
  note one = insertOrIgnore_ok [OF Cons.prems, of m]
  have "members_ok (fold insertOrIgnore ms (insertOrIgnore m tbl)) \<and>
      mr_Project ` set (fold insertOrIgnore ms (insertOrIgnore m tbl)) \<subseteq> mr_Project ` set ms \<union> mr_Project ` set (insertOrIgnore m tbl)"
    by (rule Cons.IH) (simp add: one)
  moreover have "mr_Project ` set ms \<union> mr_Project ` set (insertOrIgnore m tbl) \<subseteq> mr_Project ` set (m # ms) \<union> mr_Project ` set tbl"
    unfolding list.set image_insert by (rule un_insert_subset) (use one in simp)
  ultimately show ?case
    unfolding fold_simps by (intro conjI) (erule conjunct1, erule conjE, erule order_trans)
qed simp

lemma fold_insertOrIgnore_keeps:
  "find P tbl = Some x \<Longrightarrow> find P (fold insertOrIgnore ms tbl) = Some x"
  by (induction ms arbitrary: tbl) (simp_all add: insertOrIgnore_def find_append)

lemma fold_insertOrIgnore_new:
  "find (\<lambda>x. mr_Project x = pid \<and> mr_User x = u) tbl = None \<Longrightarrow>
   find (\<lambda>x. mr_Project x = pid \<and> mr_User x = u) (fold insertOrIgnore ms tbl) =
     find (\<lambda>x. mr_Project x = pid \<and> mr_User x = u \<and> validRole (mr_Role x)) ms"
proof (induction ms arbitrary: tbl)
  case (Cons m ms)
  show ?case
  proof (cases "mr_Project m = pid \<and> mr_User m = u \<and> validRole (mr_Role m)")
    case True
    then have "find (\<lambda>x. mr_Project x = pid \<and> mr_User x = u) (insertOrIgnore m tbl) = Some m"
      using Cons.prems by (auto simp: insertOrIgnore_def find_append list_ex_iff) (auto simp: find_None_iff)
    from fold_insertOrIgnore_keeps [OF this] True show ?thesis
      by simp
  next
    case False
    then have "find (\<lambda>x. mr_Project x = pid \<and> mr_User x = u) (insertOrIgnore m tbl) = None"
      using Cons.prems by (auto simp: insertOrIgnore_def find_append)
    from Cons.IH [OF this] False show ?thesis
      by auto
  qed
qed simp

lemma find_map_conv: "find P (map f xs) = map_option f (find (\<lambda>x. P (f x)) xs)"
  by (induction xs) auto

lemma find_filter_conv: "find P (filter Q xs) = find (\<lambda>x. Q x \<and> P x) xs"
  by (induction xs) auto

lemma find_cong_all: "(\<And>x. x \<in> set xs \<Longrightarrow> P x = Q x) \<Longrightarrow> find P xs = find Q xs"
  by (induction xs) auto

definition backupOf :: "'v projectRow \<Rightarrow> string \<Rightarrow> projectMember option" where
  "backupOf r u = find (\<lambda>m. mb_User m = u \<and> validRole (mb_Role m)) (unmarshalSlice (pw_Members r))"

lemma membersToCopy_find:
  assumes "u \<noteq> []"
  shows "find (\<lambda>x. mr_Project x = pid \<and> mr_User x = u \<and> validRole (mr_Role x)) (membersToCopy r) =
     (if pw_ID r = pid then map_option (\<lambda>m. \<lparr>mr_Project = pw_ID r, mr_User = mb_User m, mr_Role = mb_Role m, mr_CreatedAt = pw_CreatedAt r\<rparr>) (backupOf r u)
      else None)"
proof -
  have "find (\<lambda>m. mb_User m \<noteq> [] \<and> mb_User m = u \<and> validRole (mb_Role m)) xs = find (\<lambda>m. mb_User m = u \<and> validRole (mb_Role m)) xs"
      for xs :: "projectMember list"
    using assms by (intro find_cong_all) auto
  note eq = this [of "unmarshalSlice (pw_Members r)"]
  show ?thesis
    unfolding membersToCopy_def backupOf_def find_map_conv find_filter_conv
    by (simp add: eq) (simp add: find_None_iff)
qed

lemma copies_find:
  assumes "u \<noteq> []" and "distinct (map pw_ID rows)"
  shows "find (\<lambda>x. mr_Project x = pid \<and> mr_User x = u \<and> validRole (mr_Role x)) (concat (map membersToCopy rows)) =
     (case find (\<lambda>r. pw_ID r = pid) rows of
        None \<Rightarrow> None
      | Some r \<Rightarrow> map_option (\<lambda>m. \<lparr>mr_Project = pid, mr_User = mb_User m, mr_Role = mb_Role m, mr_CreatedAt = pw_CreatedAt r\<rparr>) (backupOf r u))"
  using assms(2)
proof (induction rows)
  case (Cons r rows)
  show ?case
  proof (cases "pw_ID r = pid")
    case True
    with Cons.prems have "find (\<lambda>r. pw_ID r = pid) rows = None"
      by (auto simp: find_None_iff image_iff)
    with True Cons show ?thesis
      by (auto simp: find_append membersToCopy_find [OF assms(1)] split: option.splits)
  next
    case False
    with Cons show ?thesis
      by (simp add: find_append membersToCopy_find [OF assms(1)])
  qed
qed simp

text \<open>A user without a row gets the role of the backup when the server starts.\<close>

lemma role_after_init:
  assumes ok: "projects_ok db" and "u \<noteq> []" and r: "projectRowOf pid db = Some r" "pw_Owner r \<noteq> []" "pw_Owner r \<noteq> u"
    and gone: "memberRowOf pid u db = None" and started: "initProjects up n db = (True, db')"
  shows "roleIn db' pid u =
    (case backupOf r u of None \<Rightarrow> RoleNone | Some m \<Rightarrow> if mb_Role m = roleAdminName then RoleAdmin else RoleMember)"
proof -
  let ?rows = "map backfillOwner (pd_projects db)"
  have d: "length (concat (map membersToCopy ?rows)) \<le> n"
      "db' = db\<lparr>pd_projects := ?rows, pd_members := fold insertOrIgnore (concat (map membersToCopy ?rows)) (pd_members db)\<rparr>"
    using started by (auto simp: initProjects_def migrateMembersJSONToTable_def Let_def split: if_splits)
  have id: "pw_ID (backfillOwner x) = pw_ID x" and bk: "backupOf (backfillOwner x) u = backupOf x u" for x :: "'a projectRow"
    by (simp_all add: backfillOwner_def backupOf_def)
  have row: "projectRowOf pid db' = Some r"
    using r by (simp add: d projectRowOf_def find_map_same id backfillOwner_def)
  have "map pw_ID ?rows = map pw_ID (pd_projects db)"
    by (simp add: id)
  then have dis: "distinct (map pw_ID ?rows)"
    using ok by (simp only: projects_ok_eq)
  have "memberRowOf pid u db' =
      find (\<lambda>x. mr_Project x = pid \<and> mr_User x = u \<and> validRole (mr_Role x)) (concat (map membersToCopy ?rows))"
    using fold_insertOrIgnore_new gone by (auto simp: d memberRowOf_def)
  also have "\<dots> = map_option (\<lambda>m. \<lparr>mr_Project = pid, mr_User = mb_User m, mr_Role = mb_Role m, mr_CreatedAt = pw_CreatedAt r\<rparr>) (backupOf r u)"
    using row unfolding copies_find [OF assms(2) dis] by (simp add: d projectRowOf_def)
  finally show ?thesis
    using row r by (auto simp: roleIn_eq ownerCols_def ownedBy_def split: option.splits)
qed

text \<open>Listing goes by owner and backup.\<close>

lemma listVisible_member:
  assumes "projectRowOf pid db = Some r" and "listVisible up user all db = Some ps" and "all \<or> visibleToUser (scanProject r) user"
  shows "pid \<in> pj_ID ` set ps"
proof -
  have ps: "ps = map (\<lambda>p. p\<lparr>pj_Members := listMembers (pj_ID p) db\<rparr>)
      (filter (\<lambda>p. all \<or> visibleToUser p user) (map scanProject (sort_key (\<lambda>r. - pw_CreatedAt r) (pd_projects db))))"
    using assms(2) by (simp add: listVisible_def split: if_splits)
  have "scanProject r \<in> set (filter (\<lambda>p. all \<or> visibleToUser p user) (map scanProject (sort_key (\<lambda>r. - pw_CreatedAt r) (pd_projects db))))"
    using projectRowOf_ID [OF assms(1)] assms(3) by auto
  moreover have "pj_ID (scanProject r) = pid"
    using projectRowOf_ID [OF assms(1)] by (simp add: scanProject_def)
  ultimately show ?thesis
    unfolding ps by (force simp: image_image)
qed

lemma listVisible_only:
  assumes "projects_ok db" and "projectRowOf pid db = Some r" and "listVisible up user all db = Some ps" and "pid \<in> pj_ID ` set ps"
  shows "all \<or> visibleToUser (scanProject r) user"
proof -
  obtain x where x: "x \<in> set (pd_projects db)" "pw_ID x = pid" "all \<or> visibleToUser (scanProject x) user"
    using assms(3,4) by (auto simp: listVisible_def scanProject_def image_iff split: if_splits)
  have "x = r"
    using assms(1) projectRowOf_ID [OF assms(2)] x(1,2) by (auto simp: projects_ok_eq distinct_map inj_on_def)
  with x(3) show ?thesis
    by simp
qed

end
