(* ===== verification/Project_Access.thy ===== *)
theory Project_Access
  imports Project_Store
begin

text \<open>
  \<open>cmd/gt-mcp/authz.go\<close> and \<open>cmd/gt-mcp/project.go\<close>: the authorizer that looks roles up in the
  project store, and the tools on projects. A tool that uses the database several times takes
  \<open>up\<close>, a function from the position of the use in the tool to whether it is served. The identity of the
  request is \<open>ctx\<close>, arguments arrive as the tool reads them, and log lines are left out.
\<close>

section \<open>The authorizer (authz.go)\<close>

datatype denial = RoleLookupFailed | Denied forbidden

definition ofProject :: "resource \<Rightarrow> string" where
  "ofProject r = (if rs_ProjectID r = [] \<and> rs_Kind r = KindProject then rs_ID r else rs_ProjectID r)"

definition canDo :: "bool \<Rightarrow> 'v projectDB \<Rightarrow> authPrincipal option \<Rightarrow> action \<Rightarrow> resource \<Rightarrow> denial option" where
  "canDo up db ctx a r =
     (let p = authzPrincipal ctx; pid = ofProject r in
      case (if pid = [] then Some RoleNone else roleOf up pid (pr_User p) db) of
        None \<Rightarrow> Some RoleLookupFailed
      | Some rl \<Rightarrow> map_option Denied (decide p a r rl))"

definition projectResource :: "'v project \<Rightarrow> resource" where
  "projectResource p =
     \<lparr>rs_Kind = KindProject, rs_ID = pj_ID p, rs_TenantID = pj_TenantID p, rs_ProjectID = [], rs_CreatorID = pj_CreatedBy p\<rparr>"

datatype projectError =
  IdRequired | NameRequired | UserRequired | BadUserName | BadRole | ProjectNotFound | StoreError | UserIsOwner
| CannotRemoveOwner | MemberNotFound | ListRequired | BadList | RegistryUnavailable | NotYourPlugin | EntryNotFound
| NotYourEntry | InvalidRules string | NewOwnerRequired | AlreadyOwner | NotAMember | OwnerChanged

text \<open>A project that the caller may not touch is reported as one that does not exist.\<close>

definition projectForAction ::
  "bool \<Rightarrow> bool \<Rightarrow> 'v projectDB \<Rightarrow> authPrincipal option \<Rightarrow> string \<Rightarrow> action \<Rightarrow> projectError + 'v project" where
  "projectForAction up1 up2 db ctx pid a =
     (if pid = [] then Inl IdRequired
      else case getProject up1 pid db of
        None \<Rightarrow> Inl StoreError
      | Some None \<Rightarrow> Inl ProjectNotFound
      | Some (Some p) \<Rightarrow> (case canDo up2 db ctx a (projectResource p) of Some e \<Rightarrow> Inl ProjectNotFound | None \<Rightarrow> Inr p))"

definition capabilityCandidates :: "action list" where
  "capabilityCandidates =
     [ProjectUpdate, ProjectDelete, ProjectManageMembers, ProjectManagePlugins, ProjectManageRules, ProjectTransferOwner]"

definition projectCapabilities :: "(action \<Rightarrow> bool) \<Rightarrow> 'v projectDB \<Rightarrow> authPrincipal option \<Rightarrow> 'v project \<Rightarrow> action list" where
  "projectCapabilities up db ctx p = filter (\<lambda>a. canDo (up a) db ctx a (projectResource p) = None) capabilityCandidates"

text \<open>The owners whose plugins a user may resolve besides the own ones.\<close>

definition pluginOwnersFor :: "bool \<Rightarrow> 'v projectDB \<Rightarrow> string \<Rightarrow> string list" where
  "pluginOwnersFor up db user =
     (if user = [] then []
      else case listVisible up user False db of
        None \<Rightarrow> []
      | Some visible \<Rightarrow>
          uniq (filter (\<lambda>x. x \<noteq> [] \<and> x \<noteq> user) (map pp_Owner (concat (map pj_Plugins visible)))))"

definition checkRulesJSONFor ::
  "('v checkRule \<Rightarrow> string option) \<Rightarrow> bool \<Rightarrow> bool \<Rightarrow> 'v projectDB \<Rightarrow> authPrincipal option \<Rightarrow> string \<Rightarrow> string list" where
  "checkRulesJSONFor marshal up1 up2 db ctx pid =
     (if pid = [] then []
      else case projectForAction up1 up2 db ctx pid ProjectRead of
        Inl e \<Rightarrow> []
      | Inr p \<Rightarrow> encodeList marshal (activeRules (pj_Rules p)))"

section \<open>The tools (project.go)\<close>

datatype 'v projectReply =
  ErrorResult projectError
| Failed
| Done "'v project"
| Projects "'v project list"
| Deleted string
| Reloaded "'v project option"
| MemberAdded "'v project option" bool
| PluginAdded "'v project option" bool

definition handleCreateProject ::
  "bool \<Rightarrow> time \<Rightarrow> string \<Rightarrow> string \<Rightarrow> string \<Rightarrow> int \<Rightarrow> authPrincipal option \<Rightarrow> 'v projectDB \<Rightarrow> 'v projectReply \<times> 'v projectDB" where
  "handleCreateProject up now newID nameArg pluginArg port ctx db =
     (let owner = pr_User (authzPrincipal ctx); name = trimSpace nameArg in
      if name = [] then (ErrorResult NameRequired, db)
      else case createProject up now
          \<lparr>pj_ID = newID, pj_Name = name, pj_Description = [], pj_Game = [], pj_CreatedBy = owner, pj_Owner = [], pj_TenantID = [],
           pj_DefaultPlugin = trimSpace pluginArg, pj_DefaultPort = port, pj_Members = [], pj_Plugins = [], pj_Rules = [],
           pj_CreatedAt = rfc3339 now, pj_UpdatedAt = rfc3339 now\<rparr> db of
        None \<Rightarrow> (Failed, db)
      | Some (p, db') \<Rightarrow> (Done p, db'))"

definition handleListProjects :: "bool \<Rightarrow> authPrincipal option \<Rightarrow> 'v projectDB \<Rightarrow> 'v projectReply" where
  "handleListProjects up ctx db =
     (case listVisible up (pr_User (authzPrincipal ctx)) (pr_IsAdmin (authzPrincipal ctx)) db of
        None \<Rightarrow> Failed
      | Some ps \<Rightarrow> Projects ps)"

text \<open>\<open>get_project\<close> without the sessions, which \<open>Session_Tools\<close> adds.\<close>

definition withRegistered :: "(string \<Rightarrow> bool) \<Rightarrow> 'v project \<Rightarrow> 'v project" where
  "withRegistered known p = p\<lparr>pj_Members := map (\<lambda>m. m\<lparr>mb_Registered := known (mb_User m)\<rparr>) (pj_Members p)\<rparr>"

text \<open>An argument that is absent is \<open>None\<close>; \<open>up_port\<close> is the argument \<open>port\<close> as a number.\<close>

record updateArgs =
  ua_name :: "string option"
  ua_description :: "string option"
  ua_game :: "string option"
  ua_default_plugin :: "string option"
  ua_default_port :: "int option"
  ua_port :: "int option"

definition handleProjectArgPort :: "int option \<Rightarrow> int" where
  "handleProjectArgPort port = (case port of None \<Rightarrow> 0 | Some n \<Rightarrow> n)"

definition applyUpdate :: "updateArgs \<Rightarrow> 'v project \<Rightarrow> 'v project" where
  "applyUpdate args p =
     p\<lparr>pj_Name := (case map_option trimSpace (ua_name args) of Some (c # cs) \<Rightarrow> c # cs | _ \<Rightarrow> pj_Name p),
       pj_Description := (case ua_description args of Some s \<Rightarrow> trimSpace s | None \<Rightarrow> pj_Description p),
       pj_Game := (case ua_game args of Some s \<Rightarrow> trimSpace s | None \<Rightarrow> pj_Game p),
       pj_DefaultPlugin := (case ua_default_plugin args of Some s \<Rightarrow> trimSpace s | None \<Rightarrow> pj_DefaultPlugin p),
       pj_DefaultPort := (case ua_default_port args of Some _ \<Rightarrow> handleProjectArgPort (ua_port args) | None \<Rightarrow> pj_DefaultPort p)\<rparr>"

text \<open>
  Three tools load the project, change a part of it and write all of it back. They are split
  there: \<open>loadFor\<close> is the first half, \<open>storeProject\<close> the second.
\<close>

definition loadFor ::
  "(nat \<Rightarrow> bool) \<Rightarrow> 'v projectDB \<Rightarrow> authPrincipal option \<Rightarrow> string \<Rightarrow> action \<Rightarrow> projectError + 'v project" where
  "loadFor up db ctx pid a = projectForAction (up 0) (up 1) db ctx pid a"

definition storeProject :: "bool \<Rightarrow> time \<Rightarrow> 'v project \<Rightarrow> 'v projectDB \<Rightarrow> 'v projectReply \<times> 'v projectDB" where
  "storeProject up now p db =
     (case updateProject up now (p\<lparr>pj_UpdatedAt := rfc3339 now\<rparr>) db of
        None \<Rightarrow> (Failed, db)
      | Some (p', db') \<Rightarrow> (Done p', db'))"

definition handleUpdateProject ::
  "(nat \<Rightarrow> bool) \<Rightarrow> time \<Rightarrow> string \<Rightarrow> updateArgs \<Rightarrow> authPrincipal option \<Rightarrow> 'v projectDB \<Rightarrow> 'v projectReply \<times> 'v projectDB" where
  "handleUpdateProject up now idArg args ctx db =
     (case loadFor up db ctx (trimSpace idArg) ProjectUpdate of
        Inl e \<Rightarrow> (ErrorResult e, db)
      | Inr p \<Rightarrow> storeProject (up 2) now (applyUpdate args p) db)"

definition handleDeleteProject ::
  "(nat \<Rightarrow> bool) \<Rightarrow> string \<Rightarrow> authPrincipal option \<Rightarrow> 'v projectDB \<Rightarrow> 'v projectReply \<times> 'v projectDB" where
  "handleDeleteProject up idArg ctx db =
     (case loadFor up db ctx (trimSpace idArg) ProjectDelete of
        Inl e \<Rightarrow> (ErrorResult e, db)
      | Inr p \<Rightarrow>
          (case deleteProject (up 2) (pj_ID p) db of
             None \<Rightarrow> (Failed, db)
           | Some (found, db') \<Rightarrow> (Deleted (trimSpace idArg), db')))"

definition reload :: "bool \<Rightarrow> string \<Rightarrow> ('v project option \<Rightarrow> 'v projectReply) \<Rightarrow> 'v projectDB \<Rightarrow> 'v projectReply \<times> 'v projectDB" where
  "reload up pid k db = (case getProject up pid db of None \<Rightarrow> (Failed, db) | Some p \<Rightarrow> (k p, db))"

definition handleAddProjectMember ::
  "(nat \<Rightarrow> bool) \<Rightarrow> time \<Rightarrow> (string \<Rightarrow> bool) \<Rightarrow> string \<Rightarrow> string \<Rightarrow> string \<Rightarrow> authPrincipal option \<Rightarrow> 'v projectDB \<Rightarrow>
   'v projectReply \<times> 'v projectDB" where
  "handleAddProjectMember up now known idArg userArg roleArg ctx db =
     (let pid = trimSpace idArg; user = trimSpace userArg; role = trimSpace roleArg in
      if pid = [] then (ErrorResult IdRequired, db)
      else if user = [] then (ErrorResult UserRequired, db)
      else if \<not> validOwnerName user then (ErrorResult BadUserName, db)
      else if \<not> validRole role then (ErrorResult BadRole, db)
      else case loadFor up db ctx pid ProjectManageMembers of
        Inl e \<Rightarrow> (ErrorResult e, db)
      | Inr p \<Rightarrow>
          if pj_Owner p = user then (ErrorResult UserIsOwner, db)
          else case addMember (up 2) now pid \<lparr>mb_User = user, mb_Role = role, mb_Registered = False\<rparr> db of
            None \<Rightarrow> (Failed, db)
          | Some db' \<Rightarrow> reload (up 3) pid (\<lambda>p. MemberAdded p (\<not> known user)) db')"

definition handleRemoveProjectMember ::
  "(nat \<Rightarrow> bool) \<Rightarrow> string \<Rightarrow> string \<Rightarrow> authPrincipal option \<Rightarrow> 'v projectDB \<Rightarrow> 'v projectReply \<times> 'v projectDB" where
  "handleRemoveProjectMember up idArg userArg ctx db =
     (let pid = trimSpace idArg; user = trimSpace userArg in
      if pid = [] then (ErrorResult IdRequired, db)
      else if user = [] then (ErrorResult UserRequired, db)
      else case loadFor up db ctx pid ProjectManageMembers of
        Inl e \<Rightarrow> (ErrorResult e, db)
      | Inr p \<Rightarrow>
          if pj_Owner p = user then (ErrorResult CannotRemoveOwner, db)
          else case removeMember (up 2) pid user db of
            None \<Rightarrow> (Failed, db)
          | Some (found, db') \<Rightarrow>
              if \<not> found then (ErrorResult MemberNotFound, db') else reload (up 3) pid Reloaded db')"

text \<open>The argument of the list tools: the text, and the list it stands for if it is one.\<close>

definition parseAssociatedEntries :: "(string \<Rightarrow> 'a list option) \<Rightarrow> string \<Rightarrow> projectError + 'a list" where
  "parseAssociatedEntries unmarshal param =
     (if param = [] then Inl ListRequired else case unmarshal param of None \<Rightarrow> Inl BadList | Some xs \<Rightarrow> Inr xs)"

definition claimEntries :: "string \<Rightarrow> projectPlugin list \<Rightarrow> projectPlugin list" where
  "claimEntries setter = map (\<lambda>e. if pp_Owner e = [] then e\<lparr>pp_Owner := setter\<rparr> else e)"

definition handleSetProjectPlugins ::
  "(string \<Rightarrow> projectPlugin list option) \<Rightarrow> (nat \<Rightarrow> bool) \<Rightarrow> time \<Rightarrow> string \<Rightarrow> string \<Rightarrow> authPrincipal option \<Rightarrow> 'v projectDB \<Rightarrow>
   'v projectReply \<times> 'v projectDB" where
  "handleSetProjectPlugins unmarshal up now idArg listArg ctx db =
     (let pid = trimSpace idArg in
      if pid = [] then (ErrorResult IdRequired, db)
      else case parseAssociatedEntries unmarshal (trimSpace listArg) of
        Inl e \<Rightarrow> (ErrorResult e, db)
      | Inr plugins \<Rightarrow>
          (case loadFor up db ctx pid ProjectManagePlugins of
             Inl e \<Rightarrow> (ErrorResult e, db)
           | Inr p \<Rightarrow> storeProject (up 2) now (p\<lparr>pj_Plugins := claimEntries (pr_User (authzPrincipal ctx)) plugins\<rparr>) db))"

text \<open>
  Two tools are open to every member. \<open>owns name owner\<close> is the answer of the plugin registry,
  \<open>None\<close> when there is no connection to it.
\<close>

definition handleAddProjectPlugin ::
  "(string \<Rightarrow> string \<Rightarrow> bool) option \<Rightarrow> (nat \<Rightarrow> bool) \<Rightarrow> time \<Rightarrow> string \<Rightarrow> string \<Rightarrow> authPrincipal option \<Rightarrow> 'v projectDB \<Rightarrow>
   'v projectReply \<times> 'v projectDB" where
  "handleAddProjectPlugin owns up now idArg nameArg ctx db =
     (let pid = trimSpace idArg; name = trimSpace nameArg; caller = pr_User (authzPrincipal ctx) in
      if pid = [] then (ErrorResult IdRequired, db)
      else if name = [] then (ErrorResult NameRequired, db)
      else case getProject (up 0) pid db of
        None \<Rightarrow> (Failed, db)
      | Some None \<Rightarrow> (ErrorResult ProjectNotFound, db)
      | Some (Some p) \<Rightarrow>
          if canDo (up 1) db ctx ProjectRead (projectResource p) \<noteq> None then (ErrorResult ProjectNotFound, db)
          else
            (let manages = (canDo (up 2) db ctx ProjectManagePlugins (projectResource p) = None) in
             if \<not> manages \<and> owns = None then (ErrorResult RegistryUnavailable, db)
             else if \<not> manages \<and> \<not> the owns name caller then (ErrorResult NotYourPlugin, db)
             else case addPluginEntry (up 3) now pid \<lparr>pp_ID = name, pp_Name = name, pp_Owner = caller\<rparr> db of
               None \<Rightarrow> (Failed, db)
             | Some (added, db') \<Rightarrow> reload (up 4) pid (\<lambda>p. PluginAdded p added) db'))"

definition mayRemoveEntry :: "string \<Rightarrow> string \<Rightarrow> projectPlugin list \<Rightarrow> projectError option" where
  "mayRemoveEntry caller eid plugins =
     (case find (\<lambda>e. pp_ID e = eid) plugins of
        None \<Rightarrow> Some EntryNotFound
      | Some e \<Rightarrow> if pp_Owner e = [] \<or> pp_Owner e \<noteq> caller then Some NotYourEntry else None)"

definition handleRemoveProjectPlugin ::
  "(nat \<Rightarrow> bool) \<Rightarrow> time \<Rightarrow> string \<Rightarrow> string \<Rightarrow> authPrincipal option \<Rightarrow> 'v projectDB \<Rightarrow> 'v projectReply \<times> 'v projectDB" where
  "handleRemoveProjectPlugin up now idArg entryArg ctx db =
     (let pid = trimSpace idArg; eid = trimSpace entryArg in
      if pid = [] \<or> eid = [] then (ErrorResult IdRequired, db)
      else case getProject (up 0) pid db of
        None \<Rightarrow> (Failed, db)
      | Some None \<Rightarrow> (ErrorResult ProjectNotFound, db)
      | Some (Some p) \<Rightarrow>
          if canDo (up 1) db ctx ProjectRead (projectResource p) \<noteq> None then (ErrorResult ProjectNotFound, db)
          else
            (case (if canDo (up 2) db ctx ProjectManagePlugins (projectResource p) = None then None
                   else mayRemoveEntry (pr_User (authzPrincipal ctx)) eid (pj_Plugins p)) of
               Some e \<Rightarrow> (ErrorResult e, db)
             | None \<Rightarrow>
                 (case removePluginEntry (up 3) now pid eid db of
                    None \<Rightarrow> (Failed, db)
                  | Some (found, db') \<Rightarrow> if \<not> found then (ErrorResult EntryNotFound, db') else reload (up 4) pid Reloaded db')))"

fun joinText :: "string \<Rightarrow> string list \<Rightarrow> string" where
  "joinText sep [] = []"
| "joinText sep [x] = x"
| "joinText sep (x # y # xs) = x @ sep @ joinText sep (y # xs)"

text \<open>Every issue of a check rule has the severity error.\<close>

definition formatRuleIssues :: "(issue \<Rightarrow> string) \<Rightarrow> issue list \<Rightarrow> string" where
  "formatRuleIssues message issues =
     joinText ''; '' (map (\<lambda>iss. (if is_Path iss = [] then is_RuleID iss else is_Path iss) @ '': '' @ message iss) issues)"

definition handleSetProjectRules ::
  "('d, 'n, 'v) gjson_api \<Rightarrow> (issue \<Rightarrow> string) \<Rightarrow> (string \<Rightarrow> 'v checkRule list option) \<Rightarrow> (nat \<Rightarrow> bool) \<Rightarrow> time \<Rightarrow> string \<Rightarrow> string \<Rightarrow>
   authPrincipal option \<Rightarrow> 'v projectDB \<Rightarrow> 'v projectReply \<times> 'v projectDB" where
  "handleSetProjectRules api message unmarshal up now idArg listArg ctx db =
     (let pid = trimSpace idArg in
      if pid = [] then (ErrorResult IdRequired, db)
      else case parseAssociatedEntries unmarshal (trimSpace listArg) of
        Inl e \<Rightarrow> (ErrorResult e, db)
      | Inr rules \<Rightarrow>
          if checkRulesReport api rules \<noteq> []
          then (ErrorResult (InvalidRules (formatRuleIssues message (checkRulesReport api rules))), db)
          else case loadFor up db ctx pid ProjectManageRules of
            Inl e \<Rightarrow> (ErrorResult e, db)
          | Inr p \<Rightarrow> storeProject (up 2) now (p\<lparr>pj_Rules := rules\<rparr>) db)"

text \<open>The two changes of the member table after a transfer may fail without an error.\<close>

definition adjustMembers :: "bool \<Rightarrow> bool \<Rightarrow> time \<Rightarrow> string \<Rightarrow> string \<Rightarrow> string \<Rightarrow> 'v projectDB \<Rightarrow> 'v projectDB" where
  "adjustMembers up1 up2 now pid prevOwner newOwner db =
     (let db1 = (case addMember up1 now pid \<lparr>mb_User = prevOwner, mb_Role = roleAdminName, mb_Registered = False\<rparr> db of
                   None \<Rightarrow> db | Some db' \<Rightarrow> db') in
      case removeMember up2 pid newOwner db1 of None \<Rightarrow> db1 | Some (found, db2) \<Rightarrow> db2)"

definition handleTransferProjectOwner ::
  "(nat \<Rightarrow> bool) \<Rightarrow> time \<Rightarrow> string \<Rightarrow> string \<Rightarrow> authPrincipal option \<Rightarrow> 'v projectDB \<Rightarrow> 'v projectReply \<times> 'v projectDB" where
  "handleTransferProjectOwner up now idArg ownerArg ctx db =
     (let pid = trimSpace idArg; newOwner = trimSpace ownerArg in
      if pid = [] then (ErrorResult IdRequired, db)
      else if newOwner = [] then (ErrorResult NewOwnerRequired, db)
      else case loadFor up db ctx pid ProjectTransferOwner of
        Inl e \<Rightarrow> (ErrorResult e, db)
      | Inr p \<Rightarrow>
          if pj_Owner p = newOwner then (ErrorResult AlreadyOwner, db)
          else case roleOf (up 2) pid newOwner db of
            None \<Rightarrow> (Failed, db)
          | Some rl \<Rightarrow>
              if rl \<noteq> RoleAdmin \<and> rl \<noteq> RoleMember then (ErrorResult NotAMember, db)
              else case transferOwner (up 3) now pid (pj_Owner p) newOwner db of
                None \<Rightarrow> (Failed, db)
              | Some (ok, db1) \<Rightarrow>
                  if \<not> ok then (ErrorResult OwnerChanged, db1)
                  else reload (up 6) pid Reloaded (adjustMembers (up 4) (up 5) now pid (pj_Owner p) newOwner db1))"

section \<open>The interface of the authorizer\<close>

text \<open>
  \<open>authz.Authorizer\<close>: whoever implements \<open>Can\<close> allows only what \<open>Decide\<close> allows with the role
  that the project of the resource gives the caller.
\<close>

locale authorizer =
  fixes can :: "'s \<Rightarrow> authPrincipal option \<Rightarrow> action \<Rightarrow> resource \<Rightarrow> 'e option"
    and role :: "'s \<Rightarrow> string \<Rightarrow> string \<Rightarrow> role"
  assumes can_decides: "can s ctx a r = None \<Longrightarrow>
    decide (authzPrincipal ctx) a r (if ofProject r = [] then RoleNone else role s (ofProject r) (pr_User (authzPrincipal ctx))) = None"
begin

lemma same_tenant: "can s ctx a r = None \<Longrightarrow> principalTenant (authzPrincipal ctx) = resTenant r"
  using can_decides [of s ctx a r] by (auto simp: decide_def split: if_splits)

lemma project_role:
  assumes "can s ctx a r = None" and "projectActionRole a = Some m" and "ofProject r \<noteq> []"
  shows "pr_IsAdmin (authzPrincipal ctx) \<or> m \<le> role s (ofProject r) (pr_User (authzPrincipal ctx))"
  using can_decides [OF assms(1)] assms(2,3) by (auto simp: decide_def roleAtLeast_le split: if_splits)

end

interpretation projects: authorizer "canDo up" roleIn for up
proof
  fix db :: "'v projectDB" and ctx a r
  assume "canDo up db ctx a r = None"
  then show "decide (authzPrincipal ctx) a r
      (if ofProject r = [] then RoleNone else roleIn db (ofProject r) (pr_User (authzPrincipal ctx))) = None"
    by (auto simp: canDo_def Let_def roleOf_roleIn split: if_splits)
qed

section \<open>Who may change a project\<close>

definition mayAct :: "authPrincipal option \<Rightarrow> 'v projectDB \<Rightarrow> string \<Rightarrow> role \<Rightarrow> bool" where
  "mayAct ctx db pid m \<longleftrightarrow>
     map_option (\<lambda>r. tenantOrDefault (pw_TenantID r)) (projectRowOf pid db) = Some (principalTenant (authzPrincipal ctx)) \<and>
     (pr_IsAdmin (authzPrincipal ctx) \<or> m \<le> roleIn db pid (pr_User (authzPrincipal ctx)))"

lemma mayAct_mono: "mayAct ctx db pid m \<Longrightarrow> m' \<le> m \<Longrightarrow> mayAct ctx db pid m'"
  by (auto simp: mayAct_def)

lemma ofProject_projectResource [simp]: "ofProject (projectResource p) = pj_ID p"
  by (simp add: ofProject_def projectResource_def)

lemma allowed_mayAct:
  assumes p: "getProject up1 pid db = Some (Some p)" and "pid \<noteq> []"
    and c: "canDo up2 db ctx a (projectResource p) = None" and a: "projectActionRole a = Some m"
  shows "mayAct ctx db pid m"
proof -
  note f = getProject_fields [OF p]
  have "principalTenant (authzPrincipal ctx) = tenantOrDefault (pj_TenantID p)"
    using projects.same_tenant [OF c] by (simp add: resTenant_def projectResource_def tenantOrDefault_def)
  with f(4) have "map_option (\<lambda>r. tenantOrDefault (pw_TenantID r)) (projectRowOf pid db) = Some (principalTenant (authzPrincipal ctx))"
    by auto
  then show ?thesis
    using projects.project_role [OF c a] assms(2) by (simp add: mayAct_def f(1))
qed

lemma loadFor_Inr:
  assumes "loadFor up db ctx pid a = Inr p"
  shows "getProject (up 0) pid db = Some (Some p)" "pid \<noteq> []" "canDo (up 1) db ctx a (projectResource p) = None"
  using assms by (auto simp: loadFor_def projectForAction_def split: if_splits option.splits)

lemma loadFor_mayAct:
  assumes "loadFor up db ctx pid a = Inr p" and "projectActionRole a = Some m"
  shows "mayAct ctx db pid m"
  by (rule allowed_mayAct [OF loadFor_Inr(1) [OF assms(1)] loadFor_Inr(2) [OF assms(1)] loadFor_Inr(3) [OF assms(1)] assms(2)])

text \<open>One call of a tool that may write, by one caller.\<close>

inductive projectStep :: "('d, 'n, 'v) gjson_api \<Rightarrow> authPrincipal option \<Rightarrow> 'v projectDB \<Rightarrow> 'v projectDB \<Rightarrow> bool"
  for api ctx db where
  create: "handleCreateProject up now nid name plugin port ctx db = (rep, db') \<Longrightarrow> projectStep api ctx db db'"
| update: "handleUpdateProject ups now pid args ctx db = (rep, db') \<Longrightarrow> projectStep api ctx db db'"
| delete: "handleDeleteProject ups pid ctx db = (rep, db') \<Longrightarrow> projectStep api ctx db db'"
| add_member: "handleAddProjectMember ups now known pid user rl ctx db = (rep, db') \<Longrightarrow> projectStep api ctx db db'"
| remove_member: "handleRemoveProjectMember ups pid user ctx db = (rep, db') \<Longrightarrow> projectStep api ctx db db'"
| set_plugins: "handleSetProjectPlugins readPlugins ups now pid list ctx db = (rep, db') \<Longrightarrow> projectStep api ctx db db'"
| add_plugin: "handleAddProjectPlugin owns ups now pid name ctx db = (rep, db') \<Longrightarrow> projectStep api ctx db db'"
| remove_plugin: "handleRemoveProjectPlugin ups now pid eid ctx db = (rep, db') \<Longrightarrow> projectStep api ctx db db'"
| set_rules: "handleSetProjectRules api message readRules ups now pid list ctx db = (rep, db') \<Longrightarrow> projectStep api ctx db db'"
| transfer: "handleTransferProjectOwner ups now pid new ctx db = (rep, db') \<Longrightarrow> projectStep api ctx db db'"

text \<open>
  What one call may do to the roles. Outside the project it names it does nothing; there it
  changes roles only with the rights of an administrator, the owner only with those of an owner.
\<close>

definition rolesOnly :: "authPrincipal option \<Rightarrow> 'v projectDB \<Rightarrow> 'v projectDB \<Rightarrow> bool" where
  "rolesOnly ctx db db' \<longleftrightarrow>
     (\<forall>pid u.
        (ownerCols pid db' = ownerCols pid db \<and> memberRowOf pid u db' = memberRowOf pid u db) \<or>
        (projectRowOf pid db = None \<and> memberRowOf pid u db' = memberRowOf pid u db \<and>
           ownerCols pid db' = Some (pr_User (authzPrincipal ctx), pr_User (authzPrincipal ctx))) \<or>
        (ownerCols pid db' = ownerCols pid db \<and> mayAct ctx db pid RoleAdmin) \<or>
        mayAct ctx db pid RoleOwner) \<and>
     (projects_ok db \<longrightarrow> projects_ok db')"

lemma rolesOnly_refl [simp]: "rolesOnly ctx db db"
  by (simp add: rolesOnly_def)

lemma rolesOnly_keeps:
  "(\<And>pid u. ownerCols pid db' = ownerCols pid db \<and> memberRowOf pid u db' = memberRowOf pid u db) \<Longrightarrow>
   (projects_ok db \<Longrightarrow> projects_ok db') \<Longrightarrow> rolesOnly ctx db db'"
  by (simp add: rolesOnly_def)

lemma rolesOnly_admin:
  "mayAct ctx db q RoleAdmin \<Longrightarrow> (\<And>pid. ownerCols pid db' = ownerCols pid db) \<Longrightarrow>
   (\<And>pid u. pid \<noteq> q \<Longrightarrow> memberRowOf pid u db' = memberRowOf pid u db) \<Longrightarrow> (projects_ok db \<Longrightarrow> projects_ok db') \<Longrightarrow> rolesOnly ctx db db'"
  unfolding rolesOnly_def by metis

lemma rolesOnly_owner:
  "mayAct ctx db q RoleOwner \<Longrightarrow> (\<And>pid. pid \<noteq> q \<Longrightarrow> ownerCols pid db' = ownerCols pid db) \<Longrightarrow>
   (\<And>pid u. pid \<noteq> q \<Longrightarrow> memberRowOf pid u db' = memberRowOf pid u db) \<Longrightarrow> (projects_ok db \<Longrightarrow> projects_ok db') \<Longrightarrow> rolesOnly ctx db db'"
  unfolding rolesOnly_def by metis

lemma storeProject_roles:
  assumes s: "storeProject up now p db = (rep, db')" and p: "getProject up0 q db = Some (Some p0)"
    and same: "pj_ID p = q" "pj_Owner p = pj_Owner p0" "pj_CreatedBy p = pj_CreatedBy p0" and may: "mayAct ctx db q RoleAdmin"
  shows "rolesOnly ctx db db'"
proof (cases "updateProject up now (p\<lparr>pj_UpdatedAt := rfc3339 now\<rparr>) db")
  case None
  with s show ?thesis
    by (simp add: storeProject_def)
next
  case (Some pr)
  then obtain p' where u: "updateProject up now (p\<lparr>pj_UpdatedAt := rfc3339 now\<rparr>) db = Some (p', db')"
    using s by (cases pr) (simp add: storeProject_def)
  note f = getProject_fields [OF p]
  have cols: "ownerCols pid db' = ownerCols pid db" for pid
  proof (cases "pid = q")
    case True
    then show ?thesis
      using updateProject_rows [OF u, of q] updateProject_Some(1) [OF u] f(2) same
      by (cases "projectRowOf q db") (auto simp: ownerCols_def)
  next
    case False
    then show ?thesis
      using updateProject_other(1) [OF u, of pid] same(1) by simp
  qed
  show ?thesis
  proof (rule rolesOnly_admin [OF may cols])
    show "memberRowOf pid v db' = memberRowOf pid v db" if "pid \<noteq> q" for pid v
      using updateProject_other(2) [OF u, of pid] same(1) that by simp
    show "projects_ok db'" if "projects_ok db"
      using updateProject_ok [OF u that] f(3) same(1) by simp
  qed
qed

lemma loaded_store_roles:
  assumes "loadFor up db ctx q a = Inr p0" and "projectActionRole a = Some m" and "RoleAdmin \<le> m"
    and "storeProject (up 2) now p db = (rep, db')"
    and "pj_ID p = pj_ID p0" "pj_Owner p = pj_Owner p0" "pj_CreatedBy p = pj_CreatedBy p0"
  shows "rolesOnly ctx db db'"
proof (rule storeProject_roles [OF assms(4) loadFor_Inr(1) [OF assms(1)]])
  show "pj_ID p = q"
    using getProject_fields(1) [OF loadFor_Inr(1) [OF assms(1)]] assms(5) by simp
  show "mayAct ctx db q RoleAdmin"
    using mayAct_mono [OF loadFor_mayAct [OF assms(1,2)] assms(3)] .
qed (use assms in auto)

lemma reload_db: "reload up pid k db = (rep, db') \<Longrightarrow> db' = db"
  by (auto simp: reload_def split: option.splits)

lemma update_roles: "handleUpdateProject up now pid args ctx db = (rep, db') \<Longrightarrow> rolesOnly ctx db db'"
  unfolding handleUpdateProject_def
  by (auto simp: applyUpdate_def projectActionRole_def less_eq_role_def roleLevel_def
      split: sum.splits elim!: loaded_store_roles [where a = ProjectUpdate and m = RoleOwner])

lemma set_plugins_roles: "handleSetProjectPlugins rd up now pid list ctx db = (rep, db') \<Longrightarrow> rolesOnly ctx db db'"
  unfolding handleSetProjectPlugins_def Let_def
  by (auto simp: projectActionRole_def split: if_splits sum.splits
      elim!: loaded_store_roles [where a = ProjectManagePlugins and m = RoleAdmin])

lemma set_rules_roles: "handleSetProjectRules api message rd up now pid list ctx db = (rep, db') \<Longrightarrow> rolesOnly ctx db db'"
  unfolding handleSetProjectRules_def Let_def
  by (auto simp: projectActionRole_def split: if_splits sum.splits
      elim!: loaded_store_roles [where a = ProjectManageRules and m = RoleAdmin])

lemma create_roles: "handleCreateProject up now nid name plugin port ctx db = (rep, db') \<Longrightarrow> rolesOnly ctx db db'"
proof (unfold handleCreateProject_def Let_def, auto split: if_splits option.splits)
  fix p
  assume c: "createProject up now
     \<lparr>pj_ID = nid, pj_Name = trimSpace name, pj_Description = [], pj_Game = [], pj_CreatedBy = pr_User (authzPrincipal ctx),
      pj_Owner = [], pj_TenantID = [], pj_DefaultPlugin = trimSpace plugin, pj_DefaultPort = port, pj_Members = [], pj_Plugins = [],
      pj_Rules = [], pj_CreatedAt = rfc3339 now, pj_UpdatedAt = rfc3339 now\<rparr> db = Some (p, db')"
  note s = createProject_Some [OF c, simplified]
  show "rolesOnly ctx db db'"
    unfolding rolesOnly_def using s by metis
qed

lemma delete_roles: "handleDeleteProject up pid ctx db = (rep, db') \<Longrightarrow> rolesOnly ctx db db'"
proof (unfold handleDeleteProject_def, auto split: sum.splits option.splits)
  fix p found
  assume l: "loadFor up db ctx (trimSpace pid) ProjectDelete = Inr p" and d: "deleteProject (up 2) (pj_ID p) db = Some (found, db')"
  have "pj_ID p = trimSpace pid"
    by (rule getProject_fields(1) [OF loadFor_Inr(1) [OF l]])
  moreover have "mayAct ctx db (trimSpace pid) RoleOwner"
    by (rule loadFor_mayAct [OF l]) (simp add: projectActionRole_def)
  ultimately show "rolesOnly ctx db db'"
    using deleteProject_Some [OF d] by (intro rolesOnly_owner) auto
qed

lemma add_member_roles: "handleAddProjectMember up now known pid user rl ctx db = (rep, db') \<Longrightarrow> rolesOnly ctx db db'"
proof (unfold handleAddProjectMember_def Let_def, auto split: if_splits sum.splits option.splits)
  fix p db1
  assume l: "loadFor up db ctx (trimSpace pid) ProjectManageMembers = Inr p"
    and a: "addMember (up 2) now (trimSpace pid) \<lparr>mb_User = trimSpace user, mb_Role = trimSpace rl, mb_Registered = False\<rparr> db = Some db1"
    and r: "reload (up 3) (trimSpace pid) (\<lambda>p. MemberAdded p (\<not> known (trimSpace user))) db1 = (rep, db')"
  have "mayAct ctx db (trimSpace pid) RoleAdmin"
    by (rule loadFor_mayAct [OF l]) (simp add: projectActionRole_def)
  then show "rolesOnly ctx db db'"
    using addMember_Some [OF a] getProject_fields(3) [OF loadFor_Inr(1) [OF l]] reload_db [OF r]
    by (intro rolesOnly_admin) auto
qed

lemma remove_member_roles: "handleRemoveProjectMember up pid user ctx db = (rep, db') \<Longrightarrow> rolesOnly ctx db db'"
proof (unfold handleRemoveProjectMember_def Let_def, auto split: if_splits sum.splits option.splits)
  fix p found db1
  assume l: "loadFor up db ctx (trimSpace pid) ProjectManageMembers = Inr p"
  have may: "mayAct ctx db (trimSpace pid) RoleAdmin"
    by (rule loadFor_mayAct [OF l]) (simp add: projectActionRole_def)
  {
    assume a: "removeMember (up 2) (trimSpace pid) (trimSpace user) db = Some (False, db')"
    show "rolesOnly ctx db db'"
      using may removeMember_Some [OF a] by (intro rolesOnly_admin) auto
  next
    assume a: "removeMember (up 2) (trimSpace pid) (trimSpace user) db = Some (True, db1)"
      and r: "reload (up 3) (trimSpace pid) Reloaded db1 = (rep, db')"
    show "rolesOnly ctx db db'"
      using may removeMember_Some [OF a] reload_db [OF r] by (intro rolesOnly_admin) auto
  }
qed

lemma add_plugin_roles: "handleAddProjectPlugin owns up now pid name ctx db = (rep, db') \<Longrightarrow> rolesOnly ctx db db'"
proof -
  assume h: "handleAddProjectPlugin owns up now pid name ctx db = (rep, db')"
  then consider "db' = db"
    | added db1 where "addPluginEntry (up 3) now (trimSpace pid)
         \<lparr>pp_ID = trimSpace name, pp_Name = trimSpace name, pp_Owner = pr_User (authzPrincipal ctx)\<rparr> db = Some (added, db1)" "db' = db1"
    by (auto simp: handleAddProjectPlugin_def Let_def split: if_splits option.splits dest!: reload_db)
  then show ?thesis
  proof cases
    case 2
    then show ?thesis
      using addPluginEntry_Some [OF 2(1)] by (auto intro!: rolesOnly_keeps)
  qed simp
qed

lemma remove_plugin_roles: "handleRemoveProjectPlugin up now pid eid ctx db = (rep, db') \<Longrightarrow> rolesOnly ctx db db'"
proof -
  assume h: "handleRemoveProjectPlugin up now pid eid ctx db = (rep, db')"
  then consider "db' = db"
    | found db1 where "removePluginEntry (up 3) now (trimSpace pid) (trimSpace eid) db = Some (found, db1)" "db' = db1"
    by (auto simp: handleRemoveProjectPlugin_def Let_def split: if_splits option.splits dest!: reload_db)
  then show ?thesis
  proof cases
    case 2
    then show ?thesis
      using removePluginEntry_Some [OF 2(1)] by (auto intro!: rolesOnly_keeps)
  qed simp
qed

lemma adjustMembers_keeps:
  shows "ownerCols q (adjustMembers up1 up2 now pid old new db) = ownerCols q db"
    and "q \<noteq> pid \<Longrightarrow> memberRowOf q u (adjustMembers up1 up2 now pid old new db) = memberRowOf q u db"
    and "projects_ok db \<Longrightarrow> projectRowOf pid db \<noteq> None \<Longrightarrow> projects_ok (adjustMembers up1 up2 now pid old new db)"
  by (auto simp: adjustMembers_def Let_def addMember_Some removeMember_Some dest: addMember_Some(4) removeMember_Some(4) split: option.splits)

lemma transfer_roles: "handleTransferProjectOwner up now pid new ctx db = (rep, db') \<Longrightarrow> rolesOnly ctx db db'"
proof -
  assume h: "handleTransferProjectOwner up now pid new ctx db = (rep, db')"
  then consider "db' = db"
    | p ok db1 where "loadFor up db ctx (trimSpace pid) ProjectTransferOwner = Inr p"
        "transferOwner (up 3) now (trimSpace pid) (pj_Owner p) (trimSpace new) db = Some (ok, db1)"
        "db' = db1 \<or> db' = adjustMembers (up 4) (up 5) now (trimSpace pid) (pj_Owner p) (trimSpace new) db1"
    by (auto simp: handleTransferProjectOwner_def Let_def split: if_splits option.splits sum.splits dest!: reload_db)
  then show ?thesis
  proof cases
    case 2
    note t = transferOwner_Some [OF 2(2)]
    have row: "projectRowOf (trimSpace pid) db1 \<noteq> None"
      using getProject_fields(3) [OF loadFor_Inr(1) [OF 2(1)]] by (simp add: t(5))
    have "mayAct ctx db (trimSpace pid) RoleOwner"
      by (rule loadFor_mayAct [OF 2(1)]) (simp add: projectActionRole_def)
    then show ?thesis
    proof (rule rolesOnly_owner)
      show "ownerCols q db' = ownerCols q db" if "q \<noteq> trimSpace pid" for q
        using 2(3) t(1) [OF that] by (auto simp: adjustMembers_keeps)
      show "memberRowOf q u db' = memberRowOf q u db" if "q \<noteq> trimSpace pid" for q u
        using 2(3) t(2) that by (auto simp: adjustMembers_keeps)
      show "projects_ok db'" if "projects_ok db"
        using 2(3) t(4) [OF that] row by (auto simp: adjustMembers_keeps)
    qed
  qed simp
qed

lemmas tool_roles = create_roles update_roles delete_roles add_member_roles remove_member_roles set_plugins_roles
  add_plugin_roles remove_plugin_roles set_rules_roles transfer_roles

lemma step_rolesOnly: "projectStep api ctx db db' \<Longrightarrow> rolesOnly ctx db db'"
  by (induction rule: projectStep.induct) (blast dest: tool_roles)+

section \<open>Properties\<close>


text \<open>
  (C39) A removed member comes back: when an administrator removes a member who is in the backup
  column, the role is gone at once, but the user still finds the project in the list of visible
  projects, and the next start of the server gives the role of the backup back.
\<close>

theorem removed_member_returns:
  assumes ok: "projects_ok db" and rem: "handleRemoveProjectMember up pid user ctx db = (Reloaded q, db1)"
    and r: "projectRowOf (trimSpace pid) db = Some r" "pw_Owner r \<noteq> []" and b: "backupOf r (trimSpace user) = Some m"
    and l: "listVisible True (trimSpace user) False db1 = Some ps" and i: "initProjects True n db1 = (True, db2)"
  shows "roleIn db1 (trimSpace pid) (trimSpace user) = RoleNone \<and>
    trimSpace pid \<in> pj_ID ` set ps \<and>
    roleIn db2 (trimSpace pid) (trimSpace user) = (if mb_Role m = roleAdminName then RoleAdmin else RoleMember)"
proof -
  let ?p = "trimSpace pid" and ?u = "trimSpace user"
  obtain p where p: "loadFor up db ctx ?p ProjectManageMembers = Inr p" "pj_Owner p \<noteq> ?u" "?u \<noteq> []"
      and rm: "removeMember (up 2) ?p ?u db = Some (True, db1)"
    using rem by (auto simp: handleRemoveProjectMember_def Let_def split: if_splits sum.splits option.splits dest!: reload_db)
  note s = removeMember_Some [OF rm]
  have row: "projectRowOf ?p db1 = Some r"
    using r(1) s(3) by (simp add: projectRowOf_def)
  have own: "pw_Owner r \<noteq> ?u"
    using getProject_fields(2) [OF loadFor_Inr(1) [OF p(1)]] p(2) r(1) by (simp add: ownerCols_def)
  have gone: "memberRowOf ?p ?u db1 = None"
    by (simp add: s(2))
  have "roleIn db1 ?p ?u = RoleNone"
    using row own r(2) gone by (simp add: roleIn_eq ownerCols_def ownedBy_def)
  moreover have "?p \<in> pj_ID ` set ps"
    by (rule listVisible_member [OF row l]) (use b in \<open>auto simp: visibleToUser_def scanProject_def backupOf_def list_ex_iff find_Some_iff\<close>)
  moreover have "roleIn db2 ?p ?u = (if mb_Role m = roleAdminName then RoleAdmin else RoleMember)"
    using role_after_init [OF s(4) [OF ok] p(3) row r(2) own gone i] by (simp add: b)
  ultimately show ?thesis
    by blast
qed

text \<open>
  A tool that loads a project and writes it back writes the owner it has loaded: a transfer of the
  project in between is undone, although the transfer itself compares the owner.
\<close>

theorem stale_write_restores_owner:
  assumes "loadFor up db ctx pid a = Inr p" and "projectRowOf pid db1 \<noteq> None" and "storeProject up2 now (p\<lparr>pj_Rules := rules\<rparr>) db1 = (Done q, db2)"
  shows "ownerCols pid db2 = ownerCols pid db"
proof -
  note f = getProject_fields [OF loadFor_Inr(1) [OF assms(1)]]
  obtain p' where u: "updateProject up2 now (p\<lparr>pj_Rules := rules, pj_UpdatedAt := rfc3339 now\<rparr>) db1 = Some (p', db2)"
    using assms(3) by (auto simp: storeProject_def split: option.splits)
  show ?thesis
    using updateProject_rows [OF u, of pid] updateProject_Some(1) [OF u] f assms(2) by (auto simp: ownerCols_def)
qed

text \<open>
  The entries of \<open>set_project_plugins\<close> may name any owner: the administrator of a project, and so
  whoever creates one, makes every user a source of plugins.
\<close>

theorem plugin_owner_claimed:
  assumes ok: "projects_ok db" and set: "handleSetProjectPlugins rd up now pid list ctx db = (Done q, db')"
    and l: "rd (trimSpace list) = Some es" and e: "e \<in> set es" "pp_Owner e = victim" "victim \<noteq> []" "victim \<noteq> me"
    and me: "me = pr_User (authzPrincipal ctx)" "me \<noteq> []" "ownerCols (trimSpace pid) db = Some (me, creator)"
  shows "victim \<in> set (pluginOwnersFor True db' me)"
proof -
  let ?pid = "trimSpace pid"
  obtain p where p: "loadFor up db ctx ?pid ProjectManagePlugins = Inr p"
      and s: "storeProject (up 2) now (p\<lparr>pj_Plugins := claimEntries me es\<rparr>) db = (Done q, db')"
    using set l me by (auto simp: handleSetProjectPlugins_def parseAssociatedEntries_def Let_def split: if_splits sum.splits)
  note f = getProject_fields [OF loadFor_Inr(1) [OF p]]
  obtain p' where u: "updateProject (up 2) now (p\<lparr>pj_Plugins := claimEntries me es, pj_UpdatedAt := rfc3339 now\<rparr>) db = Some (p', db')"
    using s by (auto simp: storeProject_def split: option.splits)
  obtain r where r: "projectRowOf ?pid db = Some r"
    using f(3) by blast
  have row: "projectRowOf ?pid db' = Some (overwriteProject p' r)"
    using updateProject_rows [OF u, of ?pid] r by (simp add: f(1))
  have vis: "visibleToUser (scanProject (overwriteProject p' r)) me"
    using f(2) me updateProject_Some(1) [OF u] by (simp add: visibleToUser_def scanProject_def)
  have "e \<in> set (claimEntries me es)"
    using e by (auto simp: claimEntries_def image_iff intro!: bexI [of _ e])
  then have pl: "e \<in> set (pj_Plugins (scanProject (overwriteProject p' r)))"
    using updateProject_Some(1) [OF u] by (simp add: scanProject_def unmarshalSlice_def)
  obtain ps where ps: "listVisible True me False db' = Some ps"
    by (simp add: listVisible_def)
  have "overwriteProject p' r \<in> set (pd_projects db')"
    using projectRowOf_ID [OF row] by blast
  then have "e \<in> set (concat (map pj_Plugins ps))"
    using ps vis pl by (auto simp: listVisible_def)
  then show ?thesis
    using e me(2) ps by (force simp: pluginOwnersFor_def)
qed

text \<open>\<open>update_project\<close> reads the new port from an argument that the tool does not have.\<close>

theorem update_port_lost:
  assumes "handleUpdateProject up now pid args ctx db = (Done q, db')" and "ua_default_port args = Some n" and "ua_port args = None"
  shows "pj_DefaultPort q = 0"
proof -
  obtain p where "storeProject (up 2) now (applyUpdate args p) db = (Done q, db')"
    using assms(1) by (auto simp: handleUpdateProject_def split: sum.splits)
  then obtain p' where "updateProject (up 2) now (applyUpdate args p\<lparr>pj_UpdatedAt := rfc3339 now\<rparr>) db = Some (p', db')" "q = p'"
    by (auto simp: storeProject_def split: option.splits)
  then show ?thesis
    using updateProject_Some(1) assms(2,3) by (fastforce simp: applyUpdate_def handleProjectArgPort_def)
qed

section \<open>Witnesses\<close>

definition asUser :: "string \<Rightarrow> authPrincipal option" where
  "asUser u = Some (userPrincipal u False)"

definition teamRow :: "vval projectRow" where
  "teamRow =
     \<lparr>pw_ID = ''p'', pw_Name = ''Team'', pw_Description = [], pw_Game = [], pw_CreatedBy = ''ann'', pw_Owner = ''ann'', pw_TenantID = ''default'',
      pw_DefaultPlugin = [], pw_DefaultPort = 0, pw_Members = Some [\<lparr>mb_User = ''bob'', mb_Role = ''admin'', mb_Registered = False\<rparr>],
      pw_Plugins = Some [], pw_Rules = Some [], pw_CreatedAt = 0, pw_UpdatedAt = 0\<rparr>"

definition teamDB :: "vval projectDB" where
  "teamDB =
     \<lparr>pd_projects = [teamRow],
      pd_members = [\<lparr>mr_Project = ''p'', mr_User = ''bob'', mr_Role = ''admin'', mr_CreatedAt = 0\<rparr>,
                    \<lparr>mr_Project = ''p'', mr_User = ''cid'', mr_Role = ''member'', mr_CreatedAt = 0\<rparr>]\<rparr>"

definition withoutBob :: "vval projectDB" where
  "withoutBob = snd (handleRemoveProjectMember (\<lambda>_. True) ''p'' ''bob'' (asUser ''ann'') teamDB)"


theorem removed_member_returns_witness:
  "roleIn withoutBob ''p'' ''bob'' = RoleNone \<and>
   ''p'' \<in> pj_ID ` set (the (listVisible True ''bob'' False withoutBob)) \<and>
   roleIn (snd (initProjects True 1 withoutBob)) ''p'' ''bob'' = RoleAdmin"
proof -
  have t: "trimSpace ''p'' = ''p''" "trimSpace ''bob'' = ''bob''"
    by code_simp+
  have "\<exists>q. handleRemoveProjectMember (\<lambda>_. True) ''p'' ''bob'' (asUser ''ann'') teamDB = (Reloaded q, withoutBob)"
  proof -
    have "(case fst (handleRemoveProjectMember (\<lambda>_. True) ''p'' ''bob'' (asUser ''ann'') teamDB) of Reloaded q \<Rightarrow> True | _ \<Rightarrow> False)"
      by code_simp
    then show ?thesis
      unfolding withoutBob_def by (cases "handleRemoveProjectMember (\<lambda>_. True) ''p'' ''bob'' (asUser ''ann'') teamDB") (auto split: projectReply.splits)
  qed
  then obtain q where q: "handleRemoveProjectMember (\<lambda>_. True) ''p'' ''bob'' (asUser ''ann'') teamDB = (Reloaded q, withoutBob)" ..
  have ok: "projects_ok teamDB" and r: "projectRowOf (trimSpace ''p'') teamDB = Some teamRow" "pw_Owner teamRow \<noteq> []"
    and b: "backupOf teamRow (trimSpace ''bob'') = Some \<lparr>mb_User = ''bob'', mb_Role = ''admin'', mb_Registered = False\<rparr>"
    by code_simp+
  have l: "listVisible True (trimSpace ''bob'') False withoutBob = Some (the (listVisible True ''bob'' False withoutBob))"
    by (simp add: t listVisible_def)
  have "fst (initProjects True 1 withoutBob)"
    by code_simp
  then have i: "initProjects True 1 withoutBob = (True, snd (initProjects True 1 withoutBob))"
    by (metis (full_types) prod.collapse)
  show ?thesis
    using removed_member_returns [OF ok q r b l i] by (simp add: t roleAdminName_def)
qed

end
