(* ===== verification/Session_Store.thy ===== *)
theory Session_Store
  imports Probe_Store
begin

text \<open>
  \<open>pkg/store/session_store.go\<close> and \<open>pkg/store/pg_control_store.go\<close>: the table \<open>sessions\<close> of the
  control database. \<open>up\<close> says whether the database serves the statement. Durations are only copied and
  compared with zero, they are integers here; \<open>Extra\<close> is an association list, \<open>None\<close> when the Go map is nil.
\<close>

section \<open>Data (pkg/store/eventstore.go)\<close>

record sessionMeta =
  se_Owner :: string
  se_TenantID :: string
  se_ProjectID :: string
  se_SessionID :: string
  se_StartedAt :: time
  se_StoppedAt :: "time option"
  se_Status :: string
  se_Port :: int
  se_Plugin :: string
  se_Interface :: string
  se_PCAPFile :: string
  se_RawPackets :: int
  se_Events :: int
  se_Metrics :: int
  se_DecodeErrors :: int
  se_DurationSec :: int
  se_DBPath :: string
  se_Extra :: "(string \<times> string) list option"
  se_ManifestSnapshot :: string

record sessionFinish =
  fi_StoppedAt :: time
  fi_Status :: string
  fi_Port :: int
  fi_Plugin :: string
  fi_PCAPFile :: string
  fi_DBPath :: string
  fi_RawPackets :: int
  fi_Events :: int
  fi_Metrics :: int
  fi_DecodeErrors :: int
  fi_DurationSec :: int

record sessionOwnerFilter =
  of_Owner :: string
  of_AllOwners :: bool
  of_ProjectIDs :: "string list"

definition sessionMatches :: "sessionOwnerFilter \<Rightarrow> sessionMeta \<Rightarrow> bool" where
  "sessionMatches f s \<longleftrightarrow>
     of_AllOwners f \<or> se_Owner s = of_Owner f \<or> (se_ProjectID s \<noteq> [] \<and> se_ProjectID s \<in> set (of_ProjectIDs f))"

definition everyOwner :: sessionOwnerFilter where
  "everyOwner = \<lparr>of_Owner = [], of_AllOwners = True, of_ProjectIDs = []\<rparr>"

section \<open>Operations\<close>

definition sessionRow :: "sessionMeta \<Rightarrow> sessionMeta" where
  "sessionRow s =
     s\<lparr>se_TenantID := normalizeTenant (se_TenantID s), se_Extra := (if se_Extra s = Some [] then None else se_Extra s)\<rparr>"

definition createSession :: "bool \<Rightarrow> sessionMeta \<Rightarrow> sessionMeta list \<Rightarrow> sessionMeta list option" where
  "createSession up s tbl =
     (if up \<and> se_SessionID s \<notin> se_SessionID ` set tbl then Some (tbl @ [sessionRow s]) else None)"

definition getSessionFor :: "bool \<Rightarrow> string \<Rightarrow> sessionOwnerFilter \<Rightarrow> sessionMeta list \<Rightarrow> sessionMeta option" where
  "getSessionFor up sid f tbl =
     (if \<not> up then None
      else case find (\<lambda>s. se_SessionID s = sid) tbl of
        None \<Rightarrow> None
      | Some s \<Rightarrow> if sessionMatches f s then Some s else None)"

definition getSession :: "bool \<Rightarrow> string \<Rightarrow> sessionMeta list \<Rightarrow> sessionMeta option" where
  "getSession up sid tbl = getSessionFor up sid everyOwner tbl"

text \<open>The condition of the query: in SQLite one \<open>IN\<close>, in PostgreSQL one \<open>OR\<close> per project.\<close>

definition sqliteVisible :: "sessionOwnerFilter \<Rightarrow> sessionMeta \<Rightarrow> bool" where
  "sqliteVisible f s \<longleftrightarrow>
     of_AllOwners f \<or> se_Owner s = of_Owner f \<or> (of_ProjectIDs f \<noteq> [] \<and> se_ProjectID s \<in> set (of_ProjectIDs f))"

definition pgVisible :: "sessionOwnerFilter \<Rightarrow> sessionMeta \<Rightarrow> bool" where
  "pgVisible f s \<longleftrightarrow> of_AllOwners f \<or> foldl (\<lambda>c p. c \<or> se_ProjectID s = p) (se_Owner s = of_Owner f) (of_ProjectIDs f)"

definition newestFirst :: "sessionMeta list \<Rightarrow> sessionMeta list" where
  "newestFirst = sort_key (\<lambda>s. - se_StartedAt s)"

definition listSessionsFor :: "bool \<Rightarrow> sessionOwnerFilter \<Rightarrow> sessionMeta list \<Rightarrow> sessionMeta list option" where
  "listSessionsFor up f tbl = (if up then Some (newestFirst (filter (sqliteVisible f) tbl)) else None)"

definition pgListSessionsFor :: "bool \<Rightarrow> sessionOwnerFilter \<Rightarrow> sessionMeta list \<Rightarrow> sessionMeta list option" where
  "pgListSessionsFor up f tbl = (if up then Some (newestFirst (filter (pgVisible f) tbl)) else None)"

definition listSessions :: "bool \<Rightarrow> sessionMeta list \<Rightarrow> sessionMeta list option" where
  "listSessions up tbl = listSessionsFor up everyOwner tbl"

definition listSessionsForProject :: "bool \<Rightarrow> string \<Rightarrow> sessionMeta list \<Rightarrow> sessionMeta list option" where
  "listSessionsForProject up pid tbl = (if up then Some (newestFirst (filter (\<lambda>s. se_ProjectID s = pid) tbl)) else None)"

definition updateSessions :: "(sessionMeta \<Rightarrow> bool) \<Rightarrow> (sessionMeta \<Rightarrow> sessionMeta) \<Rightarrow> sessionMeta list \<Rightarrow> nat \<times> sessionMeta list" where
  "updateSessions P f tbl = (length (filter P tbl), map (\<lambda>s. if P s then f s else s) tbl)"

definition finishRow :: "sessionFinish \<Rightarrow> sessionMeta \<Rightarrow> sessionMeta" where
  "finishRow fin s =
     s\<lparr>se_StoppedAt := Some (fi_StoppedAt fin), se_Status := fi_Status fin, se_Port := fi_Port fin, se_Plugin := fi_Plugin fin,
       se_PCAPFile := fi_PCAPFile fin, se_RawPackets := fi_RawPackets fin, se_Events := fi_Events fin, se_Metrics := fi_Metrics fin,
       se_DecodeErrors := fi_DecodeErrors fin, se_DurationSec := fi_DurationSec fin, se_DBPath := fi_DBPath fin\<rparr>"

text \<open>The first component says whether the call returns without an error.\<close>

definition finishSession :: "bool \<Rightarrow> string \<Rightarrow> sessionFinish \<Rightarrow> sessionMeta list \<Rightarrow> bool \<times> sessionMeta list" where
  "finishSession up sid fin tbl =
     (if \<not> up then (False, tbl)
      else case updateSessions (\<lambda>s. se_SessionID s = sid) (finishRow fin) tbl of (n, tbl') \<Rightarrow> (n \<noteq> 0, tbl'))"

definition deleteSessionRow :: "bool \<Rightarrow> string \<Rightarrow> sessionMeta list \<Rightarrow> bool \<times> sessionMeta list" where
  "deleteSessionRow up sid tbl = (if up then (True, filter (\<lambda>s. se_SessionID s \<noteq> sid) tbl) else (False, tbl))"

definition reconcileRunningSessions :: "bool \<Rightarrow> time \<Rightarrow> sessionMeta list \<Rightarrow> nat option \<times> sessionMeta list" where
  "reconcileRunningSessions up stoppedAt tbl =
     (if \<not> up then (None, tbl)
      else case updateSessions (\<lambda>s. se_Status s = ''running'') (\<lambda>s. s\<lparr>se_Status := ''stopped'', se_StoppedAt := Some stoppedAt\<rparr>) tbl of
        (n, tbl') \<Rightarrow> (Some n, tbl'))"

definition moveSessionRow :: "bool \<Rightarrow> string \<Rightarrow> string \<Rightarrow> string \<Rightarrow> sessionMeta list \<Rightarrow> bool \<times> sessionMeta list" where
  "moveSessionRow up sid pid expectTenant tbl =
     (if \<not> up then (False, tbl)
      else case updateSessions (\<lambda>s. se_SessionID s = sid \<and> se_TenantID s = expectTenant) (\<lambda>s. s\<lparr>se_ProjectID := pid\<rparr>) tbl of
        (n, tbl') \<Rightarrow> (n \<noteq> 0, tbl'))"

section \<open>The contract of the two stores\<close>

text \<open>A list of sessions under a filter is what single queries under that filter find.\<close>

locale session_lists =
  fixes visible :: "sessionOwnerFilter \<Rightarrow> sessionMeta \<Rightarrow> bool"
  assumes visible_matches: "[] \<notin> set (of_ProjectIDs f) \<Longrightarrow> visible f s \<longleftrightarrow> sessionMatches f s"
begin

lemma listed_iff_found:
  assumes "distinct (map se_SessionID tbl)" and "[] \<notin> set (of_ProjectIDs f)"
  shows "s \<in> set (newestFirst (filter (visible f) tbl)) \<longleftrightarrow> getSessionFor True (se_SessionID s) f tbl = Some s"
proof -
  have "find (\<lambda>x. se_SessionID x = se_SessionID s) tbl = Some s \<longleftrightarrow> s \<in> set tbl"
    using assms(1)
  proof (induction tbl)
    case (Cons x tbl)
    then show ?case
      by (auto simp: image_iff)
  qed simp
  moreover have "find (\<lambda>x. se_SessionID x = se_SessionID s) tbl = Some y \<Longrightarrow> s \<in> set tbl \<Longrightarrow> y = s" for y
    using assms(1) find_SomeD [of "\<lambda>x. se_SessionID x = se_SessionID s" tbl y] by (auto simp: distinct_map inj_on_def)
  ultimately show ?thesis
    by (auto simp: newestFirst_def getSessionFor_def visible_matches [OF assms(2)] split: option.splits if_splits)
qed

end

lemma fold_or: "foldl (\<lambda>c p. c \<or> x = p) b ps \<longleftrightarrow> b \<or> x \<in> set ps"
  by (induction ps arbitrary: b) auto

interpretation sqlite_sessions: session_lists sqliteVisible
  by unfold_locales (auto simp: sqliteVisible_def sessionMatches_def)

interpretation pg_sessions: session_lists pgVisible
  by unfold_locales (auto simp: pgVisible_def sessionMatches_def fold_or)

section \<open>Belonging\<close>

text \<open>The columns that say whom a session belongs to.\<close>

definition belongs :: "sessionMeta \<Rightarrow> string \<times> string \<times> string" where
  "belongs s = (se_Owner s, se_TenantID s, se_ProjectID s)"

definition rowOfSession :: "string \<Rightarrow> sessionMeta list \<Rightarrow> sessionMeta option" where
  "rowOfSession sid tbl = find (\<lambda>s. se_SessionID s = sid) tbl"

lemma getSession_row: "getSession up sid tbl = (if up then rowOfSession sid tbl else None)"
  by (auto simp: getSession_def getSessionFor_def rowOfSession_def everyOwner_def sessionMatches_def split: option.splits)

lemma rowOfSession_map:
  "(\<And>s. se_SessionID (f s) = se_SessionID s) \<Longrightarrow> rowOfSession sid (map f tbl) = map_option f (rowOfSession sid tbl)"
  by (induction tbl) (auto simp: rowOfSession_def)

lemma rowOfSession_ID: "rowOfSession sid tbl = Some s \<Longrightarrow> se_SessionID s = sid \<and> s \<in> set tbl"
  using find_SomeD by (fastforce simp: rowOfSession_def)

lemma moveSessionRow_row:
  assumes "moveSessionRow up sid pid t tbl = (True, tbl')" and "rowOfSession sid tbl = Some s" and "se_TenantID s = t"
  shows "rowOfSession sid tbl' = Some (s\<lparr>se_ProjectID := pid\<rparr>)"
    and "sid' \<noteq> sid \<Longrightarrow> rowOfSession sid' tbl' = rowOfSession sid' tbl"
proof -
  have m: "tbl' = map (\<lambda>s. if se_SessionID s = sid \<and> se_TenantID s = t then s\<lparr>se_ProjectID := pid\<rparr> else s) tbl"
    using assms(1) by (auto simp: moveSessionRow_def updateSessions_def split: if_splits)
  show "rowOfSession sid tbl' = Some (s\<lparr>se_ProjectID := pid\<rparr>)"
    using assms(2,3) rowOfSession_ID [OF assms(2)] by (simp add: m rowOfSession_map)
  show "rowOfSession sid' tbl' = rowOfSession sid' tbl" if "sid' \<noteq> sid"
    using that by (cases "rowOfSession sid' tbl") (auto simp: m rowOfSession_map dest: rowOfSession_ID)
qed

text \<open>
  The end of a capture and the repair at start never change whom a session belongs to, whatever the
  run reports.
\<close>

theorem belonging_survives_end:
  "map_option belongs (rowOfSession sid (snd (finishSession up q fin tbl))) = map_option belongs (rowOfSession sid tbl) \<and>
   map_option belongs (rowOfSession sid (snd (reconcileRunningSessions up t tbl))) = map_option belongs (rowOfSession sid tbl)"
  by (cases "rowOfSession sid tbl")
    (auto simp: finishSession_def reconcileRunningSessions_def updateSessions_def rowOfSession_map finishRow_def belongs_def)

text \<open>After the repair no session is left running.\<close>

lemma reconcile_leaves_none: "s \<in> set (snd (reconcileRunningSessions True t tbl)) \<Longrightarrow> se_Status s \<noteq> ''running''"
  by (auto simp: reconcileRunningSessions_def updateSessions_def split: if_splits)

end
