(* ===== verification/Session_Files.thy ===== *)
theory Session_Files
  imports Session_Store
begin

text \<open>
  The session manager of \<open>cmd/gt-mcp/main.go\<close>: the files under the work directory. Each user has a
  pointer to the current session (\<open>current.json\<close> or \<open>current.<owner>.json\<close>), each session a
  directory with \<open>metadata.json\<close> and the capture database. Identifiers of sessions are file names, so two
  sessions never share a directory. Times of a metadata file are texts; printing and reading them are arguments.
\<close>

section \<open>Files\<close>

datatype 'a fileState = NoFile | Unreadable | Garbled | Holds 'a

record sessionMetadata =
  md_Owner :: string
  md_ProjectID :: string
  md_TenantID :: string
  md_SessionID :: string
  md_StartedAt :: string
  md_StoppedAt :: string
  md_Status :: string
  md_Port :: int
  md_Plugin :: string
  md_Interface :: string
  md_PCAPFile :: string
  md_Source :: string
  md_ListenAddr :: string
  md_RawPackets :: int
  md_Events :: int
  md_Metrics :: int
  md_DecodeErrors :: int
  md_DurationSec :: int
  md_DBPath :: string
  md_Extra :: "(string \<times> string) list option"
  md_ManifestSnapshot :: string

definition zeroMetadata :: sessionMetadata where
  "zeroMetadata =
     \<lparr>md_Owner = [], md_ProjectID = [], md_TenantID = [], md_SessionID = [], md_StartedAt = [], md_StoppedAt = [], md_Status = [],
      md_Port = 0, md_Plugin = [], md_Interface = [], md_PCAPFile = [], md_Source = [], md_ListenAddr = [], md_RawPackets = 0,
      md_Events = 0, md_Metrics = 0, md_DecodeErrors = 0, md_DurationSec = 0, md_DBPath = [], md_Extra = None, md_ManifestSnapshot = []\<rparr>"

text \<open>
  The work directory: the pointers by file name, the metadata files and the times of the capture
  databases by session, and the directories in the order of their names, \<open>None\<close> when they cannot be listed.
\<close>

record workDir =
  wd_path :: string
  wd_current :: "string \<Rightarrow> sessionMetadata fileState"
  wd_metadata :: "string \<Rightarrow> sessionMetadata fileState"
  wd_capture :: "string \<Rightarrow> string fileState"
  wd_dirs :: "string list option"

definition dbPath :: "workDir \<Rightarrow> string \<Rightarrow> string" where
  "dbPath wd sid = wd_path wd @ ''/sessions/'' @ sid @ ''/capture.sqlite''"

section \<open>Pointers\<close>

definition shardChar :: "string \<Rightarrow> char" where
  "shardChar r =
     (case r of
        [c] \<Rightarrow> if inRange 97 122 c \<or> inRange 65 90 c \<or> inRange 48 57 c \<or> c = CHR ''-'' \<or> c = CHR ''_'' then c else CHR ''_''
      | _ \<Rightarrow> CHR ''_'')"

definition currentShardName :: "string \<Rightarrow> string" where
  "currentShardName owner =
     (if owner = [] then ''current.json'' else ''current.'' @ map shardChar (runes owner) @ ''.json'')"

definition writeCurrent :: "bool \<Rightarrow> sessionMetadata \<Rightarrow> workDir \<Rightarrow> bool \<times> workDir" where
  "writeCurrent ok m wd =
     (if ok then (True, wd\<lparr>wd_current := (wd_current wd)(currentShardName (md_Owner m) := Holds m)\<rparr>) else (False, wd))"

text \<open>\<open>Inl\<close> is an error, \<open>Inr None\<close> no pointer.\<close>

definition readCurrent :: "string \<Rightarrow> workDir \<Rightarrow> unit + sessionMetadata option" where
  "readCurrent owner wd =
     (case wd_current wd (currentShardName owner) of
        NoFile \<Rightarrow> Inr None | Unreadable \<Rightarrow> Inl () | Garbled \<Rightarrow> Inl () | Holds m \<Rightarrow> Inr (Some m))"

section \<open>Metadata\<close>

definition writeSessionMetadata :: "bool \<Rightarrow> string \<Rightarrow> sessionMetadata \<Rightarrow> workDir \<Rightarrow> bool \<times> workDir" where
  "writeSessionMetadata ok sid m wd =
     (if ok then (True, wd\<lparr>wd_metadata := (wd_metadata wd)(sid := Holds m)\<rparr>) else (False, wd))"

text \<open>Of a session without metadata only the database is known: no owner, no project.\<close>

definition bareMetadata :: "workDir \<Rightarrow> string \<Rightarrow> string \<Rightarrow> sessionMetadata" where
  "bareMetadata wd sid modTime =
     zeroMetadata\<lparr>md_SessionID := sid, md_StartedAt := modTime, md_Status := ''stopped'', md_DBPath := dbPath wd sid\<rparr>"

definition readSessionMetadata :: "string \<Rightarrow> string \<Rightarrow> workDir \<Rightarrow> unit + sessionMetadata option" where
  "readSessionMetadata sid owner wd =
     (case readCurrent owner wd of
        Inl e \<Rightarrow> Inl e
      | Inr cur \<Rightarrow>
          if map_option md_SessionID cur = Some sid then Inr cur
          else case wd_metadata wd sid of
            Holds m \<Rightarrow> Inr (Some m)
          | _ \<Rightarrow>
              (case wd_capture wd sid of
                 NoFile \<Rightarrow> Inr None
               | Holds t \<Rightarrow> Inr (Some (bareMetadata wd sid t))
               | _ \<Rightarrow> Inl ()))"

fun readAll :: "sessionOwnerFilter \<Rightarrow> workDir \<Rightarrow> string list \<Rightarrow> sessionMetadata list" where
  "readAll f wd [] = []"
| "readAll f wd (sid # sids) =
     (case readSessionMetadata sid (of_Owner f) wd of
        Inr (Some m) \<Rightarrow> if of_AllOwners f \<or> md_Owner m = of_Owner f then m # readAll f wd sids else readAll f wd sids
      | _ \<Rightarrow> readAll f wd sids)"

text \<open>Newest first, by the text of the time; sessions with equal texts keep their order.\<close>

definition listSessionFiles :: "sessionOwnerFilter \<Rightarrow> workDir \<Rightarrow> sessionMetadata list option" where
  "listSessionFiles f wd =
     map_option (\<lambda>sids. rev (sort_key md_StartedAt (rev (readAll f wd sids)))) (wd_dirs wd)"

text \<open>
  \<open>ok1\<close>: the pointer can be replaced, \<open>ok2\<close>: the directory can be removed. A pointer to the session
  becomes an empty object.
\<close>

definition removeDir :: "string \<Rightarrow> workDir \<Rightarrow> workDir" where
  "removeDir sid wd =
     wd\<lparr>wd_metadata := (wd_metadata wd)(sid := NoFile), wd_capture := (wd_capture wd)(sid := NoFile),
        wd_dirs := map_option (filter (\<lambda>s. s \<noteq> sid)) (wd_dirs wd)\<rparr>"

definition deleteSessionFiles :: "bool \<Rightarrow> bool \<Rightarrow> string \<Rightarrow> string \<Rightarrow> workDir \<Rightarrow> bool \<times> workDir" where
  "deleteSessionFiles ok1 ok2 sid owner wd =
     (case readCurrent owner wd of
        Inl e \<Rightarrow> (False, wd)
      | Inr cur \<Rightarrow>
          if map_option md_SessionID cur = Some sid \<and> \<not> ok1 then (False, wd)
          else
            (let wd1 = (if map_option md_SessionID cur = Some sid
                        then wd\<lparr>wd_current := (wd_current wd)(currentShardName owner := Holds zeroMetadata)\<rparr> else wd) in
             if ok2 then (True, removeDir sid wd1) else (False, wd1)))"

section \<open>Conversions\<close>

definition fsToSessionMeta :: "(string \<Rightarrow> time option) \<Rightarrow> sessionMetadata \<Rightarrow> sessionMeta" where
  "fsToSessionMeta parse m =
     \<lparr>se_Owner = md_Owner m, se_TenantID = md_TenantID m, se_ProjectID = md_ProjectID m, se_SessionID = md_SessionID m,
      se_StartedAt = (case parse (md_StartedAt m) of None \<Rightarrow> zeroTime | Some t \<Rightarrow> t),
      se_StoppedAt = (if md_StoppedAt m = [] then None else parse (md_StoppedAt m)),
      se_Status = md_Status m, se_Port = md_Port m, se_Plugin = md_Plugin m, se_Interface = md_Interface m,
      se_PCAPFile = md_PCAPFile m, se_RawPackets = md_RawPackets m, se_Events = md_Events m, se_Metrics = md_Metrics m,
      se_DecodeErrors = md_DecodeErrors m, se_DurationSec = md_DurationSec m, se_DBPath = md_DBPath m, se_Extra = md_Extra m,
      se_ManifestSnapshot = md_ManifestSnapshot m\<rparr>"

definition sessionMetaToFsMeta :: "(time \<Rightarrow> string) \<Rightarrow> sessionMeta \<Rightarrow> sessionMetadata" where
  "sessionMetaToFsMeta format s =
     \<lparr>md_Owner = se_Owner s, md_ProjectID = se_ProjectID s, md_TenantID = se_TenantID s, md_SessionID = se_SessionID s,
      md_StartedAt = format (se_StartedAt s), md_StoppedAt = (case se_StoppedAt s of None \<Rightarrow> [] | Some t \<Rightarrow> format t),
      md_Status = se_Status s, md_Port = se_Port s, md_Plugin = se_Plugin s, md_Interface = se_Interface s,
      md_PCAPFile = se_PCAPFile s, md_Source = [], md_ListenAddr = [], md_RawPackets = se_RawPackets s, md_Events = se_Events s,
      md_Metrics = se_Metrics s, md_DecodeErrors = se_DecodeErrors s, md_DurationSec = se_DurationSec s, md_DBPath = se_DBPath s,
      md_Extra = se_Extra s, md_ManifestSnapshot = se_ManifestSnapshot s\<rparr>"

text \<open>The two conversions are inverse where the clock text is readable.\<close>

lemma session_meta_roundtrip:
  assumes "\<And>t. parse (format t) = Some t" and "\<And>t. format t \<noteq> []"
  shows "fsToSessionMeta parse (sessionMetaToFsMeta format s) = s"
  using assms by (cases "se_StoppedAt s") (simp_all add: fsToSessionMeta_def sessionMetaToFsMeta_def)

section \<open>Reading back\<close>

lemma readCurrent_write:
  "writeCurrent ok m wd = (True, wd') \<Longrightarrow> currentShardName owner = currentShardName (md_Owner m) \<Longrightarrow> readCurrent owner wd' = Inr (Some m)"
  by (auto simp: writeCurrent_def readCurrent_def split: if_splits)

lemma readCurrent_write_other:
  "writeCurrent ok m wd = (r, wd') \<Longrightarrow> currentShardName owner \<noteq> currentShardName (md_Owner m) \<Longrightarrow> readCurrent owner wd' = readCurrent owner wd"
  by (auto simp: writeCurrent_def readCurrent_def split: if_splits)

lemma readCurrent_metadata [simp]: "readCurrent owner (wd\<lparr>wd_metadata := x\<rparr>) = readCurrent owner wd"
  by (simp add: readCurrent_def)

text \<open>
  Deleting a session leaves neither metadata nor database, so nothing reads it any more, unless the
  pointer of another user still carries it.
\<close>

theorem deleted_session_gone:
  assumes "deleteSessionFiles ok1 ok2 sid owner wd = (True, wd')" and "sid \<noteq> []"
    and "readCurrent other wd' = Inr cur" and "map_option md_SessionID cur \<noteq> Some sid"
  shows "readSessionMetadata sid other wd' = Inr None"
  using assms by (auto simp: deleteSessionFiles_def removeDir_def readSessionMetadata_def Let_def split: sum.splits if_splits)

text \<open>The names of pointers collide: a dot, a slash or any other such character is an underscore.\<close>

lemma shards_collide: "currentShardName ''a.b'' = currentShardName ''a_b''"
  by code_simp

end
