(* ===== verification/Session_Tools.thy ===== *)
theory Session_Tools
  imports Project_Access Session_Files
begin

text \<open>
  The tools on sessions of \<open>cmd/gt-mcp\<close>: authorization of a session, start, stop, listing,
  deletion and the move into a project. They work on the project tables, the session table and the
  session files together. \<open>up\<close> tells which database calls are served and \<open>ok\<close> which file writes succeed, by
  their position in the tool; what the pipeline process answers is an argument.
\<close>

section \<open>Authorizing a session (authz.go)\<close>

record 'v world =
  wo_projects :: "'v projectDB"
  wo_sessions :: "sessionMeta list"
  wo_files :: workDir

definition ownerFrom :: "authPrincipal option \<Rightarrow> string" where
  "ownerFrom ctx = (case ctx of None \<Rightarrow> [] | Some p \<Rightarrow> ap_Owner p)"

definition sessionResource :: "sessionMeta \<Rightarrow> resource" where
  "sessionResource s =
     \<lparr>rs_Kind = KindSession, rs_ID = se_SessionID s, rs_TenantID = se_TenantID s, rs_ProjectID = se_ProjectID s, rs_CreatorID = se_Owner s\<rparr>"

datatype sessionError =
  SessionIdRequired | SessionNotFound | NotYourSession | BadSource | TargetNotFound | NoActiveSession | CurrentUnreadable
| PipelineError | SessionRunning | FilesNotDeleted | MoveForbidden | NotInTarget | TenantDiffers | MoveFailed | StoreFailed
| PluginRequired | PluginRefused

definition zeroSession :: sessionMeta where
  "zeroSession = fsToSessionMeta (\<lambda>_. None) zeroMetadata"

definition resolveSessionMeta :: "bool \<Rightarrow> string \<Rightarrow> authPrincipal option \<Rightarrow> 'v world \<Rightarrow> sessionError + sessionMeta" where
  "resolveSessionMeta up sid ctx w =
     (if sid = [] then Inl SessionIdRequired
      else case getSession up sid (wo_sessions w) of
        Some s \<Rightarrow> Inr s
      | None \<Rightarrow>
          (case readSessionMetadata sid (ownerFrom ctx) (wo_files w) of
             Inr (Some m) \<Rightarrow> Inr (zeroSession\<lparr>se_SessionID := sid, se_Owner := md_Owner m, se_TenantID := md_TenantID m, se_ProjectID := md_ProjectID m\<rparr>)
           | _ \<Rightarrow> Inl SessionNotFound))"

definition authorizeSession :: "bool \<Rightarrow> bool \<Rightarrow> string \<Rightarrow> authPrincipal option \<Rightarrow> 'v world \<Rightarrow> sessionError option" where
  "authorizeSession up1 up2 sid ctx w =
     (case resolveSessionMeta up1 sid ctx w of
        Inl e \<Rightarrow> Some e
      | Inr s \<Rightarrow> if canDo up2 (wo_projects w) ctx SessionRead (sessionResource s) = None then None else Some NotYourSession)"

definition visibleSessionFilter :: "bool \<Rightarrow> authPrincipal option \<Rightarrow> 'v projectDB \<Rightarrow> sessionOwnerFilter option" where
  "visibleSessionFilter up ctx db =
     (if (case ctx of Some p \<Rightarrow> ap_IsAdmin p | None \<Rightarrow> False) then Some everyOwner
      else map_option (\<lambda>ps. \<lparr>of_Owner = ownerFrom ctx, of_AllOwners = False, of_ProjectIDs = map pj_ID ps\<rparr>)
        (listVisible up (ownerFrom ctx) False db))"

section \<open>Start and stop (main.go)\<close>

datatype captureSource = ProxySource string | FileSource string | AgentSource

record startRequest =
  sq_Plugin :: string
  sq_Port :: int
  sq_Agent :: bool
  sq_ProjectID :: string
  sq_Owner :: string
  sq_AllOwners :: bool
  sq_PluginOwners :: "string list"
  sq_CheckRules :: "string list"
  sq_Source :: captureSource

record startArgs =
  sa_Port :: int
  sa_Plugin :: string
  sa_PCAPFile :: string
  sa_Source :: string
  sa_ProjectID :: string
  sa_ListenAddr :: string

text \<open>The source is \<open>agent\<close> when the argument is absent; the path of a capture file is absolute.\<close>

definition sourceName :: "string \<Rightarrow> string" where
  "sourceName s = (if s = ''mobile'' then ''proxy'' else s)"

text \<open>The tenant of the project that the capture goes into, and whether the caller may read the project.\<close>

definition targetTenant ::
  "bool \<Rightarrow> bool \<Rightarrow> authPrincipal option \<Rightarrow> string \<Rightarrow> 'v projectDB \<Rightarrow> sessionError + string" where
  "targetTenant up1 up2 ctx pid db =
     (if pid = [] then Inr []
      else case getProject up1 pid db of
        None \<Rightarrow> Inl StoreFailed
      | Some None \<Rightarrow> Inl TargetNotFound
      | Some (Some p) \<Rightarrow> if canDo up2 db ctx ProjectRead (projectResource p) = None then Inr (pj_TenantID p) else Inl TargetNotFound)"

definition startListenAddr :: "string \<Rightarrow> string \<Rightarrow> string" where
  "startListenAddr source addr = (if source = ''proxy'' \<and> trimSpace addr = [] then ''127.0.0.1:9090'' else addr)"

definition startRequestOf ::
  "('v checkRule \<Rightarrow> string option) \<Rightarrow> (nat \<Rightarrow> bool) \<Rightarrow> authPrincipal option \<Rightarrow> startArgs \<Rightarrow> 'v projectDB \<Rightarrow> startRequest" where
  "startRequestOf marshal up ctx a db =
     (let source = sourceName (sa_Source a) in
      \<lparr>sq_Plugin = sa_Plugin a, sq_Port = sa_Port a, sq_Agent = (source = ''agent''), sq_ProjectID = sa_ProjectID a,
       sq_Owner = ownerFrom ctx, sq_AllOwners = (case ctx of Some p \<Rightarrow> ap_IsAdmin p | None \<Rightarrow> False),
       sq_PluginOwners = (if ctx = None then [] else pluginOwnersFor (up 2) db (ownerFrom ctx)),
       sq_CheckRules = checkRulesJSONFor marshal (up 3) (up 4) db ctx (sa_ProjectID a),
       sq_Source = (if source = ''proxy'' then ProxySource (startListenAddr source (sa_ListenAddr a))
                    else if sa_PCAPFile a \<noteq> [] then FileSource (sa_PCAPFile a) else AgentSource)\<rparr>)"

datatype sessionReply =
  SessionError sessionError
| Started string
| Stopped string
| SessionDeleted string
| SessionMoved string string
| PluginSet string string

definition startMetadata :: "authPrincipal option \<Rightarrow> string \<Rightarrow> string \<Rightarrow> string \<Rightarrow> string \<Rightarrow> startArgs \<Rightarrow> sessionMetadata" where
  "startMetadata ctx tenant sid now db a =
     (let source = sourceName (sa_Source a) in
      zeroMetadata\<lparr>md_Owner := ownerFrom ctx, md_TenantID := tenant, md_ProjectID := sa_ProjectID a, md_SessionID := sid,
        md_StartedAt := now, md_Status := ''running'', md_Port := sa_Port a, md_Plugin := sa_Plugin a,
        md_PCAPFile := sa_PCAPFile a, md_Source := source, md_ListenAddr := startListenAddr source (sa_ListenAddr a), md_DBPath := db\<rparr>)"

text \<open>\<open>pipeline\<close> answers a start with the identifier and the database of the new session.\<close>

definition handleStartCapture ::
  "('v checkRule \<Rightarrow> string option) \<Rightarrow> (startRequest \<Rightarrow> (string \<times> string) option) \<Rightarrow> (nat \<Rightarrow> bool) \<Rightarrow> (nat \<Rightarrow> bool) \<Rightarrow> string \<Rightarrow>
   startArgs \<Rightarrow> authPrincipal option \<Rightarrow> 'v world \<Rightarrow> sessionReply \<times> 'v world" where
  "handleStartCapture marshal pipeline up ok now a ctx w =
     (let source = sourceName (sa_Source a) in
      if source \<noteq> ''proxy'' \<and> source \<noteq> ''agent'' then (SessionError BadSource, w)
      else case targetTenant (up 0) (up 1) ctx (sa_ProjectID a) (wo_projects w) of
        Inl e \<Rightarrow> (SessionError e, w)
      | Inr tenant \<Rightarrow>
          (case pipeline (startRequestOf marshal up ctx a (wo_projects w)) of
             None \<Rightarrow> (SessionError PipelineError, w)
           | Some (sid, db) \<Rightarrow>
               (let m = startMetadata ctx tenant sid now db a
                in (Started sid, w\<lparr>wo_files := snd (writeCurrent (ok 1) m (snd (writeSessionMetadata (ok 0) sid m (wo_files w))))\<rparr>))))"

text \<open>What the pipeline counted, and its answers to a stop: \<open>NoSuchCapture\<close> is the code FailedPrecondition.\<close>

record stopCounts =
  sc_RawPackets :: int
  sc_Events :: int
  sc_Metrics :: int
  sc_DecodeErrors :: int
  sc_DurationSec :: int

datatype stopAnswer = StopDone stopCounts | NoSuchCapture | StopFailed

definition noCounts :: stopCounts where
  "noCounts = \<lparr>sc_RawPackets = 0, sc_Events = 0, sc_Metrics = 0, sc_DecodeErrors = 0, sc_DurationSec = 0\<rparr>"

definition stopTarget :: "(nat \<Rightarrow> bool) \<Rightarrow> string \<Rightarrow> authPrincipal option \<Rightarrow> 'v world \<Rightarrow> sessionError + string" where
  "stopTarget up sid ctx w =
     (if sid = [] then
        (case readCurrent (ownerFrom ctx) (wo_files w) of
           Inl e \<Rightarrow> Inl CurrentUnreadable
         | Inr None \<Rightarrow> Inl NoActiveSession
         | Inr (Some m) \<Rightarrow> if md_Status m = ''stopped'' then Inl NoActiveSession else Inr (md_SessionID m))
      else case authorizeSession (up 0) (up 1) sid ctx w of Some e \<Rightarrow> Inl e | None \<Rightarrow> Inr sid)"

definition withCounts :: "stopCounts \<Rightarrow> string \<Rightarrow> sessionMetadata \<Rightarrow> sessionMetadata" where
  "withCounts c now m =
     (let m = m\<lparr>md_Status := ''stopped'', md_StoppedAt := now\<rparr>;
          m = (if 0 < sc_RawPackets c \<or> 0 < sc_Events c \<or> 0 < sc_Metrics c \<or> 0 < sc_DecodeErrors c
               then m\<lparr>md_RawPackets := sc_RawPackets c, md_Events := sc_Events c, md_Metrics := sc_Metrics c, md_DecodeErrors := sc_DecodeErrors c\<rparr>
               else m)
      in if 0 < sc_DurationSec c then m\<lparr>md_DurationSec := sc_DurationSec c\<rparr> else m)"

definition stoppedMetadata :: "string \<Rightarrow> string \<Rightarrow> workDir \<Rightarrow> sessionMetadata option" where
  "stoppedMetadata sid owner wd =
     (case readCurrent owner wd of
        Inr (Some m) \<Rightarrow> if md_SessionID m = sid then Some m
          else (case readSessionMetadata sid owner wd of Inr x \<Rightarrow> x | Inl e \<Rightarrow> None)
      | _ \<Rightarrow> (case readSessionMetadata sid owner wd of Inr x \<Rightarrow> x | Inl e \<Rightarrow> None))"

definition recordStop :: "(nat \<Rightarrow> bool) \<Rightarrow> stopCounts \<Rightarrow> string \<Rightarrow> string \<Rightarrow> string \<Rightarrow> workDir \<Rightarrow> workDir" where
  "recordStop ok c now sid owner wd =
     (case stoppedMetadata sid owner wd of
        None \<Rightarrow> wd
      | Some m0 \<Rightarrow>
          (let m = withCounts c now m0;
               wd1 = (case readCurrent owner wd of
                        Inr (Some cur) \<Rightarrow> if md_SessionID cur = sid then snd (writeCurrent (ok 0) m wd) else wd
                      | _ \<Rightarrow> wd)
           in snd (writeSessionMetadata (ok 1) (md_SessionID m) m wd1)))"

definition handleStopCapture ::
  "(string \<Rightarrow> stopAnswer) \<Rightarrow> (nat \<Rightarrow> bool) \<Rightarrow> (nat \<Rightarrow> bool) \<Rightarrow> string \<Rightarrow> string \<Rightarrow> authPrincipal option \<Rightarrow> 'v world \<Rightarrow>
   sessionReply \<times> 'v world" where
  "handleStopCapture pipeline up ok now sidArg ctx w =
     (case stopTarget up sidArg ctx w of
        Inl e \<Rightarrow> (SessionError e, w)
      | Inr sid \<Rightarrow>
          (case pipeline sid of
             StopFailed \<Rightarrow> (SessionError PipelineError, w)
           | StopDone c \<Rightarrow> (Stopped sid, w\<lparr>wo_files := recordStop ok c now sid (ownerFrom ctx) (wo_files w)\<rparr>)
           | NoSuchCapture \<Rightarrow> (Stopped sid, w\<lparr>wo_files := recordStop ok noCounts now sid (ownerFrom ctx) (wo_files w)\<rparr>)))"

text \<open>\<open>set_session_plugin\<close>: what the pipeline is asked, \<open>Some False\<close> when it refuses.\<close>

definition handleSetSessionPlugin ::
  "(string \<Rightarrow> string \<Rightarrow> string list \<Rightarrow> bool option) \<Rightarrow> (nat \<Rightarrow> bool) \<Rightarrow> string \<Rightarrow> string \<Rightarrow> authPrincipal option \<Rightarrow> 'v world \<Rightarrow> sessionReply" where
  "handleSetSessionPlugin pipeline up sid plugin ctx w =
     (if sid = [] \<or> plugin = [] then SessionError PluginRequired
      else case authorizeSession (up 0) (up 1) sid ctx w of
        Some e \<Rightarrow> SessionError e
      | None \<Rightarrow>
          (case pipeline sid plugin (if ctx = None then [] else pluginOwnersFor (up 2) (wo_projects w) (ownerFrom ctx)) of
             None \<Rightarrow> SessionError PipelineError
           | Some False \<Rightarrow> SessionError PluginRefused
           | Some True \<Rightarrow> PluginSet sid plugin))"

section \<open>Delete and move\<close>

definition handleDeleteSession ::
  "(nat \<Rightarrow> bool) \<Rightarrow> (nat \<Rightarrow> bool) \<Rightarrow> string \<Rightarrow> authPrincipal option \<Rightarrow> 'v world \<Rightarrow> sessionReply \<times> 'v world" where
  "handleDeleteSession up ok sid ctx w =
     (if (case readCurrent (ownerFrom ctx) (wo_files w) of
            Inr (Some m) \<Rightarrow> md_Status m = ''running'' \<and> md_SessionID m = sid | _ \<Rightarrow> False)
      then (SessionError SessionRunning, w)
      else case authorizeSession (up 0) (up 1) sid ctx w of
        Some e \<Rightarrow> (SessionError e, w)
      | None \<Rightarrow>
          (case deleteSessionFiles (ok 0) (ok 1) sid (ownerFrom ctx) (wo_files w) of
             (False, wd) \<Rightarrow> (SessionError FilesNotDeleted, w\<lparr>wo_files := wd\<rparr>)
           | (True, wd) \<Rightarrow> (SessionDeleted sid, w\<lparr>wo_files := wd\<rparr>)))"

text \<open>The steps before the session is moved: rights on the session, rights on the target, tenants.\<close>

definition moveAllowed ::
  "(nat \<Rightarrow> bool) \<Rightarrow> sessionMeta \<Rightarrow> string \<Rightarrow> authPrincipal option \<Rightarrow> 'v projectDB \<Rightarrow> sessionError option" where
  "moveAllowed up s pid ctx db =
     (if canDo (up 1) db ctx SessionMoveProject (sessionResource s) \<noteq> None then Some MoveForbidden
      else if pid = [] then None
      else case getProject (up 2) pid db of
        None \<Rightarrow> Some StoreFailed
      | Some None \<Rightarrow> Some TargetNotFound
      | Some (Some p) \<Rightarrow>
          if canDo (up 3) db ctx ProjectRead (projectResource p) \<noteq> None then Some NotInTarget
          else if projectTenant p \<noteq> tenantOrDefault (se_TenantID s) then Some TenantDiffers
          else None)"

definition syncMovedFiles :: "(nat \<Rightarrow> bool) \<Rightarrow> string \<Rightarrow> string \<Rightarrow> authPrincipal option \<Rightarrow> workDir \<Rightarrow> workDir" where
  "syncMovedFiles ok sid pid ctx wd =
     (case readSessionMetadata sid (pr_User (authzPrincipal ctx)) wd of
        Inr (Some m) \<Rightarrow>
          (let m = m\<lparr>md_ProjectID := pid\<rparr> in snd (writeCurrent (ok 1) m (snd (writeSessionMetadata (ok 0) sid m wd))))
      | _ \<Rightarrow> wd)"

definition moveSessionToProject ::
  "(nat \<Rightarrow> bool) \<Rightarrow> (nat \<Rightarrow> bool) \<Rightarrow> string \<Rightarrow> string \<Rightarrow> authPrincipal option \<Rightarrow> 'v world \<Rightarrow> sessionError option \<times> 'v world" where
  "moveSessionToProject up ok sid pid ctx w =
     (case resolveSessionMeta (up 0) sid ctx w of
        Inl e \<Rightarrow> (Some e, w)
      | Inr s \<Rightarrow>
          (case moveAllowed up s pid ctx (wo_projects w) of
             Some e \<Rightarrow> (Some e, w)
           | None \<Rightarrow>
               (case moveSessionRow (up 4) sid pid (tenantOrDefault (se_TenantID s)) (wo_sessions w) of
                  (False, tbl) \<Rightarrow> (Some MoveFailed, w\<lparr>wo_sessions := tbl\<rparr>)
                | (True, tbl) \<Rightarrow>
                    (None, w\<lparr>wo_sessions := tbl, wo_files := syncMovedFiles ok sid pid ctx (wo_files w)\<rparr>))))"

definition handleMoveSessionToProject ::
  "(nat \<Rightarrow> bool) \<Rightarrow> (nat \<Rightarrow> bool) \<Rightarrow> string \<Rightarrow> string \<Rightarrow> authPrincipal option \<Rightarrow> 'v world \<Rightarrow> sessionReply \<times> 'v world" where
  "handleMoveSessionToProject up ok sidArg pidArg ctx w =
     (let sid = trimSpace sidArg; pid = trimSpace pidArg in
      if sid = [] then (SessionError SessionIdRequired, w)
      else case moveSessionToProject up ok sid pid ctx w of
        (Some e, w') \<Rightarrow> (SessionError e, w')
      | (None, w') \<Rightarrow> (SessionMoved sid pid, w'))"

section \<open>Listing\<close>

text \<open>What the pipeline reports of a running capture; the last report of a session counts.\<close>

record liveSession =
  lv_SessionID :: string
  lv_State :: string
  lv_Port :: int
  lv_Plugin :: string
  lv_Interface :: string

definition liveOf :: "liveSession list \<Rightarrow> string \<Rightarrow> liveSession option" where
  "liveOf live sid = find (\<lambda>l. lv_SessionID l = sid) (rev live)"

text \<open>Rows of the table first, then files of sessions without a row; fields the table lacks come from the files.\<close>

definition fillFromFile :: "sessionMetadata list \<Rightarrow> sessionMetadata \<Rightarrow> sessionMetadata" where
  "fillFromFile files m =
     (case find (\<lambda>x. md_SessionID x = md_SessionID m) (rev files) of
        None \<Rightarrow> m
      | Some x \<Rightarrow>
          m\<lparr>md_Source := (if md_Source m = [] then md_Source x else md_Source m),
            md_ListenAddr := (if md_ListenAddr m = [] then md_ListenAddr x else md_ListenAddr m),
            md_Interface := (if md_Interface m = [] then md_Interface x else md_Interface m),
            md_Extra := (if md_Extra m = None then md_Extra x else md_Extra m)\<rparr>)"

definition mergeSources :: "sessionMetadata list \<Rightarrow> sessionMetadata list option \<Rightarrow> sessionMetadata list" where
  "mergeSources rows files =
     (case files of
        None \<Rightarrow> rows
      | Some fs \<Rightarrow> map (fillFromFile fs) (rows @ filter (\<lambda>m. md_SessionID m \<notin> md_SessionID ` set rows) fs))"

text \<open>\<open>counts\<close> is the status of one running capture: packets, events, errors.\<close>

definition overlayLive ::
  "liveSession list option \<Rightarrow> (string \<Rightarrow> (int \<times> int \<times> int) option) \<Rightarrow> sessionMetadata \<Rightarrow> sessionMetadata" where
  "overlayLive live counts m =
     (case live of
        None \<Rightarrow> m
      | Some ls \<Rightarrow>
          (case liveOf ls (md_SessionID m) of
             None \<Rightarrow> if md_Status m = ''running'' then m\<lparr>md_Status := ''stopped''\<rparr> else m
           | Some l \<Rightarrow>
               (let m = m\<lparr>md_Status := (if lv_State l \<noteq> [] then lv_State l else md_Status m),
                          md_Port := (if lv_Port l \<noteq> 0 then lv_Port l else md_Port m),
                          md_Plugin := (if lv_Plugin l \<noteq> [] then lv_Plugin l else md_Plugin m),
                          md_Interface := (if lv_Interface l \<noteq> [] then lv_Interface l else md_Interface m)\<rparr>
                in case (if md_Status m = ''running'' then counts (md_SessionID m) else None) of
                     None \<Rightarrow> m
                   | Some (raw, ev, de) \<Rightarrow> m\<lparr>md_RawPackets := raw, md_Events := ev, md_DecodeErrors := de\<rparr>)))"

definition matchStatus :: "string \<Rightarrow> string \<Rightarrow> bool" where
  "matchStatus f s \<longleftrightarrow> f = [] \<or> (if f = ''failed'' then s = ''error'' else s = f)"

definition liveEntry :: "workDir \<Rightarrow> liveSession \<Rightarrow> sessionMetadata" where
  "liveEntry wd l =
     zeroMetadata\<lparr>md_SessionID := lv_SessionID l, md_Status := lv_State l, md_Port := lv_Port l, md_Plugin := lv_Plugin l,
       md_Interface := lv_Interface l, md_DBPath := dbPath wd (lv_SessionID l)\<rparr>"

text \<open>Captures that only the pipeline knows: each is authorized by itself.\<close>

definition liveOnly ::
  "(string \<Rightarrow> bool) \<Rightarrow> (string \<Rightarrow> bool) \<Rightarrow> string \<Rightarrow> authPrincipal option \<Rightarrow> 'v world \<Rightarrow> string list \<Rightarrow> liveSession list \<Rightarrow> sessionMetadata list" where
  "liveOnly up1 up2 statusArg ctx w seen ls =
     map (liveEntry (wo_files w))
       (filter (\<lambda>l. lv_SessionID l \<notin> set seen \<and> authorizeSession (up1 (lv_SessionID l)) (up2 (lv_SessionID l)) (lv_SessionID l) ctx w = None \<and>
                    matchStatus statusArg (lv_State l))
         (List.map_filter (liveOf ls) (uniq (map lv_SessionID ls))))"

definition handleListAllSessions ::
  "(time \<Rightarrow> string) \<Rightarrow> liveSession list option \<Rightarrow> (string \<Rightarrow> (int \<times> int \<times> int) option) \<Rightarrow> (nat \<Rightarrow> bool) \<Rightarrow> (string \<Rightarrow> bool) \<Rightarrow> (string \<Rightarrow> bool) \<Rightarrow>
   string \<Rightarrow> authPrincipal option \<Rightarrow> 'v world \<Rightarrow> sessionMetadata list option" where
  "handleListAllSessions format live counts up up1 up2 statusArg ctx w =
     (case visibleSessionFilter (up 0) ctx (wo_projects w) of
        None \<Rightarrow> None
      | Some f \<Rightarrow>
          (let rows = (case listSessionsFor (up 1) f (wo_sessions w) of None \<Rightarrow> [] | Some ss \<Rightarrow> map (sessionMetaToFsMeta format) ss);
               out = filter (\<lambda>m. matchStatus statusArg (md_Status m))
                       (map (overlayLive live counts) (mergeSources rows (listSessionFiles f (wo_files w))))
           in Some (out @ (case live of None \<Rightarrow> [] | Some ls \<Rightarrow> liveOnly up1 up2 statusArg ctx w (map md_SessionID out) ls))))"

definition sessionStatusMeta :: "(string \<Rightarrow> time option) \<Rightarrow> bool \<Rightarrow> string \<Rightarrow> authPrincipal option \<Rightarrow> 'v world \<Rightarrow> sessionMeta option" where
  "sessionStatusMeta parse up sid ctx w =
     (case getSession up sid (wo_sessions w) of
        Some s \<Rightarrow> Some s
      | None \<Rightarrow> (case readSessionMetadata sid (ownerFrom ctx) (wo_files w) of
                   Inr (Some m) \<Rightarrow> Some (fsToSessionMeta parse m) | _ \<Rightarrow> None))"

definition getDBPath :: "(nat \<Rightarrow> bool) \<Rightarrow> string \<Rightarrow> authPrincipal option \<Rightarrow> 'v world \<Rightarrow> sessionError + string" where
  "getDBPath up sid ctx w =
     (case authorizeSession (up 0) (up 1) sid ctx w of
        Some e \<Rightarrow> Inl e
      | None \<Rightarrow>
          (case getSession (up 2) sid (wo_sessions w) of
             Some s \<Rightarrow> Inr (se_DBPath s)
           | None \<Rightarrow>
               (case readSessionMetadata sid (ownerFrom ctx) (wo_files w) of
                  Inr (Some m) \<Rightarrow> Inr (md_DBPath m)
                | _ \<Rightarrow> (case readCurrent (ownerFrom ctx) (wo_files w) of Inr (Some m) \<Rightarrow> Inr (md_DBPath m) | _ \<Rightarrow> Inr []))))"

text \<open>\<open>get_project\<close>: the project with the marks of its members, the caller's rights and the sessions.\<close>

definition handleGetProject ::
  "(nat \<Rightarrow> bool) \<Rightarrow> (action \<Rightarrow> bool) \<Rightarrow> (string \<Rightarrow> bool) \<Rightarrow> string \<Rightarrow> authPrincipal option \<Rightarrow> 'v world \<Rightarrow>
   projectError + ('v project \<times> action list \<times> sessionMeta list) option" where
  "handleGetProject up upc known idArg ctx w =
     (case loadFor up (wo_projects w) ctx (trimSpace idArg) ProjectRead of
        Inl e \<Rightarrow> Inl e
      | Inr p \<Rightarrow> Inr (map_option (\<lambda>ss. (withRegistered known p, projectCapabilities upc (wo_projects w) ctx p, ss))
          (listSessionsForProject (up 2) (trimSpace idArg) (wo_sessions w))))"

section \<open>Reading and listing\<close>

lemma ownerFrom_user: "ownerFrom ctx = pr_User (authzPrincipal ctx)"
  by (simp add: ownerFrom_def authzPrincipal_def split: option.splits)

lemma overlay_id [simp]: "md_SessionID (overlayLive live counts m) = md_SessionID m"
  by (auto simp: overlayLive_def Let_def split: option.splits)

lemma fill_id [simp]: "md_SessionID (fillFromFile fs m) = md_SessionID m"
  by (auto simp: fillFromFile_def split: option.splits)

lemma toFs_id [simp]: "md_SessionID (sessionMetaToFsMeta format s) = se_SessionID s"
  by (simp add: sessionMetaToFsMeta_def)

lemma merge_ids:
  "md_SessionID ` set (mergeSources rows files) =
     md_SessionID ` set rows \<union> (case files of None \<Rightarrow> {} | Some fs \<Rightarrow> md_SessionID ` set fs)"
  by (cases files) (auto simp: mergeSources_def image_image image_Un)

lemma liveOf_ID: "liveOf ls sid = Some l \<Longrightarrow> lv_SessionID l = sid"
  unfolding liveOf_def by (auto dest: find_SomeD)

lemma liveOnly_ids:
  "md_SessionID ` set (liveOnly up1 up2 [] ctx w seen ls) =
     {sid \<in> lv_SessionID ` set ls. sid \<notin> set seen \<and> authorizeSession (up1 sid) (up2 sid) sid ctx w = None}"
proof -
  have ex: "\<exists>l. liveOf ls (lv_SessionID x) = Some l" if "x \<in> set ls" for x
    using that by (cases "liveOf ls (lv_SessionID x)") (auto simp: liveOf_def find_None_iff)
  let ?L = "set (List.map_filter (liveOf ls) (uniq (map lv_SessionID ls)))"
  have L: "l \<in> ?L \<longleftrightarrow> (\<exists>x \<in> set ls. liveOf ls (lv_SessionID x) = Some l)" for l
    by (force simp: List.map_filter_def)
  have "lv_SessionID ` {l \<in> ?L. P (lv_SessionID l)} = {sid \<in> lv_SessionID ` set ls. P sid}" for P
  proof (intro equalityI subsetI)
    fix sid
    assume "sid \<in> lv_SessionID ` {l \<in> ?L. P (lv_SessionID l)}"
    then obtain l x where "x \<in> set ls" "liveOf ls (lv_SessionID x) = Some l" "sid = lv_SessionID l" "P sid"
      using L by blast
    then show "sid \<in> {sid \<in> lv_SessionID ` set ls. P sid}"
      using liveOf_ID by force
  next
    fix sid
    assume "sid \<in> {sid \<in> lv_SessionID ` set ls. P sid}"
    then obtain x where x: "x \<in> set ls" "sid = lv_SessionID x" "P sid"
      by blast
    then obtain l where l: "liveOf ls (lv_SessionID x) = Some l"
      using ex by blast
    moreover have "lv_SessionID l = sid"
      using liveOf_ID [OF l] x(2) by simp
    ultimately show "sid \<in> lv_SessionID ` {l \<in> ?L. P (lv_SessionID l)}"
      using L x by (metis (mono_tags, lifting) image_eqI mem_Collect_eq)
  qed
  from this [of "\<lambda>sid. sid \<notin> set seen \<and> authorizeSession (up1 sid) (up2 sid) sid ctx w = None"] show ?thesis
    by (simp add: liveOnly_def matchStatus_def image_image liveEntry_def)
qed

text \<open>The identifiers in the list, without a filter on the status.\<close>

lemma listed_ids:
  assumes "handleListAllSessions format live counts up up1 up2 [] ctx w = Some out"
    and f: "visibleSessionFilter (up 0) ctx (wo_projects w) = Some f" and "up 1"
  shows "sid \<in> md_SessionID ` set out \<longleftrightarrow>
    sid \<in> se_SessionID ` set (filter (sqliteVisible f) (wo_sessions w)) \<or>
    (\<exists>fs. listSessionFiles f (wo_files w) = Some fs \<and> sid \<in> md_SessionID ` set fs) \<or>
    (\<exists>ls. live = Some ls \<and> sid \<in> lv_SessionID ` set ls \<and> authorizeSession (up1 sid) (up2 sid) sid ctx w = None)"
proof -
  let ?rows = "map (sessionMetaToFsMeta format) (newestFirst (filter (sqliteVisible f) (wo_sessions w)))"
  let ?base = "map (overlayLive live counts) (mergeSources ?rows (listSessionFiles f (wo_files w)))"
  have out: "out = ?base @ (case live of None \<Rightarrow> [] | Some ls \<Rightarrow> liveOnly up1 up2 [] ctx w (map md_SessionID ?base) ls)"
    using assms by (cases live) (simp_all add: handleListAllSessions_def Let_def listSessionsFor_def matchStatus_def)
  have base: "md_SessionID ` set ?base = se_SessionID ` set (filter (sqliteVisible f) (wo_sessions w)) \<union>
      (case listSessionFiles f (wo_files w) of None \<Rightarrow> {} | Some fs \<Rightarrow> md_SessionID ` set fs)"
    using merge_ids [of ?rows "listSessionFiles f (wo_files w)"] by (simp add: image_image newestFirst_def)
  have "sid \<in> md_SessionID ` set out \<longleftrightarrow> sid \<in> md_SessionID ` set ?base \<or>
      (\<exists>ls. live = Some ls \<and> sid \<in> md_SessionID ` set (liveOnly up1 up2 [] ctx w (map md_SessionID ?base) ls))"
    unfolding out by (cases live) (simp_all only: set_append image_Un Un_iff option.case list.set image_empty empty_iff, auto)
  also have "\<dots> \<longleftrightarrow> sid \<in> md_SessionID ` set ?base \<or>
      (\<exists>ls. live = Some ls \<and> sid \<in> lv_SessionID ` set ls \<and> authorizeSession (up1 sid) (up2 sid) sid ctx w = None)"
    unfolding liveOnly_ids by (auto simp del: set_map simp: set_map [symmetric])
  finally show ?thesis
    unfolding base by (cases "listSessionFiles f (wo_files w)") auto
qed

text \<open>The backup column of every project names the users of the member table.\<close>

definition backup_synced :: "'v projectDB \<Rightarrow> bool" where
  "backup_synced db \<longleftrightarrow>
     (\<forall>r \<in> set (pd_projects db). pw_ID r \<noteq> [] \<and> pw_Owner r \<noteq> [] \<and>
        set (map mb_User (unmarshalSlice (pw_Members r))) = set (map mr_User (filter (\<lambda>m. mr_Project m = pw_ID r) (pd_members db))))"

lemma synced_visible:
  assumes ok: "projects_ok db" and sync: "backup_synced db" and r: "projectRowOf pid db = Some r"
  shows "visibleToUser (scanProject r) u \<longleftrightarrow> roleIn db pid u \<noteq> RoleNone"
proof -
  have row: "r \<in> set (pd_projects db)" "pw_ID r = pid"
    using projectRowOf_ID [OF r] by auto
  have "list_ex (\<lambda>m. mb_User m = u) (unmarshalSlice (pw_Members r)) \<longleftrightarrow> u \<in> set (map mb_User (unmarshalSlice (pw_Members r)))"
    by (auto simp: list_ex_iff)
  also have "\<dots> \<longleftrightarrow> u \<in> set (map mr_User (filter (\<lambda>m. mr_Project m = pid) (pd_members db)))"
    using sync row by (auto simp: backup_synced_def)
  also have "\<dots> \<longleftrightarrow> memberRowOf pid u db \<noteq> None"
    by (auto simp: memberRowOf_def find_None_iff)
  finally have m: "list_ex (\<lambda>m. mb_User m = u) (unmarshalSlice (pw_Members r)) \<longleftrightarrow> memberRowOf pid u db \<noteq> None" .
  have "pw_Owner r \<noteq> []"
    using sync row by (auto simp: backup_synced_def)
  then show ?thesis
    using m r by (auto simp: visibleToUser_def scanProject_def roleIn_eq ownerCols_def ownedBy_def split: option.splits)
qed

lemma filter_projects:
  assumes ok: "projects_ok db" and sync: "backup_synced db" and f: "visibleSessionFilter up ctx db = Some f"
    and na: "\<not> pr_IsAdmin (authzPrincipal ctx)"
  shows "\<not> of_AllOwners f \<and> of_Owner f = ownerFrom ctx \<and> (pid \<in> set (of_ProjectIDs f) \<longleftrightarrow> roleIn db pid (ownerFrom ctx) \<noteq> RoleNone)"
proof -
  obtain ps where ps: "listVisible up (ownerFrom ctx) False db = Some ps"
      and ff: "f = \<lparr>of_Owner = ownerFrom ctx, of_AllOwners = False, of_ProjectIDs = map pj_ID ps\<rparr>"
    using f na by (auto simp: visibleSessionFilter_def authzPrincipal_def split: option.splits if_splits)
  have "pid \<in> pj_ID ` set ps \<longleftrightarrow> roleIn db pid (ownerFrom ctx) \<noteq> RoleNone"
  proof (cases "projectRowOf pid db")
    case None
    then have "pid \<notin> pj_ID ` set ps"
      using ps by (auto simp: listVisible_def scanProject_def projectRowOf_None split: if_splits)
    with None show ?thesis
      by (simp add: roleIn_no_row)
  next
    case (Some r)
    then show ?thesis
      using listVisible_member [OF Some ps] listVisible_only [OF ok Some ps] synced_visible [OF ok sync Some] by blast
  qed
  with ff show ?thesis
    by simp
qed

lemma authorize_row:
  assumes s: "rowOfSession sid (wo_sessions w) = Some s" and "sid \<noteq> []" and na: "\<not> pr_IsAdmin (authzPrincipal ctx)"
    and ten: "principalTenant (authzPrincipal ctx) = tenantOrDefault (se_TenantID s)"
  shows "authorizeSession True True sid ctx w = None \<longleftrightarrow>
    (if se_ProjectID s = [] then se_Owner s = ownerFrom ctx else roleIn (wo_projects w) (se_ProjectID s) (ownerFrom ctx) \<noteq> RoleNone)"
proof -
  have "roleAtLeast rl RoleMember \<longleftrightarrow> rl \<noteq> RoleNone" for rl
    by (cases rl) (simp_all add: roleAtLeast_def roleLevel_def)
  then show ?thesis
    using assms
    by (auto simp: authorizeSession_def resolveSessionMeta_def getSession_row canDo_def Let_def ofProject_def sessionResource_def
        roleOf_roleIn ownerFrom_user decide_def decideSession_def inProject_def resTenant_def tenantOrDefault_def projectActionRole_def
        sessionProjectActionRole_def memberCreatorAllowed_def split: option.splits if_splits)
qed

lemma readAll_sound:
  "m \<in> set (readAll f wd sids) \<Longrightarrow> \<exists>sid. readSessionMetadata sid (of_Owner f) wd = Inr (Some m) \<and> (of_AllOwners f \<or> md_Owner m = of_Owner f)"
  by (induction f wd sids rule: readAll.induct) (auto split: sum.splits option.splits if_splits)

text \<open>The files name the same owner as the table.\<close>

definition files_agree :: "string \<Rightarrow> 'v world \<Rightarrow> bool" where
  "files_agree owner w \<longleftrightarrow>
     (\<forall>sid m s. readSessionMetadata sid owner (wo_files w) = Inr (Some m) \<longrightarrow> rowOfSession (md_SessionID m) (wo_sessions w) = Some s \<longrightarrow>
        md_Owner m = se_Owner s)"

section \<open>Properties\<close>


text \<open>
  (C40) Deletion is checked as reading: a plain member of a project, to whom the policy refuses the
  deletion of a session that another member captured, deletes its files with \<open>delete_session\<close>; the row stays,
  so the list still shows the session.
\<close>

theorem member_deletes_foreign_session:
  assumes s: "rowOfSession sid (wo_sessions w) = Some s" and ne: "sid \<noteq> []" and proj: "se_ProjectID s \<noteq> []"
    and role: "roleIn (wo_projects w) (se_ProjectID s) (ownerFrom ctx) = RoleMember" and foreign: "se_Owner s \<noteq> ownerFrom ctx"
    and na: "\<not> pr_IsAdmin (authzPrincipal ctx)" and ten: "principalTenant (authzPrincipal ctx) = tenantOrDefault (se_TenantID s)"
    and cur: "readCurrent (ownerFrom ctx) (wo_files w) = Inr None"
  shows "canDo True (wo_projects w) ctx SessionDelete (sessionResource s) = Some (Denied (RoleTooLow RoleAdmin)) \<and>
    (\<exists>w'. handleDeleteSession (\<lambda>_. True) (\<lambda>_. True) sid ctx w = (SessionDeleted sid, w') \<and>
       wd_metadata (wo_files w') sid = NoFile \<and> wd_capture (wo_files w') sid = NoFile \<and>
       rowOfSession sid (wo_sessions w') = Some s)"
proof -
  have "canDo True (wo_projects w) ctx SessionDelete (sessionResource s) = Some (Denied (RoleTooLow RoleAdmin))"
    using role foreign na ten proj
    by (auto simp: canDo_def Let_def ofProject_def sessionResource_def roleOf_roleIn ownerFrom_user decide_def decideSession_def inProject_def
        resTenant_def tenantOrDefault_def projectActionRole_def sessionProjectActionRole_def memberCreatorAllowed_def roleAtLeast_def roleLevel_def)
  moreover have "authorizeSession True True sid ctx w = None"
    unfolding authorize_row [OF s ne na ten] using proj role by simp
  then have "handleDeleteSession (\<lambda>_. True) (\<lambda>_. True) sid ctx w = (SessionDeleted sid, w\<lparr>wo_files := removeDir sid (wo_files w)\<rparr>)"
    using cur by (simp add: handleDeleteSession_def deleteSessionFiles_def)
  ultimately show ?thesis
    using s by (simp add: removeDir_def)
qed

text \<open>
  Users whose names differ only in special characters share the pointer to the current session:
  when one of them starts a capture, \<open>stop_capture\<close> without a session, called by the other, stops it, although the
  other may not even read that session.
\<close>

theorem shared_pointer_stops_foreign_capture:
  assumes start: "handleStartCapture marshal pipeline up (\<lambda>_. True) now a ctx1 w = (Started sid, w1)" and ne: "sid \<noteq> []"
    and shard: "currentShardName (ownerFrom ctx1) = currentShardName (ownerFrom ctx2)" and other: "ownerFrom ctx1 \<noteq> ownerFrom ctx2"
    and personal: "sa_ProjectID a = []" and na: "\<not> pr_IsAdmin (authzPrincipal ctx2)" and norow: "rowOfSession sid (wo_sessions w) = None"
  shows "authorizeSession True True sid ctx2 w1 \<noteq> None \<and>
    fst (handleStopCapture (\<lambda>_. StopDone counts) up2 ok2 later [] ctx2 w1) = Stopped sid"
proof -
  obtain dbp where w1: "w1 = w\<lparr>wo_files := snd (writeCurrent True (startMetadata ctx1 [] sid now dbp a)
      (snd (writeSessionMetadata True sid (startMetadata ctx1 [] sid now dbp a) (wo_files w))))\<rparr>"
    using start personal
    by (auto simp: handleStartCapture_def Let_def targetTenant_def split: if_splits sum.splits option.splits)
  let ?m = "startMetadata ctx1 [] sid now dbp a"
  have m: "md_Owner ?m = ownerFrom ctx1" "md_SessionID ?m = sid" "md_Status ?m = ''running''" "md_ProjectID ?m = []" "md_TenantID ?m = []"
    using personal by (simp_all add: startMetadata_def Let_def)
  have cur: "readCurrent (ownerFrom ctx2) (wo_files w1) = Inr (Some ?m)"
    using shard by (simp add: w1 m writeCurrent_def writeSessionMetadata_def readCurrent_def)
  have read: "readSessionMetadata sid (ownerFrom ctx2) (wo_files w1) = Inr (Some ?m)"
    using cur m(2) by (simp add: readSessionMetadata_def)
  have "resolveSessionMeta True sid ctx2 w1 =
      Inr (zeroSession\<lparr>se_SessionID := sid, se_Owner := ownerFrom ctx1, se_TenantID := [], se_ProjectID := []\<rparr>)"
    using ne norow read m by (simp add: resolveSessionMeta_def getSession_row w1)
  then have "authorizeSession True True sid ctx2 w1 \<noteq> None"
    using other na
    by (auto simp: authorizeSession_def canDo_def Let_def ofProject_def sessionResource_def zeroSession_def fsToSessionMeta_def ownerFrom_user
        decide_def decideSession_def inProject_def projectActionRole_def)
  then show ?thesis
    using cur m by (simp add: handleStopCapture_def stopTarget_def)
qed


text \<open>
  Moving a session makes it the current one of its owner, whatever capture the owner is running:
  \<open>stop_capture\<close> without a session then works on the moved one.
\<close>

theorem move_replaces_current:
  assumes mv: "moveSessionToProject up (\<lambda>_. True) sid pid ctx w = (None, w')"
    and m: "readSessionMetadata sid (pr_User (authzPrincipal ctx)) (wo_files w) = Inr (Some m)"
  shows "readCurrent (md_Owner m) (wo_files w') = Inr (Some (m\<lparr>md_ProjectID := pid\<rparr>))"
proof -
  have "wo_files w' = syncMovedFiles (\<lambda>_. True) sid pid ctx (wo_files w)"
    using mv by (auto simp: moveSessionToProject_def split: sum.splits option.splits prod.splits bool.splits)
  then show ?thesis
    using m by (simp add: syncMovedFiles_def Let_def writeCurrent_def writeSessionMetadata_def readCurrent_def)
qed

section \<open>Witnesses\<close>

definition syncedDB :: "vval projectDB" where
  "syncedDB = teamDB\<lparr>pd_projects := [teamRow\<lparr>pw_Members := Some [\<lparr>mb_User = ''cid'', mb_Role = ''member'', mb_Registered = False\<rparr>,
     \<lparr>mb_User = ''bob'', mb_Role = ''admin'', mb_Registered = False\<rparr>]\<rparr>]\<rparr>"

definition captured :: "string \<Rightarrow> string \<Rightarrow> string \<Rightarrow> sessionMeta" where
  "captured sid owner pid = zeroSession\<lparr>se_SessionID := sid, se_Owner := owner, se_TenantID := ''default'', se_ProjectID := pid\<rparr>"

definition emptyDir :: workDir where
  "emptyDir = \<lparr>wd_path = ''/w'', wd_current = \<lambda>_. NoFile, wd_metadata = \<lambda>_. NoFile, wd_capture = \<lambda>_. NoFile, wd_dirs = Some []\<rparr>"

definition teamWorld :: "vval world" where
  "teamWorld = \<lparr>wo_projects = syncedDB, wo_sessions = [captured ''s1'' ''bob'' ''p'', captured ''s2'' ''dan'' ''p''], wo_files = emptyDir\<rparr>"


theorem member_deletes_foreign_session_witness:
  "canDo True syncedDB (asUser ''cid'') SessionDelete (sessionResource (captured ''s1'' ''bob'' ''p'')) = Some (Denied (RoleTooLow RoleAdmin)) \<and>
   fst (handleDeleteSession (\<lambda>_. True) (\<lambda>_. True) ''s1'' (asUser ''cid'') teamWorld) = SessionDeleted ''s1''"
proof -
  have h: "rowOfSession ''s1'' (wo_sessions teamWorld) = Some (captured ''s1'' ''bob'' ''p'')" "''s1'' \<noteq> []"
      "se_ProjectID (captured ''s1'' ''bob'' ''p'') \<noteq> []"
      "roleIn (wo_projects teamWorld) (se_ProjectID (captured ''s1'' ''bob'' ''p'')) (ownerFrom (asUser ''cid'')) = RoleMember"
      "se_Owner (captured ''s1'' ''bob'' ''p'') \<noteq> ownerFrom (asUser ''cid'')" "\<not> pr_IsAdmin (authzPrincipal (asUser ''cid''))"
      "principalTenant (authzPrincipal (asUser ''cid'')) = tenantOrDefault (se_TenantID (captured ''s1'' ''bob'' ''p''))"
    by code_simp+
  have "readCurrent (ownerFrom (asUser ''cid'')) (wo_files teamWorld) = Inr None"
    by (simp add: readCurrent_def teamWorld_def emptyDir_def)
  from member_deletes_foreign_session [OF h this] show ?thesis
    by (auto simp: teamWorld_def)
qed

definition plainStart :: startArgs where
  "plainStart = \<lparr>sa_Port = 80, sa_Plugin = ''x'', sa_PCAPFile = [], sa_Source = ''agent'', sa_ProjectID = [], sa_ListenAddr = []\<rparr>"

theorem shared_pointer_stops_foreign_capture_witness:
  "fst (handleStopCapture (\<lambda>_. StopDone noCounts) (\<lambda>_. True) (\<lambda>_. True) ''t2'' [] (asUser ''a.b'')
     (snd (handleStartCapture (\<lambda>_. None) (\<lambda>_. Some (''s9'', ''db'')) (\<lambda>_. True) (\<lambda>_. True) ''t1'' plainStart (asUser ''a_b'') teamWorld))) = Stopped ''s9''"
proof -
  let ?r = "handleStartCapture (\<lambda>_. None) (\<lambda>_. Some (''s9'', ''db'')) (\<lambda>_. True) (\<lambda>_. True) ''t1'' plainStart (asUser ''a_b'') teamWorld"
  have st: "?r = (Started ''s9'', snd ?r)"
    by (simp add: handleStartCapture_def Let_def plainStart_def sourceName_def targetTenant_def)
  have h: "''s9'' \<noteq> []" "currentShardName (ownerFrom (asUser ''a_b'')) = currentShardName (ownerFrom (asUser ''a.b''))"
      "ownerFrom (asUser ''a_b'') \<noteq> ownerFrom (asUser ''a.b'')" "sa_ProjectID plainStart = []" "\<not> pr_IsAdmin (authzPrincipal (asUser ''a.b''))"
      "rowOfSession ''s9'' (wo_sessions teamWorld) = None"
    by code_simp+
  show ?thesis
    using shared_pointer_stops_foreign_capture [OF st h] by blast
qed


end
