(* ===== verification/Spec2Isabelle.thy ===== *)
theory Spec2Isabelle
  imports GT_Prelude Reassembler Retention Rule Authz Baseline Capture_Task Dispatcher Proxy_Lease State_Detail OAuth Tunnel_Hub Capture_Filter Session_Tools
begin

text \<open>
  \<^bold>\<open>GameTrace\<close>, a capture and analysis platform for game traffic, as a library of theories.

  A probe (\<open>cmd/gt-agent\<close>) captures packets and keeps them in a disk queue (\<open>pkg/spool\<close>) until
  the pipeline (\<open>cmd/gt-pipeline\<close>) has confirmed them. The pipeline hands packets to decoder
  plugins, which reassemble TCP streams with \<open>sdk/framing\<close> and report events
  (\<open>pkg/event\<close>) built from dynamic values. Declarative rules (\<open>sdk/rule\<close>) name and pair the
  events, the baselines of \<open>pkg/state\<close> turn reported state into changes with a value before and
  after, and the control plane (\<open>cmd/gt-mcp\<close>) guards every action with \<open>pkg/authz\<close>.

  \<^bold>\<open>Theories.\<close>
  \<^item> \<open>GT_Prelude\<close>: machine integers, slices of byte streams, Go results that may panic,
    decimal printing, shared lemmas.
  \<^item> \<open>Framing\<close>, \<open>Reassembler\<close> (\<open>sdk/framing/framing.go\<close>): flow keys, extraction of the L7
    payload, the per-flow reassembly buffer with 32-bit sequence numbers, parked segments,
    and the reassembler over many flows. The lemmas show that what a parser reads is a prefix
    of the stream sent, that nothing parked is stranded, and that flows do not interfere.
  \<^item> \<open>Spool\<close>, \<open>Spool_Recovery\<close>, \<open>Retention\<close> (\<open>pkg/spool\<close>): segments on disk, cursor,
    append, delivery, acknowledgement, crash and recovery scan, quotas, retention and archive
    replay. The locale \<open>at_least_once\<close> states the contract of a queue with redelivery and is
    interpreted on the spool.
  \<^item> \<open>Event_Value\<close>, \<open>Event_Model\<close> (\<open>pkg/event\<close>): the dynamic value type with its equality and
    updates, the MsgPack form, event identifiers (UUIDv7), contexts, state changes, reserved
    keys.
  \<^item> \<open>Rule\<close> (\<open>sdk/rule\<close>): predicates, rule validation, evaluation and pairing. The JSON
    library \<open>gjson\<close> is a record of functions, \<open>gjson_api\<close>, that every evaluation takes.
  \<^item> \<open>Authz\<close> (\<open>pkg/authz\<close>): the authorization policy, equal to a permission matrix.
  \<^item> \<open>Baseline\<close> (\<open>pkg/state/baseline.go\<close>): entity baselines. The locale \<open>baseline_store\<close> is the
    Go interface of the store, interpreted on the in-memory one; \<open>Apply\<close> refines the
    specification of a change log.

  \<^bold>\<open>Conventions.\<close> Structs are records with a prefix per type, errors are values of datatypes,
  mutexes are left out where the code documents a single writer, clocks and random bytes are
  arguments. Fixed-width integers are words where wrap-around matters. Association lists stand
  for Go maps; where Go iterates a map, one order is fixed and the properties do not depend on
  it. The recovery scan of the spool has fuel: the number of segment files plus one, and a
  lemma shows that it is enough; all other loops are total functions.

  \<^bold>\<open>Not modelled.\<close> Network and database I/O (the stores behind SQL, gRPC servers and clients,
  the capture drivers), generated protobuf code, the Web UI, command-line mains, logging and
  the example decoders.
\<close>

end
